(* ===== verification/Prelude.thy ===== *)
theory Prelude
  imports Main "HOL-Library.Word" "HOL-Library.Monad_Syntax"
begin

text \<open>
  Shared types and lemmas of the development.

  Conventions of the model. A Go panic is the value \<^term>\<open>None\<close> of an option result, so
  that "this operation never panics" is a theorem and not an assumption; an error return is a
  constructor of an error datatype. A struct shared by pointer whose identity the code compares
  lives in a heap, a map from addresses (\<open>nat\<close>) to records. A 64-bit counter whose guards keep
  it inside the signed range is an \<open>int\<close>, with the range proved; a counter that may wrap is a
  word. Instants and durations are \<open>int\<close> in nanoseconds. A critical section (the code between
  taking and releasing a mutex) is one atomic step.
\<close>

type_synonym byte = "8 word"
type_synonym auth_key_id = "byte list"

text \<open>\<open>binary.LittleEndian.PutUint64\<close>.\<close>

definition le64 :: "int \<Rightarrow> byte list" where
  "le64 x = map (\<lambda>i. word_of_int (x div 256 ^ i)) [0..<8]"

definition max_int64 :: int where "max_int64 = 2 ^ 63 - 1"

definition in_int64 :: "int \<Rightarrow> bool" where
  "in_int64 x \<longleftrightarrow> - (2 ^ 63) \<le> x \<and> x < 2 ^ 63"

text \<open>The message states of \<open>msgs_state_info\<close> (encrypted.go).\<close>

definition msgStateUnknown :: byte where "msgStateUnknown = 1"
definition msgStateNotReceived :: byte where "msgStateNotReceived = 2"
definition msgStateNotReceivedHigh :: byte where "msgStateNotReceivedHigh = 3"
definition msgStateReceived :: byte where "msgStateReceived = 4"

lemma bind_SomeE [elim!]:
  assumes "Option.bind m f = Some y"
  obtains x where "m = Some x" and "f x = Some y"
  using assms by (cases m) auto

lemma card_insert_upd:
  assumes "finite A" and "x \<notin> A"
  shows "card (insert x A) = Suc (card A)"
  using assms by simp

lemma int_card_remove:
  assumes "finite A" and "x \<in> A"
  shows "int (card (A - {x})) = int (card A) - 1"
  using assms by (cases "card A") (auto simp: card_Diff_singleton card_gt_0_iff)

lemma sum_fun_upd_int:
  fixes f :: "'a \<Rightarrow> int"
  assumes "finite A" and "x \<in> A"
  shows "sum (f(x := v)) A = sum f A - f x + v"
proof -
  have "sum (f(x := v)) A = v + sum (f(x := v)) (A - {x})"
    using assms by (simp add: sum.remove)
  also have "sum (f(x := v)) (A - {x}) = sum f (A - {x})"
    by (rule sum.cong) auto
  finally show ?thesis
    using assms by (simp add: sum.remove)
qed

lemma unat_and_mask_bound: "unat (and (w :: 64 word) 63) < 64"
proof -
  have "and w 63 \<le> 63" by (rule word_and_le1)
  then have "unat (and w 63) \<le> unat (63 :: 64 word)" by (simp add: word_le_nat_alt)
  then show ?thesis by simp
qed

lemma remove1_filter_distinct:
  assumes "distinct (map f xs)" and "x \<in> set xs"
  shows "remove1 x xs = filter (\<lambda>y. f y \<noteq> f x) xs"
  using assms
proof (induction xs)
  case Nil
  then show ?case by simp
next
  case (Cons y ys)
  show ?case
  proof (cases "x = y")
    case True
    with Cons.prems(1) have "filter (\<lambda>z. f z \<noteq> f y) ys = ys"
      by (metis (mono_tags, lifting) filter_True image_eqI set_map distinct.simps(2) list.simps(9) True)
    with True show ?thesis by simp
  next
    case False
    with Cons have "f y \<noteq> f x" by auto
    with False Cons show ?thesis by auto
  qed
qed

end
