(* ===== verification/Bounded_Counter.thy ===== *)
theory Bounded_Counter
  imports Prelude
begin

text \<open>
  The contract of a bounded reservation counter, the accounting primitive of the MTProto edge.
  Three types of the code provide it: \<open>rpcResultFlightLimit\<close> (rpc_flight.go),
  \<open>inboundFrameBudget\<close> (frame_budget.go) and \<open>outboundTrackedBudget\<close> (outbound.go). Their
  compare-and-swap loops reserve only what fits, and their release panics when more is returned
  than was reserved. A client that returns only what it still holds never meets that panic, and
  the counter equals what is held: \<open>hold_run_safe\<close>, proved once in the locale.
\<close>

datatype hold_op = Acquire int | Release nat

fun hold_step ::
  "(int \<Rightarrow> 'b \<Rightarrow> bool \<times> 'b) \<Rightarrow> (int \<Rightarrow> 'b \<Rightarrow> 'b option) \<Rightarrow>
     hold_op \<Rightarrow> 'b \<times> int list \<Rightarrow> ('b \<times> int list) option" where
  "hold_step res rel (Acquire n) (b, held) =
     (case res n b of (True, b') \<Rightarrow> Some (b', held @ [n]) | (False, b') \<Rightarrow> Some (b', held))"
| "hold_step res rel (Release i) (b, held) =
     (if i < length held
      then (case rel (held ! i) b of None \<Rightarrow> None
              | Some b' \<Rightarrow> Some (b', take i held @ drop (Suc i) held))
      else Some (b, held))"

fun hold_run ::
  "(int \<Rightarrow> 'b \<Rightarrow> bool \<times> 'b) \<Rightarrow> (int \<Rightarrow> 'b \<Rightarrow> 'b option) \<Rightarrow>
     hold_op list \<Rightarrow> 'b \<times> int list \<Rightarrow> ('b \<times> int list) option" where
  "hold_run res rel [] s = Some s"
| "hold_run res rel (x # xs) s =
     (case hold_step res rel x s of None \<Rightarrow> None | Some s' \<Rightarrow> hold_run res rel xs s')"

lemma sum_list_drop_nth:
  fixes xs :: "int list"
  assumes "i < length xs"
  shows "sum_list (take i xs @ drop (Suc i) xs) = sum_list xs - xs ! i"
proof -
  have "xs = take i xs @ xs ! i # drop (Suc i) xs"
    using assms by (rule id_take_nth_drop)
  then have "sum_list xs = sum_list (take i xs) + xs ! i + sum_list (drop (Suc i) xs)"
    by (metis add.assoc sum_list.Cons sum_list_append)
  then show ?thesis by simp
qed

lemma nth_le_sum_list:
  fixes xs :: "int list"
  assumes "i < length xs" and "\<forall>x\<in>set xs. 0 < x"
  shows "xs ! i \<le> sum_list xs"
proof -
  have "0 \<le> sum_list (take i xs @ drop (Suc i) xs)"
    using assms(2) by (intro sum_list_nonneg) (auto dest!: in_set_takeD in_set_dropD)
  then show ?thesis using sum_list_drop_nth [OF assms(1)] by simp
qed

locale bounded_counter =
  fixes reserve :: "int \<Rightarrow> 'b \<Rightarrow> bool \<times> 'b"
    and release :: "int \<Rightarrow> 'b \<Rightarrow> 'b option"
    and used :: "'b \<Rightarrow> int"
    and cap :: "'b \<Rightarrow> int"
    and inv :: "'b \<Rightarrow> bool"
  assumes used_bounds: "inv b \<Longrightarrow> 0 \<le> used b \<and> used b \<le> cap b"
    and reserve_ok: "inv b \<Longrightarrow> 0 < n \<Longrightarrow> reserve n b = (True, b') \<Longrightarrow>
      inv b' \<and> used b' = used b + n \<and> cap b' = cap b"
    and reserve_fail: "reserve n b = (False, b') \<Longrightarrow> b' = b"
    and reserve_fits: "inv b \<Longrightarrow> 0 < n \<Longrightarrow> fst (reserve n b) = (n \<le> cap b - used b)"
    and release_ok: "inv b \<Longrightarrow> 0 < n \<Longrightarrow> n \<le> used b \<Longrightarrow>
      \<exists>b'. release n b = Some b' \<and> inv b' \<and> used b' = used b - n \<and> cap b' = cap b"
    and release_panics: "inv b \<Longrightarrow> used b < n \<Longrightarrow> release n b = None"
begin

lemma reserve_release_id:
  assumes "inv b" and "0 < n" and "reserve n b = (True, b')"
  shows "\<exists>b''. release n b' = Some b'' \<and> used b'' = used b \<and> cap b'' = cap b \<and> inv b''"
proof -
  have b': "inv b'" "used b' = used b + n" "cap b' = cap b"
    using reserve_ok [OF assms] by auto
  moreover have "0 \<le> used b" using used_bounds [OF assms(1)] by simp
  ultimately obtain b'' where "release n b' = Some b''" "inv b''" "used b'' = used b' - n"
      "cap b'' = cap b'"
    using release_ok [of b' n] assms(2) by auto
  then show ?thesis using b' by auto
qed

definition owned :: "'b \<times> int list \<Rightarrow> bool" where
  "owned s \<longleftrightarrow> inv (fst s) \<and> used (fst s) = sum_list (snd s) \<and> (\<forall>x\<in>set (snd s). 0 < x)"

lemma hold_step_safe:
  assumes "owned (b, held)" and "\<And>n. op = Acquire n \<Longrightarrow> 0 < n"
  shows "\<exists>b' held'. hold_step reserve release op (b, held) = Some (b', held') \<and>
    owned (b', held') \<and> cap b' = cap b"
proof (cases op)
  case (Acquire n)
  with assms(2) have n: "0 < n" by simp
  obtain ok b' where r: "reserve n b = (ok, b')" by (cases "reserve n b")
  show ?thesis
  proof (cases ok)
    case True
    with r reserve_ok [of b n b'] assms(1) n Acquire show ?thesis
      by (auto simp: owned_def)
  next
    case False
    with r have "b' = b" using reserve_fail by simp
    with r False assms(1) Acquire show ?thesis by auto
  qed
next
  case (Release i)
  show ?thesis
  proof (cases "i < length held")
    case True
    have pos: "0 < held ! i" using assms(1) True by (auto simp: owned_def)
    have le: "held ! i \<le> used b"
      using assms(1) nth_le_sum_list [OF True] by (auto simp: owned_def)
    from release_ok [of b, OF _ pos le] assms(1) obtain b' where
      "release (held ! i) b = Some b'" "inv b'" "used b' = used b - held ! i" "cap b' = cap b"
      by (auto simp: owned_def)
    moreover have "\<forall>x\<in>set (take i held @ drop (Suc i) held). 0 < x"
      using assms(1) by (auto simp: owned_def dest!: in_set_takeD in_set_dropD)
    ultimately show ?thesis
      using Release True assms(1) sum_list_drop_nth [OF True] by (auto simp: owned_def)
  next
    case False
    with Release assms(1) show ?thesis by auto
  qed
qed

lemma hold_run_safe:
  assumes "owned s" and "\<forall>n. Acquire n \<in> set ops \<longrightarrow> 0 < n"
  shows "\<exists>b' held'. hold_run reserve release ops s = Some (b', held') \<and>
    used b' = sum_list held' \<and> used b' \<le> cap b' \<and> cap b' = cap (fst s)"
  using assms
proof (induction ops arbitrary: s)
  case Nil
  then show ?case
    using used_bounds [of "fst s"] by (cases s) (auto simp: owned_def)
next
  case (Cons op ops)
  obtain b held where s: "s = (b, held)" by (cases s)
  have pos: "0 < n" if "op = Acquire n" for n using Cons.prems(2) that by auto
  obtain b' held' where
    1: "hold_step reserve release op s = Some (b', held')" "owned (b', held')" "cap b' = cap b"
    using hold_step_safe [of b held op] pos Cons.prems(1) s by auto
  from Cons.IH [OF 1(2)] Cons.prems(2) 1 s show ?case by auto
qed

end

end
