(* ===== verification/Rpc_Limits.thy ===== *)
theory Rpc_Limits
  imports Bounded_Counter
begin

text \<open>
  The byte and entry counters of the edge, each an instance of \<open>bounded_counter\<close>:
  \<open>rpcResultFlightLimit\<close> (rpc_flight.go), \<open>inboundFrameBudget\<close> (frame_budget.go),
  \<open>outboundTrackedBudget\<close> (outbound.go). The compare-and-swap retry loop is one atomic
  read-modify-write here; the interleavings of the loop itself are the subject of
  \<open>Frame_Budget\<close>.
\<close>

subsection \<open>rpcResultFlightLimit\<close>

record flight_limit =
  fl_max :: int
  fl_used :: int

definition flight_reserveN :: "int \<Rightarrow> flight_limit \<Rightarrow> bool \<times> flight_limit" where
  "flight_reserveN delta l =
     (if fl_max l \<le> 0 then (False, l)
      else if delta \<le> 0 then (False, l)
      else if fl_used l < 0 \<or> fl_used l > fl_max l - delta then (False, l)
      else (True, l\<lparr>fl_used := fl_used l + delta\<rparr>))"

definition flight_reserve :: "flight_limit \<Rightarrow> bool \<times> flight_limit" where
  "flight_reserve l = flight_reserveN 1 l"

definition flight_releaseN :: "int \<Rightarrow> flight_limit \<Rightarrow> flight_limit option" where
  "flight_releaseN delta l =
     (if delta \<le> 0 then None
      else let remaining = fl_used l - delta
           in if remaining < 0 then None else Some (l\<lparr>fl_used := remaining\<rparr>))"

definition flight_release :: "flight_limit \<Rightarrow> flight_limit option" where
  "flight_release l = flight_releaseN 1 l"

definition flight_inv :: "flight_limit \<Rightarrow> bool" where
  "flight_inv l \<longleftrightarrow> 0 \<le> fl_used l \<and> fl_used l \<le> max 0 (fl_max l)"

interpretation flight: bounded_counter flight_reserveN flight_releaseN fl_used
  "\<lambda>l. max 0 (fl_max l)" flight_inv
  by unfold_locales
    (auto simp: flight_reserveN_def flight_releaseN_def flight_inv_def Let_def split: if_splits)

lemma flight_reserve_Some:
  assumes "flight_reserve l = (True, l')"
  shows "l' = l\<lparr>fl_used := fl_used l + 1\<rparr> \<and> 0 \<le> fl_used l \<and> fl_used l < fl_max l"
  using assms by (auto simp: flight_reserve_def flight_reserveN_def split: if_splits)

lemma flight_reserve_fail: "flight_reserve l = (False, l') \<Longrightarrow> l' = l"
  by (auto simp: flight_reserve_def flight_reserveN_def split: if_splits)

lemma flight_release_Some:
  "1 \<le> fl_used l \<Longrightarrow> flight_release l = Some (l\<lparr>fl_used := fl_used l - 1\<rparr>)"
  by (simp add: flight_release_def flight_releaseN_def)

subsection \<open>inboundFrameBudget\<close>

definition defaultInboundFrameGlobalMaxBytes :: int where
  "defaultInboundFrameGlobalMaxBytes = 512 * 2 ^ 20"

record frame_budget =
  fb_max :: int
  fb_used :: int

datatype frame_error = InboundFrameBudgetExceeded

definition newInboundFrameBudget :: "int \<Rightarrow> frame_budget" where
  "newInboundFrameBudget m =
     \<lparr>fb_max = (if m \<le> 0 then defaultInboundFrameGlobalMaxBytes else m), fb_used = 0\<rparr>"

definition growReservation ::
  "frame_budget \<Rightarrow> int \<Rightarrow> int \<Rightarrow> int \<Rightarrow> (frame_error + int) \<times> frame_budget" where
  "growReservation b current wireBytes plaintextBytes =
     (if current < 0 \<or> wireBytes \<le> 0 \<or> plaintextBytes < 0 \<or> wireBytes > fb_max b
         \<or> plaintextBytes > fb_max b - wireBytes
      then (Inl InboundFrameBudgetExceeded, b)
      else let target = wireBytes + plaintextBytes
           in if target \<le> current then (Inr current, b)
              else let n = target - current
                   in if n > fb_max b - fb_used b then (Inl InboundFrameBudgetExceeded, b)
                      else (Inr target, b\<lparr>fb_used := fb_used b + n\<rparr>))"

definition frame_reserve ::
  "frame_budget \<Rightarrow> int \<Rightarrow> int \<Rightarrow> (frame_error + int) \<times> frame_budget" where
  "frame_reserve b wireBytes plaintextBytes = growReservation b 0 wireBytes plaintextBytes"

definition frame_release :: "int \<Rightarrow> frame_budget \<Rightarrow> frame_budget option" where
  "frame_release n b =
     (if n = 0 then Some b
      else let u = fb_used b - n in if u < 0 then None else Some (b\<lparr>fb_used := u\<rparr>))"

definition frame_inv :: "frame_budget \<Rightarrow> bool" where
  "frame_inv b \<longleftrightarrow> 0 \<le> fb_used b \<and> fb_used b \<le> fb_max b \<and> 0 < fb_max b \<and> fb_max b \<le> max_int64"

lemma frame_inv_new: "m \<le> max_int64 \<Longrightarrow> frame_inv (newInboundFrameBudget m)"
  by (auto simp: frame_inv_def newInboundFrameBudget_def max_int64_def
      defaultInboundFrameGlobalMaxBytes_def)

text \<open>A whole wire frame with no plaintext copy is the counter's plain reservation.\<close>

definition frame_take :: "int \<Rightarrow> frame_budget \<Rightarrow> bool \<times> frame_budget" where
  "frame_take n b = (case frame_reserve b n 0 of (Inl _, b') \<Rightarrow> (False, b') | (Inr _, b') \<Rightarrow> (True, b'))"

interpretation frame: bounded_counter frame_take frame_release fb_used fb_max frame_inv
  by unfold_locales
    (auto simp: frame_take_def frame_reserve_def growReservation_def frame_release_def
      frame_inv_def Let_def split: if_splits)

lemma growReservation_cases:
  assumes "frame_inv b"
  shows "(\<exists>b'. growReservation b cur w p = (Inr (max cur (w + p)), b') \<and>
            b' = b\<lparr>fb_used := fb_used b + (max cur (w + p) - cur)\<rparr> \<and> frame_inv b')
       \<or> growReservation b cur w p = (Inl InboundFrameBudgetExceeded, b)"
  using assms by (auto simp: growReservation_def frame_inv_def Let_def max_def)

subsection \<open>outboundTrackedBudget\<close>

definition defaultOutboundTrackedMaxBytes :: int where
  "defaultOutboundTrackedMaxBytes = 512 * 2 ^ 20"

record tracked_budget =
  tb_max :: int
  tb_used :: int

definition newOutboundTrackedBudget :: "int \<Rightarrow> tracked_budget" where
  "newOutboundTrackedBudget m =
     \<lparr>tb_max = (if m \<le> 0 then defaultOutboundTrackedMaxBytes else m), tb_used = 0\<rparr>"

definition tracked_reserve :: "int \<Rightarrow> tracked_budget \<Rightarrow> bool \<times> tracked_budget" where
  "tracked_reserve n b =
     (if n \<le> 0 then (True, b)
      else if n > tb_max b then (False, b)
      else if tb_used b > tb_max b - n then (False, b)
      else (True, b\<lparr>tb_used := tb_used b + n\<rparr>))"

definition tracked_release :: "int \<Rightarrow> tracked_budget \<Rightarrow> tracked_budget option" where
  "tracked_release n b =
     (if n \<le> 0 then Some b
      else let u = tb_used b - n in if u < 0 then None else Some (b\<lparr>tb_used := u\<rparr>))"

definition tracked_inv :: "tracked_budget \<Rightarrow> bool" where
  "tracked_inv b \<longleftrightarrow> 0 \<le> tb_used b \<and> tb_used b \<le> tb_max b"

interpretation tracked: bounded_counter tracked_reserve tracked_release tb_used tb_max tracked_inv
  by unfold_locales
    (auto simp: tracked_reserve_def tracked_release_def tracked_inv_def Let_def split: if_splits)

lemma tracked_inv_new: "tracked_inv (newOutboundTrackedBudget m)"
  by (auto simp: tracked_inv_def newOutboundTrackedBudget_def defaultOutboundTrackedMaxBytes_def)

lemma tracked_release_nonpos [simp]: "n \<le> 0 \<Longrightarrow> tracked_release n b = Some b"
  by (simp add: tracked_release_def)

end
