(* ===== verification/Fair_Budget.thy ===== *)
theory Fair_Budget
  imports Rpc_Limits
begin

text \<open>
  \<open>rpcExecutionFairBudget\<close> (rpc_execution_budget.go): one ledger slot is charged at the global,
  auth-key and session scope. The usage maps are split over 64 shards chosen by a seeded hash
  (\<open>maphash\<close>, here the function stored in the field \<open>fair_seed\<close>). A reservation object is
  shared by pointer between a pending flight and the receipt that replaces it, so reservations
  live in a heap. \<open>fair_inv\<close> says that every usage counter equals the number of live
  reservations in its scope; the locale \<open>reservation_scope\<close> is the contract the ledger uses.
\<close>

record exec_key =
  ek_auth :: auth_key_id
  ek_session :: int
  ek_req :: int

type_synonym session_key = "auth_key_id \<times> int"

record fair_usage =
  entries :: int
  upending :: int

record reservation =
  rs_key :: exec_key
  rs_pending :: bool
  rs_released :: bool

record fair_budget =
  fair_seed :: "byte list \<Rightarrow> 64 word"
  globalEntries :: flight_limit
  authLimit :: int
  sessionLimit :: int
  pendingPerAuth :: int
  authShards :: "nat \<Rightarrow> (auth_key_id \<rightharpoonup> fair_usage)"
  sessionShards :: "nat \<Rightarrow> (session_key \<rightharpoonup> fair_usage)"
  reservations :: "nat \<rightharpoonup> reservation"
  next_reservation :: nat

definition zero_usage :: fair_usage where
  "zero_usage = \<lparr>entries = 0, upending = 0\<rparr>"

definition usage_at :: "('k \<rightharpoonup> fair_usage) \<Rightarrow> 'k \<Rightarrow> fair_usage" where
  "usage_at m k = (case m k of None \<Rightarrow> zero_usage | Some u \<Rightarrow> u)"

definition newRPCExecutionFairBudget ::
  "(byte list \<Rightarrow> 64 word) \<Rightarrow> flight_limit \<Rightarrow> int \<Rightarrow> int \<Rightarrow> int \<Rightarrow> fair_budget" where
  "newRPCExecutionFairBudget sd g al sl pp =
     \<lparr>fair_seed = sd, globalEntries = g, authLimit = al, sessionLimit = sl, pendingPerAuth = pp,
      authShards = (\<lambda>_. Map.empty), sessionShards = (\<lambda>_. Map.empty),
      reservations = Map.empty, next_reservation = 0\<rparr>"

definition fair_authShard :: "fair_budget \<Rightarrow> auth_key_id \<Rightarrow> nat" where
  "fair_authShard b a = unat (and (fair_seed b a) 63)"

definition fair_sessionShard :: "fair_budget \<Rightarrow> session_key \<Rightarrow> nat" where
  "fair_sessionShard b s = unat (and (fair_seed b (fst s @ le64 (snd s))) 63)"

definition session_of :: "exec_key \<Rightarrow> session_key" where
  "session_of k = (ek_auth k, ek_session k)"

definition withinRPCExecutionBudget :: "int \<Rightarrow> int \<Rightarrow> int \<Rightarrow> bool" where
  "withinRPCExecutionBudget u delta limit \<longleftrightarrow>
     delta \<ge> 0 \<and> limit > 0 \<and> u \<ge> 0 \<and> u \<le> limit - delta"

definition put_auth :: "fair_budget \<Rightarrow> auth_key_id \<Rightarrow> fair_usage option \<Rightarrow> fair_budget" where
  "put_auth b a u = b\<lparr>authShards := (authShards b)(fair_authShard b a :=
     (authShards b (fair_authShard b a))(a := u))\<rparr>"

definition put_session :: "fair_budget \<Rightarrow> session_key \<Rightarrow> fair_usage option \<Rightarrow> fair_budget" where
  "put_session b s u = b\<lparr>sessionShards := (sessionShards b)(fair_sessionShard b s :=
     (sessionShards b (fair_sessionShard b s))(s := u))\<rparr>"

definition authSnapshot :: "fair_budget \<Rightarrow> auth_key_id \<Rightarrow> fair_usage" where
  "authSnapshot b a = usage_at (authShards b (fair_authShard b a)) a"

definition sessionSnapshot :: "fair_budget \<Rightarrow> session_key \<Rightarrow> fair_usage" where
  "sessionSnapshot b s = usage_at (sessionShards b (fair_sessionShard b s)) s"

definition fair_reserve :: "fair_budget \<Rightarrow> exec_key \<Rightarrow> bool \<Rightarrow> nat option \<times> fair_budget" where
  "fair_reserve b key pnd =
     (let a = ek_auth key; s = session_of key;
          authUsage = usage_at (authShards b (fair_authShard b a)) a;
          sessionUsage = usage_at (sessionShards b (fair_sessionShard b s)) s;
          allowed = withinRPCExecutionBudget (entries authUsage) 1 (authLimit b) \<and>
            withinRPCExecutionBudget (entries sessionUsage) 1 (sessionLimit b) \<and>
            (pnd \<longrightarrow> withinRPCExecutionBudget (upending authUsage) 1 (pendingPerAuth b))
      in if \<not> allowed then (None, b)
         else case flight_reserve (globalEntries b) of
           (False, _) \<Rightarrow> (None, b)
         | (True, g) \<Rightarrow>
             let authUsage' = authUsage\<lparr>entries := entries authUsage + 1,
                   upending := (if pnd then upending authUsage + 1 else upending authUsage)\<rparr>;
                 sessionUsage' = sessionUsage\<lparr>entries := entries sessionUsage + 1\<rparr>;
                 b1 = put_session (put_auth (b\<lparr>globalEntries := g\<rparr>) a (Some authUsage')) s
                        (Some sessionUsage');
                 r = next_reservation b
             in (Some r, b1\<lparr>reservations := (reservations b)(r \<mapsto>
                   \<lparr>rs_key = key, rs_pending = pnd, rs_released = False\<rparr>),
                   next_reservation := r + 1\<rparr>))"

definition fair_reserveOwner :: "fair_budget \<Rightarrow> exec_key \<Rightarrow> nat option \<times> fair_budget" where
  "fair_reserveOwner b key = fair_reserve b key True"

definition fair_reserveCompleted :: "fair_budget \<Rightarrow> exec_key \<Rightarrow> nat option \<times> fair_budget" where
  "fair_reserveCompleted b key = fair_reserve b key False"

definition fair_releasePending :: "nat \<Rightarrow> fair_budget \<Rightarrow> fair_budget option" where
  "fair_releasePending r b =
     (case reservations b r of
        None \<Rightarrow> Some b
      | Some v \<Rightarrow>
          if rs_released v \<or> \<not> rs_pending v then Some b
          else let a = ek_auth (rs_key v) in
            (case authShards b (fair_authShard b a) a of
               None \<Rightarrow> None
             | Some u \<Rightarrow>
                 if upending u < 1 then None
                 else Some ((put_auth b a (Some (u\<lparr>upending := upending u - 1\<rparr>)))
                   \<lparr>reservations := (reservations b)(r \<mapsto> v\<lparr>rs_pending := False\<rparr>)\<rparr>)))"

definition drop_zero :: "fair_usage \<Rightarrow> fair_usage option" where
  "drop_zero u = (if u = zero_usage then None else Some u)"

definition fair_release :: "nat \<Rightarrow> fair_budget \<Rightarrow> fair_budget option" where
  "fair_release r b =
     (case reservations b r of
        None \<Rightarrow> Some b
      | Some v \<Rightarrow>
          if rs_released v then Some b
          else let a = ek_auth (rs_key v); s = session_of (rs_key v) in
            (case (authShards b (fair_authShard b a) a, sessionShards b (fair_sessionShard b s) s) of
               (Some au, Some su) \<Rightarrow>
                 if entries au < 1 \<or> entries su < 1 \<or> (rs_pending v \<and> upending au < 1) then None
                 else
                   let au' = au\<lparr>entries := entries au - 1,
                         upending := (if rs_pending v then upending au - 1 else upending au)\<rparr>;
                       su' = su\<lparr>entries := entries su - 1\<rparr>;
                       b1 = put_session (put_auth b a (drop_zero au')) s (drop_zero su')
                   in (case flight_release (globalEntries b) of
                         None \<Rightarrow> None
                       | Some g \<Rightarrow> Some (b1\<lparr>globalEntries := g, reservations := (reservations b)(r \<mapsto>
                             v\<lparr>rs_released := True, rs_pending := False\<rparr>)\<rparr>))
             | _ \<Rightarrow> None))"

subsection \<open>Live reservations\<close>

definition held :: "(nat \<rightharpoonup> reservation) \<Rightarrow> (reservation \<Rightarrow> bool) \<Rightarrow> nat set" where
  "held h P = {r. \<exists>v. h r = Some v \<and> \<not> rs_released v \<and> P v}"

lemma held_upd:
  "held (h(r \<mapsto> v)) P = (if \<not> rs_released v \<and> P v then insert r (held h P) else held h P - {r})"
  by (auto simp: held_def)

lemma held_subset: "held h P \<subseteq> dom h"
  by (auto simp: held_def)

lemma finite_held: "finite (dom h) \<Longrightarrow> finite (held h P)"
  by (rule finite_subset [OF held_subset])

lemma in_held: "h r = Some v \<Longrightarrow> r \<in> held h P \<longleftrightarrow> \<not> rs_released v \<and> P v"
  by (simp add: held_def)

abbreviation in_auth :: "auth_key_id \<Rightarrow> reservation \<Rightarrow> bool" where
  "in_auth a v \<equiv> ek_auth (rs_key v) = a"

abbreviation in_session :: "session_key \<Rightarrow> reservation \<Rightarrow> bool" where
  "in_session s v \<equiv> session_of (rs_key v) = s"

definition fair_inv :: "fair_budget \<Rightarrow> bool" where
  "fair_inv b \<longleftrightarrow>
     finite (dom (reservations b)) \<and> (\<forall>r\<in>dom (reservations b). r < next_reservation b) \<and>
     flight_inv (globalEntries b) \<and>
     fl_used (globalEntries b) = int (card (held (reservations b) (\<lambda>_. True))) \<and>
     (\<forall>a. entries (authSnapshot b a) = int (card (held (reservations b) (in_auth a))) \<and>
          upending (authSnapshot b a) =
            int (card (held (reservations b) (\<lambda>v. in_auth a v \<and> rs_pending v))) \<and>
          entries (authSnapshot b a) \<le> max 0 (authLimit b) \<and>
          upending (authSnapshot b a) \<le> max 0 (pendingPerAuth b)) \<and>
     (\<forall>s. entries (sessionSnapshot b s) = int (card (held (reservations b) (in_session s))) \<and>
          upending (sessionSnapshot b s) = 0 \<and>
          entries (sessionSnapshot b s) \<le> max 0 (sessionLimit b))"

lemma put_auth_simps [simp]:
  "authSnapshot (put_auth b a u) a' =
     (if a' = a then (case u of None \<Rightarrow> zero_usage | Some x \<Rightarrow> x) else authSnapshot b a')"
  "sessionSnapshot (put_auth b a u) s = sessionSnapshot b s"
  "globalEntries (put_auth b a u) = globalEntries b"
  "reservations (put_auth b a u) = reservations b"
  "next_reservation (put_auth b a u) = next_reservation b"
  "authLimit (put_auth b a u) = authLimit b"
  "sessionLimit (put_auth b a u) = sessionLimit b"
  "pendingPerAuth (put_auth b a u) = pendingPerAuth b"
  by (auto simp: put_auth_def authSnapshot_def sessionSnapshot_def usage_at_def
      fair_authShard_def fair_sessionShard_def)

lemma put_session_simps [simp]:
  "sessionSnapshot (put_session b s u) s' =
     (if s' = s then (case u of None \<Rightarrow> zero_usage | Some x \<Rightarrow> x) else sessionSnapshot b s')"
  "authSnapshot (put_session b s u) a = authSnapshot b a"
  "globalEntries (put_session b s u) = globalEntries b"
  "reservations (put_session b s u) = reservations b"
  "next_reservation (put_session b s u) = next_reservation b"
  "authLimit (put_session b s u) = authLimit b"
  "sessionLimit (put_session b s u) = sessionLimit b"
  "pendingPerAuth (put_session b s u) = pendingPerAuth b"
  by (auto simp: put_session_def authSnapshot_def sessionSnapshot_def usage_at_def
      fair_authShard_def fair_sessionShard_def)

lemma snapshot_frame [simp]:
  "authSnapshot (b\<lparr>globalEntries := g\<rparr>) a = authSnapshot b a"
  "sessionSnapshot (b\<lparr>globalEntries := g\<rparr>) s = sessionSnapshot b s"
  "authSnapshot (b\<lparr>reservations := h\<rparr>) a = authSnapshot b a"
  "sessionSnapshot (b\<lparr>reservations := h\<rparr>) s = sessionSnapshot b s"
  "authSnapshot (b\<lparr>next_reservation := n\<rparr>) a = authSnapshot b a"
  "sessionSnapshot (b\<lparr>next_reservation := n\<rparr>) s = sessionSnapshot b s"
  by (simp_all add: authSnapshot_def sessionSnapshot_def fair_authShard_def fair_sessionShard_def)

lemma drop_zero_value [simp]: "(case drop_zero u of None \<Rightarrow> zero_usage | Some x \<Rightarrow> x) = u"
  by (simp add: drop_zero_def)

lemma fair_inv_new: "flight_inv g \<Longrightarrow> fl_used g = 0 \<Longrightarrow> fair_inv (newRPCExecutionFairBudget sd g al sl pp)"
  by (simp add: fair_inv_def newRPCExecutionFairBudget_def held_def authSnapshot_def
      sessionSnapshot_def usage_at_def zero_usage_def)


subsection \<open>The operations against the live reservations\<close>

lemma usage_at_Some: "m k = Some u \<Longrightarrow> usage_at m k = u"
  by (simp add: usage_at_def)

lemma fair_reserve_Some:
  assumes "fair_reserve b key pnd = (Some r, b')"
  shows "r = next_reservation b \<and> next_reservation b' = Suc r \<and>
    reservations b' = (reservations b)(r \<mapsto> \<lparr>rs_key = key, rs_pending = pnd, rs_released = False\<rparr>) \<and>
    fl_used (globalEntries b') = fl_used (globalEntries b) + 1 \<and>
    fl_max (globalEntries b') = fl_max (globalEntries b) \<and>
    fl_used (globalEntries b) < fl_max (globalEntries b) \<and>
    authSnapshot b' = (authSnapshot b)(ek_auth key :=
      \<lparr>entries = entries (authSnapshot b (ek_auth key)) + 1,
       upending = upending (authSnapshot b (ek_auth key)) + (if pnd then 1 else 0)\<rparr>) \<and>
    sessionSnapshot b' = (sessionSnapshot b)(session_of key :=
      (sessionSnapshot b (session_of key))
        \<lparr>entries := entries (sessionSnapshot b (session_of key)) + 1\<rparr>) \<and>
    authLimit b' = authLimit b \<and> sessionLimit b' = sessionLimit b \<and>
    pendingPerAuth b' = pendingPerAuth b \<and>
    entries (authSnapshot b (ek_auth key)) < authLimit b \<and>
    entries (sessionSnapshot b (session_of key)) < sessionLimit b \<and>
    (pnd \<longrightarrow> upending (authSnapshot b (ek_auth key)) < pendingPerAuth b)"
  using assms
  by (auto simp: fair_reserve_def Let_def withinRPCExecutionBudget_def fun_eq_iff
      authSnapshot_def [of b] sessionSnapshot_def [of b]
      split: if_splits prod.splits bool.splits dest!: flight_reserve_Some)

lemma fair_reserve_None: "fair_reserve b key pnd = (None, b') \<Longrightarrow> b' = b"
  by (auto simp: fair_reserve_def Let_def split: if_splits prod.splits bool.splits)


lemma card_held_new:
  assumes "finite (dom h)" and "h r = None"
  shows "int (card (held (h(r \<mapsto> v)) P)) =
    int (card (held h P)) + (if \<not> rs_released v \<and> P v then 1 else 0)"
proof -
  have "r \<notin> held h P" using assms(2) by (simp add: held_def)
  then show ?thesis using finite_held [OF assms(1)] by (simp add: held_upd)
qed

lemma card_held_upd:
  assumes "finite (dom h)" and "h r = Some u"
  shows "int (card (held (h(r \<mapsto> v)) P)) = int (card (held h P))
    - (if \<not> rs_released u \<and> P u then 1 else 0) + (if \<not> rs_released v \<and> P v then 1 else 0)"
proof -
  have fin: "finite (held h P)" by (rule finite_held [OF assms(1)])
  have mem: "r \<in> held h P \<longleftrightarrow> \<not> rs_released u \<and> P u" using assms(2) by (rule in_held)
  show ?thesis
    using fin mem int_card_remove [OF fin, of r]
    by (auto simp: held_upd insert_absorb card_insert_if)
qed

lemma card_held_pos:
  assumes "finite (dom h)" and "h r = Some v" and "\<not> rs_released v" and "P v"
  shows "1 \<le> int (card (held h P))"
proof -
  have "r \<in> held h P" using assms by (simp add: in_held)
  then have "0 < card (held h P)" using finite_held [OF assms(1)] by (auto simp: card_gt_0_iff)
  then show ?thesis by simp
qed

lemma fair_invD:
  assumes "fair_inv b"
  shows "finite (dom (reservations b))"
    and "r \<in> dom (reservations b) \<Longrightarrow> r < next_reservation b"
    and "flight_inv (globalEntries b)"
    and "fl_used (globalEntries b) = int (card (held (reservations b) (\<lambda>_. True)))"
    and "entries (authSnapshot b a) = int (card (held (reservations b) (in_auth a)))"
    and "upending (authSnapshot b a) =
      int (card (held (reservations b) (\<lambda>v. in_auth a v \<and> rs_pending v)))"
    and "int (card (held (reservations b) (in_auth a))) \<le> max 0 (authLimit b)"
    and "int (card (held (reservations b) (\<lambda>v. in_auth a v \<and> rs_pending v))) \<le>
      max 0 (pendingPerAuth b)"
    and "entries (sessionSnapshot b s) = int (card (held (reservations b) (in_session s)))"
    and "upending (sessionSnapshot b s) = 0"
    and "int (card (held (reservations b) (in_session s))) \<le> max 0 (sessionLimit b)"
  using assms unfolding fair_inv_def by metis+

lemma fair_inv_reserve:
  assumes inv: "fair_inv b" and res: "fair_reserve b key pnd = (Some r, b')"
  shows "fair_inv b'"
proof -
  note R = fair_reserve_Some [OF res]
  have fin: "finite (dom (reservations b))" using inv by (simp add: fair_inv_def)
  have fresh: "reservations b r = None"
    using fair_invD(2) [OF inv, of r] R by (cases "reservations b r") auto
  have r: "r = next_reservation b" using R by simp
  note C = card_held_new [OF fin fresh, unfolded r]
  have dom: "finite (dom (reservations b')) \<and> (\<forall>x\<in>dom (reservations b'). x < next_reservation b')"
    using fair_invD(1,2) [OF inv] R by (auto simp: less_Suc_eq)
  have glob: "flight_inv (globalEntries b') \<and>
      fl_used (globalEntries b') = int (card (held (reservations b') (\<lambda>_. True)))"
    using fair_invD(3,4) [OF inv] R by (auto simp: flight_inv_def C)
  have auths: "entries (authSnapshot b' a) = int (card (held (reservations b') (in_auth a))) \<and>
      upending (authSnapshot b' a) =
        int (card (held (reservations b') (\<lambda>v. in_auth a v \<and> rs_pending v))) \<and>
      entries (authSnapshot b' a) \<le> max 0 (authLimit b') \<and>
      upending (authSnapshot b' a) \<le> max 0 (pendingPerAuth b')" for a
    using fair_invD(5-8) [OF inv, of a] R by (auto simp: C)
  have sess: "entries (sessionSnapshot b' s) = int (card (held (reservations b') (in_session s))) \<and>
      upending (sessionSnapshot b' s) = 0 \<and>
      entries (sessionSnapshot b' s) \<le> max 0 (sessionLimit b')" for s
    using fair_invD(9-11) [OF inv, of s] R by (auto simp: C)
  show ?thesis unfolding fair_inv_def using dom glob auths sess by blast
qed

lemma snapshot_present:
  "1 \<le> entries (authSnapshot b a) \<Longrightarrow>
     authShards b (fair_authShard b a) a = Some (authSnapshot b a)"
  "1 \<le> entries (sessionSnapshot b s) \<Longrightarrow>
     sessionShards b (fair_sessionShard b s) s = Some (sessionSnapshot b s)"
  by (auto simp: authSnapshot_def sessionSnapshot_def usage_at_def zero_usage_def
      split: option.splits)

lemma fair_release_live:
  assumes inv: "fair_inv b" and v: "reservations b r = Some v" "\<not> rs_released v"
  shows "\<exists>b'. fair_release r b = Some b' \<and> fair_inv b' \<and>
    reservations b' = (reservations b)(r \<mapsto> v\<lparr>rs_released := True, rs_pending := False\<rparr>) \<and>
    next_reservation b' = next_reservation b"
proof -
  let ?a = "ek_auth (rs_key v)" and ?s = "session_of (rs_key v)"
  have fin: "finite (dom (reservations b))" using inv by (simp add: fair_inv_def)
  note P = card_held_pos [OF fin v]
  have e: "1 \<le> entries (authSnapshot b ?a)" "1 \<le> entries (sessionSnapshot b ?s)"
    "1 \<le> fl_used (globalEntries b)" "rs_pending v \<Longrightarrow> 1 \<le> upending (authSnapshot b ?a)"
    using P fair_invD(4,5,6,9) [OF inv] by simp_all
  define au' where "au' = (authSnapshot b ?a)\<lparr>entries := entries (authSnapshot b ?a) - 1,
    upending := (if rs_pending v then upending (authSnapshot b ?a) - 1
                 else upending (authSnapshot b ?a))\<rparr>"
  define su' where "su' = (sessionSnapshot b ?s)\<lparr>entries := entries (sessionSnapshot b ?s) - 1\<rparr>"
  define b' where "b' = (put_session (put_auth b ?a (drop_zero au')) ?s (drop_zero su'))
    \<lparr>globalEntries := (globalEntries b)\<lparr>fl_used := fl_used (globalEntries b) - 1\<rparr>,
     reservations := (reservations b)(r \<mapsto> v\<lparr>rs_released := True, rs_pending := False\<rparr>)\<rparr>"
  have rel: "fair_release r b = Some b'"
    using v e snapshot_present(1) [OF e(1)] snapshot_present(2) [OF e(2)]
      flight_release_Some [OF e(3)]
    by (auto simp: fair_release_def Let_def b'_def au'_def su'_def)
  note C = card_held_upd [OF fin v(1)]
  have dom: "finite (dom (reservations b')) \<and> (\<forall>x\<in>dom (reservations b'). x < next_reservation b')"
    using fair_invD(1,2) [OF inv] v(1) by (auto simp: b'_def)
  have glob: "flight_inv (globalEntries b') \<and>
      fl_used (globalEntries b') = int (card (held (reservations b') (\<lambda>_. True)))"
    using fair_invD(3,4) [OF inv] e(3) v(2) by (auto simp: flight_inv_def b'_def C)
  have auths: "entries (authSnapshot b' a) = int (card (held (reservations b') (in_auth a))) \<and>
      upending (authSnapshot b' a) =
        int (card (held (reservations b') (\<lambda>v. in_auth a v \<and> rs_pending v))) \<and>
      entries (authSnapshot b' a) \<le> max 0 (authLimit b') \<and>
      upending (authSnapshot b' a) \<le> max 0 (pendingPerAuth b')" for a
    using fair_invD(5-8) [OF inv, of a] v(2) by (auto simp: b'_def C au'_def)
  have sess: "entries (sessionSnapshot b' s) = int (card (held (reservations b') (in_session s))) \<and>
      upending (sessionSnapshot b' s) = 0 \<and>
      entries (sessionSnapshot b' s) \<le> max 0 (sessionLimit b')" for s
    using fair_invD(9-11) [OF inv, of s] v(2) by (auto simp: b'_def C su'_def)
  have "fair_inv b'"
    unfolding fair_inv_def using dom glob auths sess by blast
  then show ?thesis using rel by (simp add: b'_def)
qed


lemma fair_releasePending_live:
  assumes inv: "fair_inv b" and v: "reservations b r = Some v" "\<not> rs_released v"
  shows "\<exists>b'. fair_releasePending r b = Some b' \<and> fair_inv b' \<and>
    reservations b' = (reservations b)(r \<mapsto> v\<lparr>rs_pending := False\<rparr>) \<and>
    next_reservation b' = next_reservation b"
proof (cases "rs_pending v")
  case False
  then have "v\<lparr>rs_pending := False\<rparr> = v" by (cases v) simp
  then show ?thesis using False inv v by (simp add: fair_releasePending_def fun_upd_idem)
next
  case True
  let ?a = "ek_auth (rs_key v)"
  have fin: "finite (dom (reservations b))" using inv by (simp add: fair_inv_def)
  note P = card_held_pos [OF fin v]
  have e: "1 \<le> entries (authSnapshot b ?a)" "1 \<le> upending (authSnapshot b ?a)"
    using P True fair_invD(5,6) [OF inv] by simp_all
  define b' where "b' = (put_auth b ?a (Some ((authSnapshot b ?a)
      \<lparr>upending := upending (authSnapshot b ?a) - 1\<rparr>)))
    \<lparr>reservations := (reservations b)(r \<mapsto> v\<lparr>rs_pending := False\<rparr>)\<rparr>"
  have rel: "fair_releasePending r b = Some b'"
    using v True e snapshot_present(1) [OF e(1)]
    by (simp add: fair_releasePending_def Let_def b'_def)
  note C = card_held_upd [OF fin v(1)]
  have dom: "finite (dom (reservations b')) \<and> (\<forall>x\<in>dom (reservations b'). x < next_reservation b')"
    using fair_invD(1,2) [OF inv] v(1) by (auto simp: b'_def)
  have glob: "flight_inv (globalEntries b') \<and>
      fl_used (globalEntries b') = int (card (held (reservations b') (\<lambda>_. True)))"
    using fair_invD(3,4) [OF inv] v(2) by (auto simp: b'_def C)
  have auths: "entries (authSnapshot b' a) = int (card (held (reservations b') (in_auth a))) \<and>
      upending (authSnapshot b' a) =
        int (card (held (reservations b') (\<lambda>v. in_auth a v \<and> rs_pending v))) \<and>
      entries (authSnapshot b' a) \<le> max 0 (authLimit b') \<and>
      upending (authSnapshot b' a) \<le> max 0 (pendingPerAuth b')" for a
    using fair_invD(5-8) [OF inv, of a] v(2) True by (auto simp: b'_def C)
  have sess: "entries (sessionSnapshot b' s) = int (card (held (reservations b') (in_session s))) \<and>
      upending (sessionSnapshot b' s) = 0 \<and>
      entries (sessionSnapshot b' s) \<le> max 0 (sessionLimit b')" for s
    using fair_invD(9-11) [OF inv, of s] v(2) by (auto simp: b'_def C)
  have "fair_inv b'" unfolding fair_inv_def using dom glob auths sess by blast
  then show ?thesis using rel by (simp add: b'_def)
qed

lemma fair_release_released:
  "reservations b r = Some v \<Longrightarrow> rs_released v \<Longrightarrow> fair_release r b = Some b"
  by (simp add: fair_release_def)

subsection \<open>The contract the ledger relies on\<close>

locale reservation_scope =
  fixes reserve :: "'b \<Rightarrow> exec_key \<Rightarrow> bool \<Rightarrow> nat option \<times> 'b"
    and release_pending :: "nat \<Rightarrow> 'b \<Rightarrow> 'b option"
    and release :: "nat \<Rightarrow> 'b \<Rightarrow> 'b option"
    and heap :: "'b \<Rightarrow> (nat \<rightharpoonup> reservation)"
    and inv :: "'b \<Rightarrow> bool"
  assumes reserve_new: "inv b \<Longrightarrow> reserve b k p = (Some r, b') \<Longrightarrow> inv b' \<and> heap b r = None \<and>
      heap b' = (heap b)(r \<mapsto> \<lparr>rs_key = k, rs_pending = p, rs_released = False\<rparr>)"
    and reserve_none: "reserve b k p = (None, b') \<Longrightarrow> b' = b"
    and release_pending_live: "inv b \<Longrightarrow> heap b r = Some v \<Longrightarrow> \<not> rs_released v \<Longrightarrow>
      \<exists>b'. release_pending r b = Some b' \<and> inv b' \<and> heap b' = (heap b)(r \<mapsto> v\<lparr>rs_pending := False\<rparr>)"
    and release_live: "inv b \<Longrightarrow> heap b r = Some v \<Longrightarrow> \<not> rs_released v \<Longrightarrow>
      \<exists>b'. release r b = Some b' \<and> inv b' \<and>
        heap b' = (heap b)(r \<mapsto> v\<lparr>rs_released := True, rs_pending := False\<rparr>)"
    and release_twice: "heap b r = Some v \<Longrightarrow> rs_released v \<Longrightarrow> release r b = Some b"
    and heap_finite: "inv b \<Longrightarrow> finite (dom (heap b))"
begin

lemma lifecycle:
  assumes "inv b" and "reserve b k True = (Some r, b1)"
  shows "\<exists>b2 b3. release_pending r b1 = Some b2 \<and> release r b2 = Some b3 \<and> inv b3 \<and>
    (\<forall>P. held (heap b3) P = held (heap b) P) \<and> release r b3 = Some b3"
proof -
  note 1 = reserve_new [OF assms]
  then obtain b2 where 2: "release_pending r b1 = Some b2" "inv b2"
    "heap b2 = (heap b1)(r \<mapsto> \<lparr>rs_key = k, rs_pending = False, rs_released = False\<rparr>)"
    using release_pending_live [of b1 r] by fastforce
  then obtain b3 where 3: "release r b2 = Some b3" "inv b3"
    "heap b3 = (heap b2)(r \<mapsto> \<lparr>rs_key = k, rs_pending = False, rs_released = True\<rparr>)"
    using release_live [of b2 r] by fastforce
  have "held (heap b3) P = held (heap b) P" for P
    using 1 2(3) 3(3) by (auto simp: held_def)
  moreover have "release r b3 = Some b3"
    using 3(3) release_twice [of b3 r] by simp
  ultimately show ?thesis using 2 3 by blast
qed

lemma held_reserve:
  assumes "inv b" and "reserve b k p = (Some r, b')"
  shows "held (heap b') P =
    (if P \<lparr>rs_key = k, rs_pending = p, rs_released = False\<rparr> then insert r (held (heap b) P)
     else held (heap b) P)"
  using reserve_new [OF assms] by (auto simp: held_def)

end

lemma fair_reserve_new:
  assumes "fair_inv b" and "fair_reserve b k p = (Some r, b')"
  shows "fair_inv b' \<and> reservations b r = None \<and>
    reservations b' = (reservations b)(r \<mapsto> \<lparr>rs_key = k, rs_pending = p, rs_released = False\<rparr>)"
proof -
  have "r = next_reservation b" using fair_reserve_Some [OF assms(2)] by simp
  then have "reservations b r = None"
    using fair_invD(2) [OF assms(1), of r] by (cases "reservations b r") auto
  then show ?thesis using fair_inv_reserve [OF assms] fair_reserve_Some [OF assms(2)] by simp
qed

interpretation fair: reservation_scope fair_reserve fair_releasePending fair_release reservations
  fair_inv
proof
  show "\<exists>b'. fair_releasePending r b = Some b' \<and> fair_inv b' \<and>
      reservations b' = (reservations b)(r \<mapsto> v\<lparr>rs_pending := False\<rparr>)"
    if "fair_inv b" "reservations b r = Some v" "\<not> rs_released v" for b r v
    using fair_releasePending_live [OF that] by blast
  show "\<exists>b'. fair_release r b = Some b' \<and> fair_inv b' \<and>
      reservations b' = (reservations b)(r \<mapsto> v\<lparr>rs_released := True, rs_pending := False\<rparr>)"
    if "fair_inv b" "reservations b r = Some v" "\<not> rs_released v" for b r v
    using fair_release_live [OF that] by blast
qed (auto simp: fair_reserve_None fair_release_released fair_invD(1) dest: fair_reserve_new)

end
