(* ===== verification/Subscriber_Budget.thy ===== *)
theory Subscriber_Budget
  imports Fair_Budget
begin

text \<open>
  \<open>rpcResultSubscriberBudget\<close> (rpc_result_subscriber_budget.go): the number of callbacks that
  pending flights retain, bounded at global, auth-key and session scope over 64 hashed shards.
  The locale \<open>scoped_budget\<close> states the contract on the three counters; the ledger's
  subscription code uses it through the interpretation \<open>subs\<close>.
\<close>

record sub_budget =
  sub_seed :: "byte list \<Rightarrow> 64 word"
  sub_global :: flight_limit
  sub_authLimit :: int
  sub_sessionLimit :: int
  sub_authShards :: "nat \<Rightarrow> (auth_key_id \<rightharpoonup> int)"
  sub_sessionShards :: "nat \<Rightarrow> (session_key \<rightharpoonup> int)"

definition rpcResultSubscriberMaxGlobal :: int where "rpcResultSubscriberMaxGlobal = 2 ^ 16"
definition rpcResultSubscriberMaxAuth :: int where "rpcResultSubscriberMaxAuth = 2 ^ 13"
definition rpcResultSubscriberMaxSession :: int where "rpcResultSubscriberMaxSession = 2 ^ 11"
definition rpcResultSubscriberMaxPerFlight :: int where "rpcResultSubscriberMaxPerFlight = 2 ^ 7"

definition newRPCResultSubscriberBudget ::
  "(byte list \<Rightarrow> 64 word) \<Rightarrow> int \<Rightarrow> int \<Rightarrow> int \<Rightarrow> sub_budget" where
  "newRPCResultSubscriberBudget sd g al sl =
     \<lparr>sub_seed = sd, sub_global = \<lparr>fl_max = g, fl_used = 0\<rparr>, sub_authLimit = al,
      sub_sessionLimit = sl, sub_authShards = (\<lambda>_. Map.empty), sub_sessionShards = (\<lambda>_. Map.empty)\<rparr>"

definition sub_authShard :: "sub_budget \<Rightarrow> auth_key_id \<Rightarrow> nat" where
  "sub_authShard b a = unat (and (sub_seed b a) 63)"

definition sub_sessionShard :: "sub_budget \<Rightarrow> session_key \<Rightarrow> nat" where
  "sub_sessionShard b s = unat (and (sub_seed b (fst s @ le64 (snd s))) 63)"

definition count_at :: "('k \<rightharpoonup> int) \<Rightarrow> 'k \<Rightarrow> int" where
  "count_at m k = (case m k of None \<Rightarrow> 0 | Some n \<Rightarrow> n)"

definition sub_put :: "sub_budget \<Rightarrow> exec_key \<Rightarrow> int option \<Rightarrow> int option \<Rightarrow> sub_budget" where
  "sub_put b key au su =
     (let a = ek_auth key; s = session_of key; ai = sub_authShard b a; si = sub_sessionShard b s
      in b\<lparr>sub_authShards := (sub_authShards b)(ai := (sub_authShards b ai)(a := au)),
           sub_sessionShards := (sub_sessionShards b)(si := (sub_sessionShards b si)(s := su))\<rparr>)"

definition sub_reserve :: "sub_budget \<Rightarrow> exec_key \<Rightarrow> int \<Rightarrow> bool \<times> sub_budget" where
  "sub_reserve b key slots =
     (if slots \<le> 0 then (False, b)
      else let a = ek_auth key; s = session_of key;
               authUsed = count_at (sub_authShards b (sub_authShard b a)) a;
               sessionUsed = count_at (sub_sessionShards b (sub_sessionShard b s)) s
           in if \<not> withinRPCExecutionBudget authUsed slots (sub_authLimit b) \<or>
                 \<not> withinRPCExecutionBudget sessionUsed slots (sub_sessionLimit b)
              then (False, b)
              else case flight_reserveN slots (sub_global b) of
                (False, _) \<Rightarrow> (False, b)
              | (True, g) \<Rightarrow> (True, (sub_put b key (Some (authUsed + slots)) (Some (sessionUsed + slots)))
                  \<lparr>sub_global := g\<rparr>))"

definition sub_release :: "sub_budget \<Rightarrow> exec_key \<Rightarrow> int \<Rightarrow> sub_budget option" where
  "sub_release b key slots =
     (if slots \<le> 0 then None
      else let a = ek_auth key; s = session_of key in
        (case (sub_authShards b (sub_authShard b a) a, sub_sessionShards b (sub_sessionShard b s) s) of
           (Some au, Some su) \<Rightarrow>
             if au < slots \<or> su < slots then None
             else let au' = au - slots; su' = su - slots;
                      b1 = sub_put b key (if au' = 0 then None else Some au')
                             (if su' = 0 then None else Some su')
                  in (case flight_releaseN slots (sub_global b) of
                        None \<Rightarrow> None
                      | Some g \<Rightarrow> Some (b1\<lparr>sub_global := g\<rparr>))
         | _ \<Rightarrow> None))"

definition sub_authSnapshot :: "sub_budget \<Rightarrow> auth_key_id \<Rightarrow> int" where
  "sub_authSnapshot b a = count_at (sub_authShards b (sub_authShard b a)) a"

definition sub_sessionSnapshot :: "sub_budget \<Rightarrow> session_key \<Rightarrow> int" where
  "sub_sessionSnapshot b s = count_at (sub_sessionShards b (sub_sessionShard b s)) s"

definition sub_used :: "sub_budget \<Rightarrow> int" where "sub_used b = fl_used (sub_global b)"

definition sub_inv :: "sub_budget \<Rightarrow> bool" where
  "sub_inv b \<longleftrightarrow> flight_inv (sub_global b) \<and>
     (\<forall>a. 0 \<le> sub_authSnapshot b a \<and> sub_authSnapshot b a \<le> max 0 (sub_authLimit b)) \<and>
     (\<forall>s. 0 \<le> sub_sessionSnapshot b s \<and> sub_sessionSnapshot b s \<le> max 0 (sub_sessionLimit b))"

lemma sub_put_simps [simp]:
  "sub_authSnapshot (sub_put b key au su) =
     (sub_authSnapshot b)(ek_auth key := (case au of None \<Rightarrow> 0 | Some n \<Rightarrow> n))"
  "sub_sessionSnapshot (sub_put b key au su) =
     (sub_sessionSnapshot b)(session_of key := (case su of None \<Rightarrow> 0 | Some n \<Rightarrow> n))"
  "sub_global (sub_put b key au su) = sub_global b"
  "sub_authLimit (sub_put b key au su) = sub_authLimit b"
  "sub_sessionLimit (sub_put b key au su) = sub_sessionLimit b"
  by (auto simp: sub_put_def Let_def sub_authSnapshot_def sub_sessionSnapshot_def count_at_def
      sub_authShard_def sub_sessionShard_def fun_eq_iff session_of_def)

lemma sub_global_frame [simp]:
  "sub_authSnapshot (b\<lparr>sub_global := g\<rparr>) = sub_authSnapshot b"
  "sub_sessionSnapshot (b\<lparr>sub_global := g\<rparr>) = sub_sessionSnapshot b"
  by (simp_all add: sub_authSnapshot_def sub_sessionSnapshot_def sub_authShard_def
      sub_sessionShard_def fun_eq_iff)

locale scoped_budget =
  fixes reserve :: "'b \<Rightarrow> exec_key \<Rightarrow> int \<Rightarrow> bool \<times> 'b"
    and release :: "'b \<Rightarrow> exec_key \<Rightarrow> int \<Rightarrow> 'b option"
    and by_auth :: "'b \<Rightarrow> auth_key_id \<Rightarrow> int"
    and by_session :: "'b \<Rightarrow> session_key \<Rightarrow> int"
    and total :: "'b \<Rightarrow> int"
    and inv :: "'b \<Rightarrow> bool"
  assumes scoped_reserve: "inv b \<Longrightarrow> reserve b k n = (True, b') \<Longrightarrow> 0 < n \<and> inv b' \<and>
      by_auth b' = (by_auth b)(ek_auth k := by_auth b (ek_auth k) + n) \<and>
      by_session b' = (by_session b)(session_of k := by_session b (session_of k) + n) \<and>
      total b' = total b + n"
    and scoped_refuse: "reserve b k n = (False, b') \<Longrightarrow> b' = b"
    and scoped_release: "inv b \<Longrightarrow> 0 < n \<Longrightarrow> n \<le> by_auth b (ek_auth k) \<Longrightarrow>
      n \<le> by_session b (session_of k) \<Longrightarrow> n \<le> total b \<Longrightarrow>
      \<exists>b'. release b k n = Some b' \<and> inv b' \<and>
        by_auth b' = (by_auth b)(ek_auth k := by_auth b (ek_auth k) - n) \<and>
        by_session b' = (by_session b)(session_of k := by_session b (session_of k) - n) \<and>
        total b' = total b - n"
    and scoped_nonneg: "inv b \<Longrightarrow> 0 \<le> by_auth b a \<and> 0 \<le> by_session b s \<and> 0 \<le> total b"
begin

lemma scoped_round_trip:
  assumes "inv b" and "reserve b k n = (True, b')"
  shows "\<exists>b''. release b' k n = Some b'' \<and> by_auth b'' = by_auth b \<and> by_session b'' = by_session b
    \<and> total b'' = total b \<and> inv b''"
proof -
  note 1 = scoped_reserve [OF assms]
  have "n \<le> by_auth b' (ek_auth k)" "n \<le> by_session b' (session_of k)" "n \<le> total b'"
    using 1 scoped_nonneg [OF assms(1), of "ek_auth k" "session_of k"] by auto
  then obtain b'' where "release b' k n = Some b''" "inv b''"
    "by_auth b'' = (by_auth b')(ek_auth k := by_auth b' (ek_auth k) - n)"
    "by_session b'' = (by_session b')(session_of k := by_session b' (session_of k) - n)"
    "total b'' = total b' - n"
    using scoped_release [of b' n k] 1 by blast
  with 1 show ?thesis by simp
qed

end

lemma sub_present:
  "0 < sub_authSnapshot b a \<Longrightarrow> sub_authShards b (sub_authShard b a) a = Some (sub_authSnapshot b a)"
  "0 < sub_sessionSnapshot b s \<Longrightarrow>
     sub_sessionShards b (sub_sessionShard b s) s = Some (sub_sessionSnapshot b s)"
  by (auto simp: sub_authSnapshot_def sub_sessionSnapshot_def count_at_def split: option.splits)

lemma sub_reserve_ok:
  assumes "sub_inv b" and "sub_reserve b k n = (True, b')"
  shows "0 < n \<and> sub_inv b' \<and>
    sub_authSnapshot b' = (sub_authSnapshot b)(ek_auth k := sub_authSnapshot b (ek_auth k) + n) \<and>
    sub_sessionSnapshot b' =
      (sub_sessionSnapshot b)(session_of k := sub_sessionSnapshot b (session_of k) + n) \<and>
    sub_used b' = sub_used b + n"
proof -
  from assms(2) obtain g where n: "0 < n" and
    w: "withinRPCExecutionBudget (sub_authSnapshot b (ek_auth k)) n (sub_authLimit b)"
       "withinRPCExecutionBudget (sub_sessionSnapshot b (session_of k)) n (sub_sessionLimit b)" and
    g: "flight_reserveN n (sub_global b) = (True, g)" and
    b': "b' = (sub_put b k (Some (sub_authSnapshot b (ek_auth k) + n))
            (Some (sub_sessionSnapshot b (session_of k) + n)))\<lparr>sub_global := g\<rparr>"
    by (auto simp: sub_reserve_def Let_def sub_authSnapshot_def sub_sessionSnapshot_def
        split: if_splits prod.splits bool.splits)
  have "flight_inv g \<and> fl_used g = fl_used (sub_global b) + n"
    using flight.reserve_ok [of "sub_global b" n g] assms(1) n g by (simp add: sub_inv_def)
  then show ?thesis
    using assms(1) n w
    by (auto simp: b' sub_inv_def sub_used_def withinRPCExecutionBudget_def session_of_def
        simp del: split_paired_All)
qed

lemma diff_le_max_0: "x \<le> max 0 m \<Longrightarrow> 0 < n \<Longrightarrow> x - n \<le> max 0 (m :: int)"
  by linarith

lemma sub_release_ok:
  assumes "sub_inv b" and "0 < n" and "n \<le> sub_authSnapshot b (ek_auth k)"
    and "n \<le> sub_sessionSnapshot b (session_of k)" and "n \<le> sub_used b"
  shows "\<exists>b'. sub_release b k n = Some b' \<and> sub_inv b' \<and>
    sub_authSnapshot b' = (sub_authSnapshot b)(ek_auth k := sub_authSnapshot b (ek_auth k) - n) \<and>
    sub_sessionSnapshot b' =
      (sub_sessionSnapshot b)(session_of k := sub_sessionSnapshot b (session_of k) - n) \<and>
    sub_used b' = sub_used b - n"
proof -
  obtain g where g: "flight_releaseN n (sub_global b) = Some g" "flight_inv g"
    "fl_used g = fl_used (sub_global b) - n"
    using flight.release_ok [of "sub_global b" n] assms by (auto simp: sub_inv_def sub_used_def)
  have p: "sub_authShards b (sub_authShard b (ek_auth k)) (ek_auth k) =
      Some (sub_authSnapshot b (ek_auth k))"
    "sub_sessionShards b (sub_sessionShard b (session_of k)) (session_of k) =
      Some (sub_sessionSnapshot b (session_of k))"
    using assms by (auto intro: sub_present)
  show ?thesis
    using assms g p
    by (auto simp: sub_release_def Let_def sub_inv_def sub_used_def session_of_def
        intro!: diff_le_max_0 simp del: split_paired_All)
qed

interpretation subs: scoped_budget sub_reserve sub_release sub_authSnapshot sub_sessionSnapshot
  sub_used sub_inv
proof
  show "b' = b" if "sub_reserve b k n = (False, b')" for b k n b'
    using that by (auto simp: sub_reserve_def Let_def split: if_splits prod.splits bool.splits)
  show "0 \<le> sub_authSnapshot b a \<and> 0 \<le> sub_sessionSnapshot b s \<and> 0 \<le> sub_used b"
    if "sub_inv b" for b a s
    using that flight.used_bounds [of "sub_global b"] unfolding sub_inv_def sub_used_def by metis
qed (use sub_reserve_ok sub_release_ok in blast)+

lemma sub_inv_new: "sub_inv (newRPCResultSubscriberBudget sd g al sl)"
  by (simp add: sub_inv_def newRPCResultSubscriberBudget_def flight_inv_def sub_authSnapshot_def
      sub_sessionSnapshot_def count_at_def)

end
