(* ===== verification/Admission_Tracker.thy ===== *)
theory Admission_Tracker
  imports Prelude
begin

text \<open>
  \<open>rpcAdmissionTracker\<close> (rpc_admission_tracker.go): the admission sequences whose owner can
  still publish, over 64 shards. Sequences are 64-bit and the allocator refuses to wrap. The
  shard's key set is a list here, in whatever order the map enumerates it.
\<close>

datatype admission_error = AdmissionSeqExhausted

abbreviation max_uint64 :: "64 word" where "max_uint64 \<equiv> - 1"

type_synonym tracker = "nat \<Rightarrow> 64 word list"

definition adm_shard :: "64 word \<Rightarrow> nat" where
  "adm_shard sq = unat (and sq 63)"

definition allocateAndRegister ::
  "tracker \<Rightarrow> 64 word \<Rightarrow> admission_error + (64 word \<times> tracker)" where
  "allocateAndRegister t nxt =
     (if nxt = max_uint64 then Inl AdmissionSeqExhausted
      else let sq = nxt + 1; i = adm_shard sq
           in Inr (sq, t(i := List.insert sq (t i))))"

definition retire :: "64 word \<Rightarrow> tracker \<Rightarrow> tracker option" where
  "retire sq t =
     (if sq = 0 then Some t
      else let i = adm_shard sq
           in if sq \<notin> set (t i) then None else Some (t(i := remove1 sq (t i))))"

definition lower :: "64 word \<Rightarrow> 64 word \<Rightarrow> 64 word" where
  "lower minimum sq = (if minimum = 0 \<or> sq < minimum then sq else minimum)"

definition scan_minimum :: "tracker \<Rightarrow> 64 word" where
  "scan_minimum t = foldl (\<lambda>m i. foldl lower m (t i)) 0 [0..<64]"

definition stableSafeFloor :: "tracker \<Rightarrow> 64 word \<Rightarrow> 64 word" where
  "stableSafeFloor t nxt =
     (let minimum = scan_minimum t
      in if minimum \<noteq> 0 then minimum
         else if nxt = max_uint64 then max_uint64 else nxt + 1)"

definition active :: "tracker \<Rightarrow> 64 word set" where
  "active t = {sq. sq \<in> set (t (adm_shard sq))}"

definition tracker_inv :: "tracker \<Rightarrow> 64 word \<Rightarrow> bool" where
  "tracker_inv t nxt \<longleftrightarrow>
     (\<forall>i. distinct (t i) \<and> (\<forall>sq\<in>set (t i). adm_shard sq = i \<and> sq \<noteq> 0 \<and> sq \<le> nxt))"

lemma tracker_inv_empty: "tracker_inv (\<lambda>_. []) nxt"
  by (simp add: tracker_inv_def)

lemma adm_shard_bound: "adm_shard sq < 64"
  by (simp add: adm_shard_def unat_and_mask_bound)

lemma next_greater:
  assumes "nxt \<noteq> max_uint64"
  shows "nxt < nxt + 1 \<and> nxt + 1 \<noteq> (0 :: 64 word)"
proof -
  have nz: "nxt + 1 \<noteq> 0" using assms max_word_wrap by auto
  have "unat nxt + 1 \<noteq> 2 ^ 64"
  proof
    assume "unat nxt + 1 = 2 ^ 64"
    then have "unat (nxt + 1) = 0" by (simp add: unat_word_ariths)
    with nz show False by (simp only: unat_eq_0)
  qed
  moreover have "unat nxt < 2 ^ 64" using unsigned_less [of nxt] by simp
  ultimately have "unat (nxt + 1) = unat nxt + 1" by (simp add: unat_word_ariths)
  then show ?thesis using nz by (simp add: word_less_nat_alt)
qed

lemma tracker_invD:
  assumes "tracker_inv t nxt"
  shows "sq \<in> active t \<Longrightarrow> sq \<noteq> 0" and "sq \<in> active t \<Longrightarrow> sq \<le> nxt"
    and "sq \<in> set (t i) \<Longrightarrow> adm_shard sq = i" and "sq \<in> set (t i) \<Longrightarrow> sq \<in> active t"
    and "distinct (t i)"
proof -
  have A: "adm_shard x = j \<and> x \<noteq> 0 \<and> x \<le> nxt" if "x \<in> set (t j)" for x j
    using assms that unfolding tracker_inv_def by blast
  show "sq \<noteq> 0" if "sq \<in> active t" using that A unfolding active_def by blast
  show "sq \<le> nxt" if "sq \<in> active t" using that A unfolding active_def by blast
  show "adm_shard sq = i" if "sq \<in> set (t i)" using that A by blast
  show "sq \<in> active t" if "sq \<in> set (t i)" using that A [OF that] by (simp add: active_def)
  show "distinct (t i)" using assms unfolding tracker_inv_def by blast
qed

lemma allocate_ok:
  assumes "tracker_inv t nxt" and "allocateAndRegister t nxt = Inr (sq, t')"
  shows "sq = nxt + 1 \<and> nxt < sq \<and> sq \<notin> active t \<and> active t' = insert sq (active t) \<and>
    tracker_inv t' sq"
proof -
  have nxt: "nxt \<noteq> max_uint64" and sq: "sq = nxt + 1"
    and t': "t' = t(adm_shard sq := List.insert sq (t (adm_shard sq)))"
    using assms(2) by (auto simp: allocateAndRegister_def Let_def split: if_splits)
  have gt: "nxt < sq" "sq \<noteq> 0" using next_greater [OF nxt] sq by auto
  have fresh: "sq \<notin> active t"
  proof
    assume "sq \<in> active t"
    then have "sq \<le> nxt" by (rule tracker_invD(2) [OF assms(1)])
    with gt(1) show False by simp
  qed
  have act: "active t' = insert sq (active t)" by (auto simp: active_def t')
  have "tracker_inv t' sq"
    using assms(1) gt by (auto simp: tracker_inv_def t' dest!: bspec)
  then show ?thesis using sq gt fresh act by simp
qed

lemma retire_ok:
  assumes "tracker_inv t nxt" and "sq \<in> active t"
  shows "\<exists>t'. retire sq t = Some t' \<and> active t' = active t - {sq} \<and> tracker_inv t' nxt"
proof -
  let ?i = "adm_shard sq"
  have sq: "sq \<noteq> 0" "sq \<in> set (t ?i)"
    using tracker_invD(1) [OF assms] assms(2) by (simp_all add: active_def)
  let ?t = "t(?i := remove1 sq (t ?i))"
  have "distinct (t ?i)" using assms(1) by (simp add: tracker_inv_def)
  then have "active ?t = active t - {sq}" by (auto simp: active_def)
  moreover have "tracker_inv ?t nxt"
    using assms(1) set_remove1_subset [of sq "t ?i"] unfolding tracker_inv_def by (auto dest: subsetD)
  ultimately show ?thesis using sq by (simp add: retire_def Let_def)
qed

lemma retire_zero [simp]: "retire 0 t = Some t"
  by (simp add: retire_def)

lemma retire_twice_panics:
  "sq \<noteq> 0 \<Longrightarrow> sq \<notin> active t \<Longrightarrow> retire sq t = None"
  by (simp add: retire_def active_def Let_def)

subsection \<open>The safe floor\<close>

definition is_minimum :: "64 word \<Rightarrow> 64 word set \<Rightarrow> bool" where
  "is_minimum m A \<longleftrightarrow> (if A = {} then m = 0 else m \<in> A \<and> (\<forall>x\<in>A. m \<le> x))"

lemma is_minimum_lower:
  assumes "0 \<notin> insert x A" and "is_minimum m A"
  shows "is_minimum (lower m x) (insert x A)"
proof (cases "A = {}")
  case True
  with assms show ?thesis by (simp add: is_minimum_def lower_def)
next
  case False
  with assms have m: "m \<in> A" "m \<noteq> 0" "\<forall>y\<in>A. m \<le> y" by (auto simp: is_minimum_def)
  then show ?thesis
    by (auto simp: is_minimum_def lower_def not_less intro: order.trans less_imp_le)
qed

lemma is_minimum_foldl:
  "0 \<notin> A \<union> set xs \<Longrightarrow> is_minimum m A \<Longrightarrow> is_minimum (foldl lower m xs) (A \<union> set xs)"
proof (induction xs arbitrary: m A)
  case Nil
  then show ?case by simp
next
  case (Cons x xs)
  then have "is_minimum (lower m x) (insert x A)" by (auto intro: is_minimum_lower)
  from Cons.IH [OF _ this] Cons.prems(1) show ?case by simp
qed

lemma is_minimum_scan:
  assumes "\<forall>i\<in>set is. 0 \<notin> set (t i)" and "0 \<notin> A" and "is_minimum m A"
  shows "is_minimum (foldl (\<lambda>m i. foldl lower m (t i)) m is) (A \<union> (\<Union>i\<in>set is. set (t i)))"
  using assms
proof (induction "is" arbitrary: m A)
  case Nil
  then show ?case by simp
next
  case (Cons i "is")
  have "is_minimum (foldl lower m (t i)) (A \<union> set (t i))"
    using Cons.prems by (intro is_minimum_foldl) auto
  from Cons.IH [OF _ _ this] Cons.prems show ?case by (simp add: Un_assoc)
qed

lemma active_UN:
  assumes "tracker_inv t nxt"
  shows "active t = (\<Union>i\<in>{0..<64}. set (t i))"
proof (intro set_eqI iffI)
  fix sq
  assume "sq \<in> active t"
  then have "sq \<in> set (t (adm_shard sq))" by (simp add: active_def)
  moreover have "adm_shard sq \<in> {0..<64}" using adm_shard_bound by simp
  ultimately show "sq \<in> (\<Union>i\<in>{0..<64}. set (t i))" by blast
next
  fix sq
  assume "sq \<in> (\<Union>i\<in>{0..<64}. set (t i))"
  then obtain i where "sq \<in> set (t i)" by blast
  then show "sq \<in> active t" by (rule tracker_invD(4) [OF assms])
qed

lemma finite_active: "tracker_inv t nxt \<Longrightarrow> finite (active t)"
  by (simp add: active_UN)

lemma scan_minimum_spec:
  assumes "tracker_inv t nxt"
  shows "is_minimum (scan_minimum t) (active t)"
proof -
  have "\<forall>i\<in>set [0..<64]. 0 \<notin> set (t i)" using assms unfolding tracker_inv_def by blast
  moreover have "is_minimum 0 {}" "0 \<notin> {}" by (simp_all add: is_minimum_def)
  ultimately have "is_minimum (scan_minimum t) ({} \<union> (\<Union>i\<in>set [0..<64]. set (t i)))"
    unfolding scan_minimum_def by (intro is_minimum_scan)
  then show ?thesis unfolding active_UN [OF assms] set_upt by (simp only: Un_empty_left)
qed

lemma stableSafeFloor_spec:
  assumes "tracker_inv t nxt"
  shows "stableSafeFloor t nxt =
    (if active t \<noteq> {} then Min (active t) else if nxt = max_uint64 then max_uint64 else nxt + 1)"
proof (cases "active t = {}")
  case True
  then show ?thesis
    using scan_minimum_spec [OF assms] by (simp add: stableSafeFloor_def is_minimum_def Let_def)
next
  case False
  then have m: "scan_minimum t \<in> active t" "\<forall>x\<in>active t. scan_minimum t \<le> x"
    using scan_minimum_spec [OF assms] by (auto simp: is_minimum_def)
  then have "scan_minimum t \<noteq> 0" using tracker_invD(1) [OF assms] by blast
  moreover have "Min (active t) = scan_minimum t"
    using m finite_active [OF assms] by (auto intro: Min_eqI)
  ultimately show ?thesis using False by (simp add: stableSafeFloor_def Let_def)
qed

lemma floor_le_succ:
  assumes "tracker_inv t nxt" and "nxt \<noteq> max_uint64"
  shows "stableSafeFloor t nxt \<le> nxt + 1"
proof (cases "active t = {}")
  case True
  then show ?thesis using assms stableSafeFloor_spec [OF assms(1)] by simp
next
  case False
  then have "Min (active t) \<in> active t" using finite_active [OF assms(1)] by simp
  then have "Min (active t) \<le> nxt" by (rule tracker_invD(2) [OF assms(1)])
  then show ?thesis
    using False stableSafeFloor_spec [OF assms(1)] next_greater [OF assms(2)] by auto
qed

lemma floor_retire_mono:
  assumes inv: "tracker_inv t nxt" and r: "retire sq t = Some t'" and act: "sq = 0 \<or> sq \<in> active t"
  shows "stableSafeFloor t nxt \<le> stableSafeFloor t' nxt"
proof (cases "sq = 0")
  case True
  then show ?thesis using r by simp
next
  case False
  then have sq: "sq \<in> active t" using act by simp
  then have t': "active t' = active t - {sq}" "tracker_inv t' nxt" using retire_ok [OF inv sq] r by auto
  note F = stableSafeFloor_spec [OF inv] and F' = stableSafeFloor_spec [OF t'(2)] and fin = finite_active [OF inv]
  have m: "Min (active t) \<in> active t" using sq fin by (auto intro: Min_in)
  have le: "Min (active t) \<le> nxt" by (rule tracker_invD(2) [OF inv m])
  show ?thesis
  proof (cases "active t' = {}")
    case True
    have "nxt \<le> nxt + 1" if "nxt \<noteq> max_uint64" using next_greater [OF that] by (rule conjE) (rule less_imp_le)
    then show ?thesis using True F F' sq le by (auto intro: order.trans)
  next
    case False
    have "Min (active t) \<le> Min (active t')" using False t'(1) fin by (intro Min_antimono) auto
    then show ?thesis using False F F' sq by auto
  qed
qed

lemma floor_allocate_mono:
  assumes inv: "tracker_inv t nxt" and a: "allocateAndRegister t nxt = Inr (sq, t')"
  shows "stableSafeFloor t nxt \<le> stableSafeFloor t' sq"
proof -
  note A = allocate_ok [OF inv a]
  have nxt: "nxt \<noteq> max_uint64" using a by (auto simp: allocateAndRegister_def split: if_splits)
  have F': "stableSafeFloor t' sq = Min (insert sq (active t))"
    using A stableSafeFloor_spec [of t' sq] by (elim conjE) (simp only: insert_not_empty if_True simp_thms)
  show ?thesis
  proof (cases "active t = {}")
    case True
    then show ?thesis using F' A stableSafeFloor_spec [OF inv] nxt by simp
  next
    case False
    have "Min (active t) \<le> sq"
      using floor_le_succ [OF inv nxt] False stableSafeFloor_spec [OF inv] A by simp
    then show ?thesis using F' False stableSafeFloor_spec [OF inv] finite_active [OF inv] by simp
  qed
qed

end
