(* ===== verification/Rpc_Ledger.thy ===== *)
theory Rpc_Ledger
  imports Subscriber_Budget Admission_Tracker
begin

text \<open>
  \<open>rpcExecutionLedger\<close> (rpc_execution_ledger.go) and the in-flight claims of rpc_flight.go: the
  component that makes an RPC execute at most once per \<open>(auth_key_id, session_id, req_msg_id)\<close>.
  A claim is a pending flight (an owner is executing) or a completed receipt; the ledger never
  stores payloads, which it resolves through the replay store, here the argument
  \<open>rs :: exec_key \<Rightarrow> 'm option\<close>.

  Flights and owner leases are compared by pointer in the code (an old lease must not settle a
  newer owner of the same key), so flights live in a heap \<open>flights\<close> and the pending map holds
  addresses; \<open>acquire\<close> creates one lease per flight, stored under the flight's address. Callbacks
  are identified by numbers and an operation returns the list of callbacks it runs after
  unlocking. Each shard's critical section is atomic. Receivers are allocated objects: the
  \<open>nil\<close>-receiver guards are not modelled. \<open>'i\<close> is the opaque prepared identity of a request
  (\<open>None\<close> its zero value), \<open>'m\<close> the encoded message.
\<close>

definition rpcExecutionReceiptTTL :: int where
  "rpcExecutionReceiptTTL = 331 * 1000000000"

definition rpcExecutionReceiptBudgetBytes :: int where
  "rpcExecutionReceiptBudgetBytes = 384"

datatype ledger_error =
    ErrRPCResultFlightCapacity
  | ErrRPCResultSubscriberCapacity
  | ErrRPCResultFlightInvalid
  | ErrRPCResultIdentityMismatch int bool \<comment> \<open>profile, hasProfile\<close>
  | ErrRPCResultReplayUnavailable
  | ErrRPCAdmissionSeqExhausted

record 'i identity =
  id_exact :: "'i option"
  id_profile :: int
  id_valid :: bool

definition no_identity :: "'i identity" where
  "no_identity = \<lparr>id_exact = None, id_profile = 0, id_valid = False\<rparr>"

definition matches :: "'i identity \<Rightarrow> 'i identity \<Rightarrow> bool" where
  "matches i requested =
     (if \<not> id_valid requested then True else id_valid i \<and> id_exact i = id_exact requested)"

definition identityMismatch :: "'i identity \<Rightarrow> ledger_error" where
  "identityMismatch i =
     ErrRPCResultIdentityMismatch (id_profile i) (id_valid i \<and> id_profile i \<noteq> 0)"

record 'i receipt =
  rc_key :: exec_key
  rc_expiresAt :: int
  rc_identity :: "'i identity"
  rc_admissionSeq :: "64 word"
  rc_executionKnown :: bool
  rc_executionOK :: bool
  rc_acknowledged :: bool
  rc_unavailable :: bool
  rc_reservation :: "nat option"

record ('i, 'm) flight =
  fl_done :: bool
  fl_encoded :: "'m option"
  fl_ok :: bool
  fl_subscribers :: "nat list"
  fl_executionDone :: bool
  fl_executionOK :: bool
  fl_executionSubscribers :: "nat list"
  fl_acknowledged :: bool
  fl_subscriberSlots :: int
  fl_identity :: "'i identity"
  fl_admissionSeq :: "64 word"
  fl_reservation :: "nat option"

record lease =
  ls_key :: exec_key
  ls_handedOff :: bool
  ls_abortHook :: "nat option"

record 'i shard =
  sh_order :: "'i receipt list"
  sh_byKey :: "exec_key \<rightharpoonup> 'i receipt"
  sh_pending :: "exec_key \<rightharpoonup> nat"

record ('i, 'm) ledger =
  ld_hash :: "byte list \<Rightarrow> 64 word"
  ld_shards :: "nat \<Rightarrow> 'i shard"
  receiptCount :: int
  fairBudget :: fair_budget
  flightLimit :: flight_limit
  subscriberBudget :: sub_budget
  subscriberPerFlight :: int
  nextAdmissionSeq :: "64 word"
  activeAdmissions :: tracker
  flights :: "nat \<rightharpoonup> ('i, 'm) flight"
  next_flight :: nat
  leases :: "nat \<rightharpoonup> lease"

record ledger_capacity =
  cp_maxPending :: int
  cp_maxPendingPerAuth :: int
  cp_globalMaxEntries :: int
  cp_authMaxEntries :: int
  cp_sessionMaxEntries :: int
  cp_subscriberMaxGlobal :: int
  cp_subscriberMaxAuth :: int
  cp_subscriberMaxSession :: int
  cp_subscriberMaxPerFlight :: int

datatype 'm event = ResultCallback nat "'m option" bool | ExecutionCallback nat bool | HookCallback nat

definition or_default :: "int \<Rightarrow> int \<Rightarrow> int" where
  "or_default x d = (if x \<le> 0 then d else x)"

definition empty_shard :: "'i shard" where
  "empty_shard = \<lparr>sh_order = [], sh_byKey = Map.empty, sh_pending = Map.empty\<rparr>"

definition newRPCExecutionLedger ::
  "(byte list \<Rightarrow> 64 word) \<Rightarrow> ledger_capacity \<Rightarrow> ('i, 'm) ledger" where
  "newRPCExecutionLedger sd c =
     (let maxPending = or_default (cp_maxPending c) 8192;
          perAuth = or_default (cp_maxPendingPerAuth c) maxPending;
          globalMax = or_default (cp_globalMaxEntries c) (2 ^ 18);
          authMax = or_default (cp_authMaxEntries c) globalMax;
          sessionMax = or_default (cp_sessionMaxEntries c) authMax
      in \<lparr>ld_hash = sd, ld_shards = (\<lambda>_. empty_shard), receiptCount = 0,
          fairBudget = newRPCExecutionFairBudget sd \<lparr>fl_max = globalMax, fl_used = 0\<rparr>
            authMax sessionMax perAuth,
          flightLimit = \<lparr>fl_max = maxPending, fl_used = 0\<rparr>,
          subscriberBudget = newRPCResultSubscriberBudget sd
            (or_default (cp_subscriberMaxGlobal c) rpcResultSubscriberMaxGlobal)
            (or_default (cp_subscriberMaxAuth c) rpcResultSubscriberMaxAuth)
            (or_default (cp_subscriberMaxSession c) rpcResultSubscriberMaxSession),
          subscriberPerFlight =
            or_default (cp_subscriberMaxPerFlight c) rpcResultSubscriberMaxPerFlight,
          nextAdmissionSeq = 0, activeAdmissions = (\<lambda>_. []),
          flights = Map.empty, next_flight = 0, leases = Map.empty\<rparr>)"

definition shardIndex :: "('i, 'm) ledger \<Rightarrow> exec_key \<Rightarrow> nat" where
  "shardIndex l key =
     unat (and (ld_hash l (ek_auth key @ le64 (ek_session key) @ le64 (ek_req key))) 15)"

definition stableAdmissionSafeFloor :: "('i, 'm) ledger \<Rightarrow> 64 word" where
  "stableAdmissionSafeFloor l = stableSafeFloor (activeAdmissions l) (nextAdmissionSeq l)"

definition receiptBudgetBytes :: "('i, 'm) ledger \<Rightarrow> int" where
  "receiptBudgetBytes l = receiptCount l * rpcExecutionReceiptBudgetBytes"

text \<open>The receipt and the pending flight of a key, read from the key's shard.\<close>

definition rcpt :: "('i, 'm) ledger \<Rightarrow> exec_key \<rightharpoonup> 'i receipt" where
  "rcpt l k = sh_byKey (ld_shards l (shardIndex l k)) k"

definition pend :: "('i, 'm) ledger \<Rightarrow> exec_key \<rightharpoonup> nat" where
  "pend l k = sh_pending (ld_shards l (shardIndex l k)) k"

definition put_shard :: "nat \<Rightarrow> 'i shard \<Rightarrow> ('i, 'm) ledger \<Rightarrow> ('i, 'm) ledger" where
  "put_shard i s l = l\<lparr>ld_shards := (ld_shards l)(i := s)\<rparr>"

definition put_pending :: "exec_key \<Rightarrow> nat option \<Rightarrow> ('i, 'm) ledger \<Rightarrow> ('i, 'm) ledger" where
  "put_pending k f l =
     (let i = shardIndex l k; s = ld_shards l i
      in put_shard i (s\<lparr>sh_pending := (sh_pending s)(k := f)\<rparr>) l)"

definition put_flight :: "nat \<Rightarrow> ('i, 'm) flight \<Rightarrow> ('i, 'm) ledger \<Rightarrow> ('i, 'm) ledger" where
  "put_flight f fl l = l\<lparr>flights := (flights l)(f \<mapsto> fl)\<rparr>"

subsection \<open>Receipts: unlink, remove, expire, forget\<close>

definition unlinkElement :: "nat \<Rightarrow> 'i receipt \<Rightarrow> ('i, 'm) ledger \<Rightarrow> ('i, 'm) ledger option" where
  "unlinkElement i rc l =
     (let s = ld_shards l i;
          s' = s\<lparr>sh_byKey := (sh_byKey s)(rc_key rc := None), sh_order := remove1 rc (sh_order s)\<rparr>
      in if receiptCount l - 1 < 0 then None
         else Some ((put_shard i s' l)\<lparr>receiptCount := receiptCount l - 1\<rparr>))"

definition removeElement :: "nat \<Rightarrow> 'i receipt \<Rightarrow> ('i, 'm) ledger \<Rightarrow> ('i, 'm) ledger option" where
  "removeElement i rc l =
     do { l1 \<leftarrow> unlinkElement i rc l;
          case rc_reservation rc of
            None \<Rightarrow> Some l1
          | Some r \<Rightarrow> do { fb \<leftarrow> fair_release r (fairBudget l1); Some (l1\<lparr>fairBudget := fb\<rparr>) } }"

fun expire_list :: "nat \<Rightarrow> int \<Rightarrow> 'i receipt list \<Rightarrow> ('i, 'm) ledger \<Rightarrow> ('i, 'm) ledger option" where
  "expire_list i now [] l = Some l"
| "expire_list i now (rc # rcs) l =
     (if rc_expiresAt rc > now then Some l
      else do { l1 \<leftarrow> removeElement i rc l; expire_list i now rcs l1 })"

definition expireLocked :: "nat \<Rightarrow> int \<Rightarrow> ('i, 'm) ledger \<Rightarrow> ('i, 'm) ledger option" where
  "expireLocked i now l = expire_list i now (sh_order (ld_shards l i)) l"

text \<open>Each shard reads the clock again while the loop visits it: \<open>clk i\<close> is that reading.\<close>

fun expire_shards :: "(nat \<Rightarrow> int) \<Rightarrow> nat list \<Rightarrow> ('i, 'm) ledger \<Rightarrow> ('i, 'm) ledger option" where
  "expire_shards clk [] l = Some l"
| "expire_shards clk (i # is) l = do { l1 \<leftarrow> expireLocked i (clk i) l; expire_shards clk is l1 }"

definition expireReceipts :: "(nat \<Rightarrow> int) \<Rightarrow> ('i, 'm) ledger \<Rightarrow> ('i, 'm) ledger option" where
  "expireReceipts clk l = expire_shards clk [0..<16] l"

fun forget_list ::
  "nat \<Rightarrow> session_key \<Rightarrow> 'i receipt list \<Rightarrow> ('i, 'm) ledger \<Rightarrow> ('i, 'm) ledger option" where
  "forget_list i s [] l = Some l"
| "forget_list i s (rc # rcs) l =
     (if session_of (rc_key rc) = s
      then do { l1 \<leftarrow> removeElement i rc l; forget_list i s rcs l1 }
      else forget_list i s rcs l)"

fun forget_shards :: "session_key \<Rightarrow> nat list \<Rightarrow> ('i, 'm) ledger \<Rightarrow> ('i, 'm) ledger option" where
  "forget_shards s [] l = Some l"
| "forget_shards s (i # is) l =
     do { l1 \<leftarrow> forget_list i s (sh_order (ld_shards l i)) l; forget_shards s is l1 }"

definition forgetSession :: "session_key \<Rightarrow> ('i, 'm) ledger \<Rightarrow> ('i, 'm) ledger option" where
  "forgetSession s l = forget_shards s [0..<16] l"

subsection \<open>Replay, acknowledgement, dependencies\<close>

definition Replay ::
  "(exec_key \<Rightarrow> 'm option) \<Rightarrow> int \<Rightarrow> exec_key \<Rightarrow> ('i, 'm) ledger \<Rightarrow>
     ('m option \<times> ('i, 'm) ledger) option" where
  "Replay rs now key l =
     (if ek_req key = 0 then Some (None, l)
      else case rcpt l key of
        None \<Rightarrow> Some (None, l)
      | Some rc \<Rightarrow>
          if \<not> rc_expiresAt rc > now
          then do { l1 \<leftarrow> removeElement (shardIndex l key) rc l; Some (None, l1) }
          else if rc_unavailable rc \<or> rc_acknowledged rc then Some (None, l)
          else Some (rs key, l))"

definition Acknowledge ::
  "int \<Rightarrow> exec_key \<Rightarrow> ('i, 'm) ledger \<Rightarrow> (bool \<times> ('i, 'm) ledger) option" where
  "Acknowledge now key l =
     (if ek_req key = 0 then Some (False, l)
      else do {
        l1 \<leftarrow> expireLocked (shardIndex l key) now l;
        case rcpt l1 key of
          Some rc \<Rightarrow> do { l2 \<leftarrow> removeElement (shardIndex l1 key) rc l1; Some (True, l2) }
        | None \<Rightarrow>
            (case pend l1 key of
               None \<Rightarrow> Some (False, l1)
             | Some f \<Rightarrow>
                 do { fl \<leftarrow> flights l1 f;
                      Some (True, put_flight f (fl\<lparr>fl_acknowledged := True\<rparr>) l1) }) })"

datatype dependency = DepUnknown | DepCompleted bool | DepWaiter nat

definition ObserveDependency ::
  "int \<Rightarrow> exec_key \<Rightarrow> ('i, 'm) ledger \<Rightarrow> (dependency \<times> ('i, 'm) ledger) option" where
  "ObserveDependency now key l =
     (if ek_req key = 0 then Some (DepUnknown, l)
      else
        let from_pending = (\<lambda>l1. case pend l1 key of
              None \<Rightarrow> Some (DepUnknown, l1)
            | Some f \<Rightarrow> do { fl \<leftarrow> flights l1 f;
                Some (if fl_executionDone fl then DepCompleted (fl_executionOK fl) else DepWaiter f, l1) })
        in case rcpt l key of
             None \<Rightarrow> from_pending l
           | Some rc \<Rightarrow>
               if rc_expiresAt rc > now
               then Some (if \<not> rc_executionKnown rc then DepUnknown
                          else DepCompleted (rc_executionOK rc), l)
               else do { l1 \<leftarrow> removeElement (shardIndex l key) rc l; from_pending l1 })"

definition ExactAdmissionProfile ::
  "int \<Rightarrow> exec_key \<Rightarrow> ('i, 'm) ledger \<Rightarrow> (int option \<times> ('i, 'm) ledger) option" where
  "ExactAdmissionProfile now key l =
     (if ek_req key = 0 then Some (None, l)
      else
        let profile_of = (\<lambda>i. if id_valid i \<and> id_profile i \<noteq> 0 then Some (id_profile i) else None);
            from_pending = (\<lambda>l1. case pend l1 key of
              None \<Rightarrow> Some (None, l1)
            | Some f \<Rightarrow> do { fl \<leftarrow> flights l1 f; Some (profile_of (fl_identity fl), l1) })
        in case rcpt l key of
             None \<Rightarrow> from_pending l
           | Some rc \<Rightarrow>
               if rc_expiresAt rc > now then Some (profile_of (rc_identity rc), l)
               else do { l1 \<leftarrow> removeElement (shardIndex l key) rc l; from_pending l1 })"


subsection \<open>Terminal publication: Complete\<close>

definition releaseFlightSubscriberSlotsLocked ::
  "exec_key \<Rightarrow> nat \<Rightarrow> int \<Rightarrow> ('i, 'm) ledger \<Rightarrow> ('i, 'm) ledger option" where
  "releaseFlightSubscriberSlotsLocked key f slots l =
     (if slots = 0 then Some l
      else do {
        fl \<leftarrow> flights l f;
        if slots < 0 \<or> fl_subscriberSlots fl < slots then None
        else do {
          sb \<leftarrow> sub_release (subscriberBudget l) key slots;
          Some ((put_flight f (fl\<lparr>fl_subscriberSlots := fl_subscriberSlots fl - slots\<rparr>) l)
            \<lparr>subscriberBudget := sb\<rparr>) } })"

text \<open>Closing a channel twice panics; the flight's \<open>done\<close> channel is the flag \<open>fl_done\<close>.\<close>

definition close_done :: "nat \<Rightarrow> ('i, 'm) ledger \<Rightarrow> ('i, 'm) ledger option" where
  "close_done f l =
     do { fl \<leftarrow> flights l f;
          if fl_done fl then None else Some (put_flight f (fl\<lparr>fl_done := True\<rparr>) l) }"

definition completeRPCResultFlightLocked ::
  "exec_key \<Rightarrow> 'm \<Rightarrow> ('i, 'm) ledger \<Rightarrow> ((nat list \<times> nat list \<times> bool) \<times> ('i, 'm) ledger) option" where
  "completeRPCResultFlightLocked key encoded l =
     (case pend l key of
        None \<Rightarrow> Some (([], [], False), l)
      | Some f \<Rightarrow> do {
          fl \<leftarrow> flights l f;
          fb \<leftarrow> (case fl_reservation fl of None \<Rightarrow> Some (fairBudget l)
                   | Some r \<Rightarrow> fair_releasePending r (fairBudget l));
          lim \<leftarrow> flight_release (flightLimit l);
          tr \<leftarrow> retire (fl_admissionSeq fl) (activeAdmissions l);
          let subs = fl_subscribers fl;
              exs = fl_executionSubscribers fl;
              ok = (if fl_executionDone fl then fl_executionOK fl else False);
              fl' = fl\<lparr>fl_reservation := None, fl_encoded := Some encoded, fl_ok := True,
                fl_subscribers := [], fl_executionSubscribers := [],
                fl_executionDone := True, fl_executionOK := ok\<rparr>;
              l1 = (put_flight f fl' (put_pending key None l))
                \<lparr>fairBudget := fb, flightLimit := lim, activeAdmissions := tr\<rparr>
          in do {
            l2 \<leftarrow> releaseFlightSubscriberSlotsLocked key f (int (length subs + length exs)) l1;
            l3 \<leftarrow> close_done f l2;
            Some ((subs, exs, ok), l3) } })"

definition rpcResultFlightMetadataLocked ::
  "exec_key \<Rightarrow> ('i, 'm) ledger \<Rightarrow> 'i identity \<times> 64 word \<times> bool \<times> bool \<times> bool" where
  "rpcResultFlightMetadataLocked key l =
     (case Option.bind (pend l key) (flights l) of
        Some fl \<Rightarrow> (fl_identity fl, fl_admissionSeq fl, fl_executionDone fl, fl_executionOK fl,
          fl_acknowledged fl)
      | None \<Rightarrow> (no_identity, 0, False, False, False))"

text \<open>The reservation a completion uses: the flight's, an old receipt's, or a fresh one; \<open>Inl\<close>
  is the refusal that makes the caller reap and retry.\<close>

definition completion_reservation ::
  "exec_key \<Rightarrow> 'i receipt option \<Rightarrow> ('i, 'm) ledger \<Rightarrow> (unit + nat \<times> ('i, 'm) ledger) option" where
  "completion_reservation key old l =
     (case pend l key of
        Some f \<Rightarrow> do { fl \<leftarrow> flights l f; r \<leftarrow> fl_reservation fl; Some (Inr (r, l)) }
      | None \<Rightarrow>
          (case Option.bind old rc_reservation of
             Some r \<Rightarrow> Some (Inr (r, l))
           | None \<Rightarrow>
               (case fair_reserveCompleted (fairBudget l) key of
                  (None, _) \<Rightarrow> Some (Inl ())
                | (Some r, fb) \<Rightarrow> Some (Inr (r, l\<lparr>fairBudget := fb\<rparr>)))))"

definition unlink_old ::
  "nat \<Rightarrow> 'i receipt option \<Rightarrow> nat \<Rightarrow> ('i, 'm) ledger \<Rightarrow> ('i, 'm) ledger option" where
  "unlink_old i old r l =
     (case old of
        None \<Rightarrow> Some l
      | Some rc \<Rightarrow> do {
          l1 \<leftarrow> unlinkElement i rc l;
          case rc_reservation rc of
            None \<Rightarrow> Some l1
          | Some r0 \<Rightarrow>
              if r0 = r then Some l1
              else do { fb \<leftarrow> fair_release r0 (fairBudget l1); Some (l1\<lparr>fairBudget := fb\<rparr>) } })"

definition push_receipt :: "nat \<Rightarrow> 'i receipt \<Rightarrow> ('i, 'm) ledger \<Rightarrow> ('i, 'm) ledger" where
  "push_receipt i rc l =
     (let s = ld_shards l i
      in (put_shard i (s\<lparr>sh_order := sh_order s @ [rc], sh_byKey := (sh_byKey s)(rc_key rc \<mapsto> rc)\<rparr>) l)
           \<lparr>receiptCount := receiptCount l + 1\<rparr>)"

definition completeOnce ::
  "int \<Rightarrow> exec_key \<Rightarrow> 'm \<Rightarrow> bool \<Rightarrow> ('i, 'm) ledger \<Rightarrow>
     ((bool \<times> 'm event list) \<times> ('i, 'm) ledger) option" where
  "completeOnce now key encoded replayable l =
     do {
       l1 \<leftarrow> expireLocked (shardIndex l key) now l;
       let i = shardIndex l1 key; old = rcpt l1 key
       in if old \<noteq> None \<and> pend l1 key = None then Some ((True, []), l1)
          else do {
            let (ident, sq, known, ok, acked) = rpcResultFlightMetadataLocked key l1
            in do {
              choice \<leftarrow> completion_reservation key old l1;
              case choice of
                Inl _ \<Rightarrow> Some ((False, []), l1)
              | Inr (r, l2) \<Rightarrow> do {
                  l3 \<leftarrow> unlink_old i old r l2;
                  let rc = \<lparr>rc_key = key, rc_expiresAt = now + rpcExecutionReceiptTTL,
                        rc_identity = ident, rc_admissionSeq = sq, rc_executionKnown = known,
                        rc_executionOK = ok, rc_acknowledged = acked,
                        rc_unavailable = \<not> replayable, rc_reservation = Some r\<rparr>
                  in do {
                    ((subs, exs, tok), l4) \<leftarrow>
                      completeRPCResultFlightLocked key encoded (push_receipt i rc l3);
                    l5 \<leftarrow> (if acked then removeElement i rc l4 else Some l4);
                    Some ((True, map (\<lambda>c. ResultCallback c (Some encoded) True) subs @
                                 map (\<lambda>c. ExecutionCallback c tok) exs), l5) } } } } }"

definition Complete ::
  "(exec_key \<Rightarrow> 'm option) \<Rightarrow> int \<Rightarrow> (nat \<Rightarrow> int) \<Rightarrow> int \<Rightarrow> exec_key \<Rightarrow> 'm \<Rightarrow> bool \<Rightarrow>
     ('i, 'm) ledger \<Rightarrow> ('m event list \<times> ('i, 'm) ledger) option" where
  "Complete rs now clk now' key encoded replayable l =
     (if ek_req key = 0 then Some ([], l)
      else let replayable' = (replayable \<and> rs key \<noteq> None)
           in do {
             ((settled, evs), l1) \<leftarrow> completeOnce now key encoded replayable' l;
             if settled then Some (evs, l1)
             else do {
               l2 \<leftarrow> expireReceipts clk l1;
               ((_, evs'), l3) \<leftarrow> completeOnce now' key encoded replayable' l2;
               Some (evs', l3) } })"

subsection \<open>Claims: acquire\<close>

datatype 'm acquire_result =
    AcquireCompleted "64 word" 'm bool bool      \<comment> \<open>admissionSeq, encoded, executionKnown, executionOK\<close>
  | AcquireAcknowledged "64 word" bool bool
  | AcquirePending "64 word" nat                 \<comment> \<open>the waiter's flight\<close>
  | AcquireOwner "64 word" nat                   \<comment> \<open>the owner lease's flight\<close>

datatype 'm attempt = Settled "ledger_error + 'm acquire_result" | NeedsReap

definition new_flight :: "'i identity \<Rightarrow> 64 word \<Rightarrow> nat \<Rightarrow> ('i, 'm) flight" where
  "new_flight ident sq r =
     \<lparr>fl_done = False, fl_encoded = None, fl_ok = False, fl_subscribers = [],
      fl_executionDone = False, fl_executionOK = False, fl_executionSubscribers = [],
      fl_acknowledged = False, fl_subscriberSlots = 0, fl_identity = ident,
      fl_admissionSeq = sq, fl_reservation = Some r\<rparr>"

definition install_owner ::
  "exec_key \<Rightarrow> 'i identity \<Rightarrow> 64 word \<Rightarrow> nat \<Rightarrow> ('i, 'm) ledger \<Rightarrow> nat \<times> ('i, 'm) ledger" where
  "install_owner key ident sq r l =
     (let f = next_flight l
      in (f, (put_pending key (Some f) (put_flight f (new_flight ident sq r) l))
            \<lparr>next_flight := f + 1,
             leases := (leases l)(f \<mapsto> \<lparr>ls_key = key, ls_handedOff = False, ls_abortHook = None\<rparr>)\<rparr>))"

definition claim_owner ::
  "exec_key \<Rightarrow> 'i identity \<Rightarrow> ('i, 'm) ledger \<Rightarrow> ('m attempt \<times> ('i, 'm) ledger) option" where
  "claim_owner key ident l =
     (case flight_reserve (flightLimit l) of
        (False, _) \<Rightarrow> Some (Settled (Inl ErrRPCResultFlightCapacity), l)
      | (True, lim) \<Rightarrow>
          (case fair_reserveOwner (fairBudget l) key of
             (None, _) \<Rightarrow> do { lim' \<leftarrow> flight_release lim; Some (NeedsReap, l\<lparr>flightLimit := lim'\<rparr>) }
           | (Some r, fb) \<Rightarrow>
               let l1 = l\<lparr>flightLimit := lim, fairBudget := fb\<rparr>
               in if id_valid ident
                  then (case allocateAndRegister (activeAdmissions l) (nextAdmissionSeq l) of
                          Inl _ \<Rightarrow> do {
                            fb' \<leftarrow> fair_release r fb;
                            lim' \<leftarrow> flight_release lim;
                            Some (Settled (Inl ErrRPCAdmissionSeqExhausted),
                              l1\<lparr>flightLimit := lim', fairBudget := fb'\<rparr>) }
                        | Inr (sq, tr) \<Rightarrow>
                            let (f, l2) = install_owner key ident sq r
                                  (l1\<lparr>activeAdmissions := tr, nextAdmissionSeq := sq\<rparr>)
                            in Some (Settled (Inr (AcquireOwner sq f)), l2))
                  else let (f, l2) = install_owner key ident 0 r l1
                       in Some (Settled (Inr (AcquireOwner 0 f)), l2)))"

definition acquireAttempt ::
  "(exec_key \<Rightarrow> 'm option) \<Rightarrow> int \<Rightarrow> exec_key \<Rightarrow> 'i identity \<Rightarrow> ('i, 'm) ledger \<Rightarrow>
     ('m attempt \<times> ('i, 'm) ledger) option" where
  "acquireAttempt rs now key ident l =
     do {
       l1 \<leftarrow> expireLocked (shardIndex l key) now l;
       case rcpt l1 key of
         Some rc \<Rightarrow>
           Some (Settled
             (if \<not> matches (rc_identity rc) ident then Inl (identityMismatch (rc_identity rc))
              else if rc_acknowledged rc
                then Inr (AcquireAcknowledged (rc_admissionSeq rc) (rc_executionKnown rc) (rc_executionOK rc))
              else if rc_unavailable rc then Inl ErrRPCResultFlightCapacity
              else (case rs key of
                      None \<Rightarrow> Inl ErrRPCResultReplayUnavailable
                    | Some m \<Rightarrow> Inr (AcquireCompleted (rc_admissionSeq rc) m
                        (rc_executionKnown rc) (rc_executionOK rc)))), l1)
       | None \<Rightarrow>
           (case pend l1 key of
              Some f \<Rightarrow> do {
                fl \<leftarrow> flights l1 f;
                Some (Settled
                  (if \<not> matches (fl_identity fl) ident then Inl (identityMismatch (fl_identity fl))
                   else if fl_acknowledged fl
                     then Inr (AcquireAcknowledged (fl_admissionSeq fl) (fl_executionDone fl) (fl_executionOK fl))
                   else Inr (AcquirePending (fl_admissionSeq fl) f)), l1) }
            | None \<Rightarrow> claim_owner key ident l1) }"

definition acquire ::
  "(exec_key \<Rightarrow> 'm option) \<Rightarrow> int \<Rightarrow> (nat \<Rightarrow> int) \<Rightarrow> int \<Rightarrow> exec_key \<Rightarrow> 'i identity \<Rightarrow>
     ('i, 'm) ledger \<Rightarrow> ((ledger_error + 'm acquire_result) \<times> ('i, 'm) ledger) option" where
  "acquire rs now clk now' key ident l =
     (if ek_req key = 0 then Some (Inl ErrRPCResultFlightInvalid, l)
      else do {
        (res, l1) \<leftarrow> acquireAttempt rs now key ident l;
        case res of
          Settled r \<Rightarrow> Some (r, l1)
        | NeedsReap \<Rightarrow> do {
            l2 \<leftarrow> expireReceipts clk l1;
            (res', l3) \<leftarrow> acquireAttempt rs now' key ident l2;
            case res' of
              Settled r \<Rightarrow> Some (r, l3)
            | NeedsReap \<Rightarrow> Some (Inl ErrRPCResultFlightCapacity, l3) } })"

definition AcquireIdentified ::
  "(exec_key \<Rightarrow> 'm option) \<Rightarrow> int \<Rightarrow> (nat \<Rightarrow> int) \<Rightarrow> int \<Rightarrow> exec_key \<Rightarrow> int \<Rightarrow> 'i \<Rightarrow>
     ('i, 'm) ledger \<Rightarrow> ((ledger_error + 'm acquire_result) \<times> ('i, 'm) ledger) option" where
  "AcquireIdentified rs now clk now' key prof x l =
     acquire rs now clk now' key \<lparr>id_exact = Some x, id_profile = prof, id_valid = True\<rparr> l"

subsection \<open>The owner lease\<close>

text \<open>A lease (named by its flight \<open>f\<close>) still owns its key when the pending map points to that
  very flight.\<close>

definition owns :: "nat \<Rightarrow> lease \<Rightarrow> ('i, 'm) ledger \<Rightarrow> bool" where
  "owns f ls l \<longleftrightarrow> pend l (ls_key ls) = Some f"

definition InstallAbortHook :: "nat \<Rightarrow> nat \<Rightarrow> ('i, 'm) ledger \<Rightarrow> (bool \<times> ('i, 'm) ledger) option" where
  "InstallAbortHook f hook l =
     do { ls \<leftarrow> leases l f;
          if \<not> owns f ls l then Some (False, l)
          else Some (True, l\<lparr>leases := (leases l)(f \<mapsto> ls\<lparr>ls_abortHook := Some hook\<rparr>)\<rparr>) }"

text \<open>\<open>SetAbortHook\<close> replaces or clears the hook without asking who owns the key.\<close>

definition SetAbortHook :: "nat \<Rightarrow> nat option \<Rightarrow> ('i, 'm) ledger \<Rightarrow> ('i, 'm) ledger option" where
  "SetAbortHook f hook l =
     do { ls \<leftarrow> leases l f; Some (l\<lparr>leases := (leases l)(f \<mapsto> ls\<lparr>ls_abortHook := hook\<rparr>)\<rparr>) }"

definition HandOff :: "nat \<Rightarrow> ('i, 'm) ledger \<Rightarrow> (bool \<times> ('i, 'm) ledger) option" where
  "HandOff f l =
     do { ls \<leftarrow> leases l f;
          if \<not> owns f ls l then Some (False, l)
          else Some (True, l\<lparr>leases := (leases l)(f \<mapsto> ls\<lparr>ls_handedOff := True\<rparr>)\<rparr>) }"

definition CompleteExecution ::
  "nat \<Rightarrow> bool \<Rightarrow> ('i, 'm) ledger \<Rightarrow> ((bool \<times> 'm event list) \<times> ('i, 'm) ledger) option" where
  "CompleteExecution f success l =
     do { ls \<leftarrow> leases l f;
          fl \<leftarrow> flights l f;
          if \<not> owns f ls l \<or> fl_executionDone fl then Some ((False, []), l)
          else
            let exs = fl_executionSubscribers fl;
                l1 = put_flight f (fl\<lparr>fl_executionDone := True, fl_executionOK := success,
                       fl_executionSubscribers := []\<rparr>) l
            in do {
              l2 \<leftarrow> releaseFlightSubscriberSlotsLocked (ls_key ls) f (int (length exs)) l1;
              Some ((True, map (\<lambda>c. ExecutionCallback c success) exs), l2) } }"

definition Abort ::
  "nat \<Rightarrow> ('i, 'm) ledger \<Rightarrow> ((bool \<times> 'm event list) \<times> ('i, 'm) ledger) option" where
  "Abort f l =
     do { ls \<leftarrow> leases l f;
          if ls_handedOff ls \<or> \<not> owns f ls l then Some ((False, []), l)
          else do {
            fl \<leftarrow> flights l f;
            fb \<leftarrow> (case fl_reservation fl of None \<Rightarrow> Some (fairBudget l)
                     | Some r \<Rightarrow> fair_release r (fairBudget l));
            lim \<leftarrow> flight_release (flightLimit l);
            tr \<leftarrow> retire (fl_admissionSeq fl) (activeAdmissions l);
            let key = ls_key ls;
                subs = fl_subscribers fl;
                exs = fl_executionSubscribers fl;
                fl' = fl\<lparr>fl_reservation := None, fl_subscribers := [], fl_executionSubscribers := [],
                  fl_executionDone := True,
                  fl_executionOK := (if fl_executionDone fl then fl_executionOK fl else False)\<rparr>;
                l1 = (put_flight f fl' (put_pending key None l))
                  \<lparr>fairBudget := fb, flightLimit := lim, activeAdmissions := tr\<rparr>
            in do {
              l2 \<leftarrow> releaseFlightSubscriberSlotsLocked key f (int (length subs + length exs)) l1;
              l3 \<leftarrow> close_done f l2;
              Some ((True, (case ls_abortHook ls of None \<Rightarrow> [] | Some h \<Rightarrow> [HookCallback h]) @
                           map (\<lambda>c. ResultCallback c None False) subs @
                           map (\<lambda>c. ExecutionCallback c False) exs),
                    l3\<lparr>leases := (leases l3)(f \<mapsto> ls\<lparr>ls_abortHook := None\<rparr>)\<rparr>) } } }"

subsection \<open>Waiters\<close>

text \<open>\<open>subscribe\<close>: the two optional callbacks are \<open>resultFn\<close> and \<open>executionFn\<close>.\<close>

definition subscribe ::
  "exec_key \<Rightarrow> nat \<Rightarrow> nat option \<Rightarrow> nat option \<Rightarrow> ('i, 'm) ledger \<Rightarrow>
     ((ledger_error + 'm event list) \<times> ('i, 'm) ledger) option" where
  "subscribe key f resultFn executionFn l =
     (if resultFn = None \<and> executionFn = None then Some (Inl ErrRPCResultFlightInvalid, l)
      else do {
        fl \<leftarrow> flights l f;
        if pend l key = Some f then
          let slots = (if resultFn \<noteq> None then 1 else 0) +
                      (if executionFn \<noteq> None \<and> \<not> fl_executionDone fl then 1 else (0 :: int));
              attach = (\<lambda>l1. let
                fl1 = fl\<lparr>fl_subscriberSlots := fl_subscriberSlots fl + slots,
                  fl_subscribers := fl_subscribers fl @ (case resultFn of None \<Rightarrow> [] | Some c \<Rightarrow> [c]),
                  fl_executionSubscribers := fl_executionSubscribers fl @
                    (case executionFn of None \<Rightarrow> [] | Some c \<Rightarrow> if fl_executionDone fl then [] else [c])\<rparr>;
                evs = (case executionFn of None \<Rightarrow> []
                         | Some c \<Rightarrow> if fl_executionDone fl then [ExecutionCallback c (fl_executionOK fl)] else [])
                in (Inr evs, put_flight f fl1 l1))
          in if slots > 0 then
               (if fl_subscriberSlots fl > subscriberPerFlight l - slots
                then Some (Inl ErrRPCResultSubscriberCapacity, l)
                else case sub_reserve (subscriberBudget l) key slots of
                  (False, _) \<Rightarrow> Some (Inl ErrRPCResultSubscriberCapacity, l)
                | (True, sb) \<Rightarrow> Some (attach (l\<lparr>subscriberBudget := sb\<rparr>)))
             else Some (attach l)
        else
          let resultReady = (resultFn = None \<or> fl_done fl);
              executionReady = (executionFn = None \<or> fl_executionDone fl)
          in if \<not> resultReady \<or> \<not> executionReady then Some (Inl ErrRPCResultFlightInvalid, l)
             else Some (Inr ((case executionFn of None \<Rightarrow> []
                                | Some c \<Rightarrow> [ExecutionCallback c (fl_executionOK fl)]) @
                             (case resultFn of None \<Rightarrow> []
                                | Some c \<Rightarrow> [ResultCallback c (fl_encoded fl) (fl_ok fl)])), l) })"

text \<open>What \<open>Wait\<close> returns at once: the terminal state if the flight is done, else nothing yet.\<close>

definition Wait_poll :: "nat \<Rightarrow> ('i, 'm) ledger \<Rightarrow> ('m option \<times> bool) option" where
  "Wait_poll f l =
     do { fl \<leftarrow> flights l f; if fl_done fl then Some (fl_encoded fl, fl_ok fl) else None }"

end
