(* ===== verification/Ledger_Ownership.thy ===== *)
theory Ledger_Ownership
  imports Rpc_Ledger
begin

text \<open>
  The abstract resource state behind the execution ledger: which reservation each pending key
  and each receipt owns (\<open>P\<close>, \<open>R\<close>), against the heap of reservations and the two counters;
  which admission sequence each pending key holds; how many callbacks each pending key retains.
  The five ownership transitions (claim, record, settle, abort, expire) are proved here once;
  every operation of the ledger is one of them or a frame step (theory \<open>Ledger_Operations\<close>).
\<close>

abbreviation resv :: "exec_key \<Rightarrow> bool \<Rightarrow> bool \<Rightarrow> reservation" where
  "resv k p d \<equiv> \<lparr>rs_key = k, rs_pending = p, rs_released = d\<rparr>"

definition own ::
  "(exec_key \<rightharpoonup> nat) \<Rightarrow> (exec_key \<rightharpoonup> nat) \<Rightarrow> (nat \<rightharpoonup> reservation) \<Rightarrow> int \<Rightarrow> int \<Rightarrow> bool" where
  "own P R h u c \<longleftrightarrow>
     (\<forall>k r. P k = Some r \<longrightarrow> R k = None \<and> h r = Some (resv k True False)) \<and>
     (\<forall>k r. R k = Some r \<longrightarrow> h r = Some (resv k False False)) \<and>
     (\<forall>r v. h r = Some v \<and> \<not> rs_released v \<and> rs_pending v \<longrightarrow> P (rs_key v) = Some r) \<and>
     (\<forall>r v. h r = Some v \<and> \<not> rs_released v \<and> \<not> rs_pending v \<longrightarrow> R (rs_key v) = Some r) \<and>
     finite (dom h) \<and> u = int (card (held h rs_pending)) \<and>
     c = int (card (held h (\<lambda>v. \<not> rs_pending v)))"

lemma ownD:
  assumes "own P R h u c"
  shows "P k = Some r \<Longrightarrow> R k = None" and "P k = Some r \<Longrightarrow> h r = Some (resv k True False)"
    and "R k = Some r \<Longrightarrow> h r = Some (resv k False False)"
    and "h r = Some v \<Longrightarrow> \<not> rs_released v \<Longrightarrow> rs_pending v \<Longrightarrow> P (rs_key v) = Some r"
    and "finite (dom h)" and "u = int (card (held h rs_pending))"
    and "c = int (card (held h (\<lambda>v. \<not> rs_pending v)))"
    and "h r = Some v \<Longrightarrow> \<not> rs_released v \<Longrightarrow> \<not> rs_pending v \<Longrightarrow> R (rs_key v) = Some r"
  using assms unfolding own_def by blast+

lemma ownI:
  assumes "\<And>k r. P k = Some r \<Longrightarrow> R k = None \<and> h r = Some (resv k True False)"
    and "\<And>k r. R k = Some r \<Longrightarrow> h r = Some (resv k False False)"
    and "\<And>r v. h r = Some v \<Longrightarrow> \<not> rs_released v \<Longrightarrow> rs_pending v \<Longrightarrow> P (rs_key v) = Some r"
    and "\<And>r v. h r = Some v \<Longrightarrow> \<not> rs_released v \<Longrightarrow> \<not> rs_pending v \<Longrightarrow> R (rs_key v) = Some r"
    and "finite (dom h)" and "u = int (card (held h rs_pending))"
    and "c = int (card (held h (\<lambda>v. \<not> rs_pending v)))"
  shows "own P R h u c"
  using assms unfolding own_def by blast

lemma own_pending_pos: "own P R h u c \<Longrightarrow> P k = Some r \<Longrightarrow> 1 \<le> u"
  using card_held_pos [of h r "resv k True False" rs_pending] ownD(2) [of P R h u c k r]
    ownD(5,6) [of P R h u c] by simp

lemma own_receipt_pos: "own P R h u c \<Longrightarrow> R k = Some r \<Longrightarrow> 1 \<le> c"
  using card_held_pos [of h r "resv k False False" "\<lambda>v. \<not> rs_pending v"]
    ownD(3) [of P R h u c k r] ownD(5,7) [of P R h u c] by simp

lemma own_claim:
  assumes o: "own P R h u c" and "P k = None" "R k = None" "h r = None"
  shows "own (P(k \<mapsto> r)) R (h(r \<mapsto> resv k True False)) (u + 1) c"
proof -
  note C = card_held_new [OF ownD(5) [OF o] assms(4)]
  have "u + 1 = int (card (held (h(r \<mapsto> resv k True False)) rs_pending))"
    "c = int (card (held (h(r \<mapsto> resv k True False)) (\<lambda>v. \<not> rs_pending v)))"
    using ownD(6,7) [OF o] by (simp_all add: C)
  then show ?thesis
    using assms(2-) ownD(5) [OF o]
    by (intro ownI) (auto dest: ownD(1-4,8) [OF o] split: if_splits)
qed

lemma own_record:
  assumes o: "own P R h u c" and "P k = None" "R k = None" "h r = None"
  shows "own P (R(k \<mapsto> r)) (h(r \<mapsto> resv k False False)) u (c + 1)"
proof -
  note C = card_held_new [OF ownD(5) [OF o] assms(4)]
  have "u = int (card (held (h(r \<mapsto> resv k False False)) rs_pending))"
    "c + 1 = int (card (held (h(r \<mapsto> resv k False False)) (\<lambda>v. \<not> rs_pending v)))"
    using ownD(6,7) [OF o] by (simp_all add: C)
  then show ?thesis
    using assms(2-) ownD(5) [OF o]
    by (intro ownI) (auto dest: ownD(1-4,8) [OF o] split: if_splits)
qed

lemma own_settle:
  assumes o: "own P R h u c" and k: "P k = Some r"
  shows "own (P(k := None)) (R(k \<mapsto> r)) (h(r \<mapsto> resv k False False)) (u - 1) (c + 1)"
proof -
  have hr: "h r = Some (resv k True False)" by (rule ownD(2) [OF o k])
  note C = card_held_upd [OF ownD(5) [OF o] hr]
  have "u - 1 = int (card (held (h(r \<mapsto> resv k False False)) rs_pending))"
    "c + 1 = int (card (held (h(r \<mapsto> resv k False False)) (\<lambda>v. \<not> rs_pending v)))"
    using ownD(6,7) [OF o] by (simp_all add: C)
  then show ?thesis
    using hr k ownD(5) [OF o] ownD(1) [OF o k]
    by (intro ownI) (auto dest: ownD(1) [OF o] ownD(2-4,8) [OF o] split: if_splits)
qed

lemma own_abort:
  assumes o: "own P R h u c" and k: "P k = Some r"
  shows "own (P(k := None)) R (h(r \<mapsto> resv k False True)) (u - 1) c"
proof -
  have hr: "h r = Some (resv k True False)" by (rule ownD(2) [OF o k])
  note C = card_held_upd [OF ownD(5) [OF o] hr]
  have "u - 1 = int (card (held (h(r \<mapsto> resv k False True)) rs_pending))"
    "c = int (card (held (h(r \<mapsto> resv k False True)) (\<lambda>v. \<not> rs_pending v)))"
    using ownD(6,7) [OF o] by (simp_all add: C)
  then show ?thesis
    using hr k ownD(5) [OF o]
    by (intro ownI) (auto dest: ownD(1-4,8) [OF o] split: if_splits)
qed

lemma own_expire:
  assumes o: "own P R h u c" and k: "R k = Some r"
  shows "own P (R(k := None)) (h(r \<mapsto> resv k False True)) u (c - 1)"
proof -
  have hr: "h r = Some (resv k False False)" by (rule ownD(3) [OF o k])
  note C = card_held_upd [OF ownD(5) [OF o] hr]
  have "u = int (card (held (h(r \<mapsto> resv k False True)) rs_pending))"
    "c - 1 = int (card (held (h(r \<mapsto> resv k False True)) (\<lambda>v. \<not> rs_pending v)))"
    using ownD(6,7) [OF o] by (simp_all add: C)
  then show ?thesis
    using hr k ownD(5) [OF o]
    by (intro ownI) (auto dest: ownD(1-4,8) [OF o] split: if_splits)
qed

lemma own_discard:
  assumes o: "own P R h u c" and r: "h r = None"
  shows "own P R (h(r \<mapsto> resv k False True)) u c"
proof -
  note C = card_held_new [OF ownD(5) [OF o] r]
  have "u = int (card (held (h(r \<mapsto> resv k False True)) rs_pending))"
    "c = int (card (held (h(r \<mapsto> resv k False True)) (\<lambda>v. \<not> rs_pending v)))"
    using ownD(6,7) [OF o] by (simp_all add: C)
  then show ?thesis
    using r ownD(5) [OF o]
    by (intro ownI) (auto dest: ownD(1-4,8) [OF o] split: if_splits)
qed

subsection \<open>Admission sequences held by pending keys\<close>

definition admits :: "(exec_key \<rightharpoonup> 64 word) \<Rightarrow> tracker \<Rightarrow> 64 word \<Rightarrow> bool" where
  "admits S t nxt \<longleftrightarrow> tracker_inv t nxt \<and> active t = ran S - {0} \<and>
     (\<forall>k k' s. S k = Some s \<and> S k' = Some s \<and> s \<noteq> 0 \<longrightarrow> k = k')"

lemma admitsD:
  assumes "admits S t nxt"
  shows "tracker_inv t nxt" and "active t = ran S - {0}"
    and "S k = Some s \<Longrightarrow> S k' = Some s \<Longrightarrow> s \<noteq> 0 \<Longrightarrow> k = k'"
  using assms unfolding admits_def by blast+

lemma admitsI:
  assumes "tracker_inv t nxt" and "active t = ran S - {0}"
    and "\<And>k k' s. S k = Some s \<Longrightarrow> S k' = Some s \<Longrightarrow> s \<noteq> 0 \<Longrightarrow> k = k'"
  shows "admits S t nxt"
  using assms unfolding admits_def by blast

lemma admits_allocate:
  assumes ad: "admits S t nxt" and "S k = None" and "allocateAndRegister t nxt = Inr (sq, t')"
  shows "admits (S(k \<mapsto> sq)) t' sq"
proof (rule admitsI)
  note A = allocate_ok [OF admitsD(1) [OF ad] assms(3)]
  show inv': "tracker_inv t' sq" using A by blast
  have nz: "sq \<noteq> 0" using A tracker_invD(1) [OF inv', of sq] by blast
  show "active t' = ran (S(k \<mapsto> sq)) - {0}"
    using A admitsD(2) [OF ad] nz assms(2) by (auto simp: ran_map_upd [of S k])
  have fresh: "sq \<notin> ran S" using A admitsD(2) [OF ad] nz by blast
  show "k1 = k2" if "(S(k \<mapsto> sq)) k1 = Some s" "(S(k \<mapsto> sq)) k2 = Some s" "s \<noteq> 0" for k1 k2 s
    using that fresh admitsD(3) [OF ad, of k1 s k2] by (auto simp: ran_def split: if_splits)
qed

lemma admits_zero:
  assumes ad: "admits S t nxt" and "S k = None"
  shows "admits (S(k \<mapsto> 0)) t nxt"
proof (rule admitsI)
  show "active t = ran (S(k \<mapsto> 0)) - {0}"
    using admitsD(2) [OF ad] assms(2) by (auto simp: ran_map_upd [of S k])
  show "k1 = k2" if "(S(k \<mapsto> 0)) k1 = Some s" "(S(k \<mapsto> 0)) k2 = Some s" "s \<noteq> 0" for k1 k2 s
    using that admitsD(3) [OF ad, of k1 s k2] by (auto split: if_splits)
qed (rule admitsD(1) [OF ad])

lemma admits_retire:
  assumes ad: "admits S t nxt" and k: "S k = Some sq"
  shows "\<exists>t'. retire sq t = Some t' \<and> admits (S(k := None)) t' nxt \<and>
    stableSafeFloor t nxt \<le> stableSafeFloor t' nxt"
proof -
  have inj: "k1 = k2" if "(S(k := None)) k1 = Some s" "(S(k := None)) k2 = Some s" "s \<noteq> 0" for k1 k2 s
    using that admitsD(3) [OF ad, of k1 s k2] by (auto split: if_splits)
  have ran: "ran (S(k := None)) - {0} = ran S - {0} - {sq}"
  proof (intro set_eqI iffI)
    fix x assume "x \<in> ran S - {0} - {sq}"
    then obtain a where a: "S a = Some x" "x \<noteq> 0" "x \<noteq> sq" by (auto simp: ran_def)
    then have "a \<noteq> k" using k by auto
    then show "x \<in> ran (S(k := None)) - {0}" using a by (auto simp: ran_def intro!: exI [of _ a])
  qed (use k admitsD(3) [OF ad, of _ sq k] in \<open>auto simp: ran_def split: if_splits\<close>)
  show ?thesis
  proof (cases "sq = 0")
    case True
    have "admits (S(k := None)) t nxt"
    proof (rule admitsI [OF admitsD(1) [OF ad] _ inj])
      show "active t = ran (S(k := None)) - {0}"
        unfolding ran using admitsD(2) [OF ad] True by blast
    qed
    then show ?thesis using True by simp
  next
    case False
    then have act: "sq \<in> active t" using k admitsD(2) [OF ad] by (auto simp: ran_def)
    obtain t' where t': "retire sq t = Some t'" "active t' = active t - {sq}" "tracker_inv t' nxt"
      using retire_ok [OF admitsD(1) [OF ad] act] by blast
    have "admits (S(k := None)) t' nxt"
    proof (rule admitsI [OF t'(3) _ inj])
      show "active t' = ran (S(k := None)) - {0}"
        unfolding ran t'(2) admitsD(2) [OF ad] by blast
    qed
    moreover have "stableSafeFloor t nxt \<le> stableSafeFloor t' nxt"
      by (rule floor_retire_mono [OF admitsD(1) [OF ad] t'(1)]) (use act in simp)
    ultimately show ?thesis using t'(1) by blast
  qed
qed

subsection \<open>Callback slots held by pending keys\<close>

definition tot :: "(exec_key \<Rightarrow> int) \<Rightarrow> (exec_key \<Rightarrow> bool) \<Rightarrow> int" where
  "tot N Q = (\<Sum>k | N k \<noteq> 0 \<and> Q k. N k)"

lemma tot_alt:
  assumes "finite A" and "\<And>k. N k \<noteq> 0 \<Longrightarrow> k \<in> A"
  shows "tot N Q = (\<Sum>k\<in>A. if Q k then N k else 0)"
proof -
  have "(\<Sum>k\<in>A. if Q k then N k else 0) = (\<Sum>k | N k \<noteq> 0 \<and> Q k. if Q k then N k else 0)"
    using assms by (intro sum.mono_neutral_right) auto
  also have "\<dots> = tot N Q" unfolding tot_def by (rule sum.cong) auto
  finally show ?thesis by simp
qed

lemma tot_upd:
  assumes "finite {k. N k \<noteq> 0}"
  shows "tot (N(k := v)) Q = tot N Q + (if Q k then v - N k else 0)"
proof -
  let ?A = "insert k {k. N k \<noteq> 0}"
  have A: "finite ?A" using assms by simp
  have "tot (N(k := v)) Q = (\<Sum>x\<in>?A. if Q x then (N(k := v)) x else 0)"
    using A by (rule tot_alt) (auto split: if_splits)
  also have "\<dots> = (\<Sum>x\<in>?A. ((\<lambda>x. if Q x then N x else 0)(k := if Q k then v else 0)) x)"
    by (rule sum.cong) auto
  also have "\<dots> = (\<Sum>x\<in>?A. if Q x then N x else 0) - (if Q k then N k else 0) + (if Q k then v else 0)"
    by (subst sum_fun_upd_int [OF A]) auto
  also have "(\<Sum>x\<in>?A. if Q x then N x else 0) = tot N Q"
    using A by (rule tot_alt [symmetric]) auto
  finally show ?thesis by (cases "Q k") (simp_all add: fun_upd_def)
qed

lemma tot_member:
  assumes "finite {k. N k \<noteq> 0}" and "\<And>k. 0 \<le> N k" and "Q k"
  shows "N k \<le> tot N Q"
proof -
  have "0 \<le> tot (N(k := 0)) Q"
    using assms(2) by (auto simp: tot_def intro!: sum_nonneg)
  then show ?thesis using tot_upd [OF assms(1), of k 0 Q] assms(3) by simp
qed

definition slots_ok :: "(exec_key \<Rightarrow> int) \<Rightarrow> sub_budget \<Rightarrow> bool" where
  "slots_ok N b \<longleftrightarrow> sub_inv b \<and> finite {k. N k \<noteq> 0} \<and> (\<forall>k. 0 \<le> N k) \<and>
     (\<forall>a. sub_authSnapshot b a = tot N (\<lambda>k. ek_auth k = a)) \<and>
     (\<forall>s. sub_sessionSnapshot b s = tot N (\<lambda>k. session_of k = s)) \<and>
     sub_used b = tot N (\<lambda>_. True)"

lemma finite_support_upd: "finite {k. N k \<noteq> 0} \<Longrightarrow> finite {k. (N(x := v)) k \<noteq> (0 :: int)}"
  by (rule finite_subset [of _ "insert x {k. N k \<noteq> 0}"]) auto

lemma slots_reserve:
  assumes "slots_ok N b" and "sub_reserve b k n = (True, b')"
  shows "slots_ok (N(k := N k + n)) b'"
proof -
  have fin: "finite {k. N k \<noteq> 0}" using assms(1) by (simp add: slots_ok_def)
  note S = subs.scoped_reserve [OF _ assms(2)]
  show ?thesis
    using assms(1) S finite_support_upd [OF fin]
    unfolding slots_ok_def tot_upd [OF fin] by (auto simp del: split_paired_All)
qed

lemma slots_release:
  assumes "slots_ok N b" and "0 < n" and "n \<le> N k"
  shows "\<exists>b'. sub_release b k n = Some b' \<and> slots_ok (N(k := N k - n)) b'"
proof -
  have fin: "finite {k. N k \<noteq> 0}" and nn: "\<And>k. 0 \<le> N k" and inv: "sub_inv b"
    using assms(1) by (simp_all add: slots_ok_def)
  have "n \<le> sub_authSnapshot b (ek_auth k)" "n \<le> sub_sessionSnapshot b (session_of k)"
    "n \<le> sub_used b"
    using assms(1,3) tot_member [OF fin nn, of "\<lambda>x. ek_auth x = ek_auth k" k]
      tot_member [OF fin nn, of "\<lambda>x. session_of x = session_of k" k]
      tot_member [OF fin nn, of "\<lambda>_. True" k]
    by (simp_all add: slots_ok_def del: split_paired_All)
  from subs.scoped_release [OF inv assms(2) this]
  obtain b' where b': "sub_release b k n = Some b'" "sub_inv b'"
    "sub_authSnapshot b' = (sub_authSnapshot b)(ek_auth k := sub_authSnapshot b (ek_auth k) - n)"
    "sub_sessionSnapshot b' =
      (sub_sessionSnapshot b)(session_of k := sub_sessionSnapshot b (session_of k) - n)"
    "sub_used b' = sub_used b - n" by blast
  have "slots_ok (N(k := N k - n)) b'"
    using assms b' finite_support_upd [OF fin] unfolding slots_ok_def tot_upd [OF fin]
    by (auto simp del: split_paired_All)
  then show ?thesis using b'(1) by blast
qed

lemma slots_release_all:
  assumes "slots_ok N b" and "N k = n" and "n \<noteq> 0"
  shows "\<exists>b'. sub_release b k n = Some b' \<and> slots_ok (N(k := 0)) b'"
proof -
  have "0 \<le> n" using assms(1,2) by (auto simp: slots_ok_def)
  then show ?thesis using slots_release [OF assms(1), of n k] assms(2,3) by auto
qed

end
