(* ===== verification/Ledger_Flights.thy ===== *)
theory Ledger_Flights
  imports Ledger_Ownership
begin

text \<open>
  The ledger invariant, in three parts over maps: \<open>shards_wf\<close> (receipt list and receipt index of a
  shard agree and keys live in their hash shard), \<open>flights_wf\<close> (a pending key points to a live
  flight with its lease; every other flight is settled and retains nothing) and \<open>resources\<close> (every
  counter equals what the pending keys and receipts hold). The lemmas give the effect of the
  ledger's elementary updates on the maps the invariant speaks about.
\<close>

lemma shardIndex_cong: "ld_hash l' = ld_hash l \<Longrightarrow> shardIndex l' = shardIndex l"
  by (simp add: shardIndex_def fun_eq_iff)

lemma shardIndex_frame [simp]:
  "shardIndex (put_shard i s l) = shardIndex l" "shardIndex (put_pending k x l) = shardIndex l"
  "shardIndex (put_flight f fl l) = shardIndex l" "shardIndex (push_receipt i rc l) = shardIndex l"
  "shardIndex (l\<lparr>fairBudget := fb\<rparr>) = shardIndex l" "shardIndex (l\<lparr>flightLimit := lim\<rparr>) = shardIndex l"
  "shardIndex (l\<lparr>activeAdmissions := tr\<rparr>) = shardIndex l"
  "shardIndex (l\<lparr>nextAdmissionSeq := sq\<rparr>) = shardIndex l"
  "shardIndex (l\<lparr>subscriberBudget := sb\<rparr>) = shardIndex l" "shardIndex (l\<lparr>leases := ls\<rparr>) = shardIndex l"
  "shardIndex (l\<lparr>next_flight := n\<rparr>) = shardIndex l" "shardIndex (l\<lparr>receiptCount := c\<rparr>) = shardIndex l"
  by (rule shardIndex_cong; simp add: put_shard_def put_pending_def put_flight_def push_receipt_def Let_def)+

subsection \<open>Reading after writing\<close>

lemma put_shard_simps [simp]:
  "ld_shards (put_shard i s l) = (ld_shards l)(i := s)" "ld_hash (put_shard i s l) = ld_hash l"
  "receiptCount (put_shard i s l) = receiptCount l" "fairBudget (put_shard i s l) = fairBudget l"
  "flightLimit (put_shard i s l) = flightLimit l"
  "subscriberBudget (put_shard i s l) = subscriberBudget l"
  "subscriberPerFlight (put_shard i s l) = subscriberPerFlight l"
  "nextAdmissionSeq (put_shard i s l) = nextAdmissionSeq l"
  "activeAdmissions (put_shard i s l) = activeAdmissions l" "flights (put_shard i s l) = flights l"
  "next_flight (put_shard i s l) = next_flight l" "leases (put_shard i s l) = leases l"
  by (simp_all add: put_shard_def)

lemma put_pending_simps [simp]:
  "ld_hash (put_pending k x l) = ld_hash l"
  "receiptCount (put_pending k x l) = receiptCount l" "fairBudget (put_pending k x l) = fairBudget l"
  "flightLimit (put_pending k x l) = flightLimit l"
  "subscriberBudget (put_pending k x l) = subscriberBudget l"
  "subscriberPerFlight (put_pending k x l) = subscriberPerFlight l"
  "nextAdmissionSeq (put_pending k x l) = nextAdmissionSeq l"
  "activeAdmissions (put_pending k x l) = activeAdmissions l"
  "flights (put_pending k x l) = flights l"
  "next_flight (put_pending k x l) = next_flight l" "leases (put_pending k x l) = leases l"
  "sh_order (ld_shards (put_pending k x l) i) = sh_order (ld_shards l i)"
  "sh_byKey (ld_shards (put_pending k x l) i) = sh_byKey (ld_shards l i)"
  by (simp_all add: put_pending_def Let_def)

lemma put_flight_simps [simp]:
  "ld_shards (put_flight f fl l) = ld_shards l" "ld_hash (put_flight f fl l) = ld_hash l"
  "receiptCount (put_flight f fl l) = receiptCount l" "fairBudget (put_flight f fl l) = fairBudget l"
  "flightLimit (put_flight f fl l) = flightLimit l"
  "subscriberBudget (put_flight f fl l) = subscriberBudget l"
  "subscriberPerFlight (put_flight f fl l) = subscriberPerFlight l"
  "nextAdmissionSeq (put_flight f fl l) = nextAdmissionSeq l"
  "activeAdmissions (put_flight f fl l) = activeAdmissions l"
  "flights (put_flight f fl l) = (flights l)(f \<mapsto> fl)"
  "next_flight (put_flight f fl l) = next_flight l" "leases (put_flight f fl l) = leases l"
  by (simp_all add: put_flight_def)

lemma pend_cong:
  "ld_hash l' = ld_hash l \<Longrightarrow> (\<And>i. sh_pending (ld_shards l' i) = sh_pending (ld_shards l i)) \<Longrightarrow>
     pend l' = pend l"
  using shardIndex_cong [of l' l] by (simp add: pend_def [abs_def])

lemma rcpt_cong:
  "ld_hash l' = ld_hash l \<Longrightarrow> (\<And>i. sh_byKey (ld_shards l' i) = sh_byKey (ld_shards l i)) \<Longrightarrow>
     rcpt l' = rcpt l"
  using shardIndex_cong [of l' l] by (simp add: rcpt_def [abs_def])

lemma pend_put_pending [simp]: "pend (put_pending k x l) = (pend l)(k := x)"
  by (auto simp: pend_def fun_eq_iff put_pending_def Let_def)

lemma rcpt_put_pending [simp]: "rcpt (put_pending k x l) = rcpt l"
  by (rule rcpt_cong) simp_all

lemma pend_rcpt_frame [simp]:
  "pend (put_flight f fl l) = pend l" "rcpt (put_flight f fl l) = rcpt l"
  "pend (l\<lparr>fairBudget := fb\<rparr>) = pend l" "rcpt (l\<lparr>fairBudget := fb\<rparr>) = rcpt l"
  "pend (l\<lparr>flightLimit := lim\<rparr>) = pend l" "rcpt (l\<lparr>flightLimit := lim\<rparr>) = rcpt l"
  "pend (l\<lparr>activeAdmissions := tr\<rparr>) = pend l" "rcpt (l\<lparr>activeAdmissions := tr\<rparr>) = rcpt l"
  "pend (l\<lparr>nextAdmissionSeq := sq\<rparr>) = pend l" "rcpt (l\<lparr>nextAdmissionSeq := sq\<rparr>) = rcpt l"
  "pend (l\<lparr>subscriberBudget := sb\<rparr>) = pend l" "rcpt (l\<lparr>subscriberBudget := sb\<rparr>) = rcpt l"
  "pend (l\<lparr>leases := ls\<rparr>) = pend l" "rcpt (l\<lparr>leases := ls\<rparr>) = rcpt l"
  "pend (l\<lparr>next_flight := n\<rparr>) = pend l" "rcpt (l\<lparr>next_flight := n\<rparr>) = rcpt l"
  "pend (l\<lparr>receiptCount := c\<rparr>) = pend l" "rcpt (l\<lparr>receiptCount := c\<rparr>) = rcpt l"
  by (rule pend_cong rcpt_cong; simp)+

lemma pend_push_receipt [simp]: "pend (push_receipt i rc l) = pend l"
  by (rule pend_cong) (simp_all add: push_receipt_def Let_def)

lemma rcpt_push_receipt:
  "i = shardIndex l (rc_key rc) \<Longrightarrow> rcpt (push_receipt i rc l) = (rcpt l)(rc_key rc \<mapsto> rc)"
  by (auto simp: rcpt_def fun_eq_iff push_receipt_def Let_def)

lemma push_receipt_simps [simp]:
  "ld_hash (push_receipt i rc l) = ld_hash l"
  "receiptCount (push_receipt i rc l) = receiptCount l + 1"
  "fairBudget (push_receipt i rc l) = fairBudget l"
  "flightLimit (push_receipt i rc l) = flightLimit l"
  "subscriberBudget (push_receipt i rc l) = subscriberBudget l"
  "subscriberPerFlight (push_receipt i rc l) = subscriberPerFlight l"
  "nextAdmissionSeq (push_receipt i rc l) = nextAdmissionSeq l"
  "activeAdmissions (push_receipt i rc l) = activeAdmissions l"
  "flights (push_receipt i rc l) = flights l"
  "next_flight (push_receipt i rc l) = next_flight l" "leases (push_receipt i rc l) = leases l"
  by (simp_all add: push_receipt_def Let_def)

subsection \<open>The invariant\<close>

definition view :: "('i, 'm) ledger \<Rightarrow> exec_key \<rightharpoonup> ('i, 'm) flight" where
  "view l k = Option.bind (pend l k) (flights l)"

definition shard_wf :: "('i, 'm) ledger \<Rightarrow> nat \<Rightarrow> bool" where
  "shard_wf l i \<longleftrightarrow>
     distinct (map rc_key (sh_order (ld_shards l i))) \<and>
     (\<forall>k rc. sh_byKey (ld_shards l i) k = Some rc \<longleftrightarrow>
        rc \<in> set (sh_order (ld_shards l i)) \<and> rc_key rc = k) \<and>
     (\<forall>rc\<in>set (sh_order (ld_shards l i)). shardIndex l (rc_key rc) = i \<and> rc_reservation rc \<noteq> None)"

definition live_flight :: "int \<Rightarrow> ('i, 'm) flight \<Rightarrow> bool" where
  "live_flight n fl \<longleftrightarrow>
     \<not> fl_done fl \<and> fl_encoded fl = None \<and> \<not> fl_ok fl \<and> fl_reservation fl \<noteq> None \<and>
     fl_subscriberSlots fl = int (length (fl_subscribers fl) + length (fl_executionSubscribers fl)) \<and>
     (fl_executionDone fl \<longrightarrow> fl_executionSubscribers fl = []) \<and> fl_subscriberSlots fl \<le> max 0 n"

definition settled_flight :: "('i, 'm) flight \<Rightarrow> bool" where
  "settled_flight fl \<longleftrightarrow>
     fl_done fl \<and> fl_executionDone fl \<and> fl_subscriberSlots fl = 0 \<and> fl_reservation fl = None \<and>
     fl_subscribers fl = [] \<and> fl_executionSubscribers fl = []"

definition flights_wf ::
  "(exec_key \<rightharpoonup> nat) \<Rightarrow> (nat \<rightharpoonup> ('i, 'm) flight) \<Rightarrow> (nat \<rightharpoonup> lease) \<Rightarrow> nat \<Rightarrow> int \<Rightarrow> bool" where
  "flights_wf p h ls n cap \<longleftrightarrow>
     (\<forall>k f. p k = Some f \<longrightarrow> (\<exists>x. ls f = Some x \<and> ls_key x = k)) \<and>
     (\<forall>f. f < n \<longleftrightarrow> h f \<noteq> None) \<and> (\<forall>f. f < n \<longleftrightarrow> ls f \<noteq> None) \<and>
     (\<forall>f fl x. h f = Some fl \<and> ls f = Some x \<longrightarrow>
        (if p (ls_key x) = Some f then live_flight cap fl else settled_flight fl))"

definition resources ::
  "(exec_key \<rightharpoonup> ('i, 'm) flight) \<Rightarrow> (exec_key \<rightharpoonup> nat) \<Rightarrow> fair_budget \<Rightarrow> flight_limit \<Rightarrow> int \<Rightarrow>
     tracker \<Rightarrow> 64 word \<Rightarrow> sub_budget \<Rightarrow> bool" where
  "resources V R fb lim c tr nxt sb \<longleftrightarrow>
     own (\<lambda>k. Option.bind (V k) fl_reservation) R (reservations fb) (fl_used lim) c \<and>
     fair_inv fb \<and> flight_inv lim \<and>
     admits (\<lambda>k. map_option fl_admissionSeq (V k)) tr nxt \<and>
     slots_ok (\<lambda>k. case V k of None \<Rightarrow> 0 | Some fl \<Rightarrow> fl_subscriberSlots fl) sb"

definition rres :: "('i, 'm) ledger \<Rightarrow> exec_key \<rightharpoonup> nat" where
  "rres l k = Option.bind (rcpt l k) rc_reservation"

definition ledger_inv :: "('i, 'm) ledger \<Rightarrow> bool" where
  "ledger_inv l \<longleftrightarrow> (\<forall>i. shard_wf l i) \<and>
     flights_wf (pend l) (flights l) (leases l) (next_flight l) (subscriberPerFlight l) \<and>
     resources (view l) (rres l) (fairBudget l) (flightLimit l) (receiptCount l)
       (activeAdmissions l) (nextAdmissionSeq l) (subscriberBudget l)"

lemma flights_wfD:
  assumes "flights_wf p h ls n cap"
  shows "p k = Some f \<Longrightarrow> \<exists>x fl. ls f = Some x \<and> ls_key x = k \<and> h f = Some fl \<and> live_flight cap fl"
    and "p k = Some f \<Longrightarrow> p k' = Some f \<Longrightarrow> k = k'"
    and "f < n \<longleftrightarrow> h f \<noteq> None" and "f < n \<longleftrightarrow> ls f \<noteq> None"
    and "h f = Some fl \<Longrightarrow> ls f = Some x \<Longrightarrow>
      (if p (ls_key x) = Some f then live_flight cap fl else settled_flight fl)"
    and "h f = Some fl \<Longrightarrow> \<forall>k. p k \<noteq> Some f \<Longrightarrow> settled_flight fl"
proof -
  have lsd: "\<forall>k f. p k = Some f \<longrightarrow> (\<exists>x. ls f = Some x \<and> ls_key x = k)"
    and st: "\<forall>f fl x. h f = Some fl \<and> ls f = Some x \<longrightarrow>
        (if p (ls_key x) = Some f then live_flight cap fl else settled_flight fl)"
    and hh: "\<forall>f. f < n \<longleftrightarrow> h f \<noteq> None" and ll: "\<forall>f. f < n \<longleftrightarrow> ls f \<noteq> None"
    using assms unfolding flights_wf_def by - (elim conjE, assumption)+
  show h: "f < n \<longleftrightarrow> h f \<noteq> None" for f by (rule spec [OF hh])
  show l: "f < n \<longleftrightarrow> ls f \<noteq> None" for f by (rule spec [OF ll])
  show 5: "if p (ls_key x) = Some f then live_flight cap fl else settled_flight fl"
    if "h f = Some fl" "ls f = Some x" for f fl x using st that by blast
  show "\<exists>x fl. ls f = Some x \<and> ls_key x = k \<and> h f = Some fl \<and> live_flight cap fl"
    if a: "p k = Some f" for k f
  proof -
    obtain x where x: "ls f = Some x" "ls_key x = k" using lsd a by blast
    then obtain fl where "h f = Some fl" using h [of f] l [of f] by auto
    then show ?thesis using 5 [of f fl x] x a by auto
  qed
  show "k = k'" if a: "p k = Some f" and b: "p k' = Some f" for k k' f
  proof -
    obtain x where x: "ls f = Some x" "ls_key x = k" using lsd a by blast
    obtain y where y: "ls f = Some y" "ls_key y = k'" using lsd b by blast
    show ?thesis using x y by simp
  qed
  show "settled_flight fl" if a: "h f = Some fl" "\<forall>k. p k \<noteq> Some f" for f fl
  proof -
    obtain x where "ls f = Some x" using h [of f] l [of f] a(1) by auto
    then show ?thesis using 5 [of f fl x] a by auto
  qed
qed

lemma ledger_invD:
  assumes "ledger_inv l"
  shows "shard_wf l i"
    and "flights_wf (pend l) (flights l) (leases l) (next_flight l) (subscriberPerFlight l)"
    and "resources (view l) (rres l) (fairBudget l) (flightLimit l) (receiptCount l)
       (activeAdmissions l) (nextAdmissionSeq l) (subscriberBudget l)"
  using assms unfolding ledger_inv_def by blast+

lemma ledger_invI:
  assumes "\<And>i. shard_wf l i"
    and "flights_wf (pend l) (flights l) (leases l) (next_flight l) (subscriberPerFlight l)"
    and "resources (view l) (rres l) (fairBudget l) (flightLimit l) (receiptCount l)
       (activeAdmissions l) (nextAdmissionSeq l) (subscriberBudget l)"
  shows "ledger_inv l"
  using assms unfolding ledger_inv_def by blast

lemma resourcesD:
  assumes "resources V R fb lim c tr nxt sb"
  shows "own (\<lambda>k. Option.bind (V k) fl_reservation) R (reservations fb) (fl_used lim) c"
    and "fair_inv fb" and "flight_inv lim"
    and "admits (\<lambda>k. map_option fl_admissionSeq (V k)) tr nxt"
    and "slots_ok (\<lambda>k. case V k of None \<Rightarrow> 0 | Some fl \<Rightarrow> fl_subscriberSlots fl) sb"
  using assms unfolding resources_def by blast+

end
