(* ===== verification/Ledger_Resources.thy ===== *)
theory Ledger_Resources
  imports Ledger_Flights
begin

text \<open>
  The resource transitions of the ledger: a claim charges a reservation, a pending slot and an
  admission sequence; settling and aborting give back exactly what the pending key holds and never
  meet a panic; expiry gives back a receipt's reservation; callbacks move slots in and out.
\<close>

lemma map_pointwise_upd:
  "(\<lambda>x. g ((V(k := y)) x)) = (\<lambda>x. g (V x))(k := g y)"
  by (simp add: fun_eq_iff)

abbreviation reservation_map :: "(exec_key \<rightharpoonup> ('i, 'm) flight) \<Rightarrow> exec_key \<rightharpoonup> nat" where
  "reservation_map V \<equiv> \<lambda>k. Option.bind (V k) fl_reservation"

abbreviation admission_map :: "(exec_key \<rightharpoonup> ('i, 'm) flight) \<Rightarrow> exec_key \<rightharpoonup> 64 word" where
  "admission_map V \<equiv> \<lambda>k. map_option fl_admissionSeq (V k)"

abbreviation slot_map :: "(exec_key \<rightharpoonup> ('i, 'm) flight) \<Rightarrow> exec_key \<Rightarrow> int" where
  "slot_map V \<equiv> \<lambda>k. case V k of None \<Rightarrow> 0 | Some fl \<Rightarrow> fl_subscriberSlots fl"

lemma maps_upd:
  "reservation_map (V(k := x)) = (reservation_map V)(k := Option.bind x fl_reservation)"
  "admission_map (V(k := x)) = (admission_map V)(k := map_option fl_admissionSeq x)"
  "slot_map (V(k := x)) = (slot_map V)(k := (case x of None \<Rightarrow> 0 | Some fl \<Rightarrow> fl_subscriberSlots fl))"
  by (simp_all add: fun_eq_iff)

lemma resources_expire:
  assumes res: "resources V R fb lim c tr nxt sb" and r: "R k = Some r"
  shows "\<exists>fb'. fair_release r fb = Some fb' \<and> resources V (R(k := None)) fb' lim (c - 1) tr nxt sb"
proof -
  note o = resourcesD(1) [OF res]
  obtain fb' where fb': "fair_release r fb = Some fb'" "fair_inv fb'"
    "reservations fb' = (reservations fb)(r \<mapsto> resv k False True)"
    using fair.release_live [OF resourcesD(2) [OF res] ownD(3) [OF o r]] by auto
  have "own (reservation_map V) (R(k := None)) (reservations fb') (fl_used lim) (c - 1)"
    unfolding fb'(3) by (rule own_expire [OF o r])
  then show ?thesis using fb' resourcesD(3-5) [OF res] by (auto simp: resources_def)
qed

lemma resources_drop_slots:
  assumes "slots_ok N sb" and "N k = n"
  shows "\<exists>sb'. (if n = 0 then Some sb else sub_release sb k n) = Some sb' \<and> slots_ok (N(k := 0)) sb'"
proof (cases "n = 0")
  case True
  then have "N(k := 0) = N" using assms(2) by auto
  then show ?thesis using True assms(1) by simp
next
  case False
  then show ?thesis using slots_release_all [OF assms] by simp
qed

lemma resources_retire:
  assumes res: "resources V R fb lim c tr nxt sb" and k: "V k = Some fl" "fl_reservation fl = Some r"
  obtains lim' tr' sb' where "flight_release lim = Some lim'" "flight_inv lim'"
    "fl_used lim' = fl_used lim - 1" "retire (fl_admissionSeq fl) tr = Some tr'"
    "admits ((admission_map V)(k := None)) tr' nxt"
    "(if fl_subscriberSlots fl = 0 then Some sb else sub_release sb k (fl_subscriberSlots fl)) = Some sb'"
    "slots_ok ((slot_map V)(k := 0)) sb'" "stableSafeFloor tr nxt \<le> stableSafeFloor tr' nxt"
proof -
  have P: "reservation_map V k = Some r" using k by simp
  let ?lim = "lim\<lparr>fl_used := fl_used lim - 1\<rparr>"
  have u: "1 \<le> fl_used lim" by (rule own_pending_pos [OF resourcesD(1) [OF res] P])
  obtain tr' where tr': "retire (fl_admissionSeq fl) tr = Some tr'"
    "admits ((admission_map V)(k := None)) tr' nxt" "stableSafeFloor tr nxt \<le> stableSafeFloor tr' nxt"
    using admits_retire [OF resourcesD(4) [OF res], of k] k(1) by auto
  obtain sb' where
    "(if fl_subscriberSlots fl = 0 then Some sb else sub_release sb k (fl_subscriberSlots fl)) = Some sb'"
    "slots_ok ((slot_map V)(k := 0)) sb'"
    using resources_drop_slots [OF resourcesD(5) [OF res], of k] k(1) by fastforce
  moreover have "flight_inv ?lim" using resourcesD(3) [OF res] u by (auto simp: flight_inv_def)
  ultimately show thesis using that [of ?lim tr' sb'] tr' flight_release_Some [OF u] by simp
qed

lemma resources_settle:
  assumes res: "resources V R fb lim c tr nxt sb" and k: "V k = Some fl" "fl_reservation fl = Some r"
  shows "\<exists>fb' lim' tr' sb'. fair_releasePending r fb = Some fb' \<and> flight_release lim = Some lim' \<and>
    retire (fl_admissionSeq fl) tr = Some tr' \<and>
    (if fl_subscriberSlots fl = 0 then Some sb else sub_release sb k (fl_subscriberSlots fl)) = Some sb' \<and>
    resources (V(k := None)) (R(k \<mapsto> r)) fb' lim' (c + 1) tr' nxt sb' \<and>
    stableSafeFloor tr nxt \<le> stableSafeFloor tr' nxt"
proof -
  note o = resourcesD(1) [OF res]
  have P: "reservation_map V k = Some r" using k by simp
  obtain fb' where fb': "fair_releasePending r fb = Some fb'" "fair_inv fb'"
    "reservations fb' = (reservations fb)(r \<mapsto> resv k False False)"
    using fair.release_pending_live [OF resourcesD(2) [OF res] ownD(2) [OF o P]] by auto
  obtain lim' tr' sb' where t: "flight_release lim = Some lim'" "flight_inv lim'"
    "fl_used lim' = fl_used lim - 1" "retire (fl_admissionSeq fl) tr = Some tr'"
    "admits ((admission_map V)(k := None)) tr' nxt"
    "(if fl_subscriberSlots fl = 0 then Some sb else sub_release sb k (fl_subscriberSlots fl)) = Some sb'"
    "slots_ok ((slot_map V)(k := 0)) sb'" "stableSafeFloor tr nxt \<le> stableSafeFloor tr' nxt"
    by (rule resources_retire [OF res k])
  have "own ((reservation_map V)(k := None)) (R(k \<mapsto> r)) (reservations fb') (fl_used lim') (c + 1)"
    unfolding fb'(3) t(3) by (rule own_settle [OF o P])
  then have "resources (V(k := None)) (R(k \<mapsto> r)) fb' lim' (c + 1) tr' nxt sb'"
    unfolding resources_def maps_upd using fb'(2) t(2,5,7) by simp
  then show ?thesis using fb'(1) t(1,4,6,8) by blast
qed

lemma resources_abort:
  assumes res: "resources V R fb lim c tr nxt sb" and k: "V k = Some fl" "fl_reservation fl = Some r"
  shows "\<exists>fb' lim' tr' sb'. fair_release r fb = Some fb' \<and> flight_release lim = Some lim' \<and>
    retire (fl_admissionSeq fl) tr = Some tr' \<and>
    (if fl_subscriberSlots fl = 0 then Some sb else sub_release sb k (fl_subscriberSlots fl)) = Some sb' \<and>
    resources (V(k := None)) R fb' lim' c tr' nxt sb' \<and>
    stableSafeFloor tr nxt \<le> stableSafeFloor tr' nxt"
proof -
  note o = resourcesD(1) [OF res]
  have P: "reservation_map V k = Some r" using k by simp
  obtain fb' where fb': "fair_release r fb = Some fb'" "fair_inv fb'"
    "reservations fb' = (reservations fb)(r \<mapsto> resv k False True)"
    using fair.release_live [OF resourcesD(2) [OF res] ownD(2) [OF o P]] by auto
  obtain lim' tr' sb' where t: "flight_release lim = Some lim'" "flight_inv lim'"
    "fl_used lim' = fl_used lim - 1" "retire (fl_admissionSeq fl) tr = Some tr'"
    "admits ((admission_map V)(k := None)) tr' nxt"
    "(if fl_subscriberSlots fl = 0 then Some sb else sub_release sb k (fl_subscriberSlots fl)) = Some sb'"
    "slots_ok ((slot_map V)(k := 0)) sb'" "stableSafeFloor tr nxt \<le> stableSafeFloor tr' nxt"
    by (rule resources_retire [OF res k])
  have "own ((reservation_map V)(k := None)) R (reservations fb') (fl_used lim') c"
    unfolding fb'(3) t(3) by (rule own_abort [OF o P])
  then have "resources (V(k := None)) R fb' lim' c tr' nxt sb'"
    unfolding resources_def maps_upd using fb'(2) t(2,5,7) by simp
  then show ?thesis using fb'(1) t(1,4,6,8) by blast
qed

lemma resources_record:
  assumes res: "resources V R fb lim c tr nxt sb" and k: "V k = None" "R k = None"
    and rs: "fair_reserve fb k False = (Some r, fb')"
  shows "resources V (R(k \<mapsto> r)) fb' lim (c + 1) tr nxt sb"
proof -
  note o = resourcesD(1) [OF res] and n = fair_reserve_new [OF resourcesD(2) [OF res] rs]
  have "own (reservation_map V) (R(k \<mapsto> r)) (reservations fb') (fl_used lim) (c + 1)"
    using own_record [OF o, of k r] k n by simp
  then show ?thesis using n resourcesD(3-5) [OF res] by (simp add: resources_def)
qed

lemma resources_claim:
  assumes res: "resources V R fb lim c tr nxt sb" and k: "V k = None" "R k = None"
    and rs: "fair_reserve fb k True = (Some r, fb')" and lim: "flight_reserve lim = (True, lim')"
    and adm: "admits ((admission_map V)(k \<mapsto> sq)) tr' nxt'"
  shows "resources (V(k \<mapsto> new_flight ident sq r)) R fb' lim' c tr' nxt' sb"
proof -
  note o = resourcesD(1) [OF res] and n = fair_reserve_new [OF resourcesD(2) [OF res] rs]
  have l: "flight_inv lim'" "fl_used lim' = fl_used lim + 1"
    using flight_reserve_Some [OF lim] by (auto simp: flight_inv_def)
  have "own ((reservation_map V)(k \<mapsto> r)) R (reservations fb') (fl_used lim') c"
    using own_claim [OF o, of k r] k n l by simp
  moreover have "(slot_map V)(k := 0) = slot_map V" using k(1) by (simp add: fun_eq_iff)
  ultimately show ?thesis
    unfolding resources_def maps_upd
    using n l adm resourcesD(5) [OF res] by (simp add: new_flight_def)
qed

lemma resources_update:
  assumes res: "resources V R fb lim c tr nxt sb" and k: "V k = Some fl"
    and same: "fl_reservation fl' = fl_reservation fl" "fl_admissionSeq fl' = fl_admissionSeq fl"
    and sl: "slots_ok ((slot_map V)(k := fl_subscriberSlots fl')) sb'"
  shows "resources (V(k \<mapsto> fl')) R fb lim c tr nxt sb'"
proof -
  have "(reservation_map V)(k := fl_reservation fl') = reservation_map V"
    "(admission_map V)(k \<mapsto> fl_admissionSeq fl') = admission_map V"
    using k same by (auto simp: fun_eq_iff)
  then show ?thesis
    unfolding resources_def maps_upd using resourcesD(1-4) [OF res] sl by simp
qed

end
