(* ===== verification/Ledger_Receipts.thy ===== *)
theory Ledger_Receipts
  imports Ledger_Resources
begin

text \<open>
  Removing receipts: \<open>removeElement\<close>, \<open>expireLocked\<close>, \<open>expireReceipts\<close> and \<open>forgetSession\<close> keep the
  ledger invariant, never panic, and change nothing but receipts and what they hold (\<open>quiet\<close>).
\<close>

definition quiet :: "('i, 'm) ledger \<Rightarrow> ('i, 'm) ledger \<Rightarrow> bool" where
  "quiet l l' \<longleftrightarrow> ld_hash l' = ld_hash l \<and> pend l' = pend l \<and> flights l' = flights l \<and>
     leases l' = leases l \<and> next_flight l' = next_flight l \<and> flightLimit l' = flightLimit l \<and>
     subscriberBudget l' = subscriberBudget l \<and> subscriberPerFlight l' = subscriberPerFlight l \<and>
     nextAdmissionSeq l' = nextAdmissionSeq l \<and> activeAdmissions l' = activeAdmissions l"

lemma quiet_refl [simp]: "quiet l l"
  by (simp add: quiet_def)

lemma quiet_trans: "quiet l l' \<Longrightarrow> quiet l' l'' \<Longrightarrow> quiet l l''"
  by (simp add: quiet_def)

lemma quietD:
  assumes "quiet l l'"
  shows "shardIndex l' = shardIndex l" and "pend l' = pend l" and "flights l' = flights l"
    and "leases l' = leases l" and "next_flight l' = next_flight l"
    and "flightLimit l' = flightLimit l" and "subscriberBudget l' = subscriberBudget l"
    and "subscriberPerFlight l' = subscriberPerFlight l"
    and "nextAdmissionSeq l' = nextAdmissionSeq l"
    and "activeAdmissions l' = activeAdmissions l" and "view l' = view l"
  using assms shardIndex_cong [of l' l] by (simp_all add: quiet_def view_def [abs_def])

text \<open>What every operation keeps: a settled flight is frozen, a flight keeps its identity and
  admission sequence, a lease keeps its key and stays handed off, and the safe floor never moves
  back.\<close>

definition flights_kept :: "(nat \<rightharpoonup> ('i, 'm) flight) \<Rightarrow> (nat \<rightharpoonup> ('i, 'm) flight) \<Rightarrow> bool" where
  "flights_kept h h' \<longleftrightarrow> (\<forall>f fl. h f = Some fl \<longrightarrow> (\<exists>fl'. h' f = Some fl' \<and> (fl_done fl \<longrightarrow> fl' = fl) \<and>
     fl_identity fl' = fl_identity fl \<and> fl_admissionSeq fl' = fl_admissionSeq fl))"

definition leases_kept :: "(nat \<rightharpoonup> lease) \<Rightarrow> (nat \<rightharpoonup> lease) \<Rightarrow> bool" where
  "leases_kept h h' \<longleftrightarrow> (\<forall>f x. h f = Some x \<longrightarrow> (\<exists>y. h' f = Some y \<and> ls_key y = ls_key x \<and>
     (ls_handedOff x \<longrightarrow> ls_handedOff y)))"

definition steady :: "('i, 'm) ledger \<Rightarrow> ('i, 'm) ledger \<Rightarrow> bool" where
  "steady l l' \<longleftrightarrow> flights_kept (flights l) (flights l') \<and> leases_kept (leases l) (leases l') \<and>
     stableAdmissionSafeFloor l \<le> stableAdmissionSafeFloor l'"

lemma flights_kept_refl [simp]: "flights_kept h h"
  by (simp add: flights_kept_def)

lemma leases_kept_refl [simp]: "leases_kept h h"
  by (simp add: leases_kept_def)

lemma flights_kept_upd:
  "(\<And>fl. h f = Some fl \<Longrightarrow> \<not> fl_done fl \<and> fl_identity fl' = fl_identity fl \<and>
     fl_admissionSeq fl' = fl_admissionSeq fl) \<Longrightarrow> flights_kept h (h(f \<mapsto> fl'))"
  by (simp add: flights_kept_def)

lemma leases_kept_upd:
  "(\<And>x. h f = Some x \<Longrightarrow> ls_key y = ls_key x \<and> (ls_handedOff x \<longrightarrow> ls_handedOff y)) \<Longrightarrow>
     leases_kept h (h(f \<mapsto> y))"
  by (simp add: leases_kept_def)

lemma quiet_steady: "quiet l l' \<Longrightarrow> steady l l'"
  by (simp add: quiet_def steady_def stableAdmissionSafeFloor_def)

lemma steady_trans:
  assumes "steady l l1" and "steady l1 l2"
  shows "steady l l2"
proof -
  have "flights_kept (flights l) (flights l2)"
    unfolding flights_kept_def
  proof (intro allI impI)
    fix f fl assume "flights l f = Some fl"
    then obtain a where a: "flights l1 f = Some a" "fl_done fl \<longrightarrow> a = fl" "fl_identity a = fl_identity fl"
      "fl_admissionSeq a = fl_admissionSeq fl" using assms(1) unfolding steady_def flights_kept_def by metis
    then obtain b where "flights l2 f = Some b" "fl_done a \<longrightarrow> b = a" "fl_identity b = fl_identity a"
      "fl_admissionSeq b = fl_admissionSeq a" using assms(2) unfolding steady_def flights_kept_def by metis
    then show "\<exists>fl'. flights l2 f = Some fl' \<and> (fl_done fl \<longrightarrow> fl' = fl) \<and>
     fl_identity fl' = fl_identity fl \<and> fl_admissionSeq fl' = fl_admissionSeq fl" using a by auto
  qed
  moreover have "leases_kept (leases l) (leases l2)"
    unfolding leases_kept_def
  proof (intro allI impI)
    fix f x assume "leases l f = Some x"
    then obtain a where a: "leases l1 f = Some a" "ls_key a = ls_key x" "ls_handedOff x \<longrightarrow> ls_handedOff a"
      using assms(1) unfolding steady_def leases_kept_def by metis
    then obtain b where "leases l2 f = Some b" "ls_key b = ls_key a" "ls_handedOff a \<longrightarrow> ls_handedOff b"
      using assms(2) unfolding steady_def leases_kept_def by metis
    then show "\<exists>y. leases l2 f = Some y \<and> ls_key y = ls_key x \<and> (ls_handedOff x \<longrightarrow> ls_handedOff y)"
      using a by auto
  qed
  ultimately show ?thesis using assms by (auto simp: steady_def)
qed

lemma shard_wf_receipt:
  assumes "\<And>i. shard_wf l i"
  shows "rcpt l k = Some rc \<longleftrightarrow> rc \<in> set (sh_order (ld_shards l (shardIndex l k))) \<and> rc_key rc = k"
  using assms [of "shardIndex l k"] by (simp add: shard_wf_def rcpt_def)

lemma shard_wf_member:
  assumes "\<And>i. shard_wf l i" and "rc \<in> set (sh_order (ld_shards l i))"
  shows "rcpt l (rc_key rc) = Some rc" and "shardIndex l (rc_key rc) = i"
    and "\<exists>r. rc_reservation rc = Some r"
proof -
  show i: "shardIndex l (rc_key rc) = i" using assms(1) [of i] assms(2) by (simp add: shard_wf_def)
  show "rcpt l (rc_key rc) = Some rc" using assms i by (simp add: shard_wf_receipt)
  show "\<exists>r. rc_reservation rc = Some r" using assms(1) [of i] assms(2) by (auto simp: shard_wf_def)
qed

definition drop_receipt :: "'i receipt \<Rightarrow> 'i shard \<Rightarrow> 'i shard" where
  "drop_receipt rc s = s\<lparr>sh_byKey := (sh_byKey s)(rc_key rc := None), sh_order := remove1 rc (sh_order s)\<rparr>"

lemma shard_wf_drop:
  assumes wf: "shard_wf l i" and rc: "rc \<in> set (sh_order (ld_shards l i))"
    and l': "shardIndex l' = shardIndex l" "ld_shards l' i = drop_receipt rc (ld_shards l i)"
  shows "shard_wf l' i"
proof -
  let ?o = "sh_order (ld_shards l i)"
  have d: "distinct (map rc_key ?o)" using wf by (simp add: shard_wf_def)
  note f = remove1_filter_distinct [OF d rc]
  have "distinct (map rc_key (remove1 rc ?o))"
    using d by (simp add: f distinct_map_filter)
  moreover have "sh_byKey (ld_shards l' i) k = Some x \<longleftrightarrow> x \<in> set (remove1 rc ?o) \<and> rc_key x = k" for k x
    using wf by (auto simp: l' drop_receipt_def shard_wf_def f)
  moreover have "\<forall>x\<in>set (remove1 rc ?o). shardIndex l' (rc_key x) = i \<and> rc_reservation x \<noteq> None"
    using wf by (simp add: l' shard_wf_def f)
  ultimately show ?thesis by (simp add: shard_wf_def l' drop_receipt_def)
qed

lemma removeElement_ok:
  assumes inv: "ledger_inv l" and rc: "rc \<in> set (sh_order (ld_shards l i))"
  shows "\<exists>l'. removeElement i rc l = Some l' \<and> ledger_inv l' \<and> quiet l l' \<and>
    rcpt l' = (rcpt l)(rc_key rc := None) \<and>
    ld_shards l' = (ld_shards l)(i := drop_receipt rc (ld_shards l i))"
proof -
  note wf = ledger_invD(1) [OF inv] and res = ledger_invD(3) [OF inv]
  note m = shard_wf_member [OF wf rc]
  obtain r where r: "rc_reservation rc = Some r" using m(3) by blast
  have R: "rres l (rc_key rc) = Some r" using m(1) r by (simp add: rres_def)
  obtain fb' where fb': "fair_release r (fairBudget l) = Some fb'"
    "resources (view l) ((rres l)(rc_key rc := None)) fb' (flightLimit l) (receiptCount l - 1)
       (activeAdmissions l) (nextAdmissionSeq l) (subscriberBudget l)"
    using resources_expire [OF res R] by blast
  have c: "1 \<le> receiptCount l" by (rule own_receipt_pos [OF resourcesD(1) [OF res] R])
  define l' where "l' = (put_shard i (drop_receipt rc (ld_shards l i)) l)
    \<lparr>receiptCount := receiptCount l - 1, fairBudget := fb'\<rparr>"
  have rem: "removeElement i rc l = Some l'"
    using c r fb'(1) by (simp add: removeElement_def unlinkElement_def Let_def l'_def drop_receipt_def)
  have sh: "ld_shards l' = (ld_shards l)(i := drop_receipt rc (ld_shards l i))"
    and six: "shardIndex l' = shardIndex l" by (simp_all add: l'_def)
  have rcpt': "rcpt l' = (rcpt l)(rc_key rc := None)"
    using m(2) by (auto simp: rcpt_def fun_eq_iff l'_def drop_receipt_def)
  have q: "quiet l l'"
    unfolding quiet_def using pend_cong [of l' l] by (simp add: l'_def drop_receipt_def)
  have "shard_wf l' j" for j
  proof (cases "j = i")
    case True
    have "ld_shards l' i = drop_receipt rc (ld_shards l i)" by (simp add: sh)
    from shard_wf_drop [OF wf rc six this] True show ?thesis by simp
  next
    case False
    then show ?thesis using wf [of j] by (simp add: shard_wf_def sh six)
  qed
  moreover have "rres l' = (rres l)(rc_key rc := None)"
    by (auto simp: rres_def [abs_def] rcpt' fun_eq_iff)
  moreover have "fairBudget l' = fb'" "receiptCount l' = receiptCount l - 1" by (simp_all add: l'_def)
  ultimately have "ledger_inv l'"
    using fb'(2) ledger_invD(2) [OF inv] by (intro ledger_invI) (simp_all add: quietD(2-) [OF q])
  then show ?thesis using rem q rcpt' sh by blast
qed

subsection \<open>Expiry\<close>

text \<open>What a sweep leaves: a subset of the receipts, and it removed only keys that satisfy \<open>Q\<close>.\<close>

definition swept :: "('i receipt \<Rightarrow> bool) \<Rightarrow> ('i, 'm) ledger \<Rightarrow> ('i, 'm) ledger \<Rightarrow> bool" where
  "swept Q l l' \<longleftrightarrow> ledger_inv l' \<and> quiet l l' \<and>
     (\<forall>k rc. rcpt l' k = Some rc \<longrightarrow> rcpt l k = Some rc) \<and>
     (\<forall>k rc. rcpt l k = Some rc \<and> rcpt l' k = None \<longrightarrow> Q rc)"

lemma swept_refl: "ledger_inv l \<Longrightarrow> swept Q l l"
  by (auto simp: swept_def)

lemma swept_trans:
  assumes "swept Q l l1" and "swept Q l1 l2"
  shows "swept Q l l2"
proof -
  have "Q rc" if "rcpt l k = Some rc" "rcpt l2 k = None" for k rc
    using that assms by (cases "rcpt l1 k") (auto simp: swept_def)
  then show ?thesis using assms by (auto simp: swept_def intro: quiet_trans)
qed

lemma swept_mono: "swept Q l l' \<Longrightarrow> (\<And>rc. Q rc \<Longrightarrow> Q' rc) \<Longrightarrow> swept Q' l l'"
  by (auto simp: swept_def)

lemma swept_remove:
  assumes "ledger_inv l" and "rc \<in> set (sh_order (ld_shards l i))" and "Q rc"
  shows "\<exists>l'. removeElement i rc l = Some l' \<and> swept Q l l' \<and>
    ld_shards l' = (ld_shards l)(i := drop_receipt rc (ld_shards l i))"
proof -
  obtain l' where l': "removeElement i rc l = Some l'" "ledger_inv l'" "quiet l l'"
    "rcpt l' = (rcpt l)(rc_key rc := None)"
    "ld_shards l' = (ld_shards l)(i := drop_receipt rc (ld_shards l i))"
    using removeElement_ok [OF assms(1,2)] by blast
  then show ?thesis
    using assms(3) shard_wf_member(1) [OF ledger_invD(1) [OF assms(1)] assms(2)]
    by (auto simp: swept_def split: if_splits)
qed

lemma expire_list_ok:
  assumes "ledger_inv l" and "rcs = sh_order (ld_shards l i)"
  shows "\<exists>l'. expire_list i now rcs l = Some l' \<and> swept (\<lambda>rc. rc_expiresAt rc \<le> now) l l' \<and>
    sh_order (ld_shards l' i) = dropWhile (\<lambda>rc. rc_expiresAt rc \<le> now) rcs \<and>
    (\<forall>j. j \<noteq> i \<longrightarrow> ld_shards l' j = ld_shards l j)"
  using assms
proof (induction rcs arbitrary: l)
  case Nil
  then show ?case by (simp add: swept_refl)
next
  case (Cons rc rcs)
  show ?case
  proof (cases "rc_expiresAt rc > now")
    case True
    then have "expire_list i now (rc # rcs) l = Some l" by simp
    moreover have "dropWhile (\<lambda>rc. rc_expiresAt rc \<le> now) (rc # rcs) = rc # rcs" using True by simp
    ultimately show ?thesis using Cons.prems swept_refl [OF Cons.prems(1)] by metis
  next
    case False
    have rc: "rc \<in> set (sh_order (ld_shards l i))" using Cons.prems(2) [symmetric] by simp
    obtain l1 where l1: "removeElement i rc l = Some l1" "swept (\<lambda>rc. rc_expiresAt rc \<le> now) l l1"
      "ld_shards l1 = (ld_shards l)(i := drop_receipt rc (ld_shards l i))"
      using swept_remove [OF Cons.prems(1) rc, of "\<lambda>rc. rc_expiresAt rc \<le> now"] False by auto
    have o1: "rcs = sh_order (ld_shards l1 i)"
      using Cons.prems(2) [symmetric] by (simp add: l1(3) drop_receipt_def)
    have "ledger_inv l1" using l1(2) by (simp add: swept_def)
    from Cons.IH [OF this o1] obtain l' where l': "expire_list i now rcs l1 = Some l'"
      "swept (\<lambda>rc. rc_expiresAt rc \<le> now) l1 l'"
      "sh_order (ld_shards l' i) = dropWhile (\<lambda>rc. rc_expiresAt rc \<le> now) rcs"
      "\<forall>j. j \<noteq> i \<longrightarrow> ld_shards l' j = ld_shards l1 j" by blast
    then show ?thesis using False l1 swept_trans [OF l1(2) l'(2)] by auto
  qed
qed

lemma expireLocked_ok:
  assumes "ledger_inv l"
  shows "\<exists>l'. expireLocked i now l = Some l' \<and> swept (\<lambda>rc. rc_expiresAt rc \<le> now) l l' \<and>
    sh_order (ld_shards l' i) = dropWhile (\<lambda>rc. rc_expiresAt rc \<le> now) (sh_order (ld_shards l i)) \<and>
    (\<forall>j. j \<noteq> i \<longrightarrow> ld_shards l' j = ld_shards l j)"
  using expire_list_ok [OF assms refl] by (simp add: expireLocked_def)

lemma expire_shards_ok:
  "ledger_inv l \<Longrightarrow> \<exists>l'. expire_shards clk is l = Some l' \<and>
     swept (\<lambda>rc. \<exists>i\<in>set is. rc_expiresAt rc \<le> clk i) l l'"
proof (induction "is" arbitrary: l)
  case Nil
  then show ?case by (simp add: swept_refl)
next
  case (Cons i "is")
  obtain l1 where l1: "expireLocked i (clk i) l = Some l1" "swept (\<lambda>rc. rc_expiresAt rc \<le> clk i) l l1"
    using expireLocked_ok [OF Cons.prems] by blast
  then obtain l' where l': "expire_shards clk is l1 = Some l'"
    "swept (\<lambda>rc. \<exists>i\<in>set is. rc_expiresAt rc \<le> clk i) l1 l'"
    using Cons.IH [of l1] by (auto simp: swept_def)
  have "swept (\<lambda>rc. \<exists>i\<in>set (i # is). rc_expiresAt rc \<le> clk i) l l'"
    by (rule swept_trans) (rule swept_mono [OF l1(2)], simp, rule swept_mono [OF l'(2)], auto)
  then show ?case using l1(1) l'(1) by simp
qed

lemma expireReceipts_ok:
  "ledger_inv l \<Longrightarrow> \<exists>l'. expireReceipts clk l = Some l' \<and>
     swept (\<lambda>rc. \<exists>i<16. rc_expiresAt rc \<le> clk i) l l'"
  using expire_shards_ok [of l clk "[0..<16]"] unfolding expireReceipts_def
  by (auto simp: Bex_def intro: swept_mono)

subsection \<open>Forgetting a session\<close>

lemma swept_inv: "swept Q l l' \<Longrightarrow> ledger_inv l'"
  by (simp add: swept_def)

lemma swept_quiet: "swept Q l l' \<Longrightarrow> quiet l l'"
  by (simp add: swept_def)

lemma swept_None: "swept Q l l' \<Longrightarrow> rcpt l k = None \<Longrightarrow> rcpt l' k = None"
  by (cases "rcpt l' k") (auto simp: swept_def)

lemma forget_list_ok:
  assumes "ledger_inv l" and "set rcs \<subseteq> set (sh_order (ld_shards l i))" and "distinct rcs"
  shows "\<exists>l'. forget_list i s rcs l = Some l' \<and> swept (\<lambda>rc. session_of (rc_key rc) = s) l l' \<and>
    (\<forall>rc\<in>set rcs. session_of (rc_key rc) = s \<longrightarrow> rcpt l' (rc_key rc) = None) \<and>
    (\<forall>j. j \<noteq> i \<longrightarrow> ld_shards l' j = ld_shards l j)"
  using assms
proof (induction rcs arbitrary: l)
  case Nil
  then show ?case by (simp add: swept_refl)
next
  case (Cons rc rcs)
  let ?Q = "\<lambda>rc. session_of (rc_key rc) = s"
  have rc: "rc \<in> set (sh_order (ld_shards l i))" using Cons.prems(2) by simp
  show ?case
  proof (cases "?Q rc")
    case False
    then show ?thesis using Cons.IH [OF Cons.prems(1)] Cons.prems(2,3) by simp
  next
    case True
    obtain l1 where l1: "removeElement i rc l = Some l1" "swept ?Q l l1"
      "ld_shards l1 = (ld_shards l)(i := drop_receipt rc (ld_shards l i))"
      "rcpt l1 = (rcpt l)(rc_key rc := None)"
      using swept_remove [OF Cons.prems(1) rc, of ?Q, OF True] removeElement_ok [OF Cons.prems(1) rc]
      by fastforce
    have sub: "set rcs \<subseteq> set (sh_order (ld_shards l1 i))"
      using Cons.prems(2,3) by (auto simp: l1(3) drop_receipt_def) (metis in_set_remove1 subsetD)
    have "distinct rcs" using Cons.prems(3) by simp
    from Cons.IH [OF swept_inv [OF l1(2)] sub this] obtain l' where l':
      "forget_list i s rcs l1 = Some l'" "swept ?Q l1 l'"
      "\<forall>rc\<in>set rcs. ?Q rc \<longrightarrow> rcpt l' (rc_key rc) = None"
      "\<forall>j. j \<noteq> i \<longrightarrow> ld_shards l' j = ld_shards l1 j" by blast
    have "rcpt l' (rc_key rc) = None" using swept_None [OF l'(2)] l1(4) by simp
    then show ?thesis using True l1 l' swept_trans [OF l1(2) l'(2)] by auto
  qed
qed

lemma forget_shards_ok:
  "ledger_inv l \<Longrightarrow> \<exists>l'. forget_shards s is l = Some l' \<and>
     swept (\<lambda>rc. session_of (rc_key rc) = s) l l' \<and>
     (\<forall>k. session_of k = s \<and> shardIndex l k \<in> set is \<longrightarrow> rcpt l' k = None)"
proof (induction "is" arbitrary: l)
  case Nil
  then show ?case by (simp add: swept_refl)
next
  case (Cons i "is")
  let ?Q = "\<lambda>rc. session_of (rc_key rc) = s"
  note wf = ledger_invD(1) [OF Cons.prems]
  have d: "distinct (sh_order (ld_shards l i))"
    using wf [of i] by (auto simp: shard_wf_def distinct_map)
  obtain l1 where l1: "forget_list i s (sh_order (ld_shards l i)) l = Some l1" "swept ?Q l l1"
    "\<forall>rc\<in>set (sh_order (ld_shards l i)). ?Q rc \<longrightarrow> rcpt l1 (rc_key rc) = None"
    using forget_list_ok [OF Cons.prems subset_refl d] by blast
  obtain l' where l': "forget_shards s is l1 = Some l'" "swept ?Q l1 l'"
    "\<forall>k. session_of k = s \<and> shardIndex l1 k \<in> set is \<longrightarrow> rcpt l' k = None"
    using Cons.IH [OF swept_inv [OF l1(2)]] by blast
  have "rcpt l' k = None" if k: "session_of k = s" "shardIndex l k \<in> set (i # is)" for k
  proof (cases "shardIndex l k = i")
    case True
    have "rcpt l1 k = None"
    proof (cases "rcpt l k")
      case None
      then show ?thesis by (rule swept_None [OF l1(2)])
    next
      case (Some rc)
      then have "rc \<in> set (sh_order (ld_shards l i))" "rc_key rc = k"
        using shard_wf_receipt [OF wf, of k rc] True by simp_all
      then show ?thesis using l1(3) k(1) by auto
    qed
    then show ?thesis by (rule swept_None [OF l'(2)])
  next
    case False
    then show ?thesis using l'(3) k quietD(1) [OF swept_quiet [OF l1(2)]] by simp
  qed
  then show ?case using l1(1) l'(1) swept_trans [OF l1(2) l'(2)] by auto
qed

lemma shardIndex_bound: "shardIndex l k < 16"
proof -
  have "and w 15 \<le> 15" for w :: "64 word" by (rule word_and_le1)
  then have "unat (and w (15 :: 64 word)) \<le> unat (15 :: 64 word)" for w :: "64 word"
    by (simp add: word_le_nat_alt)
  then show ?thesis unfolding shardIndex_def by (rule le_less_trans) simp
qed

lemma forgetSession_ok:
  "ledger_inv l \<Longrightarrow> \<exists>l'. forgetSession s l = Some l' \<and>
     swept (\<lambda>rc. session_of (rc_key rc) = s) l l' \<and> (\<forall>k. session_of k = s \<longrightarrow> rcpt l' k = None)"
  using forget_shards_ok [of l s "[0..<16]"] shardIndex_bound [of l] by (simp add: forgetSession_def)

text \<open>A receipt survives an operation whose clock readings \<open>T\<close> are all before its expiry.\<close>

definition survives :: "int set \<Rightarrow> ('i, 'm) ledger \<Rightarrow> ('i, 'm) ledger \<Rightarrow> bool" where
  "survives T l l' \<longleftrightarrow>
     (\<forall>k rc. rcpt l k = Some rc \<and> (\<forall>t\<in>T. t < rc_expiresAt rc) \<longrightarrow> rcpt l' k = Some rc)"

lemma survives_refl [simp]: "survives T l l"
  by (simp add: survives_def)

lemma survives_trans: "survives T l l1 \<Longrightarrow> survives T l1 l2 \<Longrightarrow> survives T l l2"
  by (simp add: survives_def)

lemma survives_mono: "survives T l l' \<Longrightarrow> T \<subseteq> T' \<Longrightarrow> survives T' l l'"
  by (auto simp: survives_def)

lemma swept_survives:
  assumes "swept Q l l'" and "\<And>rc. Q rc \<Longrightarrow> \<exists>t\<in>T. rc_expiresAt rc \<le> t"
  shows "survives T l l'"
  unfolding survives_def
proof (intro allI impI)
  fix k rc
  assume a: "rcpt l k = Some rc \<and> (\<forall>t\<in>T. t < rc_expiresAt rc)"
  then have "\<not> Q rc" using assms(2) [of rc] by fastforce
  then obtain rc' where "rcpt l' k = Some rc'"
    using a assms(1) by (cases "rcpt l' k") (auto simp: swept_def)
  moreover from this have "rcpt l k = Some rc'" using assms(1) by (simp add: swept_def)
  ultimately show "rcpt l' k = Some rc" using a by simp
qed

end
