(* ===== verification/Ledger_Settle.thy ===== *)
theory Ledger_Settle
  imports Ledger_Receipts
begin

text \<open>
  Terminal transitions. \<open>settled_state\<close> is the ledger after a pending flight has been taken out of
  its shard with everything it held; \<open>Complete\<close> and \<open>Abort\<close> both reach such a state, and only the
  receipt distinguishes them.
\<close>

lemma flights_wfI:
  assumes "\<And>k f. p k = Some f \<Longrightarrow> \<exists>x. ls f = Some x \<and> ls_key x = k"
    and "\<And>f. f < n \<longleftrightarrow> h f \<noteq> None" and "\<And>f. f < n \<longleftrightarrow> ls f \<noteq> None"
    and "\<And>f fl x. h f = Some fl \<Longrightarrow> ls f = Some x \<Longrightarrow>
      (if p (ls_key x) = Some f then live_flight cap fl else settled_flight fl)"
  shows "flights_wf p h ls n cap"
  unfolding flights_wf_def using assms by blast

lemma flights_wf_install:
  assumes wf: "flights_wf p h ls n cap" and k: "p k = None" and x: "ls_key x = k"
    and fl: "live_flight cap fl"
  shows "flights_wf (p(k \<mapsto> n)) (h(n \<mapsto> fl)) (ls(n \<mapsto> x)) (n + 1) cap"
proof -
  note D = flights_wfD [OF wf]
  have fresh: "h n = None" "ls n = None" using D(3) [of n] D(4) [of n] by auto
  have nn: "p k' \<noteq> Some n" for k' using D(1) [of k' n] fresh by auto
  have nxt: "f < n + 1 \<longleftrightarrow> f < n \<or> f = n" for f by auto
  show ?thesis
  proof (rule flights_wfI)
    show "\<exists>y. (ls(n \<mapsto> x)) f = Some y \<and> ls_key y = k'" if "(p(k \<mapsto> n)) k' = Some f" for k' f
      using that D(1) [of k' f] x fresh by (auto split: if_splits)
    show "f < n + 1 \<longleftrightarrow> (h(n \<mapsto> fl)) f \<noteq> None" for f using nxt D(3) [of f] by simp
    show "f < n + 1 \<longleftrightarrow> (ls(n \<mapsto> x)) f \<noteq> None" for f using nxt D(4) [of f] by simp
    show "if (p(k \<mapsto> n)) (ls_key y) = Some f then live_flight cap g else settled_flight g"
      if "(h(n \<mapsto> fl)) f = Some g" "(ls(n \<mapsto> x)) f = Some y" for f g y
      using that D(5) [of f g y] nn x fl k by (auto split: if_splits)
  qed
qed

lemma flights_wf_settle:
  assumes wf: "flights_wf p h ls n cap" and k: "p k = Some f" and fl: "settled_flight fl"
  shows "flights_wf (p(k := None)) (h(f \<mapsto> fl)) ls n cap"
proof -
  note D = flights_wfD [OF wf]
  have f: "f < n" using D(1) [OF k] D(3) [of f] by auto
  show ?thesis
  proof (rule flights_wfI)
    show "\<exists>y. ls g = Some y \<and> ls_key y = k'" if "(p(k := None)) k' = Some g" for k' g
      using that D(1) [of k' g] by (auto split: if_splits)
    show "g < n \<longleftrightarrow> (h(f \<mapsto> fl)) g \<noteq> None" for g using f D(3) [of g] by auto
    show "g < n \<longleftrightarrow> ls g \<noteq> None" for g by (rule D(4))
    show "if (p(k := None)) (ls_key y) = Some g then live_flight cap v else settled_flight v"
      if "(h(f \<mapsto> fl)) g = Some v" "ls g = Some y" for g v y
      using that D(5) [of g v y] D(1) [OF k] k fl by (auto split: if_splits)
  qed
qed

lemma flights_wf_update:
  assumes wf: "flights_wf p h ls n cap" and k: "p k = Some f" and fl: "live_flight cap fl"
  shows "flights_wf p (h(f \<mapsto> fl)) ls n cap"
proof -
  note D = flights_wfD [OF wf]
  have f: "f < n" using D(1) [OF k] D(3) [of f] by auto
  show ?thesis
  proof (rule flights_wfI)
    show "\<exists>y. ls g = Some y \<and> ls_key y = k'" if "p k' = Some g" for k' g
      using D(1) [OF that] by blast
    show "g < n \<longleftrightarrow> (h(f \<mapsto> fl)) g \<noteq> None" for g using f D(3) [of g] by auto
    show "g < n \<longleftrightarrow> ls g \<noteq> None" for g by (rule D(4))
    show "if p (ls_key y) = Some g then live_flight cap v else settled_flight v"
      if "(h(f \<mapsto> fl)) g = Some v" "ls g = Some y" for g v y
      using that D(5) [of g v y] D(1) [OF k] k fl by (auto split: if_splits)
  qed
qed

lemma flights_wf_lease:
  assumes wf: "flights_wf p h ls n cap" and f: "ls f = Some x" and x': "ls_key x' = ls_key x"
  shows "flights_wf p h (ls(f \<mapsto> x')) n cap"
proof -
  note D = flights_wfD [OF wf]
  show ?thesis
  proof (rule flights_wfI)
    show "\<exists>y. (ls(f \<mapsto> x')) g = Some y \<and> ls_key y = k'" if "p k' = Some g" for k' g
      using D(1) [OF that] f x' by auto
    show "g < n \<longleftrightarrow> h g \<noteq> None" for g by (rule D(3))
    show "g < n \<longleftrightarrow> (ls(f \<mapsto> x')) g \<noteq> None" for g using f D(4) [of g] by auto
    show "if p (ls_key y) = Some g then live_flight cap v else settled_flight v"
      if "h g = Some v" "(ls(f \<mapsto> x')) g = Some y" for g v y
      using that D(5) [of g v] f x' by (auto split: if_splits)
  qed
qed

subsection \<open>The view of pending flights under these updates\<close>

lemma view_settle:
  assumes "flights_wf (pend l) (flights l) (leases l) n cap" and "pend l k = Some f"
    and "pend l' = (pend l)(k := None)" and "flights l' = (flights l)(f \<mapsto> fl)"
  shows "view l' = (view l)(k := None)"
proof
  fix k'
  have "pend l k' \<noteq> Some f" if "k' \<noteq> k" using that flights_wfD(2) [OF assms(1,2), of k'] by blast
  then show "view l' k' = ((view l)(k := None)) k'"
    by (cases "pend l k'") (auto simp: view_def assms(3,4))
qed

lemma view_update:
  assumes "flights_wf (pend l) (flights l) (leases l) n cap" and "pend l k = Some f"
    and "pend l' = pend l" and "flights l' = (flights l)(f \<mapsto> fl)"
  shows "view l' = (view l)(k \<mapsto> fl)"
proof
  fix k'
  have "pend l k' \<noteq> Some f" if "k' \<noteq> k" using that flights_wfD(2) [OF assms(1,2), of k'] by blast
  then show "view l' k' = ((view l)(k \<mapsto> fl)) k'"
    using assms(2) by (cases "pend l k'") (auto simp: view_def assms(3,4))
qed

lemma view_install:
  assumes "flights_wf (pend l) (flights l) (leases l) n cap"
    and "pend l' = (pend l)(k \<mapsto> n)" and "flights l' = (flights l)(n \<mapsto> fl)"
  shows "view l' = (view l)(k \<mapsto> fl)"
proof -
  have "pend l k' \<noteq> Some n" for k'
    using flights_wfD(1) [OF assms(1), of k' n] flights_wfD(3) [OF assms(1), of n] by auto
  then show ?thesis using assms(2,3) by (auto simp: view_def fun_eq_iff split: bind_split)
qed

subsection \<open>Taking a flight out\<close>

definition settled_state ::
  "exec_key \<Rightarrow> nat \<Rightarrow> ('i, 'm) flight \<Rightarrow> fair_budget \<Rightarrow> flight_limit \<Rightarrow> tracker \<Rightarrow> sub_budget \<Rightarrow>
     ('i, 'm) ledger \<Rightarrow> ('i, 'm) ledger" where
  "settled_state key f fl fb lim tr sb l =
     (put_flight f fl (put_pending key None l))
       \<lparr>fairBudget := fb, flightLimit := lim, activeAdmissions := tr, subscriberBudget := sb\<rparr>"

lemma releaseSlots_eq:
  assumes "flights l f = Some fl" and "fl_subscriberSlots fl = n" and "0 \<le> n"
    and "(if n = 0 then Some (subscriberBudget l) else sub_release (subscriberBudget l) key n) = Some sb"
  shows "releaseFlightSubscriberSlotsLocked key f n l =
    Some ((put_flight f (fl\<lparr>fl_subscriberSlots := 0\<rparr>) l)\<lparr>subscriberBudget := sb\<rparr>)"
proof (cases "n = 0")
  case True
  then have "sb = subscriberBudget l" "fl\<lparr>fl_subscriberSlots := 0\<rparr> = fl" using assms by auto
  moreover have "put_flight f fl l = l" using assms(1) by (simp add: put_flight_def fun_upd_idem)
  ultimately show ?thesis using True by (simp add: releaseFlightSubscriberSlotsLocked_def)
next
  case False
  then show ?thesis using assms by (simp add: releaseFlightSubscriberSlotsLocked_def)
qed

lemma live_flightD:
  assumes "live_flight n fl"
  shows "\<not> fl_done fl" and "\<exists>r. fl_reservation fl = Some r"
    and "fl_subscriberSlots fl = int (length (fl_subscribers fl) + length (fl_executionSubscribers fl))"
    and "fl_executionDone fl \<Longrightarrow> fl_executionSubscribers fl = []" and "0 \<le> fl_subscriberSlots fl"
    and "fl_subscriberSlots fl \<le> max 0 n"
  using assms unfolding live_flight_def by auto

definition finished :: "'m option \<Rightarrow> ('i, 'm) flight \<Rightarrow> ('i, 'm) flight" where
  "finished enc fl = fl\<lparr>fl_reservation := None, fl_encoded := (if enc = None then fl_encoded fl else enc),
     fl_ok := (if enc = None then fl_ok fl else True), fl_subscribers := [],
     fl_executionSubscribers := [], fl_executionDone := True,
     fl_executionOK := (fl_executionDone fl \<and> fl_executionOK fl), fl_subscriberSlots := 0, fl_done := True\<rparr>"

lemma settled_finished [simp]: "settled_flight (finished enc fl)"
  by (simp add: settled_flight_def finished_def)

lemma take_out_eq:
  assumes f: "flights l f = Some fl" and live: "live_flight n fl"
    and fl': "fl' = fl\<lparr>fl_reservation := None, fl_encoded := (if enc = None then fl_encoded fl else enc),
     fl_ok := (if enc = None then fl_ok fl else True), fl_subscribers := [],
     fl_executionSubscribers := [], fl_executionDone := True,
     fl_executionOK := (fl_executionDone fl \<and> fl_executionOK fl)\<rparr>"
    and sb: "(if fl_subscriberSlots fl = 0 then Some (subscriberBudget l)
              else sub_release (subscriberBudget l) key (fl_subscriberSlots fl)) = Some sb"
    and l1: "l1 = (put_flight f fl' (put_pending key None l))
                \<lparr>fairBudget := fb, flightLimit := lim, activeAdmissions := tr\<rparr>"
  shows "do { l2 \<leftarrow> releaseFlightSubscriberSlotsLocked key f
             (int (length (fl_subscribers fl) + length (fl_executionSubscribers fl))) l1;
           close_done f l2 } = Some (settled_state key f (finished enc fl) fb lim tr sb l)"
proof -
  have f1: "flights l1 f = Some fl'" by (simp add: l1)
  have s1: "fl_subscriberSlots fl' = int (length (fl_subscribers fl) + length (fl_executionSubscribers fl))"
    using live_flightD(3) [OF live] by (simp add: fl')
  have sb': "(if fl_subscriberSlots fl' = 0 then Some (subscriberBudget l1)
     else sub_release (subscriberBudget l1) key (fl_subscriberSlots fl')) = Some sb"
    using sb by (auto simp: fl' l1 split: if_splits)
  have "releaseFlightSubscriberSlotsLocked key f
      (int (length (fl_subscribers fl) + length (fl_executionSubscribers fl))) l1 =
    Some ((put_flight f (fl'\<lparr>fl_subscriberSlots := 0\<rparr>) l1)\<lparr>subscriberBudget := sb\<rparr>)"
    by (rule releaseSlots_eq [OF f1 s1 _ sb' [unfolded s1]]) simp
  then show ?thesis
    using live_flightD(1) [OF live]
    by (simp add: close_done_def fl' l1 settled_state_def finished_def put_flight_def)
qed

lemma settled_state_simps [simp]:
  "pend (settled_state k f fl fb lim tr sb l) = (pend l)(k := None)"
  "rcpt (settled_state k f fl fb lim tr sb l) = rcpt l"
  "flights (settled_state k f fl fb lim tr sb l) = (flights l)(f \<mapsto> fl)"
  "leases (settled_state k f fl fb lim tr sb l) = leases l"
  "next_flight (settled_state k f fl fb lim tr sb l) = next_flight l"
  "fairBudget (settled_state k f fl fb lim tr sb l) = fb"
  "flightLimit (settled_state k f fl fb lim tr sb l) = lim"
  "activeAdmissions (settled_state k f fl fb lim tr sb l) = tr"
  "subscriberBudget (settled_state k f fl fb lim tr sb l) = sb"
  "receiptCount (settled_state k f fl fb lim tr sb l) = receiptCount l"
  "nextAdmissionSeq (settled_state k f fl fb lim tr sb l) = nextAdmissionSeq l"
  "subscriberPerFlight (settled_state k f fl fb lim tr sb l) = subscriberPerFlight l"
  "shardIndex (settled_state k f fl fb lim tr sb l) = shardIndex l"
  "sh_order (ld_shards (settled_state k f fl fb lim tr sb l) i) = sh_order (ld_shards l i)"
  "sh_byKey (ld_shards (settled_state k f fl fb lim tr sb l) i) = sh_byKey (ld_shards l i)"
  "ld_hash (settled_state k f fl fb lim tr sb l) = ld_hash l"
  by (simp_all add: settled_state_def)

lemma shard_wf_cong:
  assumes "shard_wf l i" and "shardIndex l' = shardIndex l"
    and "sh_order (ld_shards l' i) = sh_order (ld_shards l i)"
    and "sh_byKey (ld_shards l' i) = sh_byKey (ld_shards l i)"
  shows "shard_wf l' i"
  using assms by (simp add: shard_wf_def)

lemma rres_cong: "rcpt l' = rcpt l \<Longrightarrow> rres l' = rres l"
  by (simp add: rres_def [abs_def])

lemma pending_flight:
  assumes "ledger_inv l" and "pend l k = Some f"
  obtains fl r x where "flights l f = Some fl" "live_flight (subscriberPerFlight l) fl"
    "fl_reservation fl = Some r" "leases l f = Some x" "ls_key x = k" "view l k = Some fl"
    "rcpt l k = None"
proof -
  obtain x fl where x: "leases l f = Some x" "ls_key x = k" "flights l f = Some fl"
    "live_flight (subscriberPerFlight l) fl"
    using flights_wfD(1) [OF ledger_invD(2) [OF assms(1)] assms(2)] by blast
  obtain r where r: "fl_reservation fl = Some r" using live_flightD(2) [OF x(4)] by blast
  have v: "view l k = Some fl" using x assms(2) by (simp add: view_def)
  have "rres l k = None"
    using ownD(1) [OF resourcesD(1) [OF ledger_invD(3) [OF assms(1)]], of k r] v r by simp
  moreover have "rres l k \<noteq> None" if rc: "rcpt l k = Some rc" for rc
    using shard_wf_member(3) [OF ledger_invD(1) [OF assms(1)], of rc]
      shard_wf_receipt [OF ledger_invD(1) [OF assms(1)], of k rc] rc by (auto simp: rres_def)
  ultimately have "rcpt l k = None" by (cases "rcpt l k") auto
  then show thesis using that x r v by blast
qed

lemma abort_inv:
  assumes inv: "ledger_inv l" and k: "pend l k = Some f" and fl: "settled_flight fl'"
    and res: "resources ((view l)(k := None)) (rres l) fb lim (receiptCount l) tr
       (nextAdmissionSeq l) sb"
  shows "ledger_inv (settled_state k f fl' fb lim tr sb l)" (is "ledger_inv ?l")
proof (rule ledger_invI)
  show "shard_wf ?l i" for i by (rule shard_wf_cong [OF ledger_invD(1) [OF inv]]) simp_all
  show "flights_wf (pend ?l) (flights ?l) (leases ?l) (next_flight ?l) (subscriberPerFlight ?l)"
    using flights_wf_settle [OF ledger_invD(2) [OF inv] k fl] by simp
  have "view ?l = (view l)(k := None)"
    by (rule view_settle [OF ledger_invD(2) [OF inv] k]) simp_all
  moreover have "rres ?l = rres l" by (rule rres_cong) simp
  ultimately show "resources (view ?l) (rres ?l) (fairBudget ?l) (flightLimit ?l) (receiptCount ?l)
      (activeAdmissions ?l) (nextAdmissionSeq ?l) (subscriberBudget ?l)"
    using res by simp
qed

lemma shard_wf_push:
  assumes wf: "\<And>i. shard_wf l i" and k: "rcpt l (rc_key rc) = None"
    and rc: "rc_reservation rc = Some r" and i: "i = shardIndex l (rc_key rc)"
  shows "shard_wf (push_receipt i rc l) j"
proof (cases "j = i")
  case True
  have "\<forall>x\<in>set (sh_order (ld_shards l i)). rc_key x \<noteq> rc_key rc"
    using shard_wf_member(1) [OF wf, of _ i] k by fastforce
  then show ?thesis
    using wf [of i] rc True by (auto simp: shard_wf_def push_receipt_def Let_def i)
next
  case False
  then show ?thesis
    by (intro shard_wf_cong [OF wf]) (simp_all add: push_receipt_def Let_def)
qed

lemma complete_inv:
  assumes inv: "ledger_inv l" and k: "pend l k = Some f" and fl: "settled_flight fl'"
    and rc: "rc_key rc = k" "rc_reservation rc = Some r" and i: "i = shardIndex l k"
    and res: "resources ((view l)(k := None)) ((rres l)(k \<mapsto> r)) fb lim (receiptCount l + 1) tr
       (nextAdmissionSeq l) sb"
  shows "ledger_inv (settled_state k f fl' fb lim tr sb (push_receipt i rc l))" (is "ledger_inv ?l")
proof (rule ledger_invI)
  have nr: "rcpt l (rc_key rc) = None" using pending_flight [OF inv k] rc(1) by metis
  have p: "rcpt (push_receipt i rc l) = (rcpt l)(k \<mapsto> rc)"
    using rcpt_push_receipt [of i l rc] i rc(1) by simp
  show "shard_wf ?l j" for j
    using shard_wf_push [OF ledger_invD(1) [OF inv] nr rc(2), of i j] i rc(1)
    by (auto intro: shard_wf_cong)
  show "flights_wf (pend ?l) (flights ?l) (leases ?l) (next_flight ?l) (subscriberPerFlight ?l)"
    using flights_wf_settle [OF ledger_invD(2) [OF inv] k fl] by simp
  have "view ?l = (view l)(k := None)"
    by (rule view_settle [OF ledger_invD(2) [OF inv] k]) simp_all
  moreover have "rres ?l = (rres l)(k \<mapsto> r)"
    using rc(2) by (auto simp: rres_def [abs_def] p fun_eq_iff)
  ultimately show "resources (view ?l) (rres ?l) (fairBudget ?l) (flightLimit ?l) (receiptCount ?l)
      (activeAdmissions ?l) (nextAdmissionSeq ?l) (subscriberBudget ?l)"
    using res by simp
qed

lemma record_inv:
  assumes inv: "ledger_inv l" and k: "pend l k = None" "rcpt l k = None"
    and rs: "fair_reserve (fairBudget l) k False = (Some r, fb)"
    and rc: "rc_key rc = k" "rc_reservation rc = Some r" and i: "i = shardIndex l k"
  shows "ledger_inv (push_receipt i rc (l\<lparr>fairBudget := fb\<rparr>))" (is "ledger_inv ?l")
proof (rule ledger_invI)
  have p: "rcpt ?l = (rcpt l)(k \<mapsto> rc)"
    using rcpt_push_receipt [of i "l\<lparr>fairBudget := fb\<rparr>" rc] i rc(1) by simp
  have "shard_wf (l\<lparr>fairBudget := fb\<rparr>) j" for j
    by (rule shard_wf_cong [OF ledger_invD(1) [OF inv]]) simp_all
  then show "shard_wf ?l j" for j
    by (rule shard_wf_push [OF _ _ rc(2)]) (use k(2) rc(1) i in simp_all)
  show "flights_wf (pend ?l) (flights ?l) (leases ?l) (next_flight ?l) (subscriberPerFlight ?l)"
    using ledger_invD(2) [OF inv] by simp
  have "view ?l = view l" by (simp add: view_def [abs_def])
  moreover have "rres ?l = (rres l)(k \<mapsto> r)"
    using rc(2) by (auto simp: rres_def [abs_def] p fun_eq_iff)
  moreover have "view l k = None" "rres l k = None" using k by (simp_all add: view_def rres_def)
  ultimately show "resources (view ?l) (rres ?l) (fairBudget ?l) (flightLimit ?l) (receiptCount ?l)
      (activeAdmissions ?l) (nextAdmissionSeq ?l) (subscriberBudget ?l)"
    using resources_record [OF ledger_invD(3) [OF inv] _ _ rs] by simp
qed

lemma steady_settled:
  assumes fl: "flights l f = Some fl" "\<not> fl_done fl"
    and fr: "flights l' = (flights l)(f \<mapsto> finished enc fl)" and ls: "leases_kept (leases l) (leases l')"
    and tr: "nextAdmissionSeq l' = nextAdmissionSeq l"
      "stableSafeFloor (activeAdmissions l) (nextAdmissionSeq l) \<le>
         stableSafeFloor (activeAdmissions l') (nextAdmissionSeq l)"
  shows "steady l l'"
  unfolding steady_def fr using fl ls tr
  by (auto simp: stableAdmissionSafeFloor_def finished_def intro!: flights_kept_upd)

lemma steady_update:
  assumes "flights l f = Some fl" "\<not> fl_done fl" "fl_identity fl' = fl_identity fl"
    "fl_admissionSeq fl' = fl_admissionSeq fl"
  shows "steady l ((put_flight f fl' l)\<lparr>subscriberBudget := sb\<rparr>)"
  unfolding steady_def using assms
  by (auto simp: stableAdmissionSafeFloor_def intro!: flights_kept_upd)

end
