(* ===== verification/Ledger_Operations.thy ===== *)
theory Ledger_Operations
  imports Ledger_Settle
begin

text \<open>
  Every operation of the ledger keeps \<open>ledger_inv\<close> and returns: no budget, tracker, receipt-count or
  double-close panic is reachable from a state that satisfies the invariant.
\<close>

lemma completeFlight_eq:
  assumes p: "pend l key = Some f" and f: "flights l f = Some fl" and live: "live_flight n fl"
    and r: "fl_reservation fl = Some r" and fb: "fair_releasePending r (fairBudget l) = Some fb"
    and lim: "flight_release (flightLimit l) = Some lim"
    and tr: "retire (fl_admissionSeq fl) (activeAdmissions l) = Some tr"
    and sb: "(if fl_subscriberSlots fl = 0 then Some (subscriberBudget l)
              else sub_release (subscriberBudget l) key (fl_subscriberSlots fl)) = Some sb"
  shows "completeRPCResultFlightLocked key enc l =
    Some ((fl_subscribers fl, fl_executionSubscribers fl, fl_executionDone fl \<and> fl_executionOK fl),
      settled_state key f (finished (Some enc) fl) fb lim tr sb l)"
proof -
  let ?ok = "if fl_executionDone fl then fl_executionOK fl else False"
  let ?fl = "fl\<lparr>fl_reservation := None, fl_encoded := Some enc, fl_ok := True,
                fl_subscribers := [], fl_executionSubscribers := [],
                fl_executionDone := True, fl_executionOK := ?ok\<rparr>"
  let ?l1 = "(put_flight f ?fl (put_pending key None l))
                \<lparr>fairBudget := fb, flightLimit := lim, activeAdmissions := tr\<rparr>"
  have "do { l2 \<leftarrow> releaseFlightSubscriberSlotsLocked key f
             (int (length (fl_subscribers fl) + length (fl_executionSubscribers fl))) ?l1;
           close_done f l2 } = Some (settled_state key f (finished (Some enc) fl) fb lim tr sb l)"
    by (rule take_out_eq [OF f live _ sb refl]) simp
  then obtain l2 where "releaseFlightSubscriberSlotsLocked key f
      (int (length (fl_subscribers fl) + length (fl_executionSubscribers fl))) ?l1 = Some l2"
    "close_done f l2 = Some (settled_state key f (finished (Some enc) fl) fb lim tr sb l)" by blast
  then show ?thesis
    using p f r fb lim tr by (simp add: completeRPCResultFlightLocked_def Let_def)
qed

lemma lease_inv:
  assumes inv: "ledger_inv l" and ls: "leases l f = Some ls" "ls_key ls' = ls_key ls"
  shows "ledger_inv (l\<lparr>leases := (leases l)(f \<mapsto> ls')\<rparr>)" (is "ledger_inv ?l")
proof (rule ledger_invI)
  show "shard_wf ?l j" for j by (rule shard_wf_cong [OF ledger_invD(1) [OF inv]]) simp_all
  have "view ?l = view l" "rres ?l = rres l" by (simp_all add: view_def [abs_def] rres_def [abs_def])
  then show "resources (view ?l) (rres ?l) (fairBudget ?l) (flightLimit ?l) (receiptCount ?l)
    (activeAdmissions ?l) (nextAdmissionSeq ?l) (subscriberBudget ?l)"
    using ledger_invD(3) [OF inv] by simp
  show "flights_wf (pend ?l) (flights ?l) (leases ?l) (next_flight ?l) (subscriberPerFlight ?l)"
    using flights_wf_lease [OF ledger_invD(2) [OF inv] ls] by simp
qed

lemma flight_inv_update:
  assumes inv: "ledger_inv l" and p: "pend l k = Some f" and f: "flights l f = Some fl"
    and live: "live_flight (subscriberPerFlight l) fl'"
    and same: "fl_reservation fl' = fl_reservation fl" "fl_admissionSeq fl' = fl_admissionSeq fl"
    and sl: "slots_ok ((slot_map (view l))(k := fl_subscriberSlots fl')) sb"
  shows "ledger_inv ((put_flight f fl' l)\<lparr>subscriberBudget := sb\<rparr>)" (is "ledger_inv ?l")
proof (rule ledger_invI)
  have v: "view l k = Some fl" using p f by (simp add: view_def)
  show "shard_wf ?l j" for j by (rule shard_wf_cong [OF ledger_invD(1) [OF inv]]) simp_all
  have "view ?l = (view l)(k \<mapsto> fl')"
    by (rule view_update [OF ledger_invD(2) [OF inv] p]) simp_all
  moreover have "rres ?l = rres l" by (simp add: rres_def [abs_def])
  ultimately show "resources (view ?l) (rres ?l) (fairBudget ?l) (flightLimit ?l) (receiptCount ?l)
    (activeAdmissions ?l) (nextAdmissionSeq ?l) (subscriberBudget ?l)"
    using resources_update [OF ledger_invD(3) [OF inv] v same sl] by simp
  show "flights_wf (pend ?l) (flights ?l) (leases ?l) (next_flight ?l) (subscriberPerFlight ?l)"
    using flights_wf_update [OF ledger_invD(2) [OF inv] p live] by simp
qed

lemma slot_map_same:
  "V k = Some fl \<Longrightarrow> (slot_map V)(k := fl_subscriberSlots fl) = slot_map V"
  by (simp add: fun_eq_iff)

lemma flight_inv_note:
  assumes inv: "ledger_inv l" and p: "pend l k = Some f" and f: "flights l f = Some fl"
    and live: "live_flight (subscriberPerFlight l) fl'"
    and same: "fl_reservation fl' = fl_reservation fl" "fl_admissionSeq fl' = fl_admissionSeq fl"
      "fl_subscriberSlots fl' = fl_subscriberSlots fl"
  shows "ledger_inv (put_flight f fl' l)"
proof -
  have "view l k = Some fl" using p f by (simp add: view_def)
  then have "slots_ok ((slot_map (view l))(k := fl_subscriberSlots fl')) (subscriberBudget l)"
    using resourcesD(5) [OF ledger_invD(3) [OF inv]] slot_map_same [of "view l" k fl] same(3) by simp
  from flight_inv_update [OF inv p f live same(1,2) this] show ?thesis by (simp add: put_flight_def)
qed

lemma Abort_ok:
  assumes inv: "ledger_inv l" and ls: "leases l f = Some ls"
  shows "\<exists>b evs l'. Abort f l = Some ((b, evs), l') \<and> ledger_inv l' \<and>
    b = (owns f ls l \<and> \<not> ls_handedOff ls) \<and> (\<not> b \<longrightarrow> l' = l \<and> evs = []) \<and>
    (b \<longrightarrow> pend l' = (pend l)(ls_key ls := None) \<and> rcpt l' = rcpt l) \<and> steady l l' \<and>
    (b \<longrightarrow> (\<exists>fl. flights l f = Some fl \<and> flights l' = (flights l)(f \<mapsto> finished None fl) \<and>
       evs = (case ls_abortHook ls of None \<Rightarrow> [] | Some h \<Rightarrow> [HookCallback h]) @
         map (\<lambda>c. ResultCallback c None False) (fl_subscribers fl) @
         map (\<lambda>c. ExecutionCallback c False) (fl_executionSubscribers fl)))"
proof (cases "owns f ls l \<and> \<not> ls_handedOff ls")
  case False
  then have "Abort f l = Some ((False, []), l)" using ls by (auto simp: Abort_def)
  then show ?thesis using False inv quiet_steady [OF quiet_refl] by auto
next
  case True
  let ?k = "ls_key ls"
  have p: "pend l ?k = Some f" using True by (simp add: owns_def)
  obtain fl r where fl: "flights l f = Some fl" "live_flight (subscriberPerFlight l) fl"
    "fl_reservation fl = Some r" "view l ?k = Some fl" using pending_flight [OF inv p] by metis
  obtain fb lim tr sb where t: "fair_release r (fairBudget l) = Some fb"
    "flight_release (flightLimit l) = Some lim"
    "retire (fl_admissionSeq fl) (activeAdmissions l) = Some tr"
    "(if fl_subscriberSlots fl = 0 then Some (subscriberBudget l)
      else sub_release (subscriberBudget l) ?k (fl_subscriberSlots fl)) = Some sb"
    "resources ((view l)(?k := None)) (rres l) fb lim (receiptCount l) tr (nextAdmissionSeq l) sb"
    "stableSafeFloor (activeAdmissions l) (nextAdmissionSeq l) \<le> stableSafeFloor tr (nextAdmissionSeq l)"
    using resources_abort [OF ledger_invD(3) [OF inv] fl(4,3)] by blast
  let ?fl = "fl\<lparr>fl_reservation := None, fl_subscribers := [], fl_executionSubscribers := [],
                fl_executionDone := True,
                fl_executionOK := (if fl_executionDone fl then fl_executionOK fl else False)\<rparr>"
  let ?l1 = "(put_flight f ?fl (put_pending ?k None l))
                \<lparr>fairBudget := fb, flightLimit := lim, activeAdmissions := tr\<rparr>"
  let ?s = "settled_state ?k f (finished None fl) fb lim tr sb l"
  have "do { l2 \<leftarrow> releaseFlightSubscriberSlotsLocked ?k f
             (int (length (fl_subscribers fl) + length (fl_executionSubscribers fl))) ?l1;
           close_done f l2 } = Some ?s"
    by (rule take_out_eq [OF fl(1,2) _ t(4) refl]) simp
  then obtain l2 where l2: "releaseFlightSubscriberSlotsLocked ?k f
      (int (length (fl_subscribers fl) + length (fl_executionSubscribers fl))) ?l1 = Some l2"
    "close_done f l2 = Some ?s" by blast
  let ?l' = "?s\<lparr>leases := (leases l)(f \<mapsto> ls\<lparr>ls_abortHook := None\<rparr>)\<rparr>"
  let ?evs = "(case ls_abortHook ls of None \<Rightarrow> [] | Some h \<Rightarrow> [HookCallback h]) @
    map (\<lambda>c. ResultCallback c None False) (fl_subscribers fl) @
    map (\<lambda>c. ExecutionCallback c False) (fl_executionSubscribers fl)"
  have A: "Abort f l = Some ((True, ?evs), ?l')"
    using ls True fl(1,3) t(1-3) l2 by (simp add: Abort_def Let_def)
  note i = abort_inv [OF inv p settled_finished t(5), of None fl]
  have "ledger_inv ?l'" using lease_inv [OF i, of f ls] ls by simp
  moreover have "steady l ?l'"
    by (rule steady_settled [OF fl(1) live_flightD(1) [OF fl(2)]])
      (use t(6) ls in \<open>auto intro: leases_kept_upd\<close>)
  ultimately show ?thesis using A True fl(1) by auto
qed

lemma HandOff_ok:
  assumes inv: "ledger_inv l" and ls: "leases l f = Some ls"
  shows "\<exists>l'. HandOff f l = Some (owns f ls l, l') \<and> ledger_inv l' \<and> pend l' = pend l \<and>
    rcpt l' = rcpt l \<and> flights l' = flights l \<and>
    leases l' = (if owns f ls l then (leases l)(f \<mapsto> ls\<lparr>ls_handedOff := True\<rparr>) else leases l) \<and> steady l l'"
  using lease_inv [OF inv ls, of "ls\<lparr>ls_handedOff := True\<rparr>"] inv ls
  by (auto simp: HandOff_def steady_def stableAdmissionSafeFloor_def intro: leases_kept_upd)

lemma InstallAbortHook_ok:
  assumes inv: "ledger_inv l" and ls: "leases l f = Some ls"
  shows "\<exists>l'. InstallAbortHook f h l = Some (owns f ls l, l') \<and> ledger_inv l' \<and> pend l' = pend l \<and>
    rcpt l' = rcpt l \<and> flights l' = flights l \<and> steady l l'"
  using lease_inv [OF inv ls, of "ls\<lparr>ls_abortHook := Some h\<rparr>"] inv ls
  by (auto simp: InstallAbortHook_def steady_def stableAdmissionSafeFloor_def intro: leases_kept_upd)

lemma SetAbortHook_ok:
  assumes inv: "ledger_inv l" and ls: "leases l f = Some ls"
  shows "\<exists>l'. SetAbortHook f h l = Some l' \<and> ledger_inv l' \<and> pend l' = pend l \<and>
    rcpt l' = rcpt l \<and> flights l' = flights l \<and> steady l l'"
  using lease_inv [OF inv ls, of "ls\<lparr>ls_abortHook := h\<rparr>"] ls
  by (auto simp: SetAbortHook_def steady_def stableAdmissionSafeFloor_def intro: leases_kept_upd)

lemma releaseSlots_part:
  assumes "flights l f = Some fl" and "0 < n" and "n \<le> fl_subscriberSlots fl"
    and "sub_release (subscriberBudget l) key n = Some sb"
  shows "releaseFlightSubscriberSlotsLocked key f n l =
    Some ((put_flight f (fl\<lparr>fl_subscriberSlots := fl_subscriberSlots fl - n\<rparr>) l)\<lparr>subscriberBudget := sb\<rparr>)"
  using assms by (simp add: releaseFlightSubscriberSlotsLocked_def)

lemma CompleteExecution_ok:
  assumes inv: "ledger_inv l" and ls: "leases l f = Some ls"
  shows "\<exists>b evs l' fl. CompleteExecution f ok l = Some ((b, evs), l') \<and> ledger_inv l' \<and>
    flights l f = Some fl \<and> b = (owns f ls l \<and> \<not> fl_executionDone fl) \<and> (\<not> b \<longrightarrow> l' = l \<and> evs = []) \<and>
    pend l' = pend l \<and> rcpt l' = rcpt l \<and> steady l l' \<and>
    (b \<longrightarrow> evs = map (\<lambda>c. ExecutionCallback c ok) (fl_executionSubscribers fl))"
proof -
  obtain fl where fl: "flights l f = Some fl"
    using flights_wfD(3,4) [OF ledger_invD(2) [OF inv], of f] ls by auto
  show ?thesis
  proof (cases "owns f ls l \<and> \<not> fl_executionDone fl")
    case False
    then show ?thesis using ls fl inv quiet_steady [OF quiet_refl] by (auto simp: CompleteExecution_def)
  next
    case True
    let ?k = "ls_key ls" and ?n = "int (length (fl_executionSubscribers fl))"
    let ?fl = "fl\<lparr>fl_executionDone := True, fl_executionOK := ok, fl_executionSubscribers := []\<rparr>"
    let ?fl' = "?fl\<lparr>fl_subscriberSlots := fl_subscriberSlots fl - ?n\<rparr>"
    have p: "pend l ?k = Some f" using True by (simp add: owns_def)
    have live: "live_flight (subscriberPerFlight l) fl" using pending_flight [OF inv p] fl by auto
    have v: "view l ?k = Some fl" using p fl by (simp add: view_def)
    have live': "live_flight (subscriberPerFlight l) ?fl'" using live by (auto simp: live_flight_def)
    note S = resourcesD(5) [OF ledger_invD(3) [OF inv]]
    obtain sb where sb: "(if ?n = 0 then Some (subscriberBudget l) else sub_release (subscriberBudget l) ?k ?n) = Some sb"
      "slots_ok ((slot_map (view l))(?k := fl_subscriberSlots fl - ?n)) sb"
    proof (cases "?n = 0")
      case True
      then show thesis using that [of "subscriberBudget l"] S slot_map_same [of "view l" ?k fl] v by simp
    next
      case False
      have "?n \<le> slot_map (view l) ?k" using live v by (simp add: live_flight_def)
      from slots_release [OF S _ this] False obtain b where
        "sub_release (subscriberBudget l) ?k ?n = Some b"
        "slots_ok ((slot_map (view l))(?k := slot_map (view l) ?k - ?n)) b" by auto
      then show thesis using that [of b] False v by simp
    qed
    let ?l' = "(put_flight f ?fl' l)\<lparr>subscriberBudget := sb\<rparr>"
    have "releaseFlightSubscriberSlotsLocked ?k f ?n (put_flight f ?fl l) = Some ?l'"
    proof (cases "?n = 0")
      case True
      then show ?thesis using sb(1) by (simp add: releaseFlightSubscriberSlotsLocked_def put_flight_def)
    next
      case False
      have "releaseFlightSubscriberSlotsLocked ?k f ?n (put_flight f ?fl l) =
        Some ((put_flight f (?fl\<lparr>fl_subscriberSlots := fl_subscriberSlots ?fl - ?n\<rparr>) (put_flight f ?fl l))
          \<lparr>subscriberBudget := sb\<rparr>)"
        by (rule releaseSlots_part) (use False live sb(1) in \<open>auto simp: live_flight_def\<close>)
      then show ?thesis by (simp add: put_flight_def)
    qed
    moreover have "ledger_inv ?l'"
      by (rule flight_inv_update [OF inv p fl live']) (use sb(2) in simp_all)
    moreover have "steady l ?l'"
      by (rule steady_update [OF fl live_flightD(1) [OF live]]) simp_all
    ultimately show ?thesis using True ls fl by (auto simp: CompleteExecution_def Let_def)
  qed
qed

subsection \<open>Complete\<close>

lemma completeOnce_pending:
  assumes inv: "ledger_inv l" and e: "expireLocked (shardIndex l key) now l = Some l1"
    and i1: "ledger_inv l1" and q: "quiet l l1" and p: "pend l1 key = Some f"
  shows "\<exists>evs l' fl rc. completeOnce now key enc rp l = Some ((True, evs), l') \<and> ledger_inv l' \<and>
    pend l' = (pend l)(key := None) \<and> flights l f = Some fl \<and>
    flights l' = (flights l)(f \<mapsto> finished (Some enc) fl) \<and> leases l' = leases l \<and>
    rc_key rc = key \<and> rc_expiresAt rc = now + rpcExecutionReceiptTTL \<and>
    rc_identity rc = fl_identity fl \<and> rc_unavailable rc = (\<not> rp) \<and> rc_acknowledged rc = False \<and>
    rcpt l' = (rcpt l1)(key := (if fl_acknowledged fl then None else Some rc)) \<and> steady l l' \<and>
    evs = map (\<lambda>c. ResultCallback c (Some enc) True) (fl_subscribers fl) @
      map (\<lambda>c. ExecutionCallback c (fl_executionDone fl \<and> fl_executionOK fl)) (fl_executionSubscribers fl)"
proof -
  let ?i = "shardIndex l1 key"
  obtain fl r where fl: "flights l1 f = Some fl" "live_flight (subscriberPerFlight l1) fl"
    "fl_reservation fl = Some r" "view l1 key = Some fl" "rcpt l1 key = None"
    using pending_flight [OF i1 p] by metis
  obtain fb lim tr sb where t: "fair_releasePending r (fairBudget l1) = Some fb"
    "flight_release (flightLimit l1) = Some lim"
    "retire (fl_admissionSeq fl) (activeAdmissions l1) = Some tr"
    "(if fl_subscriberSlots fl = 0 then Some (subscriberBudget l1)
      else sub_release (subscriberBudget l1) key (fl_subscriberSlots fl)) = Some sb"
    "resources ((view l1)(key := None)) ((rres l1)(key \<mapsto> r)) fb lim (receiptCount l1 + 1) tr
      (nextAdmissionSeq l1) sb"
    "stableSafeFloor (activeAdmissions l1) (nextAdmissionSeq l1) \<le> stableSafeFloor tr (nextAdmissionSeq l1)"
    using resources_settle [OF ledger_invD(3) [OF i1] fl(4,3)] by blast
  define rc where "rc = \<lparr>rc_key = key, rc_expiresAt = now + rpcExecutionReceiptTTL,
     rc_identity = fl_identity fl, rc_admissionSeq = fl_admissionSeq fl,
     rc_executionKnown = fl_executionDone fl, rc_executionOK = fl_executionOK fl,
     rc_acknowledged = fl_acknowledged fl, rc_unavailable = \<not> rp, rc_reservation = Some r\<rparr>"
  let ?s = "settled_state key f (finished (Some enc) fl) fb lim tr sb (push_receipt ?i rc l1)"
  let ?evs = "map (\<lambda>c. ResultCallback c (Some enc) True) (fl_subscribers fl) @
      map (\<lambda>c. ExecutionCallback c (fl_executionDone fl \<and> fl_executionOK fl)) (fl_executionSubscribers fl)"
  have rc: "rc_key rc = key" "rc_reservation rc = Some r" by (simp_all add: rc_def)
  note ci = complete_inv [OF i1 p settled_finished rc refl t(5), of "Some enc" fl]
  have cf: "completeRPCResultFlightLocked key enc (push_receipt ?i rc l1) =
    Some ((fl_subscribers fl, fl_executionSubscribers fl, fl_executionDone fl \<and> fl_executionOK fl), ?s)"
    by (rule completeFlight_eq [OF _ _ fl(2,3)]) (use p fl(1) t(1-4) in \<open>simp_all split: if_splits\<close>)
  have C: "completeOnce now key enc rp l =
      do { l5 \<leftarrow> (if fl_acknowledged fl then removeElement ?i rc ?s else Some ?s);
           Some ((True, ?evs), l5) }"
    using cf p fl by (simp add: completeOnce_def e Let_def rpcResultFlightMetadataLocked_def
        completion_reservation_def unlink_old_def rc_def)
  have rs: "rcpt ?s = (rcpt l1)(key \<mapsto> rc)" using rcpt_push_receipt [of ?i l1 rc] rc(1) by simp
  have mem: "rc \<in> set (sh_order (ld_shards ?s ?i))" by (simp add: push_receipt_def Let_def)
  obtain l' where l': "(if fl_acknowledged fl then removeElement ?i rc ?s else Some ?s) = Some l'"
    "ledger_inv l'" "quiet ?s l'"
    "rcpt l' = (rcpt l1)(key := (if fl_acknowledged fl then None else Some rc))"
    using removeElement_ok [OF ci mem] ci rs rc(1) by (cases "fl_acknowledged fl") auto
  define rc' where "rc' = rc\<lparr>rc_acknowledged := False\<rparr>"
  have "rc' = rc" if "\<not> fl_acknowledged fl" using that by (simp add: rc'_def rc_def)
  then have "rcpt l' = (rcpt l1)(key := (if fl_acknowledged fl then None else Some rc'))"
    using l'(4) by auto
  moreover have "rc_key rc' = key" "rc_expiresAt rc' = now + rpcExecutionReceiptTTL"
    "rc_identity rc' = fl_identity fl" "rc_unavailable rc' = (\<not> rp)" "\<not> rc_acknowledged rc'"
    by (simp_all add: rc'_def rc_def)
  moreover have "pend l' = (pend l)(key := None)" "flights l' = (flights l)(f \<mapsto> finished (Some enc) fl)"
    "leases l' = leases l" "flights l f = Some fl"
    using quietD(2-4) [OF l'(3)] quietD(2-4) [OF q] fl(1) by simp_all
  moreover have "steady l1 ?s"
    by (rule steady_settled [OF fl(1) live_flightD(1) [OF fl(2)]]) (use t(6) in simp_all)
  then have "steady l l'"
    using steady_trans [OF quiet_steady [OF q]] steady_trans quiet_steady [OF l'(3)] by blast
  ultimately show ?thesis using C l'(1,2) by auto
qed

lemma completeOnce_ok:
  assumes inv: "ledger_inv l"
  shows "\<exists>b evs l'. completeOnce now key enc rp l = Some ((b, evs), l') \<and> ledger_inv l' \<and>
    pend l' = (pend l)(key := None) \<and> (b \<longrightarrow> pend l' key = None) \<and> (\<not> b \<longrightarrow> evs = []) \<and>
    survives {now} l l' \<and> steady l l'"
proof -
  obtain l1 where e: "expireLocked (shardIndex l key) now l = Some l1"
    and sw: "swept (\<lambda>rc. rc_expiresAt rc \<le> now) l l1" using expireLocked_ok [OF inv] by blast
  note i1 = swept_inv [OF sw] and q = swept_quiet [OF sw]
  note st = quiet_steady [OF q]
  have sv: "survives {now} l l1" using swept_survives [OF sw, of "{now}"] by simp
  show ?thesis
  proof (cases "pend l1 key")
    case (Some f)
    obtain evs l' x where c: "completeOnce now key enc rp l = Some ((True, evs), l')" "ledger_inv l'"
      "pend l' = (pend l)(key := None)" "rcpt l' = (rcpt l1)(key := x)" "steady l l'"
      using completeOnce_pending [OF inv e i1 q Some, of enc rp] by metis
    have "rcpt l1 key = None" using pending_flight [OF i1 Some] by metis
    then have "survives {now} l l'" using sv c(4) by (fastforce simp: survives_def)
    then show ?thesis using c by auto
  next
    case None
    then have pn: "pend l key = None" using quietD(2) [OF q] by simp
    then have pu: "(pend l)(key := None) = pend l" by auto
    show ?thesis
    proof (cases "rcpt l1 key")
      case (Some rc)
      then have "completeOnce now key enc rp l = Some ((True, []), l1)"
        using None by (simp add: completeOnce_def e Let_def)
      then show ?thesis using i1 pn pu quietD(2) [OF q] sv st by auto
    next
      case rn: None
      obtain x fb where x: "fair_reserve (fairBudget l1) key False = (x, fb)" by fastforce
      show ?thesis
      proof (cases x)
        case xn: None
        have "completeOnce now key enc rp l = Some ((False, []), l1)"
          using None rn x xn by (simp add: completeOnce_def e Let_def rpcResultFlightMetadataLocked_def
              completion_reservation_def fair_reserveCompleted_def)
        then show ?thesis using i1 pn pu quietD(2) [OF q] sv st by auto
      next
        case (Some r)
        let ?rc = "\<lparr>rc_key = key, rc_expiresAt = now + rpcExecutionReceiptTTL,
          rc_identity = no_identity, rc_admissionSeq = 0, rc_executionKnown = False,
          rc_executionOK = False, rc_acknowledged = False, rc_unavailable = \<not> rp, rc_reservation = Some r\<rparr>"
        let ?l' = "push_receipt (shardIndex l1 key) ?rc (l1\<lparr>fairBudget := fb\<rparr>)"
        have "completeOnce now key enc rp l = Some ((True, []), ?l')"
          using None rn x Some by (simp add: completeOnce_def e Let_def rpcResultFlightMetadataLocked_def
              completion_reservation_def fair_reserveCompleted_def unlink_old_def
              completeRPCResultFlightLocked_def)
        moreover have "ledger_inv ?l'"
          by (rule record_inv [OF i1 None rn]) (use x Some in simp_all)
        moreover have "rcpt ?l' = (rcpt l1)(key \<mapsto> ?rc)" by (subst rcpt_push_receipt) simp_all
        then have "survives {now} l ?l'" using sv rn by (fastforce simp: survives_def)
        moreover have "steady l1 ?l'" by (simp add: steady_def stableAdmissionSafeFloor_def)
        then have "steady l ?l'" by (rule steady_trans [OF st])
        ultimately show ?thesis using pn pu quietD(2) [OF q] by auto
      qed
    qed
  qed
qed

lemma Complete_ok:
  assumes inv: "ledger_inv l"
  shows "\<exists>evs l'. Complete rs now clk now' key enc rp l = Some (evs, l') \<and> ledger_inv l' \<and>
    (ek_req key \<noteq> 0 \<longrightarrow> pend l' = (pend l)(key := None)) \<and> (ek_req key = 0 \<longrightarrow> l' = l) \<and>
    survives ({now, now'} \<union> clk ` {..<16}) l l' \<and> steady l l'"
proof (cases "ek_req key = 0")
  case True
  then show ?thesis using inv quiet_steady [OF quiet_refl] by (simp add: Complete_def)
next
  case False
  let ?rp = "rp \<and> rs key \<noteq> None"
  obtain b evs l1 where c1: "completeOnce now key enc ?rp l = Some ((b, evs), l1)" "ledger_inv l1"
    "pend l1 = (pend l)(key := None)" "survives {now} l l1" "steady l l1" using completeOnce_ok [OF inv] by blast
  obtain l2 where e2: "expireReceipts clk l1 = Some l2"
    "swept (\<lambda>rc. \<exists>i<16. rc_expiresAt rc \<le> clk i) l1 l2" using expireReceipts_ok [OF c1(2)] by blast
  obtain b' evs' l3 where c3: "completeOnce now' key enc ?rp l2 = Some ((b', evs'), l3)" "ledger_inv l3"
    "pend l3 = (pend l2)(key := None)" "survives {now'} l2 l3" "steady l2 l3" using completeOnce_ok [OF swept_inv [OF e2(2)]] by blast
  let ?T = "{now, now'} \<union> clk ` {..<16}"
  have s1: "survives ?T l l1" by (rule survives_mono [OF c1(4)]) simp
  have "survives ?T l1 l2" by (rule swept_survives [OF e2(2)]) auto
  then have "survives ?T l l3"
    using survives_trans [OF s1] survives_trans survives_mono [OF c3(4), of ?T] by blast
  moreover have "steady l l3"
    using steady_trans [OF c1(5) steady_trans [OF quiet_steady [OF swept_quiet [OF e2(2)]] c3(5)]] .
  ultimately show ?thesis
    using False s1 c1 e2(1) c3 quietD(2) [OF swept_quiet [OF e2(2)]]
    by (cases b) (simp_all add: Complete_def Let_def)
qed

subsection \<open>Claims\<close>

lemma flight_limit_round_trip:
  assumes "flight_reserve lim = (True, lim1)"
  shows "flight_release lim1 = Some lim"
  using flight_reserve_Some [OF assms] flight_release_Some [of lim1] by simp

lemma rres_frame: "rcpt l' = rcpt l \<Longrightarrow> rres l' = rres l"
  by (simp add: rres_def [abs_def])

lemma view_frame: "pend l' = pend l \<Longrightarrow> flights l' = flights l \<Longrightarrow> view l' = view l"
  by (simp add: view_def [abs_def])

lemma install_inv:
  assumes inv: "ledger_inv l" and k: "pend l key = None" "rcpt l key = None"
    and rs: "fair_reserve (fairBudget l) key True = (Some r, fb)"
    and lim: "flight_reserve (flightLimit l) = (True, lim)"
    and adm: "admits ((admission_map (view l))(key \<mapsto> sq)) tr nxt"
    and ins: "install_owner key ident sq r
       (l\<lparr>flightLimit := lim, fairBudget := fb, activeAdmissions := tr, nextAdmissionSeq := nxt\<rparr>) = (f, l')"
  shows "ledger_inv l' \<and> f = next_flight l \<and> pend l' = (pend l)(key \<mapsto> f) \<and> rcpt l' = rcpt l \<and>
    flights l' = (flights l)(f \<mapsto> new_flight ident sq r) \<and>
    leases l' = (leases l)(f \<mapsto> \<lparr>ls_key = key, ls_handedOff = False, ls_abortHook = None\<rparr>) \<and>
    nextAdmissionSeq l' = nxt \<and> activeAdmissions l' = tr"
proof -
  let ?x = "\<lparr>ls_key = key, ls_handedOff = False, ls_abortHook = None\<rparr>"
  have f: "f = next_flight l" and l': "l' = (put_pending key (Some f) (put_flight f (new_flight ident sq r)
       (l\<lparr>flightLimit := lim, fairBudget := fb, activeAdmissions := tr, nextAdmissionSeq := nxt\<rparr>)))
     \<lparr>next_flight := f + 1, leases := (leases l)(f \<mapsto> ?x)\<rparr>"
    using ins by (auto simp: install_owner_def Let_def)
  have p: "pend l' = (pend l)(key \<mapsto> f)" and rc: "rcpt l' = rcpt l"
    and fl: "flights l' = (flights l)(f \<mapsto> new_flight ident sq r)" by (simp_all add: l')
  have "ledger_inv l'"
  proof (rule ledger_invI)
    show "shard_wf l' i" for i
      by (rule shard_wf_cong [OF ledger_invD(1) [OF inv]]) (simp_all add: l')
    have "live_flight (subscriberPerFlight l) (new_flight ident sq r)"
      by (simp add: live_flight_def new_flight_def)
    from flights_wf_install [OF ledger_invD(2) [OF inv] k(1) _ this, of ?x]
    show "flights_wf (pend l') (flights l') (leases l') (next_flight l') (subscriberPerFlight l')"
      by (simp add: l' f)
    have "view l' = (view l)(key \<mapsto> new_flight ident sq r)"
      by (rule view_install [OF ledger_invD(2) [OF inv]]) (simp_all add: p fl f)
    moreover have "view l key = None" "rres l key = None" using k by (simp_all add: view_def rres_def)
    ultimately show "resources (view l') (rres l') (fairBudget l') (flightLimit l') (receiptCount l')
        (activeAdmissions l') (nextAdmissionSeq l') (subscriberBudget l')"
      using resources_claim [OF ledger_invD(3) [OF inv] _ _ rs lim adm] rres_frame [OF rc] by (simp add: l')
  qed
  then show ?thesis using f p rc fl by (simp add: l')
qed

lemma budget_inv:
  assumes inv: "ledger_inv l" and "fair_inv fb"
    and "own (reservation_map (view l)) (rres l) (reservations fb) (fl_used (flightLimit l)) (receiptCount l)"
  shows "ledger_inv (l\<lparr>fairBudget := fb\<rparr>)" (is "ledger_inv ?l")
proof (rule ledger_invI)
  show "shard_wf ?l i" for i by (rule shard_wf_cong [OF ledger_invD(1) [OF inv]]) simp_all
  show "flights_wf (pend ?l) (flights ?l) (leases ?l) (next_flight ?l) (subscriberPerFlight ?l)"
    using ledger_invD(2) [OF inv] by simp
  show "resources (view ?l) (rres ?l) (fairBudget ?l) (flightLimit ?l) (receiptCount ?l)
      (activeAdmissions ?l) (nextAdmissionSeq ?l) (subscriberBudget ?l)"
    using assms(2,3) ledger_invD(3) [OF inv] view_frame [of ?l l] rres_frame [of ?l l]
    by (simp add: resources_def)
qed

lemma claim_owner_ok:
  assumes inv: "ledger_inv l" and k: "pend l key = None" "rcpt l key = None"
  shows "\<exists>res l'. claim_owner key ident l = Some (res, l') \<and> ledger_inv l' \<and> rcpt l' = rcpt l \<and>
    (case res of
       Settled (Inr (AcquireOwner sq f)) \<Rightarrow> f = next_flight l \<and> pend l' = (pend l)(key \<mapsto> f) \<and>
         (\<exists>r. flights l' = (flights l)(f \<mapsto> new_flight ident sq r)) \<and>
         leases l' = (leases l)(f \<mapsto> \<lparr>ls_key = key, ls_handedOff = False, ls_abortHook = None\<rparr>) \<and>
         (if id_valid ident then sq = nextAdmissionSeq l + 1 \<and> nextAdmissionSeq l < sq else sq = 0) \<and>
         stableAdmissionSafeFloor l \<le> stableAdmissionSafeFloor l'
     | Settled (Inr _) \<Rightarrow> False
     | Settled (Inl e) \<Rightarrow> e \<in> {ErrRPCResultFlightCapacity, ErrRPCAdmissionSeqExhausted} \<and> quiet l l'
     | NeedsReap \<Rightarrow> l' = l)"
proof -
  obtain ok lim where lim: "flight_reserve (flightLimit l) = (ok, lim)" by fastforce
  obtain x fb where x: "fair_reserve (fairBudget l) key True = (x, fb)" by fastforce
  note A = resourcesD(4) [OF ledger_invD(3) [OF inv]]
  have vk: "admission_map (view l) key = None" using k(1) by (simp add: view_def)
  show ?thesis
  proof (cases ok)
    case False
    then show ?thesis using lim inv by (simp add: claim_owner_def)
  next
    case True
    have lim': "flight_reserve (flightLimit l) = (True, lim)" using lim True by simp
    show ?thesis
    proof (cases x)
      case None
      then show ?thesis
        using lim' x inv flight_limit_round_trip [OF lim'] by (simp add: claim_owner_def fair_reserveOwner_def)
    next
      case (Some r)
      note x' = x [unfolded Some]
      show ?thesis
      proof (cases "id_valid ident")
        case False
        obtain f l' where ins: "install_owner key ident 0 r (l\<lparr>flightLimit := lim, fairBudget := fb\<rparr>) = (f, l')"
          by fastforce
        then have ins': "install_owner key ident 0 r (l\<lparr>flightLimit := lim, fairBudget := fb,
            activeAdmissions := activeAdmissions l, nextAdmissionSeq := nextAdmissionSeq l\<rparr>) = (f, l')" by simp
        note i = install_inv [OF inv k x' lim' admits_zero [OF A vk] ins']
        then show ?thesis using lim' x' False ins
          by (auto simp: claim_owner_def fair_reserveOwner_def Let_def stableAdmissionSafeFloor_def)
      next
        case valid: True
        show ?thesis
        proof (cases "allocateAndRegister (activeAdmissions l) (nextAdmissionSeq l)")
          case (Inl e)
          note n = fair_reserve_new [OF resourcesD(2) [OF ledger_invD(3) [OF inv]] x']
          obtain fb' where fb': "fair_release r fb = Some fb'" "fair_inv fb'"
            "reservations fb' = (reservations fb)(r \<mapsto> resv key False True)"
            using fair.release_live [of fb r "resv key True False"] n by auto
          have "ledger_inv (l\<lparr>fairBudget := fb'\<rparr>)"
            using budget_inv [OF inv fb'(2)] own_discard [OF resourcesD(1) [OF ledger_invD(3) [OF inv]], of r key] n
            by (simp add: fb'(3))
          then show ?thesis
            using lim' x' valid Inl fb'(1) flight_limit_round_trip [OF lim']
            by (simp add: claim_owner_def fair_reserveOwner_def Let_def quiet_def)
        next
          case (Inr y)
          obtain sq tr where y: "y = (sq, tr)" by fastforce
          note al = Inr [unfolded y]
          have a: "sq = nextAdmissionSeq l + 1" "nextAdmissionSeq l < sq"
            using allocate_ok [OF admitsD(1) [OF A] al] by auto
          note fl = floor_allocate_mono [OF admitsD(1) [OF A] al]
          obtain f l' where ins: "install_owner key ident sq r
              (l\<lparr>flightLimit := lim, fairBudget := fb, activeAdmissions := tr, nextAdmissionSeq := sq\<rparr>) = (f, l')"
            by fastforce
          note i = install_inv [OF inv k x' lim' admits_allocate [OF A vk al] ins]
          then show ?thesis using lim' x' valid al ins a fl
            by (auto simp: claim_owner_def fair_reserveOwner_def Let_def stableAdmissionSafeFloor_def)
        qed
      qed
    qed
  qed
qed

end
