(* ===== verification/Ledger_Acquire.thy ===== *)
theory Ledger_Acquire
  imports Ledger_Operations
begin

text \<open>
  The claim path (\<open>acquire\<close>) and the remaining entry points of the ledger: acknowledgement, replay,
  dependency probes and waiter subscription.
\<close>

definition owner_outcome ::
  "exec_key \<Rightarrow> 'i identity \<Rightarrow> ('i, 'm) ledger \<Rightarrow> ('i, 'm) ledger \<Rightarrow> 64 word \<Rightarrow> nat \<Rightarrow> bool" where
  "owner_outcome key ident l l' sq f \<longleftrightarrow>
     pend l key = None \<and> f = next_flight l \<and> pend l' = (pend l)(key \<mapsto> f) \<and>
     (\<exists>r. flights l' = (flights l)(f \<mapsto> new_flight ident sq r)) \<and>
     leases l' = (leases l)(f \<mapsto> \<lparr>ls_key = key, ls_handedOff = False, ls_abortHook = None\<rparr>) \<and>
     (if id_valid ident then sq = nextAdmissionSeq l + 1 \<and> nextAdmissionSeq l < sq else sq = 0) \<and>
     stableAdmissionSafeFloor l \<le> stableAdmissionSafeFloor l'"

fun attempt_outcome ::
  "exec_key \<Rightarrow> 'i identity \<Rightarrow> ('i, 'm) ledger \<Rightarrow> ('i, 'm) ledger \<Rightarrow> 'm attempt \<Rightarrow> bool" where
  "attempt_outcome key ident l l' (Settled (Inr (AcquireOwner sq f))) = owner_outcome key ident l l' sq f"
| "attempt_outcome key ident l l' _ = quiet l l'"

lemma acquireAttempt_ok:
  assumes inv: "ledger_inv l"
  shows "\<exists>res l' l1. acquireAttempt rs now key ident l = Some (res, l') \<and> ledger_inv l' \<and>
    expireLocked (shardIndex l key) now l = Some l1 \<and> swept (\<lambda>rc. rc_expiresAt rc \<le> now) l l1 \<and>
    rcpt l' = rcpt l1 \<and> attempt_outcome key ident l l' res \<and>
    (\<forall>sq f. res = Settled (Inr (AcquireOwner sq f)) \<longrightarrow> rcpt l1 key = None)"
proof -
  obtain l1 where e: "expireLocked (shardIndex l key) now l = Some l1"
    and sw: "swept (\<lambda>rc. rc_expiresAt rc \<le> now) l l1" using expireLocked_ok [OF inv] by blast
  note i1 = swept_inv [OF sw] and q = quietD [OF swept_quiet [OF sw]]
  note u = swept_quiet [OF sw]
  show ?thesis
  proof (cases "rcpt l1 key")
    case (Some rc)
    then show ?thesis using e sw i1 u by (auto simp: acquireAttempt_def split: option.splits)
  next
    case rn: None
    show ?thesis
    proof (cases "pend l1 key")
      case (Some f)
      obtain fl where "flights l1 f = Some fl" using pending_flight [OF i1 Some] by metis
      then show ?thesis using e sw i1 u rn Some by (auto simp: acquireAttempt_def)
    next
      case None
      have pn: "pend l key = None" using None q by simp
      obtain res l' where c: "claim_owner key ident l1 = Some (res, l')" "ledger_inv l'" "rcpt l' = rcpt l1"
        and r: "case res of
           Settled (Inr (AcquireOwner sq f)) \<Rightarrow> f = next_flight l1 \<and> pend l' = (pend l1)(key \<mapsto> f) \<and>
             (\<exists>r. flights l' = (flights l1)(f \<mapsto> new_flight ident sq r)) \<and>
             leases l' = (leases l1)(f \<mapsto> \<lparr>ls_key = key, ls_handedOff = False, ls_abortHook = None\<rparr>) \<and>
             (if id_valid ident then sq = nextAdmissionSeq l1 + 1 \<and> nextAdmissionSeq l1 < sq else sq = 0) \<and>
             stableAdmissionSafeFloor l1 \<le> stableAdmissionSafeFloor l'
         | Settled (Inr _) \<Rightarrow> False
         | Settled (Inl e) \<Rightarrow> e \<in> {ErrRPCResultFlightCapacity, ErrRPCAdmissionSeqExhausted} \<and> quiet l1 l'
         | NeedsReap \<Rightarrow> l' = l1"
        using claim_owner_ok [OF i1 None rn] by blast
      have sf: "stableAdmissionSafeFloor l1 = stableAdmissionSafeFloor l"
        by (simp add: stableAdmissionSafeFloor_def q)
      have "attempt_outcome key ident l l' res"
        using r pn q sf by (cases "(key, ident, l, l', res)" rule: attempt_outcome.cases)
          (auto simp: owner_outcome_def intro: quiet_trans [OF u] u)
      moreover have "acquireAttempt rs now key ident l = Some (res, l')"
        using e rn None c by (simp add: acquireAttempt_def)
      ultimately show ?thesis using e sw c rn by blast
    qed
  qed
qed

fun acquire_outcome ::
  "exec_key \<Rightarrow> 'i identity \<Rightarrow> ('i, 'm) ledger \<Rightarrow> ('i, 'm) ledger \<Rightarrow> ledger_error + 'm acquire_result \<Rightarrow> bool" where
  "acquire_outcome key ident l l' (Inr (AcquireOwner sq f)) = owner_outcome key ident l l' sq f"
| "acquire_outcome key ident l l' _ = quiet l l'"

lemma owner_outcome_pre:
  assumes "owner_outcome key ident l1 l' sq f" and "quiet l l1"
  shows "owner_outcome key ident l l' sq f"
  using assms(1) unfolding owner_outcome_def stableAdmissionSafeFloor_def quietD [OF assms(2)] .

lemma attempt_outcome_pre:
  "attempt_outcome key ident l1 l' res \<Longrightarrow> quiet l l1 \<Longrightarrow> attempt_outcome key ident l l' res"
  by (cases "(key, ident, l1, l', res)" rule: attempt_outcome.cases)
    (auto intro: owner_outcome_pre quiet_trans)

lemma attempt_settled:
  "attempt_outcome key ident l l' (Settled res) \<Longrightarrow> acquire_outcome key ident l l' res"
  by (cases "(key, ident, l, l', res)" rule: acquire_outcome.cases) auto

lemma acquire_steady:
  assumes inv: "ledger_inv l" and o: "acquire_outcome key ident l l' res"
  shows "steady l l'"
  using o
proof (cases "(key, ident, l, l', res)" rule: acquire_outcome.cases)
  case (1 _ _ _ _ sq f)
  then have oo: "owner_outcome key ident l l' sq f" using o by simp
  have "flights l f = None" "leases l f = None"
    using oo flights_wfD(3,4) [OF ledger_invD(2) [OF inv], of f] by (auto simp: owner_outcome_def)
  then show ?thesis
    using oo by (auto simp: owner_outcome_def steady_def intro!: flights_kept_upd leases_kept_upd)
qed (auto intro: quiet_steady)

lemma acquire_ok:
  assumes inv: "ledger_inv l"
  shows "\<exists>res l'. acquire rs now clk now' key ident l = Some (res, l') \<and> ledger_inv l' \<and>
    acquire_outcome key ident l l' res \<and>
    (\<forall>k rc. rcpt l' k = Some rc \<longrightarrow> rcpt l k = Some rc) \<and>
    survives ({now, now'} \<union> clk ` {..<16}) l l' \<and>
    (\<forall>sq f. res = Inr (AcquireOwner sq f) \<longrightarrow> ek_req key \<noteq> 0 \<and> rcpt l' key = None)"
proof (cases "ek_req key = 0")
  case True
  then show ?thesis using inv by (simp add: acquire_def)
next
  case False
  obtain res l1 m where a: "acquireAttempt rs now key ident l = Some (res, l1)" "ledger_inv l1"
    "swept (\<lambda>rc. rc_expiresAt rc \<le> now) l m" "rcpt l1 = rcpt m" "attempt_outcome key ident l l1 res"
    "\<forall>sq f. res = Settled (Inr (AcquireOwner sq f)) \<longrightarrow> rcpt m key = None"
    using acquireAttempt_ok [OF inv] by blast
  let ?T = "{now, now'} \<union> clk ` {..<16}"
  have sv1: "survives ?T l l1" using swept_survives [OF a(3), of ?T] a(4) by (simp add: survives_def)
  have sub1: "\<forall>k rc. rcpt l1 k = Some rc \<longrightarrow> rcpt l k = Some rc" using a(3,4) by (simp add: swept_def)
  show ?thesis
  proof (cases res)
    case (Settled r)
    then show ?thesis using a False sub1 sv1 by (auto simp: acquire_def intro: attempt_settled)
  next
    case NeedsReap
    then have q1: "quiet l l1" using a(5) by simp
    obtain l2 where e: "expireReceipts clk l1 = Some l2"
      "swept (\<lambda>rc. \<exists>i<16. rc_expiresAt rc \<le> clk i) l1 l2" using expireReceipts_ok [OF a(2)] by blast
    have q2: "quiet l l2" using quiet_trans [OF q1 swept_quiet [OF e(2)]] .
    obtain res' l3 m' where b: "acquireAttempt rs now' key ident l2 = Some (res', l3)" "ledger_inv l3"
      "swept (\<lambda>rc. rc_expiresAt rc \<le> now') l2 m'" "rcpt l3 = rcpt m'"
      "attempt_outcome key ident l2 l3 res'"
      "\<forall>sq f. res' = Settled (Inr (AcquireOwner sq f)) \<longrightarrow> rcpt m' key = None"
      using acquireAttempt_ok [OF swept_inv [OF e(2)]] by blast
    note o = attempt_outcome_pre [OF b(5) q2]
    have sub2: "\<forall>k rc. rcpt l3 k = Some rc \<longrightarrow> rcpt l k = Some rc"
      using sub1 e(2) b(3,4) by (simp add: swept_def)
    have "survives ?T l1 l2" by (rule swept_survives [OF e(2)]) auto
    moreover have "survives ?T l2 l3" using swept_survives [OF b(3), of ?T] b(4) by (simp add: survives_def)
    ultimately have sv3: "survives ?T l l3" using sv1 survives_trans by blast
    show ?thesis
      using NeedsReap a(1) False e(1) b o sub2 sv3 by (cases res') (auto simp: acquire_def intro: attempt_settled)
  qed
qed

subsection \<open>Acknowledgement, replay, probes\<close>

definition others_survive :: "exec_key \<Rightarrow> int \<Rightarrow> ('i, 'm) ledger \<Rightarrow> ('i, 'm) ledger \<Rightarrow> bool" where
  "others_survive key now l l' \<longleftrightarrow>
     (\<forall>k rc. k \<noteq> key \<and> rcpt l k = Some rc \<and> now < rc_expiresAt rc \<longrightarrow> rcpt l' k = Some rc)"

lemma others_surviveI:
  assumes "survives {now} l l1" and "rcpt l' = rcpt l1 \<or> rcpt l' = (rcpt l1)(key := None)"
  shows "others_survive key now l l'"
  using assms unfolding others_survive_def survives_def by fastforce

lemma others_surviveD:
  "others_survive key now l l' \<Longrightarrow> k \<noteq> key \<Longrightarrow> rcpt l k = Some rc \<Longrightarrow> now < rc_expiresAt rc \<Longrightarrow>
     rcpt l' k = Some rc"
  by (simp add: others_survive_def)

lemma Acknowledge_ok:
  assumes inv: "ledger_inv l"
  shows "\<exists>b l'. Acknowledge now key l = Some (b, l') \<and> ledger_inv l' \<and> pend l' = pend l \<and>
    leases l' = leases l \<and> (\<forall>k rc. rcpt l' k = Some rc \<longrightarrow> rcpt l k = Some rc) \<and>
    (ek_req key \<noteq> 0 \<longrightarrow> rcpt l' key = None) \<and>
    others_survive key now l l' \<and> steady l l' \<and>
    (\<forall>f. ek_req key \<noteq> 0 \<and> pend l key = Some f \<longrightarrow>
       (\<exists>fl. flights l f = Some fl \<and> flights l' = (flights l)(f \<mapsto> fl\<lparr>fl_acknowledged := True\<rparr>)))"
proof (cases "ek_req key = 0")
  case True
  then show ?thesis using inv by (auto simp: Acknowledge_def others_survive_def intro: quiet_steady)
next
  case False
  obtain l1 where e: "expireLocked (shardIndex l key) now l = Some l1"
    and sw: "swept (\<lambda>rc. rc_expiresAt rc \<le> now) l l1" using expireLocked_ok [OF inv] by blast
  note i1 = swept_inv [OF sw] and q = quietD [OF swept_quiet [OF sw]]
  have sv: "survives {now} l l1" using swept_survives [OF sw, of "{now}"] by simp
  note st = quiet_steady [OF swept_quiet [OF sw]]
  note os = others_surviveI [OF sv]
  have sub: "\<forall>k rc. rcpt l1 k = Some rc \<longrightarrow> rcpt l k = Some rc" using sw by (simp add: swept_def)
  show ?thesis
  proof (cases "rcpt l1 key")
    case (Some rc)
    have "pend l1 key \<noteq> Some f" for f using pending_flight [OF i1, of key f] Some by auto
    then have pn: "pend l key = None" using q(2) by auto
    have rc: "rc \<in> set (sh_order (ld_shards l1 (shardIndex l1 key)))" "rc_key rc = key"
      using shard_wf_receipt [OF ledger_invD(1) [OF i1], of key rc] Some by auto
    obtain l2 where l2: "removeElement (shardIndex l1 key) rc l1 = Some l2" "ledger_inv l2" "quiet l1 l2"
      "rcpt l2 = (rcpt l1)(key := None)" using removeElement_ok [OF i1 rc(1)] rc(2) by auto
    then have "Acknowledge now key l = Some (True, l2)" using False e Some by (simp add: Acknowledge_def)
    then show ?thesis using l2 quietD [OF l2(3)] q sub os [of l2 key] pn steady_trans [OF st quiet_steady [OF l2(3)]] by auto
  next
    case rn: None
    show ?thesis
    proof (cases "pend l1 key")
      case None
      then show ?thesis using False e rn i1 q sub os [of l1 key] st by (auto simp: Acknowledge_def)
    next
      case (Some f)
      obtain fl where fl: "flights l1 f = Some fl" "live_flight (subscriberPerFlight l1) fl"
        using pending_flight [OF i1 Some] by metis
      have "live_flight (subscriberPerFlight l1) (fl\<lparr>fl_acknowledged := True\<rparr>)"
        using fl(2) by (simp add: live_flight_def)
      from flight_inv_note [OF i1 Some fl(1) this]
      have "ledger_inv (put_flight f (fl\<lparr>fl_acknowledged := True\<rparr>) l1)" by simp
      moreover have "steady l1 (put_flight f (fl\<lparr>fl_acknowledged := True\<rparr>) l1)"
        using steady_update [OF fl(1) live_flightD(1) [OF fl(2)], of "fl\<lparr>fl_acknowledged := True\<rparr>" "subscriberBudget l1"]
        by (simp add: put_flight_def)
      then have "steady l (put_flight f (fl\<lparr>fl_acknowledged := True\<rparr>) l1)" by (rule steady_trans [OF st])
      ultimately show ?thesis using False e rn Some fl q sub os [of "put_flight f (fl\<lparr>fl_acknowledged := True\<rparr>) l1" key] by (auto simp: Acknowledge_def)
    qed
  qed
qed

lemma drop_expired:
  assumes inv: "ledger_inv l" and rc: "rcpt l key = Some rc" and "rc_expiresAt rc \<le> now"
  shows "\<exists>l'. removeElement (shardIndex l key) rc l = Some l' \<and> swept (\<lambda>rc. rc_expiresAt rc \<le> now) l l' \<and>
    rcpt l' = (rcpt l)(key := None)"
proof -
  have m: "rc \<in> set (sh_order (ld_shards l (shardIndex l key)))" "rc_key rc = key"
    using shard_wf_receipt [OF ledger_invD(1) [OF inv], of key rc] rc by auto
  show ?thesis
    using swept_remove [OF inv m(1), of "\<lambda>rc. rc_expiresAt rc \<le> now"] removeElement_ok [OF inv m(1)] assms(3) m(2)
    by fastforce
qed

lemma Replay_ok:
  assumes inv: "ledger_inv l"
  shows "\<exists>m l'. Replay rs now key l = Some (m, l') \<and> swept (\<lambda>rc. rc_expiresAt rc \<le> now) l l' \<and>
    (m \<noteq> None \<longrightarrow> m = rs key \<and>
       (\<exists>rc. rcpt l key = Some rc \<and> now < rc_expiresAt rc \<and> \<not> rc_unavailable rc \<and> \<not> rc_acknowledged rc))"
proof (cases "ek_req key = 0 \<or> rcpt l key = None")
  case True
  then show ?thesis using swept_refl [OF inv] by (auto simp: Replay_def)
next
  case False
  then obtain rc where rc: "rcpt l key = Some rc" by auto
  show ?thesis
    using drop_expired [OF inv rc, of now] rc False swept_refl [OF inv]
    by (cases "rc_expiresAt rc > now") (auto simp: Replay_def not_less)
qed

lemma pending_flight_exists:
  "ledger_inv l \<Longrightarrow> pend l key = Some f \<Longrightarrow> \<exists>fl. flights l f = Some fl"
  by (metis pending_flight)

text \<open>Both probes read the receipt if it is fresh, else drop it and read the pending flight.\<close>

lemma probe_ok:
  assumes inv: "ledger_inv l" and pp: "\<And>l. ledger_inv l \<Longrightarrow> \<exists>d. pending_part l = Some (d, l)"
  shows "\<exists>d l'. (case rcpt l key of
        None \<Rightarrow> pending_part l
      | Some rc \<Rightarrow> if rc_expiresAt rc > now then Some (fresh rc, l)
          else do { l1 \<leftarrow> removeElement (shardIndex l key) rc l; pending_part l1 }) = Some (d, l') \<and>
      swept (\<lambda>rc. rc_expiresAt rc \<le> now) l l'"
proof (cases "rcpt l key")
  case None
  then show ?thesis using pp [OF inv] swept_refl [OF inv] by auto
next
  case (Some rc)
  show ?thesis
  proof (cases "rc_expiresAt rc > now")
    case True
    then show ?thesis using Some swept_refl [OF inv] by auto
  next
    case False
    then obtain l1 where l1: "removeElement (shardIndex l key) rc l = Some l1"
      "swept (\<lambda>rc. rc_expiresAt rc \<le> now) l l1" using drop_expired [OF inv Some, of now] by auto
    then show ?thesis using Some False pp [OF swept_inv [OF l1(2)]] by auto
  qed
qed

lemma ObserveDependency_ok:
  assumes inv: "ledger_inv l"
  shows "\<exists>d l'. ObserveDependency now key l = Some (d, l') \<and> swept (\<lambda>rc. rc_expiresAt rc \<le> now) l l'"
proof (cases "ek_req key = 0")
  case True
  then show ?thesis using swept_refl [OF inv] by (simp add: ObserveDependency_def)
next
  case False
  show ?thesis
    unfolding ObserveDependency_def Let_def if_not_P [OF False]
    by (rule probe_ok [OF inv]) (auto split: option.split dest: pending_flight_exists)
qed

lemma ExactAdmissionProfile_ok:
  assumes inv: "ledger_inv l"
  shows "\<exists>d l'. ExactAdmissionProfile now key l = Some (d, l') \<and> swept (\<lambda>rc. rc_expiresAt rc \<le> now) l l'"
proof (cases "ek_req key = 0")
  case True
  then show ?thesis using swept_refl [OF inv] by (simp add: ExactAdmissionProfile_def)
next
  case False
  show ?thesis
    unfolding ExactAdmissionProfile_def Let_def if_not_P [OF False]
    by (rule probe_ok [OF inv]) (auto split: option.split dest: pending_flight_exists)
qed

end
