(* ===== verification/Ledger_Machine.thy ===== *)
theory Ledger_Machine
  imports Ledger_Acquire
begin

text \<open>
  The ledger as a transition system. A step is one call of an exported operation by a client that
  uses the leases and waiters it was given; \<open>reachable\<close> closes the steps from a new ledger.
\<close>

lemma put_flight_commute:
  "put_flight f fl (l\<lparr>subscriberBudget := sb\<rparr>) = (put_flight f fl l)\<lparr>subscriberBudget := sb\<rparr>"
  by (simp add: put_flight_def)

lemma subscribe_ok:
  assumes inv: "ledger_inv l" and fl: "flights l f = Some fl"
  shows "\<exists>res l'. subscribe key f rf ef l = Some (res, l') \<and> ledger_inv l' \<and> pend l' = pend l \<and>
    rcpt l' = rcpt l \<and> leases l' = leases l \<and> steady l l'"
proof (cases "(rf = None \<and> ef = None) \<or> pend l key \<noteq> Some f")
  case True
  then show ?thesis using inv fl quiet_steady [OF quiet_refl] by (auto simp: subscribe_def Let_def)
next
  case False
  then have p: "pend l key = Some f" by simp
  define slots where "slots = (if rf \<noteq> None then 1 else 0) +
     (if ef \<noteq> None \<and> \<not> fl_executionDone fl then 1 else (0 :: int))"
  define fl1 where "fl1 = fl\<lparr>fl_subscriberSlots := fl_subscriberSlots fl + slots,
     fl_subscribers := fl_subscribers fl @ (case rf of None \<Rightarrow> [] | Some c \<Rightarrow> [c]),
     fl_executionSubscribers := fl_executionSubscribers fl @
       (case ef of None \<Rightarrow> [] | Some c \<Rightarrow> if fl_executionDone fl then [] else [c])\<rparr>"
  define evs where "evs = (case ef of None \<Rightarrow> []
     | Some c \<Rightarrow> if fl_executionDone fl then [ExecutionCallback c (fl_executionOK fl) :: 'b event] else [])"
  have S: "subscribe key f rf ef l =
     (if slots > 0 then
        (if fl_subscriberSlots fl > subscriberPerFlight l - slots
         then Some (Inl ErrRPCResultSubscriberCapacity, l)
         else case sub_reserve (subscriberBudget l) key slots of
           (False, _) \<Rightarrow> Some (Inl ErrRPCResultSubscriberCapacity, l)
         | (True, sb) \<Rightarrow> Some (Inr evs, put_flight f fl1 (l\<lparr>subscriberBudget := sb\<rparr>)))
      else Some (Inr evs, put_flight f fl1 l))"
    unfolding subscribe_def Let_def slots_def fl1_def evs_def using False p fl by simp
  have v: "view l key = Some fl" using p fl by (simp add: view_def)
  have live: "live_flight (subscriberPerFlight l) fl" using pending_flight [OF inv p] fl by auto
  have nn: "0 \<le> slots" by (simp add: slots_def)
  have live1: "live_flight (subscriberPerFlight l) fl1"
    if "slots > 0 \<longrightarrow> fl_subscriberSlots fl \<le> subscriberPerFlight l - slots"
    using live that by (auto simp: live_flight_def fl1_def slots_def split: option.splits if_splits)
  have same: "fl_reservation fl1 = fl_reservation fl" "fl_admissionSeq fl1 = fl_admissionSeq fl"
    by (simp_all add: fl1_def)
  have st: "steady l (put_flight f fl1 (l\<lparr>subscriberBudget := sb\<rparr>))" for sb
    unfolding put_flight_commute
    by (rule steady_update [OF fl live_flightD(1) [OF live]]) (simp_all add: fl1_def)
  have st0: "steady l (put_flight f fl1 l)" using st [of "subscriberBudget l"] by simp
  show ?thesis
  proof (cases "slots > 0")
    case False
    then have "slots = 0" using nn by simp
    then have "ledger_inv (put_flight f fl1 l)"
      by (intro flight_inv_note [OF inv p fl live1 same]) (simp_all add: fl1_def)
    then show ?thesis using S False st0 by auto
  next
    case pos: True
    obtain ok sb where r: "sub_reserve (subscriberBudget l) key slots = (ok, sb)" by fastforce
    show ?thesis
    proof (cases "fl_subscriberSlots fl > subscriberPerFlight l - slots \<or> \<not> ok")
      case True
      then show ?thesis using S pos r inv quiet_steady [OF quiet_refl] by auto
    next
      case False
      then have sb: "slots_ok ((slot_map (view l))(key := slot_map (view l) key + slots)) sb"
        using slots_reserve [OF resourcesD(5) [OF ledger_invD(3) [OF inv]], of key slots sb] r by simp
      have "ledger_inv ((put_flight f fl1 l)\<lparr>subscriberBudget := sb\<rparr>)"
        by (rule flight_inv_update [OF inv p fl live1 same]) (use False sb v in \<open>simp_all add: fl1_def\<close>)
      then have "ledger_inv (put_flight f fl1 (l\<lparr>subscriberBudget := sb\<rparr>))"
        by (simp only: put_flight_commute)
      moreover have "subscribe key f rf ef l = Some (Inr evs, put_flight f fl1 (l\<lparr>subscriberBudget := sb\<rparr>))"
        using S pos r False by simp
      ultimately show ?thesis using st [of sb] by simp
    qed
  qed
qed

lemma or_default_pos: "0 < d \<Longrightarrow> 0 < or_default x d"
  by (simp add: or_default_def)

lemma own_empty: "own Map.empty Map.empty Map.empty 0 0"
  by (simp add: own_def held_def)

lemma slots_empty: "slots_ok (\<lambda>_. 0) (newRPCResultSubscriberBudget sd g al sl)"
  using sub_inv_new [of sd g al sl]
  by (simp add: slots_ok_def tot_def newRPCResultSubscriberBudget_def sub_authSnapshot_def
      sub_sessionSnapshot_def count_at_def sub_used_def)

lemma ledger_inv_new: "ledger_inv (newRPCExecutionLedger sd c)" (is "ledger_inv ?l")
proof (rule ledger_invI)
  have p: "pend ?l = Map.empty" and r: "rcpt ?l = Map.empty"
    by (simp_all add: pend_def [abs_def] rcpt_def [abs_def] newRPCExecutionLedger_def Let_def empty_shard_def)
  show "shard_wf ?l i" for i
    by (simp add: shard_wf_def newRPCExecutionLedger_def Let_def empty_shard_def)
  show "flights_wf (pend ?l) (flights ?l) (leases ?l) (next_flight ?l) (subscriberPerFlight ?l)"
    unfolding p by (simp add: flights_wf_def newRPCExecutionLedger_def Let_def)
  have f: "fair_inv (fairBudget ?l)" "reservations (fairBudget ?l) = Map.empty"
    using fair_inv_new [of "\<lparr>fl_max = m, fl_used = 0\<rparr>" for m]
    by (simp_all add: newRPCExecutionLedger_def Let_def flight_inv_def newRPCExecutionFairBudget_def)
  have a: "admits (\<lambda>_. None) (\<lambda>_. []) 0" using tracker_inv_empty by (simp add: admits_def active_def)
  have "view ?l = Map.empty" "rres ?l = Map.empty"
    by (simp_all add: view_def [abs_def] rres_def [abs_def] p r)
  then show "resources (view ?l) (rres ?l) (fairBudget ?l) (flightLimit ?l) (receiptCount ?l)
      (activeAdmissions ?l) (nextAdmissionSeq ?l) (subscriberBudget ?l)"
    unfolding resources_def using f a own_empty slots_empty
    by (simp add: newRPCExecutionLedger_def Let_def flight_inv_def)
qed

subsection \<open>Calls and runs\<close>

datatype ('i, 'm) ledger_call =
    CallAcquire "exec_key \<Rightarrow> 'm option" int "nat \<Rightarrow> int" int exec_key "'i identity"
  | CallComplete "exec_key \<Rightarrow> 'm option" int "nat \<Rightarrow> int" int exec_key 'm bool
  | CallAcknowledge int exec_key
  | CallReplay "exec_key \<Rightarrow> 'm option" int exec_key
  | CallObserve int exec_key
  | CallProfile int exec_key
  | CallForget session_key
  | CallExpire "nat \<Rightarrow> int"
  | CallInstallHook nat nat
  | CallSetHook nat "nat option"
  | CallHandOff nat
  | CallCompleteExecution nat bool
  | CallAbort nat
  | CallSubscribe exec_key nat "nat option" "nat option"

fun enabled :: "('i, 'm) ledger_call \<Rightarrow> ('i, 'm) ledger \<Rightarrow> bool" where
  "enabled (CallInstallHook f h) l = (leases l f \<noteq> None)"
| "enabled (CallSetHook f h) l = (leases l f \<noteq> None)"
| "enabled (CallHandOff f) l = (leases l f \<noteq> None)"
| "enabled (CallCompleteExecution f ok) l = (leases l f \<noteq> None)"
| "enabled (CallAbort f) l = (leases l f \<noteq> None)"
| "enabled (CallSubscribe k f rf ef) l = (flights l f \<noteq> None)"
| "enabled _ l = True"

fun exec :: "('i, 'm) ledger_call \<Rightarrow> ('i, 'm) ledger \<Rightarrow> ('i, 'm) ledger option" where
  "exec (CallAcquire rs now clk now' k i) l = map_option snd (acquire rs now clk now' k i l)"
| "exec (CallComplete rs now clk now' k m rp) l = map_option snd (Complete rs now clk now' k m rp l)"
| "exec (CallAcknowledge now k) l = map_option snd (Acknowledge now k l)"
| "exec (CallReplay rs now k) l = map_option snd (Replay rs now k l)"
| "exec (CallObserve now k) l = map_option snd (ObserveDependency now k l)"
| "exec (CallProfile now k) l = map_option snd (ExactAdmissionProfile now k l)"
| "exec (CallForget s) l = forgetSession s l"
| "exec (CallExpire clk) l = expireReceipts clk l"
| "exec (CallInstallHook f h) l = map_option snd (InstallAbortHook f h l)"
| "exec (CallSetHook f h) l = SetAbortHook f h l"
| "exec (CallHandOff f) l = map_option snd (HandOff f l)"
| "exec (CallCompleteExecution f ok) l = map_option snd (CompleteExecution f ok l)"
| "exec (CallAbort f) l = map_option snd (Abort f l)"
| "exec (CallSubscribe k f rf ef) l = map_option snd (subscribe k f rf ef l)"

inductive reachable :: "(byte list \<Rightarrow> 64 word) \<Rightarrow> ledger_capacity \<Rightarrow> ('i, 'm) ledger \<Rightarrow> bool"
  for sd cap where
  reachable_new: "reachable sd cap (newRPCExecutionLedger sd cap)"
| reachable_step: "reachable sd cap l \<Longrightarrow> enabled c l \<Longrightarrow> exec c l = Some l' \<Longrightarrow> reachable sd cap l'"

lemma exec_ok:
  assumes "ledger_inv l" and "enabled c l"
  shows "\<exists>l'. exec c l = Some l' \<and> ledger_inv l'"
proof (cases c)
  case (CallAcquire rs now clk now' k i)
  then show ?thesis using acquire_ok [OF assms(1), of rs now clk now' k i] by auto
next
  case (CallComplete rs now clk now' k m rp)
  then show ?thesis using Complete_ok [OF assms(1), of rs now clk now' k m rp] by auto
next
  case (CallAcknowledge now k)
  then show ?thesis using Acknowledge_ok [OF assms(1), of now k] by auto
next
  case (CallReplay rs now k)
  then show ?thesis using Replay_ok [OF assms(1), of rs now k] by (auto intro: swept_inv)
next
  case (CallObserve now k)
  then show ?thesis using ObserveDependency_ok [OF assms(1), of now k] by (auto intro: swept_inv)
next
  case (CallProfile now k)
  then show ?thesis using ExactAdmissionProfile_ok [OF assms(1), of now k] by (auto intro: swept_inv)
next
  case (CallForget s)
  then show ?thesis using forgetSession_ok [OF assms(1), of s] by (auto intro: swept_inv)
next
  case (CallExpire clk)
  then show ?thesis using expireReceipts_ok [OF assms(1), of clk] by (auto intro: swept_inv)
next
  case (CallInstallHook f h)
  then show ?thesis using InstallAbortHook_ok [OF assms(1), of f _ h] assms(2) by auto
next
  case (CallSetHook f h)
  then show ?thesis using SetAbortHook_ok [OF assms(1), of f _ h] assms(2) by auto
next
  case (CallHandOff f)
  then show ?thesis using HandOff_ok [OF assms(1), of f] assms(2) by auto
next
  case (CallCompleteExecution f ok)
  then obtain ls where "leases l f = Some ls" using assms(2) by auto
  from CompleteExecution_ok [OF assms(1) this] obtain b evs l' where
    "CompleteExecution f ok l = Some ((b, evs), l')" "ledger_inv l'" by blast
  then show ?thesis using CallCompleteExecution by simp
next
  case (CallAbort f)
  then obtain ls where "leases l f = Some ls" using assms(2) by auto
  from Abort_ok [OF assms(1) this] obtain b evs l' where
    "Abort f l = Some ((b, evs), l')" "ledger_inv l'" by blast
  then show ?thesis using CallAbort by simp
next
  case (CallSubscribe k f rf ef)
  then show ?thesis using subscribe_ok [OF assms(1), of f _ k rf ef] assms(2) by auto
qed

lemma reachable_inv: "reachable sd cap l \<Longrightarrow> ledger_inv l"
proof (induction rule: reachable.induct)
  case reachable_new
  show ?case by (rule ledger_inv_new)
next
  case (reachable_step l c l')
  then show ?case using exec_ok [of l c] by auto
qed

end
