(* ===== verification/Ledger_Runs.thy ===== *)
theory Ledger_Runs
  imports Ledger_Machine
begin

text \<open>
  Properties of whole runs of the ledger: a pending claim stays with its owner until that owner
  completes or aborts it, and a receipt stays until its expiry, its acknowledgement or the
  destruction of its session. Together they give at-most-once execution.
\<close>

fun run :: "('i, 'm) ledger_call list \<Rightarrow> ('i, 'm) ledger \<Rightarrow> ('i, 'm) ledger option" where
  "run [] l = Some l"
| "run (c # cs) l = (if enabled c l then Option.bind (exec c l) (run cs) else None)"

fun settles :: "exec_key \<Rightarrow> nat \<Rightarrow> ('i, 'm) ledger_call \<Rightarrow> bool" where
  "settles k f (CallComplete rs now clk now' key m rp) = (key = k)"
| "settles k f (CallAbort g) = (g = f)"
| "settles k f _ = False"

fun reads :: "('i, 'm) ledger_call \<Rightarrow> int set" where
  "reads (CallAcquire rs now clk now' k i) = {now, now'} \<union> clk ` {..<16}"
| "reads (CallComplete rs now clk now' k m rp) = {now, now'} \<union> clk ` {..<16}"
| "reads (CallAcknowledge now k) = {now}"
| "reads (CallReplay rs now k) = {now}"
| "reads (CallObserve now k) = {now}"
| "reads (CallProfile now k) = {now}"
| "reads (CallExpire clk) = clk ` {..<16}"
| "reads _ = {}"

fun discards :: "exec_key \<Rightarrow> ('i, 'm) ledger_call \<Rightarrow> bool" where
  "discards k (CallAcknowledge now key) = (key = k)"
| "discards k (CallForget s) = (s = session_of k)"
| "discards k _ = False"

lemma run_inv: "ledger_inv l \<Longrightarrow> run cs l = Some l' \<Longrightarrow> ledger_inv l'"
proof (induction cs arbitrary: l)
  case Nil
  then show ?case by simp
next
  case (Cons c cs)
  then show ?case using exec_ok [OF Cons.prems(1), of c] by (auto split: if_splits)
qed

lemma acquire_keeps_pending:
  assumes "ledger_inv l" and "pend l k = Some f" and "acquire rs now clk now' key i l = Some (res, l')"
  shows "pend l' k = Some f"
proof -
  have "acquire_outcome key i l l' res" using acquire_ok [OF assms(1), of rs now clk now' key i] assms(3) by auto
  then show ?thesis
    using assms(2) by (cases "(key, i, l, l', res)" rule: acquire_outcome.cases)
      (auto simp: owner_outcome_def dest: quietD(2))
qed

lemma exec_keeps_pending:
  assumes inv: "ledger_inv l" and en: "enabled c l" and ex: "exec c l = Some l'"
    and p: "pend l k = Some f" and ns: "\<not> settles k f c"
  shows "pend l' k = Some f"
proof (cases c)
  case (CallAcquire rs now clk now' key i)
  then show ?thesis using acquire_keeps_pending [OF inv p] ex by auto
next
  case (CallComplete rs now clk now' key m rp)
  then show ?thesis using Complete_ok [OF inv, of rs now clk now' key m rp] ex p ns
    by (cases "ek_req key = 0") auto
next
  case (CallAcknowledge now key)
  from Acknowledge_ok [OF inv, of now key] obtain b l1 where
    "Acknowledge now key l = Some (b, l1)" "pend l1 = pend l" by blast
  then show ?thesis using CallAcknowledge ex p by simp
next
  case (CallReplay rs now key)
  then show ?thesis using Replay_ok [OF inv, of rs now key] ex p by (auto dest!: swept_quiet quietD(2))
next
  case (CallObserve now key)
  then show ?thesis using ObserveDependency_ok [OF inv, of now key] ex p by (auto dest!: swept_quiet quietD(2))
next
  case (CallProfile now key)
  then show ?thesis using ExactAdmissionProfile_ok [OF inv, of now key] ex p by (auto dest!: swept_quiet quietD(2))
next
  case (CallForget s)
  then show ?thesis using forgetSession_ok [OF inv, of s] ex p by (auto dest!: swept_quiet quietD(2))
next
  case (CallExpire clk)
  then show ?thesis using expireReceipts_ok [OF inv, of clk] ex p by (auto dest!: swept_quiet quietD(2))
next
  case (CallInstallHook g h)
  then show ?thesis using InstallAbortHook_ok [OF inv, of g _ h] en ex p by auto
next
  case (CallSetHook g h)
  then show ?thesis using SetAbortHook_ok [OF inv, of g _ h] en ex p by auto
next
  case (CallHandOff g)
  then show ?thesis using HandOff_ok [OF inv, of g] en ex p by auto
next
  case (CallCompleteExecution g ok)
  then obtain ls where "leases l g = Some ls" using en by auto
  from CompleteExecution_ok [OF inv this] obtain b evs l1 where
    "CompleteExecution g ok l = Some ((b, evs), l1)" "pend l1 = pend l" by blast
  then show ?thesis using CallCompleteExecution ex p by auto
next
  case (CallAbort g)
  then obtain ls where ls: "leases l g = Some ls" using en by auto
  from Abort_ok [OF inv ls] obtain b evs l1 where A: "Abort g l = Some ((b, evs), l1)"
    "b = (owns g ls l \<and> \<not> ls_handedOff ls)" "\<not> b \<longrightarrow> l1 = l"
    "b \<longrightarrow> pend l1 = (pend l)(ls_key ls := None)" by blast
  have "ls_key ls \<noteq> k" if b using that A(2) p ns CallAbort by (auto simp: owns_def)
  then show ?thesis using A CallAbort ex p by (cases b) auto
next
  case (CallSubscribe key g rf ef)
  then show ?thesis using subscribe_ok [OF inv, of g _ key rf ef] en ex p by auto
qed

lemma run_keeps_pending:
  "ledger_inv l \<Longrightarrow> run cs l = Some l' \<Longrightarrow> pend l k = Some f \<Longrightarrow> \<forall>c\<in>set cs. \<not> settles k f c \<Longrightarrow>
     pend l' k = Some f"
proof (induction cs arbitrary: l)
  case Nil
  then show ?case by simp
next
  case (Cons c cs)
  then obtain l1 where l1: "enabled c l" "exec c l = Some l1" "run cs l1 = Some l'"
    by (auto split: if_splits)
  have "ledger_inv l1" using exec_ok [OF Cons.prems(1) l1(1)] l1(2) by auto
  moreover have "pend l1 k = Some f"
    using exec_keeps_pending [OF Cons.prems(1) l1(1,2) Cons.prems(3)] Cons.prems(4) by simp
  ultimately show ?case using Cons.IH l1(3) Cons.prems(4) by simp
qed

lemma exec_keeps_receipt:
  assumes inv: "ledger_inv l" and en: "enabled c l" and ex: "exec c l = Some l'"
    and r: "rcpt l k = Some rc" and t: "\<forall>t\<in>reads c. t < rc_expiresAt rc" and nd: "\<not> discards k c"
  shows "rcpt l' k = Some rc"
proof -
  have sw: "rcpt l' k = Some rc" if "swept (\<lambda>rc. rc_expiresAt rc \<le> now) l l'" "now \<in> reads c" for now
    using swept_survives [OF that(1), of "{now}"] that(2) r t by (simp add: survives_def)
  show ?thesis
  proof (cases c)
    case (CallAcquire rs now clk now' key i)
    from acquire_ok [OF inv, of rs now clk now' key i] obtain res l1 where
      "acquire rs now clk now' key i l = Some (res, l1)" "survives ({now, now'} \<union> clk ` {..<16}) l l1" by blast
    then show ?thesis using CallAcquire ex r t by (simp add: survives_def)
  next
    case (CallComplete rs now clk now' key m rp)
    from Complete_ok [OF inv, of rs now clk now' key m rp] obtain evs l1 where
      "Complete rs now clk now' key m rp l = Some (evs, l1)" "survives ({now, now'} \<union> clk ` {..<16}) l l1" by blast
    then show ?thesis using CallComplete ex r t by (simp add: survives_def)
  next
    case (CallAcknowledge now key)
    from Acknowledge_ok [OF inv, of now key] obtain b l1 where
      "Acknowledge now key l = Some (b, l1)" "others_survive key now l l1" by blast
    then show ?thesis using CallAcknowledge ex r t nd by (auto intro: others_surviveD)
  next
    case (CallReplay rs now key)
    then show ?thesis using Replay_ok [OF inv, of rs now key] ex sw [of now] by auto
  next
    case (CallObserve now key)
    then show ?thesis using ObserveDependency_ok [OF inv, of now key] ex sw [of now] by auto
  next
    case (CallProfile now key)
    then show ?thesis using ExactAdmissionProfile_ok [OF inv, of now key] ex sw [of now] by auto
  next
    case (CallForget s)
    then show ?thesis using forgetSession_ok [OF inv, of s] ex r nd shard_wf_receipt [OF ledger_invD(1) [OF inv], of k rc]
      by (cases "rcpt l' k") (auto simp: swept_def)
  next
    case (CallExpire clk)
    then obtain l1 where "expireReceipts clk l = Some l1" "swept (\<lambda>rc. \<exists>i<16. rc_expiresAt rc \<le> clk i) l l1"
      using expireReceipts_ok [OF inv] by blast
    then show ?thesis using swept_survives [of _ l l1 "reads c"] CallExpire ex r t by (auto simp: survives_def)
  next
    case (CallInstallHook g h)
    then show ?thesis using InstallAbortHook_ok [OF inv, of g _ h] en ex r by auto
  next
    case (CallSetHook g h)
    then show ?thesis using SetAbortHook_ok [OF inv, of g _ h] en ex r by auto
  next
    case (CallHandOff g)
    then show ?thesis using HandOff_ok [OF inv, of g] en ex r by auto
  next
    case (CallCompleteExecution g ok)
    then obtain ls where "leases l g = Some ls" using en by auto
    from CompleteExecution_ok [OF inv this] obtain b evs l1 where
      "CompleteExecution g ok l = Some ((b, evs), l1)" "rcpt l1 = rcpt l" by blast
    then show ?thesis using CallCompleteExecution ex r by auto
  next
    case (CallAbort g)
    then obtain ls where ls: "leases l g = Some ls" using en by auto
    from Abort_ok [OF inv ls] obtain b evs l1 where "Abort g l = Some ((b, evs), l1)"
      "\<not> b \<longrightarrow> l1 = l" "b \<longrightarrow> rcpt l1 = rcpt l" by blast
    then show ?thesis using CallAbort ex r by (cases b) auto
  next
    case (CallSubscribe key g rf ef)
    then show ?thesis using subscribe_ok [OF inv, of g _ key rf ef] en ex r by auto
  qed
qed

lemma run_keeps_receipt:
  "ledger_inv l \<Longrightarrow> run cs l = Some l' \<Longrightarrow> rcpt l k = Some rc \<Longrightarrow>
     \<forall>c\<in>set cs. \<not> discards k c \<and> (\<forall>t\<in>reads c. t < rc_expiresAt rc) \<Longrightarrow> rcpt l' k = Some rc"
proof (induction cs arbitrary: l)
  case Nil
  then show ?case by simp
next
  case (Cons c cs)
  then obtain l1 where l1: "enabled c l" "exec c l = Some l1" "run cs l1 = Some l'"
    by (auto split: if_splits)
  have "ledger_inv l1" using exec_ok [OF Cons.prems(1) l1(1)] l1(2) by auto
  moreover have "rcpt l1 k = Some rc"
    using exec_keeps_receipt [OF Cons.prems(1) l1(1,2) Cons.prems(3)] Cons.prems(4) by simp
  ultimately show ?case using Cons.IH l1(3) Cons.prems(4) by simp
qed

lemma exec_steady:
  assumes inv: "ledger_inv l" and en: "enabled c l" and ex: "exec c l = Some l'"
  shows "steady l l'"
proof -
  have sw: "steady l l'" if "swept Q l l'" for Q by (rule quiet_steady [OF swept_quiet [OF that]])
  show ?thesis
  proof (cases c)
    case (CallAcquire rs now clk now' key i)
    from acquire_ok [OF inv, of rs now clk now' key i] obtain res l1 where
      "acquire rs now clk now' key i l = Some (res, l1)" "acquire_outcome key i l l1 res" by blast
    then show ?thesis using CallAcquire ex acquire_steady [OF inv] by auto
  next
    case (CallComplete rs now clk now' key m rp)
    from Complete_ok [OF inv, of rs now clk now' key m rp] obtain evs l1 where
      "Complete rs now clk now' key m rp l = Some (evs, l1)" "steady l l1" by blast
    then show ?thesis using CallComplete ex by simp
  next
    case (CallAcknowledge now key)
    from Acknowledge_ok [OF inv, of now key] obtain b l1 where
      "Acknowledge now key l = Some (b, l1)" "steady l l1" by blast
    then show ?thesis using CallAcknowledge ex by simp
  next
    case (CallReplay rs now key)
    then show ?thesis using Replay_ok [OF inv, of rs now key] ex by (auto intro: sw)
  next
    case (CallObserve now key)
    then show ?thesis using ObserveDependency_ok [OF inv, of now key] ex by (auto intro: sw)
  next
    case (CallProfile now key)
    then show ?thesis using ExactAdmissionProfile_ok [OF inv, of now key] ex by (auto intro: sw)
  next
    case (CallForget s)
    then show ?thesis using forgetSession_ok [OF inv, of s] ex by (auto intro: sw)
  next
    case (CallExpire clk)
    then show ?thesis using expireReceipts_ok [OF inv, of clk] ex by (auto intro: sw)
  next
    case (CallInstallHook g h)
    then show ?thesis using InstallAbortHook_ok [OF inv, of g _ h] en ex by auto
  next
    case (CallSetHook g h)
    then show ?thesis using SetAbortHook_ok [OF inv, of g _ h] en ex by auto
  next
    case (CallHandOff g)
    then show ?thesis using HandOff_ok [OF inv, of g] en ex by auto
  next
    case (CallCompleteExecution g ok)
    then obtain ls where "leases l g = Some ls" using en by auto
    from CompleteExecution_ok [OF inv this] obtain b evs l1 where
      "CompleteExecution g ok l = Some ((b, evs), l1)" "steady l l1" by blast
    then show ?thesis using CallCompleteExecution ex by simp
  next
    case (CallAbort g)
    then obtain ls where ls: "leases l g = Some ls" using en by auto
    from Abort_ok [OF inv ls] obtain b evs l1 where "Abort g l = Some ((b, evs), l1)" "steady l l1" by blast
    then show ?thesis using CallAbort ex by simp
  next
    case (CallSubscribe key g rf ef)
    then show ?thesis using subscribe_ok [OF inv, of g _ key rf ef] en ex by auto
  qed
qed

lemma run_steady: "ledger_inv l \<Longrightarrow> run cs l = Some l' \<Longrightarrow> steady l l'"
proof (induction cs arbitrary: l)
  case Nil
  then show ?case by (simp add: quiet_steady)
next
  case (Cons c cs)
  then obtain l1 where l1: "enabled c l" "exec c l = Some l1" "run cs l1 = Some l'"
    by (auto split: if_splits)
  have "ledger_inv l1" using exec_ok [OF Cons.prems(1) l1(1)] l1(2) by auto
  from Cons.IH [OF this l1(3)] exec_steady [OF Cons.prems(1) l1(1,2)] show ?case
    by (blast intro: steady_trans)
qed

lemma reachable_run: "reachable sd cap l \<Longrightarrow> run cs l = Some l' \<Longrightarrow> reachable sd cap l'"
  by (induction cs arbitrary: l) (auto split: if_splits intro: reachable_step)

end
