(* ===== verification/Ledger_Facts.thy ===== *)
theory Ledger_Facts
  imports Ledger_Runs
begin

text \<open>Counting lemmas and the exact outcome of claims and completions, shared by the properties of the ledger.\<close>

section \<open>Configuration\<close>

text \<open>The configured limits of a ledger never change: no operation writes them.\<close>

definition fair_limits :: "fair_budget \<Rightarrow> int \<times> int \<times> int \<times> int" where
  "fair_limits b = (fl_max (globalEntries b), authLimit b, sessionLimit b, pendingPerAuth b)"

definition sub_limits :: "sub_budget \<Rightarrow> int \<times> int \<times> int" where
  "sub_limits b = (fl_max (sub_global b), sub_authLimit b, sub_sessionLimit b)"

definition limits ::
  "('i, 'm) ledger \<Rightarrow> int \<times> (int \<times> int \<times> int \<times> int) \<times> (int \<times> int \<times> int) \<times> int" where
  "limits l = (fl_max (flightLimit l), fair_limits (fairBudget l), sub_limits (subscriberBudget l),
     subscriberPerFlight l)"

named_theorems limits_keep

lemma flight_limits_keep [limits_keep]:
  "flight_release g = Some g' \<Longrightarrow> fl_max g' = fl_max g"
  "flight_reserve g = (b, g') \<Longrightarrow> fl_max g' = fl_max g"
  "flight_releaseN n g = Some g' \<Longrightarrow> fl_max g' = fl_max g"
  "flight_reserveN n g = (b, g') \<Longrightarrow> fl_max g' = fl_max g"
  by (auto simp: flight_release_def flight_reserve_def flight_releaseN_def flight_reserveN_def Let_def
      split: if_splits)

lemma fair_limits_keep [limits_keep]:
  "fair_release r b = Some b' \<Longrightarrow> fair_limits b' = fair_limits b"
  "fair_releasePending r b = Some b' \<Longrightarrow> fair_limits b' = fair_limits b"
  "fair_reserve b k p = (x, b') \<Longrightarrow> fair_limits b' = fair_limits b"
  by (auto simp: fair_release_def fair_releasePending_def fair_reserve_def Let_def fair_limits_def
      put_session_def put_auth_def dest: flight_limits_keep
      split: if_splits option.splits prod.splits bool.splits)

lemma sub_limits_keep [limits_keep]:
  "sub_release b k n = Some b' \<Longrightarrow> sub_limits b' = sub_limits b"
  "sub_reserve b k n = (x, b') \<Longrightarrow> sub_limits b' = sub_limits b"
  by (auto simp: sub_release_def sub_reserve_def Let_def sub_limits_def sub_put_def
      dest: flight_limits_keep split: if_splits option.splits prod.splits bool.splits)

lemma limits_eq:
  "limits l' = limits l \<longleftrightarrow> fl_max (flightLimit l') = fl_max (flightLimit l) \<and>
     fair_limits (fairBudget l') = fair_limits (fairBudget l) \<and>
     sub_limits (subscriberBudget l') = sub_limits (subscriberBudget l) \<and>
     subscriberPerFlight l' = subscriberPerFlight l"
  by (simp add: limits_def)

lemma receipts_limits_keep [limits_keep]:
  "unlinkElement i rc l = Some l' \<Longrightarrow> limits l' = limits l"
  "removeElement i rc l = Some l' \<Longrightarrow> limits l' = limits l"
  by (auto simp: removeElement_def unlinkElement_def Let_def limits_eq dest!: fair_limits_keep(1)
      split: if_splits option.splits)

lemma expire_list_limits: "expire_list i now rcs l = Some l' \<Longrightarrow> limits l' = limits l"
  by (induction rcs arbitrary: l) (auto dest: limits_keep split: if_splits)

lemma expire_shards_limits: "expire_shards clk is l = Some l' \<Longrightarrow> limits l' = limits l"
  by (induction "is" arbitrary: l) (auto simp: expireLocked_def dest: expire_list_limits)

lemma forget_list_limits: "forget_list i s rcs l = Some l' \<Longrightarrow> limits l' = limits l"
  by (induction rcs arbitrary: l) (auto dest: limits_keep split: if_splits)

lemma forget_shards_limits: "forget_shards s is l = Some l' \<Longrightarrow> limits l' = limits l"
  by (induction "is" arbitrary: l) (auto dest: forget_list_limits)

lemma sweep_limits_keep [limits_keep]:
  "expireLocked i now l = Some l' \<Longrightarrow> limits l' = limits l"
  "expireReceipts clk l = Some l' \<Longrightarrow> limits l' = limits l"
  "forgetSession s l = Some l' \<Longrightarrow> limits l' = limits l"
  by (auto simp: expireLocked_def expireReceipts_def forgetSession_def
      dest: expire_list_limits expire_shards_limits forget_shards_limits)

lemma flight_ops_limits_keep [limits_keep]:
  "releaseFlightSubscriberSlotsLocked k f n l = Some l' \<Longrightarrow> limits l' = limits l"
  "close_done f l = Some l' \<Longrightarrow> limits l' = limits l"
  by (auto simp: releaseFlightSubscriberSlotsLocked_def close_done_def limits_eq dest!: sub_limits_keep(1)
      split: if_splits)

lemma complete_limits_keep [limits_keep]:
  "completeRPCResultFlightLocked k m l = Some (x, l') \<Longrightarrow> limits l' = limits l"
  "completion_reservation k old l = Some (Inr (r, l')) \<Longrightarrow> limits l' = limits l"
  "unlink_old i old r l = Some l' \<Longrightarrow> limits l' = limits l"
  subgoal by (auto simp: completeRPCResultFlightLocked_def Let_def dest!: flight_ops_limits_keep
        split: option.splits) (auto simp: limits_eq dest!: limits_keep)
  subgoal by (auto simp: completion_reservation_def limits_eq fair_reserveCompleted_def
        dest!: fair_limits_keep(3) split: option.splits prod.splits)
  subgoal by (auto simp: unlink_old_def dest!: receipts_limits_keep split: option.splits if_splits)
    (auto simp: limits_eq dest!: fair_limits_keep(1))
  done

lemma limits_push [simp]:
  "limits (push_receipt i rc l) = limits l" "limits (put_flight f fl l) = limits l"
  by (simp_all add: limits_eq)

lemma completeOnce_limits: "completeOnce now k m rp l = Some (x, l') \<Longrightarrow> limits l' = limits l"
  by (auto simp: completeOnce_def Let_def dest!: limits_keep
      split: if_splits sum.splits prod.splits)

lemma claim_limits: "claim_owner k i l = Some (x, l') \<Longrightarrow> limits l' = limits l"
  by (auto simp: claim_owner_def install_owner_def Let_def fair_reserveOwner_def limits_eq
      dest!: flight_limits_keep(1,2) fair_limits_keep
      split: if_splits prod.splits bool.splits option.splits sum.splits)

lemma attempt_limits: "acquireAttempt rs now k i l = Some (x, l') \<Longrightarrow> limits l' = limits l"
  by (auto simp: acquireAttempt_def dest!: sweep_limits_keep claim_limits split: option.splits)

lemma calls_limits_keep:
  "acquire rs now clk now' k i l = Some (x, l') \<Longrightarrow> limits l' = limits l"
  "Complete rs now clk now' k m rp l = Some (evs, l') \<Longrightarrow> limits l' = limits l"
  "Acknowledge now k l = Some (b, l') \<Longrightarrow> limits l' = limits l"
  "Replay rs now k l = Some (r, l') \<Longrightarrow> limits l' = limits l"
  "ObserveDependency now k l = Some (d, l') \<Longrightarrow> limits l' = limits l"
  "ExactAdmissionProfile now k l = Some (p, l') \<Longrightarrow> limits l' = limits l"
  subgoal by (auto simp: acquire_def dest!: attempt_limits sweep_limits_keep split: if_splits attempt.splits)
  subgoal by (auto simp: Complete_def Let_def dest!: completeOnce_limits sweep_limits_keep split: if_splits)
  subgoal by (auto simp: Acknowledge_def dest!: limits_keep
        split: if_splits option.splits)
  subgoal by (auto simp: Replay_def dest!: limits_keep split: if_splits option.splits)
  subgoal by (auto simp: ObserveDependency_def Let_def dest!: limits_keep split: if_splits option.splits)
  subgoal by (auto simp: ExactAdmissionProfile_def Let_def dest!: limits_keep split: if_splits option.splits)
  done

lemma lease_limits_keep:
  "InstallAbortHook f h l = Some (b, l') \<Longrightarrow> limits l' = limits l"
  "SetAbortHook f g l = Some l' \<Longrightarrow> limits l' = limits l"
  "HandOff f l = Some (b, l') \<Longrightarrow> limits l' = limits l"
  "CompleteExecution f ok l = Some (x, l') \<Longrightarrow> limits l' = limits l"
  "Abort f l = Some (x, l') \<Longrightarrow> limits l' = limits l"
  "subscribe k f rf ef l = Some (y, l') \<Longrightarrow> limits l' = limits l"
  subgoal by (auto simp: InstallAbortHook_def limits_eq split: if_splits)
  subgoal by (auto simp: SetAbortHook_def limits_eq)
  subgoal by (auto simp: HandOff_def limits_eq split: if_splits)
  subgoal by (auto simp: CompleteExecution_def Let_def dest!: flight_ops_limits_keep split: if_splits)
  subgoal by (auto simp: Abort_def Let_def dest!: flight_ops_limits_keep split: if_splits option.splits)
    (auto simp: limits_eq dest!: limits_keep)
  subgoal by (auto simp: subscribe_def Let_def limits_eq dest!: sub_limits_keep
        split: if_splits option.splits prod.splits bool.splits)
  done

lemma exec_limits:
  assumes "exec c l = Some l'"
  shows "limits l' = limits l"
  using assms by (cases c) (auto dest: calls_limits_keep lease_limits_keep sweep_limits_keep)

lemma reachable_limits:
  "reachable sd cap l \<Longrightarrow> limits l = limits (newRPCExecutionLedger sd cap :: ('i, 'm) ledger)"
  for l :: "('i, 'm) ledger"
  by (induction rule: reachable.induct) (auto dest: exec_limits)

lemma own_key_bij:
  assumes o: "own P R h u c"
  shows "bij_betw (\<lambda>r. rs_key (the (h r))) (held h (\<lambda>v. Q (rs_key v))) {k \<in> dom P \<union> dom R. Q k}"
    and "bij_betw (\<lambda>r. rs_key (the (h r))) (held h (\<lambda>v. Q (rs_key v) \<and> rs_pending v)) {k \<in> dom P. Q k}"
proof -
  have bk: "P (rs_key v) = Some r \<and> rs_pending v \<or> R (rs_key v) = Some r \<and> P (rs_key v) = None"
    if "h r = Some v" "\<not> rs_released v" for r v
    using ownD(4,8) [OF o that] ownD(1) [OF o, of "rs_key v"]
    by (cases "rs_pending v"; cases "P (rs_key v)") auto
  have inj: "inj_on (\<lambda>r. rs_key (the (h r))) (held h X)" for X
  proof (rule inj_onI)
    fix a b assume "a \<in> held h X" "b \<in> held h X" and e: "rs_key (the (h a)) = rs_key (the (h b))"
    then obtain v w where "h a = Some v" "\<not> rs_released v" "h b = Some w" "\<not> rs_released w"
      by (auto simp: held_def)
    then show "a = b" using bk [of a v] bk [of b w] e by auto
  qed
  have P: "P k = Some r \<Longrightarrow> r \<in> held h (\<lambda>v. rs_key v = k \<and> rs_pending v)" for k r
    using ownD(2) [OF o, of k r] by (simp add: held_def)
  have R: "R k = Some r \<Longrightarrow> r \<in> held h (\<lambda>v. rs_key v = k)" for k r
    using ownD(3) [OF o, of k r] by (simp add: held_def)
  have "(\<lambda>r. rs_key (the (h r))) ` held h (\<lambda>v. Q (rs_key v)) = {k \<in> dom P \<union> dom R. Q k}"
  proof (intro set_eqI iffI)
    fix k assume "k \<in> (\<lambda>r. rs_key (the (h r))) ` held h (\<lambda>v. Q (rs_key v))"
    then obtain r v where "h r = Some v" "\<not> rs_released v" "Q k" "k = rs_key v" by (auto simp: held_def)
    then show "k \<in> {k \<in> dom P \<union> dom R. Q k}" using bk [of r v] by auto
  next
    fix k assume "k \<in> {k \<in> dom P \<union> dom R. Q k}"
    then obtain r where "Q k" "P k = Some r \<or> R k = Some r" by auto
    then have "r \<in> held h (\<lambda>v. Q (rs_key v))" "rs_key (the (h r)) = k" using P [of k r] R [of k r]
      by (auto simp: held_def)
    then show "k \<in> (\<lambda>r. rs_key (the (h r))) ` held h (\<lambda>v. Q (rs_key v))" by force
  qed
  then show "bij_betw (\<lambda>r. rs_key (the (h r))) (held h (\<lambda>v. Q (rs_key v))) {k \<in> dom P \<union> dom R. Q k}"
    using inj by (simp add: bij_betw_def)
  have "(\<lambda>r. rs_key (the (h r))) ` held h (\<lambda>v. Q (rs_key v) \<and> rs_pending v) = {k \<in> dom P. Q k}"
  proof (intro set_eqI iffI)
    fix k assume "k \<in> (\<lambda>r. rs_key (the (h r))) ` held h (\<lambda>v. Q (rs_key v) \<and> rs_pending v)"
    then obtain r v where "h r = Some v" "\<not> rs_released v" "rs_pending v" "Q k" "k = rs_key v"
      by (auto simp: held_def)
    then show "k \<in> {k \<in> dom P. Q k}" using ownD(4) [OF o, of r v] by auto
  next
    fix k assume "k \<in> {k \<in> dom P. Q k}"
    then obtain r where "Q k" "P k = Some r" by auto
    then have "r \<in> held h (\<lambda>v. Q (rs_key v) \<and> rs_pending v)" "rs_key (the (h r)) = k" using P [of k r]
      by (auto simp: held_def)
    then show "k \<in> (\<lambda>r. rs_key (the (h r))) ` held h (\<lambda>v. Q (rs_key v) \<and> rs_pending v)" by force
  qed
  then show "bij_betw (\<lambda>r. rs_key (the (h r))) (held h (\<lambda>v. Q (rs_key v) \<and> rs_pending v)) {k \<in> dom P. Q k}"
    using inj by (simp add: bij_betw_def)
qed

lemma own_counts:
  assumes o: "own P R h u c"
  shows "card (held h (\<lambda>v. Q (rs_key v))) = card {k \<in> dom P \<union> dom R. Q k}"
    and "card (held h (\<lambda>v. Q (rs_key v) \<and> rs_pending v)) = card {k \<in> dom P. Q k}"
  using own_key_bij [OF o, of Q] by (auto intro: bij_betw_same_card)

lemma view_dom: "ledger_inv l \<Longrightarrow> dom (reservation_map (view l)) = dom (pend l)"
proof (intro set_eqI iffI)
  fix k assume i: "ledger_inv l" and "k \<in> dom (pend l)"
  then obtain f where f: "pend l k = Some f" by auto
  obtain fl r where "view l k = Some fl" "fl_reservation fl = Some r" using pending_flight [OF i f] by metis
  then show "k \<in> dom (reservation_map (view l))" by auto
qed (auto simp: view_def)

lemma rres_dom: "ledger_inv l \<Longrightarrow> dom (rres l) = dom (rcpt l)"
proof (intro set_eqI iffI)
  fix k assume i: "ledger_inv l" and "k \<in> dom (rcpt l)"
  then obtain rc where rc: "rcpt l k = Some rc" by auto
  then have "rc \<in> set (sh_order (ld_shards l (shardIndex l k)))"
    using shard_wf_receipt [OF ledger_invD(1) [OF i], of k rc] by simp
  then show "k \<in> dom (rres l)"
    using shard_wf_member(3) [OF ledger_invD(1) [OF i]] rc by (fastforce simp: rres_def)
qed (auto simp: rres_def)

lemma pending_acquire:
  assumes inv: "ledger_inv l" and p: "pend l key = Some f" and fl: "flights l f = Some fl" and nz: "ek_req key \<noteq> 0"
  shows "\<exists>l'. acquire rs now clk now' key ident l =
      Some (if \<not> matches (fl_identity fl) ident then Inl (identityMismatch (fl_identity fl))
            else if fl_acknowledged fl
              then Inr (AcquireAcknowledged (fl_admissionSeq fl) (fl_executionDone fl) (fl_executionOK fl))
            else Inr (AcquirePending (fl_admissionSeq fl) f), l') \<and> pend l' = pend l \<and> flights l' = flights l"
proof -
  obtain l1 where e: "expireLocked (shardIndex l key) now l = Some l1"
    and sw: "swept (\<lambda>rc. rc_expiresAt rc \<le> now) l l1" using expireLocked_ok [OF inv] by blast
  note q = quietD [OF swept_quiet [OF sw]]
  have p1: "pend l1 key = Some f" "flights l1 f = Some fl" using p fl q by simp_all
  have "rcpt l1 key = None" using pending_flight [OF swept_inv [OF sw] p1(1)] by metis
  then show ?thesis using e p1 nz q by (auto simp: acquire_def acquireAttempt_def)
qed

lemma receipt_acquire:
  assumes inv: "ledger_inv l" and r: "rcpt l key = Some rc" "now < rc_expiresAt rc" and nz: "ek_req key \<noteq> 0"
  shows "\<exists>l'. acquire rs now clk now' key ident l =
      Some (if \<not> matches (rc_identity rc) ident then Inl (identityMismatch (rc_identity rc))
            else if rc_acknowledged rc
              then Inr (AcquireAcknowledged (rc_admissionSeq rc) (rc_executionKnown rc) (rc_executionOK rc))
            else if rc_unavailable rc then Inl ErrRPCResultFlightCapacity
            else (case rs key of None \<Rightarrow> Inl ErrRPCResultReplayUnavailable
              | Some m \<Rightarrow> Inr (AcquireCompleted (rc_admissionSeq rc) m (rc_executionKnown rc) (rc_executionOK rc))), l')
      \<and> pend l' = pend l \<and> flights l' = flights l"
proof -
  obtain l1 where e: "expireLocked (shardIndex l key) now l = Some l1"
    and sw: "swept (\<lambda>rc. rc_expiresAt rc \<le> now) l l1" using expireLocked_ok [OF inv] by blast
  note q = quietD [OF swept_quiet [OF sw]]
  have "rcpt l1 key = Some rc" using swept_survives [OF sw, of "{now}"] r by (simp add: survives_def)
  then show ?thesis using e nz q by (auto simp: acquire_def acquireAttempt_def split: option.splits)
qed

lemma run_pending_flight:
  assumes inv: "ledger_inv l" and p: "pend l key = Some f" and fl: "flights l f = Some fl"
    and r: "run cs l = Some l'" and ns: "\<forall>c\<in>set cs. \<not> settles key f c"
  shows "pend l' key = Some f" and "\<exists>fl'. flights l' f = Some fl' \<and> fl_identity fl' = fl_identity fl \<and>
    fl_admissionSeq fl' = fl_admissionSeq fl"
proof -
  show "pend l' key = Some f" by (rule run_keeps_pending [OF inv r p ns])
  have "flights_kept (flights l) (flights l')" using run_steady [OF inv r] by (simp add: steady_def)
  then show "\<exists>fl'. flights l' f = Some fl' \<and> fl_identity fl' = fl_identity fl \<and>
    fl_admissionSeq fl' = fl_admissionSeq fl" using fl unfolding flights_kept_def by metis
qed

lemma Complete_pending:
  assumes inv: "ledger_inv l" and p: "pend l key = Some f" and nz: "ek_req key \<noteq> 0"
  shows "\<exists>evs l' fl rc. Complete rs now clk now' key enc rp l = Some (evs, l') \<and> ledger_inv l' \<and>
    pend l' = (pend l)(key := None) \<and> flights l f = Some fl \<and>
    flights l' = (flights l)(f \<mapsto> finished (Some enc) fl) \<and>
    rc_key rc = key \<and> rc_expiresAt rc = now + rpcExecutionReceiptTTL \<and>
    rc_identity rc = fl_identity fl \<and> rc_unavailable rc = (\<not> (rp \<and> rs key \<noteq> None)) \<and> rc_acknowledged rc = False \<and>
    rcpt l' key = (if fl_acknowledged fl then None else Some rc) \<and>
    evs = map (\<lambda>c. ResultCallback c (Some enc) True) (fl_subscribers fl) @
      map (\<lambda>c. ExecutionCallback c (fl_executionDone fl \<and> fl_executionOK fl)) (fl_executionSubscribers fl)"
proof -
  let ?rp = "rp \<and> rs key \<noteq> None"
  obtain l1 where e: "expireLocked (shardIndex l key) now l = Some l1"
    and sw: "swept (\<lambda>rc. rc_expiresAt rc \<le> now) l l1" using expireLocked_ok [OF inv] by blast
  have "pend l1 key = Some f" using p quietD(2) [OF swept_quiet [OF sw]] by simp
  from completeOnce_pending [OF inv e swept_inv [OF sw] swept_quiet [OF sw] this, of enc ?rp]
  obtain evs l' fl rc where c: "completeOnce now key enc ?rp l = Some ((True, evs), l')" "ledger_inv l'"
    "pend l' = (pend l)(key := None)" "flights l f = Some fl"
    "flights l' = (flights l)(f \<mapsto> finished (Some enc) fl)"
    "rc_key rc = key" "rc_expiresAt rc = now + rpcExecutionReceiptTTL" "rc_identity rc = fl_identity fl"
    "rc_unavailable rc = (\<not> ?rp)" "rc_acknowledged rc = False"
    "rcpt l' = (rcpt l1)(key := (if fl_acknowledged fl then None else Some rc))"
    "evs = map (\<lambda>c. ResultCallback c (Some enc) True) (fl_subscribers fl) @
      map (\<lambda>c. ExecutionCallback c (fl_executionDone fl \<and> fl_executionOK fl)) (fl_executionSubscribers fl)"
    by metis
  have "Complete rs now clk now' key enc rp l = Some (evs, l')" using nz c(1) by (simp add: Complete_def Let_def)
  moreover have "rcpt l' key = (if fl_acknowledged fl then None else Some rc)" using c(11) by simp
  ultimately show ?thesis using c(2-10,12) by blast
qed

subsection \<open>The counters count\<close>

lemma reservation_dom:
  assumes inv: "ledger_inv l"
  shows "{k \<in> dom (reservation_map (view l)) \<union> dom (rres l). Q k} = {k \<in> dom (pend l) \<union> dom (rcpt l). Q k}"
    and "{k \<in> dom (reservation_map (view l)). Q k} = {k \<in> dom (pend l). Q k}"
  using view_dom [OF inv] rres_dom [OF inv] by simp_all

lemma ledger_counts:
  assumes inv: "ledger_inv l"
  shows "fl_used (flightLimit l) = int (card (dom (pend l)))"
    and "receiptCount l = int (card (dom (rcpt l)))"
    and "fl_used (globalEntries (fairBudget l)) = int (card (dom (pend l) \<union> dom (rcpt l)))"
    and "entries (authSnapshot (fairBudget l) a) = int (card {k \<in> dom (pend l) \<union> dom (rcpt l). ek_auth k = a})"
    and "upending (authSnapshot (fairBudget l) a) = int (card {k \<in> dom (pend l). ek_auth k = a})"
    and "entries (sessionSnapshot (fairBudget l) s) = int (card {k \<in> dom (pend l) \<union> dom (rcpt l). session_of k = s})"
proof -
  note res = ledger_invD(3) [OF inv]
  note o = resourcesD(1) [OF res] and fi = resourcesD(2) [OF res]
  note C = own_counts [OF o] and D = reservation_dom [OF inv]
  have u: "fl_used (flightLimit l) = int (card (held (reservations (fairBudget l)) rs_pending))"
    and c: "receiptCount l = int (card (held (reservations (fairBudget l)) (\<lambda>v. \<not> rs_pending v)))"
    using ownD(6,7) [OF o] by simp_all
  have p: "card (held (reservations (fairBudget l)) rs_pending) = card (dom (pend l))"
    using C(2) [of "\<lambda>_. True"] D(2) [of "\<lambda>_. True"] by simp
  have t: "card (held (reservations (fairBudget l)) (\<lambda>_. True)) = card (dom (pend l) \<union> dom (rcpt l))"
    using C(1) [of "\<lambda>_. True"] D(1) [of "\<lambda>_. True"] by (simp add: Un_def)
  show "fl_used (flightLimit l) = int (card (dom (pend l)))" using u p by simp
  show "fl_used (globalEntries (fairBudget l)) = int (card (dom (pend l) \<union> dom (rcpt l)))"
    using fair_invD(4) [OF fi] t by simp
  have fin: "finite (held (reservations (fairBudget l)) X)" for X using finite_held [OF ownD(5) [OF o]] .
  have "held (reservations (fairBudget l)) (\<lambda>_. True) =
      held (reservations (fairBudget l)) rs_pending \<union> held (reservations (fairBudget l)) (\<lambda>v. \<not> rs_pending v)"
    "held (reservations (fairBudget l)) rs_pending \<inter> held (reservations (fairBudget l)) (\<lambda>v. \<not> rs_pending v) = {}"
    by (auto simp: held_def)
  then have s: "card (held (reservations (fairBudget l)) (\<lambda>_. True)) =
     card (held (reservations (fairBudget l)) rs_pending) + card (held (reservations (fairBudget l)) (\<lambda>v. \<not> rs_pending v))"
    using card_Un_disjoint [OF fin fin] by simp
  have nz: "card (dom (pend l) \<union> dom (rcpt l)) = card (dom (pend l)) + card (dom (rcpt l))"
  proof -
    have b: "bij_betw (\<lambda>r. rs_key (the (reservations (fairBudget l) r))) (held (reservations (fairBudget l)) (\<lambda>_. True))
       (dom (pend l) \<union> dom (rcpt l))"
      using own_key_bij(1) [OF o, of "\<lambda>_. True"] D(1) [of "\<lambda>_. True"] by (simp add: Un_def)
    have f: "finite (dom (pend l) \<union> dom (rcpt l))" using bij_betw_finite [OF b] fin by simp
    have "dom (pend l) \<inter> dom (rcpt l) = {}"
      using pending_flight [OF inv] by fastforce
    then show ?thesis using f by (simp add: card_Un_disjoint)
  qed
  show "receiptCount l = int (card (dom (rcpt l)))" using c s t p nz by simp
  show "entries (authSnapshot (fairBudget l) a) = int (card {k \<in> dom (pend l) \<union> dom (rcpt l). ek_auth k = a})"
    using fair_invD(5) [OF fi, of a] C(1) [of "\<lambda>k. ek_auth k = a"] D(1) [of "\<lambda>k. ek_auth k = a"] by simp
  show "upending (authSnapshot (fairBudget l) a) = int (card {k \<in> dom (pend l). ek_auth k = a})"
    using fair_invD(6) [OF fi, of a] C(2) [of "\<lambda>k. ek_auth k = a"] D(2) [of "\<lambda>k. ek_auth k = a"] by simp
  show "entries (sessionSnapshot (fairBudget l) s) = int (card {k \<in> dom (pend l) \<union> dom (rcpt l). session_of k = s})"
    using fair_invD(9) [OF fi, of s] C(1) [of "\<lambda>k. session_of k = s"] D(1) [of "\<lambda>k. session_of k = s"] by simp
qed

text \<open>The callbacks a pending request retains, for its result and for its execution.\<close>

definition callbacks :: "('i, 'm) ledger \<Rightarrow> exec_key \<Rightarrow> nat" where
  "callbacks l k = (case view l k of None \<Rightarrow> 0
     | Some fl \<Rightarrow> length (fl_subscribers fl) + length (fl_executionSubscribers fl))"

lemma slots_are_callbacks:
  assumes "ledger_inv l"
  shows "slot_map (view l) k = int (callbacks l k)"
proof (cases "pend l k")
  case None
  then show ?thesis by (simp add: callbacks_def view_def)
next
  case (Some f)
  obtain fl r where "view l k = Some fl" "live_flight (subscriberPerFlight l) fl"
    using pending_flight [OF assms Some] by metis
  then show ?thesis by (simp add: callbacks_def live_flight_def)
qed

lemma pending_finite: "ledger_inv l \<Longrightarrow> finite (dom (pend l))"
proof -
  assume inv: "ledger_inv l"
  note o = resourcesD(1) [OF ledger_invD(3) [OF inv]]
  have "finite (dom (reservation_map (view l)))"
    using bij_betw_finite [OF own_key_bij(2) [OF o, of "\<lambda>_. True"]] finite_held [OF ownD(5) [OF o]] by simp
  then show ?thesis by (simp add: view_dom [OF inv])
qed

lemma callback_counts:
  assumes inv: "ledger_inv l"
  shows "sub_used (subscriberBudget l) = (\<Sum>k\<in>dom (pend l). int (callbacks l k))"
    and "sub_authSnapshot (subscriberBudget l) a = (\<Sum>k | k \<in> dom (pend l) \<and> ek_auth k = a. int (callbacks l k))"
    and "sub_sessionSnapshot (subscriberBudget l) s = (\<Sum>k | k \<in> dom (pend l) \<and> session_of k = s. int (callbacks l k))"
proof -
  note S = resourcesD(5) [OF ledger_invD(3) [OF inv]]
  have N: "slot_map (view l) = (\<lambda>k. int (callbacks l k))" using slots_are_callbacks [OF inv] by blast
  have T: "tot (\<lambda>k. int (callbacks l k)) Q = (\<Sum>k | k \<in> dom (pend l) \<and> Q k. int (callbacks l k))" for Q
    unfolding tot_def
    by (rule sum.mono_neutral_left)
      (use pending_finite [OF inv] in \<open>auto simp: callbacks_def view_def split: option.splits\<close>)
  show "sub_used (subscriberBudget l) = (\<Sum>k\<in>dom (pend l). int (callbacks l k))"
    using S T [of "\<lambda>_. True"] unfolding N slots_ok_def by simp
  show "sub_authSnapshot (subscriberBudget l) a = (\<Sum>k | k \<in> dom (pend l) \<and> ek_auth k = a. int (callbacks l k))"
    using S unfolding N slots_ok_def T by blast
  show "sub_sessionSnapshot (subscriberBudget l) s = (\<Sum>k | k \<in> dom (pend l) \<and> session_of k = s. int (callbacks l k))"
    using S unfolding N slots_ok_def T by blast
qed

end
