(* ===== verification/Ledger_Properties.thy ===== *)
theory Ledger_Properties
  imports Ledger_Facts
begin

text \<open>
  The properties of the execution ledger, over every reachable state and every run. The definitions
  below are the concrete ledger on which the witnesses evaluate.
\<close>

definition demo_caps :: ledger_capacity where
  "demo_caps = \<lparr>cp_maxPending = 4, cp_maxPendingPerAuth = 2, cp_globalMaxEntries = 8, cp_authMaxEntries = 4,
     cp_sessionMaxEntries = 3, cp_subscriberMaxGlobal = 8, cp_subscriberMaxAuth = 4,
     cp_subscriberMaxSession = 4, cp_subscriberMaxPerFlight = 2\<rparr>"

definition demo_key :: exec_key where
  "demo_key = \<lparr>ek_auth = [1, 2], ek_session = 7, ek_req = 12\<rparr>"

definition demo_identity :: "nat identity" where
  "demo_identity = \<lparr>id_exact = Some 5, id_profile = 1, id_valid = True\<rparr>"

definition demo_other :: "nat identity" where
  "demo_other = \<lparr>id_exact = Some 6, id_profile = 1, id_valid = True\<rparr>"

definition demo_new :: "(nat, nat) ledger" where
  "demo_new = newRPCExecutionLedger (\<lambda>_. 0) demo_caps"

definition demo_claim :: "(nat, nat) ledger_call" where
  "demo_claim = CallAcquire (\<lambda>_. None) 10 (\<lambda>_. 10) 10 demo_key demo_identity"

definition demo_owned :: "(nat, nat) ledger" where
  "demo_owned = the (exec demo_claim demo_new)"

lemma demo_reachable [simp]: "reachable (\<lambda>_. 0) demo_caps demo_new"
  unfolding demo_new_def by (rule reachable_new)

lemma exec_the:
  assumes "reachable sd cap l" and "enabled c l"
  shows "exec c l = Some (the (exec c l))" and "reachable sd cap (the (exec c l))"
proof -
  obtain l' where l': "exec c l = Some l'" using exec_ok [OF reachable_inv [OF assms(1)] assms(2)] by blast
  then show "exec c l = Some (the (exec c l))" by simp
  show "reachable sd cap (the (exec c l))" using reachable_step [OF assms l'] l' by simp
qed

lemma demo_owned_reachable [simp]: "reachable (\<lambda>_. 0) demo_caps demo_owned"
  unfolding demo_owned_def by (rule exec_the(2)) (simp_all add: demo_claim_def)

lemma demo_owned_pending [simp]: "pend demo_owned demo_key = Some 0"
  by code_simp

lemma demo_key_valid [simp]: "ek_req demo_key \<noteq> 0"
  by (simp add: demo_key_def)

subsection \<open>Safety of every operation\<close>

text \<open>C1: no call a client can make on a reachable ledger panics: the reservation, flight-limit,
  subscriber, admission-tracker and receipt-count underflow panics, the double close of a flight
  and every missing-object dereference are unreachable, and the ledger stays reachable.\<close>

theorem ledger_never_panics:
  assumes "reachable sd cap l" and "enabled c l"
  shows "\<exists>l'. exec c l = Some l' \<and> reachable sd cap l'"
  using exec_the [OF assms] by blast

theorem ledger_never_panics_witness:
  "\<exists>l'. exec (CallAbort 0) demo_owned = Some l' \<and> reachable (\<lambda>_. 0) demo_caps l'"
proof (rule ledger_never_panics)
  have "leases demo_owned 0 \<noteq> None" by code_simp
  then show "enabled (CallAbort 0) demo_owned" by simp
qed simp

subsection \<open>At most one execution\<close>

text \<open>C2: once a request is claimed, every later claim of the same key is answered from the pending
  flight (wait for it, already acknowledged, or a different body), whatever calls other clients
  make in between, until the owner's flight is completed or aborted; no second owner appears.\<close>

theorem single_owner_until_settled:
  assumes "reachable sd cap l" and "pend l key = Some f" and "flights l f = Some fl"
    and "run cs l = Some l'" and "\<forall>c\<in>set cs. \<not> settles key f c" and "ek_req key \<noteq> 0"
  shows "\<exists>res l''. acquire rs now clk now' key ident l' = Some (res, l'') \<and> pend l'' key = Some f \<and>
    (if matches (fl_identity fl) ident
     then res = Inr (AcquirePending (fl_admissionSeq fl) f) \<or>
          (\<exists>known ok. res = Inr (AcquireAcknowledged (fl_admissionSeq fl) known ok))
     else res = Inl (identityMismatch (fl_identity fl)))"
proof -
  note inv = reachable_inv [OF assms(1)]
  have p: "pend l' key = Some f" by (rule run_pending_flight(1) [OF inv assms(2-5)])
  obtain fl' where fl': "flights l' f = Some fl'" "fl_identity fl' = fl_identity fl"
    "fl_admissionSeq fl' = fl_admissionSeq fl" using run_pending_flight(2) [OF inv assms(2-5)] by blast
  from pending_acquire [OF run_inv [OF inv assms(4)] p fl'(1) assms(6), of rs now clk now' ident]
  obtain l'' where a: "acquire rs now clk now' key ident l' =
      Some (if \<not> matches (fl_identity fl) ident then Inl (identityMismatch (fl_identity fl))
            else if fl_acknowledged fl'
              then Inr (AcquireAcknowledged (fl_admissionSeq fl) (fl_executionDone fl') (fl_executionOK fl'))
            else Inr (AcquirePending (fl_admissionSeq fl) f), l'')" "pend l'' = pend l'"
    unfolding fl'(2,3) by blast
  then show ?thesis using p by (cases "fl_acknowledged fl'") auto
qed

theorem single_owner_until_settled_witness:
  "\<exists>res l''. acquire (\<lambda>_. None) 11 (\<lambda>_. 11) 11 demo_key demo_other demo_owned = Some (res, l'') \<and>
     pend l'' demo_key = Some 0 \<and> res = Inl (identityMismatch demo_identity)"
proof -
  obtain fl where fl: "flights demo_owned 0 = Some fl"
    using pending_flight [OF reachable_inv [OF demo_owned_reachable] demo_owned_pending] by metis
  have "map_option fl_identity (flights demo_owned 0) = Some demo_identity" by code_simp
  then have i: "fl_identity fl = demo_identity" using fl by simp
  have m: "\<not> matches demo_identity demo_other" by code_simp
  show ?thesis
    using single_owner_until_settled [OF demo_owned_reachable demo_owned_pending fl, of "[]" demo_owned
        "\<lambda>_. None" 11 "\<lambda>_. 11" 11 demo_other] i m by simp
qed

text \<open>C3: after an owner completes a request that was not acknowledged yet, no claim of the same key
  becomes an owner again while every clock reading stays below the receipt's expiry (331 s after
  completion), unless the client acknowledges the result or its session is destroyed. A matching claim is
  answered from the replay store, or that the result is no longer there; when the completion could not be
  retained for replay, the tombstone it leaves answers with the capacity error.\<close>

theorem at_most_once_within_ttl:
  assumes "reachable sd cap l" and "pend l key = Some f" and "ek_req key \<noteq> 0"
    and "flights l f = Some fl" and "\<not> fl_acknowledged fl"
    and "Complete rs now clk now' key enc rp l = Some (evs, l1)" and "run cs l1 = Some l2"
    and "\<forall>c\<in>set cs. \<not> discards key c \<and> (\<forall>t\<in>reads c. t < now + rpcExecutionReceiptTTL)"
    and "t < now + rpcExecutionReceiptTTL"
  shows "\<exists>res l3. acquire rs2 t clk2 t' key ident l2 = Some (res, l3) \<and>
    (\<forall>sq g. res \<noteq> Inr (AcquireOwner sq g)) \<and>
    (if \<not> matches (fl_identity fl) ident then res = Inl (identityMismatch (fl_identity fl))
     else if rp \<and> rs key \<noteq> None
     then (case rs2 key of None \<Rightarrow> res = Inl ErrRPCResultReplayUnavailable
       | Some m \<Rightarrow> \<exists>sq known ok. res = Inr (AcquireCompleted sq m known ok))
     else res = Inl ErrRPCResultFlightCapacity)"
proof -
  note inv = reachable_inv [OF assms(1)]
  obtain rc where i1: "ledger_inv l1" and rc: "rcpt l1 key = Some rc"
    "rc_expiresAt rc = now + rpcExecutionReceiptTTL" "rc_identity rc = fl_identity fl"
    "rc_unavailable rc = (\<not> (rp \<and> rs key \<noteq> None))" "\<not> rc_acknowledged rc"
    using Complete_pending [OF inv assms(2,3), of rs now clk now' enc rp] assms(4-6) by auto
  have r2: "rcpt l2 key = Some rc"
    by (rule run_keeps_receipt [OF i1 assms(7) rc(1)]) (use assms(8) rc(2) in simp)
  have t: "t < rc_expiresAt rc" using assms(9) rc(2) by simp
  from receipt_acquire [OF run_inv [OF i1 assms(7)] r2 t assms(3), of rs2 clk2 t' ident] rc(3-5)
  show ?thesis by (auto split: option.splits)
qed

theorem at_most_once_within_ttl_witness:
  "\<exists>evs l1. Complete (\<lambda>_. Some 9) 20 (\<lambda>_. 20) 20 demo_key 9 True demo_owned = Some (evs, l1) \<and>
     (\<exists>res l3. acquire (\<lambda>_. Some 9) 30 (\<lambda>_. 30) 30 demo_key demo_identity l1 = Some (res, l3) \<and>
       (\<exists>sq known ok. res = Inr (AcquireCompleted sq 9 known ok)))"
proof -
  note inv = reachable_inv [OF demo_owned_reachable]
  obtain evs l1 where c: "Complete (\<lambda>_. Some 9) 20 (\<lambda>_. 20) 20 demo_key 9 True demo_owned = Some (evs, l1)"
    using Complete_ok [OF inv] by blast
  obtain fl where fl: "flights demo_owned 0 = Some fl"
    using pending_flight [OF inv demo_owned_pending] by metis
  have "map_option (\<lambda>fl. (fl_acknowledged fl, matches (fl_identity fl) demo_identity)) (flights demo_owned 0)
    = Some (False, True)" by code_simp
  then have i: "\<not> fl_acknowledged fl" "matches (fl_identity fl) demo_identity" using fl by simp_all
  show ?thesis
    using at_most_once_within_ttl [OF demo_owned_reachable demo_owned_pending demo_key_valid fl i(1) c, of "[]" l1
        30 "\<lambda>_. Some 9" "\<lambda>_. 30" 30 demo_identity] c i(2) by (simp add: rpcExecutionReceiptTTL_def) metis
qed

subsection \<open>Accounting and limits\<close>

text \<open>C4: in every reachable state the counters count: the pending limit equals the number of
  pending keys, the receipt counter the number of receipts, every global, auth-key and session
  usage the number of keys it covers, and the subscriber budget at each of its three scopes the callbacks
  that pending requests retain, so nothing leaks and nothing is returned twice.\<close>

theorem ledger_accounting:
  assumes "reachable sd cap l"
  shows "fl_used (flightLimit l) = int (card (dom (pend l))) \<and>
    receiptCount l = int (card (dom (rcpt l))) \<and>
    receiptBudgetBytes l = 384 * int (card (dom (rcpt l))) \<and>
    fl_used (globalEntries (fairBudget l)) = int (card (dom (pend l) \<union> dom (rcpt l))) \<and>
    entries (authSnapshot (fairBudget l) a) = int (card {k \<in> dom (pend l) \<union> dom (rcpt l). ek_auth k = a}) \<and>
    upending (authSnapshot (fairBudget l) a) = int (card {k \<in> dom (pend l). ek_auth k = a}) \<and>
    entries (sessionSnapshot (fairBudget l) s) = int (card {k \<in> dom (pend l) \<union> dom (rcpt l). session_of k = s}) \<and>
    sub_used (subscriberBudget l) = (\<Sum>k\<in>dom (pend l). int (callbacks l k)) \<and>
    sub_authSnapshot (subscriberBudget l) a = (\<Sum>k | k \<in> dom (pend l) \<and> ek_auth k = a. int (callbacks l k)) \<and>
    sub_sessionSnapshot (subscriberBudget l) s = (\<Sum>k | k \<in> dom (pend l) \<and> session_of k = s. int (callbacks l k))"
  using ledger_counts [OF reachable_inv [OF assms]] callback_counts [OF reachable_inv [OF assms]]
  by (simp add: receiptBudgetBytes_def rpcExecutionReceiptBudgetBytes_def)

theorem ledger_accounting_witness:
  "int (card (dom (pend demo_owned))) = 1 \<and> card (dom (rcpt demo_owned)) = 0"
proof -
  have "fl_used (flightLimit demo_owned) = 1" "receiptCount demo_owned = 0" by code_simp+
  then show ?thesis using ledger_accounting [OF demo_owned_reachable] by simp
qed

text \<open>C5: the configured limits hold in every reachable state: pending requests globally and per
  auth key, tracked requests globally, per auth key and per session, and retained callbacks
  globally, per auth key, per session and per flight.\<close>

theorem ledger_within_limits:
  fixes l :: "('i, 'm) ledger"
  assumes "reachable sd cap l"
  shows "int (card (dom (pend l))) \<le> or_default (cp_maxPending cap) 8192 \<and>
    int (card {k \<in> dom (pend l). ek_auth k = a}) \<le>
      or_default (cp_maxPendingPerAuth cap) (or_default (cp_maxPending cap) 8192) \<and>
    int (card (dom (pend l) \<union> dom (rcpt l))) \<le> or_default (cp_globalMaxEntries cap) (2 ^ 18) \<and>
    int (card {k \<in> dom (pend l) \<union> dom (rcpt l). ek_auth k = a}) \<le>
      or_default (cp_authMaxEntries cap) (or_default (cp_globalMaxEntries cap) (2 ^ 18)) \<and>
    int (card {k \<in> dom (pend l) \<union> dom (rcpt l). session_of k = s}) \<le> or_default (cp_sessionMaxEntries cap)
      (or_default (cp_authMaxEntries cap) (or_default (cp_globalMaxEntries cap) (2 ^ 18))) \<and>
    (\<Sum>k\<in>dom (pend l). int (callbacks l k)) \<le> or_default (cp_subscriberMaxGlobal cap) rpcResultSubscriberMaxGlobal \<and>
    (\<Sum>k | k \<in> dom (pend l) \<and> ek_auth k = a. int (callbacks l k)) \<le>
      or_default (cp_subscriberMaxAuth cap) rpcResultSubscriberMaxAuth \<and>
    (\<Sum>k | k \<in> dom (pend l) \<and> session_of k = s. int (callbacks l k)) \<le>
      or_default (cp_subscriberMaxSession cap) rpcResultSubscriberMaxSession \<and>
    (\<forall>f fl. flights l f = Some fl \<longrightarrow> fl_subscriberSlots fl \<le>
       or_default (cp_subscriberMaxPerFlight cap) rpcResultSubscriberMaxPerFlight)"
proof -
  note inv = reachable_inv [OF assms]
  note res = ledger_invD(3) [OF inv] and C = ledger_counts [OF inv]
  note fi = resourcesD(2) [OF res]
  have pos: "0 < or_default x d" if "0 < d" for x d :: int using that by (simp add: or_default_def)
  have L: "limits l = limits (newRPCExecutionLedger sd cap :: ('i, 'm) ledger)"
    by (rule reachable_limits [OF assms])
  have lim: "fl_max (flightLimit l) = or_default (cp_maxPending cap) 8192"
    "pendingPerAuth (fairBudget l) = or_default (cp_maxPendingPerAuth cap) (or_default (cp_maxPending cap) 8192)"
    "fl_max (globalEntries (fairBudget l)) = or_default (cp_globalMaxEntries cap) (2 ^ 18)"
    "authLimit (fairBudget l) = or_default (cp_authMaxEntries cap) (or_default (cp_globalMaxEntries cap) (2 ^ 18))"
    "sessionLimit (fairBudget l) = or_default (cp_sessionMaxEntries cap)
      (or_default (cp_authMaxEntries cap) (or_default (cp_globalMaxEntries cap) (2 ^ 18)))"
    "fl_max (sub_global (subscriberBudget l)) = or_default (cp_subscriberMaxGlobal cap) rpcResultSubscriberMaxGlobal"
    "subscriberPerFlight l = or_default (cp_subscriberMaxPerFlight cap) rpcResultSubscriberMaxPerFlight"
    "sub_authLimit (subscriberBudget l) = or_default (cp_subscriberMaxAuth cap) rpcResultSubscriberMaxAuth"
    "sub_sessionLimit (subscriberBudget l) = or_default (cp_subscriberMaxSession cap) rpcResultSubscriberMaxSession"
    using L by (simp_all add: limits_def fair_limits_def sub_limits_def newRPCExecutionLedger_def Let_def
        newRPCExecutionFairBudget_def newRPCResultSubscriberBudget_def)
  have g: "0 < or_default (cp_maxPending cap) 8192" "0 < or_default (cp_globalMaxEntries cap) (2 ^ 18)"
    "0 < or_default (cp_subscriberMaxGlobal cap) rpcResultSubscriberMaxGlobal"
    "0 < or_default (cp_subscriberMaxPerFlight cap) rpcResultSubscriberMaxPerFlight"
    "0 < or_default (cp_subscriberMaxAuth cap) rpcResultSubscriberMaxAuth"
    "0 < or_default (cp_subscriberMaxSession cap) rpcResultSubscriberMaxSession"
    by (simp_all add: pos rpcResultSubscriberMaxGlobal_def rpcResultSubscriberMaxPerFlight_def
        rpcResultSubscriberMaxAuth_def rpcResultSubscriberMaxSession_def)
  note g2 = pos [OF g(1), of "cp_maxPendingPerAuth cap"] pos [OF g(2), of "cp_authMaxEntries cap"]
  note g3 = pos [OF g2(2), of "cp_sessionMaxEntries cap"]
  have si: "sub_inv (subscriberBudget l)" using resourcesD(5) [OF res] by (simp add: slots_ok_def)
  have sb: "(\<Sum>k\<in>dom (pend l). int (callbacks l k)) \<le> or_default (cp_subscriberMaxGlobal cap) rpcResultSubscriberMaxGlobal"
    using si lim(6) g(3) callback_counts(1) [OF inv] by (simp add: sub_inv_def sub_used_def flight_inv_def)
  have sa: "(\<Sum>k | k \<in> dom (pend l) \<and> ek_auth k = a. int (callbacks l k)) \<le>
      or_default (cp_subscriberMaxAuth cap) rpcResultSubscriberMaxAuth"
    using si lim(8) g(5) callback_counts(2) [OF inv, of a] unfolding sub_inv_def by (metis max.absorb2 order_less_imp_le)
  have ss: "(\<Sum>k | k \<in> dom (pend l) \<and> session_of k = s. int (callbacks l k)) \<le>
      or_default (cp_subscriberMaxSession cap) rpcResultSubscriberMaxSession"
    using si lim(9) g(6) callback_counts(3) [OF inv, of s] unfolding sub_inv_def by (metis max.absorb2 order_less_imp_le)
  have fls: "fl_subscriberSlots fl \<le> or_default (cp_subscriberMaxPerFlight cap) rpcResultSubscriberMaxPerFlight"
    if f: "flights l f = Some fl" for f fl
  proof -
    obtain x where "leases l f = Some x" using flights_wfD(3,4) [OF ledger_invD(2) [OF inv], of f] f by auto
    then show ?thesis
      using flights_wfD(5) [OF ledger_invD(2) [OF inv] f] lim(7) g(4)
      by (auto simp: live_flight_def settled_flight_def split: if_splits)
  qed
  have p: "int (card (dom (pend l))) \<le> or_default (cp_maxPending cap) 8192"
    using resourcesD(3) [OF res] C(1) lim(1) g(1) by (simp add: flight_inv_def)
  have t: "int (card (dom (pend l) \<union> dom (rcpt l))) \<le> or_default (cp_globalMaxEntries cap) (2 ^ 18)"
    using fair_invD(3) [OF fi] C(3) lim(3) g(2) by (simp add: flight_inv_def)
  show ?thesis
    using p t sb sa ss fls fair_invD(5-8) [OF fi, of a] C(4,5) [of a] fair_invD(9,11) [OF fi, of s] C(6) [of s]
      lim(2,4,5) g2 g3 by simp
qed

theorem ledger_within_limits_witness:
  "int (card {k \<in> dom (pend demo_owned). ek_auth k = [1, 2]}) \<le> 2"
  using ledger_within_limits [OF demo_owned_reachable, of "[1, 2]" "([], 0)"]
  by (simp add: demo_caps_def or_default_def)

subsection \<open>Waiters are answered\<close>

text \<open>C6: completing a pending request answers its waiters: each result callback runs once with the
  result and each execution callback once with the recorded outcome, in registration order; a
  \<open>Wait\<close> on the flight returns the result; the key is no longer pending. A receipt with the full
  lifetime replaces the claim, unless the result was acknowledged while it was still executing, in
  which case nothing is retained.\<close>

theorem complete_answers_waiters:
  assumes "reachable sd cap l" and "pend l key = Some f" and "ek_req key \<noteq> 0" and "flights l f = Some fl"
  shows "\<exists>l'. Complete rs now clk now' key enc rp l =
      Some (map (\<lambda>c. ResultCallback c (Some enc) True) (fl_subscribers fl) @
        map (\<lambda>c. ExecutionCallback c (fl_executionDone fl \<and> fl_executionOK fl)) (fl_executionSubscribers fl), l') \<and>
    Wait_poll f l' = Some (Some enc, True) \<and> pend l' key = None \<and>
    (if fl_acknowledged fl then rcpt l' key = None
     else \<exists>rc. rcpt l' key = Some rc \<and> rc_expiresAt rc = now + rpcExecutionReceiptTTL \<and>
       rc_identity rc = fl_identity fl \<and> rc_unavailable rc = (\<not> (rp \<and> rs key \<noteq> None)))"
  using Complete_pending [OF reachable_inv [OF assms(1)] assms(2,3), of rs now clk now' enc rp] assms(4)
  by (auto simp: Wait_poll_def finished_def)

theorem complete_answers_waiters_witness:
  "\<exists>l'. Complete (\<lambda>_. Some 9) 20 (\<lambda>_. 20) 20 demo_key 9 True demo_owned = Some ([], l') \<and>
     Wait_poll 0 l' = Some (Some 9, True)"
proof -
  obtain fl where fl: "flights demo_owned 0 = Some fl"
    using pending_flight [OF reachable_inv [OF demo_owned_reachable] demo_owned_pending] by metis
  have "map_option (\<lambda>fl. (fl_subscribers fl, fl_executionSubscribers fl)) (flights demo_owned 0) = Some ([], [])"
    by code_simp
  then show ?thesis
    using complete_answers_waiters [OF demo_owned_reachable demo_owned_pending demo_key_valid fl,
        of "\<lambda>_. Some 9" 20 "\<lambda>_. 20" 20 9 True] fl by auto
qed

text \<open>C7: aborting a pending, not handed-off claim runs its abort hook, then answers every retained
  callback once with failure; a \<open>Wait\<close> reports no result; the key is free, so a retry can claim it,
  and no receipt is written.\<close>

theorem abort_answers_waiters:
  assumes "reachable sd cap l" and "leases l f = Some ls" and "pend l (ls_key ls) = Some f"
    and "\<not> ls_handedOff ls" and "flights l f = Some fl"
  shows "\<exists>l'. Abort f l = Some ((True, (case ls_abortHook ls of None \<Rightarrow> [] | Some h \<Rightarrow> [HookCallback h]) @
         map (\<lambda>c. ResultCallback c None False) (fl_subscribers fl) @
         map (\<lambda>c. ExecutionCallback c False) (fl_executionSubscribers fl)), l') \<and>
    Wait_poll f l' = Some (None, False) \<and> pend l' = (pend l)(ls_key ls := None) \<and> rcpt l' = rcpt l"
proof -
  note inv = reachable_inv [OF assms(1)]
  have live: "live_flight (subscriberPerFlight l) fl"
    using flights_wfD(1) [OF ledger_invD(2) [OF inv] assms(3)] assms(5) by auto
  have o: "owns f ls l \<and> \<not> ls_handedOff ls" using assms(3,4) by (simp add: owns_def)
  obtain b evs l' where A: "Abort f l = Some ((b, evs), l')" "b = (owns f ls l \<and> \<not> ls_handedOff ls)"
    "b \<longrightarrow> pend l' = (pend l)(ls_key ls := None) \<and> rcpt l' = rcpt l"
    "b \<longrightarrow> (\<exists>fl. flights l f = Some fl \<and> flights l' = (flights l)(f \<mapsto> finished None fl) \<and>
       evs = (case ls_abortHook ls of None \<Rightarrow> [] | Some h \<Rightarrow> [HookCallback h]) @
         map (\<lambda>c. ResultCallback c None False) (fl_subscribers fl) @
         map (\<lambda>c. ExecutionCallback c False) (fl_executionSubscribers fl))"
    using Abort_ok [OF inv assms(2)] by blast
  then show ?thesis using o assms(5) live by (auto simp: Wait_poll_def finished_def live_flight_def)
qed

theorem abort_answers_waiters_witness:
  "\<exists>l'. Abort 0 demo_owned = Some ((True, []), l') \<and> Wait_poll 0 l' = Some (None, False)"
proof -
  obtain fl where fl: "flights demo_owned 0 = Some fl"
    using pending_flight [OF reachable_inv [OF demo_owned_reachable] demo_owned_pending] by metis
  have ls: "leases demo_owned 0 = Some \<lparr>ls_key = demo_key, ls_handedOff = False, ls_abortHook = None\<rparr>"
    by code_simp
  have "map_option (\<lambda>fl. (fl_subscribers fl, fl_executionSubscribers fl)) (flights demo_owned 0) = Some ([], [])"
    by code_simp
  then show ?thesis
    using abort_answers_waiters [OF demo_owned_reachable ls _ _ fl] fl by auto
qed

text \<open>Every flight ever created is either pending, with its callbacks retained and its slots
  reserved, or settled: closed, with its execution outcome fixed and no callback or reservation
  left. A waiter that subscribes to a settled flight is answered at once.\<close>

theorem flight_pending_or_settled:
  assumes "reachable sd cap l" and "flights l f = Some fl"
  shows "(\<exists>key. pend l key = Some f \<and> \<not> fl_done fl \<and>
      fl_subscriberSlots fl = int (length (fl_subscribers fl) + length (fl_executionSubscribers fl))) \<or>
    (fl_done fl \<and> fl_executionDone fl \<and> fl_subscribers fl = [] \<and> fl_executionSubscribers fl = [] \<and>
     fl_subscriberSlots fl = 0 \<and> (\<forall>key. pend l key \<noteq> Some f) \<and>
     (\<forall>key c. subscribe key f (Some c) None l = Some (Inr [ResultCallback c (fl_encoded fl) (fl_ok fl)], l)))"
proof -
  note inv = reachable_inv [OF assms(1)]
  show ?thesis
  proof (cases "\<exists>key. pend l key = Some f")
    case True
    then obtain key where k: "pend l key = Some f" by blast
    have "live_flight (subscriberPerFlight l) fl"
      using flights_wfD(1) [OF ledger_invD(2) [OF inv] k] assms(2) by auto
    then show ?thesis using k by (auto simp: live_flight_def)
  next
    case False
    then have "settled_flight fl" using flights_wfD(6) [OF ledger_invD(2) [OF inv] assms(2)] by blast
    then show ?thesis using False assms(2) by (auto simp: settled_flight_def subscribe_def Let_def)
  qed
qed

theorem flight_pending_or_settled_witness:
  "\<exists>fl. flights demo_owned 0 = Some fl \<and> \<not> fl_done fl"
proof -
  obtain fl where fl: "flights demo_owned 0 = Some fl"
    using pending_flight [OF reachable_inv [OF demo_owned_reachable] demo_owned_pending] by metis
  show ?thesis using flight_pending_or_settled [OF demo_owned_reachable fl] fl demo_owned_pending by blast
qed

subsection \<open>Owner leases\<close>

text \<open>A lease whose flight was settled stays inert for ever: after any run its flight is
  unchanged, and completing the execution, handing off, installing a hook or aborting through it
  is refused without touching the ledger, even when a newer owner holds the same key.\<close>

theorem stale_lease_inert:
  assumes "reachable sd cap l" and "flights l f = Some fl" and "fl_done fl" and "run cs l = Some l'"
  shows "flights l' f = Some fl \<and> Abort f l' = Some ((False, []), l') \<and>
    CompleteExecution f ok l' = Some ((False, []), l') \<and> HandOff f l' = Some (False, l') \<and>
    InstallAbortHook f h l' = Some (False, l')"
proof -
  note inv = reachable_inv [OF assms(1)]
  note inv' = run_inv [OF inv assms(4)]
  have f': "flights l' f = Some fl"
    using run_steady [OF inv assms(4)] assms(2,3) unfolding steady_def flights_kept_def by metis
  obtain x where x: "leases l' f = Some x"
    using flights_wfD(3,4) [OF ledger_invD(2) [OF inv'], of f] f' by auto
  have "\<not> owns f x l'"
  proof
    assume "owns f x l'"
    then obtain fl' where "flights l' f = Some fl'" "live_flight (subscriberPerFlight l') fl'"
      using pending_flight [OF inv', of "ls_key x" f] by (auto simp: owns_def)
    then show False using f' assms(3) by (simp add: live_flight_def)
  qed
  then show ?thesis
    using f' x by (simp add: Abort_def CompleteExecution_def HandOff_def InstallAbortHook_def)
qed

definition demo_aborted :: "(nat, nat) ledger" where
  "demo_aborted = the (exec (CallAbort 0) demo_owned)"

lemma demo_aborted_reachable [simp]: "reachable (\<lambda>_. 0) demo_caps demo_aborted"
proof -
  have "leases demo_owned 0 \<noteq> None" by code_simp
  then show ?thesis unfolding demo_aborted_def by (intro exec_the(2)) simp_all
qed

theorem stale_lease_inert_witness: "Abort 0 demo_aborted = Some ((False, []), demo_aborted)"
proof -
  have d: "map_option fl_done (flights demo_aborted 0) = Some True" by code_simp
  then obtain fl where fl: "flights demo_aborted 0 = Some fl" "fl_done fl" by auto
  show ?thesis using stale_lease_inert [OF demo_aborted_reachable fl, of "[]" demo_aborted] by simp
qed

text \<open>Once a claim is handed off to terminal publication, an abort through its lease is refused
  for ever after, whatever happens in between: a late disconnect cannot withdraw a result that is
  being delivered.\<close>

theorem handoff_blocks_abort:
  assumes "reachable sd cap l" and "HandOff f l = Some (True, l1)" and "run cs l1 = Some l2"
  shows "Abort f l2 = Some ((False, []), l2)"
proof -
  note inv = reachable_inv [OF assms(1)]
  obtain ls where ls: "leases l f = Some ls" using assms(2) by (auto simp: HandOff_def)
  have l1: "ledger_inv l1" "leases l1 = (leases l)(f \<mapsto> ls\<lparr>ls_handedOff := True\<rparr>)"
    using HandOff_ok [OF inv ls] assms(2) by auto
  have "leases_kept (leases l1) (leases l2)" using run_steady [OF l1(1) assms(3)] by (simp add: steady_def)
  moreover have "leases l1 f = Some (ls\<lparr>ls_handedOff := True\<rparr>)" by (simp add: l1(2))
  ultimately obtain y where "leases l2 f = Some y" "ls_handedOff y"
    unfolding leases_kept_def by (metis lease.select_convs(2) lease.surjective lease.update_convs(2))
  then show ?thesis by (simp add: Abort_def)
qed

theorem handoff_blocks_abort_witness:
  "\<exists>l1. HandOff 0 demo_owned = Some (True, l1) \<and> Abort 0 l1 = Some ((False, []), l1)"
proof -
  have "map_option fst (HandOff 0 demo_owned) = Some True" by code_simp
  then obtain l1 where l1: "HandOff 0 demo_owned = Some (True, l1)" by auto
  show ?thesis using handoff_blocks_abort [OF demo_owned_reachable l1, of "[]" l1] l1 by simp
qed

subsection \<open>Admission order\<close>

text \<open>The stable safe floor never moves back along a run, every identified request that is
  still pending has an admission sequence at or above it, and two pending requests never share a
  sequence: work below the floor is settled for good.\<close>

theorem safe_floor_monotone:
  assumes "reachable sd cap l" and "run cs l = Some l'"
  shows "stableAdmissionSafeFloor l \<le> stableAdmissionSafeFloor l' \<and>
    (\<forall>key f fl. pend l' key = Some f \<and> flights l' f = Some fl \<and> fl_admissionSeq fl \<noteq> 0 \<longrightarrow>
       stableAdmissionSafeFloor l' \<le> fl_admissionSeq fl \<and>
       (\<forall>key' f' fl'. pend l' key' = Some f' \<and> flights l' f' = Some fl' \<and>
          fl_admissionSeq fl' = fl_admissionSeq fl \<longrightarrow> key' = key))"
proof -
  note inv = reachable_inv [OF assms(1)]
  note ad = resourcesD(4) [OF ledger_invD(3) [OF run_inv [OF inv assms(2)]]]
  have mono: "stableAdmissionSafeFloor l \<le> stableAdmissionSafeFloor l'"
    using run_steady [OF inv assms(2)] by (simp add: steady_def)
  have S: "admission_map (view l') key = Some (fl_admissionSeq fl)"
    if "pend l' key = Some f" "flights l' f = Some fl" for key f fl using that by (simp add: view_def)
  have le: "stableAdmissionSafeFloor l' \<le> sq" if "sq \<in> active (activeAdmissions l')" for sq
    using that stableSafeFloor_spec [OF admitsD(1) [OF ad]] finite_active [OF admitsD(1) [OF ad]]
    unfolding stableAdmissionSafeFloor_def by auto
  show ?thesis
  proof (intro conjI allI impI mono)
    fix key f fl assume a: "pend l' key = Some f \<and> flights l' f = Some fl \<and> fl_admissionSeq fl \<noteq> 0"
    then have s: "admission_map (view l') key = Some (fl_admissionSeq fl)" using S by blast
    then have "fl_admissionSeq fl \<in> active (activeAdmissions l')"
      unfolding admitsD(2) [OF ad] using a by (auto simp: ran_def)
    then show "stableAdmissionSafeFloor l' \<le> fl_admissionSeq fl" by (rule le)
    fix key' f' fl' assume "pend l' key' = Some f' \<and> flights l' f' = Some fl' \<and>
      fl_admissionSeq fl' = fl_admissionSeq fl"
    then have "admission_map (view l') key' = Some (fl_admissionSeq fl)" using S by metis
    then show "key' = key" using admitsD(3) [OF ad _ s] a by blast
  qed
qed

theorem safe_floor_monotone_witness:
  "stableAdmissionSafeFloor demo_new \<le> stableAdmissionSafeFloor demo_owned"
proof -
  have "exec demo_claim demo_new = Some demo_owned"
    unfolding demo_owned_def by (rule exec_the(1) [OF demo_reachable]) (simp add: demo_claim_def)
  moreover have "enabled demo_claim demo_new" by (simp add: demo_claim_def)
  ultimately show ?thesis using safe_floor_monotone [OF demo_reachable, of "[demo_claim]" demo_owned] by simp
qed

subsection \<open>Receipts\<close>

text \<open>Destroying a session removes exactly its receipts: none remains, every other receipt and
  every pending claim is untouched.\<close>

theorem forget_session_exact:
  assumes "reachable sd cap l"
  shows "\<exists>l'. forgetSession s l = Some l' \<and> pend l' = pend l \<and> flights l' = flights l \<and>
    (\<forall>k. rcpt l' k = (if session_of k = s then None else rcpt l k))"
proof -
  note inv = reachable_inv [OF assms]
  obtain l' where l': "forgetSession s l = Some l'" "swept (\<lambda>rc. session_of (rc_key rc) = s) l l'"
    "\<forall>k. session_of k = s \<longrightarrow> rcpt l' k = None" using forgetSession_ok [OF inv] by blast
  have "rcpt l' k = rcpt l k" if n: "session_of k \<noteq> s" for k
  proof (cases "rcpt l k")
    case None
    then show ?thesis using swept_None [OF l'(2)] by simp
  next
    case (Some rc)
    have "rc_key rc = k" using shard_wf_receipt [OF ledger_invD(1) [OF inv], of k rc] Some by simp
    then show ?thesis using Some l'(2) n by (cases "rcpt l' k") (auto simp: swept_def)
  qed
  then show ?thesis using l' quietD [OF swept_quiet [OF l'(2)]] by auto
qed

theorem forget_session_exact_witness:
  "\<exists>l'. forgetSession ([1, 2], 7) demo_owned = Some l' \<and> pend l' demo_key = Some 0"
  using forget_session_exact [OF demo_owned_reachable, of "([1, 2], 7)"] by auto

text \<open>When receipts are queued in the order of their expiry, as a clock that does not go back
  makes them, reaping a shard leaves exactly the receipts of that shard that have not expired and
  does not touch the other shards.\<close>

theorem expire_exact:
  assumes "reachable sd cap l" and "sorted (map rc_expiresAt (sh_order (ld_shards l i)))"
  shows "\<exists>l'. expireLocked i now l = Some l' \<and> pend l' = pend l \<and>
    sh_order (ld_shards l' i) = filter (\<lambda>rc. now < rc_expiresAt rc) (sh_order (ld_shards l i)) \<and>
    (\<forall>j. j \<noteq> i \<longrightarrow> ld_shards l' j = ld_shards l j)"
proof -
  have "dropWhile (\<lambda>rc. rc_expiresAt rc \<le> now) xs = filter (\<lambda>rc. now < rc_expiresAt rc) xs"
    if "sorted (map rc_expiresAt xs)" for xs :: "'a receipt list"
    using that
  proof (induction xs)
    case (Cons x xs)
    have "filter (\<lambda>rc. now < rc_expiresAt rc) xs = xs" if "now < rc_expiresAt x"
      using Cons.prems that by (auto simp: filter_id_conv)
    then show ?case using Cons by (simp add: not_le)
  qed simp
  then show ?thesis
    using expireLocked_ok [OF reachable_inv [OF assms(1)], of i now] assms(2)
      quietD(2) [OF swept_quiet] by fastforce
qed

theorem expire_exact_witness:
  "\<exists>l'. expireLocked 3 50 demo_owned = Some l' \<and> pend l' = pend demo_owned"
proof -
  have "sh_order (ld_shards demo_owned 3) = []" by code_simp
  then show ?thesis using expire_exact [OF demo_owned_reachable, of 3 50] by auto
qed

end
