(* ===== verification/Outbox.thy ===== *)
theory Outbox
  imports Rpc_Limits
begin

text \<open>
  The logical-session outbox of outbound.go: \<open>outboundState\<close> with its frames, and
  \<open>outboundBodyReservation\<close>. A content frame stays in \<open>pending\<close> until the client acknowledges it;
  it owns a byte reservation on one of the server's budgets, which live in a heap
  \<open>nat \<Rightarrow> tracked_budget\<close> because a frame may be charged to another budget than the outbox's own.
  The pending map is an association list with distinct keys (the code reads its length); message
  ids and byte counts are mathematical integers, the content counter and sequence numbers are
  32-bit. TL constructor ids of the protocol library are the datatype \<open>tl_type\<close>, with a
  constructor for every id the code names.
\<close>

datatype tl_type =
    MsgsAck | Pong | FutureSalts | BadMsgNotification | BadServerSalt | MsgsStateInfo | MsgsAllInfo
  | MsgDetailedInfo | MsgNewDetailedInfo | MessageContainer | NewSessionCreated | DestroySessionOk
  | DestroySessionNone | RPCAnswerUnknown | RPCAnswerDroppedRunning | RPCAnswerDropped | RpcResult
  | OtherTL "32 word"

datatype priority = PriorityNormal | PriorityCritical | PriorityBulk | PriorityControl

definition frameNeedsAck :: "tl_type \<Rightarrow> bool" where
  "frameNeedsAck t \<longleftrightarrow> t \<notin> {MsgsAck, Pong, FutureSalts, BadMsgNotification, BadServerSalt,
     MsgsStateInfo, MsgsAllInfo, MsgDetailedInfo, MsgNewDetailedInfo, MessageContainer}"

definition encodedControlFrame :: "tl_type \<Rightarrow> bool" where
  "encodedControlFrame t \<longleftrightarrow> t \<in> {MsgsAck, Pong, FutureSalts, BadMsgNotification, BadServerSalt,
     MsgsStateInfo, MsgsAllInfo, MsgDetailedInfo, MsgNewDetailedInfo, NewSessionCreated,
     DestroySessionOk, DestroySessionNone, RPCAnswerUnknown, RPCAnswerDroppedRunning, RPCAnswerDropped}"

record ('d, 'y) encoded =
  en_body :: "byte list"
  en_typeID :: tl_type
  en_reqMsgID :: int
  en_priority :: priority
  en_delivery :: 'd
  en_layerInvariant :: bool
  en_layer :: "'y option"
  en_compressed :: bool
  en_uncompressedBytes :: int
  en_replayMsgID :: int
  en_replaySeqNo :: "32 word"

record ('d, 'y) out_frame =
  of_msgID :: int
  of_seqNo :: "32 word"
  of_typeID :: tl_type
  of_body :: "byte list"
  of_reservedBytes :: int
  of_reservationBudget :: "nat option"
  of_reqMsgID :: int
  of_priority :: priority
  of_delivery :: 'd
  of_compressed :: bool
  of_uncompressedBytes :: int
  of_layer :: "'y option"
  of_layerInvariant :: bool
  of_sentAt :: "int option"
  of_sends :: int

record ('d, 'y) outbox =
  ob_pending :: "(int \<times> ('d, 'y) out_frame) list"
  ob_order :: "int list"
  ob_byRequest :: "int \<rightharpoonup> int"
  ob_acked :: "int set"
  ob_ackOrder :: "int list"
  ob_totalBytes :: int
  ob_maxMessages :: int
  ob_maxBytes :: int
  ob_budget :: nat
  ob_sentContentMessages :: "32 word"
  ob_lastMsgID :: int

type_synonym budget_heap = "nat \<Rightarrow> tracked_budget"

datatype outbound_error =
    ErrOutboundTrackedBudget | ErrDuplicateMsgID | ErrOutboundLayerBindingRequired | ErrConnClosed
  | ErrEncode | ErrClone | ErrWrite | ErrOutboundLayerProfileUnknown | ErrOutboundLayerProfileStale
  | ErrOutboundLayerProfileMismatch | ErrOutboundMessageTooLarge | ErrInvalidBodyReservation

definition maxTrackedServerMsgIDs :: int where "maxTrackedServerMsgIDs = 4096"
definition maxTrackedAckedMsgIDs :: nat where "maxTrackedAckedMsgIDs = 1024"
definition maxTrackedServerBytes :: int where "maxTrackedServerBytes = 64 * 2 ^ 20"

definition newOutboundStateWithLimits :: "nat \<Rightarrow> int \<Rightarrow> int \<Rightarrow> ('d, 'y) outbox" where
  "newOutboundStateWithLimits budget m b =
     \<lparr>ob_pending = [], ob_order = [], ob_byRequest = Map.empty, ob_acked = {}, ob_ackOrder = [],
      ob_totalBytes = 0, ob_maxMessages = m, ob_maxBytes = b, ob_budget = budget,
      ob_sentContentMessages = 0, ob_lastMsgID = 0\<rparr>"

definition newOutboundState :: "nat \<Rightarrow> ('d, 'y) outbox" where
  "newOutboundState budget = newOutboundStateWithLimits budget maxTrackedServerMsgIDs maxTrackedServerBytes"

definition lookup :: "('d, 'y) outbox \<Rightarrow> int \<rightharpoonup> ('d, 'y) out_frame" where
  "lookup s = map_of (ob_pending s)"

definition body_len :: "('d, 'y) out_frame \<Rightarrow> int" where
  "body_len f = int (length (of_body f))"

definition release_on :: "nat \<Rightarrow> int \<Rightarrow> budget_heap \<Rightarrow> budget_heap option" where
  "release_on i n bh = do { b \<leftarrow> tracked_release n (bh i); Some (bh(i := b)) }"

definition reserve_on :: "nat \<Rightarrow> int \<Rightarrow> budget_heap \<Rightarrow> bool \<times> budget_heap" where
  "reserve_on i n bh = (case tracked_reserve n (bh i) of (ok, b) \<Rightarrow> (ok, bh(i := b)))"

definition charged_to :: "nat \<Rightarrow> ('d, 'y) out_frame \<Rightarrow> nat" where
  "charged_to dflt f = (case of_reservationBudget f of None \<Rightarrow> dflt | Some b \<Rightarrow> b)"

definition frame_releaseReservation ::
  "nat \<Rightarrow> ('d, 'y) out_frame \<Rightarrow> budget_heap \<Rightarrow> budget_heap option" where
  "frame_releaseReservation dflt f bh =
     (if of_reservedBytes f \<le> 0 then Some bh
      else release_on (charged_to dflt f) (of_reservedBytes f) bh)"

definition insertReserved :: "('d, 'y) out_frame \<Rightarrow> ('d, 'y) outbox \<Rightarrow> ('d, 'y) outbox option" where
  "insertReserved f s =
     (if lookup s (of_msgID f) \<noteq> None then None
      else Some (s\<lparr>ob_pending := ob_pending s @ [(of_msgID f, f)],
        ob_order := ob_order s @ [of_msgID f],
        ob_totalBytes := ob_totalBytes s + body_len f,
        ob_byRequest := (if of_reqMsgID f \<noteq> 0 then (ob_byRequest s)(of_reqMsgID f \<mapsto> of_msgID f)
                         else ob_byRequest s),
        ob_sentContentMessages := (if frameNeedsAck (of_typeID f) then ob_sentContentMessages s + 1
                                   else ob_sentContentMessages s)\<rparr>))"

definition admitReserved ::
  "('d, 'y) out_frame \<Rightarrow> ('d, 'y) outbox \<Rightarrow> (outbound_error option \<times> ('d, 'y) outbox) option" where
  "admitReserved f s =
     (if lookup s (of_msgID f) \<noteq> None then Some (Some ErrDuplicateMsgID, s)
      else if int (length (ob_pending s)) \<ge> ob_maxMessages s \<or>
              ob_totalBytes s > ob_maxBytes s - body_len f
      then Some (Some ErrOutboundTrackedBudget, s)
      else do { s' \<leftarrow> insertReserved f s; Some (None, s') })"

definition removePending ::
  "int \<Rightarrow> ('d, 'y) outbox \<Rightarrow> budget_heap \<Rightarrow> (bool \<times> ('d, 'y) outbox \<times> budget_heap) option" where
  "removePending i s bh =
     (case lookup s i of
        None \<Rightarrow> Some (False, s, bh)
      | Some f \<Rightarrow> do {
          bh' \<leftarrow> frame_releaseReservation (ob_budget s) f bh;
          Some (True,
            s\<lparr>ob_pending := filter (\<lambda>p. fst p \<noteq> i) (ob_pending s),
              ob_totalBytes := ob_totalBytes s - body_len f,
              ob_byRequest := (if of_reqMsgID f \<noteq> 0 \<and> ob_byRequest s (of_reqMsgID f) = Some i
                               then (ob_byRequest s)(of_reqMsgID f := None) else ob_byRequest s)\<rparr>, bh') })"

text \<open>The trimming loop of \<open>markAcked\<close> drops from the front until the queue fits.\<close>

fun trim_acked :: "int list \<Rightarrow> int set \<Rightarrow> int list \<times> int set" where
  "trim_acked [] A = ([], A)"
| "trim_acked (x # xs) A =
     (if length (x # xs) > maxTrackedAckedMsgIDs then trim_acked xs (A - {x}) else (x # xs, A))"

definition markAcked :: "int \<Rightarrow> ('d, 'y) outbox \<Rightarrow> ('d, 'y) outbox" where
  "markAcked i s =
     (if i \<in> ob_acked s then s
      else let (q, A) = trim_acked (ob_ackOrder s @ [i]) (insert i (ob_acked s))
           in s\<lparr>ob_acked := A, ob_ackOrder := q\<rparr>)"

record acknowledgement =
  ak_reqMsgID :: int
  ak_bytes :: int
  ak_sentAt :: "int option"

definition compactOrder :: "('d, 'y) outbox \<Rightarrow> ('d, 'y) outbox" where
  "compactOrder s = s\<lparr>ob_order := filter (\<lambda>i. lookup s i \<noteq> None) (ob_order s)\<rparr>"

fun ack_loop ::
  "int list \<Rightarrow> ('d, 'y) outbox \<Rightarrow> budget_heap \<Rightarrow>
     (acknowledgement list \<times> ('d, 'y) outbox \<times> budget_heap) option" where
  "ack_loop [] s bh = Some ([], s, bh)"
| "ack_loop (i # is) s bh =
     (case lookup s i of
        None \<Rightarrow> ack_loop is s bh
      | Some f \<Rightarrow> do {
          (removed, s1, bh1) \<leftarrow> removePending i s bh;
          if \<not> removed then ack_loop is s1 bh1
          else do {
            (ds, s2, bh2) \<leftarrow> ack_loop is (markAcked i s1) bh1;
            Some (\<lparr>ak_reqMsgID = of_reqMsgID f, ak_bytes = body_len f, ak_sentAt = of_sentAt f\<rparr> # ds,
                  s2, bh2) } })"

definition ackWithDetails ::
  "int list \<Rightarrow> ('d, 'y) outbox \<Rightarrow> budget_heap \<Rightarrow>
     (acknowledgement list \<times> ('d, 'y) outbox \<times> budget_heap) option" where
  "ackWithDetails is s bh =
     do { (ds, s', bh') \<leftarrow> ack_loop is s bh;
          Some (ds, (if int (length (ob_order s')) > ob_maxMessages s' * 2 then compactOrder s' else s'), bh') }"

definition ack ::
  "int list \<Rightarrow> ('d, 'y) outbox \<Rightarrow> budget_heap \<Rightarrow> (int list \<times> ('d, 'y) outbox \<times> budget_heap) option" where
  "ack is s bh =
     do { (ds, s', bh') \<leftarrow> ackWithDetails is s bh;
          Some (map ak_reqMsgID (filter (\<lambda>d. ak_reqMsgID d \<noteq> 0) ds), s', bh') }"

definition isKnown :: "('d, 'y) outbox \<Rightarrow> int \<Rightarrow> bool" where
  "isKnown s i \<longleftrightarrow> lookup s i \<noteq> None \<or> i \<in> ob_acked s"

text \<open>\<open>msgStateReceived\<close> is the protocol's state byte 4.\<close>

definition stateInfo :: "('d, 'y) outbox \<Rightarrow> int list \<Rightarrow> byte list" where
  "stateInfo s is = map (\<lambda>i. if isKnown s i then msgStateReceived else 0) is"

fun release_frames :: "nat \<Rightarrow> ('d, 'y) out_frame list \<Rightarrow> budget_heap \<Rightarrow> budget_heap option" where
  "release_frames dflt [] bh = Some bh"
| "release_frames dflt (f # fs) bh =
     do { bh' \<leftarrow> frame_releaseReservation dflt f bh; release_frames dflt fs bh' }"

definition releaseAll ::
  "('d, 'y) outbox \<Rightarrow> budget_heap \<Rightarrow> (('d, 'y) outbox \<times> budget_heap) option" where
  "releaseAll s bh =
     do { bh' \<leftarrow> release_frames (ob_budget s) (map snd (ob_pending s)) bh;
          Some (s\<lparr>ob_pending := [], ob_order := [], ob_byRequest := Map.empty, ob_totalBytes := 0\<rparr>, bh') }"

definition peekSeqNo :: "('d, 'y) outbox \<Rightarrow> bool \<Rightarrow> 32 word" where
  "peekSeqNo s content = ob_sentContentMessages s * 2 + (if content then 1 else 0)"

function skip_pending :: "('d, 'y) outbox \<Rightarrow> int \<Rightarrow> int" where
  "skip_pending s c = (if lookup s c \<noteq> None then skip_pending s (c + 4) else c)"
  by auto
termination
proof (relation "measure (\<lambda>(s, c). card {k \<in> set (map fst (ob_pending s)). c \<le> k})")
  fix s :: "('d, 'y) outbox" and c :: int
  assume "lookup s c \<noteq> None"
  then have c: "c \<in> set (map fst (ob_pending s))" by (auto simp: lookup_def map_of_eq_None_iff)
  have "{k \<in> set (map fst (ob_pending s)). c + 4 \<le> k} \<subset> {k \<in> set (map fst (ob_pending s)). c \<le> k}"
    (is "?L \<subset> ?R")
  proof (rule psubsetI)
    have "c \<in> ?R" "c \<notin> ?L" using c by auto
    then show "?L \<noteq> ?R" by metis
  qed auto
  moreover have "finite ?R" by simp
  ultimately have "card ?L < card ?R" by (rule psubset_card_mono [rotated])
  then show "((s, c + 4), s, c) \<in> measure (\<lambda>(s, c). card {k \<in> set (map fst (ob_pending s)). c \<le> k})"
    by simp
qed simp

declare skip_pending.simps [simp del]

definition reserveMsgID :: "int \<Rightarrow> ('d, 'y) outbox \<Rightarrow> int \<times> ('d, 'y) outbox" where
  "reserveMsgID candidate s =
     (let c0 = (if candidate \<le> ob_lastMsgID s then ob_lastMsgID s + 4 else candidate);
          c = skip_pending s c0
      in (c, s\<lparr>ob_lastMsgID := c\<rparr>))"

definition rpcResult :: "('d, 'y) outbox \<Rightarrow> int \<Rightarrow> ('d, 'y) encoded option" where
  "rpcResult s reqMsgID =
     (if reqMsgID = 0 then None
      else case lookup s (case ob_byRequest s reqMsgID of None \<Rightarrow> 0 | Some m \<Rightarrow> m) of
        None \<Rightarrow> None
      | Some f \<Rightarrow>
          if of_typeID f \<noteq> RpcResult \<or> of_body f = [] then None
          else Some \<lparr>en_body = of_body f, en_typeID = of_typeID f, en_reqMsgID = of_reqMsgID f,
            en_priority = of_priority f, en_delivery = of_delivery f,
            en_layerInvariant = of_layerInvariant f, en_layer = of_layer f,
            en_compressed = of_compressed f, en_uncompressedBytes = of_uncompressedBytes f,
            en_replayMsgID = of_msgID f, en_replaySeqNo = of_seqNo f\<rparr>)"

end
