(* ===== verification/Outbox_Inv.thy ===== *)
theory Outbox_Inv
  imports Outbox
begin

text \<open>
  The outbox invariant and its preservation. \<open>charge s bh X\<close> says that each budget of the heap holds
  exactly the reservations of the outbox's pending frames plus what others hold (\<open>X\<close>), so a release
  of a pending frame never underflows and bytes are returned once.
\<close>

definition held_on :: "nat \<Rightarrow> nat \<Rightarrow> ('d, 'y) out_frame list \<Rightarrow> int" where
  "held_on dflt b fs = sum_list (map (\<lambda>f. if charged_to dflt f = b then of_reservedBytes f else 0) fs)"

definition outbox_wf :: "('d, 'y) outbox \<Rightarrow> bool" where
  "outbox_wf s \<longleftrightarrow>
     distinct (map fst (ob_pending s)) \<and>
     (\<forall>(i, f)\<in>set (ob_pending s). of_msgID f = i \<and> 0 \<le> of_reservedBytes f) \<and>
     ob_totalBytes s = sum_list (map (body_len \<circ> snd) (ob_pending s)) \<and>
     int (length (ob_pending s)) \<le> max 0 (ob_maxMessages s) \<and>
     ob_totalBytes s \<le> max 0 (ob_maxBytes s) \<and>
     fst ` set (ob_pending s) \<subseteq> set (ob_order s) \<and>
     (\<forall>r m. ob_byRequest s r = Some m \<longrightarrow> r \<noteq> 0 \<and> (\<exists>f. lookup s m = Some f \<and> of_reqMsgID f = r)) \<and>
     ob_acked s = set (ob_ackOrder s) \<and> distinct (ob_ackOrder s) \<and>
     length (ob_ackOrder s) \<le> maxTrackedAckedMsgIDs"

definition charge :: "('d, 'y) outbox \<Rightarrow> budget_heap \<Rightarrow> (nat \<Rightarrow> int) \<Rightarrow> bool" where
  "charge s bh X \<longleftrightarrow> (\<forall>b. 0 \<le> X b \<and> tb_used (bh b) = held_on (ob_budget s) b (map snd (ob_pending s)) + X b)"

lemma held_on_simps [simp]:
  "held_on d b [] = 0"
  "held_on d b (f # fs) = (if charged_to d f = b then of_reservedBytes f else 0) + held_on d b fs"
  "held_on d b (fs @ gs) = held_on d b fs + held_on d b gs"
  by (simp_all add: held_on_def)

lemma held_on_nonneg: "\<forall>f\<in>set fs. 0 \<le> of_reservedBytes f \<Longrightarrow> 0 \<le> held_on d b fs"
  by (induction fs) auto

lemma held_on_filter:
  assumes "distinct (map fst ps)" and "map_of ps i = Some f"
  shows "held_on d b (map snd (filter (\<lambda>p. fst p \<noteq> i) ps)) =
    held_on d b (map snd ps) - (if charged_to d f = b then of_reservedBytes f else 0)"
  using assms
proof (induction ps)
  case Nil
  then show ?case by simp
next
  case (Cons p ps)
  show ?case
  proof (cases "fst p = i")
    case True
    then have "filter (\<lambda>p. fst p \<noteq> i) ps = ps"
      using Cons.prems(1) by (auto simp: filter_id_conv image_iff)
    then show ?thesis using True Cons.prems(2) by (cases p) auto
  next
    case False
    then show ?thesis using Cons by (cases p) auto
  qed
qed

lemma bytes_filter:
  assumes "distinct (map fst ps)" and "map_of ps i = Some f"
  shows "sum_list (map (body_len \<circ> snd) (filter (\<lambda>p. fst p \<noteq> i) ps)) =
    sum_list (map (body_len \<circ> snd) ps) - body_len f"
    and "length (filter (\<lambda>p. fst p \<noteq> i) ps) < length ps"
  using assms
proof (induction ps)
  case (Cons p ps)
  { case 1 then show ?case
    proof (cases "fst p = i")
      case True
      then have "filter (\<lambda>p. fst p \<noteq> i) ps = ps"
        using 1 by (auto simp: filter_id_conv image_iff)
      then show ?thesis using True 1 by (cases p) auto
    next
      case False
      then show ?thesis using Cons 1 by (cases p) auto
    qed }
  { case 2 then show ?case
      using Cons by (cases p) (auto simp: le_imp_less_Suc) }
qed auto

lemma map_of_filter_fst:
  "map_of (filter (\<lambda>p. fst p \<noteq> i) ps) = (map_of ps)(i := None)"
  by (induction ps) (auto simp: fun_eq_iff)

lemma outbox_wf_new: "outbox_wf (newOutboundStateWithLimits b m n)"
  by (simp add: outbox_wf_def newOutboundStateWithLimits_def)

lemma lookup_in: "outbox_wf s \<Longrightarrow> lookup s i = Some f \<longleftrightarrow> (i, f) \<in> set (ob_pending s)"
  by (simp add: lookup_def outbox_wf_def)

lemma lookupD:
  assumes "outbox_wf s" and "lookup s i = Some f"
  shows "of_msgID f = i" and "0 \<le> of_reservedBytes f"
  using assms lookup_in [OF assms(1), of i f] by (auto simp: outbox_wf_def)

lemma charge_member:
  assumes wf: "outbox_wf s" and f: "lookup s i = Some f" and ch: "charge s bh X"
  shows "of_reservedBytes f \<le> tb_used (bh (charged_to (ob_budget s) f))"
proof -
  let ?b = "charged_to (ob_budget s) f"
  have d: "distinct (map fst (ob_pending s))" using wf by (simp add: outbox_wf_def)
  have "0 \<le> held_on (ob_budget s) ?b (map snd (filter (\<lambda>p. fst p \<noteq> i) (ob_pending s)))"
    by (rule held_on_nonneg) (use wf in \<open>auto simp: outbox_wf_def\<close>)
  then have "of_reservedBytes f \<le> held_on (ob_budget s) ?b (map snd (ob_pending s))"
    using held_on_filter [OF d, of i f "ob_budget s" ?b] f by (simp add: lookup_def)
  then show ?thesis using ch [unfolded charge_def, rule_format, of ?b] by linarith
qed

lemma outbox_wfD:
  assumes "outbox_wf s"
  shows "distinct (map fst (ob_pending s))"
    and "(i, f) \<in> set (ob_pending s) \<Longrightarrow> of_msgID f = i \<and> 0 \<le> of_reservedBytes f"
    and "ob_totalBytes s = sum_list (map (body_len \<circ> snd) (ob_pending s))"
    and "int (length (ob_pending s)) \<le> max 0 (ob_maxMessages s)"
    and "ob_totalBytes s \<le> max 0 (ob_maxBytes s)"
    and "fst ` set (ob_pending s) \<subseteq> set (ob_order s)"
    and "ob_byRequest s r = Some m \<Longrightarrow> r \<noteq> 0 \<and> (\<exists>f. lookup s m = Some f \<and> of_reqMsgID f = r)"
    and "ob_acked s = set (ob_ackOrder s)" and "distinct (ob_ackOrder s)"
    and "length (ob_ackOrder s) \<le> maxTrackedAckedMsgIDs"
  using assms unfolding outbox_wf_def by auto

lemma outbox_wfI:
  assumes "distinct (map fst (ob_pending s))"
    and "\<And>i f. (i, f) \<in> set (ob_pending s) \<Longrightarrow> of_msgID f = i \<and> 0 \<le> of_reservedBytes f"
    and "ob_totalBytes s = sum_list (map (body_len \<circ> snd) (ob_pending s))"
    and "int (length (ob_pending s)) \<le> max 0 (ob_maxMessages s)"
    and "ob_totalBytes s \<le> max 0 (ob_maxBytes s)"
    and "fst ` set (ob_pending s) \<subseteq> set (ob_order s)"
    and "\<And>r m. ob_byRequest s r = Some m \<Longrightarrow> r \<noteq> 0 \<and> (\<exists>f. lookup s m = Some f \<and> of_reqMsgID f = r)"
    and "ob_acked s = set (ob_ackOrder s)" and "distinct (ob_ackOrder s)"
    and "length (ob_ackOrder s) \<le> maxTrackedAckedMsgIDs"
  shows "outbox_wf s"
  using assms unfolding outbox_wf_def by auto

lemma body_len_nonneg [simp]: "0 \<le> body_len f"
  by (simp add: body_len_def)

lemma release_on_ok:
  assumes "n \<le> tb_used (bh i)" and "0 \<le> n"
  shows "\<exists>bh'. release_on i n bh = Some bh' \<and>
    (\<forall>j. tb_used (bh' j) = tb_used (bh j) - (if j = i then n else 0) \<and> tb_max (bh' j) = tb_max (bh j))"
  using assms by (auto simp: release_on_def tracked_release_def Let_def)

lemma releaseReservation_ok:
  assumes "0 \<le> of_reservedBytes f" and "of_reservedBytes f \<le> tb_used (bh (charged_to d f))"
  shows "\<exists>bh'. frame_releaseReservation d f bh = Some bh' \<and>
    (\<forall>j. tb_used (bh' j) = tb_used (bh j) - (if charged_to d f = j then of_reservedBytes f else 0) \<and>
         tb_max (bh' j) = tb_max (bh j))"
  using release_on_ok [of "of_reservedBytes f" bh "charged_to d f"] assms
  by (cases "of_reservedBytes f = 0") (auto simp: frame_releaseReservation_def)

lemma removePending_wf:
  assumes wf: "outbox_wf s" and f: "lookup s i = Some f"
  shows "outbox_wf (s\<lparr>ob_pending := filter (\<lambda>p. fst p \<noteq> i) (ob_pending s),
      ob_totalBytes := ob_totalBytes s - body_len f,
      ob_byRequest := (if of_reqMsgID f \<noteq> 0 \<and> ob_byRequest s (of_reqMsgID f) = Some i
                       then (ob_byRequest s)(of_reqMsgID f := None) else ob_byRequest s)\<rparr>)"
    (is "outbox_wf ?s")
proof -
  note D = outbox_wfD [OF wf]
  have m: "map_of (ob_pending s) i = Some f" using f by (simp add: lookup_def)
  note B = bytes_filter [OF D(1) m]
  have lk: "lookup ?s = (lookup s)(i := None)" by (simp add: lookup_def map_of_filter_fst)
  show ?thesis
  proof (rule outbox_wfI)
    show "r \<noteq> 0 \<and> (\<exists>g. lookup ?s m = Some g \<and> of_reqMsgID g = r)" if b: "ob_byRequest ?s r = Some m" for r m
    proof -
      have o: "ob_byRequest s r = Some m" using b by (simp split: if_splits)
      then have r: "r \<noteq> 0" and g: "\<exists>g. lookup s m = Some g \<and> of_reqMsgID g = r" using D(7) by blast+
      then have "m \<noteq> i" using b o f by (auto split: if_splits)
      then show ?thesis using r g by (simp add: lk)
    qed
    show "distinct (map fst (ob_pending ?s))" using distinct_map_filter [OF D(1)] by simp
    show "ob_totalBytes ?s = sum_list (map (body_len \<circ> snd) (ob_pending ?s))" using B(1) D(3) by simp
    show "int (length (ob_pending ?s)) \<le> max 0 (ob_maxMessages ?s)" using B(2) D(4) by simp
    have "ob_totalBytes s - body_len f \<le> max 0 (ob_maxBytes s)" using D(5) body_len_nonneg [of f] by linarith
    then show "ob_totalBytes ?s \<le> max 0 (ob_maxBytes ?s)" by simp
    show "fst ` set (ob_pending ?s) \<subseteq> set (ob_order ?s)" using D(6) by auto
    show "of_msgID g = j \<and> 0 \<le> of_reservedBytes g" if "(j, g) \<in> set (ob_pending ?s)" for j g
      using that D(2) [of j g] by simp
  qed (use D(8-10) in simp_all)
qed

lemma removePending_ok:
  assumes wf: "outbox_wf s" and ch: "charge s bh X"
  shows "\<exists>s' bh'. removePending i s bh = Some (lookup s i \<noteq> None, s', bh') \<and> outbox_wf s' \<and> charge s' bh' X \<and>
    lookup s' = (lookup s)(i := None) \<and> ob_acked s' = ob_acked s \<and> ob_budget s' = ob_budget s \<and>
    ob_maxMessages s' = ob_maxMessages s \<and> ob_order s' = ob_order s \<and>
    (\<forall>r. ob_byRequest s' r = (if \<exists>f. lookup s i = Some f \<and> of_reqMsgID f = r \<and> ob_byRequest s r = Some i
       then None else ob_byRequest s r))"
proof (cases "lookup s i")
  case None
  then have "(lookup s)(i := None) = lookup s" by auto
  then show ?thesis using None wf ch by (simp add: removePending_def)
next
  case (Some f)
  note D = outbox_wfD [OF wf]
  obtain bh' where bh': "frame_releaseReservation (ob_budget s) f bh = Some bh'"
    "\<forall>j. tb_used (bh' j) = tb_used (bh j) - (if charged_to (ob_budget s) f = j then of_reservedBytes f else 0)"
    using releaseReservation_ok [of f bh "ob_budget s"] lookupD(2) [OF wf Some] charge_member [OF wf Some ch] by blast
  let ?s = "s\<lparr>ob_pending := filter (\<lambda>p. fst p \<noteq> i) (ob_pending s),
      ob_totalBytes := ob_totalBytes s - body_len f,
      ob_byRequest := (if of_reqMsgID f \<noteq> 0 \<and> ob_byRequest s (of_reqMsgID f) = Some i
                       then (ob_byRequest s)(of_reqMsgID f := None) else ob_byRequest s)\<rparr>"
  have "charge ?s bh' X"
    using ch bh'(2) held_on_filter [OF D(1), of i f] Some by (simp add: charge_def lookup_def)
  moreover have "lookup ?s = (lookup s)(i := None)" by (simp add: lookup_def map_of_filter_fst)
  moreover have "ob_byRequest ?s r = (if \<exists>f. lookup s i = Some f \<and> of_reqMsgID f = r \<and> ob_byRequest s r = Some i
       then None else ob_byRequest s r)" for r
  proof -
    have "of_reqMsgID f \<noteq> 0" if "ob_byRequest s (of_reqMsgID f) = Some i" using D(7) that by blast
    then show ?thesis using Some by auto
  qed
  ultimately show ?thesis
    using removePending_wf [OF wf Some] bh'(1) Some by (simp add: removePending_def)
qed

lemma trim_acked_eq:
  "distinct q \<Longrightarrow> trim_acked q A =
     (drop (length q - maxTrackedAckedMsgIDs) q, A - set (take (length q - maxTrackedAckedMsgIDs) q))"
proof (induction q arbitrary: A)
  case (Cons x xs)
  then show ?case
    by (cases "maxTrackedAckedMsgIDs \<le> length xs") (auto simp: Suc_diff_le)
qed simp

lemma markAcked_ok:
  assumes wf: "outbox_wf s"
  shows "outbox_wf (markAcked i s)" and "i \<in> ob_acked (markAcked i s)"
    and "ob_pending (markAcked i s) = ob_pending s" and "ob_budget (markAcked i s) = ob_budget s"
    and "ob_byRequest (markAcked i s) = ob_byRequest s" and "ob_order (markAcked i s) = ob_order s"
    and "ob_maxMessages (markAcked i s) = ob_maxMessages s"
proof -
  note D = outbox_wfD [OF wf]
  let ?q = "ob_ackOrder s @ [i]" and ?n = "length (ob_ackOrder s @ [i]) - maxTrackedAckedMsgIDs"
  show p: "ob_pending (markAcked i s) = ob_pending s" and "ob_budget (markAcked i s) = ob_budget s"
    and "ob_byRequest (markAcked i s) = ob_byRequest s" and "ob_order (markAcked i s) = ob_order s"
    and "ob_maxMessages (markAcked i s) = ob_maxMessages s"
    by (simp_all add: markAcked_def split: prod.splits)
  have "outbox_wf (markAcked i s) \<and> i \<in> ob_acked (markAcked i s)"
  proof (cases "i \<in> ob_acked s")
    case True
    then show ?thesis using wf by (simp add: markAcked_def)
  next
    case False
    then have dq: "distinct ?q" using D(8,9) by simp
    note T = trim_acked_eq [OF dq, of "insert i (ob_acked s)"]
    have le: "?n \<le> length (ob_ackOrder s)" by (simp add: maxTrackedAckedMsgIDs_def)
    have acked: "ob_acked (markAcked i s) = set (drop ?n ?q)" and ord: "ob_ackOrder (markAcked i s) = drop ?n ?q"
    proof -
      have "insert i (ob_acked s) = set (take ?n ?q) \<union> set (drop ?n ?q)"
        using D(8) by (metis Un_commute append_take_drop_id insert_is_Un list.set(1) list.simps(15) set_append)
      moreover have "set (take ?n ?q) \<inter> set (drop ?n ?q) = {}"
        using dq by (metis append_take_drop_id distinct_append)
      ultimately have "insert i (ob_acked s) - set (take ?n ?q) = set (drop ?n ?q)" by blast
      then show "ob_acked (markAcked i s) = set (drop ?n ?q)" "ob_ackOrder (markAcked i s) = drop ?n ?q"
        using False T by (simp_all add: markAcked_def)
    qed
    have "i \<in> set (drop ?n ?q)" using le by simp
    moreover have "distinct (drop ?n ?q)" using dq by (rule distinct_drop)
    moreover have "length (drop ?n ?q) \<le> maxTrackedAckedMsgIDs" by simp
    ultimately show ?thesis
      using wf acked ord unfolding outbox_wf_def
      by (simp add: lookup_def p markAcked_def split: prod.splits)
  qed
  then show "outbox_wf (markAcked i s)" and "i \<in> ob_acked (markAcked i s)" by blast+
qed

subsection \<open>Acknowledgement\<close>

lemma charge_frame:
  "ob_pending s' = ob_pending s \<Longrightarrow> ob_budget s' = ob_budget s \<Longrightarrow> charge s' bh X = charge s bh X"
  by (simp add: charge_def)

lemma lookup_frame: "ob_pending s' = ob_pending s \<Longrightarrow> lookup s' = lookup s"
  by (simp add: lookup_def)

lemma removePending_bytes:
  "removePending i s bh = Some (True, s', bh') \<Longrightarrow> lookup s i = Some f \<Longrightarrow>
     ob_totalBytes s' = ob_totalBytes s - body_len f"
  by (auto simp: removePending_def)

lemma markAcked_bytes [simp]: "ob_totalBytes (markAcked i s) = ob_totalBytes s"
  by (simp add: markAcked_def split: prod.splits)

lemma ack_loop_ok:
  assumes "outbox_wf s" and "charge s bh X"
  shows "\<exists>ds s' bh'. ack_loop is s bh = Some (ds, s', bh') \<and> outbox_wf s' \<and> charge s' bh' X \<and>
    lookup s' = (\<lambda>k. if k \<in> set is then None else lookup s k) \<and> ob_maxMessages s' = ob_maxMessages s \<and>
    ob_budget s' = ob_budget s \<and> ob_order s' = ob_order s \<and>
    sum_list (map ak_bytes ds) = ob_totalBytes s - ob_totalBytes s' \<and>
    length ds = card (set is \<inter> dom (lookup s)) \<and>
    ak_reqMsgID ` set ds = {of_reqMsgID f | i f. i \<in> set is \<and> lookup s i = Some f}"
  using assms
proof (induction "is" arbitrary: s bh)
  case Nil
  then show ?case by simp
next
  case (Cons i "is")
  show ?case
  proof (cases "lookup s i")
    case None
    have "(\<lambda>k. if k \<in> set (i # is) then None else lookup s k) = (\<lambda>k. if k \<in> set is then None else lookup s k)"
      using None by auto
    moreover have "set (i # is) \<inter> dom (lookup s) = set is \<inter> dom (lookup s)" using None by auto
    moreover have "{of_reqMsgID f | j f. j \<in> set (i # is) \<and> lookup s j = Some f} =
      {of_reqMsgID f | j f. j \<in> set is \<and> lookup s j = Some f}" using None by auto
    ultimately show ?thesis using Cons.IH [OF Cons.prems] None by simp
  next
    case (Some f)
    obtain s1 bh1 where r: "removePending i s bh = Some (True, s1, bh1)" "outbox_wf s1" "charge s1 bh1 X"
      "lookup s1 = (lookup s)(i := None)" "ob_budget s1 = ob_budget s" "ob_maxMessages s1 = ob_maxMessages s"
      "ob_order s1 = ob_order s" using removePending_ok [OF Cons.prems, of i] Some by auto
    note M = markAcked_ok [OF r(2), of i]
    let ?s = "markAcked i s1"
    have l: "lookup ?s = (lookup s)(i := None)" using lookup_frame [OF M(3)] r(4) by simp
    have "charge ?s bh1 X" using r(3) charge_frame [OF M(3,4)] by simp
    from Cons.IH [OF M(1) this] obtain ds s' bh' where
      a: "ack_loop is ?s bh1 = Some (ds, s', bh')" "outbox_wf s'" "charge s' bh' X"
      "lookup s' = (\<lambda>k. if k \<in> set is then None else lookup ?s k)" "ob_maxMessages s' = ob_maxMessages ?s"
      "ob_budget s' = ob_budget ?s" "ob_order s' = ob_order ?s"
      "sum_list (map ak_bytes ds) = ob_totalBytes ?s - ob_totalBytes s'"
      "length ds = card (set is \<inter> dom (lookup ?s))"
      "ak_reqMsgID ` set ds = {of_reqMsgID f | i f. i \<in> set is \<and> lookup ?s i = Some f}" by blast
    have lk: "lookup s' = (\<lambda>k. if k \<in> set (i # is) then None else lookup s k)"
      unfolding a(4) l by auto
    have sum: "body_len f + sum_list (map ak_bytes ds) = ob_totalBytes s - ob_totalBytes s'"
      using a(8) removePending_bytes [OF r(1) Some] by simp
    have "set (i # is) \<inter> dom (lookup s) = insert i (set is \<inter> dom (lookup ?s))"
      using Some by (auto simp: l)
    moreover have "i \<notin> set is \<inter> dom (lookup ?s)" by (simp add: l)
    ultimately have len: "Suc (length ds) = card (set (i # is) \<inter> dom (lookup s))" using a(9) by simp
    have req: "insert (of_reqMsgID f) (ak_reqMsgID ` set ds) =
      {of_reqMsgID f | j f. j \<in> set (i # is) \<and> lookup s j = Some f}"
    proof (intro set_eqI iffI)
      fix x assume "x \<in> {of_reqMsgID f | j f. j \<in> set (i # is) \<and> lookup s j = Some f}"
      then obtain j g where j: "x = of_reqMsgID g" "j = i \<or> j \<in> set is" "lookup s j = Some g" by auto
      then show "x \<in> insert (of_reqMsgID f) (ak_reqMsgID ` set ds)"
        unfolding a(10) l using Some by (cases "j = i") auto
    qed (use Some in \<open>auto simp: a(10) l split: if_splits\<close>)
    show ?thesis
      using Some r(1) a(1-3,5-7) lk sum len req M(4,6,7) r(5-7) by simp
  qed
qed

lemma compactOrder_ok:
  assumes "outbox_wf s"
  shows "outbox_wf (compactOrder s)" and "ob_pending (compactOrder s) = ob_pending s"
    and "ob_budget (compactOrder s) = ob_budget s" and "ob_maxMessages (compactOrder s) = ob_maxMessages s"
    and "ob_totalBytes (compactOrder s) = ob_totalBytes s"
proof -
  note D = outbox_wfD [OF assms]
  have "fst ` set (ob_pending s) \<subseteq> set (filter (\<lambda>i. lookup s i \<noteq> None) (ob_order s))"
  proof
    fix i assume "i \<in> fst ` set (ob_pending s)"
    then have "i \<in> set (ob_order s)" "map_of (ob_pending s) i \<noteq> None"
      using D(6) by (auto simp: map_of_eq_None_iff)
    then show "i \<in> set (filter (\<lambda>i. lookup s i \<noteq> None) (ob_order s))" by (simp add: lookup_def)
  qed
  then show "outbox_wf (compactOrder s)"
    using D by (intro outbox_wfI) (auto simp: compactOrder_def lookup_def)
qed (simp_all add: compactOrder_def)

lemma ackWithDetails_ok:
  assumes "outbox_wf s" and "charge s bh X"
  shows "\<exists>ds s' bh'. ackWithDetails is s bh = Some (ds, s', bh') \<and> outbox_wf s' \<and> charge s' bh' X \<and>
    lookup s' = (\<lambda>k. if k \<in> set is then None else lookup s k) \<and>
    sum_list (map ak_bytes ds) = ob_totalBytes s - ob_totalBytes s' \<and>
    length ds = card (set is \<inter> dom (lookup s)) \<and>
    ak_reqMsgID ` set ds = {of_reqMsgID f | i f. i \<in> set is \<and> lookup s i = Some f}"
proof -
  obtain ds s' bh' where a: "ack_loop is s bh = Some (ds, s', bh')" "outbox_wf s'" "charge s' bh' X"
    "lookup s' = (\<lambda>k. if k \<in> set is then None else lookup s k)"
    "sum_list (map ak_bytes ds) = ob_totalBytes s - ob_totalBytes s'"
    "length ds = card (set is \<inter> dom (lookup s))"
    "ak_reqMsgID ` set ds = {of_reqMsgID f | i f. i \<in> set is \<and> lookup s i = Some f}"
    using ack_loop_ok [OF assms, of "is"] by blast
  note C = compactOrder_ok [OF a(2)]
  show ?thesis
    using a C charge_frame [OF C(2,3)] lookup_frame [OF C(2)] by (simp add: ackWithDetails_def)
qed

subsection \<open>Admission\<close>

definition inserted :: "('d, 'y) out_frame \<Rightarrow> ('d, 'y) outbox \<Rightarrow> ('d, 'y) outbox" where
  "inserted f s = s\<lparr>ob_pending := ob_pending s @ [(of_msgID f, f)],
     ob_order := ob_order s @ [of_msgID f],
     ob_totalBytes := ob_totalBytes s + body_len f,
     ob_byRequest := (if of_reqMsgID f \<noteq> 0 then (ob_byRequest s)(of_reqMsgID f \<mapsto> of_msgID f)
                      else ob_byRequest s),
     ob_sentContentMessages := (if frameNeedsAck (of_typeID f) then ob_sentContentMessages s + 1
                                else ob_sentContentMessages s)\<rparr>"

lemma inserted_simps [simp]:
  "ob_pending (inserted f s) = ob_pending s @ [(of_msgID f, f)]"
  "ob_order (inserted f s) = ob_order s @ [of_msgID f]"
  "ob_totalBytes (inserted f s) = ob_totalBytes s + body_len f"
  "ob_byRequest (inserted f s) =
     (if of_reqMsgID f \<noteq> 0 then (ob_byRequest s)(of_reqMsgID f \<mapsto> of_msgID f) else ob_byRequest s)"
  "ob_acked (inserted f s) = ob_acked s" "ob_ackOrder (inserted f s) = ob_ackOrder s"
  "ob_maxMessages (inserted f s) = ob_maxMessages s" "ob_maxBytes (inserted f s) = ob_maxBytes s"
  "ob_budget (inserted f s) = ob_budget s" "ob_lastMsgID (inserted f s) = ob_lastMsgID s"
  by (simp_all add: inserted_def)

lemma insertReserved_eq: "lookup s (of_msgID f) = None \<Longrightarrow> insertReserved f s = Some (inserted f s)"
  by (simp add: insertReserved_def inserted_def)

lemma admitReserved_ok:
  assumes wf: "outbox_wf s" and rs: "0 \<le> of_reservedBytes f"
  shows "\<exists>e s'. admitReserved f s = Some (e, s') \<and> outbox_wf s' \<and> (e \<noteq> None \<longrightarrow> s' = s) \<and>
    ob_lastMsgID s' = ob_lastMsgID s \<and> ob_budget s' = ob_budget s \<and>
    (e = None \<longrightarrow> lookup s (of_msgID f) = None \<and> lookup s' = (lookup s)(of_msgID f \<mapsto> f) \<and>
       ob_pending s' = ob_pending s @ [(of_msgID f, f)] \<and>
       (of_reqMsgID f \<noteq> 0 \<longrightarrow> ob_byRequest s' (of_reqMsgID f) = Some (of_msgID f)))"
proof (cases "lookup s (of_msgID f) = None \<and> int (length (ob_pending s)) < ob_maxMessages s \<and>
    ob_totalBytes s \<le> ob_maxBytes s - body_len f")
  case False
  then show ?thesis using wf by (auto simp: admitReserved_def)
next
  case True
  note D = outbox_wfD [OF wf]
  let ?s = "inserted f s"
  have fresh: "of_msgID f \<notin> fst ` set (ob_pending s)" using True by (simp add: lookup_def map_of_eq_None_iff)
  have lk: "lookup ?s = (lookup s)(of_msgID f \<mapsto> f)"
    using True by (auto simp: lookup_def fun_eq_iff map_add_def split: option.splits)
  have "outbox_wf ?s"
  proof (rule outbox_wfI)
    show "distinct (map fst (ob_pending ?s))" using D(1) fresh by simp
    show "of_msgID g = j \<and> 0 \<le> of_reservedBytes g" if "(j, g) \<in> set (ob_pending ?s)" for j g
      using that D(2) [of j g] rs by auto
    show "ob_totalBytes ?s = sum_list (map (body_len \<circ> snd) (ob_pending ?s))" using D(3) by simp
    show "int (length (ob_pending ?s)) \<le> max 0 (ob_maxMessages ?s)" using True by simp
    have "ob_totalBytes s + body_len f \<le> max 0 (ob_maxBytes s)" using True by linarith
    then show "ob_totalBytes ?s \<le> max 0 (ob_maxBytes ?s)" by simp
    show "fst ` set (ob_pending ?s) \<subseteq> set (ob_order ?s)" using D(6) by auto
    show "r \<noteq> 0 \<and> (\<exists>g. lookup ?s m = Some g \<and> of_reqMsgID g = r)" if b: "ob_byRequest ?s r = Some m" for r m
    proof (cases "of_reqMsgID f \<noteq> 0 \<and> r = of_reqMsgID f")
      case True
      then show ?thesis using b by (simp add: lk)
    next
      case False
      then have o: "ob_byRequest s r = Some m" using b by (simp split: if_splits)
      then obtain g where "r \<noteq> 0" "lookup s m = Some g" "of_reqMsgID g = r" using D(7) by blast
      then show ?thesis using True by (auto simp: lk)
    qed
  qed (use D(8-10) in simp_all)
  moreover have "admitReserved f s = Some (None, ?s)"
    using True insertReserved_eq [of s f] by (simp add: admitReserved_def)
  ultimately show ?thesis using True lk by auto
qed

lemma release_frames_ok:
  assumes "\<forall>f\<in>set fs. 0 \<le> of_reservedBytes f" and "\<forall>b. held_on d b fs \<le> tb_used (bh b)"
  shows "\<exists>bh'. release_frames d fs bh = Some bh' \<and> (\<forall>b. tb_used (bh' b) = tb_used (bh b) - held_on d b fs)"
  using assms
proof (induction fs arbitrary: bh)
  case Nil
  then show ?case by simp
next
  case (Cons f fs)
  have nn: "0 \<le> held_on d b fs" for b using Cons.prems(1) by (intro held_on_nonneg) simp
  have "of_reservedBytes f \<le> tb_used (bh (charged_to d f))"
    using Cons.prems(2) [rule_format, of "charged_to d f"] nn [of "charged_to d f"] by simp
  then obtain bh1 where b1: "frame_releaseReservation d f bh = Some bh1"
    "\<forall>j. tb_used (bh1 j) = tb_used (bh j) - (if charged_to d f = j then of_reservedBytes f else 0)"
    using releaseReservation_ok [of f bh d] Cons.prems(1) by auto
  have "\<forall>b. held_on d b fs \<le> tb_used (bh1 b)"
  proof
    fix b
    show "held_on d b fs \<le> tb_used (bh1 b)" using b1(2) Cons.prems(2) [rule_format, of b] by simp
  qed
  moreover have "\<forall>f\<in>set fs. 0 \<le> of_reservedBytes f" using Cons.prems(1) by simp
  ultimately obtain bh' where "release_frames d fs bh1 = Some bh'"
    "\<forall>b. tb_used (bh' b) = tb_used (bh1 b) - held_on d b fs" using Cons.IH [of bh1] by blast
  then show ?case using b1 by auto
qed

lemma releaseAll_ok:
  assumes wf: "outbox_wf s" and ch: "charge s bh X"
  shows "\<exists>s' bh'. releaseAll s bh = Some (s', bh') \<and> outbox_wf s' \<and> ob_pending s' = [] \<and>
    (\<forall>b. tb_used (bh' b) = X b)"
proof -
  note D = outbox_wfD [OF wf]
  have "\<forall>b. held_on (ob_budget s) b (map snd (ob_pending s)) \<le> tb_used (bh b)"
    using ch unfolding charge_def by (metis add_increasing2 order_refl)
  moreover have "\<forall>f\<in>set (map snd (ob_pending s)). 0 \<le> of_reservedBytes f" using D(2) by auto
  ultimately obtain bh' where bh': "release_frames (ob_budget s) (map snd (ob_pending s)) bh = Some bh'"
    "\<forall>b. tb_used (bh' b) = tb_used (bh b) - held_on (ob_budget s) b (map snd (ob_pending s))"
    using release_frames_ok [of "map snd (ob_pending s)" "ob_budget s" bh] by blast
  have "\<forall>b. tb_used (bh' b) = X b" using bh'(2) ch by (simp add: charge_def)
  moreover have "outbox_wf (s\<lparr>ob_pending := [], ob_order := [], ob_byRequest := Map.empty, ob_totalBytes := 0\<rparr>)"
    by (rule outbox_wfI) (use D(8-10) in simp_all)
  ultimately show ?thesis using bh'(1) by (simp add: releaseAll_def)
qed

subsection \<open>Message ids and replay\<close>

lemma skip_pending_spec:
  "c \<le> skip_pending s c \<and> lookup s (skip_pending s c) = None \<and> (skip_pending s c - c) mod 4 = 0"
proof (induction s c rule: skip_pending.induct)
  case (1 s c)
  show ?case
  proof (cases "lookup s c = None")
    case True
    then show ?thesis by (subst (1 2 3) skip_pending.simps) simp
  next
    case False
    then have e: "skip_pending s c = skip_pending s (c + 4)" by (subst skip_pending.simps) simp
    define x where "x = skip_pending s (c + 4)"
    have "(x - (c + 4)) mod 4 = 0" using 1 [OF False] by (simp add: x_def)
    then have "(x - c) mod 4 = 0" by presburger
    then show ?thesis using 1 [OF False] e by (simp add: x_def)
  qed
qed

lemma reserveMsgID_spec:
  assumes "reserveMsgID c s = (m, s')"
  shows "ob_lastMsgID s < m" and "c \<le> m" and "lookup s m = None" and "s' = s\<lparr>ob_lastMsgID := m\<rparr>"
    and "c mod 4 = ob_lastMsgID s mod 4 \<Longrightarrow> m mod 4 = c mod 4"
proof -
  let ?c = "if c \<le> ob_lastMsgID s then ob_lastMsgID s + 4 else c"
  have m: "m = skip_pending s ?c" and s': "s' = s\<lparr>ob_lastMsgID := m\<rparr>"
    using assms by (auto simp: reserveMsgID_def Let_def)
  note S = skip_pending_spec [of ?c s]
  show "ob_lastMsgID s < m" "c \<le> m" "lookup s m = None" "s' = s\<lparr>ob_lastMsgID := m\<rparr>"
    using S m s' by (auto split: if_splits)
  show "m mod 4 = c mod 4" if "c mod 4 = ob_lastMsgID s mod 4"
  proof (cases "c \<le> ob_lastMsgID s")
    case True
    then have "(m - (ob_lastMsgID s + 4)) mod 4 = 0" using S m by simp
    then show ?thesis using that by presburger
  next
    case False
    then have "(m - c) mod 4 = 0" using S m by simp
    then show ?thesis by presburger
  qed
qed

definition replayed :: "('d, 'y) out_frame \<Rightarrow> ('d, 'y) encoded" where
  "replayed f = \<lparr>en_body = of_body f, en_typeID = of_typeID f, en_reqMsgID = of_reqMsgID f,
     en_priority = of_priority f, en_delivery = of_delivery f, en_layerInvariant = of_layerInvariant f,
     en_layer = of_layer f, en_compressed = of_compressed f, en_uncompressedBytes = of_uncompressedBytes f,
     en_replayMsgID = of_msgID f, en_replaySeqNo = of_seqNo f\<rparr>"

lemma rpcResult_Some:
  "r \<noteq> 0 \<Longrightarrow> ob_byRequest s r = Some m \<Longrightarrow> lookup s m = Some f \<Longrightarrow> of_typeID f = RpcResult \<Longrightarrow>
     of_body f \<noteq> [] \<Longrightarrow> rpcResult s r = Some (replayed f)"
  by (simp add: rpcResult_def replayed_def)

end
