(* ===== verification/Outbound_Send.thy ===== *)
theory Outbound_Send
  imports Outbox_Inv
begin

text \<open>
  The outbound actor's send and resend paths (outbound.go): framing, admission of a content frame
  to the outbox before its first physical write, and the exact movement of its byte reservation.
  The environment of a send is a record of what the code obtains from elsewhere: the encoder's
  result, the request id chosen when writing begins, a fresh message id, the connection's layer profile, and the outcome of the physical write.
\<close>

definition maxOutboundBodyBytes :: int where "maxOutboundBodyBytes = 2 ^ 24 - 2 * 2 ^ 10"

record layer_binding =
  lb_wireInvariant :: bool
  lb_request :: bool \<comment> \<open>kind is \<open>outboundLayerBindingRequest\<close>\<close>
  lb_epoch :: nat
  lb_profile :: int

record layer_state =
  ly_unknown :: bool
  ly_epoch :: nat
  ly_profile :: int

definition validateOutboundLayerBinding ::
  "layer_state \<Rightarrow> layer_binding option \<Rightarrow> outbound_error option" where
  "validateOutboundLayerBinding st b =
     (case b of
        None \<Rightarrow> None
      | Some l \<Rightarrow>
          if lb_wireInvariant l \<or> lb_request l then None
          else if ly_unknown st then Some ErrOutboundLayerProfileUnknown
          else if lb_epoch l \<noteq> 0 \<and> ly_epoch st \<noteq> lb_epoch l then Some ErrOutboundLayerProfileStale
          else if ly_profile st \<noteq> lb_profile l then Some ErrOutboundLayerProfileMismatch
          else None)"

definition isOutboundStaleLayerEpoch :: "outbound_error \<Rightarrow> bool" where
  "isOutboundStaleLayerEpoch e \<longleftrightarrow> e = ErrOutboundLayerProfileStale"

definition isOutboundLayerProfileError :: "outbound_error \<Rightarrow> bool" where
  "isOutboundLayerProfileError e \<longleftrightarrow>
     e = ErrOutboundLayerProfileUnknown \<or> e = ErrOutboundLayerProfileMismatch"

type_synonym 'd msg = "('d, layer_binding) encoded"
type_synonym 'd frame = "('d, layer_binding) out_frame"
type_synonym 'd box = "('d, layer_binding) outbox"

text \<open>A result rewrapped for another request: the request id in bytes 4 to 11 is replaced in a copy. \<open>fresh\<close> is
  the delivery state a clone gets when it does not share the original's.\<close>

definition cloneRPCResultForRequest :: "'d msg \<Rightarrow> int \<Rightarrow> bool \<Rightarrow> 'd \<Rightarrow> outbound_error + 'd msg" where
  "cloneRPCResultForRequest en reqMsgID shareDelivery fresh =
     (if en_typeID en \<noteq> RpcResult \<or> length (en_body en) < 12 \<or> reqMsgID = 0 then Inl ErrClone
      else Inr (en\<lparr>
        en_body := (if take 8 (drop 4 (en_body en)) \<noteq> le64 reqMsgID
                    then take 4 (en_body en) @ le64 reqMsgID @ drop 12 (en_body en) else en_body en),
        en_reqMsgID := reqMsgID,
        en_delivery := (if shareDelivery then en_delivery en else fresh),
        en_replayMsgID := (if reqMsgID = en_reqMsgID en then en_replayMsgID en else 0),
        en_replaySeqNo := (if reqMsgID = en_reqMsgID en then en_replaySeqNo en else 0)\<rparr>))"

record 'd send_env =
  se_encode :: "outbound_error + 'd msg"
  se_target :: int
  se_msgID :: int
  se_layer :: layer_state
  se_write :: "'d frame \<Rightarrow> outbound_error option"
  se_now :: int

record 'd send_op =
  so_encoded :: "'d msg option"
  so_reservedBytes :: int
  so_reservationBudget :: "nat option"

definition buildFrameWithState ::
  "'d send_env \<Rightarrow> 'd msg option \<Rightarrow> 'd box \<Rightarrow> (outbound_error + 'd frame) \<times> 'd box" where
  "buildFrameWithState env enc s =
     (case (case enc of Some en \<Rightarrow> Inr en | None \<Rightarrow> se_encode env) of
        Inl e \<Rightarrow> (Inl e, s)
      | Inr en \<Rightarrow>
          (case validateOutboundLayerBinding (se_layer env) (en_layer en) of
             Some e \<Rightarrow> (Inl e, s)
           | None \<Rightarrow>
               if en_layer en = None \<and> \<not> en_layerInvariant en
               then (Inl ErrOutboundLayerBindingRequired, s)
               else
                 let content = frameNeedsAck (en_typeID en);
                     (msgID, seqNo, s') =
                       (if en_replayMsgID en = 0
                        then let (m, s1) = reserveMsgID (se_msgID env) s in (m, peekSeqNo s1 content, s1)
                        else (en_replayMsgID en, en_replaySeqNo en, s))
                 in (Inr \<lparr>of_msgID = msgID, of_seqNo = seqNo, of_typeID = en_typeID en, of_body = en_body en,
                       of_reservedBytes = 0, of_reservationBudget = None, of_reqMsgID = en_reqMsgID en,
                       of_priority = en_priority en, of_delivery = en_delivery en,
                       of_compressed = en_compressed en, of_uncompressedBytes = en_uncompressedBytes en,
                       of_layer = en_layer en, of_layerInvariant = en_layerInvariant en,
                       of_sentAt = None, of_sends = 0\<rparr>, s')))"

text \<open>\<open>writeFrame\<close> marks the first successful write in the frame, which the outbox shares.\<close>

definition mark_sent :: "int \<Rightarrow> 'd frame \<Rightarrow> 'd frame" where
  "mark_sent now f = (if of_sentAt f = None then f\<lparr>of_sentAt := Some now, of_sends := 1\<rparr> else f)"

definition on_frame :: "int \<Rightarrow> ('d frame \<Rightarrow> 'd frame) \<Rightarrow> 'd box \<Rightarrow> 'd box" where
  "on_frame i g s = s\<lparr>ob_pending := map (\<lambda>(k, f). (k, if k = i then g f else f)) (ob_pending s)\<rparr>"

definition writeFrame :: "'d send_env \<Rightarrow> 'd frame \<Rightarrow> 'd box \<Rightarrow> outbound_error option \<times> 'd box" where
  "writeFrame env f s =
     (case se_write env f of
        Some e \<Rightarrow> (Some e, s)
      | None \<Rightarrow> (None, on_frame (of_msgID f) (mark_sent (se_now env)) s))"

text \<open>The retarget step: a result may have to be rewrapped for the request that claimed the write.
  The bytes of the superseded body stay charged until the terminal callback.\<close>

record 'd prepared =
  pr_encoded :: "'d msg option"
  pr_error :: "outbound_error option"
  pr_reserved :: int
  pr_superseded :: int

definition retarget ::
  "'d send_env \<Rightarrow> 'd send_op \<Rightarrow> nat \<Rightarrow> budget_heap \<Rightarrow> ('d prepared \<times> budget_heap) option" where
  "retarget env op rb bh =
     (let keep = \<lparr>pr_encoded = so_encoded op, pr_error = None, pr_reserved = so_reservedBytes op, pr_superseded = 0\<rparr>
      in case so_encoded op of
        None \<Rightarrow> Some (keep, bh)
      | Some en \<Rightarrow>
          if se_target env = 0 \<or> se_target env = en_reqMsgID en then Some (keep, bh)
          else let cloneBytes = int (length (en_body en))
               in case reserve_on rb cloneBytes bh of
                 (False, bh1) \<Rightarrow> Some (keep\<lparr>pr_error := Some ErrOutboundTrackedBudget\<rparr>, bh1)
               | (True, bh1) \<Rightarrow>
                   (case cloneRPCResultForRequest en (se_target env) True (en_delivery en) of
                      Inl e \<Rightarrow> do { bh2 \<leftarrow> release_on rb cloneBytes bh1; Some (keep\<lparr>pr_error := Some e\<rparr>, bh2) }
                    | Inr c \<Rightarrow> Some (\<lparr>pr_encoded = Some c, pr_error = None, pr_reserved = cloneBytes,
                                      pr_superseded = so_reservedBytes op\<rparr>, bh1)))"

text \<open>\<open>sameBacking\<close> is compared by contents: the framed body is the encoded body itself.\<close>

definition rebody :: "nat \<Rightarrow> 'd frame \<Rightarrow> 'd prepared \<Rightarrow> budget_heap \<Rightarrow> 'd prepared \<times> budget_heap" where
  "rebody rb f p bh =
     (case pr_encoded p of
        None \<Rightarrow> (p, bh)
      | Some en \<Rightarrow>
          if of_body f = en_body en then (p, bh)
          else case reserve_on rb (body_len f) bh of
            (False, bh1) \<Rightarrow> (p\<lparr>pr_error := Some ErrOutboundTrackedBudget\<rparr>, bh1)
          | (True, bh1) \<Rightarrow> (p\<lparr>pr_superseded := pr_superseded p + pr_reserved p, pr_reserved := body_len f\<rparr>, bh1))"

text \<open>Admission to the outbox: a replay reuses the pending frame; a new content frame takes over
  the producer's reservation before the first write.\<close>

definition track ::
  "nat \<Rightarrow> 'd frame \<Rightarrow> 'd prepared \<Rightarrow> 'd box \<Rightarrow> ('d frame \<times> 'd prepared \<times> 'd box) option" where
  "track rb f p s =
     (if \<not> frameNeedsAck (of_typeID f) then Some (f, p, s)
      else case (if of_msgID f \<noteq> 0 then lookup s (of_msgID f) else None) of
        Some existing \<Rightarrow> Some (existing, p, s)
      | None \<Rightarrow>
          if body_len f > maxTrackedServerBytes
          then Some (f, p\<lparr>pr_error := Some ErrOutboundTrackedBudget\<rparr>, s)
          else do {
            let owned = f\<lparr>of_reservedBytes := pr_reserved p, of_reservationBudget := Some rb\<rparr>
            in do { (e, s') \<leftarrow> admitReserved owned s;
                 case e of
                   Some er \<Rightarrow> Some (f, p\<lparr>pr_error := Some er\<rparr>, s')
                 | None \<Rightarrow> Some (owned, p\<lparr>pr_reserved := 0\<rparr>, s') } })"

definition handleOutboundSend ::
  "'d send_env \<Rightarrow> 'd send_op \<Rightarrow> 'd box \<Rightarrow> budget_heap \<Rightarrow> (outbound_error option \<times> 'd box \<times> budget_heap) option" where
  "handleOutboundSend env op s bh =
     (let rb = (case so_reservationBudget op of None \<Rightarrow> ob_budget s | Some b \<Rightarrow> b);
          finish = (\<lambda>e s' p bh'. do {
            b1 \<leftarrow> release_on rb (pr_reserved p) bh';
            b2 \<leftarrow> release_on rb (pr_superseded p) b1;
            Some (e, s', b2) })
      in do {
        (p1, bh1) \<leftarrow> retarget env op rb bh;
        case pr_error p1 of
          Some e \<Rightarrow> finish (Some e) s p1 bh1
        | None \<Rightarrow>
            (case buildFrameWithState env (pr_encoded p1) s of
               (Inl e, s1) \<Rightarrow> finish (Some e) s1 p1 bh1
             | (Inr f, s1) \<Rightarrow>
                 let (p2, bh2) = rebody rb f p1 bh1
                 in if pr_error p2 \<noteq> None then finish (pr_error p2) s1 p2 bh2
                    else do {
                      (f', p3, s2) \<leftarrow> track rb f p2 s1;
                      if pr_error p3 \<noteq> None then finish (pr_error p3) s2 p3 bh2
                      else let (e, s3) = writeFrame env f' s2 in finish e s3 p3 bh2 }) })"

subsection \<open>Resends\<close>

definition mark_resent :: "int \<Rightarrow> 'd frame \<Rightarrow> 'd frame" where
  "mark_resent now f = (mark_sent now f)\<lparr>of_sentAt := Some now, of_sends := of_sends (mark_sent now f) + 1\<rparr>"

text \<open>The loop of \<open>handleOutboundResend\<close>; a frame bound to an obsolete layer profile is dropped from the
  outbox instead of being replayed.\<close>

fun resend_loop ::
  "'d send_env \<Rightarrow> int list \<Rightarrow> 'd box \<Rightarrow> budget_heap \<Rightarrow>
     (byte list \<times> outbound_error option \<times> 'd box \<times> budget_heap) option" where
  "resend_loop env [] s bh = Some ([], None, s, bh)"
| "resend_loop env (i # is) s bh =
     (let info = (if isKnown s i then msgStateReceived else 0);
          go = (\<lambda>s' bh'. do { (bs, e, s2, bh2) \<leftarrow> resend_loop env is s' bh'; Some (info # bs, e, s2, bh2) });
          stop = (\<lambda>e s'. Some (info # replicate (length is) 0, Some e, s', bh))
      in case lookup s i of
           None \<Rightarrow> go s bh
         | Some f \<Rightarrow>
             (case validateOutboundLayerBinding (se_layer env) (of_layer f) of
                Some e \<Rightarrow>
                  if isOutboundStaleLayerEpoch e \<or> isOutboundLayerProfileError e
                  then do { (_, s1, bh1) \<leftarrow> removePending i s bh; go s1 bh1 }
                  else stop e s
              | None \<Rightarrow>
                  (case se_write env f of
                     Some e \<Rightarrow> stop e s
                   | None \<Rightarrow> go (on_frame i (mark_resent (se_now env)) s) bh)))"

definition handleOutboundResendByRequest ::
  "'d send_env \<Rightarrow> int \<Rightarrow> 'd box \<Rightarrow> bool \<times> outbound_error option \<times> 'd box" where
  "handleOutboundResendByRequest env reqMsgID s =
     (case Option.bind (ob_byRequest s reqMsgID) (lookup s) of
        None \<Rightarrow> (False, None, s)
      | Some f \<Rightarrow>
          (case se_write env f of
             Some e \<Rightarrow> (False, Some e, s)
           | None \<Rightarrow> (True, None, on_frame (of_msgID f) (mark_resent (se_now env)) s)))"

subsection \<open>The actor's dispatcher\<close>

datatype 'd op_kind =
    OpSend "'d msg option" | OpAck "int list" | OpQueryState "int list" | OpResend "int list"
  | OpResendByRequest int

record 'd outbound_op =
  op_kind :: "'d op_kind"
  op_reservedBytes :: int
  op_reservationBudget :: "nat option"

datatype op_result = ResErr "outbound_error option" | ResAcked "acknowledgement list"
  | ResInfo "byte list" "outbound_error option" | ResResent bool "outbound_error option"

definition op_budget :: "'d outbound_op \<Rightarrow> 'd box \<Rightarrow> nat" where
  "op_budget op s = (case op_reservationBudget op of None \<Rightarrow> ob_budget s | Some b \<Rightarrow> b)"

definition op_releaseReservation :: "'d outbound_op \<Rightarrow> 'd box \<Rightarrow> budget_heap \<Rightarrow> budget_heap option" where
  "op_releaseReservation op s bh =
     (if op_reservedBytes op \<le> 0 then Some bh else release_on (op_budget op s) (op_reservedBytes op) bh)"

text \<open>\<open>unavailable\<close> is the answer of \<open>authKeyProtocolUnavailableNow\<close> when the actor takes the operation.\<close>

definition handleOutboundOp ::
  "bool \<Rightarrow> 'd send_env \<Rightarrow> 'd outbound_op \<Rightarrow> 'd box \<Rightarrow> budget_heap \<Rightarrow> (op_result \<times> 'd box \<times> budget_heap) option" where
  "handleOutboundOp unavailable env op s bh =
     (if unavailable
      then do { bh' \<leftarrow> op_releaseReservation op s bh; Some (ResErr (Some ErrConnClosed), s, bh') }
      else case op_kind op of
        OpSend en \<Rightarrow> do {
          (e, s', bh') \<leftarrow> handleOutboundSend env \<lparr>so_encoded = en, so_reservedBytes = op_reservedBytes op,
            so_reservationBudget = op_reservationBudget op\<rparr> s bh;
          Some (ResErr e, s', bh') }
      | OpAck is \<Rightarrow> do {
          (ds, s', bh') \<leftarrow> ackWithDetails is s bh;
          b \<leftarrow> op_releaseReservation op s' bh';
          Some (ResAcked ds, s', b) }
      | OpQueryState is \<Rightarrow> do {
          b \<leftarrow> op_releaseReservation op s bh;
          Some (ResInfo (stateInfo s is) None, s, b) }
      | OpResend is \<Rightarrow> do {
          (bs, e, s', bh') \<leftarrow> resend_loop env is s bh;
          b \<leftarrow> op_releaseReservation op s' bh';
          Some (ResInfo bs e, s', b) }
      | OpResendByRequest r \<Rightarrow>
          let (ok, e, s') = handleOutboundResendByRequest env r s
          in do { b \<leftarrow> op_releaseReservation op s' bh; Some (ResResent ok e, s', b) })"

fun actor_run ::
  "(bool \<times> 'd send_env \<times> 'd outbound_op) list \<Rightarrow> 'd box \<Rightarrow> budget_heap \<Rightarrow> (op_result list \<times> 'd box \<times> budget_heap) option" where
  "actor_run [] s bh = Some ([], s, bh)"
| "actor_run ((u, env, op) # ops) s bh =
     do { (r, s1, bh1) \<leftarrow> handleOutboundOp u env op s bh;
          (rs, s2, bh2) \<leftarrow> actor_run ops s1 bh1;
          Some (r # rs, s2, bh2) }"

end
