(* ===== verification/Outbound_Send_Inv.thy ===== *)
theory Outbound_Send_Inv
  imports Outbound_Send
begin

text \<open>
  The send path never loses or double-frees a reservation and never drops a pending frame.
\<close>

abbreviation plus_on :: "(nat \<Rightarrow> int) \<Rightarrow> nat \<Rightarrow> int \<Rightarrow> nat \<Rightarrow> int" where
  "plus_on X b n \<equiv> X(b := X b + n)"

lemma reserve_on_ok:
  assumes "reserve_on b n bh = (ok, bh')" and "0 \<le> n"
  shows "if ok then (\<forall>j. tb_used (bh' j) = tb_used (bh j) + (if j = b then n else 0)) else bh' = bh"
  using assms by (auto simp: reserve_on_def tracked_reserve_def fun_upd_idem split: if_splits prod.splits)

lemma charge_add:
  assumes "charge s bh Y" and "\<forall>j. tb_used (bh' j) = tb_used (bh j) + (if j = b then n else 0)" and "0 \<le> n"
  shows "charge s bh' (plus_on Y b n)"
  using assms by (auto simp: charge_def)

lemma charge_release:
  assumes "outbox_wf s" and "charge s bh (plus_on X b n)" and "0 \<le> n" and "0 \<le> X b"
  shows "\<exists>bh'. release_on b n bh = Some bh' \<and> charge s bh' X"
proof -
  have "0 \<le> held_on (ob_budget s) b (map snd (ob_pending s))"
    by (rule held_on_nonneg) (use outbox_wfD(2) [OF assms(1)] in auto)
  then have "n \<le> tb_used (bh b)"
    using assms(2) [unfolded charge_def, rule_format, of b] assms(4) by simp
  then obtain bh' where bh': "release_on b n bh = Some bh'"
    "\<forall>j. tb_used (bh' j) = tb_used (bh j) - (if j = b then n else 0)" using release_on_ok [of n bh b] assms(3) by blast
  have "charge s bh' X" unfolding charge_def
  proof
    fix j
    show "0 \<le> X j \<and> tb_used (bh' j) = held_on (ob_budget s) j (map snd (ob_pending s)) + X j"
      using assms(2) [unfolded charge_def, rule_format, of j] bh'(2) assms(4) by (auto split: if_splits)
  qed
  then show ?thesis using bh'(1) by blast
qed

lemma retarget_ok:
  assumes wf: "outbox_wf s" and ch: "charge s bh (plus_on X rb (so_reservedBytes op))"
    and nn: "0 \<le> so_reservedBytes op" "0 \<le> X rb"
  shows "\<exists>p bh'. retarget env op rb bh = Some (p, bh') \<and> 0 \<le> pr_reserved p \<and> 0 \<le> pr_superseded p \<and>
    charge s bh' (plus_on X rb (pr_reserved p + pr_superseded p))"
proof (cases "so_encoded op = None \<or> se_target env = 0 \<or> map_option en_reqMsgID (so_encoded op) = Some (se_target env)")
  case True
  then have "retarget env op rb bh = Some (\<lparr>pr_encoded = so_encoded op, pr_error = None,
      pr_reserved = so_reservedBytes op, pr_superseded = 0\<rparr>, bh)"
    by (cases "so_encoded op") (auto simp: retarget_def Let_def)
  then show ?thesis using ch nn by simp
next
  case False
  then obtain en where en: "so_encoded op = Some en" "se_target env \<noteq> 0" "se_target env \<noteq> en_reqMsgID en" by auto
  let ?n = "int (length (en_body en))"
  obtain ok bh1 where r: "reserve_on rb ?n bh = (ok, bh1)" by fastforce
  show ?thesis
  proof (cases ok)
    case False
    then have "bh1 = bh" using reserve_on_ok [OF r] by simp
    then show ?thesis using False en r ch nn by (simp add: retarget_def)
  next
    case True
    then have u: "\<forall>j. tb_used (bh1 j) = tb_used (bh j) + (if j = rb then ?n else 0)" using reserve_on_ok [OF r] by simp
    have c1: "charge s bh1 (plus_on (plus_on X rb (so_reservedBytes op)) rb ?n)" by (rule charge_add [OF ch u]) simp
    show ?thesis
    proof (cases "cloneRPCResultForRequest en (se_target env) True (en_delivery en)")
      case (Inl e)
      obtain bh2 where "release_on rb ?n bh1 = Some bh2" "charge s bh2 (plus_on X rb (so_reservedBytes op))"
        using charge_release [OF wf c1] nn by auto
      then show ?thesis using Inl True en r nn by (simp add: retarget_def)
    next
      case (Inr c)
      have "plus_on (plus_on X rb (so_reservedBytes op)) rb ?n = plus_on X rb (?n + so_reservedBytes op)" by auto
      then show ?thesis using Inr True en r nn c1 by (simp add: retarget_def)
    qed
  qed
qed

lemma rebody_ok:
  assumes ch: "charge s bh (plus_on X rb (pr_reserved p + pr_superseded p))"
    and nn: "0 \<le> pr_reserved p" "0 \<le> pr_superseded p" and r: "rebody rb f p bh = (p', bh')"
  shows "0 \<le> pr_reserved p' \<and> 0 \<le> pr_superseded p' \<and> pr_encoded p' = pr_encoded p \<and>
    charge s bh' (plus_on X rb (pr_reserved p' + pr_superseded p'))"
proof (cases "pr_encoded p = None \<or> map_option en_body (pr_encoded p) = Some (of_body f)")
  case True
  then have "p' = p \<and> bh' = bh" using r by (auto simp: rebody_def split: option.splits)
  then show ?thesis using ch nn by simp
next
  case False
  then obtain en where en: "pr_encoded p = Some en" "of_body f \<noteq> en_body en" by auto
  obtain ok bh1 where q: "reserve_on rb (body_len f) bh = (ok, bh1)" by fastforce
  note R = reserve_on_ok [OF q body_len_nonneg]
  show ?thesis
  proof (cases ok)
    case False
    then show ?thesis using r en q R ch nn by (auto simp: rebody_def)
  next
    case True
    then have "\<forall>j. tb_used (bh1 j) = tb_used (bh j) + (if j = rb then body_len f else 0)" using R by simp
    from charge_add [OF ch this body_len_nonneg]
    have c1: "charge s bh1 (plus_on (plus_on X rb (pr_reserved p + pr_superseded p)) rb (body_len f))" .
    have "plus_on (plus_on X rb (pr_reserved p + pr_superseded p)) rb (body_len f) =
        plus_on X rb (body_len f + (pr_superseded p + pr_reserved p))" by auto
    then show ?thesis using True r en q c1 nn by (auto simp: rebody_def)
  qed
qed

lemma outbox_wf_lastMsgID [simp]: "outbox_wf (s\<lparr>ob_lastMsgID := m\<rparr>) = outbox_wf s"
  by (simp add: outbox_wf_def lookup_def)

lemma buildFrame_state:
  assumes "buildFrameWithState env enc s = (r, s')"
  shows "s' = s \<or> (\<exists>m. s' = s\<lparr>ob_lastMsgID := m\<rparr>)" and "r = Inr f \<Longrightarrow> of_reservedBytes f = 0"
  using assms by (auto simp: buildFrameWithState_def reserveMsgID_def Let_def
      split: sum.splits option.splits if_splits prod.splits)

lemma buildFrame_ok:
  assumes "buildFrameWithState env enc s = (r, s')"
  shows "ob_pending s' = ob_pending s" and "ob_budget s' = ob_budget s" and "outbox_wf s' = outbox_wf s"
  using buildFrame_state(1) [OF assms] by auto

lemma track_ok:
  assumes wf: "outbox_wf s" and ch: "charge s bh (plus_on X rb (pr_reserved p + pr_superseded p))"
    and nn: "0 \<le> pr_reserved p" "0 \<le> pr_superseded p" "\<forall>b. 0 \<le> X b"
  shows "\<exists>f' p' s'. track rb f p s = Some (f', p', s') \<and> outbox_wf s' \<and> 0 \<le> pr_reserved p' \<and>
    0 \<le> pr_superseded p' \<and> charge s' bh (plus_on X rb (pr_reserved p' + pr_superseded p')) \<and>
    (\<forall>k g. lookup s k = Some g \<longrightarrow> lookup s' k = Some g) \<and>
    (pr_error p = None \<and> pr_error p' = None \<and> frameNeedsAck (of_typeID f) \<longrightarrow> lookup s' (of_msgID f') = Some f')"
proof (cases "frameNeedsAck (of_typeID f) \<and> \<not> (of_msgID f \<noteq> 0 \<and> lookup s (of_msgID f) \<noteq> None) \<and>
    body_len f \<le> maxTrackedServerBytes")
  case False
  then show ?thesis
    using wf ch nn lookupD(1) [OF wf] by (auto simp: track_def split: option.splits)
next
  case True
  let ?f = "f\<lparr>of_reservedBytes := pr_reserved p, of_reservationBudget := Some rb\<rparr>"
  obtain e s' where a: "admitReserved ?f s = Some (e, s')" "outbox_wf s'" "e \<noteq> None \<longrightarrow> s' = s"
    "ob_budget s' = ob_budget s"
    "e = None \<longrightarrow> lookup s (of_msgID ?f) = None \<and> lookup s' = (lookup s)(of_msgID ?f \<mapsto> ?f) \<and>
       ob_pending s' = ob_pending s @ [(of_msgID ?f, ?f)]"
    using admitReserved_ok [OF wf, of ?f] nn(1) by auto
  have T: "track rb f p s = (case e of Some er \<Rightarrow> Some (f, p\<lparr>pr_error := Some er\<rparr>, s')
      | None \<Rightarrow> Some (?f, p\<lparr>pr_reserved := 0\<rparr>, s'))"
    using True a(1) by (auto simp: track_def split: option.splits)
  show ?thesis
  proof (cases e)
    case (Some er)
    then show ?thesis using T a ch nn by simp
  next
    case None
    have "charge s' bh (plus_on X rb (0 + pr_superseded p))"
      unfolding charge_def
    proof
      fix j
      show "0 \<le> (plus_on X rb (0 + pr_superseded p)) j \<and> tb_used (bh j) =
        held_on (ob_budget s') j (map snd (ob_pending s')) + (plus_on X rb (0 + pr_superseded p)) j"
        using ch [unfolded charge_def, rule_format, of j] a(4,5) None nn
        by (auto simp: charged_to_def split: if_splits)
    qed
    then show ?thesis using T a None nn by auto
  qed
qed

lemma map_of_on_frame:
  "map_of (map (\<lambda>(k, f). (k, if k = i then g f else f)) ps) k =
     map_option (\<lambda>f. if k = i then g f else f) (map_of ps k)"
  by (induction ps) auto

lemma held_on_map:
  assumes "\<And>f. charged_to d (g f) = charged_to d f" and "\<And>f. of_reservedBytes (g f) = of_reservedBytes f"
  shows "held_on d b (map snd (map (\<lambda>(k, f). (k, if k = i then g f else f)) ps)) = held_on d b (map snd ps)"
proof -
  have "charged_to d (if k = i then g f else f) = charged_to d f"
    "of_reservedBytes (if k = i then g f else f) = of_reservedBytes f" for k f
    using assms by simp_all
  then show ?thesis by (induction ps) (auto simp del: if_split)
qed

lemma on_frame_ok:
  assumes wf: "outbox_wf s" and g: "\<And>f. of_msgID (g f) = of_msgID f" "\<And>f. of_body (g f) = of_body f"
    "\<And>f. of_reservedBytes (g f) = of_reservedBytes f" "\<And>f. of_reqMsgID (g f) = of_reqMsgID f"
    "\<And>f. of_reservationBudget (g f) = of_reservationBudget f"
  shows "outbox_wf (on_frame i g s)" and "charge (on_frame i g s) bh X = charge s bh X"
    and "lookup (on_frame i g s) k = map_option (\<lambda>f. if k = i then g f else f) (lookup s k)"
proof -
  note D = outbox_wfD [OF wf]
  have lk: "lookup (on_frame i g s) k = map_option (\<lambda>f. if k = i then g f else f) (lookup s k)" for k
    by (simp add: lookup_def on_frame_def map_of_on_frame)
  then show "lookup (on_frame i g s) k = map_option (\<lambda>f. if k = i then g f else f) (lookup s k)" .
  have keys: "map fst (ob_pending (on_frame i g s)) = map fst (ob_pending s)"
    by (simp add: on_frame_def comp_def case_prod_beta)
  have mem: "\<exists>f0. (j, f0) \<in> set (ob_pending s) \<and> (f = f0 \<or> f = g f0)"
    if "(j, f) \<in> set (ob_pending (on_frame i g s))" for j f
    using that by (auto simp: on_frame_def)
  show "charge (on_frame i g s) bh X = charge s bh X"
    using held_on_map [of _ g _ i "ob_pending s"] g(3,5) by (simp add: charge_def on_frame_def charged_to_def)
  show "outbox_wf (on_frame i g s)"
  proof (rule outbox_wfI)
    show "distinct (map fst (ob_pending (on_frame i g s)))" using D(1) keys by simp
    show "of_msgID f = j \<and> 0 \<le> of_reservedBytes f" if "(j, f) \<in> set (ob_pending (on_frame i g s))" for j f
      using mem [OF that] D(2) g by fastforce
    have bl: "map (body_len \<circ> snd) (ob_pending (on_frame i g s)) = map (body_len \<circ> snd) (ob_pending s)"
      using g(2) by (simp add: on_frame_def body_len_def case_prod_beta)
    show "ob_totalBytes (on_frame i g s) = sum_list (map (body_len \<circ> snd) (ob_pending (on_frame i g s)))"
      unfolding bl using D(3) by (simp add: on_frame_def)
    have "length (ob_pending (on_frame i g s)) = length (ob_pending s)" using keys by (metis length_map)
    then show "int (length (ob_pending (on_frame i g s))) \<le> max 0 (ob_maxMessages (on_frame i g s))"
      using D(4) by (simp add: on_frame_def)
    have "fst ` set (ob_pending (on_frame i g s)) = fst ` set (ob_pending s)" using keys by (metis set_map)
    then show "fst ` set (ob_pending (on_frame i g s)) \<subseteq> set (ob_order (on_frame i g s))"
      using D(6) by (simp add: on_frame_def)
    show "r \<noteq> 0 \<and> (\<exists>f. lookup (on_frame i g s) m = Some f \<and> of_reqMsgID f = r)"
      if "ob_byRequest (on_frame i g s) r = Some m" for r m
    proof -
      have "ob_byRequest s r = Some m" using that by (simp add: on_frame_def)
      then obtain f where "r \<noteq> 0" "lookup s m = Some f" "of_reqMsgID f = r" using D(7) by blast
      then show ?thesis using g(4) by (simp add: lk)
    qed
  qed (use D(5,8-10) in \<open>simp_all add: on_frame_def\<close>)
qed

lemma mark_sent_simps [simp]:
  "of_msgID (mark_sent now f) = of_msgID f" "of_body (mark_sent now f) = of_body f"
  "of_reservedBytes (mark_sent now f) = of_reservedBytes f" "of_reqMsgID (mark_sent now f) = of_reqMsgID f"
  "of_reservationBudget (mark_sent now f) = of_reservationBudget f" "of_seqNo (mark_sent now f) = of_seqNo f"
  "of_typeID (mark_sent now f) = of_typeID f"
  by (simp_all add: mark_sent_def)

lemma on_frame_sent:
  assumes "outbox_wf s"
  shows "outbox_wf (on_frame i (mark_sent now) s)"
    and "charge (on_frame i (mark_sent now) s) bh X = charge s bh X"
    and "lookup (on_frame i (mark_sent now) s) k = map_option (\<lambda>f. if k = i then mark_sent now f else f) (lookup s k)"
  using on_frame_ok [OF assms, of "mark_sent now"] by simp_all

lemma writeFrame_ok:
  assumes "outbox_wf s" and "writeFrame env f s = (e, s')"
  shows "outbox_wf s'" and "charge s' bh X = charge s bh X"
    and "lookup s k = Some g \<Longrightarrow> \<exists>g'. lookup s' k = Some g' \<and> (g' = g \<or> g' = mark_sent (se_now env) g)"
    and "e = se_write env f"
  using assms(2) on_frame_sent [OF assms(1)] assms(1)
  by (auto simp: writeFrame_def split: option.splits)

lemma finish_ok:
  assumes wf: "outbox_wf s" and ch: "charge s bh (plus_on X rb (pr_reserved p + pr_superseded p))"
    and nn: "0 \<le> pr_reserved p" "0 \<le> pr_superseded p" "0 \<le> X rb"
  shows "\<exists>b1 b2. release_on rb (pr_reserved p) bh = Some b1 \<and> release_on rb (pr_superseded p) b1 = Some b2 \<and>
    charge s b2 X"
proof -
  have e: "plus_on X rb (pr_reserved p + pr_superseded p) = plus_on (plus_on X rb (pr_superseded p)) rb (pr_reserved p)"
    by auto
  obtain b1 where b1: "release_on rb (pr_reserved p) bh = Some b1" "charge s b1 (plus_on X rb (pr_superseded p))"
    using charge_release [OF wf ch [unfolded e] nn(1)] nn by auto
  then show ?thesis using charge_release [OF wf b1(2) nn(2,3)] by blast
qed

text \<open>A pending frame survives a send, at most gaining its first send time.\<close>

definition frames_kept :: "'d box \<Rightarrow> 'd box \<Rightarrow> int \<Rightarrow> bool" where
  "frames_kept s s' now \<longleftrightarrow> (\<forall>k g. lookup s k = Some g \<longrightarrow>
     (\<exists>g'. lookup s' k = Some g' \<and> (g' = g \<or> g' = mark_sent now g)))"

lemma send_ok:
  assumes wf: "outbox_wf s" and X: "\<forall>b. 0 \<le> X b" and nn: "0 \<le> so_reservedBytes op"
    and ch: "charge s bh (plus_on X (case so_reservationBudget op of None \<Rightarrow> ob_budget s | Some b \<Rightarrow> b)
       (so_reservedBytes op))"
  shows "\<exists>e s' bh'. handleOutboundSend env op s bh = Some (e, s', bh') \<and> outbox_wf s' \<and> charge s' bh' X \<and>
    frames_kept s s' (se_now env)"
proof -
  define rb where "rb = (case so_reservationBudget op of None \<Rightarrow> ob_budget s | Some b \<Rightarrow> b)"
  note ch = ch [folded rb_def]
  have Xrb: "0 \<le> X rb" using X by simp
  obtain p1 bh1 where p1: "retarget env op rb bh = Some (p1, bh1)" "0 \<le> pr_reserved p1" "0 \<le> pr_superseded p1"
    "charge s bh1 (plus_on X rb (pr_reserved p1 + pr_superseded p1))"
    using retarget_ok [OF wf ch nn Xrb] by blast
  show ?thesis
  proof (cases "pr_error p1")
    case (Some e)
    obtain b1 b2 where "release_on rb (pr_reserved p1) bh1 = Some b1" "release_on rb (pr_superseded p1) b1 = Some b2"
      "charge s b2 X" using finish_ok [OF wf p1(4,2,3) Xrb] by blast
    then show ?thesis using p1(1) Some wf by (simp add: handleOutboundSend_def rb_def [symmetric] frames_kept_def)
  next
    case e1: None
    obtain r s1 where bf: "buildFrameWithState env (pr_encoded p1) s = (r, s1)" by fastforce
    note B = buildFrame_ok [OF bf]
    have wf1: "outbox_wf s1" using B(3) wf by simp
    have ch1: "charge s1 bh1 (plus_on X rb (pr_reserved p1 + pr_superseded p1))"
      using p1(4) charge_frame [OF B(1,2)] by simp
    have lk1: "lookup s1 = lookup s" by (rule lookup_frame [OF B(1)])
    show ?thesis
    proof (cases r)
      case (Inl e)
      obtain b1 b2 where "release_on rb (pr_reserved p1) bh1 = Some b1" "release_on rb (pr_superseded p1) b1 = Some b2"
        "charge s1 b2 X" using finish_ok [OF wf1 ch1 p1(2,3) Xrb] by blast
      then show ?thesis using p1(1) e1 bf Inl wf1
        by (simp add: handleOutboundSend_def rb_def [symmetric] frames_kept_def lk1)
    next
      case (Inr f)
      obtain p2 bh2 where rbd: "rebody rb f p1 bh1 = (p2, bh2)" by fastforce
      note P2 = rebody_ok [OF ch1 p1(2,3) rbd]
      show ?thesis
      proof (cases "pr_error p2")
        case (Some e)
        obtain b1 b2 where "release_on rb (pr_reserved p2) bh2 = Some b1" "release_on rb (pr_superseded p2) b1 = Some b2"
          "charge s1 b2 X" using finish_ok [of s1 bh2 X rb p2] wf1 P2 Xrb by blast
        then show ?thesis using p1(1) e1 bf Inr rbd Some wf1
          by (simp add: handleOutboundSend_def rb_def [symmetric] frames_kept_def lk1)
      next
        case e2: None
        obtain f' p3 s2 where t: "track rb f p2 s1 = Some (f', p3, s2)" "outbox_wf s2" "0 \<le> pr_reserved p3"
          "0 \<le> pr_superseded p3" "charge s2 bh2 (plus_on X rb (pr_reserved p3 + pr_superseded p3))"
          "\<forall>k g. lookup s1 k = Some g \<longrightarrow> lookup s2 k = Some g"
          using track_ok [of s1 bh2 X rb p2 f] wf1 P2 X by blast
        show ?thesis
        proof (cases "pr_error p3")
          case (Some e)
          obtain b1 b2 where "release_on rb (pr_reserved p3) bh2 = Some b1" "release_on rb (pr_superseded p3) b1 = Some b2"
            "charge s2 b2 X" using finish_ok [OF t(2,5,3,4) Xrb] by blast
          then show ?thesis using p1(1) e1 bf Inr rbd e2 t(1,2,6) Some
            by (simp add: handleOutboundSend_def rb_def [symmetric] frames_kept_def lk1)
        next
          case e3: None
          obtain e s3 where w: "writeFrame env f' s2 = (e, s3)" by fastforce
          note W = writeFrame_ok [OF t(2) w]
          obtain b1 b2 where "release_on rb (pr_reserved p3) bh2 = Some b1" "release_on rb (pr_superseded p3) b1 = Some b2"
            "charge s2 b2 X" using finish_ok [OF t(2,5,3,4) Xrb] by blast
          then show ?thesis using p1(1) e1 bf Inr rbd e2 t(1) e3 w W(1,2) W(3) t(6)
            by (auto simp: handleOutboundSend_def rb_def [symmetric] frames_kept_def lk1)
        qed
      qed
    qed
  qed
qed

subsection \<open>Resends and the dispatcher\<close>

lemma mark_resent_simps [simp]:
  "of_msgID (mark_resent now f) = of_msgID f" "of_body (mark_resent now f) = of_body f"
  "of_reservedBytes (mark_resent now f) = of_reservedBytes f" "of_reqMsgID (mark_resent now f) = of_reqMsgID f"
  "of_reservationBudget (mark_resent now f) = of_reservationBudget f" "of_seqNo (mark_resent now f) = of_seqNo f"
  by (simp_all add: mark_resent_def)

lemma on_frame_resent:
  assumes "outbox_wf s"
  shows "outbox_wf (on_frame i (mark_resent now) s)"
    and "charge (on_frame i (mark_resent now) s) bh X = charge s bh X"
  using on_frame_ok [OF assms, of "mark_resent now"] by simp_all

lemma ob_budget_frame:
  "removePending i s bh = Some (b, s', bh') \<Longrightarrow> ob_budget s' = ob_budget s"
  "ob_budget (on_frame i g s) = ob_budget s"
  by (auto simp: removePending_def on_frame_def split: option.splits)

lemma resend_loop_ok:
  assumes "outbox_wf s" and "charge s bh X"
  shows "\<exists>bs e s' bh'. resend_loop env is s bh = Some (bs, e, s', bh') \<and> outbox_wf s' \<and> charge s' bh' X \<and>
    length bs = length is \<and> ob_budget s' = ob_budget s"
  using assms
proof (induction "is" arbitrary: s bh)
  case Nil
  then show ?case by simp
next
  case (Cons i "is")
  have go: "\<exists>bs e s2 bh2. do { (bs, e, s2, bh2) \<leftarrow> resend_loop env is s' bh'; Some (info # bs, e, s2, bh2) } =
      Some (bs, e, s2, bh2) \<and> outbox_wf s2 \<and> charge s2 bh2 X \<and> length bs = Suc (length is) \<and> ob_budget s2 = ob_budget s"
    if "outbox_wf s'" "charge s' bh' X" "ob_budget s' = ob_budget s" for s' bh' info
    using Cons.IH [OF that(1,2)] that(3) by auto
  show ?case
  proof (cases "lookup s i")
    case None
    then show ?thesis using go [OF Cons.prems refl] by (simp add: Let_def)
  next
    case (Some f)
    show ?thesis
    proof (cases "validateOutboundLayerBinding (se_layer env) (of_layer f)")
      case None
      show ?thesis
      proof (cases "se_write env f")
        case w: None
        have "outbox_wf (on_frame i (mark_resent (se_now env)) s)"
          "charge (on_frame i (mark_resent (se_now env)) s) bh X"
          using on_frame_resent [OF Cons.prems(1)] Cons.prems(2) by simp_all
        from go [OF this] show ?thesis using Some None w by (simp add: Let_def ob_budget_frame)
      next
        case (Some e)
        then show ?thesis using \<open>lookup s i = Some f\<close> None Cons.prems by (simp add: Let_def)
      qed
    next
      case (Some e)
      show ?thesis
      proof (cases "isOutboundStaleLayerEpoch e \<or> isOutboundLayerProfileError e")
        case True
        obtain s1 bh1 where r: "removePending i s bh = Some (True, s1, bh1)" "outbox_wf s1" "charge s1 bh1 X"
          using removePending_ok [OF Cons.prems, of i] \<open>lookup s i = Some f\<close> by auto
        from go [OF r(2,3)] show ?thesis
          using \<open>lookup s i = Some f\<close> Some True r(1) ob_budget_frame(1) [OF r(1)] by (simp add: Let_def)
      next
        case False
        then show ?thesis using \<open>lookup s i = Some f\<close> Some Cons.prems by (simp add: Let_def)
      qed
    qed
  qed
qed

lemma op_release_ok:
  assumes "outbox_wf s" and "charge s bh (plus_on X (op_budget op s) (op_reservedBytes op))"
    and "0 \<le> op_reservedBytes op" and "\<forall>b. 0 \<le> X b"
  shows "\<exists>bh'. op_releaseReservation op s bh = Some bh' \<and> charge s bh' X"
proof (cases "op_reservedBytes op = 0")
  case True
  then show ?thesis using assms(2) by (simp add: op_releaseReservation_def)
next
  case False
  then show ?thesis
    using charge_release [OF assms(1,2,3)] assms(3,4) by (simp add: op_releaseReservation_def)
qed

lemma ackWithDetails_budget:
  "ackWithDetails is s bh = Some (ds, s', bh') \<Longrightarrow> outbox_wf s \<Longrightarrow> charge s bh X \<Longrightarrow> ob_budget s' = ob_budget s"
  using ack_loop_ok [of s bh X "is"] by (auto simp: ackWithDetails_def compactOrder_def)

lemma send_budget:
  assumes "handleOutboundSend env op s bh = Some (e, s', bh')"
  shows "ob_budget s' = ob_budget s"
proof -
  have ad: "ob_budget s' = ob_budget s" if "admitReserved f s = Some (e, s')" for f e and s s' :: "'a box"
    using that by (auto simp: admitReserved_def insertReserved_def split: if_splits)
  have tr: "ob_budget s' = ob_budget s" if "track rb f p s = Some (f', p', s')" for rb f p f' p' and s s' :: "'a box"
    using that by (auto simp: track_def Let_def dest!: ad split: if_splits option.splits)
  have wr: "ob_budget s' = ob_budget s" if "writeFrame env f s = (e, s')" for f e and s s' :: "'a box"
    using that by (auto simp: writeFrame_def on_frame_def split: option.splits)
  have bf: "ob_budget s' = ob_budget s" if "buildFrameWithState env enc s = (r, s')" for enc r and s s' :: "'a box"
    by (rule buildFrame_ok(2) [OF that])
  show ?thesis using assms
    by (auto simp: handleOutboundSend_def Let_def dest!: tr wr bf split: option.splits sum.splits if_splits prod.splits)
qed

lemma op_budget_cong: "ob_budget s' = ob_budget s \<Longrightarrow> op_budget op s' = op_budget op s"
  by (simp add: op_budget_def cong: option.case_cong)

lemma handleOutboundOp_ok:
  assumes wf: "outbox_wf s" and X: "\<forall>b. 0 \<le> X b" and nn: "0 \<le> op_reservedBytes op"
    and ch: "charge s bh (plus_on X (op_budget op s) (op_reservedBytes op))"
  shows "\<exists>r s' bh'. handleOutboundOp u env op s bh = Some (r, s', bh') \<and> outbox_wf s' \<and> charge s' bh' X \<and>
    ob_budget s' = ob_budget s"
proof (cases u)
  case True
  then show ?thesis using op_release_ok [OF wf ch nn X] wf by (auto simp: handleOutboundOp_def)
next
  case False
  let ?Y = "plus_on X (op_budget op s) (op_reservedBytes op)"
  show ?thesis
  proof (cases "op_kind op")
    case (OpSend en)
    let ?op = "\<lparr>so_encoded = en, so_reservedBytes = op_reservedBytes op,
      so_reservationBudget = op_reservationBudget op\<rparr>"
    obtain e s' bh' where h: "handleOutboundSend env ?op s bh = Some (e, s', bh')" "outbox_wf s'" "charge s' bh' X"
      using send_ok [OF wf X, of ?op bh env] nn ch by (auto simp: op_budget_def)
    then show ?thesis using False OpSend send_budget [OF h(1)] by (simp add: handleOutboundOp_def)
  next
    case (OpAck "is")
    obtain ds s' bh' where a: "ackWithDetails is s bh = Some (ds, s', bh')" "outbox_wf s'" "charge s' bh' ?Y"
      using ackWithDetails_ok [OF wf ch, of "is"] by blast
    have b: "ob_budget s' = ob_budget s" by (rule ackWithDetails_budget [OF a(1) wf ch])
    then have "charge s' bh' (plus_on X (op_budget op s') (op_reservedBytes op))" using a(3) op_budget_cong [of s' s op] by simp
    then show ?thesis using False OpAck a b op_release_ok [OF a(2) _ nn X] by (fastforce simp: handleOutboundOp_def)
  next
    case (OpQueryState "is")
    then show ?thesis using False op_release_ok [OF wf ch nn X] wf by (auto simp: handleOutboundOp_def)
  next
    case (OpResend "is")
    obtain bs e s' bh' where a: "resend_loop env is s bh = Some (bs, e, s', bh')" "outbox_wf s'" "charge s' bh' ?Y"
      "ob_budget s' = ob_budget s" using resend_loop_ok [OF wf ch, of env "is"] by blast
    then have "charge s' bh' (plus_on X (op_budget op s') (op_reservedBytes op))" using op_budget_cong [of s' s op] by simp
    then show ?thesis using False OpResend a op_release_ok [OF a(2) _ nn X] by (fastforce simp: handleOutboundOp_def)
  next
    case (OpResendByRequest r)
    obtain ok e s' where h: "handleOutboundResendByRequest env r s = (ok, e, s')" by (cases "handleOutboundResendByRequest env r s")
    have s': "outbox_wf s'" "charge s' bh ?Y" "ob_budget s' = ob_budget s"
      using h wf ch on_frame_resent [OF wf]
      by (auto simp: handleOutboundResendByRequest_def ob_budget_frame split: option.splits)
    then have "charge s' bh (plus_on X (op_budget op s') (op_reservedBytes op))" using op_budget_cong [of s' s op] by simp
    then show ?thesis using False OpResendByRequest h s' op_release_ok [OF s'(1) _ nn X]
      by (fastforce simp: handleOutboundOp_def)
  qed
qed

subsection \<open>How the outbox evolves\<close>

text \<open>
  Every operation of the actor admits frames, removes frames, marks frames as sent, and changes what is
  neither the pending frames nor the index by request. \<open>A\<close> says which frames may be admitted, \<open>R\<close> which removed.
\<close>

inductive evolves :: "('d frame \<Rightarrow> bool) \<Rightarrow> (int \<Rightarrow> 'd frame \<Rightarrow> bool) \<Rightarrow> 'd box \<Rightarrow> 'd box \<Rightarrow> bool" for A R s where
  same: "ob_pending s' = ob_pending s \<Longrightarrow> ob_byRequest s' = ob_byRequest s \<Longrightarrow> evolves A R s s'"
| other: "evolves A R s s1 \<Longrightarrow> ob_pending s' = ob_pending s1 \<Longrightarrow> ob_byRequest s' = ob_byRequest s1 \<Longrightarrow> evolves A R s s'"
| admit: "evolves A R s s1 \<Longrightarrow> A f \<Longrightarrow> lookup s1 (of_msgID f) = None \<Longrightarrow> evolves A R s (inserted f s1)"
| remove: "evolves A R s s1 \<Longrightarrow> lookup s1 i = Some f \<Longrightarrow> R i f \<Longrightarrow> removePending i s1 bh = Some (True, s', bh') \<Longrightarrow>
    evolves A R s s'"
| sent: "evolves A R s s1 \<Longrightarrow> evolves A R s (on_frame i (mark_sent now) s1)"
| resent: "evolves A R s s1 \<Longrightarrow> evolves A R s (on_frame i (mark_resent now) s1)"

lemma evolves_refl [intro, simp]: "evolves A R s s"
  by (rule evolves.same) simp_all

lemma evolves_trans:
  assumes "evolves A R s1 s2" and "evolves A R s0 s1"
  shows "evolves A R s0 s2"
  using assms
proof (induction rule: evolves.induct)
  case (same s')
  then show ?case by (blast intro: evolves.other)
qed (blast intro: evolves.intros)+

text \<open>What a send carries in the end: a result may be rewrapped for the request that claimed the write.\<close>

definition carried :: "'d send_env \<Rightarrow> 'd msg option \<Rightarrow> 'd msg option" where
  "carried env en =
     (case en of
        None \<Rightarrow> (case se_encode env of Inl _ \<Rightarrow> None | Inr e \<Rightarrow> Some e)
      | Some e \<Rightarrow>
          if se_target env = 0 \<or> se_target env = en_reqMsgID e then Some e
          else (case cloneRPCResultForRequest e (se_target env) True (en_delivery e) of Inl _ \<Rightarrow> None | Inr c \<Rightarrow> Some c))"

definition framed_as :: "'d msg \<Rightarrow> 'd frame \<Rightarrow> bool" where
  "framed_as en f \<longleftrightarrow> of_body f = en_body en \<and> of_reqMsgID f = en_reqMsgID en \<and>
     (en_replayMsgID en \<noteq> 0 \<longrightarrow> of_msgID f = en_replayMsgID en)"

fun admits_frame :: "bool \<times> 'd send_env \<times> 'd outbound_op \<Rightarrow> 'd frame \<Rightarrow> bool" where
  "admits_frame (u, env, op) f \<longleftrightarrow> (\<exists>en e. op_kind op = OpSend en \<and> carried env en = Some e \<and> framed_as e f \<and>
     (\<forall>e0. en = Some e0 \<and> op_reservedBytes op = int (length (en_body e0)) \<longrightarrow> of_reservedBytes f = body_len f))"

fun drops_frame :: "bool \<times> 'd send_env \<times> 'd outbound_op \<Rightarrow> int \<Rightarrow> 'd frame \<Rightarrow> bool" where
  "drops_frame (u, env, op) i f \<longleftrightarrow>
     (case op_kind op of
        OpAck is \<Rightarrow> i \<in> set is
      | OpResend is \<Rightarrow> i \<in> set is \<and> validateOutboundLayerBinding (se_layer env) (of_layer f) \<noteq> None
      | _ \<Rightarrow> False)"

lemma clone_length:
  "cloneRPCResultForRequest en r share d = Inr c \<Longrightarrow> length (en_body c) = length (en_body en)"
  by (auto simp: cloneRPCResultForRequest_def le64_def split: if_splits)

lemma retarget_carried:
  assumes "retarget env op rb bh = Some (p, bh')" and "pr_error p = None"
  shows "(case pr_encoded p of None \<Rightarrow> so_encoded op = None | Some e \<Rightarrow> carried env (so_encoded op) = Some e \<and>
    (\<forall>e0. so_encoded op = Some e0 \<and> so_reservedBytes op = int (length (en_body e0)) \<longrightarrow>
       pr_reserved p = int (length (en_body e))))"
proof (cases "so_encoded op")
  case None
  then show ?thesis using assms by (auto simp: retarget_def Let_def)
next
  case (Some en)
  then show ?thesis using assms
    by (auto simp: retarget_def Let_def carried_def clone_length split: if_splits prod.splits bool.splits sum.splits)
qed

lemma build_carries:
  assumes "buildFrameWithState env enc s = (Inr f, s')"
  shows "\<exists>e. (case enc of None \<Rightarrow> se_encode env = Inr e | Some e0 \<Rightarrow> e = e0) \<and> framed_as e f"
    and "ob_byRequest s' = ob_byRequest s"
  using assms by (auto simp: buildFrameWithState_def reserveMsgID_def Let_def framed_as_def
      split: sum.splits option.splits if_splits prod.splits)

lemma admitReserved_evolves:
  assumes "admitReserved f s = Some (e, s')" and "A f"
  shows "evolves A R s s'"
proof (cases e)
  case None
  then have "s' = inserted f s" "lookup s (of_msgID f) = None"
    using assms(1) by (auto simp: admitReserved_def insertReserved_eq split: if_splits)
  then show ?thesis using evolves.admit [OF evolves_refl] assms(2) by simp
next
  case (Some x)
  then have "s' = s" using assms(1) by (auto simp: admitReserved_def split: if_splits bind_splits)
  then show ?thesis by simp
qed

lemma track_evolves:
  assumes "track rb f p s = Some (f', p', s')" and "A (f\<lparr>of_reservedBytes := pr_reserved p, of_reservationBudget := Some rb\<rparr>)"
  shows "evolves A R s s'"
  using assms by (auto simp: track_def Let_def dest: admitReserved_evolves split: if_splits option.splits bind_splits)

lemma send_evolves:
  assumes h: "handleOutboundSend env op s bh = Some (e, s', bh')"
    and A: "\<And>e0 f. carried env (so_encoded op) = Some e0 \<Longrightarrow> framed_as e0 f \<Longrightarrow>
      (\<forall>e1. so_encoded op = Some e1 \<and> so_reservedBytes op = int (length (en_body e1)) \<longrightarrow> of_reservedBytes f = body_len f) \<Longrightarrow> A f"
  shows "evolves A R s s'"
proof -
  define rb where "rb = (case so_reservationBudget op of None \<Rightarrow> ob_budget s | Some b \<Rightarrow> b)"
  obtain p1 bh1 where p1: "retarget env op rb bh = Some (p1, bh1)"
    using h by (auto simp: handleOutboundSend_def Let_def rb_def split: bind_splits)
  show ?thesis
  proof (cases "pr_error p1")
    case (Some er)
    then show ?thesis using h p1 by (auto simp: handleOutboundSend_def Let_def rb_def [symmetric] split: bind_splits)
  next
    case e1: None
    obtain r s1 where b: "buildFrameWithState env (pr_encoded p1) s = (r, s1)" by fastforce
    note B = buildFrame_ok [OF b]
    show ?thesis
    proof (cases r)
      case (Inl er)
      have "ob_byRequest s1 = ob_byRequest s" using buildFrame_state(1) [OF b] by auto
      then have "evolves A R s s1" using B(1) by (rule evolves.same [rotated])
      then show ?thesis using h p1 e1 b Inl
        by (auto simp: handleOutboundSend_def Let_def rb_def [symmetric] split: bind_splits)
    next
      case (Inr f)
      note b = b [unfolded Inr]
      have s1: "evolves A R s s1" by (rule evolves.same [OF B(1) build_carries(2) [OF b]])
      obtain e0 where e0: "case pr_encoded p1 of None \<Rightarrow> se_encode env = Inr e0 | Some x \<Rightarrow> e0 = x" "framed_as e0 f"
        using build_carries(1) [OF b] by blast
      have c: "carried env (so_encoded op) = Some e0"
        using retarget_carried [OF p1 e1] e0(1) by (auto simp: carried_def split: option.splits)
      obtain p2 bh2 where p2: "rebody rb f p1 bh1 = (p2, bh2)" by fastforce
      have same: "p2 = p1 \<and> bh2 = bh1" using p2 e0 by (auto simp: rebody_def framed_as_def split: option.splits)
      have "framed_as e0 (f\<lparr>of_reservedBytes := pr_reserved p1, of_reservationBudget := Some rb\<rparr>)"
        using e0(2) by (simp add: framed_as_def)
      then have a: "A (f\<lparr>of_reservedBytes := pr_reserved p1, of_reservationBudget := Some rb\<rparr>)"
        using retarget_carried [OF p1 e1] e0
        by (intro A [OF c]) (auto simp: framed_as_def body_len_def split: option.splits)
      obtain f' p3 s2 where t: "track rb f p1 s1 = Some (f', p3, s2)"
        using h p1 e1 b p2 same by (auto simp: handleOutboundSend_def Let_def rb_def [symmetric] split: bind_splits)
      have s2: "evolves A R s s2" by (rule evolves_trans [OF track_evolves [where A = A, OF t a] s1])
      have "s' = s2 \<or> s' = snd (writeFrame env f' s2)"
        using h p1 e1 b p2 same t
        by (auto simp: handleOutboundSend_def Let_def rb_def [symmetric] split: bind_splits if_splits prod.splits)
      then show ?thesis using s2 by (auto simp: writeFrame_def split: option.splits intro: evolves.sent)
    qed
  qed
qed

lemma ack_loop_evolves:
  "ack_loop is s bh = Some (ds, s', bh') \<Longrightarrow> (\<And>i f. i \<in> set is \<Longrightarrow> R i f) \<Longrightarrow> evolves A R s s'"
proof (induction "is" arbitrary: s bh ds)
  case (Cons i "is")
  show ?case
  proof (cases "lookup s i")
    case None
    then show ?thesis using Cons by simp
  next
    case (Some f)
    then obtain s1 bh1 where r: "removePending i s bh = Some (True, s1, bh1)"
      using Cons.prems(1) by (auto simp: removePending_def split: bind_splits if_splits)
    then obtain ds' where a: "ack_loop is (markAcked i s1) bh1 = Some (ds', s', bh')"
      using Cons.prems(1) Some by (auto split: bind_splits)
    have "evolves A R s s1" by (rule evolves.remove [OF evolves_refl Some _ r]) (simp add: Cons.prems(2))
    then have "evolves A R s (markAcked i s1)"
      by (rule evolves.other) (simp_all add: markAcked_def split: prod.splits)
    moreover have "evolves A R (markAcked i s1) s'" by (rule Cons.IH [OF a]) (simp add: Cons.prems(2))
    ultimately show ?thesis by (rule evolves_trans [rotated])
  qed
qed simp

lemma ack_evolves:
  assumes "ackWithDetails is s bh = Some (ds, s', bh')" and "\<And>i f. i \<in> set is \<Longrightarrow> R i f"
  shows "evolves A R s s'"
proof -
  obtain s1 where a: "ack_loop is s bh = Some (ds, s1, bh')" "s' = s1 \<or> s' = compactOrder s1"
    using assms(1) by (auto simp: ackWithDetails_def split: bind_splits if_splits)
  from ack_loop_evolves [OF a(1) assms(2)] have "evolves A R s s1" .
  then show ?thesis using a(2) by (auto simp: compactOrder_def intro: evolves.other)
qed

lemma resend_loop_evolves:
  "resend_loop env is s bh = Some (bs, e, s', bh') \<Longrightarrow>
   (\<And>i f. i \<in> set is \<Longrightarrow> validateOutboundLayerBinding (se_layer env) (of_layer f) \<noteq> None \<Longrightarrow> R i f) \<Longrightarrow> evolves A R s s'"
proof (induction "is" arbitrary: s bh bs)
  case (Cons i "is")
  have go: "evolves A R s s'" if "resend_loop env is s1 bh1 = Some (bs1, e, s', bh')" "evolves A R s s1" for s1 bh1 bs1
    by (rule evolves_trans [OF Cons.IH [OF that(1)] that(2)]) (simp add: Cons.prems(2))
  show ?case
  proof (cases "lookup s i")
    case None
    then show ?thesis using Cons.prems(1) go by (auto simp: Let_def split: bind_splits)
  next
    case (Some f)
    show ?thesis
    proof (cases "validateOutboundLayerBinding (se_layer env) (of_layer f)")
      case None
      have "evolves A R s (on_frame i (mark_resent (se_now env)) s)" by (rule evolves.resent) simp
      then show ?thesis using Some None Cons.prems(1) go
        by (cases "se_write env f") (auto simp: Let_def split: bind_splits)
    next
      case v: (Some x)
      have "evolves A R s s1" if r: "removePending i s bh = Some (b, s1, bh1)" for b s1 bh1
      proof -
        have "b = True" using r Some by (auto simp: removePending_def split: bind_splits)
        then show ?thesis using evolves.remove [OF evolves_refl Some _ r [unfolded \<open>b = True\<close>]] Cons.prems(2) [of i f] v by simp
      qed
      then show ?thesis using Some v Cons.prems(1) go by (auto simp: Let_def split: bind_splits if_splits)
    qed
  qed
qed simp

lemma op_evolves:
  assumes h: "handleOutboundOp u env op s bh = Some (r, s', bh')"
  shows "evolves (admits_frame (u, env, op)) (drops_frame (u, env, op)) s s'"
proof (cases u)
  case True
  then show ?thesis using h by (auto simp: handleOutboundOp_def split: bind_splits)
next
  case False
  show ?thesis
  proof (cases "op_kind op")
    case (OpSend en)
    let ?op = "\<lparr>so_encoded = en, so_reservedBytes = op_reservedBytes op, so_reservationBudget = op_reservationBudget op\<rparr>"
    obtain e where "handleOutboundSend env ?op s bh = Some (e, s', bh')"
      using h False OpSend by (auto simp: handleOutboundOp_def split: bind_splits)
    then show ?thesis by (rule send_evolves) (use OpSend in auto)
  next
    case (OpAck "is")
    obtain ds bh1 where "ackWithDetails is s bh = Some (ds, s', bh1)"
      using h False OpAck by (auto simp: handleOutboundOp_def split: bind_splits)
    then show ?thesis by (rule ack_evolves) (simp add: OpAck)
  next
    case (OpQueryState "is")
    then show ?thesis using h False by (auto simp: handleOutboundOp_def split: bind_splits)
  next
    case (OpResend "is")
    obtain bs e bh1 where "resend_loop env is s bh = Some (bs, e, s', bh1)"
      using h False OpResend by (auto simp: handleOutboundOp_def split: bind_splits)
    then show ?thesis by (rule resend_loop_evolves) (simp add: OpResend)
  next
    case (OpResendByRequest q)
    then show ?thesis using h False
      by (auto simp: handleOutboundOp_def handleOutboundResendByRequest_def Let_def
          split: bind_splits option.splits intro: evolves.resent)
  qed
qed

subsection \<open>What each frame is charged\<close>

definition paid :: "'d box \<Rightarrow> bool" where
  "paid s \<longleftrightarrow> (\<forall>(i, f)\<in>set (ob_pending s). of_reservedBytes f = body_len f)"

text \<open>What the producers guarantee: a send carries an encoded body and a reservation of exactly its size.\<close>

fun op_paid :: "bool \<times> 'd send_env \<times> 'd outbound_op \<Rightarrow> bool" where
  "op_paid (u, env, op) \<longleftrightarrow> 0 \<le> op_reservedBytes op \<and>
     (case op_kind op of
        OpSend en \<Rightarrow> (case en of None \<Rightarrow> False | Some e \<Rightarrow> op_reservedBytes op = int (length (en_body e)))
      | _ \<Rightarrow> True)"

lemma removePending_pending:
  "removePending i s bh = Some (True, s', bh') \<Longrightarrow> ob_pending s' = filter (\<lambda>p. fst p \<noteq> i) (ob_pending s)"
  by (auto simp: removePending_def split: option.splits bind_splits)

lemma evolves_paid:
  assumes "evolves A R s s'" and "paid s" and "\<And>f. A f \<Longrightarrow> of_reservedBytes f = body_len f"
  shows "paid s'"
  using assms
proof (induction rule: evolves.induct)
  case (remove s1 i f bh s' bh')
  then show ?case using removePending_pending [OF remove.hyps(4)] by (auto simp: paid_def)
next
  case (sent s1 i now)
  then have "paid s1" by blast
  then show ?case by (force simp: paid_def on_frame_def body_len_def)
next
  case (resent s1 i now)
  then have "paid s1" by blast
  then show ?case by (force simp: paid_def on_frame_def body_len_def)
qed (auto simp: paid_def)

lemma op_keeps_paid:
  assumes "handleOutboundOp u env op s bh = Some (r, s', bh')" and "paid s" and "op_paid (u, env, op)"
  shows "paid s'"
  by (rule evolves_paid [OF op_evolves [OF assms(1)] assms(2)]) (use assms(3) in \<open>auto split: option.splits\<close>)

definition bytes_on :: "nat \<Rightarrow> nat \<Rightarrow> 'd frame list \<Rightarrow> int" where
  "bytes_on dflt b fs = sum_list (map (\<lambda>f. if charged_to dflt f = b then body_len f else 0) fs)"

lemma paid_bytes: "paid s \<Longrightarrow> held_on d b (map snd (ob_pending s)) = bytes_on d b (map snd (ob_pending s))"
  unfolding held_on_def bytes_on_def paid_def by (intro arg_cong [where f = sum_list]) auto

subsection \<open>The replay source of a request\<close>

text \<open>The frame \<open>f\<close> is pending and indexed by its request, apart from when it was sent.\<close>

definition replays :: "'d frame \<Rightarrow> 'd box \<Rightarrow> bool" where
  "replays f s \<longleftrightarrow> ob_byRequest s (of_reqMsgID f) = Some (of_msgID f) \<and>
     (\<exists>g. lookup s (of_msgID f) = Some g \<and> (\<exists>a n. g = f\<lparr>of_sentAt := a, of_sends := n\<rparr>))"

text \<open>An operation gives the frame up when it drops it, or admits another result for the same request.\<close>

definition gives_up :: "'d frame \<Rightarrow> bool \<times> 'd send_env \<times> 'd outbound_op \<Rightarrow> bool" where
  "gives_up f x \<longleftrightarrow>
     (case x of (u, env, op) \<Rightarrow>
        (case op_kind op of
           OpAck is \<Rightarrow> of_msgID f \<in> set is
         | OpResend is \<Rightarrow> of_msgID f \<in> set is \<and> validateOutboundLayerBinding (se_layer env) (of_layer f) \<noteq> None
         | OpSend en \<Rightarrow> (case carried env en of None \<Rightarrow> False
             | Some e \<Rightarrow> en_reqMsgID e = of_reqMsgID f \<and> en_replayMsgID e \<noteq> of_msgID f)
         | _ \<Rightarrow> False))"

lemma resend_marks: "\<exists>a n. mark_sent now (f\<lparr>of_sentAt := a', of_sends := n'\<rparr>) = f\<lparr>of_sentAt := a, of_sends := n\<rparr>"
    "\<exists>a n. mark_resent now (f\<lparr>of_sentAt := a', of_sends := n'\<rparr>) = f\<lparr>of_sentAt := a, of_sends := n\<rparr>"
  by (auto simp: mark_sent_def mark_resent_def)

lemma lookup_on_frame: "lookup (on_frame i g s) k = map_option (\<lambda>f. if k = i then g f else f) (lookup s k)"
  by (simp add: lookup_def on_frame_def map_of_on_frame)

lemma replays_mark:
  assumes "replays f s" and "\<And>a n. \<exists>a' n'. g (f\<lparr>of_sentAt := a, of_sends := n\<rparr>) = f\<lparr>of_sentAt := a', of_sends := n'\<rparr>"
  shows "replays f (on_frame i g s)"
proof -
  obtain a n where l: "lookup s (of_msgID f) = Some (f\<lparr>of_sentAt := a, of_sends := n\<rparr>)"
    "ob_byRequest s (of_reqMsgID f) = Some (of_msgID f)" using assms(1) unfolding replays_def by blast
  have "ob_byRequest (on_frame i g s) = ob_byRequest s" by (simp add: on_frame_def)
  then show ?thesis using l assms(2) [where a = a and n = n] by (cases "of_msgID f = i") (auto simp: replays_def lookup_on_frame)
qed

lemma evolves_replays:
  assumes "evolves A R s s'" and "replays f s" and "of_msgID f \<noteq> 0"
    and "\<And>g. A g \<Longrightarrow> of_reqMsgID g = of_reqMsgID f \<Longrightarrow> of_msgID g = of_msgID f"
    and "\<And>a n. \<not> R (of_msgID f) (f\<lparr>of_sentAt := a, of_sends := n\<rparr>)"
  shows "replays f s'"
  using assms
proof (induction rule: evolves.induct)
  case (admit s1 g)
  have r: "replays f s1" using admit by blast
  then have "of_msgID g \<noteq> of_msgID f" using admit.hyps(3) by (auto simp: replays_def)
  then show ?case using r admit.prems(3) [OF admit.hyps(2)] by (auto simp: replays_def lookup_def map_add_Some_iff map_of_append)
next
  case (remove s1 i g bh s' bh')
  have r: "replays f s1" using remove by blast
  then have "i \<noteq> of_msgID f" using remove.hyps(2,3) remove.prems(4) by (auto simp: replays_def)
  then show ?case using r remove.hyps(2,4)
    by (auto simp: replays_def removePending_def lookup_def map_of_filter_fst split: bind_splits) blast+
next
  case (sent s1 i now)
  then have "replays f s1" by blast
  then show ?case by (rule replays_mark) (rule resend_marks(1))
next
  case (resent s1 i now)
  then have "replays f s1" by blast
  then show ?case by (rule replays_mark) (rule resend_marks(2))
qed (auto simp: replays_def lookup_def)

lemma evolves_byRequest:
  assumes "evolves (\<lambda>_. False) R s s'"
  shows "ob_byRequest s' r = ob_byRequest s r \<or> ob_byRequest s' r = None"
  using assms
  by (induction rule: evolves.induct) (auto simp: removePending_def on_frame_def split: bind_splits if_splits)

lemma frame_unmarked: "\<exists>a n. f = f\<lparr>of_sentAt := a, of_sends := n\<rparr>" for f :: "'d frame"
  by (rule exI [of _ "of_sentAt f"], rule exI [of _ "of_sends f"]) simp

lemma op_keeps_replays:
  assumes "handleOutboundOp u env op s bh = Some (r, s', bh')" and "replays f s" and "of_msgID f \<noteq> 0"
    and "\<not> gives_up f (u, env, op)"
  shows "replays f s'"
  by (rule evolves_replays [OF op_evolves [OF assms(1)] assms(2,3)])
    (use assms(3,4) in \<open>auto simp: gives_up_def framed_as_def split: op_kind.splits\<close>)

end
