(* ===== verification/Egress.thy ===== *)
theory Egress
  imports Outbound_Send_Inv
begin

text \<open>
  The egress side around the actor: classification of an operation into one of the four queues, the
  scheduler \<open>nextOutboundOp\<close> (a queue is a list, its head the next to receive), and the producer-side
  body reservation that hands its bytes to an operation exactly once.
\<close>

definition bulkOutboundThreshold :: int where "bulkOutboundThreshold = 64 * 2 ^ 10"
definition maxOrdinaryBeforeBulk :: nat where "maxOrdinaryBeforeBulk = 16"

definition classifyOutboundPriority :: "('d, 'y) encoded option \<Rightarrow> bool \<Rightarrow> priority" where
  "classifyOutboundPriority enc control =
     (if control then PriorityControl
      else case enc of
        None \<Rightarrow> PriorityNormal
      | Some en \<Rightarrow>
          if en_priority en \<noteq> PriorityNormal then en_priority en
          else if int (length (en_body en)) \<ge> bulkOutboundThreshold then PriorityBulk
          else PriorityNormal)"

text \<open>The producers reserve an operation's bytes before it is queued, on the budget of its class.\<close>

definition outboundMessageBudget :: "nat \<Rightarrow> nat \<Rightarrow> tl_type \<Rightarrow> bool \<Rightarrow> nat" where
  "outboundMessageBudget main control t priorityControl =
     (if priorityControl \<or> encodedControlFrame t then control else main)"

definition reserved_send ::
  "nat \<Rightarrow> nat \<Rightarrow> 'd msg \<Rightarrow> bool \<Rightarrow> budget_heap \<Rightarrow> (outbound_error + 'd outbound_op \<times> priority) \<times> budget_heap" where
  "reserved_send main control en priorityControl bh =
     (let bytes = int (length (en_body en)); b = outboundMessageBudget main control (en_typeID en) priorityControl in
      if bytes > maxOutboundBodyBytes then (Inl ErrOutboundMessageTooLarge, bh)
      else case reserve_on b bytes bh of
        (False, bh') \<Rightarrow> (Inl ErrOutboundTrackedBudget, bh')
      | (True, bh') \<Rightarrow> (Inr (\<lparr>op_kind = OpSend (Some en), op_reservedBytes = bytes, op_reservationBudget = Some b\<rparr>,
          classifyOutboundPriority (Some en) priorityControl), bh'))"

definition newOutboundSendOp ::
  "nat \<Rightarrow> nat \<Rightarrow> layer_state \<Rightarrow> (outbound_error + 'd msg) \<Rightarrow> 'd msg option \<Rightarrow> bool \<Rightarrow> budget_heap \<Rightarrow>
     (outbound_error + 'd outbound_op \<times> priority) \<times> budget_heap" where
  "newOutboundSendOp main control st encode enc priorityControl bh =
     (case enc of
        None \<Rightarrow> (case encode of Inl e \<Rightarrow> (Inl e, bh) | Inr en \<Rightarrow> reserved_send main control en priorityControl bh)
      | Some en \<Rightarrow>
          (case validateOutboundLayerBinding st (en_layer en) of
             Some e \<Rightarrow> (Inl e, bh) | None \<Rightarrow> reserved_send main control en priorityControl bh))"

definition newOutboundVectorOp ::
  "nat \<Rightarrow> (int list \<Rightarrow> 'd op_kind) \<Rightarrow> int list \<Rightarrow> budget_heap \<Rightarrow> (outbound_error + 'd outbound_op) \<times> budget_heap" where
  "newOutboundVectorOp control kind ids bh =
     (let bytes = int (length ids * 8) in
      case reserve_on control bytes bh of
        (False, bh') \<Rightarrow> (Inl ErrOutboundTrackedBudget, bh')
      | (True, bh') \<Rightarrow> (Inr \<lparr>op_kind = kind ids, op_reservedBytes = bytes, op_reservationBudget = Some control\<rparr>, bh'))"

lemma producers_pay:
  "newOutboundSendOp main control st encode enc pc bh = (Inr (op, p), bh') \<Longrightarrow> op_paid (u, env, op)"
  "newOutboundVectorOp control kind ids bh = (Inr op, bh') \<Longrightarrow> kind = OpAck \<or> kind = OpQueryState \<or> kind = OpResend \<Longrightarrow>
     op_paid (u, env, op)"
  by (auto simp: newOutboundSendOp_def newOutboundVectorOp_def reserved_send_def Let_def
      split: option.splits sum.splits if_splits prod.splits bool.splits)

datatype queue_name = QControl | QCritical | QOrdinary | QBulk

definition outboundQueue :: "bool \<Rightarrow> priority \<Rightarrow> queue_name" where
  "outboundQueue control p =
     (if control \<or> p = PriorityControl then QControl
      else case p of PriorityCritical \<Rightarrow> QCritical | PriorityBulk \<Rightarrow> QBulk | _ \<Rightarrow> QOrdinary)"

record 'o queues =
  q_control :: "'o list"
  q_critical :: "'o list"
  q_ordinary :: "'o list"
  q_bulk :: "'o list"
  q_since :: nat \<comment> \<open>\<open>ordinarySinceBulk\<close>\<close>

text \<open>The strict and weighted polls of \<open>nextOutboundOp\<close>; \<open>None\<close> when every queue was found empty.\<close>

definition poll :: "'o queues \<Rightarrow> (queue_name \<times> 'o \<times> 'o queues) option" where
  "poll q =
     (case q_control q of x # xs \<Rightarrow> Some (QControl, x, q\<lparr>q_control := xs\<rparr>)
      | [] \<Rightarrow> (case q_critical q of x # xs \<Rightarrow> Some (QCritical, x, q\<lparr>q_critical := xs\<rparr>)
      | [] \<Rightarrow>
         (case (if q_since q \<ge> maxOrdinaryBeforeBulk then q_bulk q else []) of
            x # xs \<Rightarrow> Some (QBulk, x, q\<lparr>q_bulk := xs, q_since := 0\<rparr>)
          | [] \<Rightarrow> (case q_ordinary q of x # xs \<Rightarrow> Some (QOrdinary, x, q\<lparr>q_ordinary := xs, q_since := q_since q + 1\<rparr>)
          | [] \<Rightarrow> (case q_bulk q of x # xs \<Rightarrow> Some (QBulk, x, q\<lparr>q_bulk := xs, q_since := 0\<rparr>)
          | [] \<Rightarrow> None)))))"

definition enqueue :: "queue_name \<Rightarrow> 'o \<Rightarrow> 'o queues \<Rightarrow> 'o queues" where
  "enqueue n x q =
     (case n of
        QControl \<Rightarrow> q\<lparr>q_control := q_control q @ [x]\<rparr>
      | QCritical \<Rightarrow> q\<lparr>q_critical := q_critical q @ [x]\<rparr>
      | QOrdinary \<Rightarrow> q\<lparr>q_ordinary := q_ordinary q @ [x]\<rparr>
      | QBulk \<Rightarrow> q\<lparr>q_bulk := q_bulk q @ [x]\<rparr>)"

abbreviation arrive :: "(queue_name \<times> 'o) list \<Rightarrow> 'o queues \<Rightarrow> 'o queues" where
  "arrive arr q \<equiv> fold (\<lambda>(n, x). enqueue n x) arr q"

text \<open>Otherwise the actor blocks in a \<open>select\<close> over all queues and the stop channel: it receives from any
  queue that has become ready, whatever its priority. A wake-up says what arrived meanwhile and which ready
  queue the runtime chose; the choice of a queue that is not ready is no wake-up, and is \<open>None\<close> as is a stop.\<close>

datatype 'o wakeup = Stop | Wake "(queue_name \<times> 'o) list" queue_name

definition receive :: "queue_name \<Rightarrow> 'o queues \<Rightarrow> (queue_name \<times> 'o \<times> 'o queues) option" where
  "receive n q =
     (case n of
        QControl \<Rightarrow> (case q_control q of [] \<Rightarrow> None | x # xs \<Rightarrow> Some (n, x, q\<lparr>q_control := xs\<rparr>))
      | QCritical \<Rightarrow> (case q_critical q of [] \<Rightarrow> None | x # xs \<Rightarrow> Some (n, x, q\<lparr>q_critical := xs\<rparr>))
      | QOrdinary \<Rightarrow> (case q_ordinary q of [] \<Rightarrow> None
          | x # xs \<Rightarrow> Some (n, x, q\<lparr>q_ordinary := xs, q_since := q_since q + 1\<rparr>))
      | QBulk \<Rightarrow> (case q_bulk q of [] \<Rightarrow> None | x # xs \<Rightarrow> Some (n, x, q\<lparr>q_bulk := xs, q_since := 0\<rparr>)))"

definition nextOutboundOp :: "'o wakeup \<Rightarrow> 'o queues \<Rightarrow> (queue_name \<times> 'o \<times> 'o queues) option" where
  "nextOutboundOp w q =
     (case poll q of
        Some r \<Rightarrow> Some r
      | None \<Rightarrow> (case w of Stop \<Rightarrow> None | Wake arr n \<Rightarrow> receive n (arrive arr q)))"

text \<open>The actor's loop: before each pick producers append to the queues; it ends when a pick does.\<close>

fun schedule :: "((queue_name \<times> 'o) list \<times> 'o wakeup) list \<Rightarrow> 'o queues \<Rightarrow> (queue_name \<times> 'o) list" where
  "schedule [] q = []"
| "schedule ((arr, w) # rounds) q =
     (case nextOutboundOp w (arrive arr q) of
        None \<Rightarrow> []
      | Some (n, x, q') \<Rightarrow> (n, x) # schedule rounds q')"

lemma arrive_keeps:
  "q_since (arrive arr q) = q_since q \<and> (\<exists>ys. q_bulk (arrive arr q) = q_bulk q @ ys)"
proof (induction arr arbitrary: q)
  case (Cons a arr)
  obtain n x where a: "a = (n, x)" by fastforce
  show ?case using Cons.IH [of "enqueue n x q"] by (cases n) (auto simp: a enqueue_def)
qed simp

text \<open>With a bulk operation queued the actor never blocks, and a pick of another queue leaves it first.\<close>

lemma next_progress:
  assumes "q_bulk q = b # bs"
  shows "\<exists>n x q'. nextOutboundOp w q = Some (n, x, q') \<and>
    (if n = QBulk then x = b
     else q_bulk q' = b # bs \<and>
       (if n = QOrdinary then q_since q < maxOrdinaryBeforeBulk \<and> q_since q' = Suc (q_since q)
        else q_since q' = q_since q))"
  using assms
  by (cases "q_control q"; cases "q_critical q"; cases "q_since q \<ge> maxOrdinaryBeforeBulk"; cases "q_ordinary q")
    (auto simp: nextOutboundOp_def poll_def)

abbreviation before_bulk :: "(queue_name \<times> 'o) list \<Rightarrow> (queue_name \<times> 'o) list" where
  "before_bulk out \<equiv> takeWhile (\<lambda>p. fst p \<noteq> QBulk) out"

lemma bulk_progress_aux:
  assumes "q_bulk q = b # bs"
  shows "length (filter (\<lambda>p. fst p = QOrdinary) (before_bulk (schedule rounds q))) \<le> maxOrdinaryBeforeBulk - q_since q
    \<and> (before_bulk (schedule rounds q) = schedule rounds q \<and> length (schedule rounds q) = length rounds
       \<or> (\<exists>rest. schedule rounds q = before_bulk (schedule rounds q) @ (QBulk, b) # rest))"
  using assms
proof (induction rounds arbitrary: q bs)
  case (Cons r rounds)
  obtain arr w where r: "r = (arr, w)" by fastforce
  obtain ys where k: "q_since (arrive arr q) = q_since q" "q_bulk (arrive arr q) = b # bs @ ys"
    using arrive_keeps [of arr q] Cons.prems by auto
  obtain n x q' where n: "nextOutboundOp w (arrive arr q) = Some (n, x, q')"
    "if n = QBulk then x = b else q_bulk q' = b # bs @ ys \<and>
       (if n = QOrdinary then q_since q < maxOrdinaryBeforeBulk \<and> q_since q' = Suc (q_since q) else q_since q' = q_since q)"
    using next_progress [OF k(2), of w] unfolding k(1) by blast
  show ?case
  proof (cases "n = QBulk")
    case True
    then show ?thesis using n by (simp add: r)
  next
    case False
    then have q': "q_bulk q' = b # bs @ ys" using n(2) by simp
    from Cons.IH [OF q'] False n show ?thesis by (auto simp: r split: if_splits)
  qed
qed simp

subsection \<open>outboundBodyReservation\<close>

record body_reservation =
  br_budget :: "nat option"
  br_bytes :: int
  br_taken :: bool
  br_releaseRequested :: bool

definition br_release ::
  "body_reservation \<Rightarrow> budget_heap \<Rightarrow> (body_reservation \<times> budget_heap) option" where
  "br_release r bh =
     (if br_bytes r \<le> 0
      then Some (if br_taken r then r\<lparr>br_releaseRequested := True\<rparr> else r, bh)
      else do {
        bh' \<leftarrow> (case br_budget r of None \<Rightarrow> Some bh | Some b \<Rightarrow> release_on b (br_bytes r) bh);
        Some (r\<lparr>br_bytes := 0, br_budget := None\<rparr>, bh') })"

definition br_take ::
  "body_reservation \<Rightarrow> ('d, 'y) encoded option \<Rightarrow> (outbound_error + int \<times> nat) \<times> body_reservation" where
  "br_take r enc =
     (case (br_budget r, enc) of
        (Some b, Some en) \<Rightarrow>
          if br_bytes r \<le> 0 \<or> br_taken r \<or> br_releaseRequested r \<or> int (length (en_body en)) \<noteq> br_bytes r
          then (Inl ErrInvalidBodyReservation, r)
          else (Inr (br_bytes r, b), r\<lparr>br_bytes := 0, br_budget := None, br_taken := True\<rparr>)
      | _ \<Rightarrow> (Inl ErrInvalidBodyReservation, r))"

lemma take_pays: "br_take r (Some en) = (Inr (n, b), r') \<Longrightarrow> n = int (length (en_body en))"
  by (auto simp: br_take_def split: option.splits if_splits)

text \<open>\<open>reclaim\<close> moves an operation's reservation (bytes, budget) back; the operation is left empty.\<close>

definition br_reclaim ::
  "body_reservation \<Rightarrow> (int \<times> nat) option \<Rightarrow> budget_heap \<Rightarrow>
     (bool \<times> body_reservation \<times> (int \<times> nat) option \<times> budget_heap) option" where
  "br_reclaim r op bh =
     (case op of
        None \<Rightarrow> Some (False, r, op, bh)
      | Some (n, b) \<Rightarrow>
          if n \<le> 0 \<or> br_bytes r \<noteq> 0 \<or> br_budget r \<noteq> None \<or> \<not> br_taken r then Some (False, r, op, bh)
          else if br_releaseRequested r
          then do { bh' \<leftarrow> release_on b n bh; Some (True, r\<lparr>br_taken := False\<rparr>, None, bh') }
          else Some (True, r\<lparr>br_taken := False, br_bytes := n, br_budget := Some b\<rparr>, None, bh))"

text \<open>The interleavings of producer, watchdog and actor on one reservation of \<open>n\<close> bytes on budget \<open>b\<close>:
  the operation, when taken, is in flight until the actor consumes (releases) it or admission
  fails and the producer reclaims it.\<close>

datatype br_event = EvRelease | EvTake | EvReclaim | EvActorRelease

record br_world =
  bw_res :: body_reservation
  bw_op :: "(int \<times> nat) option"
  bw_heap :: budget_heap

definition br_step :: "('d, 'y) encoded \<Rightarrow> br_event \<Rightarrow> br_world \<Rightarrow> br_world option" where
  "br_step en ev w =
     (case ev of
        EvRelease \<Rightarrow> do { (r, bh) \<leftarrow> br_release (bw_res w) (bw_heap w); Some (w\<lparr>bw_res := r, bw_heap := bh\<rparr>) }
      | EvTake \<Rightarrow> (case br_take (bw_res w) (Some en) of
            (Inl _, r) \<Rightarrow> Some (w\<lparr>bw_res := r\<rparr>)
          | (Inr op, r) \<Rightarrow> Some (w\<lparr>bw_res := r, bw_op := Some op\<rparr>))
      | EvReclaim \<Rightarrow> do { (_, r, op, bh) \<leftarrow> br_reclaim (bw_res w) (bw_op w) (bw_heap w);
            Some (w\<lparr>bw_res := r, bw_op := op, bw_heap := bh\<rparr>) }
      | EvActorRelease \<Rightarrow> (case bw_op w of None \<Rightarrow> Some w
          | Some (n, b) \<Rightarrow> do { bh \<leftarrow> release_on b n (bw_heap w); Some (w\<lparr>bw_op := None, bw_heap := bh\<rparr>) }))"

fun br_run :: "('d, 'y) encoded \<Rightarrow> br_event list \<Rightarrow> br_world \<Rightarrow> br_world option" where
  "br_run en [] w = Some w"
| "br_run en (ev # evs) w = Option.bind (br_step en ev w) (br_run en evs)"

text \<open>Exactly one of the reservation, the operation and nobody holds the bytes.\<close>

definition br_held :: "br_world \<Rightarrow> int" where
  "br_held w = br_bytes (bw_res w) + (case bw_op w of None \<Rightarrow> 0 | Some (n, b) \<Rightarrow> n)"

definition br_inv :: "int \<Rightarrow> nat \<Rightarrow> int \<Rightarrow> br_world \<Rightarrow> bool" where
  "br_inv n b base w \<longleftrightarrow> 0 < n \<and> 0 \<le> base \<and> tb_used (bw_heap w b) = base + br_held w \<and>
     ((br_bytes (bw_res w) = n \<and> br_budget (bw_res w) = Some b \<and> bw_op w = None \<and> \<not> br_taken (bw_res w)) \<or>
      (br_bytes (bw_res w) = 0 \<and> br_budget (bw_res w) = None \<and> bw_op w = Some (n, b) \<and> br_taken (bw_res w)) \<or>
      (br_bytes (bw_res w) = 0 \<and> br_budget (bw_res w) = None \<and> bw_op w = None))"

lemma br_step_inv:
  assumes "br_inv n b base w"
  shows "\<exists>w'. br_step en ev w = Some w' \<and> br_inv n b base w' \<and> br_held w' \<le> br_held w"
  using assms
  by (cases ev; cases "bw_op w")
    (auto simp: br_inv_def br_held_def br_step_def br_release_def br_take_def br_reclaim_def release_on_def
      tracked_release_def Let_def split: option.splits if_splits)

end
