(* ===== verification/Outbox_Properties.thy ===== *)
theory Outbox_Properties
  imports Egress
begin

text \<open>The properties of the outbox, the outbound actor, the scheduler and body reservations.\<close>

definition queued :: "nat \<Rightarrow> nat \<Rightarrow> (bool \<times> 'd send_env \<times> 'd outbound_op) list \<Rightarrow> int" where
  "queued dflt b ops = sum_list (map (\<lambda>(u, env, op).
     if (case op_reservationBudget op of None \<Rightarrow> dflt | Some i \<Rightarrow> i) = b then op_reservedBytes op else 0) ops)"

lemma queued_nonneg: "\<forall>(u, env, op)\<in>set ops. 0 \<le> op_reservedBytes op \<Longrightarrow> 0 \<le> queued d b ops"
  by (induction ops) (auto simp: queued_def)

lemma actor_run_ok:
  assumes "outbox_wf s" and "\<forall>b. 0 \<le> X b" and "\<forall>(u, env, op)\<in>set ops. 0 \<le> op_reservedBytes op"
    and "charge s bh (\<lambda>b. X b + queued (ob_budget s) b ops)"
  shows "\<exists>rs s' bh'. actor_run ops s bh = Some (rs, s', bh') \<and> outbox_wf s' \<and> charge s' bh' X \<and>
    length rs = length ops"
  using assms
proof (induction ops arbitrary: s bh)
  case Nil
  then show ?case by (simp add: queued_def)
next
  case (Cons a ops)
  obtain u env op where a: "a = (u, env, op)" by (cases a)
  let ?Y = "\<lambda>b. X b + queued (ob_budget s) b ops"
  have nn: "0 \<le> op_reservedBytes op" using Cons.prems(3) a by simp
  have rest: "\<forall>(u, env, op)\<in>set ops. 0 \<le> op_reservedBytes op" using Cons.prems(3) by simp
  have q: "0 \<le> queued (ob_budget s) b ops" for b by (rule queued_nonneg) (use Cons.prems(3) in auto)
  then have Y: "\<forall>b. 0 \<le> ?Y b" using Cons.prems(2) by simp
  have "(\<lambda>b. X b + queued (ob_budget s) b (a # ops)) = ?Y(op_budget op s := ?Y (op_budget op s) + op_reservedBytes op)"
    by (auto simp: a queued_def op_budget_def fun_eq_iff)
  then obtain r s1 bh1 where h: "handleOutboundOp u env op s bh = Some (r, s1, bh1)" "outbox_wf s1"
    "charge s1 bh1 ?Y" "ob_budget s1 = ob_budget s"
    using handleOutboundOp_ok [OF Cons.prems(1) Y nn, of bh u env] Cons.prems(4) by auto
  obtain rs s' bh' where "actor_run ops s1 bh1 = Some (rs, s', bh')" "outbox_wf s'" "charge s' bh' X"
    "length rs = length ops"
    using Cons.IH [OF h(2) Cons.prems(2) rest, of bh1] h(3) unfolding h(4) by blast
  then show ?case using h(1) a by simp
qed

lemma actor_run_keeps:
  assumes "actor_run ops s bh = Some (rs, s', bh')" and "P s"
    and "\<And>u env op s bh r s' bh'. (u, env, op) \<in> set ops \<Longrightarrow> P s \<Longrightarrow>
      handleOutboundOp u env op s bh = Some (r, s', bh') \<Longrightarrow> P s'"
  shows "P s'"
  using assms
proof (induction ops arbitrary: s bh rs)
  case (Cons x ops)
  obtain u env op where x: "x = (u, env, op)" by (cases x)
  obtain r s1 bh1 rs1 where h: "handleOutboundOp u env op s bh = Some (r, s1, bh1)"
    "actor_run ops s1 bh1 = Some (rs1, s', bh')"
    using Cons.prems(1) by (auto simp: x split: bind_splits)
  have "P s1" by (rule Cons.prems(3) [OF _ Cons.prems(2) h(1)]) (simp add: x)
  from Cons.IH [OF h(2) this] Cons.prems(3) show ?case by (metis list.set_intros(2))
qed simp

definition demo_layer :: layer_state where
  "demo_layer = \<lparr>ly_unknown = False, ly_epoch = 1, ly_profile = 2\<rparr>"

definition demo_msg :: "nat msg" where
  "demo_msg = \<lparr>en_body = [1, 2, 3], en_typeID = RpcResult, en_reqMsgID = 40, en_priority = PriorityNormal,
     en_delivery = 0, en_layerInvariant = True, en_layer = None, en_compressed = False,
     en_uncompressedBytes = 0, en_replayMsgID = 0, en_replaySeqNo = 0\<rparr>"

definition demo_env :: "nat send_env" where
  "demo_env = \<lparr>se_encode = Inl ErrEncode, se_target = 0, se_msgID = 100,
     se_layer = demo_layer, se_write = (\<lambda>_. Some ErrWrite), se_now = 5\<rparr>"

definition demo_send :: "nat outbound_op" where
  "demo_send = \<lparr>op_kind = OpSend (Some demo_msg), op_reservedBytes = 3, op_reservationBudget = None\<rparr>"

definition demo_heap :: budget_heap where
  "demo_heap = (\<lambda>b. \<lparr>tb_max = 100, tb_used = (if b = 0 then 3 else 0)\<rparr>)"

definition demo_box :: "nat box" where "demo_box = newOutboundState 0"

lemma demo_box_wf: "outbox_wf demo_box"
  unfolding demo_box_def newOutboundState_def by (rule outbox_wf_new)

lemma demo_charge: "charge demo_box demo_heap (\<lambda>b. 0 + queued (ob_budget demo_box) b [(False, demo_env, demo_send)])"
  by (simp add: charge_def demo_box_def newOutboundState_def newOutboundStateWithLimits_def demo_heap_def
      queued_def demo_send_def)

subsection \<open>The actor\<close>

text \<open>C8: the outbound actor processes any sequence of queued operations without a budget panic and
  accounts for every byte. When each queued send carries a reservation of exactly its body, as the
  producers ensure, then at the end each budget holds exactly the bytes of the frames that still await
  acknowledgement and are charged to it, plus what others hold, and each frame's reservation is its body
  size; the outbox stays within its message and byte limits. A failed write, a refused admission or a
  rewrap changes nothing of this.\<close>

theorem actor_accounts_every_byte:
  assumes "outbox_wf s" and "paid s" and "\<forall>b. 0 \<le> X b" and "\<forall>x\<in>set ops. op_paid x"
    and "charge s bh (\<lambda>b. X b + queued (ob_budget s) b ops)"
  shows "\<exists>rs s' bh'. actor_run ops s bh = Some (rs, s', bh') \<and> length rs = length ops \<and> paid s' \<and>
    (\<forall>b. tb_used (bh' b) = bytes_on (ob_budget s') b (map snd (ob_pending s')) + X b) \<and>
    int (length (ob_pending s')) \<le> max 0 (ob_maxMessages s') \<and> ob_totalBytes s' \<le> max 0 (ob_maxBytes s')"
proof -
  have nn: "\<forall>(u, env, op)\<in>set ops. 0 \<le> op_reservedBytes op" using assms(4) by auto
  obtain rs s' bh' where r: "actor_run ops s bh = Some (rs, s', bh')" "outbox_wf s'" "charge s' bh' X"
    "length rs = length ops" using actor_run_ok [OF assms(1,3) nn assms(5)] by blast
  have p: "paid s'" by (rule actor_run_keeps [where P = paid, OF r(1) assms(2)]) (use assms(4) op_keeps_paid in blast)
  show ?thesis using r p outbox_wfD(4,5) [OF r(2)] paid_bytes [OF p] by (auto simp: charge_def)
qed

theorem actor_accounts_every_byte_witness:
  "\<exists>rs s' bh'. actor_run [(False, demo_env, demo_send)] demo_box demo_heap = Some (rs, s', bh') \<and>
     tb_used (bh' 0) = bytes_on (ob_budget s') 0 (map snd (ob_pending s'))"
proof -
  have "paid demo_box" by (simp add: paid_def demo_box_def newOutboundState_def newOutboundStateWithLimits_def)
  from actor_accounts_every_byte [OF demo_box_wf this, of "\<lambda>_. 0" "[(False, demo_env, demo_send)]" demo_heap] demo_charge
  show ?thesis by (auto simp: demo_send_def demo_msg_def)
qed

text \<open>A send never evicts: every frame that awaits acknowledgement before the send still awaits
  it afterwards, unchanged except for its first send time, whatever the outcome.\<close>

theorem send_never_evicts:
  assumes "outbox_wf s" and "\<forall>b. 0 \<le> X b" and "0 \<le> so_reservedBytes op"
    and "charge s bh (plus_on X (case so_reservationBudget op of None \<Rightarrow> ob_budget s | Some b \<Rightarrow> b)
       (so_reservedBytes op))"
    and "lookup s k = Some g"
  shows "\<exists>e s' bh' g'. handleOutboundSend env op s bh = Some (e, s', bh') \<and> lookup s' k = Some g' \<and>
    of_msgID g' = k \<and> of_seqNo g' = of_seqNo g \<and> of_body g' = of_body g \<and>
    of_reservedBytes g' = of_reservedBytes g"
proof -
  obtain e s' bh' where h: "handleOutboundSend env op s bh = Some (e, s', bh')" "frames_kept s s' (se_now env)"
    using send_ok [OF assms(1-4), of env] by blast
  then obtain g' where "lookup s' k = Some g'" "g' = g \<or> g' = mark_sent (se_now env) g"
    using assms(5) unfolding frames_kept_def by blast
  then show ?thesis using h(1) lookupD(1) [OF assms(1,5)] by auto
qed

definition demo_pending :: "nat box" where
  "demo_pending = (case actor_run [(False, demo_env, demo_send)] demo_box demo_heap of
     Some (_, s, _) \<Rightarrow> s | None \<Rightarrow> demo_box)"

definition demo_pending_heap :: budget_heap where
  "demo_pending_heap = (case actor_run [(False, demo_env, demo_send)] demo_box demo_heap of
     Some (_, _, h) \<Rightarrow> h | None \<Rightarrow> demo_heap)"

lemma demo_pending_ok: "outbox_wf demo_pending" "charge demo_pending demo_pending_heap (\<lambda>_. 0)"
  using actor_run_ok [OF demo_box_wf, of "\<lambda>_. 0" "[(False, demo_env, demo_send)]" demo_heap] demo_charge
  by (auto simp: demo_pending_def demo_pending_heap_def demo_send_def)

lemma demo_pending_lookup: "map_option of_reqMsgID (lookup demo_pending 100) = Some 40"
  by code_simp

theorem send_never_evicts_witness:
  "\<exists>e s' bh' g'. handleOutboundSend demo_env \<lparr>so_encoded = None, so_reservedBytes = 0, so_reservationBudget = None\<rparr>
     demo_pending demo_pending_heap = Some (e, s', bh') \<and> lookup s' 100 = Some g' \<and> of_msgID g' = 100"
proof -
  obtain g where g: "lookup demo_pending 100 = Some g" using demo_pending_lookup by auto
  have charged: "charge demo_pending demo_pending_heap (plus_on (\<lambda>_. 0) (ob_budget demo_pending) 0)"
    using demo_pending_ok(2) by (simp add: fun_upd_idem)
  show ?thesis
    using send_never_evicts [OF demo_pending_ok(1), of "\<lambda>_. 0"
        "\<lparr>so_encoded = None, so_reservedBytes = 0, so_reservationBudget = None\<rparr>" demo_pending_heap 100 g demo_env]
      charged g by simp blast
qed

subsection \<open>Acknowledgement and replay\<close>

text \<open>Acknowledging a list of message ids removes exactly those frames, reports each of them once
  with its request id and size whatever the order and repetitions of the list, returns exactly
  their reservations, and a second acknowledgement of the same ids reports nothing.\<close>

theorem ack_exact:
  assumes "outbox_wf s" and "charge s bh X"
  shows "\<exists>ds s' bh'. ackWithDetails is s bh = Some (ds, s', bh') \<and> charge s' bh' X \<and>
    lookup s' = (\<lambda>k. if k \<in> set is then None else lookup s k) \<and>
    length ds = card (set is \<inter> dom (lookup s)) \<and>
    ak_reqMsgID ` set ds = {of_reqMsgID f | i f. i \<in> set is \<and> lookup s i = Some f} \<and>
    sum_list (map ak_bytes ds) = ob_totalBytes s - ob_totalBytes s' \<and>
    (\<exists>s'' bh''. ackWithDetails is s' bh' = Some ([], s'', bh'') \<and> lookup s'' = lookup s')"
proof -
  obtain ds s' bh' where a: "ackWithDetails is s bh = Some (ds, s', bh')" "outbox_wf s'" "charge s' bh' X"
    "lookup s' = (\<lambda>k. if k \<in> set is then None else lookup s k)"
    "sum_list (map ak_bytes ds) = ob_totalBytes s - ob_totalBytes s'"
    "length ds = card (set is \<inter> dom (lookup s))"
    "ak_reqMsgID ` set ds = {of_reqMsgID f | i f. i \<in> set is \<and> lookup s i = Some f}"
    using ackWithDetails_ok [OF assms, of "is"] by blast
  obtain ds2 s'' bh'' where b: "ackWithDetails is s' bh' = Some (ds2, s'', bh'')"
    "lookup s'' = (\<lambda>k. if k \<in> set is then None else lookup s' k)" "length ds2 = card (set is \<inter> dom (lookup s'))"
    using ackWithDetails_ok [OF a(2,3), of "is"] by blast
  have "set is \<inter> dom (lookup s') = {}" using a(4) by (auto split: if_splits)
  then have "ds2 = []" "lookup s'' = lookup s'" using b(2,3) a(4) by auto
  then show ?thesis using a b(1) by auto
qed

theorem ack_exact_witness:
  "\<exists>ds s' bh'. ackWithDetails [100, 100, 7] demo_pending demo_pending_heap = Some (ds, s', bh') \<and>
     lookup s' 100 = None \<and> sum_list (map ak_bytes ds) = ob_totalBytes demo_pending - ob_totalBytes s'"
  using ack_exact [OF demo_pending_ok, of "[100, 100, 7]"] by auto

text \<open>C9: an admitted \<open>rpc_result\<close> frame is the replay source of its request, with the body, the message
  id and the sequence number it was sent under, through any further operations of the actor until one
  gives it up: an acknowledgement of its id, a resend that finds its layer profile obsolete, or a new
  result for the same request. Once it is acknowledged there is no replay source (no frame has id 0).\<close>

theorem replay_until_acked:
  assumes "outbox_wf s" and "0 \<le> of_reservedBytes f" and "of_typeID f = RpcResult" and "of_body f \<noteq> []"
    and "of_reqMsgID f \<noteq> 0" and "of_msgID f \<noteq> 0" and "admitReserved f s = Some (None, s1)"
    and "\<forall>b. 0 \<le> X b" and "\<forall>(u, env, op)\<in>set ops. 0 \<le> op_reservedBytes op"
    and "charge s1 bh (\<lambda>b. X b + queued (ob_budget s1) b ops)" and "\<forall>x\<in>set ops. \<not> gives_up f x"
  shows "\<exists>rs s2 bh2. actor_run ops s1 bh = Some (rs, s2, bh2) \<and>
    (\<exists>m. rpcResult s2 (of_reqMsgID f) = Some m \<and> en_body m = of_body f \<and> en_layer m = of_layer f \<and>
      en_reqMsgID m = of_reqMsgID f \<and> en_replayMsgID m = of_msgID f \<and> en_replaySeqNo m = of_seqNo f) \<and>
    (\<forall>is. of_msgID f \<in> set is \<and> lookup s2 0 = None \<longrightarrow> (\<exists>ds s3 bh3. ackWithDetails is s2 bh2 = Some (ds, s3, bh3) \<and>
      of_reqMsgID f \<in> ak_reqMsgID ` set ds \<and> rpcResult s3 (of_reqMsgID f) = None))"
proof -
  have s1: "outbox_wf s1" "lookup s1 = (lookup s)(of_msgID f \<mapsto> f)" "ob_byRequest s1 (of_reqMsgID f) = Some (of_msgID f)"
    using admitReserved_ok [OF assms(1,2)] assms(5,7) by auto
  obtain rs s2 bh2 where r: "actor_run ops s1 bh = Some (rs, s2, bh2)" "outbox_wf s2" "charge s2 bh2 X"
    using actor_run_ok [OF s1(1) assms(8-10)] by blast
  have "replays f s1" using s1(2,3) frame_unmarked [of f] by (simp add: replays_def)
  then have "replays f s2" by (rule actor_run_keeps [where P = "replays f", OF r(1)]) (use assms(6,11) op_keeps_replays in blast)
  then obtain g a n where g: "lookup s2 (of_msgID f) = Some g" "g = f\<lparr>of_sentAt := a, of_sends := n\<rparr>"
    "ob_byRequest s2 (of_reqMsgID f) = Some (of_msgID f)" unfolding replays_def by blast
  have "rpcResult s2 (of_reqMsgID f) = Some (replayed g)"
    by (rule rpcResult_Some [OF assms(5) g(3,1)]) (use g(2) assms(3,4) in simp_all)
  then have rp: "\<exists>m. rpcResult s2 (of_reqMsgID f) = Some m \<and> en_body m = of_body f \<and> en_layer m = of_layer f \<and>
      en_reqMsgID m = of_reqMsgID f \<and> en_replayMsgID m = of_msgID f \<and> en_replaySeqNo m = of_seqNo f"
    by (simp add: replayed_def g(2))
  have "\<exists>ds s3 bh3. ackWithDetails is s2 bh2 = Some (ds, s3, bh3) \<and> of_reqMsgID f \<in> ak_reqMsgID ` set ds \<and>
      rpcResult s3 (of_reqMsgID f) = None" if i: "of_msgID f \<in> set is" "lookup s2 0 = None" for "is"
  proof -
    obtain ds s3 bh3 where a: "ackWithDetails is s2 bh2 = Some (ds, s3, bh3)" "outbox_wf s3"
      "lookup s3 = (\<lambda>k. if k \<in> set is then None else lookup s2 k)"
      "ak_reqMsgID ` set ds = {of_reqMsgID g | i g. i \<in> set is \<and> lookup s2 i = Some g}"
      using ackWithDetails_ok [OF r(2,3), of "is"] by blast
    have "of_reqMsgID f \<in> ak_reqMsgID ` set ds" unfolding a(4)
      by (rule CollectI, rule exI [of _ "of_msgID f"], rule exI [of _ g]) (simp add: i(1) g)
    moreover have "evolves (\<lambda>_. False) (\<lambda>_ _. True) s2 s3" by (rule ack_evolves [OF a(1)]) simp
    then have "ob_byRequest s3 (of_reqMsgID f) = None"
      using evolves_byRequest [of _ s2 s3 "of_reqMsgID f"] g(3) outbox_wfD(7) [OF a(2)] a(3) i(1) by fastforce
    then have "rpcResult s3 (of_reqMsgID f) = None" using a(3) i(2) by (simp add: rpcResult_def)
    ultimately show ?thesis using a(1) by blast
  qed
  then show ?thesis using r(1) rp by blast
qed

definition demo_frame :: "(nat, layer_binding) out_frame" where
  "demo_frame = \<lparr>of_msgID = 100, of_seqNo = 1, of_typeID = RpcResult, of_body = [1, 2], of_reservedBytes = 2,
     of_reservationBudget = None, of_reqMsgID = 40, of_priority = PriorityNormal, of_delivery = 0,
     of_compressed = False, of_uncompressedBytes = 0, of_layer = None, of_layerInvariant = True,
     of_sentAt = None, of_sends = 0\<rparr>"

definition demo_admitted :: "nat box" where
  "demo_admitted = (case admitReserved demo_frame demo_box of Some (_, s) \<Rightarrow> s | None \<Rightarrow> demo_box)"

lemma demo_admitted: "admitReserved demo_frame demo_box = Some (None, demo_admitted)"
proof -
  obtain e s' where "admitReserved demo_frame demo_box = Some (e, s')"
    using admitReserved_ok [OF demo_box_wf, of demo_frame] by (auto simp: demo_frame_def)
  moreover have "map_option fst (admitReserved demo_frame demo_box) = Some None" by code_simp
  ultimately show ?thesis by (simp add: demo_admitted_def)
qed

definition demo_query :: "nat outbound_op" where
  "demo_query = \<lparr>op_kind = OpResend [100], op_reservedBytes = 0, op_reservationBudget = None\<rparr>"

theorem replay_until_acked_witness:
  "\<exists>rs s2 bh2. actor_run [(False, demo_env, demo_query)] demo_admitted demo_heap = Some (rs, s2, bh2) \<and>
     (\<exists>m. rpcResult s2 40 = Some m \<and> en_body m = [1, 2] \<and> en_replayMsgID m = 100)"
proof -
  have p: "ob_pending demo_admitted = [(100, demo_frame)]" "ob_budget demo_admitted = 0" by code_simp+
  have c: "charge demo_admitted demo_heap (\<lambda>b. (if b = 0 then 1 else 0) + queued (ob_budget demo_admitted) b [(False, demo_env, demo_query)])"
    by (simp add: charge_def p demo_heap_def demo_frame_def held_on_def charged_to_def queued_def demo_query_def)
  have f: "0 \<le> of_reservedBytes demo_frame" "of_typeID demo_frame = RpcResult" "of_body demo_frame = [1, 2]"
    "of_reqMsgID demo_frame = 40" "of_msgID demo_frame = 100" "of_layer demo_frame = None" by (simp_all add: demo_frame_def)
  have n: "\<not> gives_up demo_frame (False, demo_env, demo_query)"
    by (simp add: gives_up_def demo_query_def f validateOutboundLayerBinding_def)
  have z: "\<forall>b. 0 \<le> (if b = (0::nat) then 1 else 0 :: int)" "\<forall>(u, env, op)\<in>set [(False, demo_env, demo_query)]. 0 \<le> op_reservedBytes op"
    "\<forall>x\<in>set [(False, demo_env, demo_query)]. \<not> gives_up demo_frame x" using n by (simp_all add: demo_query_def)
  have g: "of_body demo_frame \<noteq> []" "of_reqMsgID demo_frame \<noteq> 0" "of_msgID demo_frame \<noteq> 0" by (simp_all add: f)
  from replay_until_acked [OF demo_box_wf f(1,2) g demo_admitted z(1,2) c z(3)] show ?thesis
    unfolding f by blast
qed

subsection \<open>Message ids\<close>

text \<open>The message id the outbox issues is above every id it issued before, at least the candidate
  the clock proposed, never one of a frame still awaiting acknowledgement, and keeps the residue
  modulo 4 that marks a server message.\<close>

theorem msg_ids_fresh_and_increasing:
  assumes "reserveMsgID c s = (m, s')" and "c mod 4 = ob_lastMsgID s mod 4"
  shows "ob_lastMsgID s < m \<and> c \<le> m \<and> lookup s m = None \<and> ob_lastMsgID s' = m \<and> m mod 4 = c mod 4 \<and>
    ob_pending s' = ob_pending s"
  using reserveMsgID_spec [OF assms(1)] assms(2) by simp

theorem msg_ids_fresh_and_increasing_witness:
  "fst (reserveMsgID 100 (demo_admitted\<lparr>ob_lastMsgID := 96\<rparr>)) = 104 \<and>
   lookup (demo_admitted\<lparr>ob_lastMsgID := 96\<rparr>) 104 = None"
proof -
  let ?s = "demo_admitted\<lparr>ob_lastMsgID := 96\<rparr>"
  have v: "fst (reserveMsgID 100 ?s) = 104" by code_simp
  then have "reserveMsgID 100 ?s = (104, snd (reserveMsgID 100 ?s))" by (metis prod.collapse)
  from msg_ids_fresh_and_increasing [OF this] have "lookup ?s 104 = None" by simp
  then show ?thesis using v by blast
qed

subsection \<open>The scheduler\<close>

text \<open>C10: while a bulk operation waits at the head of its queue, at most sixteen ordinary operations are
  dispatched before it, whatever arrives on any queue and however the blocked actor is woken; and the
  actor never blocks or stops while it waits: every round dispatches something until the waiting operation
  is dispatched, the first of its queue. Control and critical operations are not bounded: they go first.\<close>

theorem bulk_not_starved:
  fixes q :: "'o queues" and rounds :: "((queue_name \<times> 'o) list \<times> 'o wakeup) list"
  assumes "q_bulk q = b # bs"
  defines "out \<equiv> schedule rounds q"
  shows "length (filter (\<lambda>p. fst p = QOrdinary) (takeWhile (\<lambda>p. fst p \<noteq> QBulk) out)) \<le> 16
    \<and> ((\<forall>p\<in>set out. fst p \<noteq> QBulk) \<and> length out = length rounds
       \<or> (\<exists>passed rest. out = passed @ (QBulk, b) # rest \<and> (\<forall>p\<in>set passed. fst p \<noteq> QBulk)))"
proof -
  have "length (filter (\<lambda>p. fst p = QOrdinary) (before_bulk out)) \<le> 16"
    using bulk_progress_aux [OF assms(1), of rounds] unfolding out_def maxOrdinaryBeforeBulk_def by linarith
  moreover have "\<forall>p\<in>set (before_bulk out). fst p \<noteq> QBulk" by (auto dest: set_takeWhileD)
  ultimately show ?thesis using bulk_progress_aux [OF assms(1), of rounds] unfolding out_def by metis
qed

definition demo_queues :: "nat queues" where
  "demo_queues = \<lparr>q_control = [], q_critical = [], q_ordinary = [], q_bulk = [7], q_since = 0\<rparr>"

definition demo_rounds :: "((queue_name \<times> nat) list \<times> nat wakeup) list" where
  "demo_rounds = replicate 20 ([(QOrdinary, 1), (QOrdinary, 2)], Stop)"

theorem bulk_not_starved_witness: "(QBulk, 7) \<in> set (schedule demo_rounds demo_queues)"
proof -
  have "\<not> (\<forall>p\<in>set (schedule demo_rounds demo_queues). fst p \<noteq> QBulk)" by code_simp
  then show ?thesis using bulk_not_starved [of demo_queues 7 "[]" demo_rounds] by (auto simp: demo_queues_def)
qed

subsection \<open>Body reservations\<close>

lemma br_run_inv:
  assumes "br_inv n b base w"
  shows "\<exists>w'. br_run en evs w = Some w' \<and> br_inv n b base w' \<and> br_held w' \<le> br_held w"
  using assms
proof (induction evs arbitrary: w)
  case (Cons ev evs)
  obtain w1 where w1: "br_step en ev w = Some w1" "br_inv n b base w1" "br_held w1 \<le> br_held w"
    using br_step_inv [OF Cons.prems] by blast
  obtain w' where "br_run en evs w1 = Some w'" "br_inv n b base w'" "br_held w' \<le> br_held w1"
    using Cons.IH [OF w1(2)] by blast
  then show ?case using w1 by simp
qed simp

text \<open>Whatever the interleaving of the producer, the watchdog and the actor, a body reservation of
  \<open>n\<close> bytes is charged exactly once: the budget never panics, and at every point it holds either the
  \<open>n\<close> bytes or none of them; once returned they are never returned or taken again.\<close>

theorem body_reservation_released_once:
  assumes "0 < n" and "0 \<le> base" and "tb_used (bh b) = base + n"
  defines "w \<equiv> \<lparr>bw_res = \<lparr>br_budget = Some b, br_bytes = n, br_taken = False, br_releaseRequested = False\<rparr>,
      bw_op = None, bw_heap = bh\<rparr>"
  shows "\<exists>w1 w2. br_run en evs w = Some w1 \<and> br_run en evs' w1 = Some w2 \<and>
    tb_used (bw_heap w1 b) \<in> {base, base + n} \<and> tb_used (bw_heap w2 b) \<in> {base, base + n} \<and>
    (tb_used (bw_heap w1 b) = base \<longrightarrow> tb_used (bw_heap w2 b) = base)"
proof -
  have "br_inv n b base w" using assms by (simp add: br_inv_def br_held_def)
  then obtain w1 where w1: "br_run en evs w = Some w1" "br_inv n b base w1" using br_run_inv by blast
  then obtain w2 where w2: "br_run en evs' w1 = Some w2" "br_inv n b base w2" "br_held w2 \<le> br_held w1"
    using br_run_inv by blast
  have u: "tb_used (bw_heap x b) = base + br_held x \<and> br_held x \<in> {0, n} \<and> 0 < n" if "br_inv n b base x" for x
    using that by (auto simp: br_inv_def br_held_def)
  show ?thesis using w1(1) w2(1) u [OF w1(2)] u [OF w2(2)] w2(3) by auto
qed

theorem body_reservation_released_once_witness:
  "\<exists>w1 w2. br_run demo_msg [EvTake, EvRelease, EvReclaim]
       \<lparr>bw_res = \<lparr>br_budget = Some 0, br_bytes = 3, br_taken = False, br_releaseRequested = False\<rparr>,
        bw_op = None, bw_heap = demo_heap\<rparr> = Some w1 \<and>
     br_run demo_msg [EvRelease, EvActorRelease] w1 = Some w2 \<and> tb_used (bw_heap w2 0) \<in> {0, 3}"
  using body_reservation_released_once [of 3 0 demo_heap 0 demo_msg "[EvTake, EvRelease, EvReclaim]"
      "[EvRelease, EvActorRelease]"]
  by (auto simp: demo_heap_def)

end
