(* ===== verification/Delivery_Coordinator.thy ===== *)
theory Delivery_Coordinator
  imports Prelude
begin

text \<open>
  The logical delivery hook of an \<open>rpc_result\<close> (outbound.go, \<open>rpcResultDeliveryCoordinator\<close> and
  \<open>rpcResultDeliveryHookClaim\<close>). All physical attempts of one result share a coordinator. A claim is
  an ownership token compared by pointer; the model numbers the claims and the notification channels
  a coordinator allocates. Closing a closed channel is a run-time panic and the value \<open>None\<close>.
\<close>

datatype hook_state = HookUnset | HookPending | HookClaimed | HookInProgress | HookDone

record 'f hook_claim =
  cl_id :: nat
  cl_fn :: "'f option"

record 'f coordinator =
  co_fn :: "'f option"
  co_state :: hook_state
  co_claim :: "nat option"
  co_changed :: "nat option"
  co_deferred :: bool
  co_nchans :: nat
  co_closed :: "nat set"
  co_nclaims :: nat

definition newCoordinator :: "'f coordinator" where
  "newCoordinator = \<lparr>co_fn = None, co_state = HookUnset, co_claim = None, co_changed = Some 0,
     co_deferred = False, co_nchans = 1, co_closed = {}, co_nclaims = 0\<rparr>"

definition make_chan :: "'f coordinator \<Rightarrow> 'f coordinator" where
  "make_chan c = c\<lparr>co_changed := Some (co_nchans c), co_nchans := Suc (co_nchans c)\<rparr>"

definition signalLocked :: "'f coordinator \<Rightarrow> 'f coordinator option" where
  "signalLocked c =
     (case co_changed c of
        None \<Rightarrow> Some (make_chan c)
      | Some ch \<Rightarrow>
          if ch \<in> co_closed c then None
          else let c' = c\<lparr>co_closed := insert ch (co_closed c)\<rparr>
               in Some (if co_state c = HookDone then c'\<lparr>co_changed := None\<rparr> else make_chan c'))"

definition setHook :: "'f option \<Rightarrow> 'f coordinator \<Rightarrow> 'f coordinator option" where
  "setHook fn c =
     (if fn \<noteq> None \<and> co_fn c = None \<and> co_state c \<noteq> HookDone
      then signalLocked (c\<lparr>co_fn := fn, co_state := HookPending\<rparr>)
      else Some c)"

definition pendingHook :: "'f coordinator \<Rightarrow> bool" where
  "pendingHook c \<longleftrightarrow> co_fn c \<noteq> None \<and> co_state c \<noteq> HookDone"

definition pendingAsyncHook :: "'f coordinator \<Rightarrow> bool" where
  "pendingAsyncHook c \<longleftrightarrow> co_fn c \<noteq> None \<and> co_state c = HookPending \<and> \<not> co_deferred c"

definition claimLocked :: "bool \<Rightarrow> 'f coordinator \<Rightarrow> ('f hook_claim option \<times> 'f coordinator) option" where
  "claimLocked allowDeferred c =
     (if co_fn c = None \<or> co_state c \<noteq> HookPending \<or> (co_deferred c \<and> \<not> allowDeferred)
      then Some (None, c)
      else do {
        let claim = \<lparr>cl_id = co_nclaims c, cl_fn = co_fn c\<rparr> in
        do { c' \<leftarrow> signalLocked (c\<lparr>co_nclaims := Suc (co_nclaims c), co_claim := Some (co_nclaims c),
               co_state := HookClaimed, co_deferred := (co_deferred c \<and> \<not> allowDeferred)\<rparr>);
             Some (Some claim, c') } })"

definition claimAsyncDeliveredHook :: "'f coordinator \<Rightarrow> ('f hook_claim option \<times> 'f coordinator) option" where
  "claimAsyncDeliveredHook c = claimLocked False c"

text \<open>One iteration of the loop of \<open>claimReplayDeliveredHook\<close> up to its \<open>select\<close>: done, a claim, or the
  channel to wait on. The other arm of the \<open>select\<close> is the expiry of the context.\<close>

datatype 'f replay_poll = ReplayDone | ReplayClaim "'f hook_claim" | ReplayWait nat

definition claimReplayDeliveredHook :: "bool \<Rightarrow> 'f coordinator \<Rightarrow> ('f replay_poll \<times> 'f coordinator) option" where
  "claimReplayDeliveredHook allowDeferred c =
     (if co_fn c = None \<or> co_state c = HookDone then Some (ReplayDone, c)
      else do {
        (claim, c') \<leftarrow> claimLocked allowDeferred c;
        case claim of
          Some cl \<Rightarrow> Some (ReplayClaim cl, c')
        | None \<Rightarrow> (case co_changed c' of
            Some ch \<Rightarrow> Some (ReplayWait ch, c')
          | None \<Rightarrow> Some (ReplayWait (co_nchans c'), make_chan c')) })"

definition claimReplay_expired :: "'f coordinator \<Rightarrow> bool" where
  "claimReplay_expired c \<longleftrightarrow> \<not> (co_fn c = None \<or> co_state c = HookDone)"

definition releaseDeferredHook :: "'f coordinator \<Rightarrow> 'f coordinator option" where
  "releaseDeferredHook c = (if co_deferred c then signalLocked (c\<lparr>co_deferred := False\<rparr>) else Some c)"

definition deferHookToReplay :: "'f coordinator \<Rightarrow> 'f coordinator option" where
  "deferHookToReplay c =
     (if co_state c \<noteq> HookDone \<and> \<not> co_deferred c then signalLocked (c\<lparr>co_deferred := True\<rparr>) else Some c)"

text \<open>\<open>claim.run\<close> has two critical sections around the call of the hook: entering, which says whether
  the hook is called, and the deferred leave, which also runs when the hook panics.\<close>

definition run_enter :: "'f hook_claim \<Rightarrow> 'f coordinator \<Rightarrow> (bool \<times> 'f coordinator) option" where
  "run_enter cl c =
     (if co_claim c \<noteq> Some (cl_id cl) \<or> co_state c \<noteq> HookClaimed then Some (False, c)
      else do { c' \<leftarrow> signalLocked (c\<lparr>co_state := HookInProgress\<rparr>); Some (True, c') })"

definition run_leave :: "'f hook_claim \<Rightarrow> 'f coordinator \<Rightarrow> 'f coordinator option" where
  "run_leave cl c =
     (if co_claim c = Some (cl_id cl) \<and> co_state c = HookInProgress
      then signalLocked (c\<lparr>co_claim := None, co_fn := None, co_deferred := False, co_state := HookDone\<rparr>)
      else Some c)"

definition abandon :: "'f hook_claim \<Rightarrow> 'f coordinator \<Rightarrow> (bool \<times> 'f coordinator) option" where
  "abandon cl c =
     (if co_claim c \<noteq> Some (cl_id cl) \<or> co_state c \<noteq> HookClaimed then Some (False, c)
      else do { c' \<leftarrow> signalLocked (c\<lparr>co_claim := None, co_state := HookPending\<rparr>); Some (True, c') })"

subsection \<open>Invariant and progress of the notification channel\<close>

definition chan_wf :: "'f coordinator \<Rightarrow> bool" where
  "chan_wf c \<longleftrightarrow> (\<forall>ch. co_changed c = Some ch \<longrightarrow> ch < co_nchans c \<and> ch \<notin> co_closed c) \<and>
     (\<forall>ch\<in>co_closed c. ch < co_nchans c)"

definition coord_wf :: "'f coordinator \<Rightarrow> bool" where
  "coord_wf c \<longleftrightarrow> chan_wf c \<and>
     (co_state c = HookUnset \<longrightarrow> co_fn c = None) \<and>
     (co_state c \<in> {HookPending, HookClaimed, HookInProgress} \<longrightarrow> co_fn c \<noteq> None) \<and>
     (co_state c = HookDone \<longrightarrow> co_fn c = None \<and> \<not> co_deferred c) \<and>
     (co_claim c \<noteq> None \<longleftrightarrow> co_state c \<in> {HookClaimed, HookInProgress}) \<and>
     (\<forall>i. co_claim c = Some i \<longrightarrow> i < co_nclaims c)"

text \<open>What a critical section may do: nothing, or a change announced by closing the current channel.\<close>

definition signalled :: "'f coordinator \<Rightarrow> 'f coordinator \<Rightarrow> bool" where
  "signalled c c' \<longleftrightarrow> co_closed c \<subseteq> co_closed c' \<and>
     ((co_fn c' = co_fn c \<and> co_state c' = co_state c \<and> co_deferred c' = co_deferred c \<and>
       (co_changed c \<noteq> None \<longrightarrow> co_changed c' = co_changed c)) \<or>
      (\<forall>ch. co_changed c = Some ch \<longrightarrow> ch \<in> co_closed c'))"

lemma signalled_refl [simp]: "signalled c c" by (simp add: signalled_def)

lemma signalLocked_ok:
  assumes "chan_wf c"
  shows "\<exists>c'. signalLocked c = Some c' \<and> chan_wf c' \<and> co_fn c' = co_fn c \<and> co_state c' = co_state c \<and>
    co_claim c' = co_claim c \<and> co_deferred c' = co_deferred c \<and> co_nclaims c' = co_nclaims c \<and>
    co_closed c \<subseteq> co_closed c' \<and> (\<forall>ch. co_changed c = Some ch \<longrightarrow> ch \<in> co_closed c')"
  using assms
  by (cases "co_changed c") (auto simp: signalLocked_def chan_wf_def make_chan_def Let_def less_Suc_eq)

text \<open>The hook has been called at most once, and no later claim can call it.\<close>

definition committed :: "'f coordinator \<Rightarrow> bool" where
  "committed c \<longleftrightarrow> co_state c = HookInProgress \<or> co_state c = HookDone"

text \<open>The contract of a critical section that does not call the hook.\<close>

definition quiet_step :: "'f coordinator \<Rightarrow> 'f coordinator \<Rightarrow> bool" where
  "quiet_step c c' \<longleftrightarrow> coord_wf c' \<and> signalled c c' \<and> committed c' = committed c \<and>
     co_nclaims c \<le> co_nclaims c' \<and> (\<forall>f. co_fn c = Some f \<longrightarrow> co_fn c' = Some f \<or> co_state c' = HookDone) \<and>
     (co_state c = HookDone \<longrightarrow> co_state c' = HookDone)"

text \<open>A section that issues no claim.\<close>

definition keeps_claim :: "'f coordinator \<Rightarrow> 'f coordinator \<Rightarrow> bool" where
  "keeps_claim c c' \<longleftrightarrow> co_nclaims c \<le> co_nclaims c' \<and>
     (\<forall>i. co_claim c' = Some i \<longrightarrow> co_claim c = Some i \<and> co_fn c' = co_fn c)"

lemma keeps_claim_refl [simp]: "keeps_claim c c"
  by (simp add: keeps_claim_def)

lemma quiet_step_refl [simp]: "coord_wf c \<Longrightarrow> quiet_step c c"
  by (simp add: quiet_step_def)

lemma signalled_trans: "signalled c c' \<Longrightarrow> signalled c' c'' \<Longrightarrow> signalled c c''"
  unfolding signalled_def by (cases "co_changed c") auto

lemma quiet_step_trans:
  assumes "quiet_step c c'" and "quiet_step c' c''"
  shows "quiet_step c c''"
  using assms signalled_trans [of c c' c''] unfolding quiet_step_def by auto

lemma coord_wf_new: "coord_wf newCoordinator"
  by (simp add: newCoordinator_def coord_wf_def chan_wf_def)

lemma setHook_ok:
  assumes "coord_wf c"
  shows "\<exists>c'. setHook fn c = Some c' \<and> quiet_step c c' \<and> keeps_claim c c'"
proof (cases "fn \<noteq> None \<and> co_fn c = None \<and> co_state c \<noteq> HookDone")
  case True
  have u: "co_state c = HookUnset" "co_claim c = None" using True assms by (cases "co_state c"; auto simp: coord_wf_def)+
  have "chan_wf (c\<lparr>co_fn := fn, co_state := HookPending\<rparr>)" using assms by (simp add: coord_wf_def chan_wf_def)
  from signalLocked_ok [OF this] show ?thesis
    using True u assms by (auto simp: setHook_def keeps_claim_def quiet_step_def coord_wf_def signalled_def committed_def)
qed (use assms in \<open>auto simp: setHook_def\<close>)

lemma claimLocked_ok:
  assumes "coord_wf c"
  shows "\<exists>cl c'. claimLocked a c = Some (cl, c') \<and> quiet_step c c' \<and>
    (case cl of None \<Rightarrow> c' = c \<and> \<not> (co_state c = HookPending \<and> (co_deferred c \<longrightarrow> a))
     | Some k \<Rightarrow> k = \<lparr>cl_id = co_nclaims c, cl_fn = co_fn c\<rparr> \<and> co_state c' = HookClaimed \<and>
         co_nclaims c' = Suc (co_nclaims c) \<and>
         co_claim c' = Some (co_nclaims c) \<and> co_fn c' = co_fn c \<and> co_fn c \<noteq> None)"
proof (cases "co_fn c = None \<or> co_state c \<noteq> HookPending \<or> (co_deferred c \<and> \<not> a)")
  case True
  then show ?thesis using assms by (auto simp: claimLocked_def coord_wf_def)
next
  case False
  let ?c = "c\<lparr>co_nclaims := Suc (co_nclaims c), co_claim := Some (co_nclaims c), co_state := HookClaimed,
      co_deferred := (co_deferred c \<and> \<not> a)\<rparr>"
  have "chan_wf ?c" using assms by (simp add: coord_wf_def chan_wf_def)
  from signalLocked_ok [OF this] obtain c' where c': "signalLocked ?c = Some c'" "chan_wf c'"
    "co_fn c' = co_fn c" "co_state c' = HookClaimed" "co_claim c' = Some (co_nclaims c)"
    "co_nclaims c' = Suc (co_nclaims c)" "co_closed c \<subseteq> co_closed c'"
    "\<forall>ch. co_changed c = Some ch \<longrightarrow> ch \<in> co_closed c'" by auto
  then have "quiet_step c c'"
    using False assms by (auto simp: quiet_step_def coord_wf_def signalled_def committed_def)
  then show ?thesis using False c' by (simp add: claimLocked_def)
qed

lemma claimReplayDeliveredHook_ok:
  assumes "coord_wf c"
  shows "\<exists>r c'. claimReplayDeliveredHook a c = Some (r, c') \<and> quiet_step c c' \<and>
    (case r of ReplayDone \<Rightarrow> c' = c
     | ReplayClaim k \<Rightarrow> k = \<lparr>cl_id = co_nclaims c, cl_fn = co_fn c\<rparr> \<and> co_state c' = HookClaimed \<and>
         co_nclaims c' = Suc (co_nclaims c) \<and> co_claim c' = Some (co_nclaims c) \<and> co_fn c' = co_fn c \<and> co_fn c \<noteq> None
     | ReplayWait ch \<Rightarrow> co_changed c' = Some ch \<and> ch \<notin> co_closed c' \<and> co_fn c' = co_fn c \<and>
         co_state c' = co_state c \<and> co_deferred c' = co_deferred c \<and> co_claim c' = co_claim c \<and>
         co_nclaims c' = co_nclaims c \<and> co_fn c \<noteq> None \<and> co_state c \<noteq> HookDone \<and>
         \<not> (co_state c = HookPending \<and> (co_deferred c \<longrightarrow> a)))"
proof (cases "co_fn c = None \<or> co_state c = HookDone")
  case True
  then show ?thesis using assms by (auto simp: claimReplayDeliveredHook_def)
next
  case False
  obtain cl c' where c: "claimLocked a c = Some (cl, c')" "quiet_step c c'"
    "case cl of None \<Rightarrow> c' = c \<and> \<not> (co_state c = HookPending \<and> (co_deferred c \<longrightarrow> a))
     | Some k \<Rightarrow> k = \<lparr>cl_id = co_nclaims c, cl_fn = co_fn c\<rparr> \<and> co_state c' = HookClaimed \<and>
         co_nclaims c' = Suc (co_nclaims c) \<and>
         co_claim c' = Some (co_nclaims c) \<and> co_fn c' = co_fn c \<and> co_fn c \<noteq> None"
    using claimLocked_ok [OF assms] by blast
  show ?thesis
  proof (cases cl)
    case (Some k)
    then show ?thesis using False c by (auto simp: claimReplayDeliveredHook_def)
  next
    case None
    then have same: "c' = c" "\<not> (co_state c = HookPending \<and> (co_deferred c \<longrightarrow> a))" using c(3) by auto
    show ?thesis
    proof (cases "co_changed c")
      case (Some ch)
      then have "ch \<notin> co_closed c" using assms by (simp add: coord_wf_def chan_wf_def)
      then show ?thesis using False c same None Some by (auto simp: claimReplayDeliveredHook_def)
    next
      case N: None
      have "quiet_step c (make_chan c)" "co_nchans c \<notin> co_closed c"
        using assms N by (auto simp: quiet_step_def coord_wf_def chan_wf_def make_chan_def signalled_def committed_def less_Suc_eq)
      then show ?thesis using False c same None N by (auto simp: claimReplayDeliveredHook_def make_chan_def)
    qed
  qed
qed

lemma deferred_ok:
  assumes "coord_wf c"
  shows "\<exists>c'. releaseDeferredHook c = Some c' \<and> quiet_step c c' \<and> keeps_claim c c' \<and> \<not> co_deferred c'"
    and "\<exists>c'. deferHookToReplay c = Some c' \<and> quiet_step c c' \<and> keeps_claim c c' \<and>
      (co_deferred c' \<or> co_state c' = HookDone)"
proof -
  have w: "chan_wf (c\<lparr>co_deferred := d\<rparr>)" for d using assms by (simp add: coord_wf_def chan_wf_def)
  show "\<exists>c'. releaseDeferredHook c = Some c' \<and> quiet_step c c' \<and> keeps_claim c c' \<and> \<not> co_deferred c'"
    using signalLocked_ok [OF w, of False] assms
    by (cases "co_deferred c") (auto simp: releaseDeferredHook_def keeps_claim_def quiet_step_def coord_wf_def signalled_def committed_def)
  show "\<exists>c'. deferHookToReplay c = Some c' \<and> quiet_step c c' \<and> keeps_claim c c' \<and>
      (co_deferred c' \<or> co_state c' = HookDone)"
    using signalLocked_ok [OF w, of True] assms
    by (cases "co_state c \<noteq> HookDone \<and> \<not> co_deferred c")
      (auto simp: deferHookToReplay_def keeps_claim_def quiet_step_def coord_wf_def signalled_def committed_def)
qed

lemma abandon_ok:
  assumes "coord_wf c"
  shows "\<exists>b c'. abandon cl c = Some (b, c') \<and> quiet_step c c' \<and> keeps_claim c c' \<and>
    (b \<longleftrightarrow> co_claim c = Some (cl_id cl) \<and> co_state c = HookClaimed) \<and> (if b then co_state c' = HookPending else c' = c)"
proof (cases "co_claim c = Some (cl_id cl) \<and> co_state c = HookClaimed")
  case True
  have "chan_wf (c\<lparr>co_claim := None, co_state := HookPending\<rparr>)" using assms by (simp add: coord_wf_def chan_wf_def)
  from signalLocked_ok [OF this] show ?thesis
    using True assms by (auto simp: abandon_def keeps_claim_def quiet_step_def coord_wf_def signalled_def committed_def)
next
  case False
  then show ?thesis using assms by (auto simp: abandon_def)
qed

lemma run_enter_ok:
  assumes "coord_wf c"
  shows "\<exists>b c'. run_enter cl c = Some (b, c') \<and> coord_wf c' \<and> signalled c c' \<and> keeps_claim c c' \<and>
    (b \<longleftrightarrow> co_claim c = Some (cl_id cl) \<and> co_state c = HookClaimed) \<and>
    (if b then \<not> committed c \<and> committed c' \<and> co_state c' = HookInProgress \<and> co_fn c' = co_fn c \<and>
       co_claim c' = Some (cl_id cl) else c' = c)"
proof (cases "co_claim c = Some (cl_id cl) \<and> co_state c = HookClaimed")
  case True
  have "chan_wf (c\<lparr>co_state := HookInProgress\<rparr>)" using assms by (simp add: coord_wf_def chan_wf_def)
  from signalLocked_ok [OF this] show ?thesis
    using True assms by (auto simp: run_enter_def keeps_claim_def coord_wf_def signalled_def committed_def)
next
  case False
  then show ?thesis using assms by (auto simp: run_enter_def)
qed

lemma run_leave_ok:
  assumes "coord_wf c"
  shows "\<exists>c'. run_leave cl c = Some c' \<and> quiet_step c c' \<and> keeps_claim c c' \<and>
    (co_claim c = Some (cl_id cl) \<and> co_state c = HookInProgress \<longrightarrow> co_state c' = HookDone)"
proof (cases "co_claim c = Some (cl_id cl) \<and> co_state c = HookInProgress")
  case True
  have "chan_wf (c\<lparr>co_claim := None, co_fn := None, co_deferred := False, co_state := HookDone\<rparr>)"
    using assms by (simp add: coord_wf_def chan_wf_def)
  from signalLocked_ok [OF this] show ?thesis
    using True assms by (auto simp: run_leave_def keeps_claim_def quiet_step_def coord_wf_def signalled_def committed_def)
next
  case False
  then show ?thesis using assms by (auto simp: run_leave_def)
qed

text \<open>No lost wake-up: a waiter whose channel is still open sees the state it saw when it went to sleep.\<close>

lemma signalled_trans_open:
  assumes "signalled c c'" and "co_changed c = Some ch" and "ch \<notin> co_closed c'"
  shows "co_fn c' = co_fn c \<and> co_state c' = co_state c \<and> co_deferred c' = co_deferred c \<and> co_changed c' = Some ch"
  using assms by (auto simp: signalled_def)

end
