(* ===== verification/Delivery_Executor.thy ===== *)
theory Delivery_Executor
  imports Prelude
begin

text \<open>
  The process-wide executor of delivery hooks (rpc_result_egress.go). A ticket is reserved before a
  physical write, submitted after it, or released. \<open>slots\<close> is the buffered channel that bounds
  reserved, queued and running tickets: its content is a count, a receive from the empty channel
  would block for ever and is \<open>None\<close>. Tickets are numbered in the order of their reservation.
\<close>

datatype ticket_state = TicketReserved | TicketQueued | TicketReleased | TicketDone

record 'j executor =
  ex_capacity :: nat
  ex_slots :: nat
  ex_tickets :: "ticket_state list"
  ex_queue :: "(nat \<times> 'j) list"
  ex_running :: "(nat \<times> 'j) list"
  ex_panics :: nat

definition newRPCDeliveryHookExecutor :: "int \<Rightarrow> int \<Rightarrow> 'j executor" where
  "newRPCDeliveryHookExecutor workers capacity =
     (let w = (if workers \<le> 0 then 1 else workers)
      in \<lparr>ex_capacity = nat (if capacity < w then w else capacity), ex_slots = 0, ex_tickets = [],
          ex_queue = [], ex_running = [], ex_panics = 0\<rparr>)"

definition ticket_reserve :: "'j executor \<Rightarrow> nat option \<times> 'j executor" where
  "ticket_reserve e =
     (if ex_slots e < ex_capacity e
      then (Some (length (ex_tickets e)),
            e\<lparr>ex_slots := Suc (ex_slots e), ex_tickets := ex_tickets e @ [TicketReserved]\<rparr>)
      else (None, e))"

definition receive_slot :: "'j executor \<Rightarrow> 'j executor option" where
  "receive_slot e = (if ex_slots e = 0 then None else Some (e\<lparr>ex_slots := ex_slots e - 1\<rparr>))"

definition ticket_is :: "'j executor \<Rightarrow> nat \<Rightarrow> ticket_state \<Rightarrow> bool" where
  "ticket_is e t st \<longleftrightarrow> t < length (ex_tickets e) \<and> ex_tickets e ! t = st"

definition ticket_release :: "nat \<Rightarrow> 'j executor \<Rightarrow> 'j executor option" where
  "ticket_release t e =
     (if ticket_is e t TicketReserved
      then receive_slot (e\<lparr>ex_tickets := (ex_tickets e)[t := TicketReleased]\<rparr>)
      else Some e)"

definition job_enqueue :: "nat \<times> 'j \<Rightarrow> 'j executor \<Rightarrow> 'j executor" where
  "job_enqueue job e = e\<lparr>ex_queue := ex_queue e @ [job]\<rparr>"

definition ticket_submit :: "nat \<Rightarrow> 'j \<Rightarrow> 'j executor \<Rightarrow> bool \<times> 'j executor" where
  "ticket_submit t fn e =
     (if ticket_is e t TicketReserved
      then (True, job_enqueue (t, fn) (e\<lparr>ex_tickets := (ex_tickets e)[t := TicketQueued]\<rparr>))
      else (False, e))"

text \<open>A worker takes the head of the queue; nothing happens while the queue is empty.\<close>

definition worker_take :: "'j executor \<Rightarrow> 'j executor" where
  "worker_take e =
     (case ex_queue e of
        [] \<Rightarrow> e
      | job # q \<Rightarrow> e\<lparr>ex_queue := q, ex_running := ex_running e @ [job]\<rparr>)"

text \<open>The deferred end of \<open>runOne\<close>, after the job returned or panicked.\<close>

definition runOne_end :: "nat \<Rightarrow> bool \<Rightarrow> 'j executor \<Rightarrow> 'j executor option" where
  "runOne_end i panicked e =
     (if i < length (ex_running e)
      then receive_slot (e\<lparr>ex_panics := (if panicked then Suc (ex_panics e) else ex_panics e),
             ex_tickets := (ex_tickets e)[fst (ex_running e ! i) := TicketDone],
             ex_running := take i (ex_running e) @ drop (Suc i) (ex_running e)\<rparr>)
      else Some e)"

subsection \<open>Accounting\<close>

definition active :: "'j executor \<Rightarrow> nat list" where
  "active e = map fst (ex_running e) @ map fst (ex_queue e)"

definition reserved_tickets :: "'j executor \<Rightarrow> nat set" where
  "reserved_tickets e = {t. ticket_is e t TicketReserved}"

definition exec_wf :: "'j executor \<Rightarrow> bool" where
  "exec_wf e \<longleftrightarrow> ex_slots e \<le> ex_capacity e \<and> distinct (active e) \<and>
     (\<forall>t\<in>set (active e). ticket_is e t TicketQueued) \<and>
     ex_slots e = length (active e) + card (reserved_tickets e)"

lemma finite_reserved [simp]: "finite (reserved_tickets e)"
  by (rule finite_subset [of _ "{..<length (ex_tickets e)}"]) (auto simp: reserved_tickets_def ticket_is_def)

lemma ticket_reserve_ok:
  assumes "exec_wf e" and "ticket_reserve e = (r, e')"
  shows "exec_wf e' \<and> ex_queue e' = ex_queue e \<and> ex_running e' = ex_running e \<and> ex_capacity e' = ex_capacity e \<and>
    (case r of None \<Rightarrow> e' = e \<and> ex_slots e = ex_capacity e
     | Some t \<Rightarrow> t \<notin> reserved_tickets e \<and> reserved_tickets e' = insert t (reserved_tickets e))"
proof (cases "ex_slots e < ex_capacity e")
  case False
  then show ?thesis using assms by (auto simp: ticket_reserve_def exec_wf_def)
next
  case True
  let ?t = "length (ex_tickets e)"
  have r: "r = Some ?t" "e' = e\<lparr>ex_slots := Suc (ex_slots e), ex_tickets := ex_tickets e @ [TicketReserved]\<rparr>"
    using assms(2) True by (auto simp: ticket_reserve_def)
  have R: "reserved_tickets e' = insert ?t (reserved_tickets e)" "?t \<notin> reserved_tickets e"
    by (auto simp: r reserved_tickets_def ticket_is_def nth_append less_Suc_eq)
  have Q: "ticket_is e' t TicketQueued" if "ticket_is e t TicketQueued" for t
    using that by (auto simp: r ticket_is_def nth_append)
  have "active e' = active e" by (simp add: active_def r)
  then show ?thesis using assms(1) True R Q r by (auto simp: exec_wf_def)
qed

lemma reserved_upd:
  "t < length (ex_tickets e) \<Longrightarrow> st \<noteq> TicketReserved \<Longrightarrow>
   reserved_tickets (e\<lparr>ex_tickets := (ex_tickets e)[t := st]\<rparr>) = reserved_tickets e - {t}"
  by (auto simp: reserved_tickets_def ticket_is_def nth_list_update)

lemma ticket_release_ok:
  assumes "exec_wf e"
  shows "\<exists>e'. ticket_release t e = Some e' \<and> exec_wf e' \<and> ex_queue e' = ex_queue e \<and> ex_running e' = ex_running e \<and>
    ex_capacity e' = ex_capacity e \<and> reserved_tickets e' = reserved_tickets e - {t}"
proof (cases "ticket_is e t TicketReserved")
  case False
  then show ?thesis using assms by (auto simp: ticket_release_def reserved_tickets_def)
next
  case True
  let ?e = "e\<lparr>ex_tickets := (ex_tickets e)[t := TicketReleased]\<rparr>"
  have t: "t < length (ex_tickets e)" "t \<in> reserved_tickets e" "t \<notin> set (active e)"
    using True assms by (auto simp: ticket_is_def reserved_tickets_def exec_wf_def)
  have R: "reserved_tickets ?e = reserved_tickets e - {t}" using t by (simp add: reserved_upd)
  have c: "card (reserved_tickets e) = Suc (card (reserved_tickets e - {t}))"
    by (rule card.remove) (use t in auto)
  have Q: "ticket_is ?e u TicketQueued" if "ticket_is e u TicketQueued" for u
    using that True by (auto simp: ticket_is_def nth_list_update)
  let ?f = "?e\<lparr>ex_slots := ex_slots e - 1\<rparr>"
  have "ticket_release t e = Some ?f" using True c assms by (simp add: ticket_release_def receive_slot_def exec_wf_def)
  moreover have A: "active ?f = active e" "reserved_tickets ?f = reserved_tickets e - {t}"
    using R by (auto simp: active_def reserved_tickets_def ticket_is_def)
  moreover have "exec_wf ?f"
    unfolding exec_wf_def A using assms c Q by (auto simp: exec_wf_def ticket_is_def)
  ultimately show ?thesis by auto
qed

lemma ticket_submit_ok:
  assumes "exec_wf e" and "ticket_submit t fn e = (b, e')"
  shows "exec_wf e' \<and> ex_running e' = ex_running e \<and> ex_capacity e' = ex_capacity e \<and>
    b = (t \<in> reserved_tickets e) \<and> reserved_tickets e' = reserved_tickets e - {t} \<and>
    ex_queue e' = (if b then ex_queue e @ [(t, fn)] else ex_queue e) \<and> ex_slots e' = ex_slots e"
proof (cases "ticket_is e t TicketReserved")
  case False
  then show ?thesis using assms by (auto simp: ticket_submit_def reserved_tickets_def)
next
  case True
  let ?e = "e\<lparr>ex_tickets := (ex_tickets e)[t := TicketQueued]\<rparr>"
  have t: "t < length (ex_tickets e)" "t \<in> reserved_tickets e" "t \<notin> set (active e)"
    using True assms by (auto simp: ticket_is_def reserved_tickets_def exec_wf_def)
  have e': "b" "e' = ?e\<lparr>ex_queue := ex_queue e @ [(t, fn)]\<rparr>"
    using assms(2) True by (auto simp: ticket_submit_def job_enqueue_def)
  have R: "reserved_tickets e' = reserved_tickets e - {t}"
    using t reserved_upd [of t e TicketQueued] by (simp add: e' reserved_tickets_def ticket_is_def)
  have c: "card (reserved_tickets e) = Suc (card (reserved_tickets e - {t}))"
    by (rule card.remove) (use t in auto)
  have Q: "ticket_is e' u TicketQueued" if "ticket_is e u TicketQueued \<or> u = t" for u
    using that t by (auto simp: ticket_is_def nth_list_update e')
  have A: "active e' = active e @ [t]" by (simp add: active_def e')
  have F: "ex_queue e' = ex_queue e @ [(t, fn)]" "ex_capacity e' = ex_capacity e" "ex_slots e' = ex_slots e"
    "ex_running e' = ex_running e" by (simp_all add: e')
  have "exec_wf e'"
    unfolding exec_wf_def R A F(2,3) using assms(1) c Q t(3) unfolding exec_wf_def by auto
  then show ?thesis using R F e'(1) t(2) by simp
qed

lemma worker_take_ok: "exec_wf e \<Longrightarrow> exec_wf (worker_take e) \<and> reserved_tickets (worker_take e) = reserved_tickets e \<and>
    active (worker_take e) = active e \<and> ex_capacity (worker_take e) = ex_capacity e"
  by (cases "ex_queue e") (auto simp: exec_wf_def worker_take_def active_def reserved_tickets_def ticket_is_def)

lemma runOne_end_ok:
  assumes "exec_wf e"
  shows "\<exists>e'. runOne_end i p e = Some e' \<and> exec_wf e' \<and> reserved_tickets e' = reserved_tickets e \<and>
    ex_queue e' = ex_queue e \<and> ex_capacity e' = ex_capacity e \<and>
    (i < length (ex_running e) \<longrightarrow> ex_running e' = take i (ex_running e) @ drop (Suc i) (ex_running e))"
proof (cases "i < length (ex_running e)")
  case False
  then show ?thesis using assms by (simp add: runOne_end_def)
next
  case True
  let ?rest = "take i (ex_running e) @ drop (Suc i) (ex_running e)"
  let ?t = "fst (ex_running e ! i)"
  have split: "ex_running e = take i (ex_running e) @ ex_running e ! i # drop (Suc i) (ex_running e)"
    using True by (rule id_take_nth_drop)
  have act: "active e = map fst (take i (ex_running e)) @ ?t # map fst (drop (Suc i) (ex_running e)) @ map fst (ex_queue e)"
    unfolding active_def by (subst split) simp
  have q: "ticket_is e ?t TicketQueued" using assms True by (auto simp: exec_wf_def active_def)
  let ?e = "e\<lparr>ex_panics := (if p then Suc (ex_panics e) else ex_panics e),
      ex_tickets := (ex_tickets e)[?t := TicketDone], ex_running := ?rest, ex_slots := ex_slots e - 1\<rparr>"
  have R: "reserved_tickets ?e = reserved_tickets e"
    using q by (auto simp: reserved_tickets_def ticket_is_def nth_list_update)
  have A: "active ?e = map fst (take i (ex_running e)) @ map fst (drop (Suc i) (ex_running e)) @ map fst (ex_queue e)"
    by (simp add: active_def)
  have t: "?t \<notin> set (active ?e)" "distinct (active ?e)" "length (active e) = Suc (length (active ?e))"
    "set (active ?e) \<subseteq> set (active e)"
    using assms unfolding exec_wf_def act A by auto
  have Q: "\<forall>u\<in>set (active ?e). ticket_is ?e u TicketQueued"
  proof
    fix u assume "u \<in> set (active ?e)"
    then have "u \<noteq> ?t" "ticket_is e u TicketQueued" using t(1,4) assms unfolding exec_wf_def by blast+
    then show "ticket_is ?e u TicketQueued" by (simp add: ticket_is_def)
  qed
  have "exec_wf ?e" unfolding exec_wf_def R using t Q assms by (auto simp: exec_wf_def)
  moreover have "runOne_end i p e = Some ?e"
    using True t(3) assms by (simp add: runOne_end_def receive_slot_def exec_wf_def)
  ultimately show ?thesis using R by auto
qed

end
