(* ===== verification/Delivery.thy ===== *)
theory Delivery
  imports Delivery_Coordinator Delivery_Executor
begin

text \<open>
  Physical delivery attempts of \<open>rpc_result\<close> messages (outbound.go, \<open>rpcResultDelivery\<close> and the methods of
  \<open>encodedOutboundMessage\<close> on it) and the world of one process: attempts, the coordinators they share,
  the hook executor, and the log of the hooks called. The methods whose critical sections touch
  disjoint state (detach a ticket under the attempt's mutex, release it after unlocking) are one
  step.
\<close>

datatype delivery_state = Prepared | Queued | Writing | Replayable | Delivered

record 'f delivery =
  dl_state :: delivery_state
  dl_target :: int
  dl_written :: int
  dl_coordinator :: nat
  dl_ticket :: "nat option"
  dl_attempt :: "'f option"

type_synonym 'f job = "'f hook_claim option \<times> nat \<times> 'f option"

definition newRPCResultDelivery :: "int \<Rightarrow> nat \<Rightarrow> 'f delivery" where
  "newRPCResultDelivery reqMsgID co = \<lparr>dl_state = Prepared, dl_target = reqMsgID, dl_written = 0,
     dl_coordinator = co, dl_ticket = None, dl_attempt = None\<rparr>"

definition markQueued :: "'f delivery \<Rightarrow> 'f delivery" where
  "markQueued d = (if dl_state d = Prepared then d\<lparr>dl_state := Queued\<rparr> else d)"

definition beginWriting :: "int \<Rightarrow> 'f delivery \<Rightarrow> int \<times> 'f delivery" where
  "beginWriting req d =
     (let t = (if dl_target d = 0 then req else dl_target d)
      in (t, d\<lparr>dl_target := t, dl_written := t, dl_state := Writing\<rparr>))"

definition release_opt :: "nat option \<Rightarrow> 'j executor \<Rightarrow> 'j executor option" where
  "release_opt t e = (case t of None \<Rightarrow> Some e | Some i \<Rightarrow> ticket_release i e)"

definition tryRetarget ::
  "int \<Rightarrow> 'f delivery \<Rightarrow> 'f coordinator \<Rightarrow> 'f job executor \<Rightarrow>
     (bool \<times> 'f delivery \<times> 'f coordinator \<times> 'f job executor) option" where
  "tryRetarget req d co ex =
     (if req = 0 \<or> (dl_state d \<noteq> Prepared \<and> dl_state d \<noteq> Queued) then Some (False, d, co, ex)
      else do {
        co' \<leftarrow> deferHookToReplay co;
        ex' \<leftarrow> release_opt (dl_ticket d) ex;
        Some (True, d\<lparr>dl_ticket := None, dl_target := req\<rparr>, co', ex') })"

definition writtenRequestID :: "int \<Rightarrow> 'f delivery \<Rightarrow> int" where
  "writtenRequestID req d =
     (let i = (if dl_written d = 0 then dl_target d else dl_written d) in if i = 0 then req else i)"

definition markReplayable :: "'f delivery \<Rightarrow> 'f job executor \<Rightarrow> ('f delivery \<times> 'f job executor) option" where
  "markReplayable d ex = do {
     ex' \<leftarrow> release_opt (dl_ticket d) ex;
     Some (d\<lparr>dl_state := (if dl_state d \<noteq> Delivered then Replayable else dl_state d),
             dl_ticket := None, dl_attempt := None\<rparr>, ex') }"

definition abandon_opt :: "'f hook_claim option \<Rightarrow> 'f coordinator \<Rightarrow> 'f coordinator option" where
  "abandon_opt cl co = (case cl of None \<Rightarrow> Some co | Some k \<Rightarrow> map_option snd (abandon k co))"

definition markDelivered ::
  "'f delivery \<Rightarrow> 'f coordinator \<Rightarrow> 'f job executor \<Rightarrow> ('f delivery \<times> 'f coordinator \<times> 'f job executor) option" where
  "markDelivered d co ex =
     (let d' = d\<lparr>dl_state := Delivered, dl_ticket := None, dl_attempt := None\<rparr>
      in do {
        (claim, co1) \<leftarrow> claimAsyncDeliveredHook co;
        if claim = None \<and> dl_attempt d = None
        then do { ex' \<leftarrow> release_opt (dl_ticket d) ex; Some (d', co1, ex') }
        else let (ticket, ex1) = (case dl_ticket d of Some t \<Rightarrow> (Some t, ex) | None \<Rightarrow> ticket_reserve ex)
             in case ticket of
                  None \<Rightarrow> do { co2 \<leftarrow> abandon_opt claim co1; Some (d', co2, ex1) }
                | Some t \<Rightarrow>
                    (case ticket_submit t (claim, dl_coordinator d, dl_attempt d) ex1 of
                       (True, ex2) \<Rightarrow> Some (d', co1, ex2)
                     | (False, ex2) \<Rightarrow> do { co2 \<leftarrow> abandon_opt claim co1; ex3 \<leftarrow> ticket_release t ex2; Some (d', co2, ex3) }) })"

definition setAttemptDeliveryHook :: "'f option \<Rightarrow> 'f delivery \<Rightarrow> 'f delivery" where
  "setAttemptDeliveryHook fn d = (if fn \<noteq> None \<and> dl_attempt d = None then d\<lparr>dl_attempt := fn\<rparr> else d)"

text \<open>The coordinator is consulted twice, before and after the reservation, and may change in between:
  \<open>first\<close> is its first answer. \<open>False\<close> in the result is \<open>ErrRPCDeliveryHookCapacity\<close>.\<close>

definition prepareDeliveryHook ::
  "bool \<Rightarrow> 'f delivery \<Rightarrow> 'f coordinator \<Rightarrow> 'f job executor \<Rightarrow> (bool \<times> 'f delivery \<times> 'f job executor) option" where
  "prepareDeliveryHook first d co ex =
     (if dl_ticket d \<noteq> None \<or> \<not> (dl_attempt d \<noteq> None \<or> first) then Some (True, d, ex)
      else case ticket_reserve ex of
        (None, ex1) \<Rightarrow> Some (False, d, ex1)
      | (Some t, ex1) \<Rightarrow>
          if dl_attempt d \<noteq> None \<or> pendingAsyncHook co then Some (True, d\<lparr>dl_ticket := Some t\<rparr>, ex1)
          else do { ex2 \<leftarrow> ticket_release t ex1; Some (True, d, ex2) })"

subsection \<open>The process\<close>

record 'f process =
  pw_dl :: "nat \<Rightarrow> 'f delivery"
  pw_co :: "nat \<Rightarrow> 'f coordinator"
  pw_ex :: "'f job executor"
  pw_claims :: "(nat \<times> 'f hook_claim) list" \<comment> \<open>claims held by replays, with their coordinator\<close>
  pw_ran :: "(nat \<times> 'f option) list" \<comment> \<open>logical hooks called\<close>
  pw_attempts :: "'f list" \<comment> \<open>attempt hooks called\<close>

datatype 'f delivery_event =
    SetHook nat "'f option" | SetAttempt nat "'f option" | Prepare nat bool | MarkQueued nat
  | BeginWriting nat int | TryRetarget nat int | MarkReplayable nat | MarkDelivered nat
  | ReplayPoll nat bool | ReleaseDeferred nat
  | ClaimEnter nat | ClaimLeave nat | ClaimAbandon nat
  | WorkerTake | WorkerEnter nat | WorkerLeave nat | WorkerEnd nat bool

definition enter_claim :: "nat \<Rightarrow> 'f hook_claim \<Rightarrow> 'f process \<Rightarrow> 'f process option" where
  "enter_claim k cl w = do {
     (called, c) \<leftarrow> run_enter cl (pw_co w k);
     Some (w\<lparr>pw_co := (pw_co w)(k := c), pw_ran := (if called then pw_ran w @ [(k, cl_fn cl)] else pw_ran w)\<rparr>) }"

definition leave_claim :: "nat \<Rightarrow> 'f hook_claim \<Rightarrow> 'f process \<Rightarrow> 'f process option" where
  "leave_claim k cl w = do { c \<leftarrow> run_leave cl (pw_co w k); Some (w\<lparr>pw_co := (pw_co w)(k := c)\<rparr>) }"

definition on_claim :: "nat \<Rightarrow> (nat \<Rightarrow> 'f hook_claim \<Rightarrow> 'f process \<Rightarrow> 'f process option) \<Rightarrow> 'f process \<Rightarrow> 'f process option" where
  "on_claim i act w = (if i < length (pw_claims w) then act (fst (pw_claims w ! i)) (snd (pw_claims w ! i)) w else Some w)"

definition on_job :: "nat \<Rightarrow> (nat \<Rightarrow> 'f hook_claim \<Rightarrow> 'f process \<Rightarrow> 'f process option) \<Rightarrow> 'f process \<Rightarrow> 'f process option" where
  "on_job i act w =
     (if i < length (ex_running (pw_ex w))
      then case ex_running (pw_ex w) ! i of
             (t, Some cl, k, a) \<Rightarrow> act k cl w
           | (t, None, k, a) \<Rightarrow> Some w
      else Some w)"

text \<open>A worker leaves its job only after \<open>claim.run\<close> returned.\<close>

definition job_finished :: "'f process \<Rightarrow> nat \<Rightarrow> bool" where
  "job_finished w j \<longleftrightarrow> j < length (ex_running (pw_ex w)) \<and>
     (case ex_running (pw_ex w) ! j of
        (t, Some cl, k, a) \<Rightarrow> co_claim (pw_co w k) \<noteq> Some (cl_id cl)
      | (t, None, k, a) \<Rightarrow> True)"

definition delivery_step :: "'f delivery_event \<Rightarrow> 'f process \<Rightarrow> 'f process option" where
  "delivery_step ev w =
     (let co = (\<lambda>i. pw_co w (dl_coordinator (pw_dl w i)));
          put_dl = (\<lambda>i d w. w\<lparr>pw_dl := (pw_dl w)(i := d)\<rparr>);
          put_co = (\<lambda>i c w. w\<lparr>pw_co := (pw_co w)(dl_coordinator (pw_dl w i) := c)\<rparr>)
      in case ev of
        SetHook i fn \<Rightarrow> do { c \<leftarrow> setHook fn (co i); Some (put_co i c w) }
      | SetAttempt i fn \<Rightarrow> Some (put_dl i (setAttemptDeliveryHook fn (pw_dl w i)) w)
      | Prepare i first \<Rightarrow> do {
          (ok, d, ex) \<leftarrow> prepareDeliveryHook first (pw_dl w i) (co i) (pw_ex w);
          Some (put_dl i d (w\<lparr>pw_ex := ex\<rparr>)) }
      | MarkQueued i \<Rightarrow> Some (put_dl i (markQueued (pw_dl w i)) w)
      | BeginWriting i req \<Rightarrow> Some (put_dl i (snd (beginWriting req (pw_dl w i))) w)
      | TryRetarget i req \<Rightarrow> do {
          (ok, d, c, ex) \<leftarrow> tryRetarget req (pw_dl w i) (co i) (pw_ex w);
          Some (put_dl i d (put_co i c (w\<lparr>pw_ex := ex\<rparr>))) }
      | MarkReplayable i \<Rightarrow> do {
          (d, ex) \<leftarrow> markReplayable (pw_dl w i) (pw_ex w);
          Some (put_dl i d (w\<lparr>pw_ex := ex\<rparr>)) }
      | MarkDelivered i \<Rightarrow> do {
          (d, c, ex) \<leftarrow> markDelivered (pw_dl w i) (co i) (pw_ex w);
          Some (put_dl i d (put_co i c (w\<lparr>pw_ex := ex\<rparr>))) }
      | ReplayPoll i allow \<Rightarrow> do {
          (r, c) \<leftarrow> claimReplayDeliveredHook allow (co i);
          let w1 = put_co i c w
          in case r of
               ReplayClaim cl \<Rightarrow> Some (w1\<lparr>pw_claims := pw_claims w @ [(dl_coordinator (pw_dl w i), cl)]\<rparr>)
             | _ \<Rightarrow> Some w1 }
      | ReleaseDeferred i \<Rightarrow> do { c \<leftarrow> releaseDeferredHook (co i); Some (put_co i c w) }
      | ClaimEnter j \<Rightarrow> on_claim j enter_claim w
      | ClaimLeave j \<Rightarrow> on_claim j leave_claim w
      | ClaimAbandon j \<Rightarrow> on_claim j (\<lambda>k cl w. do { (_, c) \<leftarrow> abandon cl (pw_co w k); Some (w\<lparr>pw_co := (pw_co w)(k := c)\<rparr>) }) w
      | WorkerTake \<Rightarrow> Some (w\<lparr>pw_ex := worker_take (pw_ex w)\<rparr>)
      | WorkerEnter j \<Rightarrow> on_job j enter_claim w
      | WorkerLeave j \<Rightarrow> on_job j leave_claim w
      | WorkerEnd j panicked \<Rightarrow>
          if \<not> job_finished w j then Some w
          else do {
            ex \<leftarrow> runOne_end j panicked (pw_ex w);
            Some (w\<lparr>pw_ex := ex, pw_attempts := pw_attempts w @
              (case ex_running (pw_ex w) ! j of (t, cl, k, a) \<Rightarrow>
                 if panicked then [] else case a of None \<Rightarrow> [] | Some f \<Rightarrow> [f])\<rparr>) })"

fun delivery_run :: "'f delivery_event list \<Rightarrow> 'f process \<Rightarrow> 'f process option" where
  "delivery_run [] w = Some w"
| "delivery_run (ev # evs) w = Option.bind (delivery_step ev w) (delivery_run evs)"

definition process_start :: "(nat \<Rightarrow> nat) \<Rightarrow> (nat \<Rightarrow> int) \<Rightarrow> int \<Rightarrow> int \<Rightarrow> 'f process" where
  "process_start co_of req workers cap =
     \<lparr>pw_dl = (\<lambda>i. newRPCResultDelivery (req i) (co_of i)), pw_co = (\<lambda>_. newCoordinator),
      pw_ex = newRPCDeliveryHookExecutor workers cap, pw_claims = [], pw_ran = [], pw_attempts = []\<rparr>"

end
