(* ===== verification/Delivery_Inv.thy ===== *)
theory Delivery_Inv
  imports Delivery
begin

text \<open>
  The invariant of the delivery process and its preservation by every step: tickets held by attempts
  are exactly the reserved tickets of the executor, every hook not yet called is pending or owned by
  a live claim, and a coordinator's hook was called exactly when it is in progress or done.
\<close>

definition held :: "'f process \<Rightarrow> (nat \<times> 'f hook_claim) set" where
  "held w = set (pw_claims w) \<union>
     {(k, cl). \<exists>t a. (t, Some cl, k, a) \<in> set (ex_running (pw_ex w)) \<union> set (ex_queue (pw_ex w))}"

definition claims_ok :: "(nat \<Rightarrow> 'f coordinator) \<Rightarrow> (nat \<times> 'f hook_claim) set \<Rightarrow> bool" where
  "claims_ok co H \<longleftrightarrow>
     (\<forall>k cl. (k, cl) \<in> H \<longrightarrow> cl_id cl < co_nclaims (co k) \<and>
        (co_claim (co k) = Some (cl_id cl) \<longrightarrow> cl_fn cl = co_fn (co k))) \<and>
     (\<forall>k i. co_claim (co k) = Some i \<longrightarrow> (\<exists>cl. (k, cl) \<in> H \<and> cl_id cl = i))"

definition log_ok :: "(nat \<Rightarrow> 'f coordinator) \<Rightarrow> (nat \<times> 'f option) list \<Rightarrow> bool" where
  "log_ok co calls \<longleftrightarrow> (\<forall>k. length (filter (\<lambda>p. fst p = k) calls) = (if committed (co k) then 1 else 0)) \<and>
     (\<forall>p\<in>set calls. snd p \<noteq> None)"

definition tickets_ok :: "(nat \<Rightarrow> 'f delivery) \<Rightarrow> 'f job executor \<Rightarrow> bool" where
  "tickets_ok dl ex \<longleftrightarrow> exec_wf ex \<and> reserved_tickets ex = {t. \<exists>i. dl_ticket (dl i) = Some t} \<and>
     (\<forall>i j t. dl_ticket (dl i) = Some t \<and> dl_ticket (dl j) = Some t \<longrightarrow> i = j)"

definition proc_wf :: "'f process \<Rightarrow> bool" where
  "proc_wf w \<longleftrightarrow> (\<forall>k. coord_wf (pw_co w k)) \<and> tickets_ok (pw_dl w) (pw_ex w) \<and>
     log_ok (pw_co w) (pw_ran w) \<and> claims_ok (pw_co w) (held w)"

subsection \<open>Tickets\<close>

lemma tickets_same: "tickets_ok dl ex \<Longrightarrow> dl_ticket d = dl_ticket (dl i) \<Longrightarrow> tickets_ok (dl(i := d)) ex"
  by (auto simp: tickets_ok_def)

lemma tickets_drop:
  assumes "tickets_ok dl ex" and "dl_ticket d = None" and "exec_wf ex'"
    and "reserved_tickets ex' = reserved_tickets ex - set_option (dl_ticket (dl i))"
  shows "tickets_ok (dl(i := d)) ex'"
proof -
  have "{t. \<exists>j. dl_ticket ((dl(i := d)) j) = Some t} = {t. \<exists>j. dl_ticket (dl j) = Some t} - set_option (dl_ticket (dl i))"
    using assms(1,2) unfolding tickets_ok_def by (auto split: if_splits)
  then show ?thesis using assms by (auto simp: tickets_ok_def split: if_splits)
qed

lemma tickets_add:
  assumes "tickets_ok dl ex" and "dl_ticket (dl i) = None" and "dl_ticket d = Some t" and "exec_wf ex'"
    and "t \<notin> reserved_tickets ex" and "reserved_tickets ex' = insert t (reserved_tickets ex)"
  shows "tickets_ok (dl(i := d)) ex'"
proof -
  have "{u. \<exists>j. dl_ticket ((dl(i := d)) j) = Some u} = insert t {u. \<exists>j. dl_ticket (dl j) = Some u}"
    using assms(2,3) by (auto split: if_splits) (metis option.distinct(1))
  then show ?thesis using assms by (auto simp: tickets_ok_def split: if_splits)
qed

lemma release_opt_ok:
  assumes "exec_wf e"
  shows "\<exists>e'. release_opt t e = Some e' \<and> exec_wf e' \<and> ex_queue e' = ex_queue e \<and> ex_running e' = ex_running e \<and>
    reserved_tickets e' = reserved_tickets e - set_option t"
  using ticket_release_ok [OF assms] assms by (cases t) (auto simp: release_opt_def)

lemma tickets_release:
  assumes "tickets_ok dl ex" and "dl_ticket d = None"
  shows "\<exists>ex'. release_opt (dl_ticket (dl i)) ex = Some ex' \<and> tickets_ok (dl(i := d)) ex' \<and>
    ex_queue ex' = ex_queue ex \<and> ex_running ex' = ex_running ex"
proof -
  have "exec_wf ex" using assms(1) by (simp add: tickets_ok_def)
  then show ?thesis using release_opt_ok [of ex "dl_ticket (dl i)"] tickets_drop [OF assms] by blast
qed

subsection \<open>Claims and log\<close>

lemma claims_keep:
  assumes "claims_ok co H" and "keeps_claim (co k) c"
  shows "claims_ok (co(k := c)) H"
  using assms unfolding claims_ok_def keeps_claim_def by (auto intro: less_le_trans)

lemma claims_issue:
  assumes "claims_ok co H" and "co_claim c = Some (co_nclaims (co k))" and "co_nclaims c = Suc (co_nclaims (co k))"
    and "co_fn c = co_fn (co k)"
  shows "claims_ok (co(k := c)) (insert (k, \<lparr>cl_id = co_nclaims (co k), cl_fn = co_fn (co k)\<rparr>) H)"
proof -
  have lt: "cl_id cl < co_nclaims (co k)" if "(k, cl) \<in> H" for cl using assms(1) that by (simp add: claims_ok_def)
  have old: "cl_id cl < co_nclaims ((co(k := c)) j) \<and> (co_claim ((co(k := c)) j) = Some (cl_id cl) \<longrightarrow>
      cl_fn cl = co_fn ((co(k := c)) j))" if "(j, cl) \<in> H" for j cl
  proof (cases "j = k")
    case True
    then have "cl_id cl < co_nclaims (co k)" using lt that by simp
    then show ?thesis using True assms(2-4) by simp
  next
    case False
    then show ?thesis using assms(1) that unfolding claims_ok_def by simp
  qed
  have own: "\<exists>cl. (j, cl) \<in> H \<and> cl_id cl = i" if "co_claim (co j) = Some i" for j i
    using assms(1) that unfolding claims_ok_def by blast
  show ?thesis
    unfolding claims_ok_def
  proof (intro conjI allI impI)
    fix j i assume a: "co_claim ((co(k := c)) j) = Some i"
    show "\<exists>cl. (j, cl) \<in> insert (k, \<lparr>cl_id = co_nclaims (co k), cl_fn = co_fn (co k)\<rparr>) H \<and> cl_id cl = i"
    proof (cases "j = k")
      case True
      then show ?thesis using a assms(2) by auto
    next
      case False
      then show ?thesis using a own [of j i] by auto
    qed
  next
    fix j cl
    assume "(j, cl) \<in> insert (k, \<lparr>cl_id = co_nclaims (co k), cl_fn = co_fn (co k)\<rparr>) H"
    then consider "(j, cl) \<in> H" | "j = k" "cl = \<lparr>cl_id = co_nclaims (co k), cl_fn = co_fn (co k)\<rparr>" by blast
    then show "cl_id cl < co_nclaims ((co(k := c)) j)"
      "co_claim ((co(k := c)) j) = Some (cl_id cl) \<Longrightarrow> cl_fn cl = co_fn ((co(k := c)) j)"
      using old [of j cl] assms(3,4) by (cases; simp)+
  qed
qed

lemma claims_retire:
  assumes "claims_ok co H" and "H' \<subseteq> H" and "H \<subseteq> insert (k, cl) H'" and "co_claim (co k) \<noteq> Some (cl_id cl)"
  shows "claims_ok co H'"
  unfolding claims_ok_def
proof (intro conjI allI impI)
  fix j i assume "co_claim (co j) = Some i"
  then obtain cl' where "(j, cl') \<in> H" "cl_id cl' = i" using assms(1) unfolding claims_ok_def by blast
  moreover have "(j, cl') \<noteq> (k, cl)" using assms(4) \<open>co_claim (co j) = Some i\<close> \<open>cl_id cl' = i\<close> by auto
  ultimately show "\<exists>cl. (j, cl) \<in> H' \<and> cl_id cl = i" using assms(3) by blast
qed (use assms(1,2) in \<open>auto simp: claims_ok_def\<close>)

lemma log_keep: "log_ok co calls \<Longrightarrow> committed c = committed (co k) \<Longrightarrow> log_ok (co(k := c)) calls"
  by (auto simp: log_ok_def)

lemma log_call:
  "log_ok co calls \<Longrightarrow> \<not> committed (co k) \<Longrightarrow> committed c \<Longrightarrow> fn \<noteq> None \<Longrightarrow> log_ok (co(k := c)) (calls @ [(k, fn)])"
  by (auto simp: log_ok_def)

text \<open>A step on one coordinator that calls no hook and issues no claim.\<close>

lemma coord_step_wf:
  assumes "proc_wf w" and "quiet_step (pw_co w k) c" and "keeps_claim (pw_co w k) c"
  shows "proc_wf (w\<lparr>pw_co := (pw_co w)(k := c)\<rparr>)"
proof -
  have h: "held (w\<lparr>pw_co := (pw_co w)(k := c)\<rparr>) = held w" by (simp add: held_def)
  show ?thesis
    using assms log_keep [of "pw_co w" "pw_ran w" c k] claims_keep [of "pw_co w" "held w" k c]
    unfolding proc_wf_def h by (auto simp: quiet_step_def)
qed

text \<open>A step of the executor and one attempt that moves no claim.\<close>

lemma exec_step_wf:
  assumes "proc_wf w" and "tickets_ok dl ex" and "ex_queue ex = ex_queue (pw_ex w)"
    and "ex_running ex = ex_running (pw_ex w)"
  shows "proc_wf (w\<lparr>pw_dl := dl, pw_ex := ex\<rparr>)"
proof -
  have h: "held (w\<lparr>pw_dl := dl, pw_ex := ex\<rparr>) = held w" using assms(3,4) by (simp add: held_def)
  show ?thesis using assms(1,2) unfolding proc_wf_def h by simp
qed

subsection \<open>The steps\<close>

lemma process_upd_commute:
  "w\<lparr>pw_ex := e, pw_co := c, pw_dl := d\<rparr> = w\<lparr>pw_co := c, pw_dl := d, pw_ex := e\<rparr>"
  "w\<lparr>pw_co := c, pw_claims := cs\<rparr> = w\<lparr>pw_claims := cs, pw_co := c\<rparr>"
  "w\<lparr>pw_dl := d, pw_ex := e, pw_co := c\<rparr> = w\<lparr>pw_co := c, pw_dl := d, pw_ex := e\<rparr>"
  "w\<lparr>pw_ex := e, pw_dl := d\<rparr> = w\<lparr>pw_dl := d, pw_ex := e\<rparr>"
  by (cases w; simp)+

lemma submit_ready:
  assumes "tickets_ok dl ex" and "dl_ticket d = None"
    and "r = (case dl_ticket (dl i) of Some t \<Rightarrow> (Some t, ex) | None \<Rightarrow> ticket_reserve ex)"
  shows "case r of (None, ex1) \<Rightarrow> ex1 = ex \<and> dl_ticket (dl i) = None
    | (Some t, ex1) \<Rightarrow> (\<exists>ex2. ticket_submit t j ex1 = (True, ex2) \<and> tickets_ok (dl(i := d)) ex2 \<and>
         ex_queue ex2 = ex_queue ex @ [(t, j)] \<and> ex_running ex2 = ex_running ex)"
proof -
  obtain o1 ex1 where r: "r = (o1, ex1)" by (cases r)
  have wf: "exec_wf ex" using assms(1) by (simp add: tickets_ok_def)
  have ex1: "exec_wf ex1 \<and> ex_queue ex1 = ex_queue ex \<and> ex_running ex1 = ex_running ex \<and>
      (case o1 of None \<Rightarrow> ex1 = ex \<and> dl_ticket (dl i) = None
       | Some t \<Rightarrow> t \<in> reserved_tickets ex1 \<and> reserved_tickets ex1 - {t} = reserved_tickets ex - set_option (dl_ticket (dl i)))"
  proof (cases "dl_ticket (dl i)")
    case (Some t)
    then show ?thesis using assms(1,3) r wf by (auto simp: tickets_ok_def)
  next
    case None
    then have "ticket_reserve ex = (o1, ex1)" using assms(3) r by simp
    from ticket_reserve_ok [OF wf this] show ?thesis using None by (auto split: option.splits)
  qed
  show ?thesis
  proof (cases o1)
    case None
    then show ?thesis using ex1 r by simp
  next
    case (Some t)
    obtain b ex2 where s: "ticket_submit t j ex1 = (b, ex2)" by fastforce
    have w1: "exec_wf ex1" using ex1 by blast
    have S: "exec_wf ex2" "ex_running ex2 = ex_running ex1" "b" "reserved_tickets ex2 = reserved_tickets ex1 - {t}"
      "ex_queue ex2 = ex_queue ex1 @ [(t, j)]"
      using ticket_submit_ok [OF w1 s] ex1 Some by auto
    have "tickets_ok (dl(i := d)) ex2"
      by (rule tickets_drop [OF assms(1,2) S(1)]) (use S(4) ex1 Some in simp)
    then show ?thesis using r Some s S ex1 by simp
  qed
qed

lemma markDelivered_ok:
  assumes "tickets_ok dl ex" and "coord_wf co" and "dl i = d"
  shows "\<exists>d' co' ex'. markDelivered d co ex = Some (d', co', ex') \<and> tickets_ok (dl(i := d')) ex' \<and>
    quiet_step co co' \<and> ex_running ex' = ex_running ex \<and> dl_coordinator d' = dl_coordinator d \<and>
    (keeps_claim co co' \<and> (\<exists>js. ex_queue ex' = ex_queue ex @ js \<and> (\<forall>j\<in>set js. fst (snd j) = None)) \<or>
     (\<exists>t. ex_queue ex' = ex_queue ex @ [(t, Some \<lparr>cl_id = co_nclaims co, cl_fn = co_fn co\<rparr>, dl_coordinator d, dl_attempt d)] \<and>
        co_claim co' = Some (co_nclaims co) \<and> co_nclaims co' = Suc (co_nclaims co) \<and> co_fn co' = co_fn co))"
proof -
  let ?d = "d\<lparr>dl_state := Delivered, dl_ticket := None, dl_attempt := None\<rparr>"
  have dn: "dl_ticket ?d = None" by simp
  obtain cl co1 where c: "claimLocked False co = Some (cl, co1)" "quiet_step co co1"
    "case cl of None \<Rightarrow> co1 = co \<and> \<not> (co_state co = HookPending \<and> (co_deferred co \<longrightarrow> False))
     | Some k \<Rightarrow> k = \<lparr>cl_id = co_nclaims co, cl_fn = co_fn co\<rparr> \<and> co_state co1 = HookClaimed \<and>
         co_nclaims co1 = Suc (co_nclaims co) \<and>
         co_claim co1 = Some (co_nclaims co) \<and> co_fn co1 = co_fn co \<and> co_fn co \<noteq> None"
    using claimLocked_ok [OF assms(2), of False] by blast
  have wf1: "coord_wf co1" using c(2) by (simp add: quiet_step_def)
  show ?thesis
  proof (cases "cl = None \<and> dl_attempt d = None")
    case True
    then have "co1 = co" using c(3) by simp
    then show ?thesis
      using tickets_release [OF assms(1) dn, of i] assms(2,3) True c(1)
      by (auto simp: markDelivered_def claimAsyncDeliveredHook_def)
  next
    case False
    obtain o1 ex1 where r: "(case dl_ticket (dl i) of Some t \<Rightarrow> (Some t, ex) | None \<Rightarrow> ticket_reserve ex) = (o1, ex1)"
      by fastforce
    note R = submit_ready [OF assms(1) dn r [symmetric], of "(cl, dl_coordinator d, dl_attempt d)"]
    show ?thesis
    proof (cases o1)
      case None
      have n: "ex1 = ex" "dl_ticket d = None" using R None assms(3) by auto
      obtain co2 where a: "abandon_opt cl co1 = Some co2" "quiet_step co1 co2" "keeps_claim co co2"
      proof (cases cl)
        case None
        then show thesis using that [of co1] c(3) wf1 by (simp add: abandon_opt_def)
      next
        case (Some k)
        then obtain b co2 where "abandon k co1 = Some (b, co2)" "quiet_step co1 co2" "b" "co_state co2 = HookPending"
          using abandon_ok [OF wf1, of k] c(3) by auto
        moreover have "keeps_claim co co2"
          using c(3) Some \<open>quiet_step co1 co2\<close> \<open>co_state co2 = HookPending\<close>
          by (auto simp: keeps_claim_def quiet_step_def coord_wf_def)
        ultimately show thesis using that [of co2] Some by (simp add: abandon_opt_def)
      qed
      have "tickets_ok (dl(i := ?d)) ex" by (rule tickets_same [OF assms(1)]) (simp add: n assms(3))
      moreover have "markDelivered d co ex = Some (?d, co2, ex)"
        using c(1) a(1) False r None n assms(3) by (auto simp: markDelivered_def claimAsyncDeliveredHook_def Let_def)
      ultimately show ?thesis using quiet_step_trans [OF c(2) a(2)] a(3) by fastforce
    next
      case (Some t)
      obtain ex2 where s: "ticket_submit t (cl, dl_coordinator d, dl_attempt d) ex1 = (True, ex2)"
        "tickets_ok (dl(i := ?d)) ex2" "ex_queue ex2 = ex_queue ex @ [(t, cl, dl_coordinator d, dl_attempt d)]"
        "ex_running ex2 = ex_running ex" using R Some by auto
      have m: "markDelivered d co ex = Some (?d, co1, ex2)"
        using c(1) False r Some s(1) assms(3) by (auto simp: markDelivered_def claimAsyncDeliveredHook_def Let_def)
      show ?thesis using m s c(2,3) by (cases cl) auto
    qed
  qed
qed

lemma prepareDeliveryHook_ok:
  assumes "tickets_ok dl ex" and "dl i = d"
  shows "\<exists>ok d' ex'. prepareDeliveryHook first d co ex = Some (ok, d', ex') \<and> tickets_ok (dl(i := d')) ex' \<and>
    ex_queue ex' = ex_queue ex \<and> ex_running ex' = ex_running ex"
proof (cases "dl_ticket d \<noteq> None \<or> \<not> (dl_attempt d \<noteq> None \<or> first)")
  case True
  then show ?thesis using tickets_same [OF assms(1), of d i] assms(2) by (auto simp: prepareDeliveryHook_def)
next
  case False
  then have n: "dl_ticket (dl i) = None" using assms(2) by simp
  have wf: "exec_wf ex" using assms(1) by (simp add: tickets_ok_def)
  obtain o1 ex1 where r: "ticket_reserve ex = (o1, ex1)" by fastforce
  note R = ticket_reserve_ok [OF wf r]
  show ?thesis
  proof (cases o1)
    case None
    then show ?thesis using False R r tickets_same [OF assms(1), of d i] assms(2) by (auto simp: prepareDeliveryHook_def)
  next
    case (Some t)
    then have t: "exec_wf ex1" "t \<notin> reserved_tickets ex" "reserved_tickets ex1 = insert t (reserved_tickets ex)"
      "ex_queue ex1 = ex_queue ex" "ex_running ex1 = ex_running ex" using R by auto
    obtain ex2 where e2: "ticket_release t ex1 = Some ex2" "exec_wf ex2" "ex_queue ex2 = ex_queue ex1"
      "ex_running ex2 = ex_running ex1" "reserved_tickets ex2 = reserved_tickets ex1 - {t}"
      using ticket_release_ok [OF t(1), of t] by blast
    have "tickets_ok (dl(i := d\<lparr>dl_ticket := Some t\<rparr>)) ex1"
      by (rule tickets_add [OF assms(1) n _ t(1-3)]) simp
    moreover have "tickets_ok (dl(i := d)) ex2"
      by (rule tickets_drop [OF assms(1) _ e2(2)]) (use n assms(2) t e2 in auto)
    ultimately show ?thesis using False r Some t e2 by (auto simp: prepareDeliveryHook_def)
  qed
qed

lemma enter_claim_ok:
  assumes "proc_wf w" and "(k, cl) \<in> held w"
  shows "\<exists>w'. enter_claim k cl w = Some w' \<and> proc_wf w'"
proof -
  let ?c = "pw_co w k"
  have wf: "coord_wf ?c" using assms(1) by (simp add: proc_wf_def)
  obtain b c where r: "run_enter cl ?c = Some (b, c)" "coord_wf c" "keeps_claim ?c c"
    "b \<longleftrightarrow> co_claim ?c = Some (cl_id cl) \<and> co_state ?c = HookClaimed"
    "if b then \<not> committed ?c \<and> committed c \<and> co_state c = HookInProgress \<and> co_fn c = co_fn ?c \<and>
       co_claim c = Some (cl_id cl) else c = ?c"
    using run_enter_ok [OF wf, of cl] by blast
  let ?w = "w\<lparr>pw_co := (pw_co w)(k := c), pw_ran := (if b then pw_ran w @ [(k, cl_fn cl)] else pw_ran w)\<rparr>"
  have h: "held ?w = held w" by (simp add: held_def)
  have fn: "b \<Longrightarrow> cl_fn cl \<noteq> None"
    using assms r(4) wf by (auto simp: proc_wf_def claims_ok_def coord_wf_def)
  have "log_ok (pw_co ?w) (pw_ran ?w)"
    using assms(1) r(5) fn log_call [of "pw_co w" "pw_ran w" k c "cl_fn cl"] by (auto simp: proc_wf_def)
  moreover have "claims_ok (pw_co ?w) (held ?w)"
    unfolding h using assms(1) claims_keep [of "pw_co w" "held w" k c] r(3) by (auto simp: proc_wf_def)
  ultimately have "proc_wf ?w" using assms(1) r(2) by (simp add: proc_wf_def)
  then show ?thesis using r(1) by (simp add: enter_claim_def)
qed

lemma leave_claim_ok:
  assumes "proc_wf w"
  shows "\<exists>w'. leave_claim k cl w = Some w' \<and> proc_wf w'"
proof -
  have wf: "coord_wf (pw_co w k)" using assms(1) by (simp add: proc_wf_def)
  show ?thesis using run_leave_ok [OF wf, of cl] coord_step_wf [OF assms] by (auto simp: leave_claim_def)
qed

lemma proc_wfD:
  assumes "proc_wf w"
  shows "coord_wf (pw_co w k)" and "tickets_ok (pw_dl w) (pw_ex w)"
    and "log_ok (pw_co w) (pw_ran w)" and "claims_ok (pw_co w) (held w)"
  using assms by (simp_all add: proc_wf_def)

lemma attempt_step_wf:
  assumes "proc_wf w" and "dl_ticket d = dl_ticket (pw_dl w i)"
  shows "proc_wf (w\<lparr>pw_dl := (pw_dl w)(i := d)\<rparr>)"
  using exec_step_wf [OF assms(1) tickets_same [OF proc_wfD(2) [OF assms(1)] assms(2)]] by simp

lemma on_claim_ok:
  assumes "proc_wf w"
    and "\<And>k cl. (k, cl) \<in> held w \<Longrightarrow> \<exists>w'. act k cl w = Some w' \<and> proc_wf w'"
  shows "\<exists>w'. on_claim i act w = Some w' \<and> proc_wf w'"
proof (cases "i < length (pw_claims w)")
  case True
  then have "pw_claims w ! i \<in> held w" by (simp add: held_def)
  then show ?thesis using assms(2) [of "fst (pw_claims w ! i)" "snd (pw_claims w ! i)"] True by (simp add: on_claim_def)
qed (use assms(1) in \<open>simp add: on_claim_def\<close>)

lemma on_job_ok:
  assumes "proc_wf w"
    and "\<And>k cl. (k, cl) \<in> held w \<Longrightarrow> \<exists>w'. act k cl w = Some w' \<and> proc_wf w'"
  shows "\<exists>w'. on_job i act w = Some w' \<and> proc_wf w'"
proof (cases "i < length (ex_running (pw_ex w))")
  case True
  obtain t cl k a where j: "ex_running (pw_ex w) ! i = (t, cl, k, a)" by (cases "ex_running (pw_ex w) ! i") auto
  show ?thesis
  proof (cases cl)
    case None
    then show ?thesis using True j assms(1) by (simp add: on_job_def)
  next
    case (Some c)
    then have "(t, Some c, k, a) \<in> set (ex_running (pw_ex w))" using True j by (metis nth_mem)
    then have "(k, c) \<in> held w" by (auto simp: held_def)
    then show ?thesis using assms(2) True j Some by (simp add: on_job_def)
  qed
qed (use assms(1) in \<open>simp add: on_job_def\<close>)

lemma worker_end_wf:
  assumes "proc_wf w" and "job_finished w j"
  shows "\<exists>ex. runOne_end j p (pw_ex w) = Some ex \<and> proc_wf (w\<lparr>pw_ex := ex, pw_attempts := x\<rparr>)"
proof -
  let ?R = "ex_running (pw_ex w)"
  have j: "j < length ?R" using assms(2) by (simp add: job_finished_def)
  have wf: "exec_wf (pw_ex w)" using proc_wfD(2) [OF assms(1)] by (simp add: tickets_ok_def)
  obtain ex where ex: "runOne_end j p (pw_ex w) = Some ex" "exec_wf ex"
    "reserved_tickets ex = reserved_tickets (pw_ex w)" "ex_queue ex = ex_queue (pw_ex w)"
    "ex_running ex = take j ?R @ drop (Suc j) ?R"
    using runOne_end_ok [OF wf, of j p] j by blast
  let ?w = "w\<lparr>pw_ex := ex, pw_attempts := x\<rparr>"
  obtain t cl k a where J: "?R ! j = (t, cl, k, a)" by (cases "?R ! j") auto
  have S: "set ?R = insert (t, cl, k, a) (set (ex_running ex))"
  proof -
    have "set ?R = set (take j ?R @ ?R ! j # drop (Suc j) ?R)" using id_take_nth_drop [OF j] by simp
    then show ?thesis using J ex(5) by auto
  qed
  have "claims_ok (pw_co w) (held ?w)"
  proof (cases cl)
    case None
    then have "held ?w = held w" using S ex(4) by (auto simp: held_def)
    then show ?thesis using proc_wfD(4) [OF assms(1)] by simp
  next
    case (Some c)
    then have "held ?w \<subseteq> held w" "held w \<subseteq> insert (k, c) (held ?w)" using S ex(4) by (auto simp: held_def)
    moreover have "co_claim (pw_co w k) \<noteq> Some (cl_id c)" using assms(2) J Some by (simp add: job_finished_def)
    ultimately show ?thesis using claims_retire [OF proc_wfD(4) [OF assms(1)]] by blast
  qed
  moreover have "tickets_ok (pw_dl w) ex" using proc_wfD(2) [OF assms(1)] ex by (simp add: tickets_ok_def)
  ultimately have "proc_wf ?w" using assms(1) by (simp add: proc_wf_def)
  then show ?thesis using ex(1) by simp
qed

lemma claim_step_wf:
  assumes "proc_wf w" and "quiet_step (pw_co w k) c" and "co_claim c = Some (co_nclaims (pw_co w k))"
    and "co_nclaims c = Suc (co_nclaims (pw_co w k))" and "co_fn c = co_fn (pw_co w k)"
    and "tickets_ok dl ex"
    and "held (w\<lparr>pw_dl := dl, pw_ex := ex, pw_claims := cs, pw_co := (pw_co w)(k := c)\<rparr>) =
      insert (k, \<lparr>cl_id = co_nclaims (pw_co w k), cl_fn = co_fn (pw_co w k)\<rparr>) (held w)"
  shows "proc_wf (w\<lparr>pw_dl := dl, pw_ex := ex, pw_claims := cs, pw_co := (pw_co w)(k := c)\<rparr>)"
  unfolding proc_wf_def assms(7)
  using assms(1,2,6) claims_issue [of "pw_co w" "held w" c k, OF proc_wfD(4) [OF assms(1)] assms(3-5)]
    log_keep [of "pw_co w" "pw_ran w" c k, OF proc_wfD(3) [OF assms(1)]]
  by (auto simp: quiet_step_def proc_wf_def)

lemma replay_poll_wf:
  assumes "proc_wf w"
  shows "\<exists>w'. delivery_step (ReplayPoll i a) w = Some w' \<and> proc_wf w'"
proof -
  let ?k = "dl_coordinator (pw_dl w i)" let ?c = "pw_co w ?k"
  obtain r c where r: "claimReplayDeliveredHook a ?c = Some (r, c)" "quiet_step ?c c"
    and cs: "case r of ReplayDone \<Rightarrow> c = ?c
     | ReplayClaim k \<Rightarrow> k = \<lparr>cl_id = co_nclaims ?c, cl_fn = co_fn ?c\<rparr> \<and> co_state c = HookClaimed \<and>
         co_nclaims c = Suc (co_nclaims ?c) \<and> co_claim c = Some (co_nclaims ?c) \<and> co_fn c = co_fn ?c \<and> co_fn ?c \<noteq> None
     | ReplayWait ch \<Rightarrow> co_changed c = Some ch \<and> ch \<notin> co_closed c \<and> co_fn c = co_fn ?c \<and>
         co_state c = co_state ?c \<and> co_deferred c = co_deferred ?c \<and> co_claim c = co_claim ?c \<and>
         co_nclaims c = co_nclaims ?c \<and> co_fn ?c \<noteq> None \<and> co_state ?c \<noteq> HookDone \<and>
         \<not> (co_state ?c = HookPending \<and> (co_deferred ?c \<longrightarrow> a))"
    using claimReplayDeliveredHook_ok [OF proc_wfD(1) [OF assms], of a ?k] by blast
  show ?thesis
  proof (cases r)
    case (ReplayClaim cl)
    let ?w = "w\<lparr>pw_dl := pw_dl w, pw_ex := pw_ex w, pw_claims := pw_claims w @ [(?k, cl)], pw_co := (pw_co w)(?k := c)\<rparr>"
    have h: "held ?w = insert (?k, cl) (held w)" by (auto simp: held_def)
    have "proc_wf ?w"
      by (rule claim_step_wf [OF assms r(2)]) (use cs ReplayClaim h proc_wfD(2) [OF assms] in auto)
    then show ?thesis using r(1) ReplayClaim by (simp add: delivery_step_def Let_def process_upd_commute)
  next
    case ReplayDone
    then have "keeps_claim ?c c" using cs by simp
    then show ?thesis using coord_step_wf [OF assms r(2)] r(1) ReplayDone by (simp add: delivery_step_def Let_def)
  next
    case (ReplayWait ch)
    then have "keeps_claim ?c c" using cs by (simp add: keeps_claim_def)
    then show ?thesis using coord_step_wf [OF assms r(2)] r(1) ReplayWait by (simp add: delivery_step_def Let_def)
  qed
qed

lemma mark_delivered_wf:
  assumes "proc_wf w"
  shows "\<exists>w'. delivery_step (MarkDelivered i) w = Some w' \<and> proc_wf w'"
proof -
  let ?k = "dl_coordinator (pw_dl w i)" let ?c = "pw_co w ?k"
  obtain d c ex where m: "markDelivered (pw_dl w i) ?c (pw_ex w) = Some (d, c, ex)"
    and t: "tickets_ok ((pw_dl w)(i := d)) ex" and q: "quiet_step ?c c"
    and R: "ex_running ex = ex_running (pw_ex w)"
    and cs: "keeps_claim ?c c \<and> (\<exists>js. ex_queue ex = ex_queue (pw_ex w) @ js \<and> (\<forall>j\<in>set js. fst (snd j) = None)) \<or>
     (\<exists>t. ex_queue ex = ex_queue (pw_ex w) @ [(t, Some \<lparr>cl_id = co_nclaims ?c, cl_fn = co_fn ?c\<rparr>, ?k, dl_attempt (pw_dl w i))] \<and>
        co_claim c = Some (co_nclaims ?c) \<and> co_nclaims c = Suc (co_nclaims ?c) \<and> co_fn c = co_fn ?c)"
    using markDelivered_ok [OF proc_wfD(2,1) [OF assms] refl, of i ?k] by blast
  let ?w = "w\<lparr>pw_dl := (pw_dl w)(i := d), pw_ex := ex, pw_claims := pw_claims w, pw_co := (pw_co w)(?k := c)\<rparr>"
  have "delivery_step (MarkDelivered i) w = Some ?w"
    using m by (simp add: delivery_step_def Let_def process_upd_commute)
  moreover have "proc_wf ?w"
    using cs
  proof
    assume a: "keeps_claim ?c c \<and> (\<exists>js. ex_queue ex = ex_queue (pw_ex w) @ js \<and> (\<forall>j\<in>set js. fst (snd j) = None))"
    then obtain js where js: "ex_queue ex = ex_queue (pw_ex w) @ js" "\<forall>j\<in>set js. fst (snd j) = None" by blast
    have "(t, Some b, k, a) \<notin> set js" for t b k a using js(2) by fastforce
    then have h: "held ?w = held (w\<lparr>pw_co := (pw_co w)(?k := c)\<rparr>)" using R js(1) by (auto simp: held_def)
    show ?thesis using coord_step_wf [OF assms q] a t unfolding proc_wf_def h by auto
  next
    assume "\<exists>t. ex_queue ex = ex_queue (pw_ex w) @ [(t, Some \<lparr>cl_id = co_nclaims ?c, cl_fn = co_fn ?c\<rparr>, ?k, dl_attempt (pw_dl w i))] \<and>
        co_claim c = Some (co_nclaims ?c) \<and> co_nclaims c = Suc (co_nclaims ?c) \<and> co_fn c = co_fn ?c"
    then obtain t where a: "ex_queue ex = ex_queue (pw_ex w) @
        [(t, Some \<lparr>cl_id = co_nclaims ?c, cl_fn = co_fn ?c\<rparr>, ?k, dl_attempt (pw_dl w i))]"
      "co_claim c = Some (co_nclaims ?c)" "co_nclaims c = Suc (co_nclaims ?c)" "co_fn c = co_fn ?c" by blast
    have "held ?w = insert (?k, \<lparr>cl_id = co_nclaims ?c, cl_fn = co_fn ?c\<rparr>) (held w)"
      using R a(1) by (auto simp: held_def)
    then show ?thesis by (rule claim_step_wf [OF assms q a(2-4) t])
  qed
  ultimately show ?thesis by blast
qed

lemma try_retarget_wf:
  assumes "proc_wf w"
  shows "\<exists>w'. delivery_step (TryRetarget i req) w = Some w' \<and> proc_wf w'"
proof (cases "req = 0 \<or> (dl_state (pw_dl w i) \<noteq> Prepared \<and> dl_state (pw_dl w i) \<noteq> Queued)")
  case True
  then show ?thesis using assms by (simp add: delivery_step_def Let_def tryRetarget_def)
next
  case False
  let ?k = "dl_coordinator (pw_dl w i)" let ?d = "pw_dl w i\<lparr>dl_ticket := None, dl_target := req\<rparr>"
  obtain c where c: "deferHookToReplay (pw_co w ?k) = Some c" "quiet_step (pw_co w ?k) c" "keeps_claim (pw_co w ?k) c"
    using deferred_ok(2) [OF proc_wfD(1) [OF assms], of ?k] by blast
  have n: "dl_ticket ?d = None" by simp
  obtain ex where ex: "release_opt (dl_ticket (pw_dl w i)) (pw_ex w) = Some ex" "tickets_ok ((pw_dl w)(i := ?d)) ex"
    "ex_queue ex = ex_queue (pw_ex w)" "ex_running ex = ex_running (pw_ex w)"
    using tickets_release [OF proc_wfD(2) [OF assms] n, of i] by blast
  have "proc_wf (w\<lparr>pw_co := (pw_co w)(?k := c), pw_dl := (pw_dl w)(i := ?d), pw_ex := ex\<rparr>)"
    by (rule exec_step_wf [OF coord_step_wf [OF assms c(2,3)] ex(2)]) (use ex(3,4) in simp_all)
  then show ?thesis using False c(1) ex(1) by (auto simp: delivery_step_def Let_def tryRetarget_def process_upd_commute)
qed

theorem delivery_step_wf:
  assumes "proc_wf w"
  shows "\<exists>w'. delivery_step ev w = Some w' \<and> proc_wf w'"
proof (cases ev)
  case (SetHook i fn)
  then show ?thesis
    using setHook_ok [OF proc_wfD(1) [OF assms], of fn "dl_coordinator (pw_dl w i)"] coord_step_wf [OF assms]
    by (auto simp: delivery_step_def Let_def)
next
  case (SetAttempt i fn)
  then show ?thesis using attempt_step_wf [OF assms] by (simp add: delivery_step_def Let_def setAttemptDeliveryHook_def)
next
  case (Prepare i first)
  then show ?thesis
    using prepareDeliveryHook_ok [OF proc_wfD(2) [OF assms] refl, of first i "pw_co w (dl_coordinator (pw_dl w i))"]
      exec_step_wf [OF assms] by (auto simp: delivery_step_def Let_def process_upd_commute)
next
  case (MarkQueued i)
  then show ?thesis using attempt_step_wf [OF assms] by (simp add: delivery_step_def Let_def markQueued_def)
next
  case (BeginWriting i req)
  then show ?thesis using attempt_step_wf [OF assms] by (simp add: delivery_step_def Let_def beginWriting_def)
next
  case (MarkReplayable i)
  then show ?thesis
    using tickets_release [OF proc_wfD(2) [OF assms], of "pw_dl w i\<lparr>dl_state := (if dl_state (pw_dl w i) \<noteq> Delivered
        then Replayable else dl_state (pw_dl w i)), dl_ticket := None, dl_attempt := None\<rparr>" i] exec_step_wf [OF assms]
    by (auto simp: delivery_step_def Let_def markReplayable_def process_upd_commute)
next
  case (ReleaseDeferred i)
  then show ?thesis
    using deferred_ok(1) [OF proc_wfD(1) [OF assms], of "dl_coordinator (pw_dl w i)"] coord_step_wf [OF assms]
    by (auto simp: delivery_step_def Let_def)
next
  case (ClaimAbandon j)
  have "\<exists>w'. do { (_, c) \<leftarrow> abandon cl (pw_co w k); Some (w\<lparr>pw_co := (pw_co w)(k := c)\<rparr>) } = Some w' \<and> proc_wf w'" for k cl
    using abandon_ok [OF proc_wfD(1) [OF assms], of cl k] coord_step_wf [OF assms] by auto
  then show ?thesis using ClaimAbandon on_claim_ok [OF assms] by (simp add: delivery_step_def Let_def)
next
  case WorkerTake
  have e: "exec_wf (pw_ex w)" using proc_wfD(2) [OF assms] by (simp add: tickets_ok_def)
  have "held (w\<lparr>pw_ex := worker_take (pw_ex w)\<rparr>) = held w"
    by (cases "ex_queue (pw_ex w)") (auto simp: held_def worker_take_def)
  then show ?thesis using assms WorkerTake worker_take_ok [OF e] by (auto simp: delivery_step_def proc_wf_def tickets_ok_def)
next
  case (WorkerEnd j p)
  show ?thesis
  proof (cases "job_finished w j")
    case True
    then show ?thesis
      using worker_end_wf [OF assms True, of p "pw_attempts w @ (case ex_running (pw_ex w) ! j of (t, cl, k, a) \<Rightarrow>
          if p then [] else case a of None \<Rightarrow> [] | Some f \<Rightarrow> [f])"] WorkerEnd
      by (auto simp: delivery_step_def Let_def)
  next
    case False
    then show ?thesis using assms WorkerEnd by (simp add: delivery_step_def)
  qed
qed (use replay_poll_wf [OF assms] mark_delivered_wf [OF assms] try_retarget_wf [OF assms]
    on_claim_ok [of w enter_claim, OF assms enter_claim_ok [OF assms]]
    on_claim_ok [of w leave_claim, OF assms leave_claim_ok [OF assms]]
    on_job_ok [of w enter_claim, OF assms enter_claim_ok [OF assms]]
    on_job_ok [of w leave_claim, OF assms leave_claim_ok [OF assms]]
    in \<open>simp_all add: delivery_step_def Let_def\<close>)

lemma delivery_run_wf: "proc_wf w \<Longrightarrow> \<exists>w'. delivery_run evs w = Some w' \<and> proc_wf w'"
proof (induction evs arbitrary: w)
  case (Cons ev evs)
  then show ?case using delivery_step_wf [OF Cons.prems, of ev] by fastforce
qed simp

lemma new_executor_wf:
  "exec_wf (newRPCDeliveryHookExecutor workers cap)" "reserved_tickets (newRPCDeliveryHookExecutor workers cap) = {}"
  "ex_running (newRPCDeliveryHookExecutor workers cap) = []" "ex_queue (newRPCDeliveryHookExecutor workers cap) = []"
proof -
  show "reserved_tickets (newRPCDeliveryHookExecutor workers cap) = {}"
    by (auto simp: newRPCDeliveryHookExecutor_def reserved_tickets_def ticket_is_def Let_def)
  then show "exec_wf (newRPCDeliveryHookExecutor workers cap)"
    by (simp add: exec_wf_def) (simp add: newRPCDeliveryHookExecutor_def active_def Let_def)
qed (simp_all add: newRPCDeliveryHookExecutor_def Let_def)

lemma proc_wf_start: "proc_wf (process_start co_of req workers cap)"
  by (simp add: proc_wf_def process_start_def tickets_ok_def newRPCResultDelivery_def log_ok_def held_def claims_ok_def
      new_executor_wf coord_wf_new) (simp add: committed_def newCoordinator_def)

end
