(* ===== verification/Delivery_Properties.thy ===== *)
theory Delivery_Properties
  imports Delivery_Inv
begin

text \<open>
  The properties of delivery hooks: at most one call per logical result, no lost hook, no lost
  wake-up, exact ticket accounting, and the linearisation of retargeting against the writer.
\<close>

subsection \<open>Notification of every change\<close>

lemma signalLocked_closes:
  "signalLocked c = Some c' \<Longrightarrow> co_closed c \<subseteq> co_closed c' \<and> (\<forall>ch. co_changed c = Some ch \<longrightarrow> ch \<in> co_closed c')"
  by (auto simp: signalLocked_def make_chan_def Let_def split: option.splits if_splits)

lemma signalled_by:
  assumes "signalLocked d = Some c'" and "co_closed d = co_closed c" and "co_changed d = co_changed c"
  shows "signalled c c'"
  using signalLocked_closes [OF assms(1)] assms(2,3) by (auto simp: signalled_def)

lemma claimLocked_signalled: "claimLocked a c = Some (cl, c') \<Longrightarrow> signalled c c'"
  by (auto simp: claimLocked_def split: if_splits intro: signalled_by)

lemma section_signalled:
  "setHook fn c = Some c' \<Longrightarrow> signalled c c'"
  "releaseDeferredHook c = Some c' \<Longrightarrow> signalled c c'"
  "deferHookToReplay c = Some c' \<Longrightarrow> signalled c c'"
  "run_enter cl c = Some (b, c') \<Longrightarrow> signalled c c'"
  "run_leave cl c = Some c' \<Longrightarrow> signalled c c'"
  "abandon cl c = Some (b, c') \<Longrightarrow> signalled c c'"
  by (auto simp: setHook_def releaseDeferredHook_def deferHookToReplay_def run_enter_def run_leave_def abandon_def
      split: if_splits intro: signalled_by)

lemma make_chan_signalled: "co_changed c = None \<Longrightarrow> signalled c (make_chan c)"
  by (simp add: make_chan_def signalled_def)

lemma replay_signalled:
  "claimReplayDeliveredHook a c = Some (r, c') \<Longrightarrow> signalled c c'"
  by (auto simp: claimReplayDeliveredHook_def split: if_splits option.splits
      dest!: claimLocked_signalled intro: signalled_trans [OF _ make_chan_signalled])

lemma abandon_opt_signalled: "abandon_opt cl c = Some c' \<Longrightarrow> signalled c c'"
  by (auto simp: abandon_opt_def split: option.splits dest: section_signalled(6))

lemma markDelivered_signalled:
  assumes "markDelivered d co ex = Some (d', co', ex')"
  shows "signalled co co' \<and> dl_coordinator d' = dl_coordinator d"
proof -
  obtain cl co1 where c: "claimAsyncDeliveredHook co = Some (cl, co1)"
    using assms by (auto simp: markDelivered_def Let_def)
  then have "signalled co co1" by (simp add: claimAsyncDeliveredHook_def claimLocked_signalled)
  moreover have "co' = co1 \<or> abandon_opt cl co1 = Some co'"
    using assms c by (auto simp: markDelivered_def Let_def split: if_splits option.splits prod.splits bool.splits)
  moreover have "dl_coordinator d' = dl_coordinator d"
    using assms c by (auto simp: markDelivered_def Let_def split: if_splits option.splits prod.splits bool.splits)
  ultimately show ?thesis using abandon_opt_signalled signalled_trans by blast
qed

lemma step_signalled:
  assumes "delivery_step ev w = Some w'"
  shows "signalled (pw_co w k) (pw_co w' k)"
proof (cases ev)
  case (MarkDelivered i)
  then show ?thesis using assms by (auto simp: delivery_step_def Let_def dest!: markDelivered_signalled)
next
  case (ReplayPoll i a)
  then show ?thesis using assms
    by (auto simp: delivery_step_def Let_def dest!: replay_signalled split: replay_poll.splits)
next
  case (TryRetarget i req)
  then show ?thesis using assms
    by (auto simp: delivery_step_def Let_def tryRetarget_def dest!: section_signalled(3) split: if_splits)
qed (use assms in \<open>auto simp: delivery_step_def Let_def on_claim_def on_job_def enter_claim_def leave_claim_def
    dest!: section_signalled split: if_splits option.splits prod.splits\<close>)

lemma run_open_channel:
  assumes "delivery_run evs w = Some w'" and "co_changed (pw_co w k) = Some ch" and "ch \<notin> co_closed (pw_co w' k)"
  shows "co_fn (pw_co w' k) = co_fn (pw_co w k) \<and> co_state (pw_co w' k) = co_state (pw_co w k) \<and>
    co_deferred (pw_co w' k) = co_deferred (pw_co w k) \<and> co_changed (pw_co w' k) = Some ch"
proof -
  have "signalled (pw_co w k) (pw_co w' k)"
    using assms(1)
  proof (induction evs arbitrary: w)
    case (Cons ev evs)
    then show ?case using step_signalled [of ev w] signalled_trans by fastforce
  qed simp
  then show ?thesis using signalled_trans_open assms(2,3) by blast
qed

subsection \<open>The claims\<close>

text \<open>C11: whatever the order in which attempts, replays, workers and clients act, no operation panics or
  blocks for ever, and the delivery hook of a logical result is called at most once, with an
  installed function; it has been called exactly once when the coordinator reports it done.\<close>

theorem hook_at_most_once:
  "\<exists>w. delivery_run evs (process_start co_of req workers cap) = Some w \<and>
     (\<forall>k. length (filter (\<lambda>p. fst p = k) (pw_ran w)) \<le> 1 \<and>
        (co_state (pw_co w k) = HookDone \<longrightarrow> length (filter (\<lambda>p. fst p = k) (pw_ran w)) = 1)) \<and>
     (\<forall>p\<in>set (pw_ran w). snd p \<noteq> None)"
  using delivery_run_wf [OF proc_wf_start, of evs co_of req workers cap]
  by (auto simp: proc_wf_def log_ok_def committed_def)

theorem hook_at_most_once_witness:
  "\<exists>w. delivery_run [SetHook 0 (Some True), Prepare 0 True, BeginWriting 0 5, MarkDelivered 0, ReplayPoll 1 False,
       WorkerTake, WorkerEnter 0, WorkerEnter 0, WorkerLeave 0, MarkDelivered 1]
     (process_start (\<lambda>_. 0) (\<lambda>_. 5) 8 1024) = Some w \<and> length (filter (\<lambda>p. fst p = 0) (pw_ran w)) \<le> 1"
  using hook_at_most_once [of "[SetHook 0 (Some True), Prepare 0 True, BeginWriting 0 5, MarkDelivered 0, ReplayPoll 1 False,
       WorkerTake, WorkerEnter 0, WorkerEnter 0, WorkerLeave 0, MarkDelivered 1]" "\<lambda>_. 0" "\<lambda>_. 5" 8 1024] by blast

subsection \<open>The installed hook is carried along\<close>

definition carry :: "'f coordinator \<Rightarrow> 'f coordinator \<Rightarrow> bool" where
  "carry c c' \<longleftrightarrow> (\<forall>f. co_fn c = Some f \<longrightarrow>
       co_fn c' = Some f \<and> (co_state c' = HookInProgress \<longrightarrow> co_state c = HookInProgress) \<or>
       co_state c' = HookDone \<and> co_state c = HookInProgress) \<and>
     (co_state c = HookDone \<longrightarrow> co_state c' = HookDone)"

lemma carry_refl [simp]: "carry c c"
  by (simp add: carry_def)

lemma carry_trans: "carry c c' \<Longrightarrow> carry c' c'' \<Longrightarrow> carry c c''"
  unfolding carry_def by metis

lemma signalLocked_same: "signalLocked c = Some c' \<Longrightarrow> co_fn c' = co_fn c \<and> co_state c' = co_state c"
  by (auto simp: signalLocked_def make_chan_def Let_def split: option.splits if_splits)

lemma section_carry:
  "setHook fn c = Some c' \<Longrightarrow> carry c c'"
  "releaseDeferredHook c = Some c' \<Longrightarrow> carry c c'"
  "deferHookToReplay c = Some c' \<Longrightarrow> carry c c'"
  "run_leave cl c = Some c' \<Longrightarrow> carry c c'"
  "abandon cl c = Some (b, c') \<Longrightarrow> carry c c'"
  "claimLocked a c = Some (x, c') \<Longrightarrow> carry c c'"
  by (auto simp: setHook_def releaseDeferredHook_def deferHookToReplay_def run_leave_def abandon_def claimLocked_def
      carry_def dest!: signalLocked_same split: if_splits)

lemma replay_carry: "claimReplayDeliveredHook a c = Some (r, c') \<Longrightarrow> carry c c'"
  by (auto simp: claimReplayDeliveredHook_def make_chan_def split: if_splits option.splits dest!: section_carry(6))
    (auto simp: carry_def)

lemma markDelivered_carry:
  assumes "markDelivered d co ex = Some (d', co', ex')"
  shows "carry co co' \<and> dl_coordinator d' = dl_coordinator d"
proof -
  obtain cl co1 where c: "claimAsyncDeliveredHook co = Some (cl, co1)"
    using assms by (auto simp: markDelivered_def Let_def)
  then have "carry co co1" by (simp add: claimAsyncDeliveredHook_def section_carry(6))
  moreover have "co' = co1 \<or> abandon_opt cl co1 = Some co'"
    using assms c by (auto simp: markDelivered_def Let_def split: if_splits option.splits prod.splits bool.splits)
  moreover have "carry co1 co'" if "abandon_opt cl co1 = Some co'"
    using that by (auto simp: abandon_opt_def split: option.splits dest: section_carry(5))
  ultimately show ?thesis using carry_trans markDelivered_signalled [OF assms] by blast
qed

text \<open>The hook \<open>f\<close> is installed, and was called if it is in progress; or it is done and was called.\<close>

definition kept :: "nat \<Rightarrow> 'f \<Rightarrow> 'f process \<Rightarrow> bool" where
  "kept k f w \<longleftrightarrow>
     co_fn (pw_co w k) = Some f \<and> (co_state (pw_co w k) = HookInProgress \<longrightarrow> (k, Some f) \<in> set (pw_ran w)) \<or>
     co_state (pw_co w k) = HookDone \<and> (k, Some f) \<in> set (pw_ran w)"

lemma kept_carry:
  assumes "kept k f w" and "carry (pw_co w k) (pw_co w' k)" and "set (pw_ran w) \<subseteq> set (pw_ran w')"
  shows "kept k f w'"
  using assms unfolding kept_def carry_def by blast

lemma enter_kept:
  assumes "kept k f w" and "proc_wf w" and "(j, cl) \<in> held w" and "enter_claim j cl w = Some w'"
  shows "kept k f w'"
proof -
  obtain called c where r: "run_enter cl (pw_co w j) = Some (called, c)"
    and w': "w' = w\<lparr>pw_co := (pw_co w)(j := c), pw_ran := (if called then pw_ran w @ [(j, cl_fn cl)] else pw_ran w)\<rparr>"
    using assms(4) by (auto simp: enter_claim_def split: bind_splits)
  show ?thesis
  proof (cases called)
    case False
    then have "c = pw_co w j" using r by (auto simp: run_enter_def split: if_splits bind_splits)
    then show ?thesis using assms(1) False by (auto simp: w' kept_def)
  next
    case True
    then have c: "co_claim (pw_co w j) = Some (cl_id cl)" "co_state (pw_co w j) = HookClaimed" "co_fn c = co_fn (pw_co w j)"
      using r by (auto simp: run_enter_def dest!: signalLocked_same split: if_splits bind_splits)
    have "cl_fn cl = co_fn (pw_co w j)" using proc_wfD(4) [OF assms(2)] assms(3) c(1) by (simp add: claims_ok_def)
    then show ?thesis using assms(1) True c by (auto simp: w' kept_def)
  qed
qed

lemma step_kept:
  assumes "kept k f w" and "proc_wf w" and "delivery_step ev w = Some w'"
  shows "kept k f w'"
proof -
  have job: "(j, cl) \<in> held w" if "i < length (ex_running (pw_ex w))" "ex_running (pw_ex w) ! i = (t, Some cl, j, a)" for i t cl j a
    using that nth_mem [OF that(1)] by (force simp: held_def)
  have claim: "(fst (pw_claims w ! i), snd (pw_claims w ! i)) \<in> held w" if "i < length (pw_claims w)" for i
    using nth_mem [OF that] by (simp add: held_def)
  show ?thesis
  proof (cases ev)
    case (ClaimEnter i)
    then have "w' = w \<or> i < length (pw_claims w) \<and> enter_claim (fst (pw_claims w ! i)) (snd (pw_claims w ! i)) w = Some w'"
      using assms(3) by (auto simp: delivery_step_def on_claim_def split: if_splits)
    then show ?thesis using enter_kept [OF assms(1,2) claim] assms(1) by blast
  next
    case (WorkerEnter i)
    then show ?thesis using assms enter_kept [OF assms(1,2)] job [of i]
      by (auto simp: delivery_step_def on_job_def split: if_splits prod.splits option.splits)
  next
    case (MarkDelivered i)
    then show ?thesis using assms(3)
      by (intro kept_carry [OF assms(1)]) (auto simp: delivery_step_def Let_def dest!: markDelivered_carry)
  next
    case (ReplayPoll i a)
    then show ?thesis using assms(3)
      by (intro kept_carry [OF assms(1)])
        (auto simp: delivery_step_def Let_def dest!: replay_carry split: replay_poll.splits)
  next
    case (TryRetarget i req)
    then show ?thesis using assms(3)
      by (intro kept_carry [OF assms(1)])
        (auto simp: delivery_step_def Let_def tryRetarget_def dest!: section_carry(3) split: if_splits)
  qed (use assms(3) in \<open>intro kept_carry [OF assms(1)]; auto simp: delivery_step_def Let_def on_claim_def on_job_def leave_claim_def
      dest!: section_carry split: if_splits option.splits prod.splits\<close>)+
qed

lemma run_kept:
  "kept k f w \<Longrightarrow> proc_wf w \<Longrightarrow> delivery_run evs w = Some w' \<Longrightarrow> kept k f w'"
proof (induction evs arbitrary: w)
  case (Cons ev evs)
  obtain w1 where w1: "delivery_step ev w = Some w1" "delivery_run evs w1 = Some w'"
    using Cons.prems(3) by (auto split: bind_splits)
  have "proc_wf w1" using delivery_step_wf [OF Cons.prems(2), of ev] w1(1) by auto
  then show ?case using Cons.IH [OF step_kept [OF Cons.prems(1,2) w1(1)]] w1(2) by blast
qed simp

subsection \<open>No hook is lost\<close>

text \<open>C12: an installed hook is never lost. From the moment a hook is accepted by the coordinator of a
  result, at every later moment the coordinator either reports it done, and then exactly that function was
  called; or it still holds that function, pending for the next attempt or replay to claim, or owned by the
  claim of a live owner that carries the function: a replay or a queued or running job.\<close>

theorem hook_never_lost:
  assumes "delivery_run before (process_start co_of req workers cap) = Some w0"
    and "k = dl_coordinator (pw_dl w0 i)" and "co_fn (pw_co w0 k) = None" and "co_state (pw_co w0 k) \<noteq> HookDone"
    and "delivery_run (SetHook i (Some f) # after) w0 = Some w"
  shows "co_state (pw_co w k) = HookDone \<and> (k, Some f) \<in> set (pw_ran w) \<or>
    co_fn (pw_co w k) = Some f \<and>
    (co_state (pw_co w k) = HookPending \<and> co_claim (pw_co w k) = None \<or>
     (\<exists>cl. co_claim (pw_co w k) = Some (cl_id cl) \<and> cl_fn cl = Some f \<and>
       ((k, cl) \<in> set (pw_claims w) \<or>
        (\<exists>t a. (t, Some cl, k, a) \<in> set (ex_running (pw_ex w)) \<union> set (ex_queue (pw_ex w))))))"
proof -
  have p0: "proc_wf w0" using delivery_run_wf [OF proc_wf_start, of before co_of req workers cap] assms(1) by auto
  have p: "proc_wf w" using delivery_run_wf [OF p0, of "SetHook i (Some f) # after"] assms(5) by auto
  obtain w1 where w1: "delivery_step (SetHook i (Some f)) w0 = Some w1" "delivery_run after w1 = Some w"
    using assms(5) by (auto split: bind_splits)
  have "proc_wf w1" using delivery_step_wf [OF p0, of "SetHook i (Some f)"] w1(1) by auto
  moreover have "kept k f w1"
  proof -
    obtain c where c: "setHook (Some f) (pw_co w0 k) = Some c" "w1 = w0\<lparr>pw_co := (pw_co w0)(k := c)\<rparr>"
      using w1(1) by (auto simp: delivery_step_def assms(2) split: bind_splits)
    then have "co_fn c = Some f \<and> co_state c = HookPending"
      using assms(3,4) signalLocked_same [of "pw_co w0 k\<lparr>co_fn := Some f, co_state := HookPending\<rparr>" c] by (simp add: setHook_def)
    then show ?thesis by (simp add: kept_def c(2))
  qed
  ultimately have kp: "kept k f w" by (rule run_kept [OF _ _ w1(2), rotated])
  have c: "coord_wf (pw_co w k)" by (rule proc_wfD(1) [OF p])
  show ?thesis
  proof (cases "co_state (pw_co w k) = HookDone")
    case True
    then show ?thesis using kp c by (auto simp: kept_def coord_wf_def)
  next
    case False
    then have fn: "co_fn (pw_co w k) = Some f" using kp by (auto simp: kept_def)
    show ?thesis
    proof (cases "co_claim (pw_co w k)")
      case None
      then show ?thesis using c fn False by (cases "co_state (pw_co w k)") (auto simp: coord_wf_def)
    next
      case (Some j)
      obtain cl where cl: "(k, cl) \<in> held w" "cl_id cl = j"
        using proc_wfD(4) [OF p] Some unfolding claims_ok_def by blast
      then have "cl_fn cl = Some f" using proc_wfD(4) [OF p] Some fn unfolding claims_ok_def by simp
      then show ?thesis using Some fn cl unfolding held_def by auto
    qed
  qed
qed

definition demo_events :: "nat delivery_event list" where
  "demo_events = [SetHook 0 (Some 7), Prepare 0 True, BeginWriting 0 5, MarkDelivered 0, WorkerTake]"

definition demo_start :: "nat process" where
  "demo_start = process_start (\<lambda>_. 0) (\<lambda>_. 5) 8 1024"

definition demo_process :: "nat process" where
  "demo_process = (case delivery_run demo_events demo_start of Some w \<Rightarrow> w | None \<Rightarrow> demo_start)"

lemma demo_process: "delivery_run demo_events demo_start = Some demo_process"
  using delivery_run_wf [OF proc_wf_start, of demo_events "\<lambda>_. 0" "\<lambda>_. 5" 8 1024]
  by (auto simp: demo_process_def demo_start_def)

theorem hook_never_lost_witness:
  "co_state (pw_co demo_process 0) = HookDone \<and> (0, Some 7) \<in> set (pw_ran demo_process) \<or>
   co_fn (pw_co demo_process 0) = Some (7 :: nat)"
proof -
  have r: "delivery_run (SetHook 0 (Some 7) # tl demo_events) demo_start = Some demo_process"
    using demo_process by (simp add: demo_events_def)
  have "dl_coordinator (pw_dl demo_start 0) = 0" "co_fn (pw_co demo_start 0) = None" "co_state (pw_co demo_start 0) \<noteq> HookDone"
    by code_simp+
  with hook_never_lost [of "[]" "\<lambda>_. 0" "\<lambda>_. 5" 8 1024 demo_start 0 0 7 "tl demo_events" demo_process] r
  show ?thesis by (auto simp: demo_start_def)
qed

text \<open>C13: no lost wake-up: when a replay went to sleep on a notification channel, then as long as that
  channel is open another look would again put it to sleep on the same channel; in particular the
  channel is closed by the time the hook is done, abandoned or no longer deferred.\<close>

theorem no_lost_wakeup:
  assumes "delivery_run evs (process_start co_of req workers cap) = Some w"
    and "claimReplayDeliveredHook allow (pw_co w k) = Some (ReplayWait ch, c)"
    and "delivery_run evs' (w\<lparr>pw_co := (pw_co w)(k := c)\<rparr>) = Some w'" and "ch \<notin> co_closed (pw_co w' k)"
  shows "claimReplayDeliveredHook allow (pw_co w' k) = Some (ReplayWait ch, pw_co w' k)"
proof -
  have p: "proc_wf w" using delivery_run_wf [OF proc_wf_start, of evs co_of req workers cap] assms(1) by auto
  have c: "co_changed c = Some ch" "co_fn c \<noteq> None" "co_state c \<noteq> HookDone"
    "\<not> (co_state c = HookPending \<and> (co_deferred c \<longrightarrow> allow))"
    using claimReplayDeliveredHook_ok [OF proc_wfD(1) [OF p], of allow k] assms(2) by auto
  have "co_fn (pw_co w' k) = co_fn c" "co_state (pw_co w' k) = co_state c" "co_deferred (pw_co w' k) = co_deferred c"
    "co_changed (pw_co w' k) = Some ch"
    using run_open_channel [OF assms(3), of k ch] c(1) assms(4) by simp_all
  then show ?thesis using c by (auto simp: claimReplayDeliveredHook_def claimLocked_def)
qed

definition demo_waiting :: "nat coordinator" where
  "demo_waiting = (case claimReplayDeliveredHook False (pw_co demo_process 0) of
     Some (_, c) \<Rightarrow> c | None \<Rightarrow> pw_co demo_process 0)"

theorem no_lost_wakeup_witness:
  "\<exists>w'. delivery_run [MarkQueued 1, WorkerEnd 0 False] (demo_process\<lparr>pw_co := (pw_co demo_process)(0 := demo_waiting)\<rparr>)
       = Some w' \<and> claimReplayDeliveredHook False (pw_co w' 0) = Some (ReplayWait 2, pw_co w' 0)"
proof -
  let ?later = "delivery_run [MarkQueued 1, WorkerEnd 0 False] (demo_process\<lparr>pw_co := (pw_co demo_process)(0 := demo_waiting)\<rparr>)"
  have "map_option fst (claimReplayDeliveredHook False (pw_co demo_process 0)) = Some (ReplayWait 2)" by code_simp
  then have c: "claimReplayDeliveredHook False (pw_co demo_process 0) = Some (ReplayWait 2, demo_waiting)"
    by (auto simp: demo_waiting_def)
  have "map_option (\<lambda>w'. 2 \<in> co_closed (pw_co w' 0)) ?later = Some False" by code_simp
  then obtain w' where w': "?later = Some w'" "2 \<notin> co_closed (pw_co w' 0)" by blast
  show ?thesis using no_lost_wakeup [OF demo_process [unfolded demo_start_def] c w'] w'(1) by blast
qed

text \<open>Ticket accounting: the executor never exceeds its capacity, and its occupied slots are
  exactly the tickets held by attempts plus the queued and running jobs; when no attempt holds a
  ticket and no job is left, every slot is free.\<close>

theorem tickets_exact:
  assumes "delivery_run evs (process_start co_of req workers cap) = Some w"
  shows "ex_slots (pw_ex w) \<le> ex_capacity (pw_ex w) \<and>
    ex_slots (pw_ex w) = length (ex_running (pw_ex w)) + length (ex_queue (pw_ex w)) +
      card {t. \<exists>i. dl_ticket (pw_dl w i) = Some t} \<and>
    (\<forall>i j t. dl_ticket (pw_dl w i) = Some t \<and> dl_ticket (pw_dl w j) = Some t \<longrightarrow> i = j)"
proof -
  have p: "proc_wf w" using delivery_run_wf [OF proc_wf_start, of evs co_of req workers cap] assms(1) by auto
  then have "tickets_ok (pw_dl w) (pw_ex w)" by (rule proc_wfD(2))
  then have "exec_wf (pw_ex w)" "reserved_tickets (pw_ex w) = {t. \<exists>i. dl_ticket (pw_dl w i) = Some t}"
    "\<forall>i j t. dl_ticket (pw_dl w i) = Some t \<and> dl_ticket (pw_dl w j) = Some t \<longrightarrow> i = j"
    unfolding tickets_ok_def by blast+
  then show ?thesis by (auto simp: exec_wf_def active_def)
qed

theorem tickets_exact_witness:
  "ex_slots (pw_ex demo_process) \<le> ex_capacity (pw_ex demo_process) \<and> ex_slots (pw_ex demo_process) = 1"
proof -
  have "ex_slots (pw_ex demo_process) = 1" by code_simp
  then show ?thesis using tickets_exact [OF demo_process [unfolded demo_start_def]] by simp
qed

subsection \<open>Retargeting\<close>

definition begins :: "nat \<Rightarrow> 'f delivery_event \<Rightarrow> bool" where
  "begins i ev \<longleftrightarrow> (\<exists>req. ev = BeginWriting i req)"

lemma step_frozen:
  assumes "delivery_step ev w = Some w'" and "\<not> begins i ev"
    and "dl_state (pw_dl w i) \<in> {Writing, Replayable, Delivered}"
  shows "dl_written (pw_dl w' i) = dl_written (pw_dl w i) \<and> dl_target (pw_dl w' i) = dl_target (pw_dl w i) \<and>
    dl_state (pw_dl w' i) \<in> {Writing, Replayable, Delivered}"
proof (cases ev)
  case (MarkDelivered j)
  then show ?thesis using assms
    by (auto simp: delivery_step_def Let_def markDelivered_def split: if_splits option.splits prod.splits bool.splits)
next
  case (Prepare j b)
  then show ?thesis using assms
    by (auto simp: delivery_step_def Let_def prepareDeliveryHook_def split: if_splits option.splits prod.splits)
qed (use assms in \<open>auto simp: delivery_step_def Let_def setAttemptDeliveryHook_def markQueued_def beginWriting_def begins_def
    tryRetarget_def markReplayable_def on_claim_def on_job_def enter_claim_def leave_claim_def
    split: if_splits option.splits prod.splits replay_poll.splits\<close>)

text \<open>Retargeting is linearised against the writer: once an attempt has begun writing, no later
  operation changes the request id of its frame until it begins writing again, and every attempt to
  retarget it is refused without a change.\<close>

theorem target_frozen_once_writing:
  assumes "delivery_run evs (w\<lparr>pw_dl := (pw_dl w)(i := snd (beginWriting req (pw_dl w i)))\<rparr>) = Some w'"
    and "\<forall>ev\<in>set evs. \<not> begins i ev"
  shows "dl_written (pw_dl w' i) = fst (beginWriting req (pw_dl w i)) \<and>
    tryRetarget r (pw_dl w' i) co ex = Some (False, pw_dl w' i, co, ex)"
proof -
  have "dl_written (pw_dl w' i) = dl_written (pw_dl v i) \<and> dl_state (pw_dl w' i) \<in> {Writing, Replayable, Delivered}"
    if "delivery_run evs v = Some w'" "dl_state (pw_dl v i) \<in> {Writing, Replayable, Delivered}" for v
    using that assms(2)
  proof (induction evs arbitrary: v)
    case (Cons ev evs)
    then obtain v1 where v1: "delivery_step ev v = Some v1" "delivery_run evs v1 = Some w'" by auto
    have n: "\<not> begins i ev" using Cons.prems(3) by simp
    show ?case using step_frozen [OF v1(1) n Cons.prems(2)] Cons.IH [OF v1(2)] Cons.prems(3) by simp
  qed auto
  from this [OF assms(1)] show ?thesis by (auto simp: beginWriting_def Let_def tryRetarget_def)
qed

theorem target_frozen_once_writing_witness:
  "\<exists>w'. delivery_run [TryRetarget 1 99, MarkDelivered 1]
      (demo_process\<lparr>pw_dl := (pw_dl demo_process)(1 := snd (beginWriting 5 (pw_dl demo_process 1)))\<rparr>) = Some w' \<and>
    dl_written (pw_dl w' 1) = 5"
proof -
  let ?r = "delivery_run [TryRetarget 1 99, MarkDelivered 1]
      (demo_process\<lparr>pw_dl := (pw_dl demo_process)(1 := snd (beginWriting 5 (pw_dl demo_process 1)))\<rparr>)"
  have "map_option (\<lambda>_. True) ?r = Some True" by code_simp
  then obtain w' where w': "?r = Some w'" by blast
  have "fst (beginWriting 5 (pw_dl demo_process 1)) = 5" by code_simp
  then show ?thesis using target_frozen_once_writing [OF w', of 0 undefined undefined] w' by (simp add: begins_def)
qed

end
