(* ===== verification/Wire.thy ===== *)
theory Wire
  imports Prelude
begin

text \<open>
  The byte-level decoders of encrypted.go and inbound_preflight.go that read client input without
  copying it. A result is \<open>Ok\<close>, \<open>Fail\<close> with the error returned, or \<open>Panic\<close>, the run-time panic of a
  slice or index expression out of range; that no input reaches \<open>Panic\<close> is proved. Constructor ids come from
  the protocol library and are arguments.
\<close>

datatype wire_error = UnexpectedEOF | UnexpectedConstructor nat | NegativeCount | CountExceeds nat
  | TrailingBytes nat | InvalidLengthMarker | LengthExceeds nat | InvalidMessageCount int
  | InvalidMessageLength int

datatype 'a decoded = Ok 'a | Fail wire_error | Panic

fun and_then :: "'a decoded \<Rightarrow> ('a \<Rightarrow> 'b decoded) \<Rightarrow> 'b decoded" where
  "and_then (Ok x) f = f x"
| "and_then (Fail e) f = Fail e"
| "and_then Panic f = Panic"

text \<open>The slice \<open>bs[a:b]\<close>.\<close>

definition slice_of :: "byte list \<Rightarrow> nat \<Rightarrow> nat \<Rightarrow> byte list decoded" where
  "slice_of bs a b = (if a \<le> b \<and> b \<le> length bs then Ok (take (b - a) (drop a bs)) else Panic)"

lemma slice_Ok: "a \<le> b \<Longrightarrow> b \<le> length bs \<Longrightarrow> slice_of bs a b = Ok (take (b - a) (drop a bs))"
  by (simp add: slice_of_def)

text \<open>The index expression \<open>bs[i]\<close>.\<close>

definition byte_at :: "byte list \<Rightarrow> nat \<Rightarrow> nat decoded" where
  "byte_at bs i = (if i < length bs then Ok (unat (bs ! i)) else Panic)"

lemma byte_at_Ok [simp]: "i < length bs \<Longrightarrow> byte_at bs i = Ok (unat (bs ! i))"
  by (simp add: byte_at_def)

text \<open>\<open>binary.LittleEndian\<close>: reading and writing \<open>k\<close> bytes, and Go's signed conversions.\<close>

fun le :: "byte list \<Rightarrow> nat" where
  "le [] = 0"
| "le (b # bs) = unat b + 256 * le bs"

fun put_le :: "nat \<Rightarrow> nat \<Rightarrow> byte list" where
  "put_le 0 v = []"
| "put_le (Suc k) v = word_of_nat v # put_le k (v div 256)"

definition signed_of :: "nat \<Rightarrow> nat \<Rightarrow> int" where
  "signed_of w v = (if v < 2 ^ (w - 1) then int v else int v - 2 ^ w)"

definition unsigned_of :: "nat \<Rightarrow> int \<Rightarrow> nat" where
  "unsigned_of w x = nat (x mod 2 ^ w)"

text \<open>Evaluation compares in binary.\<close>

lemma signed_of_code [code]: "signed_of w v = (if int v < 2 ^ (w - 1) then int v else int v - 2 ^ w)"
  using of_nat_less_iff [of v "2 ^ (w - 1)", where 'a = int] by (simp add: signed_of_def del: of_nat_less_iff)

lemma length_put_le [simp]: "length (put_le k v) = k"
  by (induction k arbitrary: v) auto

lemma unat_byte: "unat (word_of_nat v :: byte) = v mod 256"
  by (simp add: unat_of_nat)

lemma byte_lt: "unat (b :: byte) < 256"
  using unsigned_less [of b, where 'a = nat] by simp

lemma le_put_le: "v < 256 ^ k \<Longrightarrow> le (put_le k v) = v"
proof (induction k arbitrary: v)
  case (Suc k)
  then have "v div 256 < 256 ^ k" by (simp add: less_mult_imp_div_less mult.commute)
  then show ?case using Suc.IH by (simp add: unat_byte)
qed simp

lemma le_bound: "le bs < 256 ^ length bs"
proof (induction bs)
  case (Cons b bs)
  have "unat b < 256" by (rule byte_lt)
  then show ?case using Cons by simp
qed simp

lemma put_le_le: "put_le (length bs) (le bs) = bs"
proof (induction bs)
  case (Cons b bs)
  have b: "unat b < 256" by (rule byte_lt)
  have "word_of_nat (unat b + 256 * le bs) = b"
    using b by (simp only: word_unat_eq_iff unat_byte) simp
  moreover have "(unat b + 256 * le bs) div 256 = le bs" using b by simp
  ultimately show ?case using Cons by simp
qed simp

lemma signed_unsigned:
  assumes "0 < w" and "- (2 ^ (w - 1)) \<le> x" and "x < 2 ^ (w - 1)"
  shows "signed_of w (unsigned_of w x) = x"
proof -
  have p: "(2 :: int) ^ w = 2 * 2 ^ (w - 1)" using assms(1) by (cases w) auto
  show ?thesis
  proof (cases "0 \<le> x")
    case True
    then have "x mod 2 ^ w = x" using assms p by simp
    then show ?thesis using True assms by (simp add: signed_of_def unsigned_of_def nat_less_iff)
  next
    case False
    have "x mod 2 ^ w = (x + 2 ^ w) mod 2 ^ w" by simp
    also have "\<dots> = x + 2 ^ w" using False assms p by (intro mod_pos_pos_trivial) auto
    finally have m: "x mod 2 ^ w = x + 2 ^ w" .
    then show ?thesis using False assms p by (simp add: signed_of_def unsigned_of_def nat_less_iff)
  qed
qed

lemma unsigned_bound: "unsigned_of w x < 2 ^ w"
  unfolding unsigned_of_def by (simp add: nat_less_iff)

definition uint32_at :: "byte list \<Rightarrow> nat \<Rightarrow> nat decoded" where
  "uint32_at bs i = and_then (slice_of bs i (i + 4)) (\<lambda>s. Ok (le s))"

definition int32_at :: "byte list \<Rightarrow> nat \<Rightarrow> int decoded" where
  "int32_at bs i = and_then (uint32_at bs i) (\<lambda>v. Ok (signed_of 32 v))"

definition int64_at :: "byte list \<Rightarrow> nat \<Rightarrow> int decoded" where
  "int64_at bs i = and_then (slice_of bs i (i + 8)) (\<lambda>s. Ok (signed_of 64 (le s)))"

subsection \<open>tlBytesView\<close>

text \<open>A TL byte string: a short or a long length prefix, the payload, and padding to four bytes.
  \<open>maxPayload\<close> below 0 means no limit. The result is the payload and the bytes consumed.\<close>

definition tlBytesView :: "byte list \<Rightarrow> int \<Rightarrow> (byte list \<times> nat) decoded" where
  "tlBytesView raw maxPayload =
     (if length raw < 1 then Fail UnexpectedEOF
      else and_then (byte_at raw 0) (\<lambda>b0.
        let finish = (\<lambda>header size.
              if maxPayload \<ge> 0 \<and> int size > maxPayload then Fail (LengthExceeds size)
              else let padded = ((header + size + 3) div 4) * 4
                   in if length raw < padded then Fail UnexpectedEOF
                      else and_then (slice_of raw header (header + size)) (\<lambda>s. Ok (s, padded)))
        in if b0 = 254
           then if length raw < 4 then Fail UnexpectedEOF
                else and_then (byte_at raw 1) (\<lambda>b1. and_then (byte_at raw 2) (\<lambda>b2. and_then (byte_at raw 3) (\<lambda>b3.
                  finish 4 (b1 + 256 * b2 + 65536 * b3))))
           else if b0 = 255 then Fail InvalidLengthMarker
           else finish 1 b0))"

text \<open>The reference encoder of the TL specification.\<close>

definition tl_pad :: "nat \<Rightarrow> byte list" where
  "tl_pad n = replicate (((n + 3) div 4) * 4 - n) 0"

definition tl_header :: "nat \<Rightarrow> byte list" where
  "tl_header n = (if n < 254 then [word_of_nat n] else 254 # put_le 3 n)"

definition tl_bytes :: "byte list \<Rightarrow> byte list" where
  "tl_bytes p = tl_header (length p) @ p @ tl_pad (length (tl_header (length p)) + length p)"

lemma pad_ge: "(n :: nat) \<le> ((n + 3) div 4) * 4" by presburger

lemma tlBytesView_no_panic: "tlBytesView raw m \<noteq> Panic"
proof -
  have s: "slice_of raw h (h + n) \<noteq> Panic" if "\<not> length raw < ((h + n + 3) div 4) * 4" for h n
    using that pad_ge [of "h + n"] by (simp add: slice_of_def)
  show ?thesis unfolding tlBytesView_def Let_def
    using s [of 1 "unat (raw ! 0)"] s [of 4 "unat (raw ! 1) + 256 * unat (raw ! 2) + 65536 * unat (raw ! 3)"]
    by (auto simp: slice_of_def split: if_splits)
qed

lemma tlBytesView_bounds:
  assumes "tlBytesView raw m = Ok (p, k)"
  shows "k \<le> length raw \<and> length p \<le> k \<and> k mod 4 = 0 \<and> (0 \<le> m \<longrightarrow> int (length p) \<le> m)"
proof -
  have s: "k' \<le> length raw \<and> length q \<le> k' \<and> k' mod 4 = 0 \<and> length q = n"
    if "k' = ((h + n + 3) div 4) * 4" "\<not> length raw < k'" "slice_of raw h (h + n) = Ok q" for h n k' q
    using that pad_ge [of "h + n"] by (auto simp: slice_of_def split: if_splits)
  show ?thesis
    using assms unfolding tlBytesView_def Let_def
    by (auto split: if_splits simp: slice_Ok pad_ge dest!: s elim!: and_then.elims)
qed

text \<open>Decoding what the reference encoder wrote gives the payload back and stops exactly after the
  padding, whatever follows.\<close>

lemma tl_header_small: "n < 254 \<Longrightarrow> unat (word_of_nat n :: byte) = n"
  by (simp add: unat_byte)

lemma put_le_3: "put_le 3 v = [word_of_nat v, word_of_nat (v div 256), word_of_nat (v div 256 div 256)]"
  by (simp add: numeral_3_eq_3)

lemma high_byte: "v < 2 ^ 24 \<Longrightarrow> v div 256 div 256 < (256 :: nat)"
  by (simp add: less_mult_imp_div_less)

lemma three_bytes:
  assumes "v < 2 ^ 24"
  shows "v mod 256 + 256 * (v div 256 mod 256) + 65536 * (v div 256 div 256 mod 256) = (v :: nat)"
proof -
  define q where "q = v div 256"
  define r where "r = q div 256"
  have "v = 256 * q + v mod 256" "q = 256 * r + q mod 256" by (simp_all add: q_def r_def)
  moreover have "r < 256" using assms by (simp add: r_def q_def less_mult_imp_div_less)
  ultimately show ?thesis unfolding q_def [symmetric] r_def [symmetric] by simp
qed

lemma tl_roundtrip:
  assumes "length p < 2 ^ 24" and "m < 0 \<or> int (length p) \<le> m"
  shows "tlBytesView (tl_bytes p @ rest) m = Ok (p, length (tl_bytes p))"
proof (cases "length p < 254")
  case True
  let ?n = "Suc (length p)" let ?raw = "tl_bytes p @ rest"
  have raw: "?raw = word_of_nat (length p) # p @ tl_pad ?n @ rest" using True by (simp add: tl_bytes_def tl_header_def)
  have len: "length (tl_bytes p) = ((1 + length p + 3) div 4) * 4"
    using pad_ge [of ?n] True by (simp add: tl_bytes_def tl_header_def tl_pad_def)
  have "slice_of ?raw 1 (1 + length p) = Ok p" unfolding raw by (simp add: slice_of_def)
  moreover have "unat (?raw ! 0) = length p" unfolding raw using True by (simp add: unat_byte)
  moreover have "1 \<le> length ?raw" unfolding raw by simp
  moreover have "\<not> (0 \<le> m \<and> m < int (length p))" using assms(2) by linarith
  ultimately show ?thesis using True len by (auto simp: tlBytesView_def Let_def)
next
  case False
  let ?n = "Suc (Suc (Suc (Suc (length p))))" let ?raw = "tl_bytes p @ rest"
  have raw: "?raw = 254 # word_of_nat (length p) # word_of_nat (length p div 256) #
      word_of_nat (length p div 256 div 256) # p @ tl_pad ?n @ rest"
    using False by (simp add: tl_bytes_def tl_header_def put_le_3)
  have len: "length (tl_bytes p) = ((4 + length p + 3) div 4) * 4"
    using pad_ge [of ?n] False by (simp add: tl_bytes_def tl_header_def tl_pad_def)
  have "slice_of ?raw 4 (4 + length p) = Ok p" unfolding raw by (simp add: slice_of_def)
  moreover have b0: "byte_at ?raw 0 = Ok 254" unfolding raw by simp
  moreover obtain b1 b2 b3 where "byte_at ?raw 1 = Ok b1" "byte_at ?raw 2 = Ok b2" "byte_at ?raw 3 = Ok b3"
    "b1 + 256 * b2 + 65536 * b3 = length p"
    unfolding raw using three_bytes [OF assms(1)] high_byte [OF assms(1)] by (simp add: unat_byte numeral_2_eq_2 numeral_3_eq_3)
  moreover have "4 \<le> length ?raw" unfolding raw by simp
  moreover have "\<not> (0 \<le> m \<and> m < int (length p))" using assms(2) by linarith
  ultimately show ?thesis using len by (auto simp: tlBytesView_def Let_def simp del: byte_at_Ok)
qed

subsection \<open>Vectors of 64-bit ids\<close>

definition decodeInt64VectorView :: "nat \<Rightarrow> byte list \<Rightarrow> nat \<Rightarrow> nat \<Rightarrow> byte list decoded" where
  "decodeInt64VectorView typeVector bs expectedTypeID maxCount =
     (if length bs < 12 then Fail UnexpectedEOF
      else and_then (uint32_at bs 0) (\<lambda>got.
        if got \<noteq> expectedTypeID then Fail (UnexpectedConstructor got)
        else and_then (uint32_at bs 4) (\<lambda>vec.
          if vec \<noteq> typeVector then Fail (UnexpectedConstructor vec)
          else and_then (int32_at bs 8) (\<lambda>count.
            if count < 0 then Fail NegativeCount
            else if count > int maxCount then Fail (CountExceeds (nat count))
            else if count > int ((length bs - 12) div 8) then Fail UnexpectedEOF
            else let end = 12 + nat count * 8
                 in if end \<noteq> length bs then Fail (TrailingBytes (length bs - end))
                    else slice_of bs 12 end))))"

text \<open>\<open>materialize\<close>: the view carries its count, which is an eighth of its length.\<close>

fun materialize :: "nat \<Rightarrow> byte list \<Rightarrow> int list decoded" where
  "materialize 0 raw = Ok []"
| "materialize (Suc n) raw =
     and_then (int64_at raw 0) (\<lambda>x. and_then (slice_of raw 8 (length raw)) (\<lambda>rest.
       and_then (materialize n rest) (\<lambda>xs. Ok (x # xs))))"

definition put_int64 :: "int \<Rightarrow> byte list" where
  "put_int64 x = put_le 8 (unsigned_of 64 x)"

definition vector_bytes :: "nat \<Rightarrow> nat \<Rightarrow> int list \<Rightarrow> byte list" where
  "vector_bytes typeVector typeID xs =
     put_le 4 typeID @ put_le 4 typeVector @ put_le 4 (length xs) @ concat (map put_int64 xs)"

lemma length_put_int64 [simp]: "length (put_int64 x) = 8"
  by (simp add: put_int64_def)

lemma length_concat_int64 [simp]: "length (concat (map put_int64 xs)) = 8 * length xs"
  by (induction xs) auto

lemma int64_at_put:
  assumes "in_int64 x"
  shows "int64_at (put_int64 x @ rest) 0 = Ok x"
proof -
  have "le (put_int64 x) = unsigned_of 64 x"
    unfolding put_int64_def using unsigned_bound [of 64 x] by (intro le_put_le) simp
  then show ?thesis
    using assms signed_unsigned [of 64 x] by (simp add: int64_at_def slice_of_def in_int64_def)
qed

lemma materialize_roundtrip:
  "\<forall>x\<in>set xs. in_int64 x \<Longrightarrow> materialize (length xs) (concat (map put_int64 xs)) = Ok xs"
proof (induction xs)
  case (Cons x xs)
  then show ?case by (simp add: int64_at_put slice_of_def)
qed simp

lemma materialize_no_panic: "length raw = 8 * n \<Longrightarrow> \<exists>xs. materialize n raw = Ok xs \<and> length xs = n"
proof (induction n arbitrary: raw)
  case (Suc n)
  have "length (drop 8 raw) = 8 * n" using Suc.prems by simp
  then obtain xs where "materialize n (drop 8 raw) = Ok xs" "length xs = n" using Suc.IH by blast
  then show ?case using Suc.prems by (simp add: int64_at_def slice_of_def)
qed simp

lemma uint32_at_Ok: "i + 4 \<le> length bs \<Longrightarrow> uint32_at bs i = Ok (le (take 4 (drop i bs)))"
  by (simp add: uint32_at_def slice_of_def)

lemma int32_at_Ok: "i + 4 \<le> length bs \<Longrightarrow> int32_at bs i = Ok (signed_of 32 (le (take 4 (drop i bs))))"
  by (simp add: int32_at_def uint32_at_Ok)

lemma decodeInt64VectorView_safe:
  "(case decodeInt64VectorView tv bs t m of
      Ok raw \<Rightarrow> length raw \<le> 8 * m \<and> 8 dvd length raw \<and> length bs = 12 + length raw
    | Fail _ \<Rightarrow> True | Panic \<Rightarrow> False)"
proof -
  have tail: "8 dvd n - 12" if "12 + k * 8 = n" for k n :: nat using that by auto
  show ?thesis
    by (auto simp: decodeInt64VectorView_def uint32_at_Ok int32_at_Ok slice_of_def Let_def intro: tail)
qed

lemma vector_roundtrip:
  assumes "length xs \<le> m" and "m < 2 ^ 31" and "t < 2 ^ 32" and "tv < 2 ^ 32"
  shows "decodeInt64VectorView tv (vector_bytes tv t xs) t m = Ok (concat (map put_int64 xs))"
proof -
  let ?bs = "vector_bytes tv t xs"
  have l: "length ?bs = 12 + 8 * length xs" by (simp add: vector_bytes_def)
  have u: "le (put_le 4 v) = v" if "v < 2 ^ 32" for v using that by (intro le_put_le) simp
  have a: "uint32_at ?bs 0 = Ok t" "uint32_at ?bs 4 = Ok tv" "int32_at ?bs 8 = Ok (int (length xs))"
    using assms u by (auto simp: uint32_at_Ok int32_at_Ok l vector_bytes_def signed_of_def)
  have "slice_of ?bs 12 (12 + length xs * 8) = Ok (concat (map put_int64 xs))"
    by (simp add: slice_of_def l) (simp add: vector_bytes_def)
  then show ?thesis using a assms l by (simp add: decodeInt64VectorView_def Let_def)
qed

subsection \<open>Message containers\<close>

record message =
  mg_id :: int
  mg_seqNo :: int
  mg_body :: "byte list"

definition maxContainerMessages :: nat where "maxContainerMessages = 1024"
definition maxServiceMessageIDs :: nat where "maxServiceMessageIDs = 4096"
definition maxContainerBody :: int where "maxContainerBody = 1024 * 1024"

definition containerMessageCount :: "nat \<Rightarrow> byte list \<Rightarrow> int decoded" where
  "containerMessageCount typeContainer bs =
     (if length bs < 8 then Fail UnexpectedEOF
      else and_then (uint32_at bs 0) (\<lambda>t.
        if t \<noteq> typeContainer then Fail (UnexpectedConstructor t)
        else and_then (int32_at bs 4) (\<lambda>count. if count < 0 then Fail NegativeCount else Ok count)))"

text \<open>The loop over the entries from \<open>offset\<close>; the offset reached is returned.\<close>

fun container_entries :: "byte list \<Rightarrow> nat \<Rightarrow> nat \<Rightarrow> (message list \<times> nat) decoded" where
  "container_entries bs offset 0 = Ok ([], offset)"
| "container_entries bs offset (Suc n) =
     (if length bs < offset + 16 then Fail UnexpectedEOF
      else and_then (int64_at bs offset) (\<lambda>i.
        and_then (int32_at bs (offset + 8)) (\<lambda>seqNo.
        and_then (int32_at bs (offset + 12)) (\<lambda>bodyLen.
          let off = offset + 16
          in if bodyLen < 0 \<or> bodyLen > maxContainerBody then Fail (InvalidMessageLength bodyLen)
             else if bodyLen > int (length bs) - int off then Fail UnexpectedEOF
             else and_then (slice_of bs off (off + nat bodyLen)) (\<lambda>body.
               and_then (container_entries bs (off + nat bodyLen) n) (\<lambda>(ms, end).
                 Ok (\<lparr>mg_id = i, mg_seqNo = seqNo, mg_body = body\<rparr> # ms, end)))))))"

definition decodeMessageContainerViews :: "nat \<Rightarrow> byte list \<Rightarrow> int \<Rightarrow> message list decoded" where
  "decodeMessageContainerViews typeContainer bs count =
     (if length bs < 8 then Fail UnexpectedEOF
      else and_then (uint32_at bs 0) (\<lambda>got.
        if got \<noteq> typeContainer then Fail (UnexpectedConstructor got)
        else and_then (int32_at bs 4) (\<lambda>declared.
          if declared \<noteq> count \<or> count < 0 \<or> count > int maxContainerMessages then Fail (InvalidMessageCount declared)
          else and_then (container_entries bs 8 (nat count)) (\<lambda>(ms, end).
            if end \<noteq> length bs then Fail (TrailingBytes (length bs - end)) else Ok ms))))"

definition entry_bytes :: "message \<Rightarrow> byte list" where
  "entry_bytes m = put_int64 (mg_id m) @ put_le 4 (unsigned_of 32 (mg_seqNo m)) @
     put_le 4 (length (mg_body m)) @ mg_body m"

definition container_bytes :: "nat \<Rightarrow> message list \<Rightarrow> byte list" where
  "container_bytes typeContainer ms = put_le 4 typeContainer @ put_le 4 (length ms) @ concat (map entry_bytes ms)"

definition message_ok :: "message \<Rightarrow> bool" where
  "message_ok m \<longleftrightarrow> in_int64 (mg_id m) \<and> - (2 ^ 31) \<le> mg_seqNo m \<and> mg_seqNo m < 2 ^ 31 \<and>
     int (length (mg_body m)) \<le> maxContainerBody"

lemma entry_fields:
  assumes "message_ok m"
  shows "int64_at (pre @ entry_bytes m @ rest) (length pre) = Ok (mg_id m)"
    and "int32_at (pre @ entry_bytes m @ rest) (length pre + 8) = Ok (mg_seqNo m)"
    and "int32_at (pre @ entry_bytes m @ rest) (length pre + 12) = Ok (int (length (mg_body m)))"
    and "slice_of (pre @ entry_bytes m @ rest) (length pre + 16) (length pre + 16 + length (mg_body m)) = Ok (mg_body m)"
proof -
  have u: "le (put_le 4 v) = v" if "v < 2 ^ 32" for v using that by (intro le_put_le) simp
  have l: "length (mg_body m) < 2 ^ 31" using assms by (simp add: message_ok_def maxContainerBody_def)
  show "int64_at (pre @ entry_bytes m @ rest) (length pre) = Ok (mg_id m)"
    using int64_at_put [of "mg_id m" "put_le 4 (unsigned_of 32 (mg_seqNo m)) @ put_le 4 (length (mg_body m)) @ mg_body m @ rest"]
      assms by (simp add: int64_at_def slice_of_def entry_bytes_def message_ok_def)
  show "int32_at (pre @ entry_bytes m @ rest) (length pre + 8) = Ok (mg_seqNo m)"
    using assms signed_unsigned [of 32 "mg_seqNo m"] u [OF unsigned_bound [of 32 "mg_seqNo m"]]
    by (simp add: int32_at_Ok entry_bytes_def message_ok_def)
  show "int32_at (pre @ entry_bytes m @ rest) (length pre + 12) = Ok (int (length (mg_body m)))"
    using u [of "length (mg_body m)"] l by (simp add: int32_at_Ok entry_bytes_def signed_of_def)
  show "slice_of (pre @ entry_bytes m @ rest) (length pre + 16) (length pre + 16 + length (mg_body m)) = Ok (mg_body m)"
    by (simp add: slice_of_def entry_bytes_def)
qed

lemma length_entry: "length (entry_bytes m) = 16 + length (mg_body m)"
  by (simp add: entry_bytes_def)

lemma entries_roundtrip:
  "\<forall>m\<in>set ms. message_ok m \<Longrightarrow>
   container_entries (pre @ concat (map entry_bytes ms)) (length pre) (length ms) =
     Ok (ms, length (pre @ concat (map entry_bytes ms)))"
proof (induction ms arbitrary: pre)
  case (Cons m ms)
  let ?rest = "concat (map entry_bytes ms)"
  have ok: "message_ok m" using Cons.prems by simp
  note F = entry_fields [OF ok, of pre ?rest]
  have IH: "container_entries (pre @ entry_bytes m @ ?rest) (length pre + 16 + length (mg_body m)) (length ms) =
      Ok (ms, length (pre @ entry_bytes m @ ?rest))"
    using Cons.IH [of "pre @ entry_bytes m"] Cons.prems by (simp add: length_entry add.assoc)
  have "0 \<le> int (length (mg_body m))" "\<not> maxContainerBody < int (length (mg_body m))"
    using ok by (simp_all add: message_ok_def)
  then show ?case using F IH by (simp add: length_entry add.assoc)
qed simp

lemma container_roundtrip:
  assumes "\<forall>m\<in>set ms. message_ok m" and "length ms \<le> maxContainerMessages" and "t < 2 ^ 32"
  shows "decodeMessageContainerViews t (container_bytes t ms) (int (length ms)) = Ok ms"
    and "containerMessageCount t (container_bytes t ms) = Ok (int (length ms))"
proof -
  let ?bs = "container_bytes t ms"
  have u: "le (put_le 4 v) = v" if "v < 2 ^ 32" for v using that by (intro le_put_le) simp
  have n: "length ms < 2 ^ 31" using assms(2) by (simp add: maxContainerMessages_def)
  have a: "uint32_at ?bs 0 = Ok t" "int32_at ?bs 4 = Ok (int (length ms))" "8 \<le> length ?bs"
    using u assms(3) n by (auto simp: uint32_at_Ok int32_at_Ok container_bytes_def signed_of_def)
  have "container_entries ?bs 8 (length ms) = Ok (ms, length ?bs)"
    using entries_roundtrip [OF assms(1), of "put_le 4 t @ put_le 4 (length ms)"] by (simp add: container_bytes_def)
  then show "decodeMessageContainerViews t ?bs (int (length ms)) = Ok ms"
    "containerMessageCount t ?bs = Ok (int (length ms))"
    using a assms(2) by (simp_all add: decodeMessageContainerViews_def containerMessageCount_def)
qed

text \<open>Every entry decoded lies inside the input: no input makes the decoder read out of range, and the
  bodies together are never longer than the frame.\<close>

lemma container_entries_safe:
  "case container_entries bs off n of
     Ok (ms, end) \<Rightarrow> off \<le> length bs \<longrightarrow> length ms = n \<and> end \<le> length bs \<and>
       end = off + 16 * n + sum_list (map (\<lambda>m. length (mg_body m)) ms)
   | Fail _ \<Rightarrow> True | Panic \<Rightarrow> False"
proof (induction n arbitrary: off)
  case (Suc n)
  show ?case
  proof (cases "length bs < off + 16")
    case False
    define b where "b = signed_of 32 (le (take 4 (drop (off + 12) bs)))"
    have r: "int64_at bs off = Ok (signed_of 64 (le (take 8 (drop off bs))))"
      "int32_at bs (off + 8) = Ok (signed_of 32 (le (take 4 (drop (off + 8) bs))))" "int32_at bs (off + 12) = Ok b"
      using False by (simp_all add: int64_at_def slice_of_def int32_at_Ok b_def)
    show ?thesis
    proof (cases "b < 0 \<or> maxContainerBody < b \<or> int (length bs) - int (off + 16) < b")
      case True
      then show ?thesis using False r by (auto simp: Let_def)
    next
      case ok: False
      have s: "slice_of bs (off + 16) (off + 16 + nat b) = Ok (take (nat b) (drop (off + 16) bs))"
        "off + 16 + nat b \<le> length bs" using ok False by (auto simp: slice_of_def)
      show ?thesis using Suc.IH [of "off + 16 + nat b"] False r ok s
        by (auto simp: add.assoc split: decoded.splits)
    qed
  qed simp
qed simp

lemma container_safe:
  "case decodeMessageContainerViews t bs c of
     Ok ms \<Rightarrow> length ms \<le> maxContainerMessages \<and> int (length ms) = c \<and>
       length bs = 8 + 16 * length ms + sum_list (map (\<lambda>m. length (mg_body m)) ms)
   | Fail _ \<Rightarrow> True | Panic \<Rightarrow> False"
proof (cases "length bs < 8")
  case False
  then show ?thesis
    using container_entries_safe [where bs = bs and off = 8 and n = "nat c"]
    by (auto simp: decodeMessageContainerViews_def uint32_at_Ok int32_at_Ok split: decoded.splits prod.splits)
qed (simp add: decodeMessageContainerViews_def)

lemma signed_64_range: "length s = 8 \<Longrightarrow> in_int64 (signed_of 64 (le s))"
proof -
  assume "length s = 8"
  then have "le s < 2 ^ 64" using le_bound [of s] by simp
  then have "int (le s) < 2 ^ 64" by (metis of_nat_less_iff of_nat_numeral of_nat_power)
  then show ?thesis by (auto simp: in_int64_def signed_of_def)
qed

lemma int64_at_range: "int64_at bs i = Ok x \<Longrightarrow> in_int64 x"
  using signed_64_range by (auto simp: int64_at_def slice_of_def split: if_splits)

lemma and_then_Ok: "and_then x f = Ok y \<longleftrightarrow> (\<exists>v. x = Ok v \<and> f v = Ok y)"
  by (cases x) auto

lemma container_entries_ids:
  "container_entries bs off n = Ok (ms, k) \<Longrightarrow> \<forall>m\<in>set ms. in_int64 (mg_id m)"
proof (induction n arbitrary: off ms k)
  case (Suc n)
  then show ?case by (fastforce simp: and_then_Ok Let_def split: if_splits dest: int64_at_range)
qed simp

lemma container_ids:
  "decodeMessageContainerViews t bs c = Ok ms \<Longrightarrow> \<forall>m\<in>set ms. in_int64 (mg_id m)"
  using container_entries_ids by (fastforce simp: decodeMessageContainerViews_def and_then_Ok split: if_splits)

subsection \<open>Service payloads\<close>

definition gzipPackedBytesView :: "nat \<Rightarrow> byte list \<Rightarrow> byte list decoded" where
  "gzipPackedBytesView typeGZIP bs =
     (if length bs < 5 then Fail UnexpectedEOF
      else and_then (uint32_at bs 0) (\<lambda>t.
        if t \<noteq> typeGZIP then Fail (UnexpectedConstructor t)
        else and_then (slice_of bs 4 (length bs)) (\<lambda>rest.
          and_then (tlBytesView rest (- 1)) (\<lambda>(payload, consumed).
            if 4 + consumed \<noteq> length bs then Fail (TrailingBytes (length bs - (4 + consumed))) else Ok payload))))"

definition msgsStateInfoView :: "nat \<Rightarrow> byte list \<Rightarrow> (int \<times> byte list) decoded" where
  "msgsStateInfoView typeStateInfo bs =
     (if length bs < 12 then Fail UnexpectedEOF
      else and_then (uint32_at bs 0) (\<lambda>t.
        if t \<noteq> typeStateInfo then Fail (UnexpectedConstructor t)
        else and_then (slice_of bs 12 (length bs)) (\<lambda>rest.
          and_then (tlBytesView rest (int maxServiceMessageIDs)) (\<lambda>(info, consumed).
            if 12 + consumed \<noteq> length bs then Fail (TrailingBytes (length bs - (12 + consumed)))
            else and_then (int64_at bs 4) (\<lambda>req. Ok (req, info))))))"

definition validateFirstVectorCount :: "nat \<Rightarrow> byte list \<Rightarrow> nat \<Rightarrow> unit decoded" where
  "validateFirstVectorCount typeVector bs maxCount =
     (if length bs < 12 then Fail UnexpectedEOF
      else and_then (uint32_at bs 4) (\<lambda>v.
        if v \<noteq> typeVector then Fail (UnexpectedConstructor v)
        else and_then (int32_at bs 8) (\<lambda>count.
          if count < 0 then Fail NegativeCount
          else if count > int maxCount then Fail (CountExceeds (nat count)) else Ok ())))"

definition msgsAllInfoView :: "nat \<Rightarrow> byte list \<Rightarrow> (nat \<times> byte list) decoded" where
  "msgsAllInfoView typeVector bs =
     and_then (validateFirstVectorCount typeVector bs maxServiceMessageIDs) (\<lambda>_.
       and_then (int32_at bs 8) (\<lambda>count.
         if count > int ((length bs - 12) div 8) then Fail UnexpectedEOF
         else let offset = 12 + nat count * 8
              in and_then (slice_of bs offset (length bs)) (\<lambda>rest.
                   and_then (tlBytesView rest (int maxServiceMessageIDs)) (\<lambda>(info, consumed).
                     if offset + consumed \<noteq> length bs then Fail (TrailingBytes (length bs - (offset + consumed)))
                     else Ok (nat count, info)))))"

lemma and_then_Panic: "and_then x f = Panic \<longleftrightarrow> x = Panic \<or> (\<exists>v. x = Ok v \<and> f v = Panic)"
  by (cases x) auto

lemma views_no_panic:
  "gzipPackedBytesView t bs \<noteq> Panic" "msgsStateInfoView t bs \<noteq> Panic" "msgsAllInfoView t bs \<noteq> Panic"
  "containerMessageCount t bs \<noteq> Panic"
proof -
  show "gzipPackedBytesView t bs \<noteq> Panic"
    by (auto simp: gzipPackedBytesView_def and_then_Panic tlBytesView_no_panic uint32_at_Ok slice_of_def)
  show "msgsStateInfoView t bs \<noteq> Panic"
    by (auto simp: msgsStateInfoView_def and_then_Panic tlBytesView_no_panic uint32_at_Ok slice_of_def int64_at_def)
  have "12 + nat c * 8 \<le> n" if "\<not> n < 12" "\<not> int ((n - 12) div 8) < c" for c and n :: nat
    using that by linarith
  then show "msgsAllInfoView t bs \<noteq> Panic"
    by (auto simp: msgsAllInfoView_def validateFirstVectorCount_def and_then_Panic tlBytesView_no_panic uint32_at_Ok
        int32_at_Ok slice_of_def Let_def split: if_splits)
  show "containerMessageCount t bs \<noteq> Panic"
    by (auto simp: containerMessageCount_def uint32_at_Ok int32_at_Ok)
qed

text \<open>\<open>mergeStateInfo\<close>: a known server-side state overrides the client-side one, position by position.\<close>

definition mergeStateInfo :: "byte list \<Rightarrow> byte list \<Rightarrow> byte list" where
  "mergeStateInfo primary fallback =
     (if primary = [] then fallback
      else map (\<lambda>i. if i < length primary \<and> primary ! i \<noteq> 0 then primary ! i else fallback ! i) [0..<length fallback])"

lemma length_mergeStateInfo [simp]: "length (mergeStateInfo p f) = length f"
  by (simp add: mergeStateInfo_def)

end
