(* ===== verification/Client_Messages.thy ===== *)
theory Client_Messages
  imports Wire
begin

text \<open>
  The client-message table of a connection (encrypted.go, \<open>connState\<close>) and the overlay on which one
  inbound frame is validated before anything is committed (inbound_preflight.go,
  \<open>connStateOverlay\<close>). The Go map \<open>seen\<close> is an association list with distinct keys: its order stands
  for the unspecified iteration order of a map, and no invariant depends on it. Message ids and
  sequence numbers are only compared, so they are integers.
\<close>

definition maxTrackedClientMsgIDs :: nat where "maxTrackedClientMsgIDs = 400"

datatype bad_msg = BadMsgIDTooLow | BadMsgIDTooHigh | BadMsgIDInvalidBits | BadMsgSeqTooLow | BadMsgSeqTooHigh
  | BadMsgSeqNotEven | BadMsgSeqNotOdd | BadMsgContainer

record client_rec =
  cr_state :: byte
  cr_seqNo :: int
  cr_content :: bool
  cr_service :: bool

record conn_state =
  cs_createdFloor :: int
  cs_seen :: "(int \<times> client_rec) list"
  cs_order :: "int list"
  cs_minSeen :: int
  cs_maxSeen :: int
  cs_maxContentMsgID :: int
  cs_maxContentSeqNo :: int

definition newConnState :: conn_state where
  "newConnState = \<lparr>cs_createdFloor = 0, cs_seen = [], cs_order = [], cs_minSeen = max_int64, cs_maxSeen = 0,
     cs_maxContentMsgID = 0, cs_maxContentSeqNo = 0\<rparr>"

definition cs_reset :: "conn_state \<Rightarrow> conn_state" where
  "cs_reset cs = newConnState"

definition seenRecord :: "conn_state \<Rightarrow> int \<Rightarrow> client_rec option" where
  "seenRecord cs i = map_of (cs_seen cs) i"

text \<open>The scan of \<open>validateSeq\<close> over content records: the first conflict found decides the code.\<close>

fun scan_seq :: "(int \<times> client_rec) list \<Rightarrow> int \<Rightarrow> int \<Rightarrow> bad_msg option" where
  "scan_seq [] m q = None"
| "scan_seq ((i, r) # rs) m q =
     (if \<not> cr_content r then scan_seq rs m q
      else if i < m \<and> cr_seqNo r \<ge> q then Some BadMsgSeqTooLow
      else if i > m \<and> cr_seqNo r \<le> q then Some BadMsgSeqTooHigh
      else scan_seq rs m q)"

definition validateSeq :: "conn_state \<Rightarrow> int \<Rightarrow> int \<Rightarrow> bool \<Rightarrow> bad_msg option" where
  "validateSeq cs m q content =
     (if \<not> content then None
      else if m > cs_maxContentMsgID cs \<and> q > cs_maxContentSeqNo cs then None
      else scan_seq (cs_seen cs) m q)"

definition recomputeRange :: "conn_state \<Rightarrow> conn_state" where
  "recomputeRange cs =
     cs\<lparr>cs_minSeen := foldl (\<lambda>a p. if fst p < a then fst p else a) max_int64 (cs_seen cs),
        cs_maxSeen := foldl (\<lambda>a p. if fst p > a then fst p else a) 0 (cs_seen cs)\<rparr>"

definition raise_content :: "int \<Rightarrow> int \<Rightarrow> bool \<Rightarrow> conn_state \<Rightarrow> conn_state" where
  "raise_content m q content cs =
     (if content
      then cs\<lparr>cs_maxContentMsgID := max m (cs_maxContentMsgID cs), cs_maxContentSeqNo := max q (cs_maxContentSeqNo cs)\<rparr>
      else cs)"

definition evict_oldest :: "conn_state \<Rightarrow> conn_state" where
  "evict_oldest cs =
     (case cs_order cs of
        oldest # rest \<Rightarrow>
          if length (cs_order cs) > maxTrackedClientMsgIDs
          then let cs' = cs\<lparr>cs_order := rest, cs_seen := filter (\<lambda>p. fst p \<noteq> oldest) (cs_seen cs)\<rparr>
               in if oldest = cs_minSeen cs \<or> oldest = cs_maxSeen cs then recomputeRange cs' else cs'
          else cs
      | [] \<Rightarrow> cs)"

definition trackInbound :: "int \<Rightarrow> int \<Rightarrow> bool \<Rightarrow> bool \<Rightarrow> byte \<Rightarrow> conn_state \<Rightarrow> conn_state" where
  "trackInbound m q content service st cs =
     (let r = \<lparr>cr_state = st, cr_seqNo = q, cr_content = content, cr_service = service\<rparr>;
          cs1 = raise_content m q content (cs\<lparr>cs_seen := (m, r) # filter (\<lambda>p. fst p \<noteq> m) (cs_seen cs)\<rparr>);
          cs2 = cs1\<lparr>cs_order := cs_order cs1 @ [m],
                    cs_minSeen := (if m < cs_minSeen cs1 then m else cs_minSeen cs1),
                    cs_maxSeen := (if m > cs_maxSeen cs1 then m else cs_maxSeen cs1)\<rparr>
      in evict_oldest cs2)"

definition cs_stateInfo :: "conn_state \<Rightarrow> int list \<Rightarrow> byte list" where
  "cs_stateInfo cs ids =
     (if cs_seen cs = [] then map (\<lambda>_. msgStateUnknown) ids
      else map (\<lambda>i. if i < cs_minSeen cs then msgStateUnknown
                    else if i > cs_maxSeen cs then msgStateNotReceivedHigh
                    else case seenRecord cs i of None \<Rightarrow> msgStateNotReceived | Some r \<Rightarrow> cr_state r) ids)"

subsection \<open>The overlay\<close>

record staged =
  st_msgID :: int
  st_seqNo :: int
  st_content :: bool
  st_service :: bool

record overlay =
  ov_base :: conn_state
  ov_staged :: "staged list"
  ov_maxContentMsgID :: int
  ov_maxContentSeqNo :: int

definition newConnStateOverlay :: "conn_state \<Rightarrow> overlay" where
  "newConnStateOverlay cs = \<lparr>ov_base = cs, ov_staged = [], ov_maxContentMsgID = cs_maxContentMsgID cs,
     ov_maxContentSeqNo = cs_maxContentSeqNo cs\<rparr>"

definition staged_rec :: "staged \<Rightarrow> int \<times> client_rec" where
  "staged_rec s = (st_msgID s, \<lparr>cr_state = msgStateReceived, cr_seqNo = st_seqNo s, cr_content = st_content s,
     cr_service = st_service s\<rparr>)"

definition ov_seenRecord :: "overlay \<Rightarrow> int \<Rightarrow> client_rec option" where
  "ov_seenRecord ov i =
     (case map_of (rev (map staged_rec (ov_staged ov))) i of Some r \<Rightarrow> Some r | None \<Rightarrow> seenRecord (ov_base ov) i)"

definition ov_validateSeq :: "overlay \<Rightarrow> int \<Rightarrow> int \<Rightarrow> bool \<Rightarrow> bad_msg option" where
  "ov_validateSeq ov m q content =
     (if \<not> content then None
      else if m > ov_maxContentMsgID ov \<and> q > ov_maxContentSeqNo ov then None
      else case scan_seq (cs_seen (ov_base ov)) m q of
        Some e \<Rightarrow> Some e
      | None \<Rightarrow> scan_seq (map staged_rec (ov_staged ov)) m q)"

definition stage :: "int \<Rightarrow> int \<Rightarrow> bool \<Rightarrow> bool \<Rightarrow> overlay \<Rightarrow> overlay" where
  "stage m q content service ov =
     (let o1 = ov\<lparr>ov_staged := ov_staged ov @ [\<lparr>st_msgID = m, st_seqNo = q, st_content = content, st_service = service\<rparr>]\<rparr>
      in if content
         then o1\<lparr>ov_maxContentMsgID := max m (ov_maxContentMsgID ov), ov_maxContentSeqNo := max q (ov_maxContentSeqNo ov)\<rparr>
         else o1)"

definition commitState :: "staged list \<Rightarrow> conn_state \<Rightarrow> conn_state" where
  "commitState ss cs = foldl (\<lambda>c s. trackInbound (st_msgID s) (st_seqNo s) (st_content s) (st_service s) msgStateReceived c) cs ss"

subsection \<open>Invariants\<close>

text \<open>Two content records agree when the later id has the larger sequence number.\<close>

definition compatible :: "(int \<times> client_rec) \<Rightarrow> int \<Rightarrow> int \<Rightarrow> bool" where
  "compatible p m q \<longleftrightarrow> (cr_content (snd p) \<longrightarrow>
     (fst p < m \<longrightarrow> cr_seqNo (snd p) < q) \<and> (m < fst p \<longrightarrow> q < cr_seqNo (snd p)))"

definition chain :: "(int \<times> client_rec) set \<Rightarrow> bool" where
  "chain R \<longleftrightarrow> (\<forall>p\<in>R. \<forall>p'\<in>R. cr_content (snd p') \<longrightarrow> compatible p (fst p') (cr_seqNo (snd p')))"

definition below :: "int \<Rightarrow> int \<Rightarrow> (int \<times> client_rec) set \<Rightarrow> bool" where
  "below m q R \<longleftrightarrow> (\<forall>p\<in>R. cr_content (snd p) \<longrightarrow> fst p \<le> m \<and> cr_seqNo (snd p) \<le> q)"

definition range_ok :: "conn_state \<Rightarrow> bool" where
  "range_ok cs \<longleftrightarrow>
     (if cs_seen cs = [] then cs_minSeen cs = max_int64 \<and> cs_maxSeen cs = 0
      else cs_minSeen cs = Min (fst ` set (cs_seen cs)) \<and> cs_maxSeen cs = Max (fst ` set (cs_seen cs)))"

definition table_ok :: "nat \<Rightarrow> conn_state \<Rightarrow> bool" where
  "table_ok n cs \<longleftrightarrow> distinct (cs_order cs) \<and> set (cs_order cs) = fst ` set (cs_seen cs) \<and>
     distinct (map fst (cs_seen cs)) \<and> length (cs_order cs) \<le> n \<and>
     (\<forall>i\<in>set (cs_order cs). 0 < i \<and> i \<le> max_int64)"

definition cs_inv :: "conn_state \<Rightarrow> bool" where
  "cs_inv cs \<longleftrightarrow> table_ok maxTrackedClientMsgIDs cs \<and> range_ok cs \<and> chain (set (cs_seen cs)) \<and>
     below (cs_maxContentMsgID cs) (cs_maxContentSeqNo cs) (set (cs_seen cs))"

lemma cs_inv_new: "cs_inv newConnState"
  by (simp add: cs_inv_def newConnState_def table_ok_def range_ok_def chain_def below_def)

lemma scan_seq_None: "scan_seq rs m q = None \<longleftrightarrow> (\<forall>p\<in>set rs. compatible p m q)"
  by (induction rs m q rule: scan_seq.induct) (auto simp: compatible_def)

lemma below_compatible: "below M Q R \<Longrightarrow> M < m \<Longrightarrow> Q < q \<Longrightarrow> p \<in> R \<Longrightarrow> compatible p m q"
  by (fastforce simp: below_def compatible_def)

text \<open>The fast path answers as the full scan does.\<close>

lemma validateSeq_scan:
  assumes "cs_inv cs"
  shows "validateSeq cs m q content = (if content then scan_seq (cs_seen cs) m q else None)"
proof -
  have "scan_seq (cs_seen cs) m q = None" if "m > cs_maxContentMsgID cs" "q > cs_maxContentSeqNo cs"
    unfolding scan_seq_None using assms that below_compatible by (auto simp: cs_inv_def)
  then show ?thesis by (simp add: validateSeq_def)
qed

lemma chain_insert:
  "chain R \<Longrightarrow> (cr_content r \<longrightarrow> (\<forall>p\<in>R. compatible p m (cr_seqNo r))) \<Longrightarrow> chain (insert (m, r) R)"
  by (auto simp: chain_def compatible_def)

lemma chain_subset: "chain R \<Longrightarrow> R' \<subseteq> R \<Longrightarrow> chain R'"
  by (auto simp: chain_def)

lemma below_subset: "below M Q R \<Longrightarrow> R' \<subseteq> R \<Longrightarrow> below M Q R'"
  by (auto simp: below_def)

lemma foldl_min: "foldl (\<lambda>a p. if fst p < a then fst p else a) x rs = Min (insert x (fst ` set rs))"
  for x :: int and rs :: "(int \<times> 'a) list"
proof (induction rs arbitrary: x)
  case (Cons p rs)
  have "insert x (fst ` set (p # rs)) = {fst p, x} \<union> fst ` set rs" by auto
  then have "Min (insert x (fst ` set (p # rs))) = Min (insert (min (fst p) x) (fst ` set rs))"
    by (cases "set rs = {}") (auto simp: min.assoc)
  then show ?case using Cons by (auto simp: min_def)
qed simp

lemma foldl_max: "foldl (\<lambda>a p. if fst p > a then fst p else a) x rs = Max (insert x (fst ` set rs))"
  for x :: int and rs :: "(int \<times> 'a) list"
proof (induction rs arbitrary: x)
  case (Cons p rs)
  have "insert x (fst ` set (p # rs)) = {fst p, x} \<union> fst ` set rs" by auto
  then have "Max (insert x (fst ` set (p # rs))) = Max (insert (max (fst p) x) (fst ` set rs))"
    by (cases "set rs = {}") (auto simp: max.assoc)
  then show ?case using Cons by (auto simp: max_def)
qed simp

lemma recompute_ok:
  assumes "\<forall>p\<in>set (cs_seen cs). 0 < fst p \<and> fst p \<le> max_int64"
  shows "range_ok (recomputeRange cs)"
proof (cases "cs_seen cs = []")
  case False
  let ?S = "fst ` set (cs_seen cs)"
  have f: "finite ?S" "?S \<noteq> {}" using False by auto
  have "Min ?S \<le> max_int64" "0 \<le> Max ?S"
    using assms f Min_in [OF f] Max_in [OF f] by force+
  then have "Min (insert max_int64 ?S) = Min ?S" "Max (insert 0 ?S) = Max ?S"
    using f by (simp_all add: Min_insert Max_insert min_absorb2 max_absorb2 del: Min_le_iff Max_ge_iff)
  then show ?thesis using False by (simp add: range_ok_def recomputeRange_def foldl_min foldl_max)
qed (simp add: range_ok_def recomputeRange_def)

subsection \<open>Tracking a message\<close>

lemma Min_Max_remove:
  fixes S :: "int set"
  assumes "finite S" and "S \<noteq> {}" and "x \<noteq> Min S" and "x \<noteq> Max S"
  shows "Min (S - {x}) = Min S \<and> Max (S - {x}) = Max S \<and> S - {x} \<noteq> {}"
proof -
  have "Min S \<in> S - {x}" "Max S \<in> S - {x}" using assms Min_in [of S] Max_in [of S] by auto
  then show ?thesis
    using assms(1) by (intro conjI Min_eqI Max_eqI) (auto intro: Min_le Max_ge)
qed

lemma evict_ok:
  assumes t: "table_ok (Suc maxTrackedClientMsgIDs) cs" and r: "range_ok cs" and c: "chain (set (cs_seen cs))"
    and b: "below (cs_maxContentMsgID cs) (cs_maxContentSeqNo cs) (set (cs_seen cs))"
  shows "cs_inv (evict_oldest cs) \<and> set (cs_seen (evict_oldest cs)) \<subseteq> set (cs_seen cs)"
proof (cases "length (cs_order cs) > maxTrackedClientMsgIDs")
  case False
  then have "evict_oldest cs = cs" by (auto simp: evict_oldest_def split: list.splits)
  then show ?thesis using False assms by (auto simp: cs_inv_def table_ok_def)
next
  case True
  then obtain x xs where o: "cs_order cs = x # xs" by (cases "cs_order cs") auto
  let ?e = "cs\<lparr>cs_order := xs, cs_seen := filter (\<lambda>p. fst p \<noteq> x) (cs_seen cs)\<rparr>"
  let ?S = "fst ` set (cs_seen cs)"
  have S': "fst ` set (cs_seen ?e) = ?S - {x}" by auto
  have te: "table_ok maxTrackedClientMsgIDs ?e"
    using t o S' by (auto simp: table_ok_def distinct_map_filter)
  have ce: "chain (set (cs_seen ?e))" "below (cs_maxContentMsgID ?e) (cs_maxContentSeqNo ?e) (set (cs_seen ?e))"
    using chain_subset [OF c] below_subset [OF b] by auto
  have pos: "\<forall>p\<in>set (cs_seen ?e). 0 < fst p \<and> fst p \<le> max_int64" using t by (fastforce simp: table_ok_def)
  have e: "evict_oldest cs = (if x = cs_minSeen cs \<or> x = cs_maxSeen cs then recomputeRange ?e else ?e)"
    using True o by (simp add: evict_oldest_def Let_def)
  show ?thesis
  proof (cases "x = cs_minSeen cs \<or> x = cs_maxSeen cs")
    case True
    then show ?thesis
      using e recompute_ok [OF pos] te ce by (auto simp: cs_inv_def recomputeRange_def table_ok_def)
  next
    case F: False
    have ne: "cs_seen cs \<noteq> []" using t o by (auto simp: table_ok_def)
    then have mm: "cs_minSeen cs = Min ?S" "cs_maxSeen cs = Max ?S" using r by (simp_all add: range_ok_def)
    have R: "Min (?S - {x}) = Min ?S" "Max (?S - {x}) = Max ?S" "?S - {x} \<noteq> {}"
      using Min_Max_remove [of ?S x] F mm ne by auto
    moreover have "cs_seen ?e \<noteq> []" using S' R(3) by (metis image_empty set_empty)
    ultimately have "range_ok ?e" using mm S' by (simp add: range_ok_def)
    then show ?thesis using e F te ce by (auto simp: cs_inv_def)
  qed
qed

lemma range_ok_insert:
  assumes "range_ok cs" and "0 < m" and "m \<le> max_int64"
  shows "range_ok (cs\<lparr>cs_seen := (m, r) # cs_seen cs, cs_minSeen := (if m < cs_minSeen cs then m else cs_minSeen cs),
     cs_maxSeen := (if m > cs_maxSeen cs then m else cs_maxSeen cs)\<rparr>)"
proof (cases "cs_seen cs = []")
  case True
  then show ?thesis using assms by (auto simp: range_ok_def)
next
  case False
  let ?S = "fst ` set (cs_seen cs)"
  have "Min (insert m ?S) = min m (Min ?S)" "Max (insert m ?S) = max m (Max ?S)"
    using False by (simp_all add: Min_insert Max_insert)
  moreover have "min m k = (if m < k then m else k)" "max m k = (if m > k then m else k)" for k :: int by auto
  ultimately show ?thesis using False assms(1) by (simp add: range_ok_def del: Min_insert Max_insert)
qed

lemma trackInbound_ok:
  assumes inv: "cs_inv cs" and new: "m \<notin> fst ` set (cs_seen cs)" and bnd: "0 < m" "m \<le> max_int64"
    and comp: "content \<longrightarrow> (\<forall>p\<in>set (cs_seen cs). compatible p m q)"
  shows "cs_inv (trackInbound m q content service st cs) \<and>
    set (cs_seen (trackInbound m q content service st cs)) \<subseteq>
      insert (m, \<lparr>cr_state = st, cr_seqNo = q, cr_content = content, cr_service = service\<rparr>) (set (cs_seen cs))"
proof -
  let ?r = "\<lparr>cr_state = st, cr_seqNo = q, cr_content = content, cr_service = service\<rparr>"
  have f: "filter (\<lambda>p. fst p \<noteq> m) (cs_seen cs) = cs_seen cs" using new by (auto intro!: filter_True)
  define c2 where "c2 = (raise_content m q content (cs\<lparr>cs_seen := (m, ?r) # cs_seen cs\<rparr>))\<lparr>cs_order := cs_order cs @ [m],
      cs_minSeen := (if m < cs_minSeen cs then m else cs_minSeen cs),
      cs_maxSeen := (if m > cs_maxSeen cs then m else cs_maxSeen cs)\<rparr>"
  have eq: "trackInbound m q content service st cs = evict_oldest c2"
    by (simp add: trackInbound_def f c2_def raise_content_def Let_def)
  have seen: "set (cs_seen c2) = insert (m, ?r) (set (cs_seen cs))" by (simp add: c2_def raise_content_def)
  have "table_ok (Suc maxTrackedClientMsgIDs) c2"
    using inv new bnd by (auto simp: c2_def raise_content_def cs_inv_def table_ok_def)
  moreover have "range_ok c2"
    using range_ok_insert [of cs m ?r] inv bnd by (simp add: cs_inv_def range_ok_def c2_def raise_content_def)
  moreover have "chain (set (cs_seen c2))"
    unfolding seen using inv comp by (intro chain_insert) (auto simp: cs_inv_def)
  moreover have "below (cs_maxContentMsgID c2) (cs_maxContentSeqNo c2) (set (cs_seen c2))"
    using inv by (fastforce simp: c2_def raise_content_def cs_inv_def below_def)
  ultimately show ?thesis unfolding eq using evict_ok [of c2] seen by simp
qed

lemma trackInbound_floor [simp]: "cs_createdFloor (trackInbound m q c s st cs) = cs_createdFloor cs"
  by (simp add: trackInbound_def raise_content_def evict_oldest_def recomputeRange_def Let_def split: list.splits)

subsection \<open>The overlay\<close>

definition ov_recs :: "overlay \<Rightarrow> (int \<times> client_rec) set" where
  "ov_recs ov = set (cs_seen (ov_base ov)) \<union> set (map staged_rec (ov_staged ov))"

definition ov_inv :: "overlay \<Rightarrow> bool" where
  "ov_inv ov \<longleftrightarrow> cs_inv (ov_base ov) \<and> distinct (map st_msgID (ov_staged ov)) \<and>
     (\<forall>s\<in>set (ov_staged ov). st_msgID s \<notin> fst ` set (cs_seen (ov_base ov)) \<and> 0 < st_msgID s \<and> st_msgID s \<le> max_int64) \<and>
     chain (ov_recs ov) \<and> below (ov_maxContentMsgID ov) (ov_maxContentSeqNo ov) (ov_recs ov)"

lemma ov_inv_new: "cs_inv cs \<Longrightarrow> ov_inv (newConnStateOverlay cs)"
  by (auto simp: ov_inv_def newConnStateOverlay_def ov_recs_def cs_inv_def)

lemma fst_staged_rec [simp]: "fst (staged_rec s) = st_msgID s"
  by (simp add: staged_rec_def)

lemma ov_seen_None: "ov_seenRecord ov i = None \<longleftrightarrow> i \<notin> fst ` ov_recs ov"
proof -
  let ?m = "map_of (rev (map staged_rec (ov_staged ov))) i"
  have staged: "?m = None \<longleftrightarrow> i \<notin> st_msgID ` set (ov_staged ov)" by (simp add: map_of_eq_None_iff image_image)
  have base: "seenRecord (ov_base ov) i = None \<longleftrightarrow> i \<notin> fst ` set (cs_seen (ov_base ov))"
    by (simp add: seenRecord_def map_of_eq_None_iff)
  have ids: "fst ` ov_recs ov = fst ` set (cs_seen (ov_base ov)) \<union> st_msgID ` set (ov_staged ov)"
    by (simp add: ov_recs_def image_Un image_image)
  show ?thesis unfolding ids ov_seenRecord_def using staged base by (cases ?m) simp_all
qed

lemma ov_validateSeq_scan:
  assumes "ov_inv ov"
  shows "ov_validateSeq ov m q content = None \<longleftrightarrow> (content \<longrightarrow> (\<forall>p\<in>ov_recs ov. compatible p m q))"
proof -
  have "\<forall>p\<in>ov_recs ov. compatible p m q" if "m > ov_maxContentMsgID ov" "q > ov_maxContentSeqNo ov"
    using assms that below_compatible by (auto simp: ov_inv_def)
  moreover have "(\<forall>p\<in>ov_recs ov. compatible p m q) \<longleftrightarrow>
      scan_seq (cs_seen (ov_base ov)) m q = None \<and> scan_seq (map staged_rec (ov_staged ov)) m q = None"
    by (auto simp: ov_recs_def scan_seq_None)
  ultimately show ?thesis by (auto simp: ov_validateSeq_def split: option.splits)
qed

lemma stage_ok:
  assumes "ov_inv ov" and "ov_seenRecord ov m = None" and "0 < m" and "m \<le> max_int64"
    and "ov_validateSeq ov m q content = None"
  shows "ov_inv (stage m q content service ov) \<and> ov_base (stage m q content service ov) = ov_base ov \<and>
    ov_staged (stage m q content service ov) =
      ov_staged ov @ [\<lparr>st_msgID = m, st_seqNo = q, st_content = content, st_service = service\<rparr>]"
proof -
  let ?o = "stage m q content service ov"
  let ?r = "\<lparr>cr_state = msgStateReceived, cr_seqNo = q, cr_content = content, cr_service = service\<rparr>"
  have s: "ov_base ?o = ov_base ov" "ov_staged ?o = ov_staged ov @ [\<lparr>st_msgID = m, st_seqNo = q, st_content = content, st_service = service\<rparr>]"
    by (simp_all add: stage_def Let_def)
  have R: "ov_recs ?o = insert (m, ?r) (ov_recs ov)" by (auto simp: ov_recs_def s staged_rec_def)
  have new: "m \<notin> fst ` ov_recs ov" using assms(2) by (simp add: ov_seen_None)
  have "chain (ov_recs ?o)" unfolding R
    using assms(1) ov_validateSeq_scan [OF assms(1), of m q content] assms(5) by (intro chain_insert) (auto simp: ov_inv_def)
  moreover have "below (ov_maxContentMsgID ?o) (ov_maxContentSeqNo ?o) (ov_recs ?o)"
    unfolding R using assms(1) by (fastforce simp: stage_def Let_def ov_inv_def below_def)
  moreover have "m \<notin> st_msgID ` set (ov_staged ov)" "m \<notin> fst ` set (cs_seen (ov_base ov))"
    using new by (auto simp: ov_recs_def image_Un image_image)
  ultimately show ?thesis using assms(1,3,4) s by (auto simp: ov_inv_def)
qed

text \<open>Committing a validated overlay keeps the table's invariant, evictions included.\<close>

lemma commit_ok:
  assumes "cs_inv cs" and "distinct (map st_msgID ss)"
    and "\<forall>s\<in>set ss. st_msgID s \<notin> fst ` set (cs_seen cs) \<and> 0 < st_msgID s \<and> st_msgID s \<le> max_int64"
    and "chain (set (cs_seen cs) \<union> set (map staged_rec ss))"
  shows "cs_inv (commitState ss cs) \<and> set (cs_seen (commitState ss cs)) \<subseteq> set (cs_seen cs) \<union> set (map staged_rec ss) \<and>
    cs_createdFloor (commitState ss cs) = cs_createdFloor cs"
  using assms
proof (induction ss arbitrary: cs)
  case Nil
  then show ?case by (simp add: commitState_def)
next
  case (Cons s ss)
  let ?c = "trackInbound (st_msgID s) (st_seqNo s) (st_content s) (st_service s) msgStateReceived cs"
  have "\<forall>p\<in>set (cs_seen cs). compatible p (st_msgID s) (st_seqNo s)" if "st_content s"
    using Cons.prems(4) that by (auto simp: chain_def staged_rec_def)
  then have T: "cs_inv ?c" "set (cs_seen ?c) \<subseteq> insert (staged_rec s) (set (cs_seen cs))"
    using trackInbound_ok [OF Cons.prems(1), of "st_msgID s" "st_content s" "st_seqNo s" "st_service s" msgStateReceived] Cons.prems(3)
    by (auto simp: staged_rec_def)
  have ids: "\<forall>x\<in>set ss. st_msgID x \<notin> fst ` set (cs_seen ?c) \<and> 0 < st_msgID x \<and> st_msgID x \<le> max_int64"
  proof
    fix x assume x: "x \<in> set ss"
    then have "st_msgID x \<noteq> st_msgID s" using Cons.prems(2) by (metis distinct.simps(2) imageI list.simps(9) set_map)
    then show "st_msgID x \<notin> fst ` set (cs_seen ?c) \<and> 0 < st_msgID x \<and> st_msgID x \<le> max_int64"
      using T(2) Cons.prems(3) x by fastforce
  qed
  have "chain (set (cs_seen ?c) \<union> set (map staged_rec ss))"
    by (rule chain_subset [OF Cons.prems(4)]) (use T(2) in auto)
  then show ?case using Cons.IH [OF T(1) _ ids] Cons.prems(2) T(2) by (auto simp: commitState_def)
qed

end
