(* ===== verification/Preflight.thy ===== *)
theory Preflight
  imports Client_Messages Rpc_Limits
begin

text \<open>
  Structural validation of one inbound frame (inbound_preflight.go, \<open>walkInbound\<close> and
  \<open>preflightInbound\<close>): wrappers are opened, envelopes checked and every message classified against an
  overlay of the connection's table, before anything is committed. What the protocol library and the
  decompressor compute is the record \<open>lib\<close>: the constructor id at the front of a body, its class, the
  time and origin encoded in a message id, the inflated stream, and whether a service decoder accepts
  a body exactly. The result \<open>None\<close> is a run-time panic, which is proved unreachable.
\<close>

datatype client_tl = TContainer | TGzip | TMsgsAck | TMsgCopy | TPing | TPingDelay | TFutureSalts | TStateReq
  | TResendReq | TAllInfo | TStateInfo | TDestroySession | THTTPWait | TDropAnswer | TBadMsg | TBadSalt
  | TDetailedInfo | TNewDetailedInfo | TDestroyAuthKey | TApi

record lib =
  lib_peek :: "byte list \<Rightarrow> nat option"
  lib_class :: "nat \<Rightarrow> client_tl"
  lib_vector :: nat
  lib_time :: "int \<Rightarrow> int"
  lib_fromClient :: "int \<Rightarrow> bool"
  lib_inflate :: "byte list \<Rightarrow> byte list option"
  lib_service :: "client_tl \<Rightarrow> byte list \<Rightarrow> bool"

definition maxDispatchDepth :: nat where "maxDispatchDepth = 4"
definition maxDispatchExpandedBytes :: nat where "maxDispatchExpandedBytes = 32 * 2 ^ 20"
definition maxSingleGZIPExpandedBytes :: nat where "maxSingleGZIPExpandedBytes = 10 * 2 ^ 20"
definition containerDescriptorBudgetBytes :: int where "containerDescriptorBudgetBytes = 192"
definition second :: int where "second = 10 ^ 9"

subsection \<open>Envelopes\<close>

definition validClientMessageIDBits :: "lib \<Rightarrow> int \<Rightarrow> bool" where
  "validClientMessageIDBits L m \<longleftrightarrow> m > 0 \<and> m mod 2 ^ 32 \<noteq> 0 \<and> lib_fromClient L m"

definition message_time :: "lib \<Rightarrow> int \<Rightarrow> int \<Rightarrow> bad_msg option" where
  "message_time L now m =
     (if lib_time L m < now - 300 * second then Some BadMsgIDTooLow
      else if lib_time L m > now + 30 * second then Some BadMsgIDTooHigh else None)"

definition validateInboundMessageID :: "lib \<Rightarrow> int \<Rightarrow> int \<Rightarrow> bool \<Rightarrow> bad_msg option" where
  "validateInboundMessageID L now m insideContainer =
     (if \<not> validClientMessageIDBits L m then Some BadMsgIDInvalidBits
      else if insideContainer then None
      else message_time L now m)"

datatype content_policy = ContentRequired | ContentForbidden | ContentOptional

definition clientMessageContentPolicyFor :: "client_tl \<Rightarrow> content_policy" where
  "clientMessageContentPolicyFor t =
     (if t \<in> {TContainer, TMsgsAck, TMsgCopy} then ContentForbidden
      else if t \<in> {TPing, TPingDelay, TFutureSalts, TStateReq, TResendReq, TAllInfo, TStateInfo, TDestroySession,
          THTTPWait, TDropAnswer, TBadMsg, TBadSalt, TDetailedInfo, TNewDetailedInfo, TDestroyAuthKey}
      then ContentOptional
      else ContentRequired)"

text \<open>Go's \<open>%\<close> on a negative odd number is -1: only the comparison with 0 is used.\<close>

definition parity_code :: "client_tl \<Rightarrow> int \<Rightarrow> bad_msg option" where
  "parity_code t q =
     (case clientMessageContentPolicyFor t of
        ContentRequired \<Rightarrow> if even q then Some BadMsgSeqNotOdd else None
      | ContentForbidden \<Rightarrow> if odd q then Some BadMsgSeqNotEven else None
      | ContentOptional \<Rightarrow> None)"

definition validateClientEnvelope :: "lib \<Rightarrow> int \<Rightarrow> int \<Rightarrow> int \<Rightarrow> client_tl \<Rightarrow> bad_msg option" where
  "validateClientEnvelope L now m q t =
     (if \<not> validClientMessageIDBits L m then Some BadMsgIDInvalidBits
      else case message_time L now m of Some e \<Rightarrow> Some e | None \<Rightarrow> parity_code t q)"

definition validateClientContainerEnvelope :: "lib \<Rightarrow> int \<Rightarrow> int \<Rightarrow> client_tl \<Rightarrow> bad_msg option" where
  "validateClientContainerEnvelope L m q t =
     (if \<not> validClientMessageIDBits L m then Some BadMsgIDInvalidBits else parity_code t q)"

definition clientMessageIsContentRelated :: "client_tl \<Rightarrow> int \<Rightarrow> bool" where
  "clientMessageIsContentRelated t q =
     (case clientMessageContentPolicyFor t of
        ContentRequired \<Rightarrow> True | ContentOptional \<Rightarrow> odd q | ContentForbidden \<Rightarrow> False)"

definition inboundTypeIsService :: "client_tl \<Rightarrow> bool" where
  "inboundTypeIsService t \<longleftrightarrow> t \<in> {TPing, TPingDelay, TFutureSalts, TMsgsAck, TStateReq, TResendReq, TStateInfo,
     TAllInfo, TDestroySession, THTTPWait, TDropAnswer, TDestroyAuthKey}"

subsection \<open>Items and plans\<close>

datatype item_kind = ItemDuplicate | ItemServiceDuplicate | ItemPing | ItemPingDelay | ItemFutureSalts | ItemMsgsAck
  | ItemStateReq | ItemResendReq | ItemStateInfo | ItemAllInfo | ItemDestroySession | ItemHTTPWait | ItemDropAnswer
  | ItemDestroyAuthKey | ItemRPC | ItemCapacityError | ItemRPCAdmissionError | ItemRewrappedRPC | ItemReplayRPC

datatype payload = NoPayload | Decoded | Vector "byte list" | StateInfo int "byte list" | AllInfo nat "byte list"

record item =
  it_kind :: item_kind
  it_msgID :: int
  it_seqNo :: int
  it_typeID :: nat
  it_content :: bool
  it_body :: "byte list"
  it_payload :: payload
  it_fresh :: bool

record plan =
  pn_items :: "item list"
  pn_ackIDs :: "int list"
  pn_logicalMin :: int
  pn_releases :: "int list"

datatype preflight_error = DepthExceeds | PeekTypeID | BadMessage int int bad_msg | DecodeGzip | ExpansionExceeds nat
  | DecodeWire wire_error | DecodeService | FrameBudget | NoLogicalMessage | InfoLengthMismatch

definition includeLogicalID :: "int \<Rightarrow> plan \<Rightarrow> plan" where
  "includeLogicalID m p = (if pn_logicalMin p = 0 \<or> m < pn_logicalMin p then p\<lparr>pn_logicalMin := m\<rparr> else p)"

definition append_item :: "item \<Rightarrow> plan \<Rightarrow> plan" where
  "append_item i p = p\<lparr>pn_items := pn_items p @ [i],
     pn_ackIDs := (if it_content i then pn_ackIDs p @ [it_msgID i] else pn_ackIDs p)\<rparr>"

definition appendInboundDuplicate :: "int \<Rightarrow> int \<Rightarrow> nat \<Rightarrow> client_rec \<Rightarrow> plan \<Rightarrow> plan" where
  "appendInboundDuplicate m q tid r p =
     append_item \<lparr>it_kind = (if cr_service r then ItemServiceDuplicate else ItemDuplicate), it_msgID = m, it_seqNo = q,
       it_typeID = tid, it_content = cr_content r, it_body = [], it_payload = NoPayload, it_fresh = True\<rparr>
       (includeLogicalID m p)"

definition of_decoded :: "'a decoded \<Rightarrow> (preflight_error + 'a) option" where
  "of_decoded d = (case d of Ok x \<Rightarrow> Some (Inr x) | Fail e \<Rightarrow> Some (Inl (DecodeWire e)) | Panic \<Rightarrow> None)"

definition decodeInboundServiceExact :: "lib \<Rightarrow> client_tl \<Rightarrow> byte list \<Rightarrow> preflight_error option" where
  "decodeInboundServiceExact L t body = (if lib_service L t body then None else Some DecodeService)"

definition preflightInboundItem ::
  "lib \<Rightarrow> int \<Rightarrow> int \<Rightarrow> nat \<Rightarrow> bool \<Rightarrow> byte list \<Rightarrow> (preflight_error + item) option" where
  "preflightInboundItem L m q tid content body =
     (let t = lib_class L tid;
          item = (\<lambda>k pay. \<lparr>it_kind = k, it_msgID = m, it_seqNo = q, it_typeID = tid, it_content = content,
            it_body = body, it_payload = pay, it_fresh = True\<rparr>);
          service = (\<lambda>k. case decodeInboundServiceExact L t body of
            Some e \<Rightarrow> Some (Inl e) | None \<Rightarrow> Some (Inr (item k Decoded)));
          vector = (\<lambda>k. map_option (map_sum id (\<lambda>raw. item k (Vector raw)))
            (of_decoded (decodeInt64VectorView (lib_vector L) body tid maxServiceMessageIDs)))
      in case t of
        TPing \<Rightarrow> service ItemPing
      | TPingDelay \<Rightarrow> service ItemPingDelay
      | TFutureSalts \<Rightarrow> service ItemFutureSalts
      | TMsgsAck \<Rightarrow> vector ItemMsgsAck
      | TStateReq \<Rightarrow> vector ItemStateReq
      | TResendReq \<Rightarrow> vector ItemResendReq
      | TStateInfo \<Rightarrow> map_option (map_sum id (\<lambda>(req, info). item ItemStateInfo (StateInfo req info)))
          (of_decoded (msgsStateInfoView tid body))
      | TAllInfo \<Rightarrow> map_option (\<lambda>r. case r of Inl e \<Rightarrow> Inl e
            | Inr (count, info) \<Rightarrow> if length info \<noteq> count then Inl InfoLengthMismatch
                                  else Inr (item ItemAllInfo (AllInfo count info)))
          (of_decoded (msgsAllInfoView (lib_vector L) body))
      | TDestroySession \<Rightarrow> service ItemDestroySession
      | THTTPWait \<Rightarrow> service ItemHTTPWait
      | TDropAnswer \<Rightarrow> service ItemDropAnswer
      | TDestroyAuthKey \<Rightarrow> service ItemDestroyAuthKey
      | _ \<Rightarrow> Some (Inr (item ItemRPC NoPayload)))"

subsection \<open>The walk\<close>

record walk =
  wk_plan :: plan
  wk_overlay :: overlay
  wk_expanded :: nat
  wk_frames :: frame_budget

text \<open>\<open>decodeGZIPWithGlobalBudget\<close>: the full allowance is reserved before inflating and the unused part
  returned after; the result carries the bytes still reserved.\<close>

definition decodeGZIP ::
  "lib \<Rightarrow> nat \<Rightarrow> byte list \<Rightarrow> frame_budget \<Rightarrow> ((preflight_error + byte list) \<times> frame_budget) option" where
  "decodeGZIP L tid bs fb = do {
     view \<leftarrow> of_decoded (gzipPackedBytesView tid bs);
     case view of
       Inl e \<Rightarrow> Some (Inl e, fb)
     | Inr compressed \<Rightarrow>
         (case frame_reserve fb (int maxSingleGZIPExpandedBytes) 0 of
            (Inl _, fb1) \<Rightarrow> Some (Inl FrameBudget, fb1)
          | (Inr reserved, fb1) \<Rightarrow>
              (case lib_inflate L compressed of
                 None \<Rightarrow> do { fb2 \<leftarrow> frame_release reserved fb1; Some (Inl DecodeGzip, fb2) }
               | Some stream \<Rightarrow>
                   let bytes = take (maxSingleGZIPExpandedBytes + 1) stream
                   in if length bytes > maxSingleGZIPExpandedBytes
                      then do { fb2 \<leftarrow> frame_release reserved fb1; Some (Inl DecodeGzip, fb2) }
                      else do { fb2 \<leftarrow> frame_release (reserved - int (length bytes)) fb1;
                                Some (Inr bytes, fb2) })) }"

definition reserve_container :: "nat \<Rightarrow> frame_budget \<Rightarrow> (frame_error + int) \<times> frame_budget" where
  "reserve_container count fb =
     (if count = 0 then (Inr 0, fb) else frame_reserve fb (int count * containerDescriptorBudgetBytes) 0)"

text \<open>A plain message: neither a wrapper nor a container.\<close>

definition walk_plain ::
  "lib \<Rightarrow> int \<Rightarrow> int \<Rightarrow> int \<Rightarrow> nat \<Rightarrow> byte list \<Rightarrow> bool \<Rightarrow> bool \<Rightarrow> walk \<Rightarrow> (preflight_error option \<times> walk) option" where
  "walk_plain L now m q tid body inside mustDup w =
     (let t = lib_class L tid;
          bad = (\<lambda>c. Some (Some (BadMessage m q c), w));
          content = clientMessageIsContentRelated t q
      in case (if inside then map_option (\<lambda>_. BadMsgContainer) (validateClientContainerEnvelope L m q t)
               else validateClientEnvelope L now m q t) of
           Some c \<Rightarrow> bad c
         | None \<Rightarrow>
             (case ov_seenRecord (wk_overlay w) m of
                Some r \<Rightarrow>
                  if cr_seqNo r \<noteq> q \<or> cr_content r \<noteq> content then bad BadMsgContainer
                  else Some (None, w\<lparr>wk_plan := appendInboundDuplicate m q tid r (wk_plan w)\<rparr>)
              | None \<Rightarrow>
                  if mustDup then bad BadMsgContainer
                  else case ov_validateSeq (wk_overlay w) m q content of
                    Some c \<Rightarrow> bad c
                  | None \<Rightarrow>
                      let w1 = w\<lparr>wk_overlay := stage m q content (inboundTypeIsService t) (wk_overlay w),
                                 wk_plan := includeLogicalID m (wk_plan w)\<rparr>
                      in do {
                        r \<leftarrow> preflightInboundItem L m q tid content body;
                        case r of
                          Inl e \<Rightarrow> Some (Some e, w1)
                        | Inr i \<Rightarrow> Some (None, w1\<lparr>wk_plan := append_item
                            (i\<lparr>it_fresh := (validateInboundMessageID L now m False = None)\<rparr>) (wk_plan w1)\<rparr>) }))"

function walkInbound ::
  "lib \<Rightarrow> int \<Rightarrow> nat \<Rightarrow> bool \<Rightarrow> bool \<Rightarrow> int \<Rightarrow> int \<Rightarrow> byte list \<Rightarrow> walk \<Rightarrow> (preflight_error option \<times> walk) option"
and walk_messages ::
  "lib \<Rightarrow> int \<Rightarrow> nat \<Rightarrow> bool \<Rightarrow> int \<Rightarrow> int \<Rightarrow> message list \<Rightarrow> walk \<Rightarrow> (preflight_error option \<times> walk) option" where
  "walkInbound L now depth inside mustDup m q body w =
     (if depth > maxDispatchDepth then Some (Some DepthExceeds, w)
      else case lib_peek L body of
        None \<Rightarrow> Some (Some PeekTypeID, w)
      | Some tid \<Rightarrow>
          let t = lib_class L tid; bad = (\<lambda>c w. Some (Some (BadMessage m q c), w))
          in case validateInboundMessageID L now m inside of
               Some c \<Rightarrow> bad (if inside then BadMsgContainer else c) w
             | None \<Rightarrow>
                 let rec = ov_seenRecord (wk_overlay w) m
                 in if mustDup \<or> (t = TGzip \<and> (case rec of None \<Rightarrow> False | Some r \<Rightarrow> inside \<or> cr_content r))
                    then (case rec of
                            None \<Rightarrow> bad BadMsgContainer w
                          | Some r \<Rightarrow>
                              if cr_seqNo r \<noteq> q then bad BadMsgContainer w
                              else Some (None, w\<lparr>wk_plan := appendInboundDuplicate m q tid r (wk_plan w)\<rparr>))
                    else if t = TGzip
                    then do {
                      (d, fb) \<leftarrow> decodeGZIP L tid body (wk_frames w);
                      case d of
                        Inl e \<Rightarrow> Some (Some e, w\<lparr>wk_frames := fb\<rparr>)
                      | Inr bytes \<Rightarrow>
                          let w1 = w\<lparr>wk_frames := fb, wk_expanded := wk_expanded w + length bytes,
                                wk_plan := (wk_plan w)\<lparr>pn_releases := pn_releases (wk_plan w) @ [int (length bytes)]\<rparr>\<rparr>
                          in if wk_expanded w1 > maxDispatchExpandedBytes
                             then Some (Some (ExpansionExceeds (wk_expanded w1)), w1)
                             else walkInbound L now (Suc depth) inside mustDup m q bytes w1 }
                    else if t = TContainer
                    then (if inside then bad BadMsgContainer w
                          else case validateClientEnvelope L now m q t of
                            Some c \<Rightarrow> bad c w
                          | None \<Rightarrow>
                              (case (case rec of
                                       Some r \<Rightarrow> if cr_content r \<or> cr_seqNo r \<noteq> q then Inl BadMsgContainer else Inr w
                                     | None \<Rightarrow> (case ov_validateSeq (wk_overlay w) m q False of
                                         Some c \<Rightarrow> Inl c
                                       | None \<Rightarrow> Inr (w\<lparr>wk_overlay := stage m q False False (wk_overlay w)\<rparr>))) of
                                 Inl c \<Rightarrow> bad c w
                               | Inr w1 \<Rightarrow> do {
                                   cnt \<leftarrow> of_decoded (containerMessageCount tid body);
                                   case cnt of
                                     Inl e \<Rightarrow> Some (Some e, w1)
                                   | Inr count \<Rightarrow>
                                       if count > int maxContainerMessages then bad BadMsgContainer w1
                                       else do {
                                         (r, fb) \<leftarrow> Some (reserve_container (nat count) (wk_frames w1));
                                         case r of
                                           Inl _ \<Rightarrow> Some (Some FrameBudget, w1\<lparr>wk_frames := fb\<rparr>)
                                         | Inr reserved \<Rightarrow> do {
                                             ms \<leftarrow> of_decoded (decodeMessageContainerViews tid body count);
                                             case ms of
                                               Inl e \<Rightarrow> do { fb2 \<leftarrow> frame_release reserved fb;
                                                           Some (Some e, w1\<lparr>wk_frames := fb2\<rparr>) }
                                             | Inr msgs \<Rightarrow>
                                                 let w2 = w1\<lparr>wk_frames := fb,
                                                      wk_plan := (wk_plan w1)\<lparr>pn_releases := pn_releases (wk_plan w1) @ [reserved]\<rparr>\<rparr>
                                                 in if msgs = []
                                                    then Some (None, w2\<lparr>wk_plan := includeLogicalID m (wk_plan w2)\<rparr>)
                                                    else walk_messages L now (Suc depth) (rec \<noteq> None) m q msgs w2 } } }))
                    else walk_plain L now m q tid body inside mustDup w)"
| "walk_messages L now depth mustDup m q [] w = Some (None, w)"
| "walk_messages L now depth mustDup m q (x # xs) w =
     (if mg_id x \<ge> m \<or> mg_seqNo x > q then Some (Some (BadMessage m q BadMsgContainer), w)
      else do {
        (e, w1) \<leftarrow> walkInbound L now depth True mustDup (mg_id x) (mg_seqNo x) (mg_body x) w;
        case e of Some er \<Rightarrow> Some (Some er, w1) | None \<Rightarrow> walk_messages L now depth mustDup m q xs w1 })"
  by pat_completeness auto

termination
  by (relation "measures [\<lambda>x. case x of Inl (_, _, d, _) \<Rightarrow> Suc maxDispatchDepth - d | Inr (_, _, d, _) \<Rightarrow> Suc maxDispatchDepth - d,
      \<lambda>x. case x of Inl _ \<Rightarrow> 0 | Inr (_, _, _, _, _, _, xs, _) \<Rightarrow> Suc (length xs)]") auto

text \<open>\<open>plan.close\<close> returns the reservations in reverse order.\<close>

fun release_list :: "int list \<Rightarrow> frame_budget \<Rightarrow> frame_budget option" where
  "release_list [] fb = Some fb"
| "release_list (n # ns) fb = Option.bind (frame_release n fb) (release_list ns)"

definition plan_close :: "plan \<Rightarrow> frame_budget \<Rightarrow> frame_budget option" where
  "plan_close p fb = release_list (rev (pn_releases p)) fb"

definition empty_plan :: plan where
  "empty_plan = \<lparr>pn_items = [], pn_ackIDs = [], pn_logicalMin = 0, pn_releases = []\<rparr>"

definition preflightInbound ::
  "lib \<Rightarrow> int \<Rightarrow> conn_state \<Rightarrow> int \<Rightarrow> int \<Rightarrow> byte list \<Rightarrow> frame_budget \<Rightarrow>
     ((preflight_error + plan \<times> staged list) \<times> frame_budget) option" where
  "preflightInbound L now cs m q body fb = do {
     (e, w) \<leftarrow> walkInbound L now 0 False False m q body
        \<lparr>wk_plan = empty_plan, wk_overlay = newConnStateOverlay cs, wk_expanded = 0, wk_frames = fb\<rparr>;
     let reject = (\<lambda>er. do { fb' \<leftarrow> plan_close (wk_plan w) (wk_frames w); Some (Inl er, fb') })
     in case e of
          Some er \<Rightarrow> reject er
        | None \<Rightarrow>
            if pn_logicalMin (wk_plan w) = 0 then reject NoLogicalMessage
            else if (\<exists>i\<in>set (pn_items (wk_plan w)). it_kind i = ItemDestroyAuthKey) \<and> length (pn_items (wk_plan w)) \<noteq> 1
            then reject (BadMessage m q BadMsgContainer)
            else Some (Inr (wk_plan w, ov_staged (wk_overlay w)), wk_frames w) }"

end
