(* ===== verification/Preflight_Inv.thy ===== *)
theory Preflight_Inv
  imports Preflight
begin

text \<open>
  Invariants of the inbound walk: the overlay stays consistent, the frame budget holds exactly the
  reservations the plan will return, and the plan lists each message once.
\<close>

declare walkInbound.simps [simp del]

definition fresh_item :: "item \<Rightarrow> bool" where
  "fresh_item i \<longleftrightarrow> it_kind i \<noteq> ItemDuplicate \<and> it_kind i \<noteq> ItemServiceDuplicate"

definition walk_ok :: "conn_state \<Rightarrow> int \<Rightarrow> walk \<Rightarrow> bool" where
  "walk_ok cs base w \<longleftrightarrow> ov_inv (wk_overlay w) \<and> ov_base (wk_overlay w) = cs \<and> frame_inv (wk_frames w) \<and>
     0 \<le> base \<and> (\<forall>n\<in>set (pn_releases (wk_plan w)). 0 \<le> n) \<and>
     fb_used (wk_frames w) = base + sum_list (pn_releases (wk_plan w))"

definition plan_ok :: "overlay \<Rightarrow> plan \<Rightarrow> bool" where
  "plan_ok ov p \<longleftrightarrow> pn_ackIDs p = map it_msgID (filter it_content (pn_items p)) \<and>
     (\<forall>i\<in>set (pn_items p). fresh_item i \<longrightarrow> it_msgID i \<in> st_msgID ` set (ov_staged ov)) \<and>
     distinct (map it_msgID (filter fresh_item (pn_items p))) \<and>
     (\<forall>i\<in>set (pn_items p). 0 < it_msgID i \<and> it_msgID i \<in> fst ` ov_recs ov)"

definition min_ok :: "plan \<Rightarrow> bool" where
  "min_ok p \<longleftrightarrow> pn_logicalMin p = (if pn_items p = [] then 0 else Min (it_msgID ` set (pn_items p)))"

text \<open>The states from \<open>w\<close> a successful step may reach: no more than \<open>n\<close> items, at most the allowed
  expansion, nothing unstaged.\<close>

definition advances :: "nat \<Rightarrow> walk \<Rightarrow> walk \<Rightarrow> bool" where
  "advances n w w' \<longleftrightarrow> length (pn_items (wk_plan w')) \<le> length (pn_items (wk_plan w)) + n \<and>
     set (ov_staged (wk_overlay w)) \<subseteq> set (ov_staged (wk_overlay w')) \<and>
     (wk_expanded w \<le> maxDispatchExpandedBytes \<longrightarrow> wk_expanded w' \<le> maxDispatchExpandedBytes)"

lemma advances_refl [simp]: "advances n w w"
  by (simp add: advances_def)

lemma advances_trans: "advances n w w' \<Longrightarrow> advances k w' w'' \<Longrightarrow> advances (n + k) w w''"
  by (auto simp: advances_def)

lemma release_simps [simp]: "pn_releases (append_item i p) = pn_releases p" "pn_releases (includeLogicalID m p) = pn_releases p"
  "pn_releases (appendInboundDuplicate m q tid r p) = pn_releases p"
  by (simp_all add: append_item_def includeLogicalID_def appendInboundDuplicate_def)

lemma plan_items_simps [simp]:
  "pn_items (append_item i p) = pn_items p @ [i]" "pn_items (includeLogicalID m p) = pn_items p"
  "pn_ackIDs (includeLogicalID m p) = pn_ackIDs p" "pn_logicalMin (append_item i p) = pn_logicalMin p"
  by (simp_all add: append_item_def includeLogicalID_def)

lemma ov_recs_ids: "fst ` ov_recs ov = fst ` set (cs_seen (ov_base ov)) \<union> st_msgID ` set (ov_staged ov)"
  by (simp add: ov_recs_def image_Un image_image)

lemma plan_ok_dup:
  assumes "plan_ok ov p" and "0 < m" and "ov_seenRecord ov m = Some r"
  shows "plan_ok ov (appendInboundDuplicate m q tid r p)"
proof -
  have "m \<in> fst ` ov_recs ov" using assms(3) ov_seen_None [of ov m] by fastforce
  then show ?thesis using assms(1,2)
    by (auto simp: plan_ok_def appendInboundDuplicate_def append_item_def fresh_item_def)
qed

lemma plan_ok_new:
  assumes "plan_ok ov p" and "ov_inv ov" and "0 < m" and "ov_seenRecord ov m = None" and "it_msgID i = m" and "fresh_item i"
    and "ov_base ov' = ov_base ov" and "map st_msgID (ov_staged ov') = map st_msgID (ov_staged ov) @ [m]"
  shows "plan_ok ov' (append_item i p)"
proof -
  have new: "m \<notin> fst ` ov_recs ov" using assms(4) by (simp add: ov_seen_None)
  have st: "st_msgID ` set (ov_staged ov') = insert m (st_msgID ` set (ov_staged ov))"
    using arg_cong [OF assms(8), of set] by simp
  have ids: "fst ` ov_recs ov' = insert m (fst ` ov_recs ov)" by (simp add: ov_recs_ids assms(7) st)
  have "it_msgID j \<noteq> m" if "j \<in> set (pn_items p)" for j using assms(1) that new by (auto simp: plan_ok_def)
  then show ?thesis using assms(1,3,5,6) ids st by (auto simp: plan_ok_def append_item_def)
qed

lemma plan_ok_mono:
  assumes "plan_ok ov p" and "ov_base ov' = ov_base ov" and "set (ov_staged ov) \<subseteq> set (ov_staged ov')"
    and "pn_items p' = pn_items p" and "pn_ackIDs p' = pn_ackIDs p"
  shows "plan_ok ov' p'"
proof -
  have "fst ` ov_recs ov \<subseteq> fst ` ov_recs ov'" "st_msgID ` set (ov_staged ov) \<subseteq> st_msgID ` set (ov_staged ov')"
    using assms(2,3) by (auto simp: ov_recs_ids)
  then show ?thesis using assms(1) unfolding plan_ok_def assms(4,5) by blast
qed

lemma min_ok_append:
  assumes "min_ok p" and "\<forall>i\<in>set (pn_items p). 0 < it_msgID i" and "0 < it_msgID i"
  shows "min_ok (append_item i (includeLogicalID (it_msgID i) p))"
proof (cases "pn_items p = []")
  case True
  then show ?thesis using assms by (auto simp: min_ok_def includeLogicalID_def)
next
  case False
  let ?S = "it_msgID ` set (pn_items p)"
  have S: "finite ?S" "?S \<noteq> {}" using False by auto
  have pos: "0 < Min ?S" using assms(2) S by simp
  have "Min (insert (it_msgID i) ?S) = min (it_msgID i) (Min ?S)" using S by (simp add: Min_insert)
  moreover have "pn_logicalMin (includeLogicalID (it_msgID i) p) = min (it_msgID i) (Min ?S)"
    using False assms(1) pos by (auto simp: min_ok_def includeLogicalID_def min_absorb1 min_absorb2 simp del: Min_gr_iff Min_less_iff)
  moreover have "it_msgID ` set (pn_items (append_item i (includeLogicalID (it_msgID i) p))) = insert (it_msgID i) ?S" by simp
  ultimately show ?thesis by (simp only: min_ok_def plan_items_simps) simp
qed

subsection \<open>Outcomes\<close>

definition outcome :: "conn_state \<Rightarrow> int \<Rightarrow> nat \<Rightarrow> bool \<Rightarrow> walk \<Rightarrow> (preflight_error option \<times> walk) option \<Rightarrow> bool" where
  "outcome cs base n inside w r \<longleftrightarrow> (\<exists>e w'. r = Some (e, w') \<and> walk_ok cs base w' \<and>
     (e = None \<longrightarrow> advances n w w' \<and>
       (plan_ok (wk_overlay w) (wk_plan w) \<longrightarrow> plan_ok (wk_overlay w') (wk_plan w') \<and>
         (min_ok (wk_plan w) \<longrightarrow> min_ok (wk_plan w') \<or> (\<not> inside \<and> pn_items (wk_plan w') = pn_items (wk_plan w))))))"

lemma outcome_error: "walk_ok cs base w' \<Longrightarrow> outcome cs base n inside w (Some (Some e, w'))"
  by (simp add: outcome_def)

lemma of_decoded_Some: "d \<noteq> Panic \<Longrightarrow> \<exists>r. of_decoded d = Some r \<and> (\<forall>x. r = Inr x \<longrightarrow> d = Ok x)"
  by (cases d) (auto simp: of_decoded_def)

lemma vector_no_panic: "decodeInt64VectorView tv bs t n \<noteq> Panic"
  using decodeInt64VectorView_safe [where tv = tv and bs = bs and t = t and m = n] by (auto split: decoded.splits)

lemma container_no_panic: "decodeMessageContainerViews t bs c \<noteq> Panic"
  using container_safe [where t = t and bs = bs and c = c] by (auto split: decoded.splits)

lemma preflightInboundItem_ok:
  "\<exists>r. preflightInboundItem L m q tid content body = Some r \<and>
     (\<forall>i. r = Inr i \<longrightarrow> it_msgID i = m \<and> it_seqNo i = q \<and> it_content i = content \<and> fresh_item i)"
proof -
  obtain rv where v: "of_decoded (decodeInt64VectorView (lib_vector L) body tid maxServiceMessageIDs) = Some rv"
    using of_decoded_Some [OF vector_no_panic] by blast
  obtain rs where s: "of_decoded (msgsStateInfoView tid body) = Some rs"
    using of_decoded_Some [OF views_no_panic(2)] by blast
  obtain ra where a: "of_decoded (msgsAllInfoView (lib_vector L) body) = Some ra"
    using of_decoded_Some [OF views_no_panic(3)] by blast
  show ?thesis
    by (cases "lib_class L tid"; cases rv; cases rs; cases ra)
      (auto simp: preflightInboundItem_def Let_def v s a decodeInboundServiceExact_def fresh_item_def split: if_splits)
qed

lemma dup_outcome:
  assumes "walk_ok cs base w" and "0 < m" and "ov_seenRecord (wk_overlay w) m = Some r"
  shows "outcome cs base 1 inside w (Some (None, w\<lparr>wk_plan := appendInboundDuplicate m q tid r (wk_plan w)\<rparr>))"
proof -
  have "plan_ok (wk_overlay w) (wk_plan w) \<Longrightarrow> min_ok (wk_plan w) \<Longrightarrow> min_ok (appendInboundDuplicate m q tid r (wk_plan w))"
    unfolding appendInboundDuplicate_def using min_ok_append [of "wk_plan w" "\<lparr>it_kind = if cr_service r then ItemServiceDuplicate else ItemDuplicate,
        it_msgID = m, it_seqNo = q, it_typeID = tid, it_content = cr_content r, it_body = [], it_payload = NoPayload, it_fresh = True\<rparr>"]
      assms(2) by (simp add: plan_ok_def)
  then show ?thesis using assms plan_ok_dup [OF _ assms(2,3)]
    by (auto simp: outcome_def walk_ok_def advances_def appendInboundDuplicate_def)
qed

lemma validBits_pos: "validClientMessageIDBits L m \<Longrightarrow> 0 < m"
  by (simp add: validClientMessageIDBits_def)

lemma envelope_pos:
  "validateClientContainerEnvelope L m q t = None \<Longrightarrow> 0 < m" "validateClientEnvelope L now m q t = None \<Longrightarrow> 0 < m"
  "validateInboundMessageID L now m b = None \<Longrightarrow> 0 < m"
  by (auto simp: validateClientContainerEnvelope_def validateClientEnvelope_def validateInboundMessageID_def
      dest: validBits_pos split: if_splits)

lemma walk_plain_outcome:
  assumes w: "walk_ok cs base w" and m: "0 < m" "m \<le> max_int64"
  shows "outcome cs base 1 inside w (walk_plain L now m q tid body inside mustDup w)"
proof -
  let ?t = "lib_class L tid" let ?c = "clientMessageIsContentRelated ?t q"
  let ?env = "if inside then map_option (\<lambda>_. BadMsgContainer) (validateClientContainerEnvelope L m q ?t)
    else validateClientEnvelope L now m q ?t"
  have err: "outcome cs base 1 inside w (Some (Some e, w))" for e using w by (rule outcome_error)
  consider (env) c where "?env = Some c"
    | (seen) r where "?env = None" "ov_seenRecord (wk_overlay w) m = Some r"
    | (must) "?env = None" "ov_seenRecord (wk_overlay w) m = None" "mustDup \<or> ov_validateSeq (wk_overlay w) m q ?c \<noteq> None"
    | (new) "?env = None" "ov_seenRecord (wk_overlay w) m = None" "\<not> mustDup" "ov_validateSeq (wk_overlay w) m q ?c = None"
    by (cases ?env; cases "ov_seenRecord (wk_overlay w) m") auto
  then show ?thesis
  proof cases
    case env
    then show ?thesis using err by (simp add: walk_plain_def Let_def)
  next
    case seen
    then show ?thesis using err dup_outcome [OF w m(1)] by (simp add: walk_plain_def Let_def)
  next
    case must
    then show ?thesis using err by (auto simp: walk_plain_def Let_def)
  next
    case new
    let ?ov = "stage m q ?c (inboundTypeIsService ?t) (wk_overlay w)"
    let ?w1 = "w\<lparr>wk_overlay := ?ov, wk_plan := includeLogicalID m (wk_plan w)\<rparr>"
    have inv: "ov_inv (wk_overlay w)" "ov_base (wk_overlay w) = cs" using w by (simp_all add: walk_ok_def)
    have st: "ov_inv ?ov" "ov_base ?ov = cs"
      "ov_staged ?ov = ov_staged (wk_overlay w) @ [\<lparr>st_msgID = m, st_seqNo = q, st_content = ?c, st_service = inboundTypeIsService ?t\<rparr>]"
      using stage_ok [OF inv(1) new(2) m new(4)] inv(2) by auto
    have w1: "walk_ok cs base ?w1" using w st by (simp add: walk_ok_def)
    obtain r where r: "preflightInboundItem L m q tid ?c body = Some r"
      "\<forall>i. r = Inr i \<longrightarrow> it_msgID i = m \<and> it_seqNo i = q \<and> it_content i = ?c \<and> fresh_item i"
      using preflightInboundItem_ok by blast
    show ?thesis
    proof (cases r)
      case (Inl e)
      then show ?thesis using new r(1) outcome_error [OF w1] by (simp add: walk_plain_def Let_def)
    next
      case (Inr i)
      let ?i = "i\<lparr>it_fresh := (validateInboundMessageID L now m False = None)\<rparr>"
      have i: "it_msgID ?i = m" "fresh_item ?i" using r(2) Inr by (auto simp: fresh_item_def)
      have po: "plan_ok ?ov (append_item ?i (includeLogicalID m (wk_plan w)))" if "plan_ok (wk_overlay w) (wk_plan w)"
      proof -
        have "plan_ok (wk_overlay w) (includeLogicalID m (wk_plan w))" using that by (simp add: plan_ok_def)
        then show ?thesis by (rule plan_ok_new [OF _ inv(1) m(1) new(2) i]) (use st inv in simp_all)
      qed
      have mo: "min_ok (append_item ?i (includeLogicalID m (wk_plan w)))"
        if "plan_ok (wk_overlay w) (wk_plan w)" "min_ok (wk_plan w)"
        using min_ok_append [of "wk_plan w" ?i] that i(1) m(1) by (simp add: plan_ok_def)
      have "walk_plain L now m q tid body inside mustDup w =
          Some (None, ?w1\<lparr>wk_plan := append_item ?i (includeLogicalID m (wk_plan w))\<rparr>)"
        using new r(1) Inr by (simp add: walk_plain_def Let_def)
      then show ?thesis using w1 st(3) po mo by (auto simp: outcome_def walk_ok_def advances_def)
    qed
  qed
qed

subsection \<open>Wrappers\<close>

definition charges :: "int \<Rightarrow> frame_budget \<Rightarrow> frame_budget \<Rightarrow> bool" where
  "charges n fb fb' \<longleftrightarrow> frame_inv fb' \<and> fb_used fb' = fb_used fb + n"

lemma frame_reserve_ok:
  assumes "frame_inv fb" and "frame_reserve fb n 0 = (r, fb')" and "0 < n"
  shows "case r of Inl _ \<Rightarrow> fb' = fb | Inr k \<Rightarrow> k = n \<and> charges n fb fb'"
  using growReservation_cases [OF assms(1), of 0 n 0] assms(2,3) by (auto simp: frame_reserve_def charges_def)

lemma frame_release_ok:
  assumes "frame_inv fb" and "0 \<le> n" and "n \<le> fb_used fb"
  shows "\<exists>fb'. frame_release n fb = Some fb' \<and> charges (- n) fb fb'"
  using assms by (auto simp: frame_release_def charges_def frame_inv_def Let_def)

lemma decodeGZIP_ok:
  assumes fi: "frame_inv fb"
  shows "\<exists>r fb'. decodeGZIP L tid bs fb = Some (r, fb') \<and>
    charges (case r of Inl _ \<Rightarrow> 0 | Inr bytes \<Rightarrow> int (length bytes)) fb fb' \<and>
    (\<forall>bytes. r = Inr bytes \<longrightarrow> length bytes \<le> maxSingleGZIPExpandedBytes)"
proof -
  let ?n = "int maxSingleGZIPExpandedBytes"
  have np: "0 < ?n" by (simp add: maxSingleGZIPExpandedBytes_def)
  have same: "charges 0 fb fb" using fi by (simp add: charges_def)
  obtain v where v: "of_decoded (gzipPackedBytesView tid bs) = Some v" using of_decoded_Some [OF views_no_panic(1)] by blast
  show ?thesis
  proof (cases v)
    case (Inl e)
    then show ?thesis using v same by (simp add: decodeGZIP_def)
  next
    case (Inr z)
    obtain r fb1 where r: "frame_reserve fb ?n 0 = (r, fb1)" by fastforce
    show ?thesis
    proof (cases r)
      case (Inl e)
      then show ?thesis using v Inr r same frame_reserve_ok [OF fi r np] by (simp add: decodeGZIP_def)
    next
      case R: (Inr k)
      have k: "k = ?n" "frame_inv fb1" "fb_used fb1 = fb_used fb + ?n" "0 \<le> fb_used fb"
        using frame_reserve_ok [OF fi r np] R fi by (auto simp: charges_def frame_inv_def)
      obtain f0 where f0: "frame_release ?n fb1 = Some f0" "charges (- ?n) fb1 f0"
        using frame_release_ok [OF k(2), of ?n] k np by auto
      show ?thesis
      proof (cases "lib_inflate L z")
        case None
        then show ?thesis using v Inr r R k f0 by (auto simp: decodeGZIP_def charges_def)
      next
        case (Some stream)
        let ?b = "take (maxSingleGZIPExpandedBytes + 1) stream"
        show ?thesis
        proof (cases "length ?b > maxSingleGZIPExpandedBytes")
          case True
          then show ?thesis using v Inr r R k f0 Some by (auto simp: decodeGZIP_def charges_def Let_def)
        next
          case False
          then obtain f1 where f1: "frame_release (?n - int (length ?b)) fb1 = Some f1" "charges (- (?n - int (length ?b))) fb1 f1"
            using frame_release_ok [OF k(2), of "?n - int (length ?b)"] k by auto
          then show ?thesis using v Inr r R k Some False by (auto simp: decodeGZIP_def charges_def Let_def)
        qed
      qed
    qed
  qed
qed

lemma reserve_container_ok:
  assumes "frame_inv fb" and "reserve_container n fb = (r, fb')"
  shows "case r of Inl _ \<Rightarrow> fb' = fb | Inr k \<Rightarrow> 0 \<le> k \<and> charges k fb fb'"
proof (cases "n = 0")
  case True
  then show ?thesis using assms by (auto simp: reserve_container_def charges_def)
next
  case False
  then have "0 < int n * containerDescriptorBudgetBytes" by (simp add: containerDescriptorBudgetBytes_def)
  from frame_reserve_ok [OF assms(1) _ this] show ?thesis
    using False assms(2) \<open>0 < int n * containerDescriptorBudgetBytes\<close> by (fastforce simp: reserve_container_def split: sum.splits)
qed

text \<open>Moving a reservation into the plan.\<close>

lemma walk_ok_charge:
  assumes "walk_ok cs base w" and "0 \<le> n" and "charges n (wk_frames w) fb"
  shows "walk_ok cs base (w\<lparr>wk_frames := fb, wk_expanded := x,
    wk_plan := (wk_plan w)\<lparr>pn_releases := pn_releases (wk_plan w) @ [n]\<rparr>\<rparr>)"
  using assms by (auto simp: walk_ok_def charges_def)

lemma outcome_via:
  assumes "outcome cs base n inside w1 r" and "advances k w w1" and "k + n = j"
    and "plan_ok (wk_overlay w) (wk_plan w) \<Longrightarrow> plan_ok (wk_overlay w1) (wk_plan w1)"
    and "min_ok (wk_plan w) \<Longrightarrow> min_ok (wk_plan w1)" and "pn_items (wk_plan w1) = pn_items (wk_plan w)"
  shows "outcome cs base j inside w r"
  using assms advances_trans [OF assms(2)] unfolding outcome_def by (metis (no_types, lifting))

lemma outcome_weaken: "outcome cs base n inside w r \<Longrightarrow> n \<le> k \<Longrightarrow> outcome cs base k inside w r"
  unfolding outcome_def advances_def by fastforce

text \<open>Inside a container every message keeps the minimum exact, so a list of them does too.\<close>

lemma outcome_next:
  assumes "outcome cs base n True w (Some (None, w1))" and "outcome cs base k True w1 r"
  shows "outcome cs base (n + k) inside w r"
  using assms advances_trans [of n w w1 k] unfolding outcome_def by fastforce

lemma walk_messages_outcome:
  assumes step: "\<And>m q body w mustDup. walk_ok cs base w \<Longrightarrow> m \<le> max_int64 \<Longrightarrow>
      outcome cs base 1 True w (walkInbound L now depth True mustDup m q body w)"
  shows "walk_ok cs base w \<Longrightarrow> \<forall>x\<in>set xs. mg_id x \<le> max_int64 \<Longrightarrow>
    outcome cs base (length xs) True w (walk_messages L now depth mustDup m q xs w)"
proof (induction xs arbitrary: w)
  case Nil
  then show ?case by (simp add: outcome_def)
next
  case (Cons x xs)
  show ?case
  proof (cases "mg_id x \<ge> m \<or> mg_seqNo x > q")
    case True
    then show ?thesis using outcome_error [OF Cons.prems(1)] by auto
  next
    case False
    have s: "outcome cs base 1 True w (walkInbound L now depth True mustDup (mg_id x) (mg_seqNo x) (mg_body x) w)"
      by (rule step [OF Cons.prems(1)]) (use Cons.prems(2) in simp)
    then obtain e w1 where e: "walkInbound L now depth True mustDup (mg_id x) (mg_seqNo x) (mg_body x) w = Some (e, w1)"
      "walk_ok cs base w1" unfolding outcome_def by blast
    show ?thesis
    proof (cases e)
      case (Some er)
      then show ?thesis using False e(1) outcome_error [OF e(2)] by simp
    next
      case None
      have s1: "outcome cs base 1 True w (Some (None, w1))" using s e(1) None by simp
      have "outcome cs base (length xs) True w1 (walk_messages L now depth mustDup m q xs w1)"
        by (rule Cons.IH [OF e(2)]) (use Cons.prems(2) in simp)
      from outcome_next [OF s1 this, of True] show ?thesis using False e(1) None by simp
    qed
  qed
qed

text \<open>Opening a container: everything between the envelope check and its messages.\<close>

definition open_container :: "lib \<Rightarrow> int \<Rightarrow> int \<Rightarrow> nat \<Rightarrow> byte list \<Rightarrow> (message list \<Rightarrow> walk \<Rightarrow> (preflight_error option \<times> walk) option) \<Rightarrow>
    walk \<Rightarrow> (preflight_error option \<times> walk) option" where
  "open_container L m q tid body enter w1 = do {
     cnt \<leftarrow> of_decoded (containerMessageCount tid body);
     case cnt of
       Inl e \<Rightarrow> Some (Some e, w1)
     | Inr count \<Rightarrow>
         if count > int maxContainerMessages then Some (Some (BadMessage m q BadMsgContainer), w1)
         else do {
           (r, fb) \<leftarrow> Some (reserve_container (nat count) (wk_frames w1));
           case r of
             Inl _ \<Rightarrow> Some (Some FrameBudget, w1\<lparr>wk_frames := fb\<rparr>)
           | Inr reserved \<Rightarrow> do {
               ms \<leftarrow> of_decoded (decodeMessageContainerViews tid body count);
               case ms of
                 Inl e \<Rightarrow> do { fb2 \<leftarrow> frame_release reserved fb; Some (Some e, w1\<lparr>wk_frames := fb2\<rparr>) }
               | Inr msgs \<Rightarrow>
                   let w2 = w1\<lparr>wk_frames := fb,
                        wk_plan := (wk_plan w1)\<lparr>pn_releases := pn_releases (wk_plan w1) @ [reserved]\<rparr>\<rparr>
                   in if msgs = [] then Some (None, w2\<lparr>wk_plan := includeLogicalID m (wk_plan w2)\<rparr>)
                      else enter msgs w2 } } }"

lemma open_container_outcome:
  assumes w: "walk_ok cs base w"
    and enter: "\<And>msgs w2. walk_ok cs base w2 \<Longrightarrow> \<forall>x\<in>set msgs. mg_id x \<le> max_int64 \<Longrightarrow>
      outcome cs base (length msgs) True w2 (enter msgs w2)"
  shows "outcome cs base maxContainerMessages False w (open_container L m q tid body enter w)"
proof -
  obtain c where c: "of_decoded (containerMessageCount tid body) = Some c" using of_decoded_Some [OF views_no_panic(4)] by blast
  have err: "outcome cs base maxContainerMessages False w (Some (Some e, w))" for e using w by (rule outcome_error)
  have fi: "frame_inv (wk_frames w)" "0 \<le> fb_used (wk_frames w)" using w by (auto simp: walk_ok_def frame_inv_def)
  show ?thesis
  proof (cases c)
    case (Inl e)
    then show ?thesis using c err by (simp add: open_container_def)
  next
    case (Inr count)
    show ?thesis
    proof (cases "count > int maxContainerMessages")
      case True
      then show ?thesis using c Inr err by (simp add: open_container_def)
    next
      case le: False
      obtain r fb where r: "reserve_container (nat count) (wk_frames w) = (r, fb)" by fastforce
      note R = reserve_container_ok [OF fi(1) r]
      show ?thesis
      proof (cases r)
        case (Inl e)
        then have "w\<lparr>wk_frames := fb\<rparr> = w" using R by simp
        then show ?thesis using c Inr le r Inl err by (simp add: open_container_def)
      next
        case K: (Inr k)
        then have k: "0 \<le> k" "charges k (wk_frames w) fb" using R by auto
        obtain d where d: "of_decoded (decodeMessageContainerViews tid body count) = Some d"
          "\<forall>ms. d = Inr ms \<longrightarrow> decodeMessageContainerViews tid body count = Ok ms"
          using of_decoded_Some [OF container_no_panic] by blast
        show ?thesis
        proof (cases d)
          case (Inl e)
          obtain f where f: "frame_release k fb = Some f" "charges (- k) fb f"
            using frame_release_ok [of fb k] k fi by (auto simp: charges_def)
          then have "walk_ok cs base (w\<lparr>wk_frames := f\<rparr>)" using w k by (auto simp: walk_ok_def charges_def)
          then show ?thesis using c Inr le r K d(1) Inl f outcome_error by (simp add: open_container_def)
        next
          case D: (Inr msgs)
          let ?w2 = "w\<lparr>wk_frames := fb, wk_plan := (wk_plan w)\<lparr>pn_releases := pn_releases (wk_plan w) @ [k]\<rparr>\<rparr>"
          have ms: "decodeMessageContainerViews tid body count = Ok msgs" using d(2) D by blast
          have w2: "walk_ok cs base ?w2" using walk_ok_charge [OF w k, of "wk_expanded w"] by simp
          have ids: "\<forall>x\<in>set msgs. mg_id x \<le> max_int64" using container_ids [OF ms] by (auto simp: in_int64_def max_int64_def)
          have len: "length msgs \<le> maxContainerMessages"
            using container_safe [where t = tid and bs = body and c = count] ms by simp
          have po: "plan_ok ov (wk_plan ?w2) = plan_ok ov (wk_plan w)" for ov by (simp add: plan_ok_def)
          have eq: "open_container L m q tid body enter w =
              (if msgs = [] then Some (None, ?w2\<lparr>wk_plan := includeLogicalID m (wk_plan ?w2)\<rparr>) else enter msgs ?w2)"
            using c Inr le r K d(1) D by (simp add: open_container_def)
          show ?thesis
          proof (cases "msgs = []")
            case True
            then show ?thesis unfolding eq using w2 by (auto simp: outcome_def walk_ok_def advances_def plan_ok_def)
          next
            case False
            have "outcome cs base (length msgs) True w (enter msgs ?w2)"
              by (rule outcome_via [OF enter [OF w2 ids], of 0]) (use po in \<open>simp_all add: advances_def min_ok_def\<close>)
            then show ?thesis unfolding eq using False len by (auto simp: outcome_def advances_def)
          qed
        qed
      qed
    qed
  qed
qed

lemma gzip_outcome:
  assumes w: "walk_ok cs base w"
    and deeper: "\<And>bytes w1. walk_ok cs base w1 \<Longrightarrow> outcome cs base n inside w1 (enter bytes w1)"
  shows "outcome cs base n inside w (do {
      (d, fb) \<leftarrow> decodeGZIP L tid body (wk_frames w);
      case d of
        Inl e \<Rightarrow> Some (Some e, w\<lparr>wk_frames := fb\<rparr>)
      | Inr bytes \<Rightarrow>
          let w1 = w\<lparr>wk_frames := fb, wk_expanded := wk_expanded w + length bytes,
                wk_plan := (wk_plan w)\<lparr>pn_releases := pn_releases (wk_plan w) @ [int (length bytes)]\<rparr>\<rparr>
          in if wk_expanded w1 > maxDispatchExpandedBytes
             then Some (Some (ExpansionExceeds (wk_expanded w1)), w1)
             else enter bytes w1 })"
proof -
  have "frame_inv (wk_frames w)" using w by (simp add: walk_ok_def)
  then obtain r fb where r: "decodeGZIP L tid body (wk_frames w) = Some (r, fb)"
    "charges (case r of Inl _ \<Rightarrow> 0 | Inr bytes \<Rightarrow> int (length bytes)) (wk_frames w) fb"
    using decodeGZIP_ok by blast
  show ?thesis
  proof (cases r)
    case (Inl e)
    then have "walk_ok cs base (w\<lparr>wk_frames := fb\<rparr>)" using w r(2) by (auto simp: walk_ok_def charges_def)
    then show ?thesis using r(1) Inl outcome_error by simp
  next
    case (Inr bytes)
    let ?w1 = "w\<lparr>wk_frames := fb, wk_expanded := wk_expanded w + length bytes,
        wk_plan := (wk_plan w)\<lparr>pn_releases := pn_releases (wk_plan w) @ [int (length bytes)]\<rparr>\<rparr>"
    have w1: "walk_ok cs base ?w1" using walk_ok_charge [OF w, of "int (length bytes)"] r(2) Inr by simp
    show ?thesis
    proof (cases "wk_expanded ?w1 > maxDispatchExpandedBytes")
      case True
      then show ?thesis using r(1) Inr outcome_error [OF w1] by (simp add: Let_def)
    next
      case False
      have "outcome cs base n inside w (enter bytes ?w1)"
        by (rule outcome_via [OF deeper [OF w1], of 0]) (use False in \<open>simp_all add: advances_def min_ok_def plan_ok_def\<close>)
      then show ?thesis using r(1) Inr False by (simp add: Let_def)
    qed
  qed
qed

lemma walkInbound_outcome:
  "walk_ok cs base w \<Longrightarrow> m \<le> max_int64 \<Longrightarrow>
   outcome cs base (if inside then 1 else maxContainerMessages) inside w (walkInbound L now depth inside mustDup m q body w)"
proof (induction "Suc maxDispatchDepth - depth" arbitrary: depth inside mustDup m q body w rule: less_induct)
  case less
  let ?n = "if inside then 1 else maxContainerMessages"
  have err: "outcome cs base ?n inside w (Some (Some e, w))" for e using less.prems(1) by (rule outcome_error)
  have one: "(1 :: nat) \<le> ?n" by (simp add: maxContainerMessages_def)
  show ?case
  proof (cases "depth > maxDispatchDepth \<or> lib_peek L body = None \<or> validateInboundMessageID L now m inside \<noteq> None")
    case True
    then consider "depth > maxDispatchDepth" | "\<not> depth > maxDispatchDepth" "lib_peek L body = None"
      | tid c where "\<not> depth > maxDispatchDepth" "lib_peek L body = Some tid" "validateInboundMessageID L now m inside = Some c"
      by (cases "lib_peek L body"; cases "validateInboundMessageID L now m inside") auto
    then show ?thesis
    proof cases
      case 1
      then show ?thesis using err by (subst walkInbound.simps) simp
    next
      case 2
      then show ?thesis using err by (subst walkInbound.simps) simp
    next
      case 3
      then show ?thesis using err by (subst walkInbound.simps) (simp add: Let_def)
    qed
  next
    case False
    then obtain tid where ok: "depth \<le> maxDispatchDepth" "lib_peek L body = Some tid" "validateInboundMessageID L now m inside = None"
      by auto
    let ?t = "lib_class L tid" let ?rec = "ov_seenRecord (wk_overlay w) m"
    have pos: "0 < m" using ok(3) by (rule envelope_pos(3))
    have deeper: "outcome cs base (if i then 1 else maxContainerMessages) i v (walkInbound L now (Suc depth) i md k r b v)"
      if "walk_ok cs base v" "k \<le> max_int64" for i md k r b v
      by (rule less.hyps) (use ok(1) that in auto)
    consider (dup) "mustDup \<or> (?t = TGzip \<and> (case ?rec of None \<Rightarrow> False | Some r \<Rightarrow> inside \<or> cr_content r))"
      | (gzip) "\<not> (mustDup \<or> (?t = TGzip \<and> (case ?rec of None \<Rightarrow> False | Some r \<Rightarrow> inside \<or> cr_content r)))" "?t = TGzip"
      | (container) "\<not> mustDup" "?t = TContainer"
      | (plain) "\<not> mustDup" "?t \<noteq> TGzip" "?t \<noteq> TContainer" by blast
    then show ?thesis
    proof cases
      case dup
      then show ?thesis
        using ok err outcome_weaken [OF dup_outcome [OF less.prems(1) pos] one]
        by (subst walkInbound.simps) (auto simp: Let_def split: option.splits)
    next
      case gzip
      have "outcome cs base ?n inside v (walkInbound L now (Suc depth) inside mustDup m q bytes v)" if "walk_ok cs base v" for bytes v
        by (rule deeper [OF that less.prems(2)])
      from gzip_outcome [OF less.prems(1) this, of L tid body] show ?thesis
        using ok gzip by (subst walkInbound.simps) (simp add: Let_def cong: option.case_cong)
    next
      case container
      show ?thesis
      proof (cases "inside \<or> validateClientEnvelope L now m q ?t \<noteq> None")
        case True
        then show ?thesis using ok container err by (subst walkInbound.simps) (auto simp: Let_def)
      next
        case top: False
        let ?enter = "walk_messages L now (Suc depth) (?rec \<noteq> None) m q"
        have enter: "outcome cs base (length msgs) True v (?enter msgs v)"
          if "walk_ok cs base v" "\<forall>x\<in>set msgs. mg_id x \<le> max_int64" for msgs v
        proof (rule walk_messages_outcome [OF _ that])
          fix m' q' b' v' md' assume "walk_ok cs base v'" "m' \<le> max_int64"
          from deeper [OF this, of True md' q' b'] show "outcome cs base 1 True v' (walkInbound L now (Suc depth) True md' m' q' b' v')"
            by simp
        qed
        note opened = open_container_outcome [where enter = ?enter and L = L and m = m and q = q and tid = tid and body = body, OF _ enter]
        let ?w1 = "w\<lparr>wk_overlay := stage m q False False (wk_overlay w)\<rparr>"
        have w1: "walk_ok cs base ?w1" if "?rec = None"
          using less.prems that pos stage_ok [of "wk_overlay w" m q False False]
          by (auto simp: walk_ok_def ov_validateSeq_def)
        have "outcome cs base maxContainerMessages False w (open_container L m q tid body ?enter ?w1)" if "?rec = None"
          by (rule outcome_via [OF opened [OF w1 [OF that]], of 0])
            (auto simp: advances_def stage_def Let_def intro: plan_ok_mono)
        moreover have "outcome cs base maxContainerMessages False w (open_container L m q tid body ?enter w)"
          by (rule opened [OF less.prems(1)])
        moreover have "walkInbound L now depth inside mustDup m q body w =
            (case (case ?rec of
                Some r \<Rightarrow> if cr_content r \<or> cr_seqNo r \<noteq> q then Inl BadMsgContainer else Inr w
              | None \<Rightarrow> Inr ?w1) of
               Inl c \<Rightarrow> Some (Some (BadMessage m q c), w)
             | Inr v \<Rightarrow> open_container L m q tid body ?enter v)"
          using ok container top
          by (subst walkInbound.simps, cases ?rec) (simp_all add: Let_def open_container_def ov_validateSeq_def cong: sum.case_cong if_cong)
        ultimately show ?thesis using top err by (cases ?rec) simp_all
      qed
    next
      case plain
      then show ?thesis
        using ok outcome_weaken [OF walk_plain_outcome [OF less.prems(1) pos less.prems(2)] one]
        by (subst walkInbound.simps) (simp add: Let_def)
    qed
  qed
qed

end
