(* ===== verification/Inbound_Session.thy ===== *)
theory Inbound_Session
  imports Preflight_Inv
begin

text \<open>
  The inbound life of one connection (encrypted.go, \<open>handleEncrypted\<close>): each frame is validated as a
  whole and then either rejected without a trace or committed to the client-message table. Between
  validation and commit the code activates the connection and writes control messages; \<open>proceeds\<close>
  says whether all of that succeeded.
\<close>

lemma release_list_ok:
  "frame_inv fb \<Longrightarrow> \<forall>n\<in>set ns. 0 \<le> n \<Longrightarrow> sum_list ns \<le> fb_used fb \<Longrightarrow>
   \<exists>fb'. release_list ns fb = Some fb' \<and> charges (- sum_list ns) fb fb'"
proof (induction ns arbitrary: fb)
  case Nil
  then show ?case by (simp add: charges_def)
next
  case (Cons n ns)
  have nn: "0 \<le> n" "0 \<le> sum_list ns" using Cons.prems(2) by (auto intro: sum_list_nonneg)
  then obtain f where f: "frame_release n fb = Some f" "frame_inv f" "fb_used f = fb_used fb - n"
    using frame_release_ok [OF Cons.prems(1), of n] Cons.prems(3) by (auto simp: charges_def)
  obtain f' where "release_list ns f = Some f'" "charges (- sum_list ns) f f'"
    using Cons.IH [OF f(2)] Cons.prems(2,3) f(3) by auto
  then show ?case using f by (auto simp: charges_def)
qed

lemma plan_close_ok:
  assumes "walk_ok cs base w"
  shows "\<exists>fb'. plan_close (wk_plan w) (wk_frames w) = Some fb' \<and> frame_inv fb' \<and> fb_used fb' = base"
proof -
  let ?ns = "rev (pn_releases (wk_plan w))"
  have "sum_list ?ns = sum_list (pn_releases (wk_plan w))" by (simp add: sum_list_rev)
  then show ?thesis
    using release_list_ok [of "wk_frames w" ?ns] assms by (auto simp: plan_close_def walk_ok_def charges_def)
qed

text \<open>What an accepted frame gives.\<close>

definition accepted :: "conn_state \<Rightarrow> int \<Rightarrow> plan \<Rightarrow> staged list \<Rightarrow> frame_budget \<Rightarrow> bool" where
  "accepted cs base p ss fb' \<longleftrightarrow> (\<exists>w. wk_plan w = p \<and> ov_staged (wk_overlay w) = ss \<and> wk_frames w = fb' \<and> walk_ok cs base w \<and>
     plan_ok (wk_overlay w) p \<and> (min_ok p \<or> pn_items p = []) \<and> pn_logicalMin p \<noteq> 0 \<and>
     length (pn_items p) \<le> maxContainerMessages \<and> wk_expanded w \<le> maxDispatchExpandedBytes)"

lemma preflight_cases:
  assumes "cs_inv cs" and "frame_inv fb" and "m \<le> max_int64"
  shows "\<exists>r fb'. preflightInbound L now cs m q body fb = Some (r, fb') \<and> frame_inv fb' \<and>
    (case r of Inl _ \<Rightarrow> fb_used fb' = fb_used fb | Inr (p, ss) \<Rightarrow> accepted cs (fb_used fb) p ss fb')"
proof -
  let ?w0 = "\<lparr>wk_plan = empty_plan, wk_overlay = newConnStateOverlay cs, wk_expanded = 0, wk_frames = fb\<rparr>"
  have w0: "walk_ok cs (fb_used fb) ?w0"
    using assms(1,2) ov_inv_new [OF assms(1)] by (auto simp: walk_ok_def empty_plan_def newConnStateOverlay_def frame_inv_def)
  have p0: "plan_ok (wk_overlay ?w0) (wk_plan ?w0)" "min_ok (wk_plan ?w0)" by (simp_all add: plan_ok_def min_ok_def empty_plan_def)
  obtain e w where e: "walkInbound L now 0 False False m q body ?w0 = Some (e, w)" "walk_ok cs (fb_used fb) w"
    and ok: "e = None \<longrightarrow> advances maxContainerMessages ?w0 w \<and> plan_ok (wk_overlay w) (wk_plan w) \<and>
        (min_ok (wk_plan w) \<or> pn_items (wk_plan w) = [])"
    using walkInbound_outcome [OF w0 assms(3), of False L now 0 False q body] p0
    by (auto simp: outcome_def empty_plan_def)
  obtain fb1 where fb1: "plan_close (wk_plan w) (wk_frames w) = Some fb1" "frame_inv fb1" "fb_used fb1 = fb_used fb"
    using plan_close_ok [OF e(2)] by blast
  show ?thesis
  proof (cases "e = None \<and> pn_logicalMin (wk_plan w) \<noteq> 0 \<and>
      \<not> ((\<exists>i\<in>set (pn_items (wk_plan w)). it_kind i = ItemDestroyAuthKey) \<and> length (pn_items (wk_plan w)) \<noteq> 1)")
    case True
    then have "preflightInbound L now cs m q body fb = Some (Inr (wk_plan w, ov_staged (wk_overlay w)), wk_frames w)"
      using e(1) by (auto simp: preflightInbound_def Let_def)
    moreover have "accepted cs (fb_used fb) (wk_plan w) (ov_staged (wk_overlay w)) (wk_frames w)"
      unfolding accepted_def using True e(2) ok by (intro exI [of _ w]) (auto simp: advances_def empty_plan_def)
    moreover have "frame_inv (wk_frames w)" using e(2) by (simp add: walk_ok_def)
    ultimately show ?thesis by simp
  next
    case False
    have "\<exists>er. preflightInbound L now cs m q body fb = Some (Inl er, fb1)"
    proof (cases e)
      case (Some er)
      then show ?thesis using e(1) fb1(1) by (simp add: preflightInbound_def Let_def)
    next
      case None
      then show ?thesis using False e(1) fb1(1)
        by (cases "pn_logicalMin (wk_plan w) = 0") (simp_all add: preflightInbound_def Let_def)
    qed
    then show ?thesis using fb1 by auto
  qed
qed

lemma accepted_staged:
  assumes "accepted cs base p ss fb"
  shows "distinct (map st_msgID ss)" and "\<forall>s\<in>set ss. st_msgID s \<notin> fst ` set (cs_seen cs) \<and> 0 < st_msgID s \<and> st_msgID s \<le> max_int64"
    and "chain (set (cs_seen cs) \<union> set (map staged_rec ss))" and "cs_inv cs"
    and "\<exists>fb'. plan_close p fb = Some fb' \<and> frame_inv fb' \<and> fb_used fb' = base"
proof -
  obtain w where w: "wk_plan w = p" "ov_staged (wk_overlay w) = ss" "wk_frames w = fb" "walk_ok cs base w"
    using assms by (auto simp: accepted_def)
  then show "distinct (map st_msgID ss)" "\<forall>s\<in>set ss. st_msgID s \<notin> fst ` set (cs_seen cs) \<and> 0 < st_msgID s \<and> st_msgID s \<le> max_int64"
    "chain (set (cs_seen cs) \<union> set (map staged_rec ss))" "cs_inv cs"
    by (auto simp: walk_ok_def ov_inv_def ov_recs_def)
  show "\<exists>fb'. plan_close p fb = Some fb' \<and> frame_inv fb' \<and> fb_used fb' = base"
    using plan_close_ok [OF w(4)] w(1,3) by simp
qed

subsection \<open>A connection's frames\<close>

record in_frame =
  fr_now :: int
  fr_msgID :: int
  fr_seqNo :: int
  fr_body :: "byte list"
  fr_proceeds :: bool

text \<open>The outcome of a frame: the items it contributes and the ids it stages; nothing on rejection.\<close>

definition admit_frame ::
  "lib \<Rightarrow> in_frame \<Rightarrow> conn_state \<Rightarrow> frame_budget \<Rightarrow> ((preflight_error + plan \<times> staged list) \<times> conn_state \<times> frame_budget) option" where
  "admit_frame L f cs fb = do {
     (r, fb1) \<leftarrow> preflightInbound L (fr_now f) cs (fr_msgID f) (fr_seqNo f) (fr_body f) fb;
     case r of
       Inl e \<Rightarrow> Some (Inl e, cs, fb1)
     | Inr (p, ss) \<Rightarrow> do {
         fb2 \<leftarrow> plan_close p fb1;
         if \<not> fr_proceeds f then Some (Inr (p\<lparr>pn_items := [], pn_ackIDs := []\<rparr>, []), cs, fb2)
         else let cs1 = (if cs_createdFloor cs = 0 \<or> pn_logicalMin p < cs_createdFloor cs
                         then cs\<lparr>cs_createdFloor := pn_logicalMin p\<rparr> else cs)
              in Some (Inr (p, ss), commitState ss cs1, fb2) } }"

fun session_run :: "lib \<Rightarrow> in_frame list \<Rightarrow> conn_state \<Rightarrow> frame_budget \<Rightarrow> (item list \<times> int list \<times> conn_state \<times> frame_budget) option" where
  "session_run L [] cs fb = Some ([], [], cs, fb)"
| "session_run L (f # fs) cs fb = do {
     (r, cs1, fb1) \<leftarrow> admit_frame L f cs fb;
     (items, ids, cs2, fb2) \<leftarrow> session_run L fs cs1 fb1;
     Some (case r of Inl _ \<Rightarrow> (items, ids, cs2, fb2)
           | Inr (p, ss) \<Rightarrow> (pn_items p @ items, map st_msgID ss @ ids, cs2, fb2)) }"

text \<open>The table is the window of the last 400 staged ids.\<close>

definition window :: "int list \<Rightarrow> int list" where
  "window ids = drop (length ids - maxTrackedClientMsgIDs) ids"

lemma track_order:
  "length (cs_order cs) \<le> maxTrackedClientMsgIDs \<Longrightarrow>
   cs_order (trackInbound m q c s st cs) = drop (Suc (length (cs_order cs)) - maxTrackedClientMsgIDs) (cs_order cs @ [m])"
  by (cases "cs_order cs") (auto simp: trackInbound_def raise_content_def evict_oldest_def recomputeRange_def Let_def
      le_Suc_eq Suc_diff_le)

lemma window_snoc: "window (window ids @ [i]) = window (ids @ [i])"
proof (cases "length ids < maxTrackedClientMsgIDs")
  case False
  then have "Suc (length ids) - maxTrackedClientMsgIDs = Suc (length ids - maxTrackedClientMsgIDs)"
    "length (window ids) = maxTrackedClientMsgIDs" by (simp_all add: window_def)
  moreover have "0 < maxTrackedClientMsgIDs" by (simp add: maxTrackedClientMsgIDs_def)
  ultimately show ?thesis using False by (simp add: window_def)
qed (simp add: window_def)

lemma commit_order:
  assumes "cs_order cs = window ids"
  shows "cs_order (commitState ss cs) = window (ids @ map st_msgID ss)"
  using assms
proof (induction ss arbitrary: cs ids)
  case (Cons s ss)
  let ?c = "trackInbound (st_msgID s) (st_seqNo s) (st_content s) (st_service s) msgStateReceived cs"
  have "length (cs_order cs) \<le> maxTrackedClientMsgIDs" using Cons.prems by (simp add: window_def)
  then have "cs_order ?c = window (window ids @ [st_msgID s])" using Cons.prems by (simp add: track_order window_def)
  then have "cs_order ?c = window (ids @ [st_msgID s])" by (simp only: window_snoc)
  from Cons.IH [OF this] show ?case by (simp add: commitState_def)
qed (simp add: commitState_def)

end
