(* ===== verification/Inbound_Properties.thy ===== *)
theory Inbound_Properties
  imports Inbound_Session
begin

text \<open>The properties of inbound decoding, validation and tracking.\<close>

subsection \<open>Runs of a connection\<close>

definition gap_ok :: "int list \<Rightarrow> bool" where
  "gap_ok ids \<longleftrightarrow> (\<forall>xs i ys zs. ids = xs @ i # ys @ i # zs \<longrightarrow> maxTrackedClientMsgIDs \<le> length ys)"

lemma gap_ok_snoc:
  assumes "gap_ok h" and "i \<notin> set (window h)"
  shows "gap_ok (h @ [i])"
  unfolding gap_ok_def
proof (intro allI impI)
  fix xs j ys zs assume e: "h @ [i] = xs @ j # ys @ j # zs"
  show "maxTrackedClientMsgIDs \<le> length ys"
  proof (cases zs rule: rev_cases)
    case Nil
    then have h: "h = xs @ i # ys" "j = i" using e by (metis append_assoc append_Cons append1_eq_conv)+
    show ?thesis
    proof (rule ccontr)
      assume "\<not> ?thesis"
      then have "length h - maxTrackedClientMsgIDs \<le> length xs" by (simp add: h)
      then have "i \<in> set (window h)" by (auto simp: window_def h)
      then show False using assms(2) by simp
    qed
  next
    case (snoc zs' z)
    then have "h = xs @ j # ys @ j # zs'" using e by simp
    then show ?thesis using assms(1) unfolding gap_ok_def by blast
  qed
qed

lemma window_sub: "set (window xs) \<subseteq> set xs"
  by (simp add: window_def set_drop_subset)

lemma window_subset: "set (window (h @ [i])) \<subseteq> insert i (set (window h))"
  using window_sub [of "window h @ [i]"] unfolding window_snoc by simp

lemma gap_ok_append:
  "gap_ok h \<Longrightarrow> distinct ids \<Longrightarrow> set ids \<inter> set (window h) = {} \<Longrightarrow> gap_ok (h @ ids)"
proof (induction ids arbitrary: h)
  case (Cons i ids)
  have "set ids \<inter> set (window (h @ [i])) = {}" using window_subset [of h i] Cons.prems(2,3) by auto
  then show ?case using Cons.IH [OF gap_ok_snoc] Cons.prems by simp
qed simp

definition admitted_ids :: "item list \<Rightarrow> int list" where
  "admitted_ids items = map it_msgID (filter fresh_item items)"

lemma count_distinct: "distinct xs \<Longrightarrow> count_list xs i = (if i \<in> set xs then 1 else 0)"
  by (induction xs) auto

lemma count_distinct_subset: "distinct xs \<Longrightarrow> set xs \<subseteq> set ys \<Longrightarrow> count_list xs i \<le> count_list ys i"
  using count_list_0_iff [of ys i] by (auto simp: count_distinct)

lemma accepted_items:
  assumes "accepted cs base p ss fb"
  shows "count_list (admitted_ids (pn_items p)) i \<le> count_list (map st_msgID ss) i"
proof -
  have "distinct (admitted_ids (pn_items p))" "set (admitted_ids (pn_items p)) \<subseteq> set (map st_msgID ss)"
    using assms by (auto simp: accepted_def plan_ok_def admitted_ids_def)
  then show ?thesis by (rule count_distinct_subset)
qed

lemma cs_inv_floor: "cs_inv (cs\<lparr>cs_createdFloor := x\<rparr>) = cs_inv cs"
  by (simp add: cs_inv_def table_ok_def range_ok_def)

text \<open>The table of a connection whose staged ids so far are \<open>h\<close>.\<close>

definition tracks :: "conn_state \<Rightarrow> int list \<Rightarrow> bool" where
  "tracks cs h \<longleftrightarrow> cs_inv cs \<and> cs_order cs = window h \<and> gap_ok h \<and> (\<forall>p\<in>set (cs_seen cs). cr_state (snd p) = msgStateReceived)"

lemma tracks_new: "tracks newConnState []"
  by (simp add: tracks_def cs_inv_new window_def gap_ok_def) (simp add: newConnState_def)

lemma tracks_commit:
  assumes t: "tracks cs h" and S: "distinct (map st_msgID ss)"
    "\<forall>s\<in>set ss. st_msgID s \<notin> fst ` set (cs_seen cs) \<and> 0 < st_msgID s \<and> st_msgID s \<le> max_int64"
    "chain (set (cs_seen cs) \<union> set (map staged_rec ss))"
  shows "tracks (commitState ss (cs\<lparr>cs_createdFloor := x\<rparr>)) (h @ map st_msgID ss)"
proof -
  let ?c = "cs\<lparr>cs_createdFloor := x\<rparr>"
  have c: "cs_inv ?c" "cs_order ?c = window h" using t by (simp_all add: cs_inv_floor tracks_def)
  note ok = commit_ok [OF c(1) S(1)]
  have sub: "cs_inv (commitState ss ?c)" "set (cs_seen (commitState ss ?c)) \<subseteq> set (cs_seen cs) \<union> set (map staged_rec ss)"
    using ok S(2,3) by simp_all
  have "cs_order cs = window h" "set (cs_order cs) = fst ` set (cs_seen cs)" using t unfolding tracks_def cs_inv_def table_ok_def by blast+
  then have "set (window h) = fst ` set (cs_seen cs)" by simp
  then have "set (map st_msgID ss) \<inter> set (window h) = {}" using S(2) by auto
  then have "gap_ok (h @ map st_msgID ss)" using gap_ok_append [OF _ S(1)] t by (simp add: tracks_def)
  then show ?thesis using sub t commit_order [OF c(2), of ss] by (auto simp: tracks_def staged_rec_def)
qed

definition contributed :: "preflight_error + plan \<times> staged list \<Rightarrow> item list \<times> int list" where
  "contributed r = (case r of Inl _ \<Rightarrow> ([], []) | Inr (p, ss) \<Rightarrow> (pn_items p, map st_msgID ss))"

lemma admit_frame_ok:
  assumes t: "tracks cs h" and f: "frame_inv fb" "fr_msgID f \<le> max_int64"
  shows "\<exists>r cs' fb'. admit_frame L f cs fb = Some (r, cs', fb') \<and> tracks cs' (h @ snd (contributed r)) \<and>
    frame_inv fb' \<and> fb_used fb' = fb_used fb \<and> ((\<exists>e. r = Inl e) \<longrightarrow> cs' = cs) \<and>
    (\<forall>i. count_list (admitted_ids (fst (contributed r))) i \<le> count_list (snd (contributed r)) i)"
proof -
  have inv: "cs_inv cs" using t by (simp add: tracks_def)
  obtain r fb1 where r: "preflightInbound L (fr_now f) cs (fr_msgID f) (fr_seqNo f) (fr_body f) fb = Some (r, fb1)"
    "frame_inv fb1" "case r of Inl _ \<Rightarrow> fb_used fb1 = fb_used fb | Inr (p, ss) \<Rightarrow> accepted cs (fb_used fb) p ss fb1"
    using preflight_cases [OF inv f] by blast
  show ?thesis
  proof (cases r)
    case (Inl e)
    then show ?thesis using r t by (simp add: admit_frame_def admitted_ids_def contributed_def)
  next
    case (Inr ps)
    obtain p ss where ps: "ps = (p, ss)" by fastforce
    have acc: "accepted cs (fb_used fb) p ss fb1" using r(3) Inr ps by simp
    note S = accepted_staged [OF acc]
    obtain fb2 where fb2: "plan_close p fb1 = Some fb2" "frame_inv fb2" "fb_used fb2 = fb_used fb" using S(5) by blast
    show ?thesis
    proof (cases "fr_proceeds f")
      case False
      then show ?thesis using r(1) Inr ps fb2 t by (simp add: admit_frame_def admitted_ids_def contributed_def)
    next
      case True
      let ?x = "if cs_createdFloor cs = 0 \<or> pn_logicalMin p < cs_createdFloor cs then pn_logicalMin p else cs_createdFloor cs"
      have "admit_frame L f cs fb = Some (Inr (p, ss), commitState ss (cs\<lparr>cs_createdFloor := ?x\<rparr>), fb2)"
        using True r(1) Inr ps fb2(1) by (simp add: admit_frame_def Let_def)
      then show ?thesis using fb2 tracks_commit [OF t S(1-3)] accepted_items [OF acc] by (auto simp: contributed_def)
    qed
  qed
qed

lemma session_run_ok:
  assumes "tracks cs h" and "frame_inv fb" and "\<forall>f\<in>set fs. fr_msgID f \<le> max_int64"
  shows "\<exists>items ids cs' fb'. session_run L fs cs fb = Some (items, ids, cs', fb') \<and> tracks cs' (h @ ids) \<and>
    frame_inv fb' \<and> fb_used fb' = fb_used fb \<and> (\<forall>i. count_list (admitted_ids items) i \<le> count_list ids i)"
  using assms
proof (induction fs arbitrary: cs fb h)
  case Nil
  then show ?case by (simp add: admitted_ids_def)
next
  case (Cons f fs)
  obtain r cs1 fb1 where r: "admit_frame L f cs fb = Some (r, cs1, fb1)" "tracks cs1 (h @ snd (contributed r))"
    "frame_inv fb1" "fb_used fb1 = fb_used fb"
    "\<forall>i. count_list (admitted_ids (fst (contributed r))) i \<le> count_list (snd (contributed r)) i"
    using admit_frame_ok [OF Cons.prems(1,2), of f L] Cons.prems(3) by auto
  obtain items ids cs' fb' where t: "session_run L fs cs1 fb1 = Some (items, ids, cs', fb')"
    "tracks cs' ((h @ snd (contributed r)) @ ids)" "frame_inv fb'" "fb_used fb' = fb_used fb1"
    "\<forall>i. count_list (admitted_ids items) i \<le> count_list ids i"
    using Cons.IH [OF r(2,3)] Cons.prems(3) by auto
  have "session_run L (f # fs) cs fb = Some (fst (contributed r) @ items, snd (contributed r) @ ids, cs', fb')"
    using r(1) t(1) by (auto simp: contributed_def split: sum.splits)
  moreover have "count_list (admitted_ids (fst (contributed r) @ items)) i \<le> count_list (snd (contributed r) @ ids) i" for i
    using r(5) t(5) by (simp add: admitted_ids_def add_mono)
  ultimately show ?case using t r(4) by simp
qed

lemma session_tracks:
  assumes "frame_inv fb" and "\<forall>f\<in>set fs. fr_msgID f \<le> max_int64"
    and "session_run L fs newConnState fb = Some (items, ids, cs, fb')"
  shows "tracks cs ids" and "fb_used fb' = fb_used fb" and "count_list (admitted_ids items) i \<le> count_list ids i"
  using session_run_ok [OF tracks_new assms(1,2), of L] assms(3) by auto

subsection \<open>A concrete protocol library\<close>

text \<open>A small instance for the examples: the first four bytes select the class, ids are their own
  time, and the decompressor is the identity.\<close>

definition demo_class :: "nat \<Rightarrow> client_tl" where
  "demo_class n = (if n = 1 then TPing else if n = 2 then TContainer else if n = 3 then TGzip else if n = 5 then TMsgsAck else TApi)"

definition demo_lib :: lib where
  "demo_lib = \<lparr>lib_peek = (\<lambda>bs. if length bs < 4 then None else Some (le (take 4 bs))), lib_class = demo_class, lib_vector = 7,
     lib_time = (\<lambda>m. m), lib_fromClient = (\<lambda>m. m mod 4 = 0), lib_inflate = Some, lib_service = (\<lambda>_ _. True)\<rparr>"

definition demo_frames :: frame_budget where "demo_frames = \<lparr>fb_max = 2 ^ 30, fb_used = 0\<rparr>"

definition demo_call :: in_frame where
  "demo_call = \<lparr>fr_now = 0, fr_msgID = 8, fr_seqNo = 1, fr_body = put_le 4 9, fr_proceeds = True\<rparr>"

definition demo_container :: in_frame where
  "demo_container = \<lparr>fr_now = 0, fr_msgID = 24, fr_seqNo = 4, fr_body = container_bytes 2
     [\<lparr>mg_id = 16, mg_seqNo = 3, mg_body = put_le 4 9\<rparr>, \<lparr>mg_id = 20, mg_seqNo = 4, mg_body = put_le 4 1\<rparr>], fr_proceeds = True\<rparr>"

lemma demo_run_ok: "frame_inv demo_frames" "\<forall>f\<in>set [demo_call, demo_container, demo_call]. fr_msgID f \<le> max_int64"
  by (simp_all add: frame_inv_def demo_frames_def demo_call_def demo_container_def max_int64_def)

subsection \<open>Sessions\<close>

text \<open>C14: whatever frames a connection receives, handling them never panics, every byte reserved from
  the frame budget is returned, and the table holds exactly the last 400 staged ids, each once, its
  content messages ordered alike by id and by sequence number.\<close>

theorem session_table_exact:
  assumes "frame_inv fb" and "\<forall>f\<in>set fs. fr_msgID f \<le> max_int64"
  shows "case session_run L fs newConnState fb of None \<Rightarrow> False | Some (items, ids, cs, fb') \<Rightarrow>
    fb_used fb' = fb_used fb \<and> cs_order cs = window ids \<and> distinct (cs_order cs) \<and>
    set (cs_order cs) = fst ` set (cs_seen cs) \<and> length (cs_seen cs) \<le> maxTrackedClientMsgIDs \<and>
    (\<forall>(i, r)\<in>set (cs_seen cs). \<forall>(j, s)\<in>set (cs_seen cs).
       cr_content r \<and> cr_content s \<longrightarrow> (i < j \<longrightarrow> cr_seqNo r < cr_seqNo s))"
proof -
  obtain items ids cs fb' where r: "session_run L fs newConnState fb = Some (items, ids, cs, fb')"
    "tracks cs ids" "fb_used fb' = fb_used fb"
    using session_run_ok [OF tracks_new assms, of L] by auto
  have t: "cs_order cs = window ids" "table_ok maxTrackedClientMsgIDs cs" "chain (set (cs_seen cs))"
    using r(2) unfolding tracks_def cs_inv_def by blast+
  have d: "distinct (cs_order cs)" "set (cs_order cs) = fst ` set (cs_seen cs)" "distinct (map fst (cs_seen cs))"
    "length (cs_order cs) \<le> maxTrackedClientMsgIDs" using t(2) unfolding table_ok_def by blast+
  have "length (cs_seen cs) = length (cs_order cs)"
    using distinct_card [OF d(1)] distinct_card [OF d(3)] d(2) by simp
  moreover have "\<forall>(i, r)\<in>set (cs_seen cs). \<forall>(j, s)\<in>set (cs_seen cs).
       cr_content r \<and> cr_content s \<longrightarrow> (i < j \<longrightarrow> cr_seqNo r < cr_seqNo s)"
    using t(3) by (fastforce simp: chain_def compatible_def)
  ultimately show ?thesis using r t(1) d by simp
qed

theorem session_table_exact_witness:
  "case session_run demo_lib [demo_call, demo_container, demo_call] newConnState demo_frames of
    None \<Rightarrow> False | Some (items, ids, cs, fb') \<Rightarrow> fb_used fb' = 0 \<and> cs_order cs = window ids"
  using session_table_exact [OF demo_run_ok, of demo_lib] by (auto simp: demo_frames_def split: option.splits)

text \<open>C15: a message id is handed to the dispatcher as new no more often than it was staged, and an id
  is staged again only after at least 400 others: within the window a replay is always recognised.\<close>

theorem message_admitted_once_per_window:
  assumes "frame_inv fb" and "\<forall>f\<in>set fs. fr_msgID f \<le> max_int64"
  shows "case session_run L fs newConnState fb of None \<Rightarrow> False | Some (items, ids, cs, fb') \<Rightarrow>
    count_list (admitted_ids items) i \<le> count_list ids i \<and>
    (\<forall>xs ys zs. ids = xs @ i # ys @ i # zs \<longrightarrow> maxTrackedClientMsgIDs \<le> length ys)"
  using session_run_ok [OF tracks_new assms, of L] by (auto simp: tracks_def gap_ok_def)

theorem message_admitted_once_per_window_witness:
  "case session_run demo_lib [demo_call, demo_container, demo_call] newConnState demo_frames of
    None \<Rightarrow> False | Some (items, ids, cs, fb') \<Rightarrow> ids = [8, 24, 16, 20] \<and> map it_kind items = [ItemRPC, ItemRPC, ItemPing, ItemDuplicate] \<and>
      count_list (admitted_ids items) 8 \<le> count_list ids 8"
proof -
  have "case session_run demo_lib [demo_call, demo_container, demo_call] newConnState demo_frames of
    None \<Rightarrow> False | Some (items, ids, cs, fb') \<Rightarrow> ids = [8, 24, 16, 20] \<and> map it_kind items = [ItemRPC, ItemRPC, ItemPing, ItemDuplicate]"
    by code_simp
  then show ?thesis using message_admitted_once_per_window [OF demo_run_ok, where L = demo_lib and i = 8] by (auto split: option.splits)
qed

subsection \<open>State reports\<close>

text \<open>The abstract answer to a state request, from the staged ids alone.\<close>

definition window_state :: "int list \<Rightarrow> int \<Rightarrow> byte" where
  "window_state ids i =
     (if window ids = [] \<or> i < Min (set (window ids)) then msgStateUnknown
      else if i > Max (set (window ids)) then msgStateNotReceivedHigh
      else if i \<in> set (window ids) then msgStateReceived else msgStateNotReceived)"

lemma tracks_state:
  assumes "tracks cs ids"
  shows "cs_stateInfo cs qs = map (window_state ids) qs"
proof -
  have t: "cs_order cs = window ids" "table_ok maxTrackedClientMsgIDs cs" "range_ok cs"
    "\<forall>p\<in>set (cs_seen cs). cr_state (snd p) = msgStateReceived"
    using assms unfolding tracks_def cs_inv_def by blast+
  have S: "fst ` set (cs_seen cs) = set (window ids)" using t(1,2) by (simp add: table_ok_def)
  then have e: "cs_seen cs = [] \<longleftrightarrow> window ids = []" by (metis image_is_empty set_empty)
  have lk: "(case seenRecord cs i of None \<Rightarrow> msgStateNotReceived | Some r \<Rightarrow> cr_state r) =
      (if i \<in> set (window ids) then msgStateReceived else msgStateNotReceived)" for i
  proof (cases "seenRecord cs i")
    case None
    then have "i \<notin> set (window ids)" using S by (simp add: seenRecord_def map_of_eq_None_iff)
    then show ?thesis using None by simp
  next
    case (Some r)
    then have "(i, r) \<in> set (cs_seen cs)" by (auto simp: seenRecord_def dest: map_of_SomeD)
    then have "i \<in> set (window ids)" "cr_state r = msgStateReceived" using S t(4) by force+
    then show ?thesis using Some by simp
  qed
  show ?thesis using t(3) e by (auto simp: cs_stateInfo_def window_state_def range_ok_def S lk)
qed

text \<open>C16: what the table answers to a state request is determined by the sequence of staged ids: unknown
  below the window, not yet received above it, and inside it received exactly for the ids it holds.\<close>

theorem state_info_refines_window:
  assumes "frame_inv fb" and "\<forall>f\<in>set fs. fr_msgID f \<le> max_int64"
  shows "case session_run L fs newConnState fb of None \<Rightarrow> False | Some (items, ids, cs, fb') \<Rightarrow>
    cs_stateInfo cs qs = map (window_state ids) qs"
  using session_run_ok [OF tracks_new assms, of L] tracks_state by auto

theorem state_info_refines_window_witness:
  "case session_run demo_lib [demo_call, demo_container, demo_call] newConnState demo_frames of None \<Rightarrow> False
    | Some (items, ids, cs, fb') \<Rightarrow> cs_stateInfo cs [4, 8, 12, 28] = map (window_state ids) [4, 8, 12, 28]"
  using state_info_refines_window [OF demo_run_ok, where L = demo_lib and qs = "[4, 8, 12, 28]"] .

text \<open>C17: on every table a connection reaches, the sequence check with its fast path answers exactly as
  the comparison with every tracked content message.\<close>

theorem sequence_check_is_full_scan:
  assumes "frame_inv fb" and "\<forall>f\<in>set fs. fr_msgID f \<le> max_int64"
  shows "case session_run L fs newConnState fb of None \<Rightarrow> False | Some (items, ids, cs, fb') \<Rightarrow>
    validateSeq cs m q content = (if content then scan_seq (cs_seen cs) m q else None) \<and>
    (validateSeq cs m q True = None \<longleftrightarrow> (\<forall>(i, r)\<in>set (cs_seen cs). cr_content r \<longrightarrow>
       (i < m \<longrightarrow> cr_seqNo r < q) \<and> (m < i \<longrightarrow> q < cr_seqNo r)))"
proof -
  obtain items ids cs fb' where r: "session_run L fs newConnState fb = Some (items, ids, cs, fb')" "cs_inv cs"
    using session_run_ok [OF tracks_new assms, of L] by (auto simp: tracks_def)
  have "validateSeq cs m q True = None \<longleftrightarrow> (\<forall>p\<in>set (cs_seen cs). compatible p m q)"
    by (simp add: validateSeq_scan [OF r(2)] scan_seq_None)
  then show ?thesis using r validateSeq_scan [OF r(2)] by (auto simp: compatible_def)
qed

theorem sequence_check_is_full_scan_witness:
  "case session_run demo_lib [demo_call, demo_container, demo_call] newConnState demo_frames of None \<Rightarrow> False
    | Some (items, ids, cs, fb') \<Rightarrow> validateSeq cs 12 5 True = scan_seq (cs_seen cs) 12 5"
  using sequence_check_is_full_scan [OF demo_run_ok, where L = demo_lib and m = 12 and q = 5 and content = True] by (auto split: option.splits)

subsection \<open>One frame\<close>

text \<open>C18: an accepted frame yields at most 1024 items of which the content-related ones, and only
  those, are acknowledged in order; new items are distinct ids unknown to the table, an item already
  known to the table is a duplicate, and the recorded minimum is that of the items.\<close>

theorem preflight_plan_exact:
  assumes "cs_inv cs" and "frame_inv fb" and "m \<le> max_int64"
    and "preflightInbound L now cs m q body fb = Some (Inr (p, ss), fb')"
  shows "pn_ackIDs p = map it_msgID (filter it_content (pn_items p)) \<and>
    length (pn_items p) \<le> maxContainerMessages \<and> distinct (admitted_ids (pn_items p)) \<and>
    (\<forall>i\<in>set (pn_items p). (fresh_item i \<longrightarrow> it_msgID i \<in> set (map st_msgID ss) - set (cs_order cs)) \<and>
       it_msgID i \<in> set (map st_msgID ss) \<union> set (cs_order cs)) \<and>
    (pn_items p \<noteq> [] \<longrightarrow> pn_logicalMin p = Min (it_msgID ` set (pn_items p)))"
proof -
  have acc: "accepted cs (fb_used fb) p ss fb'" using preflight_cases [OF assms(1-3), of L now q body] assms(4) by auto
  then obtain w :: walk where w: "ov_staged (wk_overlay w) = ss" "ov_base (wk_overlay w) = cs" "plan_ok (wk_overlay w) p"
    "min_ok p \<or> pn_items p = []" "length (pn_items p) \<le> maxContainerMessages"
    unfolding accepted_def walk_ok_def by blast
  have o: "set (cs_order cs) = fst ` set (cs_seen cs)" using assms(1) by (simp add: cs_inv_def table_ok_def)
  have "st_msgID ` set ss \<inter> set (cs_order cs) = {}" using accepted_staged(2) [OF acc] unfolding o by blast
  then have "\<forall>i\<in>set (pn_items p). (fresh_item i \<longrightarrow> it_msgID i \<in> set (map st_msgID ss) - set (cs_order cs)) \<and>
       it_msgID i \<in> set (map st_msgID ss) \<union> set (cs_order cs)"
    using w(3) unfolding plan_ok_def ov_recs_ids w(1,2) set_map o by blast
  then show ?thesis using w(3-5) unfolding plan_ok_def admitted_ids_def min_ok_def by auto
qed

theorem preflight_plan_exact_witness:
  "\<exists>p ss fb'. preflightInbound demo_lib 0 newConnState 24 4 (fr_body demo_container) demo_frames = Some (Inr (p, ss), fb') \<and>
    pn_ackIDs p = map it_msgID (filter it_content (pn_items p)) \<and> pn_ackIDs p = [16] \<and> map it_msgID (pn_items p) = [16, 20]"
proof -
  have "case preflightInbound demo_lib 0 newConnState 24 4 (fr_body demo_container) demo_frames of
      Some (Inr (p, ss), fb') \<Rightarrow> pn_ackIDs p = [16] \<and> map it_msgID (pn_items p) = [16, 20] | _ \<Rightarrow> False" by code_simp
  then obtain p ss fb' where r: "preflightInbound demo_lib 0 newConnState 24 4 (fr_body demo_container) demo_frames = Some (Inr (p, ss), fb')"
    "pn_ackIDs p = [16]" "map it_msgID (pn_items p) = [16, 20]" by (auto split: option.splits sum.splits)
  have "(24 :: int) \<le> max_int64" by (simp add: max_int64_def)
  from preflight_plan_exact [OF cs_inv_new demo_run_ok(1) this r(1)]
  show ?thesis by (intro exI [of _ p] exI [of _ ss] exI [of _ fb']) (use r in simp)
qed

text \<open>C19: a frame that fails validation changes nothing: the table is as before and every reservation
  made on the way is returned.\<close>

theorem rejected_frame_leaves_no_trace:
  assumes "tracks cs h" and "frame_inv fb" and "fr_msgID f \<le> max_int64"
    and "admit_frame L f cs fb = Some (Inl e, cs', fb')"
  shows "cs' = cs \<and> fb_used fb' = fb_used fb"
  using admit_frame_ok [OF assms(1-3), of L] assms(4) by auto

theorem rejected_frame_leaves_no_trace_witness:
  "\<exists>e cs' fb'. admit_frame demo_lib (demo_container\<lparr>fr_seqNo := 3\<rparr>) newConnState demo_frames = Some (Inl e, cs', fb') \<and>
    cs' = newConnState \<and> fb_used fb' = 0"
proof -
  let ?f = "demo_container\<lparr>fr_seqNo := 3\<rparr>"
  have "map_option (\<lambda>(r, _). isl r) (admit_frame demo_lib ?f newConnState demo_frames) = Some True"
    by code_simp
  then obtain e cs' fb' where r: "admit_frame demo_lib ?f newConnState demo_frames = Some (Inl e, cs', fb')"
    by (auto simp: isl_def)
  have "fr_msgID ?f \<le> max_int64" by (simp add: demo_container_def max_int64_def)
  from rejected_frame_leaves_no_trace [OF tracks_new demo_run_ok(1) this r] show ?thesis
    using r by (simp add: demo_frames_def)
qed

subsection \<open>Wire formats\<close>

text \<open>C20: decoding a message container gives back the messages it was encoded from.\<close>

theorem container_decodes_encoding:
  assumes "\<forall>m\<in>set ms. message_ok m" and "length ms \<le> maxContainerMessages" and "t < 2 ^ 32"
  shows "containerMessageCount t (container_bytes t ms) = Ok (int (length ms)) \<and>
    decodeMessageContainerViews t (container_bytes t ms) (int (length ms)) = Ok ms"
  using container_roundtrip [OF assms] by simp

theorem container_decodes_encoding_witness:
  "decodeMessageContainerViews 2 (container_bytes 2 [\<lparr>mg_id = - 5, mg_seqNo = 3, mg_body = [1, 2]\<rparr>]) 1 =
     Ok [\<lparr>mg_id = - 5, mg_seqNo = 3, mg_body = [1, 2]\<rparr>]"
  using container_decodes_encoding [of "[\<lparr>mg_id = - 5, mg_seqNo = 3, mg_body = [1, 2]\<rparr>]" 2]
  by (simp add: message_ok_def in_int64_def maxContainerBody_def maxContainerMessages_def max_int64_def)

text \<open>Decoding a TL byte string or a vector of 64-bit ids gives back what was encoded, whatever
  follows the byte string.\<close>

theorem service_payloads_decode_encoding:
  assumes "length p < 2 ^ 24" and "k < 0 \<or> int (length p) \<le> k" and "\<forall>x\<in>set xs. in_int64 x" and "length xs \<le> n"
    and "n < 2 ^ 31" and "t < 2 ^ 32" and "tv < 2 ^ 32"
  shows "tlBytesView (tl_bytes p @ rest) k = Ok (p, length (tl_bytes p)) \<and>
    and_then (decodeInt64VectorView tv (vector_bytes tv t xs) t n) (materialize (length xs)) = Ok xs"
  using tl_roundtrip [OF assms(1,2)] vector_roundtrip [OF assms(4-7)] materialize_roundtrip [OF assms(3)] by simp

theorem service_payloads_decode_encoding_witness:
  "tlBytesView (tl_bytes [1, 2] @ [9]) (- 1) = Ok ([1, 2], length (tl_bytes [1, 2])) \<and>
    and_then (decodeInt64VectorView 7 (vector_bytes 7 5 [3, - 4]) 5 10) (materialize (length [3, - 4 :: int])) = Ok [3, - 4]"
  using service_payloads_decode_encoding [of "[1, 2]" "- 1" "[3, - 4]" 10 5 7 "[9]"]
  by (simp add: in_int64_def)

text \<open>C21: no inbound decoder reads outside its buffer, whatever the bytes, and what it returns lies
  within the buffer and the protocol's limits.\<close>

theorem decoders_stay_in_bounds:
  "(case tlBytesView raw k of Ok (p, c) \<Rightarrow> length p \<le> c \<and> c \<le> length raw \<and> (0 \<le> k \<longrightarrow> int (length p) \<le> k)
      | Fail _ \<Rightarrow> True | Panic \<Rightarrow> False) \<and>
   (case decodeInt64VectorView tv raw t n of Ok ids \<Rightarrow> length ids \<le> 8 * n \<and> 12 + length ids = length raw
      | Fail _ \<Rightarrow> True | Panic \<Rightarrow> False) \<and>
   (case decodeMessageContainerViews t raw c of
        Ok ms \<Rightarrow> length ms \<le> maxContainerMessages \<and> length raw = 8 + 16 * length ms + sum_list (map (\<lambda>m. length (mg_body m)) ms)
      | Fail _ \<Rightarrow> True | Panic \<Rightarrow> False) \<and>
   gzipPackedBytesView t raw \<noteq> Panic \<and> msgsStateInfoView t raw \<noteq> Panic \<and> msgsAllInfoView tv raw \<noteq> Panic \<and>
   containerMessageCount t raw \<noteq> Panic"
proof (intro conjI views_no_panic)
  show "case tlBytesView raw k of Ok (p, c) \<Rightarrow> length p \<le> c \<and> c \<le> length raw \<and> (0 \<le> k \<longrightarrow> int (length p) \<le> k)
      | Fail _ \<Rightarrow> True | Panic \<Rightarrow> False"
    using tlBytesView_no_panic [of raw k] tlBytesView_bounds [of raw k] by (auto split: decoded.splits)
  show "case decodeInt64VectorView tv raw t n of Ok ids \<Rightarrow> length ids \<le> 8 * n \<and> 12 + length ids = length raw
      | Fail _ \<Rightarrow> True | Panic \<Rightarrow> False"
    using decodeInt64VectorView_safe [where tv = tv and bs = raw and t = t and m = n] by (auto split: decoded.splits)
  show "case decodeMessageContainerViews t raw c of
        Ok ms \<Rightarrow> length ms \<le> maxContainerMessages \<and> length raw = 8 + 16 * length ms + sum_list (map (\<lambda>m. length (mg_body m)) ms)
      | Fail _ \<Rightarrow> True | Panic \<Rightarrow> False"
    using container_safe [where t = t and bs = raw and c = c] by (auto split: decoded.splits)
qed

theorem decoders_stay_in_bounds_witness:
  "tlBytesView [254, 1] 5 \<noteq> Panic \<and> gzipPackedBytesView 3 [1] \<noteq> Panic"
  using decoders_stay_in_bounds [where raw = "[254, 1]" and k = 5] decoders_stay_in_bounds [where raw = "[1]" and t = 3]
  by (auto split: decoded.split_asm)

end
