(* ===== verification/Rpc_Scheduler.thy ===== *)
theory Rpc_Scheduler
  imports Prelude
begin

text \<open>
  The shared scheduler of inbound RPCs (inbound_rpc.go): global and per-connection budgets, batches
  admitted as one unit, the ready queue with one token per connection, dependency gates, the replay
  barrier, expiry of queued requests and closing. Each definition is one critical section of the
  code; what a thread does after leaving it is returned as a flag (publish the connection,
  unschedule it) or as the reservations still to release. Handlers, contexts and metrics are not
  state of the scheduler.
\<close>

definition maxInflightRPCBytes :: int where "maxInflightRPCBytes = 32 * 2 ^ 20"

datatype rpc_error = RpcConnClosed | RpcQueueFull | RpcBatchTaskCount | RpcBatchSelection | RpcContextDone

record rpc_task =
  tk_method :: string
  tk_size :: int
  tk_budget :: nat
  tk_ticket :: nat
  tk_gate :: "nat option"
  tk_enqueuedAt :: int
  tk_deadline :: "int option"

subsection \<open>Gates\<close>

record rpc_gate =
  ga_remaining :: int
  ga_failed :: bool
  ga_ready :: bool

definition newInboundRPCGate :: "int \<Rightarrow> rpc_gate" where
  "newInboundRPCGate prerequisites = \<lparr>ga_remaining = max 0 prerequisites + 1, ga_failed = False, ga_ready = False\<rparr>"

text \<open>The flag tells that \<open>wake\<close> is called.\<close>

definition gate_resolve :: "bool \<Rightarrow> rpc_gate \<Rightarrow> (bool \<times> rpc_gate) option" where
  "gate_resolve success g =
     (let g1 = (if success then g else g\<lparr>ga_failed := True\<rparr>);
          g2 = g1\<lparr>ga_remaining := ga_remaining g1 - 1\<rparr>
      in if ga_remaining g2 < 0 then None
         else if ga_remaining g2 = 0 \<and> \<not> ga_ready g2 then Some (True, g2\<lparr>ga_ready := True\<rparr>)
         else Some (False, g2))"

definition gate_runnable :: "rpc_gate option \<Rightarrow> bool" where
  "gate_runnable g = (case g of None \<Rightarrow> True | Some x \<Rightarrow> ga_ready x)"

definition gate_success :: "rpc_gate option \<Rightarrow> bool" where
  "gate_success g = (case g of None \<Rightarrow> True | Some x \<Rightarrow> ga_ready x \<and> \<not> ga_failed x)"

subsection \<open>The global budget\<close>

record global_res =
  gr_size :: int
  gr_released :: bool

record scheduler =
  sc_maxTasks :: int
  sc_maxBytes :: int
  sc_ready :: "nat list"
  sc_started :: bool
  sc_stopped :: bool
  sc_workersStarted :: bool
  sc_tasks :: int
  sc_bytes :: int
  sc_res :: "nat \<rightharpoonup> global_res"
  sc_next :: nat

definition newInboundRPCScheduler :: "int \<Rightarrow> int \<Rightarrow> scheduler" where
  "newInboundRPCScheduler maxTasks maxBytes =
     \<lparr>sc_maxTasks = (if maxTasks \<le> 0 then 1 else maxTasks), sc_maxBytes = (if maxBytes \<le> 0 then 1 else maxBytes),
      sc_ready = [], sc_started = False, sc_stopped = False, sc_workersStarted = False, sc_tasks = 0, sc_bytes = 0, sc_res = Map.empty, sc_next = 0\<rparr>"

text \<open>Starting: whether workers are to be ensured at once.\<close>

definition scheduler_start :: "scheduler \<Rightarrow> bool \<times> scheduler" where
  "scheduler_start s = (if sc_stopped s then (False, s) else (sc_ready s \<noteq> [], s\<lparr>sc_started := True\<rparr>))"

definition ensureWorkers :: "scheduler \<Rightarrow> scheduler" where
  "ensureWorkers s = (if \<not> sc_started s \<or> sc_stopped s \<or> sc_workersStarted s then s else s\<lparr>sc_workersStarted := True\<rparr>)"

definition scheduler_stop :: "scheduler \<Rightarrow> scheduler" where
  "scheduler_stop s = s\<lparr>sc_stopped := True\<rparr>"

text \<open>The loop over the sizes subtracts from what remains instead of adding to the total in use.\<close>

fun reserve_sizes :: "int \<Rightarrow> int \<Rightarrow> int list \<Rightarrow> int option" where
  "reserve_sizes remaining used [] = Some used"
| "reserve_sizes remaining used (x # xs) =
     (let size = (if x < 0 then 0 else x)
      in if size > remaining - used then None else reserve_sizes remaining (used + size) xs)"

fun put_reservations :: "nat \<Rightarrow> int list \<Rightarrow> (nat \<rightharpoonup> global_res) \<Rightarrow> (nat \<rightharpoonup> global_res)" where
  "put_reservations k [] m = m"
| "put_reservations k (x # xs) m =
     put_reservations (Suc k) xs (m(k \<mapsto> \<lparr>gr_size = (if x < 0 then 0 else x), gr_released = False\<rparr>))"

definition reserveGlobalBatch :: "int list \<Rightarrow> scheduler \<Rightarrow> (rpc_error + nat list) \<times> scheduler" where
  "reserveGlobalBatch sizes s =
     (if sc_stopped s then (Inl RpcConnClosed, s)
      else if int (length sizes) > sc_maxTasks s - sc_tasks s then (Inl RpcQueueFull, s)
      else case reserve_sizes (sc_maxBytes s - sc_bytes s) 0 sizes of
        None \<Rightarrow> (Inl RpcQueueFull, s)
      | Some used \<Rightarrow> (Inr [sc_next s..<sc_next s + length sizes],
          s\<lparr>sc_tasks := sc_tasks s + int (length sizes), sc_bytes := sc_bytes s + used,
            sc_res := put_reservations (sc_next s) sizes (sc_res s), sc_next := sc_next s + length sizes\<rparr>))"

text \<open>A release is idempotent: the flag of the reservation is taken once.\<close>

definition reservation_release :: "nat \<Rightarrow> scheduler \<Rightarrow> scheduler" where
  "reservation_release r s =
     (case sc_res s r of
        None \<Rightarrow> s
      | Some g \<Rightarrow> if gr_released g then s
          else s\<lparr>sc_res := (sc_res s)(r \<mapsto> g\<lparr>gr_released := True\<rparr>), sc_tasks := sc_tasks s - 1,
                 sc_bytes := sc_bytes s - gr_size g\<rparr>)"

fun take_flags :: "nat list \<Rightarrow> (nat \<rightharpoonup> global_res) \<Rightarrow> int \<times> int \<times> (nat \<rightharpoonup> global_res)" where
  "take_flags [] m = (0, 0, m)"
| "take_flags (r # rs) m =
     (case m r of
        None \<Rightarrow> take_flags rs m
      | Some g \<Rightarrow> if gr_released g then take_flags rs m
          else let (n, b, m') = take_flags rs (m(r \<mapsto> g\<lparr>gr_released := True\<rparr>)) in (n + 1, b + gr_size g, m'))"

definition releaseInboundRPCGlobalBatch :: "nat list \<Rightarrow> scheduler \<Rightarrow> scheduler" where
  "releaseInboundRPCGlobalBatch rs s =
     (let (n, b, m) = take_flags rs (sc_res s)
      in s\<lparr>sc_res := m, sc_tasks := sc_tasks s - n, sc_bytes := sc_bytes s - b\<rparr>)"

subsection \<open>The ready queue\<close>

definition enqueueReady :: "nat \<Rightarrow> scheduler \<Rightarrow> bool \<times> scheduler" where
  "enqueueReady i s =
     (if sc_stopped s \<or> i \<in> set (sc_ready s) then (False, s) else (True, s\<lparr>sc_ready := sc_ready s @ [i]\<rparr>))"

definition popReady :: "scheduler \<Rightarrow> nat option \<times> scheduler" where
  "popReady s = (case sc_ready s of [] \<Rightarrow> (None, s) | i # is \<Rightarrow> (Some i, s\<lparr>sc_ready := is\<rparr>))"

definition unschedule :: "nat \<Rightarrow> scheduler \<Rightarrow> scheduler" where
  "unschedule i s = s\<lparr>sc_ready := removeAll i (sc_ready s)\<rparr>"

subsection \<open>Connections\<close>

record rpc_conn =
  rq_queue :: "rpc_task list"
  rq_reserved :: int
  rq_running :: int
  rq_ready :: bool
  rq_closed :: bool
  rq_retired :: bool
  rq_inflight :: int
  rq_restores :: int
  rq_maxInflight :: int
  rq_queueSize :: int
  rq_timeout :: int

definition startInboundRPCScheduler :: "int \<Rightarrow> int \<Rightarrow> int \<Rightarrow> rpc_conn" where
  "startInboundRPCScheduler maxInflight queueSize timeout =
     \<lparr>rq_queue = [], rq_reserved = 0, rq_running = 0, rq_ready = False, rq_closed = False, rq_retired = False,
      rq_inflight = 0, rq_restores = 0, rq_maxInflight = (if maxInflight \<le> 0 then 1 else maxInflight),
      rq_queueSize = (if queueSize \<le> 0 then 1 else queueSize), rq_timeout = timeout\<rparr>"

definition schedule_conn :: "nat \<Rightarrow> rpc_conn \<Rightarrow> scheduler \<Rightarrow> bool \<times> scheduler" where
  "schedule_conn i c s = (if rq_ready c \<and> \<not> rq_closed c then enqueueReady i s else (False, s))"

definition hasRunnableInboundRPC :: "(rpc_task \<Rightarrow> bool) \<Rightarrow> rpc_conn \<Rightarrow> bool" where
  "hasRunnableInboundRPC run c = (if rq_restores c > 0 then False else list_ex run (rq_queue c))"

text \<open>The condition under which a section publishes the connection, and the publication.\<close>

definition publish :: "(rpc_task \<Rightarrow> bool) \<Rightarrow> rpc_conn \<Rightarrow> bool \<times> rpc_conn" where
  "publish run c =
     (if \<not> rq_closed c \<and> rq_running c < rq_maxInflight c \<and> \<not> rq_ready c \<and> hasRunnableInboundRPC run c
      then (True, c\<lparr>rq_ready := True\<rparr>) else (False, c))"

fun take_first :: "('a \<Rightarrow> bool) \<Rightarrow> 'a list \<Rightarrow> ('a \<times> 'a list) option" where
  "take_first p [] = None"
| "take_first p (x # xs) = (if p x then Some (x, xs) else map_option (\<lambda>(t, r). (t, x # r)) (take_first p xs))"

definition takeInboundRPC :: "(rpc_task \<Rightarrow> bool) \<Rightarrow> rpc_conn \<Rightarrow> rpc_task option \<times> bool \<times> rpc_conn" where
  "takeInboundRPC run c =
     (if \<not> rq_ready c then (None, False, c)
      else let c1 = c\<lparr>rq_ready := False\<rparr>
           in if rq_closed c1 \<or> rq_queue c1 = [] \<or> rq_running c1 \<ge> rq_maxInflight c1 then (None, False, c1)
              else case take_first run (rq_queue c1) of
                None \<Rightarrow> (None, False, c1)
              | Some (t, rest) \<Rightarrow>
                  let c2 = c1\<lparr>rq_queue := rest, rq_running := rq_running c1 + 1\<rparr>
                  in if rq_running c2 < rq_maxInflight c2 \<and> hasRunnableInboundRPC run c2
                     then (Some t, True, c2\<lparr>rq_ready := True\<rparr>) else (Some t, False, c2))"

definition wakeInboundRPC :: "(rpc_task \<Rightarrow> bool) \<Rightarrow> rpc_conn \<Rightarrow> bool \<times> rpc_conn" where
  "wakeInboundRPC run c = publish run c"

datatype run_outcome = HandlerRuns | QueueTimeout | ContextDone

definition runInboundRPC :: "int \<Rightarrow> bool \<Rightarrow> bool \<Rightarrow> rpc_task \<Rightarrow> run_outcome" where
  "runInboundRPC now deadlineExceeded ctxErr t =
     (if (case tk_deadline t of None \<Rightarrow> False | Some d \<Rightarrow> now \<ge> d) \<or> deadlineExceeded then QueueTimeout
      else if ctxErr then ContextDone else HandlerRuns)"

definition finishInboundRPC :: "(rpc_task \<Rightarrow> bool) \<Rightarrow> rpc_task \<Rightarrow> rpc_conn \<Rightarrow> bool \<times> rpc_conn" where
  "finishInboundRPC run t c =
     publish run (c\<lparr>rq_running := rq_running c - 1, rq_inflight := rq_inflight c - tk_size t\<rparr>)"

text \<open>The expired task, whether the connection is to be unscheduled, and the connection.\<close>

definition expireInboundRPCTicket :: "nat \<Rightarrow> rpc_conn \<Rightarrow> rpc_task option \<times> bool \<times> rpc_conn" where
  "expireInboundRPCTicket ticket c =
     (case take_first (\<lambda>t. tk_ticket t = ticket) (rq_queue c) of
        None \<Rightarrow> (None, False, c)
      | Some (t, rest) \<Rightarrow>
          let c1 = c\<lparr>rq_queue := rest, rq_inflight := rq_inflight c - tk_size t\<rparr>
          in if rest = [] \<and> rq_ready c then (Some t, True, c1\<lparr>rq_ready := False\<rparr>) else (Some t, False, c1))"

text \<open>The replay barrier: whether it is active, whether to unschedule; and its completion, where \<open>None\<close>
  is the panic on underflow.\<close>

definition beginRPCReplayRestore :: "rpc_conn \<Rightarrow> bool \<times> bool \<times> rpc_conn" where
  "beginRPCReplayRestore c =
     (if rq_closed c \<or> rq_retired c then (False, False, c)
      else let c1 = c\<lparr>rq_restores := rq_restores c + 1\<rparr>
           in if rq_ready c1 then (True, True, c1\<lparr>rq_ready := False\<rparr>) else (True, False, c1))"

definition endRPCReplayRestore :: "(rpc_task \<Rightarrow> bool) \<Rightarrow> rpc_conn \<Rightarrow> (bool \<times> rpc_conn) option" where
  "endRPCReplayRestore run c =
     (let c1 = c\<lparr>rq_restores := rq_restores c - 1\<rparr>
      in if rq_restores c1 < 0 then None
         else Some (if rq_restores c1 = 0 then publish run c1 else (False, c1)))"

text \<open>Closing returns the queued tasks, whose reservations are released after the section.\<close>

definition beginCloseInboundRPCScheduler :: "rpc_conn \<Rightarrow> rpc_task list \<times> rpc_conn" where
  "beginCloseInboundRPCScheduler c =
     (rq_queue c, c\<lparr>rq_closed := True, rq_ready := False, rq_queue := [],
        rq_inflight := rq_inflight c - sum_list (map tk_size (rq_queue c))\<rparr>)"

subsection \<open>Batches\<close>

record rpc_entry =
  be_global :: nat
  be_method :: string
  be_size :: int

record rpc_batch =
  ba_conn :: nat
  ba_entries :: "rpc_entry list"
  ba_totalSize :: int
  ba_ctxDeadline :: "int option"

record rpc_spec =
  sp_method :: string
  sp_size :: int

definition normalized :: "rpc_spec list \<Rightarrow> rpc_spec list" where
  "normalized specs = map (\<lambda>s. if sp_size s < 0 then s\<lparr>sp_size := 0\<rparr> else s) specs"

definition batch_of :: "nat \<Rightarrow> rpc_spec list \<Rightarrow> nat list \<Rightarrow> int option \<Rightarrow> rpc_batch" where
  "batch_of i specs globals dl =
     \<lparr>ba_conn = i, ba_entries = map2 (\<lambda>s g. \<lparr>be_global = g, be_method = sp_method s, be_size = sp_size s\<rparr>) specs globals,
      ba_totalSize = sum_list (map sp_size specs), ba_ctxDeadline = dl\<rparr>"

definition globals_of :: "rpc_batch \<Rightarrow> nat list" where
  "globals_of b = map be_global (ba_entries b)"

text \<open>\<open>reserveInboundRPCBatch\<close>, in its two sections.\<close>

definition reserve_global_part ::
  "nat \<Rightarrow> rpc_spec list \<Rightarrow> int option \<Rightarrow> rpc_conn \<Rightarrow> scheduler \<Rightarrow> (rpc_error + rpc_batch) \<times> scheduler" where
  "reserve_global_part i specs dl c s =
     (if rq_retired c then (Inl RpcConnClosed, s)
      else let ns = normalized specs
           in case reserveGlobalBatch (map sp_size ns) s of
                (Inl e, s') \<Rightarrow> (Inl e, s')
              | (Inr gs, s') \<Rightarrow> (Inr (batch_of i ns gs dl), s'))"

definition reserve_conn_part :: "bool \<Rightarrow> rpc_batch \<Rightarrow> rpc_conn \<Rightarrow> rpc_error + rpc_conn" where
  "reserve_conn_part ctxDone b c =
     (if ctxDone then Inl RpcContextDone
      else if rq_closed c \<or> rq_retired c then Inl RpcConnClosed
      else if int (length (ba_entries b)) > rq_queueSize c - rq_reserved c - int (length (rq_queue c)) then Inl RpcQueueFull
      else if ba_totalSize b > maxInflightRPCBytes - rq_inflight c then Inl RpcQueueFull
      else Inr (c\<lparr>rq_reserved := rq_reserved c + int (length (ba_entries b)),
                  rq_inflight := rq_inflight c + ba_totalSize b\<rparr>))"

text \<open>\<open>growEntry\<close> holds both locks.\<close>

definition growEntry ::
  "nat \<Rightarrow> int \<Rightarrow> bool \<Rightarrow> rpc_batch \<Rightarrow> rpc_conn \<Rightarrow> scheduler \<Rightarrow> rpc_error + rpc_batch \<times> rpc_conn \<times> scheduler" where
  "growEntry index targetSize ctxDone b c s =
     (if index \<ge> length (ba_entries b) \<or> targetSize < 0 then Inl RpcBatchSelection
      else let entry = ba_entries b ! index
           in if targetSize \<le> be_size entry then Inr (b, c, s)
              else case sc_res s (be_global entry) of
                None \<Rightarrow> Inl RpcConnClosed
              | Some g \<Rightarrow>
                  if gr_released g then Inl RpcConnClosed
                  else let delta = targetSize - be_size entry
                       in if sc_stopped s then Inl RpcConnClosed
                          else if delta > sc_maxBytes s - sc_bytes s then Inl RpcQueueFull
                          else if ctxDone then Inl RpcContextDone
                          else if rq_closed c \<or> rq_retired c then Inl RpcConnClosed
                          else if delta > maxInflightRPCBytes - rq_inflight c then Inl RpcQueueFull
                          else Inr (b\<lparr>ba_entries := (ba_entries b)[index := entry\<lparr>be_size := targetSize\<rparr>],
                                      ba_totalSize := ba_totalSize b + delta\<rparr>,
                                    c\<lparr>rq_inflight := rq_inflight c + delta\<rparr>,
                                    s\<lparr>sc_bytes := sc_bytes s + delta,
                                      sc_res := (sc_res s)(be_global entry \<mapsto> g\<lparr>gr_size := gr_size g + delta\<rparr>)\<rparr>))"

text \<open>The selection loop of \<open>retain\<close>: the retained entries and the removed ones, or \<open>None\<close> when the
  indices are not strictly increasing and in range or a charge would grow. \<open>selected\<close> counts the
  entries already consumed.\<close>

fun retain_loop ::
  "nat \<Rightarrow> rpc_entry list \<Rightarrow> (nat \<times> rpc_spec) list \<Rightarrow> (rpc_entry list \<times> rpc_entry list) option" where
  "retain_loop selected es [] = Some ([], es)"
| "retain_loop selected [] ((index, sp) # xs) = None"
| "retain_loop selected (e # es) ((index, sp) # xs) =
     (if index < selected then None
      else if selected < index
      then map_option (\<lambda>(keep, gone). (keep, e # gone)) (retain_loop (Suc selected) es ((index, sp) # xs))
      else if sp_size sp > be_size e then None
      else map_option (\<lambda>(keep, gone). (e\<lparr>be_method := sp_method sp\<rparr> # keep, gone)) (retain_loop (Suc selected) es xs))"

text \<open>The retained batch, the connection and the reservations to release; \<open>True\<close> when nothing is left and
  the batch ends.\<close>

definition batch_retain ::
  "nat list \<Rightarrow> rpc_spec list \<Rightarrow> rpc_batch \<Rightarrow> rpc_conn \<Rightarrow> rpc_error + rpc_batch \<times> rpc_conn \<times> nat list \<times> bool" where
  "batch_retain indices specs b c =
     (if length indices \<noteq> length specs \<or> length indices > length (ba_entries b) then Inl RpcBatchSelection
      else case retain_loop 0 (ba_entries b) (zip indices specs) of
        None \<Rightarrow> Inl RpcBatchSelection
      | Some (keep, gone) \<Rightarrow>
          Inr (b\<lparr>ba_entries := keep, ba_totalSize := sum_list (map be_size keep)\<rparr>,
               c\<lparr>rq_reserved := rq_reserved c - int (length gone),
                 rq_inflight := rq_inflight c - sum_list (map be_size gone)\<rparr>,
               map be_global gone, keep = []))"

definition batch_deadline :: "int \<Rightarrow> rpc_batch \<Rightarrow> rpc_conn \<Rightarrow> int option" where
  "batch_deadline now b c =
     (let d = (if rq_timeout c > 0 then Some (now + rq_timeout c) else None)
      in case ba_ctxDeadline b of
           None \<Rightarrow> d
         | Some x \<Rightarrow> (case d of None \<Rightarrow> Some x | Some y \<Rightarrow> if x < y then Some x else Some y))"

text \<open>A task handed to \<open>commit\<close> brings its gate; its ticket is allocated there.\<close>

definition prepare_tasks :: "int \<Rightarrow> int option \<Rightarrow> nat \<Rightarrow> rpc_entry list \<Rightarrow> nat option list \<Rightarrow> rpc_task list" where
  "prepare_tasks now dl ticket es gates =
     map (\<lambda>(k, e, g). \<lparr>tk_method = be_method e, tk_size = be_size e, tk_budget = be_global e, tk_ticket = k,
       tk_gate = g, tk_enqueuedAt = now, tk_deadline = dl\<rparr>) (zip [ticket..<ticket + length es] (zip es gates))"

text \<open>The error if any, whether to publish, the reservations to release and the connection.\<close>

definition batch_commit ::
  "(rpc_task \<Rightarrow> bool) \<Rightarrow> int \<Rightarrow> nat \<Rightarrow> nat option list \<Rightarrow> rpc_batch \<Rightarrow> rpc_conn \<Rightarrow>
     rpc_error option \<times> bool \<times> nat list \<times> rpc_conn" where
  "batch_commit run now ticket gates b c =
     (let c1 = c\<lparr>rq_reserved := rq_reserved c - int (length (ba_entries b))\<rparr>;
          back = c1\<lparr>rq_inflight := rq_inflight c1 - ba_totalSize b\<rparr>
      in if length gates \<noteq> length (ba_entries b) then (Some RpcBatchTaskCount, False, globals_of b, back)
         else if rq_closed c1 \<or> rq_retired c1 then (Some RpcConnClosed, False, globals_of b, back)
         else let c2 = c1\<lparr>rq_queue := rq_queue c1 @ prepare_tasks now (batch_deadline now b c) ticket (ba_entries b) gates\<rparr>;
                  (p, c3) = publish run c2
              in (None, p, [], c3))"

definition batch_abort :: "rpc_batch \<Rightarrow> rpc_conn \<Rightarrow> nat list \<times> rpc_conn" where
  "batch_abort b c = (globals_of b, c\<lparr>rq_reserved := rq_reserved c - int (length (ba_entries b)),
     rq_inflight := rq_inflight c - ba_totalSize b\<rparr>)"

end
