(* ===== verification/Rpc_Machine.thy ===== *)
theory Rpc_Machine
  imports Rpc_Scheduler
begin

text \<open>
  All connections, workers, timers and batches of one scheduler. A step is one critical section;
  what its thread still has to do (release reservations, publish or unschedule a connection, run a
  popped token, wake after a gate) waits in \<open>w_pending\<close>, so that other threads may act in between.
\<close>

datatype rpc_pend = PAdmit rpc_batch | PRelease "nat list" | PSchedule nat | PUnschedule nat | PToken nat | PBarrier nat
  | PWake nat | PEnsure

record world =
  w_sched :: scheduler
  w_conns :: "rpc_conn list"
  w_gates :: "(rpc_gate \<times> nat) list"
  w_batches :: "rpc_batch list"
  w_running :: "(nat \<times> rpc_task) list"
  w_barriers :: "nat list"
  w_pending :: "rpc_pend list"
  w_ticket :: nat

definition empty_world :: "int \<Rightarrow> int \<Rightarrow> world" where
  "empty_world maxTasks maxBytes =
     \<lparr>w_sched = newInboundRPCScheduler maxTasks maxBytes, w_conns = [], w_gates = [], w_batches = [], w_running = [],
      w_barriers = [], w_pending = [], w_ticket = 0\<rparr>"

definition runs :: "(rpc_gate \<times> nat) list \<Rightarrow> rpc_task \<Rightarrow> bool" where
  "runs gs t = gate_runnable (map_option (\<lambda>k. fst (gs ! k)) (tk_gate t))"

definition conn_at :: "world \<Rightarrow> nat \<Rightarrow> rpc_conn" where
  "conn_at w i = w_conns w ! i"

definition put_conn :: "nat \<Rightarrow> rpc_conn \<Rightarrow> world \<Rightarrow> world" where
  "put_conn i c w = w\<lparr>w_conns := (w_conns w)[i := c]\<rparr>"

definition todo :: "rpc_pend list \<Rightarrow> world \<Rightarrow> world" where
  "todo ps w = w\<lparr>w_pending := ps @ w_pending w\<rparr>"

definition done_with :: "rpc_pend \<Rightarrow> world \<Rightarrow> world" where
  "done_with p w = w\<lparr>w_pending := remove1 p (w_pending w)\<rparr>"

definition publication :: "bool \<Rightarrow> nat \<Rightarrow> rpc_pend list" where
  "publication b i = (if b then [PSchedule i] else [])"

datatype label =
    Connect int int int
  | Retire nat
  | NewGate nat int
  | Resolve nat bool
  | Reserve nat "rpc_spec list" "int option"
  | Admit rpc_batch bool
  | Grow rpc_batch nat int bool
  | Retain rpc_batch "nat list" "rpc_spec list"
  | Commit rpc_batch int "nat option list"
  | Abort rpc_batch
  | Pop
  | Take nat
  | Publish nat
  | Unpublish nat
  | Release "nat list"
  | Finish nat rpc_task
  | Expire nat nat
  | BeginRestore nat
  | Barrier nat
  | EndRestore nat
  | WakeUp nat
  | Close nat
  | Start
  | Ensure
  | Stop

text \<open>A gate belongs to the connection whose wake-up it calls, and a task of a connection carries a gate
  of that connection (layer_rpc_execution.go creates it with \<open>c.wakeInboundRPC\<close>).\<close>

definition own_gates :: "world \<Rightarrow> nat \<Rightarrow> nat option list \<Rightarrow> bool" where
  "own_gates w i gates \<longleftrightarrow> list_all (\<lambda>g. case g of None \<Rightarrow> True | Some k \<Rightarrow> k < length (w_gates w) \<and> snd (w_gates w ! k) = i) gates"

fun rpc_exec :: "label \<Rightarrow> world \<Rightarrow> world option" where
  "rpc_exec (Connect m q t) w = Some (w\<lparr>w_conns := w_conns w @ [startInboundRPCScheduler m q t]\<rparr>)"
| "rpc_exec (Retire i) w =
     (if i < length (w_conns w) then Some (put_conn i ((conn_at w i)\<lparr>rq_retired := True\<rparr>) w) else None)"
| "rpc_exec (NewGate i n) w =
     (if i < length (w_conns w) then Some (w\<lparr>w_gates := w_gates w @ [(newInboundRPCGate n, i)]\<rparr>) else None)"
| "rpc_exec (Resolve k ok) w =
     (if k < length (w_gates w)
      then do { (wake, g) \<leftarrow> gate_resolve ok (fst (w_gates w ! k));
                let i = snd (w_gates w ! k)
                in Some (todo (if wake then [PWake i] else []) (w\<lparr>w_gates := (w_gates w)[k := (g, i)]\<rparr>)) }
      else None)"
| "rpc_exec (Reserve i specs dl) w =
     (if i < length (w_conns w)
      then (case reserve_global_part i specs dl (conn_at w i) (w_sched w) of
              (Inl e, s) \<Rightarrow> Some (w\<lparr>w_sched := s\<rparr>)
            | (Inr b, s) \<Rightarrow> Some (todo [PAdmit b] (w\<lparr>w_sched := s\<rparr>)))
      else None)"
| "rpc_exec (Admit b ctxDone) w =
     (if PAdmit b \<in> set (w_pending w)
      then (case reserve_conn_part ctxDone b (conn_at w (ba_conn b)) of
              Inl e \<Rightarrow> Some (todo [PRelease (globals_of b)] (done_with (PAdmit b) w))
            | Inr c \<Rightarrow> Some ((put_conn (ba_conn b) c (done_with (PAdmit b) w))\<lparr>w_batches := b # w_batches w\<rparr>))
      else None)"
| "rpc_exec (Grow b index target ctxDone) w =
     (if b \<in> set (w_batches w)
      then (case growEntry index target ctxDone b (conn_at w (ba_conn b)) (w_sched w) of
              Inl e \<Rightarrow> Some w
            | Inr (b', c, s) \<Rightarrow> Some ((put_conn (ba_conn b) c w)\<lparr>w_sched := s, w_batches := b' # remove1 b (w_batches w)\<rparr>))
      else None)"
| "rpc_exec (Retain b indices specs) w =
     (if b \<in> set (w_batches w)
      then (case batch_retain indices specs b (conn_at w (ba_conn b)) of
              Inl e \<Rightarrow> Some w
            | Inr (b', c, gone, over) \<Rightarrow>
                Some (todo [PRelease gone] ((put_conn (ba_conn b) c w)
                  \<lparr>w_batches := (if over then remove1 b (w_batches w) else b' # remove1 b (w_batches w))\<rparr>)))
      else None)"
| "rpc_exec (Commit b now gates) w =
     (if b \<in> set (w_batches w) \<and> own_gates w (ba_conn b) gates
      then (case batch_commit (runs (w_gates w)) now (w_ticket w) gates b (conn_at w (ba_conn b)) of
              (e, p, gone, c) \<Rightarrow>
                Some (todo (PRelease gone # publication p (ba_conn b)) ((put_conn (ba_conn b) c w)
                  \<lparr>w_batches := remove1 b (w_batches w), w_ticket := w_ticket w + length (ba_entries b)\<rparr>)))
      else None)"
| "rpc_exec (Abort b) w =
     (if b \<in> set (w_batches w)
      then (case batch_abort b (conn_at w (ba_conn b)) of
              (gone, c) \<Rightarrow> Some (todo [PRelease gone] ((put_conn (ba_conn b) c w)\<lparr>w_batches := remove1 b (w_batches w)\<rparr>)))
      else None)"
| "rpc_exec Pop w =
     (if sc_workersStarted (w_sched w) \<and> \<not> sc_stopped (w_sched w)
      then (case popReady (w_sched w) of
              (None, s) \<Rightarrow> None
            | (Some i, s) \<Rightarrow> Some (todo [PToken i] (w\<lparr>w_sched := s\<rparr>)))
      else None)"
| "rpc_exec (Take i) w =
     (if PToken i \<in> set (w_pending w)
      then (case takeInboundRPC (runs (w_gates w)) (conn_at w i) of
              (None, p, c) \<Rightarrow> Some (put_conn i c (done_with (PToken i) w))
            | (Some t, p, c) \<Rightarrow> Some (todo (publication p i) ((put_conn i c (done_with (PToken i) w))
                \<lparr>w_running := (i, t) # w_running w\<rparr>)))
      else None)"
| "rpc_exec (Publish i) w =
     (if PSchedule i \<in> set (w_pending w)
      then (case schedule_conn i (conn_at w i) (w_sched w) of
              (added, s) \<Rightarrow> Some (todo (if added then [PEnsure] else []) ((done_with (PSchedule i) w)\<lparr>w_sched := s\<rparr>)))
      else None)"
| "rpc_exec (Unpublish i) w =
     (if PUnschedule i \<in> set (w_pending w)
      then Some ((done_with (PUnschedule i) w)\<lparr>w_sched := unschedule i (w_sched w)\<rparr>) else None)"
| "rpc_exec (Release rs) w =
     (if PRelease rs \<in> set (w_pending w)
      then Some ((done_with (PRelease rs) w)\<lparr>w_sched := releaseInboundRPCGlobalBatch rs (w_sched w)\<rparr>) else None)"
| "rpc_exec (Finish i t) w =
     (if (i, t) \<in> set (w_running w)
      then (case finishInboundRPC (runs (w_gates w)) t (conn_at w i) of
              (p, c) \<Rightarrow> Some (todo (PRelease [tk_budget t] # publication p i)
                ((put_conn i c w)\<lparr>w_running := remove1 (i, t) (w_running w)\<rparr>)))
      else None)"
| "rpc_exec (Expire i ticket) w =
     (if i < length (w_conns w)
      then (case expireInboundRPCTicket ticket (conn_at w i) of
              (None, u, c) \<Rightarrow> Some w
            | (Some t, u, c) \<Rightarrow> Some (todo ((if u then [PUnschedule i] else []) @ [PRelease [tk_budget t]]) (put_conn i c w)))
      else None)"
| "rpc_exec (BeginRestore i) w =
     (if i < length (w_conns w)
      then (case beginRPCReplayRestore (conn_at w i) of
              (active, u, c) \<Rightarrow>
                if \<not> active then Some w
                else if u then Some (todo [PBarrier i] (put_conn i c w))
                else Some ((put_conn i c w)\<lparr>w_barriers := i # w_barriers w\<rparr>))
      else None)"
| "rpc_exec (Barrier i) w =
     (if PBarrier i \<in> set (w_pending w)
      then Some ((done_with (PBarrier i) w)\<lparr>w_sched := unschedule i (w_sched w), w_barriers := i # w_barriers w\<rparr>) else None)"
| "rpc_exec (EndRestore i) w =
     (if i \<in> set (w_barriers w)
      then do { (p, c) \<leftarrow> endRPCReplayRestore (runs (w_gates w)) (conn_at w i);
                Some (todo (publication p i) ((put_conn i c w)\<lparr>w_barriers := remove1 i (w_barriers w)\<rparr>)) }
      else None)"
| "rpc_exec (WakeUp i) w =
     (if PWake i \<in> set (w_pending w)
      then (case wakeInboundRPC (runs (w_gates w)) (conn_at w i) of
              (p, c) \<Rightarrow> Some (todo (publication p i) (put_conn i c (done_with (PWake i) w))))
      else None)"
| "rpc_exec (Close i) w =
     (if i < length (w_conns w) \<and> \<not> rq_closed (conn_at w i)
      then (case beginCloseInboundRPCScheduler (conn_at w i) of
              (ts, c) \<Rightarrow> Some (todo [PUnschedule i, PRelease (map tk_budget ts)] (put_conn i c w)))
      else None)"
| "rpc_exec Start w =
     (case scheduler_start (w_sched w) of (p, s) \<Rightarrow> Some (todo (if p then [PEnsure] else []) (w\<lparr>w_sched := s\<rparr>)))"
| "rpc_exec Ensure w =
     (if PEnsure \<in> set (w_pending w) then Some ((done_with PEnsure w)\<lparr>w_sched := ensureWorkers (w_sched w)\<rparr>) else None)"
| "rpc_exec Stop w = Some (w\<lparr>w_sched := scheduler_stop (w_sched w)\<rparr>)"

inductive reached :: "int \<Rightarrow> int \<Rightarrow> world \<Rightarrow> bool" for maxTasks maxBytes where
  reached_empty: "reached maxTasks maxBytes (empty_world maxTasks maxBytes)"
| reached_step: "reached maxTasks maxBytes w \<Longrightarrow> rpc_exec l w = Some w' \<Longrightarrow> reached maxTasks maxBytes w'"

fun rpc_exec_all :: "label list \<Rightarrow> world \<Rightarrow> world option" where
  "rpc_exec_all [] w = Some w"
| "rpc_exec_all (l # ls) w = Option.bind (rpc_exec l w) (rpc_exec_all ls)"

lemma exec_all_reached: "rpc_exec_all ls w = Some w' \<Longrightarrow> reached t b w \<Longrightarrow> reached t b w'"
  by (induction ls arbitrary: w) (auto intro: reached_step)

end
