(* ===== verification/Rpc_Budget.thy ===== *)
theory Rpc_Budget
  imports Rpc_Machine "HOL-Library.Multiset"
begin

text \<open>
  Accounting of the inbound scheduler, one layer at a time: the global budget, the counters of one
  connection, and sums over the lists of a world.
\<close>

subsection \<open>Totals\<close>

definition sumf :: "('a \<Rightarrow> 'b :: comm_monoid_add) \<Rightarrow> 'a list \<Rightarrow> 'b" where
  "sumf f xs = sum_list (map f xs)"

lemma sumf_simps [simp]: "sumf f [] = 0" "sumf f (x # xs) = f x + sumf f xs" "sumf f (xs @ ys) = sumf f xs + sumf f ys"
  by (simp_all add: sumf_def)

lemma sumf_remove1: "x \<in> set xs \<Longrightarrow> sumf f xs = f x + sumf f (remove1 x xs)"
  unfolding sumf_def by (rule sum_list_map_remove1)

lemma sumf_update: "i < length xs \<Longrightarrow> sumf f (xs[i := y]) + f (xs ! i) = sumf f xs + f y"
proof (induction xs arbitrary: i)
  case (Cons x xs)
  then show ?case by (cases i) (auto simp: ac_simps)
qed simp

lemma sumf_nonneg: "\<forall>x\<in>set xs. 0 \<le> f x \<Longrightarrow> (0 :: int) \<le> sumf f xs"
  by (induction xs) auto

lemma sumf_zero: "\<forall>x\<in>set xs. f x = 0 \<Longrightarrow> sumf f xs = 0"
  by (induction xs) auto

subsection \<open>The global budget\<close>

definition live :: "scheduler \<Rightarrow> nat set" where
  "live s = {r. \<exists>g. sc_res s r = Some g \<and> \<not> gr_released g}"

definition charge_of :: "(nat \<rightharpoonup> global_res) \<Rightarrow> nat \<Rightarrow> int" where
  "charge_of m r = (case m r of None \<Rightarrow> 0 | Some g \<Rightarrow> gr_size g)"

definition sched_ok :: "scheduler \<Rightarrow> bool" where
  "sched_ok s \<longleftrightarrow> (\<forall>r\<in>dom (sc_res s). r < sc_next s \<and> 0 \<le> charge_of (sc_res s) r) \<and>
     sc_tasks s = int (card (live s)) \<and> sc_bytes s = sum (charge_of (sc_res s)) (live s) \<and>
     sc_tasks s \<le> sc_maxTasks s \<and> sc_bytes s \<le> sc_maxBytes s \<and> distinct (sc_ready s)"

lemma live_dom: "live s \<subseteq> dom (sc_res s)"
  by (auto simp: live_def)

lemma live_finite: "sched_ok s \<Longrightarrow> finite (live s)"
  by (rule finite_subset [of _ "{..<sc_next s}"]) (auto simp: sched_ok_def live_def)

lemma sched_ok_new: "sched_ok (newInboundRPCScheduler t b)" and live_new: "live (newInboundRPCScheduler t b) = {}"
  by (auto simp: sched_ok_def newInboundRPCScheduler_def live_def)

lemma release_ok:
  assumes "sched_ok s"
  shows "sched_ok (reservation_release r s) \<and> live (reservation_release r s) = live s - {r}"
proof (cases "r \<in> live s")
  case False
  then have "reservation_release r s = s" by (auto simp: reservation_release_def live_def split: option.splits)
  then show ?thesis using assms False by simp
next
  case True
  then obtain g where g: "sc_res s r = Some g" "\<not> gr_released g" by (auto simp: live_def)
  let ?m = "(sc_res s)(r \<mapsto> g\<lparr>gr_released := True\<rparr>)"
  let ?s = "s\<lparr>sc_res := ?m, sc_tasks := sc_tasks s - 1, sc_bytes := sc_bytes s - gr_size g\<rparr>"
  have s: "reservation_release r s = ?s" using g by (simp add: reservation_release_def)
  have ch: "charge_of ?m x = charge_of (sc_res s) x" for x using g by (simp add: charge_of_def)
  have L: "live ?s = live s - {r}" by (auto simp: live_def)
  have fin: "finite (live s)" using assms by (rule live_finite)
  have "sum (charge_of (sc_res s)) (live s - {r}) = sum (charge_of (sc_res s)) (live s) - gr_size g"
    using fin True g by (simp add: sum_diff1 charge_of_def)
  moreover have "int (card (live s - {r})) = int (card (live s)) - 1" using fin True by (rule int_card_remove)
  moreover have "0 \<le> charge_of (sc_res s) r" using assms g by (auto simp: sched_ok_def)
  then have "0 \<le> gr_size g" using g by (simp add: charge_of_def)
  ultimately have "sched_ok ?s" using assms g unfolding sched_ok_def L by (auto simp: ch)
  then show ?thesis using s L by simp
qed

lemma take_flags_fold:
  "releaseInboundRPCGlobalBatch [] s = s"
  "releaseInboundRPCGlobalBatch (r # rs) s = releaseInboundRPCGlobalBatch rs (reservation_release r s)"
  by (auto simp: releaseInboundRPCGlobalBatch_def reservation_release_def Let_def split: option.splits prod.splits)

lemma release_frame: "sc_ready (reservation_release r s) = sc_ready s" "sc_stopped (reservation_release r s) = sc_stopped s"
  "sc_started (reservation_release r s) = sc_started s" "sc_workersStarted (reservation_release r s) = sc_workersStarted s"
  by (simp_all add: reservation_release_def split: option.split)

lemma release_batch_ok:
  "sched_ok s \<Longrightarrow> sched_ok (releaseInboundRPCGlobalBatch rs s) \<and> live (releaseInboundRPCGlobalBatch rs s) = live s - set rs"
proof (induction rs arbitrary: s)
  case (Cons r rs)
  then show ?case using release_ok [OF Cons.prems, of r] by (auto simp: take_flags_fold)
qed (simp add: take_flags_fold)

lemma release_batch_frame [simp]:
  "sc_ready (releaseInboundRPCGlobalBatch rs s) = sc_ready s" "sc_stopped (releaseInboundRPCGlobalBatch rs s) = sc_stopped s"
  "sc_started (releaseInboundRPCGlobalBatch rs s) = sc_started s"
  "sc_workersStarted (releaseInboundRPCGlobalBatch rs s) = sc_workersStarted s"
  by (simp_all add: releaseInboundRPCGlobalBatch_def split: prod.split)

lemma reserve_sizes_Some: "reserve_sizes rem u xs = Some v \<Longrightarrow> u \<le> rem \<Longrightarrow> v = u + sumf (max 0) xs \<and> v \<le> rem"
proof (induction xs arbitrary: u)
  case (Cons x xs)
  have "(if x < 0 then 0 else x) = max 0 x" by simp
  then show ?case using Cons.IH [of "u + max 0 x"] Cons.prems by (auto simp: Let_def split: if_splits)
qed simp

lemma put_reservations_at:
  "put_reservations k xs m r = (if k \<le> r \<and> r < k + length xs then Some \<lparr>gr_size = max 0 (xs ! (r - k)), gr_released = False\<rparr> else m r)"
proof (induction xs arbitrary: k m)
  case (Cons x xs)
  have m: "(if x < 0 then 0 else x) = max 0 x" by simp
  show ?case
  proof (cases "r = k")
    case True
    then have "k = r" by simp
    then show ?thesis by (simp add: Cons.IH m)
  next
    case False
    then have "k \<le> r \<longleftrightarrow> Suc k \<le> r" by auto
    moreover have "Suc k \<le> r \<Longrightarrow> (x # xs) ! (r - k) = xs ! (r - Suc k)" by (simp add: nth_Cons')
    ultimately show ?thesis using False by (auto simp: Cons.IH m)
  qed
qed auto

lemma sum_interval: "(\<Sum>r\<in>{k..<k + length xs}. h (xs ! (r - k))) = sumf h xs" for h :: "'a \<Rightarrow> int"
proof -
  have "(\<Sum>r\<in>{k..<k + length xs}. h (xs ! (r - k))) = (\<Sum>j = 0..<length xs. h (xs ! j))"
    by (rule sum.reindex_bij_witness [of _ "\<lambda>j. j + k" "\<lambda>r. r - k"]) auto
  then show ?thesis by (simp add: sumf_def sum_list_sum_nth)
qed

lemma reserveGlobalBatch_ok:
  assumes "sched_ok s" and "reserveGlobalBatch sizes s = (r, s')"
  shows "case r of Inl _ \<Rightarrow> s' = s
    | Inr gs \<Rightarrow> gs = [sc_next s..<sc_next s + length sizes] \<and> sched_ok s' \<and> live s' = live s \<union> set gs \<and> live s \<inter> set gs = {} \<and>
        sc_ready s' = sc_ready s \<and> sc_stopped s' = sc_stopped s \<and> sc_started s' = sc_started s \<and>
        sc_workersStarted s' = sc_workersStarted s"
proof (cases r)
  case (Inl e)
  then show ?thesis using assms(2) by (auto simp: reserveGlobalBatch_def split: if_splits option.splits)
next
  case (Inr gs)
  let ?n = "sc_next s" let ?k = "length sizes" let ?m = "put_reservations ?n sizes (sc_res s)"
  obtain v where v: "reserve_sizes (sc_maxBytes s - sc_bytes s) 0 sizes = Some v" "int ?k \<le> sc_maxTasks s - sc_tasks s"
    and s': "gs = [?n..<?n + ?k]" "s' = s\<lparr>sc_tasks := sc_tasks s + int ?k, sc_bytes := sc_bytes s + v, sc_res := ?m, sc_next := ?n + ?k\<rparr>"
    using assms(2) Inr by (auto simp: reserveGlobalBatch_def split: if_splits option.splits)
  have b: "sc_bytes s \<le> sc_maxBytes s" and dom: "\<forall>r\<in>dom (sc_res s). r < ?n" using assms(1) by (auto simp: sched_ok_def)
  have vv: "v = sumf (max 0) sizes" "v \<le> sc_maxBytes s - sc_bytes s" using reserve_sizes_Some [OF v(1)] b by auto
  let ?N = "{?n..<?n + ?k}"
  have old: "live s \<inter> ?N = {}" using dom live_dom [of s] by (metis atLeastLessThan_iff disjoint_iff leD subsetD)
  have L: "live s' = live s \<union> ?N" using dom by (fastforce simp: live_def s' put_reservations_at split: if_splits)
  have fin: "finite (live s)" using assms(1) by (rule live_finite)
  have c_old: "charge_of ?m r = charge_of (sc_res s) r" if "r \<notin> ?N" for r
    using that by (auto simp: charge_of_def put_reservations_at)
  have c_new: "charge_of ?m r = max 0 (sizes ! (r - ?n))" if "r \<in> ?N" for r
    using that by (auto simp: charge_of_def put_reservations_at)
  have "sum (charge_of ?m) (live s \<union> ?N) = sum (charge_of ?m) (live s) + sum (charge_of ?m) ?N"
    using fin old by (simp add: sum.union_disjoint)
  also have "sum (charge_of ?m) (live s) = sum (charge_of (sc_res s)) (live s)" using old by (intro sum.cong) (auto intro: c_old)
  also have "sum (charge_of ?m) ?N = (\<Sum>r\<in>?N. max 0 (sizes ! (r - ?n)))" by (rule sum.cong) (auto intro: c_new)
  also have "\<dots> = v" using sum_interval [of "max 0" sizes ?n] vv(1) by simp
  finally have bytes: "sum (charge_of ?m) (live s \<union> ?N) = sum (charge_of (sc_res s)) (live s) + v" .
  have card: "int (card (live s \<union> ?N)) = int (card (live s)) + int ?k" using fin old by (simp add: card_Un_disjoint)
  have "\<forall>r\<in>dom ?m. r < ?n + ?k \<and> 0 \<le> charge_of ?m r"
  proof
    fix r assume "r \<in> dom ?m"
    then show "r < ?n + ?k \<and> 0 \<le> charge_of ?m r"
    proof (cases "r \<in> ?N")
      case True
      then show ?thesis using c_new [of r] by simp
    next
      case False
      then have "r \<in> dom (sc_res s)" using \<open>r \<in> dom ?m\<close> by (auto simp: put_reservations_at split: if_splits)
      then have "r < ?n" "0 \<le> charge_of (sc_res s) r" using assms(1) unfolding sched_ok_def by blast+
      then show ?thesis using c_old [OF False] by simp
    qed
  qed
  then have "sched_ok s'" using assms(1) bytes card v(2) vv(2) L unfolding sched_ok_def by (simp add: s')
  then show ?thesis using Inr L old s' by auto
qed

lemma growEntry_sched:
  assumes "sched_ok s" and "growEntry i n x b c s = Inr (b', c', s')" and "\<forall>e\<in>set (ba_entries b). 0 \<le> be_size e"
  shows "sched_ok s' \<and> live s' = live s \<and> globals_of b' = globals_of b \<and>
    sc_ready s' = sc_ready s \<and> sc_stopped s' = sc_stopped s \<and> sc_started s' = sc_started s \<and> sc_workersStarted s' = sc_workersStarted s"
proof (cases "n \<le> be_size (ba_entries b ! i)")
  case True
  then show ?thesis using assms by (auto simp: growEntry_def Let_def split: if_splits)
next
  case False
  let ?e = "ba_entries b ! i" let ?d = "n - be_size ?e" let ?r = "be_global ?e"
  have i: "i < length (ba_entries b)" using assms(2) by (auto simp: growEntry_def split: if_splits)
  obtain g where g: "sc_res s ?r = Some g" "\<not> gr_released g" "?d \<le> sc_maxBytes s - sc_bytes s"
    and e: "b' = b\<lparr>ba_entries := (ba_entries b)[i := ?e\<lparr>be_size := n\<rparr>], ba_totalSize := ba_totalSize b + ?d\<rparr>"
      "s' = s\<lparr>sc_bytes := sc_bytes s + ?d, sc_res := (sc_res s)(?r \<mapsto> g\<lparr>gr_size := gr_size g + ?d\<rparr>)\<rparr>"
    using assms(2) False by (auto simp: growEntry_def Let_def split: if_splits option.splits)
  have gl: "globals_of b' = globals_of b"
    using i by (auto simp: e globals_of_def map_update intro!: list_update_same_conv [THEN iffD2])
  have L: "live s' = live s" using g by (auto simp: live_def e)
  have rl: "?r \<in> live s" using g by (auto simp: live_def)
  let ?m = "sc_res s'"
  have ch: "charge_of ?m = (charge_of (sc_res s))(?r := gr_size g + ?d)" by (auto simp: e charge_of_def)
  have "sum (charge_of ?m) (live s) = sum (charge_of (sc_res s)) (live s) + ?d"
    unfolding ch using sum_fun_upd_int [OF live_finite [OF assms(1)] rl] g by (simp add: charge_of_def)
  moreover have "\<forall>x\<in>dom ?m. x < sc_next s' \<and> 0 \<le> charge_of ?m x"
  proof
    fix x assume "x \<in> dom ?m"
    then have "x \<in> dom (sc_res s)" using g by (auto simp: e split: if_splits)
    moreover have "0 \<le> charge_of (sc_res s) ?r" using assms(1) g by (auto simp: sched_ok_def)
    ultimately show "x < sc_next s' \<and> 0 \<le> charge_of ?m x" using assms(1) False g unfolding ch
      by (auto simp: sched_ok_def e charge_of_def)
  qed
  ultimately have "sched_ok s'" using assms(1) g(3) L unfolding sched_ok_def by (simp add: e)
  then show ?thesis using gl L by (simp add: e)
qed

lemma ready_ops_ok:
  "sched_ok s \<Longrightarrow> sched_ok (snd (enqueueReady i s)) \<and> live (snd (enqueueReady i s)) = live s"
  "sched_ok s \<Longrightarrow> sched_ok (snd (popReady s)) \<and> live (snd (popReady s)) = live s"
  "sched_ok s \<Longrightarrow> sched_ok (unschedule i s) \<and> live (unschedule i s) = live s"
  "sched_ok s \<Longrightarrow> sched_ok (snd (schedule_conn i c s)) \<and> live (snd (schedule_conn i c s)) = live s"
  by (auto simp: sched_ok_def live_def enqueueReady_def popReady_def unschedule_def schedule_conn_def distinct_removeAll split: list.split)

lemma lifecycle_ok:
  "sched_ok s \<Longrightarrow> sched_ok (snd (scheduler_start s)) \<and> live (snd (scheduler_start s)) = live s"
  "sched_ok s \<Longrightarrow> sched_ok (ensureWorkers s) \<and> live (ensureWorkers s) = live s"
  "sched_ok s \<Longrightarrow> sched_ok (scheduler_stop s) \<and> live (scheduler_stop s) = live s"
  by (auto simp: sched_ok_def live_def scheduler_start_def ensureWorkers_def scheduler_stop_def)

subsection \<open>One connection\<close>

text \<open>The counters of a connection against what is really held: \<open>s\<close> slots and \<open>bb\<close> bytes of open batches,
  \<open>n\<close> running tasks with \<open>rb\<close> bytes, \<open>k\<close> active barriers.\<close>

definition conn_fits :: "rpc_conn \<Rightarrow> int \<Rightarrow> int \<Rightarrow> int \<Rightarrow> int \<Rightarrow> int \<Rightarrow> bool" where
  "conn_fits c s bb n rb k \<longleftrightarrow>
     rq_reserved c = s \<and> rq_running c = n \<and> rq_inflight c = bb + rb + sumf tk_size (rq_queue c) \<and> rq_restores c = k \<and>
     s + int (length (rq_queue c)) \<le> rq_queueSize c \<and> rq_inflight c \<le> maxInflightRPCBytes \<and> n \<le> rq_maxInflight c \<and>
     (\<forall>t\<in>set (rq_queue c). 0 \<le> tk_size t) \<and> (rq_closed c \<longrightarrow> rq_queue c = [] \<and> \<not> rq_ready c) \<and> (rq_ready c \<longrightarrow> k = 0)"

definition batch_ok :: "rpc_batch \<Rightarrow> bool" where
  "batch_ok b \<longleftrightarrow> ba_totalSize b = sumf be_size (ba_entries b) \<and> (\<forall>e\<in>set (ba_entries b). 0 \<le> be_size e)"

lemma batch_ok_nonneg: "batch_ok b \<Longrightarrow> 0 \<le> ba_totalSize b"
  by (auto simp: batch_ok_def intro: sumf_nonneg)

lemma publish_fits: "publish run c = (p, c') \<Longrightarrow> 0 \<le> k \<Longrightarrow> conn_fits c s bb n rb k \<Longrightarrow> conn_fits c' s bb n rb k"
  by (auto simp: publish_def conn_fits_def hasRunnableInboundRPC_def split: if_splits)

lemma fits_new: "conn_fits (startInboundRPCScheduler m q t) 0 0 0 0 0"
  by (auto simp: conn_fits_def startInboundRPCScheduler_def maxInflightRPCBytes_def)

lemma fits_retire: "conn_fits c s bb n rb k \<Longrightarrow> conn_fits (c\<lparr>rq_retired := True\<rparr>) s bb n rb k"
  by (simp add: conn_fits_def)

lemma fits_reserve:
  "reserve_conn_part x b c = Inr c' \<Longrightarrow> conn_fits c s bb n rb k \<Longrightarrow>
   conn_fits c' (s + int (length (ba_entries b))) (bb + ba_totalSize b) n rb k"
  by (auto simp: reserve_conn_part_def conn_fits_def split: if_splits)

lemma fits_abort:
  "batch_abort b c = (gone, c') \<Longrightarrow> batch_ok b \<Longrightarrow> conn_fits c s bb n rb k \<Longrightarrow>
   conn_fits c' (s - int (length (ba_entries b))) (bb - ba_totalSize b) n rb k"
  using batch_ok_nonneg [of b] by (auto simp: batch_abort_def conn_fits_def)

lemma take_first_Some:
  "take_first p xs = Some (t, r) \<Longrightarrow> \<exists>ys zs. xs = ys @ t # zs \<and> r = ys @ zs \<and> (\<forall>y\<in>set ys. \<not> p y) \<and> p t"
proof (induction xs arbitrary: t r)
  case (Cons x xs)
  show ?case
  proof (cases "p x")
    case True
    then have "x # xs = [] @ t # xs \<and> r = [] @ xs \<and> p t" using Cons.prems by simp
    then show ?thesis by (intro exI [of _ "[]"] exI [of _ xs]) simp
  next
    case False
    then obtain r' where r: "take_first p xs = Some (t, r')" "r = x # r'" using Cons.prems by auto
    then obtain ys zs where "xs = ys @ t # zs" "r' = ys @ zs" "\<forall>y\<in>set ys. \<not> p y" "p t" using Cons.IH by blast
    then show ?thesis using r(2) False by (intro exI [of _ "x # ys"] exI [of _ zs]) simp
  qed
qed simp

lemma take_first_None: "take_first p xs = None \<longleftrightarrow> (\<forall>x\<in>set xs. \<not> p x)"
  by (induction xs) auto

lemma take_first_split:
  assumes "take_first p xs = Some (t, r)"
  shows "sumf f xs = f t + sumf f r" and "set r \<subseteq> set xs" and "length xs = Suc (length r)" and "t \<in> set xs" and "p t"
proof -
  obtain ys zs where "xs = ys @ t # zs" "r = ys @ zs" using take_first_Some [OF assms] by auto
  then show "sumf f xs = f t + sumf f r" "set r \<subseteq> set xs" "length xs = Suc (length r)" "t \<in> set xs" "p t"
    using take_first_Some [OF assms] by (auto simp: ac_simps)
qed

lemma fits_take:
  assumes "takeInboundRPC run c = (r, p, c')" and "conn_fits c s bb n rb k" and "0 \<le> k"
  shows "case r of None \<Rightarrow> conn_fits c' s bb n rb k \<and> rq_queue c' = rq_queue c \<and> \<not> p
    | Some t \<Rightarrow> conn_fits c' s bb (n + 1) (rb + tk_size t) k \<and> take_first run (rq_queue c) = Some (t, rq_queue c') \<and> 0 \<le> tk_size t"
proof (cases r)
  case None
  then show ?thesis using assms
    by (auto simp: takeInboundRPC_def conn_fits_def Let_def split: if_splits option.splits)
next
  case (Some t)
  then obtain rest where t: "take_first run (rq_queue c) = Some (t, rest)" "rq_running c < rq_maxInflight c" "\<not> rq_closed c" "rq_ready c"
    and c': "c' = c\<lparr>rq_ready := p, rq_queue := rest, rq_running := rq_running c + 1\<rparr>"
    using assms(1) by (auto simp: takeInboundRPC_def Let_def split: if_splits option.splits)
  note S = take_first_split [OF t(1)]
  have "conn_fits c' s bb (n + 1) (rb + tk_size t) k"
    using assms(2) t(2-4) S(1) [of tk_size] S(2,3) unfolding c' by (auto simp: conn_fits_def)
  moreover have "0 \<le> tk_size t" using assms(2) S(4) by (auto simp: conn_fits_def)
  ultimately show ?thesis using Some t by (simp add: c')
qed

lemma fits_finish:
  assumes "finishInboundRPC run t c = (p, c')" and "conn_fits c s bb n rb k" and "0 \<le> k" and "0 \<le> tk_size t"
  shows "conn_fits c' s bb (n - 1) (rb - tk_size t) k"
proof -
  have "conn_fits (c\<lparr>rq_running := rq_running c - 1, rq_inflight := rq_inflight c - tk_size t\<rparr>) s bb (n - 1) (rb - tk_size t) k"
    using assms(2,4) by (auto simp: conn_fits_def)
  then show ?thesis using assms(1,3) publish_fits unfolding finishInboundRPC_def by blast
qed

lemma fits_expire:
  assumes "expireInboundRPCTicket ticket c = (r, u, c')" and "conn_fits c s bb n rb k"
  shows "case r of None \<Rightarrow> c' = c
    | Some t \<Rightarrow> conn_fits c' s bb n rb k \<and> take_first (\<lambda>t. tk_ticket t = ticket) (rq_queue c) = Some (t, rq_queue c')"
proof (cases r)
  case None
  then show ?thesis using assms by (auto simp: expireInboundRPCTicket_def Let_def split: if_splits option.splits)
next
  case (Some t)
  then obtain rest where t: "take_first (\<lambda>t. tk_ticket t = ticket) (rq_queue c) = Some (t, rest)"
    and c': "c' = c\<lparr>rq_queue := rest, rq_inflight := rq_inflight c - tk_size t, rq_ready := rq_ready c \<and> \<not> u\<rparr>"
    using assms(1) by (auto simp: expireInboundRPCTicket_def Let_def split: if_splits option.splits)
  note S = take_first_split [OF t]
  have "0 \<le> tk_size t" using assms(2) S(4) by (auto simp: conn_fits_def)
  then have "conn_fits c' s bb n rb k"
    using assms(2) S(1) [of tk_size] S(2,3) unfolding c' by (auto simp: conn_fits_def)
  then show ?thesis using Some t by (simp add: c')
qed

lemma fits_begin:
  "beginRPCReplayRestore c = (a, u, c') \<Longrightarrow> conn_fits c s bb n rb k \<Longrightarrow>
   (if a then conn_fits c' s bb n rb (k + 1) else c' = c) \<and> rq_queue c' = rq_queue c \<and> \<not> (a \<and> rq_ready c')"
  by (auto simp: beginRPCReplayRestore_def conn_fits_def Let_def split: if_splits)

lemma fits_end:
  assumes "conn_fits c s bb n rb k" and "0 < k"
  shows "\<exists>p c'. endRPCReplayRestore run c = Some (p, c') \<and> conn_fits c' s bb n rb (k - 1) \<and> rq_queue c' = rq_queue c"
proof -
  have "conn_fits (c\<lparr>rq_restores := rq_restores c - 1\<rparr>) s bb n rb (k - 1)" using assms by (auto simp: conn_fits_def)
  moreover obtain p c' where p: "publish run (c\<lparr>rq_restores := rq_restores c - 1\<rparr>) = (p, c')" by fastforce
  moreover have "rq_queue c' = rq_queue c" using p by (auto simp: publish_def split: if_splits)
  moreover have "rq_restores c = k" using assms(1) by (simp add: conn_fits_def)
  ultimately show ?thesis using assms(2) publish_fits [OF p, of "k - 1" s bb n rb]
    by (cases "k = 1") (auto simp: endRPCReplayRestore_def Let_def)
qed

lemma fits_close:
  "beginCloseInboundRPCScheduler c = (ts, c') \<Longrightarrow> conn_fits c s bb n rb k \<Longrightarrow>
   conn_fits c' s bb n rb k \<and> rq_queue c' = [] \<and> ts = rq_queue c"
  using sumf_nonneg [of "rq_queue c" tk_size]
  by (auto simp: beginCloseInboundRPCScheduler_def conn_fits_def sumf_def)

subsection \<open>Batches\<close>

lemma batch_of_ok:
  assumes "length gs = length specs"
  shows "batch_ok (batch_of i (normalized specs) gs dl)" and "globals_of (batch_of i (normalized specs) gs dl) = gs"
proof -
  let ?f = "\<lambda>s g. \<lparr>be_global = g, be_method = sp_method s, be_size = sp_size s\<rparr>"
  have sz: "length gs = length ns \<Longrightarrow> sumf be_size (map2 ?f ns gs) = sumf sp_size ns" for ns
    by (induction ns arbitrary: gs rule: list.induct) (auto simp: Suc_length_conv length_Suc_conv)
  have "0 \<le> sp_size s" if "s \<in> set (normalized specs)" for s using that by (auto simp: normalized_def)
  then have "\<forall>e\<in>set (ba_entries (batch_of i (normalized specs) gs dl)). 0 \<le> be_size e"
    by (auto simp: batch_of_def dest: set_zip_leftD)
  moreover have "length gs = length (normalized specs)" using assms by (simp add: normalized_def)
  ultimately show "batch_ok (batch_of i (normalized specs) gs dl)"
    using sz [of "normalized specs"] by (simp add: batch_ok_def batch_of_def sumf_def)
  show "globals_of (batch_of i (normalized specs) gs dl) = gs"
    using \<open>length gs = length (normalized specs)\<close>
    by (simp add: globals_of_def batch_of_def map_snd_zip comp_def split_def)
qed

lemma fits_grow:
  assumes "growEntry i n x b c s = Inr (b', c', s')" and "batch_ok b" and "conn_fits c sl bb r rb k"
  shows "conn_fits c' sl (bb + (ba_totalSize b' - ba_totalSize b)) r rb k \<and> batch_ok b' \<and> ba_conn b' = ba_conn b \<and>
    length (ba_entries b') = length (ba_entries b) \<and> rq_queue c' = rq_queue c \<and> rq_ready c' = rq_ready c"
proof (cases "n \<le> be_size (ba_entries b ! i)")
  case True
  then show ?thesis using assms by (auto simp: growEntry_def Let_def split: if_splits)
next
  case False
  let ?e = "ba_entries b ! i" let ?d = "n - be_size ?e"
  have i: "i < length (ba_entries b)" "0 \<le> n" using assms(1) by (auto simp: growEntry_def split: if_splits)
  have e: "b' = b\<lparr>ba_entries := (ba_entries b)[i := ?e\<lparr>be_size := n\<rparr>], ba_totalSize := ba_totalSize b + ?d\<rparr>"
      "c' = c\<lparr>rq_inflight := rq_inflight c + ?d\<rparr>" "?d \<le> maxInflightRPCBytes - rq_inflight c"
    using assms(1) False by (auto simp: growEntry_def Let_def split: if_splits option.splits)
  have "batch_ok b'" using assms(2) i sumf_update [OF i(1), of be_size "?e\<lparr>be_size := n\<rparr>"]
    by (auto simp: e batch_ok_def dest!: set_update_subset_insert [THEN subsetD])
  then show ?thesis using assms(3) e by (auto simp: conn_fits_def)
qed

lemma retain_loop_split:
  "retain_loop k es xs = Some (keep, gone) \<Longrightarrow>
   mset (map be_global es) = mset (map be_global keep) + mset (map be_global gone) \<and>
   sumf be_size es = sumf be_size keep + sumf be_size gone \<and> length es = length keep + length gone \<and>
   ((\<forall>e\<in>set es. 0 \<le> be_size e) \<longrightarrow> (\<forall>e\<in>set keep \<union> set gone. 0 \<le> be_size e))"
proof (induction k es xs arbitrary: keep gone rule: retain_loop.induct)
  case (3 k e es index sp xs)
  consider "k < index" | "k = index" "sp_size sp \<le> be_size e"
    using 3(3) by (auto split: if_splits)
  then show ?case
  proof cases
    case 1
    then obtain g where g: "retain_loop (Suc k) es ((index, sp) # xs) = Some (keep, g)" "gone = e # g"
      using 3(3) by (auto split: if_splits)
    then show ?thesis using 3(1) [OF _ 1 g(1)] 1 by (auto simp: ac_simps)
  next
    case 2
    then obtain h where h: "retain_loop (Suc k) es xs = Some (h, gone)" "keep = e\<lparr>be_method := sp_method sp\<rparr> # h"
      using 3(3) by (auto split: if_splits)
    then show ?thesis using 3(2) [OF _ _ _ h(1)] 2 by (auto simp: ac_simps)
  qed
qed auto

lemma fits_retain:
  assumes "batch_retain is sp b c = Inr (b', c', gone, over)" and "batch_ok b" and "conn_fits c sl bb r rb k"
  shows "conn_fits c' (sl - int (length (ba_entries b)) + int (length (ba_entries b'))) (bb - ba_totalSize b + ba_totalSize b') r rb k \<and>
    batch_ok b' \<and> ba_conn b' = ba_conn b \<and> mset (globals_of b) = mset (globals_of b') + mset gone \<and>
    (over \<longleftrightarrow> ba_entries b' = []) \<and> rq_queue c' = rq_queue c \<and> rq_ready c' = rq_ready c"
proof -
  obtain keep drp where l: "retain_loop 0 (ba_entries b) (zip is sp) = Some (keep, drp)"
    and e: "b' = b\<lparr>ba_entries := keep, ba_totalSize := sum_list (map be_size keep)\<rparr>"
      "c' = c\<lparr>rq_reserved := rq_reserved c - int (length drp), rq_inflight := rq_inflight c - sum_list (map be_size drp)\<rparr>"
      "gone = map be_global drp" "over = (keep = [])"
    using assms(1) by (auto simp: batch_retain_def split: if_splits option.splits)
  note S = retain_loop_split [OF l]
  have "\<forall>x\<in>set keep. 0 \<le> be_size x" "\<forall>x\<in>set drp. 0 \<le> be_size x" using assms(2) S by (auto simp: batch_ok_def)
  then have "batch_ok b'" "0 \<le> sumf be_size drp" by (auto simp: e batch_ok_def sumf_def intro: sumf_nonneg [unfolded sumf_def])
  then show ?thesis using assms(2,3) S by (auto simp: e conn_fits_def batch_ok_def globals_of_def sumf_def)
qed

lemma prepare_tasks_facts:
  assumes "length gates = length es"
  shows "map tk_budget (prepare_tasks now dl k es gates) = map be_global es"
    and "sumf tk_size (prepare_tasks now dl k es gates) = sumf be_size es"
    and "length (prepare_tasks now dl k es gates) = length es"
    and "tk_size ` set (prepare_tasks now dl k es gates) \<subseteq> be_size ` set es"
    and "tk_gate ` set (prepare_tasks now dl k es gates) \<subseteq> set gates"
proof -
  have len: "length [k..<k + length es] = length (zip es gates)" using assms by simp
  let ?z = "zip [k..<k + length es] (zip es gates)"
  have es: "map (fst \<circ> snd) ?z = es" using assms len by (simp flip: map_map)
  have "map (\<lambda>(k, e, g). h e) ?z = map h (map (fst \<circ> snd) ?z)" for h :: "rpc_entry \<Rightarrow> 'x" by auto
  then have m: "map (\<lambda>(k, e, g). h e) ?z = map h es" for h :: "rpc_entry \<Rightarrow> 'x" unfolding es .
  show "map tk_budget (prepare_tasks now dl k es gates) = map be_global es"
    using m [of be_global] by (simp add: prepare_tasks_def comp_def split_def)
  show "sumf tk_size (prepare_tasks now dl k es gates) = sumf be_size es"
    using arg_cong [OF m [of be_size], of sum_list] by (simp add: prepare_tasks_def sumf_def comp_def split_def)
  show "length (prepare_tasks now dl k es gates) = length es" using assms by (simp add: prepare_tasks_def)
  have "e \<in> set es \<and> g \<in> set gates" if "(a, e, g) \<in> set ?z" for a e g using that by (meson set_zip_leftD set_zip_rightD)
  then show "tk_size ` set (prepare_tasks now dl k es gates) \<subseteq> be_size ` set es"
    "tk_gate ` set (prepare_tasks now dl k es gates) \<subseteq> set gates"
    by (fastforce simp: prepare_tasks_def)+
qed

lemma fits_commit:
  assumes "batch_commit run now ticket gates b c = (e, p, gone, c')" and "batch_ok b" and "conn_fits c sl bb r rb k" and "0 \<le> k"
  shows "conn_fits c' (sl - int (length (ba_entries b))) (bb - ba_totalSize b) r rb k \<and>
    mset (map tk_budget (rq_queue c')) + mset gone = mset (map tk_budget (rq_queue c)) + mset (globals_of b) \<and>
    (\<forall>t\<in>set (rq_queue c'). t \<in> set (rq_queue c) \<or> tk_gate t \<in> set gates)"
proof (cases "length gates \<noteq> length (ba_entries b) \<or> rq_closed c \<or> rq_retired c")
  case True
  then have "c' = c\<lparr>rq_reserved := rq_reserved c - int (length (ba_entries b)), rq_inflight := rq_inflight c - ba_totalSize b\<rparr>"
    "gone = globals_of b" using assms(1) by (auto simp: batch_commit_def Let_def split: if_splits)
  then show ?thesis using assms(2,3) batch_ok_nonneg [of b] by (auto simp: conn_fits_def)
next
  case False
  let ?ts = "prepare_tasks now (batch_deadline now b c) ticket (ba_entries b) gates"
  let ?c = "c\<lparr>rq_reserved := rq_reserved c - int (length (ba_entries b)), rq_queue := rq_queue c @ ?ts\<rparr>"
  note T = prepare_tasks_facts [of gates "ba_entries b" now "batch_deadline now b c" ticket]
  have pub: "publish run ?c = (p, c')" and g: "gone = []" using False assms(1)
    by (auto simp: batch_commit_def Let_def split: prod.splits)
  have q: "rq_queue c' = rq_queue c @ ?ts" using pub by (auto simp: publish_def split: if_splits)
  have "\<forall>t\<in>set ?ts. 0 \<le> tk_size t" using T(4) False assms(2) by (auto simp: batch_ok_def)
  then have "conn_fits ?c (sl - int (length (ba_entries b))) (bb - ba_totalSize b) r rb k"
    using assms(2,3) T(2,3) False by (auto simp: conn_fits_def batch_ok_def)
  then have "conn_fits c' (sl - int (length (ba_entries b))) (bb - ba_totalSize b) r rb k"
    using publish_fits [OF pub assms(4)] by blast
  then show ?thesis using T(1,5) False by (auto simp: q g globals_of_def)
qed

end
