(* ===== verification/Rpc_Accounting.thy ===== *)
theory Rpc_Accounting
  imports Rpc_Budget
begin

text \<open>
  Under every interleaving the budgets of the scheduler and the counters of each connection equal
  what batches, queues, running tasks and outstanding releases hold.
\<close>

definition slots :: "world \<Rightarrow> nat \<Rightarrow> int" where
  "slots w i = sumf (\<lambda>b. if ba_conn b = i then int (length (ba_entries b)) else 0) (w_batches w)"

definition bbytes :: "world \<Rightarrow> nat \<Rightarrow> int" where
  "bbytes w i = sumf (\<lambda>b. if ba_conn b = i then ba_totalSize b else 0) (w_batches w)"

definition nrun :: "world \<Rightarrow> nat \<Rightarrow> int" where
  "nrun w i = sumf (\<lambda>(j, t). if j = i then 1 else 0) (w_running w)"

definition rbytes :: "world \<Rightarrow> nat \<Rightarrow> int" where
  "rbytes w i = sumf (\<lambda>(j, t). if j = i then tk_size t else 0) (w_running w)"

definition nbar :: "world \<Rightarrow> nat \<Rightarrow> int" where
  "nbar w i = sumf (\<lambda>j. if j = i then 1 else 0) (w_barriers w) + sumf (\<lambda>p. if p = PBarrier i then 1 else 0) (w_pending w)"

lemma nbar_nonneg: "0 \<le> nbar w i"
  unfolding nbar_def by (intro add_nonneg_nonneg sumf_nonneg) auto

fun pend_ids :: "rpc_pend \<Rightarrow> nat multiset" where
  "pend_ids (PAdmit b) = mset (globals_of b)"
| "pend_ids (PRelease rs) = mset rs"
| "pend_ids _ = {#}"

definition queued_ids :: "rpc_conn \<Rightarrow> nat multiset" where
  "queued_ids c = mset (map tk_budget (rq_queue c))"

definition rpc_held :: "world \<Rightarrow> nat multiset" where
  "rpc_held w = sumf (mset \<circ> globals_of) (w_batches w) + sumf (\<lambda>(i, t). {#tk_budget t#}) (w_running w) +
     sumf queued_ids (w_conns w) + sumf pend_ids (w_pending w)"

definition fits :: "world \<Rightarrow> nat \<Rightarrow> bool" where
  "fits w i \<longleftrightarrow> conn_fits (conn_at w i) (slots w i) (bbytes w i) (nrun w i) (rbytes w i) (nbar w i)"

fun pend_conn :: "rpc_pend \<Rightarrow> nat option" where
  "pend_conn (PAdmit b) = Some (ba_conn b)"
| "pend_conn (PRelease rs) = None"
| "pend_conn (PSchedule i) = Some i"
| "pend_conn (PUnschedule i) = Some i"
| "pend_conn (PToken i) = Some i"
| "pend_conn (PBarrier i) = Some i"
| "pend_conn (PWake i) = Some i"
| "pend_conn PEnsure = None"

definition refs_ok :: "world \<Rightarrow> bool" where
  "refs_ok w \<longleftrightarrow> (let n = length (w_conns w) in
     (\<forall>b\<in>set (w_batches w). batch_ok b \<and> ba_conn b < n) \<and> (\<forall>b. PAdmit b \<in> set (w_pending w) \<longrightarrow> batch_ok b) \<and>
     (\<forall>(i, t)\<in>set (w_running w). i < n \<and> 0 \<le> tk_size t) \<and> (\<forall>p\<in>set (w_pending w). \<forall>i. pend_conn p = Some i \<longrightarrow> i < n) \<and>
     (\<forall>i\<in>set (w_barriers w). i < n) \<and> (\<forall>g\<in>set (w_gates w). snd g < n) \<and> (\<forall>i\<in>set (sc_ready (w_sched w)). i < n))"

definition winv :: "world \<Rightarrow> bool" where
  "winv w \<longleftrightarrow> sched_ok (w_sched w) \<and> rpc_held w = mset_set (live (w_sched w)) \<and> (\<forall>i<length (w_conns w). fits w i) \<and> refs_ok w"

lemma ready_new: "sc_ready (newInboundRPCScheduler t b) = []"
  by (simp add: newInboundRPCScheduler_def)

lemma winv_empty: "winv (empty_world t b)"
  by (simp add: winv_def empty_world_def sched_ok_new live_new rpc_held_def refs_ok_def ready_new)

lemma winvD:
  assumes "winv w"
  shows "sched_ok (w_sched w)" and "rpc_held w = mset_set (live (w_sched w))" and "\<forall>j<length (w_conns w). fits w j" and "refs_ok w"
  using assms by (simp_all add: winv_def)

lemma winvI:
  "sched_ok (w_sched w) \<Longrightarrow> rpc_held w = mset_set (live (w_sched w)) \<Longrightarrow> (\<forall>j<length (w_conns w). fits w j) \<Longrightarrow> refs_ok w \<Longrightarrow> winv w"
  by (simp add: winv_def)

lemmas sums = slots_def bbytes_def nrun_def rbytes_def nbar_def
lemmas world_ops = put_conn_def todo_def done_with_def publication_def

text \<open>A step that replaces connection \<open>i\<close> and leaves the sums of the others alone.\<close>

definition same_sums :: "world \<Rightarrow> world \<Rightarrow> nat \<Rightarrow> bool" where
  "same_sums w w' j \<longleftrightarrow> slots w' j = slots w j \<and> bbytes w' j = bbytes w j \<and> nrun w' j = nrun w j \<and>
     rbytes w' j = rbytes w j \<and> nbar w' j = nbar w j"

lemma fits_step:
  assumes "\<forall>j<length (w_conns w). fits w j" and "i < length (w_conns w)" and "w_conns w' = (w_conns w)[i := c]"
    and "\<forall>j. j \<noteq> i \<longrightarrow> same_sums w w' j" and "conn_fits c (slots w' i) (bbytes w' i) (nrun w' i) (rbytes w' i) (nbar w' i)"
  shows "\<forall>j<length (w_conns w'). fits w' j"
proof (intro allI impI)
  fix j assume "j < length (w_conns w')"
  then show "fits w' j" using assms by (cases "j = i") (auto simp: fits_def conn_at_def same_sums_def)
qed

lemma fits_same:
  assumes "\<forall>j<length (w_conns w). fits w j" and "w_conns w' = w_conns w" and "\<forall>j. same_sums w w' j"
  shows "\<forall>j<length (w_conns w'). fits w' j"
  using assms by (auto simp: fits_def conn_at_def same_sums_def)

lemma queued_update:
  "i < length cs \<Longrightarrow> sumf queued_ids (cs[i := c]) + queued_ids (cs ! i) = sumf queued_ids cs + queued_ids c"
  by (rule sumf_update)

lemma queued_keep: "i < length cs \<Longrightarrow> rq_queue c = rq_queue (cs ! i) \<Longrightarrow> sumf queued_ids (cs[i := c]) = sumf queued_ids cs"
  using queued_update [of i cs c] by (simp add: queued_ids_def)

lemma remove_pend: "p \<in> set ps \<Longrightarrow> sumf pend_ids ps = pend_ids p + sumf pend_ids (remove1 p ps)"
  by (rule sumf_remove1)

lemma remove_bar: "p \<in> set ps \<Longrightarrow> p \<noteq> PBarrier i \<Longrightarrow>
   sumf (\<lambda>p. if p = PBarrier i then 1 else 0) (remove1 p ps) = (sumf (\<lambda>p. if p = PBarrier i then 1 else 0) ps :: int)"
  using sumf_remove1 [of p ps "\<lambda>p. if p = PBarrier i then (1 :: int) else 0"] by simp

lemma refs_sub:
  assumes "refs_ok w" and "length (w_conns w) = length (w_conns w')" and "set (w_batches w') \<subseteq> set (w_batches w)"
    and "set (w_running w') \<subseteq> set (w_running w)" and "set (w_pending w') \<subseteq> set (w_pending w) \<union> P"
    and "\<forall>p\<in>P. (\<forall>b. p \<noteq> PAdmit b) \<and> (\<forall>i. pend_conn p = Some i \<longrightarrow> i < length (w_conns w))"
    and "set (w_barriers w') \<subseteq> set (w_barriers w)" and "snd ` set (w_gates w') \<subseteq> snd ` set (w_gates w)"
    and "set (sc_ready (w_sched w')) \<subseteq> set (sc_ready (w_sched w))"
  shows "refs_ok w'"
proof -
  have "snd g \<in> snd ` set (w_gates w)" if "g \<in> set (w_gates w')" for g using that assms(8) by auto
  then show ?thesis using assms(1-7,9) unfolding refs_ok_def Let_def by (fastforce simp: subset_iff)
qed

subsection \<open>Steps on the scheduler\<close>

text \<open>A step that changes the scheduler's queue and the pending actions only, without reservations.\<close>

definition keeps :: "world \<Rightarrow> world \<Rightarrow> bool" where
  "keeps w w' \<longleftrightarrow> w_conns w' = w_conns w \<and> w_batches w' = w_batches w \<and> w_running w' = w_running w \<and> w_gates w' = w_gates w"

definition new_pend :: "world \<Rightarrow> rpc_pend \<Rightarrow> bool" where
  "new_pend w x \<longleftrightarrow> (\<forall>b. x \<noteq> PAdmit b) \<and> (\<forall>i. pend_conn x = Some i \<longrightarrow> i < length (w_conns w))"

lemma sched_step:
  assumes w: "winv w" and k: "keeps w w'" and s: "sched_ok (w_sched w') \<and> live (w_sched w') = live (w_sched w)"
    and r: "set (sc_ready (w_sched w')) \<subseteq> {..<length (w_conns w)}"
    and p: "sumf pend_ids (w_pending w') = sumf pend_ids (w_pending w)" "\<And>i. nbar w' i = nbar w i"
      "\<forall>x\<in>set (w_pending w'). x \<in> set (w_pending w) \<or> new_pend w x" "\<forall>i\<in>set (w_barriers w'). i < length (w_conns w)"
  shows "winv w'"
proof (rule winvI)
  show "sched_ok (w_sched w')" using s by simp
  show "rpc_held w' = mset_set (live (w_sched w'))" using winvD(2) [OF w] s p(1) k by (simp add: rpc_held_def keeps_def)
  have "same_sums w w' j" for j using p(2) k by (simp add: same_sums_def keeps_def slots_def bbytes_def nrun_def rbytes_def)
  then show "\<forall>j<length (w_conns w'). fits w' j" using fits_same [OF winvD(3) [OF w], of w'] k by (simp add: keeps_def)
  show "refs_ok w'" using winvD(4) [OF w] k r p(3,4) unfolding refs_ok_def Let_def keeps_def new_pend_def
    by (auto simp: subset_iff)
qed

lemma pend_lt: "winv w \<Longrightarrow> p \<in> set (w_pending w) \<Longrightarrow> pend_conn p = Some i \<Longrightarrow> i < length (w_conns w)"
  by (auto simp: winv_def refs_ok_def Let_def)

lemma ready_lt: "winv w \<Longrightarrow> set (sc_ready (w_sched w)) \<subseteq> {..<length (w_conns w)}"
  by (auto simp: winv_def refs_ok_def Let_def)

lemma barriers_lt: "winv w \<Longrightarrow> \<forall>i\<in>set (w_barriers w). i < length (w_conns w)"
  by (simp add: winv_def refs_ok_def Let_def)

lemma step_pop:
  assumes w: "winv w" and e: "rpc_exec Pop w = Some w'"
  shows "winv w'"
proof -
  obtain i xs where r: "sc_ready (w_sched w) = i # xs" and w': "w' = w\<lparr>w_sched := (w_sched w)\<lparr>sc_ready := xs\<rparr>, w_pending := PToken i # w_pending w\<rparr>"
    using e by (auto simp: popReady_def todo_def split: if_splits list.splits)
  show ?thesis
    by (rule sched_step [OF w])
      (use ready_lt [OF w] r ready_ops_ok(2) [OF winvD(1) [OF w]] barriers_lt [OF w] in
        \<open>auto simp: w' popReady_def nbar_def keeps_def new_pend_def\<close>)
qed

text \<open>Carrying out a pending action that holds no reservation.\<close>

lemma pend_step:
  assumes w: "winv w" and i: "x \<in> set (w_pending w)" "pend_ids x = {#}" and k: "keeps w w'"
    and s: "sched_ok (w_sched w') \<and> live (w_sched w') = live (w_sched w)"
    and r: "set (sc_ready (w_sched w')) \<subseteq> {..<length (w_conns w)}"
    and p: "w_pending w' = ps @ remove1 x (w_pending w)" "\<forall>y\<in>set ps. pend_ids y = {#} \<and> new_pend w y"
    and b: "\<And>j. nbar w' j = nbar w j" "\<forall>j\<in>set (w_barriers w'). j < length (w_conns w)"
  shows "winv w'"
proof (rule sched_step [OF w k s r _ b(1) _ b(2)])
  have "sumf pend_ids ps = {#}" using p(2) by (intro sumf_zero) auto
  then show "sumf pend_ids (w_pending w') = sumf pend_ids (w_pending w)" using remove_pend [OF i(1)] i(2) p(1) by simp
  show "\<forall>y\<in>set (w_pending w'). y \<in> set (w_pending w) \<or> new_pend w y"
    using p set_remove1_subset [of x "w_pending w"] by auto
qed

lemma step_publish:
  assumes w: "winv w" and e: "rpc_exec (Publish i) w = Some w'"
  shows "winv w'"
proof -
  have i: "PSchedule i \<in> set (w_pending w)" using e by (auto split: if_splits)
  have lt: "i < length (w_conns w)" using pend_lt [OF w i] by simp
  obtain a s where s: "schedule_conn i (conn_at w i) (w_sched w) = (a, s)" by fastforce
  have sr: "set (sc_ready s) \<subseteq> insert i (set (sc_ready (w_sched w)))"
    using s by (auto simp: schedule_conn_def enqueueReady_def split: if_splits)
  have w': "w_sched w' = s" "w_pending w' = (if a then [PEnsure] else []) @ remove1 (PSchedule i) (w_pending w)" "w_barriers w' = w_barriers w" "keeps w w'"
    using e i s by (auto simp: world_ops keeps_def)
  show ?thesis
    by (rule pend_step [OF w i _ w'(4) _ _ w'(2)])
      (use ready_ops_ok(4) [OF winvD(1) [OF w], of i "conn_at w i"] s sr ready_lt [OF w] lt remove_bar [OF i] barriers_lt [OF w] in
        \<open>auto simp: w' nbar_def new_pend_def\<close>)
qed

lemma step_unpublish:
  assumes w: "winv w" and e: "rpc_exec (Unpublish i) w = Some w'"
  shows "winv w'"
proof -
  have i: "PUnschedule i \<in> set (w_pending w)" using e by (auto split: if_splits)
  have w': "w_sched w' = unschedule i (w_sched w)" "w_pending w' = [] @ remove1 (PUnschedule i) (w_pending w)" "w_barriers w' = w_barriers w" "keeps w w'"
    using e i by (auto simp: world_ops keeps_def)
  show ?thesis
    by (rule pend_step [OF w i _ w'(4) _ _ w'(2)])
      (use ready_ops_ok(3) [OF winvD(1) [OF w]] ready_lt [OF w] remove_bar [OF i] barriers_lt [OF w] in
        \<open>auto simp: w' nbar_def unschedule_def\<close>)
qed

lemma step_barrier:
  assumes w: "winv w" and e: "rpc_exec (Barrier i) w = Some w'"
  shows "winv w'"
proof -
  have i: "PBarrier i \<in> set (w_pending w)" using e by (auto split: if_splits)
  have lt: "i < length (w_conns w)" using pend_lt [OF w i] by simp
  have w': "w_sched w' = unschedule i (w_sched w)" "w_pending w' = [] @ remove1 (PBarrier i) (w_pending w)" "w_barriers w' = i # w_barriers w" "keeps w w'"
    using e i by (auto simp: world_ops keeps_def)
  have "nbar w' j = nbar w j" for j
    using sumf_remove1 [OF i, of "\<lambda>p. if p = PBarrier j then (1 :: int) else 0"] by (simp add: nbar_def w')
  then show ?thesis
    by (intro pend_step [OF w i _ w'(4) _ _ w'(2)])
      (use ready_ops_ok(3) [OF winvD(1) [OF w]] ready_lt [OF w] barriers_lt [OF w] lt in \<open>auto simp: w'(1,3) unschedule_def\<close>)
qed

lemma step_lifecycle:
  assumes w: "winv w" and e: "rpc_exec l w = Some w'" and l: "l = Start \<or> l = Ensure \<or> l = Stop"
  shows "winv w'"
proof -
  note L = lifecycle_ok [OF winvD(1) [OF w]]
  have rd: "sc_ready (snd (scheduler_start (w_sched w))) = sc_ready (w_sched w)" "sc_ready (ensureWorkers (w_sched w)) = sc_ready (w_sched w)"
    "sc_ready (scheduler_stop (w_sched w)) = sc_ready (w_sched w)"
    by (simp_all add: scheduler_start_def ensureWorkers_def scheduler_stop_def)
  note facts = ready_lt [OF w] barriers_lt [OF w]
  consider "l = Start" | "l = Stop" | "l = Ensure" using l by blast
  then show ?thesis
  proof cases
    case 1
    obtain p s where s: "scheduler_start (w_sched w) = (p, s)" by fastforce
    have w': "w' = w\<lparr>w_sched := s, w_pending := (if p then [PEnsure] else []) @ w_pending w\<rparr>" using e 1 s by (simp add: world_ops)
    show ?thesis by (rule sched_step [OF w]) (use L(1) s rd facts in \<open>auto simp: w' nbar_def keeps_def new_pend_def\<close>)
  next
    case 2
    have w': "w' = w\<lparr>w_sched := scheduler_stop (w_sched w)\<rparr>" using e 2 by simp
    show ?thesis by (rule sched_step [OF w]) (use L(3) rd facts in \<open>auto simp: w' nbar_def keeps_def\<close>)
  next
    case 3
    then have i: "PEnsure \<in> set (w_pending w)" using e by (auto split: if_splits)
    have w': "w_sched w' = ensureWorkers (w_sched w)" "w_pending w' = [] @ remove1 PEnsure (w_pending w)" "w_barriers w' = w_barriers w" "keeps w w'"
      using e 3 i by (auto simp: world_ops keeps_def)
    show ?thesis
      by (rule pend_step [OF w i _ w'(4) _ _ w'(2)]) (use L(2) rd facts remove_bar [OF i] in \<open>auto simp: w' nbar_def\<close>)
  qed
qed

lemma step_reserve:
  assumes w: "winv w" and e: "rpc_exec (Reserve i specs dl) w = Some w'"
  shows "winv w'"
proof -
  let ?s = "w_sched w" let ?n = "map sp_size (normalized specs)"
  have i: "i < length (w_conns w)" using e by (auto split: if_splits)
  obtain r s where r: "reserveGlobalBatch ?n ?s = (r, s)" by fastforce
  note R = reserveGlobalBatch_ok [OF winvD(1) [OF w] r]
  show ?thesis
  proof (cases "rq_retired (conn_at w i) \<or> (\<exists>x. r = Inl x)")
    case True
    then have "w' = w" using e i r R by (cases "rq_retired (conn_at w i)") (auto simp: reserve_global_part_def Let_def)
    then show ?thesis using w by simp
  next
    case False
    then obtain gs where gs: "r = Inr gs" "\<not> rq_retired (conn_at w i)" by (cases r) auto
    define b where "b = batch_of i (normalized specs) gs dl"
    have S: "gs = [sc_next ?s..<sc_next ?s + length ?n]" "sched_ok s" "live s = live ?s \<union> set gs" "live ?s \<inter> set gs = {}"
      "sc_ready s = sc_ready ?s" using R gs by auto
    then have len: "length gs = length specs" by (simp add: normalized_def)
    have B: "batch_ok b" "globals_of b = gs" "ba_conn b = i" using batch_of_ok [OF len, of i dl] by (simp_all add: b_def) (simp add: batch_of_def)
    have w': "w' = w\<lparr>w_sched := s, w_pending := PAdmit b # w_pending w\<rparr>"
      using e i r gs by (auto simp: reserve_global_part_def Let_def world_ops b_def)
    have "mset gs = mset_set (set gs)" using S(1) by simp
    then have h: "mset gs + mset_set (live ?s) = mset_set (live s)"
      using S(3,4) live_finite [OF winvD(1) [OF w]] by (simp add: mset_set_Union)
    show ?thesis
    proof (rule winvI)
      show "rpc_held w' = mset_set (live (w_sched w'))" using winvD(2) [OF w] h B(2) by (simp add: w' rpc_held_def ac_simps)
      show "\<forall>j<length (w_conns w'). fits w' j"
        by (rule fits_same [OF winvD(3) [OF w]]) (simp_all add: w' same_sums_def sums)
      show "refs_ok w'" using winvD(4) [OF w] B(1,3) i S(5) unfolding refs_ok_def Let_def by (simp add: w')
    qed (use S in \<open>simp add: w'\<close>)
  qed
qed

lemma step_release:
  assumes w: "winv w" and e: "rpc_exec (Release rs) w = Some w'"
  shows "winv w'"
proof -
  have i: "PRelease rs \<in> set (w_pending w)" using e by (auto split: if_splits)
  let ?s = "w_sched w" let ?t = "releaseInboundRPCGlobalBatch rs ?s"
  have w': "w_sched w' = ?t" "w_pending w' = remove1 (PRelease rs) (w_pending w)" "w_barriers w' = w_barriers w" "keeps w w'"
    using e i by (auto simp: world_ops keeps_def)
  have H: "rpc_held w = mset rs + rpc_held w'" using remove_pend [OF i] w' by (simp add: rpc_held_def keeps_def ac_simps)
  have fin: "finite (live ?s)" by (rule live_finite [OF winvD(1) [OF w]])
  have sub: "mset rs \<subseteq># mset_set (live ?s)" using H winvD(2) [OF w] by (metis mset_subset_eq_add_left)
  have "distinct rs" "set rs \<subseteq> live ?s"
  proof -
    have "count (mset rs) x \<le> count (mset_set (live ?s)) x" for x using sub by (rule mset_subset_eq_count)
    moreover have "count (mset_set (live ?s)) x \<le> 1" for x using fin by (cases "x \<in> live ?s") auto
    ultimately have "count (mset rs) x \<le> 1" for x by (meson order_trans)
    then show "distinct rs" unfolding distinct_count_atmost_1 by (metis One_nat_def count_eq_zero_iff le_SucE le_zero_eq set_mset_mset)
    show "set rs \<subseteq> live ?s" using set_mset_mono [OF sub] fin by simp
  qed
  then have "mset_set (live ?s - set rs) = mset_set (live ?s) - mset rs" using fin by (simp add: mset_set_Diff mset_set_set)
  then have rpc_held': "rpc_held w' = mset_set (live ?s - set rs)" using H winvD(2) [OF w] by simp
  show ?thesis
  proof (rule winvI)
    show "rpc_held w' = mset_set (live (w_sched w'))" using rpc_held' release_batch_ok [OF winvD(1) [OF w], of rs] w'(1) by simp
    have "same_sums w w' j" for j using w' remove_bar [OF i] by (simp add: same_sums_def sums keeps_def)
    then show "\<forall>j<length (w_conns w'). fits w' j" using fits_same [OF winvD(3) [OF w], of w'] w'(4) by (simp add: keeps_def)
    show "refs_ok w'" using winvD(4) [OF w] w' set_remove1_subset [of "PRelease rs" "w_pending w"]
      unfolding refs_ok_def Let_def keeps_def by (auto simp: subset_iff)
  qed (use release_batch_ok [OF winvD(1) [OF w], of rs] w'(1) in simp)
qed

subsection \<open>Steps on a connection\<close>

definition next_refs :: "world \<Rightarrow> world \<Rightarrow> bool" where
  "next_refs w w' \<longleftrightarrow> (\<forall>b\<in>set (w_batches w'). b \<in> set (w_batches w) \<or> batch_ok b \<and> ba_conn b < length (w_conns w)) \<and>
     (\<forall>x\<in>set (w_pending w'). x \<in> set (w_pending w) \<or> new_pend w x) \<and>
     (\<forall>(j, t)\<in>set (w_running w'). (j, t) \<in> set (w_running w) \<or> j < length (w_conns w) \<and> 0 \<le> tk_size t) \<and>
     (\<forall>j\<in>set (w_barriers w'). j < length (w_conns w)) \<and> w_gates w' = w_gates w \<and> sc_ready (w_sched w') = sc_ready (w_sched w)"

lemma conn_step:
  assumes w: "winv w" and i: "i < length (w_conns w)" and c: "w_conns w' = (w_conns w)[i := c]"
    and s: "sched_ok (w_sched w') \<and> live (w_sched w') = live (w_sched w)" and h: "rpc_held w' = rpc_held w"
    and o: "\<And>j. j \<noteq> i \<Longrightarrow> same_sums w w' j"
    and f: "conn_fits c (slots w' i) (bbytes w' i) (nrun w' i) (rbytes w' i) (nbar w' i)" and n: "next_refs w w'"
  shows "winv w'"
proof (rule winvI)
  show "sched_ok (w_sched w')" "rpc_held w' = mset_set (live (w_sched w'))" using s h winvD(2) [OF w] by simp_all
  show "\<forall>j<length (w_conns w'). fits w' j" using fits_step [OF winvD(3) [OF w] i c _ f] o by blast
  show "refs_ok w'" using winvD(4) [OF w] n c unfolding refs_ok_def Let_def next_refs_def new_pend_def by auto
qed

lemma old_fits: "winv w \<Longrightarrow> i < length (w_conns w) \<Longrightarrow>
   conn_fits (conn_at w i) (slots w i) (bbytes w i) (nrun w i) (rbytes w i) (nbar w i)"
  by (simp add: winv_def fits_def)

text \<open>Steps that change one connection and append pending actions, without moving a reservation.\<close>

lemma quiet_conn_step:
  assumes w: "winv w" and i: "i < length (w_conns w)" and c: "w_conns w' = (w_conns w)[i := c]" "rq_queue c = rq_queue (conn_at w i)"
    and k: "w_sched w' = w_sched w" "w_batches w' = w_batches w" "w_running w' = w_running w" "w_gates w' = w_gates w"
    and p: "sumf pend_ids (w_pending w') = sumf pend_ids (w_pending w)" "\<forall>x\<in>set (w_pending w'). x \<in> set (w_pending w) \<or> new_pend w x"
      "\<forall>j\<in>set (w_barriers w'). j < length (w_conns w)" "\<And>j. j \<noteq> i \<Longrightarrow> nbar w' j = nbar w j"
    and f: "conn_fits c (slots w i) (bbytes w i) (nrun w i) (rbytes w i) (nbar w' i)"
  shows "winv w'"
proof (rule conn_step [OF w i c(1)])
  show "rpc_held w' = rpc_held w" using queued_keep [OF i, of c] c k p(1) by (simp add: rpc_held_def conn_at_def)
  show "same_sums w w' j" if "j \<noteq> i" for j using p(4) [OF that] k by (simp add: same_sums_def slots_def bbytes_def nrun_def rbytes_def)
  show "conn_fits c (slots w' i) (bbytes w' i) (nrun w' i) (rbytes w' i) (nbar w' i)"
    using f k by (simp add: slots_def bbytes_def nrun_def rbytes_def)
  show "next_refs w w'" using p(2,3) k by (auto simp: next_refs_def)
qed (use winvD(1) [OF w] k in simp)

end
