(* ===== verification/Rpc_Accounting_Steps.thy ===== *)
theory Rpc_Accounting_Steps
  imports Rpc_Accounting
begin

text \<open>The remaining steps: reservations that move between batches, queues, workers and releases.\<close>

lemma mset_move:
  fixes A :: "'a :: cancel_comm_monoid_add"
  assumes "A' + q = A + q'" and "b = g + b'" and "q' + x = q + g"
  shows "b' + A' + x = b + A"
proof -
  have "b' + A' + x + q = b' + (A' + q) + x" by (simp add: ac_simps)
  also have "\<dots> = b' + A + (q' + x)" by (simp add: assms(1) ac_simps)
  also have "\<dots> = b + A + q" by (simp add: assms(2,3) ac_simps)
  finally show ?thesis by simp
qed

lemma sumf_remove1_int: "x \<in> set xs \<Longrightarrow> sumf f (remove1 x xs) = sumf f xs - f x" for f :: "'a \<Rightarrow> int"
  using sumf_remove1 [of x xs f] by simp

lemma nbar_todo: "PBarrier i \<notin> set ps \<Longrightarrow> sumf (\<lambda>p. if p = PBarrier i then 1 else 0) (ps @ qs) = (sumf (\<lambda>p. if p = PBarrier i then 1 else 0) qs :: int)"
  by (induction ps) auto

lemma publication_pend: "x \<in> set (publication p i) \<Longrightarrow> x = PSchedule i"
  by (auto simp: publication_def split: if_splits)

lemma publication_ids [simp]: "sumf pend_ids (publication p i) = {#}"
  by (simp add: publication_def)

lemma publication_bar [simp]: "sumf (\<lambda>p. if p = PBarrier j then 1 else 0) (publication q i) = (0 :: int)"
  by (simp add: publication_def)

lemma new_pend_simps [simp]:
  "new_pend w (PRelease rs)" "new_pend w PEnsure" "new_pend w (PSchedule i) = (i < length (w_conns w))"
  "new_pend w (PUnschedule i) = (i < length (w_conns w))" "new_pend w (PToken i) = (i < length (w_conns w))"
  "new_pend w (PBarrier i) = (i < length (w_conns w))" "new_pend w (PWake i) = (i < length (w_conns w))"
  by (simp_all add: new_pend_def)

lemma publish_queue: "publish run c = (p, c') \<Longrightarrow> rq_queue c' = rq_queue c"
  by (auto simp: publish_def split: if_splits)

lemma batch_facts: "winv w \<Longrightarrow> b \<in> set (w_batches w) \<Longrightarrow> batch_ok b \<and> ba_conn b < length (w_conns w)"
  by (simp add: winv_def refs_ok_def Let_def)

lemma admit_facts: "winv w \<Longrightarrow> PAdmit b \<in> set (w_pending w) \<Longrightarrow> batch_ok b \<and> ba_conn b < length (w_conns w)"
  using pend_lt [of w "PAdmit b" "ba_conn b"] winvD(4) [of w] unfolding refs_ok_def Let_def by simp

lemma running_facts: "winv w \<Longrightarrow> (i, t) \<in> set (w_running w) \<Longrightarrow> i < length (w_conns w) \<and> 0 \<le> tk_size t"
  by (fastforce simp: winv_def refs_ok_def Let_def)

subsection \<open>Growth of the world\<close>

lemma fits_empty:
  assumes "winv w" and that: "n = length (w_conns w)"
  shows "slots w n = 0 \<and> bbytes w n = 0 \<and> nrun w n = 0 \<and> rbytes w n = 0 \<and> nbar w n = 0"
proof -
  have b: "\<forall>b\<in>set (w_batches w). ba_conn b \<noteq> n" and r: "\<forall>(i, t)\<in>set (w_running w). i \<noteq> n" and ba: "\<forall>i\<in>set (w_barriers w). i \<noteq> n"
    using assms by (auto simp: winv_def refs_ok_def Let_def)
  have p: "\<forall>x\<in>set (w_pending w). x \<noteq> PBarrier n" using pend_lt [OF assms(1)] that by fastforce
  show ?thesis unfolding sums using b r ba p
    by (intro conjI sumf_zero) (auto simp: sumf_zero)
qed

lemma step_connect:
  assumes w: "winv w" and e: "rpc_exec (Connect m q t) w = Some w'"
  shows "winv w'"
proof -
  let ?n = "length (w_conns w)" let ?c = "startInboundRPCScheduler m q t"
  have w': "w' = w\<lparr>w_conns := w_conns w @ [?c]\<rparr>" using e by simp
  have "queued_ids ?c = {#}" by (simp add: queued_ids_def startInboundRPCScheduler_def)
  then have h: "rpc_held w' = rpc_held w" by (simp add: rpc_held_def w')
  have S: "slots w' j = slots w j" "bbytes w' j = bbytes w j" "nrun w' j = nrun w j" "rbytes w' j = rbytes w j" "nbar w' j = nbar w j" for j
    by (simp_all add: sums w')
  have cn: "w_conns w' = w_conns w @ [?c]" by (simp add: w')
  have "fits w' j" if "j < length (w_conns w')" for j
  proof (cases "j = ?n")
    case True
    then show ?thesis using fits_empty [OF w True] fits_new by (simp add: fits_def S conn_at_def cn)
  next
    case False
    then have "j < ?n" using that by (simp add: cn)
    then show ?thesis using winvD(3) [OF w] by (simp add: fits_def S conn_at_def cn nth_append)
  qed
  moreover have "refs_ok w'" using winvD(4) [OF w] unfolding refs_ok_def Let_def w' by (force intro: less_SucI)
  ultimately show ?thesis using winvD [OF w] h by (simp add: winv_def) (simp add: w')
qed

lemma gate_step:
  assumes w: "winv w"
    and k: "w_sched w' = w_sched w" "w_conns w' = w_conns w" "w_batches w' = w_batches w" "w_running w' = w_running w" "w_barriers w' = w_barriers w"
    and ps: "w_pending w' = ps @ w_pending w" "\<forall>x\<in>set ps. \<exists>i. x = PWake i \<and> i < length (w_conns w)"
    and g: "\<forall>x\<in>set (w_gates w'). snd x < length (w_conns w)"
  shows "winv w'"
proof -
  have z: "sumf pend_ids ps = {#}" using ps(2) by (intro sumf_zero) auto
  have nb: "nbar w' j = nbar w j" for j using ps nbar_todo [of j ps] k by (auto simp: nbar_def)
  have "\<forall>x\<in>set ps. new_pend w x" using ps(2) by auto
  then have "refs_ok w'" using winvD(4) [OF w] ps(1) g unfolding refs_ok_def Let_def new_pend_def k by auto
  moreover have "\<forall>j<length (w_conns w'). fits w' j"
    by (rule fits_same [OF winvD(3) [OF w] k(2)]) (simp add: nb same_sums_def slots_def bbytes_def nrun_def rbytes_def k)
  ultimately show ?thesis using winvD(1,2) [OF w] k ps(1) z by (simp add: winv_def rpc_held_def)
qed

lemma gates_lt: "winv w \<Longrightarrow> \<forall>x\<in>set (w_gates w). snd x < length (w_conns w)"
  by (simp add: winv_def refs_ok_def Let_def)

lemma step_new_gate: "winv w \<Longrightarrow> rpc_exec (NewGate i n) w = Some w' \<Longrightarrow> winv w'"
  by (rule gate_step [of w w' "[]"]) (use gates_lt [of w] in \<open>auto split: if_splits\<close>)

lemma step_resolve:
  assumes w: "winv w" and e: "rpc_exec (Resolve k ok) w = Some w'"
  shows "winv w'"
proof -
  let ?i = "snd (w_gates w ! k)"
  obtain wake g where k: "k < length (w_gates w)"
    and w': "w' = todo (if wake then [PWake ?i] else []) (w\<lparr>w_gates := (w_gates w)[k := (g, ?i)]\<rparr>)"
    using e by (auto simp: Let_def split: if_splits)
  have "?i < length (w_conns w)" using gates_lt [OF w] k by simp
  then show ?thesis
    by (intro gate_step [OF w, of w' "if wake then [PWake ?i] else []"])
      (use gates_lt [OF w] set_update_subset_insert [of "w_gates w" k "(g, ?i)"] in \<open>auto simp: w' todo_def\<close>)
qed

subsection \<open>Steps that move no reservation\<close>

lemma step_retire:
  assumes w: "winv w" and e: "rpc_exec (Retire i) w = Some w'"
  shows "winv w'"
proof -
  have i: "i < length (w_conns w)" and w': "w' = put_conn i ((conn_at w i)\<lparr>rq_retired := True\<rparr>) w"
    using e by (auto split: if_splits)
  show ?thesis
    by (rule quiet_conn_step [OF w i, where c = "(conn_at w i)\<lparr>rq_retired := True\<rparr>"])
      (use barriers_lt [OF w] fits_retire [OF old_fits [OF w i]] in \<open>simp_all add: w' put_conn_def nbar_def\<close>)
qed

lemma step_wake:
  assumes w: "winv w" and e: "rpc_exec (WakeUp i) w = Some w'"
  shows "winv w'"
proof -
  have x: "PWake i \<in> set (w_pending w)" using e by (auto split: if_splits)
  have i: "i < length (w_conns w)" using pend_lt [OF w x] by simp
  obtain p c where p: "publish (runs (w_gates w)) (conn_at w i) = (p, c)" by fastforce
  have w': "w' = todo (publication p i) (put_conn i c (done_with (PWake i) w))" using e x p by (simp add: wakeInboundRPC_def)
  have nb: "nbar w' j = nbar w j" for j using remove_bar [OF x, of j] by (simp add: w' nbar_def todo_def put_conn_def done_with_def)
  show ?thesis
    by (rule quiet_conn_step [OF w i, where c = c])
      (use barriers_lt [OF w] publish_fits [OF p nbar_nonneg old_fits [OF w i]] publish_queue [OF p] remove_pend [OF x] nb i
          set_remove1_subset [of "PWake i" "w_pending w"] in
        \<open>auto simp: w' put_conn_def todo_def done_with_def nb dest: publication_pend\<close>)
qed

lemma step_begin:
  assumes w: "winv w" and e: "rpc_exec (BeginRestore i) w = Some w'"
  shows "winv w'"
proof -
  have i: "i < length (w_conns w)" using e by (auto split: if_splits)
  obtain a u c where c: "beginRPCReplayRestore (conn_at w i) = (a, u, c)" by (metis prod_cases3)
  note F = fits_begin [OF c old_fits [OF w i]]
  show ?thesis
  proof (cases a)
    case False
    then show ?thesis using e i c w by simp
  next
    case True
    have w': "w_conns w' = (w_conns w)[i := c]" "w_sched w' = w_sched w" "w_batches w' = w_batches w" "w_running w' = w_running w"
      "w_gates w' = w_gates w" "sumf pend_ids (w_pending w') = sumf pend_ids (w_pending w)"
      "w_pending w' = (if u then [PBarrier i] else []) @ w_pending w" "w_barriers w' = (if u then [] else [i]) @ w_barriers w"
      using e i c True by (auto simp: todo_def put_conn_def split: if_splits)
    have "nbar w' j = nbar w j + (if j = i then 1 else 0)" for j by (simp add: nbar_def w'(7,8))
    then show ?thesis
      by (intro quiet_conn_step [OF w i w'(1) _ w'(2-6)]) (use F True barriers_lt [OF w] i in \<open>auto simp: w'(7,8)\<close>)
  qed
qed

lemma barrier_active: "winv w \<Longrightarrow> i \<in> set (w_barriers w) \<Longrightarrow> 0 < nbar w i"
proof -
  assume "winv w" "i \<in> set (w_barriers w)"
  moreover have "0 \<le> sumf (\<lambda>p. if p = PBarrier i then 1 else 0 :: int) (w_pending w)" by (rule sumf_nonneg) auto
  moreover have "0 \<le> sumf (\<lambda>j. if j = i then 1 else 0 :: int) (remove1 i (w_barriers w))" by (rule sumf_nonneg) auto
  ultimately show ?thesis using sumf_remove1 [of i "w_barriers w" "\<lambda>j. if j = i then (1 :: int) else 0"] by (simp add: nbar_def)
qed

lemma step_end:
  assumes w: "winv w" and e: "rpc_exec (EndRestore i) w = Some w'"
  shows "winv w'"
proof -
  have b: "i \<in> set (w_barriers w)" using e by (auto split: if_splits)
  then have i: "i < length (w_conns w)" using barriers_lt [OF w] by blast
  obtain p c where c: "endRPCReplayRestore (runs (w_gates w)) (conn_at w i) = Some (p, c)"
    "conn_fits c (slots w i) (bbytes w i) (nrun w i) (rbytes w i) (nbar w i - 1)" "rq_queue c = rq_queue (conn_at w i)"
    using fits_end [OF old_fits [OF w i] barrier_active [OF w b]] by blast
  have w': "w' = todo (publication p i) ((put_conn i c w)\<lparr>w_barriers := remove1 i (w_barriers w)\<rparr>)" using e b c(1) by simp
  have nb: "nbar w' j = nbar w j - (if j = i then 1 else 0)" for j
    using sumf_remove1_int [OF b, of "\<lambda>k. if k = j then 1 else 0"] by (auto simp: w' nbar_def todo_def put_conn_def)
  show ?thesis
    by (rule quiet_conn_step [OF w i, where c = c])
      (use c nb i barriers_lt [OF w] set_remove1_subset [of i "w_barriers w"] in
        \<open>auto simp: w' put_conn_def todo_def nb dest: publication_pend\<close>)
qed

subsection \<open>Steps that move reservations\<close>

lemma held_move:
  assumes "w_conns w' = (w_conns w)[i := c]" and "i < length (w_conns w)"
    and "sumf (mset \<circ> globals_of) (w_batches w) + sumf (\<lambda>(i, t). {#tk_budget t#}) (w_running w) + sumf pend_ids (w_pending w) = g + rest"
    and "sumf (mset \<circ> globals_of) (w_batches w') + sumf (\<lambda>(i, t). {#tk_budget t#}) (w_running w') + sumf pend_ids (w_pending w') = x + rest"
    and "queued_ids c + x = queued_ids (conn_at w i) + g"
  shows "rpc_held w' = rpc_held w"
proof -
  have "rest + sumf queued_ids (w_conns w') + x = g + rest + sumf queued_ids (w_conns w)"
    by (rule mset_move [where q = "queued_ids (conn_at w i)" and q' = "queued_ids c" and g = g])
      (use queued_update [OF assms(2), of c] assms(1,5) in \<open>simp_all add: conn_at_def\<close>)
  moreover have "rpc_held w = (g + rest) + sumf queued_ids (w_conns w)" unfolding assms(3) [symmetric] by (simp add: rpc_held_def ac_simps)
  moreover have "rpc_held w' = (x + rest) + sumf queued_ids (w_conns w')" unfolding assms(4) [symmetric] by (simp add: rpc_held_def ac_simps)
  ultimately show ?thesis by (simp add: ac_simps)
qed

lemma step_admit:
  assumes w: "winv w" and e: "rpc_exec (Admit b x) w = Some w'"
  shows "winv w'"
proof -
  have p: "PAdmit b \<in> set (w_pending w)" using e by (auto split: if_splits)
  note A = admit_facts [OF w p]
  let ?i = "ba_conn b"
  note sub = set_remove1_subset [of "PAdmit b" "w_pending w"]
  show ?thesis
  proof (cases "reserve_conn_part x b (conn_at w ?i)")
    case (Inl er)
    then have w': "w' = todo [PRelease (globals_of b)] (done_with (PAdmit b) w)" using e p by simp
    show ?thesis
      by (rule sched_step [OF w])
        (use winvD(1) [OF w] ready_lt [OF w] barriers_lt [OF w] remove_pend [OF p] remove_bar [OF p] sub in
          \<open>auto simp: w' todo_def done_with_def keeps_def nbar_def\<close>)
  next
    case (Inr c)
    then have w': "w' = (put_conn ?i c (done_with (PAdmit b) w))\<lparr>w_batches := b # w_batches w\<rparr>" using e p by simp
    have q: "rq_queue c = rq_queue (conn_at w ?i)" using Inr by (auto simp: reserve_conn_part_def split: if_splits)
    have nb: "nbar w' j = nbar w j" for j using remove_bar [OF p, of j] by (simp add: w' nbar_def put_conn_def done_with_def)
    show ?thesis
    proof (rule conn_step [OF w, of ?i _ c])
      show "rpc_held w' = rpc_held w"
        by (rule held_move [where i = ?i and c = c and g = "{#}" and x = "{#}"])
          (use A q remove_pend [OF p] in \<open>simp_all add: w' put_conn_def done_with_def queued_ids_def ac_simps\<close>)
      show "same_sums w w' j" if "j \<noteq> ?i" for j using that nb [of j] by (simp add: same_sums_def) (simp add: w' sums put_conn_def done_with_def)
      show "conn_fits c (slots w' ?i) (bbytes w' ?i) (nrun w' ?i) (rbytes w' ?i) (nbar w' ?i)"
        using fits_reserve [OF Inr old_fits [OF w]] A nb [of ?i] by (simp add: w' slots_def bbytes_def nrun_def rbytes_def put_conn_def done_with_def ac_simps)
      show "next_refs w w'" using A sub barriers_lt [OF w] by (auto simp: next_refs_def w' put_conn_def done_with_def)
    qed (use A winvD(1) [OF w] in \<open>simp_all add: w' put_conn_def done_with_def\<close>)
  qed
qed

text \<open>A step that replaces or removes an open batch.\<close>

lemma sumf_of_conn: "\<forall>d\<in>set ds. ba_conn d = m \<Longrightarrow> sumf (\<lambda>d. if ba_conn d = j then h d else 0) ds = (if j = m then sumf h ds else 0)"
  for h :: "rpc_batch \<Rightarrow> int"
  by (induction ds) auto

lemma batch_step:
  assumes w: "winv w" and b: "b \<in> set (w_batches w)" and c: "w_conns w' = (w_conns w)[ba_conn b := c]"
    and s: "sched_ok (w_sched w') \<and> live (w_sched w') = live (w_sched w) \<and> sc_ready (w_sched w') = sc_ready (w_sched w)"
    and k: "w_running w' = w_running w" "w_gates w' = w_gates w" "w_barriers w' = w_barriers w"
    and bs: "w_batches w' = bs @ remove1 b (w_batches w)" "\<forall>d\<in>set bs. batch_ok d \<and> ba_conn d = ba_conn b"
    and p: "w_pending w' = ps @ w_pending w" "\<forall>y\<in>set ps. new_pend w y \<and> (\<forall>j. y \<noteq> PBarrier j)"
    and h: "queued_ids c + sumf (mset \<circ> globals_of) bs + sumf pend_ids ps = queued_ids (conn_at w (ba_conn b)) + mset (globals_of b)"
    and f: "conn_fits c (slots w (ba_conn b) - int (length (ba_entries b)) + sumf (\<lambda>d. int (length (ba_entries d))) bs)
      (bbytes w (ba_conn b) - ba_totalSize b + sumf ba_totalSize bs) (nrun w (ba_conn b)) (rbytes w (ba_conn b)) (nbar w (ba_conn b))"
  shows "winv w'"
proof -
  let ?i = "ba_conn b"
  have i: "?i < length (w_conns w)" using batch_facts [OF w b] by simp
  have in_i: "sumf (\<lambda>d. if ba_conn d = j then h d else 0) bs = (if j = ?i then sumf h bs else 0)" for j and h :: "rpc_batch \<Rightarrow> int"
    using bs(2) by (intro sumf_of_conn) blast
  have nb: "nbar w' j = nbar w j" for j using nbar_todo [of j ps] p k by (auto simp: nbar_def)
  have sl: "slots w' j = slots w j + (if j = ?i then sumf (\<lambda>d. int (length (ba_entries d))) bs - int (length (ba_entries b)) else 0)" for j
    using sumf_remove1_int [OF b, of "\<lambda>b. if ba_conn b = j then int (length (ba_entries b)) else 0"] in_i [of j "\<lambda>d. int (length (ba_entries d))"]
    by (auto simp: slots_def bs(1))
  have bb: "bbytes w' j = bbytes w j + (if j = ?i then sumf ba_totalSize bs - ba_totalSize b else 0)" for j
    using sumf_remove1_int [OF b, of "\<lambda>b. if ba_conn b = j then ba_totalSize b else 0"] in_i [of j ba_totalSize]
    by (auto simp: bbytes_def bs(1))
  have rn: "nrun w' j = nrun w j" "rbytes w' j = rbytes w j" for j by (simp_all add: nrun_def rbytes_def k)
  show ?thesis
  proof (rule conn_step [OF w i c])
    show "rpc_held w' = rpc_held w"
    proof (rule held_move [OF c i])
      show "sumf (mset \<circ> globals_of) (w_batches w) + sumf (\<lambda>(i, t). {#tk_budget t#}) (w_running w) + sumf pend_ids (w_pending w) =
          mset (globals_of b) + (sumf (mset \<circ> globals_of) (remove1 b (w_batches w)) + sumf (\<lambda>(i, t). {#tk_budget t#}) (w_running w) + sumf pend_ids (w_pending w))"
        using sumf_remove1 [OF b, of "mset \<circ> globals_of"] by (simp add: ac_simps)
      show "sumf (mset \<circ> globals_of) (w_batches w') + sumf (\<lambda>(i, t). {#tk_budget t#}) (w_running w') + sumf pend_ids (w_pending w') =
          (sumf (mset \<circ> globals_of) bs + sumf pend_ids ps) +
          (sumf (mset \<circ> globals_of) (remove1 b (w_batches w)) + sumf (\<lambda>(i, t). {#tk_budget t#}) (w_running w) + sumf pend_ids (w_pending w))"
        by (simp add: bs(1) p(1) k ac_simps)
      show "queued_ids c + (sumf (mset \<circ> globals_of) bs + sumf pend_ids ps) = queued_ids (conn_at w ?i) + mset (globals_of b)"
        using h by (simp add: ac_simps)
    qed
    show "same_sums w w' j" if "j \<noteq> ?i" for j using that by (simp add: same_sums_def sl bb rn nb)
    show "conn_fits c (slots w' ?i) (bbytes w' ?i) (nrun w' ?i) (rbytes w' ?i) (nbar w' ?i)" using f by (simp add: sl bb rn nb algebra_simps)
    show "next_refs w w'" using bs p i s k barriers_lt [OF w] set_remove1_subset [of b "w_batches w"] by (auto simp: next_refs_def)
  qed (use s in simp)
qed

lemma step_abort:
  assumes w: "winv w" and e: "rpc_exec (Abort b) w = Some w'"
  shows "winv w'"
proof -
  have b: "b \<in> set (w_batches w)" using e by (auto split: if_splits)
  obtain gone c where c: "batch_abort b (conn_at w (ba_conn b)) = (gone, c)" by fastforce
  note B = batch_facts [OF w b]
  have w': "w' = todo [PRelease gone] ((put_conn (ba_conn b) c w)\<lparr>w_batches := remove1 b (w_batches w)\<rparr>)" using e b c by simp
  have q: "rq_queue c = rq_queue (conn_at w (ba_conn b))" "gone = globals_of b" using c by (auto simp: batch_abort_def)
  show ?thesis
    by (rule batch_step [OF w b, where c = c and bs = "[]" and ps = "[PRelease gone]"])
      (use fits_abort [OF c conjunct1 [OF B] old_fits [OF w conjunct2 [OF B]]] winvD(1) [OF w] q in
        \<open>simp_all add: w' todo_def put_conn_def queued_ids_def\<close>)
qed

lemma step_commit:
  assumes w: "winv w" and e: "rpc_exec (Commit b now gates) w = Some w'"
  shows "winv w'"
proof -
  have b: "b \<in> set (w_batches w)" using e by (auto split: if_splits)
  obtain er p gone c where c: "batch_commit (runs (w_gates w)) now (w_ticket w) gates b (conn_at w (ba_conn b)) = (er, p, gone, c)"
    by (metis prod_cases4)
  note B = batch_facts [OF w b]
  note F = fits_commit [OF c conjunct1 [OF B] old_fits [OF w conjunct2 [OF B]] nbar_nonneg]
  have w': "w' = todo (PRelease gone # publication p (ba_conn b)) ((put_conn (ba_conn b) c w)
      \<lparr>w_batches := remove1 b (w_batches w), w_ticket := w_ticket w + length (ba_entries b)\<rparr>)" using e b c by (auto split: if_splits)
  show ?thesis
    by (rule batch_step [OF w b, where c = c and bs = "[]" and ps = "PRelease gone # publication p (ba_conn b)"])
      (use F B winvD(1) [OF w] in \<open>auto simp: w' todo_def put_conn_def queued_ids_def dest: publication_pend\<close>)
qed

lemma step_grow:
  assumes w: "winv w" and e: "rpc_exec (Grow b k n x) w = Some w'"
  shows "winv w'"
proof -
  have b: "b \<in> set (w_batches w)" using e by (auto split: if_splits)
  note B = batch_facts [OF w b]
  show ?thesis
  proof (cases "growEntry k n x b (conn_at w (ba_conn b)) (w_sched w)")
    case (Inl er)
    then show ?thesis using e b w by simp
  next
    case (Inr r)
    obtain b' c s where r: "growEntry k n x b (conn_at w (ba_conn b)) (w_sched w) = Inr (b', c, s)" using Inr by (metis prod_cases3)
    note S = growEntry_sched [OF winvD(1) [OF w] r] and F = fits_grow [OF r conjunct1 [OF B] old_fits [OF w conjunct2 [OF B]]]
    have nn: "\<forall>e\<in>set (ba_entries b). 0 \<le> be_size e" using B by (simp add: batch_ok_def)
    have w': "w' = (put_conn (ba_conn b) c w)\<lparr>w_sched := s, w_batches := b' # remove1 b (w_batches w)\<rparr>" using e b r by simp
    show ?thesis
      by (rule batch_step [OF w b, where c = c and bs = "[b']" and ps = "[]"])
        (use F S [OF nn] in \<open>simp_all add: w' put_conn_def queued_ids_def algebra_simps\<close>)
  qed
qed

lemma step_retain:
  assumes w: "winv w" and e: "rpc_exec (Retain b xs sp) w = Some w'"
  shows "winv w'"
proof -
  have b: "b \<in> set (w_batches w)" using e by (auto split: if_splits)
  note B = batch_facts [OF w b]
  show ?thesis
  proof (cases "batch_retain xs sp b (conn_at w (ba_conn b))")
    case (Inl er)
    then show ?thesis using e b w by simp
  next
    case (Inr r)
    obtain b' c gone over where r: "batch_retain xs sp b (conn_at w (ba_conn b)) = Inr (b', c, gone, over)" using Inr by (metis prod_cases4)
    note F = fits_retain [OF r conjunct1 [OF B] old_fits [OF w conjunct2 [OF B]]]
    let ?bs = "if over then [] else [b']"
    have w': "w' = todo [PRelease gone] ((put_conn (ba_conn b) c w)\<lparr>w_batches := ?bs @ remove1 b (w_batches w)\<rparr>)" using e b r by (cases over) auto
    have z: "ba_totalSize b' = 0 \<and> globals_of b' = []" if over using that F by (simp add: batch_ok_def globals_of_def)
    show ?thesis
      by (rule batch_step [OF w b, where c = c and bs = ?bs and ps = "[PRelease gone]"])
        (use F z winvD(1) [OF w] in \<open>auto simp: w' todo_def put_conn_def queued_ids_def ac_simps\<close>)
  qed
qed

text \<open>A step that takes tasks out of a queue or off a worker.\<close>

lemma task_step:
  assumes w: "winv w" and i: "i < length (w_conns w)" and c: "w_conns w' = (w_conns w)[i := c]"
    and k: "w_sched w' = w_sched w" "w_batches w' = w_batches w" "w_gates w' = w_gates w" "w_barriers w' = w_barriers w"
    and p: "w_pending w' = ps @ qs" "\<forall>y\<in>set ps. new_pend w y \<and> (\<forall>j. y \<noteq> PBarrier j)" "set qs \<subseteq> set (w_pending w)"
      "sumf pend_ids qs = sumf pend_ids (w_pending w)" "\<And>j. sumf (\<lambda>p. if p = PBarrier j then 1 else 0 :: int) qs = sumf (\<lambda>p. if p = PBarrier j then 1 else 0) (w_pending w)"
    and r: "w_running w = out @ rest \<or> (\<exists>t. out = [t] \<and> t \<in> set (w_running w) \<and> rest = remove1 t (w_running w))" "w_running w' = on @ rest"
      "\<forall>(j, t)\<in>set out. j = i" "\<forall>(j, t)\<in>set on. j = i \<and> 0 \<le> tk_size t"
    and h: "queued_ids c + sumf (\<lambda>(j, t). {#tk_budget t#}) on + sumf pend_ids ps = queued_ids (conn_at w i) + sumf (\<lambda>(j, t). {#tk_budget t#}) out"
    and f: "conn_fits c (slots w i) (bbytes w i) (nrun w i + int (length on) - int (length out))
      (rbytes w i + sumf (tk_size \<circ> snd) on - sumf (tk_size \<circ> snd) out) (nbar w i)"
  shows "winv w'"
proof -
  have all: "sumf g (w_running w) = sumf g out + sumf g rest" for g :: "nat \<times> rpc_task \<Rightarrow> 'x :: comm_monoid_add"
    using r(1) sumf_remove1 [of _ "w_running w" g] by auto
  have rs: "set rest \<subseteq> set (w_running w)" using r(1) set_remove1_subset by fastforce
  have cnt: "sumf (\<lambda>(j, t). if j = m then 1 else 0) xs = (if m = i then int (length xs) else 0)"
    "sumf (\<lambda>(j, t). if j = m then tk_size t else 0) xs = (if m = i then sumf (tk_size \<circ> snd) xs else 0)"
    if "\<forall>(j, t)\<in>set xs. j = i" for m xs using that by (induction xs) auto
  have on: "\<forall>(j, t)\<in>set on. j = i" using r(4) by auto
  have nr: "nrun w' j = nrun w j + (if j = i then int (length on) - int (length out) else 0)" for j
    using all [of "\<lambda>(k, t). if k = j then 1 else 0 :: int"] cnt(1) [OF on, of j] cnt(1) [OF r(3), of j] by (simp add: nrun_def r(2))
  have rb: "rbytes w' j = rbytes w j + (if j = i then sumf (tk_size \<circ> snd) on - sumf (tk_size \<circ> snd) out else 0)" for j
    using all [of "\<lambda>(k, t). if k = j then tk_size t else 0"] cnt(2) [OF on, of j] cnt(2) [OF r(3), of j] by (simp add: rbytes_def r(2))
  have nb: "nbar w' j = nbar w j" for j using nbar_todo [of j ps qs] p k by (auto simp: nbar_def)
  have bs: "slots w' j = slots w j" "bbytes w' j = bbytes w j" for j by (simp_all add: slots_def bbytes_def k)
  show ?thesis
  proof (rule conn_step [OF w i c])
    show "rpc_held w' = rpc_held w"
      by (rule held_move [OF c i, where g = "sumf (\<lambda>(j, t). {#tk_budget t#}) out" and x = "sumf (\<lambda>(j, t). {#tk_budget t#}) on + sumf pend_ids ps"
            and rest = "sumf (mset \<circ> globals_of) (w_batches w) + sumf (\<lambda>(j, t). {#tk_budget t#}) rest + sumf pend_ids (w_pending w)"])
        (use all [of "\<lambda>(j, t). {#tk_budget t#}"] h p k r(2) in \<open>simp_all add: ac_simps\<close>)
    show "same_sums w w' j" if "j \<noteq> i" for j using that by (simp add: same_sums_def nr rb nb bs)
    show "conn_fits c (slots w' i) (bbytes w' i) (nrun w' i) (rbytes w' i) (nbar w' i)" using f by (simp add: nr rb nb bs algebra_simps)
    show "next_refs w w'" using p(1-3) k r(2,4) rs i barriers_lt [OF w] unfolding next_refs_def by auto
  qed (use winvD(1) [OF w] k in simp)
qed

lemma step_take:
  assumes w: "winv w" and e: "rpc_exec (Take i) w = Some w'"
  shows "winv w'"
proof -
  have x: "PToken i \<in> set (w_pending w)" using e by (auto split: if_splits)
  have i: "i < length (w_conns w)" using pend_lt [OF w x] by simp
  obtain r p c where c: "takeInboundRPC (runs (w_gates w)) (conn_at w i) = (r, p, c)" by (metis prod_cases3)
  note F = fits_take [OF c old_fits [OF w i] nbar_nonneg]
  note P = set_remove1_subset [of "PToken i" "w_pending w"] remove_pend [OF x] remove_bar [OF x]
  show ?thesis
  proof (cases r)
    case None
    then have w': "w' = put_conn i c (done_with (PToken i) w)" using e x c by simp
    show ?thesis
      by (rule task_step [OF w i, where c = c and ps = "[]" and qs = "remove1 (PToken i) (w_pending w)" and on = "[]" and out = "[]"])
        (use F None P in \<open>auto simp: w' put_conn_def done_with_def queued_ids_def\<close>)
  next
    case (Some t)
    have w': "w' = todo (publication p i) ((put_conn i c (done_with (PToken i) w))\<lparr>w_running := (i, t) # w_running w\<rparr>)"
      using e x c Some by simp
    have t: "take_first (runs (w_gates w)) (rq_queue (conn_at w i)) = Some (t, rq_queue c)" "0 \<le> tk_size t" using F Some by auto
    have q: "queued_ids c + {#tk_budget t#} = queued_ids (conn_at w i)" using take_first_Some [OF t(1)] by (auto simp: queued_ids_def)
    show ?thesis
      by (rule task_step [OF w i, where c = c and ps = "publication p i" and qs = "remove1 (PToken i) (w_pending w)" and on = "[(i, t)]" and out = "[]"])
        (use F Some P t(2) q i in \<open>auto simp: w' todo_def put_conn_def done_with_def dest: publication_pend\<close>)
  qed
qed

lemma step_finish:
  assumes w: "winv w" and e: "rpc_exec (Finish i t) w = Some w'"
  shows "winv w'"
proof -
  have x: "(i, t) \<in> set (w_running w)" using e by (auto split: if_splits)
  have i: "i < length (w_conns w)" "0 \<le> tk_size t" using running_facts [OF w x] by auto
  obtain p c where c: "finishInboundRPC (runs (w_gates w)) t (conn_at w i) = (p, c)" by fastforce
  have w': "w' = todo (PRelease [tk_budget t] # publication p i) ((put_conn i c w)\<lparr>w_running := remove1 (i, t) (w_running w)\<rparr>)"
    using e x c by simp
  have q: "rq_queue c = rq_queue (conn_at w i)" using c publish_queue unfolding finishInboundRPC_def by fastforce
  show ?thesis
    by (rule task_step [OF w i(1), where c = c and ps = "PRelease [tk_budget t] # publication p i" and on = "[]" and out = "[(i, t)]"
          and rest = "remove1 (i, t) (w_running w)"])
      (use fits_finish [OF c old_fits [OF w i(1)] nbar_nonneg i(2)] q x i in
        \<open>auto simp: w' todo_def put_conn_def queued_ids_def dest: publication_pend\<close>)
qed

lemma step_expire:
  assumes w: "winv w" and e: "rpc_exec (Expire i k) w = Some w'"
  shows "winv w'"
proof -
  have i: "i < length (w_conns w)" using e by (auto split: if_splits)
  obtain r u c where c: "expireInboundRPCTicket k (conn_at w i) = (r, u, c)" by (metis prod_cases3)
  note F = fits_expire [OF c old_fits [OF w i]]
  show ?thesis
  proof (cases r)
    case None
    then show ?thesis using e i c w by simp
  next
    case (Some t)
    let ?ps = "(if u then [PUnschedule i] else []) @ [PRelease [tk_budget t]]"
    have w': "w' = todo ?ps (put_conn i c w)" using e i c Some by simp
    have t: "take_first (\<lambda>t. tk_ticket t = k) (rq_queue (conn_at w i)) = Some (t, rq_queue c)" using F Some by auto
    have q: "queued_ids c + {#tk_budget t#} = queued_ids (conn_at w i)" using take_first_Some [OF t] by (auto simp: queued_ids_def)
    show ?thesis
      by (rule task_step [OF w i, where c = c and ps = ?ps and on = "[]" and out = "[]"])
        (use F Some q i in \<open>auto simp: w' todo_def put_conn_def\<close>)
  qed
qed

lemma step_close:
  assumes w: "winv w" and e: "rpc_exec (Close i) w = Some w'"
  shows "winv w'"
proof -
  have i: "i < length (w_conns w)" using e by (auto split: if_splits)
  obtain ts c where c: "beginCloseInboundRPCScheduler (conn_at w i) = (ts, c)" by fastforce
  note F = fits_close [OF c old_fits [OF w i]]
  have w': "w' = todo [PUnschedule i, PRelease (map tk_budget ts)] (put_conn i c w)" using e c by (auto split: if_splits)
  show ?thesis
    by (rule task_step [OF w i, where c = c and ps = "[PUnschedule i, PRelease (map tk_budget ts)]" and on = "[]" and out = "[]"])
      (use F i in \<open>auto simp: w' todo_def put_conn_def queued_ids_def\<close>)
qed

lemma step_winv: "winv w \<Longrightarrow> rpc_exec l w = Some w' \<Longrightarrow> winv w'"
  by (cases l) (blast intro: step_connect step_retire step_new_gate step_resolve step_reserve step_admit step_grow step_retain step_commit
      step_abort step_pop step_take step_publish step_unpublish step_release step_finish step_expire step_begin step_barrier step_end
      step_wake step_close step_lifecycle)+

lemma reached_winv: "reached t b w \<Longrightarrow> winv w"
  by (induction rule: reached.induct) (auto intro: winv_empty step_winv)

subsection \<open>Sizes\<close>

text \<open>What the holders of reservations know about them: the entries of a batch and the tasks made of them
  carry the reservation and the size charged for it. Only a release forgets the size.\<close>

definition entry_rec :: "rpc_entry \<Rightarrow> nat \<times> int" where
  "entry_rec e = (be_global e, be_size e)"

definition task_rec :: "rpc_task \<Rightarrow> nat \<times> int" where
  "task_rec t = (tk_budget t, tk_size t)"

definition batch_recs :: "rpc_batch \<Rightarrow> (nat \<times> int) multiset" where
  "batch_recs b = mset (map entry_rec (ba_entries b))"

definition queue_recs :: "rpc_conn \<Rightarrow> (nat \<times> int) multiset" where
  "queue_recs c = mset (map task_rec (rq_queue c))"

fun pend_recs :: "rpc_pend \<Rightarrow> (nat \<times> int) multiset" where
  "pend_recs (PAdmit b) = batch_recs b"
| "pend_recs _ = {#}"

fun pend_release :: "rpc_pend \<Rightarrow> nat multiset" where
  "pend_release (PRelease rs) = mset rs"
| "pend_release _ = {#}"

definition recs :: "world \<Rightarrow> (nat \<times> int) multiset" where
  "recs w = sumf batch_recs (w_batches w) + sumf (\<lambda>(i, t). {#task_rec t#}) (w_running w) +
     sumf queue_recs (w_conns w) + sumf pend_recs (w_pending w)"

definition sized :: "world \<Rightarrow> bool" where
  "sized w \<longleftrightarrow> (\<forall>x\<in>#recs w. charge_of (sc_res (w_sched w)) (fst x) = snd x)"

lemma sumf_image: "image_mset h (sumf f xs) = sumf (\<lambda>x. image_mset h (f x)) xs"
  by (induction xs) auto

lemma set_sumf: "set_mset (sumf f xs) = (\<Union>x\<in>set xs. set_mset (f x))"
  by (induction xs) auto

lemma held_recs: "rpc_held w = image_mset fst (recs w) + sumf pend_release (w_pending w)"
proof -
  have p: "pend_ids p = image_mset fst (pend_recs p) + pend_release p" for p
    by (cases p) (auto simp: batch_recs_def globals_of_def entry_rec_def multiset.map_comp comp_def simp flip: mset_map)
  have q: "queued_ids = (\<lambda>c. image_mset fst (queue_recs c))"
    by (rule ext) (simp add: queued_ids_def queue_recs_def task_rec_def comp_def flip: mset_map)
  have b: "mset \<circ> globals_of = (\<lambda>b. image_mset fst (batch_recs b))"
    by (rule ext) (simp add: batch_recs_def globals_of_def entry_rec_def comp_def flip: mset_map)
  have r: "(\<lambda>(i, t). {#tk_budget t#}) = (\<lambda>y. image_mset fst (case y of (i, t) \<Rightarrow> {#task_rec t#}))"
    by (auto simp: task_rec_def)
  have "sumf pend_ids ps = image_mset fst (sumf pend_recs ps) + sumf pend_release ps" for ps
    by (induction ps) (auto simp: p)
  then show ?thesis unfolding rpc_held_def recs_def image_mset_union r b q by (simp add: sumf_image ac_simps)
qed

lemma in_recs:
  "b \<in> set (w_batches w) \<Longrightarrow> e \<in> set (ba_entries b) \<Longrightarrow> entry_rec e \<in># recs w"
  "PAdmit b \<in> set (w_pending w) \<Longrightarrow> e \<in> set (ba_entries b) \<Longrightarrow> entry_rec e \<in># recs w"
  "(i, t) \<in> set (w_running w) \<Longrightarrow> task_rec t \<in># recs w"
  "i < length (w_conns w) \<Longrightarrow> t \<in> set (rq_queue (conn_at w i)) \<Longrightarrow> task_rec t \<in># recs w"
proof -
  show "b \<in> set (w_batches w) \<Longrightarrow> e \<in> set (ba_entries b) \<Longrightarrow> entry_rec e \<in># recs w" by (force simp: recs_def set_sumf batch_recs_def)
  show "PAdmit b \<in> set (w_pending w) \<Longrightarrow> e \<in> set (ba_entries b) \<Longrightarrow> entry_rec e \<in># recs w" by (force simp: recs_def set_sumf batch_recs_def)
  show "(i, t) \<in> set (w_running w) \<Longrightarrow> task_rec t \<in># recs w" by (force simp: recs_def set_sumf)
  show "i < length (w_conns w) \<Longrightarrow> t \<in> set (rq_queue (conn_at w i)) \<Longrightarrow> task_rec t \<in># recs w"
    by (force simp: recs_def set_sumf queue_recs_def conn_at_def)
qed

lemma recs_sub:
  assumes "\<And>b e. b \<in> set (w_batches w) \<Longrightarrow> e \<in> set (ba_entries b) \<Longrightarrow> entry_rec e \<in> R"
    and "\<And>b e. PAdmit b \<in> set (w_pending w) \<Longrightarrow> e \<in> set (ba_entries b) \<Longrightarrow> entry_rec e \<in> R"
    and "\<And>i t. (i, t) \<in> set (w_running w) \<Longrightarrow> task_rec t \<in> R"
    and "\<And>i t. i < length (w_conns w) \<Longrightarrow> t \<in> set (rq_queue (conn_at w i)) \<Longrightarrow> task_rec t \<in> R"
  shows "set_mset (recs w) \<subseteq> R"
proof -
  have "x \<in> R" if "p \<in> set (w_pending w)" "x \<in># pend_recs p" for p x
    by (cases p) (use that assms(2) in \<open>auto simp: batch_recs_def\<close>)
  then show ?thesis using assms(1,3,4) by (fastforce simp: recs_def set_sumf batch_recs_def queue_recs_def conn_at_def in_set_conv_nth)
qed

lemma sized_sub:
  assumes "sized w" and "set_mset (recs w') \<subseteq> set_mset (recs w)"
    and "\<And>r. charge_of (sc_res (w_sched w')) r = charge_of (sc_res (w_sched w)) r"
  shows "sized w'"
  using assms by (auto simp: sized_def)

lemma recs_empty: "sized (empty_world t b)"
  by (simp add: sized_def recs_def empty_world_def)

lemma upd_cases: "j < length ((w_conns w)[i := c]) \<Longrightarrow> t \<in> set (rq_queue ((w_conns w)[i := c] ! j)) \<Longrightarrow>
   j < length (w_conns w) \<and> (t \<in> set (rq_queue (conn_at w j)) \<or> j = i \<and> t \<in> set (rq_queue c))"
  by (cases "j = i") (auto simp: conn_at_def)

lemma in_remove1: "x \<in> set (remove1 y xs) \<Longrightarrow> x \<in> set xs"
  by (meson notin_set_remove1)

text \<open>A step that replaces connection \<open>i\<close> and brings no record that was not there.\<close>

lemma recs_conn:
  assumes "w_conns w' = (w_conns w)[i := c]"
    and "\<And>t. i < length (w_conns w) \<Longrightarrow> t \<in> set (rq_queue c) \<Longrightarrow> task_rec t \<in># recs w"
    and "\<And>b e. b \<in> set (w_batches w') \<Longrightarrow> e \<in> set (ba_entries b) \<Longrightarrow> entry_rec e \<in># recs w"
    and "\<And>b. PAdmit b \<in> set (w_pending w') \<Longrightarrow> PAdmit b \<in> set (w_pending w)"
    and "\<And>j t. (j, t) \<in> set (w_running w') \<Longrightarrow> task_rec t \<in># recs w"
  shows "set_mset (recs w') \<subseteq> set_mset (recs w)"
proof (rule recs_sub)
  show "\<And>b e. PAdmit b \<in> set (w_pending w') \<Longrightarrow> e \<in> set (ba_entries b) \<Longrightarrow> entry_rec e \<in># recs w"
    using assms(4) in_recs(2) by blast
  show "task_rec t \<in># recs w" if "j < length (w_conns w')" "t \<in> set (rq_queue (conn_at w' j))" for j t
    using upd_cases [of j w i c t] that assms(1,2) in_recs(4) [of j w t] by (auto simp: conn_at_def)
qed (use assms in auto)

lemma recs_same_conns:
  assumes "w_conns w' = w_conns w" and "w_batches w' = w_batches w" and "w_running w' = w_running w"
    and "\<And>b. PAdmit b \<in> set (w_pending w') \<Longrightarrow> PAdmit b \<in> set (w_pending w)"
  shows "set_mset (recs w') \<subseteq> set_mset (recs w)"
  by (rule recs_sub) (use assms in \<open>auto simp: conn_at_def intro: in_recs in_recs(4) [unfolded conn_at_def]\<close>)

lemma release_charge: "charge_of (sc_res (releaseInboundRPCGlobalBatch rs s)) r = charge_of (sc_res s) r"
proof (induction rs arbitrary: s)
  case (Cons x rs)
  have "charge_of (sc_res (reservation_release x s)) r = charge_of (sc_res s) r"
    by (auto simp: reservation_release_def charge_of_def split: option.split)
  then show ?case using Cons by (simp add: take_flags_fold)
qed (simp add: take_flags_fold)

lemma sized_sched_steps:
  assumes s: "sized w" and e: "rpc_exec l w = Some w'"
    and l: "l \<in> {Pop, Start, Ensure, Stop} \<or> (\<exists>j. l \<in> {Publish j, Unpublish j, Barrier j}) \<or> (\<exists>rs. l = Release rs)
      \<or> (\<exists>k n. l = NewGate k n) \<or> (\<exists>k ok. l = Resolve k ok)"
  shows "sized w'"
proof (rule sized_sub [OF s recs_same_conns])
  show "w_conns w' = w_conns w" "w_batches w' = w_batches w" "w_running w' = w_running w"
    using e l by (auto simp: world_ops popReady_def Let_def split: if_splits list.splits prod.splits)
  show "PAdmit b \<in> set (w_pending w')  \<Longrightarrow> PAdmit b \<in> set (w_pending w)" for b
    using e l by (auto simp: world_ops popReady_def Let_def split: if_splits list.splits prod.splits dest!: in_remove1)
  show "charge_of (sc_res (w_sched w')) r = charge_of (sc_res (w_sched w)) r" for r
    using e l by (auto simp: world_ops popReady_def schedule_conn_def enqueueReady_def unschedule_def scheduler_start_def ensureWorkers_def
        scheduler_stop_def Let_def release_charge split: if_splits list.splits prod.splits)
qed

lemma sized_conn:
  assumes s: "sized w" and k: "w_sched w' = w_sched w" and c: "w_conns w' = (w_conns w)[i := c]"
    and "\<And>t. i < length (w_conns w) \<Longrightarrow> t \<in> set (rq_queue c) \<Longrightarrow> task_rec t \<in># recs w"
    and "\<And>b e. b \<in> set (w_batches w') \<Longrightarrow> e \<in> set (ba_entries b) \<Longrightarrow> entry_rec e \<in># recs w"
    and "\<And>b. PAdmit b \<in> set (w_pending w') \<Longrightarrow> PAdmit b \<in> set (w_pending w)"
    and "\<And>j t. (j, t) \<in> set (w_running w') \<Longrightarrow> task_rec t \<in># recs w"
  shows "sized w'"
  by (rule sized_sub [OF s recs_conn [OF c assms(4-)]]) (simp_all add: k)

lemma conn_queue:
  "publish run c = (p, c1) \<Longrightarrow> rq_queue c1 = rq_queue c"
  "beginRPCReplayRestore c = (a, u, c1) \<Longrightarrow> rq_queue c1 = rq_queue c"
  "endRPCReplayRestore run c = Some (p, c1) \<Longrightarrow> rq_queue c1 = rq_queue c"
  "finishInboundRPC run t c = (p, c1) \<Longrightarrow> rq_queue c1 = rq_queue c"
  "reserve_conn_part x b c = Inr c1 \<Longrightarrow> rq_queue c1 = rq_queue c"
  by (auto simp: publish_def beginRPCReplayRestore_def endRPCReplayRestore_def finishInboundRPC_def reserve_conn_part_def Let_def split: if_splits)

lemma sized_quiet:
  assumes s: "sized w" and e: "rpc_exec l w = Some w'"
    and l: "(\<exists>i. l = Retire i) \<or> (\<exists>i. l = BeginRestore i) \<or> (\<exists>i. l = EndRestore i) \<or> (\<exists>i. l = WakeUp i) \<or> (\<exists>i t. l = Finish i t)"
  shows "sized w'"
proof -
  have "\<exists>i c. w_sched w' = w_sched w \<and> w_conns w' = (w_conns w)[i := c] \<and> (i < length (w_conns w) \<longrightarrow> rq_queue c = rq_queue (conn_at w i))
      \<and> w_batches w' = w_batches w \<and> set (w_running w') \<subseteq> set (w_running w) \<and> (\<forall>b. PAdmit b \<in> set (w_pending w') \<longrightarrow> PAdmit b \<in> set (w_pending w))"
    using l
  proof (elim disjE exE)
    fix i assume l: "l = Retire i"
    then show ?thesis using e by (intro exI [of _ i] exI [of _ "(conn_at w i)\<lparr>rq_retired := True\<rparr>"]) (auto simp: put_conn_def split: if_splits)
  next
    fix i assume l: "l = BeginRestore i"
    obtain a u c where c: "beginRPCReplayRestore (conn_at w i) = (a, u, c)" by (metis prod_cases3)
    show ?thesis using e l c conn_queue(2) [OF c]
      by (intro exI [of _ i] exI [of _ "if a then c else conn_at w i"]) (auto simp: world_ops conn_at_def split: if_splits)
  next
    fix i assume l: "l = EndRestore i"
    obtain p c where c: "endRPCReplayRestore (runs (w_gates w)) (conn_at w i) = Some (p, c)" using e l by (auto split: if_splits)
    show ?thesis using e l c conn_queue(3) [OF c] by (intro exI [of _ i] exI [of _ c]) (auto simp: world_ops split: if_splits)
  next
    fix i assume l: "l = WakeUp i"
    obtain p c where c: "publish (runs (w_gates w)) (conn_at w i) = (p, c)" by fastforce
    show ?thesis using e l c conn_queue(1) [OF c]
      by (intro exI [of _ i] exI [of _ c]) (auto simp: wakeInboundRPC_def world_ops split: if_splits dest!: in_remove1)
  next
    fix i t assume l: "l = Finish i t"
    obtain p c where c: "finishInboundRPC (runs (w_gates w)) t (conn_at w i) = (p, c)" by fastforce
    show ?thesis using e l c conn_queue(4) [OF c]
      by (intro exI [of _ i] exI [of _ c]) (auto simp: world_ops split: if_splits dest!: in_remove1)
  qed
  then obtain i c where "w_sched w' = w_sched w" "w_conns w' = (w_conns w)[i := c]" "i < length (w_conns w) \<longrightarrow> rq_queue c = rq_queue (conn_at w i)"
    "w_batches w' = w_batches w" "set (w_running w') \<subseteq> set (w_running w)" "\<And>b. PAdmit b \<in> set (w_pending w') \<Longrightarrow> PAdmit b \<in> set (w_pending w)"
    by blast
  then show ?thesis by (intro sized_conn [OF s]) (auto intro: in_recs)
qed

lemma sized_tasks:
  assumes s: "sized w" and v: "winv w" and e: "rpc_exec l w = Some w'"
    and l: "(\<exists>i. l = Take i) \<or> (\<exists>i k. l = Expire i k) \<or> (\<exists>i. l = Close i)"
  shows "sized w'"
proof -
  have "\<exists>i c out. w_sched w' = w_sched w \<and> w_conns w' = (w_conns w)[i := c] \<and> i < length (w_conns w) \<and>
      set (rq_queue c) \<union> out \<subseteq> set (rq_queue (conn_at w i)) \<and> w_batches w' = w_batches w
      \<and> set (w_running w') \<subseteq> set (w_running w) \<union> {i} \<times> out \<and> (\<forall>b. PAdmit b \<in> set (w_pending w') \<longrightarrow> PAdmit b \<in> set (w_pending w))"
    using l
  proof (elim disjE exE)
    fix i assume l: "l = Take i"
    then have x: "PToken i \<in> set (w_pending w)" using e by (auto split: if_splits)
    have i: "i < length (w_conns w)" using pend_lt [OF v x] by simp
    obtain r p c where c: "takeInboundRPC (runs (w_gates w)) (conn_at w i) = (r, p, c)" by (metis prod_cases3)
    note F = fits_take [OF c old_fits [OF v i] nbar_nonneg]
    show ?thesis
    proof (cases r)
      case None
      then show ?thesis using e l c x F i by (intro exI [of _ i] exI [of _ c] exI [of _ "{}"]) (auto simp: world_ops dest!: in_remove1)
    next
      case (Some t)
      then have t: "take_first (runs (w_gates w)) (rq_queue (conn_at w i)) = Some (t, rq_queue c)" using F by simp
      show ?thesis using e l c x i Some take_first_split(2,4) [OF t]
        by (intro exI [of _ i] exI [of _ c] exI [of _ "{t}"]) (auto simp: world_ops dest!: in_remove1)
    qed
  next
    fix i k assume l: "l = Expire i k"
    then have i: "i < length (w_conns w)" using e by (auto split: if_splits)
    obtain r u c where c: "expireInboundRPCTicket k (conn_at w i) = (r, u, c)" by (metis prod_cases3)
    note F = fits_expire [OF c old_fits [OF v i]]
    show ?thesis
    proof (cases r)
      case None
      then show ?thesis using e l c i by (intro exI [of _ i] exI [of _ "conn_at w i"] exI [of _ "{}"]) (auto simp: conn_at_def)
    next
      case (Some t)
      then have t: "take_first (\<lambda>t. tk_ticket t = k) (rq_queue (conn_at w i)) = Some (t, rq_queue c)" using F by simp
      show ?thesis using e l c i Some take_first_split(2) [OF t]
        by (intro exI [of _ i] exI [of _ c] exI [of _ "{}"]) (auto simp: world_ops split: if_splits)
    qed
  next
    fix i assume l: "l = Close i"
    then have i: "i < length (w_conns w)" using e by (auto split: if_splits)
    obtain ts c where c: "beginCloseInboundRPCScheduler (conn_at w i) = (ts, c)" by fastforce
    show ?thesis using e l c i fits_close [OF c old_fits [OF v i]]
      by (intro exI [of _ i] exI [of _ c] exI [of _ "{}"]) (auto simp: world_ops split: if_splits)
  qed
  then obtain i c out where n: "w_sched w' = w_sched w" "w_conns w' = (w_conns w)[i := c]" "i < length (w_conns w)"
    "set (rq_queue c) \<union> out \<subseteq> set (rq_queue (conn_at w i))" "w_batches w' = w_batches w"
    "set (w_running w') \<subseteq> set (w_running w) \<union> {i} \<times> out" "\<And>b. PAdmit b \<in> set (w_pending w') \<Longrightarrow> PAdmit b \<in> set (w_pending w)"
    by blast
  have "task_rec t \<in># recs w" if "(j, t) \<in> set (w_running w')" for j t
    using n(3,4,6) that in_recs(3) [of j t w] in_recs(4) [of i w t] by blast
  then show ?thesis using n by (intro sized_conn [OF s n(1,2)]) (auto intro: in_recs)
qed

lemma task_of_entry:
  "t \<in> set (prepare_tasks now dl k es gates) \<Longrightarrow> \<exists>e\<in>set es. task_rec t = entry_rec e"
  by (fastforce simp: prepare_tasks_def task_rec_def entry_rec_def dest: set_zip_leftD set_zip_rightD)

lemma retain_recs:
  "retain_loop k es xs = Some (keep, gone) \<Longrightarrow> e \<in> set keep \<Longrightarrow> entry_rec e \<in> entry_rec ` set es"
proof (induction k es xs arbitrary: keep gone rule: retain_loop.induct)
  case (3 k a es index sp xs)
  then show ?case by (auto simp: entry_rec_def split: if_splits)
qed auto

lemma sized_batches:
  assumes s: "sized w" and v: "winv w" and e: "rpc_exec l w = Some w'"
    and l: "(\<exists>b x. l = Admit b x) \<or> (\<exists>b xs sp. l = Retain b xs sp) \<or> (\<exists>b now gs. l = Commit b now gs) \<or> (\<exists>b. l = Abort b)"
  shows "sized w'"
  using l
proof (elim disjE exE)
  fix b x assume l: "l = Admit b x"
  then have p: "PAdmit b \<in> set (w_pending w)" using e by (auto split: if_splits)
  have i: "ba_conn b < length (w_conns w)" using admit_facts [OF v p] by simp
  show ?thesis
  proof (cases "reserve_conn_part x b (conn_at w (ba_conn b))")
    case (Inl er)
    then show ?thesis using e l p by (intro sized_sub [OF s recs_same_conns]) (auto simp: world_ops dest!: in_remove1)
  next
    case (Inr c)
    then show ?thesis using e l p i conn_queue(5) [OF Inr] in_recs(2) [OF p]
      by (intro sized_conn [OF s, of _ "ba_conn b" c]) (auto simp: world_ops intro: in_recs dest!: in_remove1)
  qed
next
  fix b xs sp assume l: "l = Retain b xs sp"
  then have b: "b \<in> set (w_batches w)" using e by (auto split: if_splits)
  have i: "ba_conn b < length (w_conns w)" using batch_facts [OF v b] by simp
  show ?thesis
  proof (cases "batch_retain xs sp b (conn_at w (ba_conn b))")
    case (Inl er)
    then show ?thesis using e l b s by simp
  next
    case (Inr r)
    obtain b' c gone over where r: "batch_retain xs sp b (conn_at w (ba_conn b)) = Inr (b', c, gone, over)" using Inr by (metis prod_cases4)
    have q: "rq_queue c = rq_queue (conn_at w (ba_conn b))" and k: "\<And>x. x \<in> set (ba_entries b') \<Longrightarrow> entry_rec x \<in># recs w"
      using r in_recs(1) [OF b] retain_recs [of 0 "ba_entries b"] by (fastforce simp: batch_retain_def split: if_splits option.splits)+
    show ?thesis using e l b r q k i
      by (intro sized_conn [OF s, of _ "ba_conn b" c]) (auto simp: world_ops split: if_splits intro: in_recs dest!: in_remove1)
  qed
next
  fix b now gs assume l: "l = Commit b now gs"
  then have b: "b \<in> set (w_batches w)" using e by (auto split: if_splits)
  obtain er p gone c where c: "batch_commit (runs (w_gates w)) now (w_ticket w) gs b (conn_at w (ba_conn b)) = (er, p, gone, c)"
    by (metis prod_cases4)
  let ?c = "conn_at w (ba_conn b)"
  let ?ts = "prepare_tasks now (batch_deadline now b ?c) (w_ticket w) (ba_entries b) gs"
  have "set (rq_queue c) \<subseteq> set (rq_queue ?c) \<union> set ?ts"
    using c by (auto simp: batch_commit_def Let_def publish_def split: if_splits)
  then have q: "task_rec t \<in># recs w" if "t \<in> set (rq_queue c)" "ba_conn b < length (w_conns w)" for t
    using that task_of_entry [of t now "batch_deadline now b ?c" "w_ticket w" "ba_entries b" gs] in_recs(1) [OF b] in_recs(4) by fastforce
  show ?thesis using e l b c q
    by (intro sized_conn [OF s, of _ "ba_conn b" c]) (auto simp: world_ops split: if_splits intro: in_recs dest!: in_remove1)
next
  fix b assume l: "l = Abort b"
  then have b: "b \<in> set (w_batches w)" using e by (auto split: if_splits)
  have i: "ba_conn b < length (w_conns w)" using batch_facts [OF v b] by simp
  show ?thesis using e l b i
    by (intro sized_conn [OF s, of _ "ba_conn b" "snd (batch_abort b (conn_at w (ba_conn b)))"])
      (auto simp: world_ops batch_abort_def intro: in_recs dest!: in_remove1)
qed

lemma recs_live: "winv w \<Longrightarrow> x \<in># recs w \<Longrightarrow> fst x \<in> live (w_sched w)"
proof -
  assume w: "winv w" and x: "x \<in># recs w"
  have "fst x \<in># rpc_held w" using x by (simp add: held_recs)
  then show ?thesis using winvD(2) [OF w] live_finite [OF winvD(1) [OF w]] by simp
qed

lemma recs_once:
  assumes w: "winv w" and r: "recs w = add_mset (r, n) R" and x: "x \<in># R"
  shows "fst x \<noteq> r"
proof
  assume "fst x = r"
  then have "r \<in># image_mset fst R" using x by force
  then have "0 < count (image_mset fst R) r" by (simp only: count_greater_zero_iff)
  moreover have "count (rpc_held w) r = 1 + count (image_mset fst R) r + count (sumf pend_release (w_pending w)) r"
    using r by (simp add: held_recs)
  ultimately have "2 \<le> count (rpc_held w) r" by linarith
  moreover have "count (mset_set (live (w_sched w))) r \<le> 1" by (cases "r \<in> live (w_sched w)") (simp_all add: live_finite [OF winvD(1) [OF w]])
  ultimately show False using winvD(2) [OF w] by simp
qed

lemma sized_reserve:
  assumes s: "sized w" and v: "winv w" and e: "rpc_exec (Reserve i specs dl) w = Some w'"
  shows "sized w'"
proof -
  let ?s = "w_sched w" let ?ns = "normalized specs" let ?n = "map sp_size ?ns"
  have i: "i < length (w_conns w)" using e by (auto split: if_splits)
  obtain r s' where r: "reserveGlobalBatch ?n ?s = (r, s')" by fastforce
  show ?thesis
  proof (cases "rq_retired (conn_at w i) \<or> (\<exists>x. r = Inl x)")
    case True
    then have "w' = w" using e i r by (cases "rq_retired (conn_at w i)") (auto simp: reserve_global_part_def reserveGlobalBatch_def Let_def split: if_splits option.splits)
    then show ?thesis using s by simp
  next
    case False
    then obtain gs where gs: "r = Inr gs" "\<not> rq_retired (conn_at w i)" by (cases r) auto
    define b where "b = batch_of i ?ns gs dl"
    have g: "gs = [sc_next ?s..<sc_next ?s + length ?ns]" "sc_res s' = put_reservations (sc_next ?s) ?n (sc_res ?s)"
      using r gs by (auto simp: reserveGlobalBatch_def split: if_splits option.splits)
    have w': "w' = w\<lparr>w_sched := s', w_pending := PAdmit b # w_pending w\<rparr>"
      using e i r gs by (auto simp: reserve_global_part_def Let_def world_ops b_def)
    have old: "charge_of (sc_res s') (fst x) = snd x" if x: "x \<in># recs w" for x
    proof -
      have "fst x < sc_next ?s" using recs_live [OF v x] live_dom [of ?s] winvD(1) [OF v] unfolding sched_ok_def by blast
      then show ?thesis using s x by (simp add: sized_def charge_of_def g put_reservations_at)
    qed
    have new: "charge_of (sc_res s') (fst x) = snd x" if x: "x \<in># batch_recs b" for x
    proof -
      obtain k where k: "k < length ?ns" "x = (sc_next ?s + k, sp_size (?ns ! k))"
        using x by (fastforce simp: batch_recs_def b_def batch_of_def g entry_rec_def set_zip)
      moreover have "0 \<le> sp_size (?ns ! k)" using k by (auto simp: normalized_def)
      ultimately show ?thesis by (simp add: charge_of_def g put_reservations_at)
    qed
    have "recs w' = batch_recs b + recs w" by (simp add: recs_def w' ac_simps)
    then show ?thesis using old new by (auto simp: sized_def w')
  qed
qed

lemma batch_recs_update:
  assumes "k < length (ba_entries b)" and "ba_entries b' = (ba_entries b)[k := f]"
  shows "\<exists>R. batch_recs b = add_mset (entry_rec (ba_entries b ! k)) R \<and> batch_recs b' = add_mset (entry_rec f) R"
proof -
  let ?es = "ba_entries b"
  have split: "?es = take k ?es @ ?es ! k # drop (Suc k) ?es" using assms(1) by (rule id_take_nth_drop)
  have "?es[k := f] = take k ?es @ f # drop (Suc k) ?es" using assms(1) by (simp add: upd_conv_take_nth_drop)
  then show ?thesis unfolding batch_recs_def assms(2)
    by (intro exI [of _ "mset (map entry_rec (take k ?es @ drop (Suc k) ?es))"] conjI) (subst split, simp_all)
qed

lemma sized_grow:
  assumes s: "sized w" and v: "winv w" and e: "rpc_exec (Grow b k n x) w = Some w'"
  shows "sized w'"
proof -
  let ?s = "w_sched w" let ?e = "ba_entries b ! k"
  have b: "b \<in> set (w_batches w)" using e by (auto split: if_splits)
  note i = conjunct2 [OF batch_facts [OF v b]]
  show ?thesis
  proof (cases "w_sched w' = ?s")
    case True
    have "\<exists>c. w_conns w' = (w_conns w)[ba_conn b := c] \<and> rq_queue c = rq_queue (conn_at w (ba_conn b)) \<and> w_running w' = w_running w \<and> w_pending w' = w_pending w
        \<and> set (w_batches w') \<subseteq> set (w_batches w)"
    proof (cases "growEntry k n x b (conn_at w (ba_conn b)) ?s")
      case (Inl er)
      then show ?thesis using e b by (intro exI [of _ "conn_at w (ba_conn b)"]) (auto simp: conn_at_def)
    next
      case (Inr r)
      obtain b' c t where r: "growEntry k n x b (conn_at w (ba_conn b)) ?s = Inr (b', c, t)" using Inr by (metis prod_cases3)
      have w': "w' = (put_conn (ba_conn b) c w)\<lparr>w_sched := t, w_batches := b' # remove1 b (w_batches w)\<rparr>" using e b r by simp
      then have "t = ?s" using True by simp
      then have "b' = b \<and> c = conn_at w (ba_conn b)" using r
        by (auto simp: growEntry_def Let_def scheduler.ext_inject split: if_splits option.splits dest: arg_cong [of _ _ sc_bytes])
      then show ?thesis using b by (intro exI [of _ c]) (auto simp: w' put_conn_def dest: in_remove1)
    qed
    then show ?thesis using True by (elim exE conjE) (rule sized_conn [OF s True], auto intro: in_recs)
  next
    case False
    then obtain b' c t where r: "growEntry k n x b (conn_at w (ba_conn b)) ?s = Inr (b', c, t)"
      and w': "w' = (put_conn (ba_conn b) c w)\<lparr>w_sched := t, w_batches := b' # remove1 b (w_batches w)\<rparr>"
      using e b by (auto split: sum.splits)
    have ne: "t \<noteq> ?s" using False w' by simp
    then obtain g where g: "sc_res ?s (be_global ?e) = Some g"
      and t: "sc_res t = (sc_res ?s)(be_global ?e \<mapsto> g\<lparr>gr_size := gr_size g + (n - be_size ?e)\<rparr>)"
      and b': "ba_entries b' = (ba_entries b)[k := ?e\<lparr>be_size := n\<rparr>]" and c: "rq_queue c = rq_queue (conn_at w (ba_conn b))"
      and k: "k < length (ba_entries b)"
      using r by (auto simp: growEntry_def Let_def split: if_splits option.splits)
    obtain R where R: "batch_recs b = add_mset (entry_rec ?e) R" "batch_recs b' = add_mset (entry_rec (?e\<lparr>be_size := n\<rparr>)) R"
      using batch_recs_update [OF k b'] by blast
    have q: "sumf queue_recs ((w_conns w)[ba_conn b := c]) = sumf queue_recs (w_conns w)"
      using sumf_update [OF i, of queue_recs c] c by (simp add: queue_recs_def conn_at_def)
    let ?Q = "R + (sumf batch_recs (remove1 b (w_batches w)) + sumf (\<lambda>(i, t). {#task_rec t#}) (w_running w) +
       sumf queue_recs (w_conns w) + sumf pend_recs (w_pending w))"
    have o: "recs w = add_mset (entry_rec ?e) ?Q" using sumf_remove1 [OF b, of batch_recs] R by (simp add: recs_def)
    have n: "recs w' = add_mset (entry_rec (?e\<lparr>be_size := n\<rparr>)) ?Q" using R q by (simp add: recs_def w' put_conn_def)
    have "charge_of (sc_res t) (fst y) = snd y" if "y \<in># ?Q" for y
    proof -
      have "fst y \<noteq> be_global ?e" using recs_once [OF v o [unfolded entry_rec_def]] that by blast
      moreover have "charge_of (sc_res ?s) (fst y) = snd y" using s that o by (auto simp: sized_def)
      ultimately show ?thesis by (simp add: charge_of_def t)
    qed
    moreover have "gr_size g = be_size ?e" using s o g by (auto simp: sized_def charge_of_def entry_rec_def)
    then have "charge_of (sc_res t) (be_global ?e) = n" by (simp add: charge_of_def t)
    ultimately show ?thesis unfolding sized_def n by (auto simp: w' entry_rec_def)
  qed
qed

lemma sized_connect: "sized w \<Longrightarrow> rpc_exec (Connect m q t) w = Some w' \<Longrightarrow> sized w'"
proof -
  assume s: "sized w" and e: "rpc_exec (Connect m q t) w = Some w'"
  have "recs w' = recs w" "w_sched w' = w_sched w" using e by (auto simp: recs_def queue_recs_def startInboundRPCScheduler_def)
  then show ?thesis using s by (simp add: sized_def)
qed

lemma sized_step:
  assumes s: "sized w" and v: "winv w" and e: "rpc_exec l w = Some w'"
  shows "sized w'"
  using e by (cases l)
    (auto simp del: rpc_exec.simps intro: sized_connect [OF s] sized_reserve [OF s v] sized_grow [OF s v]
      sized_sched_steps [OF s] sized_quiet [OF s] sized_tasks [OF s v] sized_batches [OF s v])

lemma reached_sized: "reached t b w \<Longrightarrow> sized w"
  by (induction rule: reached.induct) (auto intro: recs_empty sized_step reached_winv)

text \<open>The bytes held, by holder; what awaits its release is known by its reservation only.\<close>

definition batch_bytes :: "rpc_batch \<Rightarrow> int" where
  "batch_bytes b = sumf be_size (ba_entries b)"

fun pend_bytes :: "(nat \<rightharpoonup> global_res) \<Rightarrow> rpc_pend \<Rightarrow> int" where
  "pend_bytes m (PAdmit b) = batch_bytes b"
| "pend_bytes m (PRelease rs) = sumf (charge_of m) rs"
| "pend_bytes m _ = 0"

definition held_bytes :: "world \<Rightarrow> int" where
  "held_bytes w = sumf batch_bytes (w_batches w) + sumf (tk_size \<circ> snd) (w_running w) +
     sumf (\<lambda>c. sumf tk_size (rq_queue c)) (w_conns w) + sumf (pend_bytes (sc_res (w_sched w))) (w_pending w)"

lemma sum_recs:
  fixes m :: "nat \<rightharpoonup> global_res"
  shows "(\<Sum>x\<in>#recs w. snd x) + (\<Sum>r\<in>#sumf pend_release (w_pending w). charge_of m r) =
    sumf batch_bytes (w_batches w) + sumf (tk_size \<circ> snd) (w_running w) + sumf (\<lambda>c. sumf tk_size (rq_queue c)) (w_conns w) +
    sumf (pend_bytes m) (w_pending w)"
proof -
  have b: "(\<Sum>x\<in>#batch_recs d. snd x) = batch_bytes d" for d
    by (simp add: batch_recs_def batch_bytes_def entry_rec_def sumf_def comp_def flip: sum_mset_sum_list mset_map)
  have q: "(\<Sum>x\<in>#queue_recs c. snd x) = sumf tk_size (rq_queue c)" for c
    by (simp add: queue_recs_def task_rec_def sumf_def comp_def flip: sum_mset_sum_list mset_map)
  have p: "(\<Sum>x\<in>#sumf pend_recs ps. snd x) + (\<Sum>r\<in>#sumf pend_release ps. charge_of m r) = sumf (pend_bytes m) ps" for ps
  proof (induction ps)
    case (Cons a ps)
    have "(\<Sum>x\<in>#pend_recs a. snd x) + (\<Sum>r\<in>#pend_release a. charge_of m r) = pend_bytes m a"
      by (cases a) (simp_all add: b sumf_def flip: sum_mset_sum_list mset_map)
    with Cons show ?case by simp
  qed simp
  have "(\<Sum>x\<in>#sumf batch_recs ds. snd x) = sumf batch_bytes ds" for ds by (induction ds) (simp_all add: b)
  moreover have "(\<Sum>x\<in>#sumf (\<lambda>(i, t). {#task_rec t#}) rs. snd x) = sumf (tk_size \<circ> snd) rs" for rs
    by (induction rs) (auto simp: task_rec_def)
  moreover have "(\<Sum>x\<in>#sumf queue_recs cs. snd x) = sumf (\<lambda>c. sumf tk_size (rq_queue c)) cs" for cs by (induction cs) (simp_all add: q)
  ultimately show ?thesis using p [of "w_pending w"] by (simp add: recs_def)
qed

lemma held_bytes_charged:
  assumes "sized w"
  shows "(\<Sum>r\<in>#rpc_held w. charge_of (sc_res (w_sched w)) r) = held_bytes w"
proof -
  have "(\<Sum>x\<in>#recs w. charge_of (sc_res (w_sched w)) (fst x)) = (\<Sum>x\<in>#recs w. snd x)"
    using assms by (intro arg_cong [of _ _ sum_mset] image_mset_cong) (simp add: sized_def)
  then show ?thesis using sum_recs [of w "sc_res (w_sched w)"]
    by (simp add: held_recs held_bytes_def multiset.map_comp comp_def)
qed

end
