(* ===== verification/Rpc_Wakeup.thy ===== *)
theory Rpc_Wakeup
  imports Rpc_Accounting_Steps
begin

text \<open>
  Whether runnable work is always on its way to a worker. A connection with work is published (a
  token in the ready queue, a worker holding it, or a thread about to insert it) or a gate's wake-up
  is outstanding. This holds as long as no connection is published between the section in which an
  expiry empties its queue and the removal of its token; without that proviso it fails.
\<close>

definition covered :: "rpc_conn \<Rightarrow> nat \<Rightarrow> world \<Rightarrow> bool" where
  "covered c i w \<longleftrightarrow> (rq_ready c \<and> \<not> rq_closed c \<longrightarrow> i \<in> set (sc_ready (w_sched w)) \<or> PSchedule i \<in> set (w_pending w) \<or>
     PToken i \<in> set (w_pending w) \<or> sc_stopped (w_sched w))"

definition wanted :: "rpc_conn \<Rightarrow> nat \<Rightarrow> world \<Rightarrow> bool" where
  "wanted c i w \<longleftrightarrow> (\<not> rq_closed c \<and> rq_running c < rq_maxInflight c \<and> hasRunnableInboundRPC (runs (w_gates w)) c \<longrightarrow>
     rq_ready c \<or> PWake i \<in> set (w_pending w))"

definition gated :: "rpc_conn \<Rightarrow> nat \<Rightarrow> (rpc_gate \<times> nat) list \<Rightarrow> bool" where
  "gated c i gs \<longleftrightarrow> (\<forall>t\<in>set (rq_queue c). \<forall>k. tk_gate t = Some k \<longrightarrow> k < length gs \<and> snd (gs ! k) = i)"

definition staffed :: "world \<Rightarrow> bool" where
  "staffed w \<longleftrightarrow> (sc_ready (w_sched w) \<noteq> [] \<and> sc_started (w_sched w) \<and> \<not> sc_stopped (w_sched w) \<longrightarrow>
     sc_workersStarted (w_sched w) \<or> PEnsure \<in> set (w_pending w))"

definition awake :: "world \<Rightarrow> bool" where
  "awake w \<longleftrightarrow> staffed w \<and> (\<forall>i<length (w_conns w). covered (conn_at w i) i w \<and> wanted (conn_at w i) i w \<and> gated (conn_at w i) i (w_gates w))"

text \<open>No connection is published while the removal of its token is outstanding.\<close>

definition no_overlap :: "world \<Rightarrow> bool" where
  "no_overlap w \<longleftrightarrow> (\<forall>i. PUnschedule i \<in> set (w_pending w) \<longrightarrow> \<not> rq_ready (conn_at w i))"

inductive calm :: "int \<Rightarrow> int \<Rightarrow> world \<Rightarrow> bool" for maxTasks maxBytes where
  calm_empty: "calm maxTasks maxBytes (empty_world maxTasks maxBytes)"
| calm_step: "calm maxTasks maxBytes w \<Longrightarrow> rpc_exec l w = Some w' \<Longrightarrow> no_overlap w' \<Longrightarrow> calm maxTasks maxBytes w'"

lemma calm_reached: "calm t b w \<Longrightarrow> reached t b w"
  by (induction rule: calm.induct) (auto intro: reached.intros)

lemma calm_quiet: "calm t b w \<Longrightarrow> no_overlap w"
  by (cases rule: calm.cases) (auto simp: no_overlap_def empty_world_def)

definition carries :: "world \<Rightarrow> world \<Rightarrow> nat \<Rightarrow> bool" where
  "carries w w' j \<longleftrightarrow> (j \<in> set (sc_ready (w_sched w)) \<longrightarrow> j \<in> set (sc_ready (w_sched w'))) \<and>
     (\<forall>p\<in>{PSchedule j, PToken j, PWake j}. p \<in> set (w_pending w) \<longrightarrow> p \<in> set (w_pending w')) \<and>
     (sc_stopped (w_sched w) \<longrightarrow> sc_stopped (w_sched w'))"

lemma carries_conn:
  assumes "carries w w' j" and "w_gates w' = w_gates w" and "covered c j w" and "wanted c j w"
  shows "covered c j w' \<and> wanted c j w'"
  using assms by (auto simp: carries_def covered_def wanted_def)

lemma awake_step:
  assumes a: "awake w" and c: "w_conns w' = (w_conns w)[i := c]" and g: "w_gates w' = w_gates w"
    and o: "\<And>j. j < length (w_conns w) \<Longrightarrow> j \<noteq> i \<Longrightarrow> carries w w' j"
    and f: "i < length (w_conns w) \<Longrightarrow> covered c i w' \<and> wanted c i w' \<and> gated c i (w_gates w)" and s: "staffed w'"
  shows "awake w'"
proof -
  have "covered (conn_at w' j) j w' \<and> wanted (conn_at w' j) j w' \<and> gated (conn_at w' j) j (w_gates w')" if j: "j < length (w_conns w)" for j
  proof (cases "j = i")
    case True
    then show ?thesis using f j c g by (simp add: conn_at_def)
  next
    case False
    have "conn_at w' j = conn_at w j" using False c by (simp add: conn_at_def)
    moreover have "covered (conn_at w j) j w" "wanted (conn_at w j) j w" "gated (conn_at w j) j (w_gates w)" using a j by (auto simp: awake_def)
    ultimately show ?thesis using carries_conn [OF o [OF j False] g] g by simp
  qed
  then show ?thesis using s c by (simp add: awake_def)
qed

lemma publish_covered:
  assumes "publish run c = (p, c')" and "covered c i w" and "carries w w' i" and "set (publication p i) \<subseteq> set (w_pending w')"
  shows "covered c' i w'"
  using assms by (auto simp: publish_def covered_def carries_def publication_def split: if_splits)

lemma publish_wanted: "publish (runs (w_gates w')) c = (p, c') \<Longrightarrow> wanted c' i w'"
  by (auto simp: publish_def wanted_def split: if_splits)

lemma publish_gated: "publish run c = (p, c') \<Longrightarrow> gated c i gs \<Longrightarrow> gated c' i gs"
  using publish_queue [of run c p c'] by (simp add: gated_def)

lemma staffed_same: "staffed w \<Longrightarrow> w_sched w' = w_sched w \<Longrightarrow> (PEnsure \<in> set (w_pending w) \<longrightarrow> PEnsure \<in> set (w_pending w')) \<Longrightarrow> staffed w'"
  by (auto simp: staffed_def)

lemma awakeD: "awake w \<Longrightarrow> i < length (w_conns w) \<Longrightarrow>
   covered (conn_at w i) i w \<and> wanted (conn_at w i) i w \<and> gated (conn_at w i) i (w_gates w)"
  by (simp add: awake_def)

lemma awake_same:
  assumes "awake w" and "w_conns w' = w_conns w" and "w_gates w' = w_gates w" and "\<And>j. carries w w' j" and "staffed w'"
  shows "awake w'"
  by (rule awake_step [OF assms(1), of w' "length (w_conns w)" undefined]) (use assms in \<open>simp_all add: list_update_beyond\<close>)

subsection \<open>Steps of the scheduler\<close>

lemma awake_reserve: "winv w \<Longrightarrow> awake w \<Longrightarrow> rpc_exec (Reserve i specs dl) w = Some w' \<Longrightarrow> awake w'"
proof -
  assume w: "winv w" and a: "awake w" and e: "rpc_exec (Reserve i specs dl) w = Some w'"
  obtain r s where r: "reserve_global_part i specs dl (conn_at w i) (w_sched w) = (r, s)" by fastforce
  obtain r' s' where r': "reserveGlobalBatch (map sp_size (normalized specs)) (w_sched w) = (r', s')" by fastforce
  have s: "sc_ready s = sc_ready (w_sched w) \<and> sc_stopped s = sc_stopped (w_sched w) \<and> sc_started s = sc_started (w_sched w) \<and>
      sc_workersStarted s = sc_workersStarted (w_sched w)"
  proof -
    have "s = w_sched w \<or> s = s'" using r r' by (cases r') (auto simp: reserve_global_part_def Let_def split: if_splits)
    then show ?thesis using reserveGlobalBatch_ok [OF winvD(1) [OF w] r'] by (cases r') auto
  qed
  have w': "w_sched w' = s" "w_conns w' = w_conns w" "w_gates w' = w_gates w" "set (w_pending w) \<subseteq> set (w_pending w')"
    using e r by (cases r, auto simp: todo_def split: if_splits)+
  show ?thesis
    by (rule awake_same [OF a w'(2,3)]) (use a w' s in \<open>auto simp: carries_def staffed_def awake_def\<close>)
qed

lemma awake_release: "awake w \<Longrightarrow> rpc_exec (Release rs) w = Some w' \<Longrightarrow> awake w'"
  by (rule awake_same [of w]) (auto simp: carries_def staffed_def awake_def done_with_def split: if_splits)

lemma awake_lifecycle: "awake w \<Longrightarrow> rpc_exec l w = Some w' \<Longrightarrow> l = Start \<or> l = Ensure \<or> l = Stop \<Longrightarrow> awake w'"
  by (rule awake_same [of w])
    (auto simp: carries_def staffed_def awake_def world_ops scheduler_start_def ensureWorkers_def scheduler_stop_def split: if_splits)

lemma awake_pop:
  assumes a: "awake w" and e: "rpc_exec Pop w = Some w'"
  shows "awake w'"
proof -
  obtain i xs where r: "sc_ready (w_sched w) = i # xs" and w': "w' = w\<lparr>w_sched := (w_sched w)\<lparr>sc_ready := xs\<rparr>, w_pending := PToken i # w_pending w\<rparr>"
    using e by (auto simp: popReady_def todo_def split: if_splits list.splits)
  show ?thesis
  proof (rule awake_step [OF a, where i = i and c = "conn_at w i"])
    show "covered (conn_at w i) i w' \<and> wanted (conn_at w i) i w' \<and> gated (conn_at w i) i (w_gates w)" if "i < length (w_conns w)"
      using awakeD [OF a that] by (auto simp: covered_def wanted_def w')
  qed (use a r in \<open>auto simp: w' conn_at_def carries_def awake_def staffed_def\<close>)
qed

lemma awake_publish:
  assumes a: "awake w" and e: "rpc_exec (Publish i) w = Some w'"
  shows "awake w'"
proof -
  have x: "PSchedule i \<in> set (w_pending w)" using e by (auto split: if_splits)
  obtain b s where s: "schedule_conn i (conn_at w i) (w_sched w) = (b, s)" by fastforce
  have w': "w_sched w' = s" "w_conns w' = w_conns w" "w_gates w' = w_gates w"
    "w_pending w' = (if b then [PEnsure] else []) @ remove1 (PSchedule i) (w_pending w)"
    using e x s by (auto simp: world_ops)
  have S: "set (sc_ready (w_sched w)) \<subseteq> set (sc_ready s)" "sc_stopped s = sc_stopped (w_sched w)" "sc_started s = sc_started (w_sched w)"
    "sc_workersStarted s = sc_workersStarted (w_sched w)" "\<not> b \<Longrightarrow> s = w_sched w"
    "rq_ready (conn_at w i) \<Longrightarrow> \<not> rq_closed (conn_at w i) \<Longrightarrow> i \<in> set (sc_ready s) \<or> sc_stopped s"
    using s by (auto simp: schedule_conn_def enqueueReady_def split: if_splits)
  show ?thesis
  proof (rule awake_step [OF a, where i = i and c = "conn_at w i"])
    show "covered (conn_at w i) i w' \<and> wanted (conn_at w i) i w' \<and> gated (conn_at w i) i (w_gates w)" if "i < length (w_conns w)"
      using awakeD [OF a that] S(6) by (auto simp: covered_def wanted_def w')
    show "staffed w'" using a S(3-5) by (cases b) (auto simp: staffed_def awake_def w')
  qed (use S in \<open>auto simp: w' conn_at_def carries_def\<close>)
qed

text \<open>Removing a token is harmless when the connection is not published.\<close>

lemma awake_unschedule:
  assumes a: "awake w" and r: "\<not> rq_ready (conn_at w i)" and s: "w_sched w' = unschedule i (w_sched w)"
    and k: "w_conns w' = w_conns w" "w_gates w' = w_gates w" "w_pending w' = remove1 x (w_pending w)" "x = PUnschedule i \<or> x = PBarrier i"
  shows "awake w'"
proof (rule awake_step [OF a, where i = i and c = "conn_at w i"])
  show "covered (conn_at w i) i w' \<and> wanted (conn_at w i) i w' \<and> gated (conn_at w i) i (w_gates w)" if "i < length (w_conns w)"
    using awakeD [OF a that] r k by (auto simp: covered_def wanted_def)
  show "staffed w'" using a k(3,4) by (auto simp: staffed_def awake_def s unschedule_def)
qed (use k s in \<open>auto simp: conn_at_def carries_def unschedule_def\<close>)

lemma awake_unpublish: "no_overlap w \<Longrightarrow> awake w \<Longrightarrow> rpc_exec (Unpublish i) w = Some w' \<Longrightarrow> awake w'"
  by (rule awake_unschedule [of w i w' "PUnschedule i"]) (auto simp: no_overlap_def done_with_def split: if_splits)

lemma barrier_not_ready: "winv w \<Longrightarrow> PBarrier i \<in> set (w_pending w) \<Longrightarrow> \<not> rq_ready (conn_at w i)"
proof -
  assume w: "winv w" and x: "PBarrier i \<in> set (w_pending w)"
  have i: "i < length (w_conns w)" using pend_lt [OF w x] by simp
  have "0 \<le> sumf (\<lambda>j. if j = i then 1 else 0 :: int) (w_barriers w)"
    "0 \<le> sumf (\<lambda>p. if p = PBarrier i then 1 else 0 :: int) (remove1 (PBarrier i) (w_pending w))" by (rule sumf_nonneg, auto)+
  then have "0 < nbar w i" using sumf_remove1_int [OF x, of "\<lambda>p. if p = PBarrier i then 1 else 0"] by (simp add: nbar_def)
  then show ?thesis using old_fits [OF w i] by (auto simp: conn_fits_def)
qed

lemma awake_barrier: "winv w \<Longrightarrow> awake w \<Longrightarrow> rpc_exec (Barrier i) w = Some w' \<Longrightarrow> awake w'"
  by (rule awake_unschedule [of w i w' "PBarrier i"]) (auto simp: barrier_not_ready done_with_def split: if_splits)

subsection \<open>Steps of a connection\<close>

lemma awake_conn:
  assumes a: "awake w" and c: "w_conns w' = (w_conns w)[i := c]" and k: "w_gates w' = w_gates w" "w_sched w' = w_sched w"
    and p: "\<forall>y\<in>set (w_pending w). y \<in> set (w_pending w') \<or> y = PToken i \<or> y = PWake i \<or> (\<exists>b. y = PAdmit b)"
    and f: "i < length (w_conns w) \<Longrightarrow> covered c i w' \<and> wanted c i w' \<and> gated c i (w_gates w)"
  shows "awake w'"
proof (rule awake_step [OF a c k(1)])
  show "carries w w' j" if "j \<noteq> i" for j using p that by (auto simp: carries_def k)
  show "staffed w'" by (rule staffed_same [of w]) (use a p k in \<open>auto simp: awake_def\<close>)
qed (use f in auto)

definition same_core :: "rpc_conn \<Rightarrow> rpc_conn \<Rightarrow> bool" where
  "same_core c c' \<longleftrightarrow> rq_queue c' = rq_queue c \<and> rq_running c' = rq_running c \<and> rq_ready c' = rq_ready c \<and> rq_closed c' = rq_closed c \<and>
     rq_restores c' = rq_restores c \<and> rq_maxInflight c' = rq_maxInflight c"

lemma core_facts:
  assumes "same_core c c'"
  shows "covered c' i w = covered c i w" and "wanted c' i w = wanted c i w" and "gated c' i gs = gated c i gs"
  using assms by (simp_all add: same_core_def covered_def wanted_def gated_def hasRunnableInboundRPC_def)

lemma awake_core:
  assumes a: "awake w" and c: "w_conns w' = (w_conns w)[i := c]" "same_core (conn_at w i) c" and k: "w_gates w' = w_gates w"
    and s: "sc_ready (w_sched w') = sc_ready (w_sched w)" "sc_stopped (w_sched w') = sc_stopped (w_sched w)"
      "sc_started (w_sched w') = sc_started (w_sched w)" "sc_workersStarted (w_sched w') = sc_workersStarted (w_sched w)"
    and p: "\<forall>y\<in>set (w_pending w). y \<in> set (w_pending w') \<or> (\<exists>b. y = PAdmit b)"
  shows "awake w'"
proof (rule awake_step [OF a c(1) k])
  have cr: "carries w w' j" for j using p by (auto simp: carries_def s)
  then show "carries w w' j" for j .
  show "staffed w'" using a p by (auto simp: awake_def staffed_def s)
  show "covered c i w' \<and> wanted c i w' \<and> gated c i (w_gates w)" if "i < length (w_conns w)"
    using carries_conn [OF cr [of i] k] awakeD [OF a that] core_facts [OF c(2)] by simp
qed

lemma awake_batch_ops:
  assumes w: "winv w" and a: "awake w" and e: "rpc_exec l w = Some w'"
    and l: "(\<exists>i. l = Retire i) \<or> (\<exists>b x. l = Admit b x) \<or> (\<exists>b k n x. l = Grow b k n x) \<or> (\<exists>b xs sp. l = Retain b xs sp) \<or> (\<exists>b. l = Abort b)"
  shows "awake w'"
  using l
proof (elim disjE exE)
  fix i assume l: "l = Retire i"
  show ?thesis
    by (rule awake_core [OF a, where i = i and c = "(conn_at w i)\<lparr>rq_retired := True\<rparr>"])
      (use e l in \<open>auto simp: put_conn_def same_core_def split: if_splits\<close>)
next
  fix b x assume l: "l = Admit b x"
  then have p: "PAdmit b \<in> set (w_pending w)" using e by (auto split: if_splits)
  show ?thesis
  proof (cases "reserve_conn_part x b (conn_at w (ba_conn b))")
    case (Inl er)
    then show ?thesis using e p l
      by (intro awake_core [OF a, where i = "ba_conn b" and c = "conn_at w (ba_conn b)"])
        (auto simp: todo_def done_with_def same_core_def conn_at_def dest: set_remove1_subset [THEN subsetD])
  next
    case (Inr c)
    then have "same_core (conn_at w (ba_conn b)) c" by (auto simp: reserve_conn_part_def same_core_def split: if_splits)
    then show ?thesis
      by (intro awake_core [OF a, where i = "ba_conn b" and c = c]) (use e p l Inr in \<open>auto simp: put_conn_def done_with_def\<close>)
  qed
next
  fix b k n x assume l: "l = Grow b k n x"
  then have b: "b \<in> set (w_batches w)" using e by (auto split: if_splits)
  show ?thesis
  proof (cases "growEntry k n x b (conn_at w (ba_conn b)) (w_sched w)")
    case (Inl er)
    then show ?thesis using a e b l by simp
  next
    case (Inr r)
    obtain b' c s where r: "growEntry k n x b (conn_at w (ba_conn b)) (w_sched w) = Inr (b', c, s)" using Inr by (metis prod_cases3)
    then have "same_core (conn_at w (ba_conn b)) c" by (auto simp: growEntry_def Let_def same_core_def split: if_splits option.splits)
    moreover have "\<forall>e\<in>set (ba_entries b). 0 \<le> be_size e" using batch_facts [OF w b] by (simp add: batch_ok_def)
    ultimately show ?thesis
      by (intro awake_core [OF a, where i = "ba_conn b" and c = c])
        (use growEntry_sched [OF winvD(1) [OF w] r] e b l r in \<open>auto simp: put_conn_def\<close>)
  qed
next
  fix b xs sp assume l: "l = Retain b xs sp"
  then have b: "b \<in> set (w_batches w)" using e by (auto split: if_splits)
  show ?thesis
  proof (cases "batch_retain xs sp b (conn_at w (ba_conn b))")
    case (Inl er)
    then show ?thesis using a e b l by simp
  next
    case (Inr r)
    obtain b' c gone over where r: "batch_retain xs sp b (conn_at w (ba_conn b)) = Inr (b', c, gone, over)" using Inr by (metis prod_cases4)
    then have "same_core (conn_at w (ba_conn b)) c" by (auto simp: batch_retain_def same_core_def split: if_splits option.splits)
    then show ?thesis
      by (intro awake_core [OF a, where i = "ba_conn b" and c = c]) (use e b l r in \<open>auto simp: put_conn_def todo_def\<close>)
  qed
next
  fix b assume l: "l = Abort b"
  obtain gone c where c: "batch_abort b (conn_at w (ba_conn b)) = (gone, c)" by fastforce
  then have "same_core (conn_at w (ba_conn b)) c" by (auto simp: batch_abort_def same_core_def)
  then show ?thesis
    by (intro awake_core [OF a, where i = "ba_conn b" and c = c]) (use e l c in \<open>auto simp: put_conn_def todo_def split: if_splits\<close>)
qed

lemma awake_commit:
  assumes w: "winv w" and a: "awake w" and e: "rpc_exec (Commit b now gates) w = Some w'"
  shows "awake w'"
proof -
  let ?i = "ba_conn b" let ?run = "runs (w_gates w)"
  have b: "b \<in> set (w_batches w)" "own_gates w ?i gates" using e by (auto split: if_splits)
  note B = batch_facts [OF w b(1)]
  obtain er p gone c where c: "batch_commit ?run now (w_ticket w) gates b (conn_at w ?i) = (er, p, gone, c)" by (metis prod_cases4)
  note F = fits_commit [OF c conjunct1 [OF B] old_fits [OF w conjunct2 [OF B]] nbar_nonneg]
  have w': "w_conns w' = (w_conns w)[?i := c]" "w_gates w' = w_gates w" "w_sched w' = w_sched w"
    "w_pending w' = PRelease gone # publication p ?i @ w_pending w"
    using e b c by (auto simp: put_conn_def todo_def)
  note A = awakeD [OF a conjunct2 [OF B]]
  have g: "gated c ?i (w_gates w)" using F A b(2) by (fastforce simp: gated_def own_gates_def list_all_iff)
  show ?thesis
  proof (cases er)
    case (Some x)
    then have "same_core (conn_at w ?i) c" using c by (auto simp: batch_commit_def Let_def same_core_def split: if_splits prod.splits)
    then show ?thesis by (rule awake_core [OF a w'(1)]) (use w' in auto)
  next
    case None
    let ?c = "(conn_at w ?i)\<lparr>rq_reserved := rq_reserved (conn_at w ?i) - int (length (ba_entries b)),
      rq_queue := rq_queue (conn_at w ?i) @ prepare_tasks now (batch_deadline now b (conn_at w ?i)) (w_ticket w) (ba_entries b) gates\<rparr>"
    have pub: "publish ?run ?c = (p, c)" using c None by (auto simp: batch_commit_def Let_def split: if_splits prod.splits)
    have "covered ?c ?i w" using A by (simp add: covered_def)
    then have "covered c ?i w'" using publish_covered [OF pub, of ?i w w'] w' by (auto simp: carries_def)
    moreover have "wanted c ?i w'" using publish_wanted [of w' ?c p c] pub w'(2) by simp
    ultimately show ?thesis using g by (intro awake_conn [OF a w'(1-3)]) (auto simp: w'(4))
  qed
qed

lemma awake_take:
  assumes w: "winv w" and a: "awake w" and e: "rpc_exec (Take i) w = Some w'"
  shows "awake w'"
proof -
  let ?run = "runs (w_gates w)" let ?c = "conn_at w i"
  have x: "PToken i \<in> set (w_pending w)" using e by (auto split: if_splits)
  have i: "i < length (w_conns w)" using pend_lt [OF w x] by simp
  obtain r p c where c: "takeInboundRPC ?run ?c = (r, p, c)" by (metis prod_cases3)
  have w': "w_conns w' = (w_conns w)[i := c]" "w_gates w' = w_gates w" "w_sched w' = w_sched w"
    and pd: "\<exists>qs. w_pending w' = qs @ remove1 (PToken i) (w_pending w) \<and> (r \<noteq> None \<longrightarrow> qs = publication p i)"
    using e x c by (cases r, auto simp: put_conn_def todo_def done_with_def)+
  note A = awakeD [OF a i] and F = fits_take [OF c old_fits [OF w i] nbar_nonneg]
  have "covered c i w' \<and> wanted c i w' \<and> gated c i (w_gates w)"
  proof (cases r)
    case None
    have "\<not> rq_ready c" "rq_queue c = rq_queue ?c" using c None by (auto simp: takeInboundRPC_def Let_def split: if_splits option.splits)
    moreover have "\<not> (rq_ready ?c \<and> \<not> rq_closed c \<and> rq_running c < rq_maxInflight c \<and> hasRunnableInboundRPC ?run c)"
      using c None by (auto simp: takeInboundRPC_def Let_def take_first_None hasRunnableInboundRPC_def list_ex_iff split: if_splits option.splits)
    moreover have "c = ?c" if "\<not> rq_ready ?c" using c that by (simp add: takeInboundRPC_def)
    moreover have "PWake i \<in> set (w_pending w')" if "PWake i \<in> set (w_pending w)" using that pd by auto
    ultimately show ?thesis using A w'(2) by (cases "rq_ready ?c") (auto simp: covered_def wanted_def gated_def)
  next
    case (Some t)
    have q: "set (rq_queue c) \<subseteq> set (rq_queue ?c)" using F Some take_first_split(2) by fastforce
    have "rq_ready c = p" "\<not> rq_closed c" "p \<longleftrightarrow> rq_running c < rq_maxInflight c \<and> hasRunnableInboundRPC ?run c"
      using c Some by (auto simp: takeInboundRPC_def Let_def hasRunnableInboundRPC_def split: if_splits option.splits)
    moreover have "PSchedule i \<in> set (w_pending w')" if p using that pd Some by (auto simp: publication_def)
    ultimately show ?thesis using A q w'(2) by (auto simp: covered_def wanted_def gated_def)
  qed
  then show ?thesis using pd by (intro awake_conn [OF a w']) auto
qed

text \<open>A section that ends with a publication.\<close>

lemma awake_published:
  assumes a: "awake w" and c: "w_conns w' = (w_conns w)[i := c]" and k: "w_gates w' = w_gates w" "w_sched w' = w_sched w"
    and p: "\<forall>y\<in>set (w_pending w). y \<in> set (w_pending w') \<or> y = PWake i" "set (publication p i) \<subseteq> set (w_pending w')"
    and pub: "publish (runs (w_gates w)) d = (p, c)"
    and d: "rq_ready d = rq_ready (conn_at w i)" "rq_closed d = rq_closed (conn_at w i)" "rq_queue d = rq_queue (conn_at w i)"
  shows "awake w'"
proof (rule awake_conn [OF a c k])
  show "covered c i w' \<and> wanted c i w' \<and> gated c i (w_gates w)" if i: "i < length (w_conns w)"
  proof -
    have "covered d i w" "gated d i (w_gates w)" using awakeD [OF a i] d by (simp_all add: covered_def gated_def)
    then have "covered c i w'" "gated c i (w_gates w)" using pub p publish_gated [OF pub]
      by (auto simp: publish_def covered_def publication_def k split: if_splits)
    then show ?thesis using publish_wanted [of w' d p c i] pub k by simp
  qed
qed (use p in auto)

lemma awake_finish:
  assumes a: "awake w" and e: "rpc_exec (Finish i t) w = Some w'"
  shows "awake w'"
proof -
  obtain p c where c: "finishInboundRPC (runs (w_gates w)) t (conn_at w i) = (p, c)" by fastforce
  show ?thesis
    by (rule awake_published [OF a _ _ _ _ _ c [unfolded finishInboundRPC_def]])
      (use e c in \<open>auto simp: put_conn_def todo_def split: if_splits\<close>)
qed

lemma awake_wake:
  assumes a: "awake w" and e: "rpc_exec (WakeUp i) w = Some w'"
  shows "awake w'"
proof -
  obtain p c where c: "wakeInboundRPC (runs (w_gates w)) (conn_at w i) = (p, c)" by fastforce
  show ?thesis
    by (rule awake_published [OF a _ _ _ _ _ c [unfolded wakeInboundRPC_def]])
      (use e c in \<open>auto simp: put_conn_def todo_def done_with_def split: if_splits\<close>)
qed

lemma awake_expire:
  assumes a: "awake w" and e: "rpc_exec (Expire i k) w = Some w'"
  shows "awake w'"
proof -
  let ?c = "conn_at w i"
  have i: "i < length (w_conns w)" using e by (auto split: if_splits)
  obtain r u c where c: "expireInboundRPCTicket k ?c = (r, u, c)" by (metis prod_cases3)
  note A = awakeD [OF a i]
  show ?thesis
  proof (cases r)
    case None
    then show ?thesis using a e i c by simp
  next
    case (Some t)
    obtain rest where t: "take_first (\<lambda>t. tk_ticket t = k) (rq_queue ?c) = Some (t, rest)"
      and c': "c = ?c\<lparr>rq_queue := rest, rq_inflight := rq_inflight ?c - tk_size t, rq_ready := rq_ready ?c \<and> \<not> u\<rparr>" "u \<longrightarrow> rest = []"
      using c Some by (auto simp: expireInboundRPCTicket_def Let_def split: if_splits option.splits)
    have q: "set rest \<subseteq> set (rq_queue ?c)" using take_first_split(2) [OF t] .
    have w': "w_conns w' = (w_conns w)[i := c]" "w_gates w' = w_gates w" "w_sched w' = w_sched w"
      "w_pending w' = (if u then [PUnschedule i] else []) @ [PRelease [tk_budget t]] @ w_pending w"
      using e i c Some by (auto simp: put_conn_def todo_def)
    have "covered c i w'" using A by (auto simp: covered_def w' c')
    moreover have "gated c i (w_gates w)" using A q by (auto simp: gated_def c')
    moreover have "hasRunnableInboundRPC run c \<Longrightarrow> hasRunnableInboundRPC run ?c \<and> \<not> u" for run
      using q c'(2) by (auto simp: hasRunnableInboundRPC_def c'(1) list_ex_iff split: if_splits)
    then have "wanted c i w'" using A by (auto simp: wanted_def w' c'(1))
    ultimately show ?thesis by (intro awake_conn [OF a w'(1-3)]) (auto simp: w'(4))
  qed
qed

lemma awake_restore:
  assumes w: "winv w" and a: "awake w" and e: "rpc_exec l w = Some w'" and l: "l = BeginRestore i \<or> l = EndRestore i"
  shows "awake w'"
  using l
proof
  assume l: "l = BeginRestore i"
  then have i: "i < length (w_conns w)" using e by (auto split: if_splits)
  obtain ac u c where c: "beginRPCReplayRestore (conn_at w i) = (ac, u, c)" by (metis prod_cases3)
  note A = awakeD [OF a i]
  show ?thesis
  proof (cases ac)
    case False
    then show ?thesis using a e i c l by simp
  next
    case True
    have "0 \<le> rq_restores (conn_at w i)" using old_fits [OF w i] nbar_nonneg [of w i] by (auto simp: conn_fits_def)
    then have r: "\<not> rq_ready c" "rq_queue c = rq_queue (conn_at w i)" "0 < rq_restores c"
      using c True by (auto simp: beginRPCReplayRestore_def Let_def split: if_splits)
    have "covered c i w' \<and> wanted c i w' \<and> gated c i (w_gates w)"
      using r A by (auto simp: covered_def wanted_def gated_def hasRunnableInboundRPC_def)
    then show ?thesis
      by (intro awake_conn [OF a, where i = i and c = c]) (use e i c l True in \<open>auto simp: put_conn_def todo_def split: if_splits\<close>)
  qed
next
  assume l: "l = EndRestore i"
  let ?c = "conn_at w i"
  have b: "i \<in> set (w_barriers w)" using e l by (auto split: if_splits)
  then have i: "i < length (w_conns w)" using barriers_lt [OF w] by blast
  obtain p c where c: "endRPCReplayRestore (runs (w_gates w)) ?c = Some (p, c)"
    using fits_end [OF old_fits [OF w i] barrier_active [OF w b]] by blast
  have w': "w_conns w' = (w_conns w)[i := c]" "w_gates w' = w_gates w" "w_sched w' = w_sched w" "w_pending w' = publication p i @ w_pending w"
    using e b c l by (auto simp: put_conn_def todo_def)
  show ?thesis
  proof (cases "rq_restores ?c = 1")
    case True
    then have pub: "publish (runs (w_gates w)) (?c\<lparr>rq_restores := rq_restores ?c - 1\<rparr>) = (p, c)" using c by (simp add: endRPCReplayRestore_def Let_def)
    show ?thesis by (rule awake_published [OF a w'(1-3) _ _ pub]) (use w'(4) in auto)
  next
    case False
    then have "c = ?c\<lparr>rq_restores := rq_restores ?c - 1\<rparr>" "0 < rq_restores c" using c by (auto simp: endRPCReplayRestore_def Let_def split: if_splits)
    then have "covered c i w' \<and> wanted c i w' \<and> gated c i (w_gates w)"
      using awakeD [OF a i] by (auto simp: covered_def wanted_def gated_def hasRunnableInboundRPC_def w')
    then show ?thesis using w'(4) by (intro awake_conn [OF a w'(1-3)]) auto
  qed
qed

lemma awake_close:
  assumes a: "awake w" and e: "rpc_exec (Close i) w = Some w'"
  shows "awake w'"
  by (rule awake_conn [OF a, where i = i and c = "snd (beginCloseInboundRPCScheduler (conn_at w i))"])
    (use e in \<open>auto simp: put_conn_def todo_def beginCloseInboundRPCScheduler_def covered_def wanted_def gated_def split: if_splits\<close>)

subsection \<open>Connections and gates\<close>

lemma awake_connect:
  assumes a: "awake w" and e: "rpc_exec (Connect m q t) w = Some w'"
  shows "awake w'"
proof -
  let ?c = "startInboundRPCScheduler m q t"
  have w': "w_conns w' = w_conns w @ [?c]" "w_gates w' = w_gates w" "w_sched w' = w_sched w" "w_pending w' = w_pending w" using e by auto
  have "covered (conn_at w' j) j w' \<and> wanted (conn_at w' j) j w' \<and> gated (conn_at w' j) j (w_gates w')" if "j < length (w_conns w')" for j
  proof (cases "j < length (w_conns w)")
    case True
    then have "conn_at w' j = conn_at w j" by (simp add: conn_at_def w' nth_append)
    then show ?thesis using awakeD [OF a True] by (simp add: covered_def wanted_def w')
  next
    case False
    then have "j = length (w_conns w)" using that by (simp add: w')
    then show ?thesis
      by (simp add: conn_at_def w' covered_def wanted_def gated_def startInboundRPCScheduler_def hasRunnableInboundRPC_def)
  qed
  then show ?thesis using a by (simp add: awake_def staffed_def w')
qed

text \<open>Gates change for every connection at once: a task keeps its runnability unless its own gate opens,
  and then the wake-up is outstanding.\<close>

lemma awake_gates:
  assumes a: "awake w" and k: "w_conns w' = w_conns w" "w_sched w' = w_sched w" "set (w_pending w) \<subseteq> set (w_pending w')"
    and g: "length (w_gates w) \<le> length (w_gates w')" "\<And>k. k < length (w_gates w) \<Longrightarrow> snd (w_gates w' ! k) = snd (w_gates w ! k)"
      "\<And>k. k < length (w_gates w) \<Longrightarrow> ga_ready (fst (w_gates w' ! k)) \<Longrightarrow>
         ga_ready (fst (w_gates w ! k)) \<or> PWake (snd (w_gates w ! k)) \<in> set (w_pending w')"
  shows "awake w'"
proof -
  have "covered (conn_at w' j) j w' \<and> wanted (conn_at w' j) j w' \<and> gated (conn_at w' j) j (w_gates w')" if j: "j < length (w_conns w')" for j
  proof -
    have c: "conn_at w' j = conn_at w j" by (simp add: conn_at_def k)
    have A: "covered (conn_at w j) j w" "wanted (conn_at w j) j w" "gated (conn_at w j) j (w_gates w)" using awakeD [OF a] j by (simp_all add: k)
    have "gated (conn_at w j) j (w_gates w')" using A(3) g(1,2) by (fastforce simp: gated_def)
    moreover have "hasRunnableInboundRPC (runs (w_gates w)) (conn_at w j) \<or> PWake j \<in> set (w_pending w')"
      if h: "hasRunnableInboundRPC (runs (w_gates w')) (conn_at w j)"
    proof -
      obtain t where t: "t \<in> set (rq_queue (conn_at w j))" "runs (w_gates w') t" and r: "\<not> 0 < rq_restores (conn_at w j)"
        using h by (auto simp: hasRunnableInboundRPC_def list_ex_iff split: if_splits)
      show ?thesis
      proof (cases "runs (w_gates w) t")
        case True
        then show ?thesis using t r by (auto simp: hasRunnableInboundRPC_def list_ex_iff)
      next
        case False
        then obtain k where k: "tk_gate t = Some k" by (cases "tk_gate t") (auto simp: runs_def gate_runnable_def)
        then have "k < length (w_gates w)" "snd (w_gates w ! k) = j" using A(3) t(1) by (auto simp: gated_def)
        then show ?thesis using g(3) [of k] t(2) False k by (auto simp: runs_def gate_runnable_def)
      qed
    qed
    ultimately show ?thesis using A(1,2) k(2,3) unfolding c by (auto simp: covered_def wanted_def)
  qed
  then show ?thesis using a k by (auto simp: awake_def staffed_def)
qed

lemma awake_new_gate: "awake w \<Longrightarrow> rpc_exec (NewGate i n) w = Some w' \<Longrightarrow> awake w'"
  by (rule awake_gates [of w]) (auto simp: nth_append split: if_splits)

lemma awake_resolve:
  assumes a: "awake w" and e: "rpc_exec (Resolve k ok) w = Some w'"
  shows "awake w'"
proof -
  let ?i = "snd (w_gates w ! k)"
  obtain wake g where k: "k < length (w_gates w)" and g: "gate_resolve ok (fst (w_gates w ! k)) = Some (wake, g)"
    and w': "w' = todo (if wake then [PWake ?i] else []) (w\<lparr>w_gates := (w_gates w)[k := (g, ?i)]\<rparr>)"
    using e by (auto simp: Let_def split: if_splits)
  have "ga_ready g \<Longrightarrow> ga_ready (fst (w_gates w ! k)) \<or> wake" using g by (auto simp: gate_resolve_def Let_def split: if_splits)
  then show ?thesis
    by (intro awake_gates [OF a]) (use k in \<open>auto simp: w' todo_def nth_list_update split: if_splits\<close>)
qed

lemma step_awake:
  assumes w: "winv w" "no_overlap w" "awake w" and e: "rpc_exec l w = Some w'"
  shows "awake w'"
proof -
  note by_conn = awake_connect awake_new_gate awake_resolve awake_pop awake_publish awake_release awake_finish awake_expire awake_wake awake_close
  note by_inv = awake_batch_ops awake_reserve awake_commit awake_take awake_barrier awake_restore
  show ?thesis
    using e by (cases l) (auto simp del: rpc_exec.simps intro: by_conn [OF w(3)] by_inv [OF w(1,3)] awake_unpublish [OF w(2,3)] awake_lifecycle [OF w(3)])
qed

lemma calm_awake: "calm t b w \<Longrightarrow> awake w"
proof (induction rule: calm.induct)
  case calm_empty
  then show ?case by (simp add: awake_def staffed_def empty_world_def ready_new)
next
  case (calm_step w l w')
  then show ?case using step_awake [OF reached_winv [OF calm_reached]] calm_quiet by blast
qed

end
