(* ===== verification/Rpc_Stranded.thy ===== *)
theory Rpc_Stranded
  imports Rpc_Wakeup
begin

text \<open>
  The lost wake-up. When an expiry empties the queue of a published connection it clears the flag and
  removes the token in a second section. A request committed in between sets the flag again but finds
  the old token still queued; the removal then takes the only token. The connection is left flagged
  as published with runnable work and no token: stranded. Nothing a client sends helps, because every
  section that could publish it tests the flag.
\<close>

definition stuck :: "(rpc_gate \<times> nat) list \<Rightarrow> nat \<Rightarrow> rpc_conn \<Rightarrow> bool" where
  "stuck gs i c \<longleftrightarrow> \<not> rq_closed c \<and> rq_ready c \<and> rq_running c < rq_maxInflight c \<and> hasRunnableInboundRPC (runs gs) c \<and> gated c i gs"

definition stranded :: "world \<Rightarrow> nat \<Rightarrow> bool" where
  "stranded w i \<longleftrightarrow> i < length (w_conns w) \<and> stuck (w_gates w) i (conn_at w i) \<and> i \<notin> set (sc_ready (w_sched w)) \<and>
     (\<forall>p\<in>{PSchedule i, PToken i, PUnschedule i, PBarrier i}. p \<notin> set (w_pending w))"

lemma stuck_publish: "stuck gs i c \<Longrightarrow> publish run c = (False, c)"
  by (simp add: stuck_def publish_def)

lemma stuck_core: "same_core c c' \<Longrightarrow> stuck gs i c' = stuck gs i c"
  by (simp add: same_core_def stuck_def hasRunnableInboundRPC_def gated_def)

lemma strandI:
  assumes s: "stranded w i" and c: "w_conns w' = (w_conns w)[j := c]" "j = i \<Longrightarrow> stuck (w_gates w) i c" and g: "w_gates w' = w_gates w"
    and r: "set (sc_ready (w_sched w')) \<subseteq> set (sc_ready (w_sched w)) \<union> R" "i \<notin> R"
    and p: "set (w_pending w') \<subseteq> set (w_pending w) \<union> P" "\<forall>p\<in>{PSchedule i, PToken i, PUnschedule i, PBarrier i}. p \<notin> P"
  shows "stranded w' i"
proof -
  have "stuck (w_gates w) i (conn_at w' i)" using s c by (cases "j = i") (auto simp: conn_at_def stranded_def)
  then show ?thesis using s c(1) g r p by (auto simp: stranded_def)
qed

definition frees :: "nat \<Rightarrow> label \<Rightarrow> bool" where
  "frees i l \<longleftrightarrow> (\<exists>k. l = Expire i k) \<or> l = BeginRestore i \<or> l = Close i"

lemma strand_sched:
  assumes s: "stranded w i" and e: "rpc_exec l w = Some w'" and l: "l \<in> {Pop, Start, Ensure, Stop} \<or> (\<exists>j. l \<in> {Publish j, Unpublish j, Barrier j}) \<or> (\<exists>rs. l = Release rs)"
  shows "stranded w' i"
proof -
  have k: "w_conns w' = w_conns w" "w_gates w' = w_gates w" using e l by (auto simp: world_ops popReady_def split: if_splits list.splits prod.splits)
  have r: "set (sc_ready (w_sched w')) \<subseteq> set (sc_ready (w_sched w)) \<union> {j. PSchedule j \<in> set (w_pending w)}"
    using e l by (auto simp: world_ops popReady_def schedule_conn_def enqueueReady_def unschedule_def scheduler_start_def ensureWorkers_def
        scheduler_stop_def split: if_splits list.splits)
  have p: "set (w_pending w') \<subseteq> set (w_pending w) \<union> ({PEnsure} \<union> PToken ` set (sc_ready (w_sched w)))"
    using e l by (auto simp: world_ops popReady_def split: if_splits list.splits prod.splits dest!: in_remove1)
  show ?thesis
    by (rule strandI [OF s, where j = i and c = "conn_at w i", OF _ _ k(2) r _ p]) (use s k in \<open>auto simp: stranded_def conn_at_def\<close>)
qed

lemma strand_core:
  assumes s: "stranded w i" and c: "w_conns w' = (w_conns w)[j := c]" "same_core (conn_at w j) c" and g: "w_gates w' = w_gates w"
    and r: "sc_ready (w_sched w') = sc_ready (w_sched w)"
    and p: "set (w_pending w') \<subseteq> set (w_pending w) \<union> P" "\<forall>p\<in>{PSchedule i, PToken i, PUnschedule i, PBarrier i}. p \<notin> P"
  shows "stranded w' i"
  by (rule strandI [OF s c(1) _ g _ _ p, where R = "{}"]) (use s stuck_core [OF c(2)] r in \<open>auto simp: stranded_def\<close>)

text \<open>A section that publishes a stuck connection does nothing to it.\<close>

lemma stuck_append:
  "stuck gs i c \<Longrightarrow> \<forall>t\<in>set ts. \<forall>k. tk_gate t = Some k \<longrightarrow> k < length gs \<and> snd (gs ! k) = i \<Longrightarrow>
   stuck gs i (c\<lparr>rq_reserved := r, rq_queue := rq_queue c @ ts\<rparr>)"
  by (auto simp: stuck_def hasRunnableInboundRPC_def gated_def)

lemma strand_commit:
  assumes s: "stranded w i" and e: "rpc_exec (Commit b now gates) w = Some w'"
  shows "stranded w' i"
proof -
  let ?j = "ba_conn b" let ?run = "runs (w_gates w)"
  obtain er p gone c where c: "batch_commit ?run now (w_ticket w) gates b (conn_at w ?j) = (er, p, gone, c)" by (metis prod_cases4)
  have w': "w_conns w' = (w_conns w)[?j := c]" "w_gates w' = w_gates w" "w_sched w' = w_sched w"
    "w_pending w' = PRelease gone # publication p ?j @ w_pending w"
    using e c by (auto simp: put_conn_def todo_def split: if_splits)
  have "stuck (w_gates w) i c \<and> \<not> p" if j: "?j = i"
  proof -
    have st: "stuck (w_gates w) i (conn_at w ?j)" using s j by (simp add: stranded_def)
    show ?thesis
    proof (cases er)
      case (Some x)
      then have "same_core (conn_at w ?j) c" "\<not> p" using c by (auto simp: batch_commit_def Let_def same_core_def split: if_splits prod.splits)
      then show ?thesis using stuck_core st by blast
    next
      case None
      let ?ts = "prepare_tasks now (batch_deadline now b (conn_at w ?j)) (w_ticket w) (ba_entries b) gates"
      have "length gates = length (ba_entries b)" "own_gates w i gates"
        using c None e j by (auto simp: batch_commit_def Let_def split: if_splits prod.splits)
      then have ts: "\<forall>t\<in>set ?ts. \<forall>k. tk_gate t = Some k \<longrightarrow> k < length (w_gates w) \<and> snd (w_gates w ! k) = i"
        using prepare_tasks_facts(5) [of gates "ba_entries b" now "batch_deadline now b (conn_at w ?j)" "w_ticket w"]
        by (fastforce simp: own_gates_def list_all_iff)
      have "publish ?run ((conn_at w ?j)\<lparr>rq_reserved := rq_reserved (conn_at w ?j) - int (length (ba_entries b)),
        rq_queue := rq_queue (conn_at w ?j) @ ?ts\<rparr>) = (p, c)"
        using c None by (auto simp: batch_commit_def Let_def split: if_splits prod.splits)
      then show ?thesis using stuck_append [OF st ts] stuck_publish by (metis prod.inject)
    qed
  qed
  then show ?thesis
    by (intro strandI [OF s w'(1), where R = "{}" and P = "insert (PRelease gone) (set (publication p ?j))"])
      (auto simp: w' publication_def split: if_splits)
qed

lemma strand_task:
  assumes w: "winv w" and s: "stranded w i" and e: "rpc_exec l w = Some w'"
    and l: "(\<exists>j. l = Take j) \<or> (\<exists>j t. l = Finish j t) \<or> (\<exists>j. l = WakeUp j)"
  shows "stranded w' i"
  using l
proof (elim disjE exE)
  fix j assume l: "l = Take j"
  then have x: "PToken j \<in> set (w_pending w)" using e by (auto split: if_splits)
  then have "j \<noteq> i" using s by (auto simp: stranded_def)
  moreover obtain r p c where c: "takeInboundRPC (runs (w_gates w)) (conn_at w j) = (r, p, c)" by (metis prod_cases3)
  moreover have "w_conns w' = (w_conns w)[j := c]" "w_gates w' = w_gates w" "w_sched w' = w_sched w"
    "set (w_pending w') \<subseteq> set (w_pending w) \<union> {PSchedule j}"
    using e l x c by (cases r, auto simp: put_conn_def todo_def done_with_def publication_def split: if_splits dest: in_remove1)+
  ultimately show ?thesis by (intro strandI [OF s, where j = j and c = c and R = "{}" and P = "{PSchedule j}"]) auto
next
  fix j t assume l: "l = Finish j t"
  obtain p c where c: "finishInboundRPC (runs (w_gates w)) t (conn_at w j) = (p, c)" by fastforce
  have w': "w_conns w' = (w_conns w)[j := c]" "w_gates w' = w_gates w" "w_sched w' = w_sched w"
    "w_pending w' = PRelease [tk_budget t] # publication p j @ w_pending w" using e l c by (auto simp: put_conn_def todo_def split: if_splits)
  have "stuck (w_gates w) i c \<and> \<not> p" if "j = i"
  proof -
    have "stuck (w_gates w) i ((conn_at w j)\<lparr>rq_running := rq_running (conn_at w j) - 1, rq_inflight := rq_inflight (conn_at w j) - tk_size t\<rparr>)"
      using s that by (auto simp: stranded_def stuck_def hasRunnableInboundRPC_def gated_def)
    then show ?thesis using c stuck_publish unfolding finishInboundRPC_def by (metis prod.inject)
  qed
  then show ?thesis
    by (intro strandI [OF s w'(1), where R = "{}" and P = "insert (PRelease [tk_budget t]) (set (publication p j))"])
      (auto simp: w' publication_def split: if_splits)
next
  fix j assume l: "l = WakeUp j"
  obtain p c where c: "wakeInboundRPC (runs (w_gates w)) (conn_at w j) = (p, c)" by fastforce
  have w': "w_conns w' = (w_conns w)[j := c]" "w_gates w' = w_gates w" "w_sched w' = w_sched w"
    "w_pending w' = publication p j @ remove1 (PWake j) (w_pending w)" using e l c by (auto simp: put_conn_def todo_def done_with_def split: if_splits)
  have "stuck (w_gates w) i c \<and> \<not> p" if "j = i"
    using c stuck_publish s that unfolding wakeInboundRPC_def stranded_def by (metis prod.inject)
  then show ?thesis
    by (intro strandI [OF s w'(1), where R = "{}" and P = "set (publication p j)"])
      (auto simp: w' publication_def split: if_splits dest: in_remove1)
qed

lemma no_barrier: "winv w \<Longrightarrow> stranded w i \<Longrightarrow> i \<notin> set (w_barriers w)"
  using old_fits [of w i] barrier_active [of w i] by (auto simp: stranded_def stuck_def conn_fits_def)

lemma strand_other:
  assumes w: "winv w" and s: "stranded w i" and e: "rpc_exec l w = Some w'"
    and l: "(\<exists>j k. l = Expire j k \<and> j \<noteq> i) \<or> (\<exists>j. l = BeginRestore j \<and> j \<noteq> i) \<or> (\<exists>j. l = Close j \<and> j \<noteq> i) \<or> (\<exists>j. l = EndRestore j)"
  shows "stranded w' i"
proof -
  obtain j c where j: "j \<noteq> i" "w_conns w' = (w_conns w)[j := c]" "w_gates w' = w_gates w" "w_sched w' = w_sched w"
    "set (w_pending w') \<subseteq> set (w_pending w) \<union> {p. p = PUnschedule j \<or> p = PBarrier j \<or> p = PSchedule j \<or> (\<exists>rs. p = PRelease rs)}"
    using l
  proof (elim disjE exE conjE)
    fix j k assume l: "l = Expire j k" "j \<noteq> i"
    obtain r u c where "expireInboundRPCTicket k (conn_at w j) = (r, u, c)" by (metis prod_cases3)
    then show thesis using e l(1) by (intro that [OF l(2), of "if r = None then conn_at w j else c"])
      (cases r, auto simp: put_conn_def todo_def conn_at_def split: if_splits)+
  next
    fix j assume l: "l = BeginRestore j" "j \<noteq> i"
    obtain a u c where "beginRPCReplayRestore (conn_at w j) = (a, u, c)" by (metis prod_cases3)
    then show thesis using e l(1) by (intro that [OF l(2), of "if a then c else conn_at w j"])
      (auto simp: put_conn_def todo_def conn_at_def split: if_splits)
  next
    fix j assume l: "l = Close j" "j \<noteq> i"
    then show thesis using e by (intro that [OF l(2), of "snd (beginCloseInboundRPCScheduler (conn_at w j))"])
      (auto simp: put_conn_def todo_def beginCloseInboundRPCScheduler_def split: if_splits)
  next
    fix j assume l: "l = EndRestore j"
    then have "j \<noteq> i" using e no_barrier [OF w s] by (auto split: if_splits)
    moreover obtain p c where "endRPCReplayRestore (runs (w_gates w)) (conn_at w j) = Some (p, c)" using e l by (auto split: if_splits)
    ultimately show thesis using e l by (intro that [of j c]) (auto simp: put_conn_def todo_def publication_def split: if_splits)
  qed
  then show ?thesis
    by (intro strandI [OF s j(2), where R = "{}" and P = "{p. p = PUnschedule j \<or> p = PBarrier j \<or> p = PSchedule j \<or> (\<exists>rs. p = PRelease rs)}"]) auto
qed

lemma core_step:
  assumes w: "winv w" and e: "rpc_exec l w = Some w'"
    and l: "(\<exists>j. l = Retire j) \<or> (\<exists>b x. l = Admit b x) \<or> (\<exists>b k n x. l = Grow b k n x) \<or> (\<exists>b xs sp. l = Retain b xs sp) \<or> (\<exists>b. l = Abort b)"
  shows "\<exists>j c. w_conns w' = (w_conns w)[j := c] \<and> same_core (conn_at w j) c \<and> w_gates w' = w_gates w \<and>
    sc_ready (w_sched w') = sc_ready (w_sched w) \<and> set (w_pending w') \<subseteq> set (w_pending w) \<union> {p. \<exists>rs. p = PRelease rs}"
  using l
proof (elim disjE exE)
  fix j assume l: "l = Retire j"
  show ?thesis
    by (rule exI [of _ j], rule exI [of _ "(conn_at w j)\<lparr>rq_retired := True\<rparr>"]) (use e l in \<open>auto simp: put_conn_def same_core_def split: if_splits\<close>)
next
  fix b x assume l: "l = Admit b x"
  have same: "same_core (conn_at w (ba_conn b)) c" if "reserve_conn_part x b (conn_at w (ba_conn b)) = Inr c" for c
    using that by (auto simp: reserve_conn_part_def same_core_def split: if_splits)
  have refl: "same_core c c" for c by (simp add: same_core_def)
  show ?thesis
  proof (cases "reserve_conn_part x b (conn_at w (ba_conn b))")
    case (Inl er)
    then show ?thesis using e l refl
      by (intro exI [of _ "ba_conn b"] exI [of _ "conn_at w (ba_conn b)"]) (auto simp: todo_def done_with_def conn_at_def split: if_splits dest!: in_remove1)
  next
    case (Inr c)
    then show ?thesis using e l same [OF Inr]
      by (intro exI [of _ "ba_conn b"] exI [of _ c]) (auto simp: put_conn_def done_with_def split: if_splits dest!: in_remove1)
  qed
next
  fix b k n x assume l: "l = Grow b k n x"
  then have b: "b \<in> set (w_batches w)" using e by (auto split: if_splits)
  show ?thesis
  proof (cases "growEntry k n x b (conn_at w (ba_conn b)) (w_sched w)")
    case (Inl er)
    then show ?thesis using e l b by (intro exI [of _ "ba_conn b"] exI [of _ "conn_at w (ba_conn b)"]) (auto simp: same_core_def conn_at_def)
  next
    case (Inr r)
    obtain b' c s where r: "growEntry k n x b (conn_at w (ba_conn b)) (w_sched w) = Inr (b', c, s)" using Inr by (metis prod_cases3)
    then have "same_core (conn_at w (ba_conn b)) c" by (auto simp: growEntry_def Let_def same_core_def split: if_splits option.splits)
    moreover have "\<forall>e\<in>set (ba_entries b). 0 \<le> be_size e" using batch_facts [OF w b] by (simp add: batch_ok_def)
    ultimately show ?thesis using growEntry_sched [OF winvD(1) [OF w] r] e l b r
      by (intro exI [of _ "ba_conn b"] exI [of _ c]) (auto simp: put_conn_def)
  qed
next
  fix b xs sp assume l: "l = Retain b xs sp"
  then have b: "b \<in> set (w_batches w)" using e by (auto split: if_splits)
  show ?thesis
  proof (cases "batch_retain xs sp b (conn_at w (ba_conn b))")
    case (Inl er)
    then show ?thesis using e l b by (intro exI [of _ "ba_conn b"] exI [of _ "conn_at w (ba_conn b)"]) (auto simp: same_core_def conn_at_def)
  next
    case (Inr r)
    obtain b' c gone over where r: "batch_retain xs sp b (conn_at w (ba_conn b)) = Inr (b', c, gone, over)" using Inr by (metis prod_cases4)
    then have "same_core (conn_at w (ba_conn b)) c" by (auto simp: batch_retain_def same_core_def split: if_splits option.splits)
    then show ?thesis using e l b r by (intro exI [of _ "ba_conn b"] exI [of _ c]) (auto simp: put_conn_def todo_def)
  qed
next
  fix b assume l: "l = Abort b"
  obtain gone c where c: "batch_abort b (conn_at w (ba_conn b)) = (gone, c)" by fastforce
  then have "same_core (conn_at w (ba_conn b)) c" by (auto simp: batch_abort_def same_core_def)
  then show ?thesis using e l c by (intro exI [of _ "ba_conn b"] exI [of _ c]) (auto simp: put_conn_def todo_def split: if_splits)
qed

lemma strand_core_ops:
  assumes "winv w" and s: "stranded w i" and "rpc_exec l w = Some w'"
    and "(\<exists>j. l = Retire j) \<or> (\<exists>b x. l = Admit b x) \<or> (\<exists>b k n x. l = Grow b k n x) \<or> (\<exists>b xs sp. l = Retain b xs sp) \<or> (\<exists>b. l = Abort b)"
  shows "stranded w' i"
proof -
  obtain j c where j: "w_conns w' = (w_conns w)[j := c]" "same_core (conn_at w j) c" "w_gates w' = w_gates w"
    "sc_ready (w_sched w') = sc_ready (w_sched w)" "set (w_pending w') \<subseteq> set (w_pending w) \<union> {p. \<exists>rs. p = PRelease rs}"
    using core_step [OF assms(1,3,4)] by blast
  show ?thesis by (rule strand_core [OF s j]) auto
qed

lemma strand_grows:
  assumes w: "winv w" and s: "stranded w i" and e: "rpc_exec l w = Some w'"
    and l: "(\<exists>m q t. l = Connect m q t) \<or> (\<exists>j n. l = NewGate j n) \<or> (\<exists>k ok. l = Resolve k ok) \<or> (\<exists>j sp dl. l = Reserve j sp dl)"
  shows "stranded w' i"
proof -
  have i: "i < length (w_conns w)" and g: "gated (conn_at w i) i (w_gates w)" using s by (simp_all add: stranded_def stuck_def)
  have base: "stranded w' i" if c: "conn_at w' i = conn_at w i" "length (w_conns w) \<le> length (w_conns w')"
    and r: "\<And>t. t \<in> set (rq_queue (conn_at w i)) \<Longrightarrow> runs (w_gates w) t \<Longrightarrow> runs (w_gates w') t" "gated (conn_at w i) i (w_gates w')"
    and p: "sc_ready (w_sched w') = sc_ready (w_sched w)" "set (w_pending w') \<subseteq> set (w_pending w) \<union> {p. (\<exists>b. p = PAdmit b) \<or> (\<exists>j. p = PWake j)}"
  proof -
    have "stuck (w_gates w') i (conn_at w' i)" using s r(2)
      by (auto simp: c stranded_def stuck_def hasRunnableInboundRPC_def list_ex_iff) (use r(1) in blast)
    then show ?thesis using s p c(2) by (auto simp: stranded_def)
  qed
  show ?thesis using l
  proof (elim disjE exE)
    fix m q t assume "l = Connect m q t"
    then show ?thesis using e i g by (intro base) (auto simp: conn_at_def nth_append)
  next
    fix j n assume "l = NewGate j n"
    then show ?thesis using e g
      by (intro base) (auto simp: conn_at_def runs_def gated_def gate_runnable_def nth_append split: if_splits option.splits)
  next
    fix k ok assume l: "l = Resolve k ok"
    let ?i = "snd (w_gates w ! k)"
    obtain wake h where k: "k < length (w_gates w)" and h: "gate_resolve ok (fst (w_gates w ! k)) = Some (wake, h)"
      and w': "w' = todo (if wake then [PWake ?i] else []) (w\<lparr>w_gates := (w_gates w)[k := (h, ?i)]\<rparr>)"
      using e l by (auto simp: Let_def split: if_splits)
    have "ga_ready (fst (w_gates w ! k)) \<Longrightarrow> ga_ready h" using h by (auto simp: gate_resolve_def Let_def split: if_splits)
    then show ?thesis using g k
      by (intro base) (auto simp: w' conn_at_def todo_def runs_def gated_def gate_runnable_def nth_list_update split: if_splits option.splits)
  next
    fix j sp dl assume l: "l = Reserve j sp dl"
    obtain r t where r: "reserve_global_part j sp dl (conn_at w j) (w_sched w) = (r, t)" by fastforce
    obtain r' t' where r': "reserveGlobalBatch (map sp_size (normalized sp)) (w_sched w) = (r', t')" by fastforce
    have "t = w_sched w \<or> t = t'" using r r' by (cases r') (auto simp: reserve_global_part_def Let_def split: if_splits)
    then have "sc_ready t = sc_ready (w_sched w)" using reserveGlobalBatch_ok [OF winvD(1) [OF w] r'] by (cases r') auto
    moreover have "w_sched w' = t" "w_conns w' = w_conns w" "w_gates w' = w_gates w" "set (w_pending w') \<subseteq> set (w_pending w) \<union> {p. \<exists>b. p = PAdmit b}"
      using e l r by (cases r, auto simp: todo_def split: if_splits)+
    ultimately show ?thesis using g by (intro base) (auto simp: conn_at_def)
  qed
qed

lemma strand_step:
  assumes w: "winv w" and s: "stranded w i" and e: "rpc_exec l w = Some w'" and f: "\<not> frees i l"
  shows "stranded w' i"
  using e f by (cases l)
    (auto simp: frees_def simp del: rpc_exec.simps intro: strand_sched [OF s] strand_commit [OF s] strand_task [OF w s] strand_other [OF w s]
      strand_core_ops [OF w s] strand_grows [OF w s])

lemma strand_run:
  "reached t b w \<Longrightarrow> stranded w i \<Longrightarrow> rpc_exec_all ls w = Some w' \<Longrightarrow> \<forall>l\<in>set ls. \<not> frees i l \<Longrightarrow> stranded w' i"
proof (induction ls arbitrary: w)
  case (Cons l ls)
  obtain v where v: "rpc_exec l w = Some v" "rpc_exec_all ls v = Some w'" using Cons.prems(3) by (auto simp del: rpc_exec.simps)
  have "stranded v i" using strand_step [OF reached_winv [OF Cons.prems(1)] Cons.prems(2) v(1)] Cons.prems(4) by simp
  then show ?case using Cons.IH [OF reached_step [OF Cons.prems(1) v(1)] _ v(2)] Cons.prems(4) by simp
qed simp

subsection \<open>The race\<close>

text \<open>A connection whose only queued request is about to expire, with a batch about to be committed.\<close>

definition racy :: "world \<Rightarrow> nat \<Rightarrow> rpc_task \<Rightarrow> rpc_batch \<Rightarrow> bool" where
  "racy w i q d \<longleftrightarrow> i < length (w_conns w) \<and> rq_queue (conn_at w i) = [q] \<and> rq_ready (conn_at w i) \<and> \<not> rq_closed (conn_at w i)
     \<and> \<not> rq_retired (conn_at w i) \<and> rq_running (conn_at w i) < rq_maxInflight (conn_at w i) \<and> i \<in> set (sc_ready (w_sched w))
     \<and> \<not> sc_stopped (w_sched w) \<and> (\<forall>p\<in>{PSchedule i, PToken i, PUnschedule i, PBarrier i}. p \<notin> set (w_pending w))
     \<and> d \<in> set (w_batches w) \<and> ba_conn d = i \<and> ba_entries d \<noteq> []"

abbreviation ungated :: "rpc_batch \<Rightarrow> nat option list" where
  "ungated d \<equiv> replicate (length (ba_entries d)) None"

lemma ungated_tasks:
  assumes "ba_entries d \<noteq> []"
  shows "prepare_tasks now dl k (ba_entries d) (ungated d) \<noteq> []" "\<forall>t\<in>set (prepare_tasks now dl k (ba_entries d) (ungated d)). tk_gate t = None"
proof -
  note T = prepare_tasks_facts [of "ungated d" "ba_entries d" now dl k]
  show "prepare_tasks now dl k (ba_entries d) (ungated d) \<noteq> []" using T(3) assms by (metis length_0_conv length_replicate)
  show "\<forall>t\<in>set (prepare_tasks now dl k (ba_entries d) (ungated d)). tk_gate t = None" using T(5) by fastforce
qed

lemma runs_ungated: "tk_gate t = None \<Longrightarrow> runs gs t"
  by (simp add: runs_def gate_runnable_def)

text \<open>Committing to the emptied, unpublished connection publishes it.\<close>

lemma commit_emptied:
  assumes "rq_queue c = []" "\<not> rq_ready c" "\<not> rq_closed c" "\<not> rq_retired c" "rq_running c < rq_maxInflight c" "rq_restores c = 0" "ba_entries d \<noteq> []"
  shows "\<exists>c2. batch_commit (runs gs) now k (ungated d) d c = (None, True, [], c2) \<and> stuck gs j c2"
proof -
  let ?ts = "prepare_tasks now (batch_deadline now d c) k (ba_entries d) (ungated d)"
  have ts: "list_ex (runs gs) ?ts" using ungated_tasks [OF assms(7), of now "batch_deadline now d c" k] runs_ungated
    by (cases ?ts) auto
  have g: "gated (c\<lparr>rq_reserved := x, rq_queue := ?ts, rq_ready := True\<rparr>) j gs" for x
    using ungated_tasks(2) [OF assms(7)] by (simp add: gated_def)
  show ?thesis using assms ts g
    by (simp add: batch_commit_def Let_def publish_def hasRunnableInboundRPC_def stuck_def)
qed

lemma expire_only:
  assumes "rq_queue c = [q]" and "rq_ready c"
  shows "expireInboundRPCTicket (tk_ticket q) c = (Some q, True, c\<lparr>rq_queue := [], rq_inflight := rq_inflight c - tk_size q, rq_ready := False\<rparr>)"
  using assms by (simp add: expireInboundRPCTicket_def)

lemma race_strands:
  assumes r: "racy w i q d" and w: "winv w"
  shows "\<exists>v. rpc_exec_all [Expire i (tk_ticket q), Commit d now (ungated d), Publish i, Unpublish i] w = Some v \<and> stranded v i"
    and "\<exists>v. rpc_exec_all [Expire i (tk_ticket q), Unpublish i, Commit d now (ungated d), Publish i] w = Some v \<and> i \<in> set (sc_ready (w_sched v))"
proof -
  let ?c = "conn_at w i"
  let ?c1 = "?c\<lparr>rq_queue := [], rq_inflight := rq_inflight ?c - tk_size q, rq_ready := False\<rparr>"
  have i: "i < length (w_conns w)" and d: "d \<in> set (w_batches w)" "ba_conn d = i" using r by (simp_all add: racy_def)
  have "rq_restores ?c = 0" using old_fits [OF w i] r by (simp add: conn_fits_def racy_def)
  then obtain c2 where c2: "batch_commit (runs (w_gates w)) now (w_ticket w) (ungated d) d ?c1 = (None, True, [], c2)" "stuck (w_gates w) i c2"
    using commit_emptied [of ?c1 d "w_gates w" now "w_ticket w" i] r by (auto simp: racy_def)
  have x: "expireInboundRPCTicket (tk_ticket q) ?c = (Some q, True, ?c1)" using r by (intro expire_only) (simp_all add: racy_def)
  define w1 where "w1 = todo [PUnschedule i, PRelease [tk_budget q]] (put_conn i ?c1 w)"
  have e1: "rpc_exec (Expire i (tk_ticket q)) w = Some w1" using x i by (simp add: w1_def)
  define w2 where "w2 = todo [PRelease [], PSchedule i] ((put_conn i c2 w1)\<lparr>w_batches := remove1 d (w_batches w), w_ticket := w_ticket w + length (ba_entries d)\<rparr>)"
  have og: "own_gates w' j (ungated d)" for w' j by (simp add: own_gates_def list_all_iff)
  have e2: "rpc_exec (Commit d now (ungated d)) w1 = Some w2"
    using c2 d i og by (simp add: w1_def w2_def world_ops conn_at_def)
  have s2: "rq_ready c2" "\<not> rq_closed c2" using c2(2) by (simp_all add: stuck_def)
  define w3 where "w3 = done_with (PSchedule i) w2"
  have e3: "rpc_exec (Publish i) w2 = Some w3"
    using r i s2 by (simp add: w3_def w2_def w1_def world_ops conn_at_def schedule_conn_def enqueueReady_def racy_def)
  define w4 where "w4 = (done_with (PUnschedule i) w3)\<lparr>w_sched := unschedule i (w_sched w)\<rparr>"
  have e4: "rpc_exec (Unpublish i) w3 = Some w4" by (simp add: w4_def w3_def w2_def w1_def world_ops)
  have "stranded w4 i" using r i c2(2)
    by (auto simp: stranded_def w4_def w3_def w2_def w1_def world_ops conn_at_def racy_def unschedule_def)
  then show "\<exists>v. rpc_exec_all [Expire i (tk_ticket q), Commit d now (ungated d), Publish i, Unpublish i] w = Some v \<and> stranded v i"
    using e1 e2 e3 e4 by (simp del: rpc_exec.simps)
  define u1 where "u1 = (done_with (PUnschedule i) w1)\<lparr>w_sched := unschedule i (w_sched w)\<rparr>"
  have f1: "rpc_exec (Unpublish i) w1 = Some u1" by (simp add: u1_def w1_def world_ops)
  define u2 where "u2 = todo [PRelease [], PSchedule i] ((put_conn i c2 u1)\<lparr>w_batches := remove1 d (w_batches w), w_ticket := w_ticket w + length (ba_entries d)\<rparr>)"
  have f2: "rpc_exec (Commit d now (ungated d)) u1 = Some u2"
    using c2 d i og by (simp add: u1_def u2_def w1_def world_ops conn_at_def)
  have "\<exists>v. rpc_exec (Publish i) u2 = Some v \<and> i \<in> set (sc_ready (w_sched v))"
    using r i s2 by (simp add: u2_def u1_def w1_def world_ops conn_at_def schedule_conn_def enqueueReady_def unschedule_def racy_def)
  then show "\<exists>v. rpc_exec_all [Expire i (tk_ticket q), Unpublish i, Commit d now (ungated d), Publish i] w = Some v \<and> i \<in> set (sc_ready (w_sched v))"
    using e1 f1 f2 by (auto simp del: rpc_exec.simps)
qed

end
