(* ===== verification/Scheduler_Properties.thy ===== *)
theory Scheduler_Properties
  imports Rpc_Stranded
begin

text \<open>The properties of the inbound RPC scheduler, under every interleaving of its critical sections.\<close>

lemma gated_code [code]:
  "gated c i gs \<longleftrightarrow> list_all (\<lambda>t. case tk_gate t of None \<Rightarrow> True | Some k \<Rightarrow> k < length gs \<and> snd (gs ! k) = i) (rq_queue c)"
  by (auto simp: gated_def list_all_iff split: option.splits)

definition demo_spec :: rpc_spec where "demo_spec = \<lparr>sp_method = ''ping'', sp_size = 7\<rparr>"

definition demo_batch :: "nat \<Rightarrow> rpc_batch" where
  "demo_batch r = batch_of 0 [demo_spec] [r] None"

text \<open>One request admitted, queued, published, taken and still running, a second one queued.\<close>

definition demo_labels :: "label list" where
  "demo_labels = [Connect 4 10 5, Start, Reserve 0 [demo_spec] None, Admit (demo_batch 0) False, Commit (demo_batch 0) 0 [None],
     Publish 0, Ensure, Pop, Take 0, Reserve 0 [demo_spec] None, Admit (demo_batch 1) False, Commit (demo_batch 1) 1 [None]]"

definition demo_world :: world where
  "demo_world = the (rpc_exec_all demo_labels (empty_world 10 100))"

text \<open>Before the race: one request queued and its connection published, a second request reserved.\<close>

definition race_labels :: "label list" where
  "race_labels = [Connect 4 10 5, Start, Reserve 0 [demo_spec] None, Admit (demo_batch 0) False, Commit (demo_batch 0) 0 [None],
     Publish 0, Ensure, Release [], Reserve 0 [demo_spec] None, Admit (demo_batch 1) False]"

fun calm_run :: "label list \<Rightarrow> world \<Rightarrow> bool" where
  "calm_run [] w = True"
| "calm_run (l # ls) w = (case rpc_exec l w of None \<Rightarrow> True
     | Some v \<Rightarrow> list_all (\<lambda>p. case p of PUnschedule i \<Rightarrow> \<not> rq_ready (conn_at v i) | _ \<Rightarrow> True) (w_pending v) \<and> calm_run ls v)"

lemma calm_run_calm:
  "calm t b w \<Longrightarrow> rpc_exec_all ls w = Some w' \<Longrightarrow> calm_run ls w \<Longrightarrow> calm t b w'"
proof (induction ls arbitrary: w)
  case (Cons l ls)
  obtain v where v: "rpc_exec l w = Some v" "rpc_exec_all ls v = Some w'" using Cons.prems(2) by (auto simp del: rpc_exec.simps)
  then have "no_overlap v" "calm_run ls v" using Cons.prems(3) by (auto simp: no_overlap_def list_all_iff simp del: rpc_exec.simps)
  then show ?case using Cons.IH [OF calm_step [OF Cons.prems(1) v(1)] v(2)] by simp
qed simp

lemma demo_run: "rpc_exec_all demo_labels (empty_world 10 100) = Some demo_world"
proof -
  have "rpc_exec_all demo_labels (empty_world 10 100) \<noteq> None" by code_simp
  then show ?thesis by (auto simp: demo_world_def)
qed

lemma demo_reached: "reached 10 100 demo_world"
  using exec_all_reached [OF demo_run reached_empty] .

lemma demo_calm: "calm 10 100 demo_world"
proof -
  have "calm_run demo_labels (empty_world 10 100)" by code_simp
  then show ?thesis using calm_run_calm [OF calm_empty demo_run] by blast
qed

subsection \<open>Accounting\<close>

text \<open>C22: under every interleaving the scheduler's task counter is the number of reservations held by open
  batches, queued and running requests and outstanding releases, its byte counter is the sum of the sizes
  of the batch entries and requests held (and of the reservations awaiting release), each connection's
  counters are exactly its own share, and no configured limit is ever exceeded.\<close>

theorem scheduler_accounting_exact:
  assumes "reached t b w"
  shows "sc_tasks (w_sched w) = int (size (rpc_held w)) \<and>
    sc_bytes (w_sched w) = held_bytes w \<and>
    sc_tasks (w_sched w) \<le> sc_maxTasks (w_sched w) \<and> sc_bytes (w_sched w) \<le> sc_maxBytes (w_sched w) \<and>
    (\<forall>i<length (w_conns w). let c = conn_at w i in
       rq_reserved c = slots w i \<and> rq_running c = nrun w i \<and> rq_inflight c = bbytes w i + rbytes w i + sumf tk_size (rq_queue c) \<and>
       rq_reserved c + int (length (rq_queue c)) \<le> rq_queueSize c \<and> rq_running c \<le> rq_maxInflight c \<and>
       rq_inflight c \<le> maxInflightRPCBytes)"
proof -
  note W = winvD [OF reached_winv [OF assms]]
  have "size (rpc_held w) = card (live (w_sched w))" using W(2) live_finite [OF W(1)] by simp
  moreover have "(\<Sum>r\<in>#rpc_held w. charge_of (sc_res (w_sched w)) r) = sum (charge_of (sc_res (w_sched w))) (live (w_sched w))"
    unfolding W(2) by (simp add: sum_unfold_sum_mset)
  ultimately show ?thesis using W(1,3) held_bytes_charged [OF reached_sized [OF assms]]
    by (auto simp: sched_ok_def fits_def conn_fits_def Let_def)
qed

theorem scheduler_accounting_exact_witness:
  "sc_tasks (w_sched demo_world) = int (size (rpc_held demo_world)) \<and> sc_bytes (w_sched demo_world) = 14 \<and>
    rq_running (conn_at demo_world 0) = nrun demo_world 0"
proof -
  have "0 < length (w_conns demo_world)" "held_bytes demo_world = 14" by code_simp+
  then show ?thesis using scheduler_accounting_exact [OF demo_reached] by (auto simp: Let_def)
qed

subsection \<open>Wake-ups\<close>

text \<open>C23: a connection with a runnable request and a free slot is always on its way to a worker, as long
  as no connection is published while the removal of its token after an expiry is outstanding.\<close>

theorem runnable_request_reaches_worker:
  assumes "calm t b w" and "i < length (w_conns w)" and "\<not> rq_closed (conn_at w i)" and "rq_running (conn_at w i) < rq_maxInflight (conn_at w i)"
    and "hasRunnableInboundRPC (runs (w_gates w)) (conn_at w i)" and "sc_started (w_sched w)" and "\<not> sc_stopped (w_sched w)"
  shows "PWake i \<in> set (w_pending w) \<or> PSchedule i \<in> set (w_pending w) \<or> PToken i \<in> set (w_pending w) \<or>
    i \<in> set (sc_ready (w_sched w)) \<and> (sc_workersStarted (w_sched w) \<or> PEnsure \<in> set (w_pending w))"
proof -
  have a: "awake w" using assms(1) by (rule calm_awake)
  then have "staffed w" by (simp add: awake_def)
  then show ?thesis using awakeD [OF a assms(2)] assms(3-7) by (auto simp: covered_def wanted_def staffed_def)
qed

theorem runnable_request_reaches_worker_witness:
  "PWake 0 \<in> set (w_pending demo_world) \<or> PSchedule 0 \<in> set (w_pending demo_world) \<or> PToken 0 \<in> set (w_pending demo_world) \<or>
    0 \<in> set (sc_ready (w_sched demo_world)) \<and> (sc_workersStarted (w_sched demo_world) \<or> PEnsure \<in> set (w_pending demo_world))"
proof -
  have "0 < length (w_conns demo_world) \<and> \<not> rq_closed (conn_at demo_world 0) \<and>
    rq_running (conn_at demo_world 0) < rq_maxInflight (conn_at demo_world 0) \<and>
    hasRunnableInboundRPC (runs (w_gates demo_world)) (conn_at demo_world 0) \<and> sc_started (w_sched demo_world) \<and> \<not> sc_stopped (w_sched demo_world)"
    by code_simp
  then show ?thesis using runnable_request_reaches_worker [OF demo_calm, of 0] by blast
qed

text \<open>C24: without that proviso a connection can be stranded. Take any reachable state in which a connection
  is published with one queued request and has a second request reserved. If the first expires and the
  second is committed before the expiring thread removes the token, the connection ends with a runnable
  request, a free slot and no token, and no step but the expiry of one of its requests, a replay barrier
  on it or its closing changes that, whatever is sent to it. If the token is removed before the commit,
  the connection is queued for a worker.\<close>

theorem expiry_race_strands_connection:
  assumes "reached t b w" and "i < length (w_conns w)" and "rq_queue (conn_at w i) = [q]" and "rq_ready (conn_at w i)"
    and "\<not> rq_closed (conn_at w i)" and "\<not> rq_retired (conn_at w i)" and "rq_running (conn_at w i) < rq_maxInflight (conn_at w i)"
    and "i \<in> set (sc_ready (w_sched w))" and "\<not> sc_stopped (w_sched w)"
    and "\<forall>p\<in>{PSchedule i, PToken i, PUnschedule i, PBarrier i}. p \<notin> set (w_pending w)"
    and "d \<in> set (w_batches w)" and "ba_conn d = i" and "ba_entries d \<noteq> []"
  shows "(\<exists>v. rpc_exec_all [Expire i (tk_ticket q), Commit d now (replicate (length (ba_entries d)) None), Publish i, Unpublish i] w = Some v \<and>
      stranded v i \<and> (\<forall>ls v'. rpc_exec_all ls v = Some v' \<longrightarrow> (\<forall>l\<in>set ls. \<not> frees i l) \<longrightarrow> stranded v' i)) \<and>
    (\<exists>v. rpc_exec_all [Expire i (tk_ticket q), Unpublish i, Commit d now (replicate (length (ba_entries d)) None), Publish i] w = Some v \<and>
      i \<in> set (sc_ready (w_sched v)))"
proof -
  have r: "racy w i q d" using assms by (simp add: racy_def)
  note R = race_strands [OF r reached_winv [OF assms(1)], of now]
  from R(1) obtain v where v: "rpc_exec_all [Expire i (tk_ticket q), Commit d now (ungated d), Publish i, Unpublish i] w = Some v" "stranded v i" by blast
  have "stranded v' i" if "rpc_exec_all ls v = Some v'" "\<forall>l\<in>set ls. \<not> frees i l" for ls v'
    using strand_run [OF exec_all_reached [OF v(1) assms(1)] v(2) that] .
  with v R(2) show ?thesis by blast
qed

theorem expiry_race_strands_connection_witness:
  "\<exists>w v. rpc_exec_all race_labels (empty_world 10 100) = Some w \<and>
    rpc_exec_all [Expire 0 0, Commit (demo_batch 1) 5 [None], Publish 0, Unpublish 0] w = Some v \<and> stranded v 0"
proof -
  define q where "q = \<lparr>tk_method = ''ping'', tk_size = 7, tk_budget = 0, tk_ticket = 0, tk_gate = None, tk_enqueuedAt = 0, tk_deadline = Some 5\<rparr>"
  have "case rpc_exec_all race_labels (empty_world 10 100) of None \<Rightarrow> False
    | Some w \<Rightarrow> 0 < length (w_conns w) \<and> rq_queue (conn_at w 0) = [q] \<and> rq_ready (conn_at w 0) \<and> \<not> rq_closed (conn_at w 0) \<and>
      \<not> rq_retired (conn_at w 0) \<and> rq_running (conn_at w 0) < rq_maxInflight (conn_at w 0) \<and> 0 \<in> set (sc_ready (w_sched w)) \<and>
      \<not> sc_stopped (w_sched w) \<and> (\<forall>p\<in>{PSchedule 0, PToken 0, PUnschedule 0, PBarrier 0}. p \<notin> set (w_pending w)) \<and>
      demo_batch 1 \<in> set (w_batches w)" unfolding q_def by code_simp
  then obtain w where w: "rpc_exec_all race_labels (empty_world 10 100) = Some w" "0 < length (w_conns w)" "rq_queue (conn_at w 0) = [q]"
    "rq_ready (conn_at w 0)" "\<not> rq_closed (conn_at w 0)" "\<not> rq_retired (conn_at w 0)" "rq_running (conn_at w 0) < rq_maxInflight (conn_at w 0)"
    "0 \<in> set (sc_ready (w_sched w))" "\<not> sc_stopped (w_sched w)" "\<forall>p\<in>{PSchedule 0, PToken 0, PUnschedule 0, PBarrier 0}. p \<notin> set (w_pending w)"
    "demo_batch 1 \<in> set (w_batches w)" by (auto split: option.splits)
  have d: "ba_conn (demo_batch 1) = 0" "ba_entries (demo_batch 1) \<noteq> []" "length (ba_entries (demo_batch 1)) = 1" by code_simp+
  from expiry_race_strands_connection [OF exec_all_reached [OF w(1) reached_empty] w(2-11) d(1,2), of 5] obtain v
    where "rpc_exec_all [Expire 0 (tk_ticket q), Commit (demo_batch 1) 5 (replicate (length (ba_entries (demo_batch 1))) None), Publish 0, Unpublish 0] w = Some v"
      "stranded v 0" by blast
  then have "rpc_exec_all [Expire 0 0, Commit (demo_batch 1) 5 [None], Publish 0, Unpublish 0] w = Some v \<and> stranded v 0"
    unfolding d(3) by (simp only: q_def rpc_task.simps replicate_0 replicate_Suc One_nat_def simp_thms)
  with w(1) show ?thesis by blast
qed

subsection \<open>The replay barrier\<close>

text \<open>C25: while a replay restore is active no request of the connection is taken by a worker holding a
  token, and ending it never meets the underflow panic.\<close>

theorem replay_barrier_holds_requests:
  assumes "reached t b w" and "i \<in> set (w_barriers w) \<or> PBarrier i \<in> set (w_pending w)"
  shows "takeInboundRPC run (conn_at w i) = (None, False, conn_at w i) \<and> endRPCReplayRestore run (conn_at w i) \<noteq> None"
proof -
  have w: "winv w" using assms(1) by (rule reached_winv)
  have i: "i < length (w_conns w)" using assms(2) barriers_lt [OF w] pend_lt [OF w, of "PBarrier i" i] by auto
  have k: "0 < nbar w i"
  proof (cases "i \<in> set (w_barriers w)")
    case True
    then show ?thesis by (rule barrier_active [OF w])
  next
    case False
    then have x: "PBarrier i \<in> set (w_pending w)" using assms(2) by simp
    have "0 \<le> sumf (\<lambda>j. if j = i then 1 else 0 :: int) (w_barriers w)"
      "0 \<le> sumf (\<lambda>p. if p = PBarrier i then 1 else 0 :: int) (remove1 (PBarrier i) (w_pending w))" by (rule sumf_nonneg, auto)+
    then show ?thesis using sumf_remove1_int [OF x, of "\<lambda>p. if p = PBarrier i then 1 else 0"] by (simp add: nbar_def)
  qed
  then have "\<not> rq_ready (conn_at w i)" using old_fits [OF w i] by (auto simp: conn_fits_def)
  moreover have "endRPCReplayRestore run (conn_at w i) \<noteq> None" using fits_end [OF old_fits [OF w i] k, of run] by auto
  ultimately show ?thesis by (simp add: takeInboundRPC_def)
qed

theorem replay_barrier_holds_requests_witness:
  "\<exists>w. takeInboundRPC (runs (w_gates w)) (conn_at w 0) = (None, False, conn_at w 0) \<and> rq_queue (conn_at w 0) \<noteq> []"
proof -
  have "case rpc_exec_all [BeginRestore 0] demo_world of None \<Rightarrow> False
    | Some w \<Rightarrow> PBarrier 0 \<in> set (w_pending w) \<and> rq_queue (conn_at w 0) \<noteq> []" by code_simp
  then obtain w where w: "rpc_exec_all [BeginRestore 0] demo_world = Some w" "PBarrier 0 \<in> set (w_pending w)" "rq_queue (conn_at w 0) \<noteq> []"
    by (auto split: option.splits)
  have "reached 10 100 w" using exec_all_reached [OF w(1) demo_reached] .
  then show ?thesis using replay_barrier_holds_requests [of 10 100 w 0] w(2,3) by blast
qed

subsection \<open>Gates\<close>

fun gate_run :: "bool list \<Rightarrow> rpc_gate \<Rightarrow> (bool list \<times> rpc_gate) option" where
  "gate_run [] g = Some ([], g)"
| "gate_run (x # xs) g = do { (wake, g1) \<leftarrow> gate_resolve x g; (ws, g2) \<leftarrow> gate_run xs g1; Some (wake # ws, g2) }"

lemma gate_run_ok:
  assumes "int (length xs) \<le> ga_remaining g" and "0 < ga_remaining g" and "\<not> ga_ready g"
  shows "\<exists>ws g'. gate_run xs g = Some (ws, g') \<and> ga_remaining g' = ga_remaining g - int (length xs) \<and>
    ga_failed g' = (ga_failed g \<or> False \<in> set xs) \<and> ga_ready g' = (int (length xs) = ga_remaining g) \<and>
    ws = map (\<lambda>k. int (Suc k) = ga_remaining g) [0..<length xs]"
  using assms
proof (induction xs arbitrary: g)
  case (Cons x xs)
  let ?g = "(if x then g else g\<lparr>ga_failed := True\<rparr>)\<lparr>ga_remaining := ga_remaining g - 1, ga_ready := (ga_remaining g = 1)\<rparr>"
  have r: "gate_resolve x g = Some (ga_remaining g = 1, ?g)"
    using Cons.prems by (cases x) (auto simp: gate_resolve_def Let_def)
  have up: "[0..<length (x # xs)] = 0 # map Suc [0..<length xs]" unfolding map_Suc_upt by (subst upt_conv_Cons) simp_all
  show ?case
  proof (cases "ga_remaining g = 1")
    case True
    then have "xs = []" using Cons.prems(1) by simp
    then show ?thesis using r True by (cases x) auto
  next
    case False
    then obtain ws g' where t: "gate_run xs ?g = Some (ws, g')" "ga_remaining g' = ga_remaining ?g - int (length xs)"
      "ga_failed g' = (ga_failed ?g \<or> False \<in> set xs)" "ga_ready g' = (int (length xs) = ga_remaining ?g)"
      "ws = map (\<lambda>k. int (Suc k) = ga_remaining ?g) [0..<length xs]"
      using Cons.IH [of ?g] Cons.prems by (auto split: if_splits)
    have "False # ws = map (\<lambda>k. int (Suc k) = ga_remaining g) [0..<length (x # xs)]"
      unfolding up using False t(5) by (auto split: if_splits)
    then show ?thesis using r t False by (cases x) auto
  qed
qed auto

text \<open>A gate with \<open>n\<close> prerequisites and its registration sentinel accepts up to \<open>n + 1\<close> resolutions
  without panicking, becomes ready and wakes its connection exactly at the last, and reports success
  exactly when every prerequisite succeeded.\<close>

theorem gate_opens_at_last_resolution:
  assumes "0 \<le> n" and "int (length xs) \<le> n + 1"
  shows "\<exists>ws g. gate_run xs (newInboundRPCGate n) = Some (ws, g) \<and>
    gate_runnable (Some g) = (int (length xs) = n + 1) \<and> gate_success (Some g) = (int (length xs) = n + 1 \<and> False \<notin> set xs) \<and>
    ws = map (\<lambda>k. int k = n) [0..<length xs]"
  using gate_run_ok [of xs "newInboundRPCGate n"] assms
  by (auto simp: newInboundRPCGate_def gate_runnable_def gate_success_def)

theorem gate_opens_at_last_resolution_witness:
  "\<exists>ws g. gate_run [True, False, True] (newInboundRPCGate 2) = Some (ws, g) \<and> gate_runnable (Some g) \<and> \<not> gate_success (Some g) \<and>
    ws = map (\<lambda>k. int k = 2) [0..<3]"
  using gate_opens_at_last_resolution [of 2 "[True, False, True]"] by (auto simp: numeral_3_eq_3)

end
