(* ===== verification/Update_Events.thy ===== *)
theory Update_Events
  imports Prelude
begin

text \<open>
  The data of the update service (src/internal/domain): account update events, update states and
  differences, and the arguments of the operations that publish events. Parts of an event the service
  only copies (message bodies, stories, settings, ...) are \<open>opaque\<close> bytes; slices are lists, so the
  defensive copies of the code are the identity. An optional pointer is an \<open>option\<close>.
\<close>

type_synonym opaque = "byte list"

datatype peer_type = PeerTypeUser | PeerTypeChannel | PeerTypeCommunity | PeerTypeFolder | PeerTypeNone

record peer =
  peer_type :: peer_type
  peer_id :: int

datatype update_event_type =
    UpdateEventNewMessage | UpdateEventReadHistoryInbox | UpdateEventReadHistoryOutbox
  | UpdateEventReadChannelDiscussionInbox | UpdateEventReadChannelDiscussionOutbox
  | UpdateEventReadMessageContents | UpdateEventEditMessage | UpdateEventBotCallbackQuery
  | UpdateEventWebPage | UpdateEventMessagePoll | UpdateEventContactsReset
  | UpdateEventDialogPinned | UpdateEventPinnedDialogs | UpdateEventDialogUnreadMark
  | UpdateEventPeerSettings | UpdateEventPeerStoryBlocked | UpdateEventUserPhone
  | UpdateEventUserEmojiStatus | UpdateEventDeleteMessages | UpdateEventPinnedMessages
  | UpdateEventDialogFilter | UpdateEventDialogFilterOrder | UpdateEventDialogFilters
  | UpdateEventFolderPeers | UpdateEventChannelViewForum | UpdateEventStory
  | UpdateEventReadStories | UpdateEventSentStoryReaction | UpdateEventNewStoryReaction
  | UpdateEventQuickReplies | UpdateEventNewQuickReply | UpdateEventDeleteQuickReply
  | UpdateEventQuickReplyMessage | UpdateEventDeleteQuickReplyMessages | UpdateEventChannelState
  | UpdateEventDraftMessage | UpdateEventSavedDialogPinned | UpdateEventPinnedSavedDialogs
  | UpdateEventNoop
  | UpdateEventUnset

text \<open>A message as the service sees it: its box id, owner, peer and date.\<close>

record chat_message =
  msg_id :: int
  msg_owner :: int
  msg_peer :: peer
  msg_date :: int
  msg_rest :: opaque

record story =
  story_owner :: peer
  story_date :: int
  story_rest :: opaque

record emoji_collectible =
  col_id :: int
  col_document :: int
  col_title :: string
  col_slug :: string
  col_pattern :: int
  col_center :: int
  col_edge :: int
  col_pattern_color :: int
  col_text :: int

record emoji_status =
  emo_document :: int
  emo_until :: int
  emo_collectible :: emoji_collectible

definition no_collectible :: emoji_collectible where
  "no_collectible = \<lparr>col_id = 0, col_document = 0, col_title = '''', col_slug = '''', col_pattern = 0,
     col_center = 0, col_edge = 0, col_pattern_color = 0, col_text = 0\<rparr>"

definition collectible_valid :: "emoji_collectible \<Rightarrow> bool" where
  "collectible_valid c =
     (if col_id c \<le> 0 \<or> col_document c \<le> 0 \<or> col_pattern c \<le> 0 \<or> col_title c = '''' \<or> col_slug c = ''''
      then False
      else list_all (\<lambda>k. \<not> (k < 0 \<or> 0xffffff < k))
             [col_center c, col_edge c, col_pattern_color c, col_text c])"

definition emoji_empty :: "emoji_status \<Rightarrow> bool" where
  "emoji_empty s \<longleftrightarrow> emo_document s = 0 \<and> emo_collectible s = no_collectible"

definition emoji_valid :: "emoji_status \<Rightarrow> bool" where
  "emoji_valid s =
     (if emo_until s < 0 then False
      else if emoji_empty s then emo_until s = 0
      else if emo_document s \<le> 0 then False
      else if emo_collectible s = no_collectible then True
      else collectible_valid (emo_collectible s) \<and> emo_document s = col_document (emo_collectible s))"

text \<open>\<open>UpdateEvent\<close>, with the fields of the Go struct.\<close>

record update_event =
  ev_user :: int
  ev_type :: update_event_type
  ev_pts :: int
  ev_pts_count :: int
  ev_date :: int
  ev_message :: chat_message
  ev_story :: story
  ev_peer :: peer
  ev_peers :: "peer list"
  ev_bool :: bool
  ev_phone :: string
  ev_emoji :: emoji_status
  ev_settings :: opaque
  ev_message_ids :: "int list"
  ev_max_id :: int
  ev_still_unread :: int
  ev_channel_pts :: int
  ev_top_msg :: int
  ev_users :: "opaque list"
  ev_channels :: "opaque list"
  ev_filter_id :: int
  ev_folder_id :: int
  ev_dialog_filter :: "opaque option"
  ev_draft :: "opaque option"
  ev_filter_order :: "int list"
  ev_folder_peers :: "(peer \<times> int) list"
  ev_tags_enabled :: bool
  ev_reaction :: "opaque option"
  ev_quick_replies :: "opaque list"
  ev_quick_reply :: opaque
  ev_quick_reply_message :: opaque
  ev_bot_callback :: "opaque option"
  ev_bot_update_id :: int
  ev_ephemeral :: "opaque option"

text \<open>The zero values of the Go structs.\<close>

definition no_peer :: peer where "no_peer = \<lparr>peer_type = PeerTypeNone, peer_id = 0\<rparr>"

definition no_message :: chat_message where
  "no_message = \<lparr>msg_id = 0, msg_owner = 0, msg_peer = no_peer, msg_date = 0, msg_rest = []\<rparr>"

definition no_story :: story where
  "no_story = \<lparr>story_owner = no_peer, story_date = 0, story_rest = []\<rparr>"

definition no_emoji :: emoji_status where
  "no_emoji = \<lparr>emo_document = 0, emo_until = 0, emo_collectible = no_collectible\<rparr>"

definition no_event :: update_event where
  "no_event = \<lparr>ev_user = 0, ev_type = UpdateEventUnset, ev_pts = 0, ev_pts_count = 0, ev_date = 0,
     ev_message = no_message, ev_story = no_story, ev_peer = no_peer, ev_peers = [], ev_bool = False,
     ev_phone = '''', ev_emoji = no_emoji, ev_settings = [], ev_message_ids = [], ev_max_id = 0,
     ev_still_unread = 0, ev_channel_pts = 0, ev_top_msg = 0, ev_users = [], ev_channels = [],
     ev_filter_id = 0, ev_folder_id = 0, ev_dialog_filter = None, ev_draft = None,
     ev_filter_order = [], ev_folder_peers = [], ev_tags_enabled = False, ev_reaction = None,
     ev_quick_replies = [], ev_quick_reply = [], ev_quick_reply_message = [], ev_bot_callback = None,
     ev_bot_update_id = 0, ev_ephemeral = None\<rparr>"

text \<open>\<open>LacksWirePts\<close>: the event takes an account pts that its wire constructor does not carry.\<close>

definition lacksWirePts :: "update_event \<Rightarrow> bool" where
  "lacksWirePts e =
     (if ev_type e \<in> set
        [UpdateEventMessagePoll, UpdateEventDraftMessage, UpdateEventChannelState,
         UpdateEventContactsReset, UpdateEventDialogPinned, UpdateEventPinnedDialogs,
         UpdateEventSavedDialogPinned, UpdateEventPinnedSavedDialogs,
         UpdateEventDialogUnreadMark, UpdateEventPeerSettings, UpdateEventPeerStoryBlocked,
         UpdateEventUserPhone, UpdateEventUserEmojiStatus, UpdateEventDialogFilter,
         UpdateEventDialogFilterOrder, UpdateEventDialogFilters, UpdateEventChannelViewForum,
         UpdateEventStory, UpdateEventReadStories, UpdateEventSentStoryReaction,
         UpdateEventNewStoryReaction, UpdateEventQuickReplies, UpdateEventNewQuickReply,
         UpdateEventDeleteQuickReply, UpdateEventQuickReplyMessage,
         UpdateEventDeleteQuickReplyMessages]
      then True
      else if ev_type e \<in> set [UpdateEventReadChannelDiscussionInbox, UpdateEventReadChannelDiscussionOutbox]
      then True
      else if ev_type e \<in> set [UpdateEventReadHistoryInbox, UpdateEventReadHistoryOutbox]
      then peer_type (ev_peer e) = PeerTypeChannel
      else False)"

text \<open>\<open>UpdateState\<close>, its commit modes (any other \<open>uint8\<close> is \<open>CommitOther\<close>) and \<open>UpdateDifference\<close>;
  the channel hints are added by the caller and stay empty here.\<close>

record update_state =
  us_pts :: int
  us_qts :: int
  us_date :: int
  us_seq :: int

definition no_state :: update_state where
  "no_state = \<lparr>us_pts = 0, us_qts = 0, us_date = 0, us_seq = 0\<rparr>"

datatype commit_mode = CommitDeliveredOnly | CommitDeliveredAndObservedBaseline | CommitOther nat

record update_difference =
  diff_state :: update_state
  diff_events :: "update_event list"
  diff_partial :: bool

text \<open>The arguments of the publishing operations.\<close>

record story_read =
  sr_viewer :: int
  sr_peer :: peer
  sr_max_read :: int
  sr_date :: int

record story_reaction =
  sx_viewer :: int
  sx_peer :: peer
  sx_story_id :: int
  sx_reaction :: "opaque option"
  sx_story :: story
  sx_date :: int

datatype quick_reply_kind = QuickReplyList | QuickReplyNew | QuickReplyDelete | QuickReplyMessage
  | QuickReplyIDs | QuickReplyOther

record quick_reply_mutation =
  qm_kind :: quick_reply_kind
  qm_owner :: int
  qm_replies :: "opaque list"
  qm_reply :: opaque
  qm_shortcut :: int
  qm_message :: opaque
  qm_message_ids :: "int list"
  qm_date :: int

record read_history =
  rh_owner :: int
  rh_peer :: peer
  rh_max_id :: int
  rh_still_unread :: int
  rh_channel_pts :: int

datatype update_error = StoreFailed string | EventUserMismatch | InvalidCommitMode
  | ErrStoryPeerInvalid | ErrStarGiftCollectibleInvalid

end
