(* ===== verification/Update_Store.thy ===== *)
theory Update_Store
  imports Update_Events
begin

text \<open>
  The stores behind the update service. \<open>event_ops\<close> and \<open>state_ops\<close> are the Go interfaces
  \<open>UpdateEventStore\<close> and \<open>UpdateStateStore\<close> (src/internal/store) over an arbitrary store state, with the
  interfaces the service discovers by type assertion as optional fields; the in-memory
  implementations (src/internal/store/memory/updates.go) are \<open>mem_event_ops\<close> and \<open>mem_state_ops\<close>. The locales
  \<open>event_log\<close> and \<open>cursor_store\<close> are what the service relies on: an append-only log whose pts chain
  without holes, and device cursors that only advance.
\<close>

type_synonym 'a result = "update_error + 'a"

record 's event_ops =
  op_append :: "int \<Rightarrow> update_event \<Rightarrow> 's \<Rightarrow> update_event result \<times> 's"
  op_list_after :: "int \<Rightarrow> int \<Rightarrow> int \<Rightarrow> 's \<Rightarrow> update_event list result"
  op_max_contiguous :: "int \<Rightarrow> 's \<Rightarrow> int result"
  op_append_dispatch ::
    "(int \<Rightarrow> update_event \<Rightarrow> auth_key_id \<Rightarrow> int \<Rightarrow> 's \<Rightarrow> update_event result \<times> 's) option"
  op_find_new_message :: "(int \<Rightarrow> int \<Rightarrow> 's \<Rightarrow> update_event option result) option"
  op_checkpoint :: "(auth_key_id \<Rightarrow> int \<Rightarrow> 's \<Rightarrow> (int \<times> int) option result) option"

record 's state_ops =
  op_get :: "auth_key_id \<Rightarrow> int \<Rightarrow> 's \<Rightarrow> update_state option result"
  op_save :: "auth_key_id \<Rightarrow> int \<Rightarrow> update_state \<Rightarrow> 's \<Rightarrow> unit result \<times> 's"
  op_commit :: "auth_key_id \<Rightarrow> int \<Rightarrow> update_state \<Rightarrow> commit_mode \<Rightarrow> 's \<Rightarrow> unit result \<times> 's"
  op_observe :: "auth_key_id \<Rightarrow> int \<Rightarrow> update_state \<Rightarrow> 's \<Rightarrow> unit result \<times> 's"
  op_delete :: "auth_key_id \<Rightarrow> int \<Rightarrow> 's \<Rightarrow> unit result \<times> 's"
  op_delete_auth_key :: "auth_key_id \<Rightarrow> 's \<Rightarrow> unit result \<times> 's"

section \<open>The in-memory event store\<close>

type_synonym mem_events = "int \<Rightarrow> update_event list"

definition event_count :: "update_event \<Rightarrow> int" where
  "event_count e = (if ev_pts_count e \<le> 0 then 1 else ev_pts_count e)"

definition mem_max_pts :: "update_event list \<Rightarrow> int" where
  "mem_max_pts es = fold (\<lambda>item current. if current < ev_pts item then ev_pts item else current) es 0"

definition mem_append :: "int \<Rightarrow> update_event \<Rightarrow> bool \<Rightarrow> mem_events \<Rightarrow> update_event result \<times> mem_events" where
  "mem_append user event allocate s =
     (let event = event\<lparr>ev_pts_count := event_count event\<rparr>;
          event = event\<lparr>ev_user := user\<rparr>;
          event = (if allocate then event\<lparr>ev_pts := mem_max_pts (s user) + ev_pts_count event\<rparr> else event)
      in (Inr event, s(user := s user @ [event])))"

definition mem_append_given :: "int \<Rightarrow> update_event \<Rightarrow> mem_events \<Rightarrow> unit result \<times> mem_events" where
  "mem_append_given user event s =
     (case mem_append user event False s of (Inl err, s') \<Rightarrow> (Inl err, s') | (Inr _, s') \<Rightarrow> (Inr (), s'))"

definition mem_append_allocated :: "int \<Rightarrow> update_event \<Rightarrow> mem_events \<Rightarrow> update_event result \<times> mem_events" where
  "mem_append_allocated user event s = mem_append user event True s"

definition mem_append_dispatch ::
  "int \<Rightarrow> update_event \<Rightarrow> auth_key_id \<Rightarrow> int \<Rightarrow> mem_events \<Rightarrow> update_event result \<times> mem_events" where
  "mem_append_dispatch user event exclude_key exclude_session s = mem_append user event True s"

fun list_after_loop :: "int \<Rightarrow> int \<Rightarrow> update_event list \<Rightarrow> update_event list \<Rightarrow> update_event list" where
  "list_after_loop pts limit out [] = out"
| "list_after_loop pts limit out (event # items) =
     (if ev_pts event \<le> pts then list_after_loop pts limit out items
      else let out = out @ [event] in
        if 0 < limit \<and> limit \<le> int (length out) then out else list_after_loop pts limit out items)"

definition mem_list_after :: "int \<Rightarrow> int \<Rightarrow> int \<Rightarrow> mem_events \<Rightarrow> update_event list result" where
  "mem_list_after user pts limit s = Inr (list_after_loop pts limit [] (s user))"

definition is_new_message :: "int \<Rightarrow> update_event \<Rightarrow> bool" where
  "is_new_message box e \<longleftrightarrow> ev_type e = UpdateEventNewMessage \<and> msg_id (ev_message e) = box"

definition mem_find_new_message :: "int \<Rightarrow> int \<Rightarrow> mem_events \<Rightarrow> update_event option result" where
  "mem_find_new_message user box s =
     (if user = 0 \<or> box \<le> 0 then Inr None else Inr (List.find (is_new_message box) (s user)))"

definition next_by_start :: "update_event list \<Rightarrow> int \<Rightarrow> int option" where
  "next_by_start es = foldl (\<lambda>m e. m(ev_pts e - event_count e \<mapsto> ev_pts e)) (\<lambda>_. None) es"

lemma event_count_pos [simp]: "0 < event_count e"
  by (simp add: event_count_def)

lemma next_by_start_snoc [simp]:
  "next_by_start (es @ [e]) = (next_by_start es)(ev_pts e - event_count e \<mapsto> ev_pts e)"
  by (simp add: next_by_start_def)

lemma next_by_start_Nil [simp]: "next_by_start [] = (\<lambda>_. None)"
  by (simp add: next_by_start_def)

lemma next_by_startD:
  "next_by_start es c = Some n \<Longrightarrow> c < n \<and> n \<in> ev_pts ` set es"
proof (induction es rule: rev_induct)
  case (snoc e es)
  have "0 < event_count e" by simp
  with snoc show ?case by (auto split: if_splits)
qed simp

text \<open>The loop of \<open>MaxContiguousPts\<close> ends on every log: each round moves to the end of a stored event,
  beyond the current position.\<close>

function contiguous_from :: "update_event list \<Rightarrow> int \<Rightarrow> int" where
  "contiguous_from es c = (case next_by_start es c of None \<Rightarrow> c | Some n \<Rightarrow> contiguous_from es n)"
  by pat_completeness auto

termination contiguous_from
proof (relation "measure (\<lambda>(es, c). card {p \<in> ev_pts ` set es. c < p})")
  fix es :: "update_event list" and c n
  assume "next_by_start es c = Some n"
  then have "c < n" and "n \<in> ev_pts ` set es" by (simp_all add: next_by_startD)
  then have "{p \<in> ev_pts ` set es. n < p} \<subset> {p \<in> ev_pts ` set es. c < p}" by auto
  then have "card {p \<in> ev_pts ` set es. n < p} < card {p \<in> ev_pts ` set es. c < p}"
    by (intro psubset_card_mono) auto
  then show "((es, n), es, c) \<in> measure (\<lambda>(es, c). card {p \<in> ev_pts ` set es. c < p})" by simp
qed simp

declare contiguous_from.simps [simp del]

definition mem_max_contiguous :: "int \<Rightarrow> mem_events \<Rightarrow> int result" where
  "mem_max_contiguous user s = Inr (contiguous_from (s user) 0)"

text \<open>The memory store dispatches and finds messages; it keeps every event, so it has no retention
  checkpoint.\<close>

definition mem_event_ops :: "mem_events event_ops" where
  "mem_event_ops = \<lparr>op_append = mem_append_allocated, op_list_after = mem_list_after,
     op_max_contiguous = mem_max_contiguous, op_append_dispatch = Some mem_append_dispatch,
     op_find_new_message = Some mem_find_new_message, op_checkpoint = None\<rparr>"

section \<open>The in-memory state store\<close>

type_synonym device = "auth_key_id \<times> int"

record mem_states =
  ms_states :: "device \<Rightarrow> update_state option"
  ms_observed :: "device \<Rightarrow> update_state option"

definition zero_or :: "update_state option \<Rightarrow> update_state" where
  "zero_or m = (case m of None \<Rightarrow> no_state | Some st \<Rightarrow> st)"

definition monotonicUpdateState :: "update_state \<Rightarrow> update_state \<Rightarrow> update_state" where
  "monotonicUpdateState prev nxt =
     (let nxt = (if us_pts nxt < us_pts prev then nxt\<lparr>us_pts := us_pts prev\<rparr> else nxt);
          nxt = (if us_qts nxt < us_qts prev then nxt\<lparr>us_qts := us_qts prev\<rparr> else nxt);
          nxt = (if us_date nxt < us_date prev then nxt\<lparr>us_date := us_date prev\<rparr> else nxt)
      in if us_seq nxt < us_seq prev then nxt\<lparr>us_seq := us_seq prev\<rparr> else nxt)"

definition mem_get :: "auth_key_id \<Rightarrow> int \<Rightarrow> mem_states \<Rightarrow> update_state option result" where
  "mem_get key user s = Inr (ms_states s (key, user))"

definition mem_save :: "auth_key_id \<Rightarrow> int \<Rightarrow> update_state \<Rightarrow> mem_states \<Rightarrow> unit result \<times> mem_states" where
  "mem_save key user st s =
     (let prev = zero_or (ms_states s (key, user));
          st = (if us_pts st < us_pts prev then st\<lparr>us_pts := us_pts prev\<rparr> else st);
          st = (if us_qts st < us_qts prev then st\<lparr>us_qts := us_qts prev\<rparr> else st);
          st = (if us_date st < us_date prev then st\<lparr>us_date := us_date prev\<rparr> else st);
          st = (if us_seq st < us_seq prev then st\<lparr>us_seq := us_seq prev\<rparr> else st)
      in (Inr (), s\<lparr>ms_states := (ms_states s)((key, user) \<mapsto> st)\<rparr>))"

definition valid_mode :: "commit_mode \<Rightarrow> bool" where
  "valid_mode m \<longleftrightarrow> m = CommitDeliveredOnly \<or> m = CommitDeliveredAndObservedBaseline"

definition mem_commit ::
  "auth_key_id \<Rightarrow> int \<Rightarrow> update_state \<Rightarrow> commit_mode \<Rightarrow> mem_states \<Rightarrow> unit result \<times> mem_states" where
  "mem_commit key user st mode s =
     (if \<not> valid_mode mode then (Inl InvalidCommitMode, s)
      else
        let d = (key, user);
            s = s\<lparr>ms_states := (ms_states s)(d \<mapsto> monotonicUpdateState (zero_or (ms_states s d)) st)\<rparr>;
            s = (if mode = CommitDeliveredAndObservedBaseline
                 then s\<lparr>ms_observed := (ms_observed s)(d \<mapsto> monotonicUpdateState (zero_or (ms_observed s d)) st)\<rparr>
                 else s)
        in (Inr (), s))"

definition mem_observe :: "auth_key_id \<Rightarrow> int \<Rightarrow> update_state \<Rightarrow> mem_states \<Rightarrow> unit result \<times> mem_states" where
  "mem_observe key user st s =
     (Inr (), s\<lparr>ms_observed := (ms_observed s)((key, user) \<mapsto>
        monotonicUpdateState (zero_or (ms_observed s (key, user))) st)\<rparr>)"

definition mem_delete :: "auth_key_id \<Rightarrow> int \<Rightarrow> mem_states \<Rightarrow> unit result \<times> mem_states" where
  "mem_delete key user s =
     (Inr (), s\<lparr>ms_states := (ms_states s)((key, user) := None),
               ms_observed := (ms_observed s)((key, user) := None)\<rparr>)"

definition mem_delete_auth_key :: "auth_key_id \<Rightarrow> mem_states \<Rightarrow> unit result \<times> mem_states" where
  "mem_delete_auth_key key s =
     (Inr (), s\<lparr>ms_states := (\<lambda>d. if fst d = key then None else ms_states s d),
               ms_observed := (\<lambda>d. if fst d = key then None else ms_observed s d)\<rparr>)"

definition mem_state_ops :: "mem_states state_ops" where
  "mem_state_ops = \<lparr>op_get = mem_get, op_save = mem_save, op_commit = mem_commit,
     op_observe = mem_observe, op_delete = mem_delete, op_delete_auth_key = mem_delete_auth_key\<rparr>"

section \<open>Logs whose pts chain without holes\<close>

fun chained :: "int \<Rightarrow> update_event list \<Rightarrow> bool" where
  "chained p [] \<longleftrightarrow> True"
| "chained p (e # es) \<longleftrightarrow> 0 < ev_pts_count e \<and> ev_pts e = p + ev_pts_count e \<and> chained (p + ev_pts_count e) es"

fun log_pts :: "int \<Rightarrow> update_event list \<Rightarrow> int" where
  "log_pts p [] = p"
| "log_pts p (e # es) = log_pts (ev_pts e) es"

lemma log_pts_append [simp]: "log_pts p (xs @ ys) = log_pts (log_pts p xs) ys"
  by (induction xs arbitrary: p) auto

lemma chained_append [simp]:
  "chained p (xs @ ys) \<longleftrightarrow> chained p xs \<and> chained (log_pts p xs) ys"
proof (induction xs arbitrary: p)
  case (Cons x xs)
  show ?case
    by (cases "ev_pts x = p + ev_pts_count x") (simp_all add: Cons.IH)
qed simp

lemma log_pts_mono: "chained p es \<Longrightarrow> p \<le> log_pts p es"
proof (induction es arbitrary: p)
  case (Cons x es)
  then have "ev_pts x \<le> log_pts (ev_pts x) es" by simp
  with Cons.prems show ?case by simp
qed simp

lemma log_pts_last: "log_pts p es = (if es = [] then p else ev_pts (last es))"
  by (induction es arbitrary: p) auto

lemma chained_between:
  "chained p es \<Longrightarrow> e \<in> set es \<Longrightarrow> p < ev_pts e \<and> ev_pts e \<le> log_pts p es"
proof (induction es arbitrary: p)
  case (Cons x es)
  then have "ev_pts x \<le> log_pts (ev_pts x) es" by (simp add: log_pts_mono)
  with Cons show ?case by force
qed simp

lemma chained_length: "chained p es \<Longrightarrow> p + int (length es) \<le> log_pts p es"
proof (induction es arbitrary: p)
  case (Cons x es)
  then have "ev_pts x + int (length es) \<le> log_pts (ev_pts x) es" by simp
  with Cons.prems show ?case by simp
qed simp

lemma chained_sorted: "chained p es \<Longrightarrow> sorted (map ev_pts es)"
proof (induction es arbitrary: p)
  case (Cons x es)
  then show ?case using chained_between [of "ev_pts x" es] by force
qed simp

lemma chained_filter_all: "chained p es \<Longrightarrow> q \<le> p \<Longrightarrow> filter (\<lambda>e. q < ev_pts e) es = es"
  using chained_between by (fastforce intro: filter_True)

lemma chained_filter_none: "chained p es \<Longrightarrow> log_pts p es \<le> q \<Longrightarrow> filter (\<lambda>e. q < ev_pts e) es = []"
  using chained_between by (fastforce simp: filter_empty_conv)

lemma chained_max_pts:
  assumes "chained p es"
  shows "fold (\<lambda>item current. if current < ev_pts item then ev_pts item else current) es p = log_pts p es"
  using assms
proof (induction es arbitrary: p)
  case (Cons x es)
  then have "p < ev_pts x" by simp
  with Cons show ?case by simp
qed simp

text \<open>The cursors at which a client may stand: the start, or the end of an event.\<close>

definition on_boundary :: "update_event list \<Rightarrow> int \<Rightarrow> bool" where
  "on_boundary es p \<longleftrightarrow> p = 0 \<or> p \<in> ev_pts ` set es"

lemma boundary_split:
  assumes "chained 0 es" and "on_boundary es p"
  obtains xs ys where "es = xs @ ys" and "log_pts 0 xs = p"
proof (cases "p = 0")
  case True
  then show ?thesis using that [of "[]" es] by simp
next
  case False
  then obtain e where e: "e \<in> set es" "ev_pts e = p"
    using assms(2) by (auto simp: on_boundary_def)
  then obtain xs ys where "es = xs @ e # ys" by (auto simp: in_set_conv_decomp)
  then show ?thesis using that [of "xs @ [e]" ys] e by simp
qed

lemma boundary_log_pts:
  assumes "chained 0 xs"
  shows "on_boundary (xs @ ys) (log_pts 0 xs)"
  using assms by (auto simp: on_boundary_def log_pts_last)

lemma list_after_take:
  assumes "int (length out) < limit"
  shows "list_after_loop pts limit out es
    = out @ take (nat limit - length out) (filter (\<lambda>e. pts < ev_pts e) es)"
  using assms
proof (induction es arbitrary: out)
  case (Cons e es)
  show ?case
  proof (cases "ev_pts e \<le> pts")
    case False
    moreover have "nat limit - length out = Suc (nat limit - Suc (length out))"
      using Cons.prems by simp
    ultimately show ?thesis using Cons by (cases "limit \<le> int (length (out @ [e]))") auto
  qed (use Cons in simp)
qed simp

lemma next_by_start_chained_tail:
  assumes "chained p (xs @ e # ys)"
  shows "next_by_start (xs @ e # ys) (log_pts p xs) = Some (ev_pts e)"
  using assms
proof (induction ys rule: rev_induct)
  case Nil
  then show ?case by (simp add: event_count_def)
next
  case (snoc y ys)
  have ch: "chained p (xs @ e # ys)" and y: "ev_pts y = log_pts p (xs @ e # ys) + ev_pts_count y"
      "0 < ev_pts_count y"
    using snoc.prems by auto
  have "log_pts p xs < log_pts p (xs @ e # ys)"
    using ch log_pts_mono [of "ev_pts e" ys] by simp
  then have "ev_pts y - event_count y \<noteq> log_pts p xs"
    using y by (simp add: event_count_def)
  moreover have "next_by_start ((xs @ e # ys) @ [y]) (log_pts p xs) =
      ((next_by_start (xs @ e # ys))(ev_pts y - event_count y \<mapsto> ev_pts y)) (log_pts p xs)"
    by (simp only: next_by_start_snoc)
  ultimately show ?case using snoc.IH [OF ch] by simp
qed

lemma contiguous_from_chained:
  assumes "chained p (xs @ ys)"
  shows "contiguous_from (xs @ ys) (log_pts p xs) = log_pts p (xs @ ys)"
  using assms
proof (induction ys arbitrary: xs)
  case Nil
  have "next_by_start xs (log_pts p xs) = None"
  proof (rule ccontr)
    assume "next_by_start xs (log_pts p xs) \<noteq> None"
    then obtain n where "next_by_start xs (log_pts p xs) = Some n" by auto
    then have "log_pts p xs < n" "n \<in> ev_pts ` set xs" using next_by_startD by blast+
    with Nil chained_between show False by fastforce
  qed
  then show ?case by (subst contiguous_from.simps) simp
next
  case (Cons y ys)
  then have "next_by_start (xs @ y # ys) (log_pts p xs) = Some (ev_pts y)"
    by (intro next_by_start_chained_tail)
  moreover have "contiguous_from ((xs @ [y]) @ ys) (log_pts p (xs @ [y])) = log_pts p ((xs @ [y]) @ ys)"
    using Cons.prems by (intro Cons.IH) simp
  ultimately show ?case by (subst contiguous_from.simps) simp
qed

section \<open>What the service relies on\<close>

text \<open>The event as the log stores it when its last pts is \<open>p\<close>.\<close>

definition allocated :: "int \<Rightarrow> int \<Rightarrow> update_event \<Rightarrow> update_event" where
  "allocated u p e =
     e\<lparr>ev_pts_count := event_count e, ev_user := u, ev_pts := p + event_count e\<rparr>"

lemma chained_allocated [simp]: "chained p [allocated u p e]"
  by (simp add: allocated_def)

locale event_log =
  fixes ops :: "'s event_ops"
    and log :: "'s \<Rightarrow> int \<Rightarrow> update_event list"
    and wf :: "'s \<Rightarrow> bool"
  assumes log_chained: "wf s \<Longrightarrow> chained 0 (log s u)"
    and append_log: "wf s \<Longrightarrow> op_append ops u e s = (r, s') \<Longrightarrow>
      wf s' \<and> r = Inr (allocated u (log_pts 0 (log s u)) e)
      \<and> log s' = (log s)(u := log s u @ [allocated u (log_pts 0 (log s u)) e])"
    and dispatch_append: "op_append_dispatch ops = Some f \<Longrightarrow> f u e a x s = op_append ops u e s"
    and list_log: "wf s \<Longrightarrow> 0 < limit \<Longrightarrow>
      op_list_after ops u pts limit s = Inr (take (nat limit) (filter (\<lambda>e. pts < ev_pts e) (log s u)))"
    and max_log: "wf s \<Longrightarrow> op_max_contiguous ops u s = Inr (log_pts 0 (log s u))"
    and find_log: "wf s \<Longrightarrow> op_find_new_message ops = Some g \<Longrightarrow>
      g u i s = Inr (if u = 0 \<or> i \<le> 0 then None else List.find (is_new_message i) (log s u))"
    and no_retention: "op_checkpoint ops = None"

locale cursor_store =
  fixes sops :: "'s state_ops"
    and confirmed :: "'s \<Rightarrow> device \<Rightarrow> update_state option"
    and observed :: "'s \<Rightarrow> device \<Rightarrow> update_state option"
  assumes get_confirmed: "op_get sops k u s = Inr (confirmed s (k, u))"
    and save_cursor: "op_save sops k u st s = (r, s') \<Longrightarrow> r = Inr () \<and> observed s' = observed s
      \<and> confirmed s' = (confirmed s)((k, u) \<mapsto> monotonicUpdateState (zero_or (confirmed s (k, u))) st)"
    and commit_cursor: "valid_mode m \<Longrightarrow> op_commit sops k u st m s = (r, s') \<Longrightarrow> r = Inr ()
      \<and> confirmed s' = (confirmed s)((k, u) \<mapsto> monotonicUpdateState (zero_or (confirmed s (k, u))) st)
      \<and> observed s' = (if m = CommitDeliveredAndObservedBaseline
          then (observed s)((k, u) \<mapsto> monotonicUpdateState (zero_or (observed s (k, u))) st)
          else observed s)"
    and observe_cursor: "op_observe sops k u st s = (r, s') \<Longrightarrow> r = Inr () \<and> confirmed s' = confirmed s
      \<and> observed s' = (observed s)((k, u) \<mapsto> monotonicUpdateState (zero_or (observed s (k, u))) st)"
    and clear_cursor: "op_delete_auth_key sops k s = (r, s') \<Longrightarrow> r = Inr ()
      \<and> confirmed s' = (\<lambda>d. if fst d = k then None else confirmed s d)
      \<and> observed s' = (\<lambda>d. if fst d = k then None else observed s d)"

definition mem_wf :: "mem_events \<Rightarrow> bool" where
  "mem_wf s \<longleftrightarrow> (\<forall>u. chained 0 (s u))"

interpretation mem_log: event_log mem_event_ops "\<lambda>s. s" mem_wf
proof
  fix s :: mem_events and u e r s'
  assume wf: "mem_wf s" and step: "op_append mem_event_ops u e s = (r, s')"
  let ?e = "allocated u (log_pts 0 (s u)) e"
  have "chained 0 (s u)" using wf by (simp add: mem_wf_def)
  then have "mem_max_pts (s u) = log_pts 0 (s u)" by (simp add: mem_max_pts_def chained_max_pts)
  then have "r = Inr ?e" "s' = s(u := s u @ [?e])"
    using step by (simp_all add: mem_event_ops_def mem_append_allocated_def mem_append_def allocated_def Let_def)
  moreover have "mem_wf (s(u := s u @ [?e]))"
    using wf by (simp add: mem_wf_def del: chained.simps)
  ultimately show "mem_wf s' \<and> r = Inr ?e \<and> s' = s(u := s u @ [?e])" by simp
next
  fix s :: mem_events and u
  assume "mem_wf s"
  then have "chained 0 ([] @ s u)" by (simp add: mem_wf_def)
  from contiguous_from_chained [OF this]
  show "op_max_contiguous mem_event_ops u s = Inr (log_pts 0 (s u))"
    by (simp add: mem_event_ops_def mem_max_contiguous_def)
qed (auto simp: mem_wf_def mem_event_ops_def mem_append_allocated_def mem_append_dispatch_def
    mem_list_after_def list_after_take mem_find_new_message_def)

lemma mem_save_monotonic:
  "mem_save k u st s = (Inr (), s\<lparr>ms_states := (ms_states s)((k, u) \<mapsto>
     monotonicUpdateState (zero_or (ms_states s (k, u))) st)\<rparr>)"
  by (simp add: mem_save_def monotonicUpdateState_def Let_def)

interpretation mem_cursors: cursor_store mem_state_ops ms_states ms_observed
  by unfold_locales
    (auto simp: mem_state_ops_def mem_get_def mem_save_monotonic mem_commit_def mem_observe_def
      mem_delete_auth_key_def Let_def split: if_splits)

end
