(* ===== verification/Update_Service.thy ===== *)
theory Update_Service
  imports Update_Store
begin

text \<open>
  The update service (src/internal/app/updates/service.go): publication of account events, device
  cursors, and \<open>GetDifference\<close>. The service is a record of the two stores it was built with (\<open>None\<close> is
  a nil interface); \<open>now\<close> is the clock reading of the call; logging is not modelled. An operation
  returns its result with the new store states. \<open>GetDifference\<close> reads the event store up to four times
  without a lock, so it takes the four states it meets.
\<close>

record ('e, 's) update_service =
  svc_events :: "'e event_ops option"
  svc_states :: "'s state_ops option"

definition currentPts :: "('e, 's) update_service \<Rightarrow> int \<Rightarrow> 'e \<Rightarrow> int result" where
  "currentPts svc user e =
     (case svc_events svc of Some ops \<Rightarrow> op_max_contiguous ops user e | None \<Rightarrow> Inr 0)"

definition currentState :: "('e, 's) update_service \<Rightarrow> int \<Rightarrow> int \<Rightarrow> 'e \<Rightarrow> update_state result" where
  "currentState svc now user e =
     (case currentPts svc user e of
        Inl err \<Rightarrow> Inl err
      | Inr current \<Rightarrow> Inr \<lparr>us_pts = current, us_qts = 0, us_date = now, us_seq = 0\<rparr>)"

definition usesReliableDispatch :: "('e, 's) update_service \<Rightarrow> bool" where
  "usesReliableDispatch svc =
     (case svc_events svc of None \<Rightarrow> False | Some ops \<Rightarrow> op_append_dispatch ops \<noteq> None)"

definition getState ::
  "('e, 's) update_service \<Rightarrow> int \<Rightarrow> auth_key_id \<Rightarrow> int \<Rightarrow> 'e \<Rightarrow> 's \<Rightarrow> update_state result \<times> 's" where
  "getState svc now key user e s =
     (case svc_states svc of
        None \<Rightarrow>
          (case currentPts svc user e of
             Inl err \<Rightarrow> (Inl err, s)
           | Inr current \<Rightarrow> (Inr \<lparr>us_pts = current, us_qts = 0, us_date = now, us_seq = 0\<rparr>, s))
      | Some sops \<Rightarrow>
          (case op_get sops key user s of
             Inl err \<Rightarrow> (Inl err, s)
           | Inr (Some st) \<Rightarrow>
               let st = st\<lparr>us_seq := 0\<rparr>;
                   st = (if us_date st = 0 then st\<lparr>us_date := now\<rparr> else st)
               in (Inr st, s)
           | Inr None \<Rightarrow>
               (case currentPts svc user e of
                  Inl err \<Rightarrow> (Inl err, s)
                | Inr current \<Rightarrow>
                    let st = \<lparr>us_pts = current, us_qts = 0, us_date = now, us_seq = 0\<rparr> in
                    (case op_save sops key user st s of
                       (Inl err, s') \<Rightarrow> (Inl err, s')
                     | (Inr _, s') \<Rightarrow> (Inr st, s')))))"

definition confirmedState ::
  "('e, 's) update_service \<Rightarrow> auth_key_id \<Rightarrow> int \<Rightarrow> 's \<Rightarrow> (update_state \<times> bool) result" where
  "confirmedState svc key user s =
     (case svc_states svc of
        None \<Rightarrow> Inr (no_state, False)
      | Some sops \<Rightarrow>
          (case op_get sops key user s of
             Inl err \<Rightarrow> Inl err
           | Inr m \<Rightarrow> Inr ((zero_or m)\<lparr>us_seq := 0\<rparr>, m \<noteq> None)))"

definition saveConfirmedState ::
  "('e, 's) update_service \<Rightarrow> auth_key_id \<Rightarrow> int \<Rightarrow> update_state \<Rightarrow> 's \<Rightarrow> unit result \<times> 's" where
  "saveConfirmedState svc key user st s =
     (case svc_states svc of None \<Rightarrow> (Inr (), s) | Some sops \<Rightarrow> op_save sops key user (st\<lparr>us_seq := 0\<rparr>) s)"

definition observeClientState ::
  "('e, 's) update_service \<Rightarrow> auth_key_id \<Rightarrow> int \<Rightarrow> update_state \<Rightarrow> 's \<Rightarrow> unit result \<times> 's" where
  "observeClientState svc key user st s =
     (case svc_states svc of None \<Rightarrow> (Inr (), s) | Some sops \<Rightarrow> op_observe sops key user (st\<lparr>us_seq := 0\<rparr>) s)"

definition confirmEvent ::
  "('e, 's) update_service \<Rightarrow> int \<Rightarrow> auth_key_id \<Rightarrow> int \<Rightarrow> update_event \<Rightarrow> 's \<Rightarrow> unit result \<times> 's" where
  "confirmEvent svc now key user event s =
     (if ev_user event \<noteq> 0 \<and> ev_user event \<noteq> user then (Inl EventUserMismatch, s)
      else if ev_pts event \<le> 0 then (Inr (), s)
      else
        let date = (if ev_date event = 0 then now else ev_date event)
        in saveConfirmedState svc key user
             \<lparr>us_pts = ev_pts event, us_qts = 0, us_date = date, us_seq = 0\<rparr> s)"

definition clampDifferenceState :: "update_state \<Rightarrow> update_state \<Rightarrow> update_state" where
  "clampDifferenceState from current =
     (let from = (if us_pts from < 0 then from\<lparr>us_pts := 0\<rparr> else from);
          from = (if us_pts current < us_pts from then from\<lparr>us_pts := us_pts current\<rparr> else from)
      in from\<lparr>us_seq := 0\<rparr>)"

definition observeDifferenceRequest ::
  "('e, 's) update_service \<Rightarrow> int \<Rightarrow> auth_key_id \<Rightarrow> int \<Rightarrow> update_state \<Rightarrow> 'e \<Rightarrow> 's \<Rightarrow> update_state result \<times> 's" where
  "observeDifferenceRequest svc now key user from e s =
     (case currentState svc now user e of
        Inl err \<Rightarrow> (Inl err, s)
      | Inr current \<Rightarrow>
          let from = clampDifferenceState from current in
          (case observeClientState svc key user from s of
             (Inl err, s') \<Rightarrow> (Inl err, s')
           | (Inr _, s') \<Rightarrow> (Inr from, s')))"

definition commitDeliveredState ::
  "('e, 's) update_service \<Rightarrow> auth_key_id \<Rightarrow> int \<Rightarrow> update_state \<Rightarrow> commit_mode \<Rightarrow> 's \<Rightarrow> unit result \<times> 's" where
  "commitDeliveredState svc key user st mode s =
     (case svc_states svc of
        None \<Rightarrow> (Inr (), s)
      | Some sops \<Rightarrow>
          if \<not> valid_mode mode then (Inl InvalidCommitMode, s)
          else op_commit sops key user (st\<lparr>us_seq := 0\<rparr>) mode s)"

definition clearAuthKey :: "('e, 's) update_service \<Rightarrow> auth_key_id \<Rightarrow> 's \<Rightarrow> unit result \<times> 's" where
  "clearAuthKey svc key s =
     (case svc_states svc of None \<Rightarrow> (Inr (), s) | Some sops \<Rightarrow> op_delete_auth_key sops key s)"

section \<open>The difference\<close>

definition getDifferenceLimit :: nat where "getDifferenceLimit = 100"

text \<open>\<open>sort.Slice\<close> orders by pts; on distinct pts the result is unique and is that of \<open>sort_key\<close>.\<close>

fun contiguous_loop ::
  "int \<Rightarrow> update_event list \<Rightarrow> update_event list \<Rightarrow> update_event list \<times> update_event option \<times> int" where
  "contiguous_loop cursor out [] = (out, None, 0)"
| "contiguous_loop cursor out (event # rest) =
     (let expected = cursor + event_count event in
      if ev_pts event \<noteq> expected then (out, Some event, expected)
      else contiguous_loop (ev_pts event) (out @ [event]) rest)"

definition contiguousPrefixAndGap ::
  "update_event list \<Rightarrow> int \<Rightarrow> update_event list \<times> update_event option \<times> int" where
  "contiguousPrefixAndGap events from =
     (if events = [] then ([], None, 0) else contiguous_loop from [] (sort_key ev_pts events))"

definition retainedPrefixCheckpoint ::
  "('e, 's) update_service \<Rightarrow> auth_key_id \<Rightarrow> int \<Rightarrow> update_state \<Rightarrow> update_state \<Rightarrow> 'e \<Rightarrow>
     update_difference option result" where
  "retainedPrefixCheckpoint svc key user from current e =
     (case svc_events svc of
        None \<Rightarrow> Inr None
      | Some ops \<Rightarrow>
          (case op_checkpoint ops of
             None \<Rightarrow> Inr None
           | Some checkpoints \<Rightarrow>
               (case checkpoints key user e of
                  Inl err \<Rightarrow> Inl err
                | Inr None \<Rightarrow> Inr None
                | Inr (Some (pts, date)) \<Rightarrow>
                    if pts \<le> us_pts from then Inr None
                    else
                      let checkpoint = from\<lparr>us_pts := pts\<rparr>\<lparr>us_seq := 0\<rparr>;
                          checkpoint = (if 0 < date then checkpoint\<lparr>us_date := date\<rparr>
                                        else if us_date checkpoint = 0
                                        then checkpoint\<lparr>us_date := us_date current\<rparr> else checkpoint)
                      in Inr (Some \<lparr>diff_state = checkpoint, diff_events = [], diff_partial = True\<rparr>))))"

definition contiguous_difference :: "update_state \<Rightarrow> update_state \<Rightarrow> update_event list \<Rightarrow> update_difference" where
  "contiguous_difference from st contiguous =
     (let final = (if contiguous \<noteq> [] then ev_pts (last contiguous) else us_pts from);
          out = st\<lparr>us_pts := final\<rparr>\<lparr>us_seq := 0\<rparr>;
          out = (if contiguous \<noteq> [] then out\<lparr>us_date := ev_date (last contiguous)\<rparr> else out)
      in \<lparr>diff_state = out, diff_events = contiguous,
          diff_partial = (length contiguous = getDifferenceLimit)\<rparr>)"

definition getDifference ::
  "('e, 's) update_service \<Rightarrow> int \<Rightarrow> auth_key_id \<Rightarrow> int \<Rightarrow> update_state \<Rightarrow> 'e \<times> 'e \<times> 'e \<times> 'e \<Rightarrow>
     update_difference result" where
  "getDifference svc now key user from = (\<lambda>(e1, e2, e3, e4).
     (case currentState svc now user e1 of
        Inl err \<Rightarrow> Inl err
      | Inr st \<Rightarrow>
          let from = clampDifferenceState from st in
          (case retainedPrefixCheckpoint svc key user from st e2 of
             Inl err \<Rightarrow> Inl err
           | Inr (Some checkpoint) \<Rightarrow> Inr checkpoint
           | Inr None \<Rightarrow>
               (case (svc_events svc, us_pts st \<le> us_pts from) of
                  (Some ops, False) \<Rightarrow>
                    (case op_list_after ops user (us_pts from) (int getDifferenceLimit) e3 of
                       Inl err \<Rightarrow> Inl err
                     | Inr events \<Rightarrow>
                         let contiguous = fst (contiguousPrefixAndGap events (us_pts from)) in
                         if contiguous = [] \<and> us_pts from < us_pts st
                         then (case retainedPrefixCheckpoint svc key user from st e4 of
                                 Inl err \<Rightarrow> Inl err
                               | Inr (Some checkpoint) \<Rightarrow> Inr checkpoint
                               | Inr None \<Rightarrow> Inr (contiguous_difference from st contiguous))
                         else Inr (contiguous_difference from st contiguous))
                | _ \<Rightarrow>
                    let st = (if us_date from \<noteq> 0 then st\<lparr>us_date := us_date from\<rparr> else st)
                    in Inr \<lparr>diff_state = st, diff_events = [], diff_partial = False\<rparr>))))"

section \<open>Publication\<close>

type_synonym ('e, 's) published = "(update_event \<times> update_state) result \<times> 'e \<times> 's"

definition recordEventCore ::
  "('e, 's) update_service \<Rightarrow> int \<Rightarrow> auth_key_id \<Rightarrow> auth_key_id \<Rightarrow> int \<Rightarrow> update_event \<Rightarrow> bool \<Rightarrow> int \<Rightarrow> bool \<Rightarrow>
     'e \<Rightarrow> 's \<Rightarrow> ('e, 's) published" where
  "recordEventCore svc now state_key exclude_key user event dispatch exclude_session save e s =
     (let date = (if ev_date event = 0 then now else ev_date event);
          event = (if ev_pts_count event = 0 then event\<lparr>ev_pts_count := 1\<rparr> else event);
          event = event\<lparr>ev_user := user\<rparr>\<lparr>ev_date := date\<rparr>;
          st = no_state\<lparr>us_date := date\<rparr>;
          appended = (case svc_events svc of
              Some ops \<Rightarrow>
                (case (if dispatch then op_append_dispatch ops else None) of
                   Some appender \<Rightarrow> appender user event exclude_key exclude_session e
                 | None \<Rightarrow> op_append ops user event e)
            | None \<Rightarrow>
                (case currentPts svc user e of
                   Inl err \<Rightarrow> (Inl err, e)
                 | Inr current \<Rightarrow> (Inr (event\<lparr>ev_pts := current + ev_pts_count event\<rparr>), e)))
      in (case appended of
            (Inl err, e') \<Rightarrow> (Inl err, e', s)
          | (Inr event, e') \<Rightarrow>
              let st = st\<lparr>us_pts := ev_pts event\<rparr> in
              (case (if save then svc_states svc else None) of
                 None \<Rightarrow> (Inr (event, st), e', s)
               | Some sops \<Rightarrow>
                   (case op_save sops state_key user st s of
                      (Inl err, s') \<Rightarrow> (Inl err, e', s')
                    | (Inr _, s') \<Rightarrow> (Inr (event, st), e', s')))))"

definition recordEvent ::
  "('e, 's) update_service \<Rightarrow> int \<Rightarrow> auth_key_id \<Rightarrow> auth_key_id \<Rightarrow> int \<Rightarrow> update_event \<Rightarrow> bool \<Rightarrow> int \<Rightarrow>
     'e \<Rightarrow> 's \<Rightarrow> ('e, 's) published" where
  "recordEvent svc now state_key exclude_key user event dispatch exclude_session =
     recordEventCore svc now state_key exclude_key user event dispatch exclude_session True"

text \<open>The zero auth key \<open>[8]byte{}\<close>.\<close>

definition no_key :: auth_key_id where "no_key = replicate 8 0"

definition recordEventWithoutState ::
  "('e, 's) update_service \<Rightarrow> int \<Rightarrow> int \<Rightarrow> update_event \<Rightarrow> 'e \<Rightarrow> 's \<Rightarrow> ('e, 's) published" where
  "recordEventWithoutState svc now user event = recordEventCore svc now no_key no_key user event False 0 False"

end
