(* ===== verification/Update_Publish.thy ===== *)
theory Update_Publish
  imports Update_Service
begin

text \<open>
  The publishing operations of the update service (\<open>Record...\<close> and \<open>PublishNewMessage\<close> of
  src/internal/app/updates/service.go). Each builds one event and hands it to \<open>recordEventCore\<close>.
  \<open>update_publication\<close> names the operations with their arguments, so that a run of the service is a list of
  calls; \<open>publish_update\<close> dispatches to the operations.
\<close>

section \<open>Messages and stories\<close>

definition recordNewMessage ::
  "('e, 's) update_service \<Rightarrow> int \<Rightarrow> auth_key_id \<Rightarrow> int \<Rightarrow> chat_message \<Rightarrow> 'e \<Rightarrow> 's \<Rightarrow> ('e, 's) published" where
  "recordNewMessage svc now key user msg =
     (let user = (if user = 0 then msg_owner msg else user);
          date = (if msg_date msg = 0 then now else msg_date msg)
      in recordEvent svc now key no_key user
           (no_event\<lparr>ev_type := UpdateEventNewMessage, ev_date := date, ev_message := msg, ev_pts_count := 1\<rparr>)
           False 0)"

definition found_new_message ::
  "('e, 's) update_service \<Rightarrow> int \<Rightarrow> chat_message \<Rightarrow> 'e \<Rightarrow> update_event option result" where
  "found_new_message svc user msg e =
     (case svc_events svc of
        None \<Rightarrow> Inr None
      | Some ops \<Rightarrow>
          (case op_find_new_message ops of
             None \<Rightarrow> Inr None
           | Some finder \<Rightarrow> if 0 < msg_id msg then finder user (msg_id msg) e else Inr None))"

definition publishNewMessage ::
  "('e, 's) update_service \<Rightarrow> int \<Rightarrow> int \<Rightarrow> chat_message \<Rightarrow> 'e \<Rightarrow> 's \<Rightarrow> ('e, 's) published" where
  "publishNewMessage svc now user msg e s =
     (let user = (if user = 0 then msg_owner msg else user) in
      case found_new_message svc user msg e of
        Inl err \<Rightarrow> (Inl err, e, s)
      | Inr (Some event) \<Rightarrow>
          (case currentState svc now user e of
             Inl err \<Rightarrow> (Inl err, e, s)
           | Inr st \<Rightarrow> (Inr (event, st), e, s))
      | Inr None \<Rightarrow>
          let date = (if msg_date msg = 0 then now else msg_date msg)
          in recordEventCore svc now no_key no_key user
               (no_event\<lparr>ev_type := UpdateEventNewMessage, ev_date := date, ev_message := msg, ev_pts_count := 1\<rparr>)
               True 0 False e s)"

definition recordMessagePoll ::
  "('e, 's) update_service \<Rightarrow> int \<Rightarrow> int \<Rightarrow> chat_message \<Rightarrow> 'e \<Rightarrow> 's \<Rightarrow> ('e, 's) published" where
  "recordMessagePoll svc now user msg =
     (let user = (if user = 0 then msg_owner msg else user);
          date = (if msg_date msg = 0 then now else msg_date msg)
      in recordEventWithoutState svc now user
           (no_event\<lparr>ev_type := UpdateEventMessagePoll, ev_date := date, ev_message := msg,
              ev_peer := msg_peer msg, ev_pts_count := 1\<rparr>))"

definition recordStoryFanout ::
  "('e, 's) update_service \<Rightarrow> int \<Rightarrow> int \<Rightarrow> story \<Rightarrow> 'e \<Rightarrow> 's \<Rightarrow> ('e, 's) published" where
  "recordStoryFanout svc now user story e s =
     (if user = 0 then (Inl ErrStoryPeerInvalid, e, s)
      else recordEventCore svc now no_key no_key user
             (no_event\<lparr>ev_type := UpdateEventStory, ev_date := story_date story, ev_peer := story_owner story,
                ev_story := story, ev_pts_count := 1\<rparr>) True 0 False e s)"

definition recordStory ::
  "('e, 's) update_service \<Rightarrow> int \<Rightarrow> auth_key_id \<Rightarrow>
     int \<Rightarrow> story \<Rightarrow> auth_key_id \<Rightarrow> int \<Rightarrow> 'e \<Rightarrow> 's \<Rightarrow> ('e, 's) published" where
  "recordStory svc now state_key user story exclude_key exclude_session =
     (let user = (if user = 0 \<and> peer_type (story_owner story) = PeerTypeUser
                  then peer_id (story_owner story) else user)
      in recordEvent svc now state_key exclude_key user
           (no_event\<lparr>ev_type := UpdateEventStory, ev_date := story_date story, ev_peer := story_owner story,
              ev_story := story, ev_pts_count := 1\<rparr>) True exclude_session)"

definition recordReadStories ::
  "('e, 's) update_service \<Rightarrow> int \<Rightarrow> auth_key_id \<Rightarrow>
     int \<Rightarrow> story_read \<Rightarrow> auth_key_id \<Rightarrow> int \<Rightarrow> 'e \<Rightarrow> 's \<Rightarrow> ('e, 's) published" where
  "recordReadStories svc now state_key user read exclude_key exclude_session =
     (let user = (if user = 0 then sr_viewer read else user)
      in recordEvent svc now state_key exclude_key user
           (no_event\<lparr>ev_type := UpdateEventReadStories, ev_date := sr_date read, ev_peer := sr_peer read,
              ev_max_id := sr_max_read read, ev_pts_count := 1\<rparr>) True exclude_session)"

definition recordSentStoryReaction ::
  "('e, 's) update_service \<Rightarrow> int \<Rightarrow> auth_key_id \<Rightarrow>
     int \<Rightarrow> story_reaction \<Rightarrow> auth_key_id \<Rightarrow> int \<Rightarrow> 'e \<Rightarrow> 's \<Rightarrow> ('e, 's) published" where
  "recordSentStoryReaction svc now state_key user reaction exclude_key exclude_session =
     (let user = (if user = 0 then sx_viewer reaction else user)
      in recordEvent svc now state_key exclude_key user
           (no_event\<lparr>ev_type := UpdateEventSentStoryReaction, ev_date := sx_date reaction,
              ev_peer := sx_peer reaction, ev_max_id := sx_story_id reaction, ev_story := sx_story reaction,
              ev_reaction := sx_reaction reaction, ev_pts_count := 1\<rparr>) True exclude_session)"

text \<open>The owner of a story reaction: the caller's id, the story's owner or the reacted peer.\<close>

definition reaction_owner :: "int \<Rightarrow> story_reaction \<Rightarrow> int" where
  "reaction_owner owner reaction =
     (let owner = (if owner = 0 \<and> peer_type (story_owner (sx_story reaction)) = PeerTypeUser
                   then peer_id (story_owner (sx_story reaction)) else owner)
      in if owner = 0 \<and> peer_type (sx_peer reaction) = PeerTypeUser
         then peer_id (sx_peer reaction) else owner)"

definition recordNewStoryReaction ::
  "('e, 's) update_service \<Rightarrow> int \<Rightarrow> auth_key_id \<Rightarrow>
     int \<Rightarrow> story_reaction \<Rightarrow> auth_key_id \<Rightarrow> int \<Rightarrow> 'e \<Rightarrow> 's \<Rightarrow> ('e, 's) published" where
  "recordNewStoryReaction svc now state_key user reaction exclude_key exclude_session =
     (\<lambda>e s. let owner = reaction_owner user reaction in
      if owner = 0 \<or> sx_viewer reaction = 0 \<or> sx_reaction reaction = None
      then (Inl ErrStoryPeerInvalid, e, s)
      else recordEventCore svc now state_key exclude_key owner
             (no_event\<lparr>ev_type := UpdateEventNewStoryReaction, ev_date := sx_date reaction,
                ev_peer := \<lparr>peer_type = PeerTypeUser, peer_id = sx_viewer reaction\<rparr>,
                ev_max_id := sx_story_id reaction, ev_story := sx_story reaction,
                ev_reaction := sx_reaction reaction, ev_pts_count := 1\<rparr>) True exclude_session False e s)"

fun quick_reply_event :: "quick_reply_kind \<Rightarrow> update_event_type" where
  "quick_reply_event QuickReplyNew = UpdateEventNewQuickReply"
| "quick_reply_event QuickReplyDelete = UpdateEventDeleteQuickReply"
| "quick_reply_event QuickReplyMessage = UpdateEventQuickReplyMessage"
| "quick_reply_event QuickReplyIDs = UpdateEventDeleteQuickReplyMessages"
| "quick_reply_event QuickReplyList = UpdateEventQuickReplies"
| "quick_reply_event QuickReplyOther = UpdateEventQuickReplies"

definition recordQuickReplyMutation ::
  "('e, 's) update_service \<Rightarrow> int \<Rightarrow> auth_key_id \<Rightarrow>
     int \<Rightarrow> quick_reply_mutation \<Rightarrow> auth_key_id \<Rightarrow> int \<Rightarrow> 'e \<Rightarrow> 's \<Rightarrow> ('e, 's) published" where
  "recordQuickReplyMutation svc now state_key user mutation exclude_key exclude_session =
     (let user = (if user = 0 then qm_owner mutation else user);
          event = no_event\<lparr>ev_date := qm_date mutation, ev_pts_count := 1,
            ev_quick_replies := qm_replies mutation, ev_quick_reply := qm_reply mutation,
            ev_quick_reply_message := qm_message mutation, ev_message_ids := qm_message_ids mutation,
            ev_max_id := qm_shortcut mutation\<rparr>
      in recordEvent svc now state_key exclude_key user
           (event\<lparr>ev_type := quick_reply_event (qm_kind mutation)\<rparr>) True exclude_session)"

definition recordReadHistory ::
  "('e, 's) update_service \<Rightarrow> int \<Rightarrow> auth_key_id \<Rightarrow>
     int \<Rightarrow> read_history \<Rightarrow> auth_key_id \<Rightarrow> int \<Rightarrow> 'e \<Rightarrow> 's \<Rightarrow> ('e, 's) published" where
  "recordReadHistory svc now state_key user read exclude_key exclude_session =
     (let user = (if user = 0 then rh_owner read else user)
      in recordEvent svc now state_key exclude_key user
           (no_event\<lparr>ev_type := UpdateEventReadHistoryInbox, ev_date := now, ev_peer := rh_peer read,
              ev_max_id := rh_max_id read, ev_still_unread := rh_still_unread read,
              ev_channel_pts := rh_channel_pts read, ev_pts_count := 1\<rparr>) True exclude_session)"

definition recordUserEmojiStatus ::
  "('e, 's) update_service \<Rightarrow> int \<Rightarrow> auth_key_id \<Rightarrow>
     int \<Rightarrow> emoji_status \<Rightarrow> auth_key_id \<Rightarrow> int \<Rightarrow> 'e \<Rightarrow> 's \<Rightarrow> ('e, 's) published" where
  "recordUserEmojiStatus svc now state_key user status exclude_key exclude_session =
     (\<lambda>e s. if \<not> emoji_valid status then (Inl ErrStarGiftCollectibleInvalid, e, s)
      else recordEvent svc now state_key exclude_key user
             (no_event\<lparr>ev_type := UpdateEventUserEmojiStatus,
                ev_peer := \<lparr>peer_type = PeerTypeUser, peer_id = user\<rparr>, ev_emoji := status,
                ev_pts_count := 1\<rparr>) True exclude_session e s)"

section \<open>Account settings and dialogs\<close>

definition recordChannelState ::
  "('e, 's) update_service \<Rightarrow> int \<Rightarrow> auth_key_id \<Rightarrow>
     int \<Rightarrow> int \<Rightarrow> auth_key_id \<Rightarrow> int \<Rightarrow> 'e \<Rightarrow> 's \<Rightarrow> ('e, 's) published" where
  "recordChannelState svc now state_key user channel exclude_key exclude_session =
     recordEvent svc now state_key exclude_key user
       (no_event\<lparr>ev_type := UpdateEventChannelState, ev_peer := \<lparr>peer_type = PeerTypeChannel, peer_id = channel\<rparr>, ev_pts_count := 1\<rparr>) True exclude_session"

definition recordContactsReset ::
  "('e, 's) update_service \<Rightarrow> int \<Rightarrow> auth_key_id \<Rightarrow>
     int \<Rightarrow> auth_key_id \<Rightarrow> int \<Rightarrow> 'e \<Rightarrow> 's \<Rightarrow> ('e, 's) published" where
  "recordContactsReset svc now state_key user exclude_key exclude_session =
     recordEvent svc now state_key exclude_key user
       (no_event\<lparr>ev_type := UpdateEventContactsReset, ev_pts_count := 1\<rparr>) True exclude_session"

definition recordDraftMessage ::
  "('e, 's) update_service \<Rightarrow> int \<Rightarrow> auth_key_id \<Rightarrow>
     int \<Rightarrow> peer \<Rightarrow> int \<Rightarrow> auth_key_id \<Rightarrow> int \<Rightarrow> 'e \<Rightarrow> 's \<Rightarrow> ('e, 's) published" where
  "recordDraftMessage svc now state_key user peer top_msg exclude_key exclude_session =
     recordEvent svc now state_key exclude_key user
       (no_event\<lparr>ev_type := UpdateEventDraftMessage, ev_peer := peer, ev_max_id := top_msg, ev_pts_count := 1\<rparr>) True exclude_session"

definition recordDialogPinned ::
  "('e, 's) update_service \<Rightarrow> int \<Rightarrow> auth_key_id \<Rightarrow>
     int \<Rightarrow> peer \<Rightarrow> bool \<Rightarrow> int \<Rightarrow> auth_key_id \<Rightarrow> int \<Rightarrow> 'e \<Rightarrow> 's \<Rightarrow> ('e, 's) published" where
  "recordDialogPinned svc now state_key user peer pinned folder exclude_key exclude_session =
     recordEvent svc now state_key exclude_key user
       (no_event\<lparr>ev_type := UpdateEventDialogPinned, ev_peer := peer, ev_bool := pinned, ev_folder_id := folder, ev_pts_count := 1\<rparr>) True exclude_session"

definition recordPinnedDialogs ::
  "('e, 's) update_service \<Rightarrow> int \<Rightarrow> auth_key_id \<Rightarrow>
     int \<Rightarrow> int \<Rightarrow> peer list \<Rightarrow> auth_key_id \<Rightarrow> int \<Rightarrow> 'e \<Rightarrow> 's \<Rightarrow> ('e, 's) published" where
  "recordPinnedDialogs svc now state_key user folder order exclude_key exclude_session =
     recordEvent svc now state_key exclude_key user
       (no_event\<lparr>ev_type := UpdateEventPinnedDialogs, ev_peers := order, ev_folder_id := folder, ev_pts_count := 1\<rparr>) True exclude_session"

definition recordSavedDialogPinned ::
  "('e, 's) update_service \<Rightarrow> int \<Rightarrow> auth_key_id \<Rightarrow>
     int \<Rightarrow> peer \<Rightarrow> bool \<Rightarrow> auth_key_id \<Rightarrow> int \<Rightarrow> 'e \<Rightarrow> 's \<Rightarrow> ('e, 's) published" where
  "recordSavedDialogPinned svc now state_key user peer pinned exclude_key exclude_session =
     recordEvent svc now state_key exclude_key user
       (no_event\<lparr>ev_type := UpdateEventSavedDialogPinned, ev_peer := peer, ev_bool := pinned, ev_pts_count := 1\<rparr>) True exclude_session"

definition recordPinnedSavedDialogs ::
  "('e, 's) update_service \<Rightarrow> int \<Rightarrow> auth_key_id \<Rightarrow>
     int \<Rightarrow> peer list \<Rightarrow> auth_key_id \<Rightarrow> int \<Rightarrow> 'e \<Rightarrow> 's \<Rightarrow> ('e, 's) published" where
  "recordPinnedSavedDialogs svc now state_key user order exclude_key exclude_session =
     recordEvent svc now state_key exclude_key user
       (no_event\<lparr>ev_type := UpdateEventPinnedSavedDialogs, ev_peers := order, ev_pts_count := 1\<rparr>) True exclude_session"

definition recordDialogUnreadMark ::
  "('e, 's) update_service \<Rightarrow> int \<Rightarrow> auth_key_id \<Rightarrow>
     int \<Rightarrow> peer \<Rightarrow> bool \<Rightarrow> auth_key_id \<Rightarrow> int \<Rightarrow> 'e \<Rightarrow> 's \<Rightarrow> ('e, 's) published" where
  "recordDialogUnreadMark svc now state_key user peer unread exclude_key exclude_session =
     recordEvent svc now state_key exclude_key user
       (no_event\<lparr>ev_type := UpdateEventDialogUnreadMark, ev_peer := peer, ev_bool := unread, ev_pts_count := 1\<rparr>) True exclude_session"

definition recordChannelViewForumAsMessages ::
  "('e, 's) update_service \<Rightarrow> int \<Rightarrow> auth_key_id \<Rightarrow>
     int \<Rightarrow> int \<Rightarrow> bool \<Rightarrow> auth_key_id \<Rightarrow> int \<Rightarrow> 'e \<Rightarrow> 's \<Rightarrow> ('e, 's) published" where
  "recordChannelViewForumAsMessages svc now state_key user channel enabled exclude_key exclude_session =
     recordEvent svc now state_key exclude_key user
       (no_event\<lparr>ev_type := UpdateEventChannelViewForum,
          ev_peer := \<lparr>peer_type = PeerTypeChannel, peer_id = channel\<rparr>, ev_bool := enabled, ev_pts_count := 1\<rparr>) True exclude_session"

definition recordChannelDiscussionInbox ::
  "('e, 's) update_service \<Rightarrow> int \<Rightarrow> auth_key_id \<Rightarrow>
     int \<Rightarrow> int \<Rightarrow> int \<Rightarrow> int \<Rightarrow> auth_key_id \<Rightarrow> int \<Rightarrow> 'e \<Rightarrow> 's \<Rightarrow> ('e, 's) published" where
  "recordChannelDiscussionInbox svc now state_key user channel topic max_id exclude_key exclude_session =
     recordEvent svc now state_key exclude_key user
       (no_event\<lparr>ev_type := UpdateEventReadChannelDiscussionInbox,
          ev_peer := \<lparr>peer_type = PeerTypeChannel, peer_id = channel\<rparr>, ev_top_msg := topic, ev_max_id := max_id, ev_pts_count := 1\<rparr>) True exclude_session"

definition recordPeerSettings ::
  "('e, 's) update_service \<Rightarrow> int \<Rightarrow> auth_key_id \<Rightarrow>
     int \<Rightarrow> peer \<Rightarrow> opaque \<Rightarrow> auth_key_id \<Rightarrow> int \<Rightarrow> 'e \<Rightarrow> 's \<Rightarrow> ('e, 's) published" where
  "recordPeerSettings svc now state_key user peer settings exclude_key exclude_session =
     recordEvent svc now state_key exclude_key user
       (no_event\<lparr>ev_type := UpdateEventPeerSettings, ev_peer := peer, ev_settings := settings, ev_pts_count := 1\<rparr>) True exclude_session"

definition recordPeerStoryBlocked ::
  "('e, 's) update_service \<Rightarrow> int \<Rightarrow> auth_key_id \<Rightarrow>
     int \<Rightarrow> peer \<Rightarrow> bool \<Rightarrow> auth_key_id \<Rightarrow> int \<Rightarrow> 'e \<Rightarrow> 's \<Rightarrow> ('e, 's) published" where
  "recordPeerStoryBlocked svc now state_key user peer blocked exclude_key exclude_session =
     recordEvent svc now state_key exclude_key user
       (no_event\<lparr>ev_type := UpdateEventPeerStoryBlocked, ev_peer := peer, ev_bool := blocked, ev_pts_count := 1\<rparr>) True exclude_session"

definition recordDialogFilter ::
  "('e, 's) update_service \<Rightarrow> int \<Rightarrow> auth_key_id \<Rightarrow>
     int \<Rightarrow> int \<Rightarrow> opaque option \<Rightarrow> auth_key_id \<Rightarrow> int \<Rightarrow> 'e \<Rightarrow> 's \<Rightarrow> ('e, 's) published" where
  "recordDialogFilter svc now state_key user folder_id folder exclude_key exclude_session =
     recordEvent svc now state_key exclude_key user
       (no_event\<lparr>ev_type := UpdateEventDialogFilter, ev_filter_id := folder_id, ev_dialog_filter := folder, ev_pts_count := 1\<rparr>) True exclude_session"

definition recordDialogFilterOrder ::
  "('e, 's) update_service \<Rightarrow> int \<Rightarrow> auth_key_id \<Rightarrow>
     int \<Rightarrow> int list \<Rightarrow> auth_key_id \<Rightarrow> int \<Rightarrow> 'e \<Rightarrow> 's \<Rightarrow> ('e, 's) published" where
  "recordDialogFilterOrder svc now state_key user order exclude_key exclude_session =
     recordEvent svc now state_key exclude_key user
       (no_event\<lparr>ev_type := UpdateEventDialogFilterOrder, ev_filter_order := order, ev_pts_count := 1\<rparr>) True exclude_session"

definition recordDialogFiltersReload ::
  "('e, 's) update_service \<Rightarrow> int \<Rightarrow> auth_key_id \<Rightarrow>
     int \<Rightarrow> auth_key_id \<Rightarrow> int \<Rightarrow> 'e \<Rightarrow> 's \<Rightarrow> ('e, 's) published" where
  "recordDialogFiltersReload svc now state_key user exclude_key exclude_session =
     recordEvent svc now state_key exclude_key user
       (no_event\<lparr>ev_type := UpdateEventDialogFilters, ev_pts_count := 1\<rparr>) True exclude_session"

definition recordFolderPeers ::
  "('e, 's) update_service \<Rightarrow> int \<Rightarrow> auth_key_id \<Rightarrow>
     int \<Rightarrow> (peer \<times> int) list \<Rightarrow> auth_key_id \<Rightarrow> int \<Rightarrow> 'e \<Rightarrow> 's \<Rightarrow> ('e, 's) published" where
  "recordFolderPeers svc now state_key user peers exclude_key exclude_session =
     recordEvent svc now state_key exclude_key user
       (no_event\<lparr>ev_type := UpdateEventFolderPeers, ev_folder_peers := peers, ev_pts_count := 1\<rparr>) True exclude_session"

section \<open>All publications\<close>

datatype update_publication =
    PubNewMessage chat_message | PubMessage chat_message | PubMessagePoll chat_message | PubStoryFanout story
  | PubStory story | PubReadStories story_read | PubSentStoryReaction story_reaction
  | PubNewStoryReaction story_reaction | PubQuickReplyMutation quick_reply_mutation
  | PubReadHistory read_history | PubUserEmojiStatus emoji_status | PubChannelState int
  | PubContactsReset | PubDraftMessage peer int | PubDialogPinned peer bool int
  | PubPinnedDialogs int "peer list" | PubSavedDialogPinned peer bool
  | PubPinnedSavedDialogs "peer list" | PubDialogUnreadMark peer bool
  | PubChannelViewForumAsMessages int bool | PubChannelDiscussionInbox int int int
  | PubPeerSettings peer opaque | PubPeerStoryBlocked peer bool
  | PubDialogFilter int "opaque option" | PubDialogFilterOrder "int list"
  | PubDialogFiltersReload | PubFolderPeers "(peer \<times> int) list"

fun publish_update ::
  "('e, 's) update_service \<Rightarrow> int \<Rightarrow> auth_key_id \<Rightarrow> int \<Rightarrow> auth_key_id \<Rightarrow> int \<Rightarrow> update_publication \<Rightarrow>
     'e \<Rightarrow> 's \<Rightarrow> ('e, 's) published" where
  "publish_update svc now state_key user xk xs (PubNewMessage x) = recordNewMessage svc now state_key user x"
| "publish_update svc now state_key user xk xs (PubMessage x) = publishNewMessage svc now user x"
| "publish_update svc now state_key user xk xs (PubMessagePoll x) = recordMessagePoll svc now user x"
| "publish_update svc now state_key user xk xs (PubStoryFanout x) = recordStoryFanout svc now user x"
| "publish_update svc now state_key user xk xs (PubStory x) =
     recordStory svc now state_key user x xk xs"
| "publish_update svc now state_key user xk xs (PubReadStories x) =
     recordReadStories svc now state_key user x xk xs"
| "publish_update svc now state_key user xk xs (PubSentStoryReaction x) =
     recordSentStoryReaction svc now state_key user x xk xs"
| "publish_update svc now state_key user xk xs (PubNewStoryReaction x) =
     recordNewStoryReaction svc now state_key user x xk xs"
| "publish_update svc now state_key user xk xs (PubQuickReplyMutation x) =
     recordQuickReplyMutation svc now state_key user x xk xs"
| "publish_update svc now state_key user xk xs (PubReadHistory x) =
     recordReadHistory svc now state_key user x xk xs"
| "publish_update svc now state_key user xk xs (PubUserEmojiStatus x) =
     recordUserEmojiStatus svc now state_key user x xk xs"
| "publish_update svc now state_key user xk xs (PubChannelState x) =
     recordChannelState svc now state_key user x xk xs"
| "publish_update svc now state_key user xk xs PubContactsReset =
     recordContactsReset svc now state_key user xk xs"
| "publish_update svc now state_key user xk xs (PubDraftMessage x y) =
     recordDraftMessage svc now state_key user x y xk xs"
| "publish_update svc now state_key user xk xs (PubDialogPinned x y z) =
     recordDialogPinned svc now state_key user x y z xk xs"
| "publish_update svc now state_key user xk xs (PubPinnedDialogs x y) =
     recordPinnedDialogs svc now state_key user x y xk xs"
| "publish_update svc now state_key user xk xs (PubSavedDialogPinned x y) =
     recordSavedDialogPinned svc now state_key user x y xk xs"
| "publish_update svc now state_key user xk xs (PubPinnedSavedDialogs x) =
     recordPinnedSavedDialogs svc now state_key user x xk xs"
| "publish_update svc now state_key user xk xs (PubDialogUnreadMark x y) =
     recordDialogUnreadMark svc now state_key user x y xk xs"
| "publish_update svc now state_key user xk xs (PubChannelViewForumAsMessages x y) =
     recordChannelViewForumAsMessages svc now state_key user x y xk xs"
| "publish_update svc now state_key user xk xs (PubChannelDiscussionInbox x y z) =
     recordChannelDiscussionInbox svc now state_key user x y z xk xs"
| "publish_update svc now state_key user xk xs (PubPeerSettings x y) =
     recordPeerSettings svc now state_key user x y xk xs"
| "publish_update svc now state_key user xk xs (PubPeerStoryBlocked x y) =
     recordPeerStoryBlocked svc now state_key user x y xk xs"
| "publish_update svc now state_key user xk xs (PubDialogFilter x y) =
     recordDialogFilter svc now state_key user x y xk xs"
| "publish_update svc now state_key user xk xs (PubDialogFilterOrder x) =
     recordDialogFilterOrder svc now state_key user x xk xs"
| "publish_update svc now state_key user xk xs PubDialogFiltersReload =
     recordDialogFiltersReload svc now state_key user xk xs"
| "publish_update svc now state_key user xk xs (PubFolderPeers x) =
     recordFolderPeers svc now state_key user x xk xs"

fun publication_type :: "update_publication \<Rightarrow> update_event_type" where
  "publication_type (PubNewMessage _) = UpdateEventNewMessage"
| "publication_type (PubMessage _) = UpdateEventNewMessage"
| "publication_type (PubMessagePoll _) = UpdateEventMessagePoll"
| "publication_type (PubStoryFanout _) = UpdateEventStory"
| "publication_type (PubStory _) = UpdateEventStory"
| "publication_type (PubReadStories _) = UpdateEventReadStories"
| "publication_type (PubSentStoryReaction _) = UpdateEventSentStoryReaction"
| "publication_type (PubNewStoryReaction _) = UpdateEventNewStoryReaction"
| "publication_type (PubQuickReplyMutation x) = quick_reply_event (qm_kind x)"
| "publication_type (PubReadHistory _) = UpdateEventReadHistoryInbox"
| "publication_type (PubUserEmojiStatus _) = UpdateEventUserEmojiStatus"
| "publication_type (PubChannelState _) = UpdateEventChannelState"
| "publication_type PubContactsReset = UpdateEventContactsReset"
| "publication_type (PubDraftMessage _ _) = UpdateEventDraftMessage"
| "publication_type (PubDialogPinned _ _ _) = UpdateEventDialogPinned"
| "publication_type (PubPinnedDialogs _ _) = UpdateEventPinnedDialogs"
| "publication_type (PubSavedDialogPinned _ _) = UpdateEventSavedDialogPinned"
| "publication_type (PubPinnedSavedDialogs _) = UpdateEventPinnedSavedDialogs"
| "publication_type (PubDialogUnreadMark _ _) = UpdateEventDialogUnreadMark"
| "publication_type (PubChannelViewForumAsMessages _ _) = UpdateEventChannelViewForum"
| "publication_type (PubChannelDiscussionInbox _ _ _) = UpdateEventReadChannelDiscussionInbox"
| "publication_type (PubPeerSettings _ _) = UpdateEventPeerSettings"
| "publication_type (PubPeerStoryBlocked _ _) = UpdateEventPeerStoryBlocked"
| "publication_type (PubDialogFilter _ _) = UpdateEventDialogFilter"
| "publication_type (PubDialogFilterOrder _) = UpdateEventDialogFilterOrder"
| "publication_type PubDialogFiltersReload = UpdateEventDialogFilters"
| "publication_type (PubFolderPeers _) = UpdateEventFolderPeers"

text \<open>The account a publication belongs to: most operations fall back on the owner named in their
  argument when called with user 0.\<close>

fun publication_user :: "int \<Rightarrow> update_publication \<Rightarrow> int" where
  "publication_user user (PubNewMessage x) = (if user = 0 then msg_owner x else user)"
| "publication_user user (PubMessage x) = (if user = 0 then msg_owner x else user)"
| "publication_user user (PubMessagePoll x) = (if user = 0 then msg_owner x else user)"
| "publication_user user (PubStory x) = (if user = 0 \<and> peer_type (story_owner x) = PeerTypeUser
     then peer_id (story_owner x) else user)"
| "publication_user user (PubReadStories x) = (if user = 0 then sr_viewer x else user)"
| "publication_user user (PubSentStoryReaction x) = (if user = 0 then sx_viewer x else user)"
| "publication_user user (PubNewStoryReaction x) = reaction_owner user x"
| "publication_user user (PubQuickReplyMutation x) = (if user = 0 then qm_owner x else user)"
| "publication_user user (PubReadHistory x) = (if user = 0 then rh_owner x else user)"
| "publication_user user p = user"

text \<open>The arguments the service refuses.\<close>

fun publication_error :: "int \<Rightarrow> update_publication \<Rightarrow> update_error option" where
  "publication_error user (PubStoryFanout x) = (if user = 0 then Some ErrStoryPeerInvalid else None)"
| "publication_error user (PubNewStoryReaction x) =
     (if reaction_owner user x = 0 \<or> sx_viewer x = 0 \<or> sx_reaction x = None
      then Some ErrStoryPeerInvalid else None)"
| "publication_error user (PubUserEmojiStatus x) =
     (if emoji_valid x then None else Some ErrStarGiftCollectibleInvalid)"
| "publication_error user p = None"

text \<open>The publications that also confirm the event for the device that caused it.\<close>

fun publication_confirms :: "update_publication \<Rightarrow> bool" where
  "publication_confirms (PubMessage _) = False"
| "publication_confirms (PubMessagePoll _) = False"
| "publication_confirms (PubStoryFanout _) = False"
| "publication_confirms (PubNewStoryReaction _) = False"
| "publication_confirms _ = True"

end
