(* ===== verification/Update_Machine.thy ===== *)
theory Update_Machine
  imports Update_Publish "HOL-Library.Sublist"
begin

text \<open>
  Runs of the update service. A world holds the two stores, the states the event store went through
  (a call that reads without a lock may see any earlier one) and the cursors the service has issued to
  each device. \<open>update_step\<close> is one call; \<open>call_ok\<close> states what the callers keep to: a delivered cursor
  that is committed carries a pts the service issued to that device (the RPC layer fills in qts and date
  of its own), and a confirmed event is one already in the log. \<open>follow_difference\<close> is a client that
  asks for differences until one is not partial. The locale \<open>account_updates\<close> proves what holds over any
  two stores with the contracts of \<^emph>\<open>Update_Store\<close>.
\<close>

definition full_service :: "'e event_ops \<Rightarrow> 's state_ops \<Rightarrow> ('e, 's) update_service" where
  "full_service ops sops = \<lparr>svc_events = Some ops, svc_states = Some sops\<rparr>"

lemma full_service_sel [simp]:
  "svc_events (full_service ops sops) = Some ops"
  "svc_states (full_service ops sops) = Some sops"
  by (simp_all add: full_service_def)

definition mem_service :: "(mem_events, mem_states) update_service" where
  "mem_service = full_service mem_event_ops mem_state_ops"

fun follow_difference ::
  "('e, 's) update_service \<Rightarrow> int \<Rightarrow> auth_key_id \<Rightarrow> int \<Rightarrow> ('e \<times> 'e \<times> 'e \<times> 'e) list \<Rightarrow> update_state \<Rightarrow>
     (update_event list \<times> update_state \<times> bool) result" where
  "follow_difference svc now key user [] from = Inr ([], from, False)"
| "follow_difference svc now key user (r # rs) from =
     (case getDifference svc now key user from r of
        Inl err \<Rightarrow> Inl err
      | Inr d \<Rightarrow>
          if diff_partial d
          then (case follow_difference svc now key user rs (diff_state d) of
                  Inl err \<Rightarrow> Inl err
                | Inr (events, st, finished) \<Rightarrow> Inr (diff_events d @ events, st, finished))
          else Inr (diff_events d, diff_state d, True))"

text \<open>The reads of the pages in order, and a log that only grows from read to read.\<close>

fun all_reads :: "('e \<times> 'e \<times> 'e \<times> 'e) list \<Rightarrow> 'e list" where
  "all_reads [] = []"
| "all_reads ((a, b, c, d) # rs) = a # b # c # d # all_reads rs"

definition grows :: "('e \<Rightarrow> int \<Rightarrow> update_event list) \<Rightarrow> int \<Rightarrow> 'e list \<Rightarrow> bool" where
  "grows log u es \<longleftrightarrow> sorted_wrt (\<lambda>a b. prefix (log a u) (log b u)) es"

datatype update_call =
    CallPublish auth_key_id int auth_key_id int update_publication
  | CallGetState auth_key_id int nat
  | CallCurrentState auth_key_id int nat
  | CallObserve auth_key_id int update_state nat
  | CallDifference auth_key_id int update_state nat nat nat nat
  | CallCommit auth_key_id int update_state commit_mode
  | CallConfirm auth_key_id int update_event
  | CallClear auth_key_id

record ('e, 's) update_world =
  w_events :: 'e
  w_states :: 's
  w_history :: "'e list"
  w_issued :: "(auth_key_id \<times> int \<times> int) list"

definition init_world :: "'e \<Rightarrow> 's \<Rightarrow> ('e, 's) update_world" where
  "init_world e s = \<lparr>w_events = e, w_states = s, w_history = [e], w_issued = []\<rparr>"

definition issue :: "auth_key_id \<Rightarrow> int \<Rightarrow> update_state result \<Rightarrow> ('e, 's) update_world \<Rightarrow> ('e, 's) update_world" where
  "issue key user r w =
     (case r of Inl _ \<Rightarrow> w | Inr st \<Rightarrow> w\<lparr>w_issued := w_issued w @ [(key, user, us_pts st)]\<rparr>)"

fun update_step :: "('e, 's) update_service \<Rightarrow> int \<Rightarrow> update_call \<Rightarrow> ('e, 's) update_world \<Rightarrow> ('e, 's) update_world" where
  "update_step svc now (CallPublish sk user xk xs p) w =
     (case publish_update svc now sk user xk xs p (w_events w) (w_states w) of
        (r, e', s') \<Rightarrow> w\<lparr>w_events := e', w_states := s', w_history := w_history w @ [e']\<rparr>)"
| "update_step svc now (CallGetState key user i) w =
     (case getState svc now key user (w_history w ! i) (w_states w) of
        (r, s') \<Rightarrow> issue key user r (w\<lparr>w_states := s'\<rparr>))"
| "update_step svc now (CallCurrentState key user i) w =
     issue key user (currentState svc now user (w_history w ! i)) w"
| "update_step svc now (CallObserve key user from i) w =
     (case observeDifferenceRequest svc now key user from (w_history w ! i) (w_states w) of
        (r, s') \<Rightarrow> issue key user r (w\<lparr>w_states := s'\<rparr>))"
| "update_step svc now (CallDifference key user from i j k l) w =
     issue key user
       (map_sum id diff_state (getDifference svc now key user from
          (w_history w ! i, w_history w ! j, w_history w ! k, w_history w ! l))) w"
| "update_step svc now (CallCommit key user st mode) w =
     w\<lparr>w_states := snd (commitDeliveredState svc key user st mode (w_states w))\<rparr>"
| "update_step svc now (CallConfirm key user event) w =
     w\<lparr>w_states := snd (confirmEvent svc now key user event (w_states w))\<rparr>"
| "update_step svc now (CallClear key) w = w\<lparr>w_states := snd (clearAuthKey svc key (w_states w))\<rparr>"

fun call_ok :: "('e, 's) update_service \<Rightarrow> ('e, 's) update_world \<Rightarrow> update_call \<Rightarrow> bool" where
  "call_ok svc w (CallPublish _ _ _ _ _) \<longleftrightarrow> True"
| "call_ok svc w (CallGetState _ _ i) \<longleftrightarrow> i < length (w_history w)"
| "call_ok svc w (CallCurrentState _ _ i) \<longleftrightarrow> i < length (w_history w)"
| "call_ok svc w (CallObserve _ _ _ i) \<longleftrightarrow> i < length (w_history w)"
| "call_ok svc w (CallDifference _ _ _ i j k l) \<longleftrightarrow> i \<le> j \<and> j \<le> k \<and> k \<le> l \<and> l < length (w_history w)"
| "call_ok svc w (CallCommit key user st _) \<longleftrightarrow> (key, user, us_pts st) \<in> set (w_issued w)"
| "call_ok svc w (CallConfirm key user event) \<longleftrightarrow>
     (case currentPts svc user (w_events w) of Inl _ \<Rightarrow> False | Inr p \<Rightarrow> ev_pts event \<le> p)"
| "call_ok svc w (CallClear _) \<longleftrightarrow> True"

inductive update_reachable :: "('e, 's) update_service \<Rightarrow> 'e \<Rightarrow> 's \<Rightarrow> ('e, 's) update_world \<Rightarrow> bool"
  for svc e s where
  reach_init: "update_reachable svc e s (init_world e s)"
| reach_step: "update_reachable svc e s w \<Longrightarrow> call_ok svc w c \<Longrightarrow>
    update_reachable svc e s (update_step svc now c w)"

fun clears :: "update_call \<Rightarrow> auth_key_id \<Rightarrow> bool" where
  "clears (CallClear k) key \<longleftrightarrow> k = key"
| "clears _ key \<longleftrightarrow> False"

definition state_le :: "update_state \<Rightarrow> update_state \<Rightarrow> bool" where
  "state_le a b \<longleftrightarrow> us_pts a \<le> us_pts b \<and> us_qts a \<le> us_qts b \<and> us_date a \<le> us_date b \<and> us_seq a \<le> us_seq b"

definition cursor_le :: "update_state option \<Rightarrow> update_state option \<Rightarrow> bool" where
  "cursor_le a b \<longleftrightarrow> (case a of None \<Rightarrow> True | Some x \<Rightarrow> (case b of None \<Rightarrow> False | Some y \<Rightarrow> state_le x y))"

lemma state_le_refl [simp]: "state_le a a"
  by (simp add: state_le_def)

lemma cursor_le_refl [simp]: "cursor_le a a"
  by (simp add: cursor_le_def split: option.split)

lemma monotonic_components [simp]:
  "us_pts (monotonicUpdateState a b) = max (us_pts a) (us_pts b)"
  "us_qts (monotonicUpdateState a b) = max (us_qts a) (us_qts b)"
  "us_date (monotonicUpdateState a b) = max (us_date a) (us_date b)"
  "us_seq (monotonicUpdateState a b) = max (us_seq a) (us_seq b)"
  by (simp_all add: monotonicUpdateState_def Let_def)

lemma cursor_le_monotonic [simp]: "cursor_le a (Some (monotonicUpdateState (zero_or a) b))"
  by (simp add: cursor_le_def state_le_def zero_or_def split: option.split)

lemma pts_clampDifferenceState [simp]:
  "us_pts (clampDifferenceState from current) = min (us_pts current) (max 0 (us_pts from))"
  if "0 \<le> us_pts current"
  using that by (simp add: clampDifferenceState_def Let_def)

section \<open>Contiguous runs of a chained log\<close>

lemma contiguous_loop_chained:
  "chained p es \<Longrightarrow> contiguous_loop p out es = (out @ es, None, 0)"
  by (induction es arbitrary: p out) (auto simp: event_count_def)

lemma contiguousPrefix_chained:
  assumes "chained p es"
  shows "contiguousPrefixAndGap es p = (es, None, 0)"
  using assms contiguous_loop_chained [of p es "[]"]
  by (simp add: contiguousPrefixAndGap_def chained_sorted sorted_sort_id sort_key_id_if_sorted)

text \<open>The events between two cursors.\<close>

definition events_between :: "int \<Rightarrow> int \<Rightarrow> update_event list \<Rightarrow> update_event list" where
  "events_between p q es = filter (\<lambda>e. p < ev_pts e \<and> ev_pts e \<le> q) es"

lemma events_between_middle:
  assumes "chained 0 (xs @ ys @ zs)"
  shows "events_between (log_pts 0 xs) (log_pts 0 (xs @ ys)) (xs @ ys @ zs) = ys"
proof -
  have xs: "ev_pts e \<le> log_pts 0 xs" if "e \<in> set xs" for e
    using assms chained_between that by fastforce
  have ys: "log_pts 0 xs < ev_pts e \<and> ev_pts e \<le> log_pts (log_pts 0 xs) ys" if "e \<in> set ys" for e
    using assms chained_between that by fastforce
  have zs: "log_pts (log_pts 0 xs) ys < ev_pts e" if "e \<in> set zs" for e
    using assms chained_between that by fastforce
  have "filter (\<lambda>e. log_pts 0 xs < ev_pts e \<and> ev_pts e \<le> log_pts (log_pts 0 xs) ys) xs = []"
    using xs by (fastforce simp: filter_empty_conv)
  moreover have "filter (\<lambda>e. log_pts 0 xs < ev_pts e \<and> ev_pts e \<le> log_pts (log_pts 0 xs) ys) ys = ys"
    using ys by (simp add: filter_id_conv)
  moreover have "filter (\<lambda>e. log_pts 0 xs < ev_pts e \<and> ev_pts e \<le> log_pts (log_pts 0 xs) ys) zs = []"
    using zs by (fastforce simp: filter_empty_conv)
  ultimately show ?thesis by (simp add: events_between_def)
qed

lemma events_between_same [simp]: "events_between p p es = []"
  by (auto simp: events_between_def filter_empty_conv)

lemma events_between_join:
  assumes "chained c es" and "p \<le> q" and "q \<le> r"
  shows "events_between p q es @ events_between q r es = events_between p r es"
  using assms(1)
proof (induction es arbitrary: c)
  case (Cons x es)
  have ih: "events_between p q es @ events_between q r es = events_between p r es"
    using Cons.prems Cons.IH [of "c + ev_pts_count x"] by simp
  have "events_between p q es = []" if "q < ev_pts x"
    using Cons.prems that chained_between [of "ev_pts x" es]
    by (fastforce simp: events_between_def filter_empty_conv)
  with ih show ?case using assms(2,3) by (auto simp: events_between_def)
qed (simp add: events_between_def)

end
