(* ===== verification/Update_Facts.thy ===== *)
theory Update_Facts
  imports Update_Machine
begin

text \<open>
  What the update service promises over any two stores that keep the contracts of \<^emph>\<open>Update_Store\<close>,
  proved once in the locale \<open>account_updates\<close>: every publication appends one event, every page of
  a difference is a contiguous piece of the log, and device cursors advance without passing the log.
  The interpretation \<open>mem\<close> is the service over the in-memory stores.
\<close>

lemma find_SomeD: "List.find P xs = Some x \<Longrightarrow> x \<in> set xs \<and> P x"
  by (induction xs) (auto split: if_splits)

text \<open>Each publication that is not refused and not a repeated message is one \<open>recordEventCore\<close>.\<close>

definition is_core ::
  "('e, 's) update_service \<Rightarrow> int \<Rightarrow> auth_key_id \<Rightarrow> int \<Rightarrow> update_publication \<Rightarrow>
     ('e \<Rightarrow> 's \<Rightarrow> ('e, 's) published) \<Rightarrow> bool" where
  "is_core svc now sk user p f \<longleftrightarrow> (\<exists>ev d xk xs sk'.
     f = recordEventCore svc now sk' xk (publication_user user p) ev d xs (publication_confirms p)
     \<and> ev_type ev = publication_type p \<and> ev_pts_count ev = 1 \<and> (publication_confirms p \<longrightarrow> sk' = sk))"

lemma is_coreI:
  assumes "f = recordEventCore svc now sk' xk u ev d xs c"
    and "u = publication_user user p" and "c = publication_confirms p"
    and "ev_type ev = publication_type p" and "ev_pts_count ev = 1"
    and "publication_confirms p \<Longrightarrow> sk' = sk"
  shows "is_core svc now sk user p f"
  using assms unfolding is_core_def by blast

lemmas record_unfold = recordEvent_def recordEventWithoutState_def recordNewMessage_def
  recordMessagePoll_def recordStory_def recordReadStories_def
  recordSentStoryReaction_def recordQuickReplyMutation_def
  recordReadHistory_def recordChannelState_def recordContactsReset_def
  recordDraftMessage_def recordDialogPinned_def recordPinnedDialogs_def
  recordSavedDialogPinned_def recordPinnedSavedDialogs_def recordDialogUnreadMark_def
  recordChannelViewForumAsMessages_def recordChannelDiscussionInbox_def recordPeerSettings_def
  recordPeerStoryBlocked_def recordDialogFilter_def recordDialogFilterOrder_def
  recordDialogFiltersReload_def recordFolderPeers_def

lemma publish_core:
  assumes "publication_error user p = None" and "\<forall>m. p \<noteq> PubMessage m"
  shows "is_core svc now sk user p (publish_update svc now sk user xk xs p)"
proof (cases p)
  case (PubMessage m)
  with assms(2) show ?thesis by blast
next
  case (PubStoryFanout x)
  with assms(1) have "user \<noteq> 0" by (simp split: if_splits)
  then show ?thesis unfolding PubStoryFanout publish_update.simps recordStoryFanout_def
    by (intro is_coreI [OF ext [OF ext [OF if_not_P]]]) simp_all
next
  case (PubNewStoryReaction x)
  with assms(1) have "\<not> (reaction_owner user x = 0 \<or> sx_viewer x = 0 \<or> sx_reaction x = None)"
    by (simp split: if_splits)
  then show ?thesis unfolding PubNewStoryReaction publish_update.simps recordNewStoryReaction_def Let_def
    by (intro is_coreI [OF ext [OF ext [OF if_not_P]]]) simp_all
next
  case (PubUserEmojiStatus x)
  with assms(1) have "\<not> \<not> emoji_valid x" by (simp split: if_splits)
  then show ?thesis unfolding PubUserEmojiStatus publish_update.simps recordUserEmojiStatus_def recordEvent_def
    by (intro is_coreI [OF ext [OF ext [OF if_not_P]]]) simp_all
qed (simp only: publish_update.simps record_unfold Let_def, rule is_coreI [OF refl], simp_all)+

lemma publish_refused:
  assumes "publication_error user p = Some err"
  shows "publish_update svc now sk user xk xs p e s = (Inl err, e, s)"
  using assms
  by (cases p) (auto simp: recordStoryFanout_def recordNewStoryReaction_def recordUserEmojiStatus_def
      Let_def split: if_splits)

locale account_updates = event_log ops log wf + cursor_store sops confirmed observed
  for ops :: "'e event_ops" and log wf
    and sops :: "'s state_ops" and confirmed observed
begin

lemma current_pts: "wf e \<Longrightarrow> currentPts (full_service ops sops) u e = Inr (log_pts 0 (log e u))"
  by (simp add: currentPts_def max_log)

lemma current_state: "wf e \<Longrightarrow> currentState (full_service ops sops) now u e =
    Inr \<lparr>us_pts = log_pts 0 (log e u), us_qts = 0, us_date = now, us_seq = 0\<rparr>"
  by (simp add: currentState_def current_pts)

lemma log_pts_nonneg: "wf e \<Longrightarrow> 0 \<le> log_pts 0 (log e u)"
  using log_chained log_pts_mono by blast

lemma record_core:
  assumes "wf e"
    and "recordEventCore (full_service ops sops) now sk xk u ev d xs save e s = (r, e', s')"
  obtains ev' st where "r = Inr (ev', st)" and "us_pts st = ev_pts ev'" and "wf e'"
    and "log e' = (log e)(u := log e u @ [ev'])"
    and "ev_type ev' = ev_type ev" and "ev_user ev' = u"
    and "ev_pts_count ev = 1 \<Longrightarrow> ev_pts ev' = log_pts 0 (log e u) + 1"
    and "observed s' = observed s"
    and "confirmed s' = (if save then (confirmed s)((sk, u) \<mapsto>
           monotonicUpdateState (zero_or (confirmed s (sk, u))) st) else confirmed s)"
proof -
  define date where "date = (if ev_date ev = 0 then now else ev_date ev)"
  define ev1 where "ev1 = (if ev_pts_count ev = 0 then ev\<lparr>ev_pts_count := 1\<rparr> else ev)\<lparr>ev_user := u\<rparr>\<lparr>ev_date := date\<rparr>"
  define ev' where "ev' = allocated u (log_pts 0 (log e u)) ev1"
  define st where "st = no_state\<lparr>us_date := date\<rparr>\<lparr>us_pts := ev_pts ev'\<rparr>"
  obtain r1 e1 where app: "op_append ops u ev1 e = (r1, e1)" by fastforce
  from append_log [OF assms(1) this]
  have e1: "wf e1" "r1 = Inr ev'" "log e1 = (log e)(u := log e u @ [ev'])" by (simp_all add: ev'_def)
  have "(case (if d then op_append_dispatch ops else None) of
           Some appender \<Rightarrow> appender u ev1 xk xs e | None \<Rightarrow> op_append ops u ev1 e) = (Inr ev', e1)"
    using app e1 by (auto split: option.split simp: dispatch_append)
  then have core: "recordEventCore (full_service ops sops) now sk xk u ev d xs save e s =
      (case (if save then Some sops else None) of
         None \<Rightarrow> (Inr (ev', st), e1, s)
       | Some so \<Rightarrow> (case op_save so sk u st s of
                      (Inl err, s') \<Rightarrow> (Inl err, e1, s')
                    | (Inr _, s') \<Rightarrow> (Inr (ev', st), e1, s')))"
    unfolding recordEventCore_def Let_def full_service_sel date_def ev1_def st_def by simp
  obtain r2 s2 where sv: "op_save sops sk u st s = (r2, s2)" by fastforce
  from save_cursor [OF this]
  have out: "r = Inr (ev', st)" "e' = e1" "observed s' = observed s"
      "confirmed s' = (if save then (confirmed s)((sk, u) \<mapsto>
           monotonicUpdateState (zero_or (confirmed s (sk, u))) st) else confirmed s)"
    using assms(2) core sv by (auto split: if_splits)
  show ?thesis
    by (rule that [of ev' st])
      (use out e1 in \<open>auto simp: ev'_def ev1_def st_def allocated_def event_count_def\<close>)
qed

lemma found_message:
  assumes "wf e"
  shows "found_new_message (full_service ops sops) u m e =
    Inr (if op_find_new_message ops = None \<or> u = 0 \<or> msg_id m \<le> 0 then None
         else List.find (is_new_message (msg_id m)) (log e u))"
  using assms by (auto simp: found_new_message_def find_log split: option.split)

text \<open>The outcome of a publication, on every branch.\<close>

lemma publish_cases:
  assumes "wf e" and "publish_update (full_service ops sops) now sk user xk xs p e s = (r, e', s')"
  obtains
    (refused) err where "publication_error user p = Some err" "r = Inl err" "e' = e" "s' = s"
  | (repeated) m ev st where "p = PubMessage m" "r = Inr (ev, st)" "e' = e" "s' = s"
      "ev \<in> set (log e (publication_user user p))" "is_new_message (msg_id m) ev"
      "publication_user user p \<noteq> 0" "0 < msg_id m" "publication_error user p = None"
  | (appended) ev st where "publication_error user p = None" "r = Inr (ev, st)" "wf e'"
      "us_pts st = ev_pts ev" "ev_type ev = publication_type p" "ev_user ev = publication_user user p"
      "ev_pts ev = log_pts 0 (log e (publication_user user p)) + 1"
      "log e' = (log e)(publication_user user p := log e (publication_user user p) @ [ev])"
      "observed s' = observed s"
      "confirmed s' = (if publication_confirms p then (confirmed s)((sk, publication_user user p) \<mapsto>
         monotonicUpdateState (zero_or (confirmed s (sk, publication_user user p))) st) else confirmed s)"
      "\<forall>m. p = PubMessage m \<longrightarrow> op_find_new_message ops = None \<or> publication_user user p = 0 \<or> msg_id m \<le> 0
         \<or> (\<forall>x\<in>set (log e (publication_user user p)). \<not> is_new_message (msg_id m) x)"
proof (cases "publication_error user p")
  case (Some err)
  have "(Inl err, e, s) = (r, e', s')"
    using publish_refused [OF Some, of "full_service ops sops" now sk xk xs e s] assms(2) by simp
  then show ?thesis using refused [OF Some] by simp
next
  case None
  show ?thesis
  proof (cases "\<exists>m. p = PubMessage m")
    case False
    then obtain ev d xk' xs' sk' where core: "publish_update (full_service ops sops) now sk user xk xs p =
        recordEventCore (full_service ops sops) now sk' xk' (publication_user user p) ev d xs' (publication_confirms p)"
      "ev_type ev = publication_type p" "ev_pts_count ev = 1" "publication_confirms p \<longrightarrow> sk' = sk"
      using publish_core [OF None, of "full_service ops sops" now sk xk xs] unfolding is_core_def by blast
    show ?thesis
      by (rule record_core [OF assms(1) assms(2) [unfolded core(1)]])
        (rule appended, use None False core in auto)
  next
    case True
    then obtain m where p: "p = PubMessage m" by blast
    let ?u = "publication_user user p"
    let ?ev = "no_event\<lparr>ev_type := UpdateEventNewMessage,
        ev_date := (if msg_date m = 0 then now else msg_date m), ev_message := m, ev_pts_count := 1\<rparr>"
    show ?thesis
    proof (cases "found_new_message (full_service ops sops) ?u m e")
      case (Inl a)
      then show ?thesis using found_message [OF assms(1)] by simp
    next
      case (Inr found)
      show ?thesis
      proof (cases found)
        case (Some x)
        have "List.find (is_new_message (msg_id m)) (log e ?u) = Some x" "?u \<noteq> 0" "0 < msg_id m"
          using found_message [OF assms(1), of ?u m] Inr Some by (auto split: if_splits)
        moreover from this(1) have "x \<in> set (log e ?u)" "is_new_message (msg_id m) x"
          by (auto dest: find_SomeD)
        moreover note None
        ultimately show ?thesis using Inr Some assms p
          by (intro repeated) (auto simp: publishNewMessage_def Let_def current_state)
      next
        case fnd: None
        have absent: "op_find_new_message ops = None \<or> ?u = 0 \<or> msg_id m \<le> 0
            \<or> (\<forall>x\<in>set (log e ?u). \<not> is_new_message (msg_id m) x)"
          using found_message [OF assms(1), of ?u m] Inr fnd by (auto simp: find_None_iff2 split: if_splits)
        have rec: "recordEventCore (full_service ops sops) now no_key no_key ?u ?ev True 0 False e s = (r, e', s')"
          using assms(2) p Inr fnd by (simp add: publishNewMessage_def Let_def)
        show ?thesis
          by (rule record_core [OF assms(1) rec]) (rule appended, use None absent p in auto)
      qed
    qed
  qed
qed

section \<open>Pages of a difference\<close>

lemma no_checkpoint: "retainedPrefixCheckpoint (full_service ops sops) k u from st e = Inr None"
  by (simp add: retainedPrefixCheckpoint_def no_retention)

text \<open>A page from a cursor \<open>p\<close> at an event boundary: the next events of the log, at most 100, and the
  cursor behind them.\<close>

lemma difference_page:
  assumes wf: "wf e1" "wf e3" and grow: "prefix (log e1 u) (log e3 u)"
    and p: "p = min (log_pts 0 (log e1 u)) (max 0 (us_pts from))" "on_boundary (log e1 u) p"
  obtains d xs ys zs where "getDifference (full_service ops sops) now k u from (e1, e2, e3, e4) = Inr d"
    and "log e3 u = xs @ ys @ zs" and "log_pts 0 xs = p" and "diff_events d = ys"
    and "us_pts (diff_state d) = log_pts 0 (xs @ ys)"
    and "diff_partial d \<longleftrightarrow> length ys = 100"
    and "\<not> diff_partial d \<longrightarrow> log_pts 0 (log e1 u) \<le> log_pts 0 (xs @ ys)"
proof -
  let ?svc = "full_service ops sops" and ?c1 = "log_pts 0 (log e1 u)"
  let ?st = "\<lparr>us_pts = ?c1, us_qts = 0, us_date = now, us_seq = 0\<rparr>"
  let ?from = "clampDifferenceState from ?st"
  have ch: "chained 0 (log e3 u)" using log_chained wf(2) by blast
  have from_pts: "us_pts ?from = p" using p(1) log_pts_nonneg [OF wf(1)] by simp
  have "on_boundary (log e3 u) p"
    using p(2) grow by (auto simp: on_boundary_def prefix_def)
  then obtain xs rest where split: "log e3 u = xs @ rest" "log_pts 0 xs = p"
    using boundary_split [OF ch] by blast
  show ?thesis
  proof (cases "?c1 \<le> p")
    case True
    with p(1) have "p = ?c1" by simp
    let ?d = "\<lparr>diff_state = (if us_date ?from \<noteq> 0 then ?st\<lparr>us_date := us_date ?from\<rparr> else ?st),
        diff_events = [], diff_partial = False\<rparr>"
    have "getDifference ?svc now k u from (e1, e2, e3, e4) = Inr ?d"
      using True from_pts
      by (simp add: getDifference_def current_state wf no_checkpoint Let_def)
    then show ?thesis
      by (rule that [of _ xs "[]" rest]) (use split \<open>p = ?c1\<close> in simp_all)
  next
    case False
    let ?ys = "take 100 rest"
    have rest: "chained p rest" and xs: "chained 0 xs" using ch split by auto
    have "op_list_after ops u p (int getDifferenceLimit) e3 = Inr ?ys"
      using list_log [OF wf(2), of "int getDifferenceLimit" u p] split
        chained_filter_none [OF xs, of p] chained_filter_all [OF rest, of p]
      by (simp add: getDifferenceLimit_def)
    moreover have "chained p ?ys"
      using rest chained_append [of p ?ys "drop 100 rest"] by simp
    then have "contiguousPrefixAndGap ?ys p = (?ys, None, 0)" by (rule contiguousPrefix_chained)
    ultimately have d: "getDifference ?svc now k u from (e1, e2, e3, e4)
        = Inr (contiguous_difference ?from ?st ?ys)"
      using False from_pts
      by (simp add: getDifference_def current_state wf no_checkpoint Let_def)
    have "us_pts (diff_state (contiguous_difference ?from ?st ?ys)) = log_pts 0 (xs @ ?ys)"
      using split from_pts log_pts_last [of p ?ys] by (simp add: contiguous_difference_def Let_def)
    moreover have "log e3 u = xs @ ?ys @ drop 100 rest" using split by simp
    moreover have "?c1 \<le> log_pts 0 (xs @ ?ys)" if "length ?ys \<noteq> 100"
    proof -
      have "?ys = rest" using that by (simp add: min_def split: if_splits)
      moreover obtain more where "log e3 u = log e1 u @ more" using grow by (auto simp: prefix_def)
      ultimately show ?thesis using split ch log_pts_mono by auto
    qed
    moreover have "diff_events (contiguous_difference ?from ?st ?ys) = ?ys"
        "diff_partial (contiguous_difference ?from ?st ?ys) \<longleftrightarrow> length ?ys = 100"
      by (simp_all add: contiguous_difference_def Let_def getDifferenceLimit_def)
    ultimately show ?thesis using d split(2) by (intro that [of _ xs ?ys "drop 100 rest"]) blast+
  qed
qed

lemma prefix_log_pts:
  assumes "wf b" and "prefix (log a u) (log b u)"
  shows "log_pts 0 (log a u) \<le> log_pts 0 (log b u)"
proof -
  obtain more where more: "log b u = log a u @ more" using assms(2) by (auto simp: prefix_def)
  then have "chained (log_pts 0 (log a u)) more" using log_chained [OF assms(1), of u] by simp
  from log_pts_mono [OF this] show ?thesis using more by simp
qed

text \<open>Following the difference from a cursor at an event boundary, with other calls between and inside
  the pages: what arrives is exactly the events up to the cursor reached, and enough pages finish.\<close>

lemma follow_pages:
  assumes "\<forall>e\<in>set (all_reads rs @ [final]). wf e" and "grows log u (all_reads rs @ [final])"
    and "on_boundary (log (hd (all_reads rs @ [final])) u) (us_pts from)"
    and "us_pts from \<le> log_pts 0 (log (hd (all_reads rs @ [final])) u)" and "0 \<le> us_pts from"
  shows "\<exists>evs st fin. follow_difference (full_service ops sops) now k u rs from = Inr (evs, st, fin)
    \<and> us_pts from \<le> us_pts st \<and> us_pts st \<le> log_pts 0 (log final u)
    \<and> evs = events_between (us_pts from) (us_pts st) (log final u)
    \<and> (fin \<longrightarrow> log_pts 0 (log (hd (all_reads rs @ [final])) u) \<le> us_pts st)
    \<and> (log_pts 0 (log final u) - us_pts from < int (length rs) \<longrightarrow> fin)"
  using assms
proof (induction rs arbitrary: "from")
  case Nil
  then show ?case by (auto intro: exI [of _ False])
next
  case (Cons r rs)
  obtain a b c d where r: "r = (a, b, c, d)" by (cases r) auto
  let ?h = "hd (all_reads rs @ [final])"
  have h: "?h \<in> set (all_reads rs @ [final])" by (cases rs rule: all_reads.cases) auto
  have wf: "wf a" "wf c" "wf final" "wf ?h" using Cons.prems(1) h r by auto
  have pre: "prefix (log a u) (log c u)" "prefix (log c u) (log final u)" "prefix (log a u) (log ?h u)"
      "prefix (log c u) (log ?h u)"
    using Cons.prems(2) h r unfolding grows_def by auto
  have p: "us_pts from = min (log_pts 0 (log a u)) (max 0 (us_pts from))"
    using Cons.prems(4,5) r by simp
  obtain D xs ys zs where page: "getDifference (full_service ops sops) now k u from (a, b, c, d) = Inr D"
      "log c u = xs @ ys @ zs" "log_pts 0 xs = us_pts from" "diff_events D = ys"
      "us_pts (diff_state D) = log_pts 0 (xs @ ys)" "diff_partial D \<longleftrightarrow> length ys = 100"
      "\<not> diff_partial D \<longrightarrow> log_pts 0 (log a u) \<le> log_pts 0 (xs @ ys)"
    using difference_page [OF wf(1,2) pre(1) p] Cons.prems(3) r by (metis all_reads.simps(2) append_Cons list.sel(1))
  let ?q = "log_pts 0 (xs @ ys)"
  obtain more where fin_log: "log final u = xs @ ys @ zs @ more"
    using pre(2) page(2) by (auto simp: prefix_def)
  have ch: "chained 0 (xs @ ys @ zs @ more)" using log_chained [OF wf(3), of u] fin_log by simp
  have mid: "events_between (us_pts from) ?q (log final u) = ys"
    using events_between_middle [of xs ys "zs @ more"] ch page(3) fin_log by simp
  have q: "us_pts from + int (length ys) \<le> ?q" "?q \<le> log_pts 0 (log final u)"
    using ch page(3) chained_length [of "us_pts from" ys] log_pts_mono [of ?q "zs @ more"] fin_log by auto
  show ?case
  proof (cases "diff_partial D")
    case False
    then show ?thesis using page mid q r by (auto simp: Let_def)
  next
    case True
    obtain rest where "log ?h u = xs @ ys @ rest"
      using pre(4) page(2) by (auto simp: prefix_def)
    then have bound: "on_boundary (log ?h u) ?q" "?q \<le> log_pts 0 (log ?h u)"
      using boundary_log_pts [of "xs @ ys" rest] log_chained [OF wf(4), of u] log_pts_mono [of ?q rest]
      by auto
    have "\<forall>e\<in>set (all_reads rs @ [final]). wf e" "grows log u (all_reads rs @ [final])"
      using Cons.prems(1,2) r by (auto simp: grows_def)
    from Cons.IH [of "diff_state D", OF this] bound q Cons.prems(5) page(5)
    obtain evs st fin where ih:
        "follow_difference (full_service ops sops) now k u rs (diff_state D) = Inr (evs, st, fin)"
        "?q \<le> us_pts st" "us_pts st \<le> log_pts 0 (log final u)"
        "evs = events_between ?q (us_pts st) (log final u)"
        "fin \<longrightarrow> log_pts 0 (log ?h u) \<le> us_pts st"
        "log_pts 0 (log final u) - ?q < int (length rs) \<longrightarrow> fin"
      by auto
    have "events_between (us_pts from) (us_pts st) (log final u) = ys @ evs"
      using events_between_join [of 0 "log final u" "us_pts from" ?q "us_pts st"] mid ih(2,4) q ch fin_log by simp
    moreover have "log_pts 0 (log a u) \<le> log_pts 0 (log ?h u)"
      using prefix_log_pts [OF wf(4) pre(3)] .
    ultimately show ?thesis using True ih page q r by (auto simp: Let_def)
  qed
qed

section \<open>Device cursors\<close>

definition top :: "'e \<Rightarrow> int \<Rightarrow> int" where "top e u = log_pts 0 (log e u)"

definition cursors_below :: "'e \<Rightarrow> (device \<Rightarrow> update_state option) \<Rightarrow> bool" where
  "cursors_below e cs \<longleftrightarrow> (\<forall>d st. cs d = Some st \<longrightarrow> us_pts st \<le> top e (snd d))"

definition world_inv :: "('e, 's) update_world \<Rightarrow> bool" where
  "world_inv w \<longleftrightarrow> wf (w_events w)
     \<and> (\<forall>e\<in>set (w_history w). wf e \<and> (\<forall>u. prefix (log e u) (log (w_events w) u)))
     \<and> (\<forall>u. grows log u (w_history w))
     \<and> cursors_below (w_events w) (confirmed (w_states w)) \<and> cursors_below (w_events w) (observed (w_states w))
     \<and> (\<forall>(k, u, p)\<in>set (w_issued w). p \<le> top (w_events w) u)"

lemma history_top:
  assumes "world_inv w" and "i < length (w_history w)"
  shows "wf (w_history w ! i)" and "top (w_history w ! i) u \<le> top (w_events w) u"
proof -
  have "w_history w ! i \<in> set (w_history w)" using assms(2) by simp
  with assms(1) show "wf (w_history w ! i)" by (simp add: world_inv_def)
  from \<open>w_history w ! i \<in> set (w_history w)\<close> assms(1)
  show "top (w_history w ! i) u \<le> top (w_events w) u"
    unfolding world_inv_def top_def by (auto intro: prefix_log_pts)
qed

lemma below_advance:
  assumes "wf e" and "cursors_below e cs" and "us_pts st \<le> top e u"
  shows "cursors_below e (cs((k, u) \<mapsto> monotonicUpdateState (zero_or (cs (k, u))) st))"
proof -
  have "us_pts (zero_or (cs (k, u))) \<le> top e u"
    using assms(1,2) log_pts_nonneg [of e u]
    by (fastforce simp: cursors_below_def zero_or_def top_def no_state_def split: option.split)
  with assms show ?thesis by (auto simp: cursors_below_def)
qed

lemma below_cleared: "cursors_below e cs \<Longrightarrow> cursors_below e (\<lambda>d. if fst d = k then None else cs d)"
  by (auto simp: cursors_below_def)

text \<open>A step that touches only the cursors of the world, or only what was issued.\<close>

lemma inv_states:
  assumes "world_inv w" and "cursors_below (w_events w) (confirmed s')" and "cursors_below (w_events w) (observed s')"
  shows "world_inv (w\<lparr>w_states := s'\<rparr>)"
  using assms by (simp add: world_inv_def)

lemma inv_issue:
  assumes "world_inv w" and "\<And>st. r = Inr st \<Longrightarrow> us_pts st \<le> top (w_events w) u"
  shows "world_inv (issue k u r w)"
  using assms by (auto simp: world_inv_def issue_def split: sum.split)

lemma set_contiguous_loop: "set (fst (contiguous_loop c out es)) \<subseteq> set out \<union> set es"
proof (induction es arbitrary: c out)
  case (Cons a es)
  show ?case using Cons.IH [of "ev_pts a" "out @ [a]"] by (auto simp: Let_def)
qed simp

lemma difference_below:
  assumes "wf e1" and "wf e3" and "getDifference (full_service ops sops) now k u from (e1, e2, e3, e4) = Inr d"
  shows "us_pts (diff_state d) \<le> max (top e1 u) (top e3 u)"
proof -
  let ?st = "\<lparr>us_pts = top e1 u, us_qts = 0, us_date = now, us_seq = 0\<rparr>"
  let ?from = "clampDifferenceState from ?st"
  have p: "us_pts ?from \<le> top e1 u" using log_pts_nonneg [OF assms(1)] by (simp add: top_def)
  show ?thesis
  proof (cases "top e1 u \<le> us_pts ?from")
    case True
    then show ?thesis using assms p
      by (auto simp: getDifference_def current_state no_checkpoint Let_def top_def)
  next
    case False
    define es where "es = take 100 (filter (\<lambda>e. us_pts ?from < ev_pts e) (log e3 u))"
    define ys where "ys = fst (contiguousPrefixAndGap es (us_pts ?from))"
    have "set ys \<subseteq> set (log e3 u)"
      using set_contiguous_loop [of "us_pts ?from" "[]" "sort_key ev_pts es"]
      by (auto simp: ys_def contiguousPrefixAndGap_def es_def dest!: in_set_takeD split: if_splits)
    then have ys: "ys \<noteq> [] \<Longrightarrow> ev_pts (last ys) \<le> top e3 u"
      using chained_between [OF log_chained [OF assms(2), of u]] last_in_set [of ys] unfolding top_def by blast
    have "op_list_after ops u (us_pts ?from) (int getDifferenceLimit) e3 = Inr es"
      using list_log [OF assms(2), of "int getDifferenceLimit" u "us_pts ?from"]
      by (simp add: es_def getDifferenceLimit_def)
    then have "d = contiguous_difference ?from ?st ys"
      using assms(1,3) False
      by (auto simp: getDifference_def current_state no_checkpoint Let_def top_def ys_def split: if_splits)
    with ys p show ?thesis by (auto simp: contiguous_difference_def Let_def)
  qed
qed

text \<open>What every call does to the logs and the cursors.\<close>

definition call_advances :: "update_call \<Rightarrow> ('e, 's) update_world \<Rightarrow> ('e, 's) update_world \<Rightarrow> bool" where
  "call_advances c w w' \<longleftrightarrow> (\<forall>u. prefix (log (w_events w) u) (log (w_events w') u))
     \<and> (\<forall>d. \<not> clears c (fst d) \<longrightarrow> cursor_le (confirmed (w_states w) d) (confirmed (w_states w') d)
          \<and> cursor_le (observed (w_states w) d) (observed (w_states w') d))"

lemma publish_step:
  assumes inv: "world_inv w"
  shows "world_inv (update_step (full_service ops sops) now (CallPublish sk user xk xs p) w)
    \<and> call_advances (CallPublish sk user xk xs p) w
        (update_step (full_service ops sops) now (CallPublish sk user xk xs p) w)"
proof -
  obtain r e' s' where pub: "publish_update (full_service ops sops) now sk user xk xs p (w_events w) (w_states w)
      = (r, e', s')" by (metis prod_cases3)
  have wf: "wf (w_events w)" using inv by (simp add: world_inv_def)
  let ?w = "w\<lparr>w_events := e', w_states := s', w_history := w_history w @ [e']\<rparr>"
  from wf pub have "world_inv ?w \<and> call_advances (CallPublish sk user xk xs p) w ?w"
  proof (cases rule: publish_cases)
    case refused
    then show ?thesis using inv by (auto simp: world_inv_def call_advances_def grows_def sorted_wrt_append)
  next
    case repeated
    then show ?thesis using inv by (auto simp: world_inv_def call_advances_def grows_def sorted_wrt_append)
  next
    case (appended ev st)
    let ?u = "publication_user user p"
    have pre: "prefix (log (w_events w) u) (log e' u)" for u
      using appended(8) by (simp add: prefix_def)
    have le: "top (w_events w) u \<le> top e' u" for u
      unfolding top_def by (rule prefix_log_pts [OF appended(3) pre])
    have grow: "cursors_below e' cs" if "cursors_below (w_events w) cs" for cs
      using that le unfolding cursors_below_def by (meson order_trans)
    have "us_pts st \<le> top e' ?u" using appended(4,8) by (simp add: top_def)
    then have "cursors_below e' (confirmed s')"
      using appended(3,10) grow below_advance inv by (simp add: world_inv_def)
    moreover have "prefix (log e u) (log e' u)" if "e \<in> set (w_history w)" for e u
      using that inv pre prefix_order.order_trans unfolding world_inv_def by blast
    moreover have "\<forall>(k, u, q)\<in>set (w_issued w). q \<le> top e' u"
      using inv le unfolding world_inv_def by (fastforce intro: order_trans)
    moreover have "grows log u (w_history w @ [e'])" for u
      using calculation(2) inv by (simp add: world_inv_def grows_def sorted_wrt_append)
    ultimately have "world_inv ?w"
      using inv appended(3,9) grow by (auto simp: world_inv_def)
    then show ?thesis using pre appended(9,10) by (auto simp: call_advances_def)
  qed
  then show ?thesis using pub by simp
qed

text \<open>The cursor operations keep or advance one device's cursors.\<close>

lemma getState_effect:
  assumes "wf e" and "getState (full_service ops sops) now k u e s = (r, s')"
  obtains st where "r = Inr st" and "observed s' = observed s"
    and "(confirmed s (k, u) = None \<and> us_pts st = top e u
           \<and> confirmed s' = (confirmed s)((k, u) \<mapsto> monotonicUpdateState (zero_or (confirmed s (k, u))) st))
       \<or> (\<exists>st0. confirmed s (k, u) = Some st0 \<and> us_pts st = us_pts st0 \<and> confirmed s' = confirmed s)"
proof (cases "confirmed s (k, u)")
  case None
  let ?st = "\<lparr>us_pts = top e u, us_qts = 0, us_date = now, us_seq = 0\<rparr>"
  obtain r1 s1 where sv: "op_save sops k u ?st s = (r1, s1)" by fastforce
  note eff = save_cursor [OF sv]
  have "r = Inr ?st" "s' = s1"
    using assms None sv eff
    by (auto simp: getState_def get_confirmed current_pts top_def Let_def)
  then show ?thesis using that [of ?st] None eff by simp
next
  case (Some st0)
  then show ?thesis
    using assms that by (fastforce simp: getState_def get_confirmed Let_def split: if_splits)
qed

lemma observe_effect:
  assumes "wf e" and "observeDifferenceRequest (full_service ops sops) now k u from e s = (r, s')"
  obtains st where "r = Inr st" and "us_pts st \<le> top e u" and "confirmed s' = confirmed s"
    and "observed s' = (observed s)((k, u) \<mapsto>
           monotonicUpdateState (zero_or (observed s (k, u))) (st\<lparr>us_seq := 0\<rparr>))"
proof -
  let ?st = "clampDifferenceState from \<lparr>us_pts = top e u, us_qts = 0, us_date = now, us_seq = 0\<rparr>"
  obtain r1 s1 where ob: "op_observe sops k u (?st\<lparr>us_seq := 0\<rparr>) s = (r1, s1)" by fastforce
  note eff = observe_cursor [OF ob]
  have "r = Inr ?st" "s' = s1"
    using assms ob eff
    by (auto simp: observeDifferenceRequest_def observeClientState_def current_state top_def Let_def)
  moreover have "us_pts ?st \<le> top e u" using log_pts_nonneg [OF assms(1)] by (simp add: top_def)
  ultimately show ?thesis using that [of ?st] eff by simp
qed

lemma commit_effect:
  assumes "commitDeliveredState (full_service ops sops) k u st m s = (r, s')"
  obtains (invalid) "\<not> valid_mode m" "r = Inl InvalidCommitMode" "s' = s"
  | (committed) "valid_mode m" "r = Inr ()"
      "confirmed s' = (confirmed s)((k, u) \<mapsto>
         monotonicUpdateState (zero_or (confirmed s (k, u))) (st\<lparr>us_seq := 0\<rparr>))"
      "observed s' = (if m = CommitDeliveredAndObservedBaseline
         then (observed s)((k, u) \<mapsto> monotonicUpdateState (zero_or (observed s (k, u))) (st\<lparr>us_seq := 0\<rparr>))
         else observed s)"
proof (cases "valid_mode m")
  case True
  with assms have "op_commit sops k u (st\<lparr>us_seq := 0\<rparr>) m s = (r, s')"
    by (simp add: commitDeliveredState_def)
  from commit_cursor [OF True this] show ?thesis using committed True by blast
next
  case False
  with assms show ?thesis using invalid by (simp add: commitDeliveredState_def)
qed

lemma confirm_effect:
  assumes "confirmEvent (full_service ops sops) now k u ev s = (r, s')"
  obtains (same) "s' = s"
  | (saved) st where "us_pts st = ev_pts ev" "observed s' = observed s"
      "confirmed s' = (confirmed s)((k, u) \<mapsto> monotonicUpdateState (zero_or (confirmed s (k, u))) st)"
proof (cases "(ev_user ev \<noteq> 0 \<and> ev_user ev \<noteq> u) \<or> ev_pts ev \<le> 0")
  case True
  with assms show ?thesis by (intro same) (auto simp: confirmEvent_def split: if_splits)
next
  case False
  let ?st = "\<lparr>us_pts = ev_pts ev, us_qts = 0,
      us_date = (if ev_date ev = 0 then now else ev_date ev), us_seq = 0\<rparr>"
  from False assms have "op_save sops k u ?st s = (r, s')"
    by (auto simp: confirmEvent_def saveConfirmedState_def Let_def split: if_splits)
  from save_cursor [OF this] show ?thesis using saved [of ?st] by simp
qed

definition preserved :: "int \<Rightarrow> update_call \<Rightarrow> ('e, 's) update_world \<Rightarrow> bool" where
  "preserved now c w \<longleftrightarrow> world_inv (update_step (full_service ops sops) now c w)
     \<and> call_advances c w (update_step (full_service ops sops) now c w)"

lemma world_invD:
  assumes "world_inv w"
  shows "wf (w_events w)" and "cursors_below (w_events w) (confirmed (w_states w))"
    and "cursors_below (w_events w) (observed (w_states w))"
  using assms by (simp_all add: world_inv_def)

lemma getState_step:
  assumes inv: "world_inv w" and i: "i < length (w_history w)"
  shows "preserved now (CallGetState k u i) w"
proof -
  let ?e = "w_history w ! i"
  note e = history_top [OF inv i] and w = world_invD [OF inv]
  obtain r s' where g: "getState (full_service ops sops) now k u ?e (w_states w) = (r, s')" by fastforce
  from e(1) g show ?thesis
  proof (rule getState_effect)
    fix st
    assume st: "r = Inr st" "observed s' = observed (w_states w)"
      and cases: "(confirmed (w_states w) (k, u) = None \<and> us_pts st = top ?e u
          \<and> confirmed s' = (confirmed (w_states w))((k, u) \<mapsto>
              monotonicUpdateState (zero_or (confirmed (w_states w) (k, u))) st))
        \<or> (\<exists>st0. confirmed (w_states w) (k, u) = Some st0 \<and> us_pts st = us_pts st0
            \<and> confirmed s' = confirmed (w_states w))"
    have le: "us_pts st \<le> top (w_events w) u" using cases e(2) [of u] w(2) by (auto simp: cursors_below_def)
    have bel: "cursors_below (w_events w) (confirmed s')" using cases w(2) below_advance [OF w(1,2) le, of k] by auto
    have adv: "cursor_le (confirmed (w_states w) d) (confirmed s' d)" for d
      using cases cursor_le_monotonic [of "confirmed (w_states w) (k, u)" st] by auto
    have "world_inv (issue k u r (w\<lparr>w_states := s'\<rparr>))"
      using w st le bel by (intro inv_issue inv_states [OF inv]) auto
    then show ?thesis using g st adv by (simp add: preserved_def call_advances_def issue_def)
  qed
qed

lemma currentState_step:
  assumes inv: "world_inv w" and i: "i < length (w_history w)"
  shows "preserved now (CallCurrentState k u i) w"
proof -
  have "world_inv (issue k u (currentState (full_service ops sops) now u (w_history w ! i)) w)"
    using history_top [OF inv i] by (intro inv_issue [OF inv]) (auto simp: current_state top_def)
  then show ?thesis by (simp add: preserved_def call_advances_def issue_def split: sum.split)
qed

lemma observe_step:
  assumes inv: "world_inv w" and i: "i < length (w_history w)"
  shows "preserved now (CallObserve k u from i) w"
proof -
  let ?e = "w_history w ! i"
  note e = history_top [OF inv i] and w = world_invD [OF inv]
  obtain r s' where g: "observeDifferenceRequest (full_service ops sops) now k u from ?e (w_states w) = (r, s')"
    by fastforce
  from observe_effect [OF e(1) g] obtain st where st: "r = Inr st" "us_pts st \<le> top ?e u"
      "confirmed s' = confirmed (w_states w)"
      "observed s' = (observed (w_states w))((k, u) \<mapsto>
         monotonicUpdateState (zero_or (observed (w_states w) (k, u))) (st\<lparr>us_seq := 0\<rparr>))"
    by blast
  have le: "us_pts st \<le> top (w_events w) u" using st(2) e(2) [of u] by simp
  then have "cursors_below (w_events w) (observed s')"
    unfolding st(4) by (intro below_advance [OF w(1,3)]) simp
  then have "world_inv (issue k u r (w\<lparr>w_states := s'\<rparr>))"
    using w st le by (intro inv_issue inv_states [OF inv]) auto
  then show ?thesis using g st by (simp add: preserved_def call_advances_def issue_def)
qed

lemma difference_step:
  assumes inv: "world_inv w" and le: "i < length (w_history w)" "l < length (w_history w)"
  shows "preserved now (CallDifference k u from i j l m) w"
proof -
  let ?d = "getDifference (full_service ops sops) now k u from
      (w_history w ! i, w_history w ! j, w_history w ! l, w_history w ! m)"
  have "us_pts st \<le> top (w_events w) u" if "map_sum id diff_state ?d = Inr st" for st
  proof -
    from that obtain d where "?d = Inr d" "st = diff_state d" by (cases ?d) auto
    then show ?thesis
      using difference_below history_top(1) [OF inv le(1)] history_top(1) [OF inv le(2)]
        history_top(2) [OF inv le(1), of u] history_top(2) [OF inv le(2), of u] by fastforce
  qed
  then have "world_inv (issue k u (map_sum id diff_state ?d) w)" by (rule inv_issue [OF inv])
  then show ?thesis by (simp add: preserved_def call_advances_def issue_def split: sum.split)
qed

lemma commit_step:
  assumes inv: "world_inv w" and issued: "(k, u, us_pts st) \<in> set (w_issued w)"
  shows "preserved now (CallCommit k u st m) w"
proof -
  obtain r s' where g: "commitDeliveredState (full_service ops sops) k u st m (w_states w) = (r, s')"
    by fastforce
  note w = world_invD [OF inv]
  have "us_pts (st\<lparr>us_seq := 0\<rparr>) \<le> top (w_events w) u" using inv issued by (auto simp: world_inv_def)
  note bel' = below_advance [OF w(1,2) this] below_advance [OF w(1,3) this]
  from g show ?thesis
  proof (cases rule: commit_effect)
    case invalid
    then show ?thesis using inv g by (simp add: preserved_def call_advances_def)
  next
    case committed
    then show ?thesis using w bel' g
      by (auto intro!: inv_states [OF inv] simp: preserved_def call_advances_def)
  qed
qed

lemma confirm_step:
  assumes inv: "world_inv w" and le: "ev_pts ev \<le> top (w_events w) u"
  shows "preserved now (CallConfirm k u ev) w"
proof -
  obtain r s' where g: "confirmEvent (full_service ops sops) now k u ev (w_states w) = (r, s')"
    by fastforce
  note w = world_invD [OF inv]
  from g show ?thesis
  proof (cases rule: confirm_effect)
    case same
    then show ?thesis using inv g by (simp add: preserved_def call_advances_def)
  next
    case (saved st)
    then show ?thesis using w below_advance [OF w(1,2)] le g
      by (auto intro!: inv_states [OF inv] simp: preserved_def call_advances_def)
  qed
qed

lemma clear_step:
  assumes inv: "world_inv w"
  shows "preserved now (CallClear k) w"
proof -
  obtain r s' where g: "op_delete_auth_key sops k (w_states w) = (r, s')" by fastforce
  note eff = clear_cursor [OF g]
  have "world_inv (w\<lparr>w_states := s'\<rparr>)"
    using eff world_invD [OF inv] below_cleared by (intro inv_states [OF inv]) auto
  then show ?thesis using g eff by (simp add: preserved_def call_advances_def clearAuthKey_def)
qed

lemma step_preserves:
  assumes inv: "world_inv w" and ok: "call_ok (full_service ops sops) w c"
  shows "preserved now c w"
proof (cases c)
  case (CallPublish sk user xk xs p)
  then show ?thesis using publish_step [OF inv] by (simp add: preserved_def)
next
  case (CallConfirm k u ev)
  then show ?thesis
    using confirm_step [OF inv] ok world_invD(1) [OF inv] by (simp add: current_pts top_def)
qed (use ok in \<open>auto intro!: getState_step currentState_step observe_step difference_step commit_step
    clear_step inv\<close>)

lemma updates_reachable_inv:
  assumes "wf e" and "\<forall>d. confirmed s d = None" and "\<forall>d. observed s d = None"
    and "update_reachable (full_service ops sops) e s w"
  shows "world_inv w"
  using assms(4)
proof induction
  case reach_init
  then show ?case using assms(1-3) by (simp add: world_inv_def init_world_def cursors_below_def grows_def)
next
  case (reach_step w c now)
  then show ?case using step_preserves by (auto simp: preserved_def)
qed

end

interpretation mem: account_updates mem_event_ops "\<lambda>s. s" mem_wf mem_state_ops ms_states ms_observed
  by unfold_locales

end
