(* ===== verification/Update_Properties.thy ===== *)
theory Update_Properties
  imports Update_Facts
begin

text \<open>
  The properties of the update service over the in-memory stores: a client that follows the
  difference receives every event once and in order, device cursors advance without passing the
  log, and every publication appends one event.
\<close>

definition no_events :: mem_events where "no_events = (\<lambda>_. [])"

definition no_cursors :: mem_states where
  "no_cursors = \<lparr>ms_states = (\<lambda>_. None), ms_observed = (\<lambda>_. None)\<rparr>"

lemma mem_wf_no_events [simp]: "mem_wf no_events"
  by (simp add: mem_wf_def no_events_def)

lemma mem_reachable_inv:
  "update_reachable mem_service no_events no_cursors w \<Longrightarrow> mem.world_inv w"
  unfolding mem_service_def by (rule mem.updates_reachable_inv) (simp_all add: no_cursors_def)

text \<open>The stores a client meets when its pages read at the given moments of the run.\<close>

definition reads_at :: "'e list \<Rightarrow> (nat \<times> nat \<times> nat \<times> nat) list \<Rightarrow> ('e \<times> 'e \<times> 'e \<times> 'e) list" where
  "reads_at history ms = map (\<lambda>(i, j, k, l). (history ! i, history ! j, history ! k, history ! l)) ms"

lemma all_reads_at: "all_reads (reads_at history ms) = map ((!) history) (all_reads ms)"
  by (induction ms rule: all_reads.induct) (auto simp: reads_at_def)

lemma grows_at:
  assumes "grows log u history" and "sorted ms" and "\<forall>i\<in>set ms. i < length history"
    and "\<forall>e\<in>set history. prefix (log e u) (log final u)"
  shows "grows log u (map ((!) history) ms @ [final])"
proof -
  have nth: "prefix (log (history ! i) u) (log (history ! j) u)" if "i \<le> j" "j < length history" for i j
    using assms(1) that unfolding grows_def sorted_wrt_iff_nth_less by (cases "i = j") auto
  have "sorted_wrt (\<lambda>i j. prefix (log (history ! i) u) (log (history ! j) u)) ms"
    by (rule sorted_wrt_mono_rel [OF _ assms(2)]) (use nth assms(3) in auto)
  then show ?thesis using assms(3,4) by (simp add: grows_def sorted_wrt_append sorted_wrt_map)
qed

lemma boundary_range:
  assumes "chained 0 es" and "on_boundary es p"
  shows "0 \<le> p" and "p \<le> log_pts 0 es"
  using assms chained_between [OF assms(1)] log_pts_mono [OF assms(1)]
  by (force simp: on_boundary_def)+

text \<open>C26: A client stands at the end of an event (or at 0) and asks for differences until one is not
  partial, while other calls append events between its pages and even between the reads of one page.
  No page fails, and the pages together hold exactly the account's events between the client's cursor
  and the cursor it is given: each once, in order, none skipped. If the last page says it is complete,
  the client has everything published before it began; and it is told so after no more pages than
  there are pts to cover, plus one.\<close>

theorem difference_complete:
  assumes "update_reachable mem_service no_events no_cursors w"
    and "ms \<noteq> []" and "sorted (all_reads ms)" and "\<forall>i\<in>set (all_reads ms). i < length (w_history w)"
    and "on_boundary ((w_history w ! hd (all_reads ms)) user) (us_pts from)"
  shows "\<exists>evs st fin.
    follow_difference mem_service now key user (reads_at (w_history w) ms) from = Inr (evs, st, fin)
    \<and> us_pts from \<le> us_pts st \<and> us_pts st \<le> log_pts 0 (w_events w user)
    \<and> evs = events_between (us_pts from) (us_pts st) (w_events w user)
    \<and> (fin \<longrightarrow> log_pts 0 ((w_history w ! hd (all_reads ms)) user) \<le> us_pts st)
    \<and> (log_pts 0 (w_events w user) - us_pts from < int (length ms) \<longrightarrow> fin)"
proof -
  have inv: "mem.world_inv w" by (rule mem_reachable_inv [OF assms(1)])
  let ?rs = "reads_at (w_history w) ms" and ?final = "w_events w"
  have wf: "\<forall>e\<in>set (all_reads ?rs @ [?final]). mem_wf e"
    using inv assms(4) by (auto simp: mem.world_inv_def all_reads_at)
  have "all_reads ms \<noteq> []" using assms(2) by (cases ms rule: all_reads.cases) auto
  then have first: "hd (all_reads ?rs @ [?final]) = w_history w ! hd (all_reads ms)"
    by (simp add: all_reads_at hd_map)
  have grow: "grows (\<lambda>s. s) user (all_reads ?rs @ [?final])"
    unfolding all_reads_at using inv assms(3,4) by (intro grows_at) (auto simp: mem.world_inv_def)
  have "mem_wf (w_history w ! hd (all_reads ms))"
    using wf first \<open>all_reads ms \<noteq> []\<close> by (metis append_is_Nil_conv list.set_sel(1) not_Cons_self2)
  note range = boundary_range [OF mem_log.log_chained [OF this] assms(5)]
  show ?thesis
    using mem.follow_pages [OF wf grow, of "from" now key, unfolded first, OF assms(5) range(2,1)]
    by (simp add: mem_service_def reads_at_def)
qed

text \<open>C27: In every run of the service, a device's confirmed cursor and the cursor it is known to hold
  (which retention may delete up to) never pass the account's log; and every call leaves the log an
  extension of what it was and every cursor of a device it does not clear at least what it was in each
  of pts, qts, date and seq, in whatever order deliveries complete.\<close>

theorem device_cursors_safe:
  assumes "update_reachable mem_service no_events no_cursors w" and "call_ok mem_service w c"
    and "w' = update_step mem_service now c w"
  shows "(\<forall>d st. ms_states (w_states w) d = Some st \<longrightarrow> us_pts st \<le> log_pts 0 (w_events w (snd d)))
    \<and> (\<forall>d st. ms_observed (w_states w) d = Some st \<longrightarrow> us_pts st \<le> log_pts 0 (w_events w (snd d)))
    \<and> (\<forall>u. prefix (w_events w u) (w_events w' u))
    \<and> (\<forall>d. \<not> clears c (fst d) \<longrightarrow>
         cursor_le (ms_states (w_states w) d) (ms_states (w_states w') d)
         \<and> cursor_le (ms_observed (w_states w) d) (ms_observed (w_states w') d))"
proof -
  have inv: "mem.world_inv w" by (rule mem_reachable_inv [OF assms(1)])
  have "mem.preserved now c w"
    using assms(2) unfolding mem_service_def by (rule mem.step_preserves [OF inv])
  then have "mem.call_advances c w w'" by (simp add: mem.preserved_def assms(3) mem_service_def)
  then show ?thesis
    using mem.world_invD(2,3) [OF inv] unfolding mem.call_advances_def mem.cursors_below_def mem.top_def by blast
qed

text \<open>Every publishing operation does one of three things. Arguments it must refuse (a story
  reaction without owner, viewer or reaction; a story fan-out to nobody; an invalid emoji status) return
  their error and change nothing. A message that was already published returns the stored event and
  changes nothing. Otherwise exactly one event of the operation's type is appended to the owner's log,
  with the next pts; no other account's log and no observed cursor changes, and the confirmed cursor of
  the causing device advances exactly for the operations that confirm.\<close>

theorem publication_outcome:
  assumes "update_reachable mem_service no_events no_cursors w"
    and "publish_update mem_service now sk user xk xs p (w_events w) (w_states w) = (r, e', s')"
    and "u = publication_user user p"
  shows "case publication_error user p of
      Some err \<Rightarrow> r = Inl err \<and> e' = w_events w \<and> s' = w_states w
    | None \<Rightarrow> \<exists>ev st. r = Inr (ev, st) \<and>
        (if \<exists>m. p = PubMessage m \<and> u \<noteq> 0 \<and> 0 < msg_id m
              \<and> list_ex (is_new_message (msg_id m)) (w_events w u)
         then ev \<in> set (w_events w u) \<and> e' = w_events w \<and> s' = w_states w
         else ev_type ev = publication_type p \<and> ev_user ev = u
           \<and> ev_pts ev = log_pts 0 (w_events w u) + 1 \<and> us_pts st = ev_pts ev
           \<and> e' = (w_events w)(u := w_events w u @ [ev])
           \<and> ms_observed s' = ms_observed (w_states w)
           \<and> ms_states s' = (if publication_confirms p
               then (ms_states (w_states w))((sk, u) \<mapsto>
                 monotonicUpdateState (zero_or (ms_states (w_states w) (sk, u))) st)
               else ms_states (w_states w)))"
proof -
  have "mem_wf (w_events w)"
    using mem.world_invD(1) [OF mem_reachable_inv [OF assms(1)]] .
  moreover note assms(2) [unfolded mem_service_def]
  ultimately show ?thesis
  proof (cases rule: mem.publish_cases)
    case refused
    then show ?thesis by simp
  next
    case (repeated m ev st)
    then show ?thesis using assms(3) by (auto simp: list_ex_iff)
  next
    case (appended ev st)
    then have fresh: "\<not> (\<exists>m. p = PubMessage m \<and> u \<noteq> 0 \<and> 0 < msg_id m
        \<and> list_ex (is_new_message (msg_id m)) (w_events w u))"
      using assms(3) by (auto simp: list_ex_iff mem_event_ops_def)
    show ?thesis unfolding appended(1) option.case if_not_P [OF fresh]
      by (rule exI [of _ ev], rule exI [of _ st], intro conjI) (use appended assms(3) in simp_all)
  qed
qed

section \<open>A concrete run\<close>

text \<open>Account 7 receives a contacts reset and a message, and its second device asks for its state.\<close>

definition demo_message :: chat_message where
  "demo_message = no_message\<lparr>msg_id := 3, msg_owner := 7, msg_date := 40\<rparr>"

definition demo_updates :: "(mem_events, mem_states) update_world" where
  "demo_updates =
     update_step mem_service 60 (CallGetState [2] 7 1)
       (update_step mem_service 50 (CallPublish [1] 7 [1] 0 (PubMessage demo_message))
         (update_step mem_service 50 (CallPublish [1] 7 [1] 0 PubContactsReset)
           (init_world no_events no_cursors)))"

lemmas demo_eval = demo_updates_def demo_message_def mem_service_def full_service_def mem_event_ops_def
  mem_state_ops_def init_world_def no_events_def no_cursors_def recordContactsReset_def recordEvent_def
  recordEventCore_def publishNewMessage_def found_new_message_def mem_find_new_message_def
  mem_append_dispatch_def mem_append_def mem_max_pts_def mem_save_monotonic getState_def mem_get_def
  currentPts_def mem_max_contiguous_def issue_def is_new_message_def no_event_def no_message_def
  event_count_def Let_def

lemma demo_history: "length (w_history demo_updates) = 3"
  by (simp add: demo_eval)

lemma demo_updates_reachable: "update_reachable mem_service no_events no_cursors demo_updates"
  unfolding demo_updates_def by (intro reach_step reach_init) (simp_all add: demo_eval)

lemma demo_log: "log_pts 0 (w_events demo_updates 7) = 2" "log_pts 0 ((w_history demo_updates ! 1) 7) = 1"
  by (simp_all add: demo_eval)

theorem difference_complete_witness:
  "on_boundary ((w_history demo_updates ! 1) 7) (us_pts no_state)
   \<and> (\<exists>evs st. follow_difference mem_service 60 [2] 7
        (reads_at (w_history demo_updates) [(1, 1, 2, 2), (2, 2, 2, 2), (2, 2, 2, 2)]) no_state = Inr (evs, st, True)
      \<and> evs = events_between 0 (us_pts st) (w_events demo_updates 7) \<and> 1 \<le> us_pts st)"
proof -
  have b: "on_boundary ((w_history demo_updates ! hd (all_reads [(1, 1, 2, 2), (2, 2, 2, 2), (2, 2, 2, 2)])) 7)
      (us_pts no_state)"
    by (simp add: on_boundary_def no_state_def)
  have "\<forall>i\<in>set (all_reads [(1, 1, 2, 2), (2, 2, 2, 2), (2, 2, 2, 2)]). i < length (w_history demo_updates)"
    by (simp add: demo_history)
  from difference_complete [OF demo_updates_reachable _ _ this b, of 60 "[2]"] b
  show ?thesis by (auto simp: demo_log [simplified] no_state_def)
qed

theorem device_cursors_safe_witness:
  "call_ok mem_service demo_updates (CallCommit [2] 7 (no_state\<lparr>us_pts := 1\<rparr>) CommitDeliveredOnly)
   \<and> ms_states (w_states demo_updates) ([2], 7) = Some \<lparr>us_pts = 1, us_qts = 0, us_date = 60, us_seq = 0\<rparr>
   \<and> cursor_le (ms_states (w_states demo_updates) ([2], 7))
       (ms_states (w_states (update_step mem_service 61
          (CallCommit [2] 7 (no_state\<lparr>us_pts := 1\<rparr>) CommitDeliveredOnly) demo_updates)) ([2], 7))"
proof -
  let ?c = "CallCommit [2] 7 (no_state\<lparr>us_pts := 1\<rparr>) CommitDeliveredOnly"
  have ok: "call_ok mem_service demo_updates ?c" by (simp add: demo_eval contiguous_from.simps next_by_start_def)
  have st: "ms_states (w_states demo_updates) ([2], 7)
      = Some \<lparr>us_pts = 1, us_qts = 0, us_date = 60, us_seq = 0\<rparr>"
    by (simp add: demo_eval contiguous_from.simps next_by_start_def zero_or_def no_state_def
        monotonicUpdateState_def)
  have "cursor_le (ms_states (w_states demo_updates) ([2], 7))
      (ms_states (w_states (update_step mem_service 61 ?c demo_updates)) ([2], 7))"
    using device_cursors_safe [OF demo_updates_reachable ok refl, of 61] unfolding clears.simps by blast
  with ok st show ?thesis by blast
qed

theorem publication_outcome_witness:
  "list_ex (is_new_message 3) (w_events demo_updates 7)
   \<and> fst (snd (publish_update mem_service 70 [1] 7 [1] 0 (PubMessage demo_message)
        (w_events demo_updates) (w_states demo_updates))) = w_events demo_updates
   \<and> length (fst (snd (publish_update mem_service 70 [1] 7 [1] 0 PubContactsReset
        (w_events demo_updates) (w_states demo_updates))) 7) = 3"
proof -
  have found: "list_ex (is_new_message 3) (w_events demo_updates 7)" by (simp add: demo_eval)
  have len: "length (w_events demo_updates 7) = 2" by (simp add: demo_eval)
  have msg: "msg_id demo_message = 3" by (simp add: demo_message_def)
  obtain r e' s' where again: "publish_update mem_service 70 [1] 7 [1] 0 (PubMessage demo_message)
      (w_events demo_updates) (w_states demo_updates) = (r, e', s')" by (metis prod_cases3)
  have "e' = w_events demo_updates"
    using publication_outcome [OF demo_updates_reachable again refl] found msg by auto
  moreover obtain r2 e2 s2 where reset: "publish_update mem_service 70 [1] 7 [1] 0 PubContactsReset
      (w_events demo_updates) (w_states demo_updates) = (r2, e2, s2)" by (metis prod_cases3)
  have "length (e2 7) = 3"
    using publication_outcome [OF demo_updates_reachable reset refl] len by auto
  ultimately show ?thesis using found again reset by simp
qed

end
