(* ===== verification/Read_Cache.thy ===== *)
theory Read_Cache
  imports Prelude
begin

text \<open>
  The read-model cache (src/internal/readmodelcache/cache.go): a bounded recency list with optional
  time-to-live, an optional version gate and an epoch that invalidations advance. The list nodes of
  \<open>container/list\<close> are addresses in \<open>rc_elems\<close>, \<open>rc_ll\<close> is the list from front to back and \<open>rc_items\<close> the
  index, so that their agreement is proved. Each definition is one critical section under \<open>c.mu\<close>; \<open>now\<close>
  is the clock reading. \<open>cache_entries\<close> reads the cache as a list of entries, most recent first, and the
  operations refine the plain list functions \<open>lru_touch\<close>, \<open>lru_put\<close> and \<open>filter\<close>. The value copier \<open>Clone\<close> is the
  identity on values.
\<close>

record ('k, 'v) lru_entry =
  le_key :: 'k
  le_value :: 'v
  le_hash :: int
  le_expire :: "int option"

record ('k, 'v) read_cache =
  rc_ll :: "nat list"
  rc_elems :: "nat \<Rightarrow> ('k, 'v) lru_entry option"
  rc_items :: "'k \<Rightarrow> nat option"
  rc_fresh :: nat
  rc_cap :: int
  rc_ttl :: int
  rc_epoch :: "64 word"

definition new_cache :: "int \<Rightarrow> int \<Rightarrow> ('k, 'v) read_cache option" where
  "new_cache max_entries ttl =
     (if max_entries \<le> 0 then None
      else Some \<lparr>rc_ll = [], rc_elems = (\<lambda>_. None), rc_items = (\<lambda>_. None), rc_fresh = 0,
             rc_cap = max_entries, rc_ttl = ttl, rc_epoch = 0\<rparr>)"

definition cache_expired :: "('k, 'v) read_cache \<Rightarrow> int \<Rightarrow> ('k, 'v) lru_entry \<Rightarrow> bool" where
  "cache_expired c now ent \<longleftrightarrow>
     0 < rc_ttl c \<and> (case le_expire ent of None \<Rightarrow> False | Some t \<Rightarrow> \<not> now < t)"

definition cache_expireAt :: "('k, 'v) read_cache \<Rightarrow> int \<Rightarrow> int option" where
  "cache_expireAt c now = (if rc_ttl c \<le> 0 then None else Some (now + rc_ttl c))"

definition cache_remove :: "nat \<Rightarrow> ('k, 'v) read_cache \<Rightarrow> ('k, 'v) read_cache" where
  "cache_remove el c =
     (case rc_elems c el of
        None \<Rightarrow> c
      | Some ent \<Rightarrow> c\<lparr>rc_ll := remove1 el (rc_ll c), rc_elems := (rc_elems c)(el := None),
                    rc_items := (rc_items c)(le_key ent := None)\<rparr>)"

definition cache_evictOldest :: "('k, 'v) read_cache \<Rightarrow> ('k, 'v) read_cache" where
  "cache_evictOldest c = (if rc_ll c = [] then c else cache_remove (last (rc_ll c)) c)"

definition move_to_front :: "nat \<Rightarrow> ('k, 'v) read_cache \<Rightarrow> ('k, 'v) read_cache" where
  "move_to_front el c = c\<lparr>rc_ll := el # remove1 el (rc_ll c)\<rparr>"

text \<open>An index entry without its node would be a nil dereference; \<open>cache_inv\<close> excludes it.\<close>

definition cache_find :: "('k, 'v) read_cache \<Rightarrow> 'k \<Rightarrow> (nat \<times> ('k, 'v) lru_entry) option" where
  "cache_find c key =
     (case rc_items c key of
        None \<Rightarrow> None
      | Some el \<Rightarrow> (case rc_elems c el of None \<Rightarrow> None | Some ent \<Rightarrow> Some (el, ent)))"

definition cache_lookup ::
  "int \<Rightarrow> 'k \<Rightarrow> int \<Rightarrow> bool \<Rightarrow> ('k, 'v) read_cache \<Rightarrow> 'v option \<times> ('k, 'v) read_cache" where
  "cache_lookup now key current_hash versioned c =
     (case cache_find c key of
        None \<Rightarrow> (None, c)
      | Some (el, ent) \<Rightarrow>
          if cache_expired c now ent then (None, cache_remove el c)
          else if versioned \<and> current_hash \<noteq> 0 \<and> le_hash ent \<noteq> current_hash then (None, c)
          else (Some (le_value ent), move_to_front el c))"

definition cache_storeLocked ::
  "int \<Rightarrow> 'k \<Rightarrow> 'v \<Rightarrow> int \<Rightarrow> ('k, 'v) read_cache \<Rightarrow> ('k, 'v) read_cache" where
  "cache_storeLocked now key v hash c =
     (let ent = \<lparr>le_key = key, le_value = v, le_hash = hash, le_expire = cache_expireAt c now\<rparr> in
      case cache_find c key of
        Some (el, old) \<Rightarrow>
          move_to_front el (c\<lparr>rc_elems := (rc_elems c)(el \<mapsto>
            old\<lparr>le_value := v, le_hash := hash, le_expire := cache_expireAt c now\<rparr>)\<rparr>)
      | None \<Rightarrow>
          let el = rc_fresh c;
              c = c\<lparr>rc_ll := el # rc_ll c, rc_elems := (rc_elems c)(el \<mapsto> ent),
                    rc_items := (rc_items c)(key \<mapsto> el), rc_fresh := Suc el\<rparr>
          in if rc_cap c < int (length (rc_ll c)) then cache_evictOldest c else c)"

definition cache_storeIfEpoch ::
  "int \<Rightarrow> 'k \<Rightarrow> 'v \<Rightarrow> int \<Rightarrow> 64 word \<Rightarrow> ('k, 'v) read_cache \<Rightarrow> bool \<times> ('k, 'v) read_cache" where
  "cache_storeIfEpoch now key v hash load_epoch c =
     (if rc_epoch c \<noteq> load_epoch then (False, c) else (True, cache_storeLocked now key v hash c))"

text \<open>The exported operations; a nil cache is \<open>None\<close>.\<close>

definition cache_Store ::
  "int \<Rightarrow> 'k \<Rightarrow> 'v \<Rightarrow> ('k, 'v) read_cache option \<Rightarrow> ('k, 'v) read_cache option" where
  "cache_Store now key v = map_option (cache_storeLocked now key v 0)"

definition cache_StoreVersioned ::
  "int \<Rightarrow> 'k \<Rightarrow> int \<Rightarrow> 'v \<Rightarrow> ('k, 'v) read_cache option \<Rightarrow> ('k, 'v) read_cache option" where
  "cache_StoreVersioned now key hash v = map_option (cache_storeLocked now key v hash)"

definition cache_LoadEpoch :: "('k, 'v) read_cache option \<Rightarrow> 64 word" where
  "cache_LoadEpoch m = (case m of None \<Rightarrow> 0 | Some c \<Rightarrow> rc_epoch c)"

definition cache_StoreIfEpoch ::
  "int \<Rightarrow> 'k \<Rightarrow> 'v \<Rightarrow> 64 word \<Rightarrow> ('k, 'v) read_cache option \<Rightarrow> ('k, 'v) read_cache option" where
  "cache_StoreIfEpoch now key v load_epoch = map_option (snd \<circ> cache_storeIfEpoch now key v 0 load_epoch)"

definition cache_Peek :: "int \<Rightarrow> 'k \<Rightarrow> ('k, 'v) read_cache option \<Rightarrow> 'v option" where
  "cache_Peek now key m =
     (case m of
        None \<Rightarrow> None
      | Some c \<Rightarrow>
          (case cache_find c key of
             None \<Rightarrow> None
           | Some (el, ent) \<Rightarrow> if cache_expired c now ent then None else Some (le_value ent)))"

fun cache_drop_keys :: "'k list \<Rightarrow> ('k, 'v) read_cache \<Rightarrow> ('k, 'v) read_cache" where
  "cache_drop_keys [] c = c"
| "cache_drop_keys (key # keys) c =
     cache_drop_keys keys (case rc_items c key of None \<Rightarrow> c | Some el \<Rightarrow> cache_remove el c)"

definition cache_Invalidate :: "'k list \<Rightarrow> ('k, 'v) read_cache option \<Rightarrow> ('k, 'v) read_cache option" where
  "cache_Invalidate keys m =
     (if keys = [] then m
      else map_option (\<lambda>c. cache_drop_keys keys (c\<lparr>rc_epoch := rc_epoch c + 1\<rparr>)) m)"

text \<open>The loop ranges over the index in an order Go leaves open; here in the order of the list.\<close>

fun cache_drop_where :: "('k \<Rightarrow> bool) \<Rightarrow> nat list \<Rightarrow> ('k, 'v) read_cache \<Rightarrow> ('k, 'v) read_cache" where
  "cache_drop_where pred [] c = c"
| "cache_drop_where pred (el # els) c =
     cache_drop_where pred els
       (case rc_elems c el of
          None \<Rightarrow> c
        | Some ent \<Rightarrow> if pred (le_key ent) then cache_remove el c else c)"

definition cache_InvalidateWhere ::
  "('k \<Rightarrow> bool) \<Rightarrow> ('k, 'v) read_cache option \<Rightarrow> ('k, 'v) read_cache option" where
  "cache_InvalidateWhere pred =
     map_option (\<lambda>c. cache_drop_where pred (rc_ll c) (c\<lparr>rc_epoch := rc_epoch c + 1\<rparr>))"

definition cache_Flush :: "('k, 'v) read_cache option \<Rightarrow> ('k, 'v) read_cache option" where
  "cache_Flush = map_option (\<lambda>c. c\<lparr>rc_epoch := rc_epoch c + 1, rc_ll := [], rc_elems := (\<lambda>_. None),
     rc_items := (\<lambda>_. None)\<rparr>)"

definition cache_Len :: "('k, 'v) read_cache option \<Rightarrow> nat" where
  "cache_Len m = (case m of None \<Rightarrow> 0 | Some c \<Rightarrow> length (rc_ll c))"

section \<open>The recency list\<close>

definition entry_at :: "('k, 'v) read_cache \<Rightarrow> nat \<Rightarrow> ('k, 'v) lru_entry" where
  "entry_at c el = the (rc_elems c el)"

definition cache_entries :: "('k, 'v) read_cache \<Rightarrow> ('k, 'v) lru_entry list" where
  "cache_entries c = map (entry_at c) (rc_ll c)"

definition cache_wf :: "('k, 'v) read_cache \<Rightarrow> bool" where
  "cache_wf c \<longleftrightarrow> distinct (rc_ll c)
     \<and> (\<forall>el. rc_elems c el \<noteq> None \<longleftrightarrow> el \<in> set (rc_ll c))
     \<and> (\<forall>el\<in>set (rc_ll c). el < rc_fresh c \<and> rc_items c (le_key (entry_at c el)) = Some el)
     \<and> (\<forall>k el. rc_items c k = Some el \<longrightarrow> el \<in> set (rc_ll c) \<and> le_key (entry_at c el) = k)"

definition cache_inv :: "('k, 'v) read_cache \<Rightarrow> bool" where
  "cache_inv c \<longleftrightarrow> cache_wf c \<and> 0 < rc_cap c \<and> int (length (rc_ll c)) \<le> rc_cap c"

definition lru_find :: "'k \<Rightarrow> ('k, 'v) lru_entry list \<Rightarrow> ('k, 'v) lru_entry option" where
  "lru_find key es = List.find (\<lambda>e. le_key e = key) es"

definition lru_without :: "'k \<Rightarrow> ('k, 'v) lru_entry list \<Rightarrow> ('k, 'v) lru_entry list" where
  "lru_without key es = filter (\<lambda>e. le_key e \<noteq> key) es"

definition lru_touch :: "'k \<Rightarrow> ('k, 'v) lru_entry list \<Rightarrow> ('k, 'v) lru_entry list" where
  "lru_touch key es = (case lru_find key es of None \<Rightarrow> es | Some e \<Rightarrow> e # lru_without key es)"

definition lru_put :: "nat \<Rightarrow> ('k, 'v) lru_entry \<Rightarrow> ('k, 'v) lru_entry list \<Rightarrow> ('k, 'v) lru_entry list" where
  "lru_put cap e es = take cap (e # lru_without (le_key e) es)"

lemma cache_wfD:
  assumes "cache_wf c"
  shows "distinct (rc_ll c)" and "rc_elems c el \<noteq> None \<longleftrightarrow> el \<in> set (rc_ll c)"
    and "el \<in> set (rc_ll c) \<Longrightarrow> el < rc_fresh c \<and> rc_items c (le_key (entry_at c el)) = Some el"
    and "rc_items c k = Some el \<Longrightarrow> el \<in> set (rc_ll c) \<and> le_key (entry_at c el) = k"
  using assms unfolding cache_wf_def by blast+

lemma elems_entry: "cache_wf c \<Longrightarrow> el \<in> set (rc_ll c) \<Longrightarrow> rc_elems c el = Some (entry_at c el)"
  using cache_wfD(2) [of c el] by (auto simp: entry_at_def)

lemma keys_inj: "cache_wf c \<Longrightarrow> inj_on (le_key \<circ> entry_at c) (set (rc_ll c))"
  by (rule inj_onI) (metis cache_wfD(3) comp_apply option.inject)

lemma distinct_keys: "cache_wf c \<Longrightarrow> distinct (map le_key (cache_entries c))"
  using keys_inj cache_wfD(1) by (auto simp: cache_entries_def distinct_map)

lemma cache_find_Some:
  assumes "cache_wf c"
  shows "cache_find c key = Some (el, ent) \<longleftrightarrow> el \<in> set (rc_ll c) \<and> ent = entry_at c el \<and> le_key ent = key"
  using assms cache_wfD(3,4) [OF assms] elems_entry [OF assms]
  by (auto simp: cache_find_def split: option.split)

lemma find_unique:
  assumes "distinct (map f xs)" and "x \<in> set xs"
  shows "List.find (\<lambda>y. f y = f x) xs = Some x"
  using assms by (induction xs) (auto simp: image_iff)

lemma cache_find_lru:
  assumes "cache_wf c"
  shows "lru_find key (cache_entries c) = map_option snd (cache_find c key)"
proof (cases "cache_find c key")
  case None
  then have "le_key (entry_at c el) \<noteq> key" if "el \<in> set (rc_ll c)" for el
    using cache_find_Some [OF assms, of key el "entry_at c el"] that by auto
  then show ?thesis using None by (auto simp: lru_find_def cache_entries_def find_None_iff)
next
  case (Some p)
  then obtain el ent where p: "cache_find c key = Some (el, ent)" by (cases p) auto
  then have "el \<in> set (rc_ll c)" "ent = entry_at c el" "le_key ent = key"
    using cache_find_Some [OF assms] by auto
  then have "ent \<in> set (cache_entries c)" "le_key ent = key" by (auto simp: cache_entries_def)
  then show ?thesis
    using find_unique [OF distinct_keys [OF assms]] p by (auto simp: lru_find_def)
qed

text \<open>Removing one node.\<close>

lemma cache_remove_ok:
  assumes inv: "cache_wf c" and el: "el \<in> set (rc_ll c)"
  shows "cache_wf (cache_remove el c)"
    and "cache_entries (cache_remove el c) = lru_without (le_key (entry_at c el)) (cache_entries c)"
    and "rc_ll (cache_remove el c) = filter (\<lambda>x. x \<noteq> el) (rc_ll c)"
proof -
  note I = cache_wfD [OF inv]
  have rem: "cache_remove el c = c\<lparr>rc_ll := remove1 el (rc_ll c), rc_elems := (rc_elems c)(el := None),
      rc_items := (rc_items c)(le_key (entry_at c el) := None)\<rparr>"
    using elems_entry [OF inv el] by (simp add: cache_remove_def)
  have ll: "remove1 el (rc_ll c) = filter (\<lambda>x. x \<noteq> el) (rc_ll c)"
    using I(1) by (simp add: distinct_remove1_removeAll removeAll_filter_not_eq eq_commute)
  show rc_ll: "rc_ll (cache_remove el c) = filter (\<lambda>x. x \<noteq> el) (rc_ll c)" using rem ll by simp
  have other: "le_key (entry_at c x) \<noteq> le_key (entry_at c el)" if "x \<in> set (rc_ll c)" "x \<noteq> el" for x
    using keys_inj [OF inv] el that by (auto simp: inj_on_def)
  have same: "entry_at (cache_remove el c) x = entry_at c x" if "x \<noteq> el" for x
    using that rem by (simp add: entry_at_def)
  have "cache_entries (cache_remove el c) = map (entry_at c) (filter (\<lambda>x. x \<noteq> el) (rc_ll c))"
    unfolding cache_entries_def rc_ll by (rule map_cong) (use same in auto)
  moreover have "filter (\<lambda>x. x \<noteq> el) (rc_ll c) = filter (\<lambda>x. le_key (entry_at c x) \<noteq> le_key (entry_at c el)) (rc_ll c)"
    using other by (intro filter_cong) auto
  ultimately show "cache_entries (cache_remove el c) = lru_without (le_key (entry_at c el)) (cache_entries c)"
    by (simp add: cache_entries_def lru_without_def filter_map comp_def)
  show "cache_wf (cache_remove el c)"
    unfolding cache_wf_def using I other same rem ll by (auto simp: entry_at_def)
qed

lemma cache_remove_frame [simp]:
  "rc_epoch (cache_remove el c) = rc_epoch c" "rc_cap (cache_remove el c) = rc_cap c"
  "rc_ttl (cache_remove el c) = rc_ttl c" "rc_fresh (cache_remove el c) = rc_fresh c"
  by (simp_all add: cache_remove_def split: option.split)

text \<open>Moving a node to the front, with its entry replaced.\<close>

lemma cache_front_ok:
  assumes inv: "cache_wf c" and el: "el \<in> set (rc_ll c)"
    and ent: "le_key ent = le_key (entry_at c el)"
    and d: "d = move_to_front el (c\<lparr>rc_elems := (rc_elems c)(el \<mapsto> ent)\<rparr>)"
  shows "cache_wf d" and "cache_entries d = ent # lru_without (le_key ent) (cache_entries c)"
proof -
  note I = cache_wfD [OF inv]
  have ll: "remove1 el (rc_ll c) = filter (\<lambda>x. x \<noteq> el) (rc_ll c)"
    using I(1) by (simp add: distinct_remove1_removeAll removeAll_filter_not_eq eq_commute)
  have at: "entry_at d x = (if x = el then ent else entry_at c x)" for x
    by (simp add: d move_to_front_def entry_at_def)
  have other: "le_key (entry_at c x) \<noteq> le_key (entry_at c el)" if "x \<in> set (rc_ll c)" "x \<noteq> el" for x
    using keys_inj [OF inv] el that by (auto simp: inj_on_def)
  have "map (entry_at d) (filter (\<lambda>x. x \<noteq> el) (rc_ll c)) = map (entry_at c) (filter (\<lambda>x. x \<noteq> el) (rc_ll c))"
    by (rule map_cong) (auto simp: at)
  moreover have "filter (\<lambda>x. x \<noteq> el) (rc_ll c) = filter (\<lambda>x. le_key (entry_at c x) \<noteq> le_key ent) (rc_ll c)"
    using other ent by (intro filter_cong) auto
  ultimately show "cache_entries d = ent # lru_without (le_key ent) (cache_entries c)"
    using ll at by (simp add: cache_entries_def lru_without_def filter_map comp_def d move_to_front_def)
  have "distinct (el # remove1 el (rc_ll c))" "set (el # remove1 el (rc_ll c)) = set (rc_ll c)"
    using I(1) el ll by auto
  then show "cache_wf d"
    unfolding cache_wf_def using I ent at el by (auto simp: d move_to_front_def)
qed

text \<open>Prepending a fresh node.\<close>

lemma cache_push_ok:
  assumes wf: "cache_wf c" and new: "cache_find c (le_key ent) = None"
    and d: "d = c\<lparr>rc_ll := rc_fresh c # rc_ll c, rc_elems := (rc_elems c)(rc_fresh c \<mapsto> ent),
              rc_items := (rc_items c)(le_key ent \<mapsto> rc_fresh c), rc_fresh := Suc (rc_fresh c)\<rparr>"
  shows "cache_wf d" and "cache_entries d = ent # cache_entries c"
    and "lru_without (le_key ent) (cache_entries c) = cache_entries c"
proof -
  note I = cache_wfD [OF wf]
  have fresh: "rc_fresh c \<notin> set (rc_ll c)" using I(3) by blast
  have at: "entry_at d x = (if x = rc_fresh c then ent else entry_at c x)" for x
    by (simp add: d entry_at_def)
  have absent: "le_key (entry_at c x) \<noteq> le_key ent" if "x \<in> set (rc_ll c)" for x
    using new cache_find_Some [OF wf, of "le_key ent" x "entry_at c x"] that by auto
  show "lru_without (le_key ent) (cache_entries c) = cache_entries c"
    using absent by (auto simp: lru_without_def cache_entries_def filter_id_conv)
  have "map (entry_at d) (rc_ll c) = map (entry_at c) (rc_ll c)"
    using fresh by (intro map_cong) (auto simp: at)
  moreover have "rc_ll d = rc_fresh c # rc_ll c" by (simp add: d)
  ultimately show "cache_entries d = ent # cache_entries c"
    using at [of "rc_fresh c"] unfolding cache_entries_def by simp
  have "el < Suc (rc_fresh c)" if "el \<in> set (rc_ll c)" for el using I(3) [OF that] by simp
  moreover have "rc_items c (le_key ent) = None"
    using absent I(4) by (cases "rc_items c (le_key ent)") auto
  ultimately show "cache_wf d"
    unfolding cache_wf_def using I fresh at absent by (auto simp: d)
qed

lemma cache_inv_length: "cache_inv c \<Longrightarrow> int (length (cache_entries c)) \<le> rc_cap c"
  by (simp add: cache_inv_def cache_entries_def)

lemma lru_without_last:
  assumes "distinct (map le_key (es @ [e]))"
  shows "lru_without (le_key e) (es @ [e]) = es"
proof -
  have "le_key e \<notin> le_key ` set es" using assms by simp
  then have "le_key x \<noteq> le_key e" if "x \<in> set es" for x
    using that by (metis imageI)
  then show ?thesis by (auto simp: lru_without_def filter_id_conv)
qed

lemma cache_evict_ok:
  assumes wf: "cache_wf c" and ne: "rc_ll c \<noteq> []"
  shows "cache_wf (cache_evictOldest c)" and "cache_entries (cache_evictOldest c) = butlast (cache_entries c)"
proof -
  have el: "last (rc_ll c) \<in> set (rc_ll c)" using ne by simp
  show "cache_wf (cache_evictOldest c)"
    using cache_remove_ok(1) [OF wf el] ne by (simp add: cache_evictOldest_def)
  have split: "cache_entries c = butlast (cache_entries c) @ [entry_at c (last (rc_ll c))]"
    using ne append_butlast_last_id [of "cache_entries c"] by (simp add: cache_entries_def last_map)
  have "lru_without (le_key (entry_at c (last (rc_ll c)))) (cache_entries c) = butlast (cache_entries c)"
    using lru_without_last distinct_keys [OF wf] split by metis
  then show "cache_entries (cache_evictOldest c) = butlast (cache_entries c)"
    using cache_remove_ok(2) [OF wf el] ne by (simp add: cache_evictOldest_def)
qed

lemma evict_frame [simp]:
  "rc_epoch (cache_evictOldest c) = rc_epoch c" "rc_cap (cache_evictOldest c) = rc_cap c"
  "rc_ttl (cache_evictOldest c) = rc_ttl c"
  by (simp_all add: cache_evictOldest_def)

text \<open>The operations on the recency list.\<close>

definition stored_entry :: "('k, 'v) read_cache \<Rightarrow> int \<Rightarrow> 'k \<Rightarrow> 'v \<Rightarrow> int \<Rightarrow> ('k, 'v) lru_entry" where
  "stored_entry c now key v hash =
     \<lparr>le_key = key, le_value = v, le_hash = hash, le_expire = cache_expireAt c now\<rparr>"

lemma store_ok:
  assumes inv: "cache_inv c"
  shows "cache_inv (cache_storeLocked now key v hash c)"
    and "cache_entries (cache_storeLocked now key v hash c)
       = lru_put (nat (rc_cap c)) (stored_entry c now key v hash) (cache_entries c)"
    and "rc_epoch (cache_storeLocked now key v hash c) = rc_epoch c"
proof -
  let ?e = "stored_entry c now key v hash" and ?d = "cache_storeLocked now key v hash c"
  have wf: "cache_wf c" and cap: "0 < rc_cap c" and len: "int (length (rc_ll c)) \<le> rc_cap c"
    using inv by (simp_all add: cache_inv_def)
  have "cache_inv ?d \<and> cache_entries ?d = lru_put (nat (rc_cap c)) ?e (cache_entries c)
      \<and> rc_epoch ?d = rc_epoch c"
  proof (cases "cache_find c key")
    case (Some p)
    then obtain el old where p: "cache_find c key = Some (el, old)" by (cases p) auto
    then have el: "el \<in> set (rc_ll c)" "old = entry_at c el" "le_key old = key"
      using cache_find_Some [OF wf] by auto
    have old: "old\<lparr>le_value := v, le_hash := hash, le_expire := cache_expireAt c now\<rparr> = ?e"
      using el(3) by (cases old) (simp add: stored_entry_def)
    have d: "?d = move_to_front el (c\<lparr>rc_elems := (rc_elems c)(el \<mapsto> ?e)\<rparr>)"
      using p old by (simp add: cache_storeLocked_def)
    have key: "le_key ?e = le_key (entry_at c el)" using el by (simp add: stored_entry_def)
    note front = cache_front_ok [OF wf el(1) key d]
    have "length (rc_ll ?d) = length (rc_ll c)"
      using length_pos_if_in_set [OF el(1)] el(1) by (simp add: d move_to_front_def length_remove1)
    then have ld: "length (cache_entries ?d) \<le> nat (rc_cap c)" using len by (simp add: cache_entries_def)
    have frame: "rc_cap ?d = rc_cap c" "rc_epoch ?d = rc_epoch c" by (simp_all add: d move_to_front_def)
    have "cache_inv ?d"
      using front(1) ld cap frame by (simp add: cache_inv_def cache_entries_def nat_le_iff)
    moreover have "lru_put (nat (rc_cap c)) ?e (cache_entries c) = cache_entries ?d"
      using front(2) ld by (simp add: lru_put_def)
    ultimately show ?thesis using frame by simp
  next
    case None
    define d where "d = c\<lparr>rc_ll := rc_fresh c # rc_ll c, rc_elems := (rc_elems c)(rc_fresh c \<mapsto> ?e),
        rc_items := (rc_items c)(le_key ?e \<mapsto> rc_fresh c), rc_fresh := Suc (rc_fresh c)\<rparr>"
    have "cache_find c (le_key ?e) = None" using None by (simp add: stored_entry_def)
    note push = cache_push_ok [OF wf this d_def]
    have store: "?d = (if rc_cap c < int (length (rc_ll d)) then cache_evictOldest d else d)"
      using None by (simp add: cache_storeLocked_def Let_def d_def stored_entry_def)
    have put: "lru_put (nat (rc_cap c)) ?e (cache_entries c) = take (nat (rc_cap c)) (cache_entries d)"
      using push by (simp add: lru_put_def)
    have ld: "length (cache_entries d) = Suc (length (rc_ll c))" "rc_cap d = rc_cap c" "rc_epoch d = rc_epoch c"
      "length (rc_ll d) = Suc (length (rc_ll c))"
      by (simp_all add: d_def cache_entries_def)
    show ?thesis
    proof (cases "rc_cap c < int (length (rc_ll d))")
      case True
      then have full: "length (rc_ll c) = nat (rc_cap c)" using ld(4) len by simp
      have ne: "rc_ll d \<noteq> []" by (simp add: d_def)
      note ev = cache_evict_ok [OF push(1) ne]
      have "cache_entries ?d = take (nat (rc_cap c)) (cache_entries d)"
        using ev(2) store True full ld by (simp add: butlast_conv_take)
      moreover from this have "length (cache_entries ?d) = nat (rc_cap c)" using full ld(1) by simp
      then have "int (length (rc_ll ?d)) \<le> rc_cap c" using cap by (simp add: cache_entries_def)
      ultimately show ?thesis using store True ev(1) ld cap put by (simp add: cache_inv_def)
    next
      case False
      then show ?thesis using store put push(1) ld cap by (simp add: cache_inv_def)
    qed
  qed
  then show "cache_inv ?d" and "cache_entries ?d = lru_put (nat (rc_cap c)) ?e (cache_entries c)"
    and "rc_epoch ?d = rc_epoch c" by simp_all
qed

lemma remove_inv:
  assumes "cache_inv c" and "el \<in> set (rc_ll c)"
  shows "cache_inv (cache_remove el c)"
proof -
  have wf: "cache_wf c" using assms(1) by (simp add: cache_inv_def)
  have "length (rc_ll (cache_remove el c)) \<le> length (rc_ll c)"
    using cache_remove_ok(3) [OF wf assms(2)] by simp
  then show ?thesis using assms(1) cache_remove_ok(1) [OF wf assms(2)] by (simp add: cache_inv_def)
qed

text \<open>A lookup: what it returns and what it leaves, on every branch.\<close>

definition lru_hit :: "('k, 'v) read_cache \<Rightarrow> int \<Rightarrow> int \<Rightarrow> bool \<Rightarrow> ('k, 'v) lru_entry \<Rightarrow> bool" where
  "lru_hit c now h versioned e \<longleftrightarrow> \<not> cache_expired c now e \<and> \<not> (versioned \<and> h \<noteq> 0 \<and> le_hash e \<noteq> h)"

lemma lookup_ok:
  assumes inv: "cache_inv c" and step: "cache_lookup now key h versioned c = (r, d)"
  shows "cache_inv d" and "rc_epoch d = rc_epoch c"
    and "r = (case lru_find key (cache_entries c) of None \<Rightarrow> None
              | Some e \<Rightarrow> if lru_hit c now h versioned e then Some (le_value e) else None)"
    and "cache_entries d = (case lru_find key (cache_entries c) of None \<Rightarrow> cache_entries c
              | Some e \<Rightarrow> if cache_expired c now e then lru_without key (cache_entries c)
                        else if lru_hit c now h versioned e then e # lru_without key (cache_entries c)
                        else cache_entries c)"
proof -
  have wf: "cache_wf c" using inv by (simp add: cache_inv_def)
  have "cache_inv d \<and> rc_epoch d = rc_epoch c
    \<and> r = (case lru_find key (cache_entries c) of None \<Rightarrow> None
              | Some e \<Rightarrow> if lru_hit c now h versioned e then Some (le_value e) else None)
    \<and> cache_entries d = (case lru_find key (cache_entries c) of None \<Rightarrow> cache_entries c
              | Some e \<Rightarrow> if cache_expired c now e then lru_without key (cache_entries c)
                        else if lru_hit c now h versioned e then e # lru_without key (cache_entries c)
                        else cache_entries c)"
  proof (cases "cache_find c key")
    case None
    then have "lru_find key (cache_entries c) = None" "r = None" "d = c"
      using step cache_find_lru [OF wf, of key] by (simp_all add: cache_lookup_def)
    then show ?thesis using inv by simp
  next
    case (Some p)
    then obtain el ent where p: "cache_find c key = Some (el, ent)" by (cases p) auto
    then have el: "el \<in> set (rc_ll c)" "ent = entry_at c el" "le_key ent = key"
      using cache_find_Some [OF wf] by auto
    have same: "c\<lparr>rc_elems := (rc_elems c)(el \<mapsto> ent)\<rparr> = c"
      using elems_entry [OF wf el(1)] el(2) by (simp add: fun_upd_idem)
    have key: "le_key ent = le_key (entry_at c el)" using el(2) by simp
    note front = cache_front_ok [OF wf el(1) key refl, unfolded same]
    have "length (rc_ll (move_to_front el c)) = length (rc_ll c)"
      using length_pos_if_in_set [OF el(1)] el(1) by (simp add: move_to_front_def length_remove1)
    then have "cache_inv (move_to_front el c)" "rc_epoch (move_to_front el c) = rc_epoch c"
      using inv front(1) by (simp_all add: cache_inv_def move_to_front_def)
    then show ?thesis
      using step p el front(2) remove_inv [OF inv el(1)] cache_remove_ok(2) [OF wf el(1)] inv
      by (auto simp: cache_lookup_def cache_find_lru [OF wf] lru_hit_def split: if_splits)
  qed
  then show "cache_inv d" and "rc_epoch d = rc_epoch c"
    and "r = (case lru_find key (cache_entries c) of None \<Rightarrow> None
              | Some e \<Rightarrow> if lru_hit c now h versioned e then Some (le_value e) else None)"
    and "cache_entries d = (case lru_find key (cache_entries c) of None \<Rightarrow> cache_entries c
              | Some e \<Rightarrow> if cache_expired c now e then lru_without key (cache_entries c)
                        else if lru_hit c now h versioned e then e # lru_without key (cache_entries c)
                        else cache_entries c)" by auto
qed

lemma drop_keys_ok:
  assumes "cache_inv c"
  shows "cache_inv (cache_drop_keys keys c)
    \<and> cache_entries (cache_drop_keys keys c) = filter (\<lambda>e. le_key e \<notin> set keys) (cache_entries c)
    \<and> rc_epoch (cache_drop_keys keys c) = rc_epoch c"
  using assms
proof (induction keys arbitrary: c)
  case (Cons key keys)
  have wf: "cache_wf c" using Cons.prems by (simp add: cache_inv_def)
  show ?case
  proof (cases "rc_items c key")
    case None
    then have "le_key (entry_at c el) \<noteq> key" if "el \<in> set (rc_ll c)" for el
      using cache_wfD(3) [OF wf that] by auto
    then have "filter (\<lambda>e. le_key e \<notin> set keys) (cache_entries c)
        = filter (\<lambda>e. le_key e \<notin> set (key # keys)) (cache_entries c)"
      by (intro filter_cong) (auto simp: cache_entries_def)
    with None Cons show ?thesis by simp
  next
    case (Some el)
    then have el: "el \<in> set (rc_ll c)" "le_key (entry_at c el) = key" using cache_wfD(4) [OF wf] by auto
    have "cache_entries (cache_remove el c) = lru_without key (cache_entries c)"
      using cache_remove_ok(2) [OF wf el(1)] el(2) by simp
    with Cons.IH [OF remove_inv [OF Cons.prems el(1)]] Some show ?thesis
      by (auto simp: lru_without_def intro: filter_cong)
  qed
qed simp

lemma drop_where_ok:
  assumes "cache_inv c" and "set els \<subseteq> set (rc_ll c)" and "distinct els"
  shows "cache_inv (cache_drop_where pred els c)
    \<and> cache_entries (cache_drop_where pred els c)
        = filter (\<lambda>e. \<not> (pred (le_key e) \<and> e \<in> entry_at c ` set els)) (cache_entries c)
    \<and> rc_epoch (cache_drop_where pred els c) = rc_epoch c"
  using assms
proof (induction els arbitrary: c)
  case (Cons el els)
  have wf: "cache_wf c" using Cons.prems by (simp add: cache_inv_def)
  have el: "el \<in> set (rc_ll c)" "rc_elems c el = Some (entry_at c el)"
    using Cons.prems elems_entry [OF wf] by auto
  show ?case
  proof (cases "pred (le_key (entry_at c el))")
    case False
    then have "filter (\<lambda>e. \<not> (pred (le_key e) \<and> e \<in> entry_at c ` set els)) (cache_entries c)
        = filter (\<lambda>e. \<not> (pred (le_key e) \<and> e \<in> entry_at c ` set (el # els))) (cache_entries c)"
      by (intro filter_cong) auto
    with False Cons el show ?thesis by simp
  next
    case True
    let ?d = "cache_remove el c"
    have sub: "set els \<subseteq> set (rc_ll ?d)" using cache_remove_ok(3) [OF wf el(1)] Cons.prems by auto
    have at: "entry_at ?d ` set els = entry_at c ` set els"
    proof (rule image_cong)
      fix x assume "x \<in> set els"
      with Cons.prems(3) have "x \<noteq> el" by auto
      then show "entry_at ?d x = entry_at c x" 
        by (cases "rc_elems c el") (simp_all add: cache_remove_def entry_at_def)
    qed simp
    have key: "le_key e = le_key (entry_at c el) \<longleftrightarrow> e = entry_at c el" if "e \<in> set (cache_entries c)" for e
      using that el(1) distinct_keys [OF wf] unfolding cache_entries_def
      by (metis (no_types, lifting) distinct_map image_eqI inj_on_eq_iff set_map)
    have "cache_entries ?d = lru_without (le_key (entry_at c el)) (cache_entries c)"
      using cache_remove_ok(2) [OF wf el(1)] .
    then have "filter (\<lambda>e. \<not> (pred (le_key e) \<and> e \<in> entry_at c ` set els)) (cache_entries ?d)
        = filter (\<lambda>e. \<not> (pred (le_key e) \<and> e \<in> entry_at c ` set (el # els))) (cache_entries c)"
      using key True by (auto simp: lru_without_def intro!: filter_cong)
    with Cons.IH [OF remove_inv [OF Cons.prems(1) el(1)] sub] Cons.prems(3) True el at
    show ?thesis by simp
  qed
qed simp

end
