(* ===== verification/Read_Cache_Runs.thy ===== *)
theory Read_Cache_Runs
  imports Read_Cache
begin

text \<open>
  Concurrent use of the read-model cache: \<open>GetOrLoad\<close>, \<open>GetOrLoadVersioned\<close>, \<open>GetOrLoadBatch\<close> and the
  \<open>LoadEpoch\<close>/\<open>StoreIfEpoch\<close> pair, cut at the points where they leave the cache's mutex, against writers
  of the backing store that write first and invalidate later. The single-flight group is its
  documented behaviour: one call per key runs, callers that arrive meanwhile wait and share its result,
  and the key is free again once the result is handed out. \<open>Store\<close> and \<open>StoreVersioned\<close> have no guard:
  they put any value at any time. \<open>cw_dirty\<close> holds the keys written since the last invalidation that
  covered them, \<open>cw_blind\<close> those for which an unguarded store has since then put a value other than the
  stored one; \<open>cw_invals\<close> counts invalidations beside the 64-bit epoch.
\<close>

record 'k cache_req =
  req_key :: 'k
  req_hash :: int
  req_versioned :: bool

datatype 'v load_result = Loaded 'v bool | LoadError

datatype 'v single_stage =
    SAsk | SDo | SLookAgain nat | SSnap nat | SLoad nat "64 word" | SStore nat "64 word" 'v
  | SFinish nat "'v load_result" | SJoined nat | SDone 'v | SError

record 'k batch_miss =
  bm_key :: 'k
  bm_hash :: int
  bm_cacheable :: bool

datatype ('k, 'v) batch_stage =
    BSnap
  | BLook "64 word" "'k list" "'k list" "('k \<times> 'v) list" "'k batch_miss list"
  | BLoad "64 word" "('k \<times> 'v) list" "'k batch_miss list" "'k list" "('k \<times> 'v) list"
  | BCheck "64 word" "('k \<times> 'v) list" "'k batch_miss list" "('k \<times> 'v) list"
  | BPut "64 word" "('k \<times> 'v) list" "'k batch_miss list" "('k \<times> 'v) list"
  | BDone "('k \<times> 'v) list" | BError

datatype 'v build_stage = XSnap | XRead "64 word" | XStore "64 word" 'v | XDone

datatype ('k, 'v) caller =
    Single "'k cache_req" "'v single_stage"
  | Batch "'k list" "('k, 'v) batch_stage"
  | Builder 'k "'v build_stage"

record ('k, 'v) cache_world =
  cw_cache :: "('k, 'v) read_cache"
  cw_db :: "'k \<Rightarrow> 'v"
  cw_dirty :: "'k \<Rightarrow> bool"
  cw_blind :: "'k \<Rightarrow> bool"
  cw_group :: "string \<Rightarrow> nat option"
  cw_results :: "nat \<Rightarrow> 'v load_result option"
  cw_next :: nat
  cw_callers :: "nat \<Rightarrow> ('k, 'v) caller option"
  cw_invals :: nat

text \<open>The single-flight key: the printed key, with the version where the gate is on. \<open>keystr\<close> is the
  configured printer and \<open>dec\<close> the decimal form of a version.\<close>

definition singleflightKey :: "('k \<Rightarrow> string) \<Rightarrow> (int \<Rightarrow> string) \<Rightarrow> 'k cache_req \<Rightarrow> string" where
  "singleflightKey keystr dec rq =
     (if req_versioned rq \<and> req_hash rq \<noteq> 0 then keystr (req_key rq) @ ''@'' @ dec (req_hash rq)
      else keystr (req_key rq))"

text \<open>What a caller makes of a shared result; \<open>cancelled\<close> is the state of its context.\<close>

fun after_flight :: "bool \<Rightarrow> 'v load_result \<Rightarrow> 'v single_stage" where
  "after_flight cancelled LoadError = SError"
| "after_flight cancelled (Loaded v True) = SDone v"
| "after_flight cancelled (Loaded v False) = (if cancelled then SError else SAsk)"

text \<open>\<open>getOrLoad\<close>; \<open>bad\<close> says that the load fails, or at the end of a round that the context is cancelled.\<close>

fun single_step ::
  "('k \<Rightarrow> string) \<Rightarrow> (int \<Rightarrow> string) \<Rightarrow> int \<Rightarrow> bool \<Rightarrow> 'k cache_req \<Rightarrow> 'v single_stage \<Rightarrow> ('k, 'v) cache_world \<Rightarrow>
     'v single_stage \<times> ('k, 'v) cache_world" where
  "single_step keystr dec now bad rq SAsk w =
     (case cache_lookup now (req_key rq) (req_hash rq) (req_versioned rq) (cw_cache w) of
        (Some v, c) \<Rightarrow> (SDone v, w\<lparr>cw_cache := c\<rparr>)
      | (None, c) \<Rightarrow> (SDo, w\<lparr>cw_cache := c\<rparr>))"
| "single_step keystr dec now bad rq SDo w =
     (case cw_group w (singleflightKey keystr dec rq) of
        Some f \<Rightarrow> (SJoined f, w)
      | None \<Rightarrow> (SLookAgain (cw_next w),
          w\<lparr>cw_group := (cw_group w)(singleflightKey keystr dec rq \<mapsto> cw_next w), cw_next := Suc (cw_next w)\<rparr>))"
| "single_step keystr dec now bad rq (SLookAgain f) w =
     (case cache_lookup now (req_key rq) (req_hash rq) (req_versioned rq) (cw_cache w) of
        (Some v, c) \<Rightarrow> (SFinish f (Loaded v True), w\<lparr>cw_cache := c\<rparr>)
      | (None, c) \<Rightarrow> (SSnap f, w\<lparr>cw_cache := c\<rparr>))"
| "single_step keystr dec now bad rq (SSnap f) w = (SLoad f (rc_epoch (cw_cache w)), w)"
| "single_step keystr dec now bad rq (SLoad f e) w =
     (if bad then (SFinish f LoadError, w) else (SStore f e (cw_db w (req_key rq)), w))"
| "single_step keystr dec now bad rq (SStore f e v) w =
     (case cache_storeIfEpoch now (req_key rq) v (req_hash rq) e (cw_cache w) of
        (stored, c) \<Rightarrow> (SFinish f (Loaded v stored), w\<lparr>cw_cache := c\<rparr>))"
| "single_step keystr dec now bad rq (SFinish f r) w =
     (after_flight bad r, w\<lparr>cw_results := (cw_results w)(f \<mapsto> r),
        cw_group := (cw_group w)(singleflightKey keystr dec rq := None)\<rparr>)"
| "single_step keystr dec now bad rq (SJoined f) w =
     (case cw_results w f of None \<Rightarrow> (SJoined f, w) | Some r \<Rightarrow> (after_flight bad r, w))"
| "single_step keystr dec now bad rq (SDone v) w = (SDone v, w)"
| "single_step keystr dec now bad rq SError w = (SError, w)"

text \<open>\<open>GetOrLoadBatch\<close>; \<open>versionOf\<close> may answer differently at every step, \<open>bad\<close> says that the load fails
  (or omits the next key) or that the context is cancelled.\<close>

fun load_batch_step ::
  "int \<Rightarrow> bool \<Rightarrow> ('k \<Rightarrow> int \<times> bool) \<Rightarrow> 'k list \<Rightarrow> ('k, 'v) batch_stage \<Rightarrow> ('k, 'v) cache_world \<Rightarrow>
     ('k, 'v) batch_stage \<times> ('k, 'v) cache_world" where
  "load_batch_step now bad versionOf keys BSnap w =
     (if keys = [] then (BDone [], w) else (BLook (rc_epoch (cw_cache w)) keys [] [] [], w))"
| "load_batch_step now bad versionOf keys (BLook e [] seen out missing) w =
     (if missing = [] then (BDone out, w) else (BLoad e out missing (map bm_key missing) [], w))"
| "load_batch_step now bad versionOf keys (BLook e (key # todo) seen out missing) w =
     (if key \<in> set seen then (BLook e todo seen out missing, w)
      else case versionOf key of (hash, cacheable) \<Rightarrow>
        let miss = BLook e todo (key # seen) out
              (missing @ [\<lparr>bm_key = key, bm_hash = hash, bm_cacheable = cacheable\<rparr>]) in
        if cacheable then
          (case cache_lookup now key hash (hash \<noteq> 0) (cw_cache w) of
             (Some v, c) \<Rightarrow> (BLook e todo (key # seen) (out @ [(key, v)]) missing, w\<lparr>cw_cache := c\<rparr>)
           | (None, c) \<Rightarrow> (miss, w\<lparr>cw_cache := c\<rparr>))
        else (miss, w))"
| "load_batch_step now bad versionOf keys (BLoad e out missing [] loaded) w =
     (if bad then (BError, w) else (BCheck e out missing loaded, w))"
| "load_batch_step now bad versionOf keys (BLoad e out missing (key # todo) loaded) w =
     (if bad then (BLoad e out missing todo loaded, w)
      else (BLoad e out missing todo (loaded @ [(key, cw_db w key)]), w))"
| "load_batch_step now bad versionOf keys (BCheck e out missing loaded) w =
     (if rc_epoch (cw_cache w) \<noteq> e then (if bad then (BError, w) else (BSnap, w))
      else (BPut e out missing loaded, w))"
| "load_batch_step now bad versionOf keys (BPut e out [] loaded) w = (BDone out, w)"
| "load_batch_step now bad versionOf keys (BPut e out (m # missing) loaded) w =
     (case map_of loaded (bm_key m) of
        None \<Rightarrow> (BPut e out missing loaded, w)
      | Some v \<Rightarrow>
          (BPut e (out @ [(bm_key m, v)]) missing loaded,
           if bm_cacheable m
           then w\<lparr>cw_cache := snd (cache_storeIfEpoch now (bm_key m) v (bm_hash m) e (cw_cache w))\<rparr>
           else w))"
| "load_batch_step now bad versionOf keys (BDone out) w = (BDone out, w)"
| "load_batch_step now bad versionOf keys BError w = (BError, w)"

text \<open>A value built outside: \<open>LoadEpoch\<close>, the reads, \<open>StoreIfEpoch\<close>.\<close>

fun build_step :: "int \<Rightarrow> 'k \<Rightarrow> 'v build_stage \<Rightarrow> ('k, 'v) cache_world \<Rightarrow> 'v build_stage \<times> ('k, 'v) cache_world" where
  "build_step now key XSnap w = (XRead (cache_LoadEpoch (Some (cw_cache w))), w)"
| "build_step now key (XRead e) w = (XStore e (cw_db w key), w)"
| "build_step now key (XStore e v) w =
     (XDone, w\<lparr>cw_cache := the (cache_StoreIfEpoch now key v e (Some (cw_cache w)))\<rparr>)"
| "build_step now key XDone w = (XDone, w)"

fun caller_step ::
  "('k \<Rightarrow> string) \<Rightarrow> (int \<Rightarrow> string) \<Rightarrow> int \<Rightarrow> bool \<Rightarrow> ('k \<Rightarrow> int \<times> bool) \<Rightarrow> ('k, 'v) caller \<Rightarrow> ('k, 'v) cache_world \<Rightarrow>
     ('k, 'v) caller \<times> ('k, 'v) cache_world" where
  "caller_step keystr dec now bad versionOf (Single rq st) w =
     map_prod (Single rq) id (single_step keystr dec now bad rq st w)"
| "caller_step keystr dec now bad versionOf (Batch keys st) w =
     map_prod (Batch keys) id (load_batch_step now bad versionOf keys st w)"
| "caller_step keystr dec now bad versionOf (Builder key st) w =
     map_prod (Builder key) id (build_step now key st w)"

fun start_of :: "('k, 'v) caller \<Rightarrow> bool" where
  "start_of (Single rq st) \<longleftrightarrow> st = SAsk"
| "start_of (Batch keys st) \<longleftrightarrow> st = BSnap"
| "start_of (Builder key st) \<longleftrightarrow> st = XSnap"

definition put_caller :: "nat \<Rightarrow> ('k, 'v) caller \<times> ('k, 'v) cache_world \<Rightarrow> ('k, 'v) cache_world" where
  "put_caller p = (\<lambda>(x, w). w\<lparr>cw_callers := (cw_callers w)(p \<mapsto> x)\<rparr>)"

text \<open>The steps of callers, and the world's steps.\<close>

inductive caller_move ::
  "('k \<Rightarrow> string) \<Rightarrow> (int \<Rightarrow> string) \<Rightarrow> ('k, 'v) cache_world \<Rightarrow> ('k, 'v) cache_world \<Rightarrow> bool"
  for keystr dec where
  move_start: "cw_callers w p = None \<Longrightarrow> start_of x \<Longrightarrow> caller_move keystr dec w (put_caller p (x, w))"
| move_step: "cw_callers w p = Some x \<Longrightarrow>
    caller_move keystr dec w (put_caller p (caller_step keystr dec now bad versionOf x w))"

inductive cache_move ::
  "('k \<Rightarrow> string) \<Rightarrow> (int \<Rightarrow> string) \<Rightarrow> ('k, 'v) cache_world \<Rightarrow> ('k, 'v) cache_world \<Rightarrow> bool"
  for keystr dec where
  move_caller: "caller_move keystr dec w w' \<Longrightarrow> cache_move keystr dec w w'"
| move_write: "cache_move keystr dec w
    (w\<lparr>cw_db := (cw_db w)(k := v), cw_dirty := (cw_dirty w)(k := True)\<rparr>)"
| move_invalidate: "keys \<noteq> [] \<Longrightarrow> cache_move keystr dec w
    (w\<lparr>cw_cache := the (cache_Invalidate keys (Some (cw_cache w))), cw_invals := Suc (cw_invals w),
       cw_dirty := (\<lambda>k. cw_dirty w k \<and> k \<notin> set keys), cw_blind := (\<lambda>k. cw_blind w k \<and> k \<notin> set keys)\<rparr>)"
| move_where: "cache_move keystr dec w
    (w\<lparr>cw_cache := the (cache_InvalidateWhere pred (Some (cw_cache w))), cw_invals := Suc (cw_invals w),
       cw_dirty := (\<lambda>k. cw_dirty w k \<and> \<not> pred k), cw_blind := (\<lambda>k. cw_blind w k \<and> \<not> pred k)\<rparr>)"
| move_flush: "cache_move keystr dec w
    (w\<lparr>cw_cache := the (cache_Flush (Some (cw_cache w))), cw_invals := Suc (cw_invals w),
       cw_dirty := (\<lambda>_. False), cw_blind := (\<lambda>_. False)\<rparr>)"
| move_store: "cache_move keystr dec w
    (w\<lparr>cw_cache := the (cache_Store now k v (Some (cw_cache w))),
       cw_blind := (cw_blind w)(k := cw_blind w k \<or> v \<noteq> cw_db w k)\<rparr>)"
| move_store_versioned: "cache_move keystr dec w
    (w\<lparr>cw_cache := the (cache_StoreVersioned now k h v (Some (cw_cache w))),
       cw_blind := (cw_blind w)(k := cw_blind w k \<or> v \<noteq> cw_db w k)\<rparr>)"

definition cache_start :: "('k, 'v) read_cache \<Rightarrow> ('k \<Rightarrow> 'v) \<Rightarrow> ('k, 'v) cache_world" where
  "cache_start c db = \<lparr>cw_cache = c, cw_db = db, cw_dirty = (\<lambda>_. False), cw_blind = (\<lambda>_. False), cw_group = (\<lambda>_. None),
     cw_results = (\<lambda>_. None), cw_next = 0, cw_callers = (\<lambda>_. None), cw_invals = 0\<rparr>"

definition cache_reachable ::
  "('k \<Rightarrow> string) \<Rightarrow> (int \<Rightarrow> string) \<Rightarrow> int \<Rightarrow> int \<Rightarrow> ('k \<Rightarrow> 'v) \<Rightarrow> ('k, 'v) cache_world \<Rightarrow> bool" where
  "cache_reachable keystr dec cap ttl db w \<longleftrightarrow>
     (\<exists>c. new_cache cap ttl = Some c \<and> (cache_move keystr dec)\<^sup>*\<^sup>* (cache_start c db) w)"

section \<open>No stale entries\<close>

definition current :: "('k, 'v) cache_world \<Rightarrow> 'k \<Rightarrow> 'v \<Rightarrow> bool" where
  "current w k v \<longleftrightarrow> v = cw_db w k \<or> cw_dirty w k \<or> cw_blind w k"

text \<open>A snapshot was taken some invalidations ago; the values read since are current as long as none
  has happened since.\<close>

definition since :: "('k, 'v) cache_world \<Rightarrow> 64 word \<Rightarrow> ('k \<times> 'v) list \<Rightarrow> bool" where
  "since w e kvs \<longleftrightarrow> (\<exists>n\<le>cw_invals w. e = of_nat n \<and> (n = cw_invals w \<longrightarrow> (\<forall>(k, v)\<in>set kvs. current w k v)))"

fun caller_ok :: "('k, 'v) cache_world \<Rightarrow> ('k, 'v) caller \<Rightarrow> bool" where
  "caller_ok w (Single rq (SLoad f e)) = since w e []"
| "caller_ok w (Single rq (SStore f e v)) = since w e [(req_key rq, v)]"
| "caller_ok w (Batch keys (BLook e todo seen out missing)) = since w e out"
| "caller_ok w (Batch keys (BLoad e out missing todo loaded)) = since w e (out @ loaded)"
| "caller_ok w (Batch keys (BCheck e out missing loaded)) = since w e (out @ loaded)"
| "caller_ok w (Batch keys (BPut e out missing loaded)) = since w e loaded"
| "caller_ok w (Builder key (XRead e)) = since w e []"
| "caller_ok w (Builder key (XStore e v)) = since w e [(key, v)]"
| "caller_ok w x = True"

definition entries_current :: "('k, 'v) cache_world \<Rightarrow> ('k, 'v) read_cache \<Rightarrow> bool" where
  "entries_current w c \<longleftrightarrow> (\<forall>e\<in>set (cache_entries c). current w (le_key e) (le_value e))"

definition fresh_inv :: "('k, 'v) cache_world \<Rightarrow> bool" where
  "fresh_inv w \<longleftrightarrow> cache_inv (cw_cache w) \<and> rc_epoch (cw_cache w) = of_nat (cw_invals w)
     \<and> entries_current w (cw_cache w) \<and> (\<forall>p x. cw_callers w p = Some x \<longrightarrow> caller_ok w x)"

end
