(* ===== verification/Read_Cache_Fresh.thy ===== *)
theory Read_Cache_Fresh
  imports Read_Cache_Runs
begin

text \<open>
  The freshness invariant of the read-model cache under every interleaving: as long as the epoch has
  not gone round (fewer than \<open>2\<^sup>6\<^sup>4\<close> invalidations), every cached value is the stored one unless its
  key was written, or an unguarded store put another value, and the key was not invalidated since.
\<close>

definition same_view :: "('k, 'v) cache_world \<Rightarrow> ('k, 'v) cache_world \<Rightarrow> bool" where
  "same_view w w' \<longleftrightarrow> cw_db w' = cw_db w \<and> cw_dirty w' = cw_dirty w \<and> cw_blind w' = cw_blind w \<and> cw_invals w' = cw_invals w"

lemma since_view: "same_view w w' \<Longrightarrow> since w' e kvs = since w e kvs"
  by (simp add: since_def current_def same_view_def)

lemma caller_view: "same_view w w' \<Longrightarrow> caller_ok w' x = caller_ok w x"
  by (cases "(w, x)" rule: caller_ok.cases) (simp_all add: since_view)

lemma since_mono: "since w e kvs \<Longrightarrow> set kvs' \<subseteq> set kvs \<Longrightarrow> since w e kvs'"
  unfolding since_def by blast

lemma since_now: "fresh_inv w \<Longrightarrow> since w (rc_epoch (cw_cache w)) []"
  by (auto simp: since_def fresh_inv_def)

lemma since_add: "since w e kvs \<Longrightarrow> current w k v \<Longrightarrow> since w e (kvs @ [(k, v)])"
  unfolding since_def by auto

lemma since_same_epoch:
  assumes "since w e kvs" and "e = of_nat (cw_invals w)" and "cw_invals w < 2 ^ 64"
    and "(k, v) \<in> set kvs"
  shows "current w k v"
proof -
  obtain n where n: "n \<le> cw_invals w" "e = of_nat n"
      "n = cw_invals w \<longrightarrow> (\<forall>(k, v)\<in>set kvs. current w k v)"
    using assms(1) by (auto simp: since_def)
  have "unat (of_nat n :: 64 word) = unat (of_nat (cw_invals w) :: 64 word)" using n(2) assms(2) by simp
  then have "n = cw_invals w" using n(1) assms(3) by (simp add: unsigned_of_nat take_bit_nat_eq_self)
  with n(3) assms(4) show ?thesis by blast
qed

definition cache_ok :: "('k, 'v) cache_world \<Rightarrow> ('k, 'v) read_cache \<Rightarrow> bool" where
  "cache_ok w c \<longleftrightarrow> cache_inv c \<and> rc_epoch c = of_nat (cw_invals w) \<and> entries_current w c"

lemma fresh_cache_ok: "fresh_inv w \<Longrightarrow> cache_ok w (cw_cache w)"
  by (simp add: fresh_inv_def cache_ok_def)

lemma lookup_current:
  assumes "cache_ok w c" and "cache_lookup now k h b c = (r, d)"
  shows "cache_ok w d" and "r = Some v \<Longrightarrow> current w k v"
proof -
  have c: "cache_inv c" "rc_epoch c = of_nat (cw_invals w)" "entries_current w c"
    using assms(1) by (simp_all add: cache_ok_def)
  note L = lookup_ok [OF c(1) assms(2)]
  have found: "e \<in> set (cache_entries c)" "le_key e = k" if "lru_find k (cache_entries c) = Some e" for e
    using that by (auto simp: lru_find_def find_Some_iff)
  have "set (cache_entries d) \<subseteq> set (cache_entries c)"
    unfolding L(4) using found by (auto simp: lru_without_def split: option.split)
  then show "cache_ok w d" using L(1,2) c by (auto simp: cache_ok_def entries_current_def)
  show "current w k v" if "r = Some v"
    using that L(3) found c(3) by (fastforce simp: entries_current_def split: option.splits if_splits)
qed

lemma store_current:
  assumes "cache_ok w c" and "current w k v"
  shows "cache_ok w (cache_storeLocked now k v h c)"
proof -
  have c: "cache_inv c" using assms(1) by (simp add: cache_ok_def)
  have "set (cache_entries (cache_storeLocked now k v h c))
      \<subseteq> insert (stored_entry c now k v h) (set (cache_entries c))"
    unfolding store_ok(2) [OF c] lru_put_def lru_without_def
    by (auto dest!: in_set_takeD)
  then show ?thesis
    using assms store_ok(1,3) [OF c, of now k v h]
    by (auto simp: cache_ok_def entries_current_def stored_entry_def)
qed

lemma storeIf_current:
  assumes "cache_ok w c" and "since w e kvs" and "(k, v) \<in> set kvs" and "cw_invals w < 2 ^ 64"
  shows "cache_ok w (snd (cache_storeIfEpoch now k v h e c))"
proof (cases "rc_epoch c = e")
  case True
  then have "e = of_nat (cw_invals w)" using assms(1) by (simp add: cache_ok_def)
  then have "current w k v" by (rule since_same_epoch [OF assms(2) _ assms(4,3)])
  then show ?thesis using store_current [OF assms(1)] True by (simp add: cache_storeIfEpoch_def)
qed (use assms(1) in \<open>simp add: cache_storeIfEpoch_def\<close>)

text \<open>A caller's step keeps the view, the cache and the caller in order.\<close>

definition step_ok :: "('k, 'v) cache_world \<Rightarrow> ('k, 'v) caller \<times> ('k, 'v) cache_world \<Rightarrow> bool" where
  "step_ok w = (\<lambda>(x, w'). same_view w w' \<and> cw_callers w' = cw_callers w
     \<and> cache_ok w (cw_cache w') \<and> caller_ok w x)"

lemma same_view_upd [simp]:
  "same_view w w" "same_view w (w\<lparr>cw_cache := c\<rparr>)"
  "same_view w (w\<lparr>cw_results := r, cw_group := g\<rparr>)" "same_view w (w\<lparr>cw_group := g, cw_next := n\<rparr>)"
  by (simp_all add: same_view_def)

lemma after_flight_ok [simp]: "caller_ok w (Single rq (after_flight b r))"
  by (cases "(b, r)" rule: after_flight.cases) simp_all

lemma single_step_ok:
  assumes "fresh_inv w" and "caller_ok w (Single rq st)" and "cw_invals w < 2 ^ 64"
  shows "step_ok w (map_prod (Single rq) id (single_step keystr dec now bad rq st w))"
proof -
  note c = fresh_cache_ok [OF assms(1)]
  have look: "cache_ok w d" if "cache_lookup now k h b (cw_cache w) = (r, d)" for k h b r d
    using lookup_current(1) [OF c that] .
  show ?thesis
  proof (cases st)
    case (SStore f e v)
    obtain b d where s: "cache_storeIfEpoch now (req_key rq) v (req_hash rq) e (cw_cache w) = (b, d)"
      by fastforce
    have "cache_ok w d"
      using storeIf_current [OF c, of e "[(req_key rq, v)]" "req_key rq" v now "req_hash rq"] assms(2,3) SStore s
      by simp
    then show ?thesis using s SStore by (simp add: step_ok_def)
  qed (use c look assms since_now [OF assms(1)] in
      \<open>auto simp: step_ok_def current_def since_add [of w _ "[]", simplified] split: prod.split option.split\<close>)
qed

lemma batch_look_ok:
  assumes c: "cache_ok w (cw_cache w)" and out: "since w e out"
  shows "step_ok w (map_prod (Batch keys) id
    (load_batch_step now bad versionOf keys (BLook e (key # todo) seen out missing) w))"
proof -
  obtain hash cacheable where v: "versionOf key = (hash, cacheable)" by fastforce
  obtain r d where look: "cache_lookup now key hash (hash \<noteq> 0) (cw_cache w) = (r, d)" by fastforce
  have "cache_ok w d" by (rule lookup_current(1) [OF c look])
  moreover have "since w e (out @ [(key, x)])" if "r = Some x" for x
    by (rule since_add [OF out lookup_current(2) [OF c look that]])
  ultimately show ?thesis using v look out c by (cases r) (simp_all add: step_ok_def Let_def)
qed

lemma batch_put_ok:
  assumes c: "cache_ok w (cw_cache w)" and s: "since w e loaded" and lt: "cw_invals w < 2 ^ 64"
  shows "step_ok w (map_prod (Batch keys) id
    (load_batch_step now bad versionOf keys (BPut e out (m # missing) loaded) w))"
proof (cases "map_of loaded (bm_key m)")
  case (Some v)
  have "cache_ok w (snd (cache_storeIfEpoch now (bm_key m) v (bm_hash m) e (cw_cache w)))"
    by (rule storeIf_current [OF c s map_of_SomeD [OF Some] lt])
  then show ?thesis using Some s c by (simp add: step_ok_def)
qed (use s c in \<open>simp add: step_ok_def\<close>)

lemma batch_step_ok:
  assumes "fresh_inv w" and "caller_ok w (Batch keys st)" and "cw_invals w < 2 ^ 64"
  shows "step_ok w (map_prod (Batch keys) id (load_batch_step now bad versionOf keys st w))"
proof -
  note c = fresh_cache_ok [OF assms(1)]
  show ?thesis
  proof (cases st)
    case BSnap
    then show ?thesis using c since_now [OF assms(1)] by (simp add: step_ok_def)
  next
    case (BLook e todo seen out missing)
    then show ?thesis
      using c assms(2) batch_look_ok [OF c] by (cases todo) (simp_all add: step_ok_def)
  next
    case (BLoad e out missing todo loaded)
    then have s: "since w e (out @ loaded)" using assms(2) by simp
    show ?thesis
    proof (cases todo)
      case (Cons key rest)
      have "since w e ((out @ loaded) @ [(key, cw_db w key)])"
        by (rule since_add [OF s]) (simp add: current_def)
      then show ?thesis using BLoad Cons c s by (simp add: step_ok_def)
    qed (use BLoad c s in \<open>simp add: step_ok_def\<close>)
  next
    case (BCheck e out missing loaded)
    then have s: "since w e (out @ loaded)" using assms(2) by simp
    have "since w e loaded" by (rule since_mono [OF s]) auto
    then show ?thesis using BCheck c by (simp add: step_ok_def)
  next
    case (BPut e out missing loaded)
    then show ?thesis
      using c assms(2) batch_put_ok [OF c _ assms(3)] by (cases missing) (simp_all add: step_ok_def)
  qed (use c in \<open>simp_all add: step_ok_def\<close>)
qed

lemma build_step_ok:
  assumes "fresh_inv w" and "caller_ok w (Builder key st)" and "cw_invals w < 2 ^ 64"
  shows "step_ok w (map_prod (Builder key) id (build_step now key st w))"
proof -
  note c = fresh_cache_ok [OF assms(1)]
  show ?thesis
  proof (cases st)
    case (XStore e v)
    then show ?thesis
      using storeIf_current [OF c, of e "[(key, v)]" key v now 0] assms(2,3)
      by (simp add: step_ok_def cache_StoreIfEpoch_def)
  qed (use c assms since_now [OF assms(1)] in
      \<open>auto simp: step_ok_def cache_LoadEpoch_def current_def since_add [of w _ "[]", simplified]\<close>)
qed

lemma caller_step_ok:
  assumes "fresh_inv w" and "caller_ok w x" and "cw_invals w < 2 ^ 64"
  shows "step_ok w (caller_step keystr dec now bad versionOf x w)"
  using assms single_step_ok batch_step_ok build_step_ok by (cases x) simp_all

lemma put_caller_fresh:
  assumes "fresh_inv w" and "step_ok w (x, w')"
  shows "fresh_inv (put_caller p (x, w'))"
proof -
  have w': "same_view w w'" "cw_callers w' = cw_callers w" "cache_ok w (cw_cache w')" "caller_ok w x"
    using assms(2) by (simp_all add: step_ok_def)
  let ?w = "put_caller p (x, w')"
  have view: "same_view w ?w" using w'(1) by (simp add: same_view_def put_caller_def)
  then have "caller_ok ?w y \<longleftrightarrow> caller_ok w y" for y by (rule caller_view)
  moreover have "entries_current ?w d = entries_current w d" for d
    using view by (simp add: entries_current_def current_def same_view_def)
  ultimately show ?thesis
    using assms(1) w' view
    by (auto simp: fresh_inv_def cache_ok_def put_caller_def same_view_def)
qed

lemma start_ok: "start_of x \<Longrightarrow> caller_ok w x"
  by (cases x) simp_all

text \<open>A write makes its key dirty; an invalidation cuts off every read in flight.\<close>

lemma write_fresh:
  assumes "fresh_inv w"
  shows "fresh_inv (w\<lparr>cw_db := (cw_db w)(k := v), cw_dirty := (cw_dirty w)(k := True)\<rparr>)" (is "fresh_inv ?w")
proof -
  have cur: "current w a b \<Longrightarrow> current ?w a b" for a b by (auto simp: current_def)
  then have "since w e kvs \<Longrightarrow> since ?w e kvs" for e kvs by (fastforce simp: since_def)
  then have "caller_ok w x \<Longrightarrow> caller_ok ?w x" for x
    by (cases "(w, x)" rule: caller_ok.cases) auto
  with assms cur show ?thesis by (auto simp: fresh_inv_def entries_current_def)
qed

lemma invalidated_fresh:
  assumes "fresh_inv w" and "cache_inv c" and "rc_epoch c = rc_epoch (cw_cache w) + 1"
    and "\<And>e. e \<in> set (cache_entries c) \<Longrightarrow> e \<in> set (cache_entries (cw_cache w)) \<and> (dirty (le_key e) \<longleftrightarrow> cw_dirty w (le_key e))
      \<and> (blind (le_key e) \<longleftrightarrow> cw_blind w (le_key e))"
  shows "fresh_inv (w\<lparr>cw_cache := c, cw_invals := Suc (cw_invals w), cw_dirty := dirty, cw_blind := blind\<rparr>)" (is "fresh_inv ?w")
proof -
  have "since w e kvs \<Longrightarrow> since ?w e kvs'" for e kvs kvs'
    unfolding since_def by (auto intro: le_SucI)
  then have "caller_ok w x \<Longrightarrow> caller_ok ?w x" for x
    by (cases "(w, x)" rule: caller_ok.cases) auto
  moreover have "entries_current ?w c"
    using assms(1,4) by (fastforce simp: fresh_inv_def entries_current_def current_def)
  ultimately show ?thesis using assms by (simp add: fresh_inv_def)
qed

text \<open>An unguarded store marks its key unless it puts the stored value.\<close>

lemma unguarded_fresh:
  assumes "fresh_inv w"
  shows "fresh_inv (w\<lparr>cw_cache := cache_storeLocked now k v h (cw_cache w), cw_blind := (cw_blind w)(k := cw_blind w k \<or> v \<noteq> cw_db w k)\<rparr>)"
    (is "fresh_inv ?w")
proof -
  let ?u = "w\<lparr>cw_blind := (cw_blind w)(k := cw_blind w k \<or> v \<noteq> cw_db w k)\<rparr>"
  have cur: "current w a b \<Longrightarrow> current ?u a b" for a b by (auto simp: current_def)
  have same: "current ?w a b = current ?u a b" for a b by (simp add: current_def)
  have "since w e kvs \<Longrightarrow> since ?w e kvs" for e kvs using cur by (fastforce simp: since_def same)
  then have callers: "caller_ok w x \<Longrightarrow> caller_ok ?w x" for x
    by (cases "(w, x)" rule: caller_ok.cases) auto
  have "cache_ok ?u (cw_cache w)" using assms cur by (auto simp: fresh_inv_def cache_ok_def entries_current_def)
  then have "cache_ok ?u (cache_storeLocked now k v h (cw_cache w))" by (rule store_current) (auto simp: current_def)
  then show ?thesis using assms callers by (auto simp: fresh_inv_def cache_ok_def entries_current_def same)
qed

lemma invalidate_ops:
  assumes "cache_inv c" and "keys \<noteq> []"
  shows "cache_inv (the (cache_Invalidate keys (Some c)))"
    and "rc_epoch (the (cache_Invalidate keys (Some c))) = rc_epoch c + 1"
    and "cache_entries (the (cache_Invalidate keys (Some c)))
       = filter (\<lambda>e. le_key e \<notin> set keys) (cache_entries c)"
proof -
  have "cache_inv (c\<lparr>rc_epoch := rc_epoch c + 1\<rparr>)" "cache_entries (c\<lparr>rc_epoch := rc_epoch c + 1\<rparr>) = cache_entries c"
    using assms(1) by (simp_all add: cache_inv_def cache_wf_def cache_entries_def entry_at_def)
  then show "cache_inv (the (cache_Invalidate keys (Some c)))"
    and "rc_epoch (the (cache_Invalidate keys (Some c))) = rc_epoch c + 1"
    and "cache_entries (the (cache_Invalidate keys (Some c)))
       = filter (\<lambda>e. le_key e \<notin> set keys) (cache_entries c)"
    using drop_keys_ok [of "c\<lparr>rc_epoch := rc_epoch c + 1\<rparr>" keys] assms(2)
    by (simp_all add: cache_Invalidate_def)
qed

lemma where_ops:
  assumes "cache_inv c"
  shows "cache_inv (the (cache_InvalidateWhere pred (Some c)))"
    and "rc_epoch (the (cache_InvalidateWhere pred (Some c))) = rc_epoch c + 1"
    and "cache_entries (the (cache_InvalidateWhere pred (Some c)))
       = filter (\<lambda>e. \<not> pred (le_key e)) (cache_entries c)"
proof -
  let ?c = "c\<lparr>rc_epoch := rc_epoch c + 1\<rparr>"
  have c: "cache_inv ?c" "cache_entries ?c = cache_entries c" "rc_ll ?c = rc_ll c" "entry_at ?c = entry_at c"
    using assms by (simp_all add: cache_inv_def cache_wf_def cache_entries_def entry_at_def fun_eq_iff)
  have "distinct (rc_ll c)" using assms by (simp add: cache_inv_def cache_wf_def)
  note drop = drop_where_ok [OF c(1), of "rc_ll c" pred, unfolded c, OF subset_refl this]
  have "filter (\<lambda>e. \<not> (pred (le_key e) \<and> e \<in> entry_at c ` set (rc_ll c))) (cache_entries c)
      = filter (\<lambda>e. \<not> pred (le_key e)) (cache_entries c)"
    by (intro filter_cong) (auto simp: cache_entries_def)
  then show "cache_inv (the (cache_InvalidateWhere pred (Some c)))"
    and "rc_epoch (the (cache_InvalidateWhere pred (Some c))) = rc_epoch c + 1"
    and "cache_entries (the (cache_InvalidateWhere pred (Some c)))
       = filter (\<lambda>e. \<not> pred (le_key e)) (cache_entries c)"
    using drop by (simp_all add: cache_InvalidateWhere_def)
qed

lemma flush_ops:
  assumes "cache_inv c"
  shows "cache_inv (the (cache_Flush (Some c)))" and "rc_epoch (the (cache_Flush (Some c))) = rc_epoch c + 1"
    and "cache_entries (the (cache_Flush (Some c))) = []"
  using assms by (simp_all add: cache_Flush_def cache_inv_def cache_wf_def cache_entries_def)

lemma caller_move_fresh:
  assumes "caller_move keystr dec w w'" and "fresh_inv w" and "cw_invals w < 2 ^ 64"
  shows "fresh_inv w'" and "same_view w w'"
proof -
  have "fresh_inv w' \<and> same_view w w'"
    using assms(1)
  proof cases
    case (move_start p x)
    have "step_ok w (x, w)"
      using start_ok [OF move_start(3)] fresh_cache_ok [OF assms(2)] by (simp add: step_ok_def)
    then show ?thesis
      using put_caller_fresh [OF assms(2)] move_start by (simp add: put_caller_def same_view_def)
  next
    case (move_step p x now bad versionOf)
    obtain y v where y: "caller_step keystr dec now bad versionOf x w = (y, v)" by fastforce
    have "caller_ok w x" using assms(2) move_step(2) by (simp add: fresh_inv_def)
    from caller_step_ok [OF assms(2) this assms(3), of keystr dec now bad versionOf]
    have "step_ok w (y, v)" by (simp add: y)
    then show ?thesis
      using put_caller_fresh [OF assms(2)] move_step y
      by (auto simp: step_ok_def put_caller_def same_view_def)
  qed
  then show "fresh_inv w'" and "same_view w w'" by simp_all
qed

lemma cache_move_fresh:
  assumes "cache_move keystr dec w w'" and "fresh_inv w" and "cw_invals w < 2 ^ 64"
  shows "fresh_inv w'"
proof -
  have c: "cache_inv (cw_cache w)" using assms(2) by (simp add: fresh_inv_def)
  from assms(1) show ?thesis
  proof cases
    case move_caller
    then show ?thesis using caller_move_fresh(1) assms(2,3) by blast
  next
    case move_write
    then show ?thesis using write_fresh [OF assms(2)] by simp
  next
    case (move_invalidate keys)
    then show ?thesis using invalidated_fresh [OF assms(2) invalidate_ops(1,2) [OF c]]
        invalidate_ops(3) [OF c] by simp
  next
    case (move_where pred)
    then show ?thesis using invalidated_fresh [OF assms(2) where_ops(1,2) [OF c]]
        where_ops(3) [OF c] by simp
  next
    case move_flush
    then show ?thesis using invalidated_fresh [OF assms(2) flush_ops(1,2) [OF c]]
        flush_ops(3) [OF c] by simp
  next
    case move_store
    then show ?thesis using unguarded_fresh [OF assms(2)] by (simp add: cache_Store_def)
  next
    case move_store_versioned
    then show ?thesis using unguarded_fresh [OF assms(2)] by (simp add: cache_StoreVersioned_def)
  qed
qed

lemma cache_move_invals: "cache_move keystr dec w w' \<Longrightarrow> cw_invals w \<le> cw_invals w'"
proof (induction rule: cache_move.induct)
  case (move_caller w w')
  then show ?case
  proof cases
    case (move_step p x now bad versionOf)
    have "cw_invals (snd (caller_step keystr dec now bad versionOf x w)) = cw_invals w"
    proof (cases x)
      case (Single rq st)
      then show ?thesis by (cases st) (auto split: prod.split option.split)
    next
      case (Batch keys st)
      then show ?thesis
        by (cases "(now, bad, versionOf, keys, st, w)" rule: load_batch_step.cases)
          (auto simp: Let_def split: prod.split option.split)
    next
      case (Builder key st)
      then show ?thesis by (cases st) auto
    qed
    then show ?thesis using move_step by (auto simp: put_caller_def split: prod.split)
  qed (simp add: put_caller_def)
qed simp_all

lemma start_fresh:
  assumes "new_cache cap ttl = Some c"
  shows "fresh_inv (cache_start c db)"
  using assms
  by (auto simp: fresh_inv_def cache_start_def new_cache_def cache_inv_def cache_wf_def entries_current_def
      cache_entries_def split: if_splits)

lemma reachable_fresh:
  assumes "cache_reachable keystr dec cap ttl db w" and "cw_invals w < 2 ^ 64"
  shows "fresh_inv w"
proof -
  obtain c where c: "new_cache cap ttl = Some c" "(cache_move keystr dec)\<^sup>*\<^sup>* (cache_start c db) w"
    using assms(1) by (auto simp: cache_reachable_def)
  from c(2) assms(2) show ?thesis
  proof (induction rule: rtranclp_induct)
    case base
    then show ?case using start_fresh [OF c(1)] by simp
  next
    case (step v w)
    then show ?case using cache_move_fresh cache_move_invals by (metis order_le_less_trans)
  qed
qed

end
