(* ===== verification/Read_Cache_Properties.thy ===== *)
theory Read_Cache_Properties
  imports Read_Cache_Fresh
begin

text \<open>
  The properties of the read-model cache: it refines a plain recency list, and it never keeps a value
  that an invalidation should have removed. One way around the guarantee remains for the value a caller
  is handed, and is shown as such.
\<close>

section \<open>Refinement of a recency list\<close>

datatype ('k, 'v) cache_op =
    OpLookup 'k int bool
  | OpStore 'k 'v int
  | OpStoreIf 'k 'v int "64 word"
  | OpPeek 'k
  | OpInvalidate "'k list"
  | OpWhere "'k \<Rightarrow> bool"
  | OpFlush

fun cache_exec :: "int \<Rightarrow> ('k, 'v) cache_op \<Rightarrow> ('k, 'v) read_cache \<Rightarrow> 'v option \<times> ('k, 'v) read_cache" where
  "cache_exec now (OpLookup k h b) c = cache_lookup now k h b c"
| "cache_exec now (OpStore k v h) c = (None, the (cache_StoreVersioned now k h v (Some c)))"
| "cache_exec now (OpStoreIf k v h e) c = (None, snd (cache_storeIfEpoch now k v h e c))"
| "cache_exec now (OpPeek k) c = (cache_Peek now k (Some c), c)"
| "cache_exec now (OpInvalidate ks) c = (None, the (cache_Invalidate ks (Some c)))"
| "cache_exec now (OpWhere pred) c = (None, the (cache_InvalidateWhere pred (Some c)))"
| "cache_exec now OpFlush c = (None, the (cache_Flush (Some c)))"

fun cache_run ::
  "(int \<times> ('k, 'v) cache_op) list \<Rightarrow> ('k, 'v) read_cache \<Rightarrow> 'v option list \<times> ('k, 'v) read_cache" where
  "cache_run [] c = ([], c)"
| "cache_run ((now, op) # ops) c =
     (case cache_exec now op c of (r, c1) \<Rightarrow> case cache_run ops c1 of (rs, c2) \<Rightarrow> (r # rs, c2))"

text \<open>The specification: a list of entries, most recent first, and an invalidation count modulo \<open>2\<^sup>6\<^sup>4\<close>.\<close>

definition entry_expired :: "int \<Rightarrow> int \<Rightarrow> ('k, 'v) lru_entry \<Rightarrow> bool" where
  "entry_expired ttl now e \<longleftrightarrow> 0 < ttl \<and> (\<exists>t. le_expire e = Some t \<and> t \<le> now)"

definition entry_new :: "int \<Rightarrow> int \<Rightarrow> 'k \<Rightarrow> 'v \<Rightarrow> int \<Rightarrow> ('k, 'v) lru_entry" where
  "entry_new ttl now k v h =
     \<lparr>le_key = k, le_value = v, le_hash = h, le_expire = (if 0 < ttl then Some (now + ttl) else None)\<rparr>"

fun lru_exec ::
  "nat \<Rightarrow> int \<Rightarrow> int \<Rightarrow> ('k, 'v) cache_op \<Rightarrow> 64 word \<times> ('k, 'v) lru_entry list \<Rightarrow>
     'v option \<times> 64 word \<times> ('k, 'v) lru_entry list" where
  "lru_exec cap ttl now (OpLookup k h b) (n, es) =
     (case lru_find k es of
        None \<Rightarrow> (None, n, es)
      | Some e \<Rightarrow>
          if entry_expired ttl now e then (None, n, lru_without k es)
          else if b \<and> h \<noteq> 0 \<and> le_hash e \<noteq> h then (None, n, es)
          else (Some (le_value e), n, lru_touch k es))"
| "lru_exec cap ttl now (OpStore k v h) (n, es) = (None, n, lru_put cap (entry_new ttl now k v h) es)"
| "lru_exec cap ttl now (OpStoreIf k v h e) (n, es) =
     (None, n, if n = e then lru_put cap (entry_new ttl now k v h) es else es)"
| "lru_exec cap ttl now (OpPeek k) (n, es) =
     (case lru_find k es of
        None \<Rightarrow> None
      | Some e \<Rightarrow> if entry_expired ttl now e then None else Some (le_value e), n, es)"
| "lru_exec cap ttl now (OpInvalidate ks) (n, es) =
     (None, if ks = [] then n else n + 1, filter (\<lambda>e. le_key e \<notin> set ks) es)"
| "lru_exec cap ttl now (OpWhere pred) (n, es) = (None, n + 1, filter (\<lambda>e. \<not> pred (le_key e)) es)"
| "lru_exec cap ttl now OpFlush (n, es) = (None, n + 1, [])"

fun lru_run ::
  "nat \<Rightarrow> int \<Rightarrow> (int \<times> ('k, 'v) cache_op) list \<Rightarrow> 64 word \<times> ('k, 'v) lru_entry list \<Rightarrow>
     'v option list \<times> 64 word \<times> ('k, 'v) lru_entry list" where
  "lru_run cap ttl [] s = ([], s)"
| "lru_run cap ttl ((now, op) # ops) s =
     (case lru_exec cap ttl now op s of (r, s1) \<Rightarrow> case lru_run cap ttl ops s1 of (rs, s2) \<Rightarrow> (r # rs, s2))"

lemma expired_entry: "cache_expired c now e = entry_expired (rc_ttl c) now e"
  by (auto simp: cache_expired_def entry_expired_def split: option.split)

lemma stored_new: "stored_entry c now k v h = entry_new (rc_ttl c) now k v h"
  by (simp add: stored_entry_def entry_new_def cache_expireAt_def)

lemma front_limits [simp]: "rc_cap (move_to_front el c) = rc_cap c" "rc_ttl (move_to_front el c) = rc_ttl c"
  by (simp_all add: move_to_front_def)

lemma drop_keys_limits [simp]:
  "rc_cap (cache_drop_keys ks c) = rc_cap c" "rc_ttl (cache_drop_keys ks c) = rc_ttl c"
  by (induction ks arbitrary: c) (auto split: option.split)

lemma drop_where_limits [simp]:
  "rc_cap (cache_drop_where pred els c) = rc_cap c" "rc_ttl (cache_drop_where pred els c) = rc_ttl c"
  by (induction els arbitrary: c) (auto split: option.split)

lemma store_limits [simp]:
  "rc_cap (cache_storeLocked now k v h c) = rc_cap c" "rc_ttl (cache_storeLocked now k v h c) = rc_ttl c"
  by (simp_all add: cache_storeLocked_def Let_def split: option.split prod.split)

lemma cache_exec_limits: "rc_cap (snd (cache_exec now op c)) = rc_cap c \<and> rc_ttl (snd (cache_exec now op c)) = rc_ttl c"
  by (cases op)
    (auto simp: cache_lookup_def cache_StoreVersioned_def cache_storeIfEpoch_def cache_Invalidate_def
      cache_InvalidateWhere_def cache_Flush_def split: option.split prod.split)

text \<open>One operation refines one step of the specification.\<close>

definition cache_abs :: "('k, 'v) read_cache \<Rightarrow> 64 word \<times> ('k, 'v) lru_entry list" where
  "cache_abs c = (rc_epoch c, cache_entries c)"

lemma lookup_refines:
  assumes "cache_inv c" and "cache_lookup now k h b c = (r, d)"
  shows "lru_exec (nat (rc_cap c)) (rc_ttl c) now (OpLookup k h b) (cache_abs c) = (r, cache_abs d)"
  using lookup_ok [OF assms]
  by (auto simp: cache_abs_def expired_entry lru_hit_def lru_touch_def split: option.split)

lemma peek_refines:
  assumes "cache_inv c"
  shows "cache_Peek now k (Some c) = (case lru_find k (cache_entries c) of None \<Rightarrow> None
    | Some e \<Rightarrow> if entry_expired (rc_ttl c) now e then None else Some (le_value e))"
  using cache_find_lru [of c k] assms
  by (auto simp: cache_Peek_def cache_inv_def expired_entry split: option.split prod.split)

lemma exec_refines:
  assumes "cache_inv c" and "cache_exec now op c = (r, d)"
  shows "cache_inv d" and "lru_exec (nat (rc_cap c)) (rc_ttl c) now op (cache_abs c) = (r, cache_abs d)"
proof -
  have "cache_inv d \<and> lru_exec (nat (rc_cap c)) (rc_ttl c) now op (cache_abs c) = (r, cache_abs d)"
  proof (cases op)
    case (OpLookup k h b)
    then have "cache_lookup now k h b c = (r, d)" using assms(2) by simp
    then show ?thesis using lookup_ok(1) [OF assms(1)] lookup_refines [OF assms(1)] OpLookup by simp
  next
    case (OpInvalidate ks)
    show ?thesis
    proof (cases "ks = []")
      case True
      then show ?thesis using assms OpInvalidate by (auto simp: cache_Invalidate_def cache_abs_def)
    next
      case False
      then show ?thesis using assms OpInvalidate invalidate_ops [OF assms(1) False]
        by (auto simp: cache_abs_def)
    qed
  qed (use assms store_ok [OF assms(1)] where_ops [OF assms(1)] flush_ops [OF assms(1)] peek_refines [OF assms(1)] in
      \<open>auto simp: cache_abs_def cache_StoreVersioned_def cache_storeIfEpoch_def stored_new split: if_splits\<close>)
  then show "cache_inv d" and "lru_exec (nat (rc_cap c)) (rc_ttl c) now op (cache_abs c) = (r, cache_abs d)"
    by simp_all
qed

lemma run_refines:
  assumes "cache_inv c" and "cache_run ops c = (rs, d)"
  shows "cache_inv d \<and> rc_cap d = rc_cap c
    \<and> lru_run (nat (rc_cap c)) (rc_ttl c) ops (cache_abs c) = (rs, cache_abs d)"
  using assms
proof (induction ops arbitrary: c rs)
  case (Cons p ops)
  obtain now op where p: "p = (now, op)" by (cases p) auto
  obtain r c1 where 1: "cache_exec now op c = (r, c1)" by fastforce
  obtain rs1 where 2: "cache_run ops c1 = (rs1, d)" "rs = r # rs1"
    using Cons.prems(2) p 1 by (auto split: prod.splits)
  have "rc_cap c1 = rc_cap c" "rc_ttl c1 = rc_ttl c" using cache_exec_limits [of now op c] 1 by simp_all
  then show ?case
    using Cons.IH [OF exec_refines(1) [OF Cons.prems(1) 1] 2(1)] exec_refines(2) [OF Cons.prems(1) 1] p 2
    by simp
qed simp

lemma new_cache_abs:
  assumes "new_cache cap ttl = Some c"
  shows "cache_inv c" and "cache_abs c = (0, [])" and "rc_cap c = cap" and "rc_ttl c = ttl" and "0 < cap"
  using assms
  by (auto simp: new_cache_def cache_inv_def cache_wf_def cache_entries_def cache_abs_def split: if_splits)

text \<open>C29: Over any sequence of lookups, stores, guarded stores, peeks, invalidations and flushes, a new cache
  answers exactly as a list of entries kept in order of use does: a lookup finds an unexpired entry of the
  right version and moves it to the front, a store puts its entry in front and drops what exceeds
  the capacity from the back, an invalidation filters. Its index, nodes and list stay in step, keys are
  unique and the capacity is never exceeded.\<close>

theorem cache_refines_recency_list:
  assumes "new_cache cap ttl = Some c" and "cache_run ops c = (rs, d)"
  shows "lru_run (nat cap) ttl ops (0, []) = (rs, rc_epoch d, cache_entries d)
    \<and> distinct (map le_key (cache_entries d)) \<and> int (cache_Len (Some d)) \<le> cap
    \<and> (\<forall>k. rc_items d k \<noteq> None \<longleftrightarrow> k \<in> le_key ` set (cache_entries d))"
proof -
  note new = new_cache_abs [OF assms(1)]
  note run = run_refines [OF new(1) assms(2), unfolded new]
  then have wf: "cache_wf d" by (simp add: cache_inv_def)
  have "rc_items d k \<noteq> None \<longleftrightarrow> k \<in> le_key ` set (cache_entries d)" for k
  proof
    assume "rc_items d k \<noteq> None"
    then obtain el where "rc_items d k = Some el" by blast
    from cache_wfD(4) [OF wf this] show "k \<in> le_key ` set (cache_entries d)" by (auto simp: cache_entries_def)
  next
    assume "k \<in> le_key ` set (cache_entries d)"
    then show "rc_items d k \<noteq> None" using cache_wfD(3) [OF wf] by (auto simp: cache_entries_def)
  qed
  then show ?thesis
    using run distinct_keys [OF wf] by (simp add: cache_abs_def cache_Len_def cache_inv_def)
qed

definition demo_ops :: "(int \<times> (nat, nat) cache_op) list" where
  "demo_ops = [(0, OpStore 1 10 0), (1, OpStore 2 20 0), (2, OpLookup 1 0 False), (3, OpStore 3 30 0),
     (4, OpLookup 2 0 False), (5, OpLookup 1 0 False), (6, OpInvalidate [1]), (7, OpStoreIf 1 11 0 0)]"

theorem cache_refines_recency_list_witness:
  "\<exists>c rs d. new_cache 2 0 = Some c \<and> cache_run demo_ops c = (rs, d)
     \<and> rs = [None, None, Some 10, None, None, Some 10, None, None] \<and> map le_key (cache_entries d) = [3]"
proof -
  obtain c :: "(nat, nat) read_cache" where c: "new_cache 2 0 = Some c" by (simp add: new_cache_def)
  obtain rs d where run: "cache_run demo_ops c = (rs, d)" by fastforce
  have "lru_run 2 0 demo_ops (0, []) =
      ([None, None, Some 10, None, None, Some 10, None, None], 1, [entry_new 0 3 3 30 0])"
    by (simp add: demo_ops_def lru_find_def lru_put_def lru_without_def lru_touch_def entry_new_def
        entry_expired_def)
  then have "rs = [None, None, Some 10, None, None, Some 10, None, None]"
      "cache_entries d = [entry_new 0 3 3 30 0]"
    using cache_refines_recency_list [OF c run] by simp_all
  then show ?thesis using c run by (auto simp: entry_new_def)
qed

section \<open>Freshness\<close>

text \<open>C28: Whatever loads, batches, outside builds, stores, writes and invalidations interleave, what a
  lookup or a peek returns is the stored value, unless since the last invalidation of its key the key was
  written or an unguarded \<open>Store\<close> put a value other than the stored one: loads and guarded stores never
  bring back a value older than the invalidation. The same holds of a loaded value at the moment its
  guarded store is accepted, and of every value of a batch at the moment it passes its epoch check.
  (The 64-bit epoch is assumed not to have gone round.)\<close>

theorem cache_never_serves_invalidated:
  assumes "cache_reachable keystr dec cap ttl db w" and "cw_invals w < 2 ^ 64"
  shows "(\<forall>now k h b v d. cache_lookup now k h b (cw_cache w) = (Some v, d) \<longrightarrow> v = cw_db w k \<or> cw_dirty w k \<or> cw_blind w k)
    \<and> (\<forall>now k v. cache_Peek now k (Some (cw_cache w)) = Some v \<longrightarrow> v = cw_db w k \<or> cw_dirty w k \<or> cw_blind w k)
    \<and> (\<forall>p rq f e v now h. cw_callers w p = Some (Single rq (SStore f e v))
         \<and> fst (cache_storeIfEpoch now (req_key rq) v h e (cw_cache w))
         \<longrightarrow> v = cw_db w (req_key rq) \<or> cw_dirty w (req_key rq) \<or> cw_blind w (req_key rq))
    \<and> (\<forall>p keys e out missing loaded k v. cw_callers w p = Some (Batch keys (BCheck e out missing loaded))
         \<and> rc_epoch (cw_cache w) = e \<and> (k, v) \<in> set (out @ loaded) \<longrightarrow> v = cw_db w k \<or> cw_dirty w k \<or> cw_blind w k)"
proof (intro conjI allI impI)
  have inv: "fresh_inv w" by (rule reachable_fresh [OF assms])
  have c: "cache_ok w (cw_cache w)" by (rule fresh_cache_ok [OF inv])
  have ep: "rc_epoch (cw_cache w) = of_nat (cw_invals w)" using c by (simp add: cache_ok_def)
  have callers: "caller_ok w x" if "cw_callers w p = Some x" for p x using inv that by (simp add: fresh_inv_def)
  show "v = cw_db w k \<or> cw_dirty w k \<or> cw_blind w k" if "cache_lookup now k h b (cw_cache w) = (Some v, d)" for now k h b v d
    using lookup_current(2) [OF c that] by (simp add: current_def)
  show "v = cw_db w k \<or> cw_dirty w k \<or> cw_blind w k" if "cache_Peek now k (Some (cw_cache w)) = Some v" for now k v
    using that c peek_refines [of "cw_cache w" now k]
    by (auto simp: cache_ok_def entries_current_def current_def lru_find_def find_Some_iff
        split: option.splits if_splits)
  show "v = cw_db w (req_key rq) \<or> cw_dirty w (req_key rq) \<or> cw_blind w (req_key rq)"
    if "cw_callers w p = Some (Single rq (SStore f e v))
         \<and> fst (cache_storeIfEpoch now (req_key rq) v h e (cw_cache w))" for p rq f e v now h
  proof -
    have "e = of_nat (cw_invals w)" using that ep by (simp add: cache_storeIfEpoch_def split: if_splits)
    then show ?thesis
      using since_same_epoch [of w e "[(req_key rq, v)]"] callers that assms(2) by (fastforce simp: current_def)
  qed
  show "v = cw_db w k \<or> cw_dirty w k \<or> cw_blind w k"
    if "cw_callers w p = Some (Batch keys (BCheck e out missing loaded))
         \<and> rc_epoch (cw_cache w) = e \<and> (k, v) \<in> set (out @ loaded)" for p keys e out missing loaded k v
    using since_same_epoch [of w e "out @ loaded" k v] callers that ep assms(2) by (fastforce simp: current_def)
qed

section \<open>A caller that joins a finished load\<close>

definition start_at :: "nat \<Rightarrow> ('k, 'v) caller \<Rightarrow> ('k, 'v) cache_world \<Rightarrow> ('k, 'v) cache_world" where
  "start_at p x w = put_caller p (x, w)"

definition step_at :: "('k \<Rightarrow> string) \<Rightarrow> (int \<Rightarrow> string) \<Rightarrow> nat \<Rightarrow> ('k, 'v) cache_world \<Rightarrow> ('k, 'v) cache_world" where
  "step_at keystr dec p w = (case cw_callers w p of None \<Rightarrow> w
     | Some x \<Rightarrow> put_caller p (caller_step keystr dec 0 False (\<lambda>_. (0, True)) x w))"

lemma step_at_move: "(caller_move keystr dec)\<^sup>*\<^sup>* w (step_at keystr dec p w)"
  by (auto simp: step_at_def split: option.split intro: move_step)

lemma steps_at_move:
  "(caller_move keystr dec)\<^sup>*\<^sup>* u w \<Longrightarrow> (caller_move keystr dec)\<^sup>*\<^sup>* u (step_at keystr dec p w)"
  using step_at_move rtranclp_trans by metis

lemma caller_moves: "(caller_move keystr dec)\<^sup>*\<^sup>* u w \<Longrightarrow> (cache_move keystr dec)\<^sup>*\<^sup>* u w"
  by (rule mono_rtranclp [rule_format]) (rule move_caller)

text \<open>Caller 1 loads key \<open>k\<close> while it holds \<open>v0\<close> and has just stored the value; a writer then changes it to
  \<open>v1\<close> and invalidates; only afterwards does caller 2 ask.\<close>

definition plain_req :: "'k \<Rightarrow> 'k cache_req" where
  "plain_req k = \<lparr>req_key = k, req_hash = 0, req_versioned = False\<rparr>"

definition demo_cache :: "('k, 'v) read_cache" where
  "demo_cache = \<lparr>rc_ll = [], rc_elems = (\<lambda>_. None), rc_items = (\<lambda>_. None), rc_fresh = 0, rc_cap = 1,
     rc_ttl = 0, rc_epoch = 0\<rparr>"

definition race_loaded :: "('k \<Rightarrow> string) \<Rightarrow> (int \<Rightarrow> string) \<Rightarrow> 'k \<Rightarrow> 'v \<Rightarrow> ('k, 'v) cache_world" where
  "race_loaded keystr dec k v0 = (step_at keystr dec 1 ^^ 6)
     (start_at 1 (Single (plain_req k) SAsk) (cache_start demo_cache (\<lambda>_. v0)))"

definition race_written :: "('k \<Rightarrow> string) \<Rightarrow> (int \<Rightarrow> string) \<Rightarrow> 'k \<Rightarrow> 'v \<Rightarrow> 'v \<Rightarrow> ('k, 'v) cache_world" where
  "race_written keystr dec k v0 v1 =
     (let w = race_loaded keystr dec k v0;
          w = w\<lparr>cw_db := (cw_db w)(k := v1), cw_dirty := (cw_dirty w)(k := True)\<rparr>
      in w\<lparr>cw_cache := the (cache_Invalidate [k] (Some (cw_cache w))), cw_invals := Suc (cw_invals w),
           cw_dirty := (\<lambda>x. cw_dirty w x \<and> x \<notin> set [k]), cw_blind := (\<lambda>x. cw_blind w x \<and> x \<notin> set [k])\<rparr>)"

definition race_joined :: "('k \<Rightarrow> string) \<Rightarrow> (int \<Rightarrow> string) \<Rightarrow> 'k \<Rightarrow> 'v \<Rightarrow> 'v \<Rightarrow> ('k, 'v) cache_world" where
  "race_joined keystr dec k v0 v1 =
     step_at keystr dec 2 (step_at keystr dec 1 (step_at keystr dec 2 (step_at keystr dec 2
       (start_at 2 (Single (plain_req k) SAsk) (race_written keystr dec k v0 v1)))))"

lemmas race_eval = race_loaded_def race_written_def race_joined_def step_at_def start_at_def put_caller_def
  plain_req_def demo_cache_def cache_start_def cache_lookup_def cache_find_def cache_storeIfEpoch_def
  cache_storeLocked_def cache_expireAt_def cache_Invalidate_def cache_remove_def singleflightKey_def Let_def
  eval_nat_numeral

lemma race_facts:
  "cw_callers (race_loaded keystr dec k v0) 1 = Some (Single (plain_req k) (SFinish 0 (Loaded v0 True)))"
  "\<not> cw_dirty (race_written keystr dec k v0 v1) k" "cw_db (race_written keystr dec k v0 v1) k = v1"
  "cw_callers (race_written keystr dec k v0 v1) 2 = None"
  "cw_db (race_joined keystr dec k v0 v1) k = v1"
  "cw_callers (race_joined keystr dec k v0 v1) 2 = Some (Single (plain_req k) (SDone v0))"
  "cw_invals (race_loaded keystr dec k v0) = 0" "\<not> cw_dirty (race_loaded keystr dec k v0) x"
  "cache_Peek 0 k (Some (cw_cache (race_loaded keystr dec k v0))) = Some v0"
  "\<not> cw_blind (race_loaded keystr dec k v0) x" "\<not> cw_blind (race_written keystr dec k v0 v1) k"
  "cache_Peek 0 k (cache_Store 0 k v0 (Some (cw_cache (race_written keystr dec k v0 v1)))) = Some v0"
  by (simp_all add: race_eval cache_Peek_def cache_Store_def cache_expired_def)

lemma race_reach:
  "cache_reachable keystr dec 1 0 (\<lambda>_. v0) (race_loaded keystr dec k v0)"
  "cache_reachable keystr dec 1 0 (\<lambda>_. v0) (race_written keystr dec k v0 v1)"
proof -
  let ?s = "cache_start (demo_cache :: ('a, 'b) read_cache) (\<lambda>_. v0)"
  have new: "new_cache 1 0 = Some (demo_cache :: ('a, 'b) read_cache)"
    by (simp add: new_cache_def demo_cache_def)
  have "(caller_move keystr dec)\<^sup>*\<^sup>* ?s (start_at 1 (Single (plain_req k) SAsk) ?s)"
    unfolding start_at_def by (intro r_into_rtranclp move_start) (simp_all add: cache_start_def)
  then have "(caller_move keystr dec)\<^sup>*\<^sup>* ?s (race_loaded keystr dec k v0)"
    unfolding race_loaded_def by (simp add: eval_nat_numeral steps_at_move)
  then have l: "(cache_move keystr dec)\<^sup>*\<^sup>* ?s (race_loaded keystr dec k v0)" by (rule caller_moves)
  then show "cache_reachable keystr dec 1 0 (\<lambda>_. v0) (race_loaded keystr dec k v0)"
    using new by (auto simp: cache_reachable_def)
  let ?w = "race_loaded keystr dec k v0"
  let ?v = "?w\<lparr>cw_db := (cw_db ?w)(k := v1), cw_dirty := (cw_dirty ?w)(k := True)\<rparr>"
  have "cache_move keystr dec ?w ?v" by (rule move_write)
  moreover have "cache_move keystr dec ?v (race_written keystr dec k v0 v1)"
    unfolding race_written_def Let_def by (rule move_invalidate) simp
  ultimately have "(cache_move keystr dec)\<^sup>*\<^sup>* ?w (race_written keystr dec k v0 v1)" by simp
  with l new show "cache_reachable keystr dec 1 0 (\<lambda>_. v0) (race_written keystr dec k v0 v1)"
    unfolding cache_reachable_def by (meson rtranclp_trans)
qed

text \<open>C30: The guarantee does not extend to the value a caller is handed when it joins a load in flight. For
  any two values there is a run in which a key holds the new one, its invalidation is complete, no write
  is outstanding and no unguarded store interfered, and a caller that starts only then, with nothing but callers moving, is answered with
  the old value: it misses in the cache and joins a load that has already stored its result and not
  yet left the single-flight group.\<close>

theorem joined_load_returns_old_value:
  "\<exists>w1 w2. cache_reachable keystr dec 1 0 (\<lambda>_. v0) w1 \<and> cw_db w1 k = v1 \<and> \<not> cw_dirty w1 k \<and> \<not> cw_blind w1 k
     \<and> cw_callers w1 2 = None \<and> (caller_move keystr dec)\<^sup>*\<^sup>* w1 w2 \<and> cw_db w2 k = v1
     \<and> cw_callers w2 2 = Some (Single (plain_req k) (SDone v0))"
proof -
  let ?w = "race_written keystr dec k v0 v1"
  have "(caller_move keystr dec)\<^sup>*\<^sup>* ?w (start_at 2 (Single (plain_req k) SAsk) ?w)"
    unfolding start_at_def by (intro r_into_rtranclp move_start) (simp_all add: race_facts)
  then have "(caller_move keystr dec)\<^sup>*\<^sup>* ?w (race_joined keystr dec k v0 v1)"
    unfolding race_joined_def by (simp add: steps_at_move)
  then show ?thesis
    by (intro exI [of _ ?w] exI [of _ "race_joined keystr dec k v0 v1"])
      (simp add: race_reach(2) race_facts)
qed

text \<open>The second exception of the freshness guarantee is real. \<open>Store\<close> has no epoch guard, so a value stored
  after its invalidation is served although the key was written and invalidated before.\<close>

theorem late_store_caches_old_value:
  "\<exists>w. cache_reachable keystr dec 1 0 (\<lambda>_. v0) w \<and> cw_db w k = v1 \<and> \<not> cw_dirty w k \<and> cache_Peek 0 k (Some (cw_cache w)) = Some v0"
proof -
  let ?w = "race_written keystr dec k v0 v1"
  let ?v = "?w\<lparr>cw_cache := the (cache_Store 0 k v0 (Some (cw_cache ?w))), cw_blind := (cw_blind ?w)(k := cw_blind ?w k \<or> v0 \<noteq> cw_db ?w k)\<rparr>"
  have "cache_move keystr dec ?w ?v" by (rule move_store)
  then have "cache_reachable keystr dec 1 0 (\<lambda>_. v0) ?v"
    using race_reach(2) [of keystr dec v0 k v1] unfolding cache_reachable_def by (meson rtranclp.rtrancl_into_rtrancl)
  moreover have "cache_Peek 0 k (Some (cw_cache ?v)) = Some v0"
    using race_facts(12) by (simp add: cache_Store_def)
  ultimately show ?thesis by (intro exI [of _ ?v]) (simp add: race_facts)
qed

theorem cache_never_serves_invalidated_witness:
  "cache_Peek 0 (5 :: nat) (Some (cw_cache (race_loaded (\<lambda>_. ''k'') (\<lambda>_. []) 5 (7 :: nat)))) = Some 7
   \<and> cw_db (race_loaded (\<lambda>_. ''k'') (\<lambda>_. []) (5 :: nat) (7 :: nat)) 5 = 7"
proof -
  let ?w = "race_loaded (\<lambda>_. ''k'') (\<lambda>_. []) (5 :: nat) (7 :: nat)"
  have "cw_invals ?w < 2 ^ 64" by (simp add: race_facts)
  from cache_never_serves_invalidated [OF race_reach(1) this]
  have "v = cw_db ?w k \<or> cw_dirty ?w k \<or> cw_blind ?w k" if "cache_Peek now k (Some (cw_cache ?w)) = Some v" for now k v
    using that by blast
  from this [of 0 5 7, OF race_facts(9)] show ?thesis by (simp add: race_facts)
qed

end
