(* ===== verification/Session_Types.thy ===== *)
theory Session_Types
  imports Outbound_Send Fair_Budget "HOL-Library.AList"
begin

text \<open>
  The state of the session manager (session_manager.go, logical_session.go, conn.go): connections, the
  registry of active owners and claims with their secondary indexes, the channel routing indexes, the
  pushes kept for sessions that are not yet ready, and the logical sessions.

  Connections are compared by pointer, so they live in a heap \<open>nat \<Rightarrow> mconn\<close>. A Go map whose length or
  iteration the code uses is an association list with distinct keys, so the order of a list is one
  possible iteration order; a nested map is a function to such lists, where the empty list also stands
  for the deleted entry. A panic inside a critical section sets \<open>sm_panic\<close>, and that it is never set
  is a theorem. The membership revision is a 64-bit word because it is compared after wrapping.
\<close>

section \<open>Connections\<close>

datatype conn_lifecycle = Provisional | Claiming | Active | Retired

record mconn =
  mc_key :: session_key
  mc_created :: int
  mc_life :: conn_lifecycle
  mc_open :: bool
  mc_business :: "auth_key_id option"
  mc_user :: int
  mc_userResolved :: bool
  mc_receives :: bool
  mc_profile :: "int option"
  mc_synced :: bool
  mc_gen :: "64 word"

definition conn_retire :: "mconn \<Rightarrow> mconn" where
  "conn_retire c = c\<lparr>mc_life := Retired\<rparr>"

text \<open>What may happen to a connection between two reads inside one operation.\<close>

datatype interference = Quiet | TransportClosed | ConnRetired

fun interfere :: "interference \<Rightarrow> mconn \<Rightarrow> mconn" where
  "interfere Quiet c = c"
| "interfere TransportClosed c = c\<lparr>mc_open := False\<rparr>"
| "interfere ConnRetired c = conn_retire c"

definition conn_beginActivationClaim :: "interference \<Rightarrow> mconn \<Rightarrow> bool \<times> mconn" where
  "conn_beginActivationClaim race c =
     (if \<not> mc_open c \<or> mc_life c \<noteq> Provisional then (False, c)
      else let d = interfere race (c\<lparr>mc_life := Claiming\<rparr>) in
        if mc_life d \<noteq> Claiming \<or> \<not> mc_open d then (False, conn_retire d) else (True, d))"

definition conn_publishActivation :: "interference \<Rightarrow> mconn \<Rightarrow> bool \<times> mconn" where
  "conn_publishActivation race c =
     (if \<not> mc_open c \<or> mc_life c \<noteq> Claiming then (False, c)
      else let d = interfere race (c\<lparr>mc_life := Active\<rparr>) in
        if mc_life d \<noteq> Active \<or> \<not> mc_open d then (False, conn_retire d) else (True, d))"

definition conn_SetBusinessAuthKeyID :: "auth_key_id \<Rightarrow> mconn \<Rightarrow> mconn" where
  "conn_SetBusinessAuthKeyID b c =
     (if mc_business c \<noteq> Some b
      then c\<lparr>mc_business := Some b, mc_user := 0, mc_userResolved := False\<rparr> else c)"

definition connUsesBusinessAuthKey :: "mconn \<Rightarrow> auth_key_id \<Rightarrow> bool" where
  "connUsesBusinessAuthKey c a =
     (case mc_business c of Some b \<Rightarrow> b = a | None \<Rightarrow> fst (mc_key c) = a)"

section \<open>The manager\<close>

definition maxPendingPushesPerSession :: nat where "maxPendingPushesPerSession = 32"
definition maxFlushAttempts :: nat where "maxFlushAttempts = 5"
definition pendingPushMaxAge :: int where "pendingPushMaxAge = 60 * 1000000000"
definition defaultPendingPushMaxBytes :: int where "defaultPendingPushMaxBytes = 256 * 2 ^ 20"
definition maxSessionsPerAuthKey :: nat where "maxSessionsPerAuthKey = 256"
definition maxChannelIndexPerSession :: nat where "maxChannelIndexPerSession = 8192"
definition maxChannelSubscriptionsPerSession :: nat where "maxChannelSubscriptionsPerSession = 10"
definition defaultChannelSubscriptionTTL :: int where "defaultChannelSubscriptionTTL = 75 * 1000000000"
definition maxChannelSubscriptionTTL :: int where "maxChannelSubscriptionTTL = 120 * 1000000000"
definition logicalSessionOfflineTTL :: int where "logicalSessionOfflineTTL = 360 * 1000000000"

text \<open>
  A kept push names the shared reservation of its body. Its payload type stands for the frozen fan-out,
  which other files encode per layer profile.
\<close>

record 'p queued_push =
  qp_updates :: 'p
  qp_reservation :: nat
  qp_at :: int

record push_reservation =
  pr_bytes :: int
  pr_refs :: int
  pr_profiles :: "int list"

record channel_index =
  ci_byChannel :: "int \<Rightarrow> (session_key \<times> int) list"
  ci_bySession :: "session_key \<Rightarrow> int list"

record channel_subscription =
  cs_user :: int
  cs_expiresAt :: int

record subscription_index =
  si_byChannel :: "int \<Rightarrow> (session_key \<times> channel_subscription) list"
  si_bySession :: "session_key \<Rightarrow> (int \<times> int) list"

record logical_session =
  ls_outbound :: nat
  ls_offlineAt :: "int option"
  ls_business :: "auth_key_id option"

record 'p session_manager =
  sm_conns :: "nat \<Rightarrow> mconn"
  sm_bySession :: "(session_key \<times> nat) list"
  sm_claims :: "(session_key \<times> nat) list"
  sm_claimsByAuth :: "auth_key_id \<Rightarrow> (int \<times> nat) list"
  sm_byAuthKey :: "auth_key_id \<Rightarrow> (int \<times> nat) list"
  sm_byBusiness :: "auth_key_id \<Rightarrow> (session_key \<times> nat) list"
  sm_byUser :: "int \<Rightarrow> (session_key \<times> nat) list"
  sm_interest :: channel_index
  sm_members :: channel_index
  sm_subs :: subscription_index
  sm_pending :: "(session_key \<times> 'p queued_push list) list"
  sm_flushing :: "session_key \<Rightarrow> bool"
  sm_logical :: "(session_key \<times> logical_session) list"
  sm_reservations :: "nat \<Rightarrow> push_reservation"
  sm_budget :: tracked_budget
  sm_panic :: bool

abbreviation owner_of :: "'p session_manager \<Rightarrow> session_key \<rightharpoonup> nat" where
  "owner_of m \<equiv> map_of (sm_bySession m)"

abbreviation claim_of :: "'p session_manager \<Rightarrow> session_key \<rightharpoonup> nat" where
  "claim_of m \<equiv> map_of (sm_claims m)"

definition pending_of :: "'p session_manager \<Rightarrow> session_key \<Rightarrow> 'p queued_push list" where
  "pending_of m k = (case map_of (sm_pending m) k of None \<Rightarrow> [] | Some q \<Rightarrow> q)"

abbreviation conn_key :: "'p session_manager \<Rightarrow> nat \<Rightarrow> session_key" where
  "conn_key m c \<equiv> mc_key (sm_conns m c)"

definition on_conn :: "(mconn \<Rightarrow> mconn) \<Rightarrow> nat \<Rightarrow> 'p session_manager \<Rightarrow> 'p session_manager" where
  "on_conn f c m = m\<lparr>sm_conns := (sm_conns m)(c := f (sm_conns m c))\<rparr>"

abbreviation retire_conn :: "nat \<Rightarrow> 'p session_manager \<Rightarrow> 'p session_manager" where
  "retire_conn \<equiv> on_conn conn_retire"

definition NewSessionManager :: "(nat \<Rightarrow> mconn) \<Rightarrow> 'p session_manager" where
  "NewSessionManager cs =
     \<lparr>sm_conns = cs, sm_bySession = [], sm_claims = [], sm_claimsByAuth = (\<lambda>_. []), sm_byAuthKey = (\<lambda>_. []),
      sm_byBusiness = (\<lambda>_. []), sm_byUser = (\<lambda>_. []),
      sm_interest = \<lparr>ci_byChannel = (\<lambda>_. []), ci_bySession = (\<lambda>_. [])\<rparr>,
      sm_members = \<lparr>ci_byChannel = (\<lambda>_. []), ci_bySession = (\<lambda>_. [])\<rparr>,
      sm_subs = \<lparr>si_byChannel = (\<lambda>_. []), si_bySession = (\<lambda>_. [])\<rparr>,
      sm_pending = [], sm_flushing = (\<lambda>_. False), sm_logical = [],
      sm_reservations = (\<lambda>_. \<lparr>pr_bytes = 0, pr_refs = 0, pr_profiles = []\<rparr>),
      sm_budget = newOutboundTrackedBudget defaultPendingPushMaxBytes, sm_panic = False\<rparr>"

section \<open>Nested indexes\<close>

definition addConnIndex :: "('k \<Rightarrow> ('i \<times> nat) list) \<Rightarrow> 'k \<Rightarrow> 'i \<Rightarrow> nat \<Rightarrow> 'k \<Rightarrow> ('i \<times> nat) list" where
  "addConnIndex idx k i c = idx(k := AList.update i c (idx k))"

definition removeConnIndex :: "('k \<Rightarrow> ('i \<times> nat) list) \<Rightarrow> 'k \<Rightarrow> 'i \<Rightarrow> 'k \<Rightarrow> ('i \<times> nat) list" where
  "removeConnIndex idx k i = idx(k := AList.delete i (idx k))"

definition addBusinessAuthKeyIndex ::
  "(auth_key_id \<Rightarrow> (session_key \<times> nat) list) \<Rightarrow> auth_key_id \<Rightarrow> session_key \<Rightarrow> nat \<Rightarrow>
     auth_key_id \<Rightarrow> (session_key \<times> nat) list" where
  "addBusinessAuthKeyIndex idx a k c = idx(a := AList.update k c (idx a))"

definition removeBusinessAuthKeyIndex ::
  "(auth_key_id \<Rightarrow> (session_key \<times> nat) list) \<Rightarrow> auth_key_id \<Rightarrow> session_key \<Rightarrow>
     auth_key_id \<Rightarrow> (session_key \<times> nat) list" where
  "removeBusinessAuthKeyIndex idx a k = idx(a := AList.delete k (idx a))"

definition addUserIndex ::
  "(int \<Rightarrow> (session_key \<times> nat) list) \<Rightarrow> int \<Rightarrow> session_key \<Rightarrow> nat \<Rightarrow> int \<Rightarrow> (session_key \<times> nat) list" where
  "addUserIndex idx u k c = idx(u := AList.update k c (idx u))"

definition removeUserIndex ::
  "(int \<Rightarrow> (session_key \<times> nat) list) \<Rightarrow> int \<Rightarrow> session_key \<Rightarrow> int \<Rightarrow> (session_key \<times> nat) list" where
  "removeUserIndex idx u k = idx(u := AList.delete k (idx u))"

lemmas index_defs = addConnIndex_def removeConnIndex_def addBusinessAuthKeyIndex_def
  removeBusinessAuthKeyIndex_def addUserIndex_def removeUserIndex_def

section \<open>Kept pushes\<close>

definition push_retain :: "nat \<Rightarrow> 'p session_manager \<Rightarrow> 'p session_manager" where
  "push_retain r m =
     (let refs = pr_refs (sm_reservations m r) + 1;
          m1 = m\<lparr>sm_reservations := (sm_reservations m)(r := (sm_reservations m r)\<lparr>pr_refs := refs\<rparr>)\<rparr> in
      if refs \<le> 1 then m1\<lparr>sm_panic := True\<rparr> else m1)"

definition push_release :: "nat \<Rightarrow> 'p session_manager \<Rightarrow> 'p session_manager" where
  "push_release r m =
     (let refs = pr_refs (sm_reservations m r) - 1;
          m1 = m\<lparr>sm_reservations := (sm_reservations m)(r := (sm_reservations m r)\<lparr>pr_refs := refs\<rparr>)\<rparr> in
      if refs < 0 then m1\<lparr>sm_panic := True\<rparr>
      else if refs = 0 then
        (case tracked_release (pr_bytes (sm_reservations m r)) (sm_budget m) of
           None \<Rightarrow> m1\<lparr>sm_panic := True\<rparr> | Some b \<Rightarrow> m1\<lparr>sm_budget := b\<rparr>)
      else m1)"

definition reservePrepared :: "nat \<Rightarrow> int \<Rightarrow> int \<Rightarrow> 'p session_manager \<Rightarrow> bool \<times> 'p session_manager" where
  "reservePrepared r profile bytes m =
     (let rs = sm_reservations m r in
      if bytes < 0 then (False, m)
      else if profile \<in> set (pr_profiles rs) then (True, m)
      else case tracked_reserve bytes (sm_budget m) of
        (False, b) \<Rightarrow> (False, m)
      | (True, b) \<Rightarrow> (True, m\<lparr>sm_budget := b, sm_reservations := (sm_reservations m)(r :=
          rs\<lparr>pr_profiles := profile # pr_profiles rs, pr_bytes := pr_bytes rs + bytes\<rparr>)\<rparr>))"

definition releaseQueuedPushes :: "'p queued_push list \<Rightarrow> 'p session_manager \<Rightarrow> 'p session_manager" where
  "releaseQueuedPushes qs m = fold (\<lambda>q. push_release (qp_reservation q)) qs m"

definition deletePendingLocked :: "session_key \<Rightarrow> 'p session_manager \<Rightarrow> 'p session_manager" where
  "deletePendingLocked k m =
     releaseQueuedPushes (pending_of m k) (m\<lparr>sm_pending := AList.delete k (sm_pending m)\<rparr>)"

definition stop_flushing :: "session_key \<Rightarrow> 'p session_manager \<Rightarrow> 'p session_manager" where
  "stop_flushing k m = m\<lparr>sm_flushing := (sm_flushing m)(k := False)\<rparr>"

section \<open>Channel indexes\<close>

fun trackChannelIndex :: "session_key \<Rightarrow> int \<Rightarrow> int list \<Rightarrow> channel_index \<Rightarrow> channel_index" where
  "trackChannelIndex k u [] x = x"
| "trackChannelIndex k u (ch # chs) x =
     trackChannelIndex k u chs
       (if ch = 0 \<or> (ch \<notin> set (ci_bySession x k) \<and> length (ci_bySession x k) \<ge> maxChannelIndexPerSession)
        then x
        else x\<lparr>ci_bySession := (ci_bySession x)(k := List.insert ch (ci_bySession x k)),
               ci_byChannel := (ci_byChannel x)(ch := AList.update k u (ci_byChannel x ch))\<rparr>)"

definition clearChannelIndex :: "session_key \<Rightarrow> channel_index \<Rightarrow> channel_index" where
  "clearChannelIndex k x =
     \<lparr>ci_byChannel = fold (\<lambda>ch idx. idx(ch := AList.delete k (idx ch))) (ci_bySession x k) (ci_byChannel x),
      ci_bySession = (ci_bySession x)(k := [])\<rparr>"

definition removeChannelIndex :: "session_key \<Rightarrow> int \<Rightarrow> channel_index \<Rightarrow> channel_index" where
  "removeChannelIndex k ch x =
     \<lparr>ci_byChannel = (ci_byChannel x)(ch := AList.delete k (ci_byChannel x ch)),
      ci_bySession = (ci_bySession x)(k := removeAll ch (ci_bySession x k))\<rparr>"

definition clearChannelSubscriptions :: "session_key \<Rightarrow> subscription_index \<Rightarrow> subscription_index" where
  "clearChannelSubscriptions k x =
     \<lparr>si_byChannel = fold (\<lambda>ch idx. idx(ch := AList.delete k (idx ch))) (map fst (si_bySession x k)) (si_byChannel x),
      si_bySession = (si_bySession x)(k := [])\<rparr>"

definition removeChannelSubscription :: "session_key \<Rightarrow> int \<Rightarrow> subscription_index \<Rightarrow> subscription_index" where
  "removeChannelSubscription k ch x =
     \<lparr>si_byChannel = (si_byChannel x)(ch := AList.delete k (si_byChannel x ch)),
      si_bySession = (si_bySession x)(k := AList.delete ch (si_bySession x k))\<rparr>"

definition pruneSessionSubscriptions :: "session_key \<Rightarrow> int \<Rightarrow> subscription_index \<Rightarrow> subscription_index" where
  "pruneSessionSubscriptions k now x =
     fold (\<lambda>(ch, e) y. if e \<le> now then removeChannelSubscription k ch y else y) (si_bySession x k) x"

definition clearChannelInterestsLocked :: "session_key \<Rightarrow> 'p session_manager \<Rightarrow> 'p session_manager" where
  "clearChannelInterestsLocked k m = m\<lparr>sm_interest := clearChannelIndex k (sm_interest m)\<rparr>"

definition clearChannelMembershipsLocked :: "nat \<Rightarrow> session_key \<Rightarrow> 'p session_manager \<Rightarrow> 'p session_manager" where
  "clearChannelMembershipsLocked c k m =
     (on_conn (\<lambda>d. d\<lparr>mc_gen := mc_gen d + 1\<rparr>) c m)\<lparr>sm_members := clearChannelIndex k (sm_members m)\<rparr>"

definition clearSessionChannelIndexesLocked :: "nat \<Rightarrow> session_key \<Rightarrow> 'p session_manager \<Rightarrow> 'p session_manager" where
  "clearSessionChannelIndexesLocked c k m =
     (let m1 = clearChannelInterestsLocked k m;
          m2 = m1\<lparr>sm_subs := clearChannelSubscriptions k (sm_subs m1)\<rparr> in
      clearChannelMembershipsLocked c k m2)"

end
