(* ===== verification/Session_Activation.thy ===== *)
theory Session_Activation
  imports Session_Types
begin

text \<open>
  Ownership of a session: claims, publication, retirement and removal (session_manager.go), and the
  logical sessions that outlive a connection (logical_session.go). Each definition is one critical
  section. Closing transports and waiting for writers happens outside the lock: the connections to
  close are returned, and whether the wait succeeded is an argument of the step that follows.
\<close>

section \<open>Logical sessions\<close>

definition attachLogicalSession :: "nat \<Rightarrow> nat \<Rightarrow> 'p session_manager \<Rightarrow> nat \<times> 'p session_manager" where
  "attachLogicalSession fresh c m =
     (let k = conn_key m c;
          old = (case map_of (sm_logical m) k of
                   None \<Rightarrow> \<lparr>ls_outbound = fresh, ls_offlineAt = None, ls_business = None\<rparr> | Some l \<Rightarrow> l);
          l = old\<lparr>ls_business := (case mc_business (sm_conns m c) of None \<Rightarrow> ls_business old | Some b \<Rightarrow> Some b),
                  ls_offlineAt := None\<rparr> in
      (ls_outbound l, m\<lparr>sm_logical := AList.update k l (sm_logical m)\<rparr>))"

definition markLogicalSessionOfflineLocked :: "session_key \<Rightarrow> int \<Rightarrow> 'p session_manager \<Rightarrow> 'p session_manager" where
  "markLogicalSessionOfflineLocked k now m =
     (case map_of (sm_logical m) k of
        None \<Rightarrow> m
      | Some l \<Rightarrow>
          if owner_of m k \<noteq> None \<or> claim_of m k \<noteq> None then m
          else if ls_offlineAt l = None
          then m\<lparr>sm_logical := AList.update k (l\<lparr>ls_offlineAt := Some now\<rparr>) (sm_logical m)\<rparr>
          else m)"

definition destroyLogicalSessionLocked ::
  "session_key \<Rightarrow> 'p session_manager \<Rightarrow> nat option \<times> 'p session_manager" where
  "destroyLogicalSessionLocked k m =
     (case map_of (sm_logical m) k of
        None \<Rightarrow> (None, m)
      | Some l \<Rightarrow> (Some (ls_outbound l), m\<lparr>sm_logical := AList.delete k (sm_logical m)\<rparr>))"

definition bindLogicalSessionAuthKeyLocked ::
  "session_key \<Rightarrow> auth_key_id \<Rightarrow> 'p session_manager \<Rightarrow> 'p session_manager" where
  "bindLogicalSessionAuthKeyLocked k b m =
     (case map_of (sm_logical m) k of
        None \<Rightarrow> m
      | Some l \<Rightarrow> m\<lparr>sm_logical := AList.update k (l\<lparr>ls_business := Some b\<rparr>) (sm_logical m)\<rparr>)"

definition ForgetLogicalSessionsForRawAuthKey ::
  "auth_key_id \<Rightarrow> 'p session_manager \<Rightarrow> (session_key \<times> nat) list \<times> 'p session_manager" where
  "ForgetLogicalSessionsForRawAuthKey a m =
     (map (\<lambda>(k, l). (k, ls_outbound l)) (filter (\<lambda>(k, l). fst k = a) (sm_logical m)),
      m\<lparr>sm_logical := filter (\<lambda>(k, l). fst k \<noteq> a) (sm_logical m)\<rparr>)"

text \<open>The sweep forgets what has been offline for six minutes and has not come back.\<close>

definition logical_expired :: "int \<Rightarrow> logical_session \<Rightarrow> bool" where
  "logical_expired now l =
     (case ls_offlineAt l of None \<Rightarrow> False | Some t \<Rightarrow> now - t \<ge> logicalSessionOfflineTTL)"

definition logical_held :: "'p session_manager \<Rightarrow> session_key \<Rightarrow> bool" where
  "logical_held m k \<longleftrightarrow> owner_of m k \<noteq> None \<or> claim_of m k \<noteq> None"

definition sweepLogicalSessions ::
  "int \<Rightarrow> 'p session_manager \<Rightarrow> (session_key \<times> nat) list \<times> 'p session_manager" where
  "sweepLogicalSessions now m =
     (map (\<lambda>(k, l). (k, ls_outbound l))
        (filter (\<lambda>(k, l). logical_expired now l \<and> \<not> logical_held m k) (sm_logical m)),
      m\<lparr>sm_logical := map (\<lambda>(k, l). (k, if logical_expired now l then l\<lparr>ls_offlineAt := None\<rparr> else l))
        (filter (\<lambda>(k, l). \<not> (logical_expired now l \<and> \<not> logical_held m k)) (sm_logical m))\<rparr>)"

definition releaseAllLogicalSessions ::
  "'p session_manager \<Rightarrow> (session_key \<times> nat) list \<times> 'p session_manager" where
  "releaseAllLogicalSessions m =
     (map (\<lambda>(k, l). (k, ls_outbound l)) (sm_logical m), m\<lparr>sm_logical := []\<rparr>)"

section \<open>Claims and owners\<close>

definition addClaimLocked :: "session_key \<Rightarrow> nat \<Rightarrow> 'p session_manager \<Rightarrow> 'p session_manager" where
  "addClaimLocked k c m =
     m\<lparr>sm_claims := AList.update k c (sm_claims m),
       sm_claimsByAuth := addConnIndex (sm_claimsByAuth m) (fst k) (snd k) c\<rparr>"

definition removeClaimLocked :: "session_key \<Rightarrow> nat \<Rightarrow> 'p session_manager \<Rightarrow> 'p session_manager" where
  "removeClaimLocked k c m =
     (if claim_of m k \<noteq> Some c then m
      else m\<lparr>sm_claims := AList.delete k (sm_claims m),
             sm_claimsByAuth := removeConnIndex (sm_claimsByAuth m) (fst k) (snd k)\<rparr>)"

text \<open>The indexes of an owner, removed together.\<close>

definition unindex_owner :: "session_key \<Rightarrow> nat \<Rightarrow> 'p session_manager \<Rightarrow> 'p session_manager" where
  "unindex_owner k c m =
     (let d = sm_conns m c in
      m\<lparr>sm_bySession := AList.delete k (sm_bySession m),
        sm_byAuthKey := removeConnIndex (sm_byAuthKey m) (fst k) (snd k),
        sm_byBusiness := (case mc_business d of None \<Rightarrow> sm_byBusiness m
           | Some b \<Rightarrow> removeBusinessAuthKeyIndex (sm_byBusiness m) b k),
        sm_byUser := (if mc_user d \<noteq> 0 then removeUserIndex (sm_byUser m) (mc_user d) k else sm_byUser m)\<rparr>)"

definition removeLocked :: "nat \<Rightarrow> bool \<Rightarrow> 'p session_manager \<Rightarrow> int \<times> 'p session_manager" where
  "removeLocked c dropPending m =
     (let k = conn_key m c in
      if owner_of m k \<noteq> Some c then (0, m)
      else
        let m1 = unindex_owner k c m;
            m2 = clearSessionChannelIndexesLocked c k m1;
            m3 = (if dropPending then deletePendingLocked k m2 else m2) in
        (mc_user (sm_conns m c), stop_flushing k m3))"

definition retireConnLocked :: "nat \<Rightarrow> bool \<Rightarrow> 'p session_manager \<Rightarrow> int \<times> 'p session_manager" where
  "retireConnLocked c dropPending m = removeLocked c dropPending (retire_conn c m)"

definition retireClaimLocked :: "session_key \<Rightarrow> nat \<Rightarrow> bool \<Rightarrow> 'p session_manager \<Rightarrow> 'p session_manager" where
  "retireClaimLocked k c dropPending m =
     (if claim_of m k \<noteq> Some c then m
      else
        let m1 = removeClaimLocked k c (retire_conn c m);
            m2 = (if dropPending \<and> owner_of m1 k = None then deletePendingLocked k m1 else m1) in
        stop_flushing k m2)"

text \<open>The oldest owner or claim of an auth key other than the connection itself, owners first on a tie.\<close>

fun older :: "'p session_manager \<Rightarrow> nat \<Rightarrow> bool \<Rightarrow> int \<times> nat \<Rightarrow> (int \<times> nat \<times> bool) option \<Rightarrow> (int \<times> nat \<times> bool) option" where
  "older m exclude isClaim (sid, c) best =
     (if c = exclude then best
      else case best of
        None \<Rightarrow> Some (sid, c, isClaim)
      | Some (_, b, _) \<Rightarrow>
          if mc_created (sm_conns m c) < mc_created (sm_conns m b) then Some (sid, c, isClaim) else best)"

definition oldestAuthOwnerLocked ::
  "auth_key_id \<Rightarrow> nat \<Rightarrow> 'p session_manager \<Rightarrow> (int \<times> nat \<times> bool) option" where
  "oldestAuthOwnerLocked a exclude m =
     fold (older m exclude True) (sm_claimsByAuth m a)
       (fold (older m exclude False) (sm_byAuthKey m a) None)"

definition auth_load :: "auth_key_id \<Rightarrow> 'p session_manager \<Rightarrow> nat" where
  "auth_load a m = length (sm_byAuthKey m a) + length (sm_claimsByAuth m a)"

definition evict_one :: "auth_key_id \<Rightarrow> int \<times> nat \<times> bool \<Rightarrow> 'p session_manager \<Rightarrow> 'p session_manager" where
  "evict_one a v m =
     (case v of (sid, c, isClaim) \<Rightarrow>
        if isClaim then retireClaimLocked (a, sid) c True m else snd (retireConnLocked c True m))"

text \<open>
  The eviction loop. It recurs on the load of the auth key, which each round lowers; a round that did
  not lower it would repeat for ever in the code and is the value \<open>None\<close> here.
\<close>

function evict_over_cap :: "nat \<Rightarrow> auth_key_id \<Rightarrow> 'p session_manager \<Rightarrow> (nat list \<times> 'p session_manager) option" where
  "evict_over_cap c a m =
     (if auth_load a m < maxSessionsPerAuthKey then Some ([], m)
      else case oldestAuthOwnerLocked a c m of
        None \<Rightarrow> Some ([], m)
      | Some v \<Rightarrow>
          let m1 = evict_one a v m in
          if auth_load a m1 < auth_load a m
          then map_option (\<lambda>(cs, m2). (fst (snd v) # cs, m2)) (evict_over_cap c a m1)
          else None)"
  by pat_completeness auto
termination by (relation "measure (\<lambda>(c, a, m). auth_load a m)") auto

declare evict_over_cap.simps [simp del]

section \<open>Activation\<close>

datatype activation_error = ErrSessionActivationSuperseded | ErrSessionActivationFence | ErrActivationConnClosed

text \<open>
  \<open>BeginActivation\<close>: the claim on the connection itself, the critical section, and the outcome of
  closing the connections it replaced.
\<close>

definition begin_claim :: "interference \<Rightarrow> nat \<Rightarrow> 'p session_manager \<Rightarrow> bool \<times> 'p session_manager" where
  "begin_claim race c m =
     (case conn_beginActivationClaim race (sm_conns m c) of (ok, d) \<Rightarrow> (ok, on_conn (\<lambda>_. d) c m))"

definition take_over :: "nat \<Rightarrow> 'p session_manager \<Rightarrow> nat list \<times> 'p session_manager" where
  "take_over c m =
     (let k = conn_key m c;
          (r1, m1) = (case claim_of m k of
             None \<Rightarrow> ([], m)
           | Some d \<Rightarrow> if d = c then ([], m) else ([d], retireClaimLocked k d False m));
          (r2, m2) = (case owner_of m1 k of
             None \<Rightarrow> ([], m1)
           | Some d \<Rightarrow> if d = c then ([], m1) else ([d], snd (retireConnLocked d False m1))) in
      (r1 @ r2, m2))"

definition begin_locked ::
  "nat \<Rightarrow> 'p session_manager \<Rightarrow> ((activation_error + nat list) \<times> 'p session_manager) option" where
  "begin_locked c m =
     (if \<not> mc_open (sm_conns m c) \<or> mc_life (sm_conns m c) \<noteq> Claiming
      then Some (Inl ErrActivationConnClosed, retire_conn c m)
      else
        let k = conn_key m c; (retired, m1) = take_over c m in
        map_option (\<lambda>(evicted, m2). (Inr (retired @ evicted), addClaimLocked k c m2))
          (evict_over_cap c (fst k) m1))"

definition AbortActivation :: "int \<Rightarrow> nat \<Rightarrow> 'p session_manager \<Rightarrow> nat list \<times> 'p session_manager" where
  "AbortActivation now c m =
     (let k = conn_key m c in
      if claim_of m k \<noteq> Some c then ([], m)
      else
        let m1 = removeClaimLocked k c (retire_conn c m);
            m2 = (if owner_of m1 k = None then stop_flushing k (deletePendingLocked k m1) else m1) in
        ([c], markLogicalSessionOfflineLocked k now m2))"

definition begin_finish ::
  "int \<Rightarrow> bool \<Rightarrow> nat \<Rightarrow> 'p session_manager \<Rightarrow> activation_error option \<times> 'p session_manager" where
  "begin_finish now closed c m =
     (if closed then (None, m) else (Some ErrSessionActivationFence, snd (AbortActivation now c m)))"

definition index_owner :: "session_key \<Rightarrow> nat \<Rightarrow> 'p session_manager \<Rightarrow> 'p session_manager" where
  "index_owner k c m =
     (let d = sm_conns m c;
          m1 = m\<lparr>sm_bySession := AList.update k c (sm_bySession m),
                 sm_byAuthKey := addConnIndex (sm_byAuthKey m) (fst k) (snd k) c,
                 sm_byBusiness := (case mc_business d of None \<Rightarrow> sm_byBusiness m
                    | Some b \<Rightarrow> addBusinessAuthKeyIndex (sm_byBusiness m) b k c)\<rparr> in
      if mc_user d \<noteq> 0
      then on_conn (\<lambda>x. x\<lparr>mc_userResolved := True\<rparr>) c
             (m1\<lparr>sm_byUser := addUserIndex (sm_byUser m1) (mc_user d) k c\<rparr>)
      else m1)"

definition PublishActivation ::
  "interference \<Rightarrow> nat \<Rightarrow> 'p session_manager \<Rightarrow> activation_error option \<times> 'p session_manager" where
  "PublishActivation race c m =
     (let k = conn_key m c in
      if claim_of m k \<noteq> Some c then (Some ErrSessionActivationSuperseded, m)
      else if mc_life (sm_conns m c) \<noteq> Claiming then (Some ErrActivationConnClosed, removeClaimLocked k c m)
      else if owner_of m k \<noteq> None \<and> owner_of m k \<noteq> Some c
      then (Some ErrSessionActivationSuperseded, retire_conn c (removeClaimLocked k c m))
      else case conn_publishActivation race (sm_conns m c) of
        (False, d) \<Rightarrow> (Some ErrActivationConnClosed, removeClaimLocked k c (on_conn (\<lambda>_. d) c m))
      | (True, d) \<Rightarrow> (None, index_owner k c (removeClaimLocked k c (on_conn (\<lambda>_. d) c m))))"

section \<open>Leaving\<close>

datatype session_event =
    SessionOffline session_key int bool
  | SessionDestroyed session_key
  | LogicalSessionReleased session_key nat

definition last_for_user :: "int \<Rightarrow> 'p session_manager \<Rightarrow> bool" where
  "last_for_user u m \<longleftrightarrow> u \<noteq> 0 \<and> sm_byUser m u = []"

definition Unregister :: "int \<Rightarrow> nat \<Rightarrow> 'p session_manager \<Rightarrow> session_event list \<times> 'p session_manager" where
  "Unregister now c m0 =
     (let m = retire_conn c m0; k = conn_key m c;
          m1 = (if claim_of m k = Some c
                then stop_flushing k (deletePendingLocked k (removeClaimLocked k c m)) else m);
          (ev, m2) = (if owner_of m1 k = Some c
             then (case removeLocked c True m1 of (u, m2) \<Rightarrow> ([SessionOffline k u (last_for_user u m2)], m2))
             else ([], m1)) in
      (ev, markLogicalSessionOfflineLocked k now m2))"

definition DestroySessionForAuthKey ::
  "auth_key_id \<Rightarrow> int \<Rightarrow> 'p session_manager \<Rightarrow> bool \<times> nat list \<times> session_event list \<times> 'p session_manager" where
  "DestroySessionForAuthKey a sid m =
     (let k = (a, sid);
          released = (\<lambda>ob. case ob of None \<Rightarrow> [] | Some s \<Rightarrow> [LogicalSessionReleased k s]) in
      case owner_of m k of
        None \<Rightarrow>
          (case claim_of m k of
             Some d \<Rightarrow>
               (case destroyLogicalSessionLocked k (retireClaimLocked k d True m) of
                  (ob, m1) \<Rightarrow> (True, [d], released ob @ [SessionDestroyed k], m1))
           | None \<Rightarrow>
               (case destroyLogicalSessionLocked k (deletePendingLocked k m) of
                  (ob, m1) \<Rightarrow> (False, [], released ob @ [SessionDestroyed k], m1)))
      | Some c \<Rightarrow>
          (case retireConnLocked c True m of
             (u, m1) \<Rightarrow>
               (case destroyLogicalSessionLocked k m1 of
                  (ob, m2) \<Rightarrow>
                    (True, [c], released ob @ (if u \<noteq> 0 then [SessionOffline k u (last_for_user u m2)] else [])
                       @ [SessionDestroyed k], m2))))"

end
