(* ===== verification/Session_Identity.thy ===== *)
theory Session_Identity
  imports Session_Activation
begin

text \<open>
  The identity of a session (session_manager.go): which business auth key and which user its
  connection is bound to, logout, and the forced closing of every connection of a revoked key. The
  queries the handlers use are here too.
\<close>

section \<open>Binding\<close>

definition unsync :: "mconn \<Rightarrow> mconn" where
  "unsync d = d\<lparr>mc_synced := False\<rparr>"

text \<open>What a change of identity discards: channel routes, kept pushes, and a running flush.\<close>

definition drop_session_state :: "nat \<Rightarrow> session_key \<Rightarrow> 'p session_manager \<Rightarrow> 'p session_manager" where
  "drop_session_state c k m =
     stop_flushing k (deletePendingLocked k (on_conn unsync c (clearSessionChannelIndexesLocked c k m)))"

definition bindUserLocked :: "nat \<Rightarrow> session_key \<Rightarrow> int \<Rightarrow> 'p session_manager \<Rightarrow> 'p session_manager" where
  "bindUserLocked c k u m =
     (let old = mc_user (sm_conns m c);
          m1 = on_conn (\<lambda>d. d\<lparr>mc_user := u\<rparr>) c m;
          m2 = (if old \<noteq> 0 then
                  (let m' = m1\<lparr>sm_byUser := removeUserIndex (sm_byUser m1) old k\<rparr> in
                   if old \<noteq> u then drop_session_state c k m' else m')
                else m1);
          m3 = on_conn (\<lambda>d. d\<lparr>mc_userResolved := True\<rparr>) c m2 in
      if u \<noteq> 0 then m3\<lparr>sm_byUser := addUserIndex (sm_byUser m3) u k c\<rparr> else drop_session_state c k m3)"

definition BindUserForAuthKey :: "auth_key_id \<Rightarrow> int \<Rightarrow> int \<Rightarrow> 'p session_manager \<Rightarrow> 'p session_manager" where
  "BindUserForAuthKey a sid u m =
     (case owner_of m (a, sid) of None \<Rightarrow> m | Some c \<Rightarrow> bindUserLocked c (a, sid) u m)"

definition bindAuthKeyLocked :: "nat \<Rightarrow> session_key \<Rightarrow> auth_key_id \<Rightarrow> 'p session_manager \<Rightarrow> 'p session_manager" where
  "bindAuthKeyLocked c k b m =
     (let d = sm_conns m c; changed = (mc_business d \<noteq> Some b); oldUser = mc_user d;
          m1 = (case mc_business d of None \<Rightarrow> m
                | Some old \<Rightarrow> m\<lparr>sm_byBusiness := removeBusinessAuthKeyIndex (sm_byBusiness m) old k\<rparr>);
          m2 = bindLogicalSessionAuthKeyLocked k b (on_conn (conn_SetBusinessAuthKeyID b) c m1);
          m3 = m2\<lparr>sm_byBusiness := addBusinessAuthKeyIndex (sm_byBusiness m2) b k c\<rparr> in
      if changed then
        (let m4 = (if oldUser \<noteq> 0 then m3\<lparr>sm_byUser := removeUserIndex (sm_byUser m3) oldUser k\<rparr> else m3) in
         on_conn (\<lambda>x. x\<lparr>mc_user := 0, mc_userResolved := False\<rparr>) c (drop_session_state c k m4))
      else m3)"

definition BindAuthKeyForSession :: "auth_key_id \<Rightarrow> int \<Rightarrow> auth_key_id \<Rightarrow> 'p session_manager \<Rightarrow> 'p session_manager" where
  "BindAuthKeyForSession a sid b m =
     (case owner_of m (a, sid) of None \<Rightarrow> m | Some c \<Rightarrow> bindAuthKeyLocked c (a, sid) b m)"

definition bind_raw_one :: "auth_key_id \<Rightarrow> auth_key_id \<Rightarrow> int \<times> nat \<Rightarrow> nat \<times> 'p session_manager \<Rightarrow> nat \<times> 'p session_manager" where
  "bind_raw_one a b e nm =
     (case e of (sid, c) \<Rightarrow> case nm of (n, m) \<Rightarrow>
        if owner_of m (a, sid) \<noteq> Some c then (n, m) else (n + 1, bindAuthKeyLocked c (a, sid) b m))"

definition BindAuthKeyForRawAuthKey :: "auth_key_id \<Rightarrow> auth_key_id \<Rightarrow> 'p session_manager \<Rightarrow> nat \<times> 'p session_manager" where
  "BindAuthKeyForRawAuthKey a b m = fold (bind_raw_one a b) (sm_byAuthKey m a) (0, m)"

section \<open>Logout and revocation\<close>

definition businessAuthKeyCandidatesLocked :: "auth_key_id \<Rightarrow> 'p session_manager \<Rightarrow> (session_key \<times> nat) list" where
  "businessAuthKeyCandidatesLocked a m =
     fold (\<lambda>(k, c) out. if owner_of m k = Some c then AList.update k c out else out)
       (sm_byBusiness m a @ map (\<lambda>(sid, c). ((a, sid), c)) (sm_byAuthKey m a)) []"

definition unbind_one :: "auth_key_id \<Rightarrow> session_key \<times> nat \<Rightarrow> nat \<times> 'p session_manager \<Rightarrow> nat \<times> 'p session_manager" where
  "unbind_one a e nm =
     (case e of (k, c) \<Rightarrow> case nm of (n, m) \<Rightarrow>
        if \<not> connUsesBusinessAuthKey (sm_conns m c) a then (n, m)
        else
          let old = mc_user (sm_conns m c);
              m1 = on_conn (\<lambda>d. d\<lparr>mc_user := 0\<rparr>) c m;
              m2 = (if old \<noteq> 0 then m1\<lparr>sm_byUser := removeUserIndex (sm_byUser m1) old k\<rparr> else m1) in
          (n + 1, on_conn (\<lambda>d. d\<lparr>mc_userResolved := True\<rparr>) c (drop_session_state c k m2)))"

definition UnbindAuthKey :: "auth_key_id \<Rightarrow> 'p session_manager \<Rightarrow> nat \<times> 'p session_manager" where
  "UnbindAuthKey a m = fold (unbind_one a) (businessAuthKeyCandidatesLocked a m) (0, m)"

text \<open>A forced close collects the connections to close and the offline events, then retires the claims.\<close>

type_synonym 'p closing = "nat list \<times> session_event list \<times> 'p session_manager"

definition close_owner :: "(session_key \<Rightarrow> nat \<Rightarrow> mconn \<Rightarrow> bool) \<Rightarrow> session_key \<times> nat \<Rightarrow> 'p closing \<Rightarrow> 'p closing" where
  "close_owner skip e acc =
     (case e of (k, c) \<Rightarrow> case acc of (cs, ev, m) \<Rightarrow>
        if skip k c (sm_conns m c) then acc
        else case retireConnLocked c True m of
          (u, m1) \<Rightarrow> (cs @ [c], ev @ [SessionOffline k u (last_for_user u m1)], m1))"

definition close_claim :: "(session_key \<Rightarrow> nat \<Rightarrow> mconn \<Rightarrow> bool) \<Rightarrow> session_key \<times> nat \<Rightarrow> 'p closing \<Rightarrow> 'p closing" where
  "close_claim skip e acc =
     (case e of (k, c) \<Rightarrow> case acc of (cs, ev, m) \<Rightarrow>
        if skip k c (sm_conns m c) then acc else (cs @ [c], ev, retireClaimLocked k c True m))"

definition CloseSessionsForBusinessAuthKey :: "auth_key_id \<Rightarrow> 'p session_manager \<Rightarrow> 'p closing" where
  "CloseSessionsForBusinessAuthKey a m =
     (let skip = (\<lambda>_ c d. \<not> connUsesBusinessAuthKey d a);
          acc = fold (close_owner skip) (businessAuthKeyCandidatesLocked a m) ([], [], m) in
      case fold (close_claim skip) (sm_claims m) acc of (cs, ev, m1) \<Rightarrow>
        let gone = (\<lambda>(k, l). fst k = a \<or> ls_business l = Some a) in
        (cs, map (\<lambda>(k, l). LogicalSessionReleased k (ls_outbound l)) (filter gone (sm_logical m1)) @ ev,
         m1\<lparr>sm_logical := filter (\<lambda>e. \<not> gone e) (sm_logical m1)\<rparr>))"

definition closeSessionsForRawAuthKey :: "auth_key_id \<Rightarrow> (int \<Rightarrow> nat \<Rightarrow> bool) \<Rightarrow> 'p session_manager \<Rightarrow> 'p closing" where
  "closeSessionsForRawAuthKey a skip m =
     (let entries = map (\<lambda>(sid, c). ((a, sid), c));
          skips = (\<lambda>k c d. skip (snd k) c);
          acc = fold (close_owner skips) (entries (sm_byAuthKey m a)) ([], [], m) in
      fold (close_claim skips) (entries (sm_claimsByAuth m a)) acc)"

definition CloseSessionsForRawAuthKeyExcept :: "auth_key_id \<Rightarrow> int \<Rightarrow> 'p session_manager \<Rightarrow> 'p closing" where
  "CloseSessionsForRawAuthKeyExcept a except m = closeSessionsForRawAuthKey a (\<lambda>sid _. sid = except) m"

definition CloseSessionsForRawAuthKeyExceptConn :: "auth_key_id \<Rightarrow> nat \<Rightarrow> 'p session_manager \<Rightarrow> 'p closing" where
  "CloseSessionsForRawAuthKeyExceptConn a except m = closeSessionsForRawAuthKey a (\<lambda>_ c. c = except) m"

section \<open>Queries\<close>

definition UserIDResolvedForAuthKey :: "auth_key_id \<Rightarrow> int \<Rightarrow> 'p session_manager \<Rightarrow> int \<times> bool" where
  "UserIDResolvedForAuthKey a sid m =
     (case owner_of m (a, sid) of None \<Rightarrow> (0, False)
      | Some c \<Rightarrow> (mc_user (sm_conns m c), mc_userResolved (sm_conns m c)))"

definition AuthKeyIDForSession :: "auth_key_id \<Rightarrow> int \<Rightarrow> 'p session_manager \<Rightarrow> auth_key_id option" where
  "AuthKeyIDForSession a sid m =
     (case owner_of m (a, sid) of None \<Rightarrow> None | Some c \<Rightarrow> mc_business (sm_conns m c))"

definition ReceivesUpdatesForAuthKey :: "auth_key_id \<Rightarrow> int \<Rightarrow> 'p session_manager \<Rightarrow> bool" where
  "ReceivesUpdatesForAuthKey a sid m =
     (case owner_of m (a, sid) of None \<Rightarrow> False
      | Some c \<Rightarrow> let d = sm_conns m c in mc_profile d \<noteq> None \<and> mc_receives d \<and> mc_synced d)"

definition ActiveRawAuthKeyIDs :: "'p session_manager \<Rightarrow> auth_key_id list" where
  "ActiveRawAuthKeyIDs m = remdups (map (fst \<circ> fst) (sm_bySession m))"

definition IsUserOnline :: "int \<Rightarrow> 'p session_manager \<Rightarrow> bool" where
  "IsUserOnline u m \<longleftrightarrow> u \<noteq> 0 \<and> sm_byUser m u \<noteq> []"

text \<open>The loops that collect distinct users up to a positive limit.\<close>

fun collect_users :: "int \<Rightarrow> (int \<Rightarrow> bool) \<Rightarrow> int list \<Rightarrow> int list \<Rightarrow> int list" where
  "collect_users limit keep [] out = rev out"
| "collect_users limit keep (u # us) out =
     (if u = 0 \<or> u \<in> set out \<or> \<not> keep u then collect_users limit keep us out
      else if 0 < limit \<and> int (length (u # out)) \<ge> limit then rev (u # out)
      else collect_users limit keep us (u # out))"

definition OnlineUserIDsForCandidates :: "int list \<Rightarrow> int \<Rightarrow> 'p session_manager \<Rightarrow> int list" where
  "OnlineUserIDsForCandidates candidates limit m =
     collect_users limit (\<lambda>u. sm_byUser m u \<noteq> []) candidates []"

end
