(* ===== verification/Session_Channels.thy ===== *)
theory Session_Channels
  imports Session_Identity
begin

text \<open>
  Channel routing (session_manager.go): the channels a session looks at, is joined to, or polls. The
  three indexes map a channel to the sessions it concerns, with a reverse map per session.
\<close>

definition live_user :: "'p session_manager \<Rightarrow> session_key \<Rightarrow> int \<Rightarrow> bool" where
  "live_user m k u = (case owner_of m k of None \<Rightarrow> False | Some c \<Rightarrow> mc_user (sm_conns m c) = u)"

definition TrackChannelInterest :: "session_key \<Rightarrow> int \<Rightarrow> int list \<Rightarrow> 'p session_manager \<Rightarrow> 'p session_manager" where
  "TrackChannelInterest k u chs m =
     (if u = 0 \<or> \<not> live_user m k u then m
      else
        let m1 = clearChannelInterestsLocked k m in
        if chs = [] then m1 else m1\<lparr>sm_interest := trackChannelIndex k u chs (sm_interest m1)\<rparr>)"

definition ClearChannelInterest :: "session_key \<Rightarrow> int \<Rightarrow> 'p session_manager \<Rightarrow> 'p session_manager" where
  "ClearChannelInterest k u m = (if u = 0 \<or> \<not> live_user m k u then m else clearChannelInterestsLocked k m)"

definition RefreshChannelSubscription ::
  "int \<Rightarrow> session_key \<Rightarrow> int \<Rightarrow> int \<Rightarrow> int \<Rightarrow> 'p session_manager \<Rightarrow> 'p session_manager" where
  "RefreshChannelSubscription now k u ch ttl m =
     (if u = 0 \<or> ch = 0 then m
      else
        let ttl' = (if ttl \<le> 0 then defaultChannelSubscriptionTTL
                    else if ttl > maxChannelSubscriptionTTL then maxChannelSubscriptionTTL else ttl);
            expiresAt = now + ttl' in
        if \<not> live_user m k u then m
        else
          let x = pruneSessionSubscriptions k now (sm_subs m); chs = si_bySession x k in
          if map_of chs ch = None \<and> length chs \<ge> maxChannelSubscriptionsPerSession then m\<lparr>sm_subs := x\<rparr>
          else m\<lparr>sm_subs :=
            \<lparr>si_byChannel = (si_byChannel x)(ch :=
               AList.update k \<lparr>cs_user = u, cs_expiresAt = expiresAt\<rparr> (si_byChannel x ch)),
             si_bySession = (si_bySession x)(k := AList.update ch expiresAt chs)\<rparr>\<rparr>)"

definition SetSessionChannelMemberships ::
  "session_key \<Rightarrow> int \<Rightarrow> int list \<Rightarrow> 64 word \<Rightarrow> 'p session_manager \<Rightarrow> 'p session_manager" where
  "SetSessionChannelMemberships k u chs expectedGen m =
     (case owner_of m k of
        None \<Rightarrow> m
      | Some c \<Rightarrow>
          let track = (\<lambda>n. n\<lparr>sm_members := trackChannelIndex k u chs (sm_members n)\<rparr>) in
          if u = 0 \<or> mc_user (sm_conns m c) \<noteq> u
          then on_conn unsync c (clearChannelMembershipsLocked c k m)
          else if mc_gen (sm_conns m c) \<noteq> expectedGen then track (on_conn unsync c m)
          else on_conn (\<lambda>d. d\<lparr>mc_synced := True\<rparr>) c
                 (track (on_conn unsync c (clearChannelMembershipsLocked c k m))))"

definition ChannelMembershipGeneration :: "session_key \<Rightarrow> 'p session_manager \<Rightarrow> 64 word" where
  "ChannelMembershipGeneration k m =
     (case owner_of m k of None \<Rightarrow> 0 | Some c \<Rightarrow> mc_gen (sm_conns m c))"

definition add_membership :: "int \<Rightarrow> int \<Rightarrow> session_key \<times> nat \<Rightarrow> 'p session_manager \<Rightarrow> 'p session_manager" where
  "add_membership u ch e m =
     (case e of (k, c) \<Rightarrow>
        if mc_user (sm_conns m c) \<noteq> u then m
        else let m1 = on_conn (\<lambda>d. d\<lparr>mc_gen := mc_gen d + 1\<rparr>) c m in
          m1\<lparr>sm_members := trackChannelIndex k u [ch] (sm_members m1)\<rparr>)"

definition AddUserChannelMembership :: "int \<Rightarrow> int \<Rightarrow> 'p session_manager \<Rightarrow> 'p session_manager" where
  "AddUserChannelMembership u ch m =
     (if u = 0 \<or> ch = 0 then m else fold (add_membership u ch) (sm_byUser m u) m)"

definition remove_membership :: "int \<Rightarrow> session_key \<times> nat \<Rightarrow> 'p session_manager \<Rightarrow> 'p session_manager" where
  "remove_membership ch e m =
     (case e of (k, c) \<Rightarrow>
        let m1 = on_conn (\<lambda>d. d\<lparr>mc_gen := mc_gen d + 1\<rparr>) c m in
        m1\<lparr>sm_members := removeChannelIndex k ch (sm_members m1)\<rparr>)"

definition RemoveUserChannelMembership :: "int \<Rightarrow> int \<Rightarrow> 'p session_manager \<Rightarrow> 'p session_manager" where
  "RemoveUserChannelMembership u ch m =
     (if u = 0 \<or> ch = 0 then m else fold (remove_membership ch) (sm_byUser m u) m)"

section \<open>Who is online in a channel\<close>

definition live_sessions :: "'p session_manager \<Rightarrow> (session_key \<times> 'v) list \<Rightarrow> 'v list" where
  "live_sessions m es = map snd (filter (\<lambda>(k, _). owner_of m k \<noteq> None) es)"

definition onlineChannelUsers :: "channel_index \<Rightarrow> int \<Rightarrow> int \<Rightarrow> 'p session_manager \<Rightarrow> int list" where
  "onlineChannelUsers x ch limit m =
     (if ch = 0 then [] else collect_users limit (\<lambda>_. True) (live_sessions m (ci_byChannel x ch)) [])"

definition OnlineChannelUserIDs :: "int \<Rightarrow> int \<Rightarrow> 'p session_manager \<Rightarrow> int list" where
  "OnlineChannelUserIDs ch limit m = onlineChannelUsers (sm_interest m) ch limit m"

definition OnlineChannelMemberUserIDs :: "int \<Rightarrow> int \<Rightarrow> 'p session_manager \<Rightarrow> int list" where
  "OnlineChannelMemberUserIDs ch limit m = onlineChannelUsers (sm_members m) ch limit m"

definition OnlineChannelMemberUserIDsExcluding :: "int \<Rightarrow> int set \<Rightarrow> int \<Rightarrow> 'p session_manager \<Rightarrow> int list" where
  "OnlineChannelMemberUserIDsExcluding ch exclude limit m =
     (if ch = 0 then []
      else collect_users limit (\<lambda>u. u \<notin> exclude) (live_sessions m (ci_byChannel (sm_members m) ch)) [])"

text \<open>The subscriber query drops what it finds expired or orphaned on its way, and stops at its limit.\<close>

fun scan_subscribers ::
  "int \<Rightarrow> int \<Rightarrow> int set \<Rightarrow> int \<Rightarrow> (session_key \<times> channel_subscription) list \<Rightarrow> int list \<Rightarrow>
     'p session_manager \<Rightarrow> int list \<times> 'p session_manager" where
  "scan_subscribers now ch exclude limit [] out m = (rev out, m)"
| "scan_subscribers now ch exclude limit ((k, s) # es) out m =
     (let drop = m\<lparr>sm_subs := removeChannelSubscription k ch (sm_subs m)\<rparr> in
      if cs_expiresAt s \<le> now then scan_subscribers now ch exclude limit es out drop
      else if cs_user s = 0 \<or> cs_user s \<in> exclude then scan_subscribers now ch exclude limit es out m
      else if \<not> live_user m k (cs_user s) then scan_subscribers now ch exclude limit es out drop
      else if cs_user s \<in> set out then scan_subscribers now ch exclude limit es out m
      else if 0 < limit \<and> int (length (cs_user s # out)) \<ge> limit then (rev (cs_user s # out), m)
      else scan_subscribers now ch exclude limit es (cs_user s # out) m)"

definition onlineChannelSubscriberUserIDsExcluding ::
  "int \<Rightarrow> int \<Rightarrow> int set \<Rightarrow> int \<Rightarrow> 'p session_manager \<Rightarrow> int list \<times> 'p session_manager" where
  "onlineChannelSubscriberUserIDsExcluding now ch exclude limit m =
     (if ch = 0 then ([], m)
      else scan_subscribers now ch exclude limit (si_byChannel (sm_subs m) ch) [] m)"

end
