(* ===== verification/Session_Delivery.thy ===== *)
theory Session_Delivery
  imports Session_Channels
begin

text \<open>
  Proactive pushes (session_manager.go): a session that is not yet ready for updates keeps up to 32
  pushes for at most a minute; when it becomes ready they are flushed in order before it receives
  anything directly. The flush is a worker of its own that holds the lock only to take a batch or to
  put one back, so it is given as one definition per atomic part, moving a worker from one state to the
  next. Encoding and the write to the connection are outcomes.
\<close>

section \<open>Keeping a push\<close>

text \<open>The producer owns the first reference of the fresh reservation \<open>r\<close>.\<close>

definition preparePendingPush ::
  "nat \<Rightarrow> int \<Rightarrow> 'p session_manager \<Rightarrow> (outbound_error + nat) \<times> 'p session_manager" where
  "preparePendingPush r bytes m =
     (if bytes > maxOutboundBodyBytes then (Inl ErrOutboundMessageTooLarge, m)
      else case tracked_reserve bytes (sm_budget m) of
        (False, _) \<Rightarrow> (Inl ErrOutboundTrackedBudget, m)
      | (True, b) \<Rightarrow> (Inr r, m\<lparr>sm_budget := b, sm_reservations := (sm_reservations m)(r :=
           \<lparr>pr_bytes = bytes, pr_refs = 1, pr_profiles = []\<rparr>)\<rparr>))"

definition queuePreparedLocked ::
  "int \<Rightarrow> session_key \<Rightarrow> 'p \<Rightarrow> nat \<Rightarrow> 'p session_manager \<Rightarrow> bool \<times> 'p session_manager" where
  "queuePreparedLocked now k p r m =
     (let q = pending_of m k in
      if q \<noteq> [] \<and> now - qp_at (hd q) > pendingPushMaxAge then (False, deletePendingLocked k m)
      else
        let m1 = push_retain r m;
            push = \<lparr>qp_updates = p, qp_reservation = r, qp_at = now\<rparr> in
        if length q \<ge> maxPendingPushesPerSession
        then (True, (push_release (qp_reservation (hd q)) m1)
                      \<lparr>sm_pending := AList.update k (tl q @ [push]) (sm_pending m1)\<rparr>)
        else (True, m1\<lparr>sm_pending := AList.update k (q @ [push]) (sm_pending m1)\<rparr>))"

definition stale_push :: "int \<Rightarrow> 'p queued_push \<Rightarrow> bool" where
  "stale_push now q \<longleftrightarrow> now - qp_at q > pendingPushMaxAge"

definition takePendingLocked ::
  "int \<Rightarrow> session_key \<Rightarrow> 'p session_manager \<Rightarrow> 'p queued_push list \<times> 'p session_manager" where
  "takePendingLocked now k m =
     (let q = pending_of m k in
      if q = [] then ([], m)
      else (filter (\<lambda>x. \<not> stale_push now x) q,
        releaseQueuedPushes (filter (stale_push now) q) (m\<lparr>sm_pending := AList.delete k (sm_pending m)\<rparr>)))"

definition sweep_one :: "int \<Rightarrow> session_key \<times> 'p queued_push list \<Rightarrow> 'p session_manager \<Rightarrow> 'p session_manager" where
  "sweep_one now e m =
     (case e of (k, q) \<Rightarrow>
        if sm_flushing m k \<or> q = [] \<or> \<not> stale_push now (hd q) then m else deletePendingLocked k m)"

definition sweepStalePending :: "int \<Rightarrow> 'p session_manager \<Rightarrow> 'p session_manager" where
  "sweepStalePending now m = fold (sweep_one now) (sm_pending m) m"

section \<open>Becoming ready\<close>

definition not_ready :: "nat \<Rightarrow> session_key \<Rightarrow> 'p session_manager \<Rightarrow> 'p session_manager" where
  "not_ready c k m =
     stop_flushing k (on_conn unsync c (clearSessionChannelIndexesLocked c k
       (on_conn (\<lambda>d. d\<lparr>mc_receives := False\<rparr>) c m)))"

definition setReceivesUpdatesLocked ::
  "nat \<Rightarrow> session_key \<Rightarrow> bool \<Rightarrow> 'p session_manager \<Rightarrow> int option \<times> 'p session_manager" where
  "setReceivesUpdatesLocked c k receives m =
     (if \<not> receives then (None, not_ready c k m)
      else if mc_profile (sm_conns m c) = None then (None, not_ready c k m)
      else if mc_receives (sm_conns m c) \<or> sm_flushing m k then (None, m)
      else if pending_of m k = [] then (None, on_conn (\<lambda>d. d\<lparr>mc_receives := True\<rparr>) c m)
      else (Some (mc_user (sm_conns m c)), m\<lparr>sm_flushing := (sm_flushing m)(k := True)\<rparr>))"

section \<open>The flush worker\<close>

datatype 'p flusher =
    FlTake nat session_key int nat
  | FlCheck nat session_key int nat "'p queued_push list"
  | FlSend nat session_key int nat "'p queued_push list"
  | FlRequeue nat session_key int nat "'p queued_push list"
  | FlDone

definition SetReceivesUpdatesForAuthKey ::
  "session_key \<Rightarrow> bool \<Rightarrow> 'p session_manager \<Rightarrow> 'p flusher option \<times> 'p session_manager" where
  "SetReceivesUpdatesForAuthKey k receives m =
     (case owner_of m k of
        None \<Rightarrow> (None, m)
      | Some c \<Rightarrow>
          (case setReceivesUpdatesLocked c k receives m of
             (start, m1) \<Rightarrow> (map_option (\<lambda>u. FlTake c k u 0) start, m1)))"

definition activate :: "nat \<Rightarrow> session_key \<Rightarrow> 'p session_manager \<Rightarrow> 'p session_manager" where
  "activate c k m = stop_flushing k (on_conn (\<lambda>d. d\<lparr>mc_receives := True\<rparr>) c m)"

definition flush_take :: "int \<Rightarrow> nat \<Rightarrow> session_key \<Rightarrow> int \<Rightarrow> nat \<Rightarrow> 'p session_manager \<Rightarrow> 'p flusher \<times> 'p session_manager" where
  "flush_take now c k u n m =
     (if owner_of m k \<noteq> Some c \<or> \<not> sm_flushing m k then (FlDone, m)
      else if mc_user (sm_conns m c) \<noteq> u then (FlDone, stop_flushing k (deletePendingLocked k m))
      else case takePendingLocked now k m of (batch, m1) \<Rightarrow>
        if batch = [] then (FlDone, activate c k m1) else (FlCheck c k u n batch, m1))"

definition flush_check :: "nat \<Rightarrow> session_key \<Rightarrow> int \<Rightarrow> nat \<Rightarrow> 'p queued_push list \<Rightarrow> 'p session_manager \<Rightarrow> 'p flusher \<times> 'p session_manager" where
  "flush_check c k u n batch m =
     (if batch = [] then (FlTake c k u n, m)
      else if mc_user (sm_conns m c) \<noteq> u
      then (FlDone, releaseQueuedPushes batch (stop_flushing k (deletePendingLocked k m)))
      else (FlSend c k u n batch, m))"

datatype encoding = EncodeFailed outbound_error | Encoded int int

text \<open>
  One item: it is encoded for the connection's profile, its bytes are charged to the shared
  reservation, and it is handed to the connection. A failure other than a layer correction or a layer
  conflict leaves the worker to put the rest back.
\<close>

definition flush_error :: "encoding \<Rightarrow> outbound_error option \<Rightarrow> nat \<Rightarrow> 'p session_manager \<Rightarrow> outbound_error option \<times> 'p session_manager" where
  "flush_error enc sent r m =
     (case enc of
        EncodeFailed e \<Rightarrow> (Some e, m)
      | Encoded profile bytes \<Rightarrow>
          (case reservePrepared r profile bytes m of
             (False, m1) \<Rightarrow> (Some ErrOutboundTrackedBudget, m1) | (True, m1) \<Rightarrow> (sent, m1)))"

definition flush_send ::
  "encoding \<Rightarrow> outbound_error option \<Rightarrow> nat \<Rightarrow> session_key \<Rightarrow> int \<Rightarrow> nat \<Rightarrow> 'p queued_push list \<Rightarrow>
     'p session_manager \<Rightarrow> 'p flusher \<times> 'p session_manager" where
  "flush_send enc sent c k u n batch m =
     (case flush_error enc sent (qp_reservation (hd batch)) m of
        (None, m1) \<Rightarrow> (FlCheck c k u n (tl batch), push_release (qp_reservation (hd batch)) m1)
      | (Some e, m1) \<Rightarrow>
          if isOutboundStaleLayerEpoch e
          then (FlCheck c k u n (tl batch), push_release (qp_reservation (hd batch)) m1)
          else if isOutboundLayerProfileError e
          then (FlDone, releaseQueuedPushes batch (on_conn (\<lambda>d. (conn_retire d)\<lparr>mc_open := False\<rparr>) c m1))
          else (FlRequeue c k u n batch, m1))"

definition flush_requeue :: "nat \<Rightarrow> session_key \<Rightarrow> int \<Rightarrow> nat \<Rightarrow> 'p queued_push list \<Rightarrow> 'p session_manager \<Rightarrow> 'p flusher \<times> 'p session_manager" where
  "flush_requeue c k u n batch m =
     (if owner_of m k \<noteq> Some c \<or> \<not> sm_flushing m k \<or> mc_user (sm_conns m c) \<noteq> u
      then (FlDone, releaseQueuedPushes batch
              (if mc_user (sm_conns m c) \<noteq> u then stop_flushing k (deletePendingLocked k m) else m))
      else
        let rest = batch @ pending_of m k;
            dropped = length rest - maxPendingPushesPerSession;
            m1 = (releaseQueuedPushes (take dropped rest) m)
                   \<lparr>sm_pending := AList.update k (drop dropped rest) (sm_pending m)\<rparr> in
        if n + 1 \<ge> maxFlushAttempts
        then (FlDone, stop_flushing k (deletePendingLocked k (on_conn (\<lambda>d. d\<lparr>mc_receives := True\<rparr>) c m1)))
        else (FlTake c k u (n + 1), m1))"

section \<open>Fan-out\<close>

definition shouldExcludeSession :: "mconn \<Rightarrow> auth_key_id option \<Rightarrow> int \<Rightarrow> bool" where
  "shouldExcludeSession c excludeAuth excludeSession =
     (if excludeSession = 0 then False
      else if snd (mc_key c) \<noteq> excludeSession then False
      else case excludeAuth of None \<Rightarrow> True | Some a \<Rightarrow> a = replicate 8 0 \<or> fst (mc_key c) = a)"

definition shouldExcludeBusinessAuthKey :: "mconn \<Rightarrow> auth_key_id option \<Rightarrow> bool" where
  "shouldExcludeBusinessAuthKey c exclude =
     (case exclude of None \<Rightarrow> False | Some a \<Rightarrow> a \<noteq> replicate 8 0 \<and> connUsesBusinessAuthKey c a)"

definition sessionSupportsMinimumLayer :: "mconn \<Rightarrow> int \<Rightarrow> bool" where
  "sessionSupportsMinimumLayer c minLayer =
     (minLayer \<le> 0 \<or> (case mc_profile c of None \<Rightarrow> False | Some p \<Rightarrow> p \<ge> minLayer))"

record push_filter =
  pf_excludeAuth :: "auth_key_id option"
  pf_excludeSession :: int
  pf_excludeBusiness :: "auth_key_id option"
  pf_minLayer :: int
  pf_queue :: bool

definition push_target :: "push_filter \<Rightarrow> mconn \<Rightarrow> bool" where
  "push_target f c \<longleftrightarrow> \<not> shouldExcludeSession c (pf_excludeAuth f) (pf_excludeSession f)
     \<and> \<not> shouldExcludeBusinessAuthKey c (pf_excludeBusiness f) \<and> sessionSupportsMinimumLayer c (pf_minLayer f)"

text \<open>
  \<open>pushToUserWithSender\<close>: the scan under the read lock, which gives up when a target has to be queued;
  the scan under the write lock, which queues for targets that are not ready; and the sends.
\<close>

fun scan_ready :: "push_filter \<Rightarrow> 'p session_manager \<Rightarrow> (session_key \<times> nat) list \<Rightarrow> nat list option" where
  "scan_ready f m [] = Some []"
| "scan_ready f m ((k, c) # es) =
     (if \<not> push_target f (sm_conns m c) then scan_ready f m es
      else if \<not> mc_receives (sm_conns m c) then (if pf_queue f then None else scan_ready f m es)
      else map_option ((#) c) (scan_ready f m es))"

fun scan_queue ::
  "push_filter \<Rightarrow> int \<Rightarrow> 'p \<Rightarrow> nat option \<Rightarrow> (session_key \<times> nat) list \<Rightarrow> 'p session_manager \<Rightarrow>
     nat list \<times> nat \<times> 'p session_manager" where
  "scan_queue f now p r [] m = ([], 0, m)"
| "scan_queue f now p r ((k, c) # es) m =
     (if \<not> push_target f (sm_conns m c) then scan_queue f now p r es m
      else if \<not> mc_receives (sm_conns m c) then
        (if \<not> pf_queue f then scan_queue f now p r es m
         else case r of
           None \<Rightarrow> scan_queue f now p r es m
         | Some i \<Rightarrow> (case queuePreparedLocked now k p i m of (ok, m1) \<Rightarrow>
             (case scan_queue f now p r es m1 of (cs, n, m2) \<Rightarrow> (cs, (if ok then n + 1 else n), m2))))
      else case scan_queue f now p r es m of (cs, n, m1) \<Rightarrow> (c # cs, n, m1))"

definition push_collect :: "push_filter \<Rightarrow> int \<Rightarrow> 'p session_manager \<Rightarrow> nat list option" where
  "push_collect f u m = scan_ready f m (sm_byUser m u)"

definition push_rescan ::
  "push_filter \<Rightarrow> int \<Rightarrow> int \<Rightarrow> 'p \<Rightarrow> nat option \<Rightarrow> 'p session_manager \<Rightarrow> nat list \<times> nat \<times> 'p session_manager" where
  "push_rescan f now u p r m = scan_queue f now p r (sm_byUser m u) m"

text \<open>Before each send the identity of the connection is read again.\<close>

definition push_send_allowed :: "push_filter \<Rightarrow> int \<Rightarrow> nat \<Rightarrow> 'p session_manager \<Rightarrow> bool" where
  "push_send_allowed f u c m \<longleftrightarrow> mc_user (sm_conns m c) = u
     \<and> \<not> shouldExcludeBusinessAuthKey (sm_conns m c) (pf_excludeBusiness f)"

datatype push_result = PushSent | PushFailed outbound_error | PushQueueFull | PushOther

text \<open>What one send adds to the count of sent pushes and the first error, and what it does to the connection.\<close>

definition push_send ::
  "nat \<Rightarrow> push_result \<Rightarrow> nat \<times> push_result option \<Rightarrow> 'p session_manager \<Rightarrow> (nat \<times> push_result option) \<times> 'p session_manager" where
  "push_send c res acc m =
     (let drop = on_conn (\<lambda>d. (conn_retire d)\<lparr>mc_open := False\<rparr>) c m; (sent, err) = acc in
      case res of
        PushSent \<Rightarrow> ((sent + 1, err), m)
      | PushQueueFull \<Rightarrow> (acc, drop)
      | PushOther \<Rightarrow> ((sent, if err = None then Some res else err), m)
      | PushFailed e \<Rightarrow>
          if isOutboundStaleLayerEpoch e then (acc, m)
          else if isOutboundLayerProfileError e then (acc, drop)
          else if e = ErrOutboundTrackedBudget \<or> e = ErrConnClosed then (acc, m)
          else ((sent, if err = None then Some res else err), m))"

text \<open>A push to one session: sent at once when ready, otherwise kept; the session is looked up again under the lock.\<close>

datatype session_push = SessionNotFound | SendNow nat | Kept

definition PushToSession_ready :: "session_key \<Rightarrow> 'p session_manager \<Rightarrow> session_push option" where
  "PushToSession_ready k m =
     (case owner_of m k of None \<Rightarrow> Some SessionNotFound
      | Some c \<Rightarrow> if mc_receives (sm_conns m c) then Some (SendNow c) else None)"

definition queueOrSendPrepared ::
  "int \<Rightarrow> session_key \<Rightarrow> 'p \<Rightarrow> nat \<Rightarrow> 'p session_manager \<Rightarrow> session_push \<times> 'p session_manager" where
  "queueOrSendPrepared now k p r m =
     (case owner_of m k of
        None \<Rightarrow> (SessionNotFound, m)
      | Some c \<Rightarrow> if \<not> mc_receives (sm_conns m c) then (Kept, snd (queuePreparedLocked now k p r m))
                   else (SendNow c, m))"

text \<open>A push to the devices of one business auth key goes to ready connections only.\<close>

definition businessAuthKey_targets :: "int \<Rightarrow> auth_key_id \<Rightarrow> int \<Rightarrow> 'p session_manager \<Rightarrow> nat list" where
  "businessAuthKey_targets u a minLayer m =
     map snd (filter (\<lambda>(k, c). let d = sm_conns m c in
        mc_user d = u \<and> mc_receives d \<and> sessionSupportsMinimumLayer d minLayer)
       (businessAuthKeyCandidatesLocked a m))"

end
