(* ===== verification/Session_Registry.thy ===== *)
theory Session_Registry
  imports Session_Delivery
begin

text \<open>
  The registry part of the manager: who owns or claims a session, and the indexes by auth key,
  business key and user. Every operation acts on it through a few registry operations, whose effect on
  the registry invariant is proved here; what else an operation does leaves the registry alone.
\<close>

section \<open>The registry of a manager\<close>

record ident =
  id_key :: session_key
  id_life :: conn_lifecycle
  id_business :: "auth_key_id option"
  id_user :: int

record registry =
  rg_owner :: "(session_key \<times> nat) list"
  rg_claim :: "(session_key \<times> nat) list"
  rg_claimsByAuth :: "auth_key_id \<Rightarrow> (int \<times> nat) list"
  rg_byAuthKey :: "auth_key_id \<Rightarrow> (int \<times> nat) list"
  rg_byBusiness :: "auth_key_id \<Rightarrow> (session_key \<times> nat) list"
  rg_byUser :: "int \<Rightarrow> (session_key \<times> nat) list"
  rg_ident :: "nat \<Rightarrow> ident"

definition ident_of :: "mconn \<Rightarrow> ident" where
  "ident_of d = \<lparr>id_key = mc_key d, id_life = mc_life d, id_business = mc_business d, id_user = mc_user d\<rparr>"

definition registry_of :: "'p session_manager \<Rightarrow> registry" where
  "registry_of m = \<lparr>rg_owner = sm_bySession m, rg_claim = sm_claims m, rg_claimsByAuth = sm_claimsByAuth m,
     rg_byAuthKey = sm_byAuthKey m, rg_byBusiness = sm_byBusiness m, rg_byUser = sm_byUser m,
     rg_ident = (\<lambda>c. ident_of (sm_conns m c))\<rparr>"

text \<open>Each index holds exactly the owners it should, under distinct keys.\<close>

definition indexed :: "('k \<Rightarrow> ('i \<times> nat) list) \<Rightarrow> ('k \<Rightarrow> 'i \<Rightarrow> nat option) \<Rightarrow> bool" where
  "indexed idx f \<longleftrightarrow> (\<forall>k. distinct (map fst (idx k)) \<and> map_of (idx k) = f k)"

definition business_index :: "registry \<Rightarrow> auth_key_id \<Rightarrow> session_key \<Rightarrow> nat option" where
  "business_index r b k = (case map_of (rg_owner r) k of None \<Rightarrow> None
     | Some c \<Rightarrow> if id_business (rg_ident r c) = Some b then Some c else None)"

definition user_index :: "registry \<Rightarrow> int \<Rightarrow> session_key \<Rightarrow> nat option" where
  "user_index r u k = (case map_of (rg_owner r) k of None \<Rightarrow> None
     | Some c \<Rightarrow> if u \<noteq> 0 \<and> id_user (rg_ident r c) = u then Some c else None)"

definition owners_ok :: "registry \<Rightarrow> bool" where
  "owners_ok r \<longleftrightarrow> distinct (map fst (rg_owner r)) \<and> distinct (map fst (rg_claim r))
     \<and> (\<forall>k c. map_of (rg_owner r) k = Some c \<longrightarrow>
          id_key (rg_ident r c) = k \<and> id_life (rg_ident r c) \<in> {Active, Retired})
     \<and> (\<forall>k c. map_of (rg_claim r) k = Some c \<longrightarrow>
          id_key (rg_ident r c) = k \<and> id_life (rg_ident r c) \<in> {Claiming, Retired}
          \<and> map_of (rg_owner r) k = None)
     \<and> (\<forall>c. id_life (rg_ident r c) = Active \<longrightarrow> map_of (rg_owner r) (id_key (rg_ident r c)) = Some c)
     \<and> (\<forall>c. id_life (rg_ident r c) \<in> {Provisional, Claiming} \<longrightarrow>
          id_business (rg_ident r c) = None \<and> id_user (rg_ident r c) = 0)"

definition registry_ok :: "registry \<Rightarrow> bool" where
  "registry_ok r \<longleftrightarrow> owners_ok r
     \<and> indexed (rg_byAuthKey r) (\<lambda>a sid. map_of (rg_owner r) (a, sid))
     \<and> indexed (rg_claimsByAuth r) (\<lambda>a sid. map_of (rg_claim r) (a, sid))
     \<and> indexed (rg_byBusiness r) (business_index r) \<and> indexed (rg_byUser r) (user_index r)"

section \<open>What leaves the registry alone\<close>

named_theorems registry_frame

lemma registry_of_conn [registry_frame]:
  assumes "\<And>d. ident_of (f d) = ident_of d"
  shows "registry_of (on_conn f c m) = registry_of m"
  using assms by (auto simp: registry_of_def on_conn_def fun_eq_iff)

lemma ident_same [simp]:
  "ident_of (d\<lparr>mc_gen := g\<rparr>) = ident_of d" "ident_of (d\<lparr>mc_synced := s\<rparr>) = ident_of d"
  "ident_of (d\<lparr>mc_receives := x\<rparr>) = ident_of d" "ident_of (d\<lparr>mc_userResolved := x\<rparr>) = ident_of d"
  "ident_of (d\<lparr>mc_open := x\<rparr>) = ident_of d" "ident_of (d\<lparr>mc_profile := y\<rparr>) = ident_of d"
  "ident_of (unsync d) = ident_of d"
  by (simp_all add: ident_of_def unsync_def)

lemma registry_of_fields [registry_frame]:
  "registry_of (m\<lparr>sm_pending := x1\<rparr>) = registry_of m" "registry_of (m\<lparr>sm_flushing := x2\<rparr>) = registry_of m"
  "registry_of (m\<lparr>sm_logical := x3\<rparr>) = registry_of m" "registry_of (m\<lparr>sm_reservations := x4\<rparr>) = registry_of m"
  "registry_of (m\<lparr>sm_budget := x5\<rparr>) = registry_of m" "registry_of (m\<lparr>sm_panic := x6\<rparr>) = registry_of m"
  "registry_of (m\<lparr>sm_interest := x7\<rparr>) = registry_of m" "registry_of (m\<lparr>sm_members := x8\<rparr>) = registry_of m"
  "registry_of (m\<lparr>sm_subs := x9\<rparr>) = registry_of m"
  by (simp_all add: registry_of_def)

lemma registry_of_retain [registry_frame]: "registry_of (push_retain i m) = registry_of m"
  by (simp add: push_retain_def Let_def registry_frame)

lemma registry_of_release [registry_frame]: "registry_of (push_release i m) = registry_of m"
  by (simp add: push_release_def Let_def registry_frame split: option.split)

lemma registry_of_releases [registry_frame]: "registry_of (releaseQueuedPushes qs m) = registry_of m"
  unfolding releaseQueuedPushes_def
  by (induction qs arbitrary: m) (simp_all add: registry_frame)

lemma registry_of_deletePending [registry_frame]: "registry_of (deletePendingLocked k m) = registry_of m"
  by (simp add: deletePendingLocked_def registry_frame)

lemma registry_of_stop [registry_frame]: "registry_of (stop_flushing k m) = registry_of m"
  by (simp add: stop_flushing_def registry_frame)

lemma registry_of_clear [registry_frame]:
  "registry_of (clearChannelInterestsLocked k m) = registry_of m"
  "registry_of (clearChannelMembershipsLocked c k m) = registry_of m"
  "registry_of (clearSessionChannelIndexesLocked c k m) = registry_of m"
  by (simp_all add: clearChannelInterestsLocked_def clearChannelMembershipsLocked_def
      clearSessionChannelIndexesLocked_def Let_def registry_frame)

lemma registry_of_drop [registry_frame]: "registry_of (drop_session_state c k m) = registry_of m"
  by (simp add: drop_session_state_def registry_frame)

lemma registry_of_logical [registry_frame]:
  "registry_of (markLogicalSessionOfflineLocked k now m) = registry_of m"
  "registry_of (bindLogicalSessionAuthKeyLocked k b m) = registry_of m"
  "registry_of (snd (destroyLogicalSessionLocked k m)) = registry_of m"
  "registry_of (snd (attachLogicalSession i c m)) = registry_of m"
  "registry_of (snd (sweepLogicalSessions now m)) = registry_of m"
  "registry_of (snd (ForgetLogicalSessionsForRawAuthKey a m)) = registry_of m"
  "registry_of (snd (releaseAllLogicalSessions m)) = registry_of m"
  by (simp_all add: markLogicalSessionOfflineLocked_def bindLogicalSessionAuthKeyLocked_def
      destroyLogicalSessionLocked_def attachLogicalSession_def sweepLogicalSessions_def
      ForgetLogicalSessionsForRawAuthKey_def releaseAllLogicalSessions_def Let_def registry_frame split: option.split)

section \<open>Registry operations\<close>

definition rg_conn :: "(ident \<Rightarrow> ident) \<Rightarrow> nat \<Rightarrow> registry \<Rightarrow> registry" where
  "rg_conn f c r = r\<lparr>rg_ident := (rg_ident r)(c := f (rg_ident r c))\<rparr>"

abbreviation rg_retire :: "nat \<Rightarrow> registry \<Rightarrow> registry" where
  "rg_retire \<equiv> rg_conn (\<lambda>d. d\<lparr>id_life := Retired\<rparr>)"

definition rg_addClaim :: "session_key \<Rightarrow> nat \<Rightarrow> registry \<Rightarrow> registry" where
  "rg_addClaim k c r = r\<lparr>rg_claim := AList.update k c (rg_claim r),
     rg_claimsByAuth := addConnIndex (rg_claimsByAuth r) (fst k) (snd k) c\<rparr>"

definition rg_removeClaim :: "session_key \<Rightarrow> registry \<Rightarrow> registry" where
  "rg_removeClaim k r = r\<lparr>rg_claim := AList.delete k (rg_claim r),
     rg_claimsByAuth := removeConnIndex (rg_claimsByAuth r) (fst k) (snd k)\<rparr>"

definition rg_removeOwner :: "session_key \<Rightarrow> nat \<Rightarrow> registry \<Rightarrow> registry" where
  "rg_removeOwner k c r = r\<lparr>rg_owner := AList.delete k (rg_owner r),
     rg_byAuthKey := removeConnIndex (rg_byAuthKey r) (fst k) (snd k),
     rg_byBusiness := (case id_business (rg_ident r c) of None \<Rightarrow> rg_byBusiness r
       | Some b \<Rightarrow> removeBusinessAuthKeyIndex (rg_byBusiness r) b k),
     rg_byUser := (if id_user (rg_ident r c) \<noteq> 0 then removeUserIndex (rg_byUser r) (id_user (rg_ident r c)) k
       else rg_byUser r)\<rparr>"

definition rg_publish :: "session_key \<Rightarrow> nat \<Rightarrow> registry \<Rightarrow> registry" where
  "rg_publish k c r = r\<lparr>rg_owner := AList.update k c (rg_owner r),
     rg_byAuthKey := addConnIndex (rg_byAuthKey r) (fst k) (snd k) c,
     rg_byBusiness := (case id_business (rg_ident r c) of None \<Rightarrow> rg_byBusiness r
       | Some b \<Rightarrow> addBusinessAuthKeyIndex (rg_byBusiness r) b k c),
     rg_byUser := (if id_user (rg_ident r c) \<noteq> 0 then addUserIndex (rg_byUser r) (id_user (rg_ident r c)) k c
       else rg_byUser r)\<rparr>"

definition rg_setUser :: "session_key \<Rightarrow> nat \<Rightarrow> int \<Rightarrow> registry \<Rightarrow> registry" where
  "rg_setUser k c u r =
     (let old = id_user (rg_ident r c);
          by1 = (if old \<noteq> 0 then removeUserIndex (rg_byUser r) old k else rg_byUser r);
          by2 = (if u \<noteq> 0 then addUserIndex by1 u k c else by1) in
      (rg_conn (\<lambda>d. d\<lparr>id_user := u\<rparr>) c r)\<lparr>rg_byUser := by2\<rparr>)"

definition rg_setBusiness :: "session_key \<Rightarrow> nat \<Rightarrow> auth_key_id \<Rightarrow> registry \<Rightarrow> registry" where
  "rg_setBusiness k c b r =
     (let by1 = (case id_business (rg_ident r c) of None \<Rightarrow> rg_byBusiness r
                 | Some old \<Rightarrow> removeBusinessAuthKeyIndex (rg_byBusiness r) old k) in
      (rg_conn (\<lambda>d. d\<lparr>id_business := Some b\<rparr>) c r)\<lparr>rg_byBusiness := addBusinessAuthKeyIndex by1 b k c\<rparr>)"

lemma ident_retire [simp]: "ident_of (conn_retire d) = (ident_of d)\<lparr>id_life := Retired\<rparr>"
  by (simp add: ident_of_def conn_retire_def)

lemma registry_of_on_conn:
  assumes "ident_of (f (sm_conns m c)) = g (ident_of (sm_conns m c))"
  shows "registry_of (on_conn f c m) = rg_conn g c (registry_of m)"
  using assms by (auto simp: registry_of_def on_conn_def rg_conn_def fun_eq_iff)

lemma registry_of_retire [registry_frame]: "registry_of (retire_conn c m) = rg_retire c (registry_of m)"
  by (rule registry_of_on_conn) simp

lemma registry_of_addClaim [registry_frame]: "registry_of (addClaimLocked k c m) = rg_addClaim k c (registry_of m)"
  by (simp add: addClaimLocked_def rg_addClaim_def registry_of_def)

lemma registry_of_removeClaim [registry_frame]:
  "registry_of (removeClaimLocked k c m) =
     (if claim_of m k = Some c then rg_removeClaim k (registry_of m) else registry_of m)"
  by (simp add: removeClaimLocked_def rg_removeClaim_def registry_of_def)

lemma registry_of_unindex [registry_frame]:
  "registry_of (unindex_owner k c m) = rg_removeOwner k c (registry_of m)"
  by (simp add: unindex_owner_def rg_removeOwner_def registry_of_def ident_of_def Let_def split: option.split)

lemma registry_of_index [registry_frame]: "registry_of (index_owner k c m) = rg_publish k c (registry_of m)"
  by (simp add: index_owner_def rg_publish_def Let_def registry_frame)
    (simp add: registry_of_def ident_of_def split: option.split)

text \<open>The registry read back.\<close>

lemma registry_of_sel [simp]:
  "rg_owner (registry_of m) = sm_bySession m" "rg_claim (registry_of m) = sm_claims m"
  "rg_claimsByAuth (registry_of m) = sm_claimsByAuth m" "rg_byAuthKey (registry_of m) = sm_byAuthKey m"
  "rg_byBusiness (registry_of m) = sm_byBusiness m" "rg_byUser (registry_of m) = sm_byUser m"
  "id_key (rg_ident (registry_of m) c) = conn_key m c"
  "id_life (rg_ident (registry_of m) c) = mc_life (sm_conns m c)"
  "id_business (rg_ident (registry_of m) c) = mc_business (sm_conns m c)"
  "id_user (rg_ident (registry_of m) c) = mc_user (sm_conns m c)"
  by (simp_all add: registry_of_def ident_of_def)

end
