(* ===== verification/Session_Registry_Inv.thy ===== *)
theory Session_Registry_Inv
  imports Session_Registry
begin

text \<open>Every registry operation keeps the registry exact.\<close>

lemma map_of_alist [simp]:
  "map_of (AList.update k v xs) = (map_of xs)(k \<mapsto> v)" "map_of (AList.delete k xs) = (map_of xs)(k := None)"
  by (simp_all add: update_conv' delete_conv')

lemma indexed_add:
  assumes "indexed idx f"
  shows "indexed (idx(k := AList.update i c (idx k))) (f(k := (f k)(i \<mapsto> c)))"
  using assms by (simp add: indexed_def distinct_update)

lemma indexed_del:
  assumes "indexed idx f"
  shows "indexed (idx(k := AList.delete i (idx k))) (f(k := (f k)(i := None)))"
  using assms by (simp add: indexed_def distinct_delete)

lemma indexed_cong:
  assumes "indexed idx f" and "f = g"
  shows "indexed idx g"
  using assms by simp

lemma indexed_pair_add:
  assumes "indexed idx (\<lambda>a i. f (a, i))"
  shows "indexed (idx(fst k := AList.update (snd k) c (idx (fst k)))) (\<lambda>a i. (f(k \<mapsto> c)) (a, i))"
  by (rule indexed_cong [OF indexed_add [OF assms]]) (cases k, auto simp: fun_eq_iff)

lemma indexed_pair_del:
  assumes "indexed idx (\<lambda>a i. f (a, i))"
  shows "indexed (idx(fst k := AList.delete (snd k) (idx (fst k)))) (\<lambda>a i. (f(k := None)) (a, i))"
  by (rule indexed_cong [OF indexed_del [OF assms]]) (cases k, auto simp: fun_eq_iff)

lemma rg_sel [simp]:
  "rg_owner (rg_conn f c r) = rg_owner r" "rg_claim (rg_conn f c r) = rg_claim r"
  "rg_claimsByAuth (rg_conn f c r) = rg_claimsByAuth r" "rg_byAuthKey (rg_conn f c r) = rg_byAuthKey r"
  "rg_byBusiness (rg_conn f c r) = rg_byBusiness r" "rg_byUser (rg_conn f c r) = rg_byUser r"
  "rg_ident (rg_conn f c r) = (rg_ident r)(c := f (rg_ident r c))"
  by (simp_all add: rg_conn_def)

lemma indexes_of_conn:
  assumes "id_business (f (rg_ident r c)) = id_business (rg_ident r c)"
    and "id_user (f (rg_ident r c)) = id_user (rg_ident r c)"
  shows "business_index (rg_conn f c r) = business_index r" and "user_index (rg_conn f c r) = user_index r"
  using assms by (auto simp: business_index_def user_index_def fun_eq_iff split: option.split)

lemma indexes_same:
  assumes "rg_owner s = rg_owner r" and "rg_ident s = rg_ident r"
  shows "business_index s = business_index r" and "user_index s = user_index r"
  unfolding business_index_def [abs_def] user_index_def [abs_def] assms by (rule refl)+

lemma owner_facts:
  assumes "registry_ok r" and "map_of (rg_owner r) k = Some c"
  shows "id_key (rg_ident r c) = k" and "id_life (rg_ident r c) \<in> {Active, Retired}"
  using assms unfolding registry_ok_def owners_ok_def by blast+

lemma claim_facts:
  assumes "registry_ok r" and "map_of (rg_claim r) k = Some c"
  shows "id_key (rg_ident r c) = k" and "id_life (rg_ident r c) \<in> {Claiming, Retired}"
    and "map_of (rg_owner r) k = None"
  using assms unfolding registry_ok_def owners_ok_def by blast+

lemma fresh_facts:
  assumes "registry_ok r" and "id_life (rg_ident r c) \<in> {Provisional, Claiming}"
  shows "id_business (rg_ident r c) = None" and "id_user (rg_ident r c) = 0"
  using assms unfolding registry_ok_def owners_ok_def by blast+

lemma rg_retire_ok:
  assumes "registry_ok r"
  shows "registry_ok (rg_retire c r)"
  using assms indexes_of_conn [of "\<lambda>d. d\<lparr>id_life := Retired\<rparr>" r c]
  by (auto simp: registry_ok_def owners_ok_def)

lemma removeClaim_ok:
  assumes "registry_ok r"
  shows "registry_ok (rg_removeClaim k r)"
proof -
  have "indexed (rg_claimsByAuth (rg_removeClaim k r)) (\<lambda>a sid. map_of (rg_claim (rg_removeClaim k r)) (a, sid))"
    using indexed_pair_del [of "rg_claimsByAuth r" "map_of (rg_claim r)" k] assms
    by (simp add: rg_removeClaim_def index_defs registry_ok_def)
  moreover have "owners_ok (rg_removeClaim k r)"
    using assms by (auto simp: registry_ok_def owners_ok_def rg_removeClaim_def distinct_delete)
  moreover note indexes_same [of "rg_removeClaim k r" r]
  ultimately show ?thesis using assms by (simp add: registry_ok_def rg_removeClaim_def)
qed

lemma addClaim_ok:
  assumes "registry_ok r" and "id_key (rg_ident r c) = k" and "id_life (rg_ident r c) = Claiming"
    and "map_of (rg_owner r) k = None"
  shows "registry_ok (rg_addClaim k c r)"
proof -
  have "indexed (rg_claimsByAuth (rg_addClaim k c r)) (\<lambda>a sid. map_of (rg_claim (rg_addClaim k c r)) (a, sid))"
    using indexed_pair_add [of "rg_claimsByAuth r" "map_of (rg_claim r)" k c] assms
    by (simp add: rg_addClaim_def index_defs registry_ok_def)
  moreover have "owners_ok (rg_addClaim k c r)"
    using assms by (auto simp: registry_ok_def owners_ok_def rg_addClaim_def distinct_update)
  moreover note indexes_same [of "rg_addClaim k c r" r]
  ultimately show ?thesis using assms by (simp add: registry_ok_def rg_addClaim_def)
qed

lemma removeOwner_sel [simp]:
  "rg_owner (rg_removeOwner k c r) = AList.delete k (rg_owner r)" "rg_ident (rg_removeOwner k c r) = rg_ident r"
  "rg_claim (rg_removeOwner k c r) = rg_claim r" "rg_claimsByAuth (rg_removeOwner k c r) = rg_claimsByAuth r"
  by (simp_all add: rg_removeOwner_def)

lemma removeOwner_indexes:
  assumes "registry_ok r" and "map_of (rg_owner r) k = Some c"
  defines "s \<equiv> rg_removeOwner k c r"
  shows "indexed (rg_byAuthKey s) (\<lambda>a sid. map_of (rg_owner s) (a, sid))"
    and "indexed (rg_byBusiness s) (business_index s)" and "indexed (rg_byUser s) (user_index s)"
proof -
  show "indexed (rg_byAuthKey s) (\<lambda>a sid. map_of (rg_owner s) (a, sid))"
    using indexed_pair_del [of "rg_byAuthKey r" "map_of (rg_owner r)" k] assms
    by (simp add: s_def rg_removeOwner_def index_defs registry_ok_def)
  have idx: "business_index s b = (business_index r b)(k := None)" "user_index s u = (user_index r u)(k := None)" for b u
    by (auto simp: s_def business_index_def user_index_def fun_eq_iff split: option.split)
  show "indexed (rg_byBusiness s) (business_index s)"
  proof (cases "id_business (rg_ident r c)")
    case None
    then have "business_index s = business_index r"
      using assms(2) by (auto simp: fun_eq_iff idx) (auto simp: business_index_def)
    with assms None show ?thesis by (simp add: s_def registry_ok_def rg_removeOwner_def)
  next
    case (Some b)
    then have "business_index s = (business_index r)(b := (business_index r b)(k := None))"
      using assms(2) by (auto simp: fun_eq_iff idx) (auto simp: business_index_def)
    with assms Some show ?thesis by (simp add: s_def registry_ok_def rg_removeOwner_def index_defs indexed_del)
  qed
  show "indexed (rg_byUser s) (user_index s)"
  proof (cases "id_user (rg_ident r c) = 0")
    case True
    then have "user_index s = user_index r"
      using assms(2) by (auto simp: fun_eq_iff idx) (auto simp: user_index_def)
    with assms True show ?thesis by (simp add: s_def registry_ok_def rg_removeOwner_def)
  next
    case False
    let ?u = "id_user (rg_ident r c)"
    have "user_index s = (user_index r)(?u := (user_index r ?u)(k := None))"
      using assms(2) by (auto simp: fun_eq_iff idx) (auto simp: user_index_def)
    with assms False show ?thesis by (simp add: s_def registry_ok_def rg_removeOwner_def index_defs indexed_del)
  qed
qed

lemma removeOwner_ok:
  assumes "registry_ok r" and "map_of (rg_owner r) k = Some c" and "id_life (rg_ident r c) = Retired"
  shows "registry_ok (rg_removeOwner k c r)"
proof -
  have "owners_ok (rg_removeOwner k c r)"
    using assms by (auto simp: registry_ok_def owners_ok_def rg_removeOwner_def distinct_delete)
  moreover have "indexed (rg_claimsByAuth (rg_removeOwner k c r))
      (\<lambda>a sid. map_of (rg_claim (rg_removeOwner k c r)) (a, sid))"
    using assms by (simp add: registry_ok_def rg_removeOwner_def)
  ultimately show ?thesis using removeOwner_indexes [OF assms(1,2)] by (simp add: registry_ok_def)
qed

definition rg_activate :: "session_key \<Rightarrow> nat \<Rightarrow> registry \<Rightarrow> registry" where
  "rg_activate k c r = rg_publish k c (rg_removeClaim k (rg_conn (\<lambda>d. d\<lparr>id_life := Active\<rparr>) c r))"

lemma activate_ok:
  assumes ok: "registry_ok r" and cl: "map_of (rg_claim r) k = Some c" and life: "id_life (rg_ident r c) = Claiming"
  shows "registry_ok (rg_activate k c r)"
proof -
  have fresh: "id_business (rg_ident r c) = None" "id_user (rg_ident r c) = 0" "map_of (rg_owner r) k = None"
    "id_key (rg_ident r c) = k"
    using claim_facts [OF ok cl] fresh_facts [OF ok, of c] life by auto
  have *: "rg_activate k c r = r\<lparr>rg_claim := AList.delete k (rg_claim r),
      rg_claimsByAuth := removeConnIndex (rg_claimsByAuth r) (fst k) (snd k),
      rg_owner := AList.update k c (rg_owner r),
      rg_byAuthKey := addConnIndex (rg_byAuthKey r) (fst k) (snd k) c,
      rg_ident := (rg_ident r)(c := (rg_ident r c)\<lparr>id_life := Active\<rparr>)\<rparr>"
    using fresh by (simp add: rg_activate_def rg_publish_def rg_removeClaim_def rg_conn_def)
  have own: "owners_ok (rg_activate k c r)"
    using ok fresh life cl unfolding *
    by (auto simp: registry_ok_def owners_ok_def distinct_update distinct_delete)
  have a: "indexed (rg_byAuthKey (rg_activate k c r)) (\<lambda>a sid. map_of (rg_owner (rg_activate k c r)) (a, sid))"
    using indexed_pair_add [of "rg_byAuthKey r" "map_of (rg_owner r)" k c] ok
    unfolding * by (simp add: index_defs registry_ok_def)
  have b: "indexed (rg_claimsByAuth (rg_activate k c r)) (\<lambda>a sid. map_of (rg_claim (rg_activate k c r)) (a, sid))"
    using indexed_pair_del [of "rg_claimsByAuth r" "map_of (rg_claim r)" k] ok
    unfolding * by (simp add: index_defs registry_ok_def)
  have "business_index (rg_activate k c r) = business_index r" "user_index (rg_activate k c r) = user_index r"
    using fresh unfolding * by (auto simp: business_index_def user_index_def fun_eq_iff split: option.split)
  moreover have "rg_byBusiness (rg_activate k c r) = rg_byBusiness r" "rg_byUser (rg_activate k c r) = rg_byUser r"
    unfolding * by simp_all
  ultimately show ?thesis using own a b ok by (simp add: registry_ok_def)
qed

lemma owner_unique:
  assumes "registry_ok r" and "map_of (rg_owner r) k = Some c" and "map_of (rg_owner r) k' = Some c"
  shows "k' = k"
  using owner_facts [OF assms(1)] assms(2,3) by blast

lemma setUser_ok:
  assumes ok: "registry_ok r" and own: "map_of (rg_owner r) k = Some c"
  shows "registry_ok (rg_setUser k c u r)"
proof -
  let ?s = "rg_setUser k c u r" and ?old = "id_user (rg_ident r c)"
  have life: "id_life (rg_ident r c) \<in> {Active, Retired}" by (rule owner_facts(2) [OF ok own])
  have sel: "rg_owner ?s = rg_owner r" "rg_claim ?s = rg_claim r" "rg_claimsByAuth ?s = rg_claimsByAuth r"
    "rg_byAuthKey ?s = rg_byAuthKey r" "rg_byBusiness ?s = rg_byBusiness r"
    "rg_ident ?s = (rg_ident r)(c := (rg_ident r c)\<lparr>id_user := u\<rparr>)"
    by (simp_all add: rg_setUser_def Let_def)
  have other: "k' \<noteq> k \<Longrightarrow> map_of (rg_owner r) k' \<noteq> Some c" for k'
    using owner_unique [OF ok own] by blast
  have ui: "user_index ?s v x = (if x = k then (if v \<noteq> 0 \<and> v = u then Some c else None) else user_index r v x)" for v x
    using own other [of x] unfolding user_index_def sel by (cases "map_of (rg_owner r) x") auto
  define f1 where "f1 = (\<lambda>v. (user_index r v)(k := None))"
  have f1: "f1 = (user_index r)(?old := (user_index r ?old)(k := None))"
    using own by (auto simp: f1_def user_index_def fun_eq_iff)
  have i1: "indexed (if ?old \<noteq> 0 then removeUserIndex (rg_byUser r) ?old k else rg_byUser r) f1"
    using indexed_del [of "rg_byUser r" "user_index r" ?old k] ok own
    unfolding f1 by (auto simp: registry_ok_def index_defs user_index_def fun_upd_idem elim!: indexed_cong)
  have "indexed (rg_byUser ?s) (if u \<noteq> 0 then f1(u := (f1 u)(k \<mapsto> c)) else f1)"
    using i1 indexed_add [OF i1, of u k c] by (simp add: rg_setUser_def Let_def index_defs)
  moreover have "(if u \<noteq> 0 then f1(u := (f1 u)(k \<mapsto> c)) else f1) = user_index ?s"
    by (auto simp: f1_def ui fun_eq_iff)
  moreover have "business_index ?s = business_index r"
    by (auto simp: business_index_def sel fun_eq_iff split: option.split)
  moreover have "owners_ok ?s" using ok life unfolding registry_ok_def owners_ok_def sel by auto
  ultimately show ?thesis using ok by (simp add: registry_ok_def sel)
qed

lemma setBusiness_ok:
  assumes ok: "registry_ok r" and own: "map_of (rg_owner r) k = Some c"
  shows "registry_ok (rg_setBusiness k c b r)"
proof -
  let ?s = "rg_setBusiness k c b r"
  have life: "id_life (rg_ident r c) \<in> {Active, Retired}" by (rule owner_facts(2) [OF ok own])
  have sel: "rg_owner ?s = rg_owner r" "rg_claim ?s = rg_claim r" "rg_claimsByAuth ?s = rg_claimsByAuth r"
    "rg_byAuthKey ?s = rg_byAuthKey r" "rg_byUser ?s = rg_byUser r"
    "rg_ident ?s = (rg_ident r)(c := (rg_ident r c)\<lparr>id_business := Some b\<rparr>)"
    by (simp_all add: rg_setBusiness_def Let_def)
  have other: "k' \<noteq> k \<Longrightarrow> map_of (rg_owner r) k' \<noteq> Some c" for k'
    using owner_unique [OF ok own] by blast
  have bi: "business_index ?s v x = (if x = k then (if v = b then Some c else None) else business_index r v x)" for v x
    using own other [of x] unfolding business_index_def sel by (cases "map_of (rg_owner r) x") auto
  define f1 where "f1 = (\<lambda>b'. (business_index r b')(k := None))"
  have i1: "indexed (case id_business (rg_ident r c) of None \<Rightarrow> rg_byBusiness r
      | Some old \<Rightarrow> removeBusinessAuthKeyIndex (rg_byBusiness r) old k) f1"
  proof (cases "id_business (rg_ident r c)")
    case None
    with ok own show ?thesis
      by (auto simp: f1_def registry_ok_def business_index_def fun_eq_iff elim!: indexed_cong)
  next
    case (Some old)
    with ok have "indexed (removeBusinessAuthKeyIndex (rg_byBusiness r) old k)
        ((business_index r)(old := (business_index r old)(k := None)))"
      by (simp add: registry_ok_def index_defs indexed_del)
    then show ?thesis using Some own
      by (auto simp: f1_def business_index_def fun_eq_iff elim!: indexed_cong)
  qed
  have "indexed (rg_byBusiness ?s) (f1(b := (f1 b)(k \<mapsto> c)))"
    using indexed_add [OF i1, of b k c] by (simp add: rg_setBusiness_def Let_def index_defs)
  moreover have "f1(b := (f1 b)(k \<mapsto> c)) = business_index ?s"
    by (auto simp: f1_def bi fun_eq_iff)
  moreover have "user_index ?s = user_index r"
    by (auto simp: user_index_def sel fun_eq_iff split: option.split)
  moreover have "owners_ok ?s" using ok life unfolding registry_ok_def owners_ok_def sel by auto
  ultimately show ?thesis using ok by (simp add: registry_ok_def sel)
qed

end
