(* ===== verification/Session_Ops.thy ===== *)
theory Session_Ops
  imports Session_Registry_Inv
begin

text \<open>
  The operations of the manager on its registry: each keeps it exact and keeps the number of owners and
  claims of an auth key within the cap, and the eviction loop of an activation always ends.
\<close>

definition rg_load :: "auth_key_id \<Rightarrow> registry \<Rightarrow> nat" where
  "rg_load a r = length (rg_byAuthKey r a) + length (rg_claimsByAuth r a)"

definition registry_inv :: "'p session_manager \<Rightarrow> bool" where
  "registry_inv m \<longleftrightarrow> registry_ok (registry_of m) \<and> (\<forall>a. auth_load a m \<le> maxSessionsPerAuthKey)"

lemma auth_load_registry: "auth_load a m = rg_load a (registry_of m)"
  by (simp add: auth_load_def rg_load_def)

lemma length_delete_mem:
  assumes "k \<in> fst ` set xs"
  shows "length (AList.delete k xs) < length xs"
  using assms by (auto simp: AList.delete_eq intro!: length_filter_less)

lemma length_update:
  "length (AList.update k v xs) = (if k \<in> fst ` set xs then length xs else Suc (length xs))"
  by (induction xs) auto

lemma length_delete_distinct:
  assumes "distinct (map fst xs)" and "k \<in> fst ` set xs"
  shows "Suc (length (AList.delete k xs)) = length xs"
  using assms
proof (induction xs)
  case (Cons x xs)
  show ?case
  proof (cases "fst x = k")
    case True
    with Cons.prems have "k \<notin> fst ` set xs" by auto
    then have "AList.delete k xs = xs" by (simp add: AList.delete_eq filter_id_conv split_beta) force
    with True show ?thesis by (simp add: AList.delete_eq split_beta)
  next
    case False
    with Cons show ?thesis by (auto simp: AList.delete_eq split_beta)
  qed
qed simp

lemma load_removeClaim_le: "rg_load a (rg_removeClaim k r) \<le> rg_load a r"
  by (simp add: length_delete_le rg_load_def rg_removeClaim_def index_defs)

lemma load_removeOwner_le: "rg_load a (rg_removeOwner k c r) \<le> rg_load a r"
  by (simp add: length_delete_le rg_load_def rg_removeOwner_def index_defs)

lemma load_conn [simp]: "rg_load a (rg_conn f c r) = rg_load a r"
  by (simp add: rg_load_def)

lemma in_index_dom:
  assumes "indexed idx f"
  shows "i \<in> fst ` set (idx k) \<longleftrightarrow> f k i \<noteq> None"
proof -
  have "f k = map_of (idx k)" using assms by (simp add: indexed_def)
  then show ?thesis by (simp add: map_of_eq_None_iff)
qed

lemma claims_indexed: "registry_ok r \<Longrightarrow> indexed (rg_claimsByAuth r) (\<lambda>a sid. map_of (rg_claim r) (a, sid))"
  and owners_indexed: "registry_ok r \<Longrightarrow> indexed (rg_byAuthKey r) (\<lambda>a sid. map_of (rg_owner r) (a, sid))"
  and business_indexed: "registry_ok r \<Longrightarrow> indexed (rg_byBusiness r) (business_index r)"
  and users_indexed: "registry_ok r \<Longrightarrow> indexed (rg_byUser r) (user_index r)"
  by (simp_all add: registry_ok_def)

lemma load_removeClaim_less:
  assumes "registry_ok r" and "map_of (rg_claim r) k = Some c"
  shows "rg_load (fst k) (rg_removeClaim k r) < rg_load (fst k) r"
proof -
  have "snd k \<in> fst ` set (rg_claimsByAuth r (fst k))"
    using in_index_dom [OF claims_indexed [OF assms(1)], of "snd k" "fst k"] assms(2) by simp
  from length_delete_mem [OF this] show ?thesis by (simp add: rg_load_def rg_removeClaim_def index_defs)
qed

lemma load_removeOwner_less:
  assumes "registry_ok r" and "map_of (rg_owner r) k = Some c"
  shows "rg_load (fst k) (rg_removeOwner k c r) < rg_load (fst k) r"
proof -
  have "snd k \<in> fst ` set (rg_byAuthKey r (fst k))"
    using in_index_dom [OF owners_indexed [OF assms(1)], of "snd k" "fst k"] assms(2) by simp
  from length_delete_mem [OF this] show ?thesis by (simp add: rg_load_def rg_removeOwner_def index_defs)
qed

lemma load_activate:
  assumes "registry_ok r" and "map_of (rg_claim r) k = Some c"
  shows "rg_load a (rg_activate k c r) \<le> rg_load a r"
proof -
  have own: "map_of (rg_owner r) k = None" by (rule claim_facts(3) [OF assms])
  have "snd k \<in> fst ` set (rg_claimsByAuth r (fst k))"
    using in_index_dom [OF claims_indexed [OF assms(1)], of "snd k" "fst k"] assms(2) by simp
  from length_delete_mem [OF this] show ?thesis
    by (simp add: rg_load_def rg_activate_def rg_publish_def rg_removeClaim_def index_defs length_update)
qed

section \<open>Removing and retiring\<close>

lemma retire_fields [simp]:
  "sm_bySession (on_conn f c m) = sm_bySession m" "sm_claims (on_conn f c m) = sm_claims m"
  "sm_byAuthKey (on_conn f c m) = sm_byAuthKey m" "sm_claimsByAuth (on_conn f c m) = sm_claimsByAuth m"
  "sm_byBusiness (on_conn f c m) = sm_byBusiness m" "sm_byUser (on_conn f c m) = sm_byUser m"
  "sm_pending (on_conn f c m) = sm_pending m" "sm_flushing (on_conn f c m) = sm_flushing m"
  "sm_interest (on_conn f c m) = sm_interest m" "sm_members (on_conn f c m) = sm_members m"
  "sm_subs (on_conn f c m) = sm_subs m" "sm_logical (on_conn f c m) = sm_logical m"
  "sm_reservations (on_conn f c m) = sm_reservations m" "sm_budget (on_conn f c m) = sm_budget m"
  "sm_panic (on_conn f c m) = sm_panic m"
  "sm_conns (on_conn f c m) = (sm_conns m)(c := f (sm_conns m c))"
  by (simp_all add: on_conn_def)

lemma retire_key [simp]: "conn_key (retire_conn c m) d = conn_key m d"
  by (simp add: conn_retire_def)

lemma removeLocked_registry:
  "registry_of (snd (removeLocked c dp m)) =
     (if owner_of m (conn_key m c) = Some c then rg_removeOwner (conn_key m c) c (registry_of m) else registry_of m)"
  by (simp add: removeLocked_def Let_def registry_frame)

lemma retireConn_registry:
  "registry_of (snd (retireConnLocked c dp m)) =
     (if owner_of m (conn_key m c) = Some c then rg_removeOwner (conn_key m c) c (rg_retire c (registry_of m))
      else rg_retire c (registry_of m))"
  by (simp add: retireConnLocked_def removeLocked_registry registry_frame conn_retire_def)

lemma retireClaim_registry:
  "registry_of (retireClaimLocked k c dp m) =
     (if claim_of m k = Some c then rg_removeClaim k (rg_retire c (registry_of m)) else registry_of m)"
  by (simp add: retireClaimLocked_def Let_def registry_frame)

lemma inv_of_registry:
  assumes "registry_inv m" and "registry_ok (registry_of n)"
    and "\<And>a. rg_load a (registry_of n) \<le> rg_load a (registry_of m)"
  shows "registry_inv n"
  using assms le_trans unfolding registry_inv_def auth_load_registry by blast

lemma inv_same:
  assumes "registry_inv m" and "registry_of n = registry_of m"
  shows "registry_inv n"
  using assms by (simp add: registry_inv_def auth_load_registry)

lemma retire_inv [simp]: "registry_inv m \<Longrightarrow> registry_inv (retire_conn c m)"
  by (rule inv_of_registry) (auto simp: registry_frame registry_inv_def intro: rg_retire_ok)

lemma retired_owner_removed:
  assumes "registry_ok r" and "map_of (rg_owner r) k = Some c"
  shows "registry_ok (rg_removeOwner k c (rg_retire c r))"
  using assms by (intro removeOwner_ok rg_retire_ok) auto

lemma retireConn_inv:
  assumes "registry_inv m"
  shows "registry_inv (snd (retireConnLocked c dp m))"
  by (rule inv_of_registry [OF assms])
    (use assms load_removeOwner_le [of _ _ c "rg_retire c (registry_of m)"] in
      \<open>auto simp: retireConn_registry registry_inv_def intro: rg_retire_ok retired_owner_removed\<close>)

lemma removeLocked_inv:
  assumes "registry_inv m" and "mc_life (sm_conns m c) = Retired"
  shows "registry_inv (snd (removeLocked c dp m))"
  by (rule inv_of_registry [OF assms(1)])
    (use assms load_removeOwner_le [of _ _ c "registry_of m"] in
      \<open>auto simp: removeLocked_registry registry_inv_def intro: removeOwner_ok\<close>)

lemma retireClaim_inv:
  assumes "registry_inv m"
  shows "registry_inv (retireClaimLocked k c dp m)"
  by (rule inv_of_registry [OF assms])
    (use assms load_removeClaim_le [of _ k "rg_retire c (registry_of m)"] in
      \<open>auto simp: retireClaim_registry registry_inv_def intro: rg_retire_ok removeClaim_ok\<close>)

lemma removeClaim_inv:
  assumes "registry_inv m"
  shows "registry_inv (removeClaimLocked k c m)"
  by (rule inv_of_registry [OF assms])
    (use assms load_removeClaim_le [of _ k "registry_of m"] in
      \<open>auto simp: registry_frame registry_inv_def intro: removeClaim_ok\<close>)

section \<open>Activation\<close>

text \<open>The victim of an eviction is an owner or a claim of the auth key, so evicting it lowers the load.\<close>

definition is_entry :: "'p session_manager \<Rightarrow> auth_key_id \<Rightarrow> int \<times> nat \<times> bool \<Rightarrow> bool" where
  "is_entry m a v = (case v of (sid, c, isClaim) \<Rightarrow>
     (if isClaim then claim_of m (a, sid) = Some c else owner_of m (a, sid) = Some c))"

lemma fold_older_entry:
  assumes "fold (older m x b) es best = Some v" and "\<And>w. best = Some w \<Longrightarrow> P w"
    and "\<And>sid c. (sid, c) \<in> set es \<Longrightarrow> P (sid, c, b)"
  shows "P v"
  using assms
proof (induction es arbitrary: best)
  case (Cons e es)
  show ?case
  proof (rule Cons.IH)
    show "fold (older m x b) es (older m x b e best) = Some v" using Cons.prems(1) by simp
    show "P w" if "older m x b e best = Some w" for w
      using that Cons.prems(2,3) by (cases e) (auto split: if_splits option.splits)
  qed (use Cons.prems(3) in auto)
qed simp

lemma oldest_is_entry:
  assumes ok: "registry_ok (registry_of m)" and "oldestAuthOwnerLocked a x m = Some v"
  shows "is_entry m a v"
proof -
  have own: "is_entry m a (sid, c, False)" if "(sid, c) \<in> set (sm_byAuthKey m a)" for sid c
    using that owners_indexed [OF ok] map_of_is_SomeI [of "sm_byAuthKey m a" sid c]
    by (simp add: indexed_def is_entry_def)
  have cl: "is_entry m a (sid, c, True)" if "(sid, c) \<in> set (sm_claimsByAuth m a)" for sid c
    using that claims_indexed [OF ok] map_of_is_SomeI [of "sm_claimsByAuth m a" sid c]
    by (simp add: indexed_def is_entry_def)
  show ?thesis using assms(2) unfolding oldestAuthOwnerLocked_def
    by (rule fold_older_entry) (auto intro: cl own elim!: fold_older_entry)
qed

lemma oldest_not_excluded:
  assumes "oldestAuthOwnerLocked a x m = Some v"
  shows "fst (snd v) \<noteq> x"
proof -
  have step: "fold (older m x b) es best = Some v \<Longrightarrow> (\<And>w. best = Some w \<Longrightarrow> fst (snd w) \<noteq> x) \<Longrightarrow> fst (snd v) \<noteq> x"
    for b es best v
  proof (induction es arbitrary: best)
    case (Cons e es)
    show ?case
      by (rule Cons.IH [of "older m x b e best"]) (use Cons.prems in \<open>cases e, auto split: if_splits option.splits\<close>)+
  qed simp
  show ?thesis using assms unfolding oldestAuthOwnerLocked_def by (rule step) (auto elim!: step)
qed

lemma fold_older_None:
  assumes "fold (older m x b) es best = None"
  shows "best = None \<and> snd ` set es \<subseteq> {x}"
  using assms
proof (induction es arbitrary: best)
  case (Cons e es)
  from Cons.IH [of "older m x b e best"] Cons.prems show ?case
    by (cases e) (auto split: if_splits option.splits)
qed simp

lemma evict_one_ok:
  assumes inv: "registry_inv m" and e: "is_entry m a v"
  shows "registry_inv (evict_one a v m)" and "auth_load a (evict_one a v m) < auth_load a m"
proof -
  obtain sid d b where v: "v = (sid, d, b)" by (cases v) auto
  have ok: "registry_ok (registry_of m)" using inv by (simp add: registry_inv_def)
  show "registry_inv (evict_one a v m)" using inv by (simp add: evict_one_def v retireClaim_inv retireConn_inv)
  show "auth_load a (evict_one a v m) < auth_load a m"
  proof (cases b)
    case True
    with e have "claim_of m (a, sid) = Some d" by (simp add: is_entry_def v)
    then show ?thesis
      using True load_removeClaim_less [OF rg_retire_ok [OF ok, of d], of "(a, sid)" d]
      by (simp add: evict_one_def v auth_load_registry retireClaim_registry)
  next
    case False
    with e have own: "owner_of m (a, sid) = Some d" by (simp add: is_entry_def v)
    with owner_facts(1) [OF ok, of "(a, sid)" d] have "conn_key m d = (a, sid)" by simp
    then show ?thesis
      using False own load_removeOwner_less [OF rg_retire_ok [OF ok, of d], of "(a, sid)" d]
      by (simp add: evict_one_def v auth_load_registry retireConn_registry)
  qed
qed

text \<open>What an activation relies on while it replaces others: its own identity, and an absent owner.\<close>

definition claimant_ok :: "nat \<Rightarrow> session_key \<Rightarrow> 'p session_manager \<Rightarrow> bool" where
  "claimant_ok c k m \<longleftrightarrow> registry_inv m \<and> conn_key m c = k \<and> mc_life (sm_conns m c) = Claiming \<and> owner_of m k = None"

lemma ident_of_other:
  assumes "registry_of n = R" and "rg_ident R c = rg_ident (registry_of m) c"
  shows "conn_key n c = conn_key m c" and "mc_life (sm_conns n c) = mc_life (sm_conns m c)"
proof -
  have "rg_ident (registry_of n) c = rg_ident (registry_of m) c" using assms by simp
  then show "conn_key n c = conn_key m c" and "mc_life (sm_conns n c) = mc_life (sm_conns m c)"
    by (simp_all add: registry_of_def ident_of_def)
qed

lemma owner_field: "sm_bySession n = rg_owner (registry_of n)"
  by simp

lemma evict_one_claimant:
  assumes "claimant_ok c k m" and "fst (snd v) \<noteq> c" and "is_entry m a v"
  shows "claimant_ok c k (evict_one a v m)"
proof -
  obtain sid d b where v: "v = (sid, d, b)" by (cases v) auto
  have "registry_inv (evict_one a v m)" using evict_one_ok(1) [OF _ assms(3)] assms(1) by (simp add: claimant_ok_def)
  moreover have "rg_ident (registry_of (evict_one a v m)) c = rg_ident (registry_of m) c"
    using assms(2) by (simp add: evict_one_def v retireClaim_registry retireConn_registry rg_removeClaim_def)
  moreover have "map_of (rg_owner (registry_of (evict_one a v m))) k = None"
    using assms(1) by (simp add: claimant_ok_def evict_one_def v retireClaim_registry retireConn_registry rg_removeClaim_def
        del: registry_of_sel(1)) (auto simp: claimant_ok_def)
  ultimately show ?thesis
    using assms(1) ident_of_other [OF refl, of "evict_one a v m" c m] by (simp add: claimant_ok_def)
qed

lemma own_load_small:
  assumes "claimant_ok c k m" and "oldestAuthOwnerLocked a c m = None"
  shows "auth_load a m \<le> 1"
proof -
  have ok: "registry_ok (registry_of m)" and life: "mc_life (sm_conns m c) = Claiming"
    using assms(1) by (auto simp: claimant_ok_def registry_inv_def)
  have c1: "snd ` set (sm_claimsByAuth m a) \<subseteq> {c}" and c2: "snd ` set (sm_byAuthKey m a) \<subseteq> {c}"
    using fold_older_None [OF assms(2) [unfolded oldestAuthOwnerLocked_def]]
      fold_older_None [of m c False "sm_byAuthKey m a" None] by auto
  have "sm_byAuthKey m a = []"
  proof (rule ccontr)
    assume "sm_byAuthKey m a \<noteq> []"
    then obtain sid d where e: "(sid, d) \<in> set (sm_byAuthKey m a)" by (cases "sm_byAuthKey m a") auto
    then have "owner_of m (a, sid) = Some d"
      using owners_indexed [OF ok] map_of_is_SomeI [of "sm_byAuthKey m a" sid d] by (simp add: indexed_def)
    with owner_facts(2) [OF ok, of "(a, sid)" d] e c2 life show False by force
  qed
  moreover have "fst ` set (sm_claimsByAuth m a) \<subseteq> {snd k}"
  proof
    fix sid assume "sid \<in> fst ` set (sm_claimsByAuth m a)"
    then obtain d where e: "(sid, d) \<in> set (sm_claimsByAuth m a)" by auto
    then have "claim_of m (a, sid) = Some d"
      using claims_indexed [OF ok] map_of_is_SomeI [of "sm_claimsByAuth m a" sid d] by (simp add: indexed_def)
    with claim_facts(1) [OF ok, of "(a, sid)" d] e c1 have "conn_key m c = (a, sid)" by force
    with assms(1) have "k = (a, sid)" by (simp add: claimant_ok_def)
    then show "sid \<in> {snd k}" by simp
  qed
  then have "card (set (map fst (sm_claimsByAuth m a))) \<le> 1"
    by (metis card.empty card.insert card_mono empty_iff finite.emptyI finite.insertI list.set_map One_nat_def)
  then have "length (sm_claimsByAuth m a) \<le> 1"
    using claims_indexed [OF ok] distinct_card [of "map fst (sm_claimsByAuth m a)"] by (simp add: indexed_def)
  ultimately show ?thesis by (simp add: auth_load_def)
qed

lemma evict_over_cap_ok:
  assumes "claimant_ok c k m"
  shows "\<exists>cs n. evict_over_cap c a m = Some (cs, n) \<and> claimant_ok c k n \<and> auth_load a n < maxSessionsPerAuthKey
    \<and> c \<notin> set cs"
  using assms
proof (induction "auth_load a m" arbitrary: m rule: less_induct)
  case less
  show ?case
  proof (cases "auth_load a m < maxSessionsPerAuthKey")
    case True
    with less.prems show ?thesis by (simp add: evict_over_cap.simps)
  next
    case False
    with own_load_small [OF less.prems, of a] obtain v where v: "oldestAuthOwnerLocked a c m = Some v"
      by (cases "oldestAuthOwnerLocked a c m") (auto simp: maxSessionsPerAuthKey_def)
    have ok: "registry_ok (registry_of m)" and inv: "registry_inv m"
      using less.prems by (auto simp: claimant_ok_def registry_inv_def)
    let ?m = "evict_one a v m"
    have e: "is_entry m a v" by (rule oldest_is_entry [OF ok v])
    have ne: "fst (snd v) \<noteq> c" by (rule oldest_not_excluded [OF v])
    have lt: "auth_load a ?m < auth_load a m" by (rule evict_one_ok(2) [OF inv e])
    obtain cs n where "evict_over_cap c a ?m = Some (cs, n)" "claimant_ok c k n" "auth_load a n < maxSessionsPerAuthKey"
      "c \<notin> set cs"
      using less.hyps [OF lt evict_one_claimant [OF less.prems ne e]] by blast
    with False v lt ne show ?thesis by (subst evict_over_cap.simps) (simp add: Let_def)
  qed
qed

lemma retireConn_clears:
  assumes "registry_inv m" and "owner_of m k = Some d"
  shows "owner_of (snd (retireConnLocked d dp m)) k = None"
proof -
  have "conn_key m d = k" using owner_facts(1) [of "registry_of m" k d] assms by (simp add: registry_inv_def)
  then show ?thesis using assms(2) unfolding owner_field by (simp add: retireConn_registry)
qed

lemma retireClaim_claimant:
  assumes "registry_inv m" and "d \<noteq> c"
  shows "registry_inv (retireClaimLocked k d dp m)" and "conn_key (retireClaimLocked k d dp m) c = conn_key m c"
    and "mc_life (sm_conns (retireClaimLocked k d dp m) c) = mc_life (sm_conns m c)"
    and "sm_bySession (retireClaimLocked k d dp m) = sm_bySession m"
  using assms retireClaim_inv [OF assms(1), of k d dp]
    ident_of_other [OF refl, of "retireClaimLocked k d dp m" c m]
  by (simp_all add: retireClaim_registry rg_removeClaim_def owner_field del: registry_of_sel(1))

lemma retireConn_claimant:
  assumes "registry_inv m" and "d \<noteq> c"
  shows "registry_inv (snd (retireConnLocked d dp m))" and "conn_key (snd (retireConnLocked d dp m)) c = conn_key m c"
    and "mc_life (sm_conns (snd (retireConnLocked d dp m)) c) = mc_life (sm_conns m c)"
  using assms retireConn_inv [OF assms(1), of d dp] ident_of_other [OF refl, of "snd (retireConnLocked d dp m)" c m]
  by (simp_all add: retireConn_registry)

lemma take_over_ok:
  assumes inv: "registry_inv m" and life: "mc_life (sm_conns m c) = Claiming" and t: "take_over c m = (rs, n)"
  shows "claimant_ok c (conn_key m c) n" and "c \<notin> set rs"
proof -
  let ?k = "conn_key m c"
  define m1 where "m1 = (case claim_of m ?k of None \<Rightarrow> m | Some d \<Rightarrow> if d = c then m else retireClaimLocked ?k d False m)"
  have m1: "registry_inv m1" "conn_key m1 c = ?k" "mc_life (sm_conns m1 c) = Claiming"
    using inv life retireClaim_claimant [OF inv, of _ c ?k False] by (auto simp: m1_def split: option.split)
  have n: "n = (case owner_of m1 ?k of None \<Rightarrow> m1 | Some d \<Rightarrow> if d = c then m1 else snd (retireConnLocked d False m1))"
    and rs: "c \<notin> set rs"
    using t by (auto simp: take_over_def Let_def m1_def split: option.splits if_splits prod.splits)
  show "c \<notin> set rs" by (rule rs)
  have notown: "owner_of m1 ?k \<noteq> Some c"
    using owner_facts(2) [of "registry_of m1" ?k c] m1 by (auto simp: registry_inv_def)
  show "claimant_ok c ?k n"
    using m1 notown retireConn_claimant [OF m1(1), of _ c False] retireConn_clears [OF m1(1), of ?k _ False]
    by (auto simp: n claimant_ok_def split: option.split)
qed

lemma addClaim_inv:
  assumes "claimant_ok c k m" and "auth_load (fst k) m < maxSessionsPerAuthKey"
  shows "registry_inv (addClaimLocked k c m)"
proof -
  have "registry_ok (registry_of (addClaimLocked k c m))"
    using assms(1) addClaim_ok [of "registry_of m" c k] by (simp add: claimant_ok_def registry_inv_def registry_frame)
  moreover have "auth_load a (addClaimLocked k c m) \<le> maxSessionsPerAuthKey" for a
    using assms by (cases "a = fst k")
      (auto simp: claimant_ok_def registry_inv_def auth_load_def addClaimLocked_def index_defs length_update)
  ultimately show ?thesis by (simp add: registry_inv_def)
qed

lemma begin_locked_ok:
  assumes "registry_inv m"
  shows "\<exists>res n. begin_locked c m = Some (res, n) \<and> registry_inv n
    \<and> (\<forall>cs. res = Inr cs \<longrightarrow> claim_of n (conn_key m c) = Some c)"
proof (cases "\<not> mc_open (sm_conns m c) \<or> mc_life (sm_conns m c) \<noteq> Claiming")
  case True
  then show ?thesis using assms by (auto simp: begin_locked_def)
next
  case False
  obtain rs m1 where t: "take_over c m = (rs, m1)" by (cases "take_over c m")
  from take_over_ok(1) [OF assms _ t] False have "claimant_ok c (conn_key m c) m1" by simp
  from evict_over_cap_ok [OF this, of "fst (conn_key m c)"] obtain cs m2
    where e: "evict_over_cap c (fst (conn_key m c)) m1 = Some (cs, m2)" "claimant_ok c (conn_key m c) m2"
      "auth_load (fst (conn_key m c)) m2 < maxSessionsPerAuthKey" by blast
  with False t addClaim_inv [OF e(2,3)] show ?thesis
    by (simp add: begin_locked_def Let_def addClaimLocked_def)
qed

lemma begin_ident:
  assumes "conn_beginActivationClaim race x = (b, d)"
  shows "ident_of d = ident_of x \<or> ident_of d = (ident_of x)\<lparr>id_life := Retired\<rparr>
    \<or> (mc_life x = Provisional \<and> ident_of d = (ident_of x)\<lparr>id_life := Claiming\<rparr>)"
  using assms by (cases race; auto simp: conn_beginActivationClaim_def Let_def ident_of_def conn_retire_def split: if_splits)

lemma claiming_ok:
  assumes "registry_ok r" and "id_life (rg_ident r c) = Provisional"
  shows "registry_ok (rg_conn (\<lambda>d. d\<lparr>id_life := Claiming\<rparr>) c r)"
proof -
  have no: "map_of (rg_owner r) k \<noteq> Some c" "map_of (rg_claim r) k \<noteq> Some c" for k
    using owner_facts(2) [OF assms(1), of k c] claim_facts(2) [OF assms(1), of k c] assms(2) by auto
  have "owners_ok (rg_conn (\<lambda>d. d\<lparr>id_life := Claiming\<rparr>) c r)"
    unfolding owners_ok_def rg_sel
  proof (intro conjI allI impI)
    show "distinct (map fst (rg_owner r))" "distinct (map fst (rg_claim r))"
      using assms(1) by (auto simp: registry_ok_def owners_ok_def)
  qed (use no owner_facts [OF assms(1)] claim_facts [OF assms(1)] fresh_facts [OF assms(1)] assms
      in \<open>auto simp: registry_ok_def owners_ok_def split: if_splits simp del: map_of_eq_Some_iff\<close>)
  with assms(1) indexes_of_conn [of "\<lambda>d. d\<lparr>id_life := Claiming\<rparr>" r c] show ?thesis
    by (simp add: registry_ok_def)
qed

lemma begin_claim_inv:
  assumes "registry_inv m" and "begin_claim race c m = (ok, n)"
  shows "registry_inv n"
proof -
  let ?r = "registry_of m"
  have rok: "registry_ok ?r" using assms(1) by (simp add: registry_inv_def)
  obtain b d where p: "conn_beginActivationClaim race (sm_conns m c) = (b, d)"
    by (cases "conn_beginActivationClaim race (sm_conns m c)")
  have n: "n = on_conn (\<lambda>_. d) c m" using assms(2) p by (simp add: begin_claim_def)
  from begin_ident [OF p] have "registry_ok (registry_of n) \<and> (\<forall>a. rg_load a (registry_of n) = rg_load a ?r)"
  proof (elim disjE conjE)
    assume "ident_of d = ident_of (sm_conns m c)"
    then have "registry_of n = rg_conn (\<lambda>x. x) c ?r" unfolding n by (intro registry_of_on_conn) simp
    then show ?thesis using rok by (simp add: rg_conn_def)
  next
    assume "ident_of d = (ident_of (sm_conns m c))\<lparr>id_life := Retired\<rparr>"
    then have "registry_of n = rg_retire c ?r" unfolding n by (intro registry_of_on_conn) simp
    then show ?thesis using rg_retire_ok [OF rok] by simp
  next
    assume "mc_life (sm_conns m c) = Provisional" "ident_of d = (ident_of (sm_conns m c))\<lparr>id_life := Claiming\<rparr>"
    moreover from this have "registry_of n = rg_conn (\<lambda>x. x\<lparr>id_life := Claiming\<rparr>) c ?r"
      unfolding n by (intro registry_of_on_conn) simp
    ultimately show ?thesis using claiming_ok [OF rok, of c] by simp
  qed
  then show ?thesis by (intro inv_of_registry [OF assms(1)]) auto
qed

lemma publish_ident:
  assumes "conn_publishActivation race x = (b, d)" and "mc_life x = Claiming"
  shows "(b \<longrightarrow> ident_of d = (ident_of x)\<lparr>id_life := Active\<rparr>)
    \<and> (\<not> b \<longrightarrow> ident_of d = ident_of x \<or> ident_of d = (ident_of x)\<lparr>id_life := Retired\<rparr>)"
  using assms by (cases race) (auto simp: conn_publishActivation_def Let_def ident_of_def conn_retire_def split: if_splits)

lemma publish_registry:
  assumes "registry_inv m" and "PublishActivation race c m = (res, n)"
  shows "registry_inv n \<and> (res = None \<longrightarrow> claim_of m (conn_key m c) = Some c \<and> owner_of n (conn_key m c) = Some c
    \<and> mc_life (sm_conns n c) = Active \<and> registry_of n = rg_activate (conn_key m c) c (registry_of m))"
proof -
  let ?k = "conn_key m c" and ?r = "registry_of m"
  have rok: "registry_ok ?r" using assms(1) by (simp add: registry_inv_def)
  obtain b d where p: "conn_publishActivation race (sm_conns m c) = (b, d)" by (cases "conn_publishActivation race (sm_conns m c)")
  consider (superseded) "claim_of m ?k \<noteq> Some c" | (closed) "claim_of m ?k = Some c" "mc_life (sm_conns m c) \<noteq> Claiming"
    | (live) "claim_of m ?k = Some c" "mc_life (sm_conns m c) = Claiming" by blast
  then show ?thesis
  proof cases
    case superseded
    with assms show ?thesis by (auto simp: PublishActivation_def Let_def)
  next
    case closed
    with assms removeClaim_inv [OF assms(1), of ?k c] show ?thesis by (auto simp: PublishActivation_def Let_def)
  next
    case live
    have own: "owner_of m ?k = None" using claim_facts(3) [OF rok, of ?k c] live by simp
    let ?m = "on_conn (\<lambda>_. d) c m"
    have "PublishActivation race c m = (if b then (None, index_owner ?k c (removeClaimLocked ?k c ?m))
        else (Some ErrActivationConnClosed, removeClaimLocked ?k c ?m))"
      using live own p by (simp add: PublishActivation_def Let_def)
    with assms(2) have n: "n = (if b then index_owner ?k c (removeClaimLocked ?k c ?m) else removeClaimLocked ?k c ?m)"
      and res: "res = None \<longleftrightarrow> b"
      by (auto split: if_splits)
    note id = publish_ident [OF p live(2)]
    show ?thesis
    proof (cases b)
      case True
      have rm: "registry_of ?m = rg_conn (\<lambda>d. d\<lparr>id_life := Active\<rparr>) c ?r"
        using id True by (intro registry_of_on_conn) simp
      have rn: "registry_of n = rg_activate ?k c ?r"
        using True live by (simp add: n registry_frame rm rg_activate_def)
      have "owner_of n ?k = Some c" unfolding owner_field rn by (simp add: rg_activate_def rg_publish_def)
      moreover have "mc_life (sm_conns n c) = Active"
        using registry_of_sel(8) [of n c] unfolding rn by (simp add: rg_activate_def rg_publish_def rg_removeClaim_def)
      ultimately show ?thesis
        using activate_ok [OF rok, of ?k c] load_activate [OF rok, of ?k c] live rn
        by (auto intro!: inv_of_registry [OF assms(1)])
    next
      case False
      have "registry_of ?m = ?r \<or> registry_of ?m = rg_retire c ?r"
        using id False by (auto simp: registry_of_def on_conn_def rg_conn_def fun_eq_iff)
      then have "registry_inv ?m" using rok rg_retire_ok [OF rok, of c] by (intro inv_of_registry [OF assms(1)]) auto
      with False res n removeClaim_inv [of ?m ?k c] show ?thesis by auto
    qed
  qed
qed

end
