(* ===== verification/Session_Identity_Inv.thy ===== *)
theory Session_Identity_Inv
  imports Session_Ops
begin

text \<open>The remaining operations on the registry: leaving, identity changes and forced closing.\<close>

section \<open>Leaving\<close>

lemma AbortActivation_inv:
  assumes "registry_inv m"
  shows "registry_inv (snd (AbortActivation now c m))"
proof (cases "claim_of m (conn_key m c) = Some c")
  case True
  have "registry_of (snd (AbortActivation now c m)) = registry_of (removeClaimLocked (conn_key m c) c (retire_conn c m))"
    using True by (simp add: AbortActivation_def Let_def registry_frame)
  then show ?thesis using inv_same removeClaim_inv [OF retire_inv [OF assms]] by blast
next
  case False
  with assms show ?thesis by (simp add: AbortActivation_def)
qed

lemma begin_finish_inv: "registry_inv m \<Longrightarrow> registry_inv (snd (begin_finish now ok c m))"
  by (simp add: begin_finish_def AbortActivation_inv)

lemma retired_conn [simp]: "mc_life (sm_conns (retire_conn c m) c) = Retired"
  by (simp add: conn_retire_def)

lemma ident_fields:
  assumes "registry_of n = registry_of m"
  shows "conn_key n c = conn_key m c" "mc_life (sm_conns n c) = mc_life (sm_conns m c)"
    "mc_business (sm_conns n c) = mc_business (sm_conns m c)" "mc_user (sm_conns n c) = mc_user (sm_conns m c)"
    "sm_bySession n = sm_bySession m" "sm_claims n = sm_claims m"
  using registry_of_sel [of n] registry_of_sel [of m] unfolding assms by metis+

lemma ident_removeClaim [simp]: "rg_ident (rg_removeClaim k r) = rg_ident r"
  by (simp add: rg_removeClaim_def)

lemma Unregister_inv:
  assumes "registry_inv m"
  shows "registry_inv (snd (Unregister now c m))"
proof -
  let ?m = "retire_conn c m" and ?k = "conn_key m c"
  define m1 where "m1 = (if claim_of ?m ?k = Some c
    then stop_flushing ?k (deletePendingLocked ?k (removeClaimLocked ?k c ?m)) else ?m)"
  have r1: "registry_of m1 = registry_of (if claim_of ?m ?k = Some c then removeClaimLocked ?k c ?m else ?m)"
    by (simp add: m1_def registry_frame)
  have i1: "registry_inv m1" using inv_same [OF _ r1] removeClaim_inv [OF retire_inv [OF assms]] retire_inv [OF assms] by auto
  have l1: "mc_life (sm_conns m1 c) = Retired"
    using registry_of_sel(8) [of m1 c] unfolding r1 by (simp add: registry_frame split: if_splits del: registry_of_sel(8))
  have "registry_of (snd (Unregister now c m)) =
      registry_of (if owner_of m1 ?k = Some c then snd (removeLocked c True m1) else m1)"
    unfolding Unregister_def Let_def retire_key m1_def [symmetric]
    by (simp add: split_beta registry_frame)
  then show ?thesis using inv_same [OF removeLocked_inv [OF i1 l1, of True]] inv_same [OF i1] by (auto split: if_splits)
qed

lemma Destroy_registry:
  "registry_of (snd (snd (snd (DestroySessionForAuthKey a sid m)))) =
     (case owner_of m (a, sid) of
        Some c \<Rightarrow> registry_of (snd (retireConnLocked c True m))
      | None \<Rightarrow> (case claim_of m (a, sid) of
          Some d \<Rightarrow> registry_of (retireClaimLocked (a, sid) d True m) | None \<Rightarrow> registry_of m))"
proof -
  have d: "destroyLogicalSessionLocked k x = (fst (destroyLogicalSessionLocked k x), snd (destroyLogicalSessionLocked k x))"
    for k and x :: "'a session_manager" by simp
  have r: "retireConnLocked c b x = (fst (retireConnLocked c b x), snd (retireConnLocked c b x))"
    for c b and x :: "'a session_manager" by simp
  show ?thesis unfolding DestroySessionForAuthKey_def Let_def
    by (auto simp: registry_frame split: option.split prod.split)
      (metis registry_of_logical(3) snd_conv registry_of_deletePending)+
qed

lemma Destroy_inv:
  assumes "registry_inv m"
  shows "registry_inv (snd (snd (snd (DestroySessionForAuthKey a sid m))))"
  unfolding registry_inv_def auth_load_registry Destroy_registry
  using retireConn_inv [OF assms, of _ True] retireClaim_inv [OF assms, of "(a, sid)" _ True] assms
  by (auto simp: registry_inv_def auth_load_registry split: option.split)

section \<open>Identity\<close>

lemma registry_eqI:
  assumes "rg_owner r = rg_owner s" and "rg_claim r = rg_claim s" and "rg_claimsByAuth r = rg_claimsByAuth s"
    and "rg_byAuthKey r = rg_byAuthKey s" and "rg_byBusiness r = rg_byBusiness s" and "rg_byUser r = rg_byUser s"
    and "rg_ident r = rg_ident s"
  shows "r = (s :: registry)"
  using assms by (simp add: registry.equality)

lemma on_conn_sm [simp]:
  "registry_of ((on_conn f c m)\<lparr>sm_byUser := x\<rparr>) = (registry_of (on_conn f c m))\<lparr>rg_byUser := x\<rparr>"
  "registry_of (m\<lparr>sm_byUser := x\<rparr>) = (registry_of m)\<lparr>rg_byUser := x\<rparr>"
  "registry_of (m\<lparr>sm_byBusiness := y\<rparr>) = (registry_of m)\<lparr>rg_byBusiness := y\<rparr>"
  by (simp_all add: registry_of_def)

lemma byUser_field: "sm_byUser n = rg_byUser (registry_of n)" and byBusiness_field: "sm_byBusiness n = rg_byBusiness (registry_of n)"
  by simp_all

lemma registry_of_user: "registry_of (on_conn (\<lambda>d. d\<lparr>mc_user := u\<rparr>) c m) = rg_conn (\<lambda>d. d\<lparr>id_user := u\<rparr>) c (registry_of m)"
  by (rule registry_of_on_conn) (simp add: ident_of_def)

lemma bindUser_registry: "registry_of (bindUserLocked c k u m) = rg_setUser k c u (registry_of m)"
proof -
  have byUser: "sm_byUser n = rg_byUser (registry_of n)" for n :: "'a session_manager" by simp
  show ?thesis
    unfolding bindUserLocked_def Let_def rg_setUser_def
    by (simp add: registry_frame registry_of_user byUser del: registry_of_sel(6) retire_fields(6))
qed

lemma registry_of_business:
  "registry_of (on_conn (conn_SetBusinessAuthKeyID b) c m) =
     rg_conn (\<lambda>d. if id_business d = Some b then d else d\<lparr>id_business := Some b, id_user := 0\<rparr>) c (registry_of m)"
  by (rule registry_of_on_conn) (simp add: ident_of_def conn_SetBusinessAuthKeyID_def)

lemma bindAuthKey_registry:
  "registry_of (bindAuthKeyLocked c k b m) =
     (if mc_business (sm_conns m c) = Some b then rg_setBusiness k c b (registry_of m)
      else rg_setUser k c 0 (rg_setBusiness k c b (registry_of m)))"
proof -
  have user: "registry_of (on_conn (\<lambda>x. x\<lparr>mc_user := 0, mc_userResolved := False\<rparr>) c n) =
      rg_conn (\<lambda>d. d\<lparr>id_user := 0\<rparr>) c (registry_of n)" for n :: "'a session_manager"
    by (rule registry_of_on_conn) (simp add: ident_of_def)
  let ?m1 = "case mc_business (sm_conns m c) of None \<Rightarrow> m
    | Some old \<Rightarrow> m\<lparr>sm_byBusiness := removeBusinessAuthKeyIndex (sm_byBusiness m) old k\<rparr>"
  let ?m2 = "bindLogicalSessionAuthKeyLocked k b (on_conn (conn_SetBusinessAuthKeyID b) c ?m1)"
  let ?m3 = "?m2\<lparr>sm_byBusiness := addBusinessAuthKeyIndex (sm_byBusiness ?m2) b k c\<rparr>"
  have m1: "registry_of ?m1 = (registry_of m)\<lparr>rg_byBusiness := (case mc_business (sm_conns m c) of None \<Rightarrow> sm_byBusiness m
      | Some old \<Rightarrow> removeBusinessAuthKeyIndex (sm_byBusiness m) old k)\<rparr>"
    by (simp split: option.split)
  have m2: "registry_of ?m2 = rg_conn (\<lambda>d. if id_business d = Some b then d else d\<lparr>id_business := Some b, id_user := 0\<rparr>) c
      (registry_of ?m1)"
    by (simp add: registry_frame registry_of_business)
  have bb: "sm_byBusiness ?m2 = rg_byBusiness (registry_of ?m1)"
    using byBusiness_field [of ?m2] unfolding m2 by simp
  have m3: "registry_of ?m3 = (registry_of ?m2)\<lparr>rg_byBusiness := addBusinessAuthKeyIndex (rg_byBusiness (registry_of ?m1)) b k c\<rparr>"
    unfolding on_conn_sm bb ..
  have bu: "sm_byUser ?m3 = sm_byUser m" using byUser_field [of ?m3] unfolding m3 m2 m1 by simp
  show ?thesis
  proof (cases "mc_business (sm_conns m c) = Some b")
    case True
    then have "bindAuthKeyLocked c k b m = ?m3" by (simp add: bindAuthKeyLocked_def Let_def)
    moreover have "registry_of ?m3 = rg_setBusiness k c b (registry_of m)"
      unfolding m3 m2 m1 using True
      by (intro registry_eqI) (auto simp: rg_setBusiness_def Let_def rg_conn_def registry_of_def ident_of_def fun_eq_iff)
    ultimately show ?thesis using True by simp
  next
    case False
    let ?u = "mc_user (sm_conns m c)"
    let ?m4 = "if ?u \<noteq> 0 then ?m3\<lparr>sm_byUser := removeUserIndex (sm_byUser ?m3) ?u k\<rparr> else ?m3"
    have b: "bindAuthKeyLocked c k b m = on_conn (\<lambda>x. x\<lparr>mc_user := 0, mc_userResolved := False\<rparr>) c (drop_session_state c k ?m4)"
      using False by (simp add: bindAuthKeyLocked_def Let_def)
    have m4: "registry_of ?m4 = (registry_of ?m3)\<lparr>rg_byUser := (if ?u \<noteq> 0 then removeUserIndex (sm_byUser m) ?u k else sm_byUser m)\<rparr>"
      unfolding bu by (cases "?u = 0") (simp_all add: on_conn_sm(2) m3 m2 m1 rg_conn_def)
    have "registry_of (bindAuthKeyLocked c k b m) = rg_conn (\<lambda>d. d\<lparr>id_user := 0\<rparr>) c (registry_of ?m4)"
      unfolding b user registry_of_drop ..
    also have "\<dots> = rg_setUser k c 0 (rg_setBusiness k c b (registry_of m))"
      unfolding m4 m3 m2 m1 using False
      by (intro registry_eqI) (auto simp: rg_setUser_def rg_setBusiness_def Let_def rg_conn_def registry_of_def ident_of_def fun_eq_iff
          split: option.splits)
    finally show ?thesis using False by simp
  qed
qed

lemma load_sets [simp]:
  "rg_load a (rg_setUser k c u r) = rg_load a r" "rg_load a (rg_setBusiness k c b r) = rg_load a r"
  by (simp_all add: rg_setUser_def rg_setBusiness_def rg_load_def Let_def)

lemma owner_sets [simp]:
  "rg_owner (rg_setUser k c u r) = rg_owner r" "rg_owner (rg_setBusiness k c b r) = rg_owner r"
  by (simp_all add: rg_setUser_def rg_setBusiness_def Let_def)

lemma bindUserLocked_inv:
  assumes "registry_inv m" and "owner_of m k = Some c"
  shows "registry_inv (bindUserLocked c k u m)"
  by (rule inv_of_registry [OF assms(1)])
    (use assms in \<open>auto simp: bindUser_registry registry_inv_def intro!: setUser_ok\<close>)

lemma bindAuthKeyLocked_inv:
  assumes "registry_inv m" and "owner_of m k = Some c"
  shows "registry_inv (bindAuthKeyLocked c k b m)"
  by (rule inv_of_registry [OF assms(1)])
    (use assms in \<open>auto simp: bindAuthKey_registry registry_inv_def intro!: setUser_ok setBusiness_ok\<close>)

lemma bindAuthKey_owner [simp]: "sm_bySession (bindAuthKeyLocked c k b m) = sm_bySession m"
  unfolding owner_field bindAuthKey_registry by simp

lemma BindUser_inv: "registry_inv m \<Longrightarrow> registry_inv (BindUserForAuthKey a sid u m)"
  by (auto simp: BindUserForAuthKey_def intro: bindUserLocked_inv split: option.split)

lemma BindAuthKey_inv: "registry_inv m \<Longrightarrow> registry_inv (BindAuthKeyForSession a sid b m)"
  by (auto simp: BindAuthKeyForSession_def intro: bindAuthKeyLocked_inv split: option.split)

lemma bind_raw_one_inv: "registry_inv (snd nm) \<Longrightarrow> registry_inv (snd (bind_raw_one a b e nm))"
  by (auto simp: bind_raw_one_def intro: bindAuthKeyLocked_inv split: prod.split)

lemma BindRaw_inv:
  assumes "registry_inv m"
  shows "registry_inv (snd (BindAuthKeyForRawAuthKey a b m))"
proof -
  have "registry_inv (snd (fold (bind_raw_one a b) es nm))" if "registry_inv (snd nm)" for es and nm :: "nat \<times> 'a session_manager"
    using that by (induction es arbitrary: nm) (auto simp: bind_raw_one_inv)
  from this [of "(0, m)"] show ?thesis using assms by (simp add: BindAuthKeyForRawAuthKey_def)
qed

lemma update_subset: "set (AList.update k v xs) \<subseteq> insert (k, v) (set xs)"
  by (induction xs) auto

lemma candidates_owned:
  assumes "(k, c) \<in> set (businessAuthKeyCandidatesLocked a m)"
  shows "owner_of m k = Some c"
proof -
  let ?f = "\<lambda>(k, c) out. if owner_of m k = Some c then AList.update k c out else out"
  have step: "\<forall>(k, c)\<in>set (fold ?f es out). owner_of m k = Some c" if "\<forall>(k, c)\<in>set out. owner_of m k = Some c" for es out
    using that
  proof (induction es arbitrary: out)
    case (Cons e es)
    obtain k c where e: "e = (k, c)" by (cases e)
    have "\<forall>(k, c)\<in>set (?f e out). owner_of m k = Some c"
    proof (cases "owner_of m k = Some c")
      case True
      have "\<forall>(k, c)\<in>insert (k, c) (set out). owner_of m k = Some c" using True Cons.prems by simp
      then have "\<forall>(k, c)\<in>set (AList.update k c out). owner_of m k = Some c"
        using update_subset [of k c out] by (meson subsetD)
      with True show ?thesis by (simp add: e)
    qed (use Cons.prems in \<open>simp add: e\<close>)
    from Cons.IH [OF this] show ?case by simp
  qed simp
  have "\<forall>(k, c)\<in>set (businessAuthKeyCandidatesLocked a m). owner_of m k = Some c"
    unfolding businessAuthKeyCandidatesLocked_def by (rule step) simp
  with assms show ?thesis by blast
qed

lemma unbind_one_registry:
  "registry_of (snd (unbind_one a (k, c) (n, m))) =
     (if connUsesBusinessAuthKey (sm_conns m c) a then rg_setUser k c 0 (registry_of m) else registry_of m)"
proof -
  have u: "registry_of (if mc_user (sm_conns m c) \<noteq> 0
      then (on_conn (\<lambda>d. d\<lparr>mc_user := 0\<rparr>) c m)\<lparr>sm_byUser := removeUserIndex (sm_byUser (on_conn (\<lambda>d. d\<lparr>mc_user := 0\<rparr>) c m)) (mc_user (sm_conns m c)) k\<rparr>
      else on_conn (\<lambda>d. d\<lparr>mc_user := 0\<rparr>) c m) = rg_setUser k c 0 (registry_of m)"
    by (simp add: registry_of_user rg_setUser_def Let_def)
  show ?thesis using u by (simp add: unbind_one_def Let_def registry_frame)
qed

lemma Unbind_inv:
  assumes "registry_inv m"
  shows "registry_inv (snd (UnbindAuthKey a m))"
proof -
  have "registry_inv (snd (fold (unbind_one a) es nm)) \<and> sm_bySession (snd (fold (unbind_one a) es nm)) = sm_bySession (snd nm)"
    if "registry_inv (snd nm)" and "\<forall>(k, c)\<in>set es. owner_of (snd nm) k = Some c" for es and nm :: "nat \<times> 'a session_manager"
    using that
  proof (induction es arbitrary: nm)
    case (Cons e es)
    obtain k c n x where e: "e = (k, c)" "nm = (n, x)" by (cases e, cases nm) auto
    have own: "sm_bySession (snd (unbind_one a e nm)) = sm_bySession x"
      unfolding owner_field e unbind_one_registry by simp
    have "registry_inv (snd (unbind_one a e nm))"
      by (rule inv_of_registry [of x])
        (use Cons.prems in \<open>auto simp: e unbind_one_registry registry_inv_def intro!: setUser_ok\<close>)
    with Cons.IH [of "unbind_one a e nm"] own Cons.prems show ?case by (auto simp: e)
  qed simp
  moreover have "\<forall>(k, c)\<in>set (businessAuthKeyCandidatesLocked a m). owner_of m k = Some c"
    by (auto dest: candidates_owned)
  ultimately show ?thesis using assms by (simp add: UnbindAuthKey_def)
qed

section \<open>Forced closing\<close>

lemma close_owner_inv: "registry_inv (snd (snd acc)) \<Longrightarrow> registry_inv (snd (snd (close_owner skip e acc)))"
  by (simp add: close_owner_def split_beta retireConn_inv)

lemma close_claim_inv: "registry_inv (snd (snd acc)) \<Longrightarrow> registry_inv (snd (snd (close_claim skip e acc)))"
  by (auto simp: close_claim_def retireClaim_inv split: prod.split)

lemma fold_close_owner_inv: "registry_inv (snd (snd acc)) \<Longrightarrow> registry_inv (snd (snd (fold (close_owner skip) es acc)))"
  by (induction es arbitrary: acc) (auto simp: close_owner_inv)

lemma fold_close_claim_inv: "registry_inv (snd (snd acc)) \<Longrightarrow> registry_inv (snd (snd (fold (close_claim skip) es acc)))"
  by (induction es arbitrary: acc) (auto simp: close_claim_inv)

lemma CloseRaw_inv: "registry_inv m \<Longrightarrow> registry_inv (snd (snd (closeSessionsForRawAuthKey a skip m)))"
  by (simp add: closeSessionsForRawAuthKey_def Let_def fold_close_claim_inv fold_close_owner_inv)

lemma CloseBusiness_inv:
  assumes "registry_inv m"
  shows "registry_inv (snd (snd (CloseSessionsForBusinessAuthKey a m)))"
proof -
  let ?skip = "\<lambda>_ c d. \<not> connUsesBusinessAuthKey d a"
  let ?acc = "fold (close_claim ?skip) (sm_claims m) (fold (close_owner ?skip) (businessAuthKeyCandidatesLocked a m) ([], [], m))"
  have "registry_inv (snd (snd ?acc))" using assms by (intro fold_close_claim_inv fold_close_owner_inv) simp
  then show ?thesis
    by (auto simp: CloseSessionsForBusinessAuthKey_def Let_def registry_frame split: prod.split intro: inv_same)
qed

end
