(* ===== verification/Session_Machine.thy ===== *)
theory Session_Machine
  imports Session_Identity_Inv "HOL-Library.Multiset"
begin

text \<open>
  The manager under every interleaving of its callers. A command is one critical section; a flush
  worker, a producer of pushes and a sender advance between the commands of others. The order in which
  a Go map is walked is not fixed: the rule \<open>reorder\<close> permutes the lists that stand for maps.

  \<open>for_user\<close> says whose update a payload is (0 for what is addressed to a session, not an account).
  With \<open>bound\<close>, a session is made ready only when its connection has its business auth key resolved,
  which is what the RPC router does before any handler runs (router.go, \<open>effectiveAuthKeyID\<close>).

  A sender reads the identity of a connection without the lock and hands the push over in a later step,
  so that the connection may be bound to another user in between. \<open>pw_turns\<close> counts how often the user of
  a connection has changed, the mark of a sender is the user and the count it saw at its check, and
  \<open>pw_log\<close> gets its entry when the push is handed to the connection.
\<close>

datatype command =
    CmdClaim interference nat
  | CmdBegin nat
  | CmdBeginFinish int bool nat
  | CmdPublish interference nat
  | CmdAbort int nat
  | CmdUnregister int nat
  | CmdDestroy auth_key_id int
  | CmdBindUser auth_key_id int int
  | CmdBindAuthKey auth_key_id int auth_key_id
  | CmdBindRawAuthKey auth_key_id auth_key_id
  | CmdUnbindAuthKey auth_key_id
  | CmdCloseBusiness auth_key_id
  | CmdCloseRaw auth_key_id "int \<Rightarrow> nat \<Rightarrow> bool"
  | CmdInterest session_key int "int list"
  | CmdClearInterest session_key int
  | CmdSubscribe int session_key int int int
  | CmdSubscribers int int "int set" int
  | CmdMemberships session_key int "int list" "64 word"
  | CmdAddMembership int int
  | CmdRemoveMembership int int
  | CmdSweepPending int
  | CmdAttachLogical nat nat
  | CmdSweepLogical int
  | CmdForgetLogical auth_key_id
  | CmdInterfere interference nat
  | CmdProfile "int option" nat

fun run_command :: "command \<Rightarrow> 'p session_manager \<Rightarrow> 'p session_manager option" where
  "run_command (CmdClaim race c) m = Some (snd (begin_claim race c m))"
| "run_command (CmdBegin c) m = map_option snd (begin_locked c m)"
| "run_command (CmdBeginFinish now ok c) m = Some (snd (begin_finish now ok c m))"
| "run_command (CmdPublish race c) m = Some (snd (PublishActivation race c m))"
| "run_command (CmdAbort now c) m = Some (snd (AbortActivation now c m))"
| "run_command (CmdUnregister now c) m = Some (snd (Unregister now c m))"
| "run_command (CmdDestroy a sid) m = Some (snd (snd (snd (DestroySessionForAuthKey a sid m))))"
| "run_command (CmdBindUser a sid u) m = Some (BindUserForAuthKey a sid u m)"
| "run_command (CmdBindAuthKey a sid b) m = Some (BindAuthKeyForSession a sid b m)"
| "run_command (CmdBindRawAuthKey a b) m = Some (snd (BindAuthKeyForRawAuthKey a b m))"
| "run_command (CmdUnbindAuthKey a) m = Some (snd (UnbindAuthKey a m))"
| "run_command (CmdCloseBusiness a) m = Some (snd (snd (CloseSessionsForBusinessAuthKey a m)))"
| "run_command (CmdCloseRaw a skip) m = Some (snd (snd (closeSessionsForRawAuthKey a skip m)))"
| "run_command (CmdInterest k u chs) m = Some (TrackChannelInterest k u chs m)"
| "run_command (CmdClearInterest k u) m = Some (ClearChannelInterest k u m)"
| "run_command (CmdSubscribe now k u ch ttl) m = Some (RefreshChannelSubscription now k u ch ttl m)"
| "run_command (CmdSubscribers now ch ex limit) m = Some (snd (onlineChannelSubscriberUserIDsExcluding now ch ex limit m))"
| "run_command (CmdMemberships k u chs gen) m = Some (SetSessionChannelMemberships k u chs gen m)"
| "run_command (CmdAddMembership u ch) m = Some (AddUserChannelMembership u ch m)"
| "run_command (CmdRemoveMembership u ch) m = Some (RemoveUserChannelMembership u ch m)"
| "run_command (CmdSweepPending now) m = Some (sweepStalePending now m)"
| "run_command (CmdAttachLogical fresh c) m = Some (snd (attachLogicalSession fresh c m))"
| "run_command (CmdSweepLogical now) m = Some (snd (sweepLogicalSessions now m))"
| "run_command (CmdForgetLogical a) m = Some (snd (ForgetLogicalSessionsForRawAuthKey a m))"
| "run_command (CmdInterfere race c) m = Some (on_conn (interfere race) c m)"
| "run_command (CmdProfile p c) m = Some (on_conn (\<lambda>d. d\<lparr>mc_profile := p\<rparr>) c m)"

type_synonym mark = "int \<times> nat"

record 'p handover =
  ho_conn :: nat
  ho_push :: 'p
  ho_checked :: int
  ho_user :: int
  ho_rebound :: bool

record 'p push_world =
  pw_mgr :: "'p session_manager"
  pw_flushers :: "'p flusher list"
  pw_producers :: "nat list"
  pw_next :: nat
  pw_sends :: "(nat \<times> 'p \<times> mark) list"
  pw_marks :: "nat \<Rightarrow> mark"
  pw_turns :: "nat \<Rightarrow> nat"
  pw_log :: "'p handover list"

definition same_index :: "('k \<Rightarrow> 'v list) \<Rightarrow> ('k \<Rightarrow> 'v list) \<Rightarrow> bool" where
  "same_index f g \<longleftrightarrow> (\<forall>k. mset (f k) = mset (g k))"

definition reordered :: "'p session_manager \<Rightarrow> 'p session_manager \<Rightarrow> bool" where
  "reordered m n \<longleftrightarrow> (\<exists>os cl ca ak bu us pe.
     n = m\<lparr>sm_bySession := os, sm_claims := cl, sm_claimsByAuth := ca, sm_byAuthKey := ak, sm_byBusiness := bu,
       sm_byUser := us, sm_pending := pe\<rparr>
     \<and> mset os = mset (sm_bySession m) \<and> mset cl = mset (sm_claims m) \<and> same_index ca (sm_claimsByAuth m)
     \<and> same_index ak (sm_byAuthKey m) \<and> same_index bu (sm_byBusiness m) \<and> same_index us (sm_byUser m)
     \<and> mset pe = mset (sm_pending m))"

definition world_start :: "(nat \<Rightarrow> mconn) \<Rightarrow> 'p push_world" where
  "world_start cs = \<lparr>pw_mgr = NewSessionManager cs, pw_flushers = [], pw_producers = [], pw_next = 0,
     pw_sends = [], pw_marks = (\<lambda>_. (0, 0)), pw_turns = (\<lambda>_. 0), pw_log = []\<rparr>"

definition fresh_conn :: "mconn \<Rightarrow> bool" where
  "fresh_conn d \<longleftrightarrow> mc_life d = Provisional \<and> mc_business d = None \<and> mc_user d = 0 \<and> \<not> mc_receives d"

definition turned :: "'p session_manager \<Rightarrow> 'p session_manager \<Rightarrow> (nat \<Rightarrow> nat) \<Rightarrow> nat \<Rightarrow> nat" where
  "turned m n t c = (if mc_user (sm_conns n c) = mc_user (sm_conns m c) then t c else Suc (t c))"

definition check_mark :: "nat \<Rightarrow> 'p push_world \<Rightarrow> mark" where
  "check_mark c w = (mc_user (sm_conns (pw_mgr w) c), pw_turns w c)"

definition handed :: "nat \<Rightarrow> 'p \<Rightarrow> mark \<Rightarrow> 'p push_world \<Rightarrow> 'p handover list" where
  "handed c p mark w = pw_log w @ [\<lparr>ho_conn = c, ho_push = p, ho_checked = fst mark,
     ho_user = mc_user (sm_conns (pw_mgr w) c), ho_rebound = (snd mark \<noteq> pw_turns w c)\<rparr>]"

inductive world_step :: "bool \<Rightarrow> ('p \<Rightarrow> int) \<Rightarrow> 'p push_world \<Rightarrow> 'p push_world \<Rightarrow> bool"
  for bound :: bool and for_user :: "'p \<Rightarrow> int" where
  command: "run_command cmd (pw_mgr w) = Some m \<Longrightarrow>
    world_step bound for_user w (w\<lparr>pw_mgr := m, pw_turns := turned (pw_mgr w) m (pw_turns w)\<rparr>)"
| reorder: "reordered (pw_mgr w) m \<Longrightarrow> world_step bound for_user w (w\<lparr>pw_mgr := m\<rparr>)"
| set_receives: "SetReceivesUpdatesForAuthKey k b (pw_mgr w) = (start, m) \<Longrightarrow>
    bound \<longrightarrow> (\<forall>c. owner_of (pw_mgr w) k = Some c \<longrightarrow> mc_business (sm_conns (pw_mgr w) c) \<noteq> None) \<Longrightarrow>
    world_step bound for_user w (w\<lparr>pw_mgr := m,
      pw_flushers := pw_flushers w @ (case start of None \<Rightarrow> [] | Some f \<Rightarrow> [f])\<rparr>)"
| prepare: "preparePendingPush (pw_next w) bytes (pw_mgr w) = (Inr r, m) \<Longrightarrow> 0 \<le> bytes \<Longrightarrow>
    world_step bound for_user w (w\<lparr>pw_mgr := m, pw_producers := r # pw_producers w, pw_next := Suc (pw_next w)\<rparr>)"
| push_user: "push_rescan f now u p r (pw_mgr w) = (cs, q, m) \<Longrightarrow> for_user p = u \<Longrightarrow>
    (\<forall>i. r = Some i \<longrightarrow> i \<in> set (pw_producers w)) \<Longrightarrow> world_step bound for_user w (w\<lparr>pw_mgr := m\<rparr>)"
| push_session: "queueOrSendPrepared now k p r (pw_mgr w) = (res, m) \<Longrightarrow> for_user p = 0 \<Longrightarrow>
    r \<in> set (pw_producers w) \<Longrightarrow> world_step bound for_user w (w\<lparr>pw_mgr := m,
      pw_sends := (case res of SendNow c \<Rightarrow> (c, p, check_mark c w) # pw_sends w | _ \<Rightarrow> pw_sends w)\<rparr>)"
| producer_done: "r \<in> set (pw_producers w) \<Longrightarrow>
    world_step bound for_user w (w\<lparr>pw_mgr := push_release r (pw_mgr w), pw_producers := remove1 r (pw_producers w)\<rparr>)"
| send_user: "push_send_allowed f u c (pw_mgr w) \<Longrightarrow> for_user p = u \<Longrightarrow>
    world_step bound for_user w (w\<lparr>pw_sends := (c, p, check_mark c w) # pw_sends w\<rparr>)"
| send_session: "PushToSession_ready k (pw_mgr w) = Some (SendNow c) \<Longrightarrow> for_user p = 0 \<Longrightarrow>
    world_step bound for_user w (w\<lparr>pw_sends := (c, p, check_mark c w) # pw_sends w\<rparr>)"
| send_result: "(c, p, mark) \<in> set (pw_sends w) \<Longrightarrow> push_send c res acc (pw_mgr w) = (acc', m) \<Longrightarrow>
    world_step bound for_user w (w\<lparr>pw_mgr := m, pw_sends := remove1 (c, p, mark) (pw_sends w), pw_log := handed c p mark w\<rparr>)"
| flush_takes: "i < length (pw_flushers w) \<Longrightarrow> pw_flushers w ! i = FlTake c k u n \<Longrightarrow>
    flush_take now c k u n (pw_mgr w) = (f, m) \<Longrightarrow>
    world_step bound for_user w (w\<lparr>pw_mgr := m, pw_flushers := (pw_flushers w)[i := f]\<rparr>)"
| flush_checks: "i < length (pw_flushers w) \<Longrightarrow> pw_flushers w ! i = FlCheck c k u n batch \<Longrightarrow>
    flush_check c k u n batch (pw_mgr w) = (f, m) \<Longrightarrow>
    world_step bound for_user w (w\<lparr>pw_mgr := m, pw_flushers := (pw_flushers w)[i := f],
      pw_marks := (pw_marks w)(i := check_mark c w)\<rparr>)"
| flush_sends: "i < length (pw_flushers w) \<Longrightarrow> pw_flushers w ! i = FlSend c k u n batch \<Longrightarrow>
    flush_send enc sent c k u n batch (pw_mgr w) = (f, m) \<Longrightarrow>
    world_step bound for_user w (w\<lparr>pw_mgr := m, pw_flushers := (pw_flushers w)[i := f],
      pw_log := handed c (qp_updates (hd batch)) (pw_marks w i) w\<rparr>)"
| flush_requeues: "i < length (pw_flushers w) \<Longrightarrow> pw_flushers w ! i = FlRequeue c k u n batch \<Longrightarrow>
    flush_requeue c k u n batch (pw_mgr w) = (f, m) \<Longrightarrow>
    world_step bound for_user w (w\<lparr>pw_mgr := m, pw_flushers := (pw_flushers w)[i := f]\<rparr>)"

inductive world_reach :: "bool \<Rightarrow> ('p \<Rightarrow> int) \<Rightarrow> 'p push_world \<Rightarrow> bool"
  for bound :: bool and for_user :: "'p \<Rightarrow> int" where
  start: "(\<And>c. fresh_conn (cs c)) \<Longrightarrow> world_reach bound for_user (world_start cs)"
| step: "world_reach bound for_user w \<Longrightarrow> world_step bound for_user w w' \<Longrightarrow> world_reach bound for_user w'"

end
