(* ===== verification/Session_World.thy ===== *)
theory Session_World
  imports Session_Machine
begin

text \<open>The registry stays exact and within its cap in every reachable state.\<close>

section \<open>Delivery and channel operations leave the registry alone\<close>

lemma registry_of_tracks [registry_frame]:
  "registry_of (TrackChannelInterest k u chs m) = registry_of m"
  "registry_of (ClearChannelInterest k u m) = registry_of m"
  "registry_of (RefreshChannelSubscription now k u ch ttl m) = registry_of m"
  by (simp_all add: TrackChannelInterest_def ClearChannelInterest_def RefreshChannelSubscription_def Let_def registry_frame)

lemma registry_of_memberships [registry_frame]: "registry_of (SetSessionChannelMemberships k u chs g m) = registry_of m"
  by (simp add: SetSessionChannelMemberships_def Let_def registry_frame split: option.split)

lemma registry_of_membership_change [registry_frame]:
  "registry_of (AddUserChannelMembership u ch m) = registry_of m"
  "registry_of (RemoveUserChannelMembership u ch m) = registry_of m"
proof -
  have "registry_of (fold (add_membership u ch) es m) = registry_of m" for es and m :: "'a session_manager"
    by (induction es arbitrary: m) (simp_all add: add_membership_def Let_def registry_frame split_beta)
  then show "registry_of (AddUserChannelMembership u ch m) = registry_of m" by (simp add: AddUserChannelMembership_def)
  have "registry_of (fold (remove_membership ch) es m) = registry_of m" for es and m :: "'a session_manager"
    by (induction es arbitrary: m) (simp_all add: remove_membership_def Let_def registry_frame split_beta)
  then show "registry_of (RemoveUserChannelMembership u ch m) = registry_of m" by (simp add: RemoveUserChannelMembership_def)
qed

lemma registry_of_scan [registry_frame]: "registry_of (snd (scan_subscribers now ch ex limit es out m)) = registry_of m"
  by (induction now ch ex limit es out m rule: scan_subscribers.induct) (simp_all add: Let_def registry_frame)

lemma registry_of_subscribers [registry_frame]:
  "registry_of (snd (onlineChannelSubscriberUserIDsExcluding now ch ex limit m)) = registry_of m"
  by (simp add: onlineChannelSubscriberUserIDsExcluding_def registry_frame)

lemma registry_of_sweep [registry_frame]: "registry_of (sweepStalePending now m) = registry_of m"
proof -
  have "registry_of (fold (sweep_one now) es m) = registry_of m" for es
    by (induction es arbitrary: m) (simp_all add: sweep_one_def registry_frame split_beta)
  then show ?thesis by (simp add: sweepStalePending_def)
qed

lemma registry_of_receives [registry_frame]:
  "registry_of (not_ready c k m) = registry_of m"
  "registry_of (snd (setReceivesUpdatesLocked c k b m)) = registry_of m"
  "registry_of (snd (SetReceivesUpdatesForAuthKey k b m)) = registry_of m"
  "registry_of (activate c k m) = registry_of m"
  by (simp_all add: not_ready_def setReceivesUpdatesLocked_def SetReceivesUpdatesForAuthKey_def activate_def registry_frame
      split_beta split: option.split)

lemma registry_of_prepare [registry_frame]: "registry_of (snd (preparePendingPush r n m)) = registry_of m"
  by (simp add: preparePendingPush_def registry_frame split_beta split: bool.split)

lemma registry_of_reserve [registry_frame]: "registry_of (snd (reservePrepared r p n m)) = registry_of m"
  by (simp add: reservePrepared_def Let_def registry_frame split_beta split: bool.split)

lemma registry_of_queue [registry_frame]: "registry_of (snd (queuePreparedLocked now k p r m)) = registry_of m"
  by (simp add: queuePreparedLocked_def Let_def registry_frame)

lemma registry_of_scan_queue [registry_frame]: "registry_of (snd (snd (scan_queue f now p r es m))) = registry_of m"
proof (induction es arbitrary: m)
  case (Cons e es)
  then show ?case by (cases e; cases r) (simp_all add: registry_frame split_beta)
qed simp

lemma registry_of_session_queue [registry_frame]: "registry_of (snd (queueOrSendPrepared now k p r m)) = registry_of m"
  by (simp add: queueOrSendPrepared_def registry_frame split: option.split)

lemma registry_of_take [registry_frame]: "registry_of (snd (takePendingLocked now k m)) = registry_of m"
  by (simp add: takePendingLocked_def Let_def registry_frame)

lemma registry_of_flush [registry_frame]:
  "registry_of (snd (flush_take now c k u n m)) = registry_of m"
  "registry_of (snd (flush_check c k u n batch m)) = registry_of m"
  "registry_of (snd (flush_requeue c k u n batch m)) = registry_of m"
  by (simp_all add: flush_take_def flush_check_def flush_requeue_def Let_def registry_frame split_beta)

lemma registry_of_dropped [registry_frame]:
  "registry_of (on_conn (\<lambda>d. (conn_retire d)\<lparr>mc_open := False\<rparr>) c m) = rg_retire c (registry_of m)"
  by (rule registry_of_on_conn) simp

lemma flush_error_registry: "registry_of (snd (flush_error enc sent r m)) = registry_of m"
  by (simp add: flush_error_def registry_frame split_beta split: encoding.split bool.split)

lemma flush_send_registry:
  "registry_of (snd (flush_send enc sent c k u n batch m)) \<in> {registry_of m, rg_retire c (registry_of m)}"
  using flush_error_registry [of enc sent "qp_reservation (hd batch)" m]
  by (auto simp: flush_send_def registry_frame split_beta split: option.split)

lemma push_send_registry: "registry_of (snd (push_send c res acc m)) \<in> {registry_of m, rg_retire c (registry_of m)}"
  by (auto simp: push_send_def Let_def registry_frame split_beta split: push_result.split)

lemma inv_retired:
  assumes "registry_inv m" and "registry_of n \<in> {registry_of m, rg_retire c (registry_of m)}"
  shows "registry_inv n"
  by (rule inv_of_registry [OF assms(1)]) (use assms in \<open>auto simp: registry_inv_def intro: rg_retire_ok\<close>)

section \<open>Every step\<close>

lemma interfere_inv:
  assumes "registry_inv m"
  shows "registry_inv (on_conn (interfere race) c m)"
proof (cases race)
  case Quiet
  have "registry_of (on_conn (interfere race) c m) = registry_of m" unfolding Quiet by (rule registry_of_conn) simp
  with assms show ?thesis by (rule inv_same)
next
  case TransportClosed
  have "registry_of (on_conn (interfere race) c m) = registry_of m" unfolding TransportClosed by (rule registry_of_conn) simp
  with assms show ?thesis by (rule inv_same)
next
  case ConnRetired
  have "interfere race = conn_retire" unfolding ConnRetired by (rule ext) simp
  with assms show ?thesis by simp
qed

lemma run_command_inv:
  assumes "registry_inv m" and "run_command cmd m = Some n"
  shows "registry_inv n"
proof (cases cmd)
  case (CmdClaim race c)
  obtain ok x where "begin_claim race c m = (ok, x)" by (cases "begin_claim race c m")
  with CmdClaim assms begin_claim_inv [OF assms(1)] show ?thesis by auto
next
  case (CmdBegin c)
  with assms begin_locked_ok [OF assms(1), of c] show ?thesis by auto
next
  case (CmdPublish race c)
  obtain res x where "PublishActivation race c m = (res, x)" by (cases "PublishActivation race c m")
  with CmdPublish assms publish_registry [OF assms(1)] show ?thesis by auto
qed ((use assms in \<open>auto simp: begin_finish_inv AbortActivation_inv Unregister_inv Destroy_inv BindUser_inv
      BindAuthKey_inv BindRaw_inv Unbind_inv CloseBusiness_inv CloseRaw_inv interfere_inv; fail\<close>)
    | (rule inv_same [OF assms(1)], use assms(2) in \<open>auto simp: registry_frame\<close>))+

lemma command_total:
  assumes "registry_inv m"
  shows "\<exists>n. run_command cmd m = Some n"
proof (cases cmd)
  case (CmdBegin c)
  with begin_locked_ok [OF assms, of c] show ?thesis by auto
qed auto

lemma map_of_mset:
  assumes "mset xs = mset ys" and "distinct (map fst ys)"
  shows "distinct (map fst xs) \<and> map_of xs = map_of ys"
proof -
  have "mset (map fst xs) = mset (map fst ys)" using assms(1) by (metis mset_map)
  then have d: "distinct (map fst xs)" using assms(2) mset_eq_imp_distinct_iff by blast
  moreover have "set xs = set ys" using assms(1) by (rule mset_eq_setD)
  ultimately show ?thesis using assms(2) map_of_inject_set by blast
qed

lemma same_index_ok:
  assumes "same_index f g" and "indexed g h"
  shows "indexed f h" and "length (f k) = length (g k)"
  using assms map_of_mset [of "f _" "g _"] mset_eq_length [of "f k" "g k"] by (auto simp: same_index_def indexed_def)

lemma indexes_same_map:
  assumes "map_of (rg_owner s) = map_of (rg_owner r)" and "rg_ident s = rg_ident r"
  shows "business_index s = business_index r" and "user_index s = user_index r"
  unfolding business_index_def [abs_def] user_index_def [abs_def] assms by (rule refl)+

lemma reordered_inv:
  assumes "registry_inv m" and "reordered m n"
  shows "registry_inv n"
proof -
  obtain os cl ca ak bu us pe where n: "n = m\<lparr>sm_bySession := os, sm_claims := cl, sm_claimsByAuth := ca,
      sm_byAuthKey := ak, sm_byBusiness := bu, sm_byUser := us, sm_pending := pe\<rparr>"
    and p: "mset os = mset (sm_bySession m)" "mset cl = mset (sm_claims m)" "same_index ca (sm_claimsByAuth m)"
      "same_index ak (sm_byAuthKey m)" "same_index bu (sm_byBusiness m)" "same_index us (sm_byUser m)"
    using assms(2) unfolding reordered_def by blast
  have ok: "registry_ok (registry_of m)" using assms(1) by (simp add: registry_inv_def)
  then have dist: "distinct (map fst (sm_bySession m))" "distinct (map fst (sm_claims m))"
    by (auto simp: registry_ok_def owners_ok_def)
  note o = map_of_mset [OF p(1) dist(1)] and c = map_of_mset [OF p(2) dist(2)]
  have r: "registry_of n = (registry_of m)\<lparr>rg_owner := os, rg_claim := cl, rg_claimsByAuth := ca, rg_byAuthKey := ak,
      rg_byBusiness := bu, rg_byUser := us\<rparr>"
    by (simp add: n registry_of_def)
  have "owners_ok (registry_of n)"
    using ok o c unfolding r registry_ok_def owners_ok_def by (simp del: map_of_eq_Some_iff)
  moreover have "business_index (registry_of n) = business_index (registry_of m)"
    "user_index (registry_of n) = user_index (registry_of m)"
    by (rule indexes_same_map; simp add: r o)+
  ultimately have "registry_ok (registry_of n)"
    using ok o c same_index_ok(1) [OF p(3)] same_index_ok(1) [OF p(4)] same_index_ok(1) [OF p(5)] same_index_ok(1) [OF p(6)]
    unfolding r registry_ok_def by simp
  moreover have "rg_load a (registry_of n) = rg_load a (registry_of m)" for a
    using same_index_ok(2) [OF p(3) claims_indexed [OF ok, simplified]] same_index_ok(2) [OF p(4) owners_indexed [OF ok, simplified]]
    by (simp add: r rg_load_def)
  ultimately show ?thesis by (intro inv_of_registry [OF assms(1)]) auto
qed

lemma world_step_registry:
  assumes "world_step bound fu w w'" and "registry_inv (pw_mgr w)"
  shows "registry_inv (pw_mgr w')"
  using assms
proof (cases rule: world_step.cases)
  case (command cmd m)
  then show ?thesis using assms(2) run_command_inv by auto
next
  case (reorder m)
  then show ?thesis using assms(2) reordered_inv by auto
next
  case (flush_sends i c k u n batch enc sent f m)
  then show ?thesis using inv_retired [OF assms(2)] flush_send_registry [of enc sent c k u n batch "pw_mgr w"] by simp
next
  case (send_result c p mark res acc acc' m)
  then show ?thesis using inv_retired [OF assms(2)] push_send_registry [of c res acc "pw_mgr w"] by simp
next
  case (set_receives k b start m)
  then show ?thesis using inv_same [OF assms(2)] registry_of_receives(3) [of k b "pw_mgr w"] by simp
next
  case (prepare bytes r m)
  then show ?thesis using inv_same [OF assms(2)] registry_of_prepare [of "pw_next w" bytes "pw_mgr w"] by simp
next
  case (push_user f now u p r cs q m)
  then have "registry_of m = registry_of (pw_mgr w)"
    using registry_of_scan_queue [of f now p r "sm_byUser (pw_mgr w) u" "pw_mgr w"] by (simp add: push_rescan_def)
  then show ?thesis using push_user inv_same [OF assms(2)] by simp
next
  case (push_session now k p r res m)
  then show ?thesis using inv_same [OF assms(2)] registry_of_session_queue [of now k p r "pw_mgr w"] by simp
next
  case (flush_takes i c k u n now f m)
  then show ?thesis using inv_same [OF assms(2)] registry_of_flush(1) [of now c k u n "pw_mgr w"] by simp
next
  case (flush_checks i c k u n batch f m)
  then show ?thesis using inv_same [OF assms(2)] registry_of_flush(2) [of c k u n batch "pw_mgr w"] by simp
next
  case (flush_requeues i c k u n batch f m)
  then show ?thesis using inv_same [OF assms(2)] registry_of_flush(3) [of c k u n batch "pw_mgr w"] by simp
next
  case (producer_done r)
  then show ?thesis using inv_same [OF assms(2) registry_of_release] by simp
qed (use assms(2) in simp_all)

lemma start_registry:
  assumes "\<And>c. fresh_conn (cs c)"
  shows "registry_inv (NewSessionManager cs)"
proof -
  have f: "mc_life (cs c) = Provisional" "mc_business (cs c) = None" "mc_user (cs c) = 0" for c
    using assms [of c] by (simp_all add: fresh_conn_def)
  show ?thesis
    by (simp add: registry_inv_def registry_ok_def owners_ok_def indexed_def NewSessionManager_def registry_of_def
        business_index_def user_index_def auth_load_def ident_of_def f fun_eq_iff)
qed

lemma reach_registry:
  assumes "world_reach bound fu w"
  shows "registry_inv (pw_mgr w)"
  using assms by (induction) (auto simp: world_start_def start_registry world_step_registry)

end
