(* ===== verification/Session_Routes.thy ===== *)
theory Session_Routes
  imports Session_World
begin

text \<open>
  The channel indexes: the forward and the reverse map of each agree, a session has a bounded number of
  entries, and every entry belongs to the user its live session is bound to.
\<close>

section \<open>What a release of kept pushes leaves alone\<close>

lemma retain_sel [simp]:
  "sm_conns (push_retain i m) = sm_conns m"
  "sm_bySession (push_retain i m) = sm_bySession m"
  "sm_claims (push_retain i m) = sm_claims m"
  "sm_claimsByAuth (push_retain i m) = sm_claimsByAuth m"
  "sm_byAuthKey (push_retain i m) = sm_byAuthKey m"
  "sm_byBusiness (push_retain i m) = sm_byBusiness m"
  "sm_byUser (push_retain i m) = sm_byUser m"
  "sm_interest (push_retain i m) = sm_interest m"
  "sm_members (push_retain i m) = sm_members m"
  "sm_subs (push_retain i m) = sm_subs m"
  "sm_pending (push_retain i m) = sm_pending m"
  "sm_flushing (push_retain i m) = sm_flushing m"
  "sm_logical (push_retain i m) = sm_logical m"
  by (simp_all add: push_retain_def Let_def)

lemma release_sel [simp]:
  "sm_conns (push_release i m) = sm_conns m"
  "sm_bySession (push_release i m) = sm_bySession m"
  "sm_claims (push_release i m) = sm_claims m"
  "sm_claimsByAuth (push_release i m) = sm_claimsByAuth m"
  "sm_byAuthKey (push_release i m) = sm_byAuthKey m"
  "sm_byBusiness (push_release i m) = sm_byBusiness m"
  "sm_byUser (push_release i m) = sm_byUser m"
  "sm_interest (push_release i m) = sm_interest m"
  "sm_members (push_release i m) = sm_members m"
  "sm_subs (push_release i m) = sm_subs m"
  "sm_pending (push_release i m) = sm_pending m"
  "sm_flushing (push_release i m) = sm_flushing m"
  "sm_logical (push_release i m) = sm_logical m"
  by (simp_all add: push_release_def Let_def split: option.split)

lemma releases_sel [simp]:
  "sm_conns (releaseQueuedPushes qs m) = sm_conns m"
  "sm_bySession (releaseQueuedPushes qs m) = sm_bySession m"
  "sm_claims (releaseQueuedPushes qs m) = sm_claims m"
  "sm_claimsByAuth (releaseQueuedPushes qs m) = sm_claimsByAuth m"
  "sm_byAuthKey (releaseQueuedPushes qs m) = sm_byAuthKey m"
  "sm_byBusiness (releaseQueuedPushes qs m) = sm_byBusiness m"
  "sm_byUser (releaseQueuedPushes qs m) = sm_byUser m"
  "sm_interest (releaseQueuedPushes qs m) = sm_interest m"
  "sm_members (releaseQueuedPushes qs m) = sm_members m"
  "sm_subs (releaseQueuedPushes qs m) = sm_subs m"
  "sm_pending (releaseQueuedPushes qs m) = sm_pending m"
  "sm_flushing (releaseQueuedPushes qs m) = sm_flushing m"
  "sm_logical (releaseQueuedPushes qs m) = sm_logical m"
  unfolding releaseQueuedPushes_def by (induction qs arbitrary: m) simp_all

lemma deletePending_sel [simp]:
  "sm_conns (deletePendingLocked k m) = sm_conns m"
  "sm_bySession (deletePendingLocked k m) = sm_bySession m"
  "sm_claims (deletePendingLocked k m) = sm_claims m"
  "sm_claimsByAuth (deletePendingLocked k m) = sm_claimsByAuth m"
  "sm_byAuthKey (deletePendingLocked k m) = sm_byAuthKey m"
  "sm_byBusiness (deletePendingLocked k m) = sm_byBusiness m"
  "sm_byUser (deletePendingLocked k m) = sm_byUser m"
  "sm_interest (deletePendingLocked k m) = sm_interest m"
  "sm_members (deletePendingLocked k m) = sm_members m"
  "sm_subs (deletePendingLocked k m) = sm_subs m"
  "sm_flushing (deletePendingLocked k m) = sm_flushing m"
  "sm_logical (deletePendingLocked k m) = sm_logical m"
  "sm_pending (deletePendingLocked k m) = AList.delete k (sm_pending m)"
  by (simp_all add: deletePendingLocked_def)

lemma stop_sel [simp]:
  "sm_conns (stop_flushing k m) = sm_conns m"
  "sm_bySession (stop_flushing k m) = sm_bySession m"
  "sm_claims (stop_flushing k m) = sm_claims m"
  "sm_claimsByAuth (stop_flushing k m) = sm_claimsByAuth m"
  "sm_byAuthKey (stop_flushing k m) = sm_byAuthKey m"
  "sm_byBusiness (stop_flushing k m) = sm_byBusiness m"
  "sm_byUser (stop_flushing k m) = sm_byUser m"
  "sm_interest (stop_flushing k m) = sm_interest m"
  "sm_members (stop_flushing k m) = sm_members m"
  "sm_subs (stop_flushing k m) = sm_subs m"
  "sm_pending (stop_flushing k m) = sm_pending m"
  "sm_logical (stop_flushing k m) = sm_logical m"
  "sm_flushing (stop_flushing k m) = (sm_flushing m)(k := False)"
  by (simp_all add: stop_flushing_def)

section \<open>One index\<close>

definition index_ok :: "channel_index \<Rightarrow> bool" where
  "index_ok x \<longleftrightarrow> (\<forall>k. distinct (ci_bySession x k) \<and> 0 \<notin> set (ci_bySession x k)
       \<and> length (ci_bySession x k) \<le> maxChannelIndexPerSession)
     \<and> (\<forall>ch. distinct (map fst (ci_byChannel x ch)))
     \<and> (\<forall>ch k. map_of (ci_byChannel x ch) k \<noteq> None \<longleftrightarrow> ch \<in> set (ci_bySession x k))"

definition index_users :: "(session_key \<Rightarrow> int \<Rightarrow> bool) \<Rightarrow> channel_index \<Rightarrow> bool" where
  "index_users P x \<longleftrightarrow> (\<forall>ch k u. map_of (ci_byChannel x ch) k = Some u \<longrightarrow> P k u)"

lemma index_entry: "index_ok x \<Longrightarrow> (map_of (ci_byChannel x ch) k \<noteq> None) = (ch \<in> set (ci_bySession x k))"
  and index_rev: "index_ok x \<Longrightarrow> distinct (ci_bySession x k) \<and> 0 \<notin> set (ci_bySession x k)
    \<and> length (ci_bySession x k) \<le> maxChannelIndexPerSession"
  and index_distinct: "index_ok x \<Longrightarrow> distinct (map fst (ci_byChannel x ch))"
  unfolding index_ok_def by blast+

lemma index_okI:
  assumes "\<And>k. distinct (ci_bySession x k) \<and> 0 \<notin> set (ci_bySession x k) \<and> length (ci_bySession x k) \<le> maxChannelIndexPerSession"
    and "\<And>ch. distinct (map fst (ci_byChannel x ch))"
    and "\<And>ch k. (map_of (ci_byChannel x ch) k \<noteq> None) = (ch \<in> set (ci_bySession x k))"
  shows "index_ok x"
  unfolding index_ok_def using assms by blast

lemma fold_delete:
  "fold (\<lambda>ch idx. idx(ch := AList.delete k (idx ch))) chs idx ch =
     (if ch \<in> set chs then AList.delete k (idx ch) else idx ch)"
  by (induction chs arbitrary: idx) (auto simp: delete_idem)

lemma index_track_ok:
  assumes "index_ok x" and "index_users P x" and "P k u"
  shows "index_ok (trackChannelIndex k u chs x) \<and> index_users P (trackChannelIndex k u chs x)"
  using assms
proof (induction k u chs x rule: trackChannelIndex.induct)
  case (2 k u ch chs x)
  let ?x = "if ch = 0 \<or> (ch \<notin> set (ci_bySession x k) \<and> length (ci_bySession x k) \<ge> maxChannelIndexPerSession)
    then x else x\<lparr>ci_bySession := (ci_bySession x)(k := List.insert ch (ci_bySession x k)),
      ci_byChannel := (ci_byChannel x)(ch := AList.update k u (ci_byChannel x ch))\<rparr>"
  have "index_ok ?x"
  proof (rule index_okI)
    fix k'
    show "distinct (ci_bySession ?x k') \<and> 0 \<notin> set (ci_bySession ?x k') \<and> length (ci_bySession ?x k') \<le> maxChannelIndexPerSession"
      using index_rev [OF "2.prems"(1), of k'] by (auto simp: List.insert_def)
  next
    fix ch' k'
    show "(map_of (ci_byChannel ?x ch') k' \<noteq> None) = (ch' \<in> set (ci_bySession ?x k'))"
      using index_entry [OF "2.prems"(1), of ch' k'] by (simp, blast)
  qed (use index_distinct [OF "2.prems"(1)] in \<open>simp add: distinct_update\<close>)
  moreover have "index_users P ?x"
    using "2.prems"(2,3) by (auto simp: index_users_def split: if_splits)
  ultimately show ?case using "2.IH" "2.prems"(3) by simp
qed simp

lemma clear_entries:
  assumes "index_ok x"
  shows "map_of (ci_byChannel (clearChannelIndex k x) ch) k' = (if k' = k then None else map_of (ci_byChannel x ch) k')"
proof -
  have "map_of (ci_byChannel x ch) k = None" if "ch \<notin> set (ci_bySession x k)"
    using index_entry [OF assms, of ch k] that by blast
  then show ?thesis by (simp add: clearChannelIndex_def fold_delete)
qed

lemma clear_ok:
  assumes "index_ok x"
  shows "index_ok (clearChannelIndex k x)"
proof (rule index_okI)
  fix ch k'
  show "(map_of (ci_byChannel (clearChannelIndex k x) ch) k' \<noteq> None) = (ch \<in> set (ci_bySession (clearChannelIndex k x) k'))"
    unfolding clear_entries [OF assms] using index_entry [OF assms, of ch k'] by (simp add: clearChannelIndex_def)
qed (use index_rev [OF assms] index_distinct [OF assms] in
    \<open>simp_all add: clearChannelIndex_def fold_delete distinct_delete\<close>)

lemma clear_users:
  assumes "index_ok x" and "index_users P x" and "\<And>k' u. k' \<noteq> k \<Longrightarrow> P k' u \<Longrightarrow> Q k' u"
  shows "index_users Q (clearChannelIndex k x)"
  using assms by (auto simp: index_users_def clear_entries [OF assms(1)] split: if_splits)

lemma remove_ok:
  assumes "index_ok x" and "index_users P x"
  shows "index_ok (removeChannelIndex k ch x) \<and> index_users P (removeChannelIndex k ch x)"
proof
  show "index_ok (removeChannelIndex k ch x)"
  proof (rule index_okI)
    fix k'
    have "length (removeAll ch (ci_bySession x k)) \<le> length (ci_bySession x k)"
      by (simp add: removeAll_filter_not_eq)
    then have "length (removeAll ch (ci_bySession x k)) \<le> maxChannelIndexPerSession"
      using index_rev [OF assms(1), of k] by (blast intro: le_trans)
    with index_rev [OF assms(1), of k'] show "distinct (ci_bySession (removeChannelIndex k ch x) k') \<and> 0 \<notin> set (ci_bySession (removeChannelIndex k ch x) k')
        \<and> length (ci_bySession (removeChannelIndex k ch x) k') \<le> maxChannelIndexPerSession"
      by (auto simp: removeChannelIndex_def distinct_removeAll)
  next
    fix ch' k'
    show "(map_of (ci_byChannel (removeChannelIndex k ch x) ch') k' \<noteq> None) = (ch' \<in> set (ci_bySession (removeChannelIndex k ch x) k'))"
      using index_entry [OF assms(1), of ch' k'] by (auto simp: removeChannelIndex_def)
  qed (use index_distinct [OF assms(1)] in \<open>simp add: removeChannelIndex_def distinct_delete\<close>)
  show "index_users P (removeChannelIndex k ch x)"
    using assms(2) by (auto simp: index_users_def removeChannelIndex_def split: if_splits)
qed

section \<open>Subscriptions\<close>

definition subs_ok :: "subscription_index \<Rightarrow> bool" where
  "subs_ok x \<longleftrightarrow> (\<forall>k. distinct (map fst (si_bySession x k)) \<and> length (si_bySession x k) \<le> maxChannelSubscriptionsPerSession)
     \<and> (\<forall>ch. distinct (map fst (si_byChannel x ch)))
     \<and> (\<forall>ch k. map_of (si_bySession x k) ch = map_option cs_expiresAt (map_of (si_byChannel x ch) k))"

definition subs_users :: "(session_key \<Rightarrow> int \<Rightarrow> bool) \<Rightarrow> subscription_index \<Rightarrow> bool" where
  "subs_users P x \<longleftrightarrow> (\<forall>ch k s. map_of (si_byChannel x ch) k = Some s \<longrightarrow> P k (cs_user s))"

lemma subs_entry: "subs_ok x \<Longrightarrow> map_of (si_bySession x k) ch = map_option cs_expiresAt (map_of (si_byChannel x ch) k)"
  and subs_rev: "subs_ok x \<Longrightarrow> distinct (map fst (si_bySession x k)) \<and> length (si_bySession x k) \<le> maxChannelSubscriptionsPerSession"
  and subs_distinct: "subs_ok x \<Longrightarrow> distinct (map fst (si_byChannel x ch))"
  unfolding subs_ok_def by blast+

lemma subs_okI:
  assumes "\<And>k. distinct (map fst (si_bySession x k)) \<and> length (si_bySession x k) \<le> maxChannelSubscriptionsPerSession"
    and "\<And>ch. distinct (map fst (si_byChannel x ch))"
    and "\<And>ch k. map_of (si_bySession x k) ch = map_option cs_expiresAt (map_of (si_byChannel x ch) k)"
  shows "subs_ok x"
  unfolding subs_ok_def using assms by blast

lemma subs_remove_ok:
  assumes "subs_ok x" and "subs_users P x"
  shows "subs_ok (removeChannelSubscription k ch x) \<and> subs_users P (removeChannelSubscription k ch x)"
proof
  show "subs_ok (removeChannelSubscription k ch x)"
  proof (rule subs_okI)
    fix k'
    show "distinct (map fst (si_bySession (removeChannelSubscription k ch x) k'))
        \<and> length (si_bySession (removeChannelSubscription k ch x) k') \<le> maxChannelSubscriptionsPerSession"
      using subs_rev [OF assms(1), of k'] le_trans [OF length_delete_le [of ch "si_bySession x k'"]]
      by (auto simp: removeChannelSubscription_def distinct_delete)
  next
    fix ch' k'
    show "map_of (si_bySession (removeChannelSubscription k ch x) k') ch'
        = map_option cs_expiresAt (map_of (si_byChannel (removeChannelSubscription k ch x) ch') k')"
      using subs_entry [OF assms(1), of k' ch'] by (auto simp: removeChannelSubscription_def)
  qed (use subs_distinct [OF assms(1)] in \<open>simp add: removeChannelSubscription_def distinct_delete\<close>)
  show "subs_users P (removeChannelSubscription k ch x)"
    using assms(2) by (auto simp: subs_users_def removeChannelSubscription_def split: if_splits)
qed

lemma subs_prune_ok:
  assumes "subs_ok x" and "subs_users P x"
  shows "subs_ok (pruneSessionSubscriptions k now x) \<and> subs_users P (pruneSessionSubscriptions k now x)"
proof -
  have "subs_ok (fold (\<lambda>(ch, e) y. if e \<le> now then removeChannelSubscription k ch y else y) es x)
      \<and> subs_users P (fold (\<lambda>(ch, e) y. if e \<le> now then removeChannelSubscription k ch y else y) es x)" for es
    using assms by (induction es arbitrary: x) (auto simp: subs_remove_ok)
  then show ?thesis by (simp add: pruneSessionSubscriptions_def)
qed

lemma subs_clear_entries:
  assumes "subs_ok x"
  shows "map_of (si_byChannel (clearChannelSubscriptions k x) ch) k' = (if k' = k then None else map_of (si_byChannel x ch) k')"
proof -
  have "map_of (si_byChannel x ch) k = None" if "ch \<notin> fst ` set (si_bySession x k)"
    using subs_entry [OF assms, of k ch] that map_of_eq_None_iff [of "si_bySession x k" ch] by simp
  then show ?thesis by (simp add: clearChannelSubscriptions_def fold_delete)
qed

lemma subs_clear_ok:
  assumes "subs_ok x"
  shows "subs_ok (clearChannelSubscriptions k x)"
proof (rule subs_okI)
  fix ch k'
  show "map_of (si_bySession (clearChannelSubscriptions k x) k') ch
      = map_option cs_expiresAt (map_of (si_byChannel (clearChannelSubscriptions k x) ch) k')"
    unfolding subs_clear_entries [OF assms] using subs_entry [OF assms, of k' ch] by (simp add: clearChannelSubscriptions_def)
qed (use subs_rev [OF assms] subs_distinct [OF assms] in
    \<open>simp_all add: clearChannelSubscriptions_def fold_delete distinct_delete\<close>)

lemma subs_clear_users:
  assumes "subs_ok x" and "subs_users P x" and "\<And>k' u. k' \<noteq> k \<Longrightarrow> P k' u \<Longrightarrow> Q k' u"
  shows "subs_users Q (clearChannelSubscriptions k x)"
  using assms by (auto simp: subs_users_def subs_clear_entries [OF assms(1)] split: if_splits)

section \<open>The three indexes of a manager\<close>

record routes =
  rt_interest :: channel_index
  rt_members :: channel_index
  rt_subs :: subscription_index

definition routes_of :: "'p session_manager \<Rightarrow> routes" where
  "routes_of m = \<lparr>rt_interest = sm_interest m, rt_members = sm_members m, rt_subs = sm_subs m\<rparr>"

definition clear_routes :: "session_key \<Rightarrow> routes \<Rightarrow> routes" where
  "clear_routes k x = \<lparr>rt_interest = clearChannelIndex k (rt_interest x), rt_members = clearChannelIndex k (rt_members x),
     rt_subs = clearChannelSubscriptions k (rt_subs x)\<rparr>"

definition routes_ok :: "(session_key \<Rightarrow> int \<Rightarrow> bool) \<Rightarrow> routes \<Rightarrow> bool" where
  "routes_ok P x \<longleftrightarrow> index_ok (rt_interest x) \<and> index_users P (rt_interest x) \<and> index_ok (rt_members x)
     \<and> index_users P (rt_members x) \<and> subs_ok (rt_subs x) \<and> subs_users P (rt_subs x)"

definition route_user :: "registry \<Rightarrow> session_key \<Rightarrow> int \<Rightarrow> bool" where
  "route_user r k u \<longleftrightarrow> u \<noteq> 0 \<and> (\<exists>c. map_of (rg_owner r) k = Some c \<and> id_user (rg_ident r c) = u)"

definition routes_inv :: "'p session_manager \<Rightarrow> bool" where
  "routes_inv m \<longleftrightarrow> routes_ok (route_user (registry_of m)) (routes_of m)"

lemma live_route_user: "u \<noteq> 0 \<Longrightarrow> live_user m k u = route_user (registry_of m) k u"
  by (simp add: live_user_def route_user_def split: option.split)

lemma routes_mono:
  assumes "routes_ok P x" and "\<And>k u. P k u \<Longrightarrow> Q k u"
  shows "routes_ok Q x"
  using assms by (auto simp: routes_ok_def index_users_def subs_users_def)

lemma routes_clear:
  assumes "routes_ok P x" and "\<And>k' u. k' \<noteq> k \<Longrightarrow> P k' u \<Longrightarrow> Q k' u"
  shows "routes_ok Q (clear_routes k x)"
  using assms clear_users [of _ P k Q] subs_clear_users [of _ P k Q]
  by (simp add: routes_ok_def clear_routes_def clear_ok subs_clear_ok)

lemma clear_routes_twice [simp]: "clear_routes k (clear_routes k x) = clear_routes k x"
  by (simp add: clear_routes_def clearChannelIndex_def clearChannelSubscriptions_def)

lemma routes_of_fields:
  assumes "sm_interest n = sm_interest m" and "sm_members n = sm_members m" and "sm_subs n = sm_subs m"
  shows "routes_of n = routes_of m"
  using assms by (simp add: routes_of_def)

lemma routes_of_clear: "routes_of (clearSessionChannelIndexesLocked c k m) = clear_routes k (routes_of m)"
  by (simp add: clearSessionChannelIndexesLocked_def clearChannelInterestsLocked_def clearChannelMembershipsLocked_def
      Let_def routes_of_def clear_routes_def on_conn_def)

lemma routes_of_on_conn [simp]: "routes_of (on_conn f c m) = routes_of m"
  by (simp add: routes_of_def)

lemma routes_of_kept [simp]:
  "routes_of (deletePendingLocked k m) = routes_of m" "routes_of (stop_flushing k m) = routes_of m"
  "routes_of (releaseQueuedPushes qs m) = routes_of m" "routes_of (push_release i m) = routes_of m"
  "routes_of (push_retain i m) = routes_of m"
  by (simp_all add: routes_of_def)

lemma routes_of_drop: "routes_of (drop_session_state c k m) = clear_routes k (routes_of m)"
  by (simp add: drop_session_state_def routes_of_clear)

end
