(* ===== verification/Session_Routes_Inv.thy ===== *)
theory Session_Routes_Inv
  imports Session_Routes
begin

text \<open>Every step keeps the channel routes exact: a change of owner or identity clears those of its session.\<close>

lemma routes_of_index [simp]: "routes_of (index_owner k c m) = routes_of m" "routes_of (unindex_owner k c m) = routes_of m"
  "routes_of (addClaimLocked k c m) = routes_of m" "routes_of (removeClaimLocked k c m) = routes_of m"
  by (simp_all add: index_owner_def unindex_owner_def addClaimLocked_def removeClaimLocked_def routes_of_def Let_def)

lemma routes_of_logical [simp]:
  "routes_of (markLogicalSessionOfflineLocked k now m) = routes_of m"
  "routes_of (bindLogicalSessionAuthKeyLocked k b m) = routes_of m"
  "routes_of (snd (destroyLogicalSessionLocked k m)) = routes_of m"
  "routes_of (snd (attachLogicalSession i c m)) = routes_of m"
  "routes_of (snd (sweepLogicalSessions now m)) = routes_of m"
  "routes_of (snd (ForgetLogicalSessionsForRawAuthKey a m)) = routes_of m"
  by (simp_all add: markLogicalSessionOfflineLocked_def bindLogicalSessionAuthKeyLocked_def
      destroyLogicalSessionLocked_def attachLogicalSession_def sweepLogicalSessions_def
      ForgetLogicalSessionsForRawAuthKey_def Let_def routes_of_def split: option.split)

lemma routes_same:
  assumes "routes_inv m" and "routes_of n = routes_of m" and "route_user (registry_of n) = route_user (registry_of m)"
  shows "routes_inv n"
  using assms by (simp add: routes_inv_def)

lemma route_user_retire [simp]: "route_user (rg_retire c r) = route_user r"
  by (auto simp: route_user_def fun_eq_iff)

lemma route_user_claims [simp]: "route_user (rg_removeClaim k r) = route_user r" "route_user (rg_addClaim k c r) = route_user r"
  by (auto simp: route_user_def fun_eq_iff rg_removeClaim_def rg_addClaim_def)

lemma route_user_removeOwner: "k' \<noteq> k \<Longrightarrow> route_user (rg_removeOwner k c r) k' u = route_user r k' u"
  by (simp add: route_user_def)

lemma removeLocked_routes:
  assumes "routes_inv m"
  shows "routes_inv (snd (removeLocked c dp m))"
proof (cases "owner_of m (conn_key m c) = Some c")
  case True
  have "routes_of (snd (removeLocked c dp m)) = clear_routes (conn_key m c) (routes_of m)"
    using True by (simp add: removeLocked_def Let_def routes_of_clear)
  then show ?thesis using assms True
    by (auto simp: routes_inv_def removeLocked_registry route_user_removeOwner intro: routes_clear)
next
  case False
  with assms show ?thesis by (simp add: removeLocked_def)
qed

lemma retire_routes: "routes_inv m \<Longrightarrow> routes_inv (retire_conn c m)"
  by (rule routes_same) (simp_all add: registry_frame)

lemma retireConn_routes: "routes_inv m \<Longrightarrow> routes_inv (snd (retireConnLocked c dp m))"
  unfolding retireConnLocked_def by (intro removeLocked_routes retire_routes)

lemma retireClaim_routes: "routes_inv m \<Longrightarrow> routes_inv (retireClaimLocked k c dp m)"
  by (rule routes_same) (simp_all add: retireClaim_registry, simp add: retireClaimLocked_def Let_def)

lemma removeClaim_routes: "routes_inv m \<Longrightarrow> routes_inv (removeClaimLocked k c m)"
  by (rule routes_same) (simp_all add: registry_frame)

lemma addClaim_routes: "routes_inv m \<Longrightarrow> routes_inv (addClaimLocked k c m)"
  by (rule routes_same) (simp_all add: registry_frame)

lemma evict_one_routes: "routes_inv m \<Longrightarrow> routes_inv (evict_one a v m)"
  by (simp add: evict_one_def retireClaim_routes retireConn_routes split: prod.split)

lemma evict_over_cap_routes:
  assumes "evict_over_cap c a m = Some (cs, n)" and "routes_inv m"
  shows "routes_inv n"
  using assms
proof (induction "auth_load a m" arbitrary: m cs rule: less_induct)
  case less
  show ?case
  proof (cases "auth_load a m < maxSessionsPerAuthKey \<or> oldestAuthOwnerLocked a c m = None")
    case True
    then have "evict_over_cap c a m = Some ([], m)" by (subst evict_over_cap.simps) auto
    with less.prems show ?thesis by simp
  next
    case False
    then obtain v where v: "oldestAuthOwnerLocked a c m = Some v" by auto
    from less.prems(1) False v have lt: "auth_load a (evict_one a v m) < auth_load a m"
      and "\<exists>ds. evict_over_cap c a (evict_one a v m) = Some (ds, n)"
      by (subst (asm) evict_over_cap.simps, auto simp: Let_def split: if_splits)+
    then show ?thesis using less.hyps [OF lt] evict_one_routes [OF less.prems(2)] by blast
  qed
qed

lemma take_over_routes:
  assumes "routes_inv m"
  shows "routes_inv (snd (take_over c m))"
proof -
  have step: "routes_inv (snd (case owner_of x k of None \<Rightarrow> ([], x)
      | Some d \<Rightarrow> if d = c then ([], x) else ([d], snd (retireConnLocked d False x))))" if "routes_inv x"
    for k and x :: "'a session_manager"
    using that by (simp add: retireConn_routes split: option.split)
  show ?thesis using assms step retireClaim_routes [OF assms]
    by (simp add: take_over_def Let_def split_beta split: option.split)
qed

lemma begin_locked_routes:
  assumes "begin_locked c m = Some (res, n)" and "routes_inv m"
  shows "routes_inv n"
proof (cases "\<not> mc_open (sm_conns m c) \<or> mc_life (sm_conns m c) \<noteq> Claiming")
  case True
  with assms show ?thesis by (auto simp: begin_locked_def retire_routes)
next
  case False
  with assms(1) obtain es x where "evict_over_cap c (fst (conn_key m c)) (snd (take_over c m)) = Some (es, x)"
    and "n = addClaimLocked (conn_key m c) c x"
    by (auto simp: begin_locked_def Let_def split_beta)
  then show ?thesis using evict_over_cap_routes take_over_routes [OF assms(2)] addClaim_routes by blast
qed

lemma begin_claim_routes:
  assumes "routes_inv m"
  shows "routes_inv (snd (begin_claim race c m))"
proof -
  obtain b d where p: "conn_beginActivationClaim race (sm_conns m c) = (b, d)"
    by (cases "conn_beginActivationClaim race (sm_conns m c)")
  have "id_user (ident_of d) = id_user (ident_of (sm_conns m c))" using begin_ident [OF p] by auto
  then have "route_user (registry_of (on_conn (\<lambda>_. d) c m)) = route_user (registry_of m)"
    by (auto simp: route_user_def registry_of_def fun_eq_iff)
  with assms show ?thesis by (intro routes_same [OF assms]) (simp_all add: begin_claim_def p)
qed

lemma activate_sel:
  "rg_owner (rg_activate k c r) = AList.update k c (rg_owner r)"
  "rg_ident (rg_activate k c r) = (rg_ident r)(c := (rg_ident r c)\<lparr>id_life := Active\<rparr>)"
  by (simp_all add: rg_activate_def rg_publish_def rg_removeClaim_def)

lemma publish_routes:
  assumes "routes_inv m" and inv: "registry_inv m" and p: "PublishActivation race c m = (res, n)"
  shows "routes_inv n"
proof (cases "res = None")
  case True
  note reg = publish_registry [OF inv p]
  let ?k = "conn_key m c"
  have ok: "registry_ok (registry_of m)" using inv by (simp add: registry_inv_def)
  have none: "owner_of m ?k = None" using claim_facts(3) [OF ok, of ?k c] reg True by simp
  have "route_user (registry_of n) k u" if "route_user (registry_of m) k u" for k u
  proof -
    from that obtain d where d: "owner_of m k = Some d" "mc_user (sm_conns m d) = u" "u \<noteq> 0" by (auto simp: route_user_def)
    have "k \<noteq> ?k" using d none by auto
    moreover have "registry_of n = rg_activate ?k c (registry_of m)" using reg True by blast
    ultimately show ?thesis using d by (auto simp: route_user_def activate_sel)
  qed
  moreover have "routes_of n = routes_of m"
    using p True by (auto simp: PublishActivation_def Let_def split: if_splits prod.splits bool.splits)
  ultimately show ?thesis using assms(1) routes_mono by (auto simp: routes_inv_def)
next
  case False
  obtain b d where pd: "conn_publishActivation race (sm_conns m c) = (b, d)" by (cases "conn_publishActivation race (sm_conns m c)")
  have "mc_user d = mc_user (sm_conns m c)"
    using pd by (cases race) (auto simp: conn_publishActivation_def Let_def conn_retire_def split: if_splits)
  then have "route_user (registry_of (on_conn (\<lambda>_. d) c m)) = route_user (registry_of m)"
    by (auto simp: route_user_def registry_of_def ident_of_def fun_eq_iff)
  then have "routes_inv (on_conn (\<lambda>_. d) c m)" by (intro routes_same [OF assms(1)]) simp_all
  then show ?thesis using False p pd assms(1) removeClaim_routes [of _ "conn_key m c" c] retire_routes
    by (auto simp: PublishActivation_def Let_def split: if_splits bool.splits)
qed

lemma Abort_routes:
  assumes "routes_inv m"
  shows "routes_inv (snd (AbortActivation now c m))"
  by (rule routes_same [OF assms]) (simp_all add: AbortActivation_def Let_def registry_frame)

lemma Unregister_routes:
  assumes "routes_inv m"
  shows "routes_inv (snd (Unregister now c m))"
proof -
  let ?m = "retire_conn c m" and ?k = "conn_key m c"
  define m1 where "m1 = (if claim_of ?m ?k = Some c
    then stop_flushing ?k (deletePendingLocked ?k (removeClaimLocked ?k c ?m)) else ?m)"
  have i1: "routes_inv m1"
    by (rule routes_same [OF assms]) (simp_all add: m1_def registry_frame)
  have "routes_inv (if owner_of m1 ?k = Some c then snd (removeLocked c True m1) else m1)"
    using i1 by (simp add: removeLocked_routes)
  then have "routes_inv (markLogicalSessionOfflineLocked ?k now (if owner_of m1 ?k = Some c then snd (removeLocked c True m1) else m1))"
    by (rule routes_same) (simp_all add: registry_frame)
  then show ?thesis unfolding Unregister_def Let_def retire_key m1_def [symmetric] by (simp add: split_beta split: if_splits)
qed

lemma Destroy_routes:
  assumes "routes_inv m"
  shows "routes_inv (snd (snd (snd (DestroySessionForAuthKey a sid m))))"
proof -
  have d: "routes_inv (snd (destroyLogicalSessionLocked k x))" if "routes_inv x" for k and x :: "'a session_manager"
    by (rule routes_same [OF that]) (simp_all add: registry_frame)
  have del: "routes_inv (deletePendingLocked k m)" for k by (rule routes_same [OF assms]) (simp_all add: registry_frame)
  show ?thesis unfolding DestroySessionForAuthKey_def Let_def
    using d [OF retireConn_routes [OF assms]] d [OF retireClaim_routes [OF assms]] d [OF del]
    by (simp add: split_beta split: option.split)
qed

section \<open>Identity\<close>

lemma route_user_setUser:
  assumes "registry_ok r" and "map_of (rg_owner r) k = Some c"
  shows "k' \<noteq> k \<Longrightarrow> route_user (rg_setUser k c u r) k' v = route_user r k' v"
    and "id_user (rg_ident r c) = u \<Longrightarrow> route_user (rg_setUser k c u r) = route_user r"
proof -
  have id: "rg_ident (rg_setUser k c u r) = (rg_ident r)(c := (rg_ident r c)\<lparr>id_user := u\<rparr>)"
    by (simp add: rg_setUser_def Let_def)
  show "k' \<noteq> k \<Longrightarrow> route_user (rg_setUser k c u r) k' v = route_user r k' v"
    using owner_unique [OF assms, of k'] by (auto simp: route_user_def id)
  show "id_user (rg_ident r c) = u \<Longrightarrow> route_user (rg_setUser k c u r) = route_user r"
    by (auto simp: route_user_def id fun_eq_iff)
qed

lemma route_user_setBusiness [simp]: "route_user (rg_setBusiness k c b r) = route_user r"
proof -
  have id: "rg_ident (rg_setBusiness k c b r) = (rg_ident r)(c := (rg_ident r c)\<lparr>id_business := Some b\<rparr>)"
    by (simp add: rg_setBusiness_def Let_def)
  show ?thesis by (auto simp: route_user_def id fun_eq_iff)
qed

lemma routes_of_byUser [simp]: "routes_of (m\<lparr>sm_byUser := x\<rparr>) = routes_of m" "routes_of (m\<lparr>sm_byBusiness := y\<rparr>) = routes_of m"
  by (simp_all add: routes_of_def)

lemma bindUser_routes:
  assumes "routes_inv m" and inv: "registry_inv m" and own: "owner_of m k = Some c"
  shows "routes_inv (bindUserLocked c k u m)"
proof -
  have ok: "registry_ok (registry_of m)" using inv by (simp add: registry_inv_def)
  note ru = route_user_setUser [OF ok, of k c] 
  let ?old = "mc_user (sm_conns m c)"
  show ?thesis
  proof (cases "u = 0 \<or> (?old \<noteq> 0 \<and> ?old \<noteq> u)")
    case True
    then have "routes_of (bindUserLocked c k u m) = clear_routes k (routes_of m)"
      by (auto simp: bindUserLocked_def Let_def routes_of_drop)
    then show ?thesis using assms(1) own ru(1)
      by (auto simp: routes_inv_def bindUser_registry intro: routes_clear)
  next
    case False
    then have "routes_of (bindUserLocked c k u m) = routes_of m"
      by (auto simp: bindUserLocked_def Let_def routes_of_drop)
    moreover have "route_user (registry_of (bindUserLocked c k u m)) k' v" if "route_user (registry_of m) k' v" for k' v
    proof (cases "k' = k")
      case True
      with that own have "?old = v" "v \<noteq> 0" by (auto simp: route_user_def)
      with False have "?old = u" by auto
      with ru(2) own that show ?thesis by (simp add: bindUser_registry)
    qed (use that own ru(1) in \<open>simp add: bindUser_registry\<close>)
    ultimately show ?thesis using assms(1) routes_mono by (auto simp: routes_inv_def)
  qed
qed

lemma bindAuthKey_routes:
  assumes "routes_inv m" and inv: "registry_inv m" and own: "owner_of m k = Some c"
  shows "routes_inv (bindAuthKeyLocked c k b m)"
proof -
  have ok: "registry_ok (registry_of m)" using inv by (simp add: registry_inv_def)
  have m1: "routes_of (case x of None \<Rightarrow> m | Some old \<Rightarrow> m\<lparr>sm_byBusiness := f old\<rparr>) = routes_of m" for x f
    by (simp split: option.split)
  show ?thesis
  proof (cases "mc_business (sm_conns m c) = Some b")
    case True
    then have "routes_of (bindAuthKeyLocked c k b m) = routes_of m" by (simp add: bindAuthKeyLocked_def Let_def)
    then show ?thesis by (rule routes_same [OF assms(1)]) (simp add: bindAuthKey_registry True)
  next
    case False
    have "routes_of (bindAuthKeyLocked c k b m) = clear_routes k (routes_of m)"
      using False by (simp add: bindAuthKeyLocked_def Let_def routes_of_drop m1)
    then show ?thesis
      using assms(1) False route_user_setUser(1) [OF setBusiness_ok [OF ok, of k c b], of k c] own
      by (auto simp: routes_inv_def bindAuthKey_registry intro: routes_clear)
  qed
qed

lemma BindUser_routes: "routes_inv m \<Longrightarrow> registry_inv m \<Longrightarrow> routes_inv (BindUserForAuthKey a sid u m)"
  by (simp add: BindUserForAuthKey_def bindUser_routes split: option.split)

lemma BindAuthKey_routes: "routes_inv m \<Longrightarrow> registry_inv m \<Longrightarrow> routes_inv (BindAuthKeyForSession a sid b m)"
  by (simp add: BindAuthKeyForSession_def bindAuthKey_routes split: option.split)

lemma BindRaw_routes:
  assumes "routes_inv m" and "registry_inv m"
  shows "routes_inv (snd (BindAuthKeyForRawAuthKey a b m))"
proof -
  have "routes_inv (snd (fold (bind_raw_one a b) es nm)) \<and> registry_inv (snd (fold (bind_raw_one a b) es nm))"
    if "routes_inv (snd nm)" and "registry_inv (snd nm)" for es and nm :: "nat \<times> 'a session_manager"
    using that
  proof (induction es arbitrary: nm)
    case (Cons e es)
    have "routes_inv (snd (bind_raw_one a b e nm))"
      using Cons.prems by (cases e; cases nm) (auto simp: bind_raw_one_def bindAuthKey_routes)
    with Cons bind_raw_one_inv [OF Cons.prems(2)] show ?case by simp
  qed simp
  from this [of "(0, m)"] assms show ?thesis by (simp add: BindAuthKeyForRawAuthKey_def)
qed

lemma unbind_one_routes:
  assumes "routes_inv m" and inv: "registry_inv m" and own: "owner_of m k = Some c"
  shows "routes_inv (snd (unbind_one a (k, c) (n, m)))"
proof (cases "connUsesBusinessAuthKey (sm_conns m c) a")
  case True
  have ok: "registry_ok (registry_of m)" using inv by (simp add: registry_inv_def)
  have "routes_of (snd (unbind_one a (k, c) (n, m))) = clear_routes k (routes_of m)"
    using True by (simp add: unbind_one_def Let_def routes_of_drop)
  then show ?thesis using assms(1) True route_user_setUser(1) [OF ok, of k c] own
    by (auto simp: routes_inv_def unbind_one_registry intro: routes_clear)
next
  case False
  with assms show ?thesis by (simp add: unbind_one_def)
qed

lemma fold_unbind:
  assumes "routes_inv (snd nm)" and "registry_inv (snd nm)" and "\<forall>(k, c)\<in>set es. owner_of (snd nm) k = Some c"
  shows "routes_inv (snd (fold (unbind_one a) es nm)) \<and> registry_inv (snd (fold (unbind_one a) es nm))"
  using assms
proof (induction es arbitrary: nm)
  case (Cons e es)
  obtain k c n x where e: "e = (k, c)" "nm = (n, x)" by (cases e, cases nm) auto
  have own: "owner_of x k = Some c" using Cons.prems by (simp add: e)
  have "sm_bySession (snd (unbind_one a e nm)) = sm_bySession x"
    unfolding owner_field e unbind_one_registry by simp
  moreover have "registry_inv (snd (unbind_one a e nm))"
    by (rule inv_of_registry [of x])
      (use Cons.prems own in \<open>auto simp: e unbind_one_registry registry_inv_def intro!: setUser_ok\<close>)
  moreover have "routes_inv (snd (unbind_one a e nm))"
    using unbind_one_routes [OF _ _ own] Cons.prems by (simp add: e)
  ultimately show ?case using Cons.IH [of "unbind_one a e nm"] Cons.prems(3) by (auto simp: e)
qed simp

lemma Unbind_routes:
  assumes "routes_inv m" and "registry_inv m"
  shows "routes_inv (snd (UnbindAuthKey a m))"
proof -
  have "\<forall>(k, c)\<in>set (businessAuthKeyCandidatesLocked a m). owner_of m k = Some c"
    by (auto dest: candidates_owned)
  with fold_unbind [of "(0, m)" "businessAuthKeyCandidatesLocked a m" a] assms show ?thesis
    by (simp add: UnbindAuthKey_def)
qed

lemma close_routes:
  "routes_inv (snd (snd acc)) \<Longrightarrow> routes_inv (snd (snd (fold (close_owner skip) es acc)))"
  "routes_inv (snd (snd acc)) \<Longrightarrow> routes_inv (snd (snd (fold (close_claim skip) es acc)))"
proof -
  have o: "routes_inv (snd (snd x)) \<Longrightarrow> routes_inv (snd (snd (close_owner skip e x)))" for e and x :: "'a closing"
    by (simp add: close_owner_def split_beta retireConn_routes)
  have c: "routes_inv (snd (snd x)) \<Longrightarrow> routes_inv (snd (snd (close_claim skip e x)))" for e and x :: "'a closing"
    by (simp add: close_claim_def split_beta retireClaim_routes)
  show "routes_inv (snd (snd acc)) \<Longrightarrow> routes_inv (snd (snd (fold (close_owner skip) es acc)))"
    by (induction es arbitrary: acc) (auto simp: o)
  show "routes_inv (snd (snd acc)) \<Longrightarrow> routes_inv (snd (snd (fold (close_claim skip) es acc)))"
    by (induction es arbitrary: acc) (auto simp: c)
qed

lemma CloseRaw_routes: "routes_inv m \<Longrightarrow> routes_inv (snd (snd (closeSessionsForRawAuthKey a skip m)))"
  by (simp add: closeSessionsForRawAuthKey_def Let_def close_routes)

lemma CloseBusiness_routes:
  assumes "routes_inv m"
  shows "routes_inv (snd (snd (CloseSessionsForBusinessAuthKey a m)))"
proof -
  let ?skip = "\<lambda>_ c d. \<not> connUsesBusinessAuthKey d a"
  let ?acc = "fold (close_claim ?skip) (sm_claims m) (fold (close_owner ?skip) (businessAuthKeyCandidatesLocked a m) ([], [], m))"
  have "routes_inv (snd (snd ?acc))" using assms by (intro close_routes) simp
  then have "routes_inv ((snd (snd ?acc))\<lparr>sm_logical := x\<rparr>)" for x
    by (rule routes_same) (simp_all add: routes_of_def registry_frame)
  then show ?thesis by (simp add: CloseSessionsForBusinessAuthKey_def Let_def split_beta)
qed

section \<open>Channel operations\<close>

lemma routes_okD:
  assumes "routes_inv m"
  defines "P \<equiv> route_user (registry_of m)"
  shows "index_ok (sm_interest m)" and "index_users P (sm_interest m)" and "index_ok (sm_members m)"
    and "index_users P (sm_members m)" and "subs_ok (sm_subs m)" and "subs_users P (sm_subs m)"
  using assms by (simp_all add: routes_inv_def routes_ok_def routes_of_def)

lemma routes_invI:
  assumes "registry_of n = registry_of m" and "index_ok (sm_interest n)"
    and "index_users (route_user (registry_of m)) (sm_interest n)" and "index_ok (sm_members n)"
    and "index_users (route_user (registry_of m)) (sm_members n)" and "subs_ok (sm_subs n)"
    and "subs_users (route_user (registry_of m)) (sm_subs n)"
  shows "routes_inv n"
  using assms by (simp add: routes_inv_def routes_ok_def routes_of_def)

lemma clear_same_users:
  assumes "index_ok x" and "index_users P x"
  shows "index_users P (clearChannelIndex k x)"
  using clear_users [OF assms, of k P] by simp

lemma interest_routes:
  assumes "routes_inv m"
  shows "routes_inv (TrackChannelInterest k u chs m)" and "routes_inv (ClearChannelInterest k u m)"
proof -
  note d = routes_okD [OF assms]
  let ?x = "clearChannelIndex k (sm_interest m)"
  have c: "index_ok ?x" "index_users (route_user (registry_of m)) ?x"
    using d clear_ok clear_same_users by blast+
  have clear: "routes_inv (clearChannelInterestsLocked k m)"
    by (rule routes_invI [of _ m]) (use c d in \<open>simp_all add: clearChannelInterestsLocked_def registry_frame\<close>)
  then show "routes_inv (ClearChannelInterest k u m)" using assms by (simp add: ClearChannelInterest_def)
  have "routes_inv ((clearChannelInterestsLocked k m)\<lparr>sm_interest := trackChannelIndex k u chs ?x\<rparr>)"
    if "u \<noteq> 0" "live_user m k u"
    by (rule routes_invI [of _ m])
      (use c d index_track_ok [OF c, of k u chs] that in \<open>simp_all add: clearChannelInterestsLocked_def registry_frame live_route_user\<close>)
  then show "routes_inv (TrackChannelInterest k u chs m)"
    using assms clear by (simp add: TrackChannelInterest_def Let_def) (simp add: clearChannelInterestsLocked_def)
qed

lemma subscribe_routes:
  assumes "routes_inv m"
  shows "routes_inv (RefreshChannelSubscription now k u ch ttl m)"
proof (cases "u = 0 \<or> ch = 0 \<or> \<not> live_user m k u")
  case True
  with assms show ?thesis by (auto simp: RefreshChannelSubscription_def Let_def)
next
  case False
  let ?P = "route_user (registry_of m)"
  note d = routes_okD [OF assms]
  define x where "x = pruneSessionSubscriptions k now (sm_subs m)"
  have x: "subs_ok x" "subs_users ?P x" using subs_prune_ok [OF d(5,6)] by (simp_all add: x_def)
  define e where "e = now + (if ttl \<le> 0 then defaultChannelSubscriptionTTL
    else if ttl > maxChannelSubscriptionTTL then maxChannelSubscriptionTTL else ttl)"
  define y where "y = \<lparr>si_byChannel = (si_byChannel x)(ch := AList.update k \<lparr>cs_user = u, cs_expiresAt = e\<rparr> (si_byChannel x ch)),
    si_bySession = (si_bySession x)(k := AList.update ch e (si_bySession x k))\<rparr>"
  have r: "RefreshChannelSubscription now k u ch ttl m = (if map_of (si_bySession x k) ch = None
      \<and> length (si_bySession x k) \<ge> maxChannelSubscriptionsPerSession then m\<lparr>sm_subs := x\<rparr> else m\<lparr>sm_subs := y\<rparr>)"
    using False by (simp add: RefreshChannelSubscription_def Let_def x_def y_def e_def)
  have "subs_ok y" if "\<not> (map_of (si_bySession x k) ch = None \<and> length (si_bySession x k) \<ge> maxChannelSubscriptionsPerSession)"
  proof (rule subs_okI)
    fix k'
    show "distinct (map fst (si_bySession y k')) \<and> length (si_bySession y k') \<le> maxChannelSubscriptionsPerSession"
      using subs_rev [OF x(1), of k'] that by (auto simp: y_def distinct_update length_update map_of_eq_None_iff)
  next
    fix ch' k'
    show "map_of (si_bySession y k') ch' = map_option cs_expiresAt (map_of (si_byChannel y ch') k')"
      using subs_entry [OF x(1), of k' ch'] by (auto simp: y_def)
  qed (use subs_distinct [OF x(1)] in \<open>simp add: y_def distinct_update\<close>)
  moreover have "subs_users ?P y"
    using x(2) False live_route_user [of u m k] by (auto simp: subs_users_def y_def split: if_splits)
  ultimately show ?thesis unfolding r using x d
    by (auto intro!: routes_invI [of _ m] simp: registry_frame)
qed

lemma memberships_routes:
  assumes "routes_inv m"
  shows "routes_inv (SetSessionChannelMemberships k u chs g m)"
proof (cases "owner_of m k")
  case None
  with assms show ?thesis by (simp add: SetSessionChannelMemberships_def)
next
  case (Some c)
  note d = routes_okD [OF assms]
  let ?P = "route_user (registry_of m)"
  let ?x = "clearChannelIndex k (sm_members m)"
  have c: "index_ok ?x" "index_users ?P ?x" using d clear_ok clear_same_users by blast+
  have P: "?P k u" if "u \<noteq> 0" "mc_user (sm_conns m c) = u" using that Some by (simp add: route_user_def)
  show ?thesis
  proof (rule routes_invI [of _ m])
    show "registry_of (SetSessionChannelMemberships k u chs g m) = registry_of m" by (simp add: registry_frame)
    show "index_ok (sm_members (SetSessionChannelMemberships k u chs g m))"
      "index_users ?P (sm_members (SetSessionChannelMemberships k u chs g m))"
      using Some c d index_track_ok [OF c P, of chs] index_track_ok [OF d(3,4) P, of chs]
      by (auto simp: SetSessionChannelMemberships_def clearChannelMembershipsLocked_def Let_def)
  qed (use Some d in \<open>simp_all add: SetSessionChannelMemberships_def clearChannelMembershipsLocked_def Let_def\<close>)
qed

lemma user_entries:
  assumes "registry_inv m" and "(k, c) \<in> set (sm_byUser m u)"
  shows "u \<noteq> 0" and "owner_of m k = Some c" and "mc_user (sm_conns m c) = u"
proof -
  have "map_of (sm_byUser m u) k = Some c" "map_of (sm_byUser m u) k = user_index (registry_of m) u k"
    using users_indexed [of "registry_of m"] assms map_of_is_SomeI [of "sm_byUser m u" k c]
    by (auto simp: registry_inv_def indexed_def)
  then have "user_index (registry_of m) u k = Some c" by simp
  then show "u \<noteq> 0" and "owner_of m k = Some c" and "mc_user (sm_conns m c) = u"
    by (auto simp: user_index_def split: option.splits if_splits)
qed

lemma add_membership_routes:
  assumes "routes_inv m" and "registry_inv m"
  shows "routes_inv (AddUserChannelMembership u ch m)"
proof -
  have "routes_inv (fold (add_membership u ch) es x) \<and> registry_of (fold (add_membership u ch) es x) = registry_of x"
    if "routes_inv x" and "\<forall>(k, c)\<in>set es. route_user (registry_of x) k u" for es and x :: "'a session_manager"
    using that
  proof (induction es arbitrary: x)
    case (Cons e es)
    obtain k c where e: "e = (k, c)" by (cases e)
    note d = routes_okD [OF Cons.prems(1)]
    have P: "route_user (registry_of x) k u" using Cons.prems(2) by (simp add: e)
    have r: "registry_of (add_membership u ch e x) = registry_of x"
      by (simp add: add_membership_def e Let_def registry_frame)
    have "routes_inv (add_membership u ch e x)"
      by (rule routes_invI [OF r])
        (use d index_track_ok [OF d(3,4) P, of "[ch]"] in \<open>simp_all add: add_membership_def e Let_def del: trackChannelIndex.simps\<close>)
    with Cons.IH [of "add_membership u ch e x"] r Cons.prems(2) show ?case by simp
  qed simp
  moreover have "\<forall>(k, c)\<in>set (sm_byUser m u). route_user (registry_of m) k u"
    using user_entries [OF assms(2)] by (auto simp: route_user_def)
  ultimately show ?thesis using assms(1) by (simp add: AddUserChannelMembership_def)
qed

lemma remove_membership_routes:
  assumes "routes_inv m"
  shows "routes_inv (RemoveUserChannelMembership u ch m)"
proof -
  have step: "routes_inv (remove_membership ch e x)" if "routes_inv x" for e and x :: "'a session_manager"
  proof -
    obtain k c where e: "e = (k, c)" by (cases e)
    note d = routes_okD [OF that]
    show ?thesis
      by (rule routes_invI [of _ x])
        (use d remove_ok [OF d(3,4), of k ch] in \<open>simp_all add: remove_membership_def e Let_def registry_frame\<close>)
  qed
  have "routes_inv (fold (remove_membership ch) es m)" for es
    using assms by (induction es arbitrary: m) (simp_all add: step)
  then show ?thesis using assms by (simp add: RemoveUserChannelMembership_def)
qed

lemma subscribers_routes:
  assumes "routes_inv m"
  shows "routes_inv (snd (onlineChannelSubscriberUserIDsExcluding now ch ex limit m))"
proof -
  have drop: "routes_inv (x\<lparr>sm_subs := removeChannelSubscription k ch (sm_subs x)\<rparr>)" if "routes_inv x"
    for k and x :: "'a session_manager"
    by (rule routes_invI [of _ x])
      (use routes_okD [OF that] subs_remove_ok [OF routes_okD(5,6) [OF that], of k ch] in \<open>simp_all add: registry_frame\<close>)
  have "routes_inv (snd (scan_subscribers now ch ex limit es out m))" for es out
    using assms
  proof (induction es arbitrary: out m)
    case (Cons e es)
    obtain k s where e: "e = (k, s)" by (cases e)
    show ?case using Cons.IH Cons.prems drop [OF Cons.prems, of k] by (simp add: e Let_def)
  qed simp
  then show ?thesis using assms by (simp add: onlineChannelSubscriberUserIDsExcluding_def)
qed

section \<open>Every step\<close>

lemma sweep_routes [simp]: "routes_of (sweepStalePending now m) = routes_of m"
proof -
  have "routes_of (fold (sweep_one now) es m) = routes_of m" for es
    by (induction es arbitrary: m) (simp_all add: sweep_one_def split_beta)
  then show ?thesis by (simp add: sweepStalePending_def)
qed

lemma run_command_routes:
  assumes "routes_inv m" and "registry_inv m" and "run_command cmd m = Some n"
  shows "routes_inv n"
proof (cases cmd)
  case (CmdBegin c)
  with assms begin_locked_routes show ?thesis by fastforce
next
  case (CmdPublish race c)
  obtain res x where "PublishActivation race c m = (res, x)" by (cases "PublishActivation race c m")
  with CmdPublish assms publish_routes [OF assms(1,2)] show ?thesis by auto
next
  case (CmdBeginFinish now ok c)
  with assms show ?thesis by (auto simp: begin_finish_def Abort_routes)
next
  case (CmdInterfere race c)
  have "route_user (registry_of (on_conn (interfere race) c m)) = route_user (registry_of m)"
    by (cases race) (auto simp: route_user_def registry_of_def ident_of_def conn_retire_def fun_eq_iff)
  with CmdInterfere assms show ?thesis by (auto intro: routes_same)
qed ((use assms in \<open>auto simp: begin_claim_routes Abort_routes Unregister_routes Destroy_routes BindUser_routes
      BindAuthKey_routes BindRaw_routes Unbind_routes CloseBusiness_routes CloseRaw_routes interest_routes subscribe_routes
      memberships_routes add_membership_routes remove_membership_routes subscribers_routes; fail\<close>)
    | (rule routes_same [OF assms(1)], use assms(3) in \<open>auto simp: registry_frame\<close>))+

lemma not_ready_routes:
  assumes "routes_inv m"
  shows "routes_inv (not_ready c k m)"
proof -
  have "routes_of (not_ready c k m) = clear_routes k (routes_of m)" by (simp add: not_ready_def routes_of_clear)
  then show ?thesis using assms by (auto simp: routes_inv_def registry_frame intro: routes_clear)
qed

lemma receives_routes:
  assumes "routes_inv m"
  shows "routes_inv (snd (SetReceivesUpdatesForAuthKey k b m))"
proof -
  have "routes_inv (on_conn (\<lambda>d. d\<lparr>mc_receives := True\<rparr>) c m)" for c
    by (rule routes_same [OF assms]) (simp_all add: registry_frame)
  moreover have "routes_inv (m\<lparr>sm_flushing := x\<rparr>)" for x
    by (rule routes_same [OF assms]) (simp_all add: registry_frame routes_of_def)
  ultimately show ?thesis using assms
    by (simp add: SetReceivesUpdatesForAuthKey_def setReceivesUpdatesLocked_def not_ready_routes split_beta split: option.split)
qed

lemma delivery_routes [simp]:
  "routes_of (snd (preparePendingPush r n m)) = routes_of m"
  "routes_of (snd (reservePrepared r p n m)) = routes_of m"
  "routes_of (snd (queuePreparedLocked now k q r m)) = routes_of m"
  "routes_of (snd (queueOrSendPrepared now k q r m)) = routes_of m"
  "routes_of (snd (takePendingLocked now k m)) = routes_of m"
  by (simp_all add: preparePendingPush_def reservePrepared_def queuePreparedLocked_def queueOrSendPrepared_def
      takePendingLocked_def Let_def routes_of_def split_beta split: bool.split option.split)

lemma scan_queue_routes [simp]: "routes_of (snd (snd (scan_queue f now p r es m))) = routes_of m"
proof (induction es arbitrary: m)
  case (Cons e es)
  then show ?case by (cases e; cases r) (simp_all add: split_beta)
qed simp

lemma flush_routes [simp]:
  "routes_of (snd (flush_take now c k u n m)) = routes_of m"
  "routes_of (snd (flush_check c k u n batch m)) = routes_of m"
  "routes_of (snd (flush_requeue c k u n batch m)) = routes_of m"
  by (simp_all add: flush_take_def flush_check_def flush_requeue_def activate_def Let_def split_beta routes_of_def
      takePendingLocked_def)

lemma flush_send_routes: "routes_of (snd (flush_send enc sent c k u n batch m)) = routes_of m"
proof -
  have "routes_of (snd (flush_error enc sent r m)) = routes_of m" for r
    by (simp add: flush_error_def split_beta split: encoding.split bool.split)
  then show ?thesis by (simp add: flush_send_def split_beta split: option.split)
qed

lemma push_send_routes: "routes_of (snd (push_send c res acc m)) = routes_of m"
  by (simp add: push_send_def Let_def split_beta split: push_result.split)

lemma routes_retired:
  assumes "routes_inv m" and "routes_of n = routes_of m" and "registry_of n \<in> {registry_of m, rg_retire c (registry_of m)}"
  shows "routes_inv n"
  by (rule routes_same [OF assms(1,2)]) (use assms(3) in auto)

lemma reordered_routes:
  assumes "routes_inv m" and "registry_inv m" and "reordered m n"
  shows "routes_inv n"
proof -
  obtain os cl ca ak bu us pe where n: "n = m\<lparr>sm_bySession := os, sm_claims := cl, sm_claimsByAuth := ca,
      sm_byAuthKey := ak, sm_byBusiness := bu, sm_byUser := us, sm_pending := pe\<rparr>"
    and p: "mset os = mset (sm_bySession m)"
    using assms(3) unfolding reordered_def by blast
  have "distinct (map fst (sm_bySession m))" using assms(2) by (auto simp: registry_inv_def registry_ok_def owners_ok_def)
  from map_of_mset [OF p this] have "route_user (registry_of n) = route_user (registry_of m)"
    unfolding route_user_def [abs_def] by (simp add: n registry_of_def del: map_of_eq_Some_iff)
  then show ?thesis by (intro routes_same [OF assms(1)]) (simp_all add: n routes_of_def)
qed

lemma world_step_routes:
  assumes "world_step bound fu w w'" and "routes_inv (pw_mgr w)" and "registry_inv (pw_mgr w)"
  shows "routes_inv (pw_mgr w')"
  using assms(1)
proof (cases rule: world_step.cases)
  case (command cmd m)
  then show ?thesis using assms(2,3) run_command_routes by auto
next
  case (reorder m)
  then show ?thesis using assms(2,3) reordered_routes by auto
next
  case (set_receives k b start m)
  then show ?thesis using receives_routes [OF assms(2), of k b] by simp
next
  case (prepare bytes r m)
  then show ?thesis using routes_same [OF assms(2), of m] registry_of_prepare [of "pw_next w" bytes "pw_mgr w"]
      delivery_routes(1) [of "pw_next w" bytes "pw_mgr w"] by simp
next
  case (push_user f now u p r cs q m)
  then show ?thesis using routes_same [OF assms(2), of m] registry_of_scan_queue [of f now p r "sm_byUser (pw_mgr w) u" "pw_mgr w"]
      scan_queue_routes [of f now p r "sm_byUser (pw_mgr w) u" "pw_mgr w"] by (simp add: push_rescan_def)
next
  case (push_session now k p r res m)
  then show ?thesis using routes_same [OF assms(2), of m] registry_of_session_queue [of now k p r "pw_mgr w"]
      delivery_routes(4) [of now k p r "pw_mgr w"] by simp
next
  case (producer_done r)
  then show ?thesis using routes_same [OF assms(2), of "push_release r (pw_mgr w)"] by (simp add: registry_frame)
next
  case (send_result c p mark res acc acc' m)
  then show ?thesis using routes_retired [OF assms(2), of m c] push_send_registry [of c res acc "pw_mgr w"]
      push_send_routes [of c res acc "pw_mgr w"] by simp
next
  case (flush_takes i c k u n now f m)
  then show ?thesis using routes_same [OF assms(2), of m] registry_of_flush(1) [of now c k u n "pw_mgr w"]
      flush_routes(1) [of now c k u n "pw_mgr w"] by simp
next
  case (flush_checks i c k u n batch f m)
  then show ?thesis using routes_same [OF assms(2), of m] registry_of_flush(2) [of c k u n batch "pw_mgr w"]
      flush_routes(2) [of c k u n batch "pw_mgr w"] by simp
next
  case (flush_sends i c k u n batch enc sent f m)
  then show ?thesis using routes_retired [OF assms(2), of m c] flush_send_registry [of enc sent c k u n batch "pw_mgr w"]
      flush_send_routes [of enc sent c k u n batch "pw_mgr w"] by simp
next
  case (flush_requeues i c k u n batch f m)
  then show ?thesis using routes_same [OF assms(2), of m] registry_of_flush(3) [of c k u n batch "pw_mgr w"]
      flush_routes(3) [of c k u n batch "pw_mgr w"] by simp
qed (use assms(2) in simp_all)

lemma reach_routes:
  assumes "world_reach bound fu w"
  shows "routes_inv (pw_mgr w)"
  using assms
proof induction
  case (start cs)
  then show ?case
    by (simp add: world_start_def NewSessionManager_def routes_inv_def routes_of_def routes_ok_def index_ok_def
        index_users_def subs_ok_def subs_users_def)
next
  case (step w w')
  then show ?case using world_step_routes reach_registry by blast
qed

end
