(* ===== verification/Session_Kept.thy ===== *)
theory Session_Kept
  imports Session_Routes_Inv
begin

text \<open>
  The pushes kept for sessions that are not ready, and the memory they hold. A reservation is referred
  to by the producer that made it, by every queue entry that shares its body and by the flush workers
  that took such entries; the budget is charged with the bytes of the reservations still referred to.
\<close>

section \<open>References\<close>

definition refs_of :: "'p queued_push list \<Rightarrow> nat multiset" where
  "refs_of qs = mset (map qp_reservation qs)"

definition kept_refs :: "'p session_manager \<Rightarrow> nat multiset" where
  "kept_refs m = refs_of (concat (map snd (sm_pending m)))"

definition resv_charge :: "(nat \<Rightarrow> push_reservation) \<Rightarrow> nat multiset \<Rightarrow> nat \<Rightarrow> int" where
  "resv_charge f H r = (if r \<in># H then pr_bytes (f r) else 0)"

definition resv_ok :: "nat \<Rightarrow> nat multiset \<Rightarrow> 'p session_manager \<Rightarrow> bool" where
  "resv_ok N H m \<longleftrightarrow> (\<forall>r. pr_refs (sm_reservations m r) = int (count H r)) \<and> (\<forall>r\<in>#H. r < N)
     \<and> (\<forall>r. 0 \<le> pr_bytes (sm_reservations m r))
     \<and> tb_used (sm_budget m) = sum (resv_charge (sm_reservations m) H) {..<N}
     \<and> tracked_inv (sm_budget m) \<and> \<not> sm_panic m"

lemma refs_of_simps [simp]: "refs_of [] = {#}" "refs_of (q # qs) = add_mset (qp_reservation q) (refs_of qs)"
  "refs_of (xs @ ys) = refs_of xs + refs_of ys"
  by (simp_all add: refs_of_def)

lemma sum_one:
  fixes f g :: "nat \<Rightarrow> int"
  assumes "r < N" and "\<And>i. i \<noteq> r \<Longrightarrow> f i = g i"
  shows "(\<Sum>i<N. f i) = (\<Sum>i<N. g i) - g r + f r"
proof -
  have "(\<Sum>i<N. f i) = f r + (\<Sum>i\<in>{..<N} - {r}. f i)" using assms(1) by (simp add: sum.remove)
  also have "(\<Sum>i\<in>{..<N} - {r}. f i) = (\<Sum>i\<in>{..<N} - {r}. g i)" by (rule sum.cong) (use assms(2) in auto)
  finally show ?thesis using assms(1) by (simp add: sum.remove)
qed

lemma resv_charge_cong:
  assumes "\<And>i. pr_bytes (f i) = pr_bytes (g i)" and "set_mset H = set_mset K"
  shows "resv_charge f H = resv_charge g K"
  using assms by (auto simp: resv_charge_def fun_eq_iff)

lemma retain_ok:
  assumes "resv_ok N H m" and "r \<in># H"
  shows "resv_ok N (add_mset r H) (push_retain r m)"
proof -
  have refs: "pr_refs (sm_reservations m r) = int (count H r)" using assms by (auto simp: resv_ok_def)
  obtain x where x: "count H r = Suc x" using assms(2) by (metis count_greater_zero_iff gr0_implies_Suc)
  let ?n = "push_retain r m"
  have n: "?n = m\<lparr>sm_reservations := (sm_reservations m)(r := (sm_reservations m r)\<lparr>pr_refs := int (count H r) + 1\<rparr>)\<rparr>"
    using refs x by (simp add: push_retain_def Let_def)
  have "resv_charge (sm_reservations ?n) (add_mset r H) = resv_charge (sm_reservations m) H"
    by (rule resv_charge_cong) (use assms(2) in \<open>auto simp: n\<close>)
  with assms refs show ?thesis by (auto simp: resv_ok_def n)
qed

lemma resv_release_ok:
  assumes "resv_ok N H m" and "r \<in># H"
  shows "resv_ok N (H - {#r#}) (push_release r m)"
proof -
  let ?f = "resv_charge (sm_reservations m) H"
  obtain x where x: "count H r = Suc x" using assms(2) by (metis count_greater_zero_iff gr0_implies_Suc)
  have refs: "pr_refs (sm_reservations m r) = int (count H r)" and lt: "r < N"
    and used: "tb_used (sm_budget m) = sum ?f {..<N}" and bytes: "\<And>i. 0 \<le> pr_bytes (sm_reservations m i)"
    and tinv: "tracked_inv (sm_budget m)"
    using assms by (auto simp: resv_ok_def)
  let ?n = "push_release r m"
  have bound: "\<forall>i\<in>#H - {#r#}. i < N" using assms by (auto simp: resv_ok_def dest: in_diffD)
  show ?thesis
  proof (cases "x = 0")
    case False
    then have in2: "r \<in># H - {#r#}" using x by (simp add: in_diff_count)
    have n: "?n = m\<lparr>sm_reservations := (sm_reservations m)(r := (sm_reservations m r)\<lparr>pr_refs := int (count H r) - 1\<rparr>)\<rparr>"
      using False refs x by (simp add: push_release_def Let_def)
    have "set_mset (H - {#r#}) = set_mset H"
      using in2 by (auto simp: in_diff_count dest: in_diffD split: if_splits)
    then have "resv_charge (sm_reservations ?n) (H - {#r#}) = ?f"
      by (intro resv_charge_cong) (auto simp: n)
    with assms refs bound x show ?thesis by (simp add: resv_ok_def n)
  next
    case True
    have le: "pr_bytes (sm_reservations m r) \<le> tb_used (sm_budget m)"
      using used member_le_sum [of r "{..<N}" ?f] lt assms(2) bytes by (auto simp: resv_charge_def)
    obtain b where b: "tracked_release (pr_bytes (sm_reservations m r)) (sm_budget m) = Some b"
      "tb_used b = tb_used (sm_budget m) - pr_bytes (sm_reservations m r)" "tracked_inv b"
      using le bytes [of r] tinv by (cases "pr_bytes (sm_reservations m r) = 0") (auto simp: tracked_release_def tracked_inv_def Let_def)
    have n: "?n = m\<lparr>sm_reservations := (sm_reservations m)(r := (sm_reservations m r)\<lparr>pr_refs := 0\<rparr>), sm_budget := b\<rparr>"
      using True refs x b by (simp add: push_release_def Let_def)
    have gone: "r \<notin># H - {#r#}" using True x by (simp add: not_in_iff)
    have "sum (resv_charge (sm_reservations ?n) (H - {#r#})) {..<N} = sum ?f {..<N} - ?f r + resv_charge (sm_reservations ?n) (H - {#r#}) r"
      by (rule sum_one [OF lt]) (auto simp: n resv_charge_def in_diff_count split: if_splits)
    then have "sum (resv_charge (sm_reservations ?n) (H - {#r#})) {..<N} = tb_used b"
      using gone b used assms(2) by (simp add: resv_charge_def)
    with assms b True x bound show ?thesis by (simp add: resv_ok_def n)
  qed
qed

lemma releases_ok:
  assumes "resv_ok N (refs_of qs + H) m"
  shows "resv_ok N H (releaseQueuedPushes qs m)"
  using assms unfolding releaseQueuedPushes_def
proof (induction qs arbitrary: m)
  case (Cons q qs)
  have "resv_ok N (refs_of qs + H) (push_release (qp_reservation q) m)"
    using resv_release_ok [OF Cons.prems, of "qp_reservation q"] by simp
  from Cons.IH [OF this] show ?case by simp
qed simp

lemma resv_same:
  assumes "resv_ok N H m" and "sm_reservations n = sm_reservations m" and "sm_budget n = sm_budget m" and "sm_panic n = sm_panic m"
  shows "resv_ok N H n"
  using assms by (simp add: resv_ok_def)

section \<open>Queues\<close>

definition queue_of :: "(session_key \<times> 'p queued_push list) list \<Rightarrow> session_key \<Rightarrow> 'p queued_push list" where
  "queue_of xs k = (case map_of xs k of None \<Rightarrow> [] | Some q \<Rightarrow> q)"

lemma pending_queue: "pending_of m = queue_of (sm_pending m)"
  by (simp add: fun_eq_iff pending_of_def queue_of_def)

lemma queue_of_upd [simp]:
  "queue_of (AList.update k q xs) = (queue_of xs)(k := q)" "queue_of (AList.delete k xs) = (queue_of xs)(k := [])"
  by (simp_all add: fun_eq_iff queue_of_def)

lemma delete_refs:
  assumes "distinct (map fst xs)"
  shows "refs_of (concat (map snd xs)) = refs_of (queue_of xs k) + refs_of (concat (map snd (AList.delete k xs)))"
  using assms
proof (induction xs)
  case (Cons x xs)
  show ?case
  proof (cases "fst x = k")
    case True
    with Cons.prems have "k \<notin> fst ` set xs" by auto
    then have "AList.delete k xs = xs" by (rule delete_id)
    with True show ?thesis by (cases x) (simp add: queue_of_def)
  next
    case False
    with Cons show ?thesis by (cases x) (auto simp: queue_of_def)
  qed
qed (simp add: queue_of_def)

lemma update_refs:
  assumes "distinct (map fst xs)"
  shows "refs_of (concat (map snd (AList.update k q xs))) + refs_of (queue_of xs k) = refs_of q + refs_of (concat (map snd xs))"
  using assms
proof (induction xs)
  case (Cons x xs)
  show ?case
  proof (cases "fst x = k")
    case True
    then show ?thesis by (cases x) (simp add: queue_of_def)
  next
    case False
    with Cons show ?thesis by (cases x) (auto simp: queue_of_def)
  qed
qed (simp add: queue_of_def)

definition queues_ok :: "'p session_manager \<Rightarrow> bool" where
  "queues_ok m \<longleftrightarrow> distinct (map fst (sm_pending m)) \<and> (\<forall>k. length (pending_of m k) \<le> maxPendingPushesPerSession)"

text \<open>Accounting of a manager whose environment holds the references \<open>X\<close>.\<close>

definition held_ok :: "nat \<Rightarrow> nat multiset \<Rightarrow> 'p session_manager \<Rightarrow> bool" where
  "held_ok N X m \<longleftrightarrow> queues_ok m \<and> resv_ok N (kept_refs m + X) m"

definition kept_same :: "'p session_manager \<Rightarrow> 'p session_manager \<Rightarrow> bool" where
  "kept_same m n \<longleftrightarrow> sm_pending n = sm_pending m \<and> sm_reservations n = sm_reservations m
     \<and> sm_budget n = sm_budget m \<and> sm_panic n = sm_panic m"

lemma held_same: "held_ok N X m \<Longrightarrow> kept_same m n \<Longrightarrow> held_ok N X n"
  by (simp add: held_ok_def queues_ok_def kept_same_def kept_refs_def resv_ok_def pending_of_def)

text \<open>Operations that at most drop whole queues and stop flushes.\<close>

inductive drops :: "'p session_manager \<Rightarrow> 'p session_manager \<Rightarrow> bool" for m where
  drops_refl: "drops m m"
| drops_other: "drops m n \<Longrightarrow> kept_same n n' \<Longrightarrow> (\<And>k. sm_flushing n' k \<Longrightarrow> sm_flushing n k) \<Longrightarrow> drops m n'"
| drops_queue: "drops m n \<Longrightarrow> drops m (deletePendingLocked k n)"

lemma drops_trans: "drops n p \<Longrightarrow> drops m n \<Longrightarrow> drops m p"
  by (induction rule: drops.induct) (auto intro: drops.intros)

lemma deletePending_pending: "pending_of (deletePendingLocked k m) = (pending_of m)(k := [])"
  by (simp add: pending_queue)

lemma deletePending_held:
  assumes "held_ok N X m"
  shows "held_ok N X (deletePendingLocked k m)"
proof -
  have d: "distinct (map fst (sm_pending m))" using assms by (simp add: held_ok_def queues_ok_def)
  let ?m = "m\<lparr>sm_pending := AList.delete k (sm_pending m)\<rparr>"
  have "kept_refs m = refs_of (pending_of m k) + kept_refs ?m"
    using delete_refs [OF d, of k] by (simp add: kept_refs_def pending_queue)
  then have "kept_refs m + X = refs_of (pending_of m k) + (kept_refs ?m + X)" by (simp only: add.assoc)
  moreover have "resv_ok N (kept_refs m + X) m" using assms by (simp only: held_ok_def)
  ultimately have "resv_ok N (refs_of (pending_of m k) + (kept_refs ?m + X)) m" by (simp only:)
  then have "resv_ok N (refs_of (pending_of m k) + (kept_refs ?m + X)) ?m" by (rule resv_same) simp_all
  from releases_ok [OF this] have "resv_ok N (kept_refs (deletePendingLocked k m) + X) (deletePendingLocked k m)"
    by (simp add: deletePendingLocked_def kept_refs_def)
  then show ?thesis using assms d
    by (simp add: held_ok_def queues_ok_def deletePending_pending distinct_delete)
qed

lemma drops_held: "drops m n \<Longrightarrow> held_ok N X m \<Longrightarrow> held_ok N X n"
  by (induction rule: drops.induct) (auto intro: held_same deletePending_held)

lemma drops_pending: "drops m n \<Longrightarrow> pending_of n k = pending_of m k \<or> pending_of n k = []"
proof (induction rule: drops.induct)
  case (drops_other n n')
  then have "pending_of n' = pending_of n" by (simp add: kept_same_def pending_queue)
  with drops_other show ?case by simp
qed (auto simp: deletePending_pending)

lemma drops_flushing: "drops m n \<Longrightarrow> sm_flushing n k \<Longrightarrow> sm_flushing m k"
  by (induction rule: drops.induct) auto

end
