(* ===== verification/Session_Kept_Inv.thy ===== *)
theory Session_Kept_Inv
  imports Session_Kept
begin

text \<open>Every step keeps the accounting of kept pushes: commands at most drop queues, pushes and flush workers move references.\<close>

section \<open>Commands drop queues at most\<close>

named_theorems drops_rules

lemma drops_prims [drops_rules]:
  "drops m n \<Longrightarrow> drops m (on_conn f c n)"
  "drops m n \<Longrightarrow> drops m (stop_flushing k n)"
  "drops m n \<Longrightarrow> drops m (clearSessionChannelIndexesLocked c k n)"
  "drops m n \<Longrightarrow> drops m (unindex_owner k c n)"
  "drops m n \<Longrightarrow> drops m (index_owner k c n)"
  "drops m n \<Longrightarrow> drops m (addClaimLocked k c n)"
  "drops m n \<Longrightarrow> drops m (removeClaimLocked k c n)"
  "drops m n \<Longrightarrow> drops m (markLogicalSessionOfflineLocked k now n)"
  "drops m n \<Longrightarrow> drops m (bindLogicalSessionAuthKeyLocked k b n)"
  "drops m n \<Longrightarrow> drops m (snd (destroyLogicalSessionLocked k n))"
  by (erule drops_other;
      simp add: kept_same_def clearSessionChannelIndexesLocked_def clearChannelInterestsLocked_def clearChannelMembershipsLocked_def
        unindex_owner_def index_owner_def addClaimLocked_def removeClaimLocked_def markLogicalSessionOfflineLocked_def stop_flushing_def
        bindLogicalSessionAuthKeyLocked_def destroyLogicalSessionLocked_def on_conn_def Let_def split: option.splits if_splits)+

lemma drops_fields [drops_rules]:
  "drops m n \<Longrightarrow> drops m (n\<lparr>sm_byUser := x1\<rparr>)" "drops m n \<Longrightarrow> drops m (n\<lparr>sm_byBusiness := x2\<rparr>)"
  "drops m n \<Longrightarrow> drops m (n\<lparr>sm_logical := x3\<rparr>)"
  "drops m n \<Longrightarrow> drops m (n\<lparr>sm_interest := x5\<rparr>)" "drops m n \<Longrightarrow> drops m (n\<lparr>sm_members := x6\<rparr>)"
  "drops m n \<Longrightarrow> drops m (n\<lparr>sm_subs := x7\<rparr>)"
  by (erule drops_other; simp add: kept_same_def)+

lemmas [drops_rules] = drops_refl drops_queue

lemma removeLocked_drops [drops_rules]: "drops m n \<Longrightarrow> drops m (snd (removeLocked c dp n))"
  by (auto simp: removeLocked_def Let_def intro!: drops_rules)

lemma retireConn_drops [drops_rules]: "drops m n \<Longrightarrow> drops m (snd (retireConnLocked c dp n))"
  by (simp add: retireConnLocked_def drops_rules)

lemma retireClaim_drops [drops_rules]: "drops m n \<Longrightarrow> drops m (retireClaimLocked k c dp n)"
  by (auto simp: retireClaimLocked_def Let_def intro!: drops_rules)

lemma dropState_drops [drops_rules]: "drops m n \<Longrightarrow> drops m (drop_session_state c k n)"
  by (simp add: drop_session_state_def drops_rules)

lemma evict_one_drops [drops_rules]: "drops m n \<Longrightarrow> drops m (evict_one a v n)"
  by (auto simp: evict_one_def drops_rules split: prod.split)

lemma evict_over_cap_drops:
  assumes "evict_over_cap c a n = Some (cs, p)" and "drops m n"
  shows "drops m p"
  using assms
proof (induction "auth_load a n" arbitrary: n cs rule: less_induct)
  case less
  show ?case
  proof (cases "auth_load a n < maxSessionsPerAuthKey \<or> oldestAuthOwnerLocked a c n = None")
    case True
    then have "evict_over_cap c a n = Some ([], n)" by (subst evict_over_cap.simps) auto
    with less.prems show ?thesis by simp
  next
    case False
    then obtain v where v: "oldestAuthOwnerLocked a c n = Some v" by auto
    from less.prems(1) False v have lt: "auth_load a (evict_one a v n) < auth_load a n"
      and "\<exists>ds. evict_over_cap c a (evict_one a v n) = Some (ds, p)"
      by (subst (asm) evict_over_cap.simps, auto simp: Let_def split: if_splits)+
    then show ?thesis using less.hyps [OF lt] evict_one_drops [OF less.prems(2)] by blast
  qed
qed

lemma take_over_drops: "drops m (snd (take_over c m))"
  by (auto simp: take_over_def Let_def split_beta intro!: drops_rules split: option.split)

lemma begin_locked_drops:
  assumes "begin_locked c m = Some (res, n)"
  shows "drops m n"
proof (cases "\<not> mc_open (sm_conns m c) \<or> mc_life (sm_conns m c) \<noteq> Claiming")
  case True
  with assms show ?thesis by (auto simp: begin_locked_def drops_rules)
next
  case False
  with assms obtain es x where "evict_over_cap c (fst (conn_key m c)) (snd (take_over c m)) = Some (es, x)"
    and "n = addClaimLocked (conn_key m c) c x"
    by (auto simp: begin_locked_def Let_def split_beta)
  then show ?thesis using evict_over_cap_drops take_over_drops drops_prims(6) by blast
qed

lemma activation_drops [drops_rules]:
  "drops m (snd (begin_claim race c m))" "drops m (snd (AbortActivation now c m))"
  "drops m (snd (begin_finish now ok c m))" "drops m (snd (PublishActivation race c m))"
  by (auto simp: begin_claim_def AbortActivation_def begin_finish_def PublishActivation_def Let_def split_beta
      intro!: drops_rules split: bool.split)

lemma Unregister_drops [drops_rules]: "drops m (snd (Unregister now c m))"
  by (auto simp: Unregister_def Let_def split_beta intro!: drops_rules)

lemma Destroy_drops [drops_rules]: "drops m (snd (snd (snd (DestroySessionForAuthKey a sid m))))"
  by (auto simp: DestroySessionForAuthKey_def Let_def split_beta intro!: drops_rules split: option.split)

lemma bindUserLocked_drops [drops_rules]: "drops m n \<Longrightarrow> drops m (bindUserLocked c k u n)"
  by (auto simp: bindUserLocked_def Let_def intro!: drops_rules)

lemma bindAuthKeyLocked_drops [drops_rules]: "drops m n \<Longrightarrow> drops m (bindAuthKeyLocked c k b n)"
  by (auto simp: bindAuthKeyLocked_def Let_def intro!: drops_rules split: option.split)

lemma fold_drops:
  assumes "\<And>e x. drops m (f x) \<Longrightarrow> drops m (f (g e x))" and "drops m (f x)"
  shows "drops m (f (fold g es x))"
  using assms by (induction es arbitrary: x) auto

lemma binds_drops [drops_rules]:
  "drops m (BindUserForAuthKey a sid u m)" "drops m (BindAuthKeyForSession a sid b m)"
  by (auto simp: BindUserForAuthKey_def BindAuthKeyForSession_def intro!: drops_rules split: option.split)

lemma BindRaw_drops [drops_rules]: "drops m (snd (BindAuthKeyForRawAuthKey a b m))"
  unfolding BindAuthKeyForRawAuthKey_def
  by (rule fold_drops) (auto simp: bind_raw_one_def split_beta intro!: drops_rules)

lemma Unbind_drops [drops_rules]: "drops m (snd (UnbindAuthKey a m))"
  unfolding UnbindAuthKey_def
  by (rule fold_drops) (auto simp: unbind_one_def Let_def split_beta intro!: drops_rules)

lemma close_drops:
  "drops m (snd (snd acc)) \<Longrightarrow> drops m (snd (snd (fold (close_owner skip) es acc)))"
  "drops m (snd (snd acc)) \<Longrightarrow> drops m (snd (snd (fold (close_claim skip) es acc)))"
  by (rule fold_drops [where f = "\<lambda>x. snd (snd x)"]; auto simp: close_owner_def close_claim_def split_beta intro!: drops_rules)+

lemma Close_drops [drops_rules]:
  "drops m (snd (snd (closeSessionsForRawAuthKey a skip m)))" "drops m (snd (snd (CloseSessionsForBusinessAuthKey a m)))"
  by (simp_all add: closeSessionsForRawAuthKey_def CloseSessionsForBusinessAuthKey_def Let_def split_beta close_drops drops_rules)

lemma channel_drops [drops_rules]:
  "drops m (TrackChannelInterest k u chs m)" "drops m (ClearChannelInterest k u m)"
  "drops m (RefreshChannelSubscription now k u ch ttl m)" "drops m (SetSessionChannelMemberships k u chs gen m)"
  by (auto simp: TrackChannelInterest_def ClearChannelInterest_def RefreshChannelSubscription_def SetSessionChannelMemberships_def
      clearChannelInterestsLocked_def clearChannelMembershipsLocked_def Let_def intro!: drops_rules split: option.split)

lemma membership_drops [drops_rules]:
  "drops m (AddUserChannelMembership u ch m)" "drops m (RemoveUserChannelMembership u ch m)"
  unfolding AddUserChannelMembership_def RemoveUserChannelMembership_def
  by (auto simp: add_membership_def remove_membership_def Let_def split_beta
      intro!: drops_rules fold_drops [where f = "\<lambda>x. x"])

lemma subscribers_drops [drops_rules]: "drops m (snd (onlineChannelSubscriberUserIDsExcluding now ch ex limit m))"
proof -
  have "drops m (snd (scan_subscribers now ch ex limit es out n))" if "drops m n" for es out n
    using that
  proof (induction es arbitrary: out n)
    case (Cons e es)
    then show ?case by (cases e) (auto simp: Let_def drops_rules)
  qed simp
  from this [OF drops_refl] show ?thesis by (simp add: onlineChannelSubscriberUserIDsExcluding_def drops_rules)
qed

lemma sweep_drops [drops_rules]: "drops m (sweepStalePending now m)"
  unfolding sweepStalePending_def
  by (rule fold_drops [where f = "\<lambda>x. x"]) (auto simp: sweep_one_def split_beta intro!: drops_rules)

lemma logical_drops [drops_rules]:
  "drops m (snd (attachLogicalSession i c m))" "drops m (snd (sweepLogicalSessions now m))"
  "drops m (snd (ForgetLogicalSessionsForRawAuthKey a m))"
  by (simp_all add: attachLogicalSession_def sweepLogicalSessions_def ForgetLogicalSessionsForRawAuthKey_def Let_def drops_rules)

lemma run_command_drops:
  assumes "run_command cmd m = Some n"
  shows "drops m n"
proof (cases cmd)
  case (CmdBegin c)
  with assms begin_locked_drops show ?thesis by fastforce
qed (use assms in \<open>auto intro!: drops_rules\<close>)

lemma not_ready_drops [drops_rules]: "drops m n \<Longrightarrow> drops m (not_ready c k n)"
  by (simp add: not_ready_def drops_rules)

lemma receives_held:
  assumes "held_ok N X m"
  shows "held_ok N X (snd (SetReceivesUpdatesForAuthKey k b m))"
proof (cases "owner_of m k")
  case None
  with assms show ?thesis by (simp add: SetReceivesUpdatesForAuthKey_def)
next
  case (Some c)
  have "held_ok N X (not_ready c k m)" "held_ok N X (on_conn f c m)" for f
    by (rule drops_held [OF _ assms], intro drops_rules)+
  moreover have "held_ok N X (m\<lparr>sm_flushing := x\<rparr>)" for x
    by (rule held_same [OF assms]) (simp add: kept_same_def)
  ultimately show ?thesis using assms Some
    by (simp add: SetReceivesUpdatesForAuthKey_def setReceivesUpdatesLocked_def split_beta)
qed

end
