(* ===== verification/Session_Kept_World.thy ===== *)
theory Session_Kept_World
  imports Session_Kept_Inv
begin

text \<open>The accounting of kept pushes in every reachable state: nothing leaks and nothing is released twice.\<close>

section \<open>Delivery operations\<close>

lemma reserved_used:
  assumes "tracked_inv b" and "tracked_reserve n b = (True, b')" and "0 \<le> n"
  shows "tb_used b' = tb_used b + n \<and> tracked_inv b'"
  using assms by (auto simp: tracked_reserve_def tracked_inv_def split: if_splits)

lemma reserve_false: "tracked_reserve n b = (False, b') \<Longrightarrow> b' = b"
  by (auto simp: tracked_reserve_def split: if_splits)

lemma prepare_held:
  assumes ok: "held_ok N X m" and p: "preparePendingPush N bytes m = (Inr r, n)" and "0 \<le> bytes"
  shows "held_ok (Suc N) (add_mset r X) n" and "r = N"
proof -
  let ?H = "kept_refs m + X"
  have rok: "resv_ok N ?H m" using ok by (simp add: held_ok_def)
  obtain b where b: "tracked_reserve bytes (sm_budget m) = (True, b)" and r: "r = N"
    and n: "n = m\<lparr>sm_budget := b, sm_reservations := (sm_reservations m)(N := \<lparr>pr_bytes = bytes, pr_refs = 1, pr_profiles = []\<rparr>)\<rparr>"
    using p by (auto simp: preparePendingPush_def split: if_splits prod.splits bool.splits)
  show "r = N" by (rule r)
  have new: "N \<notin># ?H" using rok by (auto simp: resv_ok_def)
  then have c0: "count ?H N = 0" by (simp only: not_in_iff)
  have bd: "tb_used b = tb_used (sm_budget m) + bytes" "tracked_inv b"
    using reserved_used [OF _ b assms(3)] rok by (simp_all add: resv_ok_def)
  have "sum (resv_charge (sm_reservations n) (add_mset N ?H)) {..<N} = sum (resv_charge (sm_reservations m) ?H) {..<N}"
    by (rule sum.cong) (auto simp: resv_charge_def n)
  then have s: "sum (resv_charge (sm_reservations n) (add_mset N ?H)) {..<Suc N} = tb_used b"
    using bd rok by (simp add: resv_charge_def n resv_ok_def)
  have k: "kept_refs n = kept_refs m" by (simp add: kept_refs_def n)
  have refs: "pr_refs (sm_reservations m i) = int (count ?H i)" "0 \<le> pr_bytes (sm_reservations m i)" for i
    using rok by (auto simp: resv_ok_def)
  have lt: "\<forall>i\<in>#add_mset N ?H. i < Suc N" using rok by (auto simp: resv_ok_def intro: less_SucI)
  have "resv_ok (Suc N) (add_mset N ?H) n"
    unfolding resv_ok_def
  proof (intro conjI allI)
    show "pr_refs (sm_reservations n i) = int (count (add_mset N ?H) i)" for i
      using refs(1) [of i] c0 by (cases "i = N") (simp_all add: n)
    show "0 \<le> pr_bytes (sm_reservations n i)" for i using refs(2) [of i] assms(3) by (simp add: n)
    show "tb_used (sm_budget n) = sum (resv_charge (sm_reservations n) (add_mset N ?H)) {..<Suc N}" using s by (simp add: n)
  qed (use lt bd rok in \<open>auto simp: n resv_ok_def\<close>)
  moreover have "queues_ok n" using ok by (simp add: held_ok_def queues_ok_def pending_of_def n)
  ultimately show "held_ok (Suc N) (add_mset r X) n" by (simp add: held_ok_def k r)
qed

lemma reservePrepared_held:
  assumes ok: "resv_ok N H m" and "r \<in># H" and p: "reservePrepared r profile bytes m = (b, n)"
  shows "resv_ok N H n \<and> sm_pending n = sm_pending m"
proof -
  consider "n = m" | (new) x where "0 \<le> bytes" "tracked_reserve bytes (sm_budget m) = (True, x)"
    "n = m\<lparr>sm_budget := x, sm_reservations := (sm_reservations m)(r := (sm_reservations m r)
       \<lparr>pr_profiles := profile # pr_profiles (sm_reservations m r), pr_bytes := pr_bytes (sm_reservations m r) + bytes\<rparr>)\<rparr>"
  proof (cases "bytes < 0 \<or> profile \<in> set (pr_profiles (sm_reservations m r))")
    case True
    with p have "n = m" by (auto simp: reservePrepared_def Let_def split: if_splits)
    then show ?thesis by (rule that(1))
  next
    case False
    obtain ok' x where x: "tracked_reserve bytes (sm_budget m) = (ok', x)" by (cases "tracked_reserve bytes (sm_budget m)")
    show ?thesis
    proof (cases ok')
      case True
      show ?thesis by (rule that(2) [of x]) (use p x False True in \<open>simp_all add: reservePrepared_def Let_def\<close>)
    next
      case ok: False
      show ?thesis by (rule that(1)) (use p x False ok in \<open>simp add: reservePrepared_def Let_def\<close>)
    qed
  qed
  then show ?thesis
  proof cases
    case new
    have lt: "r < N" and inv: "tracked_inv (sm_budget m)" using assms by (auto simp: resv_ok_def)
    note u = reserved_used [OF inv new(2,1)]
    have "sum (resv_charge (sm_reservations n) H) {..<N} = sum (resv_charge (sm_reservations m) H) {..<N}
        - resv_charge (sm_reservations m) H r + resv_charge (sm_reservations n) H r"
      by (rule sum_one [OF lt]) (auto simp: resv_charge_def new(3))
    then have "sum (resv_charge (sm_reservations n) H) {..<N} = tb_used x"
      using u ok assms(2) by (simp add: resv_charge_def new(3) resv_ok_def)
    with u ok new(1) show ?thesis by (auto simp: resv_ok_def new(3))
  qed (use ok in simp)
qed

lemma held_update:
  assumes "queues_ok m" and "length q \<le> maxPendingPushesPerSession" and "resv_ok N H n"
    and "sm_pending p = AList.update k q (sm_pending m)" and "sm_reservations p = sm_reservations n"
    and "sm_budget p = sm_budget n" and "sm_panic p = sm_panic n"
    and "H = kept_refs m - refs_of (pending_of m k) + refs_of q + X"
  shows "held_ok N X p"
proof -
  have d: "distinct (map fst (sm_pending m))" using assms(1) by (simp add: queues_ok_def)
  have "kept_refs p + refs_of (pending_of m k) = refs_of q + kept_refs m"
    using update_refs [OF d, of k q] by (simp add: kept_refs_def assms(4) pending_queue)
  moreover have "refs_of (pending_of m k) \<subseteq># kept_refs m"
    using delete_refs [OF d, of k] by (simp add: kept_refs_def pending_queue)
  ultimately have "kept_refs p = kept_refs m - refs_of (pending_of m k) + refs_of q"
    by (metis add.commute add_diff_cancel_right' subset_mset.add_diff_assoc2)
  moreover have "resv_ok N H p" by (rule resv_same [OF assms(3)]) (simp_all add: assms)
  moreover have "queues_ok p"
    using assms(1,2) by (auto simp: queues_ok_def assms(4) pending_queue distinct_update)
  ultimately show ?thesis by (simp add: held_ok_def assms(8))
qed

lemma pending_refs_sub:
  assumes "queues_ok m"
  shows "refs_of (pending_of m k) \<subseteq># kept_refs m"
  using delete_refs [of "sm_pending m" k] assms by (simp add: kept_refs_def pending_queue queues_ok_def)

lemma queue_held:
  assumes ok: "held_ok N X m" and r: "r \<in># X"
  shows "held_ok N X (snd (queuePreparedLocked now k p r m))"
proof -
  let ?q = "pending_of m k" and ?push = "\<lparr>qp_updates = p, qp_reservation = r, qp_at = now\<rparr>"
  have qok: "queues_ok m" and rok: "resv_ok N (kept_refs m + X) m" using ok by (simp_all add: held_ok_def)
  have keep: "resv_ok N (add_mset r (kept_refs m + X)) (push_retain r m)" by (rule retain_ok [OF rok]) (simp add: r)
  have sub: "refs_of ?q \<subseteq># kept_refs m" by (rule pending_refs_sub [OF qok])
  consider (stale) "?q \<noteq> [] \<and> now - qp_at (hd ?q) > pendingPushMaxAge"
    | (full) "\<not> (?q \<noteq> [] \<and> now - qp_at (hd ?q) > pendingPushMaxAge)" "length ?q \<ge> maxPendingPushesPerSession"
    | (room) "\<not> (?q \<noteq> [] \<and> now - qp_at (hd ?q) > pendingPushMaxAge)" "length ?q < maxPendingPushesPerSession"
    by linarith
  then show ?thesis
  proof cases
    case stale
    then show ?thesis using deletePending_held [OF ok, of k] by (simp add: queuePreparedLocked_def)
  next
    case full
    then obtain h t where q: "?q = h # t" by (cases ?q) (auto simp: maxPendingPushesPerSession_def)
    have len: "length ?q \<le> maxPendingPushesPerSession" using qok unfolding queues_ok_def by blast
    have hin: "qp_reservation h \<in># kept_refs m" using sub q by (simp add: insert_subset_eq_iff)
    have rel: "resv_ok N (add_mset r (kept_refs m + X) - {#qp_reservation h#})
        (push_release (qp_reservation h) (push_retain r m))"
      by (rule resv_release_ok [OF keep]) (use hin in simp)
    have eq: "add_mset r (kept_refs m + X) - {#qp_reservation h#} =
        kept_refs m - refs_of ?q + refs_of (t @ [?push]) + X"
    proof -
      obtain K where K: "kept_refs m = add_mset (qp_reservation h) (refs_of t) + K"
        using sub unfolding q by (auto simp: subset_mset.le_iff_add)
      show ?thesis unfolding K q by simp
    qed
    show ?thesis
    proof (rule held_update [OF qok _ rel _ _ _ _ eq])
      show "sm_pending (snd (queuePreparedLocked now k p r m)) = AList.update k (t @ [?push]) (sm_pending m)"
        using full q by (simp add: queuePreparedLocked_def Let_def)
    qed (use full q len in \<open>simp_all add: queuePreparedLocked_def Let_def\<close>)
  next
    case room
    have eq: "add_mset r (kept_refs m + X) = kept_refs m - refs_of ?q + refs_of (?q @ [?push]) + X"
      using sub by (simp add: subset_mset.diff_add)
    show ?thesis
      by (rule held_update [OF qok _ keep _ _ _ _ eq]) (use room in \<open>auto simp: queuePreparedLocked_def Let_def\<close>)
  qed
qed

lemma scan_queue_held:
  assumes "held_ok N X m" and "\<forall>i. r = Some i \<longrightarrow> i \<in># X"
  shows "held_ok N X (snd (snd (scan_queue f now p r es m)))"
  using assms
proof (induction es arbitrary: m)
  case (Cons e es)
  show ?case using Cons.IH [OF _ Cons.prems(2)] Cons.prems queue_held [OF Cons.prems(1)]
    by (cases e; cases r) (simp_all add: split_beta)
qed simp

lemma session_queue_held:
  assumes "held_ok N X m" and "r \<in># X"
  shows "held_ok N X (snd (queueOrSendPrepared now k p r m))"
  using assms queue_held [OF assms, of now k p] by (simp add: queueOrSendPrepared_def split: option.split)

lemma take_held:
  assumes ok: "held_ok N X m" and t: "takePendingLocked now k m = (batch, n)"
  shows "held_ok N (refs_of batch + X) n"
proof (cases "pending_of m k = []")
  case True
  with t ok show ?thesis by (simp add: takePendingLocked_def)
next
  case False
  let ?q = "pending_of m k"
  let ?m = "m\<lparr>sm_pending := AList.delete k (sm_pending m)\<rparr>"
  have b: "batch = filter (\<lambda>x. \<not> stale_push now x) ?q" and n: "n = releaseQueuedPushes (filter (stale_push now) ?q) ?m"
    using t False by (auto simp: takePendingLocked_def Let_def)
  have qok: "queues_ok m" and d: "distinct (map fst (sm_pending m))" using ok by (simp_all add: held_ok_def queues_ok_def)
  have "refs_of (filter (stale_push now) q) + refs_of (filter (\<lambda>x. \<not> stale_push now x) q) = refs_of q" for q :: "'a queued_push list"
    by (induction q) simp_all
  from this [of ?q] have "kept_refs m = refs_of (filter (stale_push now) ?q) + refs_of batch + kept_refs ?m"
    using delete_refs [OF d, of k] by (simp add: kept_refs_def pending_queue b)
  then have "resv_ok N (refs_of (filter (stale_push now) ?q) + (kept_refs ?m + (refs_of batch + X))) m"
    using ok by (simp add: held_ok_def ac_simps)
  from releases_ok [OF resv_same [OF this, of ?m]] have "resv_ok N (kept_refs n + (refs_of batch + X)) n"
    by (simp add: n kept_refs_def)
  moreover have "queues_ok n"
    using qok d by (auto simp: queues_ok_def n pending_queue distinct_delete)
  ultimately show ?thesis by (simp add: held_ok_def)
qed

lemma held_release:
  assumes "held_ok N (refs_of qs + X) m"
  shows "held_ok N X (releaseQueuedPushes qs m)"
proof -
  have "resv_ok N (refs_of qs + (kept_refs m + X)) m" using assms by (simp add: held_ok_def ac_simps)
  from releases_ok [OF this] show ?thesis
    using assms by (simp add: held_ok_def queues_ok_def kept_refs_def pending_of_def)
qed

lemma held_release_one:
  assumes "held_ok N (add_mset r X) m"
  shows "held_ok N X (push_release r m)"
proof -
  have "resv_ok N (add_mset r (kept_refs m + X)) m" using assms by (simp add: held_ok_def)
  from resv_release_ok [OF this, of r] show ?thesis
    using assms by (simp add: held_ok_def queues_ok_def kept_refs_def pending_of_def)
qed

section \<open>Flush workers\<close>

fun flusher_batch :: "'p flusher \<Rightarrow> 'p queued_push list" where
  "flusher_batch (FlTake c k u n) = []"
| "flusher_batch (FlCheck c k u n batch) = batch"
| "flusher_batch (FlSend c k u n batch) = batch"
| "flusher_batch (FlRequeue c k u n batch) = batch"
| "flusher_batch FlDone = []"

abbreviation flusher_refs :: "'p flusher \<Rightarrow> nat multiset" where
  "flusher_refs f \<equiv> refs_of (flusher_batch f)"

text \<open>A worker about to send holds at least the item it sends.\<close>

fun flusher_wf :: "'p flusher \<Rightarrow> bool" where
  "flusher_wf (FlSend c k u n batch) = (batch \<noteq> [])"
| "flusher_wf (FlRequeue c k u n batch) = (batch \<noteq> [])"
| "flusher_wf _ = True"

lemma flush_take_held:
  assumes "held_ok N X m" and "flush_take now c k u n m = (f, m')"
  shows "held_ok N (flusher_refs f + X) m' \<and> flusher_wf f"
proof -
  obtain batch x where t: "takePendingLocked now k m = (batch, x)" by (cases "takePendingLocked now k m")
  note h = take_held [OF assms(1) t]
  have a: "held_ok N X (activate c k x)" if "batch = []"
    using h that by (auto simp: activate_def intro: drops_held drops_rules)
  have s: "held_ok N X (stop_flushing k (deletePendingLocked k m))"
    by (rule drops_held [OF _ assms(1)]) (intro drops_rules)
  show ?thesis using assms t h a s by (auto simp: flush_take_def split: if_splits)
qed

lemma flush_check_held:
  assumes "held_ok N (refs_of batch + X) m" and "flush_check c k u n batch m = (f, m')"
  shows "held_ok N (flusher_refs f + X) m' \<and> flusher_wf f"
proof -
  have s: "held_ok N (refs_of batch + X) (stop_flushing k (deletePendingLocked k m))"
    by (rule drops_held [OF _ assms(1)]) (intro drops_rules)
  show ?thesis using assms held_release [OF s] by (auto simp: flush_check_def split: if_splits)
qed

lemma flush_error_held:
  assumes "held_ok N X m" and "r \<in># X" and "flush_error enc sent r m = (e, n)"
  shows "held_ok N X n"
proof (cases enc)
  case (EncodeFailed x)
  with assms show ?thesis by (simp add: flush_error_def)
next
  case (Encoded profile bytes)
  obtain b x where p: "reservePrepared r profile bytes m = (b, x)" by (cases "reservePrepared r profile bytes m")
  have n: "n = x" using assms(3) Encoded p by (cases b) (simp_all add: flush_error_def)
  have "resv_ok N (kept_refs m + X) m" and q: "queues_ok m" using assms(1) by (simp_all add: held_ok_def)
  from reservePrepared_held [OF this(1) _ p] assms(2) have "resv_ok N (kept_refs m + X) x" "sm_pending x = sm_pending m" by simp_all
  then show ?thesis using q by (simp add: n held_ok_def queues_ok_def kept_refs_def pending_of_def)
qed

lemma flush_send_held:
  assumes ok: "held_ok N (refs_of batch + X) m" and ne: "batch \<noteq> []"
    and f: "flush_send enc sent c k u n batch m = (f, m')"
  shows "held_ok N (flusher_refs f + X) m' \<and> flusher_wf f"
proof -
  obtain q qs where b: "batch = q # qs" using ne by (cases batch) auto
  obtain e x where p: "flush_error enc sent (qp_reservation q) m = (e, x)" by (cases "flush_error enc sent (qp_reservation q) m")
  have h: "held_ok N (refs_of batch + X) x" by (rule flush_error_held [OF ok _ p]) (simp add: b)
  have one: "held_ok N (refs_of qs + X) (push_release (qp_reservation q) x)"
    using held_release_one [of N "qp_reservation q" "refs_of qs + X" x] h by (simp add: b)
  have "held_ok N (refs_of batch + X) (on_conn (\<lambda>d. (conn_retire d)\<lparr>mc_open := False\<rparr>) c x)"
    by (rule drops_held [OF _ h]) (intro drops_rules)
  note all = held_release [OF this]
  have p': "flush_error enc sent (qp_reservation (hd batch)) m = (e, x)" using p by (simp add: b)
  consider (sent) "e = None" | (stale) y where "e = Some y" "isOutboundStaleLayerEpoch y"
    | (layer) y where "e = Some y" "\<not> isOutboundStaleLayerEpoch y" "isOutboundLayerProfileError y"
    | (failed) y where "e = Some y" "\<not> isOutboundStaleLayerEpoch y" "\<not> isOutboundLayerProfileError y"
    by (cases e) auto
  then show ?thesis
  proof cases
    case sent
    with f p' have "f = FlCheck c k u n qs" "m' = push_release (qp_reservation q) x" by (auto simp: flush_send_def b)
    with one show ?thesis by simp
  next
    case stale
    with f p' have "f = FlCheck c k u n qs" "m' = push_release (qp_reservation q) x" by (auto simp: flush_send_def b)
    with one show ?thesis by simp
  next
    case layer
    with f p' have "f = FlDone" "m' = releaseQueuedPushes batch (on_conn (\<lambda>d. (conn_retire d)\<lparr>mc_open := False\<rparr>) c x)"
      by (auto simp: flush_send_def)
    with all show ?thesis by simp
  next
    case failed
    with f p' have "f = FlRequeue c k u n batch" "m' = x" by (auto simp: flush_send_def)
    with h ne show ?thesis by simp
  qed
qed

lemma requeue_held:
  assumes ok: "held_ok N (refs_of batch + X) m" and rest: "rest = batch @ pending_of m k"
    and d: "d = length rest - maxPendingPushesPerSession"
  shows "held_ok N X ((releaseQueuedPushes (take d rest) m)\<lparr>sm_pending := AList.update k (drop d rest) (sm_pending m)\<rparr>)"
proof -
  have q: "queues_ok m" and r: "resv_ok N (kept_refs m + (refs_of batch + X)) m" using ok by (simp_all add: held_ok_def)
  obtain K where K: "kept_refs m = refs_of (pending_of m k) + K"
    using pending_refs_sub [OF q, of k] by (auto simp: subset_mset.le_iff_add)
  have split: "refs_of (take d rest) + refs_of (drop d rest) = refs_of batch + refs_of (pending_of m k)"
    using refs_of_simps(3) [of "take d rest" "drop d rest"] refs_of_simps(3) [of batch "pending_of m k"]
    by (simp only: append_take_drop_id rest)
  have "kept_refs m + (refs_of batch + X) = (refs_of batch + refs_of (pending_of m k)) + (K + X)"
    unfolding K by (simp add: ac_simps)
  also have "\<dots> = refs_of (take d rest) + (refs_of (drop d rest) + K + X)"
    unfolding split [symmetric] by (simp add: ac_simps)
  finally have eq: "kept_refs m + (refs_of batch + X) = refs_of (take d rest) + (refs_of (drop d rest) + K + X)" .
  have "resv_ok N (refs_of (take d rest) + (refs_of (drop d rest) + K + X)) m" using r unfolding eq .
  note rel = releases_ok [OF this]
  have len: "length (drop d rest) \<le> maxPendingPushesPerSession" by (simp add: d)
  have H: "refs_of (drop d rest) + K + X = kept_refs m - refs_of (pending_of m k) + refs_of (drop d rest) + X"
    unfolding K by (simp add: ac_simps)
  show ?thesis by (rule held_update [OF q len rel _ _ _ _ H]) simp_all
qed

lemma flush_requeue_held:
  assumes ok: "held_ok N (refs_of batch + X) m" and f: "flush_requeue c k u n batch m = (f, m')"
  shows "held_ok N (flusher_refs f + X) m' \<and> flusher_wf f"
proof (cases "owner_of m k \<noteq> Some c \<or> \<not> sm_flushing m k \<or> mc_user (sm_conns m c) \<noteq> u")
  case True
  have s: "held_ok N (refs_of batch + X) (if mc_user (sm_conns m c) \<noteq> u then stop_flushing k (deletePendingLocked k m) else m)"
    by (rule drops_held [OF _ ok]) (auto intro!: drops_rules)
  have "flush_requeue c k u n batch m = (FlDone, releaseQueuedPushes batch
      (if mc_user (sm_conns m c) \<noteq> u then stop_flushing k (deletePendingLocked k m) else m))"
    unfolding flush_requeue_def using True by (simp only: if_True)
  with f held_release [OF s] show ?thesis by simp
next
  case False
  define rest where "rest = batch @ pending_of m k"
  define d where "d = length rest - maxPendingPushesPerSession"
  define m1 where "m1 = (releaseQueuedPushes (take d rest) m)\<lparr>sm_pending := AList.update k (drop d rest) (sm_pending m)\<rparr>"
  have h: "held_ok N X m1" unfolding m1_def by (rule requeue_held [OF ok rest_def d_def])
  have g: "held_ok N X (stop_flushing k (deletePendingLocked k (on_conn (\<lambda>d. d\<lparr>mc_receives := True\<rparr>) c m1)))"
    by (rule drops_held [OF _ h]) (intro drops_rules)
  have "flush_requeue c k u n batch m = (if n + 1 \<ge> maxFlushAttempts
      then (FlDone, stop_flushing k (deletePendingLocked k (on_conn (\<lambda>d. d\<lparr>mc_receives := True\<rparr>) c m1)))
      else (FlTake c k u (n + 1), m1))"
    unfolding flush_requeue_def rest_def [symmetric] Let_def d_def [symmetric] m1_def [symmetric] using False by (simp only: if_False)
  with f h g show ?thesis by (auto split: if_splits)
qed

section \<open>The world\<close>

definition world_refs :: "'p push_world \<Rightarrow> nat multiset" where
  "world_refs w = mset (pw_producers w) + (\<Sum>f\<leftarrow>pw_flushers w. flusher_refs f)"

definition held_inv :: "'p push_world \<Rightarrow> bool" where
  "held_inv w \<longleftrightarrow> held_ok (pw_next w) (world_refs w) (pw_mgr w) \<and> (\<forall>f\<in>set (pw_flushers w). flusher_wf f)"

lemma flushers_split:
  assumes "i < length fs"
  shows "(\<Sum>f\<leftarrow>fs. flusher_refs f) = flusher_refs (fs ! i) + ((\<Sum>f\<leftarrow>take i fs. flusher_refs f) + (\<Sum>f\<leftarrow>drop (Suc i) fs. flusher_refs f))"
    and "(\<Sum>f\<leftarrow>fs[i := x]. flusher_refs f) = flusher_refs x + ((\<Sum>f\<leftarrow>take i fs. flusher_refs f) + (\<Sum>f\<leftarrow>drop (Suc i) fs. flusher_refs f))"
proof -
  have "fs = take i fs @ fs ! i # drop (Suc i) fs" by (rule id_take_nth_drop [OF assms])
  then have "(\<Sum>f\<leftarrow>fs. flusher_refs f) = (\<Sum>f\<leftarrow>take i fs @ fs ! i # drop (Suc i) fs. flusher_refs f)" by simp
  then show "(\<Sum>f\<leftarrow>fs. flusher_refs f) = flusher_refs (fs ! i) + ((\<Sum>f\<leftarrow>take i fs. flusher_refs f) + (\<Sum>f\<leftarrow>drop (Suc i) fs. flusher_refs f))"
    by (simp add: ac_simps)
  show "(\<Sum>f\<leftarrow>fs[i := x]. flusher_refs f) = flusher_refs x + ((\<Sum>f\<leftarrow>take i fs. flusher_refs f) + (\<Sum>f\<leftarrow>drop (Suc i) fs. flusher_refs f))"
    by (simp add: upd_conv_take_nth_drop [OF assms] ac_simps)
qed

lemma flusher_step_held:
  assumes inv: "held_inv w" and i: "i < length (pw_flushers w)"
    and step: "\<And>N X. held_ok N (flusher_refs (pw_flushers w ! i) + X) (pw_mgr w) \<Longrightarrow> held_ok N (flusher_refs f + X) m \<and> flusher_wf f"
    and w': "pw_mgr w' = m" "pw_flushers w' = (pw_flushers w)[i := f]" "pw_producers w' = pw_producers w" "pw_next w' = pw_next w"
  shows "held_inv w'"
proof -
  let ?fs = "pw_flushers w"
  let ?X = "mset (pw_producers w) + ((\<Sum>f\<leftarrow>take i ?fs. flusher_refs f) + (\<Sum>f\<leftarrow>drop (Suc i) ?fs. flusher_refs f))"
  have "world_refs w = flusher_refs (?fs ! i) + ?X"
    unfolding world_refs_def flushers_split(1) [OF i] by (simp add: ac_simps)
  with inv have "held_ok (pw_next w) (flusher_refs (?fs ! i) + ?X) (pw_mgr w)" by (simp add: held_inv_def)
  from step [OF this] have "held_ok (pw_next w) (flusher_refs f + ?X) m" "flusher_wf f" by simp_all
  moreover have "world_refs w' = flusher_refs f + ?X"
    unfolding world_refs_def w' flushers_split(2) [OF i] by (simp add: ac_simps)
  moreover have "\<forall>g\<in>set (?fs[i := f]). flusher_wf g"
    using inv calculation(2) set_update_subset_insert [of ?fs i f] by (auto simp: held_inv_def)
  ultimately show ?thesis by (simp add: held_inv_def w')
qed

lemma held_drops:
  assumes "held_inv w" and "drops (pw_mgr w) m"
  shows "held_inv (w\<lparr>pw_mgr := m\<rparr>)"
  using assms drops_held by (simp add: held_inv_def world_refs_def) blast

lemma reordered_held:
  assumes "held_ok N X m" and "reordered m n"
  shows "held_ok N X n"
proof -
  obtain os cl ca ak bu us pe where n: "n = m\<lparr>sm_bySession := os, sm_claims := cl, sm_claimsByAuth := ca,
      sm_byAuthKey := ak, sm_byBusiness := bu, sm_byUser := us, sm_pending := pe\<rparr>"
    and p: "mset pe = mset (sm_pending m)"
    using assms(2) unfolding reordered_def by blast
  have d: "distinct (map fst (sm_pending m))" using assms(1) by (simp add: held_ok_def queues_ok_def)
  note s = map_of_mset [OF p d]
  have "mset (concat (map snd pe)) = (\<Sum>x\<in>#mset pe. mset (snd x))" for pe :: "(session_key \<times> 'a queued_push list) list"
    by (induction pe) simp_all
  then have "mset (concat (map snd pe)) = mset (concat (map snd (sm_pending m)))" using p by simp
  then have "kept_refs n = kept_refs m" by (simp add: kept_refs_def refs_of_def n)
  moreover have "pending_of n = pending_of m" using s by (simp add: fun_eq_iff pending_of_def n)
  moreover have "resv_ok N (kept_refs m + X) n" by (rule resv_same [of N _ m]) (use assms(1) in \<open>simp_all add: held_ok_def n\<close>)
  ultimately show ?thesis using assms(1) s by (simp add: held_ok_def queues_ok_def) (simp add: n)
qed

lemma push_send_drops: "drops m (snd (push_send c res acc m))"
  by (auto simp: push_send_def Let_def split_beta intro!: drops_rules split: push_result.split)

lemma world_step_held:
  assumes "world_step bound fu w w'" and inv: "held_inv w"
  shows "held_inv w'"
  using assms(1)
proof (cases rule: world_step.cases)
  case (command cmd m)
  then show ?thesis using held_drops [OF inv run_command_drops] by (simp add: held_inv_def world_refs_def)
next
  case (reorder m)
  then show ?thesis using inv reordered_held by (simp add: held_inv_def world_refs_def) blast
next
  case (set_receives k b start m)
  have "held_ok (pw_next w) (world_refs w) m"
    using receives_held [of "pw_next w" "world_refs w" "pw_mgr w" k b] set_receives(2) inv by (simp add: held_inv_def)
  moreover have "flusher_refs f = {#} \<and> flusher_wf f" if "start = Some f" for f
    using that set_receives(2) by (auto simp: SetReceivesUpdatesForAuthKey_def split: option.splits prod.splits)
  ultimately show ?thesis using inv set_receives(1)
    by (cases start) (auto simp: held_inv_def world_refs_def)
next
  case (prepare bytes r m)
  then show ?thesis using prepare_held [of "pw_next w" "world_refs w" "pw_mgr w" bytes r m] inv
    by (simp add: held_inv_def world_refs_def)
next
  case (push_user f now u p r cs q m)
  have "held_ok (pw_next w) (world_refs w) (snd (snd (scan_queue f now p r (sm_byUser (pw_mgr w) u) (pw_mgr w))))"
    by (rule scan_queue_held) (use inv push_user in \<open>auto simp: held_inv_def world_refs_def\<close>)
  then show ?thesis using inv push_user by (simp add: held_inv_def world_refs_def push_rescan_def)
next
  case (push_session now k p r res m)
  have "held_ok (pw_next w) (world_refs w) (snd (queueOrSendPrepared now k p r (pw_mgr w)))"
    by (rule session_queue_held) (use inv push_session in \<open>auto simp: held_inv_def world_refs_def\<close>)
  then show ?thesis using inv push_session by (simp add: held_inv_def world_refs_def)
next
  case (producer_done r)
  have "world_refs w = add_mset r (mset (remove1 r (pw_producers w)) + (\<Sum>f\<leftarrow>pw_flushers w. flusher_refs f))"
    using producer_done by (simp add: world_refs_def)
  then have "held_ok (pw_next w) (mset (remove1 r (pw_producers w)) + (\<Sum>f\<leftarrow>pw_flushers w. flusher_refs f))
      (push_release r (pw_mgr w))"
    using inv held_release_one unfolding held_inv_def by metis
  then show ?thesis using inv producer_done by (simp add: held_inv_def world_refs_def)
next
  case (send_result c p mark res acc acc' m)
  then show ?thesis using held_drops [OF inv, of m] push_send_drops [of "pw_mgr w" c res acc] by (simp add: held_inv_def world_refs_def)
next
  case (flush_takes i c k u n now f m)
  show ?thesis
    by (rule flusher_step_held [OF inv flush_takes(2)])
      (use flush_takes flush_take_held in \<open>simp_all add: flush_takes(1)\<close>)
next
  case (flush_checks i c k u n batch f m)
  show ?thesis
    by (rule flusher_step_held [OF inv flush_checks(2)])
      (use flush_checks flush_check_held in \<open>simp_all add: flush_checks(1)\<close>)
next
  case (flush_sends i c k u n batch enc sent f m)
  have ne: "batch \<noteq> []" using inv flush_sends(2,3) nth_mem [of i "pw_flushers w"] by (force simp: held_inv_def)
  show ?thesis
    by (rule flusher_step_held [OF inv flush_sends(2)])
      (use flush_sends flush_send_held [OF _ ne] in \<open>simp_all add: flush_sends(1)\<close>)
next
  case (flush_requeues i c k u n batch f m)
  show ?thesis
    by (rule flusher_step_held [OF inv flush_requeues(2)])
      (use flush_requeues flush_requeue_held in \<open>simp_all add: flush_requeues(1)\<close>)
qed (use inv in \<open>simp_all add: held_inv_def world_refs_def\<close>)

lemma reach_held:
  assumes "world_reach bound fu w"
  shows "held_inv w"
  using assms
proof induction
  case (start cs)
  show ?case
    by (simp add: held_inv_def held_ok_def queues_ok_def resv_ok_def world_refs_def world_start_def NewSessionManager_def
        kept_refs_def pending_of_def newOutboundTrackedBudget_def tracked_inv_def defaultPendingPushMaxBytes_def)
next
  case (step w w')
  then show ?case using world_step_held by blast
qed

end
