(* ===== verification/Session_Accounts.thy ===== *)
theory Session_Accounts
  imports Session_Kept_World
begin

text \<open>
  Kept pushes never cross accounts. A connection whose business auth key is resolved holds in its
  queue only what belongs to the user it is bound to; a change of identity empties the queue, and a
  replacement connection starts unresolved.
\<close>

section \<open>Queues and identities\<close>

definition mine :: "('p \<Rightarrow> int) \<Rightarrow> int \<Rightarrow> 'p queued_push list \<Rightarrow> bool" where
  "mine fu u qs \<longleftrightarrow> (\<forall>q\<in>set qs. fu (qp_updates q) = 0 \<or> fu (qp_updates q) = u)"

definition resolved_owner :: "'p session_manager \<Rightarrow> session_key \<Rightarrow> nat \<Rightarrow> bool" where
  "resolved_owner m k c \<longleftrightarrow> owner_of m k = Some c \<and> mc_business (sm_conns m c) \<noteq> None"

definition account_ok :: "('p \<Rightarrow> int) \<Rightarrow> 'p session_manager \<Rightarrow> bool" where
  "account_ok fu m \<longleftrightarrow> (\<forall>k c. resolved_owner m k c \<longrightarrow> mine fu (mc_user (sm_conns m c)) (pending_of m k))
     \<and> (\<forall>k. sm_flushing m k \<longrightarrow> (\<exists>c. resolved_owner m k c))"

lemma mine_simps [simp]: "mine fu u []" "mine fu u (q # qs) = ((fu (qp_updates q) = 0 \<or> fu (qp_updates q) = u) \<and> mine fu u qs)"
  "mine fu u (xs @ ys) = (mine fu u xs \<and> mine fu u ys)"
  by (auto simp: mine_def)

lemma mine_subset: "mine fu u xs \<Longrightarrow> set ys \<subseteq> set xs \<Longrightarrow> mine fu u ys"
  by (auto simp: mine_def)

lemma account_owner: "account_ok fu m \<Longrightarrow> resolved_owner m k c \<Longrightarrow> mine fu (mc_user (sm_conns m c)) (pending_of m k)"
  and account_flush: "account_ok fu m \<Longrightarrow> sm_flushing m k \<Longrightarrow> \<exists>c. resolved_owner m k c"
  unfolding account_ok_def by blast+

lemma account_okI:
  assumes "\<And>k c. resolved_owner m k c \<Longrightarrow> mine fu (mc_user (sm_conns m c)) (pending_of m k)"
    and "\<And>k. sm_flushing m k \<Longrightarrow> \<exists>c. resolved_owner m k c"
  shows "account_ok fu m"
  unfolding account_ok_def using assms by blast

text \<open>A step that removes owners at most, keeps the identity of the rest, and stops the flushes of those it removes.\<close>

definition keeps_owners :: "'p session_manager \<Rightarrow> 'p session_manager \<Rightarrow> bool" where
  "keeps_owners m n \<longleftrightarrow>
     (\<forall>k c. resolved_owner n k c \<longrightarrow> resolved_owner m k c \<and> mc_user (sm_conns n c) = mc_user (sm_conns m c))
     \<and> (\<forall>k c. sm_flushing n k \<longrightarrow> resolved_owner m k c \<longrightarrow> resolved_owner n k c)"

definition benign :: "'p session_manager \<Rightarrow> 'p session_manager \<Rightarrow> bool" where
  "benign m n \<longleftrightarrow> drops m n \<and> keeps_owners m n"

lemma benign_refl: "benign m m"
  by (simp add: benign_def keeps_owners_def drops_refl)

lemma benign_trans: "benign m n \<Longrightarrow> benign n p \<Longrightarrow> benign m p"
  unfolding benign_def keeps_owners_def by (metis drops_trans drops_flushing)

lemma benign_account:
  assumes "benign m n" and "account_ok fu m"
  shows "account_ok fu n"
proof (rule account_okI)
  have d: "drops m n" and k: "keeps_owners m n" using assms(1) by (simp_all add: benign_def)
  show "mine fu (mc_user (sm_conns n c)) (pending_of n k)" if "resolved_owner n k c" for k c
  proof -
    have "resolved_owner m k c" "mc_user (sm_conns n c) = mc_user (sm_conns m c)"
      using k that unfolding keeps_owners_def by blast+
    then have "mine fu (mc_user (sm_conns n c)) (pending_of m k)" using account_owner [OF assms(2)] by simp
    with drops_pending [OF d, of k] show ?thesis by auto
  qed
  show "\<exists>c. resolved_owner n k c" if "sm_flushing n k" for k
    using account_flush [OF assms(2) drops_flushing [OF d that]] k that unfolding keeps_owners_def by blast
qed

lemma resolved_registry:
  "resolved_owner m k c \<longleftrightarrow> map_of (rg_owner (registry_of m)) k = Some c \<and> id_business (rg_ident (registry_of m) c) \<noteq> None"
  by (simp add: resolved_owner_def)

lemma user_registry: "mc_user (sm_conns m c) = id_user (rg_ident (registry_of m) c)"
  by simp

lemma benign_same:
  assumes "drops m n" and "map_of (rg_owner (registry_of n)) = map_of (rg_owner (registry_of m))"
    and "\<And>c. id_business (rg_ident (registry_of n) c) = id_business (rg_ident (registry_of m) c)"
    and "\<And>c. id_user (rg_ident (registry_of n) c) = id_user (rg_ident (registry_of m) c)"
  shows "benign m n"
  unfolding benign_def keeps_owners_def resolved_registry user_registry assms(2-4) using assms(1) by simp

lemma benign_registry: "drops m n \<Longrightarrow> registry_of n = registry_of m \<Longrightarrow> benign m n"
  by (rule benign_same) (simp_all only:)

lemma benign_retired:
  assumes "drops m n" and "registry_of n = rg_retire c (registry_of m)"
  shows "benign m n"
  by (rule benign_same [OF assms(1)]) (simp_all add: assms(2))

section \<open>Removing\<close>

lemma removeLocked_benign: "benign m (snd (removeLocked c dp m))"
proof (cases "owner_of m (conn_key m c) = Some c")
  case True
  let ?n = "snd (removeLocked c dp m)"
  have f: "\<not> sm_flushing ?n (conn_key m c)" using True by (simp add: removeLocked_def Let_def)
  have r: "registry_of ?n = rg_removeOwner (conn_key m c) c (registry_of m)" using True by (simp add: removeLocked_registry)
  have o: "resolved_owner ?n k d \<longleftrightarrow> k \<noteq> conn_key m c \<and> resolved_owner m k d" for k d
    unfolding resolved_registry r by simp
  have u: "mc_user (sm_conns ?n d) = mc_user (sm_conns m d)" for d unfolding user_registry r by simp
  have "drops m ?n" by (intro drops_rules)
  then show ?thesis unfolding benign_def keeps_owners_def o u using f by blast
next
  case False
  then have "snd (removeLocked c dp m) = m" by (simp add: removeLocked_def)
  then show ?thesis by (simp add: benign_refl)
qed

lemma retire_benign: "benign m (retire_conn c m)"
  by (rule benign_retired) (auto simp: registry_frame intro: drops_rules)

lemma retireConn_benign: "benign m (snd (retireConnLocked c dp m))"
  unfolding retireConnLocked_def by (rule benign_trans [OF retire_benign removeLocked_benign])

lemma retireClaim_benign: "benign m (retireClaimLocked k c dp m)"
  by (rule benign_same) (auto simp: retireClaim_registry rg_removeClaim_def intro: drops_rules)

lemma removeClaim_benign: "benign m (removeClaimLocked k c m)"
  by (rule benign_same) (auto simp: registry_frame rg_removeClaim_def intro: drops_rules)

lemma addClaim_benign: "benign m (addClaimLocked k c m)"
  by (rule benign_same) (auto simp: registry_frame rg_addClaim_def intro: drops_rules)

lemma evict_one_benign: "benign m (evict_one a v m)"
  by (auto simp: evict_one_def retireClaim_benign retireConn_benign split: prod.split)

lemma evict_over_cap_benign:
  assumes "evict_over_cap c a m = Some (cs, p)"
  shows "benign m p"
  using assms
proof (induction "auth_load a m" arbitrary: m cs rule: less_induct)
  case less
  show ?case
  proof (cases "auth_load a m < maxSessionsPerAuthKey \<or> oldestAuthOwnerLocked a c m = None")
    case True
    then have "evict_over_cap c a m = Some ([], m)" by (subst evict_over_cap.simps) auto
    with less.prems show ?thesis by (simp add: benign_refl)
  next
    case False
    then obtain v where v: "oldestAuthOwnerLocked a c m = Some v" by auto
    from less.prems(1) False v have lt: "auth_load a (evict_one a v m) < auth_load a m"
      and "\<exists>ds. evict_over_cap c a (evict_one a v m) = Some (ds, p)"
      by (subst (asm) evict_over_cap.simps, auto simp: Let_def split: if_splits)+
    then show ?thesis using less.hyps [OF lt] benign_trans [OF evict_one_benign] by blast
  qed
qed

lemma take_over_benign: "benign m (snd (take_over c m))"
proof -
  let ?k = "conn_key m c"
  define m1 where "m1 = (case claim_of m ?k of None \<Rightarrow> m | Some d \<Rightarrow> if d = c then m else retireClaimLocked ?k d False m)"
  have "benign m m1" by (auto simp: m1_def benign_refl retireClaim_benign split: option.split)
  moreover have "snd (take_over c m) = (case owner_of m1 ?k of None \<Rightarrow> m1
      | Some d \<Rightarrow> if d = c then m1 else snd (retireConnLocked d False m1))"
    by (simp add: take_over_def Let_def m1_def split_beta split: option.split)
  moreover have "benign m1 (case owner_of m1 ?k of None \<Rightarrow> m1 | Some d \<Rightarrow> if d = c then m1 else snd (retireConnLocked d False m1))"
    by (simp add: benign_refl retireConn_benign split: option.split)
  ultimately show ?thesis using benign_trans by simp
qed

lemma begin_locked_benign:
  assumes "begin_locked c m = Some (res, n)"
  shows "benign m n"
proof (cases "\<not> mc_open (sm_conns m c) \<or> mc_life (sm_conns m c) \<noteq> Claiming")
  case True
  with assms show ?thesis by (auto simp: begin_locked_def retire_benign)
next
  case False
  with assms obtain es x where "evict_over_cap c (fst (conn_key m c)) (snd (take_over c m)) = Some (es, x)"
    and "n = addClaimLocked (conn_key m c) c x"
    by (auto simp: begin_locked_def Let_def split_beta)
  then show ?thesis
    using benign_trans [OF benign_trans [OF take_over_benign evict_over_cap_benign] addClaim_benign] by simp
qed

lemma begin_claim_benign: "benign m (snd (begin_claim race c m))"
proof -
  obtain b d where p: "conn_beginActivationClaim race (sm_conns m c) = (b, d)"
    by (cases "conn_beginActivationClaim race (sm_conns m c)")
  have i: "id_business (ident_of d) = id_business (ident_of (sm_conns m c))" "id_user (ident_of d) = id_user (ident_of (sm_conns m c))"
    using begin_ident [OF p] by auto
  have n: "snd (begin_claim race c m) = on_conn (\<lambda>_. d) c m" by (simp add: begin_claim_def p)
  show ?thesis unfolding n
    by (rule benign_same) (use i in \<open>auto simp: registry_of_def intro: drops_rules\<close>)
qed

lemma Abort_benign: "benign m (snd (AbortActivation now c m))"
proof (rule benign_same)
  show "drops m (snd (AbortActivation now c m))" by (intro drops_rules)
  have r: "registry_of (snd (AbortActivation now c m)) =
      (if claim_of m (conn_key m c) = Some c then rg_removeClaim (conn_key m c) (rg_retire c (registry_of m)) else registry_of m)"
    by (simp add: AbortActivation_def Let_def registry_frame)
  show "map_of (rg_owner (registry_of (snd (AbortActivation now c m)))) = map_of (rg_owner (registry_of m))"
    "id_business (rg_ident (registry_of (snd (AbortActivation now c m))) d) = id_business (rg_ident (registry_of m) d)"
    "id_user (rg_ident (registry_of (snd (AbortActivation now c m))) d) = id_user (rg_ident (registry_of m) d)" for d
    unfolding r by (simp_all add: rg_removeClaim_def)
qed

lemma Unregister_benign: "benign m (snd (Unregister now c m))"
proof -
  let ?m = "retire_conn c m" and ?k = "conn_key m c"
  define m1 where "m1 = (if claim_of ?m ?k = Some c
    then stop_flushing ?k (deletePendingLocked ?k (removeClaimLocked ?k c ?m)) else ?m)"
  have rest: "benign x (stop_flushing k (deletePendingLocked k x))" for k and x :: "'a session_manager"
    by (rule benign_registry) (auto simp: registry_frame intro: drops_rules)
  have "benign ?m m1" unfolding m1_def using benign_trans [OF removeClaim_benign rest] benign_refl by auto
  then have c1: "benign m m1" by (rule benign_trans [OF retire_benign])
  define m2 where "m2 = (if owner_of m1 ?k = Some c then snd (removeLocked c True m1) else m1)"
  have c2: "benign m1 m2" unfolding m2_def using removeLocked_benign benign_refl by auto
  have c3: "benign m2 (markLogicalSessionOfflineLocked ?k now m2)"
    by (rule benign_registry) (auto simp: registry_frame intro: drops_rules)
  have "snd (Unregister now c m) = markLogicalSessionOfflineLocked ?k now m2"
    unfolding Unregister_def Let_def retire_key m1_def [symmetric] m2_def by (simp add: split_beta)
  with benign_trans [OF benign_trans [OF c1 c2] c3] show ?thesis by simp
qed

lemma Destroy_benign: "benign m (snd (snd (snd (DestroySessionForAuthKey a sid m))))"
proof -
  have d: "benign x (snd (destroyLogicalSessionLocked k x))" for k and x :: "'a session_manager"
    by (rule benign_registry) (auto simp: registry_frame intro: drops_rules)
  have del: "benign m (deletePendingLocked k m)" for k
    by (rule benign_registry) (auto simp: registry_frame intro: drops_rules)
  show ?thesis unfolding DestroySessionForAuthKey_def Let_def
    using benign_trans [OF retireConn_benign d] benign_trans [OF retireClaim_benign d] benign_trans [OF del d]
    by (simp add: split_beta split: option.split)
qed

lemma fold_benign:
  assumes "\<And>e x. benign m (f x) \<Longrightarrow> benign m (f (g e x))" and "benign m (f x)"
  shows "benign m (f (fold g es x))"
  using assms by (induction es arbitrary: x) auto

lemma close_benign:
  "benign m (snd (snd acc)) \<Longrightarrow> benign m (snd (snd (fold (close_owner skip) es acc)))"
  "benign m (snd (snd acc)) \<Longrightarrow> benign m (snd (snd (fold (close_claim skip) es acc)))"
  by (rule fold_benign [where f = "\<lambda>x. snd (snd x)"];
      auto simp: close_owner_def close_claim_def split_beta intro: benign_trans retireConn_benign retireClaim_benign)+

lemma CloseRaw_benign: "benign m (snd (snd (closeSessionsForRawAuthKey a skip m)))"
  by (simp add: closeSessionsForRawAuthKey_def Let_def close_benign benign_refl)

lemma CloseBusiness_benign: "benign m (snd (snd (CloseSessionsForBusinessAuthKey a m)))"
proof -
  let ?skip = "\<lambda>_ c d. \<not> connUsesBusinessAuthKey d a"
  let ?acc = "fold (close_claim ?skip) (sm_claims m) (fold (close_owner ?skip) (businessAuthKeyCandidatesLocked a m) ([], [], m))"
  have "benign m (snd (snd ?acc))" by (intro close_benign) (simp add: benign_refl)
  moreover have "benign x (x\<lparr>sm_logical := y\<rparr>)" for y and x :: "'a session_manager"
    by (rule benign_registry) (auto simp: registry_frame intro: drops_rules)
  ultimately show ?thesis using benign_trans
    by (simp add: CloseSessionsForBusinessAuthKey_def Let_def split_beta) blast
qed

section \<open>Publishing\<close>

lemma publish_account:
  assumes acc: "account_ok fu m" and inv: "registry_inv m" and p: "PublishActivation race c m = (res, n)"
  shows "account_ok fu n"
proof (cases "res = None")
  case True
  let ?k = "conn_key m c"
  note reg = publish_registry [OF inv p]
  have ok: "registry_ok (registry_of m)" using inv by (simp add: registry_inv_def)
  have cl: "claim_of m ?k = Some c" and rn: "registry_of n = rg_activate ?k c (registry_of m)" using reg True by blast+
  have none: "owner_of m ?k = None" using claim_facts(3) [OF ok, of ?k c] cl by simp
  have life: "mc_life (sm_conns m c) = Claiming"
    using p True cl by (auto simp: PublishActivation_def Let_def split: if_splits)
  have fresh: "mc_business (sm_conns m c) = None" using fresh_facts(1) [OF ok, of c] life by simp
  have o: "resolved_owner n k d \<longleftrightarrow> resolved_owner m k d" for k d
    using none fresh unfolding resolved_registry rn by (auto simp: activate_sel)
  have u: "mc_user (sm_conns n d) = mc_user (sm_conns m d)" for d unfolding user_registry rn by (simp add: activate_sel)
  have "drops m n" using activation_drops(4) [of m race c] p by simp
  then have "benign m n" by (simp add: benign_def keeps_owners_def o u)
  then show ?thesis using acc by (rule benign_account)
next
  case False
  obtain b d where pd: "conn_publishActivation race (sm_conns m c) = (b, d)" by (cases "conn_publishActivation race (sm_conns m c)")
  have i: "mc_user d = mc_user (sm_conns m c)" "mc_business d = mc_business (sm_conns m c)"
    using pd by (cases race; auto simp: conn_publishActivation_def Let_def conn_retire_def split: if_splits)+
  have c1: "benign m (on_conn (\<lambda>_. d) c m)"
    by (rule benign_same) (use i in \<open>auto simp: registry_of_def ident_of_def intro: drops_rules\<close>)
  have "benign m n" using False p pd
    by (auto simp: PublishActivation_def Let_def removeClaim_benign benign_refl benign_trans [OF c1 removeClaim_benign]
        benign_trans [OF removeClaim_benign retire_benign] split: if_splits bool.splits)
  then show ?thesis using acc by (rule benign_account)
qed

section \<open>Changes of identity\<close>

lemma clear_pending [simp]: "sm_pending (clearSessionChannelIndexesLocked c k m) = sm_pending m"
  "sm_flushing (clearSessionChannelIndexesLocked c k m) = sm_flushing m"
  by (simp_all add: clearSessionChannelIndexesLocked_def clearChannelInterestsLocked_def clearChannelMembershipsLocked_def
      on_conn_def Let_def)

lemma drop_state_fields [simp]:
  "sm_pending (drop_session_state c k m) = AList.delete k (sm_pending m)"
  "sm_flushing (drop_session_state c k m) = (sm_flushing m)(k := False)"
  by (simp_all add: drop_session_state_def)

text \<open>One session changes its identity: what matters is its queue afterwards.\<close>

lemma identity_account:
  assumes acc: "account_ok fu m" and inv: "registry_inv m" and own: "owner_of m k = Some c"
    and d: "drops m n" and owners: "sm_bySession n = sm_bySession m"
    and others: "\<And>x. x \<noteq> c \<Longrightarrow> rg_ident (registry_of n) x = rg_ident (registry_of m) x"
    and here: "mc_business (sm_conns n c) \<noteq> None \<Longrightarrow> mine fu (mc_user (sm_conns n c)) (pending_of n k)"
    and flush: "sm_flushing n k \<Longrightarrow> mc_business (sm_conns m c) \<noteq> None \<Longrightarrow> mc_business (sm_conns n c) \<noteq> None"
  shows "account_ok fu n"
proof (rule account_okI)
  have ok: "registry_ok (registry_of m)" using inv by (simp add: registry_inv_def)
  have c: "owner_of m k' = Some c \<Longrightarrow> k' = k" for k' using owner_unique [OF ok, of k c k'] own by simp
  have o: "resolved_owner n k' x \<longleftrightarrow> resolved_owner m k' x" if "x \<noteq> c" for k' x
    using others [OF that] unfolding resolved_registry by (simp add: owners del: registry_of_sel(9))
  fix k'
  show "mine fu (mc_user (sm_conns n x)) (pending_of n k')" if "resolved_owner n k' x" for x
  proof (cases "x = c")
    case True
    with that c owners have "k' = k" by (simp add: resolved_owner_def)
    with here that True show ?thesis by (simp add: resolved_owner_def)
  next
    case False
    then have "mc_user (sm_conns n x) = mc_user (sm_conns m x)" using others [OF False] unfolding user_registry by simp
    moreover have "mine fu (mc_user (sm_conns m x)) (pending_of m k')" using account_owner [OF acc] that o [OF False] by blast
    ultimately show ?thesis using drops_pending [OF d, of k'] by auto
  qed
  show "\<exists>x. resolved_owner n k' x" if fl: "sm_flushing n k'"
  proof -
    obtain x where x: "resolved_owner m k' x" using account_flush [OF acc drops_flushing [OF d fl]] by blast
    show ?thesis
    proof (cases "x = c")
      case True
      with x c have "k' = k" by (simp add: resolved_owner_def)
      with flush fl x True owners have "resolved_owner n k' c" by (auto simp: resolved_owner_def)
      then show ?thesis ..
    next
      case False
      with o x show ?thesis by blast
    qed
  qed
qed

lemma bindUser_account:
  assumes acc: "account_ok fu m" and inv: "registry_inv m" and own: "owner_of m k = Some c"
  shows "account_ok fu (bindUserLocked c k u m)"
proof (rule identity_account [OF acc inv own])
  let ?n = "bindUserLocked c k u m"
  have r: "registry_of ?n = rg_setUser k c u (registry_of m)" by (rule bindUser_registry)
  show "drops m ?n" by (intro drops_rules)
  show "sm_bySession ?n = sm_bySession m" unfolding owner_field r by simp
  show "rg_ident (registry_of ?n) x = rg_ident (registry_of m) x" if "x \<noteq> c" for x
    unfolding r using that by (simp add: rg_setUser_def Let_def)
  have b: "mc_business (sm_conns ?n c) = mc_business (sm_conns m c)"
    using registry_of_sel(9) [of ?n c] unfolding r by (simp add: rg_setUser_def Let_def)
  have us: "mc_user (sm_conns ?n c) = u" unfolding user_registry r by (simp add: rg_setUser_def Let_def)
  show "mine fu (mc_user (sm_conns ?n c)) (pending_of ?n k)" if "mc_business (sm_conns ?n c) \<noteq> None"
  proof (cases "u = 0 \<or> (mc_user (sm_conns m c) \<noteq> 0 \<and> mc_user (sm_conns m c) \<noteq> u)")
    case True
    then have "pending_of ?n k = []" by (auto simp: bindUserLocked_def Let_def pending_queue)
    then show ?thesis by simp
  next
    case False
    then have "pending_of ?n k = pending_of m k" by (auto simp: bindUserLocked_def Let_def pending_queue)
    moreover have "mine fu (mc_user (sm_conns m c)) (pending_of m k)"
      using account_owner [OF acc, of k c] own that b by (simp add: resolved_owner_def)
    ultimately show ?thesis using False by (auto simp: us mine_def)
  qed
  show "mc_business (sm_conns ?n c) \<noteq> None" if "mc_business (sm_conns m c) \<noteq> None" using that b by simp
qed

lemma bindAuthKey_account:
  assumes acc: "account_ok fu m" and inv: "registry_inv m" and own: "owner_of m k = Some c"
  shows "account_ok fu (bindAuthKeyLocked c k b m)"
proof (rule identity_account [OF acc inv own])
  let ?n = "bindAuthKeyLocked c k b m"
  note r = bindAuthKey_registry [of c k b m]
  show "drops m ?n" by (intro drops_rules)
  show "sm_bySession ?n = sm_bySession m" by simp
  show "rg_ident (registry_of ?n) x = rg_ident (registry_of m) x" if "x \<noteq> c" for x
    unfolding r using that by (simp add: rg_setUser_def rg_setBusiness_def Let_def)
  have bn: "mc_business (sm_conns ?n c) = Some b"
    using registry_of_sel(9) [of ?n c] unfolding r by (simp add: rg_setUser_def rg_setBusiness_def Let_def split: if_splits)
  then show "mc_business (sm_conns ?n c) \<noteq> None" by simp
  show "mine fu (mc_user (sm_conns ?n c)) (pending_of ?n k)"
  proof (cases "mc_business (sm_conns m c) = Some b")
    case True
    have "mc_user (sm_conns ?n c) = mc_user (sm_conns m c)"
      unfolding user_registry r using True by (simp add: rg_setBusiness_def Let_def)
    moreover have "mine fu (mc_user (sm_conns m c)) (pending_of m k)"
      using account_owner [OF acc, of k c] own True by (simp add: resolved_owner_def)
    moreover have "pending_of ?n k = pending_of m k \<or> pending_of ?n k = []"
      by (rule drops_pending) (intro drops_rules)
    ultimately show ?thesis by auto
  next
    case False
    then have "pending_of ?n k = []" by (simp add: bindAuthKeyLocked_def Let_def pending_queue)
    then show ?thesis by simp
  qed
qed

lemma unbind_one_account:
  assumes acc: "account_ok fu m" and inv: "registry_inv m" and own: "owner_of m k = Some c"
  shows "account_ok fu (snd (unbind_one a (k, c) (i, m)))"
proof (cases "connUsesBusinessAuthKey (sm_conns m c) a")
  case True
  let ?n = "snd (unbind_one a (k, c) (i, m))"
  have r: "registry_of ?n = rg_setUser k c 0 (registry_of m)" using True by (simp add: unbind_one_registry)
  show ?thesis
  proof (rule identity_account [OF acc inv own])
    show "drops m ?n" by (auto simp: unbind_one_def Let_def intro!: drops_rules)
    show "sm_bySession ?n = sm_bySession m" unfolding owner_field r by simp
    show "rg_ident (registry_of ?n) x = rg_ident (registry_of m) x" if "x \<noteq> c" for x
      unfolding r using that by (simp add: rg_setUser_def Let_def)
    have "pending_of ?n k = []" using True by (simp add: unbind_one_def Let_def pending_queue)
    then show "mine fu (mc_user (sm_conns ?n c)) (pending_of ?n k)" by simp
    show "mc_business (sm_conns ?n c) \<noteq> None" if "mc_business (sm_conns m c) \<noteq> None"
      using that registry_of_sel(9) [of ?n c] unfolding r by (simp add: rg_setUser_def Let_def)
  qed
next
  case False
  with acc show ?thesis by (simp add: unbind_one_def)
qed

lemma binds_account:
  assumes "account_ok fu m" and "registry_inv m"
  shows "account_ok fu (BindUserForAuthKey a sid u m)" and "account_ok fu (BindAuthKeyForSession a sid b m)"
  using assms bindUser_account [OF assms] bindAuthKey_account [OF assms]
  by (simp_all add: BindUserForAuthKey_def BindAuthKeyForSession_def split: option.split)

lemma BindRaw_account:
  assumes "account_ok fu m" and "registry_inv m"
  shows "account_ok fu (snd (BindAuthKeyForRawAuthKey a b m))"
proof -
  have "account_ok fu (snd (fold (bind_raw_one a b) es nm)) \<and> registry_inv (snd (fold (bind_raw_one a b) es nm))"
    if "account_ok fu (snd nm)" and "registry_inv (snd nm)" for es and nm :: "nat \<times> 'a session_manager"
    using that
  proof (induction es arbitrary: nm)
    case (Cons e es)
    have "account_ok fu (snd (bind_raw_one a b e nm))"
      using Cons.prems bindAuthKey_account [OF Cons.prems] by (cases e; cases nm) (auto simp: bind_raw_one_def)
    with Cons bind_raw_one_inv [OF Cons.prems(2)] show ?case by simp
  qed simp
  from this [of "(0, m)"] assms show ?thesis by (simp add: BindAuthKeyForRawAuthKey_def)
qed

lemma Unbind_account:
  assumes "account_ok fu m" and "registry_inv m"
  shows "account_ok fu (snd (UnbindAuthKey a m))"
proof -
  have "account_ok fu (snd (fold (unbind_one a) es nm))"
    if "account_ok fu (snd nm)" and "registry_inv (snd nm)" and "\<forall>(k, c)\<in>set es. owner_of (snd nm) k = Some c"
    for es and nm :: "nat \<times> 'a session_manager"
    using that
  proof (induction es arbitrary: nm)
    case (Cons e es)
    obtain k c n x where e: "e = (k, c)" "nm = (n, x)" by (cases e, cases nm) auto
    have own: "owner_of x k = Some c" using Cons.prems by (simp add: e)
    have "sm_bySession (snd (unbind_one a e nm)) = sm_bySession x" unfolding owner_field e unbind_one_registry by simp
    moreover have "registry_inv (snd (unbind_one a e nm))"
      by (rule inv_of_registry [of x])
        (use Cons.prems own in \<open>auto simp: e unbind_one_registry registry_inv_def intro!: setUser_ok\<close>)
    moreover have "account_ok fu (snd (unbind_one a e nm))"
      using unbind_one_account [OF _ _ own] Cons.prems by (simp add: e)
    ultimately show ?case using Cons.IH [of "unbind_one a e nm"] Cons.prems(3) by (auto simp: e)
  qed simp
  moreover have "\<forall>(k, c)\<in>set (businessAuthKeyCandidatesLocked a m). owner_of m k = Some c"
    by (auto dest: candidates_owned)
  ultimately show ?thesis using assms by (simp add: UnbindAuthKey_def)
qed

lemma run_command_account:
  assumes acc: "account_ok fu m" and inv: "registry_inv m" and r: "run_command cmd m = Some n"
  shows "account_ok fu n"
proof (cases cmd)
  case (CmdBegin c)
  with r obtain res where "begin_locked c m = Some (res, n)" by auto
  then show ?thesis by (rule benign_account [OF begin_locked_benign acc])
next
  case (CmdPublish race c)
  obtain res x where "PublishActivation race c m = (res, x)" by (cases "PublishActivation race c m")
  with CmdPublish r publish_account [OF acc inv] show ?thesis by auto
next
  case (CmdBeginFinish now ok c)
  with r acc benign_account [OF Abort_benign acc] show ?thesis by (auto simp: begin_finish_def)
next
  case (CmdInterfere race c)
  have "benign m (on_conn (interfere race) c m)"
    by (rule benign_same) (cases race; auto simp: registry_of_def ident_of_def conn_retire_def intro: drops_rules)+
  with CmdInterfere r benign_account [OF _ acc] show ?thesis by auto
qed ((use r binds_account [OF acc inv] BindRaw_account [OF acc inv] Unbind_account [OF acc inv] in \<open>auto; fail\<close>)
    | (rule benign_account [OF _ acc], use r in \<open>auto simp: begin_claim_benign Abort_benign Unregister_benign Destroy_benign CloseRaw_benign
        CloseBusiness_benign; fail\<close>)
    | (rule benign_account [OF benign_registry acc], use r in \<open>auto simp: registry_frame intro!: drops_rules\<close>))+

end
