(* ===== verification/Session_Accounts_World.thy ===== *)
theory Session_Accounts_World
  imports Session_Accounts
begin

text \<open>
  Whose pushes a session receives, in every reachable state: what is kept and what a flush worker holds
  belongs to the user of the connection it is for, and what is handed to a connection belongs to the user
  it had when the sender checked.
\<close>

section \<open>Queues\<close>

definition same_people :: "'p session_manager \<Rightarrow> 'p session_manager \<Rightarrow> bool" where
  "same_people m n \<longleftrightarrow> (\<forall>k c. resolved_owner n k c \<longleftrightarrow> resolved_owner m k c)
     \<and> (\<forall>c. mc_user (sm_conns n c) = mc_user (sm_conns m c))"

lemma people_registry: "registry_of n = registry_of m \<Longrightarrow> same_people m n"
  unfolding same_people_def resolved_registry user_registry by (simp only:) simp

lemma people_retired: "registry_of n = rg_retire c (registry_of m) \<Longrightarrow> same_people m n"
  unfolding same_people_def resolved_registry user_registry by simp

lemma account_step:
  assumes acc: "account_ok fu m" and same: "same_people m n"
    and pend: "\<And>k c. resolved_owner m k c \<Longrightarrow> mine fu (mc_user (sm_conns m c)) (pending_of m k) \<Longrightarrow>
      mine fu (mc_user (sm_conns m c)) (pending_of n k)"
    and flush: "\<And>k. sm_flushing n k \<Longrightarrow> sm_flushing m k \<or> (\<exists>c. resolved_owner m k c)"
  shows "account_ok fu n"
proof (rule account_okI)
  show "mine fu (mc_user (sm_conns n c)) (pending_of n k)" if "resolved_owner n k c" for k c
  proof -
    have "resolved_owner m k c" "mc_user (sm_conns n c) = mc_user (sm_conns m c)"
      using same that unfolding same_people_def by blast+
    then show ?thesis using pend [OF _ account_owner [OF acc]] by simp
  qed
  show "\<exists>c. resolved_owner n k c" if "sm_flushing n k" for k
    using same flush [OF that] account_flush [OF acc] unfolding same_people_def by blast
qed

lemma in_tl: "x \<in> set (tl xs) \<Longrightarrow> x \<in> set xs"
  by (cases xs) auto

lemma queue_pending:
  "pending_of (snd (queuePreparedLocked now k p r m)) j = pending_of m j \<or>
   (j = k \<and> set (pending_of (snd (queuePreparedLocked now k p r m)) j) \<subseteq>
      insert \<lparr>qp_updates = p, qp_reservation = r, qp_at = now\<rparr> (set (pending_of m k)))"
  by (auto simp: queuePreparedLocked_def Let_def pending_queue update_conv dest: in_tl)

lemma queue_flushing: "sm_flushing (snd (queuePreparedLocked now k p r m)) = sm_flushing m"
  by (simp add: queuePreparedLocked_def Let_def)

lemma queue_account:
  assumes acc: "account_ok fu m" and u: "\<And>c. resolved_owner m k c \<Longrightarrow> fu p = 0 \<or> fu p = mc_user (sm_conns m c)"
  shows "account_ok fu (snd (queuePreparedLocked now k p r m))"
proof (rule account_step [OF acc people_registry])
  let ?n = "snd (queuePreparedLocked now k p r m)"
  show "registry_of ?n = registry_of m" by (rule registry_of_queue)
  show "sm_flushing m j \<or> (\<exists>c. resolved_owner m j c)" if "sm_flushing ?n j" for j using that by (simp add: queue_flushing)
  show "mine fu (mc_user (sm_conns m c)) (pending_of ?n j)"
    if "resolved_owner m j c" and "mine fu (mc_user (sm_conns m c)) (pending_of m j)" for j c
    using queue_pending [of now k p r m j]
  proof
    assume "j = k \<and> set (pending_of ?n j) \<subseteq> insert \<lparr>qp_updates = p, qp_reservation = r, qp_at = now\<rparr> (set (pending_of m k))"
    then show ?thesis using that u [of c] by (auto simp: mine_def)
  qed (use that in simp)
qed

lemma scan_queue_account:
  assumes "account_ok fu m" and "\<forall>(k, c)\<in>set es. \<forall>d. resolved_owner m k d \<longrightarrow> fu p = mc_user (sm_conns m d)"
  shows "account_ok fu (snd (snd (scan_queue f now p r es m)))"
  using assms
proof (induction es arbitrary: m)
  case (Cons e es)
  obtain k c where e: "e = (k, c)" by (cases e)
  have skip: "account_ok fu (snd (snd (scan_queue f now p r es m)))" using Cons by auto
  have "account_ok fu (snd (snd (scan_queue f now p r es (snd (queuePreparedLocked now k p i m)))))" for i
  proof (rule Cons.IH)
    let ?n = "snd (queuePreparedLocked now k p i m)"
    have s: "same_people m ?n" by (rule people_registry [OF registry_of_queue])
    show "account_ok fu ?n" by (rule queue_account [OF Cons.prems(1)]) (use Cons.prems(2) in \<open>auto simp: e\<close>)
    show "\<forall>(k, c)\<in>set es. \<forall>d. resolved_owner ?n k d \<longrightarrow> fu p = mc_user (sm_conns ?n d)"
      using s Cons.prems(2) unfolding same_people_def by fastforce
  qed
  with skip show ?case by (auto simp: e split_beta split: option.split)
qed simp

lemma push_user_account:
  assumes acc: "account_ok fu m" and inv: "registry_inv m" and "fu p = u"
  shows "account_ok fu (snd (snd (push_rescan f now u p r m)))"
proof -
  have "fu p = mc_user (sm_conns m d)" if "(k, c) \<in> set (sm_byUser m u)" and "resolved_owner m k d" for k c d
    using user_entries(2,3) [OF inv that(1)] that(2) assms(3) by (simp add: resolved_owner_def)
  then show ?thesis unfolding push_rescan_def by (intro scan_queue_account [OF acc]) blast
qed

section \<open>Flush workers\<close>

fun flusher_mine :: "('p \<Rightarrow> int) \<Rightarrow> 'p flusher \<Rightarrow> bool" where
  "flusher_mine fu (FlCheck c k u n batch) = mine fu u batch"
| "flusher_mine fu (FlSend c k u n batch) = mine fu u batch"
| "flusher_mine fu (FlRequeue c k u n batch) = mine fu u batch"
| "flusher_mine fu _ = True"

lemma flushing_owner:
  assumes "account_ok fu m" and "sm_flushing m k" and "owner_of m k = Some c"
  shows "resolved_owner m k c" and "mine fu (mc_user (sm_conns m c)) (pending_of m k)"
proof -
  show "resolved_owner m k c" using account_flush [OF assms(1,2)] assms(3) by (auto simp: resolved_owner_def)
  then show "mine fu (mc_user (sm_conns m c)) (pending_of m k)" by (rule account_owner [OF assms(1)])
qed

lemma receives_account:
  assumes acc: "account_ok fu m" and bound: "\<And>c. owner_of m k = Some c \<Longrightarrow> mc_business (sm_conns m c) \<noteq> None"
  shows "account_ok fu (snd (SetReceivesUpdatesForAuthKey k b m))"
proof (rule account_step [OF acc people_registry [OF registry_of_receives(3)]])
  let ?n = "snd (SetReceivesUpdatesForAuthKey k b m)"
  have p: "sm_pending ?n = sm_pending m"
    by (simp add: SetReceivesUpdatesForAuthKey_def setReceivesUpdatesLocked_def not_ready_def split_beta split: option.split)
  then show "mine fu (mc_user (sm_conns m c)) (pending_of m j) \<Longrightarrow> mine fu (mc_user (sm_conns m c)) (pending_of ?n j)" for j c
    by (simp add: pending_queue)
  show "sm_flushing m j \<or> (\<exists>c. resolved_owner m j c)" if "sm_flushing ?n j" for j
  proof (cases "j = k \<and> owner_of m k \<noteq> None")
    case True
    with bound show ?thesis by (auto simp: resolved_owner_def)
  next
    case False
    with that show ?thesis
      by (auto simp: SetReceivesUpdatesForAuthKey_def setReceivesUpdatesLocked_def not_ready_def split_beta
          split: option.splits if_splits)
  qed
qed

lemma drop_queue_account [simp]:
  "account_ok fu m \<Longrightarrow> account_ok fu (stop_flushing k (deletePendingLocked k m))"
  by (rule benign_account [OF benign_registry]; auto simp: registry_frame intro: drops_rules)

lemma release_account [simp]: "account_ok fu m \<Longrightarrow> account_ok fu (releaseQueuedPushes qs m)"
  by (rule account_step [OF _ people_registry]) (auto simp: registry_frame pending_queue)

lemma flush_take_account:
  assumes acc: "account_ok fu m" and p: "flush_take now c k u n m = (f, m')"
  shows "account_ok fu m' \<and> flusher_mine fu f"
proof (cases "owner_of m k \<noteq> Some c \<or> \<not> sm_flushing m k")
  case True
  with acc p show ?thesis by (auto simp: flush_take_def)
next
  case False
  show ?thesis
  proof (cases "mc_user (sm_conns m c) = u")
    case user: True
    have q: "mine fu u (pending_of m k)" using flushing_owner(2) [OF acc, of k c] False user by simp
    have b: "mine fu u (fst (takePendingLocked now k m))"
      by (rule mine_subset [OF q]) (auto simp: takePendingLocked_def Let_def)
    have fl: "sm_flushing (snd (takePendingLocked now k m)) = sm_flushing m"
      by (simp add: takePendingLocked_def Let_def)
    have pe: "mine fu v (pending_of m j) \<Longrightarrow> mine fu v (pending_of (snd (takePendingLocked now k m)) j)" for v j
      by (auto simp: takePendingLocked_def Let_def pending_queue)
    have take: "account_ok fu (snd (takePendingLocked now k m))"
      by (rule account_step [OF acc people_registry [OF registry_of_take]]) (simp_all add: pe fl)
    have act: "account_ok fu (activate c k x)" if "account_ok fu x" for x
      by (rule account_step [OF that people_registry [OF registry_of_receives(4)]])
        (auto simp: activate_def pending_queue split: if_splits)
    from p user False b take act [OF take] show ?thesis by (auto simp: flush_take_def split_beta split: if_splits)
  next
    case user: False
    with p False acc show ?thesis by (auto simp: flush_take_def)
  qed
qed

lemma flush_check_account:
  assumes "account_ok fu m" and "mine fu u batch" and "flush_check c k u n batch m = (f, m')"
  shows "account_ok fu m' \<and> flusher_mine fu f"
  using assms by (auto simp: flush_check_def split: if_splits)

lemma flush_send_account:
  assumes acc: "account_ok fu m" and b: "mine fu u batch" and p: "flush_send enc sent c k u n batch m = (f, m')"
  shows "account_ok fu m' \<and> flusher_mine fu f"
proof
  have t: "mine fu u (tl batch)" using b by (cases batch) auto
  show "flusher_mine fu f" using p b t by (auto simp: flush_send_def split: prod.splits option.splits if_splits)
  have fields: "sm_pending (snd (flush_error enc sent r m)) = sm_pending m" "sm_flushing (snd (flush_error enc sent r m)) = sm_flushing m" for r
    by (simp_all add: flush_error_def reservePrepared_def Let_def split_beta split: encoding.split bool.split)
  then have "sm_pending m' = sm_pending m" "sm_flushing m' = sm_flushing m"
    using p by (auto simp: flush_send_def split_beta split: option.splits if_splits)
  moreover have "same_people m m'"
    using flush_send_registry [of enc sent c k u n batch m] p people_registry people_retired by auto
  ultimately show "account_ok fu m'" by (intro account_step [OF acc]) (auto simp: pending_queue)
qed

lemma flush_requeue_account:
  assumes acc: "account_ok fu m" and b: "mine fu u batch" and p: "flush_requeue c k u n batch m = (f, m')"
  shows "account_ok fu m' \<and> flusher_mine fu f"
proof (cases "owner_of m k \<noteq> Some c \<or> \<not> sm_flushing m k \<or> mc_user (sm_conns m c) \<noteq> u")
  case True
  with p acc show ?thesis
    by (auto simp: flush_requeue_def)
next
  case False
  define rest where "rest = batch @ pending_of m k"
  define d where "d = length rest - maxPendingPushesPerSession"
  define m1 where "m1 = (releaseQueuedPushes (take d rest) m)\<lparr>sm_pending := AList.update k (drop d rest) (sm_pending m)\<rparr>"
  have "mine fu u rest" using flushing_owner(2) [OF acc, of k c] False b by (simp add: rest_def)
  then have r: "mine fu u (drop d rest)" by (rule mine_subset) (rule set_drop_subset)
  have m1: "account_ok fu m1"
  proof (rule account_step [OF acc people_registry])
    show "registry_of m1 = registry_of m" by (simp add: m1_def registry_frame)
    show "mine fu (mc_user (sm_conns m x)) (pending_of m1 j)"
      if "resolved_owner m j x" and "mine fu (mc_user (sm_conns m x)) (pending_of m j)" for j x
      using that False r by (auto simp: m1_def pending_queue resolved_owner_def)
    show "sm_flushing m j \<or> (\<exists>c. resolved_owner m j c)" if "sm_flushing m1 j" for j using that by (simp add: m1_def)
  qed
  have ready: "account_ok fu (on_conn (\<lambda>d. d\<lparr>mc_receives := True\<rparr>) c m1)"
    by (rule benign_account [OF benign_registry m1]) (auto simp: registry_frame intro: drops_rules)
  have "flush_requeue c k u n batch m = (if n + 1 \<ge> maxFlushAttempts
      then (FlDone, stop_flushing k (deletePendingLocked k (on_conn (\<lambda>d. d\<lparr>mc_receives := True\<rparr>) c m1)))
      else (FlTake c k u (n + 1), m1))"
    using False unfolding flush_requeue_def Let_def m1_def d_def rest_def by simp
  with p m1 ready show ?thesis by (auto split: if_splits)
qed

section \<open>Every reachable state\<close>

definition accounts_inv :: "('p \<Rightarrow> int) \<Rightarrow> 'p push_world \<Rightarrow> bool" where
  "accounts_inv fu w \<longleftrightarrow> account_ok fu (pw_mgr w) \<and> (\<forall>f\<in>set (pw_flushers w). flusher_mine fu f)"

lemma accounts_mgr: "accounts_inv fu w \<Longrightarrow> account_ok fu (pw_mgr w') \<Longrightarrow> pw_flushers w' = pw_flushers w \<Longrightarrow> accounts_inv fu w'"
  by (simp add: accounts_inv_def)

lemma accounts_flusher:
  assumes "accounts_inv fu w" and "account_ok fu (pw_mgr w') \<and> flusher_mine fu f" and "pw_flushers w' = (pw_flushers w)[i := f]"
  shows "accounts_inv fu w'"
  using assms set_update_subset_insert [of "pw_flushers w" i f] unfolding accounts_inv_def by auto

lemma reordered_account:
  assumes acc: "account_ok fu m" and inv: "registry_inv m" and q: "queues_ok m" and "reordered m n"
  shows "account_ok fu n"
proof -
  obtain os cl ca ak bu us pe where n: "n = m\<lparr>sm_bySession := os, sm_claims := cl, sm_claimsByAuth := ca,
      sm_byAuthKey := ak, sm_byBusiness := bu, sm_byUser := us, sm_pending := pe\<rparr>"
    and p: "mset os = mset (sm_bySession m)" "mset pe = mset (sm_pending m)"
    using assms(4) unfolding reordered_def by blast
  have "distinct (map fst (sm_bySession m))" using inv by (simp add: registry_inv_def registry_ok_def owners_ok_def)
  then have o: "map_of os = map_of (sm_bySession m)" using map_of_mset [OF p(1)] by simp
  have "map_of pe = map_of (sm_pending m)" using map_of_mset [OF p(2)] q by (simp add: queues_ok_def)
  then have "pending_of n = pending_of m" by (simp add: fun_eq_iff pending_of_def n)
  moreover have "same_people m n" unfolding same_people_def resolved_owner_def by (simp add: n o)
  ultimately show ?thesis by (intro account_step [OF acc]) (auto simp: n)
qed

lemma quiet_account:
  assumes "account_ok fu m" and "registry_of n \<in> {registry_of m, rg_retire c (registry_of m)}"
    and "sm_pending n = sm_pending m" and "sm_flushing n = sm_flushing m"
  shows "account_ok fu n"
proof -
  have "same_people m n" using assms(2) people_registry people_retired by auto
  then show ?thesis by (intro account_step [OF assms(1)]) (auto simp: assms(3,4) pending_queue)
qed

lemma world_step_accounts:
  assumes step: "world_step True fu w w'" and inv: "accounts_inv fu w" and reg: "registry_inv (pw_mgr w)" and q: "queues_ok (pw_mgr w)"
  shows "accounts_inv fu w'"
proof -
  have acc: "account_ok fu (pw_mgr w)" and fl: "\<And>f. f \<in> set (pw_flushers w) \<Longrightarrow> flusher_mine fu f"
    using inv unfolding accounts_inv_def by auto
  have at: "flusher_mine fu (pw_flushers w ! i)" if "i < length (pw_flushers w)" for i using fl nth_mem [OF that] by blast
  note mgr = accounts_mgr [OF inv] and worker = accounts_flusher [OF inv]
  from step show ?thesis
  proof (cases rule: world_step.cases)
    case (command cmd m)
    then show ?thesis using run_command_account [OF acc reg] by (intro mgr) auto
  next
    case (reorder m)
    then show ?thesis using reordered_account [OF acc reg q] by (intro mgr) auto
  next
    case (set_receives k b start m)
    have "account_ok fu m" using receives_account [OF acc, of k b] set_receives(2,3) by simp
    moreover have "flusher_mine fu f" if "start = Some f" for f
      using that set_receives(2) by (auto simp: SetReceivesUpdatesForAuthKey_def split: option.splits prod.splits)
    ultimately show ?thesis using inv set_receives(1) by (cases start) (auto simp: accounts_inv_def)
  next
    case (prepare bytes r m)
    have "account_ok fu m"
      by (rule quiet_account [OF acc])
        (use prepare registry_of_prepare [of "pw_next w" bytes "pw_mgr w"] in \<open>auto simp: preparePendingPush_def split: if_splits prod.splits bool.splits\<close>)
    with inv prepare show ?thesis by (simp add: accounts_inv_def)
  next
    case (push_user f now u p r cs q m)
    then show ?thesis using push_user_account [OF acc reg, of p u f now r] by (intro mgr) auto
  next
    case (push_session now k p r res m)
    have "account_ok fu (snd (queueOrSendPrepared now k p r (pw_mgr w)))"
      using acc queue_account [OF acc, of k p now r] push_session(3) by (simp add: queueOrSendPrepared_def split: option.split)
    with push_session show ?thesis by (intro mgr) auto
  next
    case (producer_done r)
    have "account_ok fu (push_release r (pw_mgr w))"
      by (rule quiet_account [OF acc]) (simp_all add: registry_of_release)
    with inv producer_done show ?thesis by (simp add: accounts_inv_def)
  next
    case (send_result c p mark res acc' acc'' m)
    have "benign (pw_mgr w) m"
      using push_send_drops [of "pw_mgr w" c res acc'] push_send_registry [of c res acc' "pw_mgr w"] send_result(3)
        benign_registry benign_retired by auto
    with benign_account acc send_result(1) show ?thesis by (intro mgr) auto
  next
    case (flush_takes i c k u n now f m)
    then show ?thesis using flush_take_account [OF acc] by (intro worker) auto
  next
    case (flush_checks i c k u n batch f m)
    have b: "mine fu u batch" using at [OF flush_checks(2)] flush_checks(3) by simp
    show ?thesis using flush_checks(1) flush_check_account [OF acc b flush_checks(4)] by (intro worker) auto
  next
    case (flush_sends i c k u n batch enc sent f m)
    have b: "mine fu u batch" using at [OF flush_sends(2)] flush_sends(3) by simp
    show ?thesis using flush_sends(1) flush_send_account [OF acc b flush_sends(4)] by (intro worker) auto
  next
    case (flush_requeues i c k u n batch f m)
    have b: "mine fu u batch" using at [OF flush_requeues(2)] flush_requeues(3) by simp
    show ?thesis using flush_requeues(1) flush_requeue_account [OF acc b flush_requeues(4)] by (intro worker) auto
  qed (use inv in \<open>auto simp: accounts_inv_def\<close>)
qed

lemma reach_accounts:
  assumes "world_reach True fu w"
  shows "accounts_inv fu w"
  using assms
proof induction
  case (start cs)
  show ?case
    by (simp add: accounts_inv_def account_ok_def resolved_owner_def world_start_def NewSessionManager_def)
next
  case (step w w')
  have "queues_ok (pw_mgr w)" using reach_held [OF step(1)] by (simp add: held_inv_def held_ok_def)
  with step reach_registry [OF step(1)] world_step_accounts show ?case by blast
qed

section \<open>Between the check and the handover\<close>

text \<open>What a sender saw at its check is still so, or the user of the connection has changed since.\<close>

definition marked :: "'p push_world \<Rightarrow> nat \<Rightarrow> mark \<Rightarrow> bool" where
  "marked w c mark \<longleftrightarrow> snd mark \<le> pw_turns w c \<and> (snd mark = pw_turns w c \<longrightarrow> fst mark = mc_user (sm_conns (pw_mgr w) c))"

lemma check_marked: "marked w c (check_mark c w)" "fst (check_mark c w) = mc_user (sm_conns (pw_mgr w) c)"
  by (simp_all add: marked_def check_mark_def)

definition handover_ok :: "('p \<Rightarrow> int) \<Rightarrow> 'p handover \<Rightarrow> bool" where
  "handover_ok fu e \<longleftrightarrow> (fu (ho_push e) = 0 \<or> fu (ho_push e) = ho_checked e) \<and> (\<not> ho_rebound e \<longrightarrow> ho_checked e = ho_user e)"

definition marks_inv :: "('p \<Rightarrow> int) \<Rightarrow> 'p push_world \<Rightarrow> bool" where
  "marks_inv fu w \<longleftrightarrow> (\<forall>(c, p, mark)\<in>set (pw_sends w). (fu p = 0 \<or> fu p = fst mark) \<and> marked w c mark)
     \<and> (\<forall>i c k u n batch. i < length (pw_flushers w) \<longrightarrow> pw_flushers w ! i = FlSend c k u n batch \<longrightarrow>
          fst (pw_marks w i) = u \<and> marked w c (pw_marks w i))
     \<and> (\<forall>e\<in>set (pw_log w). handover_ok fu e)"

definition users_steady :: "'p push_world \<Rightarrow> 'p push_world \<Rightarrow> bool" where
  "users_steady w w' \<longleftrightarrow> (\<forall>c. pw_turns w' c = pw_turns w c \<and> mc_user (sm_conns (pw_mgr w') c) = mc_user (sm_conns (pw_mgr w) c)
     \<or> pw_turns w c < pw_turns w' c)"

lemma users_steady_marked: "users_steady w w' \<Longrightarrow> marked w c mark \<Longrightarrow> marked w' c mark"
  unfolding users_steady_def marked_def by (metis le_less_trans less_imp_le not_less)

lemma users_steady_same:
  "same_people (pw_mgr w) (pw_mgr w') \<Longrightarrow> pw_turns w' = pw_turns w \<Longrightarrow> users_steady w w'"
  by (simp add: users_steady_def same_people_def)

lemma reordered_users: "reordered m n \<Longrightarrow> mc_user (sm_conns n c) = mc_user (sm_conns m c)"
  unfolding reordered_def by auto

lemma world_step_steady:
  assumes "world_step bound fu w w'"
  shows "users_steady w w'"
  using assms
proof (cases rule: world_step.cases)
  case (command cmd m)
  then show ?thesis by (auto simp: users_steady_def turned_def)
next
  case (reorder m)
  then show ?thesis using reordered_users by (auto simp: users_steady_def)
next
  case (set_receives k b start m)
  then show ?thesis using people_registry registry_of_receives(3) [of k b "pw_mgr w"] by (intro users_steady_same) auto
next
  case (prepare bytes r m)
  then show ?thesis using people_registry registry_of_prepare [of "pw_next w" bytes "pw_mgr w"] by (intro users_steady_same) auto
next
  case (push_user f now u p r cs q m)
  then show ?thesis using people_registry registry_of_scan_queue [of f now p r "sm_byUser (pw_mgr w) u" "pw_mgr w"]
    by (intro users_steady_same) (auto simp: push_rescan_def)
next
  case (push_session now k p r res m)
  then show ?thesis using people_registry registry_of_session_queue [of now k p r "pw_mgr w"] by (intro users_steady_same) auto
next
  case (producer_done r)
  then show ?thesis using people_registry [OF registry_of_release] by (intro users_steady_same) auto
next
  case (send_result c p mark res acc acc' m)
  then show ?thesis using people_registry people_retired push_send_registry [of c res acc "pw_mgr w"] by (intro users_steady_same) auto
next
  case (flush_takes i c k u n now f m)
  then show ?thesis using people_registry registry_of_flush(1) [of now c k u n "pw_mgr w"] by (intro users_steady_same) auto
next
  case (flush_checks i c k u n batch f m)
  then show ?thesis using people_registry registry_of_flush(2) [of c k u n batch "pw_mgr w"] by (intro users_steady_same) auto
next
  case (flush_sends i c k u n batch enc sent f m)
  then show ?thesis using people_registry people_retired flush_send_registry [of enc sent c k u n batch "pw_mgr w"]
    by (intro users_steady_same) auto
next
  case (flush_requeues i c k u n batch f m)
  then show ?thesis using people_registry registry_of_flush(3) [of c k u n batch "pw_mgr w"] by (intro users_steady_same) auto
qed (auto simp: users_steady_def)

text \<open>A step that adds at most one send, moves at most one worker and hands over at most one push.\<close>

lemma marks_step:
  assumes inv: "marks_inv fu w" and st: "users_steady w w'"
    and sends: "\<And>c p mark. (c, p, mark) \<in> set (pw_sends w') \<Longrightarrow> (c, p, mark) \<in> set (pw_sends w) \<or> (fu p = 0 \<or> fu p = fst mark) \<and> mark = check_mark c w"
    and fl: "\<And>i c k u n batch. i < length (pw_flushers w') \<Longrightarrow> pw_flushers w' ! i = FlSend c k u n batch \<Longrightarrow>
      i < length (pw_flushers w) \<and> pw_flushers w ! i = FlSend c k u n batch \<and> pw_marks w' i = pw_marks w i
      \<or> pw_marks w' i = check_mark c w \<and> fst (pw_marks w' i) = u"
    and log: "\<And>e. e \<in> set (pw_log w') \<Longrightarrow> e \<in> set (pw_log w) \<or> handover_ok fu e"
  shows "marks_inv fu w'"
  unfolding marks_inv_def
proof (intro conjI allI impI ballI)
  have cm: "marked w' c (check_mark c w)" for c using users_steady_marked [OF st check_marked(1)] .
  show "case x of (c, p, mark) \<Rightarrow> (fu p = 0 \<or> fu p = fst mark) \<and> marked w' c mark" if "x \<in> set (pw_sends w')" for x
  proof -
    obtain c p mark where x: "x = (c, p, mark)" by (metis prod_cases3)
    then show ?thesis using that sends [of c p mark] inv users_steady_marked [OF st, of c mark] cm [of c] by (auto simp: marks_inv_def)
  qed
  fix i c k u n batch assume i: "i < length (pw_flushers w')" "pw_flushers w' ! i = FlSend c k u n batch"
  have "fst (pw_marks w' i) = u \<and> marked w' c (pw_marks w' i)"
    using fl [OF i] inv users_steady_marked [OF st, of c "pw_marks w i"] cm [of c] unfolding marks_inv_def by metis
  then show "fst (pw_marks w' i) = u" and "marked w' c (pw_marks w' i)" by auto
next
  show "handover_ok fu e" if "e \<in> set (pw_log w')" for e using log [OF that] inv by (auto simp: marks_inv_def)
qed

lemma handed_ok:
  assumes "marked w c mark" and "fu p = 0 \<or> fu p = fst mark" and "e \<in> set (handed c p mark w)"
  shows "e \<in> set (pw_log w) \<or> handover_ok fu e"
  using assms by (auto simp: handed_def handover_ok_def marked_def)

lemma worker_marks:
  assumes inv: "marks_inv fu w" and st: "users_steady w w'" and same: "pw_sends w' = pw_sends w" "pw_marks w' = pw_marks w"
    and f: "pw_flushers w' = (pw_flushers w)[i := f]" "\<And>c k u n batch. f \<noteq> FlSend c k u n batch"
    and log: "\<And>e. e \<in> set (pw_log w') \<Longrightarrow> e \<in> set (pw_log w) \<or> handover_ok fu e"
  shows "marks_inv fu w'"
proof (rule marks_step [OF inv st _ _ log])
  fix j c k u n batch assume "j < length (pw_flushers w')" "pw_flushers w' ! j = FlSend c k u n batch"
  with f have "j < length (pw_flushers w) \<and> pw_flushers w ! j = FlSend c k u n batch" by (cases "j = i") simp_all
  with same show "j < length (pw_flushers w) \<and> pw_flushers w ! j = FlSend c k u n batch \<and> pw_marks w' j = pw_marks w j
      \<or> pw_marks w' j = check_mark c w \<and> fst (pw_marks w' j) = u" by simp
qed (use same in simp_all)

lemma flush_states:
  "flush_take now c k u n m = (f, m1) \<Longrightarrow> f \<noteq> FlSend c' k' u' n' b"
  "flush_send enc sent c k u n batch m = (f, m1) \<Longrightarrow> f \<noteq> FlSend c' k' u' n' b"
  "flush_requeue c k u n batch m = (f, m1) \<Longrightarrow> f \<noteq> FlSend c' k' u' n' b"
  "flush_check c k u n batch m = (FlSend c' k' u' n' b, m1) \<Longrightarrow> c' = c \<and> u' = u \<and> mc_user (sm_conns m c) = u"
  by (auto simp: flush_take_def flush_send_def flush_requeue_def flush_check_def Let_def split: if_splits prod.splits option.splits)

lemma world_step_marks:
  assumes step: "world_step bound fu w w'" and inv: "marks_inv fu w"
    and fl: "\<And>f. f \<in> set (pw_flushers w) \<Longrightarrow> flusher_mine fu f \<and> flusher_wf f"
  shows "marks_inv fu w'"
proof -
  note st = world_step_steady [OF step]
  have quiet: ?thesis if "pw_sends w' = pw_sends w" "pw_flushers w' = pw_flushers w" "pw_marks w' = pw_marks w" "pw_log w' = pw_log w"
    by (rule marks_step [OF inv st]) (use that in auto)
  from step show ?thesis
  proof (cases rule: world_step.cases)
    case (set_receives k b start m)
    have "f \<noteq> FlSend c k' u n batch" if "start = Some f" for f c k' u n batch
      using that set_receives(2) by (auto simp: SetReceivesUpdatesForAuthKey_def split: option.splits prod.splits)
    then show ?thesis using set_receives(1)
      by (intro marks_step [OF inv st]) (auto simp: nth_append split: option.splits if_splits)
  next
    case (push_session now k p r res m)
    then show ?thesis by (intro marks_step [OF inv st]) (auto split: session_push.splits)
  next
    case (send_user f u c p)
    then show ?thesis by (intro marks_step [OF inv st]) (auto simp: push_send_allowed_def check_marked(2))
  next
    case (send_session k c p)
    then show ?thesis by (intro marks_step [OF inv st]) auto
  next
    case (send_result c p mark res acc acc' m)
    have "marked w c mark" "fu p = 0 \<or> fu p = fst mark" using inv send_result(2) by (auto simp: marks_inv_def)
    then show ?thesis using send_result(1) handed_ok [of w c mark fu p]
      by (intro marks_step [OF inv st]) (auto dest: notin_set_remove1)
  next
    case (flush_takes i c k u n now f m)
    show ?thesis by (rule worker_marks [OF inv st, of i f]) (use flush_takes(1) flush_states(1) [OF flush_takes(4)] in simp_all)
  next
    case (flush_checks i c k u n batch f m)
    show ?thesis
      by (rule marks_step [OF inv st])
        (use flush_checks flush_states(4) [of c k u n batch "pw_mgr w"] in \<open>auto simp: nth_list_update check_marked(2) split: if_splits\<close>)
  next
    case (flush_sends i c k u n batch enc sent f m)
    have w: "flusher_mine fu (FlSend c k u n batch) \<and> flusher_wf (FlSend c k u n batch)"
      using fl [OF nth_mem [OF flush_sends(2)]] by (simp add: flush_sends(3))
    have mk: "fst (pw_marks w i) = u" "marked w c (pw_marks w i)" using inv flush_sends(2,3) unfolding marks_inv_def by blast+
    have "fu (qp_updates (hd batch)) = 0 \<or> fu (qp_updates (hd batch)) = u" using w by (cases batch) auto
    then have "e \<in> set (pw_log w) \<or> handover_ok fu e" if "e \<in> set (handed c (qp_updates (hd batch)) (pw_marks w i) w)" for e
      using handed_ok [OF mk(2) _ that] mk(1) by simp
    then show ?thesis
      by (intro worker_marks [OF inv st, of i f]) (use flush_sends(1) flush_states(2) [OF flush_sends(4)] in simp_all)
  next
    case (flush_requeues i c k u n batch f m)
    show ?thesis by (rule worker_marks [OF inv st, of i f]) (use flush_requeues(1) flush_states(3) [OF flush_requeues(4)] in simp_all)
  qed (use quiet in auto)
qed

lemma reach_marks:
  assumes "world_reach True fu w"
  shows "marks_inv fu w"
  using assms
proof induction
  case (start cs)
  show ?case by (simp add: marks_inv_def world_start_def)
next
  case (step w w')
  have "flusher_mine fu f \<and> flusher_wf f" if "f \<in> set (pw_flushers w)" for f
    using that reach_accounts [OF step(1)] reach_held [OF step(1)] by (simp add: accounts_inv_def held_inv_def)
  with step world_step_marks show ?case by blast
qed

end
