(* ===== verification/Session_Flush.thy ===== *)
theory Session_Flush
  imports Session_Accounts_World "HOL-Library.Sublist"
begin

text \<open>
  A flush worker that nothing else interferes with. The environment gives each step the time, the
  outcome of encoding and the outcome of the write; whatever these are, the worker ends, and what it
  delivered is a subsequence of what was kept, all of it when no write failed.
\<close>

type_synonym 'p attempts = "('p \<times> outbound_error option) list"

type_synonym flush_env = "nat \<Rightarrow> int \<times> encoding \<times> outbound_error option"

fun flush_step :: "int \<times> encoding \<times> outbound_error option \<Rightarrow> 'p flusher \<Rightarrow> 'p session_manager \<Rightarrow> 'p flusher \<times> 'p session_manager \<times> 'p attempts" where
  "flush_step e FlDone m = (FlDone, m, [])"
| "flush_step (now, enc, sent) (FlTake c k u n) m = (case flush_take now c k u n m of (f, m1) \<Rightarrow> (f, m1, []))"
| "flush_step e (FlCheck c k u n batch) m = (case flush_check c k u n batch m of (f, m1) \<Rightarrow> (f, m1, []))"
| "flush_step (now, enc, sent) (FlSend c k u n batch) m =
     (case flush_send enc sent c k u n batch m of (f, m1) \<Rightarrow>
        (f, m1, [(qp_updates (hd batch), fst (flush_error enc sent (qp_reservation (hd batch)) m))]))"
| "flush_step e (FlRequeue c k u n batch) m = (case flush_requeue c k u n batch m of (f, m1) \<Rightarrow> (f, m1, []))"

fun flush_alone :: "flush_env \<Rightarrow> nat \<Rightarrow> nat \<Rightarrow> 'p flusher \<Rightarrow> 'p session_manager \<Rightarrow> 'p flusher \<times> 'p session_manager \<times> 'p attempts" where
  "flush_alone env t 0 f m = (f, m, [])"
| "flush_alone env t (Suc n) f m =
     (case flush_step (env t) f m of (f1, m1, d) \<Rightarrow>
        case flush_alone env (Suc t) n f1 m1 of (f2, m2, ds) \<Rightarrow> (f2, m2, d @ ds))"

text \<open>The session is ready and nothing is kept, or its connection is retired and closed.\<close>

definition settled :: "nat \<Rightarrow> session_key \<Rightarrow> 'p session_manager \<Rightarrow> bool" where
  "settled c k m \<longleftrightarrow> pending_of m k = []
     \<and> (\<not> sm_flushing m k \<and> mc_receives (sm_conns m c) \<or> mc_life (sm_conns m c) = Retired \<and> \<not> mc_open (sm_conns m c))"

definition delivered :: "'p attempts \<Rightarrow> 'p list" where
  "delivered ds = map fst (filter (\<lambda>d. snd d = None) ds)"

definition faultless :: "'p attempts \<Rightarrow> bool" where
  "faultless ds \<longleftrightarrow> (\<forall>d\<in>set ds. snd d = None)"

lemma delivered_simps [simp]: "delivered [] = []" "delivered [(p, e)] = (if e = None then [p] else [])"
  "delivered (xs @ ys) = delivered xs @ delivered ys"
  by (simp_all add: delivered_def)

lemma faultless_simps [simp]: "faultless []" "faultless [(p, e)] = (e = None)" "faultless (xs @ ys) = (faultless xs \<and> faultless ys)"
  by (auto simp: faultless_def)

text \<open>\<open>items\<close> is what may be delivered, \<open>must\<close> what is delivered when no write fails.\<close>

definition ends :: "flush_env \<Rightarrow> nat \<Rightarrow> session_key \<Rightarrow> nat \<Rightarrow> 'p flusher \<Rightarrow> 'p session_manager \<Rightarrow> 'p list \<Rightarrow> 'p list \<Rightarrow> bool" where
  "ends env c k t f m items must \<longleftrightarrow>
     (\<exists>N n ds. flush_alone env t N f m = (FlDone, n, ds) \<and> settled c k n \<and> subseq (delivered ds) items
       \<and> (faultless ds \<longrightarrow> delivered ds = must))"

lemma ends_done: "settled c k m \<Longrightarrow> ends env c k t FlDone m items []"
  unfolding ends_def by (rule exI [of _ 0]) simp

lemma ends_step:
  assumes "flush_step (env t) f m = (g, x, d)" and "ends env c k (Suc t) g x items rest" and "subseq (delivered d @ items) all"
    and "faultless d \<Longrightarrow> delivered d @ rest = must"
  shows "ends env c k t f m all must"
proof -
  obtain N n ds where r: "flush_alone env (Suc t) N g x = (FlDone, n, ds)" "settled c k n" "subseq (delivered ds) items"
      "faultless ds \<longrightarrow> delivered ds = rest"
    using assms(2) unfolding ends_def by blast
  have "subseq (delivered (d @ ds)) all"
    using assms(3) r(3) by (metis delivered_simps(3) list_emb_append_mono subseq_order.dual_order.trans subseq_order.order_refl)
  moreover have "flush_alone env t (Suc N) f m = (FlDone, n, d @ ds)" by (simp add: assms(1) r(1))
  moreover have "faultless (d @ ds) \<longrightarrow> delivered (d @ ds) = must" using r(4) assms(4) by auto
  ultimately show ?thesis unfolding ends_def using r(2) by blast
qed

section \<open>The worker's own session\<close>

definition flushes :: "nat \<Rightarrow> session_key \<Rightarrow> int \<Rightarrow> 'p session_manager \<Rightarrow> bool" where
  "flushes c k u m \<longleftrightarrow> owner_of m k = Some c \<and> sm_flushing m k \<and> mc_user (sm_conns m c) = u"

abbreviation payloads :: "'p queued_push list \<Rightarrow> 'p list" where
  "payloads \<equiv> map qp_updates"

lemma flush_error_fields [simp]:
  "sm_pending (snd (flush_error enc sent r m)) = sm_pending m" "sm_flushing (snd (flush_error enc sent r m)) = sm_flushing m"
  "sm_conns (snd (flush_error enc sent r m)) = sm_conns m" "sm_bySession (snd (flush_error enc sent r m)) = sm_bySession m"
  by (simp_all add: flush_error_def reservePrepared_def Let_def split_beta split: encoding.split bool.split)

lemma release_fields [simp]:
  "sm_conns (push_release r m) = sm_conns m" "sm_bySession (push_release r m) = sm_bySession m"
  "sm_flushing (push_release r m) = sm_flushing m" "sm_pending (push_release r m) = sm_pending m"
  by (simp_all add: push_release_def Let_def split: option.split)

lemma releases_fields [simp]:
  "sm_conns (releaseQueuedPushes qs m) = sm_conns m" "sm_bySession (releaseQueuedPushes qs m) = sm_bySession m"
  "sm_flushing (releaseQueuedPushes qs m) = sm_flushing m" "sm_pending (releaseQueuedPushes qs m) = sm_pending m"
  unfolding releaseQueuedPushes_def by (induction qs arbitrary: m) simp_all

lemma settled_fields:
  "settled c k (activate c k m) = (pending_of m k = [])"
  by (simp add: settled_def activate_def stop_flushing_def on_conn_def pending_queue)

lemma flushes_same:
  "flushes c k u m \<Longrightarrow> sm_bySession n = sm_bySession m \<Longrightarrow> sm_flushing n = sm_flushing m \<Longrightarrow> sm_conns n = sm_conns m \<Longrightarrow> flushes c k u n"
  by (simp add: flushes_def)

lemma send_cases:
  assumes f: "flushes c k u m" and p: "pending_of m k = []" and s: "flush_send enc sent c k u n (q # b) m = (f1, m1)"
  shows "f1 = FlCheck c k u n b \<and> flushes c k u m1 \<and> pending_of m1 k = []
    \<or> f1 = FlDone \<and> settled c k m1 \<and> fst (flush_error enc sent (qp_reservation q) m) \<noteq> None
    \<or> f1 = FlRequeue c k u n (q # b) \<and> flushes c k u m1 \<and> pending_of m1 k = [] \<and> fst (flush_error enc sent (qp_reservation q) m) \<noteq> None"
proof -
  obtain e x where e: "flush_error enc sent (qp_reservation q) m = (e, x)" by (cases "flush_error enc sent (qp_reservation q) m")
  have x: "sm_pending x = sm_pending m" "sm_flushing x = sm_flushing m" "sm_conns x = sm_conns m" "sm_bySession x = sm_bySession m"
    using flush_error_fields [of enc sent "qp_reservation q" m] by (simp_all add: e)
  have "flushes c k u x" and "flushes c k u (push_release r x)" for r
    by (rule flushes_same [OF f]; simp add: x)+
  moreover have "settled c k (releaseQueuedPushes (q # b) (on_conn (\<lambda>d. (conn_retire d)\<lparr>mc_open := False\<rparr>) c x))"
    using p by (simp add: settled_def on_conn_def conn_retire_def pending_queue x)
  moreover have "pending_of x k = []" "pending_of (push_release r x) k = []" for r using p by (simp_all add: pending_queue x)
  ultimately show ?thesis using s by (auto simp: flush_send_def e split: option.splits if_splits)
qed

lemma requeue_alone:
  assumes f: "flushes c k u m" and p: "pending_of m k = []" and l: "length b \<le> maxPendingPushesPerSession"
    and r: "flush_requeue c k u n b m = (f1, m1)"
  shows "f1 = FlDone \<and> settled c k m1 \<or> Suc n < maxFlushAttempts \<and> f1 = FlTake c k u (Suc n) \<and> flushes c k u m1 \<and> pending_of m1 k = b"
proof -
  let ?x = "m\<lparr>sm_pending := AList.update k b (sm_pending m)\<rparr>"
  have "flushes c k u ?x" by (rule flushes_same [OF f]) simp_all
  moreover have "pending_of ?x k = b" by (simp add: pending_queue)
  moreover have "settled c k (stop_flushing k (deletePendingLocked k (on_conn (\<lambda>d. d\<lparr>mc_receives := True\<rparr>) c ?x)))"
    by (simp add: settled_def stop_flushing_def deletePendingLocked_def on_conn_def pending_queue)
  moreover have "flush_requeue c k u n b m = (if n + 1 \<ge> maxFlushAttempts
      then (FlDone, stop_flushing k (deletePendingLocked k (on_conn (\<lambda>d. d\<lparr>mc_receives := True\<rparr>) c ?x)))
      else (FlTake c k u (n + 1), ?x))"
    using f p l by (simp add: flush_requeue_def flushes_def Let_def releaseQueuedPushes_def)
  ultimately show ?thesis using r by (auto split: if_splits)
qed

definition fresh_at :: "int \<Rightarrow> 'p queued_push list \<Rightarrow> 'p queued_push list" where
  "fresh_at now qs = filter (\<lambda>x. \<not> stale_push now x) qs"

lemma take_alone:
  assumes f: "flushes c k u m" and t: "flush_take now c k u n m = (f1, m1)"
  shows "f1 = FlDone \<and> settled c k m1 \<and> fresh_at now (pending_of m k) = []
    \<or> (\<exists>b. f1 = FlCheck c k u n b \<and> flushes c k u m1 \<and> pending_of m1 k = [] \<and> b = fresh_at now (pending_of m k))"
proof (cases "pending_of m k")
  case Nil
  then show ?thesis using f t by (auto simp: flush_take_def flushes_def takePendingLocked_def settled_fields fresh_at_def)
next
  case (Cons q qs)
  let ?q = "pending_of m k"
  let ?x = "releaseQueuedPushes (filter (stale_push now) ?q) (m\<lparr>sm_pending := AList.delete k (sm_pending m)\<rparr>)"
  have "takePendingLocked now k m = (fresh_at now ?q, ?x)"
    using Cons by (simp only: takePendingLocked_def Let_def fresh_at_def) simp
  moreover have "flushes c k u ?x" by (rule flushes_same [OF f]) simp_all
  moreover have "pending_of ?x k = []" by (simp add: pending_queue)
  ultimately show ?thesis using f t by (auto simp: flush_take_def flushes_def settled_fields split: if_splits)
qed

section \<open>It ends\<close>

lemma check_ends:
  fixes m :: "'p session_manager"
  assumes next_try: "\<And>t (m :: 'p session_manager). flushes c k u m \<Longrightarrow> length (pending_of m k) \<le> maxPendingPushesPerSession \<Longrightarrow> Suc n < maxFlushAttempts \<Longrightarrow>
      \<exists>must. ends env c k t (FlTake c k u (Suc n)) m (payloads (pending_of m k)) must"
    and "flushes c k u m" and "pending_of m k = []" and "length b \<le> maxPendingPushesPerSession"
  shows "ends env c k t (FlCheck c k u n b) m (payloads b) (payloads b)"
  using assms(2-)
proof (induction b arbitrary: m t)
  case Nil
  obtain now enc sent where e: "env (Suc t) = (now, enc, sent)" by (metis prod_cases3)
  have "flush_take now c k u n m = (FlDone, activate c k m)"
    using Nil.prems by (simp add: flush_take_def flushes_def takePendingLocked_def)
  then have st: "flush_step (env (Suc t)) (FlTake c k u n) m = (FlDone, activate c k m, [])" by (simp add: e)
  have "settled c k (activate c k m)" using Nil.prems by (simp add: settled_fields)
  then have "ends env c k (Suc (Suc t)) FlDone (activate c k m) [] []" by (rule ends_done)
  then have "ends env c k (Suc t) (FlTake c k u n) m [] []" by (rule ends_step [of env, OF st]) simp_all
  moreover have "flush_step (env t) (FlCheck c k u n []) m = (FlTake c k u n, m, [])" by (cases "env t") (simp add: flush_check_def)
  ultimately show ?case by (simp add: ends_step)
next
  case (Cons q b)
  obtain now enc sent where e: "env (Suc t) = (now, enc, sent)" by (metis prod_cases3)
  obtain f1 m1 where s: "flush_send enc sent c k u n (q # b) m = (f1, m1)" by (cases "flush_send enc sent c k u n (q # b) m")
  let ?e = "fst (flush_error enc sent (qp_reservation q) m)"
  have st: "flush_step (env (Suc t)) (FlSend c k u n (q # b)) m = (f1, m1, [(qp_updates q, ?e)])" by (simp add: e s)
  have req: "\<exists>must. ends env c k t' (FlRequeue c k u n (q # b)) x (payloads (q # b)) must"
    if "flushes c k u x" and "pending_of x k = []" for t' and x :: "'p session_manager"
  proof -
    obtain f2 m2 where r: "flush_requeue c k u n (q # b) x = (f2, m2)" by (cases "flush_requeue c k u n (q # b) x")
    have "\<exists>must. ends env c k (Suc t') f2 m2 (payloads (q # b)) must"
    proof (cases "f2 = FlDone \<and> settled c k m2")
      case True
      then show ?thesis using ends_done by blast
    next
      case False
      with requeue_alone [OF that Cons.prems(3) r] have "Suc n < maxFlushAttempts" "f2 = FlTake c k u (Suc n)"
        "flushes c k u m2" "pending_of m2 k = q # b" by blast+
      with next_try [of m2 "Suc t'"] Cons.prems(3) show ?thesis by simp
    qed
    then obtain must where "ends env c k (Suc t') f2 m2 (payloads (q # b)) must" ..
    then have "ends env c k t' (FlRequeue c k u n (q # b)) x (payloads (q # b)) must"
      by (rule ends_step [where d = "[]", rotated]) (simp_all add: r)
    then show ?thesis ..
  qed
  from send_cases [OF Cons.prems(1,2) s]
  have send: "ends env c k (Suc t) (FlSend c k u n (q # b)) m (payloads (q # b)) (payloads (q # b))"
  proof (elim disjE conjE)
    assume "f1 = FlCheck c k u n b" "flushes c k u m1" "pending_of m1 k = []"
    then have "ends env c k (Suc (Suc t)) f1 m1 (payloads b) (payloads b)" using Cons.IH Cons.prems(3) by simp
    then show ?thesis by (rule ends_step [of env, OF st]) auto
  next
    assume "f1 = FlDone" "settled c k m1" "?e \<noteq> None"
    then show ?thesis by (intro ends_step [of env, OF st, of c k "[]" "[]"]) (auto intro: ends_done)
  next
    assume r: "f1 = FlRequeue c k u n (q # b)" "flushes c k u m1" "pending_of m1 k = []" "?e \<noteq> None"
    then obtain must where "ends env c k (Suc (Suc t)) f1 m1 (payloads (q # b)) must" using req by blast
    then show ?thesis by (rule ends_step [of env, OF st]) (use r in auto)
  qed
  have ck: "flush_step (env t) (FlCheck c k u n (q # b)) m = (FlSend c k u n (q # b), m, [])"
    using Cons.prems(1) by (cases "env t") (simp add: flush_check_def flushes_def)
  show ?case by (rule ends_step [of env, OF ck send]) auto
qed

lemma take_ends:
  assumes "flushes c k u m" and "length (pending_of m k) \<le> maxPendingPushesPerSession" and "n < maxFlushAttempts"
  shows "ends env c k t (FlTake c k u n) m (payloads (pending_of m k)) (payloads (fresh_at (fst (env t)) (pending_of m k)))"
  using assms
proof (induction "maxFlushAttempts - n" arbitrary: n m t rule: less_induct)
  case less
  obtain now enc sent where e: "env t = (now, enc, sent)" by (metis prod_cases3)
  obtain f1 m1 where s: "flush_take now c k u n m = (f1, m1)" by (cases "flush_take now c k u n m")
  have st: "flush_step (env t) (FlTake c k u n) m = (f1, m1, [])" by (simp add: e s)
  from take_alone [OF less.prems(1) s] show ?case
  proof (elim disjE exE conjE)
    assume d: "f1 = FlDone" "settled c k m1" "fresh_at now (pending_of m k) = []"
    then show ?thesis by (intro ends_step [of env, OF st, of c k "[]" "[]"]) (auto simp: e intro: ends_done)
  next
    fix b assume b: "f1 = FlCheck c k u n b" "flushes c k u m1" "pending_of m1 k = []" "b = fresh_at now (pending_of m k)"
    have len: "length b \<le> maxPendingPushesPerSession"
      using less.prems(2) length_filter_le [of _ "pending_of m k"] le_trans unfolding b(4) fresh_at_def by blast
    have "ends env c k (Suc t) (FlCheck c k u n b) m1 (payloads b) (payloads b)"
      by (rule check_ends [OF _ b(2,3) len]) (rule exI, rule less.hyps, use less.prems(3) in auto)
    then show ?thesis unfolding b(1) [symmetric]
      by (rule ends_step [of env, OF st]) (simp_all add: b(4) fresh_at_def e subseq_map)
  qed
qed

end
