(* ===== verification/Session_Revocation.thy ===== *)
theory Session_Revocation
  imports Session_Accounts_World
begin

text \<open>
  Forced closing, as one description: the connections of a set lose their owner and claim entries and
  are retired, and every other connection keeps its place.
\<close>

definition closed :: "'p session_manager \<Rightarrow> nat set \<Rightarrow> 'p session_manager \<Rightarrow> bool" where
  "closed m C n \<longleftrightarrow> (\<forall>k c. owner_of n k = Some c \<longleftrightarrow> owner_of m k = Some c \<and> c \<notin> C)
     \<and> (\<forall>k c. claim_of n k = Some c \<longleftrightarrow> claim_of m k = Some c \<and> c \<notin> C)
     \<and> (\<forall>c. mc_key (sm_conns n c) = mc_key (sm_conns m c) \<and> mc_business (sm_conns n c) = mc_business (sm_conns m c))
     \<and> (\<forall>c. mc_life (sm_conns n c) = (if c \<in> C then Retired else mc_life (sm_conns m c)))"

lemma closed_refl: "closed m {} m"
  by (simp add: closed_def)

lemma closed_facts:
  assumes "closed m C n"
  shows "owner_of n k = Some c \<longleftrightarrow> owner_of m k = Some c \<and> c \<notin> C" and "claim_of n k = Some c \<longleftrightarrow> claim_of m k = Some c \<and> c \<notin> C"
    and "mc_key (sm_conns n c) = mc_key (sm_conns m c)" and "mc_business (sm_conns n c) = mc_business (sm_conns m c)"
    and "mc_life (sm_conns n c) = (if c \<in> C then Retired else mc_life (sm_conns m c))"
  using assms unfolding closed_def by blast+

lemma closedI:
  assumes "\<And>k c. owner_of n k = Some c \<longleftrightarrow> owner_of m k = Some c \<and> c \<notin> C" and "\<And>k c. claim_of n k = Some c \<longleftrightarrow> claim_of m k = Some c \<and> c \<notin> C"
    and "\<And>c. mc_key (sm_conns n c) = mc_key (sm_conns m c)" and "\<And>c. mc_business (sm_conns n c) = mc_business (sm_conns m c)"
    and "\<And>c. mc_life (sm_conns n c) = (if c \<in> C then Retired else mc_life (sm_conns m c))"
  shows "closed m C n"
  unfolding closed_def using assms by blast

lemma closed_trans:
  assumes "closed m C n" and "closed n D p"
  shows "closed m (C \<union> D) p"
proof (rule closedI)
  show "owner_of p k = Some c \<longleftrightarrow> owner_of m k = Some c \<and> c \<notin> C \<union> D" "claim_of p k = Some c \<longleftrightarrow> claim_of m k = Some c \<and> c \<notin> C \<union> D" for k c
    using closed_facts(1,2) [OF assms(1), of k c] closed_facts(1,2) [OF assms(2), of k c] by blast+
qed (simp_all add: closed_facts(3-) [OF assms(1)] closed_facts(3-) [OF assms(2)])

lemma closed_by_registry:
  assumes "\<And>k c. map_of (rg_owner (registry_of n)) k = Some c \<longleftrightarrow> owner_of m k = Some c \<and> c \<notin> C"
    and "\<And>k c. map_of (rg_claim (registry_of n)) k = Some c \<longleftrightarrow> claim_of m k = Some c \<and> c \<notin> C"
    and "\<And>c. id_key (rg_ident (registry_of n) c) = mc_key (sm_conns m c)"
    and "\<And>c. id_business (rg_ident (registry_of n) c) = mc_business (sm_conns m c)"
    and "\<And>c. id_life (rg_ident (registry_of n) c) = (if c \<in> C then Retired else mc_life (sm_conns m c))"
  shows "closed m C n"
  by (rule closedI) (use assms in \<open>simp_all only: registry_of_sel\<close>)

lemma retireConn_closed:
  assumes inv: "registry_inv m" and free: "claim_of m (conn_key m c) \<noteq> Some c"
  shows "closed m {c} (snd (retireConnLocked c dp m))"
proof -
  let ?k = "conn_key m c"
  have ok: "registry_ok (registry_of m)" using inv by (simp add: registry_inv_def)
  have o: "owner_of m k = Some c \<Longrightarrow> k = ?k" for k using owner_facts(1) [OF ok, of k c] by simp
  have cl: "claim_of m k \<noteq> Some c" for k using claim_facts(1) [OF ok, of k c] free by auto
  show ?thesis
  proof (rule closed_by_registry; unfold retireConn_registry)
    show "map_of (rg_owner (if owner_of m ?k = Some c then rg_removeOwner ?k c (rg_retire c (registry_of m))
        else rg_retire c (registry_of m))) k = Some d \<longleftrightarrow> owner_of m k = Some d \<and> d \<notin> {c}" for k d
      using o [of k] by (cases "k = ?k") auto
    show "map_of (rg_claim (if owner_of m ?k = Some c then rg_removeOwner ?k c (rg_retire c (registry_of m))
        else rg_retire c (registry_of m))) k = Some d \<longleftrightarrow> claim_of m k = Some d \<and> d \<notin> {c}" for k d
      using cl [of k] by auto
  qed simp_all
qed

lemma retireClaim_closed:
  assumes inv: "registry_inv m" and c: "claim_of m k = Some c"
  shows "closed m {c} (retireClaimLocked k c dp m)"
proof -
  have ok: "registry_ok (registry_of m)" using inv by (simp add: registry_inv_def)
  have k: "claim_of m k' = Some c \<Longrightarrow> k' = k" for k' using claim_facts(1) [OF ok, of k' c] claim_facts(1) [OF ok, of k c] c by simp
  have o: "owner_of m k' \<noteq> Some c" for k'
    using owner_facts(1) [OF ok, of k' c] claim_facts(1,3) [OF ok, of k c] c by auto
  have r: "registry_of (retireClaimLocked k c dp m) = rg_removeClaim k (rg_retire c (registry_of m))"
    using c by (simp add: retireClaim_registry)
  show ?thesis
  proof (rule closed_by_registry; unfold r)
    show "map_of (rg_owner (rg_removeClaim k (rg_retire c (registry_of m)))) k' = Some d \<longleftrightarrow> owner_of m k' = Some d \<and> d \<notin> {c}" for k' d
      using o [of k'] by (auto simp: rg_removeClaim_def)
    show "map_of (rg_claim (rg_removeClaim k (rg_retire c (registry_of m)))) k' = Some d \<longleftrightarrow> claim_of m k' = Some d \<and> d \<notin> {c}" for k' d
      using k [of k'] c by (cases "k' = k") (auto simp: rg_removeClaim_def)
  qed (simp_all add: rg_removeClaim_def)
qed

section \<open>Closing a list of sessions\<close>

text \<open>Whether a connection is spared is decided by its keys, which closing does not change.\<close>

definition spares :: "(session_key \<Rightarrow> nat \<Rightarrow> mconn \<Rightarrow> bool) \<Rightarrow> bool" where
  "spares skip \<longleftrightarrow> (\<forall>k c d e. mc_key d = mc_key e \<longrightarrow> mc_business d = mc_business e \<longrightarrow> skip k c d = skip k c e)"

lemma spares_closed: "spares skip \<Longrightarrow> closed m C n \<Longrightarrow> skip k c (sm_conns n c) = skip k c (sm_conns m c)"
  using closed_facts(3,4) [of m C n c] unfolding spares_def by blast

definition hit :: "(session_key \<Rightarrow> nat \<Rightarrow> mconn \<Rightarrow> bool) \<Rightarrow> 'p session_manager \<Rightarrow> (session_key \<times> nat) list \<Rightarrow> nat set" where
  "hit skip m es = {c. \<exists>k. (k, c) \<in> set es \<and> \<not> skip k c (sm_conns m c)}"

lemma hit_Cons: "hit skip m ((k, c) # es) = (if skip k c (sm_conns m c) then {} else {c}) \<union> hit skip m es"
  by (rule set_eqI) (cases k; auto simp: hit_def)

text \<open>
  Owners and claims are closed by the same kind of loop. What the loop needs of its body: an entry that
  is spared changes nothing, and any other entry is appended to the list of connections and closed.
\<close>

locale closing_loop =
  fixes close_entry :: "(session_key \<Rightarrow> nat \<Rightarrow> mconn \<Rightarrow> bool) \<Rightarrow> session_key \<times> nat \<Rightarrow> 'p closing \<Rightarrow> 'p closing"
    and listed :: "'p session_manager \<Rightarrow> session_key \<Rightarrow> nat option"
  assumes spared: "skip k c (sm_conns n c) \<Longrightarrow> close_entry skip (k, c) (cs, ev, n) = (cs, ev, n)"
    and struck: "registry_inv m \<Longrightarrow> registry_inv n \<Longrightarrow> closed m (set cs) n \<Longrightarrow> listed m k = Some c \<Longrightarrow>
      \<not> skip k c (sm_conns n c) \<Longrightarrow>
      \<exists>ev1 n1. close_entry skip (k, c) (cs, ev, n) = (cs @ [c], ev1, n1) \<and> registry_inv n1 \<and> closed m (set (cs @ [c])) n1"
begin

lemma loop_closed:
  assumes m: "registry_inv m" and sp: "spares skip" and "registry_inv n" and "closed m (set cs) n"
    and "\<And>k c. (k, c) \<in> set es \<Longrightarrow> listed m k = Some c"
    and "fold (close_entry skip) es (cs, ev, n) = (cs', ev', n')"
  shows "registry_inv n' \<and> closed m (set cs') n' \<and> set cs' = set cs \<union> hit skip m es"
  using assms(3-)
proof (induction es arbitrary: cs ev n)
  case (Cons e es)
  obtain k c where e: "e = (k, c)" by (cases e)
  have rest: "\<And>k c. (k, c) \<in> set es \<Longrightarrow> listed m k = Some c" and own: "listed m k = Some c" using Cons.prems(3) by (simp_all add: e)
  have sk: "skip k c (sm_conns n c) = skip k c (sm_conns m c)" by (rule spares_closed [OF sp Cons.prems(2)])
  show ?case
  proof (cases "skip k c (sm_conns m c)")
    case True
    then have "close_entry skip e (cs, ev, n) = (cs, ev, n)" by (simp add: e spared sk)
    with Cons.IH [OF Cons.prems(1,2) rest] Cons.prems(4) True show ?thesis by (simp add: e hit_Cons) metis
  next
    case False
    then have "\<not> skip k c (sm_conns n c)" by (simp add: sk)
    from struck [where skip = skip and ev = ev, OF m Cons.prems(1,2) own this] obtain ev1 n1 where n1: "close_entry skip (k, c) (cs, ev, n) = (cs @ [c], ev1, n1)"
      "registry_inv n1" "closed m (set (cs @ [c])) n1" by (elim exE conjE) (rule that)
    from Cons.IH [OF n1(2,3) rest] Cons.prems(4) n1(1) False show ?thesis by (simp add: e hit_Cons) metis
  qed
qed (simp add: hit_def)

end

lemma owner_struck:
  assumes m: "registry_inv m" and inv: "registry_inv n" and cl: "closed m (set cs) n" and own: "owner_of m k = Some c"
  shows "closed m (set (cs @ [c])) (snd (retireConnLocked c True n))"
proof -
  have ok: "registry_ok (registry_of m)" using m by (simp add: registry_inv_def)
  have key: "conn_key n c = k" using owner_facts(1) [OF ok, of k c] own closed_facts(3) [OF cl, of c] by simp
  have "claim_of m k = None" using claim_facts(3) [OF ok, of k] own by (cases "claim_of m k") auto
  then have "claim_of n (conn_key n c) \<noteq> Some c" using closed_facts(2) [OF cl, of k c] by (simp add: key)
  then show ?thesis using closed_trans [OF cl retireConn_closed [OF inv]] by simp
qed

lemma claim_struck:
  assumes inv: "registry_inv n" and cl: "closed m (set cs) n" and claim: "claim_of m k = Some c"
  shows "closed m (set (cs @ [c])) (retireClaimLocked k c True n)"
proof (cases "claim_of n k = Some c")
  case True
  then show ?thesis using closed_trans [OF cl retireClaim_closed [OF inv]] by simp
next
  case gone: False
  then have "c \<in> set cs" using closed_facts(2) [OF cl, of k c] claim by blast
  moreover have "retireClaimLocked k c True n = n" using gone by (simp add: retireClaimLocked_def)
  ultimately show ?thesis using cl by (simp add: insert_absorb)
qed

interpretation owners: closing_loop close_owner owner_of
proof
  fix skip k c cs ev and n m :: "'p session_manager"
  show "skip k c (sm_conns n c) \<Longrightarrow> close_owner skip (k, c) (cs, ev, n) = (cs, ev, n)" by (simp add: close_owner_def)
  assume a: "registry_inv m" "registry_inv n" "closed m (set cs) n" "owner_of m k = Some c" "\<not> skip k c (sm_conns n c)"
  then show "\<exists>ev1 n1. close_owner skip (k, c) (cs, ev, n) = (cs @ [c], ev1, n1) \<and> registry_inv n1 \<and> closed m (set (cs @ [c])) n1"
    using owner_struck [OF a(1-4)] retireConn_inv [OF a(2), of c True] by (simp add: close_owner_def split_beta)
qed

interpretation claims: closing_loop close_claim claim_of
proof
  fix skip k c cs ev and n m :: "'p session_manager"
  show "skip k c (sm_conns n c) \<Longrightarrow> close_claim skip (k, c) (cs, ev, n) = (cs, ev, n)" by (simp add: close_claim_def)
  assume a: "registry_inv m" "registry_inv n" "closed m (set cs) n" "claim_of m k = Some c" "\<not> skip k c (sm_conns n c)"
  then show "\<exists>ev1 n1. close_claim skip (k, c) (cs, ev, n) = (cs @ [c], ev1, n1) \<and> registry_inv n1 \<and> closed m (set (cs @ [c])) n1"
    using claim_struck [OF a(2-4)] retireClaim_inv [OF a(2), of k c True] by (simp add: close_claim_def)
qed

section \<open>Which sessions a business auth key has\<close>

lemma in_candidates:
  assumes "owner_of m k = Some c" and "(k, c) \<in> set (sm_byBusiness m a) \<or> (\<exists>sid. k = (a, sid) \<and> (sid, c) \<in> set (sm_byAuthKey m a))"
  shows "(k, c) \<in> set (businessAuthKeyCandidatesLocked a m)"
proof -
  let ?f = "\<lambda>(k, c) out. if owner_of m k = Some c then AList.update k c out else out"
  have "map_of (fold ?f es out) k = Some c" if "(k, c) \<in> set es \<or> map_of out k = Some c" for es out
    using that
  proof (induction es arbitrary: out)
    case (Cons e es)
    obtain k' c' where e: "e = (k', c')" by (cases e)
    have "(k, c) \<in> set es \<or> map_of (?f e out) k = Some c"
      using Cons.prems assms(1) by (cases "k' = k") (auto simp: e update_conv')
    with Cons.IH show ?case by simp
  qed simp
  with assms(2) show ?thesis unfolding businessAuthKeyCandidatesLocked_def by (intro map_of_SomeD) force
qed

lemma users_of_key_are_candidates:
  assumes inv: "registry_inv m" and own: "owner_of m k = Some c" and uses: "connUsesBusinessAuthKey (sm_conns m c) a"
  shows "(k, c) \<in> set (businessAuthKeyCandidatesLocked a m)"
proof (rule in_candidates [OF own])
  have ok: "registry_ok (registry_of m)" using inv by (simp add: registry_inv_def)
  have key: "mc_key (sm_conns m c) = k" using owner_facts(1) [OF ok, of k c] own by simp
  show "(k, c) \<in> set (sm_byBusiness m a) \<or> (\<exists>sid. k = (a, sid) \<and> (sid, c) \<in> set (sm_byAuthKey m a))"
  proof (cases "mc_business (sm_conns m c)")
    case None
    then have "fst k = a" using uses by (simp add: connUsesBusinessAuthKey_def key)
    then have "map_of (sm_byAuthKey m a) (snd k) = Some c"
      using owners_indexed [OF ok] own by (auto simp: indexed_def simp del: map_of_eq_Some_iff)
    then have "(snd k, c) \<in> set (sm_byAuthKey m a)" by (rule map_of_SomeD)
    with \<open>fst k = a\<close> show ?thesis by (metis prod.collapse)
  next
    case (Some b)
    then have "mc_business (sm_conns m c) = Some a" using uses by (simp add: connUsesBusinessAuthKey_def)
    then have "map_of (sm_byBusiness m a) k = Some c"
      using business_indexed [OF ok] own by (simp add: indexed_def business_index_def del: map_of_eq_Some_iff)
    then show ?thesis by (metis map_of_SomeD)
  qed
qed

lemma close_business_closed:
  assumes inv: "registry_inv m" and r: "CloseSessionsForBusinessAuthKey a m = (cs, ev, n)"
  shows "closed m (set cs) n"
    and "c \<in> set cs \<longleftrightarrow> (\<exists>k. (owner_of m k = Some c \<or> claim_of m k = Some c) \<and> connUsesBusinessAuthKey (sm_conns m c) a)"
    and "(k, l) \<in> set (sm_logical n) \<Longrightarrow> fst k \<noteq> a \<and> ls_business l \<noteq> Some a"
proof -
  let ?skip = "\<lambda>_ c d. \<not> connUsesBusinessAuthKey d a"
  have sp: "spares ?skip" by (auto simp: spares_def connUsesBusinessAuthKey_def split: option.split)
  have ok: "registry_ok (registry_of m)" using inv by (simp add: registry_inv_def)
  obtain c1 e1 m1 where f1: "fold (close_owner ?skip) (businessAuthKeyCandidatesLocked a m) ([], [], m) = (c1, e1, m1)"
    by (metis prod_cases3)
  obtain c2 e2 m2 where f2: "fold (close_claim ?skip) (sm_claims m) (c1, e1, m1) = (c2, e2, m2)" by (metis prod_cases3)
  have cl: "claim_of m k = Some c" if "(k, c) \<in> set (sm_claims m)" for k c
    using that ok by (simp add: registry_ok_def owners_ok_def)
  have "closed m (set []) m" by (simp add: closed_refl)
  from owners.loop_closed [OF inv sp inv this _ f1] candidates_owned
  have o: "registry_inv m1 \<and> closed m (set c1) m1 \<and> set c1 = set [] \<union> hit ?skip m (businessAuthKeyCandidatesLocked a m)" by blast
  have o1: "registry_inv m1" "closed m (set c1) m1" and s1: "set c1 = hit ?skip m (businessAuthKeyCandidatesLocked a m)"
    using o unfolding list.set Un_empty_left by blast+
  have o2: "closed m (set c2) m2" and s2: "set c2 = set c1 \<union> hit ?skip m (sm_claims m)"
    using claims.loop_closed [OF inv sp o1 cl f2] by blast+
  have n: "cs = c2" "n = m2\<lparr>sm_logical := filter (\<lambda>e. \<not> (\<lambda>(k, l). fst k = a \<or> ls_business l = Some a) e) (sm_logical m2)\<rparr>"
    using r f1 f2 by (simp_all add: CloseSessionsForBusinessAuthKey_def Let_def)
  show "closed m (set cs) n" using o2 by (simp add: n closed_def)
  show "(k, l) \<in> set (sm_logical n) \<Longrightarrow> fst k \<noteq> a \<and> ls_business l \<noteq> Some a" by (auto simp: n)
  have owned: "(k, c) \<in> set (businessAuthKeyCandidatesLocked a m) \<longleftrightarrow> owner_of m k = Some c"
    if "connUsesBusinessAuthKey (sm_conns m c) a" for k
    using users_of_key_are_candidates [OF inv _ that] candidates_owned by blast
  have "(k, c) \<in> set (sm_claims m) \<longleftrightarrow> claim_of m k = Some c" for k using cl map_of_SomeD by metis
  with owned show "c \<in> set cs \<longleftrightarrow> (\<exists>k. (owner_of m k = Some c \<or> claim_of m k = Some c) \<and> connUsesBusinessAuthKey (sm_conns m c) a)"
    unfolding n(1) s2 s1 hit_def by blast
qed

end
