(* ===== verification/Session_Properties.thy ===== *)
theory Session_Properties
  imports Session_Flush Session_Revocation
begin

text \<open>
  What the session manager promises, in every state reached by its operations, its flush workers, its
  producers and its senders under any interleaving and any iteration order of the Go maps.
\<close>

section \<open>A small run\<close>

text \<open>A small run of the manager: one device signs in, a push is kept for it, and its flush begins.\<close>

fun run_commands :: "command list \<Rightarrow> 'p session_manager \<Rightarrow> 'p session_manager option" where
  "run_commands [] m = Some m"
| "run_commands (cmd # cmds) m = (case run_command cmd m of None \<Rightarrow> None | Some n \<Rightarrow> run_commands cmds n)"

fun command_turns :: "command list \<Rightarrow> 'p session_manager \<Rightarrow> (nat \<Rightarrow> nat) \<Rightarrow> nat \<Rightarrow> nat" where
  "command_turns [] m t = t"
| "command_turns (cmd # cmds) m t = (case run_command cmd m of None \<Rightarrow> t | Some n \<Rightarrow> command_turns cmds n (turned m n t))"

lemma reach_commands:
  assumes "world_reach bound fu w" and "run_commands cmds (pw_mgr w) = Some m"
  shows "world_reach bound fu (w\<lparr>pw_mgr := m, pw_turns := command_turns cmds (pw_mgr w) (pw_turns w)\<rparr>)"
  using assms
proof (induction cmds arbitrary: w)
  case (Cons cmd cmds)
  then obtain n where n: "run_command cmd (pw_mgr w) = Some n" "run_commands cmds n = Some m" by (auto split: option.splits)
  have "world_reach bound fu (w\<lparr>pw_mgr := n, pw_turns := turned (pw_mgr w) n (pw_turns w)\<rparr>)"
    by (rule world_reach.step [OF Cons.prems(1) world_step.command [OF n(1)]])
  from Cons.IH [OF this] n show ?case by simp
next
  case Nil
  from Nil(2) have "w\<lparr>pw_mgr := m, pw_turns := command_turns [] (pw_mgr w) (pw_turns w)\<rparr> = w" by auto
  with Nil(1) show ?case by simp
qed

lemma commands_total: "registry_inv m \<Longrightarrow> \<exists>n. run_commands cmds m = Some n"
proof (induction cmds arbitrary: m)
  case (Cons cmd cmds)
  obtain n where n: "run_command cmd m = Some n" using command_total [OF Cons.prems] by blast
  with Cons.IH [OF run_command_inv [OF Cons.prems n]] show ?case by simp
qed simp

definition device_key :: session_key where "device_key = ([1], 5)"

definition demo_conns :: "nat \<Rightarrow> mconn" where
  "demo_conns c = \<lparr>mc_key = device_key, mc_created = int c, mc_life = Provisional, mc_open = True, mc_business = None,
     mc_user = 0, mc_userResolved = False, mc_receives = False, mc_profile = None, mc_synced = False, mc_gen = 0\<rparr>"

definition demo_cmds :: "command list" where
  "demo_cmds = [CmdClaim Quiet 0, CmdBegin 0, CmdPublish Quiet 0, CmdBindAuthKey [1] 5 [2], CmdBindUser [1] 5 7,
     CmdProfile (Some 200) 0, CmdInterest device_key 7 [30], CmdClaim Quiet 1]"

definition demo_signed_in :: "int session_manager" where
  "demo_signed_in = the (run_commands demo_cmds (NewSessionManager demo_conns))"

definition demo_kept :: "int session_manager" where
  "demo_kept = snd (snd (push_rescan \<lparr>pf_excludeAuth = None, pf_excludeSession = 0, pf_excludeBusiness = None, pf_minLayer = 0, pf_queue = True\<rparr>
     0 7 7 (Some 0) (snd (preparePendingPush 0 10 demo_signed_in))))"

definition demo_ready :: "int session_manager" where
  "demo_ready = snd (SetReceivesUpdatesForAuthKey device_key True demo_kept)"

definition demo_taken :: "int flusher \<times> int session_manager" where
  "demo_taken = flush_take 1 0 device_key 7 0 demo_ready"

lemma demo_fresh: "fresh_conn (demo_conns c)"
  by (simp add: demo_conns_def fresh_conn_def)

lemma demo_login: "run_commands demo_cmds (NewSessionManager demo_conns) = Some demo_signed_in"
proof -
  have "registry_inv (NewSessionManager demo_conns :: int session_manager)" by (rule start_registry) (rule demo_fresh)
  from commands_total [OF this, of demo_cmds] show ?thesis by (auto simp: demo_signed_in_def)
qed

lemma demo_facts:
  "owner_of demo_signed_in device_key = Some 0" "mc_user (sm_conns demo_signed_in 0) = 7" "mc_life (sm_conns demo_signed_in 1) = Claiming"
  "mc_business (sm_conns demo_signed_in 0) = Some [2]" "map_of (ci_byChannel (sm_interest demo_signed_in) 30) device_key = Some 7"
  by code_simp+

lemma demo_prepared: "fst (preparePendingPush 0 10 demo_signed_in) = Inr 0"
  by code_simp

lemma demo_flush: "fst (SetReceivesUpdatesForAuthKey device_key True demo_kept) = Some (FlTake 0 device_key 7 0)"
  "fst demo_taken = FlCheck 0 device_key 7 0 [\<lparr>qp_updates = 7, qp_reservation = 0, qp_at = 0\<rparr>]"
  by code_simp+

section \<open>The run as a reachable state\<close>

definition demo_turns :: "nat \<Rightarrow> nat" where
  "demo_turns = command_turns demo_cmds (NewSessionManager demo_conns :: int session_manager) (\<lambda>_. 0)"

definition demo_world_of :: "int session_manager \<Rightarrow> int flusher list \<Rightarrow> nat list \<Rightarrow> int push_world" where
  "demo_world_of m fs ps = \<lparr>pw_mgr = m, pw_flushers = fs, pw_producers = ps, pw_next = length ps, pw_sends = [],
     pw_marks = (\<lambda>_. (0, 0)), pw_turns = demo_turns, pw_log = []\<rparr>"

lemmas demo_fields = demo_world_of_def push_world.simps

definition demo_online :: "int push_world" where
  "demo_online = demo_world_of demo_signed_in [] []"

definition demo_pushes :: "int queued_push list" where
  "demo_pushes = [\<lparr>qp_updates = 7, qp_reservation = 0, qp_at = 0\<rparr>]"

text \<open>The worker has checked the identity of the connection and is about to hand the push over.\<close>

definition demo_flushing :: "int push_world" where
  "demo_flushing = (demo_world_of (snd demo_taken) [FlSend 0 device_key 7 0 demo_pushes] [0])
     \<lparr>pw_marks := (\<lambda>_. (0, 0))(0 := (7, demo_turns 0))\<rparr>"

lemma demo_online_reach: "world_reach bound fu demo_online"
proof -
  let ?s = "world_start demo_conns :: int push_world"
  have "demo_online = ?s\<lparr>pw_mgr := demo_signed_in, pw_turns := command_turns demo_cmds (pw_mgr ?s) (pw_turns ?s)\<rparr>"
    by (simp add: demo_online_def demo_fields world_start_def demo_turns_def)
  moreover have "world_reach bound fu ?s" by (rule world_reach.start) (rule demo_fresh)
  ultimately show ?thesis using reach_commands [of bound fu ?s demo_cmds demo_signed_in] demo_login by (simp add: world_start_def)
qed

lemma demo_online_mgr [simp]: "pw_mgr demo_online = demo_signed_in"
  by (simp add: demo_online_def demo_fields)

lemma demo_resolved: "owner_of demo_kept device_key = Some 0" "mc_business (sm_conns demo_kept 0) = Some [2]"
  "mc_user (sm_conns (snd demo_taken) 0) = 7"
  by code_simp+

lemma demo_kept_reach: "world_reach True (\<lambda>p. p) (demo_world_of demo_kept [] [0])"
proof -
  let ?prep = "snd (preparePendingPush 0 10 demo_signed_in)"
  have "world_step True (\<lambda>p. p) demo_online (demo_world_of ?prep [] [0])"
    using world_step.prepare [of demo_online 10 0 ?prep True "\<lambda>p. p"] demo_prepared
    by (simp add: demo_online_def demo_fields prod_eq_iff)
  with demo_online_reach have r1: "world_reach True (\<lambda>p. p) (demo_world_of ?prep [] [0])" by (rule world_reach.step)
  have "world_step True (\<lambda>p. p) (demo_world_of ?prep [] [0]) (demo_world_of demo_kept [] [0])"
    using world_step.push_user [of _ 0 7 7 "Some 0" "demo_world_of ?prep [] [0]" _ _ demo_kept "\<lambda>p. p" True]
    by (simp add: demo_kept_def demo_fields prod_eq_iff)
  with r1 show ?thesis by (rule world_reach.step)
qed

lemma demo_ready_reach: "world_reach True (\<lambda>p. p) (demo_world_of demo_ready [FlTake 0 device_key 7 0] [0])"
proof -
  have "world_step True (\<lambda>p. p) (demo_world_of demo_kept [] [0]) (demo_world_of demo_ready [FlTake 0 device_key 7 0] [0])"
    using world_step.set_receives [of device_key True "demo_world_of demo_kept [] [0]" "Some (FlTake 0 device_key 7 0)" demo_ready True "\<lambda>p. p"]
      demo_flush(1) demo_resolved by (simp add: demo_ready_def demo_fields prod_eq_iff)
  with demo_kept_reach show ?thesis by (rule world_reach.step)
qed

lemma demo_reach: "world_reach True (\<lambda>p. p) demo_flushing"
proof -
  let ?w = "\<lambda>m f. demo_world_of m [f] [0]"
  have "world_step True (\<lambda>p. p) (?w demo_ready (FlTake 0 device_key 7 0)) (?w (snd demo_taken) (FlCheck 0 device_key 7 0 demo_pushes))"
    using world_step.flush_takes [of 0 "?w demo_ready (FlTake 0 device_key 7 0)" 0 device_key 7 0 1 _ "snd demo_taken" True "\<lambda>p. p"] demo_flush(2)
    by (simp add: demo_taken_def demo_pushes_def demo_fields prod_eq_iff)
  with demo_ready_reach have r: "world_reach True (\<lambda>p. p) (?w (snd demo_taken) (FlCheck 0 device_key 7 0 demo_pushes))" by (rule world_reach.step)
  have "flush_check 0 device_key 7 0 demo_pushes (snd demo_taken) = (FlSend 0 device_key 7 0 demo_pushes, snd demo_taken)"
    by (simp add: flush_check_def demo_pushes_def demo_resolved)
  then have "world_step True (\<lambda>p. p) (?w (snd demo_taken) (FlCheck 0 device_key 7 0 demo_pushes)) demo_flushing"
    using world_step.flush_checks [of 0 "?w (snd demo_taken) (FlCheck 0 device_key 7 0 demo_pushes)" 0 device_key 7 0 demo_pushes _ _ True "\<lambda>p. p"]
    by (simp add: demo_flushing_def demo_fields check_mark_def demo_resolved)
  with r show ?thesis by (rule world_reach.step)
qed

text \<open>The handover, at once and after the connection was bound to another user.\<close>

definition demo_handed :: "int session_manager \<Rightarrow> (nat \<Rightarrow> nat) \<Rightarrow> int push_world" where
  "demo_handed m t = (let w = demo_flushing\<lparr>pw_mgr := m, pw_turns := t\<rparr> in
     case flush_send (Encoded 200 0) None 0 device_key 7 0 demo_pushes m of
       (f, n) \<Rightarrow> w\<lparr>pw_mgr := n, pw_flushers := [f], pw_log := handed 0 7 (7, demo_turns 0) w\<rparr>)"

lemma demo_handed_reach:
  assumes "world_reach True (\<lambda>p. p) (demo_flushing\<lparr>pw_mgr := m, pw_turns := t\<rparr>)"
  shows "world_reach True (\<lambda>p. p) (demo_handed m t)"
proof -
  let ?w = "demo_flushing\<lparr>pw_mgr := m, pw_turns := t\<rparr>"
  obtain f n where s: "flush_send (Encoded 200 0) None 0 device_key 7 0 demo_pushes m = (f, n)" by fastforce
  have "world_step True (\<lambda>p. p) ?w (demo_handed m t)"
    using world_step.flush_sends [of 0 ?w 0 device_key 7 0 demo_pushes "Encoded 200 0" None f n True "\<lambda>p. p"] s
    by (simp add: demo_handed_def demo_flushing_def demo_fields demo_pushes_def Let_def)
  with assms show ?thesis by (rule world_reach.step)
qed

section \<open>The registry\<close>

lemma reach_ok: "world_reach bound fu w \<Longrightarrow> registry_ok (registry_of (pw_mgr w))"
  using reach_registry [of bound fu w] by (simp add: registry_inv_def)

text \<open>C33: every secondary index holds exactly the sessions it should and no key twice: the sessions and
  claims of a raw auth key, the sessions bound to a business auth key, and the sessions of a user.\<close>

theorem session_indexes_exact:
  assumes "world_reach bound fu w"
  shows "map_of (sm_byAuthKey (pw_mgr w) a) sid = owner_of (pw_mgr w) (a, sid)
    \<and> map_of (sm_claimsByAuth (pw_mgr w) a) sid = claim_of (pw_mgr w) (a, sid)
    \<and> (map_of (sm_byBusiness (pw_mgr w) a) k = Some c \<longleftrightarrow>
         owner_of (pw_mgr w) k = Some c \<and> mc_business (sm_conns (pw_mgr w) c) = Some a)
    \<and> (map_of (sm_byUser (pw_mgr w) u) k = Some c \<longleftrightarrow>
         owner_of (pw_mgr w) k = Some c \<and> u \<noteq> 0 \<and> mc_user (sm_conns (pw_mgr w) c) = u)
    \<and> distinct (map fst (sm_byAuthKey (pw_mgr w) a)) \<and> distinct (map fst (sm_claimsByAuth (pw_mgr w) a))
    \<and> distinct (map fst (sm_byBusiness (pw_mgr w) a)) \<and> distinct (map fst (sm_byUser (pw_mgr w) u))"
proof -
  have ok: "registry_ok (registry_of (pw_mgr w))" by (rule reach_ok [OF assms])
  have b: "map_of (sm_byBusiness (pw_mgr w) a) k = business_index (registry_of (pw_mgr w)) a k"
    and us: "map_of (sm_byUser (pw_mgr w) u) k = user_index (registry_of (pw_mgr w)) u k"
    using business_indexed [OF ok] users_indexed [OF ok] by (simp_all add: indexed_def)
  have "map_of (sm_byBusiness (pw_mgr w) a) k = Some c \<longleftrightarrow>
      owner_of (pw_mgr w) k = Some c \<and> mc_business (sm_conns (pw_mgr w) c) = Some a"
    unfolding b by (auto simp: business_index_def split: option.splits if_splits)
  moreover have "map_of (sm_byUser (pw_mgr w) u) k = Some c \<longleftrightarrow>
      owner_of (pw_mgr w) k = Some c \<and> u \<noteq> 0 \<and> mc_user (sm_conns (pw_mgr w) c) = u"
    unfolding us by (auto simp: user_index_def split: option.splits if_splits)
  ultimately show ?thesis
    using owners_indexed [OF ok] claims_indexed [OF ok] business_indexed [OF ok] users_indexed [OF ok]
    by (simp add: indexed_def del: map_of_eq_Some_iff)
qed

theorem session_indexes_exact_witness: "map_of (sm_byUser demo_signed_in 7) device_key = Some 0 \<and> map_of (sm_byBusiness demo_signed_in [2]) device_key = Some 0"
  using session_indexes_exact [OF demo_online_reach, where u = 7 and k = device_key and c = 0 and a = "[2]"] demo_facts
  by (simp del: map_of_eq_Some_iff)

text \<open>C32: a session key has one owner. Two active connections of the same key are the same connection; an
  owner carries the key it is listed under; a claim excludes an owner; and only the connection that holds
  the claim can become the owner.\<close>

theorem session_has_one_owner:
  assumes "world_reach bound fu w" and "PublishActivation race c (pw_mgr w) = (res, n)"
  shows "(mc_life (sm_conns (pw_mgr w) x) = Active \<and> mc_life (sm_conns (pw_mgr w) y) = Active
      \<and> conn_key (pw_mgr w) x = conn_key (pw_mgr w) y \<longrightarrow> x = y)
    \<and> (owner_of (pw_mgr w) k = Some x \<longrightarrow> conn_key (pw_mgr w) x = k \<and> mc_life (sm_conns (pw_mgr w) x) \<in> {Active, Retired})
    \<and> (claim_of (pw_mgr w) k = Some x \<longrightarrow> conn_key (pw_mgr w) x = k \<and> owner_of (pw_mgr w) k = None
        \<and> mc_life (sm_conns (pw_mgr w) x) \<in> {Claiming, Retired})
    \<and> (claim_of (pw_mgr w) (conn_key (pw_mgr w) c) \<noteq> Some c \<longrightarrow> res = Some ErrSessionActivationSuperseded \<and> n = pw_mgr w)
    \<and> (res = None \<longrightarrow> owner_of n (conn_key (pw_mgr w) c) = Some c \<and> mc_life (sm_conns n c) = Active)"
proof -
  have ok: "registry_ok (registry_of (pw_mgr w))" by (rule reach_ok [OF assms(1)])
  have "owner_of (pw_mgr w) (conn_key (pw_mgr w) z) = Some z" if "mc_life (sm_conns (pw_mgr w) z) = Active" for z
    using ok that unfolding registry_ok_def owners_ok_def by simp
  then have "x = y" if "mc_life (sm_conns (pw_mgr w) x) = Active" "mc_life (sm_conns (pw_mgr w) y) = Active"
      "conn_key (pw_mgr w) x = conn_key (pw_mgr w) y"
    using that by (metis option.inject)
  moreover have "res = Some ErrSessionActivationSuperseded \<and> n = pw_mgr w"
    if "claim_of (pw_mgr w) (conn_key (pw_mgr w) c) \<noteq> Some c"
    using that assms(2) by (auto simp: PublishActivation_def Let_def)
  moreover have "owner_of n (conn_key (pw_mgr w) c) = Some c \<and> mc_life (sm_conns n c) = Active" if "res = None"
    using publish_registry [OF reach_registry [OF assms(1)] assms(2)] that by blast
  ultimately show ?thesis
    using owner_facts [OF ok, of k x] claim_facts [OF ok, of k x] by (simp del: map_of_eq_Some_iff)
qed

theorem session_has_one_owner_witness: "claim_of demo_signed_in device_key \<noteq> Some 1 \<and> PublishActivation Quiet 1 demo_signed_in = (Some ErrSessionActivationSuperseded, demo_signed_in)"
proof -
  have k: "conn_key demo_signed_in 1 = device_key" and cl: "claim_of demo_signed_in device_key \<noteq> Some 1" by code_simp+
  obtain res n where p: "PublishActivation Quiet 1 demo_signed_in = (res, n)" by (cases "PublishActivation Quiet 1 demo_signed_in")
  then have "PublishActivation Quiet 1 (pw_mgr demo_online) = (res, n)" by simp
  from session_has_one_owner [OF demo_online_reach this] cl p k show ?thesis
    by (simp del: map_of_eq_Some_iff)
qed

text \<open>C34: beginning an activation always ends: the loop that evicts the oldest sessions of the auth key
  finishes, the key never has more than 256 owners and claims, and the connection then holds the claim.\<close>

theorem activation_within_cap:
  assumes "world_reach bound fu w"
  shows "\<exists>res n. begin_locked c (pw_mgr w) = Some (res, n) \<and> (\<forall>a. auth_load a n \<le> maxSessionsPerAuthKey)
    \<and> (\<forall>cs. res = Inr cs \<longrightarrow> claim_of n (conn_key (pw_mgr w) c) = Some c)"
  using begin_locked_ok [OF reach_registry [OF assms], of c] unfolding registry_inv_def by blast

theorem activation_within_cap_witness: "\<exists>res n. begin_locked 1 demo_signed_in = Some (res, n) \<and> (\<forall>a. auth_load a n \<le> maxSessionsPerAuthKey)"
  using activation_within_cap [OF demo_online_reach, of 1] by auto

section \<open>Channel routes\<close>

text \<open>C36: the forward and the reverse map of each channel index agree, their sizes respect the caps, and
  every route leads to a live session of the user it names.\<close>

theorem channel_routes_exact:
  assumes "world_reach bound fu w"
  shows "(\<forall>x\<in>{sm_interest (pw_mgr w), sm_members (pw_mgr w)}.
      (ch \<in> set (ci_bySession x k) \<longleftrightarrow> map_of (ci_byChannel x ch) k \<noteq> None)
      \<and> length (ci_bySession x k) \<le> maxChannelIndexPerSession
      \<and> (\<forall>u. map_of (ci_byChannel x ch) k = Some u \<longrightarrow> u \<noteq> 0 \<and> live_user (pw_mgr w) k u))
    \<and> map_of (si_bySession (sm_subs (pw_mgr w)) k) ch = map_option cs_expiresAt (map_of (si_byChannel (sm_subs (pw_mgr w)) ch) k)
    \<and> length (si_bySession (sm_subs (pw_mgr w)) k) \<le> maxChannelSubscriptionsPerSession
    \<and> (\<forall>s. map_of (si_byChannel (sm_subs (pw_mgr w)) ch) k = Some s \<longrightarrow> cs_user s \<noteq> 0 \<and> live_user (pw_mgr w) k (cs_user s))"
proof -
  note r = routes_okD [OF reach_routes [OF assms]]
  have live: "u \<noteq> 0 \<and> live_user (pw_mgr w) k u" if "route_user (registry_of (pw_mgr w)) k u" for u
    using that live_route_user [of u "pw_mgr w" k] by (simp add: route_user_def)
  have "(ch \<in> set (ci_bySession x k) \<longleftrightarrow> map_of (ci_byChannel x ch) k \<noteq> None)
      \<and> length (ci_bySession x k) \<le> maxChannelIndexPerSession
      \<and> (\<forall>u. map_of (ci_byChannel x ch) k = Some u \<longrightarrow> u \<noteq> 0 \<and> live_user (pw_mgr w) k u)"
    if "index_ok x" and "index_users (route_user (registry_of (pw_mgr w))) x" for x
    using index_entry [OF that(1), of ch k] index_rev [OF that(1), of k] that(2) live unfolding index_users_def by blast
  moreover have "\<forall>s. map_of (si_byChannel (sm_subs (pw_mgr w)) ch) k = Some s \<longrightarrow> cs_user s \<noteq> 0 \<and> live_user (pw_mgr w) k (cs_user s)"
    using r(6) live unfolding subs_users_def by blast
  ultimately show ?thesis using r subs_entry [OF r(5)] subs_rev [OF r(5)] by simp
qed

theorem channel_routes_exact_witness: "map_of (ci_byChannel (sm_interest demo_signed_in) 30) device_key = Some 7 \<and> live_user demo_signed_in device_key 7"
  using channel_routes_exact [OF demo_online_reach, where ch = 30 and k = device_key] demo_facts by simp

section \<open>Pushes\<close>



text \<open>The proviso is needed: the identity is read before the push is handed over and without the lock, and a
  connection bound to another user in between receives a push of the previous account.\<close>

theorem handover_races_with_rebinding:
  "\<exists>w e. world_reach True (\<lambda>p :: int. p) w \<and> e \<in> set (pw_log w) \<and> ho_checked e = 7 \<and> ho_push e = 7 \<and> ho_user e = 8 \<and> ho_rebound e"
proof -
  let ?m = "BindUserForAuthKey [1] 5 8 (snd demo_taken)" and ?t = "turned (snd demo_taken) (BindUserForAuthKey [1] 5 8 (snd demo_taken)) demo_turns"
  have "world_step True (\<lambda>p. p) demo_flushing (demo_flushing\<lparr>pw_mgr := ?m, pw_turns := ?t\<rparr>)"
    using world_step.command [of "CmdBindUser [1] 5 8" demo_flushing ?m True "\<lambda>p. p"] by (simp add: demo_flushing_def demo_fields)
  with demo_reach have "world_reach True (\<lambda>p. p) (demo_flushing\<lparr>pw_mgr := ?m, pw_turns := ?t\<rparr>)" by (rule world_reach.step)
  from demo_handed_reach [OF this] have r: "world_reach True (\<lambda>p. p) (demo_handed ?m ?t)" .
  let ?e = "\<lparr>ho_conn = 0, ho_push = 7, ho_checked = 7, ho_user = 8, ho_rebound = True\<rparr> :: int handover"
  have u: "mc_user (sm_conns ?m 0) = 8" by code_simp
  then have "?t 0 \<noteq> demo_turns 0" using demo_resolved(3) by (simp add: turned_def)
  then have "?e \<in> set (pw_log (demo_handed ?m ?t))"
    by (simp add: demo_handed_def handed_def demo_flushing_def demo_fields u Let_def split: prod.split)
  with r show ?thesis by (intro exI [of _ "demo_handed ?m ?t"] exI [of _ ?e]) simp
qed

text \<open>C37: each body of a push is charged exactly while someone holds it. The reference count of a
  reservation is the number of kept pushes, producers and flush workers that hold it, the budget is the
  sum of the bytes of the held reservations, a queue has at most 32 pushes, and no counter underflows.\<close>

theorem kept_push_accounting:
  assumes "world_reach bound fu w"
  shows "(\<forall>r. pr_refs (sm_reservations (pw_mgr w) r) = int (count (kept_refs (pw_mgr w) + world_refs w) r))
    \<and> tb_used (sm_budget (pw_mgr w)) =
        (\<Sum>r\<in>set_mset (kept_refs (pw_mgr w) + world_refs w). pr_bytes (sm_reservations (pw_mgr w) r))
    \<and> tb_used (sm_budget (pw_mgr w)) \<le> tb_max (sm_budget (pw_mgr w))
    \<and> length (pending_of (pw_mgr w) k) \<le> maxPendingPushesPerSession \<and> \<not> sm_panic (pw_mgr w)"
proof -
  let ?m = "pw_mgr w" and ?H = "kept_refs (pw_mgr w) + world_refs w"
  have h: "resv_ok (pw_next w) ?H ?m" and q: "queues_ok ?m" using reach_held [OF assms] by (simp_all add: held_inv_def held_ok_def)
  have sub: "set_mset ?H \<subseteq> {..<pw_next w}" using h by (auto simp: resv_ok_def)
  have "sum (resv_charge (sm_reservations ?m) ?H) {..<pw_next w} = (\<Sum>r\<in>set_mset ?H. pr_bytes (sm_reservations ?m r))"
    by (rule sum.mono_neutral_cong_right) (use sub in \<open>auto simp: resv_charge_def\<close>)
  moreover have "length (pending_of ?m k) \<le> maxPendingPushesPerSession" using q unfolding queues_ok_def by blast
  ultimately show ?thesis using h unfolding resv_ok_def tracked_inv_def by simp
qed

theorem kept_push_accounting_witness: "pr_refs (sm_reservations (snd demo_taken) 0) = 2 \<and> tb_used (sm_budget (snd demo_taken)) = 10"
proof -
  have p: "sm_pending (snd demo_taken) = []" and b: "pr_bytes (sm_reservations (snd demo_taken) 0) = 10" by code_simp+
  show ?thesis
    using kept_push_accounting [OF demo_reach] p b by (simp add: demo_flushing_def demo_fields demo_pushes_def kept_refs_def world_refs_def)
qed

lemma kept_queue_bound:
  assumes "world_reach bound fu w"
  shows "length (pending_of (pw_mgr w) k) \<le> maxPendingPushesPerSession"
  using reach_held [OF assms] unfolding held_inv_def held_ok_def queues_ok_def by blast

text \<open>C38: a flush that nothing interferes with always ends, whatever the encoder and the connection
  answer: nothing stays kept, the session is ready or its connection is closed, pushes are delivered at
  most once and in order, and all that were not stale are delivered when no write failed.\<close>

theorem flush_always_ends:
  assumes "world_reach bound fu w" and "SetReceivesUpdatesForAuthKey k receives (pw_mgr w) = (Some (FlTake c k u 0), m)"
  shows "\<exists>N n ds. flush_alone env 0 N (FlTake c k u 0) m = (FlDone, n, ds) \<and> pending_of n k = []
    \<and> (\<not> sm_flushing n k \<and> mc_receives (sm_conns n c) \<or> mc_life (sm_conns n c) = Retired \<and> \<not> mc_open (sm_conns n c))
    \<and> subseq (delivered ds) (payloads (pending_of m k))
    \<and> (faultless ds \<longrightarrow> delivered ds = payloads (fresh_at (fst (env 0)) (pending_of m k)))"
proof -
  obtain d where own: "owner_of (pw_mgr w) k = Some d" and r: "setReceivesUpdatesLocked d k receives (pw_mgr w) = (Some u, m)" and "d = c"
    using assms(2) by (auto simp: SetReceivesUpdatesForAuthKey_def split: option.splits prod.splits)
  then have u: "u = mc_user (sm_conns (pw_mgr w) c)" and m: "m = (pw_mgr w)\<lparr>sm_flushing := (sm_flushing (pw_mgr w))(k := True)\<rparr>"
    by (auto simp: setReceivesUpdatesLocked_def split: if_splits)
  have "flushes c k u m" using own \<open>d = c\<close> by (simp add: flushes_def u m)
  moreover have "length (pending_of m k) \<le> maxPendingPushesPerSession"
    using kept_queue_bound [OF assms(1), of k] by (simp add: m pending_queue)
  ultimately have "ends env c k 0 (FlTake c k u 0) m (payloads (pending_of m k)) (payloads (fresh_at (fst (env 0)) (pending_of m k)))"
    by (rule take_ends) (simp add: maxFlushAttempts_def)
  then show ?thesis unfolding ends_def settled_def by blast
qed

theorem flush_always_ends_witness:
  "\<exists>N n ds. flush_alone (\<lambda>_. (1, Encoded 200 0, None)) 0 N (FlTake 0 device_key 7 0) demo_ready = (FlDone, n, ds)
    \<and> pending_of n device_key = [] \<and> subseq (delivered ds) [7]"
proof -
  have s: "SetReceivesUpdatesForAuthKey device_key True demo_kept = (Some (FlTake 0 device_key 7 0), demo_ready)"
    using demo_flush(1) by (simp add: demo_ready_def prod_eq_iff)
  have p: "payloads (pending_of demo_ready device_key) = [7]" by code_simp
  show ?thesis
    using flush_always_ends [OF demo_kept_reach, of device_key True 0 7 demo_ready "\<lambda>_. (1, Encoded 200 0, None)"] s p
    by (simp add: demo_fields del: flush_alone.simps) blast
qed

section \<open>Revocation\<close>

text \<open>C35: revoking a business auth key closes exactly its connections: the connections returned for closing
  are those that own or claim a session and use the key, they are retired, every other connection keeps
  its lifecycle and its place as owner or claim, and no logical session of the key survives.\<close>

theorem revocation_exact:
  assumes "world_reach bound fu w" and "CloseSessionsForBusinessAuthKey a (pw_mgr w) = (cs, ev, n)"
  shows "(owner_of n k = Some c \<longleftrightarrow> owner_of (pw_mgr w) k = Some c \<and> \<not> connUsesBusinessAuthKey (sm_conns (pw_mgr w) c) a)
    \<and> (claim_of n k = Some c \<longleftrightarrow> claim_of (pw_mgr w) k = Some c \<and> \<not> connUsesBusinessAuthKey (sm_conns (pw_mgr w) c) a)
    \<and> (c \<in> set cs \<longleftrightarrow> (\<exists>j. owner_of (pw_mgr w) j = Some c \<or> claim_of (pw_mgr w) j = Some c)
                        \<and> connUsesBusinessAuthKey (sm_conns (pw_mgr w) c) a)
    \<and> mc_life (sm_conns n c) = (if c \<in> set cs then Retired else mc_life (sm_conns (pw_mgr w) c))
    \<and> ((k, l) \<in> set (sm_logical n) \<longrightarrow> fst k \<noteq> a \<and> ls_business l \<noteq> Some a)"
proof -
  note r = close_business_closed [OF reach_registry [OF assms(1)] assms(2)]
  note f = closed_facts [OF r(1)]
  have hit: "c \<in> set cs" if "owner_of (pw_mgr w) k = Some c \<or> claim_of (pw_mgr w) k = Some c" "connUsesBusinessAuthKey (sm_conns (pw_mgr w) c) a"
    using r(2) [of c] that by blast
  have miss: "connUsesBusinessAuthKey (sm_conns (pw_mgr w) c) a" if "c \<in> set cs" using r(2) [of c] that by blast
  have listed: "c \<in> set cs \<longleftrightarrow> (\<exists>j. owner_of (pw_mgr w) j = Some c \<or> claim_of (pw_mgr w) j = Some c)
      \<and> connUsesBusinessAuthKey (sm_conns (pw_mgr w) c) a" using r(2) [of c] by blast
  have "owner_of n k = Some c \<longleftrightarrow> owner_of (pw_mgr w) k = Some c \<and> \<not> connUsesBusinessAuthKey (sm_conns (pw_mgr w) c) a"
    "claim_of n k = Some c \<longleftrightarrow> claim_of (pw_mgr w) k = Some c \<and> \<not> connUsesBusinessAuthKey (sm_conns (pw_mgr w) c) a"
    using f(1,2) [of k c] hit miss by blast+
  with listed f(5) [of c] r(3) [of k l] show ?thesis by blast
qed

theorem revocation_exact_witness:
  "\<exists>cs ev n. CloseSessionsForBusinessAuthKey [2] demo_signed_in = (cs, ev, n) \<and> owner_of n device_key \<noteq> Some 0 \<and> 0 \<in> set cs \<and> mc_life (sm_conns n 0) = Retired"
proof -
  obtain cs ev n where r: "CloseSessionsForBusinessAuthKey [2] demo_signed_in = (cs, ev, n)" by (metis prod_cases3)
  then have "CloseSessionsForBusinessAuthKey [2] (pw_mgr demo_online) = (cs, ev, n)" by simp
  from revocation_exact [OF demo_online_reach this, of device_key 0]
  have "(owner_of n device_key = Some 0 \<longleftrightarrow> owner_of demo_signed_in device_key = Some 0
      \<and> \<not> connUsesBusinessAuthKey (sm_conns demo_signed_in 0) [2])
    \<and> (0 \<in> set cs \<longleftrightarrow> (\<exists>j. owner_of demo_signed_in j = Some 0 \<or> claim_of demo_signed_in j = Some 0)
        \<and> connUsesBusinessAuthKey (sm_conns demo_signed_in 0) [2])
    \<and> mc_life (sm_conns n 0) = (if 0 \<in> set cs then Retired else mc_life (sm_conns demo_signed_in 0))"
    unfolding demo_online_mgr by blast
  moreover have "connUsesBusinessAuthKey (sm_conns demo_signed_in 0) [2]" by (simp add: connUsesBusinessAuthKey_def demo_facts)
  moreover have "\<exists>j. owner_of demo_signed_in j = Some 0 \<or> claim_of demo_signed_in j = Some 0" using demo_facts(1) by blast
  ultimately show ?thesis using r by simp
qed

end
