(* ===== verification/Layer_Profile.thy ===== *)
theory Layer_Profile
  imports Outbound_Send "HOL-Library.Word"
begin

unbundle bit_operations_syntax

text \<open>
  The layer profile of a connection (conn_layer_profile.go, conn.go): which wire layer the client speaks,
  how that is known, and an epoch that advances with every effective change. The three are packed into
  one 64-bit word that readers load atomically; writers hold a mutex, so each operation is one step and
  its compare-and-swap succeeds at the first try. Client message ids order the explicit evidence.

  \<open>resolve\<close> is \<open>tlprofile.ResolveProfile\<close> of a third-party module: the generated profile of a layer, if
  there is one. What the layer registry of the RPC router answers is an argument too.
\<close>

section \<open>The packed state\<close>

type_synonym profile_origin = "8 word"

definition LayerProfileUnknown :: profile_origin where "LayerProfileUnknown = 0"
definition LayerProfileInherited :: profile_origin where "LayerProfileInherited = 1"
definition LayerProfileExplicit :: profile_origin where "LayerProfileExplicit = 2"

record layer_snapshot =
  sn_profile :: int
  sn_origin :: profile_origin
  sn_epoch :: "32 word"

definition no_profile :: layer_snapshot where
  "no_profile = \<lparr>sn_profile = 0, sn_origin = LayerProfileUnknown, sn_epoch = 0\<rparr>"

definition layerProfileValueMask :: "64 word" where "layerProfileValueMask = mask 16"
definition layerProfileOriginMask :: "64 word" where "layerProfileOriginMask = mask 8"

definition packLayerProfileState :: "layer_snapshot \<Rightarrow> 64 word" where
  "packLayerProfileState s =
     push_bit 32 (ucast (sn_epoch s)) OR
     (push_bit 16 (ucast (sn_origin s) AND layerProfileOriginMask) OR
      (word_of_int (sn_profile s) AND layerProfileValueMask))"

definition unpackLayerProfileState :: "64 word \<Rightarrow> layer_snapshot" where
  "unpackLayerProfileState raw =
     (if raw = 0 then no_profile
      else \<lparr>sn_profile = uint (raw AND layerProfileValueMask),
            sn_origin = ucast (drop_bit 16 raw AND layerProfileOriginMask),
            sn_epoch = ucast (drop_bit 32 raw)\<rparr>)"

text \<open>\<open>clientLayer\<close> is an \<open>int32\<close> mirror.\<close>

record layer_conn =
  lc_raw :: "64 word"
  lc_msgID :: int
  lc_layer :: int
  lc_client :: "32 word"

definition new_layer_conn :: layer_conn where
  "new_layer_conn = \<lparr>lc_raw = 0, lc_msgID = 0, lc_layer = 0, lc_client = 0\<rparr>"

definition LayerProfileState :: "layer_conn \<Rightarrow> layer_snapshot" where
  "LayerProfileState c = unpackLayerProfileState (lc_raw c)"

definition LayerProfile :: "layer_conn \<Rightarrow> int \<times> bool" where
  "LayerProfile c = (let s = LayerProfileState c in (sn_profile s, sn_origin s \<noteq> LayerProfileUnknown))"

datatype layer_error =
    ErrLayerProfileUnsupported int
  | ErrLayerProfileOrigin
  | ErrLayerProfileEpochExhausted
  | ErrLayerProfileConflict
  | ErrLayerEvidence int int
  | ErrLayerLookup

definition store_profile :: "layer_snapshot \<Rightarrow> int \<Rightarrow> int \<Rightarrow> int \<Rightarrow> layer_conn \<Rightarrow> layer_conn" where
  "store_profile s layer msgID client c =
     c\<lparr>lc_raw := packLayerProfileState s, lc_layer := layer, lc_msgID := msgID, lc_client := word_of_int client\<rparr>"

section \<open>Changing the profile\<close>

definition validateLayerProfile :: "(int \<Rightarrow> int option) \<Rightarrow> int \<Rightarrow> layer_error option" where
  "validateLayerProfile resolve profile =
     (if resolve profile \<noteq> Some profile \<or> (word_of_int profile :: 64 word) > layerProfileValueMask
      then Some (ErrLayerProfileUnsupported profile) else None)"

definition setLayerProfile ::
  "(int \<Rightarrow> int option) \<Rightarrow> int \<Rightarrow> profile_origin \<Rightarrow> bool \<Rightarrow> layer_conn \<Rightarrow> (layer_error + bool) \<times> layer_conn" where
  "setLayerProfile resolve profile origin replace c =
     (case validateLayerProfile resolve profile of Some e \<Rightarrow> (Inl e, c)
      | None \<Rightarrow>
        if origin \<noteq> LayerProfileInherited \<and> origin \<noteq> LayerProfileExplicit then (Inl ErrLayerProfileOrigin, c)
        else
          let current = LayerProfileState c in
          if origin = LayerProfileInherited \<and> lc_msgID c > 0 then (Inr False, c)
          else if sn_origin current \<noteq> LayerProfileUnknown \<and> \<not> replace then (Inr False, c)
          else if sn_origin current \<noteq> LayerProfileUnknown \<and> sn_profile current = profile \<and> sn_origin current = origin
          then (Inr False, c\<lparr>lc_msgID := 0, lc_layer := 0\<rparr>)
          else if sn_epoch current = - 1 then (Inl ErrLayerProfileEpochExhausted, c)
          else (Inr True, store_profile \<lparr>sn_profile = profile, sn_origin = origin, sn_epoch = sn_epoch current + 1\<rparr>
                 0 0 profile c))"

definition FreezeLayerProfile :: "(int \<Rightarrow> int option) \<Rightarrow> int \<Rightarrow> layer_conn \<Rightarrow> (layer_error + bool) \<times> layer_conn" where
  "FreezeLayerProfile resolve profile = setLayerProfile resolve profile LayerProfileExplicit True"

definition SeedLayerProfile :: "(int \<Rightarrow> int option) \<Rightarrow> int \<Rightarrow> layer_conn \<Rightarrow> (layer_error + bool) \<times> layer_conn" where
  "SeedLayerProfile resolve profile = setLayerProfile resolve profile LayerProfileExplicit True"

definition SeedInheritedLayerProfile :: "(int \<Rightarrow> int option) \<Rightarrow> int \<Rightarrow> layer_conn \<Rightarrow> (layer_error + bool) \<times> layer_conn" where
  "SeedInheritedLayerProfile resolve profile = setLayerProfile resolve profile LayerProfileInherited False"

definition layerProfileRawEvidenceState :: "layer_conn \<Rightarrow> layer_snapshot \<times> int \<times> int" where
  "layerProfileRawEvidenceState c =
     (let s = LayerProfileState c in
      (s, (if lc_layer c = 0 \<and> sn_origin s = LayerProfileExplicit then sn_profile s else lc_layer c), lc_msgID c))"

definition layerProfileEvidenceState :: "layer_conn \<Rightarrow> layer_snapshot \<times> int" where
  "layerProfileEvidenceState c = (case layerProfileRawEvidenceState c of (s, _, i) \<Rightarrow> (s, i))"

definition freezeRawLayerProfileAt ::
  "(int \<Rightarrow> int option) \<Rightarrow> int \<Rightarrow> int \<Rightarrow> layer_conn \<Rightarrow> (layer_error + bool) \<times> layer_conn" where
  "freezeRawLayerProfileAt resolve layer msgID c =
     (if layer \<le> 0 \<or> msgID \<le> 0 then (Inl (ErrLayerEvidence layer msgID), c)
      else
        let current = LayerProfileState c;
            desired = (case resolve layer of
                Some p \<Rightarrow> \<lparr>sn_profile = p, sn_origin = LayerProfileExplicit, sn_epoch = sn_epoch current\<rparr>
              | None \<Rightarrow> \<lparr>sn_profile = 0, sn_origin = LayerProfileUnknown, sn_epoch = sn_epoch current\<rparr>) in
        if lc_msgID c > 0 \<and> msgID < lc_msgID c then (Inr False, c)
        else if lc_msgID c > 0 \<and> msgID = lc_msgID c
        then (if lc_layer c \<noteq> layer then (Inl ErrLayerProfileConflict, c) else (Inr False, c))
        else if sn_profile current = sn_profile desired \<and> sn_origin current = sn_origin desired
        then (Inr True, c\<lparr>lc_layer := layer, lc_msgID := msgID\<rparr>)
        else if sn_epoch current = - 1 then (Inl ErrLayerProfileEpochExhausted, c)
        else (Inr True, store_profile (desired\<lparr>sn_epoch := sn_epoch current + 1\<rparr>) layer msgID
               (if resolve layer \<noteq> None then layer else 0) c))"

definition freezeLayerProfileAt ::
  "(int \<Rightarrow> int option) \<Rightarrow> int \<Rightarrow> int \<Rightarrow> layer_conn \<Rightarrow> (layer_error + bool) \<times> layer_conn" where
  "freezeLayerProfileAt resolve profile msgID c =
     (if msgID \<le> 0 then (Inl (ErrLayerEvidence profile msgID), c)
      else case validateLayerProfile resolve profile of
        Some e \<Rightarrow> (Inl e, c) | None \<Rightarrow> freezeRawLayerProfileAt resolve profile msgID c)"

definition seedOrderedLayerProfile ::
  "(int \<Rightarrow> int option) \<Rightarrow> int \<Rightarrow> int \<Rightarrow> layer_conn \<Rightarrow> layer_error option \<times> layer_conn" where
  "seedOrderedLayerProfile resolve profile msgID c =
     (if msgID < 0 then (Some (ErrLayerEvidence profile msgID), c)
      else case validateLayerProfile resolve profile of Some e \<Rightarrow> (Some e, c)
      | None \<Rightarrow>
        if msgID > 0 then (case freezeRawLayerProfileAt resolve profile msgID c of
            (Inl e, c1) \<Rightarrow> (Some e, c1) | (Inr _, c1) \<Rightarrow> (None, c1))
        else
          let current = LayerProfileState c in
          if sn_profile current \<noteq> profile \<or> sn_origin current \<noteq> LayerProfileExplicit then
            (if sn_epoch current = - 1 then (Some ErrLayerProfileEpochExhausted, c)
             else (None, store_profile
               \<lparr>sn_profile = profile, sn_origin = LayerProfileExplicit, sn_epoch = sn_epoch current + 1\<rparr> 0 msgID profile c))
          else (None, c\<lparr>lc_msgID := msgID, lc_layer := 0\<rparr>))"

definition seedRawLayerEvidence ::
  "(int \<Rightarrow> int option) \<Rightarrow> int \<Rightarrow> int \<Rightarrow> layer_conn \<Rightarrow> layer_error option \<times> layer_conn" where
  "seedRawLayerEvidence resolve layer msgID c =
     (if layer \<le> 0 \<or> msgID \<le> 0 then (Some (ErrLayerEvidence layer msgID), c)
      else case freezeRawLayerProfileAt resolve layer msgID c of
        (Inl e, c1) \<Rightarrow> (Some e, c1) | (Inr _, c1) \<Rightarrow> (None, c1))"

definition refreshInheritedLayerProfile ::
  "(int \<Rightarrow> int option) \<Rightarrow> int \<Rightarrow> layer_conn \<Rightarrow> (layer_error + bool) \<times> layer_conn" where
  "refreshInheritedLayerProfile resolve profile c =
     (case validateLayerProfile resolve profile of Some e \<Rightarrow> (Inl e, c)
      | None \<Rightarrow>
        let current = LayerProfileState c in
        if sn_origin current = LayerProfileExplicit \<or> lc_msgID c > 0 then (Inr False, c)
        else if sn_origin current = LayerProfileInherited \<and> sn_profile current = profile then (Inr False, c)
        else if sn_epoch current = - 1 then (Inl ErrLayerProfileEpochExhausted, c)
        else (Inr True, store_profile
               \<lparr>sn_profile = profile, sn_origin = LayerProfileInherited, sn_epoch = sn_epoch current + 1\<rparr> 0 0 profile c))"

definition clearInheritedLayerProfileState :: "layer_conn \<Rightarrow> (layer_error + bool) \<times> layer_conn" where
  "clearInheritedLayerProfileState c =
     (let current = LayerProfileState c in
      if sn_origin current \<noteq> LayerProfileInherited then (Inr False, c)
      else if sn_epoch current = - 1 then (Inl ErrLayerProfileEpochExhausted, c)
      else (Inr True, store_profile (no_profile\<lparr>sn_epoch := sn_epoch current + 1\<rparr>) 0 0 0 c))"

section \<open>Where a new connection's profile comes from\<close>

text \<open>
  What the registry of negotiated layers answers, if it offers the query at all. A failed lookup is
  either a store that is not available or a structural failure.
\<close>

datatype lookup_failure = LookupUnavailable | LookupBroken

record layer_sources =
  src_durable :: "(lookup_failure + (int \<times> int) option) option"
  src_ordered :: "(int \<times> int) option option"
  src_session :: "int option option"
  src_inherited :: "(lookup_failure + int option) option"

definition dropped :: "(layer_error + bool) \<times> layer_conn \<Rightarrow> layer_error option \<times> layer_conn" where
  "dropped r = (case r of (Inl e, c) \<Rightarrow> (Some e, c) | (Inr _, c) \<Rightarrow> (None, c))"

definition seed_exact :: "(int \<Rightarrow> int option) \<Rightarrow> int \<Rightarrow> int \<Rightarrow> layer_conn \<Rightarrow> layer_error option \<times> layer_conn" where
  "seed_exact resolve layer msgID c =
     (if msgID > 0 then seedRawLayerEvidence resolve layer msgID c
      else case resolve layer of None \<Rightarrow> (None, c) | Some p \<Rightarrow> seedOrderedLayerProfile resolve p 0 c)"

definition seed_inherited :: "(int \<Rightarrow> int option) \<Rightarrow> int \<Rightarrow> layer_conn \<Rightarrow> layer_error option \<times> layer_conn" where
  "seed_inherited resolve layer c =
     (case resolve layer of None \<Rightarrow> (None, c) | Some p \<Rightarrow> dropped (SeedInheritedLayerProfile resolve p c))"

definition seed_default ::
  "(int \<Rightarrow> int option) \<Rightarrow> layer_sources \<Rightarrow> bool \<Rightarrow> int \<Rightarrow> layer_snapshot \<Rightarrow> layer_conn \<Rightarrow> layer_error option \<times> layer_conn" where
  "seed_default resolve src permanent fetched previous c =
     (let shadow =
        (if fetched \<noteq> 0 then seed_inherited resolve fetched c
         else if src_durable src \<noteq> None then (None, c)
         else if sn_origin previous \<noteq> LayerProfileUnknown
         then dropped (SeedInheritedLayerProfile resolve (sn_profile previous) c)
         else (None, c)) in
      if permanent \<and> fetched \<noteq> 0 then seed_inherited resolve fetched c
      else case src_inherited src of
        None \<Rightarrow> shadow
      | Some (Inl LookupBroken) \<Rightarrow> (None, c)
      | Some (Inl LookupUnavailable) \<Rightarrow> shadow
      | Some (Inr None) \<Rightarrow> shadow
      | Some (Inr (Some layer)) \<Rightarrow> seed_inherited resolve layer c)"

definition seedInitialLayerProfile ::
  "(int \<Rightarrow> int option) \<Rightarrow> layer_sources \<Rightarrow> bool \<Rightarrow> int \<Rightarrow> layer_snapshot \<Rightarrow> layer_conn \<Rightarrow> layer_error option \<times> layer_conn" where
  "seedInitialLayerProfile resolve src permanent fetched previous c =
     (let default = seed_default resolve src permanent fetched previous c in
      case src_durable src of
        Some (Inl LookupBroken) \<Rightarrow> (Some ErrLayerLookup, c)
      | Some (Inl LookupUnavailable) \<Rightarrow> default
      | Some (Inr None) \<Rightarrow> default
      | Some (Inr (Some (layer, msgID))) \<Rightarrow>
          if layer \<le> 0 \<or> msgID < 0 then (Some (ErrLayerEvidence layer msgID), c) else seed_exact resolve layer msgID c
      | None \<Rightarrow>
          (case src_ordered src of
             Some None \<Rightarrow> default
           | Some (Some (layer, msgID)) \<Rightarrow> if layer \<le> 0 \<or> msgID < 0 then (None, c) else seed_exact resolve layer msgID c
           | None \<Rightarrow>
               (case src_session src of
                  None \<Rightarrow> default
                | Some None \<Rightarrow> default
                | Some (Some layer) \<Rightarrow>
                    (case resolve layer of None \<Rightarrow> (None, c) | Some p \<Rightarrow> dropped (SeedLayerProfile resolve p c)))))"

definition refresh_from :: "(int \<Rightarrow> int option) \<Rightarrow> int \<Rightarrow> layer_conn \<Rightarrow> layer_error option \<times> layer_conn" where
  "refresh_from resolve layer c =
     (case resolve layer of
        None \<Rightarrow> dropped (clearInheritedLayerProfileState c) | Some p \<Rightarrow> dropped (refreshInheritedLayerProfile resolve p c))"

definition refreshActivatedInheritedLayerProfile ::
  "(int \<Rightarrow> int option) \<Rightarrow> layer_sources \<Rightarrow> bool \<Rightarrow> int \<Rightarrow> layer_conn \<Rightarrow> layer_error option \<times> layer_conn" where
  "refreshActivatedInheritedLayerProfile resolve src permanent fetched c =
     (let shadow = (if fetched = 0 then (None, c) else refresh_from resolve fetched c) in
      if sn_origin (LayerProfileState c) = LayerProfileExplicit then (None, c)
      else if permanent then shadow
      else case src_inherited src of
        None \<Rightarrow> shadow
      | Some (Inl LookupBroken) \<Rightarrow> dropped (clearInheritedLayerProfileState c)
      | Some (Inl LookupUnavailable) \<Rightarrow> shadow
      | Some (Inr None) \<Rightarrow> shadow
      | Some (Inr (Some layer)) \<Rightarrow> refresh_from resolve layer c)"

section \<open>Stamping and checking a push\<close>

text \<open>\<open>prepareForConn\<close> stamps a push with the profile and epoch it read; \<open>layer_view\<close> is what the check at the write reads.\<close>

definition stamp :: "layer_conn \<Rightarrow> outbound_error + layer_binding" where
  "stamp c =
     (let s = LayerProfileState c in
      if sn_origin s = LayerProfileUnknown then Inl ErrOutboundLayerProfileUnknown
      else Inr \<lparr>lb_wireInvariant = False, lb_request = False, lb_epoch = unat (sn_epoch s), lb_profile = sn_profile s\<rparr>)"

definition layer_view :: "layer_conn \<Rightarrow> layer_state" where
  "layer_view c =
     (let s = LayerProfileState c in
      \<lparr>ly_unknown = (sn_origin s = LayerProfileUnknown), ly_epoch = unat (sn_epoch s), ly_profile = sn_profile s\<rparr>)"

end
