(* ===== verification/Layer_Profile_Inv.thy ===== *)
theory Layer_Profile_Inv
  imports Layer_Profile
begin

text \<open>Packing, and what every operation does to the packed state and to the order of evidence.\<close>

section \<open>Packing\<close>

lemma pack_fields:
  "packLayerProfileState s AND layerProfileValueMask = word_of_int (sn_profile s) AND layerProfileValueMask"
  "drop_bit 16 (packLayerProfileState s) AND layerProfileOriginMask = ucast (sn_origin s)"
  "drop_bit 32 (packLayerProfileState s) = ucast (sn_epoch s)"
  by (rule bit_word_eqI; auto simp: packLayerProfileState_def layerProfileValueMask_def layerProfileOriginMask_def bit_simps
      dest: bit_imp_le_length)+

definition profile_fits :: "int \<Rightarrow> bool" where
  "profile_fits p \<longleftrightarrow> 0 \<le> p \<and> p < 2 ^ 16"

lemma masked_profile: "profile_fits p \<Longrightarrow> uint ((word_of_int p :: 64 word) AND layerProfileValueMask) = p"
  by (simp add: profile_fits_def layerProfileValueMask_def unsigned_take_bit_eq unsigned_of_int
      take_bit_int_eq_self flip: take_bit_eq_mask)

lemma ucast_back: "ucast (ucast (x :: 8 word) :: 64 word) = x" "ucast (ucast (y :: 32 word) :: 64 word) = y"
  by (rule bit_word_eqI; auto simp: bit_simps)+

lemma unpack_pack [simp]:
  "sn_origin (unpackLayerProfileState (packLayerProfileState s)) = sn_origin s"
  "sn_epoch (unpackLayerProfileState (packLayerProfileState s)) = sn_epoch s"
  "profile_fits (sn_profile s) \<Longrightarrow> sn_profile (unpackLayerProfileState (packLayerProfileState s)) = sn_profile s"
proof -
  have f: "sn_origin s = ucast (drop_bit 16 (packLayerProfileState s) AND layerProfileOriginMask)"
    "sn_epoch s = ucast (drop_bit 32 (packLayerProfileState s))"
    by (simp_all add: pack_fields ucast_back)
  show "sn_origin (unpackLayerProfileState (packLayerProfileState s)) = sn_origin s"
    "sn_epoch (unpackLayerProfileState (packLayerProfileState s)) = sn_epoch s"
    using f by (auto simp: unpackLayerProfileState_def no_profile_def LayerProfileUnknown_def)
  show "sn_profile (unpackLayerProfileState (packLayerProfileState s)) = sn_profile s" if "profile_fits (sn_profile s)"
  proof -
    have "sn_profile s = uint (packLayerProfileState s AND layerProfileValueMask)"
      using masked_profile [OF that] by (simp add: pack_fields)
    then show ?thesis by (auto simp: unpackLayerProfileState_def no_profile_def)
  qed
qed

lemma unpack_fits: "profile_fits (sn_profile (unpackLayerProfileState raw))"
proof -
  have "uint (raw AND layerProfileValueMask) < 2 ^ 16"
    using take_bit_int_less_exp [of 16 "uint raw"]
    by (simp add: layerProfileValueMask_def unsigned_take_bit_eq flip: take_bit_eq_mask)
  then show ?thesis by (simp add: profile_fits_def unpackLayerProfileState_def no_profile_def)
qed

section \<open>Operations\<close>

datatype layer_op =
    OpSet int profile_origin bool
  | OpFreeze int int
  | OpFreezeRaw int int
  | OpSeedOrdered int int
  | OpSeedRaw int int
  | OpSeedInherited int
  | OpRefresh int
  | OpClear
  | OpSeedInitial layer_sources bool int layer_snapshot
  | OpRefreshActivated layer_sources bool int

fun run_layer_op :: "(int \<Rightarrow> int option) \<Rightarrow> layer_op \<Rightarrow> layer_conn \<Rightarrow> layer_conn" where
  "run_layer_op resolve (OpSet p origin replace) c = snd (setLayerProfile resolve p origin replace c)"
| "run_layer_op resolve (OpFreeze p i) c = snd (freezeLayerProfileAt resolve p i c)"
| "run_layer_op resolve (OpFreezeRaw l i) c = snd (freezeRawLayerProfileAt resolve l i c)"
| "run_layer_op resolve (OpSeedOrdered p i) c = snd (seedOrderedLayerProfile resolve p i c)"
| "run_layer_op resolve (OpSeedRaw l i) c = snd (seedRawLayerEvidence resolve l i c)"
| "run_layer_op resolve (OpSeedInherited p) c = snd (SeedInheritedLayerProfile resolve p c)"
| "run_layer_op resolve (OpRefresh p) c = snd (refreshInheritedLayerProfile resolve p c)"
| "run_layer_op resolve OpClear c = snd (clearInheritedLayerProfileState c)"
| "run_layer_op resolve (OpSeedInitial src permanent fetched previous) c =
     snd (seedInitialLayerProfile resolve src permanent fetched previous c)"
| "run_layer_op resolve (OpRefreshActivated src permanent fetched) c =
     snd (refreshActivatedInheritedLayerProfile resolve src permanent fetched c)"

definition layer_run :: "(int \<Rightarrow> int option) \<Rightarrow> layer_op list \<Rightarrow> layer_conn \<Rightarrow> layer_conn" where
  "layer_run resolve ops c = fold (run_layer_op resolve) ops c"

text \<open>
  Each operation ends in one of the elementary ones, so a property that these keep is kept by all.
\<close>

definition elementary :: "(int \<Rightarrow> int option) \<Rightarrow> layer_conn \<Rightarrow> layer_conn set" where
  "elementary resolve c = {c} \<union> {snd (setLayerProfile resolve p g r c) | p g r. True}
     \<union> {snd (freezeRawLayerProfileAt resolve l i c) | l i. True}
     \<union> {snd (seedOrderedLayerProfile resolve p 0 c) | p. True}
     \<union> {snd (refreshInheritedLayerProfile resolve p c) | p. True} \<union> {snd (clearInheritedLayerProfileState c)}"

lemma elementary_intros [intro]:
  "c \<in> elementary resolve c" "snd (setLayerProfile resolve p g r c) \<in> elementary resolve c"
  "snd (freezeRawLayerProfileAt resolve l i c) \<in> elementary resolve c"
  "snd (refreshInheritedLayerProfile resolve p c) \<in> elementary resolve c"
  "snd (clearInheritedLayerProfileState c) \<in> elementary resolve c"
  by (auto simp: elementary_def)

lemma dropped_snd [simp]: "snd (dropped r) = snd r"
  by (cases r; cases "fst r") (auto simp: dropped_def)

lemma seedRaw_elementary [intro]: "snd (seedRawLayerEvidence resolve l i c) \<in> elementary resolve c"
proof -
  have "snd (seedRawLayerEvidence resolve l i c) \<in> {c, snd (freezeRawLayerProfileAt resolve l i c)}"
    by (auto simp: seedRawLayerEvidence_def split: prod.split sum.split)
  then show ?thesis by auto
qed

lemma seedOrdered_elementary [intro]: "snd (seedOrderedLayerProfile resolve p i c) \<in> elementary resolve c"
proof (cases "i = 0")
  case True
  then show ?thesis by (auto simp: elementary_def)
next
  case False
  then have "snd (seedOrderedLayerProfile resolve p i c) \<in> {c, snd (freezeRawLayerProfileAt resolve p i c)}"
    by (auto simp: seedOrderedLayerProfile_def split: prod.split sum.split option.split)
  then show ?thesis by auto
qed

lemma seeds_elementary [intro]:
  "snd (seed_exact resolve l i c) \<in> elementary resolve c" "snd (seed_inherited resolve l c) \<in> elementary resolve c"
  "snd (refresh_from resolve l c) \<in> elementary resolve c"
  "snd (SeedInheritedLayerProfile resolve p c) \<in> elementary resolve c" "snd (SeedLayerProfile resolve p c) \<in> elementary resolve c"
  by (auto simp: seed_exact_def seed_inherited_def refresh_from_def SeedInheritedLayerProfile_def SeedLayerProfile_def split: option.split)

lemma default_elementary [intro]: "snd (seed_default resolve src permanent fetched previous c) \<in> elementary resolve c"
  by (auto simp: seed_default_def Let_def split: option.split sum.split lookup_failure.split)

lemma op_elementary: "run_layer_op resolve op c \<in> elementary resolve c"
proof (cases op)
  case (OpFreeze p i)
  have "snd (freezeLayerProfileAt resolve p i c) \<in> {c, snd (freezeRawLayerProfileAt resolve p i c)}"
    by (auto simp: freezeLayerProfileAt_def split: option.split)
  with OpFreeze show ?thesis by auto
next
  case (OpSeedInitial src permanent fetched previous)
  then show ?thesis
    by (auto simp: seedInitialLayerProfile_def Let_def split: option.split sum.split lookup_failure.split)
next
  case (OpRefreshActivated src permanent fetched)
  then show ?thesis
    by (auto simp: refreshActivatedInheritedLayerProfile_def Let_def split: option.split sum.split lookup_failure.split)
qed auto

section \<open>The epoch\<close>

definition epoch :: "layer_conn \<Rightarrow> nat" where
  "epoch c = unat (sn_epoch (LayerProfileState c))"

lemma unat_next: "x \<noteq> - 1 \<Longrightarrow> unat (x + 1) = Suc (unat x)" for x :: "'a::len word"
  using unatSuc [of x] by (metis add.commute add_eq_0_iff)

lemma store_state [simp]:
  "LayerProfileState (store_profile s l i k c) = unpackLayerProfileState (packLayerProfileState s)"
  "lc_msgID (store_profile s l i k c) = i" "lc_layer (store_profile s l i k c) = l"
  by (simp_all add: store_profile_def LayerProfileState_def)

lemma same_state [simp]:
  "LayerProfileState (c\<lparr>lc_msgID := i\<rparr>) = LayerProfileState c" "LayerProfileState (c\<lparr>lc_layer := l\<rparr>) = LayerProfileState c"
  by (simp_all add: LayerProfileState_def)

lemma elementary_advances:
  assumes "d \<in> elementary resolve c"
  shows "lc_raw d = lc_raw c \<or> epoch d = Suc (epoch c)"
proof -
  have st: "epoch (store_profile (s\<lparr>sn_epoch := sn_epoch (LayerProfileState c) + 1\<rparr>) l i k c) = Suc (epoch c)"
    "epoch (store_profile \<lparr>sn_profile = p, sn_origin = g, sn_epoch = sn_epoch (LayerProfileState c) + 1\<rparr> l i k c) = Suc (epoch c)"
    if "sn_epoch (LayerProfileState c) \<noteq> - 1" for s l i k p g
    using unat_next [OF that] by (simp_all add: epoch_def)
  have "lc_raw d = lc_raw c \<or> epoch d = Suc (epoch c)" if "d = snd (setLayerProfile resolve p g r c)" for p g r
    using that st by (auto simp: setLayerProfile_def Let_def split: option.splits)
  moreover have "lc_raw d = lc_raw c \<or> epoch d = Suc (epoch c)" if "d = snd (freezeRawLayerProfileAt resolve l i c)" for l i
    using that st by (auto simp: freezeRawLayerProfileAt_def Let_def split: option.splits)
  moreover have "lc_raw d = lc_raw c \<or> epoch d = Suc (epoch c)" if "d = snd (seedOrderedLayerProfile resolve p 0 c)" for p
    using that st by (auto simp: seedOrderedLayerProfile_def Let_def split: option.splits)
  moreover have "lc_raw d = lc_raw c \<or> epoch d = Suc (epoch c)" if "d = snd (refreshInheritedLayerProfile resolve p c)" for p
    using that st by (auto simp: refreshInheritedLayerProfile_def Let_def split: option.splits)
  moreover have "lc_raw d = lc_raw c \<or> epoch d = Suc (epoch c)" if "d = snd (clearInheritedLayerProfileState c)"
    using that st by (auto simp: clearInheritedLayerProfileState_def Let_def)
  ultimately show ?thesis using assms unfolding elementary_def by blast
qed

lemma raw_epoch: "lc_raw d = lc_raw c \<Longrightarrow> epoch d = epoch c"
  by (simp add: epoch_def LayerProfileState_def)

lemma run_epoch:
  "epoch c \<le> epoch (layer_run resolve ops c)
   \<and> (epoch (layer_run resolve ops c) = epoch c \<longrightarrow> lc_raw (layer_run resolve ops c) = lc_raw c)"
proof (induction ops arbitrary: c)
  case (Cons op ops)
  let ?d = "run_layer_op resolve op c"
  from elementary_advances [OF op_elementary, of resolve op c] Cons.IH [of ?d] raw_epoch [of ?d c]
  show ?case by (auto simp: layer_run_def)
qed (simp add: layer_run_def)

section \<open>Evidence\<close>

definition resolves :: "(int \<Rightarrow> int option) \<Rightarrow> bool" where
  "resolves resolve \<longleftrightarrow> (\<forall>l p. resolve l = Some p \<longrightarrow> profile_fits p)"

definition evidence_selects :: "(int \<Rightarrow> int option) \<Rightarrow> int \<Rightarrow> int \<times> profile_origin" where
  "evidence_selects resolve l = (case resolve l of Some p \<Rightarrow> (p, LayerProfileExplicit) | None \<Rightarrow> (0, LayerProfileUnknown))"

definition selected :: "layer_conn \<Rightarrow> int \<times> profile_origin" where
  "selected c = (let s = LayerProfileState c in (sn_profile s, sn_origin s))"

definition layer_inv :: "(int \<Rightarrow> int option) \<Rightarrow> layer_conn \<Rightarrow> bool" where
  "layer_inv resolve c \<longleftrightarrow> (snd (selected c) \<noteq> LayerProfileUnknown \<longrightarrow> 0 < epoch c) \<and> 0 \<le> lc_msgID c
     \<and> (0 < lc_msgID c \<longrightarrow> selected c = evidence_selects resolve (lc_layer c))"

lemma origins [simp]: "LayerProfileExplicit \<noteq> LayerProfileUnknown" "LayerProfileInherited \<noteq> LayerProfileUnknown"
  "LayerProfileExplicit \<noteq> LayerProfileInherited" "LayerProfileInherited \<noteq> LayerProfileExplicit"
  "LayerProfileUnknown \<noteq> LayerProfileExplicit" "LayerProfileUnknown \<noteq> LayerProfileInherited"
  by (simp_all add: LayerProfileExplicit_def LayerProfileInherited_def LayerProfileUnknown_def)

lemma validate_fits: "resolves resolve \<Longrightarrow> validateLayerProfile resolve p = None \<Longrightarrow> profile_fits p"
  by (auto simp: validateLayerProfile_def resolves_def split: if_splits)

lemma inv_raw:
  assumes "layer_inv resolve c" and "lc_raw d = lc_raw c" and "lc_msgID d = 0"
  shows "layer_inv resolve d"
  using assms by (simp add: layer_inv_def selected_def epoch_def LayerProfileState_def)

lemma inv_store:
  assumes "0 < sn_epoch s" and "i = 0 \<or> 0 < i \<and> profile_fits (sn_profile s) \<and> (sn_profile s, sn_origin s) = evidence_selects resolve l"
  shows "layer_inv resolve (store_profile s l i k c)"
  using assms by (auto simp: layer_inv_def selected_def epoch_def Let_def unat_gt_0 word_gt_0)

lemma next_pos: "x \<noteq> - 1 \<Longrightarrow> 0 < x + 1" for x :: "32 word"
  by (metis add_eq_0_iff word_gt_0 add.commute)

lemma freeze_inv:
  assumes r: "resolves resolve" and inv: "layer_inv resolve c"
  shows "layer_inv resolve (snd (freezeRawLayerProfileAt resolve l i c))"
proof -
  let ?s = "LayerProfileState c"
  have w: "evidence_selects resolve l = (sn_profile d, sn_origin d)"
    if "d = (case resolve l of Some p \<Rightarrow> \<lparr>sn_profile = p, sn_origin = LayerProfileExplicit, sn_epoch = e\<rparr>
       | None \<Rightarrow> \<lparr>sn_profile = 0, sn_origin = LayerProfileUnknown, sn_epoch = e\<rparr>)" for d e
    using that by (simp add: evidence_selects_def split: option.split)
  have keep: "layer_inv resolve (c\<lparr>lc_layer := l, lc_msgID := i\<rparr>)" if "0 < i" "selected c = evidence_selects resolve l"
    using that inv by (simp add: layer_inv_def selected_def epoch_def LayerProfileState_def)
  have fit: "profile_fits (fst (evidence_selects resolve l))" using r by (auto simp: evidence_selects_def resolves_def profile_fits_def split: option.split)
  show ?thesis
  proof (cases "resolve l")
    case None
    then show ?thesis using inv keep fit
      by (auto simp: freezeRawLayerProfileAt_def Let_def evidence_selects_def selected_def next_pos intro!: inv_store)
  next
    case (Some p)
    then show ?thesis using inv keep fit
      by (auto simp: freezeRawLayerProfileAt_def Let_def evidence_selects_def selected_def next_pos intro!: inv_store)
  qed
qed

lemma elementary_inv:
  assumes r: "resolves resolve" and inv: "layer_inv resolve c" and d: "d \<in> elementary resolve c"
  shows "layer_inv resolve d"
proof -
  have "layer_inv resolve (snd (setLayerProfile resolve p g b c))" for p g b
    using inv by (auto simp: setLayerProfile_def Let_def next_pos intro!: inv_store intro: inv_raw split: option.splits)
  moreover have "layer_inv resolve (snd (seedOrderedLayerProfile resolve p 0 c))" for p
    using inv by (auto simp: seedOrderedLayerProfile_def Let_def next_pos intro!: inv_store intro: inv_raw split: option.splits)
  moreover have "layer_inv resolve (snd (refreshInheritedLayerProfile resolve p c))" for p
    using inv by (auto simp: refreshInheritedLayerProfile_def Let_def next_pos intro!: inv_store split: option.splits)
  moreover have "layer_inv resolve (snd (clearInheritedLayerProfileState c))"
    using inv by (auto simp: clearInheritedLayerProfileState_def Let_def next_pos intro!: inv_store)
  ultimately show ?thesis using d inv freeze_inv [OF r inv] unfolding elementary_def by blast
qed

lemma new_inv: "layer_inv resolve new_layer_conn"
  by (simp add: layer_inv_def new_layer_conn_def selected_def LayerProfileState_def unpackLayerProfileState_def no_profile_def)

lemma layer_run_inv: "resolves resolve \<Longrightarrow> layer_inv resolve c \<Longrightarrow> layer_inv resolve (layer_run resolve ops c)"
  unfolding layer_run_def by (induction ops arbitrary: c) (auto intro: elementary_inv op_elementary)

section \<open>Observing evidence in any order\<close>

definition observe :: "(int \<Rightarrow> int option) \<Rightarrow> (int \<times> int) list \<Rightarrow> layer_conn \<Rightarrow> layer_conn" where
  "observe resolve es c = fold (\<lambda>(l, i) d. snd (freezeRawLayerProfileAt resolve l i d)) es c"

lemma observe_simps [simp]: "observe resolve [] c = c"
  "observe resolve ((l, i) # es) c = observe resolve es (snd (freezeRawLayerProfileAt resolve l i c))"
  by (simp_all add: observe_def)

text \<open>The evidence a connection holds after some observations: the newest, or what it had when none was newer.\<close>

definition newest :: "(int \<Rightarrow> int option) \<Rightarrow> (int \<times> int) set \<Rightarrow> layer_conn \<Rightarrow> layer_conn \<Rightarrow> bool" where
  "newest resolve E c d \<longleftrightarrow> (\<forall>(l, i)\<in>E. i \<le> lc_msgID d)
     \<and> (if lc_msgID d = lc_msgID c then lc_layer d = lc_layer c \<and> selected d = selected c
        else lc_msgID c < lc_msgID d \<and> (lc_layer d, lc_msgID d) \<in> E \<and> selected d = evidence_selects resolve (lc_layer d))"

lemma freeze_cases:
  assumes "resolves resolve" and "layer_inv resolve c" and "0 < l" and "0 < i" and "epoch c < 2 ^ 32 - 1"
    and d: "d = snd (freezeRawLayerProfileAt resolve l i c)"
  shows "i \<le> lc_msgID c \<and> d = c \<or> lc_msgID c < i \<and> lc_msgID d = i \<and> lc_layer d = l \<and> selected d = evidence_selects resolve l"
proof (cases "i \<le> lc_msgID c")
  case True
  then show ?thesis using assms(3,4) by (auto simp: d freezeRawLayerProfileAt_def Let_def)
next
  case False
  have e: "sn_epoch (LayerProfileState c) \<noteq> - 1"
  proof
    assume "sn_epoch (LayerProfileState c) = - 1"
    then have "epoch c = unat (- 1 :: 32 word)" by (simp add: epoch_def)
    with assms(5) show False by (simp add: unsigned_minus_1_eq_mask mask_eq_exp_minus_1)
  qed
  have fit: "profile_fits (fst (evidence_selects resolve l))" using assms(1) by (auto simp: evidence_selects_def resolves_def profile_fits_def split: option.split)
  have "d = c\<lparr>lc_layer := l, lc_msgID := i\<rparr> \<and> selected c = evidence_selects resolve l
      \<or> (\<exists>k. d = store_profile \<lparr>sn_profile = fst (evidence_selects resolve l), sn_origin = snd (evidence_selects resolve l),
           sn_epoch = sn_epoch (LayerProfileState c) + 1\<rparr> l i k c)"
    using False assms(3,4) e unfolding d
    by (cases "resolve l") (auto simp: freezeRawLayerProfileAt_def Let_def evidence_selects_def selected_def)
  moreover have "selected (c\<lparr>lc_layer := l, lc_msgID := i\<rparr>) = selected c" by (simp add: selected_def)
  ultimately show ?thesis using False fit by (auto simp: selected_def Let_def)
qed

lemma freeze_epoch: "epoch (snd (freezeRawLayerProfileAt resolve l i c)) \<le> Suc (epoch c)"
  using elementary_advances [OF elementary_intros(3), of resolve l i c] raw_epoch [of "snd (freezeRawLayerProfileAt resolve l i c)" c]
  by linarith

lemma observe_newest:
  assumes r: "resolves resolve" and "layer_inv resolve c" and "\<And>l i. (l, i) \<in> set es \<Longrightarrow> 0 < l \<and> 0 < i"
    and "epoch c + length es \<le> 2 ^ 32 - 1"
  shows "newest resolve (set es) c (observe resolve es c)"
  using assms(2-)
proof (induction es arbitrary: c)
  case (Cons e es)
  obtain l i where e: "e = (l, i)" by (cases e)
  let ?d = "snd (freezeRawLayerProfileAt resolve l i c)"
  have pos: "0 < l" "0 < i" using Cons.prems(2) [of l i] by (simp_all add: e)
  have ep: "epoch c < 2 ^ 32 - 1" using Cons.prems(3) by simp
  have nw: "newest resolve (set es) ?d (observe resolve es ?d)"
    by (rule Cons.IH) (use freeze_inv [OF r Cons.prems(1)] Cons.prems(2,3) freeze_epoch [of resolve l i c] in auto)
  from freeze_cases [OF r Cons.prems(1) pos ep refl] show ?case
  proof (elim disjE conjE)
    assume "i \<le> lc_msgID c" and d: "?d = c"
    then show ?thesis using nw by (auto simp: newest_def e d split: if_splits)
  next
    assume "lc_msgID c < i" "lc_msgID ?d = i" "lc_layer ?d = l" "selected ?d = evidence_selects resolve l"
    then show ?thesis using nw by (auto simp: newest_def e split: if_splits)
  qed
qed (simp add: newest_def)

lemma newest_unique:
  assumes "newest resolve E c d" and "newest resolve E c d'" and "\<And>l l' i. (l, i) \<in> E \<Longrightarrow> (l', i) \<in> E \<Longrightarrow> l = l'"
  shows "selected d = selected d' \<and> lc_msgID d = lc_msgID d' \<and> lc_layer d = lc_layer d'"
proof -
  have "lc_msgID d \<le> lc_msgID d'" using assms(1,2) by (auto simp: newest_def split: if_splits)
  moreover have "lc_msgID d' \<le> lc_msgID d" using assms(1,2) by (auto simp: newest_def split: if_splits)
  ultimately have eq: "lc_msgID d = lc_msgID d'" by simp
  show ?thesis
  proof (cases "lc_msgID d = lc_msgID c")
    case True
    with assms(1,2) eq show ?thesis by (simp add: newest_def)
  next
    case False
    then have "lc_layer d = lc_layer d'" using assms eq by (auto simp: newest_def)
    with False assms(1,2) eq show ?thesis by (simp add: newest_def)
  qed
qed

lemma newest_cases:
  assumes "newest resolve E c d"
  shows "if \<forall>(l, i)\<in>E. i \<le> lc_msgID c then lc_msgID d = lc_msgID c \<and> lc_layer d = lc_layer c \<and> selected d = selected c
    else (lc_layer d, lc_msgID d) \<in> E \<and> (\<forall>(l, i)\<in>E. i \<le> lc_msgID d) \<and> selected d = evidence_selects resolve (lc_layer d)"
proof (cases "lc_msgID d = lc_msgID c")
  case True
  then show ?thesis using assms by (simp add: newest_def)
next
  case False
  then have d: "lc_msgID c < lc_msgID d" "(lc_layer d, lc_msgID d) \<in> E" using assms by (simp_all add: newest_def)
  then have "\<not> (\<forall>(l, i)\<in>E. i \<le> lc_msgID c)" by fastforce
  with False assms show ?thesis by (simp add: newest_def)
qed

text \<open>What only lowers to an inherited default leaves explicit evidence alone.\<close>

fun inherited_op :: "layer_op \<Rightarrow> bool" where
  "inherited_op (OpSeedInherited p) = True"
| "inherited_op (OpRefresh p) = True"
| "inherited_op OpClear = True"
| "inherited_op (OpRefreshActivated src permanent fetched) = True"
| "inherited_op (OpSet p origin replace) = (origin = LayerProfileInherited \<and> \<not> replace)"
| "inherited_op _ = False"

lemma inherited_op_inert:
  assumes "layer_inv resolve c" and "snd (selected c) = LayerProfileExplicit \<or> 0 < lc_msgID c" and "inherited_op op"
  shows "run_layer_op resolve op c = c"
proof -
  have o: "sn_origin (LayerProfileState c) \<noteq> LayerProfileInherited"
    using assms(1,2) by (auto simp: layer_inv_def selected_def evidence_selects_def Let_def split: option.splits)
  have clear: "snd (clearInheritedLayerProfileState c) = c" using o by (simp add: clearInheritedLayerProfileState_def)
  have refresh: "snd (refreshInheritedLayerProfile resolve p c) = c" for p
    using assms(2) by (auto simp: refreshInheritedLayerProfile_def Let_def selected_def split: option.split)
  have refr: "snd (refresh_from resolve l c) = c" for l by (simp add: refresh_from_def clear refresh split: option.split)
  have seti: "snd (setLayerProfile resolve p LayerProfileInherited False c) = c" for p
    using assms(2) by (auto simp: setLayerProfile_def Let_def selected_def split: option.split)
  show ?thesis using assms(3)
    by (cases op) (auto simp: clear refresh refr seti SeedInheritedLayerProfile_def refreshActivatedInheritedLayerProfile_def Let_def
        split: option.split sum.split lookup_failure.split)
qed

end
