(* ===== verification/Session_Layers.thy ===== *)
theory Session_Layers
  imports Session_Activation Layer_Profile_Inv
begin

text \<open>
  Layer evidence and the session manager (session_manager.go): auth-key defaults and ordered evidence are
  applied to the live connections of an auth key or a session. The layer state of the connections is a
  heap beside the manager; each call is one step.
\<close>

type_synonym layer_heap = "nat \<Rightarrow> layer_conn"

abbreviation retired :: "'p session_manager \<Rightarrow> nat \<Rightarrow> bool" where
  "retired m c \<equiv> mc_life (sm_conns m c) = Retired"

definition apply_live ::
  "(layer_conn \<Rightarrow> (layer_error + bool) \<times> layer_conn) \<Rightarrow> 'p session_manager \<Rightarrow> nat list \<Rightarrow> layer_heap \<Rightarrow> nat \<times> layer_heap" where
  "apply_live f m cs h =
     fold (\<lambda>c (n, h). if retired m c then (n, h)
        else case f (h c) of (r, d) \<Rightarrow> (if r = Inr True then n + 1 else n, h(c := d))) cs (0, h)"

definition raw_group :: "auth_key_id \<Rightarrow> 'p session_manager \<Rightarrow> nat list" where
  "raw_group a m = remdups (map snd (sm_byAuthKey m a) @ map snd (sm_claimsByAuth m a))"

definition applyInheritedLayerForRawAuthKey ::
  "(int \<Rightarrow> int option) \<Rightarrow> auth_key_id \<Rightarrow> int \<Rightarrow> bool \<Rightarrow> 'p session_manager \<Rightarrow> layer_heap \<Rightarrow> nat \<times> layer_heap" where
  "applyInheritedLayerForRawAuthKey resolve a layer refresh m h =
     (case resolve layer of
        None \<Rightarrow> (0, h)
      | Some p \<Rightarrow> apply_live (if refresh then refreshInheritedLayerProfile resolve p
          else setLayerProfile resolve p LayerProfileInherited False) m (raw_group a m) h)"

definition SeedInheritedLayerForRawAuthKey ::
  "(int \<Rightarrow> int option) \<Rightarrow> auth_key_id \<Rightarrow> int \<Rightarrow> 'p session_manager \<Rightarrow> layer_heap \<Rightarrow> nat \<times> layer_heap" where
  "SeedInheritedLayerForRawAuthKey resolve a layer = applyInheritedLayerForRawAuthKey resolve a layer False"

definition RefreshInheritedLayerForRawAuthKey ::
  "(int \<Rightarrow> int option) \<Rightarrow> auth_key_id \<Rightarrow> int \<Rightarrow> 'p session_manager \<Rightarrow> layer_heap \<Rightarrow> nat \<times> layer_heap" where
  "RefreshInheritedLayerForRawAuthKey resolve a layer = applyInheritedLayerForRawAuthKey resolve a layer True"

definition ClearInheritedLayerForRawAuthKey ::
  "auth_key_id \<Rightarrow> 'p session_manager \<Rightarrow> layer_heap \<Rightarrow> nat \<times> layer_heap" where
  "ClearInheritedLayerForRawAuthKey a m h =
     (if a = replicate 8 0 then (0, h) else apply_live clearInheritedLayerProfileState m (raw_group a m) h)"

definition SeedInheritedLayerForBusinessAuthKey ::
  "(int \<Rightarrow> int option) \<Rightarrow> auth_key_id \<Rightarrow> int \<Rightarrow> 'p session_manager \<Rightarrow> layer_heap \<Rightarrow> nat \<times> layer_heap" where
  "SeedInheritedLayerForBusinessAuthKey resolve a layer m h =
     (if a = replicate 8 0 then (0, h)
      else case resolve layer of
        None \<Rightarrow> (0, h)
      | Some p \<Rightarrow> apply_live (setLayerProfile resolve p LayerProfileInherited False) m
          (filter (\<lambda>c. mc_business (sm_conns m c) = Some a) (remdups (map snd (sm_byBusiness m a)))) h)"

section \<open>One session\<close>

definition session_conns :: "session_key \<Rightarrow> 'p session_manager \<Rightarrow> nat list" where
  "session_conns k m = remdups ((case owner_of m k of None \<Rightarrow> [] | Some c \<Rightarrow> [c])
     @ (case claim_of m k of None \<Rightarrow> [] | Some c \<Rightarrow> [c]))"

text \<open>The loop stops at the first connection that refuses the evidence.\<close>

fun apply_ordered ::
  "(int \<Rightarrow> int option) \<Rightarrow> int \<Rightarrow> int \<Rightarrow> 'p session_manager \<Rightarrow> nat list \<Rightarrow> nat \<Rightarrow> layer_heap \<Rightarrow>
     (nat \<times> layer_error option) \<times> layer_heap" where
  "apply_ordered resolve layer msgID m [] n h = ((n, None), h)"
| "apply_ordered resolve layer msgID m (c # cs) n h =
     (if retired m c then apply_ordered resolve layer msgID m cs n h
      else case freezeRawLayerProfileAt resolve layer msgID (h c) of
        (Inl e, d) \<Rightarrow> ((n, Some e), h(c := d))
      | (Inr changed, d) \<Rightarrow> apply_ordered resolve layer msgID m cs (if changed then n + 1 else n) (h(c := d)))"

definition ApplyOrderedRawLayerForSession ::
  "(int \<Rightarrow> int option) \<Rightarrow> nat option \<Rightarrow> session_key \<Rightarrow> int \<Rightarrow> int \<Rightarrow> 'p session_manager \<Rightarrow> layer_heap \<Rightarrow>
     (nat \<times> layer_error option) \<times> layer_heap" where
  "ApplyOrderedRawLayerForSession resolve primary k layer msgID m h =
     (if msgID \<le> 0 \<or> layer \<le> 0 then ((0, Some (ErrLayerEvidence layer msgID)), h)
      else
        let conns = (case primary of None \<Rightarrow> session_conns k m
              | Some c \<Rightarrow> c # filter (\<lambda>d. d \<noteq> c) (session_conns k m)) in
        apply_ordered resolve layer msgID m conns 0 h)"

definition ApplyOrderedLayerProfileForSession ::
  "(int \<Rightarrow> int option) \<Rightarrow> nat option \<Rightarrow> session_key \<Rightarrow> int \<Rightarrow> int \<Rightarrow> 'p session_manager \<Rightarrow> layer_heap \<Rightarrow>
     (nat \<times> layer_error option) \<times> layer_heap" where
  "ApplyOrderedLayerProfileForSession resolve primary k profile msgID m h =
     (case validateLayerProfile resolve profile of
        Some e \<Rightarrow> ((0, Some e), h)
      | None \<Rightarrow> ApplyOrderedRawLayerForSession resolve primary k profile msgID m h)"

fun explicit_evidence ::
  "(int \<Rightarrow> int option) \<Rightarrow> 'p session_manager \<Rightarrow> layer_heap \<Rightarrow> nat list \<Rightarrow> (int \<times> int) option \<Rightarrow> (int \<times> int) option" where
  "explicit_evidence resolve m h [] best = best"
| "explicit_evidence resolve m h (c # cs) best =
     (case layerProfileEvidenceState (h c) of (s, i) \<Rightarrow>
        if retired m c \<or> sn_origin s \<noteq> LayerProfileExplicit \<or> resolve (sn_profile s) \<noteq> Some (sn_profile s)
        then explicit_evidence resolve m h cs best
        else case best of
          None \<Rightarrow> explicit_evidence resolve m h cs (Some (sn_profile s, i))
        | Some (l, j) \<Rightarrow>
            if i > j then explicit_evidence resolve m h cs (Some (sn_profile s, i))
            else if i = j \<and> l \<noteq> sn_profile s then None
            else explicit_evidence resolve m h cs best)"

definition ExplicitLayerEvidenceForAuthKey ::
  "(int \<Rightarrow> int option) \<Rightarrow> session_key \<Rightarrow> 'p session_manager \<Rightarrow> layer_heap \<Rightarrow> (int \<times> int) option" where
  "ExplicitLayerEvidenceForAuthKey resolve k m h =
     (if fst k = replicate 8 0 \<or> snd k = 0 then None else explicit_evidence resolve m h (session_conns k m) None)"

definition SetClientLayerForAuthKey ::
  "(int \<Rightarrow> int option) \<Rightarrow> session_key \<Rightarrow> int \<Rightarrow> 'p session_manager \<Rightarrow> layer_heap \<Rightarrow> layer_heap" where
  "SetClientLayerForAuthKey resolve k layer m h =
     (case resolve layer of
        None \<Rightarrow> h
      | Some p \<Rightarrow> snd (apply_live (setLayerProfile resolve p LayerProfileInherited False) m (session_conns k m) h))"

section \<open>A broadcast reaches every live connection\<close>

lemma apply_ordered_result:
  assumes "distinct cs" and "apply_ordered resolve layer msgID m cs n h = ((n', None), h')"
  shows "h' c = (if c \<in> set cs \<and> \<not> retired m c then snd (freezeRawLayerProfileAt resolve layer msgID (h c)) else h c)"
  using assms
proof (induction cs arbitrary: n h)
  case (Cons x cs)
  show ?case
  proof (cases "retired m x")
    case True
    with Cons show ?thesis by auto
  next
    case False
    with Cons.prems(2) obtain b d where f: "freezeRawLayerProfileAt resolve layer msgID (h x) = (Inr b, d)"
      by (auto split: prod.splits sum.splits)
    then have "apply_ordered resolve layer msgID m cs (if b then n + 1 else n) (h(x := d)) = ((n', None), h')"
      using Cons.prems(2) False by simp
    from Cons.IH [OF _ this] Cons.prems(1) False f show ?thesis by (cases "c = x") auto
  qed
qed simp

lemma freeze_accepts:
  assumes "0 < l" and "0 < i" and "lc_msgID c < i" and "epoch c < 2 ^ 32 - 1" and "0 \<le> lc_msgID c"
  shows "\<exists>d. freezeRawLayerProfileAt resolve l i c = (Inr True, d)"
proof -
  have "sn_epoch (LayerProfileState c) \<noteq> - 1"
  proof
    assume "sn_epoch (LayerProfileState c) = - 1"
    with assms(4) show False by (simp add: epoch_def unsigned_minus_1_eq_mask mask_eq_exp_minus_1)
  qed
  with assms show ?thesis by (auto simp: freezeRawLayerProfileAt_def Let_def)
qed

lemma apply_ordered_succeeds:
  assumes "0 < l" and "0 < i" and "distinct cs"
    and "\<And>c. c \<in> set cs \<Longrightarrow> \<not> retired m c \<Longrightarrow> lc_msgID (h c) < i \<and> epoch (h c) < 2 ^ 32 - 1 \<and> 0 \<le> lc_msgID (h c)"
  shows "\<exists>h'. apply_ordered resolve l i m cs n h = ((n + length (filter (\<lambda>c. \<not> retired m c) cs), None), h')"
  using assms(3-)
proof (induction cs arbitrary: n h)
  case (Cons x cs)
  show ?case
  proof (cases "retired m x")
    case True
    with Cons show ?thesis by auto
  next
    case False
    with freeze_accepts [OF assms(1,2), of "h x" resolve] Cons.prems(2) [of x] obtain d where
      d: "freezeRawLayerProfileAt resolve l i (h x) = (Inr True, d)" by auto
    have rest: "lc_msgID ((h(x := d)) c) < i \<and> epoch ((h(x := d)) c) < 2 ^ 32 - 1 \<and> 0 \<le> lc_msgID ((h(x := d)) c)"
      if "c \<in> set cs" "\<not> retired m c" for c
      using that Cons.prems(1) Cons.prems(2) [of c] by auto
    have "distinct cs" using Cons.prems(1) by simp
    from Cons.IH [where h = "h(x := d)" and n = "n + 1", OF this rest] obtain h' where
      "apply_ordered resolve l i m cs (n + 1) (h(x := d)) = ((n + 1 + length (filter (\<lambda>c. \<not> retired m c) cs), None), h')"
      by blast
    with False d show ?thesis by simp
  qed
qed simp

end
