(* ===== verification/Layer_Properties.thy ===== *)
theory Layer_Properties
  imports Session_Layers "HOL-Library.Multiset"
begin

text \<open>What holds of a connection's layer profile over any sequence of operations.\<close>

section \<open>The packed state\<close>

text \<open>Packing a profile, its origin and its epoch into 64 bits loses nothing.\<close>

theorem layer_state_roundtrip:
  assumes "0 \<le> sn_profile s" and "sn_profile s < 2 ^ 16"
  shows "unpackLayerProfileState (packLayerProfileState s) = s"
  using assms by (intro layer_snapshot.equality) (simp_all add: profile_fits_def)

theorem layer_state_roundtrip_witness:
  "unpackLayerProfileState (packLayerProfileState \<lparr>sn_profile = 225, sn_origin = LayerProfileExplicit, sn_epoch = 7\<rparr>)
    = \<lparr>sn_profile = 225, sn_origin = LayerProfileExplicit, sn_epoch = 7\<rparr>"
  by (rule layer_state_roundtrip) simp_all

section \<open>Pushes\<close>

lemma layer_run_append: "layer_run resolve (xs @ ys) c = layer_run resolve ys (layer_run resolve xs c)"
  by (simp add: layer_run_def)

lemma known_epoch:
  assumes "resolves resolve" and "stamp (layer_run resolve ops new_layer_conn) = Inr b"
  shows "0 < lb_epoch b"
  using layer_run_inv [OF assms(1) new_inv, of ops] assms(2)
  by (auto simp: stamp_def Let_def layer_inv_def selected_def epoch_def split: if_splits)

text \<open>C39: a push stamped with the profile of a connection passes the check at the write exactly when the
  profile has not changed since, whatever happened in between: profile and epoch never come back once
  they are left, and the epoch never wraps around.\<close>

theorem stale_push_detected:
  assumes "resolves resolve" and "stamp (layer_run resolve before new_layer_conn) = Inr b"
  shows "validateOutboundLayerBinding (layer_view (layer_run resolve (before @ after) new_layer_conn)) (Some b) = None
    \<longleftrightarrow> LayerProfileState (layer_run resolve (before @ after) new_layer_conn) = LayerProfileState (layer_run resolve before new_layer_conn)"
proof -
  let ?c = "layer_run resolve before new_layer_conn" and ?d = "layer_run resolve (before @ after) new_layer_conn"
  have b: "b = \<lparr>lb_wireInvariant = False, lb_request = False, lb_epoch = epoch ?c, lb_profile = sn_profile (LayerProfileState ?c)\<rparr>"
    and known: "sn_origin (LayerProfileState ?c) \<noteq> LayerProfileUnknown"
    using assms(2) by (auto simp: stamp_def Let_def epoch_def split: if_splits)
  have pos: "0 < epoch ?c" using known_epoch [OF assms] by (simp add: b)
  show ?thesis
  proof
    assume "validateOutboundLayerBinding (layer_view ?d) (Some b) = None"
    then have "epoch ?d = epoch ?c" using pos
      by (auto simp: validateOutboundLayerBinding_def b layer_view_def Let_def epoch_def split: if_splits)
    then have "lc_raw ?d = lc_raw ?c" using run_epoch [of ?c resolve after] by (simp add: layer_run_append)
    then show "LayerProfileState ?d = LayerProfileState ?c" by (simp add: LayerProfileState_def)
  next
    assume "LayerProfileState ?d = LayerProfileState ?c"
    then show "validateOutboundLayerBinding (layer_view ?d) (Some b) = None"
      using known by (simp add: validateOutboundLayerBinding_def b layer_view_def Let_def epoch_def)
  qed
qed

definition demo_resolve :: "int \<Rightarrow> int option" where
  "demo_resolve l = (if 225 \<le> l \<and> l \<le> 228 then Some l else None)"

lemma demo_resolves: "resolves demo_resolve"
  by (auto simp: resolves_def demo_resolve_def profile_fits_def split: if_splits)

theorem stale_push_detected_witness:
  "\<exists>b. stamp (layer_run demo_resolve [OpFreezeRaw 225 10] new_layer_conn) = Inr b
    \<and> validateOutboundLayerBinding
        (layer_view (layer_run demo_resolve ([OpFreezeRaw 225 10] @ [OpFreezeRaw 227 20, OpFreezeRaw 225 30]) new_layer_conn)) (Some b) \<noteq> None"
proof -
  let ?c = "layer_run demo_resolve [OpFreezeRaw 225 10] new_layer_conn"
  let ?d = "layer_run demo_resolve ([OpFreezeRaw 225 10] @ [OpFreezeRaw 227 20, OpFreezeRaw 225 30]) new_layer_conn"
  have "Sum_Type.isl (stamp ?c) = False" by code_simp
  then obtain b where b: "stamp ?c = Inr b" by (cases "stamp ?c") auto
  have "sn_epoch (LayerProfileState ?d) = 3" "sn_epoch (LayerProfileState ?c) = 1" by code_simp+
  then have "LayerProfileState ?d \<noteq> LayerProfileState ?c" by auto
  with stale_push_detected [OF demo_resolves b, of "[OpFreezeRaw 227 20, OpFreezeRaw 225 30]"] b show ?thesis by blast
qed

section \<open>Ordered evidence\<close>

text \<open>C40: evidence may arrive in any order. After the same observations in two orders a connection has
  the same profile, origin and evidence. When one of them is newer than what it had, the evidence is the
  observation of the greatest message id, layer and id as they were observed, and it selects what the
  layer resolves to; when none is newer nothing changes.\<close>

theorem layer_evidence_order_irrelevant:
  assumes "resolves resolve" and "c = layer_run resolve ops new_layer_conn" and "mset es = mset es'"
    and "\<forall>(l, i)\<in>set es. 0 < l \<and> 0 < i" and "\<forall>(l, i)\<in>set es. \<forall>(l', i')\<in>set es. i = i' \<longrightarrow> l = l'"
    and "unat (sn_epoch (LayerProfileState c)) + length es < 2 ^ 32"
  shows "selected (observe resolve es c) = selected (observe resolve es' c)
    \<and> lc_msgID (observe resolve es c) = lc_msgID (observe resolve es' c)
    \<and> lc_layer (observe resolve es c) = lc_layer (observe resolve es' c)
    \<and> (if \<forall>(l, i)\<in>set es. i \<le> lc_msgID c
       then lc_msgID (observe resolve es c) = lc_msgID c \<and> lc_layer (observe resolve es c) = lc_layer c
         \<and> selected (observe resolve es c) = selected c
       else (lc_layer (observe resolve es c), lc_msgID (observe resolve es c)) \<in> set es
         \<and> (\<forall>(l, i)\<in>set es. i \<le> lc_msgID (observe resolve es c))
         \<and> selected (observe resolve es c) = evidence_selects resolve (lc_layer (observe resolve es c)))"
proof -
  have inv: "layer_inv resolve c" using layer_run_inv [OF assms(1) new_inv] by (simp add: assms(2))
  have same: "set es' = set es" "length es' = length es" using assms(3) by (metis mset_eq_setD, metis mset_eq_length)
  have n: "newest resolve (set es) c (observe resolve es c)"
    by (rule observe_newest [OF assms(1) inv]) (use assms(4,6) in \<open>auto simp: epoch_def\<close>)
  have n': "newest resolve (set es) c (observe resolve es' c)"
    using observe_newest [OF assms(1) inv, of es'] assms(4,6) by (auto simp: same epoch_def)
  have "l = l'" if "(l, i) \<in> set es" "(l', i) \<in> set es" for l l' i using assms(5) that by blast
  with newest_unique [OF n n'] newest_cases [OF n] show ?thesis by simp
qed

theorem layer_evidence_order_irrelevant_witness:
  "selected (observe demo_resolve [(227, 20), (225, 10)] new_layer_conn) = (227, LayerProfileExplicit)
    \<and> selected (observe demo_resolve [(225, 10), (227, 20)] new_layer_conn) = (227, LayerProfileExplicit)
    \<and> (lc_layer (observe demo_resolve [(230, 30), (227, 20)] new_layer_conn), lc_msgID (observe demo_resolve [(230, 30), (227, 20)] new_layer_conn))
        = (230, 30)"
proof -
  have "selected (observe demo_resolve [(227, 20), (225, 10)] new_layer_conn) = selected (observe demo_resolve [(225, 10), (227, 20)] new_layer_conn)"
    using layer_evidence_order_irrelevant [OF demo_resolves, where c = new_layer_conn and ops = "[]"
        and es = "[(227, 20), (225, 10)]" and es' = "[(225, 10), (227, 20)]"]
    by (simp add: layer_run_def new_layer_conn_def LayerProfileState_def unpackLayerProfileState_def no_profile_def)
  moreover have "selected (observe demo_resolve [(225, 10), (227, 20)] new_layer_conn) = (227, LayerProfileExplicit)" by code_simp
  moreover have "(lc_layer (observe demo_resolve [(230, 30), (227, 20)] new_layer_conn), lc_msgID (observe demo_resolve [(230, 30), (227, 20)] new_layer_conn))
      = (230, 30)"
    using layer_evidence_order_irrelevant [OF demo_resolves, where c = new_layer_conn and ops = "[]"
        and es = "[(230, 30), (227, 20)]" and es' = "[(230, 30), (227, 20)]"]
    by (auto simp: layer_run_def new_layer_conn_def LayerProfileState_def unpackLayerProfileState_def no_profile_def)
  ultimately show ?thesis by simp
qed

text \<open>Defaults inherited from an auth key never weaken explicit evidence.\<close>

theorem explicit_layer_not_weakened:
  assumes "resolves resolve" and "c = layer_run resolve ops new_layer_conn"
    and "snd (selected c) = LayerProfileExplicit \<or> 0 < lc_msgID c" and "\<forall>op\<in>set inherited. inherited_op op"
  shows "layer_run resolve inherited c = c"
proof -
  have inv: "layer_inv resolve c" using layer_run_inv [OF assms(1) new_inv] by (simp add: assms(2))
  from assms(4) show ?thesis
    by (induction inherited) (simp_all add: layer_run_def inherited_op_inert [OF inv assms(3)])
qed

text \<open>A broadcast of newer evidence reaches every live connection of its session.\<close>

theorem ordered_layer_broadcast:
  assumes "resolves resolve" and "0 < layer" and "0 < msgID"
    and "\<And>c. layer_inv resolve (h c)" and "\<And>c. epoch (h c) < 2 ^ 32 - 1"
    and "\<And>c. c \<in> set (session_conns k m) \<Longrightarrow> \<not> retired m c \<Longrightarrow> lc_msgID (h c) < msgID"
  shows "\<exists>n h'. ApplyOrderedRawLayerForSession resolve None k layer msgID m h = ((n, None), h')
    \<and> (\<forall>c. if c \<in> set (session_conns k m) \<and> \<not> retired m c
           then selected (h' c) = evidence_selects resolve layer \<and> lc_msgID (h' c) = msgID else h' c = h c)"
proof -
  have d: "distinct (session_conns k m)" by (simp add: session_conns_def)
  have pos: "0 \<le> lc_msgID (h c)" for c using assms(4) [of c] by (simp add: layer_inv_def)
  obtain n h' where a: "apply_ordered resolve layer msgID m (session_conns k m) 0 h = ((n, None), h')"
    using apply_ordered_succeeds [OF assms(2,3) d, of m h resolve 0] assms(5,6) pos by blast
  have "if c \<in> set (session_conns k m) \<and> \<not> retired m c
      then selected (h' c) = evidence_selects resolve layer \<and> lc_msgID (h' c) = msgID else h' c = h c" for c
    using apply_ordered_result [OF d a, of c] freeze_cases [OF assms(1,4,2,3,5) refl, of c] assms(6) [of c] by auto
  with a assms(2,3) show ?thesis by (auto simp: ApplyOrderedRawLayerForSession_def)
qed

end
