(* ===== verification/Spec2Isabelle.thy ===== *)
theory Spec2Isabelle
  imports Ledger_Properties Outbox_Properties Delivery_Properties Inbound_Properties Scheduler_Properties
    Update_Properties Read_Cache_Properties Session_Properties Layer_Properties
begin

text \<open>
  Verification of the MTProto edge of the server (src/internal/mtprotoedge), the layer between client
  connections and RPC handlers, of the update service behind it (src/internal/app/updates) and of the
  cache that services read through (src/internal/readmodelcache). The edge
  decodes and validates frames, admits requests under budgets, schedules them on shared workers,
  executes each request at most once across connections, delivers the results under
  acknowledgement, and pushes updates to the sessions of an account. The update service keeps each account's log of events and each device's cursor
  in it. The sources are modelled one critical section at a time; a Go panic is the value \<open>None\<close>, an
  error return a constructor.

  \<^bold>\<open>How a request flows\<close>

  \<^item> A frame's bytes are opened by \<^emph>\<open>Wire\<close> (encrypted.go, inbound_preflight.go): zero-copy views of TL
    strings, id vectors and containers. \<^emph>\<open>Preflight\<close> walks the frame (\<open>walkInbound\<close>) against an overlay of
    the connection's table of client messages, \<^emph>\<open>Client_Messages\<close> (\<open>connState\<close>, \<open>connStateOverlay\<close>), under the
    frame budget of \<^emph>\<open>Rpc_Limits\<close>; \<^emph>\<open>Inbound_Session\<close> commits accepted frames. What the protocol library and
    the decompressor compute is the record \<open>lib\<close>, an argument of the definitions: no property assumes
    anything of it.
  \<^item> The requests of a frame are admitted as one batch and run by \<^emph>\<open>Rpc_Scheduler\<close> (inbound_rpc.go);
    \<^emph>\<open>Rpc_Machine\<close> interleaves its sections for all connections.
  \<^item> Before running, a request claims its key in the execution ledger, \<^emph>\<open>Rpc_Ledger\<close>
    (rpc_execution_ledger.go, rpc_flight.go), charged to \<^emph>\<open>Fair_Budget\<close> and \<^emph>\<open>Subscriber_Budget\<close>, ordered by
    \<^emph>\<open>Admission_Tracker\<close>.
  \<^item> The result is framed and retained by \<^emph>\<open>Outbox\<close> and \<^emph>\<open>Outbound_Send\<close> (outbound.go) until acknowledged,
    reserved by its producer and picked by the four-queue scheduler of \<^emph>\<open>Egress\<close> (polls in order of
    priority, then a blocking select that takes whichever queue is ready), and its delivery hook is run by \<^emph>\<open>Delivery_Coordinator\<close>,
    \<^emph>\<open>Delivery_Executor\<close> and \<^emph>\<open>Delivery\<close> (outbound.go, rpc_result_egress.go).
  \<^item> Handlers publish account events through \<^emph>\<open>Update_Service\<close> and \<^emph>\<open>Update_Publish\<close>
    (src/internal/app/updates/service.go) into the stores of \<^emph>\<open>Update_Store\<close>
    (src/internal/store/memory/updates.go); clients fetch them with \<open>getDifference\<close>, and the delivery hooks
    commit the cursors that were delivered. \<^emph>\<open>Update_Events\<close> holds the data (src/internal/domain),
    \<^emph>\<open>Update_Machine\<close> the runs: sequences of calls whose unlocked reads may see any earlier store.
  \<^item> Connections own sessions in the manager of \<^emph>\<open>Session_Types\<close> (session_manager.go, logical_session.go,
    conn.go): \<^emph>\<open>Session_Activation\<close> has claims, publication, retirement and logical sessions,
    \<^emph>\<open>Session_Identity\<close> the binding of auth keys and users, logout and revocation, \<^emph>\<open>Session_Channels\<close> the
    channel routes, \<^emph>\<open>Session_Delivery\<close> the pushes: kept while a session is not ready, flushed by a worker
    when it is, fanned out to a user or an auth key. \<^emph>\<open>Session_Machine\<close> interleaves all of them; between
    the identity check of a sender and the handover of its push others may act.
  \<^item> Each connection knows which wire layer its client speaks, \<^emph>\<open>Layer_Profile\<close> (conn_layer_profile.go): the
    operations that seed, correct and clear the packed profile, the sources a new connection is seeded
    from, and the stamp of a push (layer_updates.go) that is checked when it is written. \<^emph>\<open>Session_Layers\<close>
    has the calls of the session manager that apply layer evidence to live connections. What the
    generated profiles and the registry of negotiated layers answer are arguments.
  \<^item> Services read their stores through \<^emph>\<open>Read_Cache\<close> (readmodelcache/cache.go), whose loads, batches and
    invalidations \<^emph>\<open>Read_Cache_Runs\<close> interleaves with writers of the store and with unguarded stores.

  \<^bold>\<open>Shared contracts\<close>

  \<^emph>\<open>Bounded_Counter\<close> states the contract of a reservation counter as a locale; \<^emph>\<open>Rpc_Limits\<close> interprets it for
  the flight limit, the frame budget and the tracked-bytes budget. \<open>reservation_scope\<close> (\<^emph>\<open>Fair_Budget\<close>) and
  \<open>scoped_budget\<close> (\<^emph>\<open>Subscriber_Budget\<close>) are the contracts the ledger relies on. \<open>event_log\<close> and
  \<open>cursor_store\<close> (\<^emph>\<open>Update_Store\<close>) are the contracts the update service relies on, interpreted on the
  in-memory stores; \<open>account_updates\<close> (\<^emph>\<open>Update_Facts\<close>) joins them. \<open>closing_loop\<close>
  (\<^emph>\<open>Session_Revocation\<close>) is what the two loops of a forced close share, interpreted on owners and claims. \<^emph>\<open>Prelude\<close> holds the
  conventions and the generic lemmas.

  \<^bold>\<open>What is shown\<close>

  \<^item> \<^emph>\<open>Ledger_Ownership\<close> to \<^emph>\<open>Ledger_Facts\<close> prove the ledger invariant for every operation and every run;
    \<^emph>\<open>Ledger_Properties\<close> states: no panic, one owner per key, at most one execution within the receipt's
    life (unless the result is acknowledged or the session destroyed), exact counters of entries, bytes and
    subscribers within every limit, waiters always answered, stale leases inert, the admission
    floor monotone, expiry and session removal exact.
  \<^item> \<^emph>\<open>Outbox_Inv\<close> and \<^emph>\<open>Outbound_Send_Inv\<close> track every reserved byte; \<^emph>\<open>Outbox_Properties\<close> states: the budgets
    are the bytes of the retained bodies over any sequence of operations, no eviction by a send, exact
    acknowledgement, a result replayable under its original id until it is acknowledged, obsolete or
    superseded, increasing message ids, at most sixteen ordinary operations before a waiting bulk one
    (control and critical operations are not bounded), body reservations released once.
  \<^item> \<^emph>\<open>Delivery_Inv\<close> and \<^emph>\<open>Delivery_Properties\<close>: a hook runs at most once and, once accepted, is pending,
    owned or done in every later state, no waiter misses a
    wake-up, executor slots are exact, a frame's request id is frozen once writing begins.
  \<^item> \<^emph>\<open>Preflight_Inv\<close> and \<^emph>\<open>Inbound_Properties\<close>: decoders, whose reads are checked, stay in their buffers and invert the encodings; an
    accepted frame's plan is exact; a rejected frame leaves no trace; the table is the window of the last
    400 staged ids, its state reports refine that window, its fast sequence check equals the full scan,
    and an id is admitted at most once per window.
  \<^item> \<^emph>\<open>Rpc_Budget\<close>, \<^emph>\<open>Rpc_Accounting\<close> and \<^emph>\<open>Rpc_Accounting_Steps\<close>: the scheduler's counters are the requests and the sizes
    held by batches, queues and workers under every interleaving. \<^emph>\<open>Rpc_Wakeup\<close>: runnable work is always on its way to a worker, provided no connection is
    published between the two sections of an expiry; \<^emph>\<open>Rpc_Stranded\<close> shows that the proviso is needed: a
    request committed between the two sections strands its connection, which stays so until one of its
    requests expires, a replay barrier begins or it closes.
  \<^item> \<^emph>\<open>Update_Facts\<close> and \<^emph>\<open>Update_Properties\<close>: a client that follows the difference receives every event
    once and in order while others append, and finishes; device cursors never pass the log and never
    move back; every publication is refused without effect, repeats a known message, or appends one
    event with the next pts.
  \<^item> \<^emph>\<open>Read_Cache_Fresh\<close> and \<^emph>\<open>Read_Cache_Properties\<close>: the cache refines a bounded recency list; what it
    serves is the stored value unless, since the last invalidation of its key, the key was written or an
    unguarded \<open>Store\<close> put another value. Both exceptions of this guarantee that the code leaves open have
    their run: a caller that joins a finished load, and a store that comes after its invalidation.
  \<^item> \<^emph>\<open>Session_Registry\<close> views the manager as its registry; \<^emph>\<open>Session_Registry_Inv\<close>, \<^emph>\<open>Session_Ops\<close>,
    \<^emph>\<open>Session_Identity_Inv\<close> and \<^emph>\<open>Session_World\<close> prove it exact and within its cap in every reachable state.
    \<^emph>\<open>Session_Routes\<close> and \<^emph>\<open>Session_Routes_Inv\<close> do the same for channel routes, \<^emph>\<open>Session_Kept\<close>,
    \<^emph>\<open>Session_Kept_Inv\<close> and \<^emph>\<open>Session_Kept_World\<close> for the accounting of kept pushes, \<^emph>\<open>Session_Accounts\<close> and
    \<^emph>\<open>Session_Accounts_World\<close> for whose pushes they are. \<^emph>\<open>Session_Properties\<close> states: one owner per session,
    exact indexes and routes, activation ends under the cap, pushes stay with the account a
    connection had when the sender checked (and a run that shows why no more holds), reservations exact,
    revocation exact, and (\<^emph>\<open>Session_Flush\<close>) an undisturbed flush always ends and delivers in
    order. That kept pushes stay with their account rests on the order the RPC router keeps: a session is made
    ready only after its auth key is resolved.
  \<^item> \<^emph>\<open>Layer_Profile_Inv\<close> proves that packing loses nothing, that the epoch advances with every change and
    never wraps, and what ordered evidence does; \<^emph>\<open>Layer_Properties\<close> states: a push prepared under an older
    profile is always detected, evidence may arrive in any order and the newest counts as it was observed, inherited defaults never weaken
    explicit evidence, and a broadcast reaches every live connection of its session.

  \<^bold>\<open>Bounds\<close>

  Loops are structural, or (the frame walk) terminate by the depth limit of 4 and the number of messages,
  or (the eviction of sessions) by the load of the auth key. The number of steps of a flush worker is a
  fuel whose sufficiency is what its property states. Message ids, sizes and instants are integers; where the code relies on the 64-bit
  range, the range is an assumption on the received id or a proved bound. Go maps whose iteration order
  the code observes are association lists in arbitrary order. The cache's 64-bit epoch is a word; its
  freshness is proved while fewer than \<open>2\<^sup>6\<^sup>4\<close> invalidations have happened.

  \<^bold>\<open>Not modelled\<close>

  Encryption, sockets and timers are outcomes supplied to the steps that use them; the wake-up channel
  of idle workers, metrics and logging have no state in the model. The key exchange, transports, the
  closing of sockets and its deadlines, the encoding of bodies for a layer and rewrapping, and the rest of what lies behind the RPC handlers
  (handlers, other services and stores, bots, administration, web) are outside this development. The
  update service is proved over stores that keep every event; the retention checkpoint of the SQL store
  is a branch of the model that those stores do not take.
\<close>

end
